(* ===== verification/DD_Prelude.thy ===== *)
theory DD_Prelude
  imports Main "HOL-Library.Word"
begin

text \<open>
  Shared vocabulary of the development: the machine integer types of
  \<^verbatim>\<open>shared/legacy/core/inc/ddcDefs.h\<close>, the \<^verbatim>\<open>Result\<close> codes every component returns, byte
  arrays as the C++ code copies them, little-endian field codecs, and the generic lemmas on words
  that the components use.  The collections \<open>dd_enum\<close> (enum encodings) and \<open>dd_frame\<close> (what an
  operation leaves unchanged) are filled by the component theories.
\<close>

unbundle bit_operations_syntax

named_theorems dd_enum \<open>encodings of the enums\<close>
named_theorems dd_frame \<open>fields that an operation leaves unchanged\<close>

type_synonym u8 = "8 word"
type_synonym u16 = "16 word"
type_synonym u32 = "32 word"
type_synonym u64 = "64 word"

subsection \<open>Result codes\<close>

text \<open>
  \<^verbatim>\<open>enum struct Result : uint32\<close>.  A value that arrives from the network is cast to this type
  without a check, so a code with no name is a value of the type too.
\<close>

datatype Result =
    Success | Error | NotReady | VersionMismatch | Unavailable | Rejected | EndOfStream | Aborted
  | InsufficientMemory | InvalidParameter | InvalidClientId | ConnectionExists | FileNotFound
  | FunctionNotFound | InterfaceNotFound | EntryExists | FileAccessError | FileIoError
  | LimitReached | MemoryOverLimit
  | UriServiceRegistrationError | UriStringParseError | UriInvalidParameters
  | UriInvalidPostDataBlock | UriInvalidPostDataSize | UriFailedToAcquirePostBlock
  | UriFailedToOpenResponseBlock | UriRequestFailed | UriPendingRequestError | UriInvalidChar
  | UriInvalidJson
  | SettingsUriInvalidComponent | SettingsUriInvalidSettingName | SettingsUriInvalidSettingValue
  | SettingsUriInvalidSettingValueSize
  | InfoUriSourceNameInvalid | InfoUriSourceCallbackInvalid | InfoUriSourceAlreadyRegistered
  | InfoUriSourceWriteFailed
  | SettingsInvalidComponent | SettingsInvalidSettingName | SettingsInvalidSettingValue
  | SettingsInsufficientValueSize | SettingsInvalidSettingValueSize
  | UnnamedResult u32

definition result_table :: "(u32 \<times> Result) list" where
  "result_table =
    [(0, Success), (1, Error), (2, NotReady), (3, VersionMismatch), (4, Unavailable),
     (5, Rejected), (6, EndOfStream), (7, Aborted), (8, InsufficientMemory),
     (9, InvalidParameter), (10, InvalidClientId), (11, ConnectionExists), (12, FileNotFound),
     (13, FunctionNotFound), (14, InterfaceNotFound), (15, EntryExists), (16, FileAccessError),
     (17, FileIoError), (18, LimitReached), (19, MemoryOverLimit),
     (1000, UriServiceRegistrationError), (1001, UriStringParseError),
     (1002, UriInvalidParameters), (1003, UriInvalidPostDataBlock),
     (1004, UriInvalidPostDataSize), (1005, UriFailedToAcquirePostBlock),
     (1006, UriFailedToOpenResponseBlock), (1007, UriRequestFailed),
     (1008, UriPendingRequestError), (1009, UriInvalidChar), (1010, UriInvalidJson),
     (2000, SettingsUriInvalidComponent), (2001, SettingsUriInvalidSettingName),
     (2002, SettingsUriInvalidSettingValue), (2003, SettingsUriInvalidSettingValueSize),
     (3000, InfoUriSourceNameInvalid), (3001, InfoUriSourceCallbackInvalid),
     (3002, InfoUriSourceAlreadyRegistered), (3003, InfoUriSourceWriteFailed),
     (4000, SettingsInvalidComponent), (4001, SettingsInvalidSettingName),
     (4002, SettingsInvalidSettingValue), (4003, SettingsInsufficientValueSize),
     (4004, SettingsInvalidSettingValueSize)]"

definition result_of_code :: "u32 \<Rightarrow> Result" where
  "result_of_code c = (case map_of result_table c of Some r \<Rightarrow> r | None \<Rightarrow> UnnamedResult c)"

fun code_of_result :: "Result \<Rightarrow> u32" where
  "code_of_result (UnnamedResult c) = c"
| "code_of_result r = (case map_of (map prod.swap result_table) r of Some c \<Rightarrow> c | None \<Rightarrow> 0)"

lemma code_of_result_of_code [dd_enum]: "code_of_result (result_of_code c) = c"
proof (cases "map_of result_table c")
  case None
  then show ?thesis by (simp add: result_of_code_def)
next
  case (Some r)
  then have "(c, r) \<in> set result_table" by (rule map_of_SomeD)
  then have "code_of_result r = c" by (auto simp: result_table_def)
  with Some show ?thesis by (simp add: result_of_code_def)
qed

lemma result_of_code_Success [dd_enum]: "result_of_code c = Success \<longleftrightarrow> c = 0"
proof
  assume "result_of_code c = Success"
  then have "code_of_result (result_of_code c) = 0" by (simp add: result_table_def)
  then show "c = 0" by (simp add: dd_enum)
qed (simp add: result_of_code_def result_table_def)

subsection \<open>Byte arrays\<close>

text \<open>
  A fixed size \<^verbatim>\<open>char\<close> array that starts zero-initialised is a list of its bytes; the bytes past
  the end of the list are zero.  \<open>byte_at\<close> reads one byte, \<open>bytes_at n\<close> the first \<open>n\<close>, and
  \<open>memcpy n\<close> overwrites the first \<open>n\<close> bytes of the destination, as \<^verbatim>\<open>Memcpy_s\<close> does.
\<close>

definition byte_at :: "u8 list \<Rightarrow> nat \<Rightarrow> u8" where
  "byte_at bs i = (if i < length bs then bs ! i else 0)"

definition bytes_at :: "nat \<Rightarrow> u8 list \<Rightarrow> u8 list" where
  "bytes_at n bs = take n bs @ replicate (n - length bs) 0"

definition memcpy :: "nat \<Rightarrow> u8 list \<Rightarrow> u8 list \<Rightarrow> u8 list" where
  "memcpy n dst src = bytes_at n src @ drop n dst"

lemma length_bytes_at [simp]: "length (bytes_at n bs) = n"
  by (simp add: bytes_at_def)

lemma bytes_at_exact [simp]: "length bs = n \<Longrightarrow> bytes_at n bs = bs"
  by (simp add: bytes_at_def)

lemma bytes_at_0 [simp]: "bytes_at 0 bs = []"
  by (simp add: bytes_at_def)

lemma bytes_at_memcpy [simp]: "bytes_at n (memcpy n dst src) = bytes_at n src"
  by (simp add: memcpy_def bytes_at_def)

lemma bytes_at_idem [simp]: "bytes_at n (bytes_at n bs) = bytes_at n bs"
  by simp

subsection \<open>Little-endian fields\<close>

fun le_bytes :: "nat \<Rightarrow> nat \<Rightarrow> u8 list" where
  "le_bytes 0 v = []"
| "le_bytes (Suc n) v = word_of_nat (v mod 256) # le_bytes n (v div 256)"

fun le_value :: "u8 list \<Rightarrow> nat" where
  "le_value [] = 0"
| "le_value (b # bs) = unat b + 256 * le_value bs"

lemma length_le_bytes [simp]: "length (le_bytes n v) = n"
  by (induction n arbitrary: v) auto

lemma unat_byte [simp]: "unat (word_of_nat (v mod 256) :: u8) = v mod 256"
  by (simp add: unat_of_nat)

lemma le_value_bytes [simp]: "le_value (le_bytes n v) = v mod 256 ^ n"
  by (induction n arbitrary: v) (simp_all add: mod_mult2_eq)

lemma le_value_bound: "le_value bs < 256 ^ length bs"
proof (induction bs)
  case (Cons b bs)
  have "unat b < 256" using unsigned_less [of b] by simp
  with Cons.IH show ?case by simp
qed simp

lemma le_bytes_value: "length bs = n \<Longrightarrow> le_bytes n (le_value bs) = bs"
proof (induction bs arbitrary: n)
  case (Cons b bs)
  have b: "unat b < 256" using unsigned_less [of b] by simp
  from Cons.prems obtain m where n: "n = Suc m" and m: "length bs = m" by auto
  from b have "(unat b + 256 * le_value bs) mod 256 = unat b"
    and "(unat b + 256 * le_value bs) div 256 = le_value bs" by simp_all
  with n Cons.IH [OF m] show ?case by simp
qed simp

text \<open>The field codec at a word width: \<open>n\<close> bytes hold a word of \<open>8 * n\<close> bits.\<close>

definition put_word :: "nat \<Rightarrow> 'a::len word \<Rightarrow> u8 list" where
  "put_word n w = le_bytes n (unat w)"

definition get_word :: "nat \<Rightarrow> nat \<Rightarrow> u8 list \<Rightarrow> 'a::len word" where
  "get_word off n bs = word_of_nat (le_value (take n (drop off bs)))"

lemma length_put_word [simp]: "length (put_word n w) = n"
  by (simp add: put_word_def)

lemma word_of_nat_unat_mod:
  assumes "LENGTH('a::len) \<le> 8 * n"
  shows "word_of_nat (unat (w :: 'a word) mod 256 ^ n) = w"
proof -
  have "unat w < 2 ^ LENGTH('a)" by (rule unsigned_less)
  also have "(2::nat) ^ LENGTH('a) \<le> 2 ^ (8 * n)" using assms by (simp add: power_increasing)
  also have "(2::nat) ^ (8 * n) = 256 ^ n" by (simp add: power_mult)
  finally show ?thesis by simp
qed

lemma get_put_word:
  assumes "LENGTH('a::len) \<le> 8 * n"
  shows "get_word (length pre) n (pre @ put_word n (w :: 'a word) @ post) = w"
  using assms by (simp add: get_word_def put_word_def word_of_nat_unat_mod)

subsection \<open>Words\<close>

lemma unat_add_no_wrap:
  "unat (a::'a::len word) + unat b < 2 ^ LENGTH('a) \<Longrightarrow> unat (a + b) = unat a + unat b"
  by (simp add: unat_word_ariths)

lemma unat_Suc_no_wrap:
  "unat (a::'a::len word) + 1 < 2 ^ LENGTH('a) \<Longrightarrow> unat (a + 1) = unat a + 1"
  by (simp add: unat_word_ariths)

lemma unat_Suc_not_max: "a \<noteq> - 1 \<Longrightarrow> unat (a + 1) = unat (a::'a::len word) + 1"
  using unatSuc [of a] by (simp add: add.commute eq_neg_iff_add_eq_0)

lemma measure_step_below: "(a::'a::len word) < b \<Longrightarrow> unat b - unat (a + 1) < unat b - unat a"
proof -
  assume "a < b"
  then have "unat a < unat b" by (simp add: word_less_nat_alt)
  moreover have "unat b < 2 ^ LENGTH('a)" by (rule unsigned_less)
  ultimately have "unat (a + 1) = unat a + 1" by (intro unat_Suc_no_wrap) linarith
  with \<open>unat a < unat b\<close> show ?thesis by linarith
qed

lemma unat_minus_le: "(b::'a::len word) \<le> a \<Longrightarrow> unat (a - b) = unat a - unat b"
  by (simp add: unat_sub word_le_nat_alt)

subsection \<open>Ring indices\<close>

text \<open>Within one window of \<open>m\<close> consecutive numbers the index modulo \<open>m\<close> determines the number.\<close>

lemma ring_index_inj:
  fixes q r :: nat
  assumes "u \<le> q" "q < u + m" "u \<le> r" "r < u + m" "q mod m = r mod m"
  shows "q = r"
proof (rule ccontr)
  assume "q \<noteq> r"
  then consider "q < r" | "r < q" by linarith
  then show False
  proof cases
    case 1
    then have "m dvd r - q" using assms(5) by (metis mod_eq_dvd_iff_nat less_imp_le)
    then have "m \<le> r - q" using 1 by (simp add: dvd_imp_le)
    with assms show False by linarith
  next
    case 2
    then have "m dvd q - r" using assms(5) by (metis mod_eq_dvd_iff_nat less_imp_le)
    then have "m \<le> q - r" using 2 by (simp add: dvd_imp_le)
    with assms show False by linarith
  qed
qed

end
