(* ===== verification/Messages.thy ===== *)
theory Messages
  imports DD_Prelude
begin

text \<open>
  The message layer of the bus: \<^verbatim>\<open>shared/legacy/inc/gpuopen.h\<close>, \<^verbatim>\<open>shared/legacy/src/gpuopen.cpp\<close>
  and \<^verbatim>\<open>shared/legacy/inc/protocols/systemProtocols.h\<close> with its \<^verbatim>\<open>.cpp\<close>.  It holds the wire
  structures as records with their byte layout, the client metadata filter, the validation of a
  buffer that arrives from outside, and the classification of out-of-band messages.
\<close>

subsection \<open>Types and constants\<close>

type_synonym ClientId = u16
type_synonym SessionId = u32
type_synonym MessageCode = u8
type_synonym WindowSize = u16
type_synonym Sequence = u64
type_synonym Version = u16
type_synonym StatusFlags = u16
type_synonym Protocol = u8
type_synonym Component = u8
type_synonym SessionVersion = u8

definition kRouterPrefixWidth :: nat where "kRouterPrefixWidth = 3"
definition kRouterPrefixShift :: nat where "kRouterPrefixShift = 16 - kRouterPrefixWidth"
definition kClientIdMask :: ClientId where "kClientIdMask = push_bit kRouterPrefixShift 1 - 1"
definition kRouterPrefixMask :: ClientId where "kRouterPrefixMask = NOT kClientIdMask"

abbreviation (input) kBroadcastClientId :: ClientId where "kBroadcastClientId \<equiv> 0"
abbreviation (input) kInvalidSessionId :: SessionId where "kInvalidSessionId \<equiv> 0"
abbreviation (input) kMessageVersion :: u64 where "kMessageVersion \<equiv> 1011"

definition sizeof_MessageHeader :: nat where "sizeof_MessageHeader = 24"
definition kMaxMessageSizeInBytes :: nat where "kMaxMessageSizeInBytes = 1408"
definition kMaxPayloadSizeInBytes :: nat where
  "kMaxPayloadSizeInBytes = kMaxMessageSizeInBytes - sizeof_MessageHeader"
definition sizeof_MessageBuffer :: nat where
  "sizeof_MessageBuffer = sizeof_MessageHeader + kMaxPayloadSizeInBytes"

lemmas msg_size_defs =
  sizeof_MessageHeader_def kMaxMessageSizeInBytes_def kMaxPayloadSizeInBytes_def
  sizeof_MessageBuffer_def

text \<open>\<^verbatim>\<open>enum struct Protocol : uint8\<close>; every byte can arrive in a header.\<close>

abbreviation (input) Protocol_DriverControl :: Protocol where "Protocol_DriverControl \<equiv> 0"
abbreviation (input) Protocol_RGP :: Protocol where "Protocol_RGP \<equiv> 3"
abbreviation (input) Protocol_ETW :: Protocol where "Protocol_ETW \<equiv> 4"
abbreviation (input) Protocol_Event :: Protocol where "Protocol_Event \<equiv> 6"
abbreviation (input) Protocol_Transfer :: Protocol where "Protocol_Transfer \<equiv> 251"
abbreviation (input) Protocol_URI :: Protocol where "Protocol_URI \<equiv> 252"
abbreviation (input) Protocol_Session :: Protocol where "Protocol_Session \<equiv> 253"
abbreviation (input) Protocol_ClientManagement :: Protocol where "Protocol_ClientManagement \<equiv> 254"
abbreviation (input) Protocol_System :: Protocol where "Protocol_System \<equiv> 255"

text \<open>\<^verbatim>\<open>enum struct Component : uint8\<close>.\<close>

abbreviation (input) Component_Unknown :: Component where "Component_Unknown \<equiv> 0"
abbreviation (input) Component_Server :: Component where "Component_Server \<equiv> 1"
abbreviation (input) Component_Tool :: Component where "Component_Tool \<equiv> 2"
abbreviation (input) Component_Driver :: Component where "Component_Driver \<equiv> 3"

text \<open>The message codes of the three system protocols, each with the codes that have no name.\<close>

datatype SystemMessage =
    SysUnknown | ClientConnected | ClientDisconnected | Ping | Pong | QueryClientInfo | ClientInfo
  | Halted | SysOther MessageCode

definition SystemMessage_of :: "MessageCode \<Rightarrow> SystemMessage" where
  "SystemMessage_of c =
    (if c = 0 then SysUnknown else if c = 1 then ClientConnected
     else if c = 2 then ClientDisconnected else if c = 3 then Ping else if c = 4 then Pong
     else if c = 5 then QueryClientInfo else if c = 6 then ClientInfo
     else if c = 7 then Halted else SysOther c)"

fun code_of_SystemMessage :: "SystemMessage \<Rightarrow> MessageCode" where
  "code_of_SystemMessage SysUnknown = 0"
| "code_of_SystemMessage ClientConnected = 1"
| "code_of_SystemMessage ClientDisconnected = 2"
| "code_of_SystemMessage Ping = 3"
| "code_of_SystemMessage Pong = 4"
| "code_of_SystemMessage QueryClientInfo = 5"
| "code_of_SystemMessage ClientInfo = 6"
| "code_of_SystemMessage Halted = 7"
| "code_of_SystemMessage (SysOther c) = c"

datatype SessionMessage =
    SesUnknown | Syn | SynAck | Fin | Data | Ack | Rst | SesOther MessageCode

definition SessionMessage_of :: "MessageCode \<Rightarrow> SessionMessage" where
  "SessionMessage_of c =
    (if c = 0 then SesUnknown else if c = 1 then Syn else if c = 2 then SynAck
     else if c = 3 then Fin else if c = 4 then Data else if c = 5 then Ack
     else if c = 6 then Rst else SesOther c)"

fun code_of_SessionMessage :: "SessionMessage \<Rightarrow> MessageCode" where
  "code_of_SessionMessage SesUnknown = 0"
| "code_of_SessionMessage Syn = 1"
| "code_of_SessionMessage SynAck = 2"
| "code_of_SessionMessage Fin = 3"
| "code_of_SessionMessage Data = 4"
| "code_of_SessionMessage Ack = 5"
| "code_of_SessionMessage Rst = 6"
| "code_of_SessionMessage (SesOther c) = c"

datatype ManagementMessage =
    MgmtUnknown | ConnectRequest | ConnectResponse | DisconnectNotification | DisconnectResponse
  | SetClientFlags | SetClientFlagsResponse | QueryStatus | QueryStatusResponse | KeepAlive
  | MgmtOther MessageCode

definition ManagementMessage_of :: "MessageCode \<Rightarrow> ManagementMessage" where
  "ManagementMessage_of c =
    (if c = 0 then MgmtUnknown else if c = 1 then ConnectRequest else if c = 2 then ConnectResponse
     else if c = 3 then DisconnectNotification else if c = 4 then DisconnectResponse
     else if c = 5 then SetClientFlags else if c = 6 then SetClientFlagsResponse
     else if c = 7 then QueryStatus else if c = 8 then QueryStatusResponse
     else if c = 9 then KeepAlive else MgmtOther c)"

fun code_of_ManagementMessage :: "ManagementMessage \<Rightarrow> MessageCode" where
  "code_of_ManagementMessage MgmtUnknown = 0"
| "code_of_ManagementMessage ConnectRequest = 1"
| "code_of_ManagementMessage ConnectResponse = 2"
| "code_of_ManagementMessage DisconnectNotification = 3"
| "code_of_ManagementMessage DisconnectResponse = 4"
| "code_of_ManagementMessage SetClientFlags = 5"
| "code_of_ManagementMessage SetClientFlagsResponse = 6"
| "code_of_ManagementMessage QueryStatus = 7"
| "code_of_ManagementMessage QueryStatusResponse = 8"
| "code_of_ManagementMessage KeepAlive = 9"
| "code_of_ManagementMessage (MgmtOther c) = c"

subsection \<open>Client metadata\<close>

text \<open>
  \<^verbatim>\<open>struct ClientMetadata\<close>: the protocol flags (a \<^verbatim>\<open>union\<close> over a \<^verbatim>\<open>uint32\<close>, one bit per
  protocol), the client type and the status flags.
\<close>

record ClientMetadata =
  protocols :: u32
  clientType :: Component
  md_reserved :: u8
  status :: StatusFlags

definition ProtocolFlags_driverControl :: u32 where "ProtocolFlags_driverControl = push_bit 2 1"
definition ProtocolFlags_rgp :: u32 where "ProtocolFlags_rgp = push_bit 3 1"
definition ProtocolFlags_etw :: u32 where "ProtocolFlags_etw = push_bit 4 1"
definition ProtocolFlags_event :: u32 where "ProtocolFlags_event = push_bit 6 1"

definition default_ClientMetadata :: ClientMetadata where
  "default_ClientMetadata = \<lparr>protocols = 0, clientType = 0, md_reserved = 0, status = 0\<rparr>"

text \<open>The constructor that unpacks the 64-bit sequence field of a system message.\<close>

definition ClientMetadata_of_u64 :: "u64 \<Rightarrow> ClientMetadata" where
  "ClientMetadata_of_u64 v =
    \<lparr>protocols = ucast (v AND 0xFFFF),
     clientType = ucast (drop_bit 32 (v AND 0xFF00000000)),
     md_reserved = 0,
     status = ucast (drop_bit 48 (v AND 0xFFFF000000000000))\<rparr>"

text \<open>
  The other direction is the \<^verbatim>\<open>Memcpy_s\<close> of the struct's eight bytes over the sequence field in
  \<^verbatim>\<open>MessageChannel::Send\<close>, on a little-endian machine.
\<close>

definition u64_of_ClientMetadata :: "ClientMetadata \<Rightarrow> u64" where
  "u64_of_ClientMetadata md =
    get_word 0 8 (put_word 4 (protocols md) @ put_word 1 (clientType md)
                  @ put_word 1 (md_reserved md) @ put_word 2 (status md))"

definition IsDefault :: "ClientMetadata \<Rightarrow> bool" where
  "IsDefault md \<longleftrightarrow> protocols md = 0 \<and> clientType md = Component_Unknown \<and> status md = 0"

definition Matches :: "ClientMetadata \<Rightarrow> ClientMetadata \<Rightarrow> bool" where
  "Matches md right =
    (if IsDefault md then True
     else
       (let clientTypeMatches =
              (if clientType md \<noteq> Component_Unknown then clientType md = clientType right else True);
            protocolMatches =
              (if protocols md \<noteq> 0 then protocols md AND protocols right = protocols md else True);
            statusMatches =
              (if status md \<noteq> 0 then status md AND status right = status md else True)
        in clientTypeMatches \<and> protocolMatches \<and> statusMatches))"

definition MatchesAny :: "ClientMetadata \<Rightarrow> ClientMetadata \<Rightarrow> bool" where
  "MatchesAny md right =
    (if IsDefault md then True
     else
       (let clientTypeMatches = (clientType md = clientType right);
            protocolMatches = (protocols md AND protocols right \<noteq> 0);
            statusMatches = (status md AND status right \<noteq> 0)
        in clientTypeMatches \<or> protocolMatches \<or> statusMatches))"

subsection \<open>Message header and message buffer\<close>

record MessageHeader =
  srcClientId :: ClientId
  dstClientId :: ClientId
  protocolId :: Protocol
  messageId :: MessageCode
  windowSize :: WindowSize
  payloadSize :: u32
  sessionId :: SessionId
  sequence :: Sequence

record MessageBuffer =
  header :: MessageHeader
  payload :: "u8 list"

definition zero_header :: MessageHeader where
  "zero_header = \<lparr>srcClientId = 0, dstClientId = 0, protocolId = 0, messageId = 0, windowSize = 0,
                  payloadSize = 0, sessionId = 0, sequence = 0\<rparr>"

text \<open>\<^verbatim>\<open>MessageBuffer messageBuffer = {}\<close>.\<close>

definition zero_message :: MessageBuffer where
  "zero_message = \<lparr>header = zero_header, payload = []\<rparr>"

definition encode_header :: "MessageHeader \<Rightarrow> u8 list" where
  "encode_header h =
     put_word 2 (srcClientId h) @ put_word 2 (dstClientId h)
     @ put_word 1 (protocolId h) @ put_word 1 (messageId h) @ put_word 2 (windowSize h)
     @ put_word 4 (payloadSize h) @ put_word 4 (sessionId h) @ put_word 8 (sequence h)"

text \<open>\<^verbatim>\<open>reinterpret_cast<const MessageHeader*>\<close> of a byte buffer.\<close>

definition decode_header :: "u8 list \<Rightarrow> MessageHeader" where
  "decode_header bs =
    \<lparr>srcClientId = get_word 0 2 bs, dstClientId = get_word 2 2 bs,
     protocolId = get_word 4 1 bs, messageId = get_word 5 1 bs, windowSize = get_word 6 2 bs,
     payloadSize = get_word 8 4 bs, sessionId = get_word 12 4 bs, sequence = get_word 16 8 bs\<rparr>"

text \<open>
  \<^verbatim>\<open>ValidateMessageBuffer(pMsgBuffer, msgBufferSize)\<close>: \<open>None\<close> is the null pointer, \<open>Some bs\<close> a
  buffer of at least \<open>msgBufferSize\<close> bytes.
\<close>

definition ValidateMessageBuffer :: "u8 list option \<Rightarrow> nat \<Rightarrow> Result" where
  "ValidateMessageBuffer pMsgBuffer msgBufferSize =
    (case pMsgBuffer of
       None \<Rightarrow> InvalidParameter
     | Some bs \<Rightarrow>
         if msgBufferSize > 0 then
           (if msgBufferSize \<le> sizeof_MessageBuffer \<and> msgBufferSize \<ge> sizeof_MessageHeader then
              (let encodedMessageSize = sizeof_MessageHeader + unat (payloadSize (decode_header bs))
               in if encodedMessageSize = msgBufferSize then Success else Error)
            else Error)
         else InvalidParameter)"

subsection \<open>Payload structures\<close>

record SynPayload =
  minVersion :: Version
  syn_protocol :: Protocol
  syn_sessionVersion :: SessionVersion
  maxVersion :: Version

definition sizeof_SynPayload :: nat where "sizeof_SynPayload = 8"

definition encode_SynPayload :: "SynPayload \<Rightarrow> u8 list" where
  "encode_SynPayload p =
     put_word 2 (minVersion p) @ put_word 1 (syn_protocol p) @ put_word 1 (syn_sessionVersion p)
     @ put_word 2 (maxVersion p) @ [0, 0]"

definition decode_SynPayload :: "u8 list \<Rightarrow> SynPayload" where
  "decode_SynPayload pl =
    (let bs = bytes_at sizeof_SynPayload pl in
     \<lparr>minVersion = get_word 0 2 bs, syn_protocol = get_word 2 1 bs,
      syn_sessionVersion = get_word 3 1 bs, maxVersion = get_word 4 2 bs\<rparr>)"

record SynAckPayload =
  ack_sequence :: Sequence
  initialSessionId :: SessionId
  ack_version :: Version
  ack_sessionVersion :: SessionVersion

definition sizeof_SynAckPayload :: nat where "sizeof_SynAckPayload = 16"

definition encode_SynAckPayload :: "SynAckPayload \<Rightarrow> u8 list" where
  "encode_SynAckPayload p =
     put_word 8 (ack_sequence p) @ put_word 4 (initialSessionId p) @ put_word 2 (ack_version p)
     @ put_word 1 (ack_sessionVersion p) @ [0]"

definition decode_SynAckPayload :: "u8 list \<Rightarrow> SynAckPayload" where
  "decode_SynAckPayload pl =
    (let bs = bytes_at sizeof_SynAckPayload pl in
     \<lparr>ack_sequence = get_word 0 8 bs, initialSessionId = get_word 8 4 bs,
      ack_version = get_word 12 2 bs, ack_sessionVersion = get_word 14 1 bs\<rparr>)"

definition sizeof_ConnectRequestPayload :: nat where "sizeof_ConnectRequestPayload = 8"

definition encode_ConnectRequestPayload :: "StatusFlags \<Rightarrow> Component \<Rightarrow> u8 list" where
  "encode_ConnectRequestPayload initialClientFlags componentType =
     put_word 2 initialClientFlags @ [0, 0] @ put_word 1 componentType @ [0, 0, 0]"

record ConnectResponsePayload =
  crp_result :: Result
  crp_clientId :: ClientId

definition sizeof_ConnectResponsePayload :: nat where "sizeof_ConnectResponsePayload = 8"

definition encode_ConnectResponsePayload :: "ConnectResponsePayload \<Rightarrow> u8 list" where
  "encode_ConnectResponsePayload p =
     put_word 4 (code_of_result (crp_result p)) @ put_word 2 (crp_clientId p) @ [0, 0]"

definition decode_ConnectResponsePayload :: "u8 list \<Rightarrow> ConnectResponsePayload" where
  "decode_ConnectResponsePayload pl =
    (let bs = bytes_at sizeof_ConnectResponsePayload pl in
     \<lparr>crp_result = result_of_code (get_word 0 4 bs), crp_clientId = get_word 4 2 bs\<rparr>)"

definition sizeof_SetClientFlagsResponsePayload :: nat where
  "sizeof_SetClientFlagsResponsePayload = 4"

definition encode_SetClientFlagsResponsePayload :: "Result \<Rightarrow> u8 list" where
  "encode_SetClientFlagsResponsePayload r = put_word 4 (code_of_result r)"

definition sizeof_QueryStatusResponsePayload :: nat where "sizeof_QueryStatusResponsePayload = 8"

definition encode_QueryStatusResponsePayload :: "Result \<Rightarrow> StatusFlags \<Rightarrow> u8 list" where
  "encode_QueryStatusResponsePayload r flags =
     put_word 4 (code_of_result r) @ put_word 2 flags @ [0, 0]"

text \<open>Strings in messages; \<^verbatim>\<open>Platform::Strncpy\<close> cuts a string to the array and fills up with zeros.\<close>

definition kMaxStringLength :: nat where "kMaxStringLength = 128"
definition sizeof_ClientInfoStruct :: nat where "sizeof_ClientInfoStruct = 512"

definition Strncpy :: "nat \<Rightarrow> u8 list \<Rightarrow> u8 list" where
  "Strncpy dstSize src = bytes_at dstSize (take (dstSize - 1) (takeWhile (\<lambda>b. b \<noteq> 0) src))"

subsection \<open>Out-of-band messages\<close>

definition kOutOfBandMessage :: MessageBuffer where
  "kOutOfBandMessage =
    \<lparr>header = \<lparr>srcClientId = kBroadcastClientId, dstClientId = kBroadcastClientId,
               protocolId = Protocol_ClientManagement, messageId = 0, windowSize = 0,
               payloadSize = 0, sessionId = 0, sequence = kMessageVersion\<rparr>,
     payload = []\<rparr>"

definition IsOutOfBandMessage :: "MessageBuffer \<Rightarrow> bool" where
  "IsOutOfBandMessage message \<longleftrightarrow>
     dstClientId (header message) OR srcClientId (header message) = kBroadcastClientId"

definition IsValidOutOfBandMessage :: "MessageBuffer \<Rightarrow> bool" where
  "IsValidOutOfBandMessage message \<longleftrightarrow>
     sequence (header message) = kMessageVersion
     \<and> protocolId (header message) = Protocol_ClientManagement"

subsection \<open>Lemmas: encodings\<close>

lemma SystemMessage_of_code [dd_enum]: "code_of_SystemMessage (SystemMessage_of c) = c"
  by (simp add: SystemMessage_of_def)

lemma SessionMessage_of_code [dd_enum]: "code_of_SessionMessage (SessionMessage_of c) = c"
  by (simp add: SessionMessage_of_def)

lemma ManagementMessage_of_code [dd_enum]: "code_of_ManagementMessage (ManagementMessage_of c) = c"
  by (simp add: ManagementMessage_of_def)

lemma SessionMessage_of_simps [simp]:
  "SessionMessage_of 1 = Syn" "SessionMessage_of 2 = SynAck" "SessionMessage_of 3 = Fin"
  "SessionMessage_of 4 = Data" "SessionMessage_of 5 = Ack" "SessionMessage_of 6 = Rst"
  "SessionMessage_of 0 = SesUnknown"
  by (simp_all add: SessionMessage_of_def)

lemma SessionMessage_of_eq:
  "SessionMessage_of c = Syn \<longleftrightarrow> c = 1" "SessionMessage_of c = SynAck \<longleftrightarrow> c = 2"
  "SessionMessage_of c = Fin \<longleftrightarrow> c = 3" "SessionMessage_of c = Data \<longleftrightarrow> c = 4"
  "SessionMessage_of c = Ack \<longleftrightarrow> c = 5" "SessionMessage_of c = Rst \<longleftrightarrow> c = 6"
  by (auto simp: SessionMessage_of_def)

lemma IsOutOfBandMessage_iff:
  "IsOutOfBandMessage m \<longleftrightarrow> srcClientId (header m) = 0 \<and> dstClientId (header m) = 0"
  by (auto simp: IsOutOfBandMessage_def or_eq_0_iff)

lemma le_value_put_word:
  assumes "LENGTH('a::len) \<le> 8 * n"
  shows "word_of_nat (le_value (put_word n (w :: 'a word))) = w"
  using assms by (simp add: put_word_def word_of_nat_unat_mod)

lemmas field_simps_word = get_word_def le_value_put_word

lemma decode_encode_header: "decode_header (encode_header h @ rest) = h"
  by (simp add: decode_header_def encode_header_def field_simps_word)

lemma length_encode_header: "length (encode_header h) = sizeof_MessageHeader"
  by (simp add: encode_header_def sizeof_MessageHeader_def)

lemma length_encode_SynPayload: "length (encode_SynPayload p) = sizeof_SynPayload"
  by (simp add: encode_SynPayload_def sizeof_SynPayload_def)

lemma length_encode_SynAckPayload: "length (encode_SynAckPayload p) = sizeof_SynAckPayload"
  by (simp add: encode_SynAckPayload_def sizeof_SynAckPayload_def)

lemma length_encode_ConnectResponsePayload:
  "length (encode_ConnectResponsePayload p) = sizeof_ConnectResponsePayload"
  by (simp add: encode_ConnectResponsePayload_def sizeof_ConnectResponsePayload_def)

lemma bytes_at_append: "length a = n \<Longrightarrow> bytes_at n (a @ b) = a"
  by (simp add: bytes_at_def)

lemma decode_encode_SynPayload: "decode_SynPayload (encode_SynPayload p @ rest) = p"
proof -
  have "bytes_at sizeof_SynPayload (encode_SynPayload p @ rest) = encode_SynPayload p"
    by (rule bytes_at_append [OF length_encode_SynPayload])
  then show ?thesis
    by (simp add: decode_SynPayload_def encode_SynPayload_def field_simps_word)
qed

lemma decode_encode_SynAckPayload: "decode_SynAckPayload (encode_SynAckPayload p @ rest) = p"
proof -
  have "bytes_at sizeof_SynAckPayload (encode_SynAckPayload p @ rest) = encode_SynAckPayload p"
    by (rule bytes_at_append [OF length_encode_SynAckPayload])
  then show ?thesis
    by (simp add: decode_SynAckPayload_def encode_SynAckPayload_def field_simps_word)
qed

subsection \<open>Theorems\<close>

text \<open>A buffer that \<^verbatim>\<open>ValidateMessageBuffer\<close> accepts is a header followed by exactly the payload bytes the
  header announces, and these fit the payload array of a \<^verbatim>\<open>MessageBuffer\<close>: no field of the
  header can make a later copy run past it.  The wire form of every message whose payload fits is
  accepted, and decodes to the header it was made from.
\<close>

theorem ValidateMessageBuffer_correct:
  "(ValidateMessageBuffer (Some bs) n = Success \<longleftrightarrow>
      n = sizeof_MessageHeader + unat (payloadSize (decode_header bs))
      \<and> unat (payloadSize (decode_header bs)) \<le> kMaxPayloadSizeInBytes)
   \<and> (length pl = unat (payloadSize h) \<and> length pl \<le> kMaxPayloadSizeInBytes \<longrightarrow>
      ValidateMessageBuffer (Some (encode_header h @ pl)) (length (encode_header h @ pl)) = Success
      \<and> decode_header (encode_header h @ pl) = h)"
  by (auto simp: ValidateMessageBuffer_def decode_encode_header length_encode_header msg_size_defs Let_def)

theorem ValidateMessageBuffer_correct_witness:
  "ValidateMessageBuffer (Some (encode_header (zero_header\<lparr>payloadSize := 2\<rparr>) @ [5, 6])) 26 = Success"
  using ValidateMessageBuffer_correct [of "[]" 0 "[5, 6]" "zero_header\<lparr>payloadSize := 2\<rparr>"]
  by (simp add: length_encode_header msg_size_defs)

lemma le_value_append: "le_value (a @ b) = le_value a + 256 ^ length a * le_value b"
  by (induction a) (simp_all add: algebra_simps)

lemma le_value_put:
  assumes "LENGTH('a::len) = 8 * n"
  shows "le_value (put_word n (w :: 'a word)) = unat w"
proof -
  have "unat w < 2 ^ (8 * n)" using unsigned_less [of w] by (simp flip: assms)
  also have "(2::nat) ^ (8 * n) = 256 ^ n" by (simp add: power_mult)
  finally show ?thesis by (simp add: put_word_def)
qed

lemma unat_u64_of_ClientMetadata:
  "unat (u64_of_ClientMetadata md) = unat (protocols md) + 2 ^ 32 * unat (clientType md)
     + 2 ^ 40 * unat (md_reserved md) + 2 ^ 48 * unat (status md)"
proof -
  let ?v = "unat (protocols md) + 2 ^ 32 * unat (clientType md)
     + 2 ^ 40 * unat (md_reserved md) + 2 ^ 48 * unat (status md)"
  have b: "unat (protocols md) < 2 ^ 32" "unat (clientType md) < 2 ^ 8" "unat (md_reserved md) < 2 ^ 8"
    "unat (status md) < 2 ^ 16"
    using unsigned_less [of "protocols md"] unsigned_less [of "clientType md"]
      unsigned_less [of "md_reserved md"] unsigned_less [of "status md"] by simp_all
  then have lt: "?v < 2 ^ 64" by simp
  have "le_value (put_word 4 (protocols md) @ put_word 1 (clientType md) @ put_word 1 (md_reserved md)
      @ put_word 2 (status md)) = ?v"
    by (simp add: le_value_append le_value_put algebra_simps)
  then have eq: "u64_of_ClientMetadata md = word_of_nat ?v"
    unfolding u64_of_ClientMetadata_def get_word_def by (simp del: of_nat_add of_nat_mult)
  show ?thesis unfolding eq unat_of_nat using lt by simp
qed

lemma unat_take_bit_mod: "unat (take_bit n (v :: u64)) = unat v mod 2 ^ n"
  by (subst unsigned_take_bit_eq) (simp add: take_bit_eq_mod)

lemma unat_drop_bit_div: "unat (drop_bit n (v :: u64)) = unat v div 2 ^ n"
proof -
  have "unat v < 2 ^ 64" using unsigned_less [of v] by simp
  then show ?thesis
    by (subst unsigned_drop_bit_eq) (simp add: drop_bit_eq_div take_bit_nat_eq_self)
qed

lemma ClientMetadata_of_u64_arith:
  "ClientMetadata_of_u64 v =
    \<lparr>protocols = word_of_nat (unat v mod 2 ^ 16),
     clientType = word_of_nat (unat v div 2 ^ 32 mod 2 ^ 8), md_reserved = 0,
     status = word_of_nat (unat v div 2 ^ 48)\<rparr>"
proof -
  have m16: "v AND 0xFFFF = take_bit 16 v" for v :: u64
    by (simp add: take_bit_eq_mask mask_eq_exp_minus_1)
  have m8: "v AND 0xFF = take_bit 8 v" for v :: u64
    by (simp add: take_bit_eq_mask mask_eq_exp_minus_1)
  have a: "ucast (v AND 0xFFFF) = (word_of_nat (unat v mod 2 ^ 16) :: u32)"
    by (simp add: m16 word_unat_eq_iff unat_of_nat unsigned_ucast_eq unat_take_bit_mod
        order.strict_trans2 [OF mod_less_divisor] take_bit_nat_eq_self)
  have "drop_bit 32 (v AND 0xFF00000000) = take_bit 8 (drop_bit 32 v)"
    by (simp add: m8)
  then have b: "ucast (drop_bit 32 (v AND 0xFF00000000)) = (word_of_nat (unat v div 2 ^ 32 mod 2 ^ 8) :: u8)"
    by (simp add: word_unat_eq_iff unat_of_nat unsigned_ucast_eq unat_take_bit_mod unat_drop_bit_div;
        simp add: take_bit_eq_mod)
  have "unat v < 2 ^ 64" using unsigned_less [of v] by simp
  then have lt: "unat v div 2 ^ 48 < 2 ^ 16" by (simp add: less_mult_imp_div_less)
  have "drop_bit 48 (v AND 0xFFFF000000000000) = take_bit 16 (drop_bit 48 v)"
    by (simp add: m16)
  then have c: "ucast (drop_bit 48 (v AND 0xFFFF000000000000)) = (word_of_nat (unat v div 2 ^ 48) :: u16)"
    using lt by (simp add: word_unat_eq_iff unat_of_nat unsigned_ucast_eq unat_take_bit_mod
        unat_drop_bit_div; simp add: take_bit_eq_mod)
  show ?thesis unfolding ClientMetadata_of_u64_def a b c ..
qed

lemma packed_fields:
  fixes p c r s :: nat
  assumes "p < 2 ^ 32" "c < 2 ^ 8" "r < 2 ^ 8"
  shows "(p + 2 ^ 32 * c + 2 ^ 40 * r + 2 ^ 48 * s) mod 2 ^ 16 = p mod 2 ^ 16"
    and "(p + 2 ^ 32 * c + 2 ^ 40 * r + 2 ^ 48 * s) div 2 ^ 32 mod 2 ^ 8 = c"
    and "(p + 2 ^ 32 * c + 2 ^ 40 * r + 2 ^ 48 * s) div 2 ^ 48 = s"
proof -
  have "p + 2 ^ 32 * c + 2 ^ 40 * r + 2 ^ 48 * s = p + 2 ^ 16 * (2 ^ 16 * c + 2 ^ 24 * r + 2 ^ 32 * s)"
    by simp
  then show "(p + 2 ^ 32 * c + 2 ^ 40 * r + 2 ^ 48 * s) mod 2 ^ 16 = p mod 2 ^ 16"
    by (simp only: mod_mult_self2)
  have "p + 2 ^ 32 * c + 2 ^ 40 * r + 2 ^ 48 * s = p + 2 ^ 32 * (c + 2 ^ 8 * (r + 2 ^ 8 * s))"
    by simp
  then have "(p + 2 ^ 32 * c + 2 ^ 40 * r + 2 ^ 48 * s) div 2 ^ 32 = c + 2 ^ 8 * (r + 2 ^ 8 * s)"
    using assms(1) by (simp only: div_mult_self2) simp
  with assms(2) show "(p + 2 ^ 32 * c + 2 ^ 40 * r + 2 ^ 48 * s) div 2 ^ 32 mod 2 ^ 8 = c"
    by (simp only: mod_mult_self2) simp
  have "p + 2 ^ 32 * c + 2 ^ 40 * r < 2 ^ 48" using assms by simp
  then show "(p + 2 ^ 32 * c + 2 ^ 40 * r + 2 ^ 48 * s) div 2 ^ 48 = s"
    by (simp only: div_mult_self2) simp
qed

lemma ClientMetadata_wire:
  "ClientMetadata_of_u64 (u64_of_ClientMetadata md) =
     md\<lparr>protocols := word_of_nat (unat (protocols md) mod 2 ^ 16), md_reserved := 0\<rparr>"
proof -
  have b: "unat (protocols md) < 2 ^ 32" "unat (clientType md) < 2 ^ 8" "unat (md_reserved md) < 2 ^ 8"
    "unat (status md) < 2 ^ 16"
    using unsigned_less [of "protocols md"] unsigned_less [of "clientType md"]
      unsigned_less [of "md_reserved md"] unsigned_less [of "status md"] by simp_all
  let ?v = "unat (u64_of_ClientMetadata md)"
  note fields = packed_fields [OF b(1,2,3), of "unat (status md)"]
  have "?v mod 2 ^ 16 = unat (protocols md) mod 2 ^ 16"
    and "?v div 2 ^ 32 mod 2 ^ 8 = unat (clientType md)" and "?v div 2 ^ 48 = unat (status md)"
    unfolding unat_u64_of_ClientMetadata by (rule fields)+
  then show ?thesis unfolding ClientMetadata_of_u64_arith by simp
qed

lemma ClientMetadata_wire_id:
  "ClientMetadata_of_u64 (u64_of_ClientMetadata md) = md \<longleftrightarrow> protocols md < 2 ^ 16 \<and> md_reserved md = 0"
proof -
  have "(word_of_nat (unat (protocols md) mod 2 ^ 16) = protocols md) = (protocols md < 2 ^ 16)"
    by (auto simp: word_unat_eq_iff unat_of_nat word_less_nat_alt mod_eq_self_iff_div_eq_0)
  then show ?thesis unfolding ClientMetadata_wire by (cases md) auto
qed

text \<open>C34.
  Client metadata travels in the 64-bit sequence field of a system message: copied in as the eight
  bytes of the struct, taken out by the \<^verbatim>\<open>ClientMetadata(uint64)\<close> constructor.  The round trip
  keeps type and status but only the low 16 of the 32 protocol flags, so it is the identity exactly
  for metadata that uses no higher flag and leaves the reserved byte zero.
\<close>

theorem ClientMetadata_round_trip:
  "ClientMetadata_of_u64 (u64_of_ClientMetadata md) =
     md\<lparr>protocols := word_of_nat (unat (protocols md) mod 2 ^ 16), md_reserved := 0\<rparr>
   \<and> (ClientMetadata_of_u64 (u64_of_ClientMetadata md) = md \<longleftrightarrow>
      protocols md < 2 ^ 16 \<and> md_reserved md = 0)"
  using ClientMetadata_wire ClientMetadata_wire_id by blast

lemma and_subset_trans: "(a::'a::len word) AND b = a \<Longrightarrow> b AND c = b \<Longrightarrow> a AND c = a"
  by (metis and.assoc)

text \<open>
  \<^verbatim>\<open>ClientMetadata::Matches\<close> is a filter: the default metadata matches everything, every metadata
  matches itself, and if a filter matches a second one that matches a client, it matches the
  client.  Only the zero status and protocol fields of a filter are wildcards.
\<close>

theorem Matches_preorder:
  "Matches default_ClientMetadata x
   \<and> Matches a a
   \<and> (Matches a b \<and> Matches b c \<longrightarrow> Matches a c)
   \<and> (Matches a default_ClientMetadata \<longleftrightarrow> IsDefault a)"
proof -
  have "Matches a c" if "Matches a b" "Matches b c"
    using that and_subset_trans [of "protocols a" "protocols b" "protocols c"]
      and_subset_trans [of "status a" "status b" "status c"]
    by (auto simp: Matches_def IsDefault_def Let_def split: if_splits)
  moreover have "Matches default_ClientMetadata x" "Matches a a"
    "Matches a default_ClientMetadata \<longleftrightarrow> IsDefault a"
    by (auto simp: Matches_def IsDefault_def default_ClientMetadata_def Let_def split: if_splits)
  ultimately show ?thesis by blast
qed

theorem Matches_preorder_witness:
  "Matches (default_ClientMetadata\<lparr>clientType := 2\<rparr>) (default_ClientMetadata\<lparr>clientType := 2, status := 5\<rparr>)"
  using Matches_preorder [of "default_ClientMetadata"
      "default_ClientMetadata\<lparr>clientType := 2\<rparr>" "default_ClientMetadata\<lparr>clientType := 2, status := 1\<rparr>"
      "default_ClientMetadata\<lparr>clientType := 2, status := 5\<rparr>"]
  by (simp add: Matches_def IsDefault_def default_ClientMetadata_def)

end
