(* ===== verification/Float32.thy ===== *)
theory Float32
  imports DD_Prelude "HOL-Library.Log_Nat" Complex_Main
begin

text \<open>
  The single precision arithmetic of the session layer's round trip estimate
  (\<^verbatim>\<open>float\<close> in \<^verbatim>\<open>shared/legacy/src/session.cpp\<close>).  A finite \<^verbatim>\<open>float\<close> is the rational number it
  denotes; every operation rounds its exact result to 24 significant bits, ties to even, with
  gradual underflow below \<open>2 ^ (-126)\<close>.  The values of the session layer are below \<open>2 ^ 66\<close>, so
  overflow to infinity does not arise.
\<close>

definition round_half_even :: "rat \<Rightarrow> int" where
  "round_half_even x =
    (let n = \<lfloor>x\<rfloor>; d = x - of_int n in
     if d < 1 / 2 then n else if d > 1 / 2 then n + 1 else if even n then n else n + 1)"

text \<open>The binary exponent of a positive number, clipped at the least normal exponent.\<close>

definition f32_exponent :: "rat \<Rightarrow> int" where
  "f32_exponent x =
    (let (p, q) = quotient_of x; e = bitlen p - bitlen q in
     max (-126) (if 2 powi e \<le> x then e else e - 1))"

definition f32_round :: "rat \<Rightarrow> rat" where
  "f32_round x =
    (if x = 0 then 0
     else let u = 2 powi (f32_exponent \<bar>x\<bar> - 23) in of_int (round_half_even (x / u)) * u)"

definition f32_of_u64 :: "u64 \<Rightarrow> rat" where "f32_of_u64 w = f32_round (of_nat (unat w))"
definition f32_add :: "rat \<Rightarrow> rat \<Rightarrow> rat" where "f32_add a b = f32_round (a + b)"
definition f32_sub :: "rat \<Rightarrow> rat \<Rightarrow> rat" where "f32_sub a b = f32_round (a - b)"
definition f32_mul :: "rat \<Rightarrow> rat \<Rightarrow> rat" where "f32_mul a b = f32_round (a * b)"
definition f32_div :: "rat \<Rightarrow> rat \<Rightarrow> rat" where "f32_div a b = f32_round (a / b)"

text \<open>Conversion of a non-negative \<^verbatim>\<open>float\<close> to \<^verbatim>\<open>uint64\<close> drops the fraction.\<close>

definition u64_of_f32 :: "rat \<Rightarrow> u64" where "u64_of_f32 x = word_of_int \<lfloor>x\<rfloor>"

lemma round_half_even_ge: "of_int n \<le> x \<Longrightarrow> n \<le> round_half_even x"
proof -
  assume "of_int n \<le> x"
  then have "n \<le> \<lfloor>x\<rfloor>" by (simp add: le_floor_iff)
  then show ?thesis by (auto simp: round_half_even_def Let_def)
qed

lemma round_half_even_of_int [simp]: "round_half_even (of_int n) = n"
  by (simp add: round_half_even_def)

text \<open>Either the exponent is the least one, or the power of two lies below the number.\<close>

lemma powi_two_le_exponent:
  assumes "0 < x" and "f32_exponent x \<noteq> - 126"
  shows "(2::rat) powi f32_exponent x \<le> x"
proof -
  obtain p q where pq: "quotient_of x = (p, q)" by (cases "quotient_of x") auto
  from pq have q: "0 < q" by (rule quotient_of_denom_pos)
  from pq have x: "x = of_int p / of_int q" by (rule quotient_of_div)
  from assms(1) x q have p: "0 < p" by (simp add: zero_less_divide_iff)
  let ?e = "bitlen p - bitlen q"
  show ?thesis
  proof (cases "2 powi ?e \<le> x")
    case True
    with assms(2) show ?thesis
      by (simp add: f32_exponent_def pq Let_def max_def split: if_splits)
  next
    case False
    have p': "2 ^ nat (bitlen p - 1) \<le> p" using bitlen_bounds [OF p] by blast
    have q': "q < 2 ^ nat (bitlen q)" using bitlen_bounds [OF q] by blast
    have bp: "0 < bitlen p" and bq: "0 < bitlen q" using p q bitlen_nonneg [of p] bitlen_nonneg [of q]
      by (simp_all add: order.order_iff_strict bitlen_eq_zero_iff)
    have "(2::rat) powi (bitlen p - 1) \<le> of_int p"
    proof -
      have "(2::rat) powi (bitlen p - 1) = of_int (2 ^ nat (bitlen p - 1))"
        using bp by (simp add: power_int_def)
      then show ?thesis using p' by (metis of_int_le_iff)
    qed
    moreover have "of_int q \<le> (2::rat) powi bitlen q"
    proof -
      have "(2::rat) powi bitlen q = of_int (2 ^ nat (bitlen q))"
        using bq by (simp add: power_int_def)
      then show ?thesis using q' by (metis less_imp_le of_int_le_iff)
    qed
    ultimately have "(2::rat) powi (bitlen p - 1) / 2 powi bitlen q \<le> of_int p / of_int q"
      using q p by (intro frac_le) simp_all
    then have "(2::rat) powi (?e - 1) \<le> x"
      by (simp add: x power_int_diff)
    with False assms(2) show ?thesis
      by (simp add: f32_exponent_def pq Let_def max_def split: if_splits)
  qed
qed

text \<open>
  Rounding does not go below a number whose grid it refines: \<open>m * 2 ^ k\<close> with \<open>k\<close> at least the
  grid exponent of \<open>x\<close>, or any number below the leading power of two.
\<close>

lemma f32_round_ge_int:
  assumes c: "of_int m \<le> x" and m: "0 < m" "m < 2 ^ 23"
  shows "of_int m \<le> f32_round x"
proof -
  let ?e = "f32_exponent x" and ?u = "(2::rat) powi (f32_exponent x - 23)"
  have "0 < (of_int m :: rat)" using m by simp
  with c have x: "0 < x" by linarith
  have u: "0 < ?u" by simp
  have r: "f32_round x = of_int (round_half_even (x / ?u)) * ?u"
    using x by (simp add: f32_round_def Let_def)
  show ?thesis
  proof (cases "?e \<le> 23")
    case True
    define k where "k = nat (23 - ?e)"
    have "?u = 1 / 2 ^ k"
      using True by (auto simp: k_def power_int_def divide_simps)
    then have "of_int (m * 2 ^ k) = of_int m / ?u" by simp
    also have "\<dots> \<le> x / ?u" using c u by (simp add: divide_right_mono)
    finally have "m * 2 ^ k \<le> round_half_even (x / ?u)" by (rule round_half_even_ge)
    then have "of_int (m * 2 ^ k) * ?u \<le> of_int (round_half_even (x / ?u)) * ?u"
      by (metis mult_right_mono of_int_le_iff u less_imp_le)
    moreover have "of_int (m * 2 ^ k) * ?u = of_int m" using \<open>?u = 1 / 2 ^ k\<close> by simp
    ultimately show ?thesis unfolding r by (simp only:)
  next
    case False
    then have "(2::rat) powi ?e \<le> x" using powi_two_le_exponent [OF x] by simp
    moreover have e: "(2::rat) powi ?e = 2 ^ 23 * ?u"
      by (simp add: power_int_diff)
    ultimately have "of_int (2 ^ 23) \<le> x / ?u" using u by (simp add: le_divide_eq)
    then have "2 ^ 23 \<le> round_half_even (x / ?u)" by (rule round_half_even_ge)
    then have "of_int (2 ^ 23) * ?u \<le> of_int (round_half_even (x / ?u)) * ?u"
      by (metis mult_right_mono of_int_le_iff u less_imp_le)
    then have "2 ^ 23 * ?u \<le> f32_round x" using r by simp
    moreover have "1 \<le> ?u" using False by (simp add: power_int_def)
    ultimately have "2 ^ 23 \<le> f32_round x" by simp
    moreover have "(of_int m :: rat) < 2 ^ 23"
      using m(2) by (metis of_int_less_iff of_int_numeral of_int_power)
    ultimately show ?thesis by linarith
  qed
qed

end
