(* ===== verification/Session_Core.thy ===== *)
theory Session_Core
  imports Messages Float32
begin

text \<open>
  The reliable session of \<^verbatim>\<open>shared/legacy/src/session.h\<close> and \<^verbatim>\<open>session.cpp\<close>: a TCP-like connection
  over the lossy message bus, with a send window and a receive window of 128 slots each, cumulative
  acknowledgements, retransmission and a connection state machine.

  Every method of the class is one definition here.  A method that touches the message channel
  takes and returns the channel as well as the session.  \<^verbatim>\<open>DD_ASSERT\<close> and \<^verbatim>\<open>DD_PRINT\<close> do not change
  the control flow of the code and have no counterpart; the asserted facts are theorems of
  \<^verbatim>\<open>Session_Inv\<close>.  A semaphore is its count; waiting on one with count 0 times out
  (\<open>NotReady\<close>), which is the wait that no other thread ended.
\<close>

subsection \<open>States\<close>

datatype SessionState =
  Closed | Listening | SynSent | SynReceived | Established | FinWait1 | Closing | FinWait2

fun state_code :: "SessionState \<Rightarrow> nat" where
  "state_code Closed = 0"
| "state_code Listening = 1"
| "state_code SynSent = 2"
| "state_code SynReceived = 3"
| "state_code Established = 4"
| "state_code FinWait1 = 5"
| "state_code Closing = 6"
| "state_code FinWait2 = 7"

instantiation SessionState :: linorder
begin

definition less_eq_SessionState_def: "x \<le> y \<longleftrightarrow> state_code x \<le> state_code y"
definition less_SessionState_def: "x < y \<longleftrightarrow> state_code x < state_code y"

instance
proof
  fix x y z :: SessionState
  show "(x < y) = (x \<le> y \<and> \<not> y \<le> x)"
    by (auto simp: less_eq_SessionState_def less_SessionState_def)
  show "x \<le> x" by (simp add: less_eq_SessionState_def)
  show "x \<le> y \<Longrightarrow> y \<le> z \<Longrightarrow> x \<le> z" by (simp add: less_eq_SessionState_def)
  show "x \<le> y \<or> y \<le> x" by (auto simp: less_eq_SessionState_def)
  assume "x \<le> y" and "y \<le> x"
  then have "state_code x = state_code y" by (simp add: less_eq_SessionState_def)
  then show "x = y" by (cases x; cases y) simp_all
qed

end

datatype SessionCallbackState = NoneCalled | EstablishedCalled | TerminatedCalled

datatype SessionType = UnknownType | ClientType | ServerType

subsection \<open>Constants\<close>

definition kDefaultWindowSize :: nat where "kDefaultWindowSize = 128"
definition kInitialRoundTripTimeInMs :: rat where "kInitialRoundTripTimeInMs = 50"
abbreviation (input) kMaxRetransmits :: u8 where "kMaxRetransmits \<equiv> 5"
abbreviation (input) kFastRetransmitThreshold :: u32 where "kFastRetransmitThreshold \<equiv> 3"
abbreviation (input) kMaxUnacknowledgedThreshold :: u64 where "kMaxUnacknowledgedThreshold \<equiv> 5"
definition kAlpha :: rat where "kAlpha = f32_div 2 (f32_add 2 1)"
definition kMinRetransmitDelay :: rat where "kMinRetransmitDelay = 100"
definition kMaxRetransmitDelay :: rat where "kMaxRetransmitDelay = 2000"
abbreviation (input) kSessionProtocolVersionSynAckVersion :: SessionVersion where
  "kSessionProtocolVersionSynAckVersion \<equiv> 2"
abbreviation (input) kSessionProtocolRangeVersion :: SessionVersion where
  "kSessionProtocolRangeVersion \<equiv> 1"
abbreviation (input) kSessionProtocolVersion :: SessionVersion where
  "kSessionProtocolVersion \<equiv> kSessionProtocolVersionSynAckVersion"

text \<open>\<^verbatim>\<open>seq % GetWindowSize()\<close>: the slot of a sequence number in either window.\<close>

definition slot :: "Sequence \<Rightarrow> nat" where "slot q = unat q mod kDefaultWindowSize"

subsection \<open>Windows and session\<close>

record TransmitWindow =
  tw_messages :: "nat \<Rightarrow> MessageBuffer"
  tw_sequence :: "nat \<Rightarrow> Sequence"
  tw_initialTransmitTimeInMs :: "nat \<Rightarrow> u64"
  tw_valid :: "nat \<Rightarrow> bool"
  tw_semaphore :: nat
  tw_nextSequence :: Sequence
  tw_nextUnacknowledgedSequence :: Sequence
  tw_lastSentSequence :: Sequence
  tw_lastAckCount :: u32
  tw_roundTripTime :: rat
  tw_retransmitCount :: u8
  tw_lastAvailableSize :: WindowSize

definition new_TransmitWindow :: TransmitWindow where
  "new_TransmitWindow =
    \<lparr>tw_messages = (\<lambda>_. zero_message), tw_sequence = (\<lambda>_. 0),
     tw_initialTransmitTimeInMs = (\<lambda>_. 0), tw_valid = (\<lambda>_. False),
     tw_semaphore = kDefaultWindowSize, tw_nextSequence = 1, tw_nextUnacknowledgedSequence = 1,
     tw_lastSentSequence = 0, tw_lastAckCount = 0,
     tw_roundTripTime = kInitialRoundTripTimeInMs, tw_retransmitCount = 0,
     tw_lastAvailableSize = 1\<rparr>"

record ReceiveWindow =
  rw_messages :: "nat \<Rightarrow> MessageBuffer"
  rw_sequence :: "nat \<Rightarrow> Sequence"
  rw_valid :: "nat \<Rightarrow> bool"
  rw_semaphore :: nat
  rw_nextUnreadSequence :: Sequence
  rw_nextExpectedSequence :: Sequence
  rw_lastUnacknowledgedSequence :: Sequence
  rw_currentAvailableSize :: WindowSize

definition MaxAdvertizedSize :: WindowSize where
  "MaxAdvertizedSize = word_of_nat (kDefaultWindowSize - kDefaultWindowSize div 2)"

definition new_ReceiveWindow :: ReceiveWindow where
  "new_ReceiveWindow =
    \<lparr>rw_messages = (\<lambda>_. zero_message), rw_sequence = (\<lambda>_. 0), rw_valid = (\<lambda>_. False),
     rw_semaphore = 0, rw_nextUnreadSequence = 1, rw_nextExpectedSequence = 1,
     rw_lastUnacknowledgedSequence = 1, rw_currentAvailableSize = MaxAdvertizedSize\<rparr>"

record Session =
  m_sendWindow :: TransmitWindow
  m_receiveWindow :: ReceiveWindow
  m_protocol :: Protocol
  m_pSessionUserdata :: u64
  m_clientId :: ClientId
  m_remoteClientId :: ClientId
  m_sessionId :: SessionId
  m_sessionState :: SessionState
  m_callbackState :: SessionCallbackState
  m_sessionType :: SessionType
  m_sessionTerminationReason :: Result
  m_protocolVersion :: Version
  m_minClientProtocolVersion :: Version
  m_sessionVersion :: SessionVersion
  m_connectionEvent :: bool
  m_disconnectionEvent :: bool
  m_sessionName :: string

subsection \<open>The message channel as the session sees it\<close>

text \<open>
  The part of \<^verbatim>\<open>MessageChannel\<close> that carries messages.  \<open>ch_clientId\<close> is its \<^verbatim>\<open>m_clientId\<close>, the broadcast
  identifier while there is no connection.  Which answers the transport gives to \<^verbatim>\<open>WriteMessage\<close> is up to
  it: \<open>ch_replies\<close> is the script of its next answers, and a transport past the end of its script
  accepts.  Every finite run of the code over any transport is a run over some script; what a script
  cannot express is a transport that answers \<open>NotReady\<close> forever, on which the retry loop of
  \<^verbatim>\<open>SendOrClose\<close> would not return.  \<open>ch_clock\<close> is the script of the next clock readings in the same way.

  The other fields are what \<open>Forward\<close> meets in the session manager when the transport fails: whether the
  running thread holds \<^verbatim>\<open>m_sessionMutex\<close>, and whether \<^verbatim>\<open>m_sessions\<close> has a session.  \<open>ch_deadlocked\<close> records that
  the thread waits for a mutex it holds.  Such a thread never goes on: \<open>Session_Manager\<close> gives the operation
  of the manager that took the mutex the value \<open>None\<close>.
\<close>

record Channel =
  ch_clientId :: ClientId
  ch_replies :: "Result list"
  ch_clock :: "u64 list"
  ch_now :: u64
  ch_wire :: "MessageBuffer list"
  ch_sessionMutex :: bool
  ch_hasSessions :: bool
  ch_deadlocked :: bool

text \<open>
  \<^verbatim>\<open>Platform::Mutex\<close> of the POSIX platforms, a \<^verbatim>\<open>pthread_mutex_t\<close> with default attributes: it is not
  recursive, so \<^verbatim>\<open>Lock\<close> by the thread that holds it does not return, which is \<open>None\<close>.  (The critical section
  of the Windows platform may be entered again; that platform is not modelled.)
\<close>

definition Mutex_Lock :: "Channel \<Rightarrow> Channel option" where
  "Mutex_Lock ch = (if ch_sessionMutex ch then None else Some (ch\<lparr>ch_sessionMutex := True\<rparr>))"

definition Mutex_Unlock :: "Channel \<Rightarrow> Channel" where
  "Mutex_Unlock ch = ch\<lparr>ch_sessionMutex := False\<rparr>"

text \<open>
  \<^verbatim>\<open>MessageChannel::Disconnect\<close> as \<open>Forward\<close> calls it: it gives up the connection and tells the session
  manager, whose \<^verbatim>\<open>ShutDownAllSessions\<close> returns at once without a session and takes the mutex otherwise.  The
  code of a session runs under the mutex, so for it this is the end.  What happens to the sessions when the
  thread gets the mutex is \<open>Disconnect\<close> of \<open>Message_Channel\<close>, which the channel's own sends use.
\<close>

definition Forward_Disconnect :: "Channel \<Rightarrow> Channel" where
  "Forward_Disconnect ch =
    (if ch_clientId ch \<noteq> kBroadcastClientId then
       (let ch1 = ch\<lparr>ch_clientId := kBroadcastClientId\<rparr> in
        if ch_hasSessions ch1 then
          (case Mutex_Lock ch1 of
             None \<Rightarrow> ch1\<lparr>ch_deadlocked := True\<rparr>
           | Some ch2 \<Rightarrow> Mutex_Unlock ch2)
        else ch1)
     else ch)"

lemma Forward_Disconnect_eq:
  "Forward_Disconnect ch = ch\<lparr>ch_clientId := kBroadcastClientId,
     ch_deadlocked := (ch_deadlocked ch
       \<or> ch_clientId ch \<noteq> kBroadcastClientId \<and> ch_sessionMutex ch \<and> ch_hasSessions ch)\<rparr>"
  by (auto simp: Forward_Disconnect_def Mutex_Lock_def Mutex_Unlock_def Let_def)

definition WriteTransportMessage :: "MessageBuffer \<Rightarrow> Channel \<Rightarrow> Result \<times> Channel" where
  "WriteTransportMessage m ch =
    (case ch_replies ch of
       [] \<Rightarrow> (Success, ch\<lparr>ch_wire := ch_wire ch @ [m]\<rparr>)
     | r # rs \<Rightarrow>
         (r, ch\<lparr>ch_replies := rs,
                ch_wire := (if r = Success then ch_wire ch @ [m] else ch_wire ch)\<rparr>))"

definition Forward :: "MessageBuffer \<Rightarrow> Channel \<Rightarrow> Result \<times> Channel" where
  "Forward m ch =
    (if ch_clientId ch \<noteq> kBroadcastClientId then
       (let (result, ch') = WriteTransportMessage m ch in
        (result, if result \<noteq> Success \<and> result \<noteq> NotReady
                 then Forward_Disconnect ch' else ch'))
     else (Error, ch))"

lemmas Forward_unfold = Forward_def WriteTransportMessage_def Forward_Disconnect_eq

definition GetCurrentTimeInMs :: "Channel \<Rightarrow> u64 \<times> Channel" where
  "GetCurrentTimeInMs ch =
    (case ch_clock ch of
       [] \<Rightarrow> (ch_now ch, ch)
     | t # ts \<Rightarrow> (t, ch\<lparr>ch_clock := ts, ch_now := t\<rparr>))"

text \<open>\<^verbatim>\<open>Platform::Semaphore\<close>.\<close>

definition semaphore_Wait :: "nat \<Rightarrow> Result \<times> nat" where
  "semaphore_Wait c = (if 0 < c then (Success, c - 1) else (NotReady, c))"

text \<open>
  The protocol server behind a server session.  Its callbacks work on the session through the
  \<^verbatim>\<open>ISession\<close> interface; \<open>Protocol_Server\<close> states that contract.
\<close>

record IProtocolServer =
  srv_protocol :: Protocol
  srv_type :: SessionType
  srv_minVersion :: Version
  srv_maxVersion :: Version
  srv_AcceptSession :: "Session \<Rightarrow> bool"
  srv_SessionEstablished :: "Session \<Rightarrow> Channel \<Rightarrow> Session \<times> Channel"
  srv_UpdateSession :: "Session \<Rightarrow> Channel \<Rightarrow> Session \<times> Channel"
  srv_SessionTerminated :: "Result \<Rightarrow> Session \<Rightarrow> Channel \<Rightarrow> Session \<times> Channel"

subsection \<open>Construction, state changes, shutdown\<close>

definition new_Session :: "Channel \<Rightarrow> SessionType \<Rightarrow> Protocol \<Rightarrow> string option \<Rightarrow> Session" where
  "new_Session ch type protocol pSessionName =
    \<lparr>m_sendWindow = new_TransmitWindow, m_receiveWindow = new_ReceiveWindow,
     m_protocol = protocol, m_pSessionUserdata = 0, m_clientId = ch_clientId ch,
     m_remoteClientId = kBroadcastClientId, m_sessionId = kInvalidSessionId,
     m_sessionState = Closed, m_callbackState = NoneCalled, m_sessionType = type,
     m_sessionTerminationReason = Success, m_protocolVersion = 0,
     m_minClientProtocolVersion = 0, m_sessionVersion = kSessionProtocolVersion,
     m_connectionEvent = False, m_disconnectionEvent = False,
     m_sessionName = (case pSessionName of None \<Rightarrow> [] | Some n \<Rightarrow> take 63 n)\<rparr>"

definition SetState :: "SessionState \<Rightarrow> Session \<Rightarrow> Session" where
  "SetState newState s =
    (if m_sessionState s \<noteq> newState then s\<lparr>m_sessionState := newState\<rparr> else s)"

definition Shutdown :: "Result \<Rightarrow> Session \<Rightarrow> Session" where
  "Shutdown reason s0 =
    (let s = s0\<lparr>m_sessionTerminationReason := reason\<rparr> in
     if m_sessionState s \<in> {Closed, FinWait1, FinWait2, Closing} then
       (if reason \<noteq> Success then SetState Closed s else s)
     else if m_sessionState s = Established then
       (if reason = Success then SetState FinWait1 s else SetState Closed s)
     else SetState Closed s)"

subsection \<open>Sending single messages\<close>

function Forward_until_ready :: "MessageBuffer \<Rightarrow> Channel \<Rightarrow> Result \<times> Channel" where
  "Forward_until_ready m ch =
    (let (sendResult, ch') = Forward m ch in
     if sendResult = NotReady then Forward_until_ready m ch' else (sendResult, ch'))"
  by pat_completeness auto
termination
  by (relation "measure (\<lambda>(m, ch). length (ch_replies ch))")
    (auto simp: Forward_unfold Let_def split: list.splits prod.splits if_splits)

declare Forward_until_ready.simps [simp del]

definition SendOrClose :: "MessageBuffer \<Rightarrow> Session \<Rightarrow> Channel \<Rightarrow> bool \<times> Session \<times> Channel" where
  "SendOrClose messageBuffer s ch =
    (let (sendResult, ch') = Forward_until_ready messageBuffer ch in
     if sendResult \<noteq> Success then (False, Shutdown Error s, ch') else (True, s, ch'))"

definition SendControlMessage ::
  "SessionMessage \<Rightarrow> Sequence \<Rightarrow> Session \<Rightarrow> Channel \<Rightarrow> bool \<times> Session \<times> Channel" where
  "SendControlMessage command sequenceNumber s ch =
    SendOrClose
      \<lparr>header = \<lparr>srcClientId = m_clientId s, dstClientId = m_remoteClientId s,
                 protocolId = Protocol_Session, messageId = code_of_SessionMessage command,
                 windowSize = rw_currentAvailableSize (m_receiveWindow s), payloadSize = 0,
                 sessionId = m_sessionId s, sequence = sequenceNumber\<rparr>,
       payload = []\<rparr> s ch"

definition CalculateCurrentWindowSize :: "ReceiveWindow \<Rightarrow> WindowSize" where
  "CalculateCurrentWindowSize rw =
    (let windowSize = sint ((ucast MaxAdvertizedSize :: u32)
                            - ucast (rw_nextExpectedSequence rw - rw_nextUnreadSequence rw))
     in word_of_int (max windowSize 1))"

definition SendAckMessage :: "Session \<Rightarrow> Channel \<Rightarrow> bool \<times> Session \<times> Channel" where
  "SendAckMessage s ch =
    (let rw = m_receiveWindow s;
         seq = rw_nextExpectedSequence rw;
         ackSequence = seq - 1;
         rw1 = rw\<lparr>rw_lastUnacknowledgedSequence := seq\<rparr>;
         rw2 = rw1\<lparr>rw_currentAvailableSize := CalculateCurrentWindowSize rw1\<rparr>
     in SendControlMessage Ack ackSequence (s\<lparr>m_receiveWindow := rw2\<rparr>) ch)"

subsection \<open>The send window\<close>

text \<open>\<^verbatim>\<open>currentAverage = (kAlpha * elapsed) + ((1.0f - kAlpha) * currentAverage)\<close>.\<close>

definition update_average :: "u64 \<Rightarrow> rat \<Rightarrow> rat" where
  "update_average elapsedTimeInMs currentAverage =
    f32_add (f32_mul kAlpha (f32_of_u64 elapsedTimeInMs))
            (f32_mul (f32_sub 1 kAlpha) currentAverage)"

text \<open>The first pass of \<^verbatim>\<open>MarkMessagesAsAcknowledged\<close>: each round frees one valid slot.\<close>

function mark_loop ::
  "Sequence \<Rightarrow> u64 \<Rightarrow> Sequence \<Rightarrow> rat \<Rightarrow> TransmitWindow \<Rightarrow> Sequence \<times> rat \<times> TransmitWindow" where
  "mark_loop maxSequenceNumber currentTime seq currentAverage tw =
    (if seq \<le> min maxSequenceNumber (tw_lastSentSequence tw) then
       (let index = slot seq in
        if \<not> tw_valid tw index \<or> tw_sequence tw index \<noteq> seq then (seq, currentAverage, tw)
        else
          mark_loop maxSequenceNumber currentTime (seq + 1)
            (if tw_retransmitCount tw = 0
             then update_average (currentTime - tw_initialTransmitTimeInMs tw index) currentAverage
             else currentAverage)
            (tw\<lparr>tw_valid := (tw_valid tw)(index := False), tw_semaphore := tw_semaphore tw + 1\<rparr>))
     else (seq, currentAverage, tw))"
  by pat_completeness auto
termination
proof (relation "measure (\<lambda>(_, _, _, _, tw). card {i. i < kDefaultWindowSize \<and> tw_valid tw i})",
    goal_cases)
  case (2 maxS now seq avg tw index)
  let ?A = "{i. i < kDefaultWindowSize \<and> tw_valid tw i}"
  have i: "slot seq \<in> ?A" using 2 by (simp add: slot_def kDefaultWindowSize_def)
  have "{i. i < kDefaultWindowSize \<and> ((tw_valid tw)(slot seq := False)) i} = ?A - {slot seq}"
    by auto
  then have "{i. i < kDefaultWindowSize \<and> ((tw_valid tw)(slot seq := False)) i} \<subset> ?A"
    using i by blast
  then have "card {i. i < kDefaultWindowSize \<and> ((tw_valid tw)(slot seq := False)) i} < card ?A"
    by (rule psubset_card_mono [rotated]) simp
  with 2 show ?case by simp
qed simp

declare mark_loop.simps [simp del]

definition MarkMessagesAsAcknowledged ::
  "Sequence \<Rightarrow> Session \<Rightarrow> Channel \<Rightarrow> Result \<times> Session \<times> Channel" where
  "MarkMessagesAsAcknowledged maxSequenceNumber s ch0 =
    (let (currentTime, ch) = GetCurrentTimeInMs ch0;
         tw0 = m_sendWindow s;
         (seq, currentAverage, tw) =
           mark_loop maxSequenceNumber currentTime (tw_nextUnacknowledgedSequence tw0)
             (tw_roundTripTime tw0) tw0
     in
     if tw_nextUnacknowledgedSequence tw < seq then
       (Success,
        s\<lparr>m_sendWindow := tw\<lparr>tw_roundTripTime := currentAverage, tw_retransmitCount := 0,
                             tw_nextUnacknowledgedSequence := seq, tw_lastAckCount := 0\<rparr>\<rparr>, ch)
     else if tw_nextUnacknowledgedSequence tw = seq then
       (let tw1 = tw\<lparr>tw_lastAckCount := tw_lastAckCount tw + 1\<rparr> in
        if kFastRetransmitThreshold \<le> tw_lastAckCount tw1 then
          (let retransSeq = tw_nextUnacknowledgedSequence tw1
                            + ucast (tw_lastAckCount tw1 - kFastRetransmitThreshold);
               index = slot retransSeq;
               msg = tw_messages tw1 index;
               msg' = msg\<lparr>header := (header msg)
                        \<lparr>windowSize := rw_currentAvailableSize (m_receiveWindow s)\<rparr>\<rparr>;
               tw2 = tw1\<lparr>tw_messages := (tw_messages tw1)(index := msg')\<rparr>;
               (sent, s', ch') = SendOrClose msg' (s\<lparr>m_sendWindow := tw2\<rparr>) ch
           in if sent
              then (Error, s'\<lparr>m_sendWindow := (m_sendWindow s')\<lparr>tw_retransmitCount := 0\<rparr>\<rparr>, ch')
              else (Error, s', ch'))
        else (Error, s\<lparr>m_sendWindow := tw1\<rparr>, ch))
     else (Error, s\<lparr>m_sendWindow := tw\<rparr>, ch))"

text \<open>
  \<^verbatim>\<open>WriteMessageIntoSendWindow(message, payloadSizeInBytes, pPayload, timeoutInMs)\<close>; the null
  pointer is \<open>None\<close>.
\<close>

definition WriteMessageIntoSendWindow ::
  "SessionMessage \<Rightarrow> u32 \<Rightarrow> u8 list option \<Rightarrow> Session \<Rightarrow> Result \<times> Session" where
  "WriteMessageIntoSendWindow message payloadSizeInBytes pPayload s =
    (if m_sessionState s < FinWait2 then
       (if unat payloadSizeInBytes \<le> kMaxPayloadSizeInBytes then
          (let tw0 = m_sendWindow s;
               (result, sem) = semaphore_Wait (tw_semaphore tw0);
               tw = tw0\<lparr>tw_semaphore := sem\<rparr>
           in
           if result = Success then
             (let seq = tw_nextSequence tw;
                  index = slot seq;
                  hdr = \<lparr>srcClientId = m_clientId s, dstClientId = m_remoteClientId s,
                         protocolId = Protocol_Session, messageId = code_of_SessionMessage message,
                         windowSize = rw_currentAvailableSize (m_receiveWindow s),
                         payloadSize = payloadSizeInBytes, sessionId = m_sessionId s,
                         sequence = seq\<rparr>;
                  oldPayload = payload (tw_messages tw index);
                  newPayload = (case pPayload of
                                  None \<Rightarrow> oldPayload
                                | Some bs \<Rightarrow>
                                    if 0 < payloadSizeInBytes
                                    then memcpy (unat payloadSizeInBytes) oldPayload bs
                                    else oldPayload)
              in (Success,
                  s\<lparr>m_sendWindow :=
                      tw\<lparr>tw_nextSequence := seq + 1,
                         tw_messages := (tw_messages tw)
                           (index := \<lparr>header = hdr, payload = newPayload\<rparr>),
                         tw_sequence := (tw_sequence tw)(index := seq),
                         tw_valid := (tw_valid tw)(index := True)\<rparr>\<rparr>))
           else (result, s\<lparr>m_sendWindow := tw\<rparr>))
        else (InsufficientMemory, s))
     else (Error, s))"

subsection \<open>The receive window\<close>

text \<open>Stepping the expected sequence number over the packets that have arrived.\<close>

function scan_loop :: "Sequence \<Rightarrow> ReceiveWindow \<Rightarrow> Sequence \<times> ReceiveWindow" where
  "scan_loop nextSequence rw =
    (if unat (nextSequence - rw_nextUnreadSequence rw) < kDefaultWindowSize then
       (if rw_valid rw (slot nextSequence)
        then scan_loop (nextSequence + 1) (rw\<lparr>rw_semaphore := rw_semaphore rw + 1\<rparr>)
        else (nextSequence, rw))
     else (nextSequence, rw))"
  by pat_completeness auto
termination
proof (relation "measure (\<lambda>(q, rw). kDefaultWindowSize - unat (q - rw_nextUnreadSequence rw))",
    goal_cases)
  case (2 q rw)
  let ?d = "q - rw_nextUnreadSequence rw"
  have "unat (?d + 1) = unat ?d + 1"
    using 2 by (intro unat_Suc_no_wrap) (simp add: kDefaultWindowSize_def)
  moreover have "q + 1 - rw_nextUnreadSequence rw = ?d + 1" by (simp add: algebra_simps)
  ultimately have "unat (q + 1 - rw_nextUnreadSequence rw) = unat ?d + 1" by (simp only:)
  with 2 show ?case by simp
qed simp

declare scan_loop.simps [simp del]

definition WriteMessageIntoReceiveWindow ::
  "MessageBuffer \<Rightarrow> Session \<Rightarrow> Channel \<Rightarrow> Result \<times> Session \<times> Channel" where
  "WriteMessageIntoReceiveWindow messageBuffer s ch =
    (if unat (payloadSize (header messageBuffer)) \<le> kMaxPayloadSizeInBytes then
       (let rw = m_receiveWindow s;
            nextSequence = rw_nextExpectedSequence rw;
            pendingAck = (rw_lastUnacknowledgedSequence rw < nextSequence)
        in
        if nextSequence \<le> sequence (header messageBuffer) then
          (let distance = sequence (header messageBuffer) - rw_nextUnreadSequence rw in
           if unat distance < kDefaultWindowSize then
             (let index = slot (sequence (header messageBuffer));
                  copied = \<lparr>header = header messageBuffer,
                            payload = memcpy (unat (payloadSize (header messageBuffer)))
                                        (payload (rw_messages rw index)) (payload messageBuffer)\<rparr>;
                  rw1 = rw\<lparr>rw_messages := (rw_messages rw)(index := copied),
                           rw_sequence := (rw_sequence rw)
                             (index := sequence (header messageBuffer)),
                           rw_valid := (rw_valid rw)(index := True)\<rparr>;
                  (nextSequence', rw2) = scan_loop nextSequence rw1;
                  rw3 = rw2\<lparr>rw_nextExpectedSequence := nextSequence'\<rparr>;
                  s3 = s\<lparr>m_receiveWindow := rw3\<rparr>
              in
              if pendingAck \<and>
                 kMaxUnacknowledgedThreshold
                   \<le> nextSequence' - rw_lastUnacknowledgedSequence rw3
              then (let (_, s4, ch4) = SendAckMessage s3 ch in (Success, s4, ch4))
              else (Success, s3, ch))
           else (InsufficientMemory, s, ch))
        else (let (_, s', ch') = SendAckMessage s ch in (Success, s', ch')))
     else (InsufficientMemory, s, ch))"

subsection \<open>Connecting\<close>

definition Connect ::
  "ClientId \<Rightarrow> SessionId \<Rightarrow> Version \<Rightarrow> Version \<Rightarrow> Session \<Rightarrow> Result \<times> Session" where
  "Connect remoteClientId sid minProtocolVersion maxProtocolVersion s =
    (if m_sessionType s = ClientType \<and> remoteClientId \<noteq> kBroadcastClientId
        \<and> sid \<noteq> kInvalidSessionId \<and> m_sessionState s = Closed then
       (let s1 = s\<lparr>m_remoteClientId := remoteClientId, m_sessionId := sid,
                   m_minClientProtocolVersion := minProtocolVersion\<rparr>;
            pl = \<lparr>minVersion = minProtocolVersion, syn_protocol = m_protocol s1,
                   syn_sessionVersion = m_sessionVersion s1, maxVersion = maxProtocolVersion\<rparr>;
            (result, s2) = WriteMessageIntoSendWindow Syn (word_of_nat sizeof_SynPayload)
                             (Some (encode_SynPayload pl)) s1
        in if result = Success then (result, SetState SynSent s2) else (result, s2))
     else (Error, s))"

definition BindToServer ::
  "IProtocolServer \<Rightarrow> ClientId \<Rightarrow> SessionVersion \<Rightarrow> Version \<Rightarrow> SessionId \<Rightarrow> Session
   \<Rightarrow> Result \<times> Session" where
  "BindToServer owner remoteClientId sessionVersion protocolVersion sid s =
    (if srv_type owner = ServerType \<and> remoteClientId \<noteq> kBroadcastClientId
        \<and> sid \<noteq> kInvalidSessionId \<and> m_sessionState s = Closed then
       (Success,
        SetState Listening
          (s\<lparr>m_remoteClientId := remoteClientId,
             m_sessionVersion := min sessionVersion kSessionProtocolVersion,
             m_protocolVersion := protocolVersion, m_sessionId := sid\<rparr>))
     else (Error, s))"

subsection \<open>Message handlers\<close>

definition UpdateSendWindowSize :: "MessageBuffer \<Rightarrow> Session \<Rightarrow> Session" where
  "UpdateSendWindowSize messageBuffer s =
    s\<lparr>m_sendWindow := (m_sendWindow s)\<lparr>tw_lastAvailableSize := windowSize (header messageBuffer)\<rparr>\<rparr>"

text \<open>The receive window restarted behind the first sequence number of the peer.\<close>

definition reset_receive_window :: "Sequence \<Rightarrow> Session \<Rightarrow> Session" where
  "reset_receive_window receiveSequence s =
    s\<lparr>m_receiveWindow := (m_receiveWindow s)
        \<lparr>rw_nextUnreadSequence := receiveSequence + 1,
         rw_nextExpectedSequence := receiveSequence + 1,
         rw_lastUnacknowledgedSequence := receiveSequence + 1,
         rw_currentAvailableSize := MaxAdvertizedSize\<rparr>\<rparr>"

definition HandleSynMessage :: "MessageBuffer \<Rightarrow> Session \<Rightarrow> Session" where
  "HandleSynMessage messageBuffer s =
    (let remoteSessionId = sessionId (header messageBuffer);
         receiveSequence = sequence (header messageBuffer);
         pl = \<lparr>ack_sequence = receiveSequence, initialSessionId = remoteSessionId,
                ack_version = m_protocolVersion s, ack_sessionVersion = m_sessionVersion s\<rparr>;
         (result, s1) = WriteMessageIntoSendWindow SynAck (word_of_nat sizeof_SynAckPayload)
                          (Some (encode_SynAckPayload pl)) s
     in if result = Success then reset_receive_window receiveSequence (SetState SynReceived s1)
        else Shutdown Error s1)"

definition HandleSynAckMessage :: "MessageBuffer \<Rightarrow> Session \<Rightarrow> Channel \<Rightarrow> Session \<times> Channel" where
  "HandleSynAckMessage messageBuffer s ch =
    (let (s', ch') =
       (if m_sessionState s \<in> {FinWait1, FinWait2, Closing, Established} then
          (let (_, s1, ch1) = MarkMessagesAsAcknowledged (sequence (header messageBuffer)) s ch
           in (s1, ch1))
        else if m_sessionState s = SynSent then
          (let pl = decode_SynAckPayload (payload messageBuffer);
               (_, s1, ch1) = MarkMessagesAsAcknowledged (ack_sequence pl) s ch;
               s2 = SetState Established (s1\<lparr>m_sessionVersion := ack_sessionVersion pl\<rparr>);
               s3 = s2\<lparr>m_sessionId := sessionId (header messageBuffer),
                       m_protocolVersion := (if ack_version pl \<noteq> 0 then ack_version pl
                                             else m_minClientProtocolVersion s2)\<rparr>;
               s4 = reset_receive_window (sequence (header messageBuffer)) s3;
               (_, s5, ch5) = SendAckMessage s4 ch1
           in (s5, ch5))
        else (s, ch))
     in (UpdateSendWindowSize messageBuffer s', ch'))"

definition HandleFinMessage :: "MessageBuffer \<Rightarrow> Session \<Rightarrow> Channel \<Rightarrow> Session \<times> Channel" where
  "HandleFinMessage messageBuffer s ch =
    (let (s', ch') =
       (if m_sessionState s < Closing then
          (let (_, s1, ch1) = WriteMessageIntoReceiveWindow messageBuffer s ch
           in ((SetState Closing s1)\<lparr>m_sessionTerminationReason := Success\<rparr>, ch1))
        else if m_sessionState s = FinWait2 then
          (let (_, s1, ch1) = WriteMessageIntoReceiveWindow messageBuffer s ch;
               (_, s2, ch2) = SendAckMessage s1 ch1
           in ((SetState Closed s2)\<lparr>m_sessionTerminationReason := Success\<rparr>, ch2))
        else (s, ch))
     in (UpdateSendWindowSize messageBuffer s', ch'))"

definition HandleDataMessage :: "MessageBuffer \<Rightarrow> Session \<Rightarrow> Channel \<Rightarrow> Session \<times> Channel" where
  "HandleDataMessage messageBuffer s ch =
    (let (s', ch') =
       (if m_sessionState s \<in> {FinWait1, FinWait2, Established} then
          (let (_, s1, ch1) = WriteMessageIntoReceiveWindow messageBuffer s ch in (s1, ch1))
        else (s, ch))
     in (UpdateSendWindowSize messageBuffer s', ch'))"

definition HandleAckMessage :: "MessageBuffer \<Rightarrow> Session \<Rightarrow> Channel \<Rightarrow> Session \<times> Channel" where
  "HandleAckMessage messageBuffer s ch =
    (let (s', ch') =
       (if m_sessionState s = SynReceived then
          (let (_, s1, ch1) = MarkMessagesAsAcknowledged (sequence (header messageBuffer))
                                (SetState Established s) ch
           in (s1, ch1))
        else if m_sessionState s \<in> {Established, FinWait1, FinWait2, Closing} then
          (let (_, s1, ch1) = MarkMessagesAsAcknowledged (sequence (header messageBuffer)) s ch
           in (s1, ch1))
        else (s, ch))
     in (UpdateSendWindowSize messageBuffer s', ch'))"

text \<open>The reason is the sequence number of the packet, cast to the 32-bit result enum.\<close>

definition HandleRstMessage :: "MessageBuffer \<Rightarrow> Session \<Rightarrow> Session" where
  "HandleRstMessage messageBuffer s =
    UpdateSendWindowSize messageBuffer
      (Shutdown (result_of_code (ucast (sequence (header messageBuffer)))) s)"

definition HandleMessage ::
  "IProtocolServer \<Rightarrow> MessageBuffer \<Rightarrow> Session \<Rightarrow> Channel \<Rightarrow> Session \<times> Channel" where
  "HandleMessage pServer messageBuffer s ch =
    (let initialState = m_sessionState s;
         (s', ch') =
           (case SessionMessage_of (messageId (header messageBuffer)) of
              Syn \<Rightarrow> (HandleSynMessage messageBuffer s, ch)
            | SynAck \<Rightarrow> HandleSynAckMessage messageBuffer s ch
            | Fin \<Rightarrow> HandleFinMessage messageBuffer s ch
            | Data \<Rightarrow> HandleDataMessage messageBuffer s ch
            | Ack \<Rightarrow> HandleAckMessage messageBuffer s ch
            | Rst \<Rightarrow> (HandleRstMessage messageBuffer s, ch)
            | _ \<Rightarrow> (s, ch))
     in
     if initialState \<noteq> m_sessionState s' \<and> m_sessionState s' = Established then
       (case m_sessionType s' of
          ClientType \<Rightarrow> (s'\<lparr>m_connectionEvent := True\<rparr>, ch')
        | ServerType \<Rightarrow>
            (let (s1, ch1) = srv_SessionEstablished pServer s' ch'
             in (s1\<lparr>m_callbackState := EstablishedCalled\<rparr>, ch1))
        | UnknownType \<Rightarrow> (s', ch'))
     else (s', ch'))"

subsection \<open>Periodic update\<close>

definition UpdateReceiveWindow :: "Session \<Rightarrow> Channel \<Rightarrow> Session \<times> Channel" where
  "UpdateReceiveWindow s ch =
    (if rw_lastUnacknowledgedSequence (m_receiveWindow s)
          < rw_nextExpectedSequence (m_receiveWindow s)
     then (let (_, s', ch') = SendAckMessage s ch in (s', ch'))
     else (s, ch))"

text \<open>
  \<^verbatim>\<open>(uint64)Min((Max(roundTripTime, kMinRetransmitDelay) * (2 << retransmitCount)), kMaxRetransmitDelay)\<close>.
\<close>

definition currentTimeout :: "TransmitWindow \<Rightarrow> u64" where
  "currentTimeout tw =
    (let retransmitMultiplier = (push_bit (unat (tw_retransmitCount tw)) 2 :: u16);
         retransmitTimeout = max (tw_roundTripTime tw) kMinRetransmitDelay
     in u64_of_f32 (min (f32_mul retransmitTimeout (of_nat (unat retransmitMultiplier)))
                        kMaxRetransmitDelay))"

text \<open>
  The retransmission loop \<^verbatim>\<open>for (seq = nextUnacknowledged; seq <= lastSent; seq++)\<close>.  It stops at
  the largest 64-bit sequence number, where the increment of the source would wrap around.
\<close>

function resend_loop ::
  "u64 \<Rightarrow> u64 \<Rightarrow> Sequence \<Rightarrow> u8 \<Rightarrow> Session \<Rightarrow> Channel \<Rightarrow> u8 \<times> Session \<times> Channel" where
  "resend_loop timeout currentTime seq count s ch =
    (let tw = m_sendWindow s; index = slot seq in
     if seq \<le> tw_lastSentSequence tw then
       (if currentTime - tw_initialTransmitTimeInMs tw index \<le> timeout then (count, s, ch)
        else
          (let msg = tw_messages tw index;
               msg' = msg\<lparr>header := (header msg)
                        \<lparr>windowSize := rw_currentAvailableSize (m_receiveWindow s)\<rparr>\<rparr>;
               s1 = s\<lparr>m_sendWindow := tw\<lparr>tw_messages := (tw_messages tw)(index := msg')\<rparr>\<rparr>;
               (sent, s2, ch2) = SendOrClose msg' s1 ch
           in if \<not> sent then (count, s2, ch2)
              else if seq = - 1 then (count + 1, s2, ch2)
              else resend_loop timeout currentTime (seq + 1) (count + 1) s2 ch2))
     else (count, s, ch))"
  by pat_completeness auto
termination
proof (relation "measure (\<lambda>(_, _, seq, _, _, _). 2 ^ 64 - unat seq)", goal_cases)
  case (2 timeout now seq count s ch tw index)
  then have "seq \<noteq> - 1" by simp
  then have "unat (seq + 1) = unat seq + 1" by (rule unat_Suc_not_max)
  moreover have "unat seq < 2 ^ 64" using unsigned_less [of seq] by simp
  ultimately show ?case by simp
qed simp

declare resend_loop.simps [simp del]

text \<open>One message of the transmission loop: \<open>True\<close> when the loop goes on.\<close>

definition transmit_one :: "Sequence \<Rightarrow> Session \<Rightarrow> Channel \<Rightarrow> bool \<times> Session \<times> Channel" where
  "transmit_one seq s ch =
    (let tw = m_sendWindow s;
         index = slot seq;
         msg = tw_messages tw index;
         msg' = msg\<lparr>header := (header msg)
                  \<lparr>windowSize := rw_currentAvailableSize (m_receiveWindow s)\<rparr>\<rparr>;
         tw1 = tw\<lparr>tw_messages := (tw_messages tw)(index := msg')\<rparr>;
         (sendResult, ch1) = Forward msg' ch
     in if sendResult = Success then
          (let (currentTime, ch2) = GetCurrentTimeInMs ch1;
               tw2 = tw1\<lparr>tw_initialTransmitTimeInMs :=
                           (tw_initialTransmitTimeInMs tw1)(index := currentTime),
                         tw_lastSentSequence := sequence (header msg'),
                         tw_lastAvailableSize := tw_lastAvailableSize tw1 - 1\<rparr>
           in (True, s\<lparr>m_sendWindow := tw2\<rparr>, ch2))
        else if sendResult \<noteq> NotReady
             then (False, Shutdown Error (s\<lparr>m_sendWindow := tw1\<rparr>), ch1)
             else (False, s\<lparr>m_sendWindow := tw1\<rparr>, ch1))"

lemma m_sendWindow_Shutdown [simp]: "m_sendWindow (Shutdown r s) = m_sendWindow s"
  by (simp add: Shutdown_def SetState_def Let_def)

lemma transmit_one_nextSequence:
  "tw_nextSequence (m_sendWindow (fst (snd (transmit_one seq s ch))))
   = tw_nextSequence (m_sendWindow s)"
  by (simp add: transmit_one_def Let_def split: prod.splits)

text \<open>
  The transmission loop.  Its last branch asserts and goes round again with nothing changed:
  \<open>None\<close> is that endless loop.
\<close>

function transmit_loop :: "Sequence \<Rightarrow> Session \<Rightarrow> Channel \<Rightarrow> (Session \<times> Channel) option" where
  "transmit_loop seq s ch =
    (let tw = m_sendWindow s in
     if seq < tw_nextSequence tw \<and> 0 < tw_lastAvailableSize tw then
       (if tw_valid tw (slot seq) \<and> seq = tw_sequence tw (slot seq) then
          (case transmit_one seq s ch of
             (True, s', ch') \<Rightarrow> transmit_loop (seq + 1) s' ch'
           | (False, s', ch') \<Rightarrow> Some (s', ch'))
        else None)
     else Some (s, ch))"
  by pat_completeness auto
termination
proof (relation "measure (\<lambda>(seq, s, _). unat (tw_nextSequence (m_sendWindow s)) - unat seq)",
    goal_cases)
  case (2 seq s ch tw b p s' ch')
  then have "tw_nextSequence (m_sendWindow s') = tw_nextSequence (m_sendWindow s)"
    using transmit_one_nextSequence [of seq s ch] by (metis fst_conv snd_conv)
  with 2 show ?case by (cases p) (simp add: measure_step_below)
qed simp

declare transmit_loop.simps [simp del]

definition UpdateSendWindow :: "Session \<Rightarrow> Channel \<Rightarrow> (Session \<times> Channel) option" where
  "UpdateSendWindow s ch =
    (let tw = m_sendWindow s;
         (s1, ch1) =
           (if tw_nextUnacknowledgedSequence tw \<le> tw_lastSentSequence tw then
              (if tw_retransmitCount tw \<le> kMaxRetransmits then
                 (let timeout = currentTimeout tw;
                      (currentTime, ch') = GetCurrentTimeInMs ch;
                      (count, s', ch'') =
                        resend_loop timeout currentTime (tw_nextUnacknowledgedSequence tw) 0 s ch'
                  in if 0 < count
                     then (s'\<lparr>m_sendWindow := (m_sendWindow s')
                               \<lparr>tw_retransmitCount := tw_retransmitCount (m_sendWindow s') + 1\<rparr>\<rparr>,
                           ch'')
                     else (s', ch''))
               else (Shutdown NotReady s, ch))
            else (s, ch))
     in transmit_loop (tw_lastSentSequence (m_sendWindow s1) + 1) s1 ch1)"

definition IsSendWindowEmpty :: "Session \<Rightarrow> bool" where
  "IsSendWindowEmpty s =
    (let tw = m_sendWindow s;
         isEmpty = (tw_lastSentSequence tw < tw_nextUnacknowledgedSequence tw)
     in if kSessionProtocolVersionSynAckVersion \<le> m_sessionVersion s
        then isEmpty \<and> tw_lastSentSequence tw + 1 = tw_nextSequence tw
        else isEmpty)"

definition UpdateTimeout :: "Session \<Rightarrow> Session" where
  "UpdateTimeout s =
    (let s1 = (if m_sessionState s = FinWait1 then
                 (let (result, s') = WriteMessageIntoSendWindow Fin 0 None s
                  in if result = Success then SetState FinWait2 s' else s')
               else s);
         s2 = (if m_sessionState s1 = FinWait2 \<and> IsSendWindowEmpty s1
               then SetState Closed s1 else s1)
     in
     if m_sessionState s2 = Closing then
       (let rw = m_receiveWindow s2;
            terminated = (m_sessionType s2 = ServerType \<and> m_callbackState s2 = TerminatedCalled);
            shouldClose =
              (if \<not> terminated then
                 (if rw_nextUnreadSequence rw < rw_nextExpectedSequence rw
                  then SessionMessage_of (messageId (header
                         (rw_messages rw (slot (rw_nextUnreadSequence rw))))) = Fin
                  else False)
               else True)
        in if shouldClose then SetState Closed s2 else s2)
     else s2)"

text \<open>\<open>refCount\<close> is \<^verbatim>\<open>pSession.QueryReferenceCount()\<close>.\<close>

definition Session_Update ::
  "IProtocolServer \<Rightarrow> nat \<Rightarrow> Session \<Rightarrow> Channel \<Rightarrow> (Session \<times> Channel) option" where
  "Session_Update pServer refCount s ch =
    (let (s1, ch1) = UpdateReceiveWindow s ch in
     case UpdateSendWindow s1 ch1 of
       None \<Rightarrow> None
     | Some (s2, ch2) \<Rightarrow>
         (let s3 = UpdateTimeout s2;
              s4 = (if refCount = 1 \<and> m_sessionType s3 = ClientType then Shutdown Success s3
                    else s3);
              (s5, ch5) = (if m_sessionType s4 = ServerType \<and> m_sessionState s4 = Established
                           then srv_UpdateSession pServer s4 ch2 else (s4, ch2));
              (s6, ch6) = (if m_sessionType s5 = ServerType \<and> m_sessionState s5 = Closed
                              \<and> m_callbackState s5 = EstablishedCalled
                           then (let (s', ch') = srv_SessionTerminated pServer
                                                   (m_sessionTerminationReason s5) s5 ch5
                                 in (s'\<lparr>m_callbackState := TerminatedCalled\<rparr>, ch'))
                           else (s5, ch5))
          in Some (if m_sessionState s6 = Closed then s6\<lparr>m_disconnectionEvent := True\<rparr> else s6,
                   ch6)))"

definition HandleUnregisterProtocolServer ::
  "IProtocolServer \<Rightarrow> Session \<Rightarrow> Channel \<Rightarrow> Session \<times> Channel" where
  "HandleUnregisterProtocolServer pServer s ch =
    (let (s1, ch1) =
       (if m_callbackState s = EstablishedCalled then
          (let (s', ch') = srv_SessionTerminated pServer EndOfStream s ch
           in (s'\<lparr>m_callbackState := TerminatedCalled\<rparr>, ch'))
        else (s, ch))
     in (Shutdown Success s1, ch1))"

subsection \<open>The public session interface\<close>

definition Session_Send :: "u32 \<Rightarrow> u8 list option \<Rightarrow> Session \<Rightarrow> Result \<times> Session" where
  "Session_Send payloadSizeInBytes pPayload s =
    (if m_sessionState s \<noteq> Closed
     then WriteMessageIntoSendWindow Data payloadSizeInBytes pPayload s
     else (Error, s))"

text \<open>
  \<^verbatim>\<open>Receive\<close> first waits on the semaphore, then looks at the session again: other threads may have
  changed it in between.  \<open>Receive_wait\<close> and \<open>Receive_read\<close> are the two halves.  The bytes copied
  to the caller are \<open>Some\<close> when \<^verbatim>\<open>*pBytesReceived\<close> is written.
\<close>

definition Receive_wait :: "Session \<Rightarrow> Result \<times> Session" where
  "Receive_wait s =
    (let (result, sem) = semaphore_Wait (rw_semaphore (m_receiveWindow s))
     in (result, s\<lparr>m_receiveWindow := (m_receiveWindow s)\<lparr>rw_semaphore := sem\<rparr>\<rparr>))"

definition Receive_read :: "u32 \<Rightarrow> Result \<Rightarrow> Session \<Rightarrow> Result \<times> u8 list option \<times> Session" where
  "Receive_read payloadBufferSizeInBytes result s =
    (if m_sessionState s = Closed then (EndOfStream, None, s)
     else if result = Success then
       (let rw = m_receiveWindow s;
            index = slot (rw_nextUnreadSequence rw);
            message = rw_messages rw index
        in
        if payloadSize (header message) \<le> payloadBufferSizeInBytes then
          (let consume = (\<lambda>s'. let rw1 = (m_receiveWindow s')
                                 \<lparr>rw_valid := (rw_valid (m_receiveWindow s'))(index := False),
                                  rw_nextUnreadSequence :=
                                    rw_nextUnreadSequence (m_receiveWindow s') + 1\<rparr>
                               in s'\<lparr>m_receiveWindow :=
                                       rw1\<lparr>rw_currentAvailableSize :=
                                             CalculateCurrentWindowSize rw1\<rparr>\<rparr>)
           in
           if SessionMessage_of (messageId (header message)) = Data then
             (let payloadSize' = min (payloadSize (header message)) payloadBufferSizeInBytes
              in (Success, Some (bytes_at (unat payloadSize') (payload message)), consume s))
           else (EndOfStream, None, consume (SetState Closed s)))
        else (InsufficientMemory, None,
              s\<lparr>m_receiveWindow := rw\<lparr>rw_semaphore := rw_semaphore rw + 1\<rparr>\<rparr>))
     else (result, None, s))"

definition Session_Receive :: "u32 \<Rightarrow> Session \<Rightarrow> Result \<times> u8 list option \<times> Session" where
  "Session_Receive payloadBufferSizeInBytes s =
    (if Established \<le> m_sessionState s then
       (let (result, s1) = Receive_wait s in Receive_read payloadBufferSizeInBytes result s1)
     else (Error, None, s))"

definition SetUserData :: "u64 \<Rightarrow> Session \<Rightarrow> u64 \<times> Session" where
  "SetUserData pUserData s = (m_pSessionUserdata s, s\<lparr>m_pSessionUserdata := pUserData\<rparr>)"

definition event_Wait :: "bool \<Rightarrow> Result" where
  "event_Wait signaled = (if signaled then Success else NotReady)"

definition WaitForConnection :: "Session \<Rightarrow> Result" where
  "WaitForConnection s = event_Wait (m_connectionEvent s)"

definition WaitForDisconnection :: "Session \<Rightarrow> Result" where
  "WaitForDisconnection s = event_Wait (m_disconnectionEvent s)"

definition IsClosed :: "Session \<Rightarrow> bool" where
  "IsClosed s \<longleftrightarrow> m_sessionState s = Closed"

definition IsSessionOpenAndMatches :: "ClientId \<Rightarrow> SessionId \<Rightarrow> Session \<Rightarrow> bool" where
  "IsSessionOpenAndMatches remoteClientId sid s \<longleftrightarrow>
     m_sessionId s = sid \<and> m_remoteClientId s = remoteClientId \<and> m_sessionState s \<noteq> Closed"

end
