(* ===== verification/Session_Inv.thy ===== *)
theory Session_Inv
  imports Session_Core
begin

text \<open>
  The invariant of a session: what the two windows, their semaphores and their counters say about
  each other, and that every operation of the session keeps it.  From it follow the facts the code
  asserts, the termination of the transmission loop and the bounds of the advertised window.

  The sequence numbers are 64-bit words; the statements read them as natural numbers.  The only
  hypothesis on their size is that a counter is not at the end of the 64-bit range when it is
  stepped (\<open>tw_room\<close>, \<open>rw_room\<close>).
\<close>

subsection \<open>The send window\<close>

text \<open>
  \<open>tw_ring u n tw\<close>: the valid slots of the window are those of the sequence numbers \<open>u \<le> q < n\<close>,
  each holds the packet with its number, and the semaphore counts the free slots.
\<close>

definition tw_ring :: "nat \<Rightarrow> nat \<Rightarrow> TransmitWindow \<Rightarrow> bool" where
  "tw_ring u n tw \<longleftrightarrow>
     u \<le> n \<and> n \<le> u + 128 \<and> tw_semaphore tw + (n - u) = 128
     \<and> (\<forall>i < 128. tw_valid tw i \<longleftrightarrow> (\<exists>q. u \<le> q \<and> q < n \<and> q mod 128 = i))
     \<and> (\<forall>q. u \<le> q \<and> q < n \<longrightarrow>
          unat (tw_sequence tw (q mod 128)) = q
          \<and> unat (sequence (header (tw_messages tw (q mod 128)))) = q)"

definition tw_inv :: "TransmitWindow \<Rightarrow> bool" where
  "tw_inv tw \<longleftrightarrow>
     tw_ring (unat (tw_nextUnacknowledgedSequence tw)) (unat (tw_nextSequence tw)) tw
     \<and> 1 \<le> unat (tw_nextUnacknowledgedSequence tw)
     \<and> unat (tw_nextUnacknowledgedSequence tw) \<le> unat (tw_lastSentSequence tw) + 1
     \<and> unat (tw_lastSentSequence tw) < unat (tw_nextSequence tw)"

definition tw_room :: "TransmitWindow \<Rightarrow> bool" where
  "tw_room tw \<longleftrightarrow> unat (tw_nextSequence tw) + 1 < 2 ^ 64"

lemma tw_ringD:
  assumes "tw_ring u n tw"
  shows tw_ring_le: "u \<le> n" and tw_ring_size: "n \<le> u + 128"
    and tw_ring_sem: "tw_semaphore tw + (n - u) = 128"
    and tw_ring_valid: "i < 128 \<Longrightarrow> tw_valid tw i \<longleftrightarrow> (\<exists>q. u \<le> q \<and> q < n \<and> q mod 128 = i)"
    and tw_ring_seq: "u \<le> q \<Longrightarrow> q < n \<Longrightarrow> unat (tw_sequence tw (q mod 128)) = q"
    and tw_ring_msg: "u \<le> q \<Longrightarrow> q < n \<Longrightarrow>
          unat (sequence (header (tw_messages tw (q mod 128)))) = q"
  using assms by (auto simp: tw_ring_def)

lemma slot_unat: "slot q = unat q mod 128"
  by (simp add: slot_def kDefaultWindowSize_def)

lemma slot_less [simp]: "slot q < 128"
  by (simp add: slot_unat)

lemma tw_ring_slot:
  assumes "tw_ring u n tw" and "u \<le> unat q" and "unat q < n"
  shows "tw_valid tw (slot q)" and "tw_sequence tw (slot q) = q"
    and "sequence (header (tw_messages tw (slot q))) = q"
proof -
  show "tw_valid tw (slot q)"
    using tw_ring_valid [OF assms(1), of "slot q"] assms(2,3) by (auto simp: slot_unat)
  show "tw_sequence tw (slot q) = q"
    using tw_ring_seq [OF assms] by (simp add: slot_unat word_unat_eq_iff)
  show "sequence (header (tw_messages tw (slot q))) = q"
    using tw_ring_msg [OF assms] by (simp add: slot_unat word_unat_eq_iff)
qed

text \<open>Only the slots, the semaphore and the stored packets' numbers matter to the ring.\<close>

lemma tw_ring_cong:
  assumes "tw_semaphore tw' = tw_semaphore tw" "tw_valid tw' = tw_valid tw"
    "tw_sequence tw' = tw_sequence tw"
    "\<And>i. sequence (header (tw_messages tw' i)) = sequence (header (tw_messages tw i))"
  shows "tw_ring u n tw' = tw_ring u n tw"
  by (simp add: tw_ring_def assms)

lemma tw_inv_cong:
  assumes "tw_semaphore tw' = tw_semaphore tw" "tw_valid tw' = tw_valid tw"
    "tw_sequence tw' = tw_sequence tw"
    "\<And>i. sequence (header (tw_messages tw' i)) = sequence (header (tw_messages tw i))"
    "tw_nextSequence tw' = tw_nextSequence tw"
    "tw_nextUnacknowledgedSequence tw' = tw_nextUnacknowledgedSequence tw"
    "tw_lastSentSequence tw' = tw_lastSentSequence tw"
  shows "tw_inv tw' = tw_inv tw"
  using tw_ring_cong [OF assms(1-4)] by (simp add: tw_inv_def assms)

lemma tw_inv_new: "tw_inv new_TransmitWindow"
  by (simp add: tw_inv_def tw_ring_def new_TransmitWindow_def kDefaultWindowSize_def)

text \<open>Freeing the first slot of the ring.\<close>

lemma tw_ring_free:
  assumes ring: "tw_ring u n tw" and lt: "u < n"
  shows "tw_ring (Suc u) n
     (tw\<lparr>tw_valid := (tw_valid tw)(u mod 128 := False), tw_semaphore := tw_semaphore tw + 1\<rparr>)"
proof -
  have valid: "((tw_valid tw)(u mod 128 := False)) i \<longleftrightarrow> (\<exists>q. Suc u \<le> q \<and> q < n \<and> q mod 128 = i)"
    if i: "i < 128" for i
  proof (cases "i = u mod 128")
    case True
    have "\<not> (\<exists>q. Suc u \<le> q \<and> q < n \<and> q mod 128 = i)"
    proof
      assume "\<exists>q. Suc u \<le> q \<and> q < n \<and> q mod 128 = i"
      then obtain q where q: "Suc u \<le> q" "q < n" "q mod 128 = u mod 128" using True by auto
      have "q = u"
        using q tw_ring_size [OF ring] by (intro ring_index_inj [of u q 128 u]) auto
      with q show False by simp
    qed
    with True show ?thesis by simp
  next
    case False
    then have "(\<exists>q. Suc u \<le> q \<and> q < n \<and> q mod 128 = i) \<longleftrightarrow> (\<exists>q. u \<le> q \<and> q < n \<and> q mod 128 = i)"
      by (metis Suc_le_eq le_eq_less_or_eq)
    with False tw_ring_valid [OF ring i] show ?thesis by simp
  qed
  have "tw_semaphore tw + (n - u) = 128" by (rule tw_ring_sem [OF ring])
  then have sem: "tw_semaphore tw + 1 + (n - Suc u) = 128" using lt by linarith
  show ?thesis
    using valid sem lt tw_ring_size [OF ring] tw_ring_seq [OF ring] tw_ring_msg [OF ring]
    by (auto simp: tw_ring_def)
qed

text \<open>Filling the next slot.\<close>

lemma tw_ring_fill:
  assumes ring: "tw_ring u n tw" and sem: "0 < tw_semaphore tw"
    and msg: "unat q = n" "sequence (header m) = q"
  shows "tw_ring u (Suc n)
     (tw\<lparr>tw_semaphore := tw_semaphore tw - 1, tw_nextSequence := nq,
        tw_messages := (tw_messages tw)(n mod 128 := m),
        tw_sequence := (tw_sequence tw)(n mod 128 := q),
        tw_valid := (tw_valid tw)(n mod 128 := True)\<rparr>)"
proof -
  have lt: "n < u + 128" using tw_ring_sem [OF ring] sem tw_ring_le [OF ring] by linarith
  have neq: "r mod 128 \<noteq> n mod 128" if "u \<le> r" "r < n" for r
    using ring_index_inj [of u r 128 n] that lt tw_ring_le [OF ring] by auto
  have valid: "((tw_valid tw)(n mod 128 := True)) i \<longleftrightarrow> (\<exists>r. u \<le> r \<and> r < Suc n \<and> r mod 128 = i)"
    if "i < 128" for i
  proof (cases "i = n mod 128")
    case True
    with tw_ring_le [OF ring] show ?thesis by auto
  next
    case False
    then have "(\<exists>r. u \<le> r \<and> r < Suc n \<and> r mod 128 = i) \<longleftrightarrow> (\<exists>r. u \<le> r \<and> r < n \<and> r mod 128 = i)"
      by (metis less_Suc_eq)
    with False tw_ring_valid [OF ring that] show ?thesis by simp
  qed
  have stored: "unat (((tw_sequence tw)(n mod 128 := q)) (r mod 128)) = r
      \<and> unat (sequence (header (((tw_messages tw)(n mod 128 := m)) (r mod 128)))) = r"
    if "u \<le> r" "r < Suc n" for r
  proof (cases "r = n")
    case True
    with msg show ?thesis by simp
  next
    case False
    with that have "r < n" by simp
    with that(1) neq tw_ring_seq [OF ring] tw_ring_msg [OF ring] show ?thesis by auto
  qed
  have "tw_semaphore tw - 1 + (Suc n - u) = 128"
    using tw_ring_sem [OF ring] sem tw_ring_le [OF ring] by linarith
  with valid stored lt tw_ring_le [OF ring] show ?thesis by (simp add: tw_ring_def)
qed

subsection \<open>Acknowledging\<close>

text \<open>
  The effect of an acknowledgement: the window is freed up to the acknowledged number, but not past
  what was sent.
\<close>

lemma mark_loop_spec:
  assumes "tw_ring (unat seq) n tw" and "unat seq \<le> unat (tw_lastSentSequence tw) + 1"
    and "unat (tw_lastSentSequence tw) < n" and "n < 2 ^ 64"
    and "mark_loop maxS now seq avg tw = (seq', avg', tw')"
  shows "unat seq' = max (unat seq) (min (unat maxS) (unat (tw_lastSentSequence tw)) + 1)
     \<and> tw_ring (unat seq') n tw'
     \<and> tw' = tw\<lparr>tw_valid := tw_valid tw', tw_semaphore := tw_semaphore tw'\<rparr>"
  using assms
proof (induction maxS now seq avg tw arbitrary: seq' avg' tw' rule: mark_loop.induct)
  case (1 maxS now seq avg tw)
  show ?case
  proof (cases "seq \<le> min maxS (tw_lastSentSequence tw)")
    case False
    then have "mark_loop maxS now seq avg tw = (seq, avg, tw)"
      by (subst mark_loop.simps) (simp only: if_False)
    then have eq: "seq' = seq" "tw' = tw" using "1.prems"(5) by simp_all
    have "min (unat maxS) (unat (tw_lastSentSequence tw)) < unat seq"
      using False by (auto simp: word_le_nat_alt min_def split: if_splits)
    then show ?thesis using "1.prems"(1) by (simp add: eq)
  next
    case True
    then have le: "unat seq \<le> unat maxS" "unat seq \<le> unat (tw_lastSentSequence tw)"
      by (auto simp: word_le_nat_alt min_def split: if_splits)
    have lt: "unat seq < n" using le(2) "1.prems"(3) by linarith
    note ok = tw_ring_slot(1,2) [OF "1.prems"(1) order_refl lt]
    have s1: "unat (seq + 1) = unat seq + 1" using lt "1.prems"(4) by (intro unat_Suc_no_wrap) simp
    let ?tw = "tw\<lparr>tw_valid := (tw_valid tw)(slot seq := False), tw_semaphore := tw_semaphore tw + 1\<rparr>"
    have ring: "tw_ring (unat (seq + 1)) n ?tw"
      using tw_ring_free [OF "1.prems"(1) lt] by (simp add: s1 slot_unat)
    have guard: "\<not> (\<not> tw_valid tw (slot seq) \<or> tw_sequence tw (slot seq) \<noteq> seq)" using ok by simp
    let ?avg = "if tw_retransmitCount tw = 0
      then update_average (now - tw_initialTransmitTimeInMs tw (slot seq)) avg else avg"
    have rec: "mark_loop maxS now (seq + 1) ?avg ?tw = (seq', avg', tw')"
      using "1.prems"(5) True guard by (simp add: mark_loop.simps [of maxS now seq avg tw] Let_def)
    have b1: "unat (seq + 1) \<le> unat (tw_lastSentSequence ?tw) + 1" using le(2) s1 by simp
    have b2: "unat (tw_lastSentSequence ?tw) < n" using "1.prems"(3) by simp
    note ih = "1.IH" [OF True refl guard ring b1 b2 "1.prems"(4) rec]
    have "unat seq' = max (unat (seq + 1)) (min (unat maxS) (unat (tw_lastSentSequence tw)) + 1)"
      using ih by simp
    moreover have "tw' = tw\<lparr>tw_valid := tw_valid tw', tw_semaphore := tw_semaphore tw'\<rparr>"
      using ih by simp
    ultimately show ?thesis using ih le s1 by (auto simp: max_def)
  qed
qed

subsection \<open>Frames of the small operations\<close>

lemma SetState_frame [simp]:
  "m_sendWindow (SetState x s) = m_sendWindow s"
  "m_receiveWindow (SetState x s) = m_receiveWindow s"
  "m_sessionState (SetState x s) = x"
  "m_remoteClientId (SetState x s) = m_remoteClientId s"
  "m_sessionId (SetState x s) = m_sessionId s" "m_clientId (SetState x s) = m_clientId s"
  "m_sessionType (SetState x s) = m_sessionType s"
  "m_sessionVersion (SetState x s) = m_sessionVersion s"
  "m_callbackState (SetState x s) = m_callbackState s"
  by (simp_all add: SetState_def)

lemma Shutdown_frame [simp]:
  "m_receiveWindow (Shutdown r s) = m_receiveWindow s"
  "m_remoteClientId (Shutdown r s) = m_remoteClientId s"
  "m_sessionId (Shutdown r s) = m_sessionId s" "m_clientId (Shutdown r s) = m_clientId s"
  "m_sessionType (Shutdown r s) = m_sessionType s"
  "m_sessionVersion (Shutdown r s) = m_sessionVersion s"
  "m_callbackState (Shutdown r s) = m_callbackState s"
  by (simp_all add: Shutdown_def Let_def)

lemma Shutdown_state:
  "m_sessionState (Shutdown r s) =
    (if r \<noteq> Success then Closed
     else if m_sessionState s = Established then FinWait1
     else if m_sessionState s \<in> {FinWait1, FinWait2, Closing} then m_sessionState s
     else Closed)"
  by (cases "m_sessionState s") (simp_all add: Shutdown_def Let_def)

lemma Shutdown_Error_state [simp]: "m_sessionState (Shutdown Error s) = Closed"
  by (simp add: Shutdown_state)

text \<open>A send that succeeds in the end puts the message on the wire once, however often it was retried.\<close>

lemma Forward_until_ready_wire:
  "Forward_until_ready m ch = (r, ch') \<Longrightarrow>
     ch_wire ch' = (if r = Success then ch_wire ch @ [m] else ch_wire ch)"
proof (induction m ch rule: Forward_until_ready.induct)
  case (1 m ch)
  obtain r1 ch1 where f: "Forward m ch = (r1, ch1)" by fastforce
  then have w: "ch_wire ch1 = (if r1 = Success then ch_wire ch @ [m] else ch_wire ch)"
    by (auto simp: Forward_unfold Let_def split: list.splits prod.splits if_splits)
  show ?case
  proof (cases "r1 = NotReady")
    case True
    then have "Forward_until_ready m ch1 = (r, ch')"
      using "1.prems" f by (simp add: Forward_until_ready.simps [of m ch])
    from "1.IH" [OF f [symmetric] refl True this] w True show ?thesis by simp
  next
    case False
    with "1.prems" f w show ?thesis by (simp add: Forward_until_ready.simps [of m ch])
  qed
qed

lemma SendOrClose_wire:
  "SendOrClose m s ch = (sent, s', ch') \<Longrightarrow>
     ch_wire ch' = (if sent then ch_wire ch @ [m] else ch_wire ch)"
  by (auto simp: SendOrClose_def Let_def dest: Forward_until_ready_wire split: prod.splits if_splits)

lemma SendOrClose_cases:
  assumes "SendOrClose m s ch = (sent, s', ch')"
  obtains "sent" "s' = s" | "\<not> sent" "s' = Shutdown Error s"
  using assms by (auto simp: SendOrClose_def Let_def split: prod.splits if_splits)

lemma SendOrClose_windows:
  assumes "SendOrClose m s ch = (sent, s', ch')"
  shows "m_sendWindow s' = m_sendWindow s" and "m_receiveWindow s' = m_receiveWindow s"
    and "m_sessionState s' = (if sent then m_sessionState s else Closed)"
  using assms by (auto elim!: SendOrClose_cases)

lemma SendAckMessage_windows:
  assumes "SendAckMessage s ch = (sent, s', ch')"
  shows "m_sendWindow s' = m_sendWindow s"
    and "m_receiveWindow s' = (m_receiveWindow s)
           \<lparr>rw_lastUnacknowledgedSequence := rw_nextExpectedSequence (m_receiveWindow s),
            rw_currentAvailableSize := CalculateCurrentWindowSize (m_receiveWindow s)\<rparr>"
    and "m_sessionState s' = (if sent then m_sessionState s else Closed)"
  using assms
  by (auto simp: SendAckMessage_def SendControlMessage_def Let_def CalculateCurrentWindowSize_def
      elim!: SendOrClose_cases)

subsection \<open>The operations on the send window\<close>

definition acked_up_to :: "Sequence \<Rightarrow> TransmitWindow \<Rightarrow> nat" where
  "acked_up_to maxS tw =
     max (unat (tw_nextUnacknowledgedSequence tw))
         (min (unat maxS) (unat (tw_lastSentSequence tw)) + 1)"

lemma tw_inv_bounds:
  assumes "tw_inv tw"
  shows "unat (tw_nextSequence tw) < 2 ^ 64"
    and "unat (tw_nextUnacknowledgedSequence tw) \<le> unat (tw_lastSentSequence tw) + 1"
    and "unat (tw_lastSentSequence tw) < unat (tw_nextSequence tw)"
    and "tw_ring (unat (tw_nextUnacknowledgedSequence tw)) (unat (tw_nextSequence tw)) tw"
  using assms unsigned_less [of "tw_nextSequence tw"] by (auto simp: tw_inv_def)

lemma mark_loop_inv:
  assumes inv: "tw_inv tw"
    and mk: "mark_loop maxS now (tw_nextUnacknowledgedSequence tw) avg tw = (seq, avg', tw')"
  shows "unat seq = acked_up_to maxS tw"
    and "tw_inv (tw'\<lparr>tw_nextUnacknowledgedSequence := seq\<rparr>)"
    and "tw' = tw\<lparr>tw_valid := tw_valid tw', tw_semaphore := tw_semaphore tw'\<rparr>"
    and "acked_up_to maxS tw = unat (tw_nextUnacknowledgedSequence tw) \<Longrightarrow> tw_inv tw'"
proof -
  note b = tw_inv_bounds [OF inv]
  note spec = mark_loop_spec [OF b(4,2,3,1) mk]
  show seq: "unat seq = acked_up_to maxS tw" using spec by (simp add: acked_up_to_def)
  show upd: "tw' = tw\<lparr>tw_valid := tw_valid tw', tw_semaphore := tw_semaphore tw'\<rparr>"
    using spec by blast
  have same: "tw_nextSequence tw' = tw_nextSequence tw"
    "tw_lastSentSequence tw' = tw_lastSentSequence tw"
    "tw_nextUnacknowledgedSequence tw' = tw_nextUnacknowledgedSequence tw"
    by (subst upd, simp)+
  have ring: "tw_ring (unat seq) (unat (tw_nextSequence tw)) tw'" using spec by blast
  then have ring': "tw_ring (unat seq) (unat (tw_nextSequence tw))
      (tw'\<lparr>tw_nextUnacknowledgedSequence := seq\<rparr>)"
    by (simp add: tw_ring_def)
  show new: "tw_inv (tw'\<lparr>tw_nextUnacknowledgedSequence := seq\<rparr>)"
    using ring' b inv seq by (auto simp: tw_inv_def same acked_up_to_def)
  assume "acked_up_to maxS tw = unat (tw_nextUnacknowledgedSequence tw)"
  with seq have "seq = tw_nextUnacknowledgedSequence tw'" by (simp add: same word_unat_eq_iff)
  with new show "tw_inv tw'" by simp
qed

lemma tw_inv_resend:
  "tw_inv (tw\<lparr>tw_messages := (tw_messages tw)
      (i := (tw_messages tw i)\<lparr>header := (header (tw_messages tw i))\<lparr>windowSize := w\<rparr>\<rparr>)\<rparr>)
   = tw_inv tw"
  by (rule tw_inv_cong) auto

text \<open>The shape of an acknowledgement: either nothing is sent, or one stored packet is.\<close>

lemma mark_loop_fields:
  "mark_loop maxS now seq avg tw = (seq', avg', tw') \<Longrightarrow>
     tw' = tw\<lparr>tw_valid := tw_valid tw', tw_semaphore := tw_semaphore tw'\<rparr>"
proof (induction maxS now seq avg tw arbitrary: seq' avg' tw' rule: mark_loop.induct)
  case (1 maxS now seq avg tw)
  show ?case
  proof (cases "seq \<le> min maxS (tw_lastSentSequence tw)
      \<and> \<not> (\<not> tw_valid tw (slot seq) \<or> tw_sequence tw (slot seq) \<noteq> seq)")
    case False
    then have "mark_loop maxS now seq avg tw = (seq, avg, tw)"
      by (subst mark_loop.simps) (auto simp: Let_def simp del: not_not)
    with "1.prems" show ?thesis by simp
  next
    case True
    let ?tw = "tw\<lparr>tw_valid := (tw_valid tw)(slot seq := False), tw_semaphore := tw_semaphore tw + 1\<rparr>"
    let ?avg = "if tw_retransmitCount tw = 0
      then update_average (now - tw_initialTransmitTimeInMs tw (slot seq)) avg else avg"
    have rec: "mark_loop maxS now (seq + 1) ?avg ?tw = (seq', avg', tw')"
      using "1.prems" True by (simp add: mark_loop.simps [of maxS now seq avg tw] Let_def)
    from True have a: "seq \<le> min maxS (tw_lastSentSequence tw)"
      and b: "\<not> (\<not> tw_valid tw (slot seq) \<or> tw_sequence tw (slot seq) \<noteq> seq)" by blast+
    from "1.IH" [OF a refl b rec] show ?thesis by simp
  qed
qed

lemma MarkMessagesAsAcknowledged_cases:
  assumes mk: "MarkMessagesAsAcknowledged maxS s ch = (r, s', ch')"
  obtains
    (quiet) tw where "s' = s\<lparr>m_sendWindow := tw\<rparr>" "tw_messages tw = tw_messages (m_sendWindow s)"
      "ch' = snd (GetCurrentTimeInMs ch)"
  | (fast) i m tw tw' sent s1 where
      "m = (tw_messages (m_sendWindow s) i)\<lparr>header := (header (tw_messages (m_sendWindow s) i))
             \<lparr>windowSize := rw_currentAvailableSize (m_receiveWindow s)\<rparr>\<rparr>"
      "SendOrClose m (s\<lparr>m_sendWindow := tw\<rparr>) (snd (GetCurrentTimeInMs ch)) = (sent, s1, ch')"
      "s' = s1\<lparr>m_sendWindow := tw'\<rparr>" "tw_messages tw' = (tw_messages (m_sendWindow s))(i := m)"
proof -
  let ?tw0 = "m_sendWindow s"
  obtain now ch1 where now: "GetCurrentTimeInMs ch = (now, ch1)" by fastforce
  obtain seq avg tw where ml: "mark_loop maxS now (tw_nextUnacknowledgedSequence ?tw0)
      (tw_roundTripTime ?tw0) ?tw0 = (seq, avg, tw)" by (metis prod_cases3)
  note upd = mark_loop_fields [OF ml]
  have msgs: "tw_messages tw = tw_messages ?tw0" by (subst upd) simp
  note un = mk [unfolded MarkMessagesAsAcknowledged_def Let_def now ml prod.case]
  let ?tw1 = "tw\<lparr>tw_lastAckCount := tw_lastAckCount tw + 1\<rparr>"
  let ?i = "slot (tw_nextUnacknowledgedSequence ?tw1
              + ucast (tw_lastAckCount ?tw1 - kFastRetransmitThreshold))"
  let ?m = "(tw_messages ?tw0 ?i)\<lparr>header := (header (tw_messages ?tw0 ?i))
              \<lparr>windowSize := rw_currentAvailableSize (m_receiveWindow s)\<rparr>\<rparr>"
  let ?tw2 = "?tw1\<lparr>tw_messages := (tw_messages ?tw0)(?i := ?m)\<rparr>"
  obtain sent s1 ch2 where send: "SendOrClose ?m (s\<lparr>m_sendWindow := ?tw2\<rparr>) ch1 = (sent, s1, ch2)"
    by (metis prod_cases3)
  have w1: "m_sendWindow s1 = ?tw2" using SendOrClose_windows(1) [OF send] by simp
  show ?thesis
  proof (cases "\<not> tw_nextUnacknowledgedSequence tw < seq \<and> tw_nextUnacknowledgedSequence tw = seq
      \<and> kFastRetransmitThreshold \<le> tw_lastAckCount ?tw1")
    case False
    then have "\<exists>tw'. s' = s\<lparr>m_sendWindow := tw'\<rparr> \<and> tw_messages tw' = tw_messages ?tw0 \<and> ch' = ch1"
      using un msgs by (auto split: if_splits)
    with quiet now show ?thesis by auto
  next
    case True
    then have "s' = (if sent then s1\<lparr>m_sendWindow := (m_sendWindow s1)\<lparr>tw_retransmitCount := 0\<rparr>\<rparr> else s1)"
      and "ch' = ch2"
      using un send by (auto simp: msgs split: if_splits)
    then have "\<exists>tw'. s' = s1\<lparr>m_sendWindow := tw'\<rparr> \<and> tw_messages tw' = (tw_messages ?tw0)(?i := ?m)"
      using w1 by (cases sent) (auto intro: exI [of _ ?tw2] simp flip: w1)
    with fast [OF refl] send now \<open>ch' = ch2\<close> show ?thesis by auto
  qed
qed

lemma MarkMessagesAsAcknowledged_spec:
  assumes inv: "tw_inv (m_sendWindow s)"
    and mk: "MarkMessagesAsAcknowledged maxS s ch = (r, s', ch')"
  shows "tw_inv (m_sendWindow s')"
    and "unat (tw_nextUnacknowledgedSequence (m_sendWindow s')) = acked_up_to maxS (m_sendWindow s)"
    and "tw_nextSequence (m_sendWindow s') = tw_nextSequence (m_sendWindow s)"
    and "tw_lastSentSequence (m_sendWindow s') = tw_lastSentSequence (m_sendWindow s)"
    and "m_receiveWindow s' = m_receiveWindow s"
    and "r = (if unat (tw_nextUnacknowledgedSequence (m_sendWindow s)) < acked_up_to maxS (m_sendWindow s)
              then Success else Error)"
    and "m_sessionState s' = m_sessionState s \<or> m_sessionState s' = Closed"
proof -
  let ?tw0 = "m_sendWindow s"
  obtain now ch1 where now: "GetCurrentTimeInMs ch = (now, ch1)" by fastforce
  obtain seq avg tw where ml: "mark_loop maxS now (tw_nextUnacknowledgedSequence ?tw0)
      (tw_roundTripTime ?tw0) ?tw0 = (seq, avg, tw)" by (metis prod_cases3)
  note ms = mark_loop_inv [OF inv ml]
  note upd = ms(3)
  have same: "tw_nextSequence tw = tw_nextSequence ?tw0"
    "tw_lastSentSequence tw = tw_lastSentSequence ?tw0"
    "tw_nextUnacknowledgedSequence tw = tw_nextUnacknowledgedSequence ?tw0"
    by (subst upd, simp)+
  have ge: "unat (tw_nextUnacknowledgedSequence ?tw0) \<le> unat seq"
    using ms(1) by (simp add: acked_up_to_def)
  note un = mk [unfolded MarkMessagesAsAcknowledged_def Let_def now ml prod.case]
  have cong: "tw_inv (tw\<lparr>tw_roundTripTime := avg, tw_retransmitCount := 0,
       tw_nextUnacknowledgedSequence := seq, tw_lastAckCount := 0\<rparr>)"
    using ms(2) by (subst tw_inv_cong [of _ "tw\<lparr>tw_nextUnacknowledgedSequence := seq\<rparr>"]) auto
  have goal: "tw_inv (m_sendWindow s')
    \<and> unat (tw_nextUnacknowledgedSequence (m_sendWindow s')) = acked_up_to maxS ?tw0
    \<and> tw_nextSequence (m_sendWindow s') = tw_nextSequence ?tw0
    \<and> tw_lastSentSequence (m_sendWindow s') = tw_lastSentSequence ?tw0
    \<and> m_receiveWindow s' = m_receiveWindow s
    \<and> r = (if unat (tw_nextUnacknowledgedSequence ?tw0) < acked_up_to maxS ?tw0
           then Success else Error)
    \<and> (m_sessionState s' = m_sessionState s \<or> m_sessionState s' = Closed)"
  proof (cases "tw_nextUnacknowledgedSequence ?tw0 < seq")
    case True
    then show ?thesis
      using un cong ms(1) by (auto simp: same word_less_nat_alt)
  next
    case False
    with ge have eq: "seq = tw_nextUnacknowledgedSequence ?tw0"
      by (simp add: word_less_nat_alt word_unat_eq_iff)
    have inv': "tw_inv tw" using ms(4) ms(1) eq by simp
    let ?idx = "slot (tw_nextUnacknowledgedSequence ?tw0 + ucast (tw_lastAckCount tw + 1 - 3))"
    let ?m = "(tw_messages tw ?idx)\<lparr>header := (header (tw_messages tw ?idx))
                 \<lparr>windowSize := rw_currentAvailableSize (m_receiveWindow s)\<rparr>\<rparr>"
    let ?tw2 = "tw\<lparr>tw_lastAckCount := tw_lastAckCount tw + 1,
                   tw_messages := (tw_messages tw)(?idx := ?m)\<rparr>"
    have inv1: "tw_inv (tw\<lparr>tw_lastAckCount := tw_lastAckCount tw + 1\<rparr>)"
      using inv' by (subst tw_inv_cong) auto
    have inv2: "tw_inv ?tw2" "tw_inv (?tw2\<lparr>tw_retransmitCount := 0\<rparr>)"
      using inv' by (subst tw_inv_cong [of _ tw]; auto)+
    show ?thesis
      using un False inv1 inv2 ms(1)
      by (auto simp: same eq split: if_splits prod.splits elim!: SendOrClose_cases)
  qed
  from goal show "tw_inv (m_sendWindow s')"
    and "unat (tw_nextUnacknowledgedSequence (m_sendWindow s')) = acked_up_to maxS (m_sendWindow s)"
    and "tw_nextSequence (m_sendWindow s') = tw_nextSequence (m_sendWindow s)"
    and "tw_lastSentSequence (m_sendWindow s') = tw_lastSentSequence (m_sendWindow s)"
    and "m_receiveWindow s' = m_receiveWindow s"
    and "r = (if unat (tw_nextUnacknowledgedSequence (m_sendWindow s)) < acked_up_to maxS (m_sendWindow s)
              then Success else Error)"
    and "m_sessionState s' = m_sessionState s \<or> m_sessionState s' = Closed"
    by blast+
qed

text \<open>Writing a message: what each outcome does to the window.\<close>

definition written_message ::
  "SessionMessage \<Rightarrow> u32 \<Rightarrow> u8 list option \<Rightarrow> Session \<Rightarrow> MessageBuffer" where
  "written_message message n pPayload s =
    (let old = payload (tw_messages (m_sendWindow s) (slot (tw_nextSequence (m_sendWindow s)))) in
     \<lparr>header = \<lparr>srcClientId = m_clientId s, dstClientId = m_remoteClientId s,
                protocolId = Protocol_Session, messageId = code_of_SessionMessage message,
                windowSize = rw_currentAvailableSize (m_receiveWindow s), payloadSize = n,
                sessionId = m_sessionId s, sequence = tw_nextSequence (m_sendWindow s)\<rparr>,
      payload = (case pPayload of None \<Rightarrow> old
                 | Some bs \<Rightarrow> if 0 < n then memcpy (unat n) old bs else old)\<rparr>)"

lemma WriteMessageIntoSendWindow_cases:
  assumes "WriteMessageIntoSendWindow message n pl s = (r, s')"
  obtains
    (written) "r = Success" "m_sessionState s < FinWait2" "unat n \<le> kMaxPayloadSizeInBytes"
      "0 < tw_semaphore (m_sendWindow s)"
      "s' = s\<lparr>m_sendWindow := (m_sendWindow s)
         \<lparr>tw_semaphore := tw_semaphore (m_sendWindow s) - 1,
          tw_nextSequence := tw_nextSequence (m_sendWindow s) + 1,
          tw_messages := (tw_messages (m_sendWindow s))
            (slot (tw_nextSequence (m_sendWindow s)) := written_message message n pl s),
          tw_sequence := (tw_sequence (m_sendWindow s))
            (slot (tw_nextSequence (m_sendWindow s)) := tw_nextSequence (m_sendWindow s)),
          tw_valid := (tw_valid (m_sendWindow s))
            (slot (tw_nextSequence (m_sendWindow s)) := True)\<rparr>\<rparr>"
  | (full) "r = NotReady" "tw_semaphore (m_sendWindow s) = 0" "s' = s"
  | (large) "r = InsufficientMemory" "kMaxPayloadSizeInBytes < unat n" "s' = s"
  | (closing) "r = Error" "m_sessionState s = FinWait2" "s' = s"
proof -
  note un = assms [unfolded WriteMessageIntoSendWindow_def semaphore_Wait_def Let_def]
  show ?thesis
  proof (cases "m_sessionState s < FinWait2")
    case False
    then have "m_sessionState s = FinWait2"
      by (cases "m_sessionState s") (simp_all add: less_SessionState_def)
    with un False show ?thesis by (intro closing) simp_all
  next
    case open': True
    show ?thesis
    proof (cases "unat n \<le> kMaxPayloadSizeInBytes")
      case False
      with un open' show ?thesis by (intro large) simp_all
    next
      case True
      show ?thesis
      proof (cases "0 < tw_semaphore (m_sendWindow s)")
        case False
        with un open' True show ?thesis by (intro full) simp_all
      next
        case sem: True
        show ?thesis
          by (rule written; cases pl; cases "0 < n")
            (use un open' True sem in \<open>simp_all add: written_message_def Let_def\<close>)
      qed
    qed
  qed
qed

lemma WriteMessageIntoSendWindow_inv:
  assumes inv: "tw_inv (m_sendWindow s)" and room: "tw_room (m_sendWindow s)"
    and w: "WriteMessageIntoSendWindow message n pl s = (r, s')"
  shows "tw_inv (m_sendWindow s')"
  using w
proof (cases rule: WriteMessageIntoSendWindow_cases)
  case written
  let ?tw = "m_sendWindow s"
  have s1: "unat (tw_nextSequence ?tw + 1) = Suc (unat (tw_nextSequence ?tw))"
    using room by (simp add: tw_room_def unat_Suc_no_wrap)
  note ring = tw_ring_fill [OF tw_inv_bounds(4) [OF inv] written(4) refl, of "written_message message n pl s"
      "tw_nextSequence ?tw + 1"]
  show ?thesis
    using ring inv by (simp add: written(5) tw_inv_def s1 slot_unat written_message_def Let_def)
qed (use inv in simp_all)

subsection \<open>Retransmission\<close>

text \<open>Sending stored packets again changes their window field and nothing else of the windows.\<close>

definition same_but_windowSize :: "TransmitWindow \<Rightarrow> TransmitWindow \<Rightarrow> bool" where
  "same_but_windowSize tw tw' \<longleftrightarrow>
     tw' = tw\<lparr>tw_messages := tw_messages tw'\<rparr>
     \<and> (\<forall>i. \<exists>w. tw_messages tw' i =
          (tw_messages tw i)\<lparr>header := (header (tw_messages tw i))\<lparr>windowSize := w\<rparr>\<rparr>)"

lemma same_but_windowSize_refl: "same_but_windowSize tw tw"
proof -
  have "\<exists>w. tw_messages tw i =
      (tw_messages tw i)\<lparr>header := (header (tw_messages tw i))\<lparr>windowSize := w\<rparr>\<rparr>" for i
    by (rule exI [of _ "windowSize (header (tw_messages tw i))"]) simp
  then show ?thesis by (simp add: same_but_windowSize_def)
qed

lemma same_but_windowSize_step:
  "same_but_windowSize tw (tw\<lparr>tw_messages := (tw_messages tw)
      (i := (tw_messages tw i)\<lparr>header := (header (tw_messages tw i))\<lparr>windowSize := w\<rparr>\<rparr>)\<rparr>)"
  using same_but_windowSize_refl [of tw] by (auto simp: same_but_windowSize_def)

lemma same_but_windowSize_trans:
  assumes "same_but_windowSize a b" and "same_but_windowSize b c"
  shows "same_but_windowSize a c"
proof -
  have b: "b = a\<lparr>tw_messages := tw_messages b\<rparr>" and c: "c = b\<lparr>tw_messages := tw_messages c\<rparr>"
    using assms by (auto simp: same_but_windowSize_def)
  have "c = a\<lparr>tw_messages := tw_messages c\<rparr>" by (subst c, subst b) simp
  moreover have "\<exists>w. tw_messages c i =
      (tw_messages a i)\<lparr>header := (header (tw_messages a i))\<lparr>windowSize := w\<rparr>\<rparr>" for i
  proof -
    obtain v w where
      "tw_messages c i = (tw_messages b i)\<lparr>header := (header (tw_messages b i))\<lparr>windowSize := w\<rparr>\<rparr>"
      "tw_messages b i = (tw_messages a i)\<lparr>header := (header (tw_messages a i))\<lparr>windowSize := v\<rparr>\<rparr>"
      using assms unfolding same_but_windowSize_def by blast
    then show ?thesis by auto
  qed
  ultimately show ?thesis by (simp add: same_but_windowSize_def)
qed

lemma same_but_windowSize_fields:
  assumes "same_but_windowSize tw tw'"
  shows "tw_semaphore tw' = tw_semaphore tw" "tw_valid tw' = tw_valid tw"
    "tw_sequence tw' = tw_sequence tw" "tw_nextSequence tw' = tw_nextSequence tw"
    "tw_nextUnacknowledgedSequence tw' = tw_nextUnacknowledgedSequence tw"
    "tw_lastSentSequence tw' = tw_lastSentSequence tw"
    "tw_lastAvailableSize tw' = tw_lastAvailableSize tw"
    "tw_retransmitCount tw' = tw_retransmitCount tw"
    "sequence (header (tw_messages tw' i)) = sequence (header (tw_messages tw i))"
proof -
  have eq: "tw' = tw\<lparr>tw_messages := tw_messages tw'\<rparr>"
    using assms by (simp add: same_but_windowSize_def)
  show "tw_semaphore tw' = tw_semaphore tw" "tw_valid tw' = tw_valid tw"
    "tw_sequence tw' = tw_sequence tw" "tw_nextSequence tw' = tw_nextSequence tw"
    "tw_nextUnacknowledgedSequence tw' = tw_nextUnacknowledgedSequence tw"
    "tw_lastSentSequence tw' = tw_lastSentSequence tw"
    "tw_lastAvailableSize tw' = tw_lastAvailableSize tw"
    "tw_retransmitCount tw' = tw_retransmitCount tw"
    by (subst eq, simp)+
  obtain w where "tw_messages tw' i =
      (tw_messages tw i)\<lparr>header := (header (tw_messages tw i))\<lparr>windowSize := w\<rparr>\<rparr>"
    using assms by (auto simp: same_but_windowSize_def)
  then show "sequence (header (tw_messages tw' i)) = sequence (header (tw_messages tw i))" by simp
qed

lemma tw_inv_same_but_windowSize: "same_but_windowSize tw tw' \<Longrightarrow> tw_inv tw' = tw_inv tw"
  by (intro tw_inv_cong; erule same_but_windowSize_fields)

lemma resend_loop_spec:
  assumes "resend_loop timeout now seq count s ch = (count', s', ch')"
  shows "same_but_windowSize (m_sendWindow s) (m_sendWindow s')
    \<and> m_receiveWindow s' = m_receiveWindow s
    \<and> (m_sessionState s' = m_sessionState s \<or> m_sessionState s' = Closed)"
  using assms
proof (induction timeout now seq count s ch arbitrary: count' s' ch' rule: resend_loop.induct)
  case (1 timeout now seq count s ch)
  let ?tw = "m_sendWindow s"
  let ?m = "(tw_messages ?tw (slot seq))\<lparr>header := (header (tw_messages ?tw (slot seq)))
              \<lparr>windowSize := rw_currentAvailableSize (m_receiveWindow s)\<rparr>\<rparr>"
  let ?s1 = "s\<lparr>m_sendWindow := ?tw\<lparr>tw_messages := (tw_messages ?tw)(slot seq := ?m)\<rparr>\<rparr>"
  show ?case
  proof (cases "seq \<le> tw_lastSentSequence ?tw
      \<and> \<not> now - tw_initialTransmitTimeInMs ?tw (slot seq) \<le> timeout")
    case False
    then have "resend_loop timeout now seq count s ch = (count, s, ch)"
      by (subst resend_loop.simps) (auto simp: Let_def)
    with "1.prems" show ?thesis by (simp add: same_but_windowSize_refl)
  next
    case True
    obtain sent s2 ch2 where send: "SendOrClose ?m ?s1 ch = (sent, s2, ch2)" by (metis prod_cases3)
    note w2 = SendOrClose_windows [OF send]
    have step: "same_but_windowSize ?tw (m_sendWindow s2)"
      using same_but_windowSize_step [of ?tw "slot seq"] by (simp add: w2)
    have un: "resend_loop timeout now seq count s ch =
        (if \<not> sent then (count, s2, ch2)
         else if seq = - 1 then (count + 1, s2, ch2)
         else resend_loop timeout now (seq + 1) (count + 1) s2 ch2)"
      using True by (subst resend_loop.simps) (simp add: Let_def send)
    show ?thesis
    proof (cases "sent \<and> seq \<noteq> - 1")
      case False
      with un "1.prems" have "s' = s2" by (auto split: if_splits)
      with step w2 show ?thesis by auto
    next
      case go: True
      then have rec: "resend_loop timeout now (seq + 1) (count + 1) s2 ch2 = (count', s', ch')"
        using un "1.prems" by simp
      have "same_but_windowSize (m_sendWindow s2) (m_sendWindow s')
          \<and> m_receiveWindow s' = m_receiveWindow s2
          \<and> (m_sessionState s' = m_sessionState s2 \<or> m_sessionState s' = Closed)"
        by (rule "1.IH" [OF refl refl _ _ refl refl refl refl send [symmetric] refl _ _ rec]) (use True go in auto)
      with step w2 same_but_windowSize_trans show ?thesis by auto
    qed
  qed
qed

subsection \<open>Transmission\<close>

lemma lastSent_Suc: "tw_inv tw \<Longrightarrow> unat (tw_lastSentSequence tw + 1) = unat (tw_lastSentSequence tw) + 1"
  using tw_inv_bounds(1,3) [of tw] by (intro unat_Suc_no_wrap) simp

text \<open>What the transmission of packets may change of a session.\<close>

definition transmit_frame :: "Session \<Rightarrow> Session \<Rightarrow> bool" where
  "transmit_frame s s' \<longleftrightarrow>
     tw_inv (m_sendWindow s')
     \<and> tw_nextSequence (m_sendWindow s') = tw_nextSequence (m_sendWindow s)
     \<and> tw_nextUnacknowledgedSequence (m_sendWindow s')
         = tw_nextUnacknowledgedSequence (m_sendWindow s)
     \<and> unat (tw_lastSentSequence (m_sendWindow s)) \<le> unat (tw_lastSentSequence (m_sendWindow s'))
     \<and> unat (tw_lastSentSequence (m_sendWindow s'))
         + unat (tw_lastAvailableSize (m_sendWindow s'))
         = unat (tw_lastSentSequence (m_sendWindow s))
         + unat (tw_lastAvailableSize (m_sendWindow s))
     \<and> m_receiveWindow s' = m_receiveWindow s
     \<and> (m_sessionState s' = m_sessionState s \<or> m_sessionState s' = Closed)"

lemma transmit_frame_refl: "tw_inv (m_sendWindow s) \<Longrightarrow> transmit_frame s s"
  by (simp add: transmit_frame_def)

lemma transmit_frame_trans:
  "transmit_frame a b \<Longrightarrow> transmit_frame b c \<Longrightarrow> transmit_frame a c"
  by (auto simp: transmit_frame_def)

lemma transmit_one_spec:
  assumes inv: "tw_inv (m_sendWindow s)"
    and seq: "seq = tw_lastSentSequence (m_sendWindow s) + 1"
    and lt: "seq < tw_nextSequence (m_sendWindow s)" "0 < tw_lastAvailableSize (m_sendWindow s)"
    and one: "transmit_one seq s ch = (go, s', ch')"
  shows "transmit_frame s s'"
    and "tw_lastSentSequence (m_sendWindow s') = (if go then seq else tw_lastSentSequence (m_sendWindow s))"
proof -
  let ?tw = "m_sendWindow s"
  let ?i = "slot seq"
  let ?w = "rw_currentAvailableSize (m_receiveWindow s)"
  let ?m = "(tw_messages ?tw ?i)\<lparr>header := (header (tw_messages ?tw ?i))\<lparr>windowSize := ?w\<rparr>\<rparr>"
  let ?tw1 = "?tw\<lparr>tw_messages := (tw_messages ?tw)(?i := ?m)\<rparr>"
  note b = tw_inv_bounds [OF inv]
  have useq: "unat seq = unat (tw_lastSentSequence ?tw) + 1" by (simp add: seq lastSent_Suc [OF inv])
  have ulim: "unat seq < unat (tw_nextSequence ?tw)" using lt(1) by (simp add: word_less_nat_alt)
  have hdr: "sequence (header (tw_messages ?tw ?i)) = seq"
    using tw_ring_slot(3) [OF b(4)] b(2) useq ulim by simp
  have avail: "unat (tw_lastAvailableSize ?tw - 1) = unat (tw_lastAvailableSize ?tw) - 1"
    "0 < unat (tw_lastAvailableSize ?tw)"
    using lt(2) by (simp_all add: unat_minus_one word_less_nat_alt unat_gt_0)
  have inv1: "tw_inv ?tw1" by (simp add: tw_inv_resend inv)
  have inv2: "tw_inv (?tw1\<lparr>tw_initialTransmitTimeInMs := t, tw_lastSentSequence := seq,
      tw_lastAvailableSize := a\<rparr>)" for t a
    using inv1 useq ulim by (simp add: tw_inv_def tw_ring_def)
  obtain r ch1 where f: "Forward ?m ch = (r, ch1)" by fastforce
  obtain now ch2 where now: "GetCurrentTimeInMs ch1 = (now, ch2)" by fastforce
  note un = one [unfolded transmit_one_def Let_def f now prod.case]
  show "transmit_frame s s'"
    using un inv1 inv2 useq avail hdr by (auto simp: transmit_frame_def split: if_splits)
  show "tw_lastSentSequence (m_sendWindow s') = (if go then seq else tw_lastSentSequence ?tw)"
    using un hdr by (auto split: if_splits)
qed

lemma transmit_loop_spec:
  assumes "tw_inv (m_sendWindow s)" and "seq = tw_lastSentSequence (m_sendWindow s) + 1"
  shows "\<exists>s' ch'. transmit_loop seq s ch = Some (s', ch') \<and> transmit_frame s s'"
  using assms
proof (induction seq s ch rule: transmit_loop.induct)
  case (1 seq s ch)
  let ?tw = "m_sendWindow s"
  show ?case
  proof (cases "seq < tw_nextSequence ?tw \<and> 0 < tw_lastAvailableSize ?tw")
    case False
    then have "transmit_loop seq s ch = Some (s, ch)"
      by (subst transmit_loop.simps) (simp only: Let_def if_False)
    with transmit_frame_refl [OF "1.prems"(1)] show ?thesis by blast
  next
    case True
    note b = tw_inv_bounds [OF "1.prems"(1)]
    have "unat seq = unat (tw_lastSentSequence ?tw) + 1"
      by (simp add: "1.prems"(2) lastSent_Suc [OF "1.prems"(1)])
    then have ok: "tw_valid ?tw (slot seq) \<and> seq = tw_sequence ?tw (slot seq)"
      using tw_ring_slot(1,2) [OF b(4), of seq] b(2) True by (simp add: word_less_nat_alt)
    obtain go s1 ch1 where one: "transmit_one seq s ch = (go, s1, ch1)" by (metis prod_cases3)
    note spec = transmit_one_spec [OF "1.prems" conjunct1 [OF True] conjunct2 [OF True] one]
    show ?thesis
    proof (cases go)
      case False
      then have "transmit_loop seq s ch = Some (s1, ch1)"
        using True ok one by (subst transmit_loop.simps) (simp add: Let_def)
      with spec(1) show ?thesis by blast
    next
      case go: True
      then have un: "transmit_loop seq s ch = transmit_loop (seq + 1) s1 ch1"
        using True ok one by (subst transmit_loop.simps) (simp add: Let_def)
      have inv1: "tw_inv (m_sendWindow s1)" using spec(1) by (simp add: transmit_frame_def)
      have "\<exists>s' ch'. transmit_loop (seq + 1) s1 ch1 = Some (s', ch') \<and> transmit_frame s1 s'"
        by (rule "1.IH" [OF refl True ok one [symmetric] _ refl inv1])
           (simp_all add: spec(2) go)
      with un spec(1) transmit_frame_trans show ?thesis by metis
    qed
  qed
qed

text \<open>
  The periodic work on the send window: it always ends, and it keeps the window's invariant.
\<close>

lemma UpdateSendWindow_spec:
  assumes inv: "tw_inv (m_sendWindow s)"
  shows "\<exists>s' ch'. UpdateSendWindow s ch = Some (s', ch') \<and> transmit_frame s s'"
proof -
  let ?tw = "m_sendWindow s"
  obtain s1 ch1 where pre:
    "UpdateSendWindow s ch = transmit_loop (tw_lastSentSequence (m_sendWindow s1) + 1) s1 ch1"
    and fr: "transmit_frame s s1"
  proof (cases "tw_nextUnacknowledgedSequence ?tw \<le> tw_lastSentSequence ?tw
      \<and> tw_retransmitCount ?tw \<le> kMaxRetransmits")
    case True
    obtain now ch' where now: "GetCurrentTimeInMs ch = (now, ch')" by fastforce
    obtain count s' ch'' where rl:
      "resend_loop (currentTimeout ?tw) now (tw_nextUnacknowledgedSequence ?tw) 0 s ch' = (count, s', ch'')"
      by (metis prod_cases3)
    note spec = resend_loop_spec [OF rl]
    let ?s1 = "if 0 < count
       then s'\<lparr>m_sendWindow := (m_sendWindow s')
              \<lparr>tw_retransmitCount := tw_retransmitCount (m_sendWindow s') + 1\<rparr>\<rparr> else s'"
    have same: "same_but_windowSize ?tw (m_sendWindow s')" using spec by blast
    have "tw_inv (m_sendWindow s')" using inv same tw_inv_same_but_windowSize by blast
    then have "tw_inv (m_sendWindow ?s1)" by (auto simp: tw_inv_def tw_ring_def)
    then have "transmit_frame s ?s1"
      using spec same_but_windowSize_fields [OF same] by (auto simp: transmit_frame_def)
    moreover have "UpdateSendWindow s ch =
        transmit_loop (tw_lastSentSequence (m_sendWindow ?s1) + 1) ?s1 ch''"
      using True by (simp add: UpdateSendWindow_def Let_def now rl)
    ultimately show ?thesis using that by blast
  next
    case False
    then consider "\<not> tw_nextUnacknowledgedSequence ?tw \<le> tw_lastSentSequence ?tw"
      | "tw_nextUnacknowledgedSequence ?tw \<le> tw_lastSentSequence ?tw"
        "\<not> tw_retransmitCount ?tw \<le> kMaxRetransmits" by blast
    then show ?thesis
    proof cases
      case 1
      with that [of s ch] transmit_frame_refl [OF inv] show ?thesis
        by (simp add: UpdateSendWindow_def Let_def)
    next
      case 2
      have "transmit_frame s (Shutdown NotReady s)"
        using inv by (simp add: transmit_frame_def Shutdown_state)
      with 2 that [of "Shutdown NotReady s" ch] show ?thesis
        by (simp add: UpdateSendWindow_def Let_def)
    qed
  qed
  have "tw_inv (m_sendWindow s1)" using fr by (simp add: transmit_frame_def)
  from transmit_loop_spec [OF this refl] pre fr transmit_frame_trans show ?thesis by metis
qed

end
