(* ===== verification/Receive_Inv.thy ===== *)
theory Receive_Inv
  imports Session_Inv
begin

text \<open>
  The invariant of the receive window and the operations that fill and drain it.  \<open>rw_ring k\<close> holds
  with \<open>k\<close> readers between the wait on the semaphore and the read of the packet: the semaphore
  counts the packets that arrived in order, less those readers.
\<close>

definition rw_slot_ok :: "nat \<Rightarrow> ReceiveWindow \<Rightarrow> nat \<Rightarrow> bool" where
  "rw_slot_ok r rw i \<longleftrightarrow>
     (\<exists>q. r \<le> q \<and> q < r + 128 \<and> q mod 128 = i \<and> unat (rw_sequence rw i) = q
          \<and> unat (sequence (header (rw_messages rw i))) = q)"

definition rw_slots :: "nat \<Rightarrow> nat \<Rightarrow> ReceiveWindow \<Rightarrow> bool" where
  "rw_slots r e rw \<longleftrightarrow>
     r \<le> e \<and> e \<le> r + 128
     \<and> (\<forall>q. r \<le> q \<and> q < e \<longrightarrow> rw_valid rw (q mod 128))
     \<and> (\<forall>i < 128. rw_valid rw i \<longrightarrow> rw_slot_ok r rw i)"

definition rw_ring :: "nat \<Rightarrow> ReceiveWindow \<Rightarrow> bool" where
  "rw_ring k rw \<longleftrightarrow>
     (let r = unat (rw_nextUnreadSequence rw); e = unat (rw_nextExpectedSequence rw) in
      rw_slots r e rw \<and> rw_semaphore rw + k = e - r
      \<and> (e < r + 128 \<longrightarrow> \<not> rw_valid rw (e mod 128))
      \<and> unat (rw_lastUnacknowledgedSequence rw) \<le> e
      \<and> 1 \<le> unat (rw_currentAvailableSize rw) \<and> unat (rw_currentAvailableSize rw) \<le> 64)"

definition rw_room :: "ReceiveWindow \<Rightarrow> bool" where
  "rw_room rw \<longleftrightarrow> unat (rw_nextUnreadSequence rw) + 128 < 2 ^ 64"

text \<open>Only the slots matter to \<open>rw_slots\<close>.\<close>

lemma rw_slot_ok_frame [simp]:
  "rw_slot_ok r (rw\<lparr>rw_valid := v\<rparr>) i = rw_slot_ok r rw i"
  "rw_slot_ok r (rw\<lparr>rw_semaphore := n\<rparr>) i = rw_slot_ok r rw i"
  "rw_slot_ok r (rw\<lparr>rw_nextUnreadSequence := q\<rparr>) i = rw_slot_ok r rw i"
  "rw_slot_ok r (rw\<lparr>rw_nextExpectedSequence := q\<rparr>) i = rw_slot_ok r rw i"
  "rw_slot_ok r (rw\<lparr>rw_currentAvailableSize := w\<rparr>) i = rw_slot_ok r rw i"
  by (simp_all add: rw_slot_ok_def)

lemma rw_slots_frame [simp]:
  "rw_slots r e (rw\<lparr>rw_semaphore := n\<rparr>) = rw_slots r e rw"
  "rw_slots r e (rw\<lparr>rw_nextUnreadSequence := q\<rparr>) = rw_slots r e rw"
  "rw_slots r e (rw\<lparr>rw_nextExpectedSequence := q\<rparr>) = rw_slots r e rw"
  "rw_slots r e (rw\<lparr>rw_currentAvailableSize := w\<rparr>) = rw_slots r e rw"
  by (simp_all add: rw_slots_def)

text \<open>A window no packet has been written into.\<close>

definition rw_fresh :: "ReceiveWindow \<Rightarrow> bool" where
  "rw_fresh rw \<longleftrightarrow> (\<forall>i < 128. \<not> rw_valid rw i) \<and> rw_semaphore rw = 0"

lemma MaxAdvertizedSize_64: "MaxAdvertizedSize = 64"
  by (simp add: MaxAdvertizedSize_def kDefaultWindowSize_def)

lemma rw_fresh_new: "rw_fresh new_ReceiveWindow"
  by (simp add: rw_fresh_def new_ReceiveWindow_def)

lemma rw_ring_fresh:
  assumes "rw_fresh rw" and "rw_nextExpectedSequence rw = rw_nextUnreadSequence rw"
    and "rw_lastUnacknowledgedSequence rw = rw_nextUnreadSequence rw"
    and "rw_currentAvailableSize rw = MaxAdvertizedSize"
  shows "rw_ring 0 rw"
  using assms by (simp add: rw_ring_def rw_slots_def rw_fresh_def MaxAdvertizedSize_64 Let_def)

lemma rw_ring_new: "rw_ring 0 new_ReceiveWindow"
  by (rule rw_ring_fresh [OF rw_fresh_new]) (simp_all add: new_ReceiveWindow_def)

lemma rw_ringD:
  assumes "rw_ring k rw"
  shows "rw_slots (unat (rw_nextUnreadSequence rw)) (unat (rw_nextExpectedSequence rw)) rw"
    and "unat (rw_nextUnreadSequence rw) \<le> unat (rw_nextExpectedSequence rw)"
    and "unat (rw_nextExpectedSequence rw) \<le> unat (rw_nextUnreadSequence rw) + 128"
    and "rw_semaphore rw + k = unat (rw_nextExpectedSequence rw) - unat (rw_nextUnreadSequence rw)"
    and "unat (rw_lastUnacknowledgedSequence rw) \<le> unat (rw_nextExpectedSequence rw)"
    and "1 \<le> unat (rw_currentAvailableSize rw)" and "unat (rw_currentAvailableSize rw) \<le> 64"
  using assms by (auto simp: rw_ring_def rw_slots_def Let_def)

lemma rw_ring_rewrite:
  assumes "rw_ring k rw"
    and "unat (rw_lastUnacknowledgedSequence rw') \<le> unat (rw_nextExpectedSequence rw)"
    and "1 \<le> unat (rw_currentAvailableSize rw')" "unat (rw_currentAvailableSize rw') \<le> 64"
    and "rw_nextUnreadSequence rw' = rw_nextUnreadSequence rw"
    and "rw_nextExpectedSequence rw' = rw_nextExpectedSequence rw"
    and "rw_valid rw' = rw_valid rw" "rw_sequence rw' = rw_sequence rw"
    and "rw_messages rw' = rw_messages rw" "rw_semaphore rw' = rw_semaphore rw"
  shows "rw_ring k rw'"
  using assms(1-4) by (simp add: rw_ring_def rw_slots_def rw_slot_ok_def Let_def assms(5-))

subsection \<open>The advertised window\<close>

lemma CalculateCurrentWindowSize_spec:
  assumes le: "unat (rw_nextUnreadSequence rw) \<le> unat (rw_nextExpectedSequence rw)"
    and win: "unat (rw_nextExpectedSequence rw) \<le> unat (rw_nextUnreadSequence rw) + 128"
  shows "unat (CalculateCurrentWindowSize rw)
    = max 1 (64 - (unat (rw_nextExpectedSequence rw) - unat (rw_nextUnreadSequence rw)))"
proof -
  let ?d = "unat (rw_nextExpectedSequence rw) - unat (rw_nextUnreadSequence rw)"
  have d: "unat (rw_nextExpectedSequence rw - rw_nextUnreadSequence rw) = ?d"
    using le by (simp add: unat_minus_le word_le_nat_alt)
  have bound: "?d \<le> 128" using win by simp
  have dw: "rw_nextExpectedSequence rw - rw_nextUnreadSequence rw = of_nat ?d"
    by (simp flip: d)
  have "(ucast (of_nat ?d :: u64) :: u32) = of_nat ?d"
    using bound by (simp add: unsigned_of_nat take_bit_nat_eq_self)
  then have "ucast MaxAdvertizedSize - ucast (rw_nextExpectedSequence rw - rw_nextUnreadSequence rw)
      = (of_int (64 - int ?d) :: u32)"
    unfolding dw by (simp add: MaxAdvertizedSize_64)
  moreover have "sint (of_int (64 - int ?d) :: u32) = 64 - int ?d"
    by (subst signed_of_int, subst signed_take_bit_int_eq_self) (use bound in simp_all)
  ultimately have "CalculateCurrentWindowSize rw = word_of_int (max (64 - int ?d) 1)"
    by (simp add: CalculateCurrentWindowSize_def Let_def)
  also have "max (64 - int ?d) 1 = int (max 1 (64 - ?d))" by linarith
  finally show ?thesis by (simp add: unat_of_nat)
qed

subsection \<open>Filling the window\<close>

lemma rw_slots_write:
  assumes sl: "rw_slots r e rw" and q: "unat (sequence h) = q" "r \<le> q" "q < r + 128"
    and h: "header m = h"
  shows "rw_slots r e (rw\<lparr>rw_messages := (rw_messages rw)(q mod 128 := m),
           rw_sequence := (rw_sequence rw)(q mod 128 := sequence h),
           rw_valid := (rw_valid rw)(q mod 128 := True)\<rparr>)"
  using assms by (auto simp: rw_slots_def rw_slot_ok_def)

text \<open>The scan steps over exactly the packets that are there, and counts them.\<close>

lemma scan_loop_spec:
  assumes "rw_slots r (unat q) rw" and "unat (rw_nextUnreadSequence rw) = r" and "r + 128 < 2 ^ 64"
    and "scan_loop q rw = (q', rw')"
  shows "rw_slots r (unat q') rw' \<and> unat q \<le> unat q'
    \<and> (unat q' < r + 128 \<longrightarrow> \<not> rw_valid rw' (unat q' mod 128))
    \<and> rw' = rw\<lparr>rw_semaphore := rw_semaphore rw + (unat q' - unat q)\<rparr>"
  using assms
proof (induction q rw arbitrary: q' rw' rule: scan_loop.induct)
  case (1 q rw)
  have ge: "r \<le> unat q" and le: "unat q \<le> r + 128" using "1.prems"(1) by (auto simp: rw_slots_def)
  have dist: "unat (q - rw_nextUnreadSequence rw) = unat q - r"
    using ge "1.prems"(2) by (simp add: unat_minus_le word_le_nat_alt)
  have guard: "unat (q - rw_nextUnreadSequence rw) < kDefaultWindowSize \<longleftrightarrow> unat q < r + 128"
    using ge by (auto simp: dist kDefaultWindowSize_def)
  show ?case
  proof (cases "unat q < r + 128 \<and> rw_valid rw (slot q)")
    case False
    then have "scan_loop q rw = (q, rw)" using guard by (subst scan_loop.simps) auto
    with "1.prems" False show ?thesis by (auto simp: slot_unat)
  next
    case True
    let ?rw = "rw\<lparr>rw_semaphore := rw_semaphore rw + 1\<rparr>"
    have s1: "unat (q + 1) = unat q + 1" using True "1.prems"(3) by (intro unat_Suc_no_wrap) simp
    have rec: "scan_loop (q + 1) ?rw = (q', rw')"
      using "1.prems"(4) True guard by (simp add: scan_loop.simps [of q rw])
    have sl: "rw_slots r (unat (q + 1)) ?rw"
      using "1.prems"(1) True s1
      by (auto simp: rw_slots_def rw_slot_ok_def slot_unat less_Suc_eq)
    have ih: "rw_slots r (unat q') rw' \<and> unat (q + 1) \<le> unat q'
        \<and> (unat q' < r + 128 \<longrightarrow> \<not> rw_valid rw' (unat q' mod 128))
        \<and> rw' = ?rw\<lparr>rw_semaphore := rw_semaphore ?rw + (unat q' - unat (q + 1))\<rparr>"
      by (rule "1.IH" [OF _ _ sl _ _ rec]) (use True guard "1.prems" in simp_all)
    then have "rw_semaphore rw + 1 + (unat q' - unat (q + 1)) = rw_semaphore rw + (unat q' - unat q)"
      using s1 by linarith
    with ih s1 show ?thesis by auto
  qed
qed

lemma SendAckMessage_ring:
  assumes ring: "rw_ring k (m_receiveWindow s)" and ack: "SendAckMessage s ch = (sent, s', ch')"
  shows "rw_ring k (m_receiveWindow s')"
proof -
  note w = SendAckMessage_windows(2) [OF ack]
  show ?thesis
    by (rule rw_ring_rewrite [OF ring])
      (simp_all add: w CalculateCurrentWindowSize_spec [OF rw_ringD(2,3) [OF ring]])
qed

text \<open>
  The packet as the window keeps it: the header, and the payload bytes over what the slot held.
\<close>

definition copied_message :: "MessageBuffer \<Rightarrow> ReceiveWindow \<Rightarrow> MessageBuffer" where
  "copied_message m rw =
    \<lparr>header = header m,
     payload = memcpy (unat (payloadSize (header m)))
                 (payload (rw_messages rw (slot (sequence (header m))))) (payload m)\<rparr>"

definition in_window :: "MessageBuffer \<Rightarrow> ReceiveWindow \<Rightarrow> bool" where
  "in_window m rw \<longleftrightarrow>
     rw_nextExpectedSequence rw \<le> sequence (header m)
     \<and> unat (sequence (header m)) < unat (rw_nextUnreadSequence rw) + 128"

definition rw_store :: "MessageBuffer \<Rightarrow> ReceiveWindow \<Rightarrow> ReceiveWindow" where
  "rw_store m rw =
    rw\<lparr>rw_messages := (rw_messages rw)(slot (sequence (header m)) := copied_message m rw),
       rw_sequence := (rw_sequence rw)(slot (sequence (header m)) := sequence (header m)),
       rw_valid := (rw_valid rw)(slot (sequence (header m)) := True)\<rparr>"

definition rw_scan :: "ReceiveWindow \<Rightarrow> ReceiveWindow" where
  "rw_scan rw = (let (q, rw') = scan_loop (rw_nextExpectedSequence rw) rw
                 in rw'\<lparr>rw_nextExpectedSequence := q\<rparr>)"

lemma distance_in_window:
  assumes "rw_ring k rw" and "rw_nextExpectedSequence rw \<le> q"
  shows "unat (q - rw_nextUnreadSequence rw) < kDefaultWindowSize
     \<longleftrightarrow> unat q < unat (rw_nextUnreadSequence rw) + 128"
proof -
  have "rw_nextUnreadSequence rw \<le> q"
    using assms(2) rw_ringD(2) [OF assms(1)] by (simp add: word_le_nat_alt)
  then show ?thesis by (auto simp: unat_minus_le kDefaultWindowSize_def word_le_nat_alt)
qed

lemma WriteMessageIntoReceiveWindow_cases:
  assumes ring: "rw_ring k (m_receiveWindow s)"
    and w: "WriteMessageIntoReceiveWindow m s ch = (r, s', ch')"
  obtains
    (large) "kMaxPayloadSizeInBytes < unat (payloadSize (header m))" "r = InsufficientMemory"
      "s' = s" "ch' = ch"
  | (outside) "rw_nextExpectedSequence (m_receiveWindow s) \<le> sequence (header m)"
      "\<not> in_window m (m_receiveWindow s)" "r = InsufficientMemory" "s' = s" "ch' = ch"
  | (duplicate) sent where "sequence (header m) < rw_nextExpectedSequence (m_receiveWindow s)"
      "r = Success" "SendAckMessage s ch = (sent, s', ch')"
  | (stored) "in_window m (m_receiveWindow s)" "r = Success"
      "unat (payloadSize (header m)) \<le> kMaxPayloadSizeInBytes"
      "s' = s\<lparr>m_receiveWindow := rw_scan (rw_store m (m_receiveWindow s))\<rparr>" "ch' = ch"
  | (stored_acked) sent where "in_window m (m_receiveWindow s)" "r = Success"
      "unat (payloadSize (header m)) \<le> kMaxPayloadSizeInBytes"
      "SendAckMessage (s\<lparr>m_receiveWindow := rw_scan (rw_store m (m_receiveWindow s))\<rparr>) ch
         = (sent, s', ch')"
proof -
  let ?rw = "m_receiveWindow s"
  note un = w [unfolded WriteMessageIntoReceiveWindow_def Let_def]
  show ?thesis
  proof (cases "unat (payloadSize (header m)) \<le> kMaxPayloadSizeInBytes")
    case False
    with un show ?thesis by (intro large) simp_all
  next
    case small: True
    show ?thesis
    proof (cases "rw_nextExpectedSequence ?rw \<le> sequence (header m)")
      case False
      obtain sent s1 ch1 where ack: "SendAckMessage s ch = (sent, s1, ch1)" by (metis prod_cases3)
      show ?thesis by (rule duplicate) (use un small False ack in auto)
    next
      case ge: True
      note win = distance_in_window [OF ring ge]
      show ?thesis
      proof (cases "in_window m ?rw")
        case False
        with un small ge win show ?thesis by (intro outside) (auto simp: in_window_def)
      next
        case True
        have eqs: "rw\<lparr>rw_nextExpectedSequence := q\<rparr> = rw_scan (rw_store m ?rw)"
          if "scan_loop (rw_nextExpectedSequence ?rw) (rw_store m ?rw) = (q, rw)" for q rw
          using that by (simp add: rw_scan_def rw_store_def)
        obtain q rw where sc: "scan_loop (rw_nextExpectedSequence ?rw) (rw_store m ?rw) = (q, rw)"
          by fastforce
        let ?s3 = "s\<lparr>m_receiveWindow := rw\<lparr>rw_nextExpectedSequence := q\<rparr>\<rparr>"
        obtain sent s4 ch4 where ack: "SendAckMessage ?s3 ch = (sent, s4, ch4)" by (metis prod_cases3)
        have "(r, s', ch') = (Success, ?s3, ch) \<or> (r, s', ch') = (Success, s4, ch4)"
          using un small ge win True sc ack
          by (auto simp: in_window_def rw_store_def copied_message_def split: if_splits)
        then show ?thesis
          using stored stored_acked True small ack eqs [OF sc] by auto
      qed
    qed
  qed
qed

lemma rw_scan_ring:
  assumes ring: "rw_ring k rw" and room: "rw_room rw" and win: "in_window m rw"
  shows "rw_ring k (rw_scan (rw_store m rw))"
    and "rw_nextUnreadSequence (rw_scan (rw_store m rw)) = rw_nextUnreadSequence rw"
    and "rw_messages (rw_scan (rw_store m rw)) = rw_messages (rw_store m rw)"
    and "rw_valid (rw_scan (rw_store m rw)) = rw_valid (rw_store m rw)"
    and "unat (rw_nextExpectedSequence rw) \<le> unat (rw_nextExpectedSequence (rw_scan (rw_store m rw)))"
proof -
  let ?r = "unat (rw_nextUnreadSequence rw)"
  let ?q = "unat (sequence (header m))"
  have q: "?r \<le> ?q" "?q < ?r + 128"
    using win rw_ringD(2) [OF ring] by (auto simp: in_window_def word_le_nat_alt)
  have sl: "rw_slots ?r (unat (rw_nextExpectedSequence rw)) (rw_store m rw)"
    using rw_slots_write [OF rw_ringD(1) [OF ring] refl q]
    by (simp add: rw_store_def slot_unat copied_message_def)
  obtain e rw' where sc: "scan_loop (rw_nextExpectedSequence rw) (rw_store m rw) = (e, rw')"
    by fastforce
  have unr: "unat (rw_nextUnreadSequence (rw_store m rw)) = ?r" by (simp add: rw_store_def)
  have room': "?r + 128 < 2 ^ 64" using room by (simp add: rw_room_def)
  note spec = scan_loop_spec [OF sl unr room' sc]
  have rw': "rw' = (rw_store m rw)\<lparr>rw_semaphore :=
      rw_semaphore rw + (unat e - unat (rw_nextExpectedSequence rw))\<rparr>"
    using spec by (simp add: rw_store_def)
  have scan: "rw_scan (rw_store m rw) = rw'\<lparr>rw_nextExpectedSequence := e\<rparr>"
    using sc by (simp add: rw_scan_def rw_store_def)
  have same: "rw_nextUnreadSequence rw' = rw_nextUnreadSequence rw"
    "rw_lastUnacknowledgedSequence rw' = rw_lastUnacknowledgedSequence rw"
    "rw_currentAvailableSize rw' = rw_currentAvailableSize rw"
    "rw_semaphore rw' = rw_semaphore rw + (unat e - unat (rw_nextExpectedSequence rw))"
    by (simp_all add: rw' rw_store_def)
  have "unat (rw_lastUnacknowledgedSequence rw) \<le> unat e" using spec rw_ringD(5) [OF ring] by simp
  moreover have "rw_semaphore rw + (unat e - unat (rw_nextExpectedSequence rw)) + k = unat e - ?r"
    using spec rw_ringD(2,4) [OF ring] by linarith
  moreover have "rw_slots ?r (unat e) rw'" using spec by blast
  then have "rw_slots ?r (unat e) (rw'\<lparr>rw_nextExpectedSequence := e\<rparr>)"
    by (simp add: rw_slots_def rw_slot_ok_def)
  moreover have "unat e < ?r + 128 \<longrightarrow> \<not> rw_valid rw' (unat e mod 128)" using spec by blast
  ultimately show "rw_ring k (rw_scan (rw_store m rw))"
    using rw_ringD(6,7) [OF ring] by (simp add: scan rw_ring_def same Let_def)
  show "rw_nextUnreadSequence (rw_scan (rw_store m rw)) = rw_nextUnreadSequence rw"
    by (simp add: scan same)
  show "rw_messages (rw_scan (rw_store m rw)) = rw_messages (rw_store m rw)"
    and "rw_valid (rw_scan (rw_store m rw)) = rw_valid (rw_store m rw)"
    by (simp_all add: scan rw')
  show "unat (rw_nextExpectedSequence rw) \<le> unat (rw_nextExpectedSequence (rw_scan (rw_store m rw)))"
    using spec by (simp add: scan)
qed

lemma WriteMessageIntoReceiveWindow_spec:
  assumes ring: "rw_ring k (m_receiveWindow s)" and room: "rw_room (m_receiveWindow s)"
    and w: "WriteMessageIntoReceiveWindow m s ch = (r, s', ch')"
  shows "rw_ring k (m_receiveWindow s')" and "m_sendWindow s' = m_sendWindow s"
    and "m_sessionState s' = m_sessionState s \<or> m_sessionState s' = Closed"
    and "rw_nextUnreadSequence (m_receiveWindow s') = rw_nextUnreadSequence (m_receiveWindow s)"
    and "unat (rw_nextExpectedSequence (m_receiveWindow s))
           \<le> unat (rw_nextExpectedSequence (m_receiveWindow s'))"
proof -
  let ?rw1 = "rw_scan (rw_store m (m_receiveWindow s))"
  have "rw_ring k (m_receiveWindow s') \<and> m_sendWindow s' = m_sendWindow s
    \<and> (m_sessionState s' = m_sessionState s \<or> m_sessionState s' = Closed)
    \<and> rw_nextUnreadSequence (m_receiveWindow s') = rw_nextUnreadSequence (m_receiveWindow s)
    \<and> unat (rw_nextExpectedSequence (m_receiveWindow s))
        \<le> unat (rw_nextExpectedSequence (m_receiveWindow s'))"
    using ring w
  proof (cases rule: WriteMessageIntoReceiveWindow_cases)
    case (duplicate sent)
    with SendAckMessage_windows [OF duplicate(3)] SendAckMessage_ring [OF ring duplicate(3)]
    show ?thesis by simp
  next
    case stored
    with rw_scan_ring [OF ring room stored(1)] show ?thesis by simp
  next
    case (stored_acked sent)
    note sc = rw_scan_ring [OF ring room stored_acked(1)]
    then have "rw_ring k (m_receiveWindow (s\<lparr>m_receiveWindow := ?rw1\<rparr>))" by simp
    from SendAckMessage_ring [OF this stored_acked(4)] SendAckMessage_windows [OF stored_acked(4)] sc
    show ?thesis by simp
  qed (use ring in simp_all)
  then show "rw_ring k (m_receiveWindow s')" and "m_sendWindow s' = m_sendWindow s"
    and "m_sessionState s' = m_sessionState s \<or> m_sessionState s' = Closed"
    and "rw_nextUnreadSequence (m_receiveWindow s') = rw_nextUnreadSequence (m_receiveWindow s)"
    and "unat (rw_nextExpectedSequence (m_receiveWindow s))
        \<le> unat (rw_nextExpectedSequence (m_receiveWindow s'))" by blast+
qed

subsection \<open>Draining the window\<close>

definition rw_consume :: "ReceiveWindow \<Rightarrow> ReceiveWindow" where
  "rw_consume rw =
    (let rw1 = rw\<lparr>rw_valid := (rw_valid rw)(slot (rw_nextUnreadSequence rw) := False),
                  rw_nextUnreadSequence := rw_nextUnreadSequence rw + 1\<rparr>
     in rw1\<lparr>rw_currentAvailableSize := CalculateCurrentWindowSize rw1\<rparr>)"

lemma rw_consume_unread:
  assumes ring: "rw_ring (Suc k) rw"
  shows "unat (rw_nextUnreadSequence rw + 1) = unat (rw_nextUnreadSequence rw) + 1"
    and "unat (rw_nextUnreadSequence rw) < unat (rw_nextExpectedSequence rw)"
proof -
  show lt: "unat (rw_nextUnreadSequence rw) < unat (rw_nextExpectedSequence rw)"
    using rw_ringD(4) [OF ring] by linarith
  have "unat (rw_nextExpectedSequence rw) < 2 ^ 64"
    using unsigned_less [of "rw_nextExpectedSequence rw"] by simp
  with lt show "unat (rw_nextUnreadSequence rw + 1) = unat (rw_nextUnreadSequence rw) + 1"
    by (intro unat_Suc_no_wrap) simp
qed

lemma rw_consume_slots:
  assumes sl: "rw_slots r e rw" and lt: "r < e"
  shows "rw_slots (Suc r) e (rw\<lparr>rw_valid := (rw_valid rw)(r mod 128 := False)\<rparr>)"
proof -
  have le: "e \<le> r + 128" using sl by (simp add: rw_slots_def)
  have arrived: "q mod 128 \<noteq> r mod 128" "rw_valid rw (q mod 128)" if "Suc r \<le> q" "q < e" for q
  proof -
    show "q mod 128 \<noteq> r mod 128" using ring_index_inj [of r q 128 r] that le by auto
    show "rw_valid rw (q mod 128)" using sl that by (simp add: rw_slots_def)
  qed
  have ok: "rw_slot_ok (Suc r) rw i" if "i < 128" "i \<noteq> r mod 128" "rw_valid rw i" for i
  proof -
    from that have "rw_slot_ok r rw i" using sl by (auto simp: rw_slots_def)
    with that(2) obtain q where q: "r \<le> q" "q < r + 128" "q mod 128 = i" "unat (rw_sequence rw i) = q"
      "unat (sequence (header (rw_messages rw i))) = q" by (auto simp: rw_slot_ok_def)
    with that(2) have "Suc r \<le> q" by (cases "q = r") auto
    with q show ?thesis by (auto simp: rw_slot_ok_def)
  qed
  show ?thesis
    unfolding rw_slots_def by (intro conjI allI impI) (use arrived ok lt le in \<open>auto split: if_splits\<close>)
qed

lemma rw_consume_ring:
  assumes ring: "rw_ring (Suc k) rw"
  shows "rw_ring k (rw_consume rw)"
proof -
  let ?r = "unat (rw_nextUnreadSequence rw)" and ?e = "unat (rw_nextExpectedSequence rw)"
  note s1 = rw_consume_unread [OF ring]
  let ?rw1 = "rw\<lparr>rw_valid := (rw_valid rw)(?r mod 128 := False),
                 rw_nextUnreadSequence := rw_nextUnreadSequence rw + 1\<rparr>"
  have "rw_slots (Suc ?r) ?e (rw\<lparr>rw_valid := (rw_valid rw)(?r mod 128 := False)\<rparr>)"
    by (rule rw_consume_slots [OF rw_ringD(1) [OF ring] s1(2)])
  then have sl: "rw_slots (Suc ?r) ?e (?rw1\<lparr>rw_currentAvailableSize := w\<rparr>)" for w
    by (simp only: rw_slots_frame)
  have avail: "unat (CalculateCurrentWindowSize ?rw1) = max 1 (64 - (?e - Suc ?r))"
    using CalculateCurrentWindowSize_spec [of ?rw1] s1 rw_ringD(3) [OF ring] by simp
  have empty: "?e < ?r + 129 \<longrightarrow> \<not> ((rw_valid rw)(?r mod 128 := False)) (?e mod 128)"
  proof (cases "?e < ?r + 128")
    case True
    with ring show ?thesis by (simp add: rw_ring_def Let_def)
  next
    case False
    with rw_ringD(3) [OF ring] have "?e = ?r + 128" by simp
    then show ?thesis by simp
  qed
  have sem: "rw_semaphore rw + k = ?e - Suc ?r" using rw_ringD(4) [OF ring] by linarith
  show ?thesis
    using sl avail empty sem s1 rw_ringD(5) [OF ring]
    by (simp add: rw_ring_def rw_consume_def slot_unat Let_def)
qed

text \<open>The packet a reader takes is the one with the next unread number, and it is there.\<close>

lemma rw_front:
  assumes ring: "rw_ring (Suc k) rw"
  shows "rw_valid rw (slot (rw_nextUnreadSequence rw))"
    and "sequence (header (rw_messages rw (slot (rw_nextUnreadSequence rw)))) = rw_nextUnreadSequence rw"
proof -
  let ?r = "unat (rw_nextUnreadSequence rw)"
  note sl = rw_ringD(1) [OF ring]
  show v: "rw_valid rw (slot (rw_nextUnreadSequence rw))"
    using sl rw_consume_unread(2) [OF ring] by (simp add: rw_slots_def slot_unat)
  then have "rw_slot_ok ?r rw (?r mod 128)" using sl by (simp add: rw_slots_def slot_unat)
  then obtain q where q: "?r \<le> q" "q < ?r + 128" "q mod 128 = ?r mod 128"
    "unat (sequence (header (rw_messages rw (?r mod 128)))) = q" by (auto simp: rw_slot_ok_def)
  have "q = ?r" using ring_index_inj [of ?r q 128 ?r] q by simp
  with q show "sequence (header (rw_messages rw (slot (rw_nextUnreadSequence rw)))) = rw_nextUnreadSequence rw"
    by (simp add: slot_unat word_unat_eq_iff)
qed

lemma Receive_wait_cases:
  assumes "Receive_wait s = (r, s')"
  obtains "r = Success" "0 < rw_semaphore (m_receiveWindow s)"
      "s' = s\<lparr>m_receiveWindow := (m_receiveWindow s)
                \<lparr>rw_semaphore := rw_semaphore (m_receiveWindow s) - 1\<rparr>\<rparr>"
    | "r = NotReady" "rw_semaphore (m_receiveWindow s) = 0" "s' = s"
  using assms by (auto simp: Receive_wait_def semaphore_Wait_def split: if_splits)

lemma rw_ring_wait:
  assumes "rw_ring k rw" and "0 < rw_semaphore rw"
  shows "rw_ring (Suc k) (rw\<lparr>rw_semaphore := rw_semaphore rw - 1\<rparr>)"
  using assms by (auto simp: rw_ring_def Let_def)

lemma rw_ring_signal:
  assumes "rw_ring (Suc k) rw"
  shows "rw_ring k (rw\<lparr>rw_semaphore := rw_semaphore rw + 1\<rparr>)"
  using assms by (simp add: rw_ring_def Let_def)

definition front_message :: "Session \<Rightarrow> MessageBuffer" where
  "front_message s = rw_messages (m_receiveWindow s) (slot (rw_nextUnreadSequence (m_receiveWindow s)))"

lemma Receive_read_cases:
  assumes "Receive_read n Success s = (r, out, s')" and "m_sessionState s \<noteq> Closed"
  obtains
    (data) "r = Success" "messageId (header (front_message s)) = 4"
      "payloadSize (header (front_message s)) \<le> n"
      "out = Some (bytes_at (unat (payloadSize (header (front_message s)))) (payload (front_message s)))"
      "s' = s\<lparr>m_receiveWindow := rw_consume (m_receiveWindow s)\<rparr>"
  | (fin) "r = EndOfStream" "messageId (header (front_message s)) \<noteq> 4" "out = None"
      "s' = (SetState Closed s)\<lparr>m_receiveWindow := rw_consume (m_receiveWindow s)\<rparr>"
  | (small) "r = InsufficientMemory" "n < payloadSize (header (front_message s))" "out = None"
      "s' = s\<lparr>m_receiveWindow := (m_receiveWindow s)
                \<lparr>rw_semaphore := rw_semaphore (m_receiveWindow s) + 1\<rparr>\<rparr>"
  using assms
  by (auto simp: Receive_read_def Let_def rw_consume_def front_message_def SessionMessage_of_eq
      min_def split: if_splits)

end
