(* ===== verification/Session_Safety.thy ===== *)
theory Session_Safety
  imports Receive_Inv
begin

text \<open>
  The session as a whole: \<open>session_inv k\<close> joins the invariants of the two windows, with \<open>k\<close> readers
  inside \<^verbatim>\<open>Receive\<close>, and every method of the class keeps it.  The protocol server that a server session calls
  back is an interface: the locale \<open>protocol_server\<close> says what its callbacks have to keep, the
  theorems on \<^verbatim>\<open>HandleMessage\<close> and \<^verbatim>\<open>Update\<close> are proved in it, and it is interpreted on servers
  that are programs over the \<^verbatim>\<open>ISession\<close> calls.
\<close>

definition session_inv :: "nat \<Rightarrow> Session \<Rightarrow> bool" where
  "session_inv k s \<longleftrightarrow>
     tw_inv (m_sendWindow s) \<and> rw_ring k (m_receiveWindow s)
     \<and> (m_sessionState s \<in> {Listening, SynSent} \<longrightarrow> rw_fresh (m_receiveWindow s))"

text \<open>Room for \<open>n\<close> more packets in the 64-bit sequence numbers.\<close>

definition tw_headroom :: "nat \<Rightarrow> Session \<Rightarrow> bool" where
  "tw_headroom n s \<longleftrightarrow> unat (tw_nextSequence (m_sendWindow s)) + n < 2 ^ 64"

lemma tw_headroom_room: "tw_headroom n s \<Longrightarrow> 1 \<le> n \<Longrightarrow> tw_room (m_sendWindow s)"
  by (simp add: tw_headroom_def tw_room_def)

text \<open>\<open>keeps n k s s'\<close>: the invariant holds afterwards and at most \<open>n\<close> packets were written.\<close>

definition keeps :: "nat \<Rightarrow> nat \<Rightarrow> Session \<Rightarrow> Session \<Rightarrow> bool" where
  "keeps n k s s' \<longleftrightarrow>
     session_inv k s'
     \<and> unat (tw_nextSequence (m_sendWindow s)) \<le> unat (tw_nextSequence (m_sendWindow s'))
     \<and> unat (tw_nextSequence (m_sendWindow s')) \<le> unat (tw_nextSequence (m_sendWindow s)) + n"

lemma keeps_trans: "keeps m k a b \<Longrightarrow> keeps n k b c \<Longrightarrow> keeps (m + n) k a c"
  by (simp add: keeps_def)

lemma keeps_mono: "keeps m k a b \<Longrightarrow> m \<le> n \<Longrightarrow> keeps n k a b"
  by (simp add: keeps_def)

lemma keeps_refl: "session_inv k s \<Longrightarrow> keeps n k s s"
  by (simp add: keeps_def)

lemma keeps_headroom: "keeps m k s s' \<Longrightarrow> tw_headroom (m + n) s \<Longrightarrow> tw_headroom n s'"
  by (simp add: keeps_def tw_headroom_def)

lemma keeps_inv: "keeps n k s s' \<Longrightarrow> session_inv k s'"
  by (simp add: keeps_def)

lemma session_inv_new: "session_inv 0 (new_Session ch type protocol name)"
  by (simp add: session_inv_def new_Session_def tw_inv_new rw_ring_new)

lemma session_invD:
  assumes "session_inv k s"
  shows "tw_inv (m_sendWindow s)" and "rw_ring k (m_receiveWindow s)"
    and "m_sessionState s \<in> {Listening, SynSent} \<Longrightarrow> rw_fresh (m_receiveWindow s)"
  using assms by (auto simp: session_inv_def)

lemma session_inv_state:
  assumes "session_inv k s" and "m_sendWindow s' = m_sendWindow s"
    and "m_receiveWindow s' = m_receiveWindow s"
    and "m_sessionState s' = m_sessionState s \<or> m_sessionState s' \<notin> {Listening, SynSent}"
  shows "session_inv k s'"
  using assms by (auto simp: session_inv_def)

lemma session_inv_upd [simp]:
  "session_inv k (s\<lparr>m_connectionEvent := b\<rparr>) = session_inv k s"
  "session_inv k (s\<lparr>m_disconnectionEvent := b\<rparr>) = session_inv k s"
  "session_inv k (s\<lparr>m_callbackState := c\<rparr>) = session_inv k s"
  "session_inv k (s\<lparr>m_sessionTerminationReason := r\<rparr>) = session_inv k s"
  "session_inv k (s\<lparr>m_pSessionUserdata := u\<rparr>) = session_inv k s"
  by (simp_all add: session_inv_def)

lemma keeps_upd [simp]:
  "keeps n k s0 (s\<lparr>m_connectionEvent := b\<rparr>) = keeps n k s0 s"
  "keeps n k s0 (s\<lparr>m_disconnectionEvent := b\<rparr>) = keeps n k s0 s"
  "keeps n k s0 (s\<lparr>m_callbackState := c\<rparr>) = keeps n k s0 s"
  "keeps n k s0 (s\<lparr>m_sessionTerminationReason := r\<rparr>) = keeps n k s0 s"
  "keeps n k s0 (s\<lparr>m_pSessionUserdata := u\<rparr>) = keeps n k s0 s"
  by (simp_all add: keeps_def)

lemma keeps_SetState:
  assumes "keeps n k s0 s" and "x \<notin> {Listening, SynSent}"
  shows "keeps n k s0 (SetState x s)"
  using assms by (auto simp: keeps_def intro: session_inv_state)

lemma keeps_Shutdown: "keeps n k s0 s \<Longrightarrow> keeps n k s0 (Shutdown r s)"
  by (auto simp: keeps_def Shutdown_state split: if_splits
      intro!: session_inv_state [of k s "Shutdown r s"])

lemma keeps_UpdateSendWindowSize: "keeps n k s0 s \<Longrightarrow> keeps n k s0 (UpdateSendWindowSize m s)"
proof -
  assume "keeps n k s0 s"
  moreover have "tw_inv ((m_sendWindow s)\<lparr>tw_lastAvailableSize := w\<rparr>) = tw_inv (m_sendWindow s)" for w
    by (rule tw_inv_cong) simp_all
  ultimately show ?thesis by (simp add: keeps_def UpdateSendWindowSize_def session_inv_def)
qed

lemma keeps_Mark:
  assumes "session_inv k s" and mk: "MarkMessagesAsAcknowledged q s ch = (r, s', ch')"
  shows "keeps 0 k s s'"
  using MarkMessagesAsAcknowledged_spec [OF session_invD(1) [OF assms(1)] mk] assms(1)
  by (auto simp: keeps_def session_inv_def)

lemma keeps_SendAck:
  assumes inv: "session_inv k s" and ack: "SendAckMessage s ch = (sent, s', ch')"
  shows "keeps 0 k s s'"
  using SendAckMessage_windows [OF ack] SendAckMessage_ring [OF session_invD(2) [OF inv] ack] inv
  by (auto simp: keeps_def session_inv_def rw_fresh_def)

lemma keeps_WriteSend:
  assumes inv: "session_inv k s" and room: "tw_headroom 1 s"
    and w: "WriteMessageIntoSendWindow msg n pl s = (r, s')"
  shows "keeps 1 k s s'"
proof -
  have tw: "tw_inv (m_sendWindow s')"
    by (rule WriteMessageIntoSendWindow_inv [OF session_invD(1) [OF inv] tw_headroom_room [OF room] w]) simp
  have s1: "unat (tw_nextSequence (m_sendWindow s) + 1) = unat (tw_nextSequence (m_sendWindow s)) + 1"
    using room by (intro unat_Suc_no_wrap) (simp add: tw_headroom_def)
  show ?thesis
    using w by (cases rule: WriteMessageIntoSendWindow_cases)
      (use tw inv s1 in \<open>simp_all add: keeps_def session_inv_def\<close>)
qed

lemma keeps_WriteReceive:
  assumes inv: "session_inv k s" and room: "rw_room (m_receiveWindow s)"
    and w: "WriteMessageIntoReceiveWindow m s ch = (r, s', ch')"
  shows "m_sessionState s \<notin> {Listening, SynSent} \<Longrightarrow> keeps 0 k s s'"
    and "x \<notin> {Listening, SynSent} \<Longrightarrow> keeps 0 k s (SetState x s')"
  using WriteMessageIntoReceiveWindow_spec [OF session_invD(2) [OF inv] room w] inv
  by (auto simp: keeps_def session_inv_def)

subsection \<open>Connecting and the message handlers\<close>

lemma Connect_keeps:
  assumes inv: "session_inv k s" and fresh: "rw_fresh (m_receiveWindow s)" and room: "tw_headroom 1 s"
    and c: "Connect remote sid minV maxV s = (r, s')"
  shows "keeps 1 k s s'"
proof (cases "m_sessionType s = ClientType \<and> remote \<noteq> kBroadcastClientId \<and> sid \<noteq> kInvalidSessionId
    \<and> m_sessionState s = Closed")
  case False
  with c have "s' = s" unfolding Connect_def by auto
  with inv show ?thesis by (simp add: keeps_refl)
next
  case True
  let ?s1 = "s\<lparr>m_remoteClientId := remote, m_sessionId := sid, m_minClientProtocolVersion := minV\<rparr>"
  have inv1: "session_inv k ?s1" using inv by (simp add: session_inv_def)
  have room1: "tw_headroom 1 ?s1" using room by (simp add: tw_headroom_def)
  let ?pl = "\<lparr>minVersion = minV, syn_protocol = m_protocol s,
               syn_sessionVersion = m_sessionVersion s, maxVersion = maxV\<rparr>"
  obtain r2 s2 where w: "WriteMessageIntoSendWindow Syn (word_of_nat sizeof_SynPayload)
      (Some (encode_SynPayload ?pl)) ?s1 = (r2, s2)" by fastforce
  have k: "keeps 1 k ?s1 s2" by (rule keeps_WriteSend [OF inv1 room1 w])
  have rw: "m_receiveWindow s2 = m_receiveWindow s"
    using w by (cases rule: WriteMessageIntoSendWindow_cases) simp_all
  have "s' = SetState SynSent s2 \<or> s' = s2"
    using c True w by (auto simp: Connect_def Let_def split: if_splits)
  with k rw fresh show ?thesis
    by (auto simp: keeps_def session_inv_def)
qed

lemma BindToServer_keeps:
  assumes "session_inv k s" and "rw_fresh (m_receiveWindow s)"
    and "BindToServer owner remote sv pv sid s = (r, s')"
  shows "keeps 0 k s s'"
  using assms by (auto simp: BindToServer_def keeps_def session_inv_def split: if_splits)

lemma reset_receive_window_inv:
  assumes "session_inv k s" and "rw_fresh (m_receiveWindow s)"
  shows "session_inv k (reset_receive_window q s)" and "k = 0"
proof -
  have zero: "rw_semaphore (m_receiveWindow s) = 0"
    "\<And>i. i < 128 \<Longrightarrow> \<not> rw_valid (m_receiveWindow s) i"
    using assms(2) by (auto simp: rw_fresh_def)
  let ?r = "unat (rw_nextUnreadSequence (m_receiveWindow s))"
  let ?e = "unat (rw_nextExpectedSequence (m_receiveWindow s))"
  note ring = session_invD(2) [OF assms(1)]
  have "\<not> ?r < ?e"
  proof
    assume "?r < ?e"
    then have "rw_valid (m_receiveWindow s) (?r mod 128)"
      using rw_ringD(1) [OF ring] by (simp add: rw_slots_def)
    with zero(2) show False by simp
  qed
  with rw_ringD(4) [OF ring] zero(1) show k: "k = 0" by simp
  have "rw_ring 0 (m_receiveWindow (reset_receive_window q s))"
    by (rule rw_ring_fresh) (use assms(2) in \<open>simp_all add: reset_receive_window_def rw_fresh_def\<close>)
  with k assms show "session_inv k (reset_receive_window q s)"
    by (simp add: session_inv_def reset_receive_window_def rw_fresh_def)
qed

lemma HandleSynMessage_keeps:
  assumes inv: "session_inv k s" and room: "tw_headroom 1 s" and st: "m_sessionState s = Listening"
  shows "keeps 1 k s (HandleSynMessage m s)"
proof -
  let ?pl = "\<lparr>ack_sequence = sequence (header m), initialSessionId = sessionId (header m),
              ack_version = m_protocolVersion s, ack_sessionVersion = m_sessionVersion s\<rparr>"
  obtain r s1 where w: "WriteMessageIntoSendWindow SynAck (word_of_nat sizeof_SynAckPayload)
      (Some (encode_SynAckPayload ?pl)) s = (r, s1)" by fastforce
  have k: "keeps 1 k s s1" by (rule keeps_WriteSend [OF inv room w])
  have rw: "m_receiveWindow s1 = m_receiveWindow s"
    using w by (cases rule: WriteMessageIntoSendWindow_cases) simp_all
  have "session_inv k (SetState SynReceived s1)"
    using keeps_inv [OF keeps_SetState [OF k, of SynReceived]] by simp
  moreover have "rw_fresh (m_receiveWindow (SetState SynReceived s1))"
    using session_invD(3) [OF inv] st by (simp add: rw)
  ultimately have "session_inv k (reset_receive_window q (SetState SynReceived s1))" for q
    by (rule reset_receive_window_inv)
  then have "keeps 1 k s (reset_receive_window q (SetState SynReceived s1))" for q
    using k by (simp add: keeps_def reset_receive_window_def)
  with keeps_Shutdown [OF k] w show ?thesis
    by (simp add: HandleSynMessage_def Let_def)
qed

lemma HandleSynAckMessage_keeps:
  assumes inv: "session_inv k s" and h: "HandleSynAckMessage m s ch = (s', ch')"
  shows "keeps 0 k s s'"
proof -
  obtain s5 ch5 where core: "(if m_sessionState s \<in> {FinWait1, FinWait2, Closing, Established} then
          (let (_, s1, ch1) = MarkMessagesAsAcknowledged (sequence (header m)) s ch in (s1, ch1))
        else if m_sessionState s = SynSent then
          (let pl = decode_SynAckPayload (payload m);
               (_, s1, ch1) = MarkMessagesAsAcknowledged (ack_sequence pl) s ch;
               s2 = SetState Established (s1\<lparr>m_sessionVersion := ack_sessionVersion pl\<rparr>);
               s3 = s2\<lparr>m_sessionId := sessionId (header m),
                       m_protocolVersion := (if ack_version pl \<noteq> 0 then ack_version pl
                                             else m_minClientProtocolVersion s2)\<rparr>;
               s4 = reset_receive_window (sequence (header m)) s3;
               (_, s5, ch5) = SendAckMessage s4 ch1
           in (s5, ch5))
        else (s, ch)) = (s5, ch5)" by fastforce
  have "keeps 0 k s s5"
  proof (cases "m_sessionState s = SynSent")
    case True
    let ?pl = "decode_SynAckPayload (payload m)"
    obtain r s1 ch1 where mk: "MarkMessagesAsAcknowledged (ack_sequence ?pl) s ch = (r, s1, ch1)"
      by (metis prod_cases3)
    note spec = MarkMessagesAsAcknowledged_spec [OF session_invD(1) [OF inv] mk]
    have k1: "keeps 0 k s s1" by (rule keeps_Mark [OF inv mk])
    have fresh: "rw_fresh (m_receiveWindow s1)" using session_invD(3) [OF inv] True by (simp add: spec)
    let ?s3 = "(SetState Established (s1\<lparr>m_sessionVersion := ack_sessionVersion ?pl\<rparr>))
      \<lparr>m_sessionId := sessionId (header m),
       m_protocolVersion := (if ack_version ?pl \<noteq> 0 then ack_version ?pl
         else m_minClientProtocolVersion (SetState Established (s1\<lparr>m_sessionVersion := ack_sessionVersion ?pl\<rparr>)))\<rparr>"
    have i3: "session_inv k ?s3" using keeps_inv [OF k1] by (simp add: session_inv_def)
    have f3: "rw_fresh (m_receiveWindow ?s3)" using fresh by simp
    note i4 = reset_receive_window_inv(1) [OF i3 f3, of "sequence (header m)"]
    let ?s4 = "reset_receive_window (sequence (header m)) ?s3"
    obtain b s6 ch6 where ack: "SendAckMessage ?s4 ch1 = (b, s6, ch6)" by (metis prod_cases3)
    have "s5 = s6" using core True mk ack by (simp add: Let_def)
    moreover have "keeps 0 k ?s4 s6" by (rule keeps_SendAck [OF i4 ack])
    ultimately show ?thesis using k1 by (simp add: keeps_def reset_receive_window_def)
  next
    case False
    with core keeps_Mark [OF inv] keeps_refl [OF inv] show ?thesis
      by (auto split: if_splits prod.splits)
  qed
  with h core show ?thesis
    by (auto simp: HandleSynAckMessage_def Let_def intro: keeps_UpdateSendWindowSize)
qed

lemma HandleFinMessage_keeps:
  assumes inv: "session_inv k s" and room: "rw_room (m_receiveWindow s)"
    and h: "HandleFinMessage m s ch = (s', ch')"
  shows "keeps 0 k s s'"
proof -
  obtain r s1 ch1 where w: "WriteMessageIntoReceiveWindow m s ch = (r, s1, ch1)" by (metis prod_cases3)
  obtain b s2 ch2 where a: "SendAckMessage s1 ch1 = (b, s2, ch2)" by (metis prod_cases3)
  note kw = keeps_WriteReceive [OF inv room w]
  have fw: "keeps 0 k s s2" if "m_sessionState s = FinWait2"
  proof -
    have "keeps 0 k s s1" using kw(1) that by simp
    from keeps_trans [OF this keeps_SendAck [OF keeps_inv [OF this] a]] show ?thesis by simp
  qed
  have "keeps 0 k s s1" if "m_sessionState s = FinWait2" using kw(1) that by simp
  with h w a fw kw(2) inv show ?thesis
    by (auto simp: HandleFinMessage_def Let_def keeps_refl
        intro!: keeps_UpdateSendWindowSize keeps_SetState split: if_splits)
qed

lemma HandleDataMessage_keeps:
  assumes inv: "session_inv k s" and room: "rw_room (m_receiveWindow s)"
    and h: "HandleDataMessage m s ch = (s', ch')"
  shows "keeps 0 k s s'"
proof -
  obtain r s1 ch1 where w: "WriteMessageIntoReceiveWindow m s ch = (r, s1, ch1)" by (metis prod_cases3)
  note kw = keeps_WriteReceive(1) [OF inv room w]
  from h w kw inv show ?thesis
    by (auto simp: HandleDataMessage_def Let_def keeps_refl
        intro!: keeps_UpdateSendWindowSize split: if_splits)
qed

lemma HandleAckMessage_keeps:
  assumes inv: "session_inv k s" and h: "HandleAckMessage m s ch = (s', ch')"
  shows "keeps 0 k s s'"
proof -
  obtain r s1 ch1 where a: "MarkMessagesAsAcknowledged (sequence (header m)) (SetState Established s) ch
      = (r, s1, ch1)" by (metis prod_cases3)
  obtain r2 s2 ch2 where b: "MarkMessagesAsAcknowledged (sequence (header m)) s ch = (r2, s2, ch2)"
    by (metis prod_cases3)
  have e: "keeps 0 k s (SetState Established s)" by (simp add: keeps_SetState keeps_refl inv)
  have k1: "keeps 0 k s s1"
    using keeps_trans [OF e keeps_Mark [OF keeps_inv [OF e] a]] by simp
  have k2: "keeps 0 k s s2" by (rule keeps_Mark [OF inv b])
  from h a b k1 k2 inv show ?thesis
    by (auto simp: HandleAckMessage_def Let_def keeps_refl
        intro!: keeps_UpdateSendWindowSize split: if_splits)
qed

lemma HandleRstMessage_keeps: "session_inv k s \<Longrightarrow> keeps 0 k s (HandleRstMessage m s)"
  by (simp add: HandleRstMessage_def keeps_UpdateSendWindowSize keeps_Shutdown keeps_refl)

subsection \<open>The public interface\<close>

lemma Session_Send_keeps:
  assumes "session_inv k s" and "tw_headroom 1 s" and "Session_Send n pl s = (r, s')"
  shows "keeps 1 k s s'"
  using assms keeps_WriteSend [OF assms(1,2)]
  by (auto simp: Session_Send_def keeps_refl split: if_splits)

lemma Receive_read_keeps:
  assumes inv: "session_inv (Suc k) s" and st: "m_sessionState s \<notin> {Closed, Listening, SynSent}"
    and r: "Receive_read n Success s = (r, out, s')"
  shows "keeps 0 k s s'"
proof -
  note ring = session_invD(2) [OF inv]
  have "m_sessionState s \<noteq> Closed" using st by simp
  with r show ?thesis
    by (cases rule: Receive_read_cases)
      (use inv st rw_consume_ring [OF ring] rw_ring_signal [OF ring] in
        \<open>simp_all add: keeps_def session_inv_def\<close>)
qed

lemma Session_Receive_keeps:
  assumes inv: "session_inv k s" and r: "Session_Receive n s = (r, out, s')"
  shows "keeps 0 k s s'"
proof (cases "Established \<le> m_sessionState s")
  case False
  with r inv show ?thesis by (auto simp: Session_Receive_def keeps_refl)
next
  case True
  then have st: "m_sessionState s \<notin> {Closed, Listening, SynSent}"
    by (auto simp: less_eq_SessionState_def)
  obtain w s1 where wait: "Receive_wait s = (w, s1)" by fastforce
  have read: "Receive_read n w s1 = (r, out, s')"
    using r True wait by (simp add: Session_Receive_def)
  from wait show ?thesis
  proof (cases rule: Receive_wait_cases)
    case 1
    have "session_inv (Suc k) s1" and same: "m_sendWindow s1 = m_sendWindow s"
      and "m_sessionState s1 = m_sessionState s"
      using inv st 1 rw_ring_wait [OF session_invD(2) [OF inv]] by (simp_all add: session_inv_def)
    then have "keeps 0 k s1 s'" using st read 1(1) by (intro Receive_read_keeps) simp_all
    then show ?thesis by (simp add: keeps_def same)
  next
    case 2
    with read inv show ?thesis by (auto simp: Receive_read_def keeps_refl split: if_splits)
  qed
qed

subsection \<open>Periodic update\<close>

lemma UpdateReceiveWindow_keeps:
  assumes "session_inv k s" and "UpdateReceiveWindow s ch = (s', ch')"
  shows "keeps 0 k s s'"
  using assms keeps_SendAck [OF assms(1)]
  by (auto simp: UpdateReceiveWindow_def keeps_refl split: if_splits prod.splits)

lemma UpdateSendWindow_keeps:
  assumes inv: "session_inv k s"
  shows "\<exists>s' ch'. UpdateSendWindow s ch = Some (s', ch') \<and> keeps 0 k s s'"
proof -
  obtain s' ch' where u: "UpdateSendWindow s ch = Some (s', ch')" and f: "transmit_frame s s'"
    using UpdateSendWindow_spec [OF session_invD(1) [OF inv]] by blast
  have "keeps 0 k s s'" using f inv by (auto simp: transmit_frame_def keeps_def session_inv_def)
  with u show ?thesis by blast
qed

lemma UpdateTimeout_keeps:
  assumes inv: "session_inv k s" and room: "tw_headroom 1 s"
  shows "keeps 1 k s (UpdateTimeout s)"
proof -
  obtain r s0 where w: "WriteMessageIntoSendWindow Fin 0 None s = (r, s0)" by fastforce
  note k0 = keeps_WriteSend [OF inv room w]
  let ?s1 = "if m_sessionState s = FinWait1 then (if r = Success then SetState FinWait2 s0 else s0) else s"
  have k1: "keeps 1 k s ?s1" using k0 inv by (auto intro: keeps_SetState simp: keeps_refl)
  let ?s2 = "if m_sessionState ?s1 = FinWait2 \<and> IsSendWindowEmpty ?s1 then SetState Closed ?s1 else ?s1"
  have k2: "keeps 1 k s ?s2" using keeps_SetState [OF k1, of Closed] k1 by simp
  have "UpdateTimeout s = ?s2 \<or> UpdateTimeout s = SetState Closed ?s2"
    unfolding UpdateTimeout_def Let_def w prod.case by simp
  with k2 keeps_SetState [OF k2, of Closed] show ?thesis by auto
qed

subsection \<open>The contract of a protocol server\<close>

text \<open>
  What a session relies on when it calls its server: a callback keeps the session's invariant and
  writes at most \<open>b\<close> packets.
\<close>

locale protocol_server =
  fixes pServer :: IProtocolServer and b :: nat
  assumes established_keeps:
      "session_inv k s \<Longrightarrow> tw_headroom b s \<Longrightarrow> srv_SessionEstablished pServer s ch = (s', ch')
       \<Longrightarrow> keeps b k s s'"
    and update_keeps:
      "session_inv k s \<Longrightarrow> tw_headroom b s \<Longrightarrow> srv_UpdateSession pServer s ch = (s', ch')
       \<Longrightarrow> keeps b k s s'"
    and terminated_keeps:
      "session_inv k s \<Longrightarrow> tw_headroom b s \<Longrightarrow> srv_SessionTerminated pServer reason s ch = (s', ch')
       \<Longrightarrow> keeps b k s s'"
begin

lemma HandleMessage_keeps:
  assumes inv: "session_inv k s" and room: "tw_headroom (1 + b) s" "rw_room (m_receiveWindow s)"
    and syn: "messageId (header m) = 1 \<longrightarrow> m_sessionState s = Listening"
    and h: "HandleMessage pServer m s ch = (s', ch')"
  shows "keeps (1 + b) k s s'"
proof -
  obtain s1 ch1 where d: "(case SessionMessage_of (messageId (header m)) of
              Syn \<Rightarrow> (HandleSynMessage m s, ch)
            | SynAck \<Rightarrow> HandleSynAckMessage m s ch
            | Fin \<Rightarrow> HandleFinMessage m s ch
            | Data \<Rightarrow> HandleDataMessage m s ch
            | Ack \<Rightarrow> HandleAckMessage m s ch
            | Rst \<Rightarrow> (HandleRstMessage m s, ch)
            | _ \<Rightarrow> (s, ch)) = (s1, ch1)" by fastforce
  have r1: "tw_headroom 1 s" using room(1) by (simp add: tw_headroom_def)
  have k1: "keeps 1 k s s1"
  proof (cases "SessionMessage_of (messageId (header m)) = Syn")
    case True
    then have "m_sessionState s = Listening" using syn by (simp add: SessionMessage_of_eq)
    from HandleSynMessage_keeps [OF inv r1 this] d True show ?thesis by auto
  next
    case False
    have "keeps 0 k s s1"
      using d False inv HandleSynAckMessage_keeps [OF inv] HandleFinMessage_keeps [OF inv room(2)]
        HandleDataMessage_keeps [OF inv room(2)] HandleAckMessage_keeps [OF inv]
        HandleRstMessage_keeps [OF inv] keeps_refl [OF inv, of 0]
      by (cases "SessionMessage_of (messageId (header m))") auto
    then show ?thesis by (rule keeps_mono) simp
  qed
  have k1b: "keeps (1 + b) k s s1" by (rule keeps_mono [OF k1]) simp
  obtain s2 ch2 where e: "srv_SessionEstablished pServer s1 ch1 = (s2, ch2)" by fastforce
  have k2: "keeps (1 + b) k s s2"
    by (rule keeps_trans [OF k1 established_keeps [OF keeps_inv [OF k1] keeps_headroom [OF k1 room(1)] e]])
  have "s' \<in> {s1, s1\<lparr>m_connectionEvent := True\<rparr>, s2\<lparr>m_callbackState := EstablishedCalled\<rparr>}"
    using h d e by (auto simp: HandleMessage_def Let_def split: if_splits SessionType.splits)
  with k1b k2 show ?thesis by auto
qed

lemma Session_Update_keeps:
  assumes inv: "session_inv k s" and room: "tw_headroom (1 + b + b) s"
  shows "\<exists>s' ch'. Session_Update pServer refCount s ch = Some (s', ch') \<and> keeps (1 + b + b) k s s'"
proof -
  obtain s1 ch1 where u1: "UpdateReceiveWindow s ch = (s1, ch1)" by fastforce
  have k1: "keeps 0 k s s1" by (rule UpdateReceiveWindow_keeps [OF inv u1])
  obtain s2 ch2 where u2: "UpdateSendWindow s1 ch1 = Some (s2, ch2)" and k12: "keeps 0 k s1 s2"
    using UpdateSendWindow_keeps [OF keeps_inv [OF k1]] by blast
  have k2: "keeps 0 k s s2" using keeps_trans [OF k1 k12] by simp
  have "tw_headroom 1 s2" using keeps_headroom [OF k2, of "1 + b + b"] room by (simp add: tw_headroom_def)
  then have "keeps 1 k s2 (UpdateTimeout s2)" by (rule UpdateTimeout_keeps [OF keeps_inv [OF k2]])
  with k2 have k3: "keeps 1 k s (UpdateTimeout s2)" by (simp add: keeps_def)
  let ?s4 = "if refCount = 1 \<and> m_sessionType (UpdateTimeout s2) = ClientType
             then Shutdown Success (UpdateTimeout s2) else UpdateTimeout s2"
  have k4: "keeps 1 k s ?s4" using k3 keeps_Shutdown [OF k3] by simp
  obtain s5 ch5 where u5: "(if m_sessionType ?s4 = ServerType \<and> m_sessionState ?s4 = Established
      then srv_UpdateSession pServer ?s4 ch2 else (?s4, ch2)) = (s5, ch5)" by fastforce
  have h4: "tw_headroom (b + b) ?s4" using keeps_headroom [OF k4, of "b + b"] room by (simp add: add.assoc)
  then have "tw_headroom b ?s4" by (simp add: tw_headroom_def)
  then have "keeps b k ?s4 s5"
    using u5 update_keeps [OF keeps_inv [OF k4]] keeps_refl [OF keeps_inv [OF k4]] by (auto split: if_splits)
  then have k5: "keeps (1 + b) k s s5" by (rule keeps_trans [OF k4])
  obtain s6 ch6 where u6: "(if m_sessionType s5 = ServerType \<and> m_sessionState s5 = Closed
        \<and> m_callbackState s5 = EstablishedCalled
      then (let (s', ch') = srv_SessionTerminated pServer (m_sessionTerminationReason s5) s5 ch5
            in (s'\<lparr>m_callbackState := TerminatedCalled\<rparr>, ch'))
      else (s5, ch5)) = (s6, ch6)" by fastforce
  have "tw_headroom b s5" by (rule keeps_headroom [OF k5 room])
  then have "keeps b k s5 s6"
    using u6 terminated_keeps [OF keeps_inv [OF k5]] keeps_refl [OF keeps_inv [OF k5]]
    by (auto split: if_splits prod.splits)
  then have k6: "keeps (1 + b + b) k s s6" by (rule keeps_trans [OF k5])
  have "Session_Update pServer refCount s ch =
      Some (if m_sessionState s6 = Closed then s6\<lparr>m_disconnectionEvent := True\<rparr> else s6, ch6)"
    unfolding Session_Update_def Let_def u1 prod.case u2 option.case u5 [simplified Let_def] u6 [unfolded Let_def]
    by simp
  with k6 show ?thesis by auto
qed

lemma HandleUnregisterProtocolServer_keeps:
  assumes inv: "session_inv k s" and room: "tw_headroom b s"
    and h: "HandleUnregisterProtocolServer pServer s ch = (s', ch')"
  shows "keeps b k s s'"
  using h terminated_keeps [OF inv room] keeps_refl [OF inv]
  by (auto simp: HandleUnregisterProtocolServer_def Let_def intro!: keeps_Shutdown
      split: if_splits prod.splits)

end

end
