(* ===== verification/Session_Theorems.thy ===== *)
theory Session_Theorems
  imports Session_Safety
begin

text \<open>
  Protocol servers as programs over the \<^verbatim>\<open>ISession\<close> interface, the interpretation of the contract
  \<open>protocol_server\<close> on them, and the theorems on a single session.
\<close>

subsection \<open>Servers that are programs over the session interface\<close>

text \<open>
  One call of \<^verbatim>\<open>ISession\<close> and what it returns.  A program looks at the session and at the
  answers so far and picks the next call; it makes at most \<open>n\<close> of them in one callback.
\<close>

datatype ISession_call =
    CallSend u32 "u8 list option" | CallReceive u32 | CallShutdown Result | CallSetUserData u64

datatype ISession_answer = AnswerResult Result | AnswerBytes Result "u8 list option" | AnswerData u64 | AnswerUnit

definition run_call :: "ISession_call \<Rightarrow> Session \<Rightarrow> ISession_answer \<times> Session" where
  "run_call c s =
    (case c of
       CallSend n pl \<Rightarrow> (let (r, s') = Session_Send n pl s in (AnswerResult r, s'))
     | CallReceive n \<Rightarrow> (let (r, bs, s') = Session_Receive n s in (AnswerBytes r bs, s'))
     | CallShutdown r \<Rightarrow> (AnswerUnit, Shutdown r s)
     | CallSetUserData u \<Rightarrow> (let (u', s') = SetUserData u s in (AnswerData u', s')))"

type_synonym server_program = "Session \<Rightarrow> ISession_answer list \<Rightarrow> ISession_call option"

fun run_program :: "nat \<Rightarrow> server_program \<Rightarrow> ISession_answer list \<Rightarrow> Session \<Rightarrow> Session" where
  "run_program 0 p as s = s"
| "run_program (Suc n) p as s =
    (case p s as of
       None \<Rightarrow> s
     | Some c \<Rightarrow> (let (a, s') = run_call c s in run_program n p (as @ [a]) s'))"

definition program_server ::
  "Protocol \<Rightarrow> Version \<Rightarrow> Version \<Rightarrow> (Session \<Rightarrow> bool) \<Rightarrow> nat \<Rightarrow> server_program \<Rightarrow> server_program
   \<Rightarrow> (Result \<Rightarrow> server_program) \<Rightarrow> IProtocolServer" where
  "program_server protocol minV maxV accept n established update terminated =
    \<lparr>srv_protocol = protocol, srv_type = ServerType, srv_minVersion = minV, srv_maxVersion = maxV,
     srv_AcceptSession = accept,
     srv_SessionEstablished = (\<lambda>s ch. (run_program n established [] s, ch)),
     srv_UpdateSession = (\<lambda>s ch. (run_program n update [] s, ch)),
     srv_SessionTerminated = (\<lambda>r s ch. (run_program n (terminated r) [] s, ch))\<rparr>"

lemma run_call_keeps:
  assumes inv: "session_inv k s" and room: "tw_headroom 1 s" and c: "run_call c s = (a, s')"
  shows "keeps 1 k s s'"
proof (cases c)
  case (CallSend n pl)
  with c Session_Send_keeps [OF inv room] show ?thesis
    by (auto simp: run_call_def split: prod.splits)
next
  case (CallReceive n)
  with c Session_Receive_keeps [OF inv] have "keeps 0 k s s'"
    by (auto simp: run_call_def split: prod.splits)
  then show ?thesis by (rule keeps_mono) simp
next
  case (CallShutdown r)
  with c keeps_Shutdown [OF keeps_refl [OF inv]] show ?thesis by (auto simp: run_call_def)
next
  case (CallSetUserData u)
  with c inv show ?thesis by (auto simp: run_call_def SetUserData_def keeps_def)
qed

lemma run_program_keeps:
  "session_inv k s \<Longrightarrow> tw_headroom n s \<Longrightarrow> keeps n k s (run_program n p as s)"
proof (induction n p as s rule: run_program.induct)
  case (1 p as s)
  then show ?case by (simp add: keeps_refl)
next
  case (2 n p as s)
  show ?case
  proof (cases "p s as")
    case None
    with 2 show ?thesis by (simp add: keeps_refl)
  next
    case (Some c)
    obtain a s' where c: "run_call c s = (a, s')" by fastforce
    have "tw_headroom 1 s" using "2.prems"(2) by (simp add: tw_headroom_def)
    with c have k1: "keeps 1 k s s'" by (intro run_call_keeps [OF "2.prems"(1)])
    have "tw_headroom n s'" by (rule keeps_headroom [OF k1]) (use "2.prems"(2) in simp)
    then have "keeps n k s' (run_program n p (as @ [a]) s')"
      by (intro "2.IH" [OF Some c [symmetric] refl keeps_inv [OF k1]])
    from keeps_trans [OF k1 this] Some c show ?thesis by simp
  qed
qed

interpretation program: protocol_server "program_server protocol minV maxV accept n est upd fini" n
  for protocol minV maxV accept n est upd fini
  by unfold_locales (auto simp: program_server_def intro: run_program_keeps)

subsection \<open>Theorems on one session\<close>

text \<open>C2.
  \<^verbatim>\<open>Session::HandleMessage\<close> keeps the invariant of the session, in every state and for every message except a Syn
  outside \<^verbatim>\<open>Listening\<close>: both windows' slots, semaphores and counters stay consistent.  (A Syn reaches
  only a session that the session manager has just created in \<^verbatim>\<open>Listening\<close>; in other states it would restart the
  receive window under the packets it holds.)  The server's callbacks may do anything its contract allows, which
  is at most b sends; 1 + b sequence numbers must be left below \<open>2 ^ 64\<close>, and the sequence numbers of the receive window must
  leave room for one more window.
\<close>

theorem HandleMessage_safe:
  assumes "protocol_server pServer b" and "session_inv k s"
    and "tw_headroom (1 + b) s" and "rw_room (m_receiveWindow s)"
    and "messageId (header m) = 1 \<longrightarrow> m_sessionState s = Listening"
  shows "session_inv k (fst (HandleMessage pServer m s ch))"
  using protocol_server.HandleMessage_keeps [OF assms surjective_pairing] by (rule keeps_inv)

definition sample_channel :: Channel where
  "sample_channel = \<lparr>ch_clientId = 7, ch_replies = [], ch_clock = [], ch_now = 0, ch_wire = [],
     ch_sessionMutex = False, ch_hasSessions = False, ch_deadlocked = False\<rparr>"

definition sample_server :: IProtocolServer where
  "sample_server = program_server 3 1 4 (\<lambda>_. True) 2
     (\<lambda>_ _. None) (\<lambda>_ as. if as = [] then Some (CallReceive 64) else None) (\<lambda>_ _ _. None)"

definition sample_session :: Session where
  "sample_session = snd (BindToServer sample_server 9 2 4 65537
     (new_Session sample_channel ServerType 3 None))"

definition sample_syn :: MessageBuffer where
  "sample_syn = \<lparr>header = \<lparr>srcClientId = 9, dstClientId = 7, protocolId = Protocol_Session,
     messageId = 1, windowSize = 64, payloadSize = 8, sessionId = 1, sequence = 1\<rparr>,
     payload = encode_SynPayload \<lparr>minVersion = 1, syn_protocol = 3, syn_sessionVersion = 2, maxVersion = 4\<rparr>\<rparr>"

lemma sample_server_ok: "protocol_server sample_server 2"
  unfolding sample_server_def by (rule program.protocol_server_axioms)

lemma sample_session_simps:
  "m_sessionState sample_session = Listening" "m_sendWindow sample_session = new_TransmitWindow"
  "m_receiveWindow sample_session = new_ReceiveWindow" "m_sessionType sample_session = ServerType"
  by (simp_all add: sample_session_def BindToServer_def new_Session_def sample_server_def
      program_server_def)

lemma sample_session_inv: "session_inv 0 sample_session"
  by (simp add: session_inv_def sample_session_simps tw_inv_new rw_ring_new rw_fresh_new)

lemma sample_session_room:
  "tw_headroom (1 + 2) sample_session" "tw_headroom (1 + 2 + 2) sample_session"
  "rw_room (m_receiveWindow sample_session)"
  by (simp_all add: tw_headroom_def rw_room_def sample_session_simps new_TransmitWindow_def
      new_ReceiveWindow_def)

theorem HandleMessage_safe_witness:
  "session_inv 0 (fst (HandleMessage sample_server sample_syn sample_session sample_channel))"
  by (rule HandleMessage_safe [OF sample_server_ok sample_session_inv sample_session_room(1,3)])
    (simp add: sample_session_simps)

text \<open>C8.
  The effect of an acknowledgement (\<^verbatim>\<open>MarkMessagesAsAcknowledged\<close>): the first unacknowledged number
  becomes one more than the acknowledged number, but it never moves back and never passes what was
  sent; the result is \<^verbatim>\<open>Success\<close> exactly when it moved, and the slots up to it are free again (the
  semaphore counts them).
\<close>

theorem ack_frees_exactly:
  assumes inv: "tw_inv (m_sendWindow s)"
    and mk: "MarkMessagesAsAcknowledged maxS s ch = (r, s', ch')"
  shows "unat (tw_nextUnacknowledgedSequence (m_sendWindow s')) =
           max (unat (tw_nextUnacknowledgedSequence (m_sendWindow s)))
               (min (unat maxS) (unat (tw_lastSentSequence (m_sendWindow s))) + 1)
       \<and> (r = Success \<longleftrightarrow> tw_nextUnacknowledgedSequence (m_sendWindow s)
                            < tw_nextUnacknowledgedSequence (m_sendWindow s'))
       \<and> tw_semaphore (m_sendWindow s')
           = tw_semaphore (m_sendWindow s)
             + (unat (tw_nextUnacknowledgedSequence (m_sendWindow s'))
                - unat (tw_nextUnacknowledgedSequence (m_sendWindow s)))"
proof -
  note spec = MarkMessagesAsAcknowledged_spec [OF inv mk]
  let ?u = "unat (tw_nextUnacknowledgedSequence (m_sendWindow s))"
  let ?u' = "unat (tw_nextUnacknowledgedSequence (m_sendWindow s'))"
  let ?n = "unat (tw_nextSequence (m_sendWindow s))"
  have "tw_semaphore (m_sendWindow s) + (?n - ?u) = 128" "?u \<le> ?n"
    using tw_inv_bounds(4) [OF inv] by (auto dest: tw_ring_sem tw_ring_le)
  moreover have "tw_semaphore (m_sendWindow s') + (?n - ?u') = 128" "?u' \<le> ?n"
    using tw_inv_bounds(4) [OF spec(1)] spec(3) by (auto dest: tw_ring_sem tw_ring_le)
  moreover have "?u \<le> ?u'" using spec(2) by (simp add: acked_up_to_def)
  ultimately have "tw_semaphore (m_sendWindow s') = tw_semaphore (m_sendWindow s) + (?u' - ?u)"
    by linarith
  with spec(2,6) show ?thesis by (auto simp: acked_up_to_def word_less_nat_alt)
qed

text \<open>A session with one packet written and sent.\<close>

definition sample_sent :: Session where
  "sample_sent = (let s = snd (WriteMessageIntoSendWindow Data 3 (Some [1, 2, 3]) sample_session)
                  in s\<lparr>m_sendWindow := (m_sendWindow s)\<lparr>tw_lastSentSequence := 1\<rparr>\<rparr>)"

lemma sample_sent_window:
  "tw_nextSequence (m_sendWindow sample_sent) = 2"
  "tw_nextUnacknowledgedSequence (m_sendWindow sample_sent) = 1"
  "tw_lastSentSequence (m_sendWindow sample_sent) = 1"
  by (simp_all add: sample_sent_def WriteMessageIntoSendWindow_def semaphore_Wait_def Let_def
      sample_session_simps new_TransmitWindow_def kDefaultWindowSize_def msg_size_defs
      less_SessionState_def)

lemma sample_sent_inv: "session_inv 0 sample_sent"
proof -
  let ?s = "snd (WriteMessageIntoSendWindow Data 3 (Some [1, 2, 3]) sample_session)"
  have "tw_headroom 1 sample_session"
    by (simp add: tw_headroom_def sample_session_simps new_TransmitWindow_def)
  from keeps_WriteSend [OF sample_session_inv this prod.collapse [symmetric]]
  have inv: "session_inv 0 ?s" by (rule keeps_inv)
  have "unat (tw_nextSequence (m_sendWindow ?s)) = 2"
    using sample_sent_window(1) by (simp add: sample_sent_def Let_def)
  with inv show ?thesis
    by (simp add: sample_sent_def Let_def session_inv_def tw_inv_def tw_ring_def)
qed

theorem ack_frees_exactly_witness:
  "unat (tw_nextUnacknowledgedSequence (m_sendWindow
     (fst (snd (MarkMessagesAsAcknowledged 5 sample_sent sample_channel))))) = 2"
proof -
  obtain r s' ch' where mk: "MarkMessagesAsAcknowledged 5 sample_sent sample_channel = (r, s', ch')"
    by (metis prod_cases3)
  from ack_frees_exactly [OF session_invD(1) [OF sample_sent_inv] mk] mk show ?thesis
    by (simp add: sample_sent_window)
qed

lemma Receive_in_order_eq:
  assumes inv: "session_inv 0 s"
  shows "Session_Receive n s =
    (let rw = m_receiveWindow s; m = front_message s in
     if m_sessionState s < Established then (Error, None, s)
     else if rw_nextExpectedSequence rw = rw_nextUnreadSequence rw then (NotReady, None, s)
     else if n < payloadSize (header m) then (InsufficientMemory, None, s)
     else if messageId (header m) = code_of_SessionMessage Data
     then (Success, Some (bytes_at (unat (payloadSize (header m))) (payload m)),
           s\<lparr>m_receiveWindow := rw_consume (rw\<lparr>rw_semaphore := rw_semaphore rw - 1\<rparr>)\<rparr>)
     else (EndOfStream, None,
           (SetState Closed s)\<lparr>m_receiveWindow := rw_consume (rw\<lparr>rw_semaphore := rw_semaphore rw - 1\<rparr>)\<rparr>))
   \<and> (rw_nextExpectedSequence (m_receiveWindow s) \<noteq> rw_nextUnreadSequence (m_receiveWindow s) \<longrightarrow>
      sequence (header (front_message s)) = rw_nextUnreadSequence (m_receiveWindow s))"
proof -
  let ?rw = "m_receiveWindow s"
  note ring = session_invD(2) [OF inv]
  have sem: "rw_semaphore ?rw = 0 \<longleftrightarrow> rw_nextExpectedSequence ?rw = rw_nextUnreadSequence ?rw"
    using rw_ringD(2,4) [OF ring] by (auto simp: word_unat_eq_iff)
  have front: "sequence (header (front_message s)) = rw_nextUnreadSequence ?rw"
    if "rw_nextExpectedSequence ?rw \<noteq> rw_nextUnreadSequence ?rw"
  proof -
    have "0 < rw_semaphore ?rw" using sem that by simp
    from rw_front(2) [OF rw_ring_wait [OF ring this]] show ?thesis by (simp add: front_message_def)
  qed
  have st: "\<not> m_sessionState s < Established \<Longrightarrow> Established \<le> m_sessionState s \<and> m_sessionState s \<noteq> Closed"
    by (auto simp: less_SessionState_def less_eq_SessionState_def)
  have restore: "s\<lparr>m_receiveWindow := ?rw\<lparr>rw_semaphore := Suc (rw_semaphore ?rw - Suc 0)\<rparr>\<rparr> = s"
    if "0 < rw_semaphore ?rw" using that by simp
  show ?thesis
    using sem st front restore
    by (auto simp: Session_Receive_def Receive_wait_def semaphore_Wait_def Receive_read_def Let_def
        rw_consume_def front_message_def SessionMessage_of_eq min_def not_le not_less SetState_def)
qed

text \<open>C11.
  \<^verbatim>\<open>Session::Receive\<close> on every branch: before the connection is established it fails; with no packet
  that arrived in order it finds nothing; a packet too large for the caller's buffer stays where it
  is; otherwise the packet with the next unread number, and no other, is taken: the bytes of a Data
  packet are returned, any other packet (a Fin) ends the stream and closes the session.
\<close>

theorem Receive_in_order:
  assumes inv: "session_inv 0 s"
  shows "Session_Receive n s =
    (let rw = m_receiveWindow s; m = front_message s in
     if m_sessionState s < Established then (Error, None, s)
     else if rw_nextExpectedSequence rw = rw_nextUnreadSequence rw then (NotReady, None, s)
     else if n < payloadSize (header m) then (InsufficientMemory, None, s)
     else if messageId (header m) = code_of_SessionMessage Data
     then (Success, Some (bytes_at (unat (payloadSize (header m))) (payload m)),
           s\<lparr>m_receiveWindow := rw_consume (rw\<lparr>rw_semaphore := rw_semaphore rw - 1\<rparr>)\<rparr>)
     else (EndOfStream, None,
           (SetState Closed s)\<lparr>m_receiveWindow := rw_consume (rw\<lparr>rw_semaphore := rw_semaphore rw - 1\<rparr>)\<rparr>))
   \<and> (rw_nextExpectedSequence (m_receiveWindow s) \<noteq> rw_nextUnreadSequence (m_receiveWindow s) \<longrightarrow>
      sequence (header (front_message s)) = rw_nextUnreadSequence (m_receiveWindow s))"
  by (rule Receive_in_order_eq [OF inv])

text \<open>A session that has received one packet of three bytes.\<close>

definition sample_data :: MessageBuffer where
  "sample_data = \<lparr>header = \<lparr>srcClientId = 9, dstClientId = 7, protocolId = Protocol_Session,
     messageId = 4, windowSize = 64, payloadSize = 3, sessionId = 65537, sequence = 1\<rparr>,
     payload = [10, 20, 30]\<rparr>"

definition sample_received :: Session where
  "sample_received = fst (snd (WriteMessageIntoReceiveWindow sample_data
     (SetState Established sample_session) sample_channel))"

lemma sample_received_inv: "session_inv 0 sample_received"
proof -
  let ?s = "SetState Established sample_session"
  have inv: "session_inv 0 ?s"
    by (rule session_inv_state [OF sample_session_inv]) simp_all
  obtain r s' ch' where w: "WriteMessageIntoReceiveWindow sample_data ?s sample_channel = (r, s', ch')"
    by (metis prod_cases3)
  have "keeps 0 0 ?s s'"
    by (rule keeps_WriteReceive(1) [OF inv _ w]) (simp_all add: sample_session_room(3))
  then show ?thesis by (simp add: sample_received_def w keeps_inv)
qed

lemma sample_received_window:
  "m_sessionState sample_received = Established"
  "rw_nextUnreadSequence (m_receiveWindow sample_received) = 1"
  "rw_nextExpectedSequence (m_receiveWindow sample_received) = 2"
  "front_message sample_received = sample_data"
  by (simp_all add: sample_received_def WriteMessageIntoReceiveWindow_def sample_data_def
      sample_session_simps new_ReceiveWindow_def msg_size_defs kDefaultWindowSize_def slot_unat
      scan_loop.simps Let_def front_message_def memcpy_def bytes_at_def zero_message_def)

theorem Receive_in_order_witness:
  "fst (Session_Receive 64 sample_received) = Success
   \<and> fst (snd (Session_Receive 64 sample_received)) = Some [10, 20, 30]"
  using Receive_in_order [OF sample_received_inv, of 64]
  by (simp add: sample_received_window Let_def less_SessionState_def sample_data_def bytes_at_def)

text \<open>
  Every acknowledgement advertises \<open>max 1 (64 - pending)\<close> slots, where \<open>pending\<close> counts the
  packets that arrived in order and were not read: never zero, so the peer is never stalled, and
  never more than half of the ring, so a peer that fills the advertised window from the expected
  number on stays within the 128 slots unless the reader is a full half ring behind.
\<close>

theorem ack_advertises_window:
  assumes inv: "session_inv k s" and ack: "SendAckMessage s ch = (True, s', ch')"
  shows "\<exists>m. ch_wire ch' = ch_wire ch @ [m]
     \<and> sequence (header m) = rw_nextExpectedSequence (m_receiveWindow s) - 1
     \<and> messageId (header m) = code_of_SessionMessage Ack
     \<and> unat (windowSize (header m)) =
         max 1 (64 - (unat (rw_nextExpectedSequence (m_receiveWindow s))
                      - unat (rw_nextUnreadSequence (m_receiveWindow s))))"
proof -
  note spec = CalculateCurrentWindowSize_spec [OF rw_ringD(2,3) [OF session_invD(2) [OF inv]]]
  have "CalculateCurrentWindowSize (m_receiveWindow s\<lparr>rw_lastUnacknowledgedSequence := q\<rparr>)
      = CalculateCurrentWindowSize (m_receiveWindow s)" for q
    by (simp add: CalculateCurrentWindowSize_def)
  with ack spec show ?thesis
    by (auto simp: SendAckMessage_def SendControlMessage_def SendOrClose_def Let_def
        dest!: Forward_until_ready_wire split: prod.splits if_splits)
qed

theorem ack_advertises_window_witness:
  "\<exists>m. ch_wire (snd (snd (SendAckMessage sample_received sample_channel))) = [m]
     \<and> unat (windowSize (header m)) = 63"
proof -
  obtain s' ch' where a: "SendAckMessage sample_received sample_channel = (True, s', ch')"
    by (simp add: SendAckMessage_def SendControlMessage_def SendOrClose_def Let_def
        Forward_until_ready.simps Forward_unfold sample_channel_def)
  from ack_advertises_window [OF sample_received_inv a] a show ?thesis
    by (auto simp: sample_received_window sample_channel_def)
qed

text \<open>
  The retransmission timeout lies between 200 ms and 2000 ms, whatever round trip time was measured,
  for every retransmission count the code still retransmits at.
\<close>

theorem currentTimeout_bounds:
  assumes "tw_retransmitCount tw \<le> kMaxRetransmits"
  shows "200 \<le> currentTimeout tw \<and> currentTimeout tw \<le> 2000"
proof -
  let ?mul = "push_bit (unat (tw_retransmitCount tw)) 2 :: u16"
  have c: "unat (tw_retransmitCount tw) \<le> 5" using assms by (simp add: word_le_nat_alt)
  then have "unat (tw_retransmitCount tw) \<in> {0, 1, 2, 3, 4, 5}" by auto
  then have m2: "2 \<le> unat ?mul" by (auto simp: push_bit_eq_mult)
  let ?x = "max (tw_roundTripTime tw) kMinRetransmitDelay * rat_of_nat (unat ?mul)"
  have "(100::rat) * 2 \<le> max (tw_roundTripTime tw) kMinRetransmitDelay * rat_of_nat (unat ?mul)"
  proof (rule mult_mono)
    have "rat_of_nat 2 \<le> rat_of_nat (unat ?mul)" using m2 by (simp only: of_nat_le_iff)
    then show "(2::rat) \<le> rat_of_nat (unat ?mul)" by simp
  qed (simp_all add: kMinRetransmitDelay_def)
  then have "rat_of_int 200 \<le> ?x" by simp
  then have low: "rat_of_int 200 \<le> f32_round ?x" by (rule f32_round_ge_int) simp_all
  let ?y = "min (f32_round ?x) kMaxRetransmitDelay"
  have "200 \<le> \<lfloor>?y\<rfloor>" "\<lfloor>?y\<rfloor> \<le> 2000"
    using low by (simp_all add: le_floor_iff floor_le_iff kMaxRetransmitDelay_def min_def)
  then have "uint (word_of_int \<lfloor>?y\<rfloor> :: u64) = \<lfloor>?y\<rfloor>" by (simp add: uint_word_of_int)
  then have "200 \<le> uint (currentTimeout tw) \<and> uint (currentTimeout tw) \<le> 2000"
    using \<open>200 \<le> \<lfloor>?y\<rfloor>\<close> \<open>\<lfloor>?y\<rfloor> \<le> 2000\<close>
    by (simp add: currentTimeout_def u64_of_f32_def f32_mul_def Let_def)
  then show ?thesis by (simp add: word_le_def)
qed

theorem currentTimeout_bounds_witness:
  "200 \<le> currentTimeout new_TransmitWindow \<and> currentTimeout new_TransmitWindow \<le> 2000"
  by (rule currentTimeout_bounds) (simp add: new_TransmitWindow_def)

subsection \<open>The state machine\<close>

text \<open>A connected transport that is slow at worst: it answers \<^verbatim>\<open>Success\<close> or \<^verbatim>\<open>NotReady\<close>, never an error.\<close>

definition reliable :: "Channel \<Rightarrow> bool" where
  "reliable ch \<longleftrightarrow> ch_clientId ch \<noteq> kBroadcastClientId \<and> set (ch_replies ch) \<subseteq> {Success, NotReady}"

lemma reliable_Forward:
  "reliable ch \<Longrightarrow> Forward m ch = (r, ch') \<Longrightarrow> r \<in> {Success, NotReady} \<and> reliable ch'"
  by (auto simp: Forward_unfold reliable_def Let_def split: list.splits prod.splits if_splits)

lemma reliable_Forward_until_ready:
  "reliable ch \<Longrightarrow> Forward_until_ready m ch = (r, ch') \<Longrightarrow> r = Success \<and> reliable ch'"
proof (induction m ch rule: Forward_until_ready.induct)
  case (1 m ch)
  obtain r1 ch1 where f: "Forward m ch = (r1, ch1)" by fastforce
  note rel = reliable_Forward [OF "1.prems"(1) f]
  show ?case
  proof (cases "r1 = NotReady")
    case True
    then have "Forward_until_ready m ch1 = (r, ch')"
      using "1.prems"(2) f by (simp add: Forward_until_ready.simps [of m ch])
    with "1.IH" [OF f [symmetric] refl True] rel show ?thesis by blast
  next
    case False
    with "1.prems"(2) f rel show ?thesis by (auto simp: Forward_until_ready.simps [of m ch])
  qed
qed

lemma reliable_SendOrClose:
  "reliable ch \<Longrightarrow> SendOrClose m s ch = (sent, s', ch') \<Longrightarrow> sent \<and> s' = s \<and> reliable ch'"
  by (auto simp: SendOrClose_def Let_def dest: reliable_Forward_until_ready split: prod.splits if_splits)

lemma reliable_SendAck:
  assumes "reliable ch" and "SendAckMessage s ch = (sent, s', ch')"
  shows "m_sessionState s' = m_sessionState s" and "reliable ch'"
  using reliable_SendOrClose [OF assms(1) assms(2) [unfolded SendAckMessage_def SendControlMessage_def Let_def]]
  by simp_all

lemma reliable_clock: "GetCurrentTimeInMs ch = (t, ch') \<Longrightarrow> reliable ch' = reliable ch"
  by (auto simp: GetCurrentTimeInMs_def reliable_def split: list.splits)

lemma reliable_Mark:
  assumes rel: "reliable ch" and mk: "MarkMessagesAsAcknowledged q s ch = (r, s', ch')"
  shows "m_sessionState s' = m_sessionState s" and "reliable ch'" and "m_sessionType s' = m_sessionType s"
proof -
  have clk: "reliable (snd (GetCurrentTimeInMs ch))"
    using rel reliable_clock [of ch] by (metis prod.collapse)
  have "m_sessionState s' = m_sessionState s \<and> reliable ch' \<and> m_sessionType s' = m_sessionType s"
    using mk
  proof (cases rule: MarkMessagesAsAcknowledged_cases)
    case (quiet tw)
    with clk show ?thesis by simp
  next
    case (fast i m tw tw' sent s1)
    with reliable_SendOrClose [OF clk fast(2)] show ?thesis by simp
  qed
  then show "m_sessionState s' = m_sessionState s" and "reliable ch'"
    and "m_sessionType s' = m_sessionType s" by blast+
qed

lemma reliable_WriteReceive:
  assumes rel: "reliable ch" and ring: "rw_ring k (m_receiveWindow s)"
    and w: "WriteMessageIntoReceiveWindow m s ch = (r, s', ch')"
  shows "m_sessionState s' = m_sessionState s" and "reliable ch'"
proof -
  have "m_sessionState s' = m_sessionState s \<and> reliable ch'"
    using ring w
    by (cases rule: WriteMessageIntoReceiveWindow_cases)
      (use rel reliable_SendAck [OF rel] in auto)
  then show "m_sessionState s' = m_sessionState s" and "reliable ch'" by blast+
qed

text \<open>
  The transition table of the protocol: the state in which a message leaves a session.  A Syn needs a slot of the
  send window for its SynAck.
\<close>

definition next_state :: "MessageHeader \<Rightarrow> Session \<Rightarrow> SessionState" where
  "next_state h s =
    (let st = m_sessionState s in
     case SessionMessage_of (messageId h) of
       Syn \<Rightarrow> if st < FinWait2 \<and> 0 < tw_semaphore (m_sendWindow s) then SynReceived else Closed
     | SynAck \<Rightarrow> if st = SynSent then Established else st
     | Fin \<Rightarrow> if st < Closing then Closing else if st = FinWait2 then Closed else st
     | Ack \<Rightarrow> if st = SynReceived then Established else st
     | Rst \<Rightarrow> if ucast (sequence h) \<noteq> (0 :: u32) then Closed
              else if st = Established then FinWait1
              else if st \<in> {FinWait1, FinWait2, Closing} then st else Closed
     | _ \<Rightarrow> st)"

lemma UpdateSendWindowSize_frame [simp]:
  "m_sessionState (UpdateSendWindowSize m s) = m_sessionState s"
  "m_sessionType (UpdateSendWindowSize m s) = m_sessionType s"
  by (simp_all add: UpdateSendWindowSize_def)

lemma reset_receive_window_frame [simp]:
  "m_sessionState (reset_receive_window q s) = m_sessionState s"
  "m_sessionType (reset_receive_window q s) = m_sessionType s"
  by (simp_all add: reset_receive_window_def)

text \<open>No handler changes the type of the session.\<close>

lemma SendOrClose_type: "SendOrClose m s ch = (b, s', ch') \<Longrightarrow> m_sessionType s' = m_sessionType s"
  by (erule SendOrClose_cases) simp_all

lemma SendAck_type: "SendAckMessage s ch = (b, s', ch') \<Longrightarrow> m_sessionType s' = m_sessionType s"
  unfolding SendAckMessage_def SendControlMessage_def Let_def by (drule SendOrClose_type) simp

lemma Mark_type:
  assumes "MarkMessagesAsAcknowledged q s ch = (r, s', ch')"
  shows "m_sessionType s' = m_sessionType s"
  using assms by (cases rule: MarkMessagesAsAcknowledged_cases) (simp_all add: SendOrClose_type)

lemma WriteReceive_type:
  assumes "rw_ring k (m_receiveWindow s)" and "WriteMessageIntoReceiveWindow m s ch = (r, s', ch')"
  shows "m_sessionType s' = m_sessionType s"
  using assms
  by (cases rule: WriteMessageIntoReceiveWindow_cases) (auto dest: SendAck_type)

lemmas handler_defs = HandleSynAckMessage_def HandleFinMessage_def HandleDataMessage_def
  HandleAckMessage_def Let_def

lemma handlers_type:
  assumes ring: "rw_ring k (m_receiveWindow s)"
  shows "HandleSynAckMessage m s ch = (s', ch') \<Longrightarrow> m_sessionType s' = m_sessionType s"
    and "HandleFinMessage m s ch = (s', ch') \<Longrightarrow> m_sessionType s' = m_sessionType s"
    and "HandleDataMessage m s ch = (s', ch') \<Longrightarrow> m_sessionType s' = m_sessionType s"
    and "HandleAckMessage m s ch = (s', ch') \<Longrightarrow> m_sessionType s' = m_sessionType s"
  using WriteReceive_type [OF ring]
  by (auto simp: handler_defs dest!: Mark_type SendAck_type split: prod.splits if_splits)

lemma HandleSynAck_state:
  assumes rel: "reliable ch" and h: "HandleSynAckMessage m s ch = (s', ch')"
  shows "m_sessionState s' = (if m_sessionState s = SynSent then Established else m_sessionState s)"
  using h reliable_Mark(1,2) [OF rel]
  by (auto simp: HandleSynAckMessage_def Let_def dest!: reliable_SendAck(1) [rotated]
      split: prod.splits if_splits)

lemma HandleFin_state:
  assumes rel: "reliable ch" and ring: "rw_ring k (m_receiveWindow s)"
    and h: "HandleFinMessage m s ch = (s', ch')"
  shows "m_sessionState s' = (if m_sessionState s < Closing then Closing
     else if m_sessionState s = FinWait2 then Closed else m_sessionState s)"
  using h by (auto simp: HandleFinMessage_def Let_def split: prod.splits if_splits)

lemma HandleData_state:
  assumes rel: "reliable ch" and ring: "rw_ring k (m_receiveWindow s)"
    and h: "HandleDataMessage m s ch = (s', ch')"
  shows "m_sessionState s' = m_sessionState s"
  using h reliable_WriteReceive(1) [OF rel ring]
  by (auto simp: HandleDataMessage_def Let_def split: prod.splits if_splits)

lemma HandleAck_state:
  assumes rel: "reliable ch" and h: "HandleAckMessage m s ch = (s', ch')"
  shows "m_sessionState s' = (if m_sessionState s = SynReceived then Established else m_sessionState s)"
  using h reliable_Mark(1) [OF rel]
  by (auto simp: HandleAckMessage_def Let_def split: prod.splits if_splits)

lemma HandleSyn_state:
  "m_sessionState (HandleSynMessage m s)
    = (if m_sessionState s < FinWait2 \<and> 0 < tw_semaphore (m_sendWindow s) then SynReceived else Closed)"
  "m_sessionType (HandleSynMessage m s) = m_sessionType s"
  by (auto simp: HandleSynMessage_def WriteMessageIntoSendWindow_def semaphore_Wait_def SetState_def Let_def msg_size_defs
      sizeof_SynAckPayload_def)

text \<open>C12.
  The state machine of a session: on a connected transport that never fails outright, every message, a Syn included, leads
  to exactly the state the table \<open>next_state\<close> gives, for a client session and for a server session alike, except for
  the step that establishes a server session, in which the server's own callback runs.  In particular a session becomes established
  only by a SynAck after its Syn, or by an Ack after its SynAck; a Syn is answered with a SynAck if the send
  window has a free slot, and closes the session otherwise; a Fin starts the passive close; a
  session that has sent its Fin closes on the peer's Fin; a reset with an error closes at once and a
  reset with \<^verbatim>\<open>Success\<close> closes gracefully.
\<close>

theorem HandleMessage_state_machine:
  assumes rel: "reliable ch" and inv: "session_inv k s"
    and client: "m_sessionType s = ServerType \<longrightarrow> next_state (header m) s = Established \<longrightarrow> m_sessionState s = Established"
  shows "m_sessionState (fst (HandleMessage pServer m s ch)) = next_state (header m) s"
proof -
  note ring = session_invD(2) [OF inv]
  obtain s1 ch1 where d: "(case SessionMessage_of (messageId (header m)) of
              Syn \<Rightarrow> (HandleSynMessage m s, ch)
            | SynAck \<Rightarrow> HandleSynAckMessage m s ch
            | Fin \<Rightarrow> HandleFinMessage m s ch
            | Data \<Rightarrow> HandleDataMessage m s ch
            | Ack \<Rightarrow> HandleAckMessage m s ch
            | Rst \<Rightarrow> (HandleRstMessage m s, ch)
            | _ \<Rightarrow> (s, ch)) = (s1, ch1)" by fastforce
  have st: "m_sessionState s1 = next_state (header m) s"
  proof (cases "SessionMessage_of (messageId (header m))")
    case Syn
    with d HandleSyn_state(1) show ?thesis by (auto simp: next_state_def Let_def)
  next
    case SynAck
    with d HandleSynAck_state [OF rel] show ?thesis by (simp add: next_state_def)
  next
    case Fin
    with d HandleFin_state [OF rel ring] show ?thesis by (simp add: next_state_def)
  next
    case Data
    with d HandleData_state [OF rel ring] show ?thesis by (simp add: next_state_def)
  next
    case Ack
    with d HandleAck_state [OF rel] show ?thesis by (simp add: next_state_def)
  next
    case Rst
    with d show ?thesis
      by (auto simp: next_state_def HandleRstMessage_def Shutdown_state result_of_code_Success)
  qed (use d in \<open>simp_all add: next_state_def\<close>)
  have type: "m_sessionType s1 = m_sessionType s"
    using d handlers_type [OF ring] HandleSyn_state(2) [of m s]
    by (cases "SessionMessage_of (messageId (header m))") (auto simp: HandleRstMessage_def)
  have "m_sessionState s \<noteq> m_sessionState s1 \<and> m_sessionState s1 = Established \<Longrightarrow> m_sessionType s1 \<noteq> ServerType"
    using client type st by auto
  then have "m_sessionState (fst (HandleMessage pServer m s ch)) = m_sessionState s1"
    unfolding HandleMessage_def Let_def d prod.case by (cases "m_sessionType s1") auto
  with st show ?thesis by simp
qed

definition sample_client :: Session where
  "sample_client = sample_received\<lparr>m_sessionType := ClientType\<rparr>"

theorem HandleMessage_state_machine_witness:
  "m_sessionState (fst (HandleMessage sample_server
     (sample_data\<lparr>header := (header sample_data)\<lparr>messageId := 3, sequence := 2\<rparr>\<rparr>) sample_client sample_channel))
   = Closing
   \<and> m_sessionState (fst (HandleMessage sample_server sample_syn sample_session sample_channel)) = SynReceived"
proof
  have rel: "reliable sample_channel" by (simp add: reliable_def sample_channel_def)
  have "session_inv 0 sample_client"
    using sample_received_inv by (simp add: sample_client_def session_inv_def)
  with rel show "m_sessionState (fst (HandleMessage sample_server
     (sample_data\<lparr>header := (header sample_data)\<lparr>messageId := 3, sequence := 2\<rparr>\<rparr>) sample_client sample_channel))
     = Closing"
    by (subst HandleMessage_state_machine)
      (auto simp: sample_client_def sample_received_window next_state_def less_SessionState_def)
  have "next_state (header sample_syn) sample_session = SynReceived"
    by (simp add: next_state_def sample_syn_def sample_session_simps new_TransmitWindow_def kDefaultWindowSize_def
        less_SessionState_def SessionMessage_of_eq)
  with rel show "m_sessionState (fst (HandleMessage sample_server sample_syn sample_session sample_channel)) = SynReceived"
    by (subst HandleMessage_state_machine [OF _ sample_session_inv]) simp_all
qed

subsection \<open>Fast retransmission without outstanding packets\<close>

text \<open>
  The fast retransmission in \<^verbatim>\<open>MarkMessagesAsAcknowledged\<close> does not check that the packet it sends
  is outstanding.  When every packet written so far is acknowledged, the third acknowledgement in a
  row makes the session send the content of a slot that holds no packet of the window.
\<close>

theorem fast_retransmit_unchecked:
  assumes inv: "tw_inv (m_sendWindow s)"
    and idle: "tw_nextUnacknowledgedSequence (m_sendWindow s) = tw_nextSequence (m_sendWindow s)"
    and third: "tw_lastAckCount (m_sendWindow s) = 2" and accepts: "ch_replies ch = []"
    and online: "ch_clientId ch \<noteq> kBroadcastClientId"
    and mk: "MarkMessagesAsAcknowledged maxS s ch = (r, s', ch')"
  shows "\<exists>m. ch_wire ch' = ch_wire ch @ [m]
     \<and> payload m = payload (tw_messages (m_sendWindow s) (slot (tw_nextSequence (m_sendWindow s))))
     \<and> sequence (header m) = sequence (header (tw_messages (m_sendWindow s) (slot (tw_nextSequence (m_sendWindow s)))))
     \<and> (\<forall>i < 128. \<not> tw_valid (m_sendWindow s) i)"
proof -
  let ?tw = "m_sendWindow s"
  note b = tw_inv_bounds [OF inv]
  have "\<not> tw_nextUnacknowledgedSequence ?tw \<le> min maxS (tw_lastSentSequence ?tw)"
    using b(2,3) idle by (auto simp: min_def word_le_nat_alt)
  then have ml: "mark_loop maxS now (tw_nextUnacknowledgedSequence ?tw) avg ?tw
      = (tw_nextUnacknowledgedSequence ?tw, avg, ?tw)" for now avg
    by (subst mark_loop.simps) (simp only: if_False)
  obtain now ch1 where now: "GetCurrentTimeInMs ch = (now, ch1)" by fastforce
  then have ch1: "ch_replies ch1 = []" "ch_wire ch1 = ch_wire ch" "ch_clientId ch1 \<noteq> kBroadcastClientId"
    using accepts online by (auto simp: GetCurrentTimeInMs_def split: list.splits)
  have fwd: "Forward_until_ready m ch1 = (Success, ch1\<lparr>ch_wire := ch_wire ch @ [m]\<rparr>)" for m
    by (simp add: Forward_until_ready.simps Forward_unfold ch1)
  have "\<not> tw_valid ?tw i" if "i < 128" for i
    using tw_ring_valid [OF b(4) that] idle by auto
  with mk show ?thesis
    by (auto simp: MarkMessagesAsAcknowledged_def now ml [unfolded idle] third SendOrClose_def fwd idle Let_def)
qed

definition sample_idle :: Session where
  "sample_idle = sample_session\<lparr>m_sendWindow := new_TransmitWindow\<lparr>tw_lastAckCount := 2\<rparr>\<rparr>"

theorem fast_retransmit_unchecked_witness:
  "\<exists>m. ch_wire (snd (snd (MarkMessagesAsAcknowledged 0 sample_idle sample_channel))) = [m]
     \<and> sequence (header m) = 0"
proof -
  obtain r s' ch' where mk: "MarkMessagesAsAcknowledged 0 sample_idle sample_channel = (r, s', ch')"
    by (metis prod_cases3)
  have "tw_inv (m_sendWindow sample_idle)"
    using tw_inv_new by (simp add: sample_idle_def tw_inv_def tw_ring_def)
  from fast_retransmit_unchecked [OF this _ _ _ _ mk] mk show ?thesis
    by (auto simp: sample_idle_def sample_channel_def new_TransmitWindow_def zero_message_def zero_header_def)
qed

end
