(* ===== verification/Session_Wire.thy ===== *)
theory Session_Wire
  imports Session_Theorems
begin

text \<open>
  What the periodic work on the send window puts on the wire: packets sent again and packets sent for the
  first time are the messages of their slots, with the window field brought up to date.
\<close>

lemma Forward_wire:
  "Forward m ch = (r, ch') \<Longrightarrow> ch_wire ch' = (if r = Success then ch_wire ch @ [m] else ch_wire ch)"
  by (auto simp: Forward_unfold Let_def split: list.splits prod.splits if_splits)

text \<open>The message with a sequence number as it is sent now.\<close>

definition outgoing :: "Session \<Rightarrow> Sequence \<Rightarrow> MessageBuffer" where
  "outgoing s q = (let m = tw_messages (m_sendWindow s) (slot q) in
     m\<lparr>header := (header m)\<lparr>windowSize := rw_currentAvailableSize (m_receiveWindow s)\<rparr>\<rparr>)"

text \<open>\<open>n\<close> packets from a sequence number on.\<close>

definition outgoing_run :: "Session \<Rightarrow> Sequence \<Rightarrow> nat \<Rightarrow> MessageBuffer list" where
  "outgoing_run s q n = map (\<lambda>i. outgoing s (q + of_nat i)) [0..<n]"

lemma outgoing_run_0 [simp]: "outgoing_run s q 0 = []"
  by (simp add: outgoing_run_def)

lemma outgoing_run_Suc: "outgoing_run s q (Suc n) = outgoing s q # outgoing_run s (q + 1) n"
proof -
  have "[0..<Suc n] = 0 # map Suc [0..<n]" by (simp add: upt_conv_Cons map_Suc_upt)
  then show ?thesis by (simp add: outgoing_run_def add.assoc)
qed

definition same_outgoing :: "Session \<Rightarrow> Session \<Rightarrow> bool" where
  "same_outgoing s s' \<longleftrightarrow> (\<forall>q. outgoing s' q = outgoing s q)"

lemma same_outgoing_run: "same_outgoing s s' \<Longrightarrow> outgoing_run s' q n = outgoing_run s q n"
  by (simp add: same_outgoing_def outgoing_run_def)

lemma same_outgoing_trans: "same_outgoing a b \<Longrightarrow> same_outgoing b c \<Longrightarrow> same_outgoing a c"
  by (simp add: same_outgoing_def)

lemma same_outgoing_windowSize:
  assumes "same_but_windowSize (m_sendWindow s) (m_sendWindow s')" and "m_receiveWindow s' = m_receiveWindow s"
  shows "same_outgoing s s'"
  unfolding same_outgoing_def
proof
  fix q
  obtain w where "tw_messages (m_sendWindow s') (slot q) = (tw_messages (m_sendWindow s) (slot q))
      \<lparr>header := (header (tw_messages (m_sendWindow s) (slot q)))\<lparr>windowSize := w\<rparr>\<rparr>"
    using assms(1) unfolding same_but_windowSize_def by blast
  with assms(2) show "outgoing s' q = outgoing s q" by (simp add: outgoing_def Let_def)
qed

subsection \<open>Packets sent again\<close>

lemma resend_loop_wire:
  assumes "resend_loop timeout now seq count s ch = (count', s', ch')"
  shows "\<exists>k. ch_wire ch' = ch_wire ch @ outgoing_run s seq k
    \<and> unat seq + k \<le> max (unat seq) (unat (tw_lastSentSequence (m_sendWindow s)) + 1)"
  using assms
proof (induction timeout now seq count s ch arbitrary: count' s' ch' rule: resend_loop.induct)
  case (1 timeout now seq count s ch)
  let ?tw = "m_sendWindow s"
  let ?s1 = "s\<lparr>m_sendWindow := ?tw\<lparr>tw_messages := (tw_messages ?tw)(slot seq := outgoing s seq)\<rparr>\<rparr>"
  have out: "outgoing s seq = (tw_messages ?tw (slot seq))\<lparr>header := (header (tw_messages ?tw (slot seq)))
              \<lparr>windowSize := rw_currentAvailableSize (m_receiveWindow s)\<rparr>\<rparr>" by (simp add: outgoing_def Let_def)
  show ?case
  proof (cases "seq \<le> tw_lastSentSequence ?tw
      \<and> \<not> now - tw_initialTransmitTimeInMs ?tw (slot seq) \<le> timeout")
    case False
    then have "resend_loop timeout now seq count s ch = (count, s, ch)"
      by (subst resend_loop.simps) (auto simp: Let_def)
    with "1.prems" show ?thesis by (intro exI [of _ 0]) simp
  next
    case True
    then have le: "unat seq \<le> unat (tw_lastSentSequence ?tw)" by (simp add: word_le_nat_alt)
    obtain sent s2 ch2 where send: "SendOrClose (outgoing s seq) ?s1 ch = (sent, s2, ch2)" by (metis prod_cases3)
    note w2 = SendOrClose_windows [OF send]
    have wire: "ch_wire ch2 = ch_wire ch @ (if sent then [outgoing s seq] else [])" using SendOrClose_wire [OF send] by simp
    have un: "resend_loop timeout now seq count s ch =
        (if \<not> sent then (count, s2, ch2)
         else if seq = - 1 then (count + 1, s2, ch2)
         else resend_loop timeout now (seq + 1) (count + 1) s2 ch2)"
      using True send by (subst resend_loop.simps) (simp add: Let_def out)
    show ?thesis
    proof (cases "sent \<and> seq \<noteq> - 1")
      case False
      with un "1.prems" have "ch' = ch2" by (auto split: if_splits)
      with wire le show ?thesis
        by (intro exI [of _ "if sent then 1 else 0"]) (simp add: outgoing_run_Suc [of _ _ 0, simplified])
    next
      case go: True
      then have rec: "resend_loop timeout now (seq + 1) (count + 1) s2 ch2 = (count', s', ch')"
        using un "1.prems" by simp
      have same: "same_but_windowSize ?tw (m_sendWindow s2)"
        using same_but_windowSize_step [of ?tw "slot seq" "rw_currentAvailableSize (m_receiveWindow s)"]
        by (simp add: w2 out)
      have run: "outgoing_run s2 q n = outgoing_run s q n" for q n
        using same_outgoing_run [OF same_outgoing_windowSize [OF same]] w2(2) by simp
      have "\<exists>k. ch_wire ch' = ch_wire ch2 @ outgoing_run s2 (seq + 1) k
          \<and> unat (seq + 1) + k \<le> max (unat (seq + 1)) (unat (tw_lastSentSequence (m_sendWindow s2)) + 1)"
        by (rule "1.IH" [OF refl refl _ _ refl refl refl refl send [unfolded out, symmetric] refl _ _ rec]) (use True go in auto)
      then obtain k where k: "ch_wire ch' = ch_wire ch2 @ outgoing_run s (seq + 1) k"
        "unat (seq + 1) + k \<le> max (unat (seq + 1)) (unat (tw_lastSentSequence ?tw) + 1)"
        using same_but_windowSize_fields(6) [OF same] by (auto simp: run)
      have "unat (seq + 1) = unat seq + 1" using go by (intro unat_Suc_not_max) simp
      with k wire go le show ?thesis by (intro exI [of _ "Suc k"]) (simp add: outgoing_run_Suc)
    qed
  qed
qed

subsection \<open>Packets sent for the first time\<close>

lemma transmit_one_wire:
  assumes one: "transmit_one seq s ch = (go, s', ch')"
  shows "ch_wire ch' = ch_wire ch @ (if go then [outgoing s seq] else [])" and "same_outgoing s s'"
proof -
  let ?tw = "m_sendWindow s"
  have out: "outgoing s seq = (tw_messages ?tw (slot seq))\<lparr>header := (header (tw_messages ?tw (slot seq)))
              \<lparr>windowSize := rw_currentAvailableSize (m_receiveWindow s)\<rparr>\<rparr>" by (simp add: outgoing_def Let_def)
  obtain r ch1 where f: "Forward (outgoing s seq) ch = (r, ch1)" by fastforce
  obtain now ch2 where c: "GetCurrentTimeInMs ch1 = (now, ch2)" by fastforce
  have cw: "ch_wire ch2 = ch_wire ch1" using c by (auto simp: GetCurrentTimeInMs_def split: list.splits)
  note un = one [unfolded transmit_one_def Let_def out [symmetric] f c prod.case]
  show "ch_wire ch' = ch_wire ch @ (if go then [outgoing s seq] else [])"
    using un Forward_wire [OF f] cw by (auto split: if_splits)
  have "tw_messages (m_sendWindow s') = (tw_messages ?tw)(slot seq := outgoing s seq)"
    and "m_receiveWindow s' = m_receiveWindow s" using un by (auto split: if_splits simp: Shutdown_def SetState_def Let_def)
  then show "same_outgoing s s'" by (simp add: same_outgoing_def outgoing_def Let_def)
qed

lemma transmit_loop_wire:
  assumes "tw_inv (m_sendWindow s)" and "seq = tw_lastSentSequence (m_sendWindow s) + 1"
    and "transmit_loop seq s ch = Some (s', ch')"
  shows "\<exists>n. unat (tw_lastSentSequence (m_sendWindow s')) = unat (tw_lastSentSequence (m_sendWindow s)) + n
    \<and> ch_wire ch' = ch_wire ch @ outgoing_run s seq n"
  using assms
proof (induction seq s ch rule: transmit_loop.induct)
  case (1 seq s ch)
  let ?tw = "m_sendWindow s"
  obtain go s1 ch1 where one: "transmit_one seq s ch = (go, s1, ch1)" by (metis prod_cases3)
  note w = transmit_one_wire [OF one]
  show ?case
  proof (cases "seq < tw_nextSequence ?tw \<and> 0 < tw_lastAvailableSize ?tw")
    case False
    then have "transmit_loop seq s ch = Some (s, ch)"
      by (subst transmit_loop.simps) (simp only: Let_def if_False)
    with "1.prems"(3) show ?thesis by (intro exI [of _ 0]) simp
  next
    case True
    with "1.prems"(3) have ok: "tw_valid ?tw (slot seq) \<and> seq = tw_sequence ?tw (slot seq)"
      by (subst (asm) transmit_loop.simps) (auto simp: Let_def split: if_splits)
    note spec = transmit_one_spec [OF "1.prems"(1,2) conjunct1 [OF True] conjunct2 [OF True] one]
    show ?thesis
    proof (cases go)
      case False
      then have "transmit_loop seq s ch = Some (s1, ch1)"
        using True ok one by (subst transmit_loop.simps) (simp add: Let_def)
      with False w spec(2) "1.prems"(3) show ?thesis by (intro exI [of _ 0]) simp
    next
      case go: True
      then have un: "transmit_loop (seq + 1) s1 ch1 = Some (s', ch')"
        using True ok one "1.prems"(3) by (subst (asm) transmit_loop.simps) (simp add: Let_def)
      have inv1: "tw_inv (m_sendWindow s1)" using spec(1) by (simp add: transmit_frame_def)
      have last: "tw_lastSentSequence (m_sendWindow s1) = seq" using spec(2) go by simp
      have "\<exists>n. unat (tw_lastSentSequence (m_sendWindow s')) = unat (tw_lastSentSequence (m_sendWindow s1)) + n
          \<and> ch_wire ch' = ch_wire ch1 @ outgoing_run s1 (seq + 1) n"
        by (rule "1.IH" [OF refl True ok one [symmetric] _ refl inv1 _ un]) (simp_all add: go last)
      then obtain n where n: "unat (tw_lastSentSequence (m_sendWindow s')) = unat seq + n"
        "ch_wire ch' = ch_wire ch1 @ outgoing_run s (seq + 1) n"
        by (auto simp: last same_outgoing_run [OF w(2)])
      have "unat seq = unat (tw_lastSentSequence ?tw) + 1"
        by (simp add: "1.prems"(2) lastSent_Suc [OF "1.prems"(1)])
      with n w(1) go show ?thesis by (intro exI [of _ "Suc n"]) (simp add: outgoing_run_Suc)
    qed
  qed
qed

subsection \<open>The whole update\<close>

lemma UpdateSendWindow_wire:
  assumes inv: "tw_inv (m_sendWindow s)" and u: "UpdateSendWindow s ch = Some (s', ch')"
  shows "\<exists>k n. unat (tw_nextUnacknowledgedSequence (m_sendWindow s)) + k
        \<le> max (unat (tw_nextUnacknowledgedSequence (m_sendWindow s))) (unat (tw_lastSentSequence (m_sendWindow s)) + 1)
    \<and> unat (tw_lastSentSequence (m_sendWindow s')) = unat (tw_lastSentSequence (m_sendWindow s)) + n
    \<and> ch_wire ch' = ch_wire ch @ outgoing_run s (tw_nextUnacknowledgedSequence (m_sendWindow s)) k
        @ outgoing_run s (tw_lastSentSequence (m_sendWindow s) + 1) n"
proof -
  let ?tw = "m_sendWindow s"
  let ?first = "tw_nextUnacknowledgedSequence ?tw"
  obtain k s1 ch1 where pre: "transmit_loop (tw_lastSentSequence (m_sendWindow s1) + 1) s1 ch1 = Some (s', ch')"
    "tw_inv (m_sendWindow s1)" "tw_lastSentSequence (m_sendWindow s1) = tw_lastSentSequence ?tw" "same_outgoing s s1"
    "ch_wire ch1 = ch_wire ch @ outgoing_run s ?first k"
    "unat ?first + k \<le> max (unat ?first) (unat (tw_lastSentSequence ?tw) + 1)"
  proof (cases "?first \<le> tw_lastSentSequence ?tw \<and> tw_retransmitCount ?tw \<le> kMaxRetransmits")
    case True
    obtain now cha where now: "GetCurrentTimeInMs ch = (now, cha)" by fastforce
    have wa: "ch_wire cha = ch_wire ch" using now by (auto simp: GetCurrentTimeInMs_def split: list.splits)
    obtain count sa chb where rl: "resend_loop (currentTimeout ?tw) now ?first 0 s cha = (count, sa, chb)"
      by (metis prod_cases3)
    note spec = resend_loop_spec [OF rl]
    let ?s1 = "if 0 < count
       then sa\<lparr>m_sendWindow := (m_sendWindow sa)
              \<lparr>tw_retransmitCount := tw_retransmitCount (m_sendWindow sa) + 1\<rparr>\<rparr> else sa"
    have same: "same_but_windowSize ?tw (m_sendWindow sa)" using spec by blast
    have "tw_inv (m_sendWindow sa)" using inv same tw_inv_same_but_windowSize by blast
    then have i1: "tw_inv (m_sendWindow ?s1)" by (auto simp: tw_inv_def tw_ring_def)
    have "same_outgoing s sa" using same_outgoing_windowSize [OF same] spec by blast
    then have o1: "same_outgoing s ?s1" by (simp add: same_outgoing_def outgoing_def)
    have un: "UpdateSendWindow s ch = transmit_loop (tw_lastSentSequence (m_sendWindow ?s1) + 1) ?s1 chb"
      using True by (simp add: UpdateSendWindow_def Let_def now rl)
    have l1: "tw_lastSentSequence (m_sendWindow ?s1) = tw_lastSentSequence ?tw"
      using same_but_windowSize_fields(6) [OF same] by simp
    obtain k where "ch_wire chb = ch_wire cha @ outgoing_run s ?first k"
      "unat ?first + k \<le> max (unat ?first) (unat (tw_lastSentSequence ?tw) + 1)"
      using resend_loop_wire [OF rl] by blast
    with that [OF _ i1 l1 o1] un u wa show thesis by simp
  next
    case False
    let ?s1 = "if ?first \<le> tw_lastSentSequence ?tw then Shutdown NotReady s else s"
    have "UpdateSendWindow s ch = transmit_loop (tw_lastSentSequence (m_sendWindow ?s1) + 1) ?s1 ch"
      using False by (auto simp: UpdateSendWindow_def Let_def)
    moreover have "m_sendWindow ?s1 = ?tw" "same_outgoing s ?s1"
      by (simp_all add: same_outgoing_def outgoing_def Shutdown_def SetState_def Let_def)
    ultimately show thesis using that [of ?s1 ch 0] u inv by simp
  qed
  obtain n where n: "unat (tw_lastSentSequence (m_sendWindow s')) = unat (tw_lastSentSequence (m_sendWindow s1)) + n"
    "ch_wire ch' = ch_wire ch1 @ outgoing_run s1 (tw_lastSentSequence (m_sendWindow s1) + 1) n"
    using transmit_loop_wire [OF pre(2) refl pre(1)] by blast
  show ?thesis
    by (intro exI [of _ k] exI [of _ n]) (use n pre same_outgoing_run [OF pre(4)] in simp)
qed

text \<open>C35.
  Flow control of \<^verbatim>\<open>UpdateSendWindow\<close>: the packets transmitted for the first time in one update
  are the next ones in order, no more than the window the peer last advertised, and none that was
  not written; the advertised size goes down by their number.  On the wire the update puts first a run of
  unacknowledged packets again, from the oldest on, then exactly these new packets; each is the message stored for its sequence
  number, with the window size that this side advertises now, and nothing else is sent.
\<close>

theorem UpdateSendWindow_flow_control:
  assumes "tw_inv (m_sendWindow s)"
  shows "\<exists>s' ch' resent. UpdateSendWindow s ch = Some (s', ch')
     \<and> tw_lastSentSequence (m_sendWindow s) \<le> tw_lastSentSequence (m_sendWindow s')
     \<and> tw_lastSentSequence (m_sendWindow s') < tw_nextSequence (m_sendWindow s)
     \<and> unat (tw_lastSentSequence (m_sendWindow s')) - unat (tw_lastSentSequence (m_sendWindow s))
         \<le> unat (tw_lastAvailableSize (m_sendWindow s))
     \<and> unat (tw_lastAvailableSize (m_sendWindow s'))
         = unat (tw_lastAvailableSize (m_sendWindow s))
           - (unat (tw_lastSentSequence (m_sendWindow s'))
              - unat (tw_lastSentSequence (m_sendWindow s)))
     \<and> ch_wire ch' = ch_wire ch @ outgoing_run s (tw_nextUnacknowledgedSequence (m_sendWindow s)) resent
         @ outgoing_run s (tw_lastSentSequence (m_sendWindow s) + 1)
             (unat (tw_lastSentSequence (m_sendWindow s')) - unat (tw_lastSentSequence (m_sendWindow s)))
     \<and> (0 < resent \<longrightarrow> unat (tw_nextUnacknowledgedSequence (m_sendWindow s)) + resent
         \<le> unat (tw_lastSentSequence (m_sendWindow s)) + 1)"
proof -
  obtain s' ch' where u: "UpdateSendWindow s ch = Some (s', ch')" and f: "transmit_frame s s'"
    using UpdateSendWindow_spec [OF assms] by blast
  have next_bound: "unat (tw_lastSentSequence (m_sendWindow s')) < unat (tw_nextSequence (m_sendWindow s))"
    using f tw_inv_bounds(3) [of "m_sendWindow s'"] by (simp add: transmit_frame_def)
  obtain k n where w: "unat (tw_nextUnacknowledgedSequence (m_sendWindow s)) + k
        \<le> max (unat (tw_nextUnacknowledgedSequence (m_sendWindow s))) (unat (tw_lastSentSequence (m_sendWindow s)) + 1)"
    "unat (tw_lastSentSequence (m_sendWindow s')) = unat (tw_lastSentSequence (m_sendWindow s)) + n"
    "ch_wire ch' = ch_wire ch @ outgoing_run s (tw_nextUnacknowledgedSequence (m_sendWindow s)) k
        @ outgoing_run s (tw_lastSentSequence (m_sendWindow s) + 1) n"
    using UpdateSendWindow_wire [OF assms u] by blast
  have "0 < k \<longrightarrow> unat (tw_nextUnacknowledgedSequence (m_sendWindow s)) + k \<le> unat (tw_lastSentSequence (m_sendWindow s)) + 1"
    using w(1) by (auto simp: max_def split: if_splits)
  moreover have "n + unat (tw_lastAvailableSize (m_sendWindow s')) = unat (tw_lastAvailableSize (m_sendWindow s))"
    using f w(2) by (simp add: transmit_frame_def)
  then have "unat (tw_lastAvailableSize (m_sendWindow s')) = unat (tw_lastAvailableSize (m_sendWindow s)) - n"
    and "n \<le> unat (tw_lastAvailableSize (m_sendWindow s))" by (metis diff_add_inverse, metis le_add1)
  ultimately show ?thesis using u f w(2,3) next_bound
    by (intro exI [of _ s'] exI [of _ ch'] exI [of _ k]) (simp add: transmit_frame_def word_le_nat_alt word_less_nat_alt)
qed

theorem UpdateSendWindow_flow_control_witness:
  "\<exists>s' ch'. UpdateSendWindow sample_sent sample_channel = Some (s', ch')
     \<and> tw_lastSentSequence (m_sendWindow s') < 2"
  using UpdateSendWindow_flow_control [OF session_invD(1) [OF sample_sent_inv], of sample_channel]
  by (auto simp: sample_sent_window)

end
