(* ===== verification/Session_Link.thy ===== *)
theory Session_Link
  imports Session_Wire "HOL-Library.Sublist"
begin

text \<open>
  Two sessions over a lossy bus.  Whatever one endpoint ever put on the wire may be handed to the
  other endpoint at any time, any number of times and in any order: the bus loses, duplicates and
  reorders.  The theorem is that the payloads \<^verbatim>\<open>Receive\<close> returned at one end are a prefix of the
  payloads \<^verbatim>\<open>Send\<close> accepted at the other end.

  The history \<open>h\<close> of an endpoint lists the packets it wrote into its send window: kind and payload
  bytes; packet \<open>q\<close> is entry \<open>q - 1\<close>.  It is not part of the code's state and exists in the proof
  only.
\<close>

type_synonym history = "(MessageCode \<times> u8 list) list"

definition carries :: "MessageBuffer \<Rightarrow> MessageCode \<times> u8 list" where
  "carries m = (messageId (header m), bytes_at (unat (payloadSize (header m))) (payload m))"

definition is_entry :: "history \<Rightarrow> MessageBuffer \<Rightarrow> bool" where
  "is_entry h m \<longleftrightarrow>
     1 \<le> unat (sequence (header m)) \<and> unat (sequence (header m)) \<le> length h
     \<and> carries m = h ! (unat (sequence (header m)) - 1)"

text \<open>A slot that was never written is all zero; fast retransmission may put it on the wire.\<close>

definition slot_ok :: "history \<Rightarrow> MessageBuffer \<Rightarrow> bool" where
  "slot_ok h m \<longleftrightarrow> (messageId (header m) = 0 \<and> sequence (header m) = 0) \<or> is_entry h m"

definition wire_ok :: "history \<Rightarrow> MessageBuffer \<Rightarrow> bool" where
  "wire_ok h m \<longleftrightarrow> messageId (header m) = code_of_SessionMessage Ack \<or> slot_ok h m"

text \<open>The first packet of an endpoint opens the connection, the others are Data and Fin.\<close>

definition history_ok :: "history \<Rightarrow> bool" where
  "history_ok h \<longleftrightarrow> (\<forall>k < length h. fst (h ! k) \<in> (if k = 0 then {1, 2} else {3, 4}))"

definition data_of :: "history \<Rightarrow> u8 list list" where
  "data_of h = map snd (filter (\<lambda>e. fst e = code_of_SessionMessage Data) h)"

definition sender_ok :: "history \<Rightarrow> Session \<Rightarrow> Channel \<Rightarrow> bool" where
  "sender_ok h s ch \<longleftrightarrow>
     unat (tw_nextSequence (m_sendWindow s)) = length h + 1
     \<and> (\<forall>i. slot_ok h (tw_messages (m_sendWindow s) i))
     \<and> (\<forall>m \<in> set (ch_wire ch). wire_ok h m)"

definition receiver_ok :: "history \<Rightarrow> u8 list list \<Rightarrow> Session \<Rightarrow> bool" where
  "receiver_ok hp d s \<longleftrightarrow>
     (let r = unat (rw_nextUnreadSequence (m_receiveWindow s)) in
      1 \<le> r \<and> r - 1 \<le> length hp \<and> d = data_of (take (r - 1) hp)
      \<and> (\<forall>i < 128. rw_valid (m_receiveWindow s) i \<longrightarrow> is_entry hp (rw_messages (m_receiveWindow s) i)))"

subsection \<open>Histories\<close>

lemma is_entry_nth:
  assumes "is_entry h m"
  shows "fst (h ! (unat (sequence (header m)) - 1)) = messageId (header m)"
    and "snd (h ! (unat (sequence (header m)) - 1))
           = bytes_at (unat (payloadSize (header m))) (payload m)"
proof -
  have "h ! (unat (sequence (header m)) - 1) = carries m" using assms by (simp add: is_entry_def)
  then show "fst (h ! (unat (sequence (header m)) - 1)) = messageId (header m)"
    and "snd (h ! (unat (sequence (header m)) - 1))
           = bytes_at (unat (payloadSize (header m))) (payload m)"
    by (simp_all add: carries_def)
qed

lemma is_entry_extend: "is_entry h m \<Longrightarrow> is_entry (h @ x) m"
  by (auto simp: is_entry_def nth_append)

lemma slot_ok_extend: "slot_ok h m \<Longrightarrow> slot_ok (h @ x) m"
  by (auto simp: slot_ok_def is_entry_extend)

lemma wire_ok_extend: "wire_ok h m \<Longrightarrow> wire_ok (h @ x) m"
  by (auto simp: wire_ok_def slot_ok_extend)

lemma receiver_ok_extend: "receiver_ok hp d s \<Longrightarrow> receiver_ok (hp @ x) d s"
  by (auto simp: receiver_ok_def Let_def is_entry_extend)

lemma carries_windowSize [simp]:
  "carries (m\<lparr>header := (header m)\<lparr>windowSize := w\<rparr>\<rparr>) = carries m"
  by (simp add: carries_def)

lemma slot_ok_windowSize [simp]:
  "slot_ok h (m\<lparr>header := (header m)\<lparr>windowSize := w\<rparr>\<rparr>) = slot_ok h m"
  by (simp add: slot_ok_def is_entry_def)

lemma data_of_append [simp]: "data_of (a @ b) = data_of a @ data_of b"
  by (simp add: data_of_def)

lemma data_of_take_Suc:
  assumes "k < length h"
  shows "data_of (take (Suc k) h) = data_of (take k h)
    @ (if fst (h ! k) = code_of_SessionMessage Data then [snd (h ! k)] else [])"
  using assms by (simp add: take_Suc_conv_app_nth data_of_def)

subsection \<open>The sender's side\<close>

lemma sender_ok_wire:
  assumes "sender_ok h s ch" and "wire_ok h m" and "ch_wire ch' = ch_wire ch @ [m] \<or> ch_wire ch' = ch_wire ch"
  shows "sender_ok h s ch'"
  using assms by (auto simp: sender_ok_def)

lemma sender_ok_cong:
  assumes "sender_ok h s ch" and "tw_nextSequence (m_sendWindow s') = tw_nextSequence (m_sendWindow s)"
    and "tw_messages (m_sendWindow s') = tw_messages (m_sendWindow s)"
    and "ch_wire ch' = ch_wire ch"
  shows "sender_ok h s' ch'"
  using assms by (simp add: sender_ok_def)

lemma SendOrClose_sender:
  assumes "sender_ok h s ch" and "wire_ok h m" and send: "SendOrClose m s ch = (sent, s', ch')"
  shows "sender_ok h s' ch'"
proof -
  have "sender_ok h s ch'"
    by (rule sender_ok_wire [OF assms(1,2)]) (use SendOrClose_wire [OF send] in auto)
  then show ?thesis by (rule sender_ok_cong) (simp_all add: SendOrClose_windows [OF send])
qed

lemma SendAck_sender:
  assumes ok: "sender_ok h s ch" and ack: "SendAckMessage s ch = (sent, s', ch')"
  shows "sender_ok h s' ch'"
  by (rule SendOrClose_sender [OF _ _ ack [unfolded SendAckMessage_def SendControlMessage_def Let_def]])
    (use ok in \<open>simp_all add: sender_ok_def wire_ok_def\<close>)

lemma clock_wire [simp]: "ch_wire (snd (GetCurrentTimeInMs ch)) = ch_wire ch"
  by (simp add: GetCurrentTimeInMs_def split: list.splits)

lemma Mark_sender:
  assumes inv: "tw_inv (m_sendWindow s)" and ok: "sender_ok h s ch"
    and mk: "MarkMessagesAsAcknowledged q s ch = (r, s', ch')"
  shows "sender_ok h s' ch'"
proof -
  have n: "tw_nextSequence (m_sendWindow s') = tw_nextSequence (m_sendWindow s)"
    by (rule MarkMessagesAsAcknowledged_spec(3) [OF inv mk])
  from mk show ?thesis
  proof (cases rule: MarkMessagesAsAcknowledged_cases)
    case (quiet tw)
    with ok n show ?thesis by (intro sender_ok_cong [OF ok]) simp_all
  next
    case (fast i m tw tw' sent s1)
    have m: "slot_ok h m" using ok unfolding fast(1) by (simp add: sender_ok_def)
    have "ch_wire ch' = ch_wire ch @ [m] \<or> ch_wire ch' = ch_wire ch"
      using SendOrClose_wire [OF fast(2)] by (cases sent) simp_all
    with ok n m fast(3,4) show ?thesis by (auto simp: sender_ok_def wire_ok_def)
  qed
qed

lemma resend_loop_sender:
  assumes "sender_ok h s ch" and "resend_loop timeout now seq count s ch = (count', s', ch')"
  shows "sender_ok h s' ch'"
  using assms
proof (induction timeout now seq count s ch arbitrary: count' s' ch' rule: resend_loop.induct)
  case (1 timeout now seq count s ch)
  let ?tw = "m_sendWindow s"
  let ?m = "(tw_messages ?tw (slot seq))\<lparr>header := (header (tw_messages ?tw (slot seq)))
              \<lparr>windowSize := rw_currentAvailableSize (m_receiveWindow s)\<rparr>\<rparr>"
  let ?s1 = "s\<lparr>m_sendWindow := ?tw\<lparr>tw_messages := (tw_messages ?tw)(slot seq := ?m)\<rparr>\<rparr>"
  show ?case
  proof (cases "seq \<le> tw_lastSentSequence ?tw
      \<and> \<not> now - tw_initialTransmitTimeInMs ?tw (slot seq) \<le> timeout")
    case False
    then have "resend_loop timeout now seq count s ch = (count, s, ch)"
      by (subst resend_loop.simps) (auto simp: Let_def)
    with "1.prems" show ?thesis by simp
  next
    case True
    obtain sent s2 ch2 where send: "SendOrClose ?m ?s1 ch = (sent, s2, ch2)" by (metis prod_cases3)
    have m: "slot_ok h ?m" using "1.prems"(1) by (simp add: sender_ok_def)
    have "sender_ok h ?s1 ch" using "1.prems"(1) m by (simp add: sender_ok_def)
    then have ok2: "sender_ok h s2 ch2"
      by (rule SendOrClose_sender [OF _ _ send]) (use m in \<open>simp add: wire_ok_def\<close>)
    have un: "resend_loop timeout now seq count s ch =
        (if \<not> sent then (count, s2, ch2)
         else if seq = - 1 then (count + 1, s2, ch2)
         else resend_loop timeout now (seq + 1) (count + 1) s2 ch2)"
      using True by (subst resend_loop.simps) (simp add: Let_def send)
    show ?thesis
    proof (cases "sent \<and> seq \<noteq> - 1")
      case False
      with un "1.prems"(2) ok2 show ?thesis by (auto split: if_splits)
    next
      case go: True
      then have rec: "resend_loop timeout now (seq + 1) (count + 1) s2 ch2 = (count', s', ch')"
        using un "1.prems"(2) by simp
      show ?thesis
        by (rule "1.IH" [OF refl refl _ _ refl refl refl refl send [symmetric] refl _ _ ok2 rec])
          (use True go in auto)
    qed
  qed
qed

lemma transmit_one_sender:
  assumes ok: "sender_ok h s ch" and one: "transmit_one seq s ch = (go, s', ch')"
  shows "sender_ok h s' ch'"
proof -
  let ?tw = "m_sendWindow s" and ?i = "slot seq"
  let ?m = "(tw_messages ?tw ?i)\<lparr>header := (header (tw_messages ?tw ?i))
              \<lparr>windowSize := rw_currentAvailableSize (m_receiveWindow s)\<rparr>\<rparr>"
  have m: "slot_ok h ?m" using ok by (simp add: sender_ok_def)
  obtain r ch1 where f: "Forward ?m ch = (r, ch1)" by fastforce
  have wok: "\<forall>x \<in> set (ch_wire ch1). wire_ok h x"
    using Forward_wire [OF f] ok m by (auto simp: sender_ok_def wire_ok_def)
  have msgs: "tw_messages (m_sendWindow s') = (tw_messages ?tw)(?i := ?m)"
    and wire: "ch_wire ch' = ch_wire ch1"
    using one clock_wire [of ch1] by (cases "GetCurrentTimeInMs ch1";
        auto simp: transmit_one_def Let_def f split: if_splits)+
  have n: "tw_nextSequence (m_sendWindow s') = tw_nextSequence ?tw"
    using transmit_one_nextSequence [of seq s ch] one by simp
  show ?thesis using ok m wok by (simp add: sender_ok_def msgs wire n)
qed

lemma transmit_loop_sender:
  assumes "sender_ok h s ch" and "transmit_loop seq s ch = Some (s', ch')"
  shows "sender_ok h s' ch'"
  using assms
proof (induction seq s ch rule: transmit_loop.induct)
  case (1 seq s ch)
  let ?tw = "m_sendWindow s"
  obtain go s1 ch1 where one: "transmit_one seq s ch = (go, s1, ch1)" by (metis prod_cases3)
  have ok1: "sender_ok h s1 ch1" by (rule transmit_one_sender [OF "1.prems"(1) one])
  show ?case
  proof (cases "seq < tw_nextSequence ?tw \<and> 0 < tw_lastAvailableSize ?tw")
    case False
    then have "transmit_loop seq s ch = Some (s, ch)"
      by (subst transmit_loop.simps) (simp only: Let_def if_False)
    with "1.prems" show ?thesis by simp
  next
    case True
    with "1.prems"(2) have ok: "tw_valid ?tw (slot seq) \<and> seq = tw_sequence ?tw (slot seq)"
      by (subst (asm) transmit_loop.simps) (auto simp: Let_def split: if_splits)
    show ?thesis
    proof (cases go)
      case False
      then have "transmit_loop seq s ch = Some (s1, ch1)"
        using True ok one by (subst transmit_loop.simps) (simp add: Let_def)
      with "1.prems"(2) ok1 show ?thesis by simp
    next
      case go: True
      then have un: "transmit_loop seq s ch = transmit_loop (seq + 1) s1 ch1"
        using True ok one by (subst transmit_loop.simps) (simp add: Let_def)
      show ?thesis
        by (rule "1.IH" [OF refl True ok one [symmetric] _ refl ok1]) (use go un "1.prems"(2) in simp_all)
    qed
  qed
qed

lemma UpdateSendWindow_sender:
  assumes ok: "sender_ok h s ch" and u: "UpdateSendWindow s ch = Some (s', ch')"
  shows "sender_ok h s' ch'"
proof -
  let ?tw = "m_sendWindow s"
  obtain now ch1 where now: "GetCurrentTimeInMs ch = (now, ch1)" by fastforce
  have ok1: "sender_ok h s ch1"
    by (rule sender_ok_cong [OF ok]) (use clock_wire [of ch] now in simp_all)
  obtain count s2 ch2 where rl:
    "resend_loop (currentTimeout ?tw) now (tw_nextUnacknowledgedSequence ?tw) 0 s ch1 = (count, s2, ch2)"
    by (metis prod_cases3)
  have ok2: "sender_ok h s2 ch2" by (rule resend_loop_sender [OF ok1 rl])
  have ok3: "sender_ok h (s2\<lparr>m_sendWindow := (m_sendWindow s2)\<lparr>tw_retransmitCount := c\<rparr>\<rparr>) ch2" for c
    by (rule sender_ok_cong [OF ok2]) simp_all
  have ok4: "sender_ok h (Shutdown NotReady s) ch" by (rule sender_ok_cong [OF ok]) simp_all
  show ?thesis
    using u ok ok2 ok3 ok4
    by (auto simp: UpdateSendWindow_def Let_def now rl split: if_splits intro: transmit_loop_sender)
qed

text \<open>Writing a packet extends the history by it.\<close>

lemma WriteSend_sender:
  assumes ok: "sender_ok h s ch" and room: "tw_headroom 1 s"
    and w: "WriteMessageIntoSendWindow msg n (Some bs) s = (Success, s')" and len: "length bs = unat n"
  shows "sender_ok (h @ [(code_of_SessionMessage msg, bs)]) s' ch"
  using w
proof (cases rule: WriteMessageIntoSendWindow_cases)
  case written
  let ?q = "tw_nextSequence (m_sendWindow s)" and ?m = "written_message msg n (Some bs) s"
  have q: "unat ?q = length h + 1" using ok by (simp add: sender_ok_def)
  have q1: "unat (?q + 1) = length h + 2"
    using unat_Suc_no_wrap [of ?q] room q by (simp add: tw_headroom_def)
  have "carries ?m = (code_of_SessionMessage msg, bs)"
    using len by (cases "n = 0") (auto simp: carries_def written_message_def Let_def word_gt_0)
  then have "is_entry (h @ [(code_of_SessionMessage msg, bs)]) ?m"
    using q by (simp add: is_entry_def written_message_def Let_def)
  with ok q1 show ?thesis
    by (auto simp: sender_ok_def written(5) slot_ok_def is_entry_extend intro: wire_ok_extend)
qed simp_all

lemma WriteSend_sender_empty:
  assumes ok: "sender_ok h s ch" and room: "tw_headroom 1 s"
    and w: "WriteMessageIntoSendWindow msg 0 None s = (Success, s')"
  shows "sender_ok (h @ [(code_of_SessionMessage msg, [])]) s' ch"
proof -
  have "WriteMessageIntoSendWindow msg 0 (Some []) s = WriteMessageIntoSendWindow msg 0 None s"
    by (cases "semaphore_Wait (tw_semaphore (m_sendWindow s))")
      (simp add: WriteMessageIntoSendWindow_def Let_def)
  with w have "WriteMessageIntoSendWindow msg 0 (Some []) s = (Success, s')" by simp
  from WriteSend_sender [OF ok room this] show ?thesis by simp
qed

subsection \<open>The receiver's side\<close>

lemma receiver_ok_cong:
  assumes "receiver_ok hp d s" and "rw_messages (m_receiveWindow s') = rw_messages (m_receiveWindow s)"
    and "rw_valid (m_receiveWindow s') = rw_valid (m_receiveWindow s)"
    and "rw_nextUnreadSequence (m_receiveWindow s') = rw_nextUnreadSequence (m_receiveWindow s)"
  shows "receiver_ok hp d s'"
  using assms by (simp add: receiver_ok_def)

lemma is_entry_copied: "is_entry h m \<Longrightarrow> is_entry h (copied_message m rw)"
  by (simp add: is_entry_def carries_def copied_message_def)

lemma receiver_ok_store:
  assumes ok: "receiver_ok hp d s" and m: "is_entry hp m"
    and ring: "rw_ring k (m_receiveWindow s)" and room: "rw_room (m_receiveWindow s)"
    and win: "in_window m (m_receiveWindow s)"
    and rw: "m_receiveWindow s' = rw_scan (rw_store m (m_receiveWindow s))"
  shows "receiver_ok hp d s'"
  using ok is_entry_copied [OF m] rw_scan_ring(2-4) [OF ring room win]
  by (auto simp: receiver_ok_def rw rw_store_def Let_def)

text \<open>The two directions of one endpoint; \<open>d\<close> is what \<^verbatim>\<open>Receive\<close> returned so far.\<close>

definition conv_ok :: "history \<Rightarrow> history \<Rightarrow> u8 list list \<Rightarrow> Session \<Rightarrow> Channel \<Rightarrow> bool" where
  "conv_ok h hp d s ch \<longleftrightarrow>
     sender_ok h s ch \<and> receiver_ok hp d s \<and> (m_sessionState s = SynSent \<longrightarrow> d = [])
     \<and> m_sessionState s \<noteq> Listening"

lemma conv_ok_frame:
  assumes "conv_ok h hp d s ch" and "m_sendWindow s' = m_sendWindow s"
    and "m_receiveWindow s' = m_receiveWindow s"
    and "m_sessionState s' = m_sessionState s \<or> m_sessionState s' \<notin> {SynSent, Listening}"
  shows "conv_ok h hp d s' ch"
  using assms by (auto simp: conv_ok_def sender_ok_def receiver_ok_def)

lemma conv_ok_SetState:
  "conv_ok h hp d s ch \<Longrightarrow> x \<notin> {SynSent, Listening} \<Longrightarrow> conv_ok h hp d (SetState x s) ch"
  by (erule conv_ok_frame) simp_all

lemma conv_ok_Shutdown: "conv_ok h hp d s ch \<Longrightarrow> conv_ok h hp d (Shutdown r s) ch"
  by (erule conv_ok_frame) (auto simp: Shutdown_state)

lemma conv_ok_upd [simp]:
  "conv_ok h hp d (s\<lparr>m_connectionEvent := b\<rparr>) ch = conv_ok h hp d s ch"
  "conv_ok h hp d (s\<lparr>m_disconnectionEvent := b\<rparr>) ch = conv_ok h hp d s ch"
  "conv_ok h hp d (s\<lparr>m_callbackState := c\<rparr>) ch = conv_ok h hp d s ch"
  "conv_ok h hp d (s\<lparr>m_sessionTerminationReason := r\<rparr>) ch = conv_ok h hp d s ch"
  by (simp_all add: conv_ok_def sender_ok_def receiver_ok_def)

lemma conv_ok_UpdateSendWindowSize:
  "conv_ok h hp d s ch \<Longrightarrow> conv_ok h hp d (UpdateSendWindowSize m s) ch"
  by (simp add: conv_ok_def sender_ok_def receiver_ok_def UpdateSendWindowSize_def)

lemma conv_ok_SendAck:
  assumes ok: "conv_ok h hp d s ch" and ack: "SendAckMessage s ch = (sent, s', ch')"
  shows "conv_ok h hp d s' ch'"
proof -
  note w = SendAckMessage_windows [OF ack]
  have "sender_ok h s' ch'" using ok by (intro SendAck_sender [OF _ ack]) (simp add: conv_ok_def)
  moreover have "receiver_ok hp d s'"
    by (rule receiver_ok_cong [of hp d s]) (use ok in \<open>simp_all add: conv_ok_def w\<close>)
  ultimately show ?thesis using ok w(3) by (simp add: conv_ok_def)
qed

lemma conv_ok_Mark:
  assumes inv: "session_inv k s" and ok: "conv_ok h hp d s ch"
    and mk: "MarkMessagesAsAcknowledged q s ch = (r, s', ch')"
  shows "conv_ok h hp d s' ch'"
proof -
  note spec = MarkMessagesAsAcknowledged_spec [OF session_invD(1) [OF inv] mk]
  have "sender_ok h s' ch'"
    using ok by (intro Mark_sender [OF session_invD(1) [OF inv] _ mk]) (simp add: conv_ok_def)
  with ok spec(5,7) show ?thesis by (auto simp: conv_ok_def receiver_ok_def)
qed

lemma conv_ok_WriteReceive:
  assumes inv: "session_inv k s" and room: "rw_room (m_receiveWindow s)"
    and ok: "conv_ok h hp d s ch" and m: "is_entry hp m"
    and w: "WriteMessageIntoReceiveWindow m s ch = (r, s', ch')"
  shows "conv_ok h hp d s' ch'"
proof -
  note ring = session_invD(2) [OF inv]
  let ?s1 = "s\<lparr>m_receiveWindow := rw_scan (rw_store m (m_receiveWindow s))\<rparr>"
  have stored1: "conv_ok h hp d ?s1 ch" if "in_window m (m_receiveWindow s)"
    using ok receiver_ok_store [OF _ m ring room that, of d ?s1]
    by (simp add: conv_ok_def sender_ok_def)
  from ring w show ?thesis
  proof (cases rule: WriteMessageIntoReceiveWindow_cases)
    case (duplicate sent)
    show ?thesis by (rule conv_ok_SendAck [OF ok duplicate(3)])
  next
    case stored
    with stored1 show ?thesis by simp
  next
    case (stored_acked sent)
    show ?thesis by (rule conv_ok_SendAck [OF stored1 [OF stored_acked(1)] stored_acked(4)])
  qed (use ok in simp_all)
qed

subsection \<open>Handling a message of the peer\<close>

lemma history_ok_kind:
  assumes "history_ok h" and "is_entry h m"
  shows "messageId (header m) \<in> {1, 2} \<Longrightarrow> sequence (header m) = 1"
    and "sequence (header m) = 1 \<Longrightarrow> messageId (header m) \<in> {1, 2}"
    and "messageId (header m) \<in> {1, 2, 3, 4}"
proof -
  let ?k = "unat (sequence (header m)) - 1"
  have k: "?k < length h" "fst (h ! ?k) = messageId (header m)" "1 \<le> unat (sequence (header m))"
    using assms(2) is_entry_nth [OF assms(2)] by (auto simp: is_entry_def)
  then have in': "messageId (header m) \<in> (if ?k = 0 then {1, 2} else {3, 4})"
    using assms(1) by (metis history_ok_def)
  then show "messageId (header m) \<in> {1, 2, 3, 4}" by (auto split: if_splits)
  from in' k(3) show "messageId (header m) \<in> {1, 2} \<Longrightarrow> sequence (header m) = 1"
    by (auto simp: word_unat_eq_iff split: if_splits)
  from in' show "sequence (header m) = 1 \<Longrightarrow> messageId (header m) \<in> {1, 2}" by simp
qed

lemma conv_ok_reset:
  assumes ok: "conv_ok h hp d s ch" and hp: "history_ok hp" and m: "is_entry hp m"
    and seq: "sequence (header m) = 1" and fresh: "rw_fresh (m_receiveWindow s)" and d: "d = []"
  shows "conv_ok h hp d (reset_receive_window (sequence (header m)) s) ch"
proof -
  have "1 \<le> length hp" "fst (hp ! 0) = messageId (header m)"
    using m seq is_entry_nth [OF m] by (auto simp: is_entry_def)
  moreover have "messageId (header m) \<in> {1, 2}" by (rule history_ok_kind(2) [OF hp m seq])
  ultimately have "data_of (take 1 hp) = []"
    by (cases hp) (auto simp: data_of_def)
  with ok \<open>1 \<le> length hp\<close> fresh d show ?thesis
    by (simp add: conv_ok_def sender_ok_def receiver_ok_def reset_receive_window_def rw_fresh_def seq Let_def)
qed

lemma conv_ok_SynAck:
  assumes inv: "session_inv k s" and ok: "conv_ok h hp d s ch" and hp: "history_ok hp"
    and m: "is_entry hp m" "messageId (header m) = 2"
    and h: "HandleSynAckMessage m s ch = (s', ch')"
  shows "conv_ok h hp d s' ch'"
proof (cases "m_sessionState s = SynSent")
  case False
  with h conv_ok_Mark [OF inv ok] ok show ?thesis
    by (auto simp: HandleSynAckMessage_def intro!: conv_ok_UpdateSendWindowSize
        split: if_splits prod.splits)
next
  case True
  let ?pl = "decode_SynAckPayload (payload m)"
  obtain r s1 ch1 where mk: "MarkMessagesAsAcknowledged (ack_sequence ?pl) s ch = (r, s1, ch1)"
    by (metis prod_cases3)
  note spec = MarkMessagesAsAcknowledged_spec [OF session_invD(1) [OF inv] mk]
  have ok1: "conv_ok h hp d s1 ch1" by (rule conv_ok_Mark [OF inv ok mk])
  let ?s2 = "SetState Established (s1\<lparr>m_sessionVersion := ack_sessionVersion ?pl\<rparr>)"
  let ?s3 = "?s2\<lparr>m_sessionId := sessionId (header m),
       m_protocolVersion := (if ack_version ?pl \<noteq> 0 then ack_version ?pl
                             else m_minClientProtocolVersion ?s2)\<rparr>"
  have ok3: "conv_ok h hp d ?s3 ch1" by (rule conv_ok_frame [OF ok1]) simp_all
  have fresh: "rw_fresh (m_receiveWindow ?s3)" using session_invD(3) [OF inv] True by (simp add: spec)
  have seq: "sequence (header m) = 1" using history_ok_kind(1) [OF hp m(1)] m(2) by simp
  have d: "d = []" using ok True by (simp add: conv_ok_def)
  note ok4 = conv_ok_reset [OF ok3 hp m(1) seq fresh d]
  obtain b s5 ch5 where ack: "SendAckMessage (reset_receive_window (sequence (header m)) ?s3) ch1
      = (b, s5, ch5)" by (metis prod_cases3)
  have "s' = UpdateSendWindowSize m s5" "ch' = ch5"
    using h True mk ack by (auto simp: HandleSynAckMessage_def Let_def)
  with conv_ok_UpdateSendWindowSize [OF conv_ok_SendAck [OF ok4 ack]] show ?thesis by simp
qed

lemma conv_ok_Fin:
  assumes inv: "session_inv k s" and room: "rw_room (m_receiveWindow s)" and ok: "conv_ok h hp d s ch"
    and m: "is_entry hp m" and h: "HandleFinMessage m s ch = (s', ch')"
  shows "conv_ok h hp d s' ch'"
proof -
  obtain r s1 ch1 where w: "WriteMessageIntoReceiveWindow m s ch = (r, s1, ch1)" by (metis prod_cases3)
  have ok1: "conv_ok h hp d s1 ch1" by (rule conv_ok_WriteReceive [OF inv room ok m w])
  obtain b s2 ch2 where a: "SendAckMessage s1 ch1 = (b, s2, ch2)" by (metis prod_cases3)
  have ok2: "conv_ok h hp d s2 ch2" by (rule conv_ok_SendAck [OF ok1 a])
  from h w a ok ok1 ok2 show ?thesis
    by (auto simp: HandleFinMessage_def Let_def intro!: conv_ok_UpdateSendWindowSize conv_ok_SetState
        split: if_splits)
qed

lemma conv_ok_Data:
  assumes inv: "session_inv k s" and room: "rw_room (m_receiveWindow s)" and ok: "conv_ok h hp d s ch"
    and m: "is_entry hp m" and h: "HandleDataMessage m s ch = (s', ch')"
  shows "conv_ok h hp d s' ch'"
  using h ok conv_ok_WriteReceive [OF inv room ok m]
  by (auto simp: HandleDataMessage_def intro!: conv_ok_UpdateSendWindowSize split: if_splits prod.splits)

lemma conv_ok_Ack:
  assumes inv: "session_inv k s" and ok: "conv_ok h hp d s ch"
    and h: "HandleAckMessage m s ch = (s', ch')"
  shows "conv_ok h hp d s' ch'"
proof -
  have e: "session_inv k (SetState Established s)" "conv_ok h hp d (SetState Established s) ch"
    using session_inv_state [OF inv, of "SetState Established s"] conv_ok_SetState [OF ok, of Established]
    by simp_all
  from h ok conv_ok_Mark [OF inv ok] conv_ok_Mark [OF e] show ?thesis
    by (auto simp: HandleAckMessage_def intro!: conv_ok_UpdateSendWindowSize split: if_splits prod.splits)
qed

subsection \<open>Endpoints\<close>

text \<open>
  An endpoint: the session, its channel, the payloads \<^verbatim>\<open>Send\<close> accepted and those \<^verbatim>\<open>Receive\<close>
  returned.  The callbacks of the server do nothing inside \<^verbatim>\<open>HandleMessage\<close> and \<^verbatim>\<open>Update\<close>; what a
  server does with the session is the send and receive steps around them.
\<close>

record Endpoint =
  ep_session :: Session
  ep_channel :: Channel
  ep_sent :: "u8 list list"
  ep_received :: "u8 list list"

definition idle_server :: IProtocolServer where
  "idle_server = program_server 0 0 0 (\<lambda>_. True) 0 (\<lambda>_ _. None) (\<lambda>_ _. None) (\<lambda>_ _ _. None)"

lemma idle_server_ok: "protocol_server idle_server 0"
  unfolding idle_server_def by (rule program.protocol_server_axioms)

lemma idle_server_simps [simp]:
  "srv_SessionEstablished idle_server s ch = (s, ch)" "srv_UpdateSession idle_server s ch = (s, ch)"
  "srv_SessionTerminated idle_server r s ch = (s, ch)"
  by (simp_all add: idle_server_def program_server_def)

text \<open>
  The steps of an endpoint whose peer has put \<open>wire\<close> on the bus.  They stop when a sequence
  number would come to the end of the 64-bit range.
\<close>

definition in_range :: "Session \<Rightarrow> bool" where
  "in_range s \<longleftrightarrow> tw_headroom 1 s \<and> rw_room (m_receiveWindow s)"

inductive endpoint_step :: "MessageBuffer list \<Rightarrow> Endpoint \<Rightarrow> Endpoint \<Rightarrow> bool"
  for wire :: "MessageBuffer list" where
  send: "\<lbrakk>in_range (ep_session e); Session_Send n (Some bs) (ep_session e) = (r, s');
          length bs = unat n\<rbrakk>
     \<Longrightarrow> endpoint_step wire e (e\<lparr>ep_session := s',
           ep_sent := (if r = Success then ep_sent e @ [bs] else ep_sent e)\<rparr>)"
| receive: "\<lbrakk>in_range (ep_session e); Session_Receive n (ep_session e) = (r, out, s')\<rbrakk>
     \<Longrightarrow> endpoint_step wire e (e\<lparr>ep_session := s',
           ep_received := (case out of None \<Rightarrow> ep_received e | Some bs \<Rightarrow> ep_received e @ [bs])\<rparr>)"
| handle: "\<lbrakk>in_range (ep_session e); m \<in> set wire; messageId (header m) \<noteq> code_of_SessionMessage Syn;
            HandleMessage idle_server m (ep_session e) (ep_channel e) = (s', ch')\<rbrakk>
     \<Longrightarrow> endpoint_step wire e (e\<lparr>ep_session := s', ep_channel := ch'\<rparr>)"
| update: "\<lbrakk>in_range (ep_session e);
            Session_Update idle_server refCount (ep_session e) (ep_channel e) = Some (s', ch')\<rbrakk>
     \<Longrightarrow> endpoint_step wire e (e\<lparr>ep_session := s', ep_channel := ch'\<rparr>)"
| shutdown: "endpoint_step wire e (e\<lparr>ep_session := Shutdown r (ep_session e)\<rparr>)"

definition endpoint_inv :: "history \<Rightarrow> history \<Rightarrow> Endpoint \<Rightarrow> bool" where
  "endpoint_inv h hp e \<longleftrightarrow>
     session_inv 0 (ep_session e) \<and> conv_ok h hp (ep_received e) (ep_session e) (ep_channel e)
     \<and> history_ok h \<and> h \<noteq> [] \<and> ep_sent e = data_of h"

lemma history_ok_snoc: "history_ok h \<Longrightarrow> h \<noteq> [] \<Longrightarrow> fst x \<in> {3, 4} \<Longrightarrow> history_ok (h @ [x])"
  by (auto simp: history_ok_def nth_append less_Suc_eq)

lemma endpoint_send:
  assumes inv: "endpoint_inv h hp e" and range: "in_range (ep_session e)"
    and send: "Session_Send n (Some bs) (ep_session e) = (r, s')" and len: "length bs = unat n"
  shows "\<exists>x. endpoint_inv (h @ x) hp (e\<lparr>ep_session := s',
           ep_sent := (if r = Success then ep_sent e @ [bs] else ep_sent e)\<rparr>)"
proof -
  let ?s = "ep_session e"
  have room: "tw_headroom 1 ?s" using range by (simp add: in_range_def)
  have sinv: "session_inv 0 s'"
    using Session_Send_keeps [OF _ room send] inv by (auto simp: endpoint_inv_def dest: keeps_inv)
  consider (ok) "r = Success" "WriteMessageIntoSendWindow Data n (Some bs) ?s = (Success, s')"
    | (no) "r \<noteq> Success" "s' = ?s"
    using send by (auto simp: Session_Send_def split: if_splits elim: WriteMessageIntoSendWindow_cases)
  then show ?thesis
  proof cases
    case ok
    let ?h = "h @ [(code_of_SessionMessage Data, bs)]"
    have snd': "sender_ok ?h s' (ep_channel e)"
      using inv by (intro WriteSend_sender [OF _ room ok(2) len]) (simp add: endpoint_inv_def conv_ok_def)
    have rw: "m_receiveWindow s' = m_receiveWindow ?s" "m_sessionState s' = m_sessionState ?s"
      using ok(2) by (auto elim!: WriteMessageIntoSendWindow_cases)
    have "conv_ok ?h hp (ep_received e) s' (ep_channel e)"
      using inv snd' rw by (simp add: endpoint_inv_def conv_ok_def receiver_ok_def)
    moreover have "history_ok ?h" using inv by (intro history_ok_snoc) (auto simp: endpoint_inv_def)
    ultimately have "endpoint_inv ?h hp (e\<lparr>ep_session := s', ep_sent := ep_sent e @ [bs]\<rparr>)"
      using inv sinv by (simp add: endpoint_inv_def data_of_def)
    with ok(1) show ?thesis by auto
  next
    case no
    with inv have "endpoint_inv (h @ []) hp (e\<lparr>ep_session := s', ep_sent := ep_sent e\<rparr>)"
      by (simp add: endpoint_inv_def)
    with no(1) show ?thesis by (intro exI [of _ "[]"]) simp
  qed
qed

lemma receiver_ok_consume:
  assumes ok: "receiver_ok hp d s" and ring: "rw_ring (Suc k) rw"
    and rw: "rw_messages rw = rw_messages (m_receiveWindow s)" "rw_valid rw = rw_valid (m_receiveWindow s)"
      "rw_nextUnreadSequence rw = rw_nextUnreadSequence (m_receiveWindow s)"
    and s': "m_receiveWindow s' = rw_consume rw"
  shows "receiver_ok hp (d @ (if messageId (header (front_message s)) = code_of_SessionMessage Data
           then [bytes_at (unat (payloadSize (header (front_message s)))) (payload (front_message s))]
           else [])) s'"
proof -
  let ?q = "rw_nextUnreadSequence (m_receiveWindow s)" and ?m = "front_message s"
  have m: "is_entry hp ?m"
    using ok rw_front(1) [OF ring] by (simp add: receiver_ok_def Let_def front_message_def rw)
  have seq: "sequence (header ?m) = ?q"
    using rw_front(2) [OF ring] by (simp add: front_message_def rw)
  have k: "unat ?q - 1 < length hp" "1 \<le> unat ?q" using m seq by (auto simp: is_entry_def)
  have s1: "unat (?q + 1) = unat ?q + 1" using rw_consume_unread(1) [OF ring] by (simp add: rw)
  have "data_of (take (unat ?q) hp) = data_of (take (unat ?q - 1) hp)
      @ (if messageId (header ?m) = code_of_SessionMessage Data
         then [bytes_at (unat (payloadSize (header ?m))) (payload ?m)] else [])"
    using data_of_take_Suc [OF k(1)] k(2) is_entry_nth [OF m] by (simp add: seq)
  moreover have "rw_valid (rw_consume rw) i \<Longrightarrow> rw_valid (m_receiveWindow s) i" for i
    by (auto simp: rw_consume_def Let_def rw split: if_splits)
  moreover have "rw_messages (rw_consume rw) = rw_messages (m_receiveWindow s)"
    "rw_nextUnreadSequence (rw_consume rw) = ?q + 1"
    by (simp_all add: rw_consume_def Let_def rw)
  ultimately show ?thesis using ok k s1 by (auto simp: receiver_ok_def Let_def s')
qed

lemma endpoint_receive:
  assumes inv: "endpoint_inv h hp e"
    and rcv: "Session_Receive n (ep_session e) = (r, out, s')"
  shows "endpoint_inv h hp (e\<lparr>ep_session := s',
           ep_received := (case out of None \<Rightarrow> ep_received e | Some bs \<Rightarrow> ep_received e @ [bs])\<rparr>)"
proof -
  let ?s = "ep_session e"
  let ?rw = "m_receiveWindow ?s" and ?d = "ep_received e" and ?m = "front_message (ep_session e)"
  let ?rw1 = "?rw\<lparr>rw_semaphore := rw_semaphore ?rw - 1\<rparr>"
  have sinv: "session_inv 0 ?s" using inv by (simp add: endpoint_inv_def)
  have sinv': "session_inv 0 s'" by (rule keeps_inv [OF Session_Receive_keeps [OF sinv rcv]])
  have ok: "conv_ok h hp ?d ?s (ep_channel e)" using inv by (simp add: endpoint_inv_def)
  note eq = conjunct1 [OF Receive_in_order_eq [OF sinv, of n], unfolded rcv Let_def]
  have "conv_ok h hp (case out of None \<Rightarrow> ?d | Some bs \<Rightarrow> ?d @ [bs]) s' (ep_channel e)"
  proof (cases "out = None \<and> s' = ?s")
    case True
    with ok show ?thesis by simp
  next
    case False
    then have pend: "rw_nextExpectedSequence ?rw \<noteq> rw_nextUnreadSequence ?rw"
      "\<not> m_sessionState ?s < Established" "\<not> n < payloadSize (header ?m)"
      using eq by (auto split: if_splits)
    then have "0 < rw_semaphore ?rw"
      using rw_ringD(2,4) [OF session_invD(2) [OF sinv]] by (auto simp: word_unat_eq_iff)
    then have ring: "rw_ring (Suc 0) ?rw1" by (rule rw_ring_wait [OF session_invD(2) [OF sinv]])
    have rok: "receiver_ok hp ?d ?s" using ok by (simp add: conv_ok_def)
    have st: "m_sessionState ?s \<noteq> SynSent" using pend(2) by (auto simp: less_SessionState_def)
    show ?thesis
      using eq pend ok st receiver_ok_consume [OF rok ring, of s']
      by (auto simp: conv_ok_def sender_ok_def split: if_splits)
  qed
  with inv sinv' show ?thesis by (simp add: endpoint_inv_def)
qed

lemma HandleMessage_conv:
  assumes inv: "session_inv 0 s" and range: "in_range s" and ok: "conv_ok h hp d s ch"
    and hp: "history_ok hp" and m: "wire_ok hp m" and nosyn: "messageId (header m) \<noteq> 1"
    and hm: "HandleMessage idle_server m s ch = (s', ch')"
  shows "session_inv 0 s'" and "conv_ok h hp d s' ch'"
proof -
  have room: "rw_room (m_receiveWindow s)" using range by (simp add: in_range_def)
  have hr: "tw_headroom (1 + 0) s" using range by (simp add: in_range_def)
  show "session_inv 0 s'"
    by (rule keeps_inv [OF protocol_server.HandleMessage_keeps [OF idle_server_ok inv hr room _ hm]])
      (use nosyn in simp)
  obtain s1 ch1 where d: "(case SessionMessage_of (messageId (header m)) of
              Syn \<Rightarrow> (HandleSynMessage m s, ch)
            | SynAck \<Rightarrow> HandleSynAckMessage m s ch
            | Fin \<Rightarrow> HandleFinMessage m s ch
            | Data \<Rightarrow> HandleDataMessage m s ch
            | Ack \<Rightarrow> HandleAckMessage m s ch
            | Rst \<Rightarrow> (HandleRstMessage m s, ch)
            | _ \<Rightarrow> (s, ch)) = (s1, ch1)" by fastforce
  have entry: "is_entry hp m" if "messageId (header m) \<noteq> 0" "messageId (header m) \<noteq> 5"
    using m that by (simp add: wire_ok_def slot_ok_def)
  have "conv_ok h hp d s1 ch1"
  proof (cases "messageId (header m) = 0 \<or> messageId (header m) = 5")
    case True
    with d ok conv_ok_Ack [OF inv ok] show ?thesis by auto
  next
    case False
    then have e: "is_entry hp m" using entry by simp
    from history_ok_kind(3) [OF hp e] nosyn
    consider "messageId (header m) = 2" | "messageId (header m) = 3" | "messageId (header m) = 4" by auto
    then show ?thesis
    proof cases
      case 1
      with d conv_ok_SynAck [OF inv ok hp e 1] show ?thesis by simp
    next
      case 2
      with d conv_ok_Fin [OF inv room ok e] show ?thesis by simp
    next
      case 3
      with d conv_ok_Data [OF inv room ok e] show ?thesis by simp
    qed
  qed
  moreover have "(s', ch') \<in> {(s1, ch1), (s1\<lparr>m_connectionEvent := True\<rparr>, ch1),
      (s1\<lparr>m_callbackState := EstablishedCalled\<rparr>, ch1)}"
    using hm unfolding HandleMessage_def Let_def d prod.case
    by (auto split: if_splits SessionType.splits)
  ultimately show "conv_ok h hp d s' ch'" by auto
qed

lemma endpoint_handle:
  assumes "endpoint_inv h hp e" and "in_range (ep_session e)" and "history_ok hp" and "wire_ok hp m"
    and "messageId (header m) \<noteq> code_of_SessionMessage Syn"
    and "HandleMessage idle_server m (ep_session e) (ep_channel e) = (s', ch')"
  shows "endpoint_inv h hp (e\<lparr>ep_session := s', ep_channel := ch'\<rparr>)"
  using assms HandleMessage_conv [of "ep_session e" h hp "ep_received e" "ep_channel e" m s' ch']
  by (simp add: endpoint_inv_def)

text \<open>Only \<^verbatim>\<open>UpdateTimeout\<close> writes a packet during an update: the Fin.\<close>

lemma conv_ok_UpdateTimeout:
  assumes ok: "conv_ok h hp d s ch" and room: "tw_headroom 1 s"
  shows "\<exists>x. set x \<subseteq> {(code_of_SessionMessage Fin, [])} \<and> length x \<le> 1
     \<and> conv_ok (h @ x) hp d (UpdateTimeout s) ch"
proof -
  obtain r s0 where w: "WriteMessageIntoSendWindow Fin 0 None s = (r, s0)" by fastforce
  let ?x = "[(code_of_SessionMessage Fin, [])] :: history"
  have same: "m_receiveWindow s0 = m_receiveWindow s" "m_sessionState s0 = m_sessionState s"
    "r \<noteq> Success \<Longrightarrow> s0 = s"
    using w by (auto elim!: WriteMessageIntoSendWindow_cases)
  have "conv_ok (h @ ?x) hp d s0 ch" if "r = Success"
    using ok WriteSend_sender_empty [OF _ room w [unfolded that]] same
    by (simp add: conv_ok_def receiver_ok_def)
  then obtain x where x: "set x \<subseteq> {(code_of_SessionMessage Fin, [])}" "length x \<le> 1"
    and s0: "conv_ok (h @ x) hp d s0 ch" and x0: "r \<noteq> Success \<Longrightarrow> x = []"
    using same(3) ok that [of ?x] that [of "[]"] by (cases "r = Success") auto
  let ?s1 = "if m_sessionState s = FinWait1 then (if r = Success then SetState FinWait2 s0 else s0) else s"
  let ?y = "if m_sessionState s = FinWait1 then x else []"
  have ok1: "conv_ok (h @ ?y) hp d ?s1 ch" using ok s0 by (auto intro: conv_ok_SetState)
  let ?s2 = "if m_sessionState ?s1 = FinWait2 \<and> IsSendWindowEmpty ?s1 then SetState Closed ?s1 else ?s1"
  have ok2: "conv_ok (h @ ?y) hp d ?s2 ch" using conv_ok_SetState [OF ok1, of Closed] ok1 by simp
  have "UpdateTimeout s = ?s2 \<or> UpdateTimeout s = SetState Closed ?s2"
    unfolding UpdateTimeout_def Let_def w prod.case by simp
  with ok2 conv_ok_SetState [OF ok2, of Closed] have "conv_ok (h @ ?y) hp d (UpdateTimeout s) ch" by auto
  with x show ?thesis by (intro exI [of _ ?y]) auto
qed

lemma endpoint_update:
  assumes inv: "endpoint_inv h hp e" and range: "in_range (ep_session e)"
    and u: "Session_Update idle_server refCount (ep_session e) (ep_channel e) = Some (s', ch')"
  shows "\<exists>x. endpoint_inv (h @ x) hp (e\<lparr>ep_session := s', ep_channel := ch'\<rparr>)"
proof -
  let ?s = "ep_session e" and ?d = "ep_received e"
  have sinv: "session_inv 0 ?s" and ok: "conv_ok h hp ?d ?s (ep_channel e)"
    using inv by (simp_all add: endpoint_inv_def)
  have room: "tw_headroom (1 + 0 + 0) ?s" using range by (simp add: in_range_def)
  obtain s2' ch2' where "Session_Update idle_server refCount ?s (ep_channel e) = Some (s2', ch2')"
    "keeps (1 + 0 + 0) 0 ?s s2'"
    using protocol_server.Session_Update_keeps [OF idle_server_ok sinv room] by blast
  with u have sinv': "session_inv 0 s'" by (auto dest: keeps_inv)
  obtain s1 ch1 where u1: "UpdateReceiveWindow ?s (ep_channel e) = (s1, ch1)" by fastforce
  have k1: "keeps 0 0 ?s s1" by (rule UpdateReceiveWindow_keeps [OF sinv u1])
  have ok1: "conv_ok h hp ?d s1 ch1"
    using u1 ok conv_ok_SendAck [OF ok] by (auto simp: UpdateReceiveWindow_def split: if_splits prod.splits)
  obtain s2 ch2 where u2: "UpdateSendWindow s1 ch1 = Some (s2, ch2)" and f: "transmit_frame s1 s2"
    using UpdateSendWindow_spec [OF session_invD(1) [OF keeps_inv [OF k1]]] by blast
  have "sender_ok h s2 ch2" using ok1 by (intro UpdateSendWindow_sender [OF _ u2]) (simp add: conv_ok_def)
  with ok1 f have ok2: "conv_ok h hp ?d s2 ch2"
    by (auto simp: conv_ok_def transmit_frame_def receiver_ok_def)
  have "tw_headroom 1 s2"
    using room f k1 by (simp add: tw_headroom_def transmit_frame_def keeps_def)
  then obtain x where x: "set x \<subseteq> {(code_of_SessionMessage Fin, [])}" "length x \<le> 1"
    and ok3: "conv_ok (h @ x) hp ?d (UpdateTimeout s2) ch2"
    using conv_ok_UpdateTimeout [OF ok2] by blast
  have "conv_ok (h @ x) hp ?d s' ch'"
    using u u1 u2 ok3 conv_ok_Shutdown [OF ok3, of Success]
    by (auto simp: Session_Update_def Let_def split: if_splits)
  moreover have "history_ok (h @ x)" "data_of x = []"
  proof -
    from x(2) consider "x = []" | y where "x = [y]" by (cases x) auto
    then show "history_ok (h @ x)" using inv x(1)
      by cases (auto simp: endpoint_inv_def intro: history_ok_snoc)
    show "data_of x = []" using x(1) by (auto simp: data_of_def filter_empty_conv)
  qed
  ultimately show ?thesis using inv sinv' by (intro exI [of _ x]) (simp add: endpoint_inv_def)
qed

lemma endpoint_step_inv:
  assumes step: "endpoint_step wire e e'" and inv: "endpoint_inv h hp e" and hp: "history_ok hp"
    and wire: "\<And>m. m \<in> set wire \<Longrightarrow> wire_ok hp m"
  shows "\<exists>x. endpoint_inv (h @ x) hp e'"
  using step
proof cases
  case (send n bs r s')
  with endpoint_send [OF inv] show ?thesis by simp
next
  case (receive n r out s')
  with endpoint_receive [OF inv] show ?thesis by (intro exI [of _ "[]"]) simp
next
  case (handle m s' ch')
  with endpoint_handle [OF inv _ hp wire] show ?thesis by (intro exI [of _ "[]"]) simp
next
  case (update refCount s' ch')
  with endpoint_update [OF inv] show ?thesis by simp
next
  case (shutdown r)
  have "session_inv 0 (ep_session e)" using inv by (simp add: endpoint_inv_def)
  then have "session_inv 0 (Shutdown r (ep_session e))"
    by (rule keeps_inv [OF keeps_Shutdown [OF keeps_refl]])
  with inv conv_ok_Shutdown have "endpoint_inv h hp e'" by (simp add: endpoint_inv_def shutdown)
  then show ?thesis by (intro exI [of _ "[]"]) simp
qed

subsection \<open>The link\<close>

text \<open>
  A client that has called \<^verbatim>\<open>Connect\<close>, and the server session its Syn opens.  The server side comes
  into being as the session manager creates it: bound, then given the Syn.  Further copies of the
  Syn open other sessions and are not given to this one.
\<close>

record Link =
  lk_client :: Endpoint
  lk_server :: "Endpoint option"

definition wire_of :: "Endpoint option \<Rightarrow> MessageBuffer list" where
  "wire_of e = (case e of None \<Rightarrow> [] | Some e' \<Rightarrow> ch_wire (ep_channel e'))"

inductive link_start :: "Link \<Rightarrow> bool" where
  "\<lbrakk>ch_wire ch = []; Connect remote sid minV maxV (new_Session ch ClientType protocol name) = (Success, s)\<rbrakk>
   \<Longrightarrow> link_start \<lparr>lk_client = \<lparr>ep_session = s, ep_channel = ch, ep_sent = [], ep_received = []\<rparr>,
                   lk_server = None\<rparr>"

inductive link_step :: "Link \<Rightarrow> Link \<Rightarrow> bool" where
  client: "endpoint_step (wire_of (lk_server l)) (lk_client l) e'
     \<Longrightarrow> link_step l (l\<lparr>lk_client := e'\<rparr>)"
| server: "\<lbrakk>lk_server l = Some e; endpoint_step (ch_wire (ep_channel (lk_client l))) e e'\<rbrakk>
     \<Longrightarrow> link_step l (l\<lparr>lk_server := Some e'\<rparr>)"
| accept: "\<lbrakk>lk_server l = None; m \<in> set (ch_wire (ep_channel (lk_client l)));
            messageId (header m) = code_of_SessionMessage Syn; ch_wire ch = [];
            BindToServer idle_server (srcClientId (header m)) sv pv sid
              (new_Session ch ServerType protocol None) = (Success, s);
            HandleMessage idle_server m s ch = (s', ch')\<rbrakk>
     \<Longrightarrow> link_step l (l\<lparr>lk_server := Some \<lparr>ep_session = s', ep_channel = ch', ep_sent = [],
                                          ep_received = []\<rparr>\<rparr>)"

inductive link_reachable :: "Link \<Rightarrow> bool" where
  start: "link_start l \<Longrightarrow> link_reachable l"
| step: "link_reachable l \<Longrightarrow> link_step l l' \<Longrightarrow> link_reachable l'"

definition link_inv :: "history \<Rightarrow> history \<Rightarrow> Link \<Rightarrow> bool" where
  "link_inv hc hs l \<longleftrightarrow>
     endpoint_inv hc hs (lk_client l)
     \<and> (case lk_server l of None \<Rightarrow> hs = [] | Some e \<Rightarrow> endpoint_inv hs hc e)"

lemma endpoint_inv_extend: "endpoint_inv h hp e \<Longrightarrow> endpoint_inv h (hp @ x) e"
  by (auto simp: endpoint_inv_def conv_ok_def intro: receiver_ok_extend)

lemma endpoint_inv_wire: "endpoint_inv h hp e \<Longrightarrow> m \<in> set (ch_wire (ep_channel e)) \<Longrightarrow> wire_ok h m"
  by (simp add: endpoint_inv_def conv_ok_def sender_ok_def)

lemma new_Session_sender: "ch_wire ch = [] \<Longrightarrow> sender_ok [] (new_Session ch type protocol name) ch"
  by (simp add: sender_ok_def new_Session_def new_TransmitWindow_def slot_ok_def zero_message_def
      zero_header_def)

lemma new_Session_receiver: "receiver_ok hp [] (new_Session ch type protocol name)"
  by (simp add: receiver_ok_def new_Session_def new_ReceiveWindow_def data_of_def Let_def)

lemma link_start_inv:
  assumes "link_start l"
  shows "\<exists>hc. link_inv hc [] l"
  using assms
proof cases
  case (1 ch remote sid minV maxV protocol name s)
  let ?s0 = "new_Session ch ClientType protocol name"
  let ?s1 = "?s0\<lparr>m_remoteClientId := remote, m_sessionId := sid, m_minClientProtocolVersion := minV\<rparr>"
  let ?pl = "encode_SynPayload \<lparr>minVersion = minV, syn_protocol = m_protocol ?s0,
               syn_sessionVersion = m_sessionVersion ?s0, maxVersion = maxV\<rparr>"
  have room: "tw_headroom 1 ?s0" "tw_headroom 1 ?s1"
    by (simp_all add: tw_headroom_def new_Session_def new_TransmitWindow_def)
  have fresh: "rw_fresh (m_receiveWindow ?s0)" by (simp add: new_Session_def rw_fresh_new)
  have sinv: "session_inv 0 s"
    by (rule keeps_inv [OF Connect_keeps [OF session_inv_new fresh room(1) 1(3)]])
  obtain s2 where w: "WriteMessageIntoSendWindow Syn (word_of_nat sizeof_SynPayload) (Some ?pl) ?s1 = (Success, s2)"
    and s: "s = SetState SynSent s2"
    using 1(3) by (auto simp: Connect_def Let_def split: if_splits prod.splits)
  have "sender_ok [] ?s1 ch"
    by (rule sender_ok_cong [OF new_Session_sender [OF 1(2)]]) simp_all
  then have "sender_ok ([] @ [(code_of_SessionMessage Syn, ?pl)]) s2 ch"
    by (rule WriteSend_sender [OF _ room(2) w]) (simp add: length_encode_SynPayload sizeof_SynPayload_def)
  then have snd': "sender_ok [(1, ?pl)] s ch" by (simp add: s sender_ok_def)
  have rw: "m_receiveWindow s2 = m_receiveWindow ?s0"
    using w by (cases rule: WriteMessageIntoSendWindow_cases) simp_all
  have "receiver_ok [] [] s"
    by (rule receiver_ok_cong [OF new_Session_receiver [of _ ch ClientType protocol name]]) (simp_all add: s rw)
  with snd' have "conv_ok [(1, ?pl)] [] [] s ch" by (simp add: conv_ok_def s)
  then have "link_inv [(1, ?pl)] [] l"
    using sinv by (simp add: link_inv_def endpoint_inv_def 1(1) history_ok_def data_of_def)
  then show ?thesis by blast
qed

lemma accept_inv:
  assumes m: "wire_ok hc m" "history_ok hc" "messageId (header m) = 1" and wire: "ch_wire ch = []"
    and bind: "BindToServer idle_server remote sv pv sid (new_Session ch ServerType protocol None)
               = (Success, s)"
    and h: "HandleMessage idle_server m s ch = (s', ch')"
  shows "\<exists>hs. endpoint_inv hs hc \<lparr>ep_session = s', ep_channel = ch', ep_sent = [], ep_received = []\<rparr>"
proof -
  let ?s0 = "new_Session ch ServerType protocol None"
  have s: "m_sendWindow s = new_TransmitWindow" "m_receiveWindow s = new_ReceiveWindow"
    "m_sessionState s = Listening"
    using bind by (auto simp: BindToServer_def new_Session_def split: if_splits)
  have sinv: "session_inv 0 s" by (simp add: session_inv_def s tw_inv_new rw_ring_new rw_fresh_new)
  have room: "tw_headroom 1 s" by (simp add: tw_headroom_def s new_TransmitWindow_def)
  have e: "is_entry hc m" using m by (simp add: wire_ok_def slot_ok_def)
  have seq: "sequence (header m) = 1" using history_ok_kind(1) [OF m(2) e] m(3) by simp
  let ?pl = "encode_SynAckPayload \<lparr>ack_sequence = sequence (header m), initialSessionId = sessionId (header m),
                ack_version = m_protocolVersion s, ack_sessionVersion = m_sessionVersion s\<rparr>"
  obtain r s1 where w: "WriteMessageIntoSendWindow SynAck (word_of_nat sizeof_SynAckPayload) (Some ?pl) s = (r, s1)"
    by fastforce
  have r: "r = Success"
    using w by (cases rule: WriteMessageIntoSendWindow_cases)
      (simp_all add: s new_TransmitWindow_def kDefaultWindowSize_def msg_size_defs sizeof_SynAckPayload_def)
  let ?s2 = "SetState SynReceived s1"
  let ?hs = "[(2, ?pl)] :: history"
  have rw: "m_receiveWindow s1 = new_ReceiveWindow"
    using w by (cases rule: WriteMessageIntoSendWindow_cases) (simp_all add: s)
  have "sender_ok [] s ch"
    using new_Session_sender [OF wire, of ServerType protocol None]
    by (simp add: sender_ok_def s new_Session_def)
  then have "sender_ok ([] @ [(code_of_SessionMessage SynAck, ?pl)]) s1 ch"
    by (rule WriteSend_sender [OF _ room w [unfolded r]])
      (simp add: length_encode_SynAckPayload sizeof_SynAckPayload_def)
  then have "conv_ok ?hs hc [] ?s2 ch"
    using new_Session_receiver [of hc ch ServerType protocol None]
    by (simp add: conv_ok_def sender_ok_def receiver_ok_def rw new_Session_def)
  from conv_ok_reset [OF this m(2) e seq] have ok: "conv_ok ?hs hc [] (reset_receive_window 1 ?s2) ch"
    by (simp add: rw rw_fresh_new seq)
  have syn: "HandleSynMessage m s = reset_receive_window 1 ?s2"
    by (simp add: HandleSynMessage_def Let_def w [unfolded r seq] seq)
  have "s' = reset_receive_window 1 ?s2" "ch' = ch"
    using h by (simp_all add: HandleMessage_def m(3) syn Let_def)
  with ok HandleSynMessage_keeps [OF sinv room s(3), of m] syn
  have "endpoint_inv ?hs hc \<lparr>ep_session = s', ep_channel = ch', ep_sent = [], ep_received = []\<rparr>"
    by (auto simp: endpoint_inv_def history_ok_def data_of_def dest: keeps_inv)
  then show ?thesis by blast
qed

lemma link_step_inv:
  assumes "link_step l l'" and inv: "link_inv hc hs l"
  shows "\<exists>hc' hs'. link_inv hc' hs' l'"
proof -
  have c: "endpoint_inv hc hs (lk_client l)" using inv by (simp add: link_inv_def)
  then have hc: "history_ok hc" by (simp add: endpoint_inv_def)
  have hs: "history_ok hs"
    using inv by (auto simp: link_inv_def endpoint_inv_def history_ok_def split: option.splits)
  show ?thesis
    using assms(1)
  proof cases
    case (client e')
    have "\<And>m. m \<in> set (wire_of (lk_server l)) \<Longrightarrow> wire_ok hs m"
      using inv by (auto simp: link_inv_def wire_of_def dest: endpoint_inv_wire split: option.splits)
    from endpoint_step_inv [OF client(2) c hs this] obtain x where "endpoint_inv (hc @ x) hs e'" by blast
    then have "link_inv (hc @ x) hs l'"
      using inv by (auto simp: link_inv_def client(1) intro: endpoint_inv_extend split: option.splits)
    then show ?thesis by blast
  next
    case (server e e')
    have e: "endpoint_inv hs hc e" using inv server(2) by (simp add: link_inv_def)
    from endpoint_step_inv [OF server(3) e hc endpoint_inv_wire [OF c]]
    obtain x where "endpoint_inv (hs @ x) hc e'" by blast
    then have "link_inv hc (hs @ x) l'"
      using endpoint_inv_extend [OF c] by (simp add: link_inv_def server(1))
    then show ?thesis by blast
  next
    case (accept m ch sv pv sid protocol s s' ch')
    have "wire_ok hc m" by (rule endpoint_inv_wire [OF c accept(3)])
    from accept_inv [OF this hc _ accept(5,6,7)] accept(4) obtain hs' where
      "endpoint_inv hs' hc \<lparr>ep_session = s', ep_channel = ch', ep_sent = [], ep_received = []\<rparr>" by auto
    moreover have "endpoint_inv hc ([] @ hs') (lk_client l)"
      using inv accept(2) by (intro endpoint_inv_extend) (auto simp: link_inv_def)
    ultimately have "link_inv hc hs' l'" by (simp add: link_inv_def accept(1))
    then show ?thesis by blast
  qed
qed

lemma link_reachable_inv: "link_reachable l \<Longrightarrow> \<exists>hc hs. link_inv hc hs l"
proof (induction rule: link_reachable.induct)
  case (start l)
  then show ?case using link_start_inv by blast
next
  case (step l l')
  then show ?case using link_step_inv by blast
qed

lemma conv_prefix:
  assumes "endpoint_inv h hp e" and "conv_ok hp' h d s ch"
  shows "prefix d (ep_sent e)"
proof -
  obtain k where "d = data_of (take k h)"
    using assms(2) by (auto simp: conv_ok_def receiver_ok_def Let_def)
  moreover have "ep_sent e = data_of (take k h) @ data_of (drop k h)"
    using assms(1) by (simp add: endpoint_inv_def flip: data_of_append)
  ultimately show ?thesis by (simp add: prefix_def)
qed

text \<open>C1.
  End-to-end delivery.  In every reachable state of the two sessions over a bus that loses,
  duplicates and reorders, the payloads returned by \<^verbatim>\<open>Receive\<close> at the server are a prefix of those
  accepted by \<^verbatim>\<open>Send\<close> at the client, and the other way round: each payload is delivered at most
  once, unaltered, in order and without gaps.
\<close>

theorem link_delivers_in_order:
  assumes "link_reachable l" and "lk_server l = Some e"
  shows "prefix (ep_received e) (ep_sent (lk_client l))
       \<and> prefix (ep_received (lk_client l)) (ep_sent e)"
proof -
  obtain hc hs where "link_inv hc hs l" using link_reachable_inv [OF assms(1)] by blast
  then have c: "endpoint_inv hc hs (lk_client l)" and s: "endpoint_inv hs hc e"
    using assms(2) by (simp_all add: link_inv_def)
  from c have c2: "conv_ok hc hs (ep_received (lk_client l)) (ep_session (lk_client l)) (ep_channel (lk_client l))"
    by (simp add: endpoint_inv_def)
  from s have s2: "conv_ok hs hc (ep_received e) (ep_session e) (ep_channel e)"
    by (simp add: endpoint_inv_def)
  from conv_prefix [OF c s2] conv_prefix [OF s c2] show ?thesis by blast
qed

subsection \<open>A run of the link\<close>

text \<open>The steps as functions, to run the link on a concrete input.\<close>

definition do_update :: "Endpoint \<Rightarrow> Endpoint" where
  "do_update e = (case Session_Update idle_server 2 (ep_session e) (ep_channel e) of
     Some (s', ch') \<Rightarrow> e\<lparr>ep_session := s', ep_channel := ch'\<rparr> | None \<Rightarrow> e)"

definition do_handle :: "MessageBuffer \<Rightarrow> Endpoint \<Rightarrow> Endpoint" where
  "do_handle m e = (let (s', ch') = HandleMessage idle_server m (ep_session e) (ep_channel e)
     in e\<lparr>ep_session := s', ep_channel := ch'\<rparr>)"

definition do_send :: "u8 list \<Rightarrow> Endpoint \<Rightarrow> Endpoint" where
  "do_send bs e = (let (r, s') = Session_Send (word_of_nat (length bs)) (Some bs) (ep_session e)
     in e\<lparr>ep_session := s', ep_sent := (if r = Success then ep_sent e @ [bs] else ep_sent e)\<rparr>)"

definition do_receive :: "Endpoint \<Rightarrow> Endpoint" where
  "do_receive e = (let (r, out, s') = Session_Receive 64 (ep_session e)
     in e\<lparr>ep_session := s', ep_received := (case out of None \<Rightarrow> ep_received e | Some bs \<Rightarrow> ep_received e @ [bs])\<rparr>)"

definition low_numbers :: "Session \<Rightarrow> bool" where
  "low_numbers s \<longleftrightarrow> tw_nextSequence (m_sendWindow s) < 1000
     \<and> rw_nextUnreadSequence (m_receiveWindow s) < 1000"

lemma in_range_low: "low_numbers s \<Longrightarrow> in_range s"
  by (simp add: low_numbers_def in_range_def tw_headroom_def rw_room_def word_less_nat_alt)

lemma do_steps:
  assumes "low_numbers (ep_session e)"
  shows "session_inv 0 (ep_session e) \<Longrightarrow> endpoint_step wire e (do_update e)"
    and "m \<in> set wire \<Longrightarrow> messageId (header m) \<noteq> 1 \<Longrightarrow> endpoint_step wire e (do_handle m e)"
    and "length bs < 2 ^ 32 \<Longrightarrow> endpoint_step wire e (do_send bs e)"
    and "endpoint_step wire e (do_receive e)"
proof -
  note range = in_range_low [OF assms]
  show "endpoint_step wire e (do_update e)" if sinv: "session_inv 0 (ep_session e)"
  proof -
    have room: "tw_headroom (1 + 0 + 0) (ep_session e)" using range by (simp add: in_range_def)
    obtain s' ch' where "Session_Update idle_server 2 (ep_session e) (ep_channel e) = Some (s', ch')"
      using protocol_server.Session_Update_keeps [OF idle_server_ok sinv room] by blast
    with endpoint_step.update [OF range] show ?thesis by (simp add: do_update_def)
  qed
  show "endpoint_step wire e (do_handle m e)" if "m \<in> set wire" "messageId (header m) \<noteq> 1"
    using endpoint_step.handle [OF range that(1) _ prod.collapse [symmetric]] that(2)
    by (simp add: do_handle_def case_prod_unfold Let_def)
  show "endpoint_step wire e (do_send bs e)" if "length bs < 2 ^ 32"
    using endpoint_step.send [OF range prod.collapse [symmetric], of bs "word_of_nat (length bs)"] that
    by (simp add: do_send_def case_prod_unfold unat_of_nat Let_def)
  obtain r out s' where "Session_Receive 64 (ep_session e) = (r, out, s')" by (metis prod_cases3)
  with endpoint_step.receive [OF range] show "endpoint_step wire e (do_receive e)"
    by (simp add: do_receive_def)
qed

definition client0 :: Endpoint where
  "client0 = \<lparr>ep_session = snd (Connect 9 1 1 4 (new_Session sample_channel ClientType 3 None)),
              ep_channel = sample_channel, ep_sent = [], ep_received = []\<rparr>"

definition client1 :: Endpoint where "client1 = do_update client0"

definition the_syn :: MessageBuffer where "the_syn = hd (ch_wire (ep_channel client1))"

definition bound :: Session where
  "bound = snd (BindToServer idle_server (srcClientId (header the_syn)) 2 4 65537
     (new_Session sample_channel ServerType 3 None))"

definition server1 :: Endpoint where
  "server1 = (let (s', ch') = HandleMessage idle_server the_syn bound sample_channel
     in \<lparr>ep_session = s', ep_channel = ch', ep_sent = [], ep_received = []\<rparr>)"

definition server2 :: Endpoint where "server2 = do_update server1"
definition client2 :: Endpoint where "client2 = do_handle (last (ch_wire (ep_channel server2))) client1"
definition client3 :: Endpoint where "client3 = do_send [1, 2, 3] client2"
definition client4 :: Endpoint where "client4 = do_update client3"
definition server3 :: Endpoint where "server3 = do_handle (ch_wire (ep_channel client4) ! 1) server2"
definition server4 :: Endpoint where "server4 = do_handle (ch_wire (ep_channel client4) ! 2) server3"
definition server5 :: Endpoint where "server5 = do_receive server4"

lemma run_kinds:
  "map (\<lambda>m. messageId (header m)) (ch_wire (ep_channel client1)) = [1]"
  "map (\<lambda>m. messageId (header m)) (ch_wire (ep_channel server2)) = [2]"
  "map (\<lambda>m. messageId (header m)) (ch_wire (ep_channel client4)) = [1, 5, 4]"
  "ep_received server5 = [[1, 2, 3]]"
  by code_simp+

lemma run_low:
  "low_numbers (ep_session client0)" "low_numbers (ep_session client1)"
  "low_numbers (ep_session client2)" "low_numbers (ep_session client3)"
  "low_numbers (ep_session server1)" "low_numbers (ep_session server2)"
  "low_numbers (ep_session server3)" "low_numbers (ep_session server4)"
  by code_simp+

lemma link_reachable_sessions:
  assumes "link_reachable l"
  shows "session_inv 0 (ep_session (lk_client l))"
    and "lk_server l = Some e \<Longrightarrow> session_inv 0 (ep_session e)"
  using link_reachable_inv [OF assms] by (auto simp: link_inv_def endpoint_inv_def)

abbreviation (input) link_of :: "Endpoint \<Rightarrow> Endpoint option \<Rightarrow> Link" where
  "link_of c s \<equiv> \<lparr>lk_client = c, lk_server = s\<rparr>"

lemma client_moves:
  "link_reachable (link_of c s) \<Longrightarrow> endpoint_step (wire_of s) c c' \<Longrightarrow> link_reachable (link_of c' s)"
  using link_reachable.step [OF _ link_step.client, of "link_of c s" c'] by simp

lemma server_moves:
  "link_reachable (link_of c (Some s)) \<Longrightarrow> endpoint_step (ch_wire (ep_channel c)) s s'
   \<Longrightarrow> link_reachable (link_of c (Some s'))"
  using link_reachable.step [OF _ link_step.server, of "link_of c (Some s)" s s'] by simp

lemma run_start: "link_reachable (link_of client0 None)"
proof -
  have "fst (Connect 9 1 1 4 (new_Session sample_channel ClientType 3 None)) = Success" by code_simp
  then have "Connect 9 1 1 4 (new_Session sample_channel ClientType 3 None)
      = (Success, ep_session client0)" by (simp add: client0_def prod_eq_iff)
  from link_start.intros [OF _ this] have "link_start (link_of client0 None)"
    by (simp add: client0_def sample_channel_def)
  then show ?thesis by (rule link_reachable.start)
qed

lemma map_singleton: "map f xs = [y] \<Longrightarrow> xs = [hd xs] \<and> f (hd xs) = y"
  by (cases xs) auto

lemma run_accept: "link_reachable (link_of client1 (Some server1))"
proof -
  have "link_reachable (link_of client1 None)"
    using client_moves [OF run_start do_steps(1) [OF run_low(1)]] link_reachable_sessions(1) [OF run_start]
    by (simp add: client1_def)
  moreover have syn: "the_syn \<in> set (ch_wire (ep_channel client1))" "messageId (header the_syn) = 1"
    using map_singleton [OF run_kinds(1)] by (metis list.set_intros(1) the_syn_def)+
  moreover have "fst (BindToServer idle_server (srcClientId (header the_syn)) 2 4 65537
      (new_Session sample_channel ServerType 3 None)) = Success" by code_simp
  then have bind: "BindToServer idle_server (srcClientId (header the_syn)) 2 4 65537
      (new_Session sample_channel ServerType 3 None) = (Success, bound)"
    by (simp add: bound_def prod_eq_iff)
  obtain s' ch' where h: "HandleMessage idle_server the_syn bound sample_channel = (s', ch')" by fastforce
  ultimately show ?thesis
    using link_step.accept [of "link_of client1 None" the_syn sample_channel, OF _ _ _ _ bind h]
    by (auto simp: server1_def sample_channel_def intro: link_reachable.step)
qed

lemma run_delivers: "link_reachable (link_of client4 (Some server5))"
proof -
  have r2: "link_reachable (link_of client1 (Some server2))"
    using server_moves [OF run_accept do_steps(1) [OF run_low(5)]] link_reachable_sessions(2) [OF run_accept]
    by (simp add: server2_def)
  have w2: "last (ch_wire (ep_channel server2)) \<in> set (ch_wire (ep_channel server2))"
    "messageId (header (last (ch_wire (ep_channel server2)))) = 2"
    using map_singleton [OF run_kinds(2)] by (metis last.simps list.set_intros(1))+
  have r3: "link_reachable (link_of client2 (Some server2))"
    using client_moves [OF r2, of client2] do_steps(2) [OF run_low(2), OF w2(1)] w2
    by (simp add: client2_def wire_of_def)
  have r4: "link_reachable (link_of client3 (Some server2))"
    using client_moves [OF r3 do_steps(3) [OF run_low(3)]] by (simp add: client3_def)
  have r5: "link_reachable (link_of client4 (Some server2))"
    using client_moves [OF r4 do_steps(1) [OF run_low(4)]] link_reachable_sessions(1) [OF r4]
    by (simp add: client4_def)
  let ?w = "ch_wire (ep_channel client4)"
  have len: "length ?w = 3" using arg_cong [OF run_kinds(3), of length] by simp
  have ids: "messageId (header (?w ! 1)) = 5" "messageId (header (?w ! 2)) = 4"
    using arg_cong [OF run_kinds(3), of "\<lambda>x. x ! 1"] arg_cong [OF run_kinds(3), of "\<lambda>x. x ! 2"] len
    by simp_all
  have r6: "link_reachable (link_of client4 (Some server3))"
    using server_moves [OF r5 do_steps(2) [OF run_low(6)], of "?w ! 1"] ids len by (simp add: server3_def)
  have r7: "link_reachable (link_of client4 (Some server4))"
    using server_moves [OF r6 do_steps(2) [OF run_low(7)], of "?w ! 2"] ids len by (simp add: server4_def)
  show ?thesis using server_moves [OF r7 do_steps(4) [OF run_low(8)]] by (simp add: server5_def)
qed

theorem link_delivers_in_order_witness:
  "link_reachable (link_of client4 (Some server5)) \<and> ep_received server5 = [[1, 2, 3]]
   \<and> prefix (ep_received server5) (ep_sent client4)"
  using link_delivers_in_order [OF run_delivers] run_delivers run_kinds(4) by simp

end
