(* ===== verification/Session_Life.thy ===== *)
theory Session_Life
  imports Session_Theorems
begin

text \<open>
  The life of a session as its manager sees it: what no operation changes (type, protocol, remote
  client), when a session still needs its protocol server, and that a session which no longer
  needs it never needs it again.  The contract \<open>session_server\<close> adds to \<open>protocol_server\<close> that
  a callback only does what the session interface allows.
\<close>

definition kind :: "Session \<Rightarrow> SessionType \<times> Protocol \<times> ClientId" where
  "kind s = (m_sessionType s, m_protocol s, m_remoteClientId s)"

lemma SetState_kind [simp]: "kind (SetState x s) = kind s"
  by (simp add: kind_def SetState_def)

lemma Shutdown_kind [simp]: "kind (Shutdown r s) = kind s"
  by (simp add: kind_def Shutdown_def SetState_def Let_def)

lemma UpdateSendWindowSize_kind [simp]:
  "kind (UpdateSendWindowSize m s) = kind s"
  "m_callbackState (UpdateSendWindowSize m s) = m_callbackState s"
  by (simp_all add: kind_def UpdateSendWindowSize_def)

lemma reset_receive_window_kind [simp]:
  "kind (reset_receive_window q s) = kind s"
  "m_callbackState (reset_receive_window q s) = m_callbackState s"
  by (simp_all add: kind_def reset_receive_window_def)

lemma kind_upd [simp]:
  "kind (s\<lparr>m_sendWindow := w\<rparr>) = kind s" "kind (s\<lparr>m_receiveWindow := r\<rparr>) = kind s"
  "kind (s\<lparr>m_connectionEvent := b\<rparr>) = kind s" "kind (s\<lparr>m_disconnectionEvent := b\<rparr>) = kind s"
  "kind (s\<lparr>m_callbackState := c\<rparr>) = kind s" "kind (s\<lparr>m_sessionTerminationReason := rr\<rparr>) = kind s"
  "kind (s\<lparr>m_sessionVersion := sv\<rparr>) = kind s" "kind (s\<lparr>m_sessionId := i\<rparr>) = kind s"
  "kind (s\<lparr>m_protocolVersion := pv\<rparr>) = kind s" "kind (s\<lparr>m_pSessionUserdata := u\<rparr>) = kind s"
  by (simp_all add: kind_def)

subsection \<open>Operations that leave the state alone or close the session\<close>

definition quiet :: "Session \<Rightarrow> Session \<Rightarrow> bool" where
  "quiet s s' \<longleftrightarrow> kind s' = kind s \<and> m_callbackState s' = m_callbackState s
     \<and> (m_sessionState s' = m_sessionState s \<or> m_sessionState s' = Closed)"

lemma quiet_refl [simp]: "quiet s s"
  by (simp add: quiet_def)

lemma quiet_trans: "quiet a b \<Longrightarrow> quiet b c \<Longrightarrow> quiet a c"
  by (auto simp: quiet_def)

lemma quiet_windows [simp]:
  "quiet (s\<lparr>m_sendWindow := w\<rparr>) s' = quiet s s'" "quiet s (s'\<lparr>m_sendWindow := w\<rparr>) = quiet s s'"
  "quiet (s\<lparr>m_receiveWindow := r\<rparr>) s' = quiet s s'" "quiet s (s'\<lparr>m_receiveWindow := r\<rparr>) = quiet s s'"
  "quiet s (UpdateSendWindowSize m s') = quiet s s'"
  by (simp_all add: quiet_def)

lemma quiet_Closed [simp]: "quiet s s' \<Longrightarrow> quiet s (SetState Closed s')" 
  by (simp add: quiet_def)

lemma quiet_Shutdown: "r \<noteq> Success \<Longrightarrow> quiet s s' \<Longrightarrow> quiet s (Shutdown r s')"
  by (simp add: quiet_def Shutdown_state)

lemma quiet_SendOrClose: "SendOrClose m s ch = (b, s', ch') \<Longrightarrow> quiet s s'"
  by (erule SendOrClose_cases) (simp_all add: quiet_Shutdown)

lemma quiet_SendAck: "SendAckMessage s ch = (b, s', ch') \<Longrightarrow> quiet s s'"
  unfolding SendAckMessage_def SendControlMessage_def Let_def by (drule quiet_SendOrClose) simp

lemma quiet_Mark:
  assumes "MarkMessagesAsAcknowledged q s ch = (r, s', ch')"
  shows "quiet s s'"
  using assms
proof (cases rule: MarkMessagesAsAcknowledged_cases)
  case (fast i m tw tw' sent s1)
  from quiet_SendOrClose [OF fast(2)] fast(3) show ?thesis by simp
qed simp

lemma quiet_WriteReceive:
  assumes "rw_ring k (m_receiveWindow s)" and "WriteMessageIntoReceiveWindow m s ch = (r, s', ch')"
  shows "quiet s s'"
  using assms by (cases rule: WriteMessageIntoReceiveWindow_cases) (auto dest: quiet_SendAck)

lemma quiet_WriteSend:
  assumes "WriteMessageIntoSendWindow msg n pl s = (r, s')"
  shows "kind s' = kind s" "m_callbackState s' = m_callbackState s" "m_sessionState s' = m_sessionState s"
  using assms by (cases rule: WriteMessageIntoSendWindow_cases, simp_all)+

lemma quiet_UpdateReceiveWindow: "UpdateReceiveWindow s ch = (s', ch') \<Longrightarrow> quiet s s'"
  by (auto simp: UpdateReceiveWindow_def dest: quiet_SendAck split: if_splits prod.splits)

lemma quiet_resend_loop:
  "resend_loop timeout now seq count s ch = (count', s', ch') \<Longrightarrow> quiet s s'"
proof (induction timeout now seq count s ch arbitrary: count' s' ch' rule: resend_loop.induct)
  case (1 timeout now seq count s ch)
  let ?tw = "m_sendWindow s"
  let ?m = "(tw_messages ?tw (slot seq))\<lparr>header := (header (tw_messages ?tw (slot seq)))
              \<lparr>windowSize := rw_currentAvailableSize (m_receiveWindow s)\<rparr>\<rparr>"
  let ?s1 = "s\<lparr>m_sendWindow := ?tw\<lparr>tw_messages := (tw_messages ?tw)(slot seq := ?m)\<rparr>\<rparr>"
  show ?case
  proof (cases "seq \<le> tw_lastSentSequence ?tw
      \<and> \<not> now - tw_initialTransmitTimeInMs ?tw (slot seq) \<le> timeout")
    case False
    then have "resend_loop timeout now seq count s ch = (count, s, ch)"
      by (subst resend_loop.simps) (auto simp: Let_def)
    with "1.prems" show ?thesis by simp
  next
    case True
    obtain sent s2 ch2 where send: "SendOrClose ?m ?s1 ch = (sent, s2, ch2)" by (metis prod_cases3)
    have q: "quiet s s2" using quiet_SendOrClose [OF send] by simp
    have un: "resend_loop timeout now seq count s ch =
        (if \<not> sent then (count, s2, ch2)
         else if seq = - 1 then (count + 1, s2, ch2)
         else resend_loop timeout now (seq + 1) (count + 1) s2 ch2)"
      using True by (subst resend_loop.simps) (simp add: Let_def send)
    show ?thesis
    proof (cases "sent \<and> seq \<noteq> - 1")
      case False
      with un "1.prems" q show ?thesis by (auto split: if_splits)
    next
      case go: True
      with un "1.prems" have "resend_loop timeout now (seq + 1) (count + 1) s2 ch2 = (count', s', ch')" by simp
      from "1.IH" [OF refl refl _ _ refl refl refl refl send [symmetric] refl _ _ this] True go
      have "quiet s2 s'" by simp
      with q show ?thesis by (rule quiet_trans)
    qed
  qed
qed

lemma quiet_transmit_one: "transmit_one seq s ch = (go, s', ch') \<Longrightarrow> quiet s s'"
  by (auto simp: transmit_one_def Let_def quiet_Shutdown split: prod.splits if_splits)

lemma quiet_transmit_loop: "transmit_loop seq s ch = Some (s', ch') \<Longrightarrow> quiet s s'"
proof (induction seq s ch rule: transmit_loop.induct)
  case (1 seq s ch)
  obtain go s1 ch1 where one: "transmit_one seq s ch = (go, s1, ch1)" by (metis prod_cases3)
  note q = quiet_transmit_one [OF one]
  let ?tw = "m_sendWindow s"
  show ?case
  proof (cases "(seq < tw_nextSequence ?tw \<and> 0 < tw_lastAvailableSize ?tw)
      \<and> (tw_valid ?tw (slot seq) \<and> seq = tw_sequence ?tw (slot seq)) \<and> go")
    case True
    then have "transmit_loop (seq + 1) s1 ch1 = Some (s', ch')"
      using "1.prems" one by (subst (asm) transmit_loop.simps) (simp add: Let_def)
    with "1.IH" [OF refl _ _ one [symmetric] _ refl] True have "quiet s1 s'" by simp
    with q show ?thesis by (rule quiet_trans)
  next
    case False
    then have "(s', ch') \<in> {(s, ch), (s1, ch1)}"
      using "1.prems" one by (subst (asm) transmit_loop.simps) (auto simp: Let_def split: if_splits)
    with q show ?thesis by auto
  qed
qed

lemma quiet_UpdateSendWindow:
  assumes "UpdateSendWindow s ch = Some (s', ch')"
  shows "quiet s s'"
proof -
  let ?tw = "m_sendWindow s"
  obtain now ch0 where now: "GetCurrentTimeInMs ch = (now, ch0)" by fastforce
  obtain c s1 ch1 where rl: "resend_loop (currentTimeout ?tw) now (tw_nextUnacknowledgedSequence ?tw) 0 s ch0
      = (c, s1, ch1)" by (metis prod_cases3)
  note q = quiet_resend_loop [OF rl]
  have sh: "quiet s (Shutdown NotReady s)" by (simp add: quiet_Shutdown)
  from assms obtain s2 seq ch2 where "transmit_loop seq s2 ch2 = Some (s', ch')" "quiet s s2"
    using q sh now rl
    by (auto simp: UpdateSendWindow_def Let_def split: if_splits)
  with quiet_transmit_loop quiet_trans show ?thesis by blast
qed

subsection \<open>Operations that never bring a session back to life\<close>

definition alive_states :: "SessionState set" where
  "alive_states = {Listening, SynSent, SynReceived, Established}"

definition settles :: "Session \<Rightarrow> Session \<Rightarrow> bool" where
  "settles s s' \<longleftrightarrow> kind s' = kind s \<and> m_callbackState s' = m_callbackState s
     \<and> (m_sessionState s' \<in> {Listening, SynSent} \<longrightarrow> m_sessionState s' = m_sessionState s)
     \<and> (m_sessionState s' \<in> alive_states \<longrightarrow> m_sessionState s \<in> alive_states)"

lemma settles_refl [simp]: "settles s s"
  by (simp add: settles_def)

lemma settles_trans: "settles a b \<Longrightarrow> settles b c \<Longrightarrow> settles a c"
  unfolding settles_def by metis

lemma quiet_settles: "quiet s s' \<Longrightarrow> settles s s'"
  by (auto simp: quiet_def settles_def alive_states_def)

lemma settles_Shutdown: "settles s (Shutdown r s)"
  by (auto simp: settles_def alive_states_def Shutdown_state)

lemma settles_SetState: "x \<in> {Closed, FinWait1, FinWait2, Closing} \<Longrightarrow> settles s (SetState x s)"
  by (auto simp: settles_def alive_states_def)

lemma settles_upd [simp]:
  "settles s (s'\<lparr>m_sendWindow := w\<rparr>) = settles s s'" "settles s (s'\<lparr>m_receiveWindow := r\<rparr>) = settles s s'"
  "settles s (s'\<lparr>m_connectionEvent := b\<rparr>) = settles s s'"
  "settles s (s'\<lparr>m_disconnectionEvent := b\<rparr>) = settles s s'"
  "settles s (s'\<lparr>m_sessionTerminationReason := rr\<rparr>) = settles s s'"
  "settles s (s'\<lparr>m_pSessionUserdata := u\<rparr>) = settles s s'"
  "settles s (UpdateSendWindowSize m s') = settles s s'"
  by (simp_all add: settles_def)

lemma settles_HandleSyn: "m_sessionState s = Listening \<Longrightarrow> settles s (HandleSynMessage m s)"
proof -
  assume st: "m_sessionState s = Listening"
  obtain r s1 where w: "WriteMessageIntoSendWindow SynAck (word_of_nat sizeof_SynAckPayload)
     (Some (encode_SynAckPayload \<lparr>ack_sequence = sequence (header m), initialSessionId = sessionId (header m),
        ack_version = m_protocolVersion s, ack_sessionVersion = m_sessionVersion s\<rparr>)) s = (r, s1)" by fastforce
  from quiet_WriteSend [OF w] st show ?thesis
    by (simp add: HandleSynMessage_def Let_def w settles_def alive_states_def)
qed

lemma settles_HandleSynAck:
  assumes h: "HandleSynAckMessage m s ch = (s', ch')"
  shows "settles s s'"
proof -
  obtain r s1 ch1 where a: "MarkMessagesAsAcknowledged (sequence (header m)) s ch = (r, s1, ch1)" by (metis prod_cases3)
  let ?pl = "decode_SynAckPayload (payload m)"
  obtain r2 s2 ch2 where b: "MarkMessagesAsAcknowledged (ack_sequence ?pl) s ch = (r2, s2, ch2)" by (metis prod_cases3)
  let ?s3 = "SetState Established (s2\<lparr>m_sessionVersion := ack_sessionVersion ?pl\<rparr>)"
  let ?s4 = "reset_receive_window (sequence (header m)) (?s3\<lparr>m_sessionId := sessionId (header m),
     m_protocolVersion := (if ack_version ?pl \<noteq> 0 then ack_version ?pl else m_minClientProtocolVersion ?s3)\<rparr>)"
  obtain c s5 ch5 where d: "SendAckMessage ?s4 ch2 = (c, s5, ch5)" by (metis prod_cases3)
  have k4: "kind ?s4 = kind s" "m_callbackState ?s4 = m_callbackState s" "m_sessionState ?s4 = Established"
    using quiet_Mark [OF b] by (simp_all add: quiet_def)
  have s5: "settles s s5" if "m_sessionState s = SynSent"
    using quiet_SendAck [OF d] k4 that by (auto simp: quiet_def settles_def alive_states_def)
  have "s' = UpdateSendWindowSize m (if m_sessionState s \<in> {FinWait1, FinWait2, Closing, Established} then s1
     else if m_sessionState s = SynSent then s5 else s)"
    using h unfolding HandleSynAckMessage_def Let_def a b d prod.case by (auto split: if_splits)
  with quiet_settles [OF quiet_Mark [OF a]] s5 show ?thesis by simp
qed

lemma settles_handlers:
  assumes ring: "rw_ring k (m_receiveWindow s)"
  shows "HandleFinMessage m s ch = (s', ch') \<Longrightarrow> settles s s'"
    and "HandleDataMessage m s ch = (s', ch') \<Longrightarrow> settles s s'"
    and "HandleAckMessage m s ch = (s', ch') \<Longrightarrow> settles s s'"
proof -
  obtain r s1 ch1 where w: "WriteMessageIntoReceiveWindow m s ch = (r, s1, ch1)" by (metis prod_cases3)
  obtain b s2 ch2 where a: "SendAckMessage s1 ch1 = (b, s2, ch2)" by (metis prod_cases3)
  have q: "quiet s s1" by (rule quiet_WriteReceive [OF ring w])
  have q2: "quiet s s2" by (rule quiet_trans [OF q quiet_SendAck [OF a]])
  have c: "settles s (SetState Closing s1)" "settles s (SetState Closed s2)"
    by (rule settles_trans [OF quiet_settles settles_SetState], rule q q2, simp)+
  show "HandleFinMessage m s ch = (s', ch') \<Longrightarrow> settles s s'"
    using c unfolding HandleFinMessage_def Let_def w a prod.case by (auto split: if_splits)
  show "HandleDataMessage m s ch = (s', ch') \<Longrightarrow> settles s s'"
    using quiet_settles [OF q] unfolding HandleDataMessage_def Let_def w prod.case by (auto split: if_splits)
  obtain r3 s3 ch3 where e: "MarkMessagesAsAcknowledged (sequence (header m)) (SetState Established s) ch
      = (r3, s3, ch3)" by (metis prod_cases3)
  obtain r4 s4 ch4 where f: "MarkMessagesAsAcknowledged (sequence (header m)) s ch = (r4, s4, ch4)"
    by (metis prod_cases3)
  have "settles s s3" if "m_sessionState s = SynReceived"
    using quiet_Mark [OF e] that by (auto simp: quiet_def settles_def alive_states_def)
  then show "HandleAckMessage m s ch = (s', ch') \<Longrightarrow> settles s s'"
    using quiet_settles [OF quiet_Mark [OF f]] unfolding HandleAckMessage_def Let_def e f prod.case
    by (auto split: if_splits)
qed

text \<open>The handler that a message selects, before the server hears of it.\<close>

definition dispatch :: "MessageBuffer \<Rightarrow> Session \<Rightarrow> Channel \<Rightarrow> Session \<times> Channel" where
  "dispatch m s ch =
    (case SessionMessage_of (messageId (header m)) of
       Syn \<Rightarrow> (HandleSynMessage m s, ch)
     | SynAck \<Rightarrow> HandleSynAckMessage m s ch
     | Fin \<Rightarrow> HandleFinMessage m s ch
     | Data \<Rightarrow> HandleDataMessage m s ch
     | Ack \<Rightarrow> HandleAckMessage m s ch
     | Rst \<Rightarrow> (HandleRstMessage m s, ch)
     | _ \<Rightarrow> (s, ch))"

lemma dispatch_settles:
  assumes ring: "rw_ring k (m_receiveWindow s)"
    and syn: "messageId (header m) = 1 \<longrightarrow> m_sessionState s = Listening"
    and d: "dispatch m s ch = (s', ch')"
  shows "settles s s'"
proof (cases "SessionMessage_of (messageId (header m))")
  case Syn
  then have "m_sessionState s = Listening" using syn by (simp add: SessionMessage_of_eq)
  with Syn d settles_HandleSyn show ?thesis by (auto simp: dispatch_def)
next
  case Rst
  with d settles_Shutdown show ?thesis by (auto simp: dispatch_def HandleRstMessage_def)
qed (use d settles_HandleSynAck settles_handlers [OF ring] in \<open>auto simp: dispatch_def\<close>)

lemma HandleMessage_dispatch:
  assumes "dispatch m s ch = (s1, ch1)"
  shows "HandleMessage pServer m s ch =
    (if m_sessionState s \<noteq> m_sessionState s1 \<and> m_sessionState s1 = Established then
       (case m_sessionType s1 of
          ClientType \<Rightarrow> (s1\<lparr>m_connectionEvent := True\<rparr>, ch1)
        | ServerType \<Rightarrow>
            (let (s2, ch2) = srv_SessionEstablished pServer s1 ch1
             in (s2\<lparr>m_callbackState := EstablishedCalled\<rparr>, ch2))
        | UnknownType \<Rightarrow> (s1, ch1))
     else (s1, ch1))"
  unfolding HandleMessage_def Let_def assms [unfolded dispatch_def] prod.case by (simp add: Let_def)

lemma settles_UpdateTimeout: "settles s (UpdateTimeout s)"
proof -
  obtain r s0 where w: "WriteMessageIntoSendWindow Fin 0 None s = (r, s0)" by fastforce
  note q = quiet_WriteSend [OF w]
  show ?thesis
    by (auto simp: UpdateTimeout_def Let_def w settles_def alive_states_def q)
qed

subsection \<open>The contract of a server's callbacks\<close>

definition settled_call :: "Session \<Rightarrow> Session \<Rightarrow> bool" where
  "settled_call s s' \<longleftrightarrow> settles s s' \<and> (m_sessionState s = Closed \<longrightarrow> m_sessionState s' = Closed)"

lemma settled_call_refl [simp]: "settled_call s s"
  by (simp add: settled_call_def)

lemma settled_call_trans: "settled_call a b \<Longrightarrow> settled_call b c \<Longrightarrow> settled_call a c"
  unfolding settled_call_def using settles_trans by blast

locale session_server = protocol_server +
  assumes established_call: "srv_SessionEstablished pServer s ch = (s', ch') \<Longrightarrow> settled_call s s'"
    and update_call: "srv_UpdateSession pServer s ch = (s', ch') \<Longrightarrow> settled_call s s'"
    and terminated_call: "srv_SessionTerminated pServer reason s ch = (s', ch') \<Longrightarrow> settled_call s s'"
begin

lemma HandleMessage_kind:
  assumes "session_inv k s" and "messageId (header m) = 1 \<longrightarrow> m_sessionState s = Listening"
    and h: "HandleMessage pServer m s ch = (s', ch')"
  shows "kind s' = kind s" and "m_sessionState s \<noteq> SynSent \<Longrightarrow> m_sessionState s' \<noteq> SynSent"
proof -
  obtain s1 ch1 where d: "dispatch m s ch = (s1, ch1)" by fastforce
  note st = dispatch_settles [OF session_invD(2) [OF assms(1)] assms(2) d]
  obtain s2 ch2 where e: "srv_SessionEstablished pServer s1 ch1 = (s2, ch2)" by fastforce
  have st2: "settles s s2" using settles_trans [OF st] established_call [OF e] by (simp add: settled_call_def)
  have "s' \<in> {s1, s1\<lparr>m_connectionEvent := True\<rparr>, s2\<lparr>m_callbackState := EstablishedCalled\<rparr>}"
    using h [unfolded HandleMessage_dispatch [OF d]] e by (simp split: if_splits SessionType.splits)
  then have k: "kind s' \<in> {kind s1, kind s2}" "m_sessionState s' \<in> {m_sessionState s1, m_sessionState s2}"
    by auto
  have "kind s1 = kind s" "kind s2 = kind s" using st st2 by (simp_all add: settles_def)
  with k(1) show "kind s' = kind s" by simp
  have "m_sessionState s1 = SynSent \<Longrightarrow> m_sessionState s = SynSent"
    "m_sessionState s2 = SynSent \<Longrightarrow> m_sessionState s = SynSent" using st st2 by (simp_all add: settles_def)
  with k(2) show "m_sessionState s \<noteq> SynSent \<Longrightarrow> m_sessionState s' \<noteq> SynSent" by auto
qed

text \<open>\<^verbatim>\<open>Session::Update\<close> as its three parts without the server and the two callbacks.\<close>

lemma Session_Update_parts:
  assumes u: "Session_Update pServer refCount s ch = Some (s', ch')"
  obtains s4 ch4 s5 ch5 s6 where "settled_call s s4"
    "if m_sessionType s4 = ServerType \<and> m_sessionState s4 = Established
     then srv_UpdateSession pServer s4 ch4 = (s5, ch5) else s5 = s4"
    "if m_sessionType s5 = ServerType \<and> m_sessionState s5 = Closed \<and> m_callbackState s5 = EstablishedCalled
     then (\<exists>t. settled_call s5 t \<and> s6 = t\<lparr>m_callbackState := TerminatedCalled\<rparr>) else s6 = s5"
    "s' = (if m_sessionState s6 = Closed then s6\<lparr>m_disconnectionEvent := True\<rparr> else s6)"
proof -
  obtain s1 ch1 where u1: "UpdateReceiveWindow s ch = (s1, ch1)" by fastforce
  obtain s2 ch2 where u2: "UpdateSendWindow s1 ch1 = Some (s2, ch2)"
  proof (cases "UpdateSendWindow s1 ch1")
    case None
    with u show ?thesis by (simp add: Session_Update_def u1)
  next
    case (Some p)
    then show ?thesis using that by (cases p) blast
  qed
  let ?s4 = "if refCount = 1 \<and> m_sessionType (UpdateTimeout s2) = ClientType
             then Shutdown Success (UpdateTimeout s2) else UpdateTimeout s2"
  have q: "quiet s s2" by (rule quiet_trans [OF quiet_UpdateReceiveWindow [OF u1] quiet_UpdateSendWindow [OF u2]])
  have "settles s (UpdateTimeout s2)" by (rule settles_trans [OF quiet_settles [OF q] settles_UpdateTimeout])
  then have "settles s ?s4" using settles_trans [OF _ settles_Shutdown] by simp
  moreover have "m_sessionState ?s4 = Closed" if "m_sessionState s = Closed"
  proof -
    have "m_sessionState s2 = Closed" using q that by (auto simp: quiet_def)
    then have "m_sessionState (UpdateTimeout s2) = Closed" by (simp add: UpdateTimeout_def Let_def)
    then show ?thesis by (simp add: Shutdown_state)
  qed
  ultimately have c4: "settled_call s ?s4" by (simp add: settled_call_def)
  obtain s5 ch5 where u5: "(if m_sessionType ?s4 = ServerType \<and> m_sessionState ?s4 = Established
      then srv_UpdateSession pServer ?s4 ch2 else (?s4, ch2)) = (s5, ch5)" by fastforce
  obtain t cht where tt: "srv_SessionTerminated pServer (m_sessionTerminationReason s5) s5 ch5 = (t, cht)" by fastforce
  obtain s6 ch6 where u6: "(if m_sessionType s5 = ServerType \<and> m_sessionState s5 = Closed
        \<and> m_callbackState s5 = EstablishedCalled
      then (let (s', ch') = srv_SessionTerminated pServer (m_sessionTerminationReason s5) s5 ch5
            in (s'\<lparr>m_callbackState := TerminatedCalled\<rparr>, ch'))
      else (s5, ch5)) = (s6, ch6)" by fastforce
  have "Session_Update pServer refCount s ch =
      Some (if m_sessionState s6 = Closed then s6\<lparr>m_disconnectionEvent := True\<rparr> else s6, ch6)"
    unfolding Session_Update_def Let_def u1 prod.case u2 option.case u5 [simplified Let_def] u6 [unfolded Let_def]
    by simp
  then have e6: "s' = (if m_sessionState s6 = Closed then s6\<lparr>m_disconnectionEvent := True\<rparr> else s6)"
    using u by simp
  have e5: "if m_sessionType ?s4 = ServerType \<and> m_sessionState ?s4 = Established
     then srv_UpdateSession pServer ?s4 ch2 = (s5, ch5) else s5 = ?s4" using u5 by (auto split: if_splits)
  have t6: "if m_sessionType s5 = ServerType \<and> m_sessionState s5 = Closed \<and> m_callbackState s5 = EstablishedCalled
     then (\<exists>t. settled_call s5 t \<and> s6 = t\<lparr>m_callbackState := TerminatedCalled\<rparr>) else s6 = s5"
    using terminated_call [OF tt] u6 unfolding tt Let_def prod.case
    by (cases "m_sessionType s5 = ServerType \<and> m_sessionState s5 = Closed \<and> m_callbackState s5 = EstablishedCalled")
      auto
  show ?thesis by (rule that [OF c4 e5 t6 e6])
qed

lemma Session_Update_kind:
  assumes "Session_Update pServer refCount s ch = Some (s', ch')"
  shows "kind s' = kind s" and "m_sessionState s \<noteq> SynSent \<Longrightarrow> m_sessionState s' \<noteq> SynSent"
    and "m_sessionState s = Closed \<Longrightarrow> m_sessionState s' = Closed"
    and "m_sessionState s' = Closed \<Longrightarrow> m_sessionType s' = ServerType \<Longrightarrow> m_callbackState s' \<noteq> EstablishedCalled"
proof -
  obtain s4 ch4 s5 ch5 s6 where p: "settled_call s s4"
    "if m_sessionType s4 = ServerType \<and> m_sessionState s4 = Established
     then srv_UpdateSession pServer s4 ch4 = (s5, ch5) else s5 = s4"
    "if m_sessionType s5 = ServerType \<and> m_sessionState s5 = Closed \<and> m_callbackState s5 = EstablishedCalled
     then (\<exists>t. settled_call s5 t \<and> s6 = t\<lparr>m_callbackState := TerminatedCalled\<rparr>) else s6 = s5"
    "s' = (if m_sessionState s6 = Closed then s6\<lparr>m_disconnectionEvent := True\<rparr> else s6)"
    by (rule Session_Update_parts [OF assms])
  have "settled_call s4 s5" using p(2) update_call by (auto split: if_splits)
  with p(1) have c: "settled_call s s5" by (rule settled_call_trans)
  have k: "kind s6 = kind s5" "m_sessionState s5 \<noteq> SynSent \<Longrightarrow> m_sessionState s6 \<noteq> SynSent"
    "m_sessionState s5 = Closed \<Longrightarrow> m_sessionState s6 = Closed"
    "m_sessionState s6 = Closed \<Longrightarrow> m_sessionType s6 = ServerType \<Longrightarrow> m_callbackState s6 \<noteq> EstablishedCalled"
    using p(3) by (auto simp: settled_call_def settles_def split: if_splits)
  have e: "kind s' = kind s6" "m_sessionState s' = m_sessionState s6" "m_callbackState s' = m_callbackState s6"
    "m_sessionType s' = m_sessionType s6" using p(4) by simp_all
  have c': "kind s5 = kind s" "m_sessionState s5 = SynSent \<Longrightarrow> m_sessionState s = SynSent"
    "m_sessionState s = Closed \<Longrightarrow> m_sessionState s5 = Closed"
    using c by (simp_all add: settled_call_def settles_def)
  show "kind s' = kind s" using e(1) k(1) c'(1) by simp
  show "m_sessionState s \<noteq> SynSent \<Longrightarrow> m_sessionState s' \<noteq> SynSent" unfolding e using k(2) c'(2) by blast
  show "m_sessionState s = Closed \<Longrightarrow> m_sessionState s' = Closed" using e(2) k(3) c'(3) by simp
  show "m_sessionState s' = Closed \<Longrightarrow> m_sessionType s' = ServerType \<Longrightarrow> m_callbackState s' \<noteq> EstablishedCalled"
    unfolding e by (rule k(4))
qed

lemma HandleUnregister_kind:
  assumes "HandleUnregisterProtocolServer pServer s ch = (s', ch')"
  shows "kind s' = kind s" and "m_sessionState s' \<notin> alive_states" and "m_callbackState s' \<noteq> EstablishedCalled"
proof -
  obtain t cht where tt: "srv_SessionTerminated pServer EndOfStream s ch = (t, cht)" by fastforce
  note c = terminated_call [OF tt]
  have "s' = Shutdown Success (if m_callbackState s = EstablishedCalled
      then t\<lparr>m_callbackState := TerminatedCalled\<rparr> else s)"
    using assms by (auto simp: HandleUnregisterProtocolServer_def tt split: if_splits)
  with c show "kind s' = kind s" and "m_sessionState s' \<notin> alive_states" and "m_callbackState s' \<noteq> EstablishedCalled"
    by (auto simp: settled_call_def settles_def Shutdown_state alive_states_def)
qed

end

lemma run_call_settled: "run_call c s = (a, s') \<Longrightarrow> settled_call s s'"
proof (cases c)
  case (CallSend n pl)
  moreover assume "run_call c s = (a, s')"
  ultimately have "s' = s \<or> (\<exists>r. WriteMessageIntoSendWindow Data n pl s = (r, s'))"
    by (auto simp: run_call_def Session_Send_def split: if_splits prod.splits)
  then show ?thesis using quiet_WriteSend
    by (metis quiet_def quiet_settles settled_call_def settled_call_refl)
next
  case (CallReceive n)
  moreover assume "run_call c s = (a, s')"
  ultimately have "quiet s s'"
    by (auto simp: run_call_def Session_Receive_def Receive_wait_def Receive_read_def Let_def
        split: if_splits prod.splits)
  then show ?thesis by (auto simp: settled_call_def quiet_settles quiet_def)
next
  case (CallShutdown r)
  moreover assume "run_call c s = (a, s')"
  ultimately show ?thesis by (auto simp: run_call_def settled_call_def settles_Shutdown Shutdown_state)
next
  case (CallSetUserData u)
  moreover assume "run_call c s = (a, s')"
  ultimately show ?thesis by (auto simp: run_call_def SetUserData_def settled_call_def)
qed

lemma run_program_settled: "settled_call s (run_program n p as s)"
proof (induction n p as s rule: run_program.induct)
  case (2 n p as s)
  show ?case
  proof (cases "p s as")
    case (Some c)
    obtain a s' where c: "run_call c s = (a, s')" by fastforce
    from settled_call_trans [OF run_call_settled [OF c] "2.IH" [OF Some c [symmetric] refl]] Some c
    show ?thesis by simp
  qed simp
qed simp

interpretation program_life: session_server "program_server protocol minV maxV accept n est upd fini" n
  for protocol minV maxV accept n est upd fini
  by unfold_locales (auto simp: program_server_def intro: run_program_settled)

end
