(* ===== verification/Hash_Base.thy ===== *)
theory Hash_Base
  imports DD_Prelude
begin

text \<open>
  The hash container of \<^verbatim>\<open>shared/legacy/inc/util/hashBase.h\<close>.  A container has \<open>2 ^ n\<close> buckets
  (\<^verbatim>\<open>kPaddedNumBuckets\<close>); a bucket is a chain of entry groups of up to \<open>Suc e\<close> entries
  (\<^verbatim>\<open>kEntriesInBucket\<close>, which the code asserts to be at least one), drawn from blocks of \<open>2 ^ i\<close>
  groups.  A pointer to a group is its position in its chain, a pointer to an entry the position of
  the group and the index in it.  The hash function is an argument: any function of the key.

  Whether an allocation succeeds is up to the allocator: it is the argument \<open>allocOk\<close> of the
  operations that may allocate, each of which allocates at most once.
\<close>

type_synonym 'e group = "'e list"
type_synonym 'e chain = "'e group list"

record MemBlock =
  pMemory :: bool
  curBucket :: nat

record ('k, 'v) HashBase =
  hb_numEntries :: u32
  hb_blocks :: "nat \<Rightarrow> MemBlock"
  hb_curBlock :: int
  hb_buckets :: "('k \<times> 'v) chain list"

record 'k HashParams =
  hashFunc :: "'k \<Rightarrow> u32"
  logBuckets :: nat
  moreEntries :: nat

definition kPaddedNumBuckets :: "'k HashParams \<Rightarrow> nat" where
  "kPaddedNumBuckets P = 2 ^ logBuckets P"

definition kEntriesInBucket :: "'k HashParams \<Rightarrow> nat" where
  "kEntriesInBucket P = Suc (moreEntries P)"

definition kNumHashBlocks :: nat where "kNumHashBlocks = 32"

definition new_HashBase :: "'k HashParams \<Rightarrow> ('k, 'v) HashBase" where
  "new_HashBase P =
    \<lparr>hb_numEntries = 0, hb_blocks = (\<lambda>_. \<lparr>pMemory = False, curBucket = 0\<rparr>), hb_curBlock = - 1,
     hb_buckets = replicate (kPaddedNumBuckets P) []\<rparr>"

definition Size :: "('k, 'v) HashBase \<Rightarrow> nat" where "Size h = unat (hb_numEntries h)"

definition IsEmpty :: "('k, 'v) HashBase \<Rightarrow> bool" where "IsEmpty h \<longleftrightarrow> hb_numEntries h = 0"

text \<open>\<^verbatim>\<open>m_hashFunc(key) & (kPaddedNumBuckets - 1)\<close>.\<close>

definition bucket_of :: "'k HashParams \<Rightarrow> 'k \<Rightarrow> nat" where
  "bucket_of P key = unat ((ucast (hashFunc P key) :: u64) AND mask (logBuckets P))"

definition FindBucket :: "'k HashParams \<Rightarrow> 'k \<Rightarrow> ('k, 'v) HashBase \<Rightarrow> ('k \<times> 'v) chain" where
  "FindBucket P key h = hb_buckets h ! bucket_of P key"

subsection \<open>Searching\<close>

text \<open>The loop over one group: the index of the first entry with the key.\<close>

fun search_group :: "'k \<Rightarrow> ('k \<times> 'v) group \<Rightarrow> nat option" where
  "search_group key [] = None"
| "search_group key (e # es) =
    (if fst e = key then Some 0 else map_option Suc (search_group key es))"

text \<open>The loop over the chain.\<close>

fun search_chain :: "'k \<Rightarrow> ('k \<times> 'v) chain \<Rightarrow> (nat \<times> nat) option" where
  "search_chain key [] = None"
| "search_chain key (g # gs) =
    (case search_group key g of
       Some i \<Rightarrow> Some (0, i)
     | None \<Rightarrow> map_option (apfst Suc) (search_chain key gs))"

definition Contains :: "'k HashParams \<Rightarrow> 'k \<Rightarrow> ('k, 'v) HashBase \<Rightarrow> bool" where
  "Contains P key h \<longleftrightarrow> search_chain key (FindBucket P key h) \<noteq> None"

definition FindEntry :: "'k HashParams \<Rightarrow> 'k \<Rightarrow> ('k, 'v) HashBase \<Rightarrow> (nat \<times> nat \<times> nat) option" where
  "FindEntry P key h =
    map_option (Pair (bucket_of P key)) (search_chain key (FindBucket P key h))"

definition entry_at :: "('k, 'v) HashBase \<Rightarrow> nat \<times> nat \<times> nat \<Rightarrow> 'k \<times> 'v" where
  "entry_at h p = (case p of (b, g, i) \<Rightarrow> hb_buckets h ! b ! g ! i)"

definition set_value :: "nat \<times> nat \<times> nat \<Rightarrow> 'v \<Rightarrow> ('k, 'v) HashBase \<Rightarrow> ('k, 'v) HashBase" where
  "set_value p v h =
    (case p of (b, g, i) \<Rightarrow>
       let c = hb_buckets h ! b
       in h\<lparr>hb_buckets := (hb_buckets h)[b := c[g := (c ! g)[i := (fst (c ! g ! i), v)]]]\<rparr>)"

subsection \<open>Allocation\<close>

text \<open>
  \<^verbatim>\<open>AllocateBucket\<close>: the block and the index in it of the group handed out, \<open>None\<close> for null.
\<close>

definition AllocateBucket ::
  "bool \<Rightarrow> ('k, 'v) HashBase \<Rightarrow> (nat \<times> nat) option \<times> ('k, 'v) HashBase" where
  "AllocateBucket allocOk h =
    (let block0 = (if 0 \<le> hb_curBlock h then Some (nat (hb_curBlock h)) else None);
         usedUp = (case block0 of
                     None \<Rightarrow> True
                   | Some i \<Rightarrow> 2 ^ i \<le> curBucket (hb_blocks h i));
         (i, h1) =
           (if usedUp then
              (let nextBlock =
                     (case block0 of
                        None \<Rightarrow> nat (hb_curBlock h + 1)
                      | Some j \<Rightarrow> if pMemory (hb_blocks h j) then nat (hb_curBlock h + 1)
                                  else nat (hb_curBlock h));
                   block = hb_blocks h nextBlock;
                   block' = (if \<not> pMemory block then block\<lparr>pMemory := allocOk\<rparr> else block);
                   h' = h\<lparr>hb_blocks := (hb_blocks h)(nextBlock := block')\<rparr>
               in (nextBlock,
                   if pMemory block' then h'\<lparr>hb_curBlock := int nextBlock\<rparr> else h'))
            else (the block0, h))
     in
     if pMemory (hb_blocks h1 i) then
       (Some (i, curBucket (hb_blocks h1 i)),
        h1\<lparr>hb_blocks := (hb_blocks h1)
             (i := (hb_blocks h1 i)\<lparr>curBucket := curBucket (hb_blocks h1 i) + 1\<rparr>)\<rparr>)
     else (None, h1))"

text \<open>The loop of \<^verbatim>\<open>FindOrAllocate\<close> over the groups that exist.\<close>

datatype insert_slot = Existing nat nat | Room nat | ChainEnd

fun slot_in_chain :: "nat \<Rightarrow> 'k \<Rightarrow> nat \<Rightarrow> ('k \<times> 'v) chain \<Rightarrow> insert_slot" where
  "slot_in_chain capacity key g [] = ChainEnd"
| "slot_in_chain capacity key g (x # xs) =
    (case search_group key x of
       Some i \<Rightarrow> Existing g i
     | None \<Rightarrow> if length x < capacity then Room g else slot_in_chain capacity key (Suc g) xs)"

text \<open>
  \<^verbatim>\<open>FindOrAllocate\<close>: the position of the entry (\<open>None\<close> for null), whether it existed, and the container
  after.  \<open>raw\<close> is whatever the memory of the value holds before its constructor runs.
\<close>

definition FindOrAllocate ::
  "'k HashParams \<Rightarrow> bool \<Rightarrow> 'v \<Rightarrow> 'k \<Rightarrow> ('k, 'v) HashBase
   \<Rightarrow> (nat \<times> nat \<times> nat) option \<times> bool \<times> ('k, 'v) HashBase" where
  "FindOrAllocate P allocOk raw key h =
    (let b = bucket_of P key; c = hb_buckets h ! b in
     case slot_in_chain (kEntriesInBucket P) key 0 c of
       Existing g i \<Rightarrow> (Some (b, g, i), True, h)
     | Room g \<Rightarrow>
         (Some (b, g, length (c ! g)), False,
          h\<lparr>hb_buckets := (hb_buckets h)[b := c[g := c ! g @ [(key, raw)]]],
            hb_numEntries := hb_numEntries h + 1\<rparr>)
     | ChainEnd \<Rightarrow>
         (case AllocateBucket allocOk h of
            (None, h1) \<Rightarrow> (None, False, h1)
          | (Some _, h1) \<Rightarrow>
              (Some (b, length c, 0), False,
               h1\<lparr>hb_buckets := (hb_buckets h1)[b := c @ [[(key, raw)]]],
                  hb_numEntries := hb_numEntries h1 + 1\<rparr>)))"

subsection \<open>Removal\<close>

text \<open>The search of \<^verbatim>\<open>Erase\<close> stops at an empty group.\<close>

fun erase_search :: "'k \<Rightarrow> ('k \<times> 'v) chain \<Rightarrow> (nat \<times> nat) option" where
  "erase_search key [] = None"
| "erase_search key (g # gs) =
    (if g = [] then None
     else case search_group key g of
            Some i \<Rightarrow> Some (0, i)
          | None \<Rightarrow> map_option (apfst Suc) (erase_search key gs))"

text \<open>Walking on from a group to the last one that is not empty.\<close>

fun last_group :: "nat \<Rightarrow> ('k \<times> 'v) chain \<Rightarrow> nat option \<Rightarrow> nat option" where
  "last_group g [] acc = acc"
| "last_group g (x # xs) acc = (if x = [] then acc else last_group (Suc g) xs (Some g))"

text \<open>The last entry of the chain is moved over the one removed.\<close>

definition move_last :: "nat \<Rightarrow> nat \<Rightarrow> nat \<Rightarrow> ('k \<times> 'v) chain \<Rightarrow> ('k \<times> 'v) chain" where
  "move_last g i l c =
    (let c1 = (if (g, i) \<noteq> (l, length (c ! l) - 1) then c[g := (c ! g)[i := last (c ! l)]] else c)
     in c1[l := butlast (c1 ! l)])"

definition Erase :: "'k HashParams \<Rightarrow> 'k \<Rightarrow> ('k, 'v) HashBase \<Rightarrow> Result \<times> ('k, 'v) HashBase" where
  "Erase P key h =
    (let b = bucket_of P key; c = hb_buckets h ! b in
     case erase_search key c of
       None \<Rightarrow> (Error, h)
     | Some (g, i) \<Rightarrow>
         (case last_group g (drop g c) None of
            None \<Rightarrow> (Success, h\<lparr>hb_numEntries := hb_numEntries h - 1\<rparr>)
          | Some l \<Rightarrow>
              (Success, h\<lparr>hb_buckets := (hb_buckets h)[b := move_last g i l c],
                          hb_numEntries := hb_numEntries h - 1\<rparr>)))"

subsection \<open>Emptying\<close>

text \<open>\<^verbatim>\<open>Reset\<close> keeps the blocks, \<^verbatim>\<open>Clear\<close> frees them.\<close>

definition Reset :: "'k HashParams \<Rightarrow> ('k, 'v) HashBase \<Rightarrow> ('k, 'v) HashBase" where
  "Reset P h =
    (if 0 \<le> hb_curBlock h then
       h\<lparr>hb_buckets := replicate (kPaddedNumBuckets P) [],
         hb_blocks := (\<lambda>i. if int i \<le> hb_curBlock h then (hb_blocks h i)\<lparr>curBucket := 0\<rparr>
                           else hb_blocks h i),
         hb_numEntries := 0, hb_curBlock := - 1\<rparr>
     else h)"

definition Clear :: "'k HashParams \<Rightarrow> ('k, 'v) HashBase \<Rightarrow> ('k, 'v) HashBase" where
  "Clear P h =
    (if 0 \<le> hb_curBlock h then
       h\<lparr>hb_buckets := replicate (kPaddedNumBuckets P) [],
         hb_blocks := (\<lambda>i. if int i \<le> hb_curBlock h \<and> pMemory (hb_blocks h i)
                           then \<lparr>pMemory = False, curBucket = 0\<rparr> else hb_blocks h i),
         hb_numEntries := 0, hb_curBlock := - 1\<rparr>
     else h)"

text \<open>The move constructor takes everything and leaves an empty container behind.\<close>

definition move_HashBase :: "'k HashParams \<Rightarrow> ('k, 'v) HashBase \<Rightarrow> ('k, 'v) HashBase \<times> ('k, 'v) HashBase" where
  "move_HashBase P rhs =
    (rhs, rhs\<lparr>hb_numEntries := 0, hb_curBlock := - 1,
              hb_blocks := (\<lambda>_. \<lparr>pMemory = False, curBucket = 0\<rparr>),
              hb_buckets := replicate (kPaddedNumBuckets P) []\<rparr>)"

text \<open>\<^verbatim>\<open>Swap\<close> exchanges the blocks only up to the larger current block.\<close>

definition Swap :: "('k, 'v) HashBase \<Rightarrow> ('k, 'v) HashBase \<Rightarrow> ('k, 'v) HashBase \<times> ('k, 'v) HashBase" where
  "Swap h other =
    (let numBlocks = nat (min (max (hb_curBlock h) (hb_curBlock other) + 1) (int kNumHashBlocks)) in
     (other\<lparr>hb_blocks := (\<lambda>i. if i < numBlocks then hb_blocks other i else hb_blocks h i)\<rparr>,
      h\<lparr>hb_blocks := (\<lambda>i. if i < numBlocks then hb_blocks h i else hb_blocks other i)\<rparr>))"

subsection \<open>Iterators\<close>

record BaseIterator =
  it_startBucket :: nat
  it_currentBucket :: nat
  it_group :: "nat option"
  it_index :: nat

definition new_BaseIterator :: "'k HashParams \<Rightarrow> ('k, 'v) HashBase \<Rightarrow> nat \<Rightarrow> BaseIterator" where
  "new_BaseIterator P h startBucket =
    \<lparr>it_startBucket = startBucket, it_currentBucket = startBucket,
     it_group = (if startBucket < kPaddedNumBuckets P \<and> hb_buckets h ! startBucket \<noteq> []
                 then Some 0 else None),
     it_index = 0\<rparr>"

definition FindIterator :: "'k HashParams \<Rightarrow> 'k \<Rightarrow> ('k, 'v) HashBase \<Rightarrow> BaseIterator" where
  "FindIterator P key h =
    (let bucket = bucket_of P key in
     case search_chain key (hb_buckets h ! bucket) of
       Some (g, i) \<Rightarrow> \<lparr>it_startBucket = bucket, it_currentBucket = bucket, it_group = Some g,
                       it_index = i\<rparr>
     | None \<Rightarrow> new_BaseIterator P h (kPaddedNumBuckets P))"

definition bucket_in_use :: "('k, 'v) HashBase \<Rightarrow> nat \<Rightarrow> bool" where
  "bucket_in_use h b \<longleftrightarrow> hb_buckets h ! b \<noteq> [] \<and> hb_buckets h ! b ! 0 \<noteq> []"

text \<open>\<^verbatim>\<open>for (; bucket < kPaddedNumBuckets; ++bucket)\<close> with a break: the rounds left are counted.\<close>

fun first_bucket_from :: "('k, 'v) HashBase \<Rightarrow> nat \<Rightarrow> nat \<Rightarrow> nat" where
  "first_bucket_from h 0 bucket = bucket"
| "first_bucket_from h (Suc rounds) bucket =
    (if bucket_in_use h bucket then bucket else first_bucket_from h rounds (Suc bucket))"

definition GetFirstBucket :: "'k HashParams \<Rightarrow> ('k, 'v) HashBase \<Rightarrow> nat" where
  "GetFirstBucket P h =
    (if hb_numEntries h \<noteq> 0 then first_bucket_from h (kPaddedNumBuckets P) 0
     else kPaddedNumBuckets P)"

definition Get :: "('k, 'v) HashBase \<Rightarrow> BaseIterator \<Rightarrow> 'k \<times> 'v" where
  "Get h it = entry_at h (it_currentBucket it, the (it_group it), it_index it)"

text \<open>Two iterators on the same container.\<close>

definition Equals :: "BaseIterator \<Rightarrow> BaseIterator \<Rightarrow> bool" where
  "Equals it rhs \<longleftrightarrow>
     it_currentBucket it = it_currentBucket rhs \<and> it_index it = it_index rhs"

text \<open>
  The loop of \<^verbatim>\<open>Next\<close> over the buckets: it wraps around to the start bucket, so
  \<^verbatim>\<open>kPaddedNumBuckets\<close> rounds are enough.
\<close>

fun next_bucket :: "'k HashParams \<Rightarrow> ('k, 'v) HashBase \<Rightarrow> nat \<Rightarrow> nat \<Rightarrow> nat \<Rightarrow> nat" where
  "next_bucket P h start 0 cur = cur"
| "next_bucket P h start (Suc rounds) cur =
    (let cur' = Suc cur mod kPaddedNumBuckets P in
     if bucket_in_use h cur' then cur'
     else if cur' \<noteq> start then next_bucket P h start rounds cur' else cur')"

definition Next :: "'k HashParams \<Rightarrow> ('k, 'v) HashBase \<Rightarrow> BaseIterator \<Rightarrow> BaseIterator" where
  "Next P h it =
    (case it_group it of
       None \<Rightarrow> it
     | Some g \<Rightarrow>
         (let c = hb_buckets h ! it_currentBucket it; n = length (c ! g) in
          if it_index it < kEntriesInBucket P \<and> it_index it + 1 < n
          then it\<lparr>it_index := it_index it + 1\<rparr>
          else if Suc g < length c \<and> it_index it + 1 = n \<and> c ! Suc g \<noteq> []
          then it\<lparr>it_group := Some (Suc g), it_index := 0\<rparr>
          else
            (let cur = next_bucket P h (it_startBucket it) (kPaddedNumBuckets P)
                         (it_currentBucket it)
             in if cur \<noteq> it_startBucket it
                then it\<lparr>it_currentBucket := cur, it_group := Some 0, it_index := 0\<rparr>
                else it\<lparr>it_currentBucket := kPaddedNumBuckets P, it_group := None,
                        it_index := 0\<rparr>)))"

definition RemoveIterator ::
  "'k HashParams \<Rightarrow> BaseIterator \<Rightarrow> ('k, 'v) HashBase
   \<Rightarrow> bool \<times> BaseIterator \<times> ('k, 'v) HashBase" where
  "RemoveIterator P it h =
    (case it_group it of
       None \<Rightarrow> (False, it, h)
     | Some g \<Rightarrow>
         (let b = it_currentBucket it; c = hb_buckets h ! b; i = it_index it in
          case last_group g (drop g c) None of
            None \<Rightarrow> (True, it, h)
          | Some l \<Rightarrow>
              (let h' = h\<lparr>hb_buckets := (hb_buckets h)[b := move_last g i l c],
                          hb_numEntries := hb_numEntries h - 1\<rparr>
               in if (g, i) \<noteq> (l, length (c ! l) - 1) then (True, it, h')
                  else (True, Next P h' it, h'))))"

end
