(* ===== verification/Hash_Inv.thy ===== *)
theory Hash_Inv
  imports Hash_Base "HOL-Library.Multiset"
begin

text \<open>
  The invariant of the hash container and what each operation does to the finite map it stands for.
  In a chain a group that is not full is followed by empty groups only: that is what makes it
  right for \<^verbatim>\<open>FindOrAllocate\<close> to insert at the first group with room and for \<^verbatim>\<open>Erase\<close> to stop at an
  empty group, and it is why \<^verbatim>\<open>Erase\<close> moves the last entry of the chain into the hole.
\<close>

fun chain_ok :: "nat \<Rightarrow> 'e chain \<Rightarrow> bool" where
  "chain_ok n [] \<longleftrightarrow> True"
| "chain_ok n (g # gs) \<longleftrightarrow> length g \<le> n \<and> (length g < n \<longrightarrow> concat gs = []) \<and> chain_ok n gs"

definition all_entries :: "('k, 'v) HashBase \<Rightarrow> ('k \<times> 'v) list" where
  "all_entries h = concat (map concat (hb_buckets h))"

definition table_ok :: "'k HashParams \<Rightarrow> ('k, 'v) HashBase \<Rightarrow> bool" where
  "table_ok P h \<longleftrightarrow>
     length (hb_buckets h) = kPaddedNumBuckets P
     \<and> (\<forall>b < kPaddedNumBuckets P.
          chain_ok (kEntriesInBucket P) (hb_buckets h ! b)
          \<and> distinct (map fst (concat (hb_buckets h ! b)))
          \<and> (\<forall>x \<in> set (concat (hb_buckets h ! b)). bucket_of P (fst x) = b))
     \<and> hb_numEntries h = of_nat (length (all_entries h))"

text \<open>The blocks in use have memory, hand out no more groups than they have, and the others none.\<close>

definition blocks_ok :: "('k, 'v) HashBase \<Rightarrow> bool" where
  "blocks_ok h \<longleftrightarrow>
     - 1 \<le> hb_curBlock h
     \<and> (\<forall>i. if int i \<le> hb_curBlock h then pMemory (hb_blocks h i) \<and> curBucket (hb_blocks h i) \<le> 2 ^ i
            else curBucket (hb_blocks h i) = 0)"

text \<open>Groups come from blocks: before the first block is allocated there is none.\<close>

definition hb_inv :: "'k HashParams \<Rightarrow> ('k, 'v) HashBase \<Rightarrow> bool" where
  "hb_inv P h \<longleftrightarrow>
     table_ok P h \<and> blocks_ok h \<and> (hb_curBlock h = - 1 \<longrightarrow> (\<forall>c \<in> set (hb_buckets h). c = []))"

text \<open>The finite map a container stands for.\<close>

definition lookup :: "'k HashParams \<Rightarrow> ('k, 'v) HashBase \<Rightarrow> 'k \<Rightarrow> 'v option" where
  "lookup P h k = map_of (concat (hb_buckets h ! bucket_of P k)) k"

subsection \<open>Buckets\<close>

lemma bucket_of_less [simp]: "bucket_of P k < kPaddedNumBuckets P"
proof -
  let ?w = "ucast (hashFunc P k) :: u64" and ?n = "logBuckets P"
  have "unat (?w AND mask ?n) = unat ?w mod 2 ^ ?n"
    by (simp flip: take_bit_eq_mask) (subst unsigned_take_bit_eq, simp add: take_bit_eq_mod)
  then show ?thesis by (simp add: bucket_of_def kPaddedNumBuckets_def)
qed

subsection \<open>Searching\<close>

lemma search_group_None: "search_group k g = None \<longleftrightarrow> k \<notin> fst ` set g"
  by (induction g) auto

lemma search_group_Some:
  "search_group k g = Some i \<Longrightarrow> i < length g \<and> fst (g ! i) = k \<and> map_of g k = Some (snd (g ! i))"
  by (induction g arbitrary: i) (auto split: if_splits)

lemma search_chain_None: "search_chain k c = None \<longleftrightarrow> k \<notin> fst ` set (concat c)"
proof (induction c)
  case (Cons g gs)
  show ?case
  proof (cases "search_group k g")
    case None
    moreover from None have "k \<notin> fst ` set g" by (simp add: search_group_None)
    ultimately show ?thesis using Cons by (simp add: image_Un)
  next
    case (Some i)
    then have "k \<in> fst ` set g" using search_group_None [of k g] by simp
    with Some show ?thesis by (simp add: image_Un)
  qed
qed simp

lemma search_chain_Some:
  "search_chain k c = Some (g, i) \<Longrightarrow>
     g < length c \<and> i < length (c ! g) \<and> fst (c ! g ! i) = k
     \<and> map_of (concat c) k = Some (snd (c ! g ! i))"
proof (induction c arbitrary: g i)
  case (Cons x xs)
  show ?case
  proof (cases "search_group k x")
    case None
    then have "map_of x k = None" by (simp add: search_group_None map_of_eq_None_iff)
    with Cons None show ?thesis by (auto simp: map_add_def)
  next
    case (Some j)
    with Cons.prems search_group_Some [OF Some] show ?thesis by (auto simp: map_add_def split: option.splits)
  qed
qed simp

lemma search_chain_lookup:
  "search_chain k c = None \<longleftrightarrow> map_of (concat c) k = None"
  by (simp add: search_chain_None map_of_eq_None_iff)

subsection \<open>Chains\<close>

lemma chain_ok_empty_tail: "concat gs = [] \<Longrightarrow> chain_ok n gs"
  by (induction gs) auto

lemma erase_search_eq: "chain_ok (Suc n) c \<Longrightarrow> erase_search k c = search_chain k c"
proof (induction c)
  case (Cons g gs)
  show ?case
  proof (cases "g = []")
    case True
    with Cons.prems have "concat gs = []" by simp
    then have "search_chain k gs = None" by (simp add: search_chain_None del: concat_eq_Nil_conv)
    with True show ?thesis by simp
  qed (use Cons in \<open>simp split: option.split\<close>)
qed simp

lemma slot_in_chain_Existing:
  "slot_in_chain n k g0 c = Existing g i \<Longrightarrow> \<exists>j. g = g0 + j \<and> search_chain k c = Some (j, i)"
proof (induction c arbitrary: g0)
  case (Cons x xs)
  show ?case
  proof (cases "search_group k x")
    case None
    with Cons.prems have "slot_in_chain n k (Suc g0) xs = Existing g i" by (auto split: if_splits)
    from Cons.IH [OF this] None show ?thesis by (auto intro: exI [of _ "Suc _"])
  qed (use Cons.prems in auto)
qed simp

lemma slot_in_chain_Room:
  "slot_in_chain n k g0 c = Room g \<Longrightarrow> chain_ok n c \<Longrightarrow>
     \<exists>j. g = g0 + j \<and> j < length c \<and> k \<notin> fst ` set (concat c)
       \<and> concat (c[j := c ! j @ [x]]) = concat c @ [x] \<and> chain_ok n (c[j := c ! j @ [x]])"
proof (induction c arbitrary: g0)
  case (Cons y ys)
  have no: "search_group k y = None" using Cons.prems(1) by (auto split: option.splits)
  show ?case
  proof (cases "length y < n")
    case True
    with Cons.prems no have "g = g0" "concat ys = []" by simp_all
    with no True Cons.prems(2) show ?thesis
      by (intro exI [of _ 0]) (auto simp: search_group_None chain_ok_empty_tail simp del: concat_eq_Nil_conv)
  next
    case False
    with Cons.prems no have "slot_in_chain n k (Suc g0) ys = Room g" "chain_ok n ys" by simp_all
    from Cons.IH [OF this] obtain j where "g = Suc g0 + j" "j < length ys" "k \<notin> fst ` set (concat ys)"
      "concat (ys[j := ys ! j @ [x]]) = concat ys @ [x]" "chain_ok n (ys[j := ys ! j @ [x]])" by blast
    with no False Cons.prems(2) show ?thesis
      by (intro exI [of _ "Suc j"]) (auto simp: search_group_None image_Un)
  qed
qed simp

lemma slot_in_chain_End:
  "slot_in_chain (Suc n) k g0 c = ChainEnd \<Longrightarrow> chain_ok (Suc n) c \<Longrightarrow>
     k \<notin> fst ` set (concat c) \<and> chain_ok (Suc n) (c @ [[x]])"
proof (induction c arbitrary: g0)
  case (Cons y ys)
  have no: "search_group k y = None" using Cons.prems(1) by (auto split: option.splits)
  then have full: "\<not> length y < Suc n" using Cons.prems(1) by (auto split: if_splits)
  with Cons.prems no have "slot_in_chain (Suc n) k (Suc g0) ys = ChainEnd" "chain_ok (Suc n) ys" by simp_all
  from Cons.IH [OF this] no full Cons.prems(2) show ?case by (auto simp: search_group_None image_Un)
qed simp

subsection \<open>Removing an entry from a chain\<close>

definition flat_pos :: "nat \<Rightarrow> nat \<Rightarrow> 'e chain \<Rightarrow> nat" where
  "flat_pos g i c = length (concat (take g c)) + i"

definition swap_remove :: "nat \<Rightarrow> 'e list \<Rightarrow> 'e list" where
  "swap_remove p xs = butlast (xs[p := last xs])"

lemma split_chain: "g < length c \<Longrightarrow> concat c = concat (take g c) @ c ! g @ concat (drop (Suc g) c)"
  by (metis concat.simps(2) concat_append id_take_nth_drop)

lemma concat_update:
  "g < length c \<Longrightarrow> concat (c[g := x]) = concat (take g c) @ x @ concat (drop (Suc g) c)"
  by (simp add: upd_conv_take_nth_drop)

lemma flat_pos_nth:
  assumes "g < length c" "i < length (c ! g)"
  shows "flat_pos g i c < length (concat c)" and "concat c ! flat_pos g i c = c ! g ! i"
  using assms by (subst split_chain [OF assms(1)], simp add: flat_pos_def nth_append)+

lemma concat_set_entry:
  assumes "g < length c" "i < length (c ! g)"
  shows "concat (c[g := (c ! g)[i := x]]) = (concat c)[flat_pos g i c := x]"
  using assms
  by (subst split_chain [OF assms(1)]) (simp add: concat_update flat_pos_def list_update_append)

lemma last_group_spec:
  "xs \<noteq> [] \<Longrightarrow> hd xs \<noteq> [] \<Longrightarrow> chain_ok (Suc n) xs \<Longrightarrow>
     \<exists>j < length xs. last_group g xs acc = Some (g + j) \<and> xs ! j \<noteq> []
       \<and> concat (drop (Suc j) xs) = []"
proof (induction xs arbitrary: g acc)
  case (Cons x xs)
  show ?case
  proof (cases "xs = [] \<or> hd xs = []")
    case True
    have "concat xs = []"
    proof (cases xs)
      case (Cons y ys)
      with True \<open>chain_ok (Suc n) (x # xs)\<close> show ?thesis by simp
    qed simp
    moreover have "last_group g (x # xs) acc = Some g"
      using True Cons.prems by (cases xs) auto
    ultimately show ?thesis using Cons.prems by (intro exI [of _ 0]) (simp del: concat_eq_Nil_conv)
  next
    case False
    with Cons.IH [of "Suc g" "Some g"] Cons.prems obtain j where
      "j < length xs" "last_group (Suc g) xs (Some g) = Some (Suc g + j)" "xs ! j \<noteq> []"
      "concat (drop (Suc j) xs) = []" by auto
    with Cons.prems show ?thesis by (intro exI [of _ "Suc j"]) auto
  qed
qed simp

lemma chain_ok_drop: "chain_ok n c \<Longrightarrow> chain_ok n (drop g c)"
  by (induction c arbitrary: g) (auto simp: drop_Cons split: nat.splits)

lemma last_group_of:
  assumes "chain_ok (Suc n) c" "g < length c" "c ! g \<noteq> []"
  shows "\<exists>l. last_group g (drop g c) None = Some l \<and> g \<le> l \<and> l < length c \<and> c ! l \<noteq> []
           \<and> concat (drop (Suc l) c) = []"
proof -
  have "drop g c \<noteq> []" "hd (drop g c) \<noteq> []" using assms by (simp_all add: hd_drop_conv_nth)
  from last_group_spec [OF this chain_ok_drop [OF assms(1)]] obtain j where
    "j < length (drop g c)" "last_group g (drop g c) None = Some (g + j)" "drop g c ! j \<noteq> []"
    "concat (drop (Suc j) (drop g c)) = []" by blast
  then show ?thesis by (intro exI [of _ "g + j"]) (auto simp: add.commute)
qed

lemma butlast_last_group:
  assumes "l < length c" "c ! l \<noteq> []" "concat (drop (Suc l) c) = []"
  shows "concat (c[l := butlast (c ! l)]) = butlast (concat c)" and "last (concat c) = last (c ! l)"
    and "length (concat c) = flat_pos l (length (c ! l)) c"
proof -
  have eq: "concat c = concat (take l c) @ c ! l" using split_chain [OF assms(1)] assms(3) by simp
  show "last (concat c) = last (c ! l)" unfolding eq using assms(2) by simp
  show "length (concat c) = flat_pos l (length (c ! l)) c"
    by (simp add: eq flat_pos_def del: concat_eq_Nil_conv)
  show "concat (c[l := butlast (c ! l)]) = butlast (concat c)"
    using assms by (simp only: concat_update [OF assms(1)] eq butlast_append) simp
qed

text \<open>On the entries of the chain in order, \<open>move_last\<close> replaces the entry by the last one.\<close>

lemma move_last_flat:
  assumes g: "g < length c" "i < length (c ! g)"
    and l: "g \<le> l" "l < length c" "c ! l \<noteq> []" "concat (drop (Suc l) c) = []"
  shows "concat (move_last g i l c) = swap_remove (flat_pos g i c) (concat c)"
proof (cases "(g, i) = (l, length (c ! l) - 1)")
  case True
  then have gi: "g = l" "i = length (c ! l) - 1" by simp_all
  have pos: "0 < length (c ! l)" using l(3) by simp
  have "length (concat c) = length (concat (take l c)) + length (c ! l)"
    using butlast_last_group(3) [OF l(2-4)] by (simp add: flat_pos_def)
  then have "flat_pos g i c = length (concat c) - 1" using pos unfolding flat_pos_def gi by linarith
  moreover have "concat c \<noteq> []" using l(2,3) by (auto intro: nth_mem)
  ultimately have "swap_remove (flat_pos g i c) (concat c) = butlast (concat c)"
    by (simp add: swap_remove_def last_conv_nth del: concat_eq_Nil_conv)
  with True butlast_last_group(1) [OF l(2-4)] show ?thesis by (simp add: move_last_def Let_def)
next
  case False
  let ?c1 = "c[g := (c ! g)[i := last (c ! l)]]"
  have c1: "l < length ?c1" "?c1 ! l \<noteq> []" using l by (auto simp: nth_list_update)
  have "concat (drop (Suc l) ?c1) = []" using l(1,4) by simp
  from butlast_last_group(1) [OF c1 this] have "concat (move_last g i l c) = butlast (concat ?c1)"
    using False by (simp only: move_last_def Let_def if_P not_False_eq_True)
  also have "concat ?c1 = (concat c)[flat_pos g i c := last (concat c)]"
    using concat_set_entry [OF g] butlast_last_group(2) [OF l(2-4)] by simp
  finally show ?thesis by (simp add: swap_remove_def)
qed

lemma mset_swap_remove:
  assumes "p < length xs"
  shows "mset (swap_remove p xs) = mset xs - {#xs ! p#}"
proof -
  have ne: "xs \<noteq> []" using assms by auto
  let ?ys = "xs[p := last xs]"
  have "last ?ys = last xs"
    using assms ne by (cases "p = length xs - 1") (auto simp: last_conv_nth nth_list_update)
  then have "?ys = butlast ?ys @ [last xs]" using ne by (metis append_butlast_last_id list_update_nonempty)
  then have "mset ?ys = mset (butlast ?ys) + {#last xs#}" by (metis mset_append mset_single_iff)
  moreover have "mset ?ys = add_mset (last xs) (mset xs - {#xs ! p#})"
    using assms by (simp add: mset_update)
  ultimately show ?thesis by (simp add: swap_remove_def)
qed

lemma concat_empty_nth: "concat c = [] \<longleftrightarrow> (\<forall>j < length c. c ! j = [])"
  by (simp add: all_set_conv_all_nth)

lemma chain_ok_set_entry:
  "chain_ok n (c[g := (c ! g)[i := x]]) = chain_ok n c"
proof (induction c arbitrary: g)
  case (Cons y ys)
  show ?case
  proof (cases g)
    case (Suc g')
    have "concat (ys[g' := (ys ! g')[i := x]]) = [] \<longleftrightarrow> concat ys = []"
      unfolding concat_empty_nth
      by (cases "g' < length ys") (auto simp: nth_list_update all_conj_distrib split: if_splits)
    with Cons Suc show ?thesis by (simp del: concat_eq_Nil_conv)
  qed simp
qed simp

lemma chain_ok_butlast:
  "chain_ok n c \<Longrightarrow> l < length c \<Longrightarrow> concat (drop (Suc l) c) = [] \<Longrightarrow>
     chain_ok n (c[l := butlast (c ! l)])"
proof (induction c arbitrary: l)
  case (Cons y ys)
  show ?case
  proof (cases l)
    case 0
    with Cons.prems show ?thesis by (auto simp: chain_ok_empty_tail)
  next
    case (Suc l')
    have "concat (ys[l' := butlast (ys ! l')]) = []" if "concat ys = []"
      using that Suc Cons.prems(2) unfolding concat_empty_nth by (auto simp: nth_list_update)
    with Cons Suc show ?thesis by (simp del: concat_eq_Nil_conv)
  qed
qed simp

lemma chain_ok_move_last:
  assumes "chain_ok n c" "l < length c" "g \<le> l" "concat (drop (Suc l) c) = []"
  shows "chain_ok n (move_last g i l c)"
proof -
  let ?c1 = "if (g, i) \<noteq> (l, length (c ! l) - 1) then c[g := (c ! g)[i := last (c ! l)]] else c"
  have "chain_ok n ?c1" using assms(1) by (simp add: chain_ok_set_entry)
  moreover have "l < length ?c1" "concat (drop (Suc l) ?c1) = []" using assms by simp_all
  ultimately show ?thesis unfolding move_last_def Let_def by (rule chain_ok_butlast)
qed

subsection \<open>The container\<close>

lemma hb_invD:
  assumes "hb_inv P h"
  shows "length (hb_buckets h) = kPaddedNumBuckets P"
    and "b < kPaddedNumBuckets P \<Longrightarrow> chain_ok (Suc (moreEntries P)) (hb_buckets h ! b)"
    and "b < kPaddedNumBuckets P \<Longrightarrow> distinct (map fst (concat (hb_buckets h ! b)))"
    and "b < kPaddedNumBuckets P \<Longrightarrow> x \<in> set (concat (hb_buckets h ! b)) \<Longrightarrow> bucket_of P (fst x) = b"
    and "hb_numEntries h = of_nat (length (all_entries h))"
    and "blocks_ok h"
    and "hb_curBlock h = - 1 \<Longrightarrow> b < kPaddedNumBuckets P \<Longrightarrow> hb_buckets h ! b = []"
  using assms by (auto simp: hb_inv_def table_ok_def kEntriesInBucket_def simp del: set_concat)

lemma all_entries_split:
  assumes "b < length (hb_buckets h)"
  shows "all_entries h = concat (map concat (take b (hb_buckets h))) @ concat (hb_buckets h ! b)
           @ concat (map concat (drop (Suc b) (hb_buckets h)))"
    and "all_entries (h'\<lparr>hb_buckets := (hb_buckets h)[b := c], hb_numEntries := n\<rparr>)
           = concat (map concat (take b (hb_buckets h))) @ concat c
             @ concat (map concat (drop (Suc b) (hb_buckets h)))"
  using split_chain [of b "map concat (hb_buckets h)"] assms
    concat_update [of b "map concat (hb_buckets h)" "concat c"]
  by (simp_all add: all_entries_def take_map drop_map map_update)

text \<open>Replacing one chain.\<close>

lemma hb_inv_set_chain:
  assumes inv: "hb_inv P h" and b: "b < kPaddedNumBuckets P"
    and c: "chain_ok (Suc (moreEntries P)) c" "distinct (map fst (concat c))"
      "\<And>x. x \<in> set (concat c) \<Longrightarrow> bucket_of P (fst x) = b"
    and blocks: "blocks_ok h'" and cur: "hb_curBlock h' = - 1 \<Longrightarrow> hb_curBlock h = - 1 \<and> c = []"
    and n: "n = hb_numEntries h + of_nat (length (concat c)) - of_nat (length (concat (hb_buckets h ! b)))"
  shows "hb_inv P (h'\<lparr>hb_buckets := (hb_buckets h)[b := c], hb_numEntries := n\<rparr>)"
proof -
  have len: "b < length (hb_buckets h)" using hb_invD(1) [OF inv] b by simp
  note sp = all_entries_split [OF len]
  have "n = of_nat (length (all_entries (h'\<lparr>hb_buckets := (hb_buckets h)[b := c], hb_numEntries := n\<rparr>)))"
    unfolding sp(2) n hb_invD(5) [OF inv] sp(1) by simp
  with inv b c have "table_ok P (h'\<lparr>hb_buckets := (hb_buckets h)[b := c], hb_numEntries := n\<rparr>)"
    by (auto simp: hb_inv_def table_ok_def kEntriesInBucket_def nth_list_update simp del: set_concat)
  moreover have "\<forall>c' \<in> set ((hb_buckets h)[b := c]). c' = []" if "hb_curBlock h' = - 1"
  proof -
    have "x = []" if "x \<in> set (hb_buckets h)" for x
      using that hb_invD(7) [OF inv conjunct1 [OF cur [OF \<open>hb_curBlock h' = - 1\<close>]]] hb_invD(1) [OF inv]
      by (auto simp: in_set_conv_nth)
    then show ?thesis using cur [OF that] set_update_subset_insert [of "hb_buckets h" b c] by blast
  qed
  ultimately show ?thesis using blocks by (simp add: hb_inv_def blocks_ok_def)
qed

lemma lookup_set_chain:
  assumes "hb_inv P h" and "b < kPaddedNumBuckets P"
  shows "lookup P (h'\<lparr>hb_buckets := (hb_buckets h)[b := c], hb_numEntries := n\<rparr>) k =
    (if bucket_of P k = b then map_of (concat c) k else lookup P h k)"
  using assms by (simp add: lookup_def hb_invD(1) nth_list_update)

lemma hb_inv_new: "hb_inv P (new_HashBase P)"
  by (simp add: hb_inv_def table_ok_def blocks_ok_def new_HashBase_def all_entries_def)

lemma lookup_new: "lookup P (new_HashBase P) = Map.empty"
  by (rule ext) (simp add: lookup_def new_HashBase_def)

lemma Contains_lookup: "Contains P k h \<longleftrightarrow> lookup P h k \<noteq> None"
  by (simp add: Contains_def FindBucket_def lookup_def search_chain_lookup)

lemma lookup_cong: "hb_buckets h' = hb_buckets h \<Longrightarrow> lookup P h' = lookup P h"
  by (simp add: lookup_def fun_eq_iff)

lemma table_ok_cong:
  "hb_buckets h' = hb_buckets h \<Longrightarrow> hb_numEntries h' = hb_numEntries h \<Longrightarrow> table_ok P h' = table_ok P h"
  by (simp add: table_ok_def all_entries_def)

text \<open>A group handed out lies in a block that has memory, within it, and is the next one there.\<close>

lemma AllocateBucket_spec:
  assumes ok: "blocks_ok h" and a: "AllocateBucket allocOk h = (r, h')"
  shows "hb_buckets h' = hb_buckets h" and "hb_numEntries h' = hb_numEntries h" and "blocks_ok h'"
    and "allocOk \<Longrightarrow> r \<noteq> None"
    and "hb_curBlock h \<le> hb_curBlock h'"
    and "r = Some (i, j) \<Longrightarrow> pMemory (hb_blocks h' i) \<and> j = curBucket (hb_blocks h i) \<and> j < 2 ^ i
           \<and> hb_curBlock h' = int i \<and> hb_curBlock h \<le> int i"
proof -
  let ?c = "nat (hb_curBlock h)" and ?n = "nat (hb_curBlock h + 1)"
  have cur: "pMemory (hb_blocks h ?c)" "curBucket (hb_blocks h ?c) \<le> 2 ^ ?c" if "0 \<le> hb_curBlock h"
    using ok that by (auto simp: blocks_ok_def dest: spec [of _ ?c])
  have nxt: "curBucket (hb_blocks h ?n) = 0" and lo: "- 1 \<le> hb_curBlock h"
    using ok by (auto simp: blocks_ok_def dest: spec [of _ ?n])
  have "hb_buckets h' = hb_buckets h \<and> hb_numEntries h' = hb_numEntries h \<and> blocks_ok h'
    \<and> (allocOk \<longrightarrow> r \<noteq> None) \<and> hb_curBlock h \<le> hb_curBlock h'
    \<and> (r = Some (i, j) \<longrightarrow> pMemory (hb_blocks h' i) \<and> j = curBucket (hb_blocks h i) \<and> j < 2 ^ i
       \<and> hb_curBlock h' = int i \<and> hb_curBlock h \<le> int i)"
  proof (cases "0 \<le> hb_curBlock h \<and> \<not> 2 ^ ?c \<le> curBucket (hb_blocks h ?c)")
    case True
    then have "r = Some (?c, curBucket (hb_blocks h ?c))"
      "h' = h\<lparr>hb_blocks := (hb_blocks h)(?c := (hb_blocks h ?c)\<lparr>curBucket := curBucket (hb_blocks h ?c) + 1\<rparr>)\<rparr>"
      using a cur by (auto simp: AllocateBucket_def Let_def)
    with True cur ok show ?thesis by (auto simp: blocks_ok_def)
  next
    case False
    let ?b = "hb_blocks h ?n"
    show ?thesis
    proof (cases "pMemory ?b \<or> allocOk")
      case True
      have f: "r = Some (?n, 0)" "hb_curBlock h' = int ?n" "pMemory (hb_blocks h' ?n)"
        "curBucket (hb_blocks h' ?n) = 1" "\<And>k. k \<noteq> ?n \<Longrightarrow> hb_blocks h' k = hb_blocks h k"
        "hb_buckets h' = hb_buckets h" "hb_numEntries h' = hb_numEntries h"
        using a cur nxt True False by (auto simp: AllocateBucket_def Let_def split: if_splits)
      have "if int k \<le> hb_curBlock h' then pMemory (hb_blocks h' k) \<and> curBucket (hb_blocks h' k) \<le> 2 ^ k
            else curBucket (hb_blocks h' k) = 0" for k
        using ok f lo by (cases "k = ?n") (auto simp: blocks_ok_def dest!: spec [of _ k] split: if_splits)
      moreover have "- 1 \<le> hb_curBlock h'" using f(2) by linarith
      ultimately have "blocks_ok h'" unfolding blocks_ok_def by blast
      with f nxt lo show ?thesis by auto
    next
      case no: False
      with False have "r = None" "h' = h\<lparr>hb_blocks := (hb_blocks h)(?n := ?b\<lparr>pMemory := False\<rparr>)\<rparr>"
        using a cur nxt by (auto simp: AllocateBucket_def Let_def split: if_splits)
      with ok lo nxt no show ?thesis by (auto simp: blocks_ok_def)
    qed
  qed
  then show "hb_buckets h' = hb_buckets h" and "hb_numEntries h' = hb_numEntries h" and "blocks_ok h'"
    and "allocOk \<Longrightarrow> r \<noteq> None"
    and "hb_curBlock h \<le> hb_curBlock h'"
    and "r = Some (i, j) \<Longrightarrow> pMemory (hb_blocks h' i) \<and> j = curBucket (hb_blocks h i) \<and> j < 2 ^ i
       \<and> hb_curBlock h' = int i \<and> hb_curBlock h \<le> int i" by blast+
qed

end
