(* ===== verification/Hash_Map.thy ===== *)
theory Hash_Map
  imports Hash_Inv
begin

text \<open>
  \<^verbatim>\<open>HashMap\<close> and \<^verbatim>\<open>HashSet\<close> over the hash container, and the contract of a finite map as a locale:
  what \<^verbatim>\<open>Create\<close>, \<^verbatim>\<open>Insert\<close>, \<^verbatim>\<open>Erase\<close>, \<^verbatim>\<open>FindValue\<close> and \<^verbatim>\<open>Contains\<close> promise to their clients.
  It is interpreted on the container for every hash function, number of buckets and group size.
\<close>

subsection \<open>Operations\<close>

definition FindValue :: "'k HashParams \<Rightarrow> 'k \<Rightarrow> ('k, 'v) HashBase \<Rightarrow> 'v option" where
  "FindValue P key h = map_option (\<lambda>p. snd (entry_at h p)) (FindEntry P key h)"

text \<open>Where the values are pointers: \<open>None\<close> is null.\<close>

definition FindPointer :: "'k HashParams \<Rightarrow> 'k \<Rightarrow> ('k, 'v) HashBase \<Rightarrow> 'v option" where
  "FindPointer P key h =
    (case FindEntry P key h of None \<Rightarrow> None | Some p \<Rightarrow> Some (snd (entry_at h p)))"

definition FindAllocate ::
  "'k HashParams \<Rightarrow> bool \<Rightarrow> 'v \<Rightarrow> 'k \<Rightarrow> ('k, 'v) HashBase
   \<Rightarrow> (nat \<times> nat \<times> nat) option \<times> bool \<times> ('k, 'v) HashBase" where
  "FindAllocate P allocOk raw key h = FindOrAllocate P allocOk raw key h"

text \<open>The value is constructed in place once the entry is there.\<close>

definition Insert :: "'k HashParams \<Rightarrow> bool \<Rightarrow> 'k \<Rightarrow> 'v \<Rightarrow> ('k, 'v) HashBase
    \<Rightarrow> Result \<times> ('k, 'v) HashBase" where
  "Insert P allocOk key value h =
    (case FindOrAllocate P allocOk value key h of
       (None, existed, h') \<Rightarrow> (InsufficientMemory, h')
     | (Some p, existed, h') \<Rightarrow> (Success, set_value p value h'))"

definition Create :: "'k HashParams \<Rightarrow> bool \<Rightarrow> 'k \<Rightarrow> 'v \<Rightarrow> ('k, 'v) HashBase
    \<Rightarrow> Result \<times> ('k, 'v) HashBase" where
  "Create P allocOk key value h =
    (case FindOrAllocate P allocOk value key h of
       (None, existed, h') \<Rightarrow> (InsufficientMemory, h')
     | (Some p, existed, h') \<Rightarrow>
         if \<not> existed then (Success, set_value p value h') else (EntryExists, h'))"

definition FindOrCreate :: "'k HashParams \<Rightarrow> bool \<Rightarrow> 'k \<Rightarrow> 'v \<Rightarrow> ('k, 'v) HashBase
    \<Rightarrow> (nat \<times> nat \<times> nat) option \<times> ('k, 'v) HashBase" where
  "FindOrCreate P allocOk key value h =
    (case FindOrAllocate P allocOk value key h of
       (None, existed, h') \<Rightarrow> (None, h')
     | (Some p, existed, h') \<Rightarrow> (Some p, if \<not> existed then set_value p value h' else h'))"

definition Find :: "'k HashParams \<Rightarrow> 'k \<Rightarrow> ('k, 'v) HashBase \<Rightarrow> BaseIterator" where
  "Find P key h = FindIterator P key h"

definition Remove :: "'k HashParams \<Rightarrow> BaseIterator \<Rightarrow> ('k, 'v) HashBase
    \<Rightarrow> BaseIterator \<times> ('k, 'v) HashBase" where
  "Remove P iterator h = snd (RemoveIterator P iterator h)"

definition Begin :: "'k HashParams \<Rightarrow> ('k, 'v) HashBase \<Rightarrow> BaseIterator" where
  "Begin P h = new_BaseIterator P h (GetFirstBucket P h)"

definition End :: "'k HashParams \<Rightarrow> ('k, 'v) HashBase \<Rightarrow> BaseIterator" where
  "End P h = new_BaseIterator P h (kPaddedNumBuckets P)"

text \<open>\<^verbatim>\<open>HashSet\<close> has entries with a key only.\<close>

definition set_Insert :: "'k HashParams \<Rightarrow> bool \<Rightarrow> 'k \<Rightarrow> ('k, unit) HashBase
    \<Rightarrow> Result \<times> ('k, unit) HashBase" where
  "set_Insert P allocOk key h =
    (case FindOrAllocate P allocOk () key h of
       (None, existed, h') \<Rightarrow> (InsufficientMemory, h')
     | (Some p, existed, h') \<Rightarrow> (Success, h'))"

subsection \<open>What the operations do to the finite map\<close>

lemma FindEntry_spec:
  "FindEntry P k h = Some (b, g, i) \<longleftrightarrow> b = bucket_of P k \<and> search_chain k (hb_buckets h ! b) = Some (g, i)"
  by (auto simp: FindEntry_def FindBucket_def)

lemma FindValue_lookup: "FindValue P k h = lookup P h k"
proof (cases "search_chain k (hb_buckets h ! bucket_of P k)")
  case None
  then show ?thesis by (simp add: FindValue_def FindEntry_def FindBucket_def lookup_def search_chain_lookup)
next
  case (Some p)
  obtain g i where p: "p = (g, i)" by fastforce
  from search_chain_Some [OF Some [unfolded p]] Some p show ?thesis
    by (simp add: FindValue_def FindEntry_def FindBucket_def lookup_def entry_at_def)
qed

lemma FindPointer_lookup [simp]: "FindPointer P k h = lookup P h k"
  unfolding FindValue_lookup [symmetric] FindPointer_def FindValue_def by (cases "FindEntry P k h") auto

lemma map_of_update_nth:
  "distinct (map fst xs) \<Longrightarrow> p < length xs \<Longrightarrow> fst (xs ! p) = k \<Longrightarrow>
     map_of (xs[p := (k, v)]) = (map_of xs)(k \<mapsto> v)"
proof (induction xs arbitrary: p)
  case (Cons x xs)
  show ?case
  proof (cases p)
    case 0
    with Cons.prems show ?thesis by (cases x) (simp add: fun_eq_iff)
  next
    case (Suc q)
    with Cons.prems have "k \<in> fst ` set xs" by auto
    moreover have "fst x \<notin> fst ` set xs" using Cons.prems(1) by simp
    ultimately have "fst x \<noteq> k" by metis
    with Suc Cons show ?thesis by (cases x) (auto simp: fun_eq_iff)
  qed
qed simp

lemma map_of_swap_remove:
  assumes d: "distinct (map fst xs)" and p: "p < length xs"
  shows "map_of (swap_remove p xs) = (map_of xs)(fst (xs ! p) := None)"
    and "distinct (map fst (swap_remove p xs))" and "set (swap_remove p xs) \<subseteq> set xs"
    and "length xs = Suc (length (swap_remove p xs))"
proof -
  let ?ys = "swap_remove p xs"
  have ms: "mset xs = add_mset (xs ! p) (mset ?ys)"
    using mset_swap_remove [OF p] p by (simp add: nth_mem_mset)
  from ms have perm: "mset (map fst xs) = mset (fst (xs ! p) # map fst ?ys)" by simp
  then have "distinct (fst (xs ! p) # map fst ?ys)" using d mset_eq_imp_distinct_iff by blast
  then show dy: "distinct (map fst ?ys)" and "set ?ys \<subseteq> set xs"
    using arg_cong [OF ms, of set_mset] by auto
  have np: "fst (xs ! p) \<notin> fst ` set ?ys" using \<open>distinct (fst (xs ! p) # map fst ?ys)\<close> by simp
  show "length xs = Suc (length ?ys)" using arg_cong [OF ms, of size] by simp
  have mem: "set xs = insert (xs ! p) (set ?ys)" using arg_cong [OF ms, of set_mset] by simp
  show "map_of ?ys = (map_of xs)(fst (xs ! p) := None)"
  proof
    fix k
    show "map_of ?ys k = ((map_of xs)(fst (xs ! p) := None)) k"
    proof (cases "k = fst (xs ! p)")
      case True
      with np show ?thesis by (simp add: map_of_eq_None_iff)
    next
      case False
      have "map_of ?ys k = Some v \<longleftrightarrow> map_of xs k = Some v" for v
        using False by (cases "xs ! p") (auto simp: map_of_eq_Some_iff [OF dy] map_of_eq_Some_iff [OF d] mem)
      with False show ?thesis by (metis fun_upd_other option.exhaust)
    qed
  qed
qed

lemma set_value_spec:
  assumes inv: "hb_inv P h" and b: "b = bucket_of P k"
    and pos: "g < length (hb_buckets h ! b)" "i < length (hb_buckets h ! b ! g)"
      "fst (hb_buckets h ! b ! g ! i) = k"
  shows "hb_inv P (set_value (b, g, i) v h)"
    and "lookup P (set_value (b, g, i) v h) = (lookup P h)(k \<mapsto> v)"
proof -
  let ?c = "hb_buckets h ! b"
  let ?c' = "?c[g := (?c ! g)[i := (k, v)]]"
  have bl: "b < kPaddedNumBuckets P" using b by simp
  let ?p = "flat_pos g i ?c"
  have flat: "concat ?c' = (concat ?c)[?p := (k, v)]" by (rule concat_set_entry [OF pos(1,2)])
  have p: "?p < length (concat ?c)" "fst (concat ?c ! ?p) = k"
    using flat_pos_nth [OF pos(1,2)] pos(3) by simp_all
  have keys: "map fst (concat ?c') = map fst (concat ?c)"
    unfolding flat map_update using p by (simp add: list_update_same_conv)
  have ok: "chain_ok (Suc (moreEntries P)) ?c'"
    unfolding chain_ok_set_entry by (rule hb_invD(2) [OF inv bl])
  have dist: "distinct (map fst (concat ?c'))" unfolding keys by (rule hb_invD(3) [OF inv bl])
  have hash: "bucket_of P (fst x) = b" if "x \<in> set (concat ?c')" for x
  proof -
    have "fst x \<in> set (map fst (concat ?c))" unfolding keys [symmetric] using that by (simp del: set_concat)
    then show ?thesis using hb_invD(4) [OF inv bl] by (auto simp del: set_concat)
  qed
  have eq: "set_value (b, g, i) v h = h\<lparr>hb_buckets := (hb_buckets h)[b := ?c'], hb_numEntries := hb_numEntries h\<rparr>"
    using pos(3) by (simp add: set_value_def Let_def)
  have len: "length (concat ?c') = length (concat ?c)" using arg_cong [OF keys, of length] by simp
  show "hb_inv P (set_value (b, g, i) v h)"
    unfolding eq
  proof (rule hb_inv_set_chain [OF inv bl ok dist hash hb_invD(6) [OF inv]])
    show "hb_curBlock h = - 1 \<and> ?c' = []" if "hb_curBlock h = - 1"
      using hb_invD(7) [OF inv that bl] pos(1) by simp
  qed (simp_all only: len, simp)
  have "map_of (concat ?c') x = ((map_of (concat ?c))(k \<mapsto> v)) x" for x
    unfolding flat using map_of_update_nth [OF hb_invD(3) [OF inv bl] p] by simp
  then show "lookup P (set_value (b, g, i) v h) = (lookup P h)(k \<mapsto> v)"
    unfolding eq fun_eq_iff lookup_set_chain [OF inv bl] by (simp add: lookup_def b)
qed

lemma FindOrAllocate_spec:
  assumes inv: "hb_inv P h" and f: "FindOrAllocate P allocOk raw k h = (p, existed, h')"
  shows "hb_inv P h'"
    and "lookup P h' = (if p = None \<or> existed then lookup P h else (lookup P h)(k \<mapsto> raw))"
    and "existed \<longleftrightarrow> lookup P h k \<noteq> None" and "p = None \<Longrightarrow> \<not> allocOk \<and> \<not> existed"
    and "p = Some (b, g, i) \<Longrightarrow> b = bucket_of P k \<and> g < length (hb_buckets h' ! b)
           \<and> i < length (hb_buckets h' ! b ! g) \<and> fst (hb_buckets h' ! b ! g ! i) = k"
proof -
  let ?b = "bucket_of P k"
  let ?c = "hb_buckets h ! ?b"
  have bl: "?b < kPaddedNumBuckets P" by simp
  have len: "?b < length (hb_buckets h)" using hb_invD(1) [OF inv] bl by simp
  have ok: "chain_ok (Suc (moreEntries P)) ?c" by (rule hb_invD(2) [OF inv bl])
  note un = f [unfolded FindOrAllocate_def Let_def kEntriesInBucket_def]
  have extend: "hb_inv P (h1\<lparr>hb_buckets := (hb_buckets h)[?b := c'], hb_numEntries := hb_numEntries h + 1\<rparr>)
      \<and> lookup P (h1\<lparr>hb_buckets := (hb_buckets h)[?b := c'], hb_numEntries := hb_numEntries h + 1\<rparr>)
          = (lookup P h)(k \<mapsto> raw)"
    if new: "k \<notin> fst ` set (concat ?c)" and c': "chain_ok (Suc (moreEntries P)) c'"
      "concat c' = concat ?c @ [(k, raw)]" and h1: "blocks_ok h1" "hb_curBlock h1 \<noteq> - 1" for c' h1
  proof
    have d: "distinct (map fst (concat c'))" using hb_invD(3) [OF inv bl] new by (simp add: c'(2) del: set_concat)
    have hs: "bucket_of P (fst x) = ?b" if "x \<in> set (concat c')" for x
      using that hb_invD(4) [OF inv bl, of x] by (auto simp: c'(2) simp del: set_concat)
    show "hb_inv P (h1\<lparr>hb_buckets := (hb_buckets h)[?b := c'], hb_numEntries := hb_numEntries h + 1\<rparr>)"
      by (rule hb_inv_set_chain [OF inv bl c'(1) d hs h1(1)]) (assumption, use h1(2) in blast, simp only: c'(2), simp)
    have "map_of (concat c') x = ((map_of (concat ?c))(k \<mapsto> raw)) x" for x
      using map_of_eq_None_iff [of "concat ?c" k] new
      by (cases "x = k") (simp_all add: c'(2) map_add_def del: set_concat split: option.split)
    then show "lookup P (h1\<lparr>hb_buckets := (hb_buckets h)[?b := c'], hb_numEntries := hb_numEntries h + 1\<rparr>)
        = (lookup P h)(k \<mapsto> raw)"
      unfolding fun_eq_iff lookup_set_chain [OF inv bl] by (simp add: lookup_def)
  qed
  have none: "lookup P h k = None" if "k \<notin> fst ` set (concat ?c)"
    using that by (simp add: lookup_def map_of_eq_None_iff)
  have "hb_inv P h'
    \<and> lookup P h' = (if p = None \<or> existed then lookup P h else (lookup P h)(k \<mapsto> raw))
    \<and> (existed \<longleftrightarrow> lookup P h k \<noteq> None) \<and> (p = None \<longrightarrow> \<not> allocOk \<and> \<not> existed)
    \<and> (p = Some (b, g, i) \<longrightarrow> b = ?b \<and> g < length (hb_buckets h' ! b)
       \<and> i < length (hb_buckets h' ! b ! g) \<and> fst (hb_buckets h' ! b ! g ! i) = k)"
  proof (cases "slot_in_chain (Suc (moreEntries P)) k 0 ?c")
    case (Existing g' i')
    from slot_in_chain_Existing [OF this] have s: "search_chain k ?c = Some (g', i')" by auto
    from un Existing have "p = Some (?b, g', i')" "existed" "h' = h" by simp_all
    with search_chain_Some [OF s] inv show ?thesis by (auto simp: lookup_def)
  next
    case (Room g')
    let ?c' = "?c[g' := ?c ! g' @ [(k, raw)]]"
    from slot_in_chain_Room [OF Room ok, of "(k, raw)"] have c': "g' < length ?c"
      "k \<notin> fst ` set (concat ?c)" "concat ?c' = concat ?c @ [(k, raw)]"
      "chain_ok (Suc (moreEntries P)) ?c'" by auto
    have h': "p = Some (?b, g', length (?c ! g'))" "\<not> existed"
      "h' = h\<lparr>hb_buckets := (hb_buckets h)[?b := ?c'], hb_numEntries := hb_numEntries h + 1\<rparr>"
      using un Room by simp_all
    moreover have "hb_curBlock h \<noteq> - 1" using hb_invD(7) [OF inv _ bl] c'(1) by auto
    ultimately show ?thesis using extend [OF c'(2,4,3) hb_invD(6) [OF inv]] none [OF c'(2)] c'(1) len by auto
  next
    case ChainEnd
    let ?c' = "?c @ [[(k, raw)]]"
    from slot_in_chain_End [OF ChainEnd ok, of "(k, raw)"] have c': "k \<notin> fst ` set (concat ?c)"
      "chain_ok (Suc (moreEntries P)) ?c'" "concat ?c' = concat ?c @ [(k, raw)]" by auto
    obtain r h1 where a: "AllocateBucket allocOk h = (r, h1)" by fastforce
    note al = AllocateBucket_spec [OF hb_invD(6) [OF inv] a]
    show ?thesis
    proof (cases r)
      case None
      with un ChainEnd a have "p = None" "\<not> existed" "h' = h1" by simp_all
      moreover have "hb_inv P h1" "lookup P h1 = lookup P h"
        using inv al(1,3,5) hb_invD(6) [OF inv] table_ok_cong [OF al(1,2)] lookup_cong [OF al(1)]
        by (auto simp: hb_inv_def blocks_ok_def)
      ultimately show ?thesis using none [OF c'(1)] al(4) None by auto
    next
      case (Some q)
      with un ChainEnd a have "p = Some (?b, length ?c, 0)" "\<not> existed"
        "h' = h1\<lparr>hb_buckets := (hb_buckets h)[?b := ?c'], hb_numEntries := hb_numEntries h + 1\<rparr>"
        by (simp_all add: al(1,2))
      moreover have "hb_curBlock h1 \<noteq> - 1" using al(6) [of "fst q" "snd q"] Some by simp
      ultimately show ?thesis using extend [OF c' al(3)] none [OF c'(1)] len by auto
    qed
  qed
  then show "hb_inv P h'"
    and "lookup P h' = (if p = None \<or> existed then lookup P h else (lookup P h)(k \<mapsto> raw))"
    and "existed \<longleftrightarrow> lookup P h k \<noteq> None" and "p = None \<Longrightarrow> \<not> allocOk \<and> \<not> existed"
    and "p = Some (b, g, i) \<Longrightarrow> b = bucket_of P k \<and> g < length (hb_buckets h' ! b)
           \<and> i < length (hb_buckets h' ! b ! g) \<and> fst (hb_buckets h' ! b ! g ! i) = k" by blast+
qed

lemma Create_spec:
  assumes inv: "hb_inv P h" and c: "Create P allocOk k v h = (r, h')"
  shows "hb_inv P h'"
    and "lookup P h k \<noteq> None \<Longrightarrow> r = EntryExists \<and> lookup P h' = lookup P h"
    and "lookup P h k = None \<Longrightarrow> r = Success \<and> lookup P h' = (lookup P h)(k \<mapsto> v)
           \<or> r = InsufficientMemory \<and> \<not> allocOk \<and> lookup P h' = lookup P h"
proof -
  obtain p existed h1 where f: "FindOrAllocate P allocOk v k h = (p, existed, h1)" by (metis prod_cases3)
  note spec = FindOrAllocate_spec [OF inv f]
  have "hb_inv P h' \<and> (lookup P h k \<noteq> None \<longrightarrow> r = EntryExists \<and> lookup P h' = lookup P h)
    \<and> (lookup P h k = None \<longrightarrow> r = Success \<and> lookup P h' = (lookup P h)(k \<mapsto> v)
           \<or> r = InsufficientMemory \<and> \<not> allocOk \<and> lookup P h' = lookup P h)"
  proof (cases p)
    case None
    with c f spec(1-4) show ?thesis by (auto simp: Create_def)
  next
    case (Some q)
    obtain b g i where q: "q = (b, g, i)" by (metis prod_cases3)
    note pos = spec(5) [OF Some [unfolded q]]
    note sv = set_value_spec [OF spec(1), of b k g i v]
    from c f Some pos sv spec(1-3) show ?thesis by (auto simp: Create_def q split: if_splits)
  qed
  then show "hb_inv P h'"
    and "lookup P h k \<noteq> None \<Longrightarrow> r = EntryExists \<and> lookup P h' = lookup P h"
    and "lookup P h k = None \<Longrightarrow> r = Success \<and> lookup P h' = (lookup P h)(k \<mapsto> v)
           \<or> r = InsufficientMemory \<and> \<not> allocOk \<and> lookup P h' = lookup P h" by blast+
qed

lemma Insert_spec:
  assumes inv: "hb_inv P h" and c: "Insert P allocOk k v h = (r, h')"
  shows "hb_inv P h'"
    and "r = Success \<and> lookup P h' = (lookup P h)(k \<mapsto> v)
         \<or> r = InsufficientMemory \<and> \<not> allocOk \<and> lookup P h k = None \<and> lookup P h' = lookup P h"
proof -
  obtain p existed h1 where f: "FindOrAllocate P allocOk v k h = (p, existed, h1)" by (metis prod_cases3)
  note spec = FindOrAllocate_spec [OF inv f]
  have "hb_inv P h' \<and> (r = Success \<and> lookup P h' = (lookup P h)(k \<mapsto> v)
         \<or> r = InsufficientMemory \<and> \<not> allocOk \<and> lookup P h k = None \<and> lookup P h' = lookup P h)"
  proof (cases p)
    case None
    with c f spec(1-4) show ?thesis by (auto simp: Insert_def)
  next
    case (Some q)
    obtain b g i where q: "q = (b, g, i)" by (metis prod_cases3)
    note pos = spec(5) [OF Some [unfolded q]]
    note sv = set_value_spec [OF spec(1), of b k g i v]
    from c f Some pos sv spec(1,2) show ?thesis by (auto simp: Insert_def q split: if_splits)
  qed
  then show "hb_inv P h'"
    and "r = Success \<and> lookup P h' = (lookup P h)(k \<mapsto> v)
         \<or> r = InsufficientMemory \<and> \<not> allocOk \<and> lookup P h k = None \<and> lookup P h' = lookup P h" by blast+
qed

text \<open>Removing the entry at a position, as \<^verbatim>\<open>Erase\<close> and \<^verbatim>\<open>RemoveIterator\<close> do.\<close>

lemma remove_entry:
  assumes inv: "hb_inv P h" and b: "b < kPaddedNumBuckets P"
    and pos: "g < length (hb_buckets h ! b)" "i < length (hb_buckets h ! b ! g)"
  obtains l where "last_group g (drop g (hb_buckets h ! b)) None = Some l"
    "g \<le> l" "l < length (hb_buckets h ! b)"
    "concat (move_last g i l (hb_buckets h ! b))
       = swap_remove (flat_pos g i (hb_buckets h ! b)) (concat (hb_buckets h ! b))"
    "hb_inv P (h\<lparr>hb_buckets := (hb_buckets h)[b := move_last g i l (hb_buckets h ! b)],
                hb_numEntries := hb_numEntries h - 1\<rparr>)"
    "lookup P (h\<lparr>hb_buckets := (hb_buckets h)[b := move_last g i l (hb_buckets h ! b)],
                hb_numEntries := hb_numEntries h - 1\<rparr>)
       = (lookup P h)(fst (hb_buckets h ! b ! g ! i) := None)"
proof -
  let ?c = "hb_buckets h ! b"
  let ?p = "flat_pos g i ?c"
  have ok: "chain_ok (Suc (moreEntries P)) ?c" by (rule hb_invD(2) [OF inv b])
  have "?c ! g \<noteq> []" using pos(2) by auto
  from last_group_of [OF ok pos(1) this] obtain l where l: "last_group g (drop g ?c) None = Some l"
    "g \<le> l" "l < length ?c" "?c ! l \<noteq> []" "concat (drop (Suc l) ?c) = []" by blast
  let ?c' = "move_last g i l ?c"
  have flat: "concat ?c' = swap_remove ?p (concat ?c)" by (rule move_last_flat [OF pos l(2-5)])
  have p: "?p < length (concat ?c)" "concat ?c ! ?p = ?c ! g ! i" by (rule flat_pos_nth [OF pos])+
  note sr = map_of_swap_remove [OF hb_invD(3) [OF inv b] p(1), unfolded p(2)]
  have hs: "bucket_of P (fst x) = b" if "x \<in> set (concat ?c')" for x
    using that sr(3) hb_invD(4) [OF inv b, of x] unfolding flat by blast
  have n: "hb_numEntries h - 1 = hb_numEntries h + of_nat (length (concat ?c')) - of_nat (length (concat ?c))"
    unfolding flat using sr(4) by simp
  have inv': "hb_inv P (h\<lparr>hb_buckets := (hb_buckets h)[b := ?c'], hb_numEntries := hb_numEntries h - 1\<rparr>)"
    by (rule hb_inv_set_chain [OF inv b chain_ok_move_last [OF ok l(3,2,5)] _ hs hb_invD(6) [OF inv] _ n])
      (use hb_invD(7) [OF inv _ b] pos(1) in \<open>auto simp add: flat sr(2)\<close>)
  have key: "bucket_of P (fst (?c ! g ! i)) = b"
    using hb_invD(4) [OF inv b, of "?c ! g ! i"] p by (metis nth_mem)
  have "lookup P (h\<lparr>hb_buckets := (hb_buckets h)[b := ?c'], hb_numEntries := hb_numEntries h - 1\<rparr>)
      = (lookup P h)(fst (?c ! g ! i) := None)"
    unfolding fun_eq_iff lookup_set_chain [OF inv b] flat sr(1) using key by (auto simp: lookup_def)
  with that [OF l(1,2,3) flat inv'] show ?thesis by blast
qed

lemma Erase_spec:
  assumes inv: "hb_inv P h" and e: "Erase P k h = (r, h')"
  shows "hb_inv P h'" and "lookup P h' = (lookup P h)(k := None)"
    and "r = (if lookup P h k = None then Error else Success)"
proof -
  let ?b = "bucket_of P k"
  let ?c = "hb_buckets h ! ?b"
  have eq: "erase_search k ?c = search_chain k ?c"
    by (rule erase_search_eq [OF hb_invD(2) [OF inv bucket_of_less]])
  have "hb_inv P h' \<and> lookup P h' = (lookup P h)(k := None) \<and> r = (if lookup P h k = None then Error else Success)"
  proof (cases "search_chain k ?c")
    case None
    then have "lookup P h k = None" by (simp add: lookup_def search_chain_lookup)
    with None e eq inv show ?thesis by (auto simp: Erase_def Let_def)
  next
    case (Some q)
    obtain g i where q: "q = (g, i)" by fastforce
    note pos = search_chain_Some [OF Some [unfolded q]]
    obtain l where "last_group g (drop g ?c) None = Some l"
      "hb_inv P (h\<lparr>hb_buckets := (hb_buckets h)[?b := move_last g i l ?c], hb_numEntries := hb_numEntries h - 1\<rparr>)"
      "lookup P (h\<lparr>hb_buckets := (hb_buckets h)[?b := move_last g i l ?c], hb_numEntries := hb_numEntries h - 1\<rparr>)
        = (lookup P h)(k := None)"
      using remove_entry [OF inv bucket_of_less, of g k i] pos by metis
    with e eq Some q pos show ?thesis by (auto simp: Erase_def Let_def lookup_def)
  qed
  then show "hb_inv P h'" and "lookup P h' = (lookup P h)(k := None)"
    and "r = (if lookup P h k = None then Error else Success)" by blast+
qed


subsection \<open>The entries as a whole\<close>

lemma all_entries_set:
  assumes "hb_inv P h"
  shows "x \<in> set (all_entries h) \<longleftrightarrow> (\<exists>b < kPaddedNumBuckets P. x \<in> set (concat (hb_buckets h ! b)))"
  using hb_invD(1) [OF assms] by (auto simp: all_entries_def in_set_conv_nth [of _ "hb_buckets h"] Bex_def)

lemma distinct_concat_keys:
  assumes "\<And>b. b < length bs \<Longrightarrow> distinct (map f (bs ! b))"
    and "\<And>b x. b < length bs \<Longrightarrow> x \<in> set (bs ! b) \<Longrightarrow> idx (f x) = n + b"
  shows "distinct (map f (concat bs))"
  using assms
proof (induction bs arbitrary: n)
  case (Cons c bs)
  have tail: "distinct (map f (concat bs))"
  proof (rule Cons.IH [of "Suc n"])
    show "distinct (map f (bs ! b))" if "b < length bs" for b using Cons.prems(1) [of "Suc b"] that by simp
    show "idx (f x) = Suc n + b" if "b < length bs" "x \<in> set (bs ! b)" for b x
      using Cons.prems(2) [of "Suc b" x] that by simp
  qed
  have "f x \<noteq> f y" if x: "x \<in> set c" and y: "y \<in> set (concat bs)" for x y
  proof -
    from y obtain b where "b < length bs" "y \<in> set (bs ! b)" by (auto simp: in_set_conv_nth [of _ bs])
    then have "idx (f y) = n + Suc b" using Cons.prems(2) [of "Suc b" y] by simp
    moreover have "idx (f x) = n" using Cons.prems(2) [of 0 x] x by simp
    ultimately show ?thesis by auto
  qed
  then have "f ` set c \<inter> f ` set (concat bs) = {}" by blast
  moreover have "distinct (map f c)" using Cons.prems(1) [of 0] by simp
  ultimately show ?case using tail by simp
qed simp

lemma all_entries_keys:
  assumes inv: "hb_inv P h"
  shows "distinct (map fst (all_entries h))"
  unfolding all_entries_def
proof (rule distinct_concat_keys [where idx = "bucket_of P" and n = 0])
  fix b assume "b < length (map concat (hb_buckets h))"
  then have b: "b < kPaddedNumBuckets P" "map concat (hb_buckets h) ! b = concat (hb_buckets h ! b)"
    using hb_invD(1) [OF inv] by simp_all
  show "distinct (map fst (map concat (hb_buckets h) ! b))" unfolding b(2) by (rule hb_invD(3) [OF inv b(1)])
  show "bucket_of P (fst x) = 0 + b" if "x \<in> set (map concat (hb_buckets h) ! b)" for x
    using hb_invD(4) [OF inv b(1), of x] that unfolding b(2) by simp
qed

lemma lookup_all_entries:
  assumes inv: "hb_inv P h"
  shows "lookup P h = map_of (all_entries h)"
proof
  fix k
  have d: "distinct (map fst (concat (hb_buckets h ! bucket_of P k)))" by (rule hb_invD(3) [OF inv]) simp
  have "lookup P h k = Some v \<longleftrightarrow> map_of (all_entries h) k = Some v" for v
    unfolding lookup_def map_of_eq_Some_iff [OF d] map_of_eq_Some_iff [OF all_entries_keys [OF inv]]
      all_entries_set [OF inv]
    using hb_invD(4) [OF inv, of _ "(k, v)"] bucket_of_less [of P k] by (metis fst_conv)
  then show "lookup P h k = map_of (all_entries h) k" by (metis option.exhaust)
qed

lemma Size_card:
  assumes inv: "hb_inv P h"
  shows "finite (dom (lookup P h))" and "Size h = card (dom (lookup P h)) mod 2 ^ 32"
proof -
  have "dom (lookup P h) = set (map fst (all_entries h))"
    by (simp add: lookup_all_entries [OF inv] dom_map_of_conv_image_fst)
  moreover have "card (set (map fst (all_entries h))) = length (all_entries h)"
    using distinct_card [OF all_entries_keys [OF inv]] by simp
  ultimately show "finite (dom (lookup P h))" "Size h = card (dom (lookup P h)) mod 2 ^ 32"
    using hb_invD(5) [OF inv] by (simp_all add: Size_def unat_of_nat)
qed

lemma lookup_curBlock:
  assumes "hb_inv P h" and "\<not> 0 \<le> hb_curBlock h"
  shows "lookup P h k = None"
proof -
  have "hb_curBlock h = - 1" using hb_invD(6) [OF assms(1)] assms(2) by (auto simp: blocks_ok_def)
  then show ?thesis using hb_invD(7) [OF assms(1), of "bucket_of P k"] by (simp add: lookup_def)
qed

lemma Reset_spec:
  assumes inv: "hb_inv P h"
  shows "hb_inv P (Reset P h)" and "lookup P (Reset P h) = Map.empty"
  using inv
  by (auto simp: Reset_def hb_inv_def table_ok_def blocks_ok_def all_entries_def lookup_def fun_eq_iff
      intro: lookup_curBlock [OF inv, unfolded lookup_def])

lemma Clear_spec:
  assumes inv: "hb_inv P h"
  shows "hb_inv P (Clear P h)" and "lookup P (Clear P h) = Map.empty"
    and "int i \<le> hb_curBlock h \<Longrightarrow> \<not> pMemory (hb_blocks (Clear P h) i)"
  using inv
  by (auto simp: Clear_def hb_inv_def table_ok_def blocks_ok_def all_entries_def lookup_def fun_eq_iff
      intro: lookup_curBlock [OF inv, unfolded lookup_def])

lemma move_HashBase_spec:
  assumes "hb_inv P h" and "move_HashBase P h = (a, b)"
  shows "hb_inv P a" "lookup P a = lookup P h" "hb_inv P b" "lookup P b = Map.empty"
  using assms hb_inv_new [of P]
  by (auto simp: move_HashBase_def hb_inv_def table_ok_def blocks_ok_def all_entries_def lookup_def)

lemma Swap_spec:
  assumes "hb_inv P h" and "hb_inv P h2" and "hb_curBlock h < 32" "hb_curBlock h2 < 32"
    and s: "Swap h h2 = (a, b)"
  shows "hb_inv P a" "lookup P a = lookup P h2" "hb_inv P b" "lookup P b = lookup P h"
proof -
  have t: "hb_buckets a = hb_buckets h2" "hb_numEntries a = hb_numEntries h2" "hb_curBlock a = hb_curBlock h2"
    "hb_buckets b = hb_buckets h" "hb_numEntries b = hb_numEntries h" "hb_curBlock b = hb_curBlock h"
    using s by (auto simp: Swap_def Let_def)
  let ?n = "nat (min (max (hb_curBlock h) (hb_curBlock h2) + 1) (int kNumHashBlocks))"
  have blk: "hb_blocks a i = (if i < ?n then hb_blocks h2 i else hb_blocks h i)"
    "hb_blocks b i = (if i < ?n then hb_blocks h i else hb_blocks h2 i)" for i
    using s by (auto simp: Swap_def Let_def)
  have lim: "int i \<le> hb_curBlock h \<Longrightarrow> i < ?n" "int i \<le> hb_curBlock h2 \<Longrightarrow> i < ?n" for i
    using assms(3,4) by (auto simp: kNumHashBlocks_def)
  have A: "- 1 \<le> hb_curBlock h" "- 1 \<le> hb_curBlock h2"
    "\<And>i. if int i \<le> hb_curBlock h then pMemory (hb_blocks h i) \<and> curBucket (hb_blocks h i) \<le> 2 ^ i
         else curBucket (hb_blocks h i) = 0"
    "\<And>i. if int i \<le> hb_curBlock h2 then pMemory (hb_blocks h2 i) \<and> curBucket (hb_blocks h2 i) \<le> 2 ^ i
         else curBucket (hb_blocks h2 i) = 0"
    using hb_invD(6) [OF assms(1)] hb_invD(6) [OF assms(2)] by (auto simp: blocks_ok_def)
  have "if int i \<le> hb_curBlock a then pMemory (hb_blocks a i) \<and> curBucket (hb_blocks a i) \<le> 2 ^ i
        else curBucket (hb_blocks a i) = 0" for i
    using A(3) [of i] A(4) [of i] lim [of i] unfolding t blk by (auto split: if_splits)
  moreover have "if int i \<le> hb_curBlock b then pMemory (hb_blocks b i) \<and> curBucket (hb_blocks b i) \<le> 2 ^ i
        else curBucket (hb_blocks b i) = 0" for i
    using A(3) [of i] A(4) [of i] lim [of i] unfolding t blk by (auto split: if_splits)
  ultimately have "blocks_ok a" "blocks_ok b" using A(1,2) unfolding blocks_ok_def t by blast+
  then show "hb_inv P a" "lookup P a = lookup P h2" "hb_inv P b" "lookup P b = lookup P h"
    using assms(1,2) table_ok_cong [OF t(1,2)] table_ok_cong [OF t(4,5)] lookup_cong [OF t(1)] lookup_cong [OF t(4)]
    unfolding hb_inv_def t by simp_all
qed

subsection \<open>The contract of a finite map\<close>

text \<open>
  Calls and answers, and the finite map they act on.  An allocation may fail only where a key is
  new; nothing is stored then.
\<close>

datatype ('k, 'v) map_call =
  CallCreate bool 'k 'v | CallInsert bool 'k 'v | CallErase 'k | CallFind 'k | CallContains 'k | CallClear

datatype 'v map_answer = ResultAnswer Result | ValueAnswer "'v option" | BoolAnswer bool | NoAnswer

inductive map_step :: "('k, 'v) map_call \<Rightarrow> ('k \<rightharpoonup> 'v) \<Rightarrow> 'v map_answer \<Rightarrow> ('k \<rightharpoonup> 'v) \<Rightarrow> bool" where
  create_new: "m k = None \<Longrightarrow> map_step (CallCreate ok k v) m (ResultAnswer Success) (m(k \<mapsto> v))"
| create_old: "m k \<noteq> None \<Longrightarrow> map_step (CallCreate ok k v) m (ResultAnswer EntryExists) m"
| create_full: "m k = None \<Longrightarrow> \<not> ok \<Longrightarrow> map_step (CallCreate ok k v) m (ResultAnswer InsufficientMemory) m"
| insert_ok: "map_step (CallInsert ok k v) m (ResultAnswer Success) (m(k \<mapsto> v))"
| insert_full: "m k = None \<Longrightarrow> \<not> ok \<Longrightarrow> map_step (CallInsert ok k v) m (ResultAnswer InsufficientMemory) m"
| erase: "map_step (CallErase k) m (ResultAnswer (if m k = None then Error else Success)) (m(k := None))"
| find: "map_step (CallFind k) m (ValueAnswer (m k)) m"
| contains: "map_step (CallContains k) m (BoolAnswer (m k \<noteq> None)) m"
| clear: "map_step CallClear m NoAnswer Map.empty"

inductive_simps map_step_simps [simp]:
  "map_step (CallCreate ok k v) m a m'"
  "map_step (CallInsert ok k v) m a m'"
  "map_step (CallErase k) m a m'"
  "map_step (CallFind k) m a m'"
  "map_step (CallContains k) m a m'"
  "map_step CallClear m a m'"

fun map_run :: "('k, 'v) map_call list \<Rightarrow> ('k \<rightharpoonup> 'v) \<Rightarrow> 'v map_answer list \<Rightarrow> ('k \<rightharpoonup> 'v) \<Rightarrow> bool" where
  "map_run [] m as m' \<longleftrightarrow> as = [] \<and> m' = m"
| "map_run (c # cs) m as m' \<longleftrightarrow> (\<exists>a as' m1. as = a # as' \<and> map_step c m a m1 \<and> map_run cs m1 as' m')"

fun run_calls :: "(('k, 'v) map_call \<Rightarrow> 'm \<Rightarrow> 'v map_answer \<times> 'm) \<Rightarrow> ('k, 'v) map_call list \<Rightarrow> 'm
    \<Rightarrow> 'v map_answer list \<times> 'm" where
  "run_calls f [] m = ([], m)"
| "run_calls f (c # cs) m = (let (a, m1) = f c m; (as, m') = run_calls f cs m1 in (a # as, m'))"

locale finite_map =
  fixes inv :: "'m \<Rightarrow> bool" and look :: "'m \<Rightarrow> 'k \<Rightarrow> 'v option"
    and step :: "('k, 'v) map_call \<Rightarrow> 'm \<Rightarrow> 'v map_answer \<times> 'm"
  assumes step_inv: "inv m \<Longrightarrow> step c m = (a, m') \<Longrightarrow> inv m'"
    and step_map: "inv m \<Longrightarrow> step c m = (a, m') \<Longrightarrow> map_step c (look m) a (look m')"
begin

lemma run_refines:
  "inv m \<Longrightarrow> run_calls step cs m = (as, m') \<Longrightarrow> inv m' \<and> map_run cs (look m) as (look m')"
proof (induction cs arbitrary: m as m')
  case (Cons c cs)
  obtain a m1 where s: "step c m = (a, m1)" by fastforce
  obtain as' m2 where r: "run_calls step cs m1 = (as', m2)" by fastforce
  from Cons.prems s r have "as = a # as'" "m2 = m'" by auto
  with Cons.IH [OF step_inv [OF Cons.prems(1) s] r] step_map [OF Cons.prems(1) s] show ?case by auto
qed auto

text \<open>An insertion is seen by the next lookup of its key, and by no other.\<close>

lemma find_after_create:
  assumes "inv m" and "step (CallCreate ok k v) m = (ResultAnswer Success, m1)"
    and "step (CallFind k') m1 = (a, m2)"
  shows "a = ValueAnswer (if k' = k then Some v else look m k')"
  using step_map [OF assms(1,2)] step_map [OF step_inv [OF assms(1,2)] assms(3)] by auto

text \<open>Moving a value from one key to another, the pattern of a session that changes its identifier.\<close>

lemma rekey:
  assumes "inv m" and "look m k = Some v" and "step (CallErase k) m = (a, m1)"
    and "step (CallCreate ok k' v) m1 = (b, m2)"
  shows "inv m2" and "k' \<noteq> k \<Longrightarrow> look m k' \<noteq> None \<Longrightarrow> b = ResultAnswer EntryExists"
    and "b = ResultAnswer Success \<Longrightarrow> look m2 = (look m)(k := None, k' \<mapsto> v)"
    and "b \<noteq> ResultAnswer Success \<Longrightarrow> look m2 = (look m)(k := None)"
  using step_inv [OF step_inv [OF assms(1,3)] assms(4)] step_map [OF assms(1,3)]
    step_map [OF step_inv [OF assms(1,3)] assms(4)]
  by auto

end

text \<open>The calls on a \<^verbatim>\<open>HashMap\<close>.\<close>

definition HashMap_call :: "'k HashParams \<Rightarrow> ('k, 'v) map_call \<Rightarrow> ('k, 'v) HashBase
    \<Rightarrow> 'v map_answer \<times> ('k, 'v) HashBase" where
  "HashMap_call P c h =
    (case c of
       CallCreate ok k v \<Rightarrow> apfst ResultAnswer (Create P ok k v h)
     | CallInsert ok k v \<Rightarrow> apfst ResultAnswer (Insert P ok k v h)
     | CallErase k \<Rightarrow> apfst ResultAnswer (Erase P k h)
     | CallFind k \<Rightarrow> (ValueAnswer (FindValue P k h), h)
     | CallContains k \<Rightarrow> (BoolAnswer (Contains P k h), h)
     | CallClear \<Rightarrow> (NoAnswer, Clear P h))"

interpretation hash_map: finite_map "hb_inv P" "lookup P" "HashMap_call P" for P
proof
  fix m m' :: "('a, 'b) HashBase" and c a
  assume inv: "hb_inv P m" and s: "HashMap_call P c m = (a, m')"
  have "hb_inv P m' \<and> map_step c (lookup P m) a (lookup P m')"
  proof (cases c)
    case (CallCreate ok k v)
    obtain r h where c: "Create P ok k v m = (r, h)" by fastforce
    from Create_spec [OF inv c] s c CallCreate show ?thesis
      by (cases "lookup P m k = None") (auto simp: HashMap_call_def)
  next
    case (CallInsert ok k v)
    obtain r h where c: "Insert P ok k v m = (r, h)" by fastforce
    from Insert_spec [OF inv c] s c CallInsert show ?thesis by (auto simp: HashMap_call_def)
  next
    case (CallErase k)
    obtain r h where c: "Erase P k m = (r, h)" by fastforce
    from Erase_spec [OF inv c] s c CallErase show ?thesis by (auto simp: HashMap_call_def)
  next
    case CallClear
    with s Clear_spec(1,2) [OF inv] show ?thesis by (auto simp: HashMap_call_def)
  qed (use inv s in \<open>auto simp: HashMap_call_def FindValue_lookup Contains_lookup\<close>)
  then show "hb_inv P m'" and "map_step c (lookup P m) a (lookup P m')" by blast+
qed

subsection \<open>Properties\<close>

text \<open>C7.
  A hash map refines a finite map.  Whatever sequence of \<^verbatim>\<open>Create\<close>, \<^verbatim>\<open>Insert\<close>, \<^verbatim>\<open>Erase\<close>, \<^verbatim>\<open>FindValue\<close>,
  \<^verbatim>\<open>Contains\<close> and \<^verbatim>\<open>Clear\<close> is run on a new container, for every hash function, number of buckets
  and group size, and whichever allocations fail, the answers are those of a finite map run through
  the same calls, and the number of entries kept is the number of keys of that map (modulo
  \<open>2 ^ 32\<close>, its width).
\<close>

theorem HashMap_refines_finite_map:
  "\<exists>m. map_run calls Map.empty (fst (run_calls (HashMap_call P) calls (new_HashBase P))) m
     \<and> finite (dom m)
     \<and> Size (snd (run_calls (HashMap_call P) calls (new_HashBase P))) = card (dom m) mod 2 ^ 32"
proof -
  obtain as h where r: "run_calls (HashMap_call P) calls (new_HashBase P) = (as, h)" by fastforce
  from hash_map.run_refines [OF hb_inv_new r] have "hb_inv P h" "map_run calls Map.empty as (lookup P h)"
    by (simp_all add: lookup_new)
  with Size_card [of P h] show ?thesis by (intro exI [of _ "lookup P h"]) (simp add: r)
qed

text \<open>
  \<^verbatim>\<open>Clear\<close> frees every block in use, but \<^verbatim>\<open>Reset\<close> forgets how many there are: it keeps the memory of
  all the blocks and sets the current block to none, so a \<^verbatim>\<open>Clear\<close> (which is also what the destructor
  runs) right after it frees nothing.
\<close>

theorem Reset_then_Clear_leaks:
  assumes "hb_inv P h" and "int i \<le> hb_curBlock h"
  shows "\<not> pMemory (hb_blocks (Clear P h) i) \<and> pMemory (hb_blocks (Clear P (Reset P h)) i)"
proof
  show "\<not> pMemory (hb_blocks (Clear P h) i)" by (rule Clear_spec(3) [OF assms])
  have "0 \<le> hb_curBlock h" using assms(2) by linarith
  moreover have "pMemory (hb_blocks h i)"
    using hb_invD(6) [OF assms(1)] assms(2) by (auto simp: blocks_ok_def dest!: spec [of _ i])
  ultimately show "pMemory (hb_blocks (Clear P (Reset P h)) i)"
    using assms(2) by (simp add: Clear_def Reset_def)
qed

definition sample_params :: "u32 HashParams" where
  "sample_params = \<lparr>hashFunc = id, logBuckets = 2, moreEntries = 1\<rparr>"

definition sample_map :: "(u32, nat) HashBase" where
  "sample_map = snd (run_calls (HashMap_call sample_params)
     [CallCreate True 3 10, CallCreate True 7 20, CallCreate True 11 30, CallInsert True 1 40]
     (new_HashBase sample_params))"

lemma sample_map_inv: "hb_inv sample_params sample_map"
  unfolding sample_map_def
  using hash_map.run_refines [OF hb_inv_new, of sample_params] by (metis prod.collapse)

theorem Reset_then_Clear_leaks_witness:
  "hb_inv sample_params sample_map \<and> int 1 \<le> hb_curBlock sample_map
   \<and> pMemory (hb_blocks (Clear sample_params (Reset sample_params sample_map)) 1)"
proof -
  have c: "int 1 \<le> hb_curBlock sample_map" by code_simp
  show ?thesis using Reset_then_Clear_leaks [OF sample_map_inv c] sample_map_inv c by blast
qed

end
