(* ===== verification/Hash_Iter.thy ===== *)
theory Hash_Iter
  imports Hash_Map
begin

text \<open>
  Iteration over a hash container, also while entries are removed from it.  \<open>remaining\<close> is the list
  of entries an iterator has still to visit; \<^verbatim>\<open>++it\<close> drops its head, and removing the entry at the
  iterator takes exactly that entry out of it.  The loops of the program over a container,
  \<^verbatim>\<open>for (auto& pair : container)\<close> and \<^verbatim>\<open>while (it != container.End())\<close> with a \<^verbatim>\<open>Remove\<close>, are \<open>sweep\<close>.
\<close>

subsection \<open>The entries left\<close>

definition entries_in :: "('k, 'v) HashBase \<Rightarrow> nat \<Rightarrow> ('k \<times> 'v) list" where
  "entries_in h b = concat (hb_buckets h ! b)"

text \<open>The buckets after \<open>cur\<close> and before \<open>start\<close>, around the end of the table.\<close>

definition buckets_after :: "nat \<Rightarrow> nat \<Rightarrow> nat \<Rightarrow> nat list" where
  "buckets_after N start cur = map (\<lambda>j. (cur + 1 + j) mod N) [0..<(start + N - 1 - cur) mod N]"

definition remaining :: "'k HashParams \<Rightarrow> ('k, 'v) HashBase \<Rightarrow> BaseIterator \<Rightarrow> ('k \<times> 'v) list" where
  "remaining P h it =
    (case it_group it of
       None \<Rightarrow> []
     | Some g \<Rightarrow>
         drop (flat_pos g (it_index it) (hb_buckets h ! it_currentBucket it)) (entries_in h (it_currentBucket it))
         @ concat (map (entries_in h)
             (buckets_after (kPaddedNumBuckets P) (it_startBucket it) (it_currentBucket it))))"

definition it_ok :: "'k HashParams \<Rightarrow> ('k, 'v) HashBase \<Rightarrow> BaseIterator \<Rightarrow> bool" where
  "it_ok P h it \<longleftrightarrow>
    (case it_group it of
       None \<Rightarrow> it_currentBucket it = kPaddedNumBuckets P \<and> it_index it = 0
     | Some g \<Rightarrow> it_startBucket it < kPaddedNumBuckets P \<and> it_currentBucket it < kPaddedNumBuckets P
         \<and> g < length (hb_buckets h ! it_currentBucket it)
         \<and> it_index it < length (hb_buckets h ! it_currentBucket it ! g))"

subsection \<open>Buckets in order\<close>

lemma Suc_mod: "cur < N \<Longrightarrow> Suc cur mod N = (if Suc cur = N then 0 else Suc cur)"
  by simp

text \<open>The number of buckets in between.\<close>

lemma buckets_between:
  assumes "start < (N :: nat)" and "cur < N"
  shows "(start + N - 1 - cur) mod N = (if start \<le> cur then start + N - 1 - cur else start - 1 - cur)"
proof (cases "start \<le> cur")
  case False
  then have "start + N - 1 - cur = (start - 1 - cur) + N" by arith
  moreover have "start - 1 - cur < N" using assms by simp
  ultimately show ?thesis using False by (simp only: mod_add_self2 mod_less if_False)
next
  case True
  then have "start + N - 1 - cur < N" using assms by linarith
  with True show ?thesis by (simp only: mod_less if_True)
qed

lemma buckets_between_step:
  assumes "start < N" and "cur < N" and "n = (if Suc cur = N then 0 else Suc cur)"
  shows "n = start \<Longrightarrow> (start + N - 1 - cur) mod N = 0"
    and "n \<noteq> start \<Longrightarrow> (start + N - 1 - cur) mod N = Suc ((start + N - 1 - n) mod N)"
proof -
  have n: "n < N" using assms by simp
  show "n = start \<Longrightarrow> (start + N - 1 - cur) mod N = 0"
    unfolding buckets_between [OF assms(1,2)] using assms by (cases "Suc cur = N") auto
  show "n \<noteq> start \<Longrightarrow> (start + N - 1 - cur) mod N = Suc ((start + N - 1 - n) mod N)"
    unfolding buckets_between [OF assms(1,2)] buckets_between [OF assms(1) n]
    using assms by (cases "Suc cur = N") auto
qed

lemma buckets_after_step:
  assumes "start < N" and "cur < N"
  shows "buckets_after N start cur =
    (if Suc cur mod N = start then [] else Suc cur mod N # buckets_after N start (Suc cur mod N))"
proof -
  define n where "n = Suc cur mod N"
  note d = buckets_between_step [OF assms, of n, unfolded n_def, OF Suc_mod [OF assms(2)], folded n_def]
  have upt: "[0..<Suc m] = 0 # map Suc [0..<m]" for m by (metis map_Suc_upt upt_conv_Cons zero_less_Suc)
  have shift: "(cur + 1 + Suc j) mod N = (n + 1 + j) mod N" for j
    unfolding n_def using mod_add_left_eq [of "Suc cur" N "Suc j"] by (metis Suc_eq_plus1 add.assoc plus_1_eq_Suc)
  show ?thesis
  proof (cases "n = start")
    case True
    with d(1) show ?thesis by (simp add: buckets_after_def flip: n_def)
  next
    case False
    have "buckets_after N start cur = n # buckets_after N start n"
      unfolding buckets_after_def d(2) [OF False] upt list.map map_map o_def shift by (simp add: n_def)
    with False show ?thesis by (simp flip: n_def)
  qed
qed

lemma bucket_in_use_entries:
  assumes "hb_inv P h" and "b < kPaddedNumBuckets P"
  shows "bucket_in_use h b \<longleftrightarrow> entries_in h b \<noteq> []"
proof (cases "hb_buckets h ! b")
  case (Cons g gs)
  with hb_invD(2) [OF assms] show ?thesis by (auto simp: bucket_in_use_def entries_in_def)
qed (simp add: bucket_in_use_def entries_in_def)

lemma next_bucket_spec:
  assumes "hb_inv P h" and "start < kPaddedNumBuckets P" and "cur < kPaddedNumBuckets P"
    and "length (buckets_after (kPaddedNumBuckets P) start cur) < rounds"
  defines "r \<equiv> next_bucket P h start rounds cur" and "later \<equiv> buckets_after (kPaddedNumBuckets P) start"
  shows "if r = start then concat (map (entries_in h) (later cur)) = []
         else r < kPaddedNumBuckets P \<and> bucket_in_use h r
           \<and> concat (map (entries_in h) (later cur)) = entries_in h r @ concat (map (entries_in h) (later r))"
  using assms(3,4) unfolding r_def later_def
proof (induction rounds arbitrary: cur)
  case (Suc rounds)
  let ?n = "Suc cur mod kPaddedNumBuckets P"
  have n: "?n < kPaddedNumBuckets P" by (simp add: kPaddedNumBuckets_def)
  note step = buckets_after_step [OF assms(2) Suc.prems(1)]
  show ?case
  proof (cases "?n = start")
    case True
    with step show ?thesis by (simp add: Let_def)
  next
    case False
    then have l: "buckets_after (kPaddedNumBuckets P) start cur
        = ?n # buckets_after (kPaddedNumBuckets P) start ?n" using step by simp
    show ?thesis
    proof (cases "bucket_in_use h ?n")
      case True
      with False n show ?thesis by (simp add: Let_def l)
    next
      case no: False
      then have e: "entries_in h ?n = []" using bucket_in_use_entries [OF assms(1) n] by simp
      from Suc.prems(2) l have "length (buckets_after (kPaddedNumBuckets P) start ?n) < rounds" by simp
      from Suc.IH [OF n this] show ?thesis using no False e by (simp add: Let_def l)
    qed
  qed
qed simp

subsection \<open>One step\<close>

lemma buckets_after_length: "cur < N \<Longrightarrow> length (buckets_after N start cur) < N"
  by (simp add: buckets_after_def)

text \<open>Past the last entry of a chain the iterator goes on to the next bucket in use, or ends.\<close>

lemma Next_exhausted:
  assumes inv: "hb_inv P h" and g: "it_group it = Some g"
    and b: "it_startBucket it < kPaddedNumBuckets P" "it_currentBucket it < kPaddedNumBuckets P"
    and no: "\<not> it_index it + 1 < length (hb_buckets h ! it_currentBucket it ! g)"
      "\<not> (Suc g < length (hb_buckets h ! it_currentBucket it)
          \<and> it_index it + 1 = length (hb_buckets h ! it_currentBucket it ! g)
          \<and> hb_buckets h ! it_currentBucket it ! Suc g \<noteq> [])"
  shows "it_ok P h (Next P h it)"
    and "remaining P h (Next P h it) = concat (map (entries_in h)
           (buckets_after (kPaddedNumBuckets P) (it_startBucket it) (it_currentBucket it)))"
proof -
  let ?s = "it_startBucket it" and ?c = "it_currentBucket it" and ?N = "kPaddedNumBuckets P"
  define r where "r = next_bucket P h ?s ?N ?c"
  have r: "if r = ?s then concat (map (entries_in h) (buckets_after ?N ?s ?c)) = []
     else r < ?N \<and> bucket_in_use h r
       \<and> concat (map (entries_in h) (buckets_after ?N ?s ?c))
         = entries_in h r @ concat (map (entries_in h) (buckets_after ?N ?s r))"
    unfolding r_def by (rule next_bucket_spec [OF inv b buckets_after_length [OF b(2)]])
  have eq: "Next P h it = (if r \<noteq> ?s then it\<lparr>it_currentBucket := r, it_group := Some 0, it_index := 0\<rparr>
      else it\<lparr>it_currentBucket := ?N, it_group := None, it_index := 0\<rparr>)"
    using g no unfolding Next_def Let_def r_def by (simp only: option.case) argo
  show "it_ok P h (Next P h it)"
    using r b unfolding eq by (auto simp: it_ok_def bucket_in_use_def)
  show "remaining P h (Next P h it) = concat (map (entries_in h) (buckets_after ?N ?s ?c))"
    using r unfolding eq by (auto simp: remaining_def flat_pos_def simp del: concat_eq_Nil_conv)
qed

lemma remaining_Cons:
  assumes "hb_inv P h" and "it_ok P h it" and "it_group it = Some g"
  shows "remaining P h it = Get h it #
    drop (Suc (flat_pos g (it_index it) (hb_buckets h ! it_currentBucket it))) (entries_in h (it_currentBucket it))
    @ concat (map (entries_in h)
        (buckets_after (kPaddedNumBuckets P) (it_startBucket it) (it_currentBucket it)))"
proof -
  have pos: "g < length (hb_buckets h ! it_currentBucket it)"
    "it_index it < length (hb_buckets h ! it_currentBucket it ! g)"
    using assms(2,3) by (auto simp: it_ok_def)
  note fp = flat_pos_nth [OF pos]
  have "drop (flat_pos g (it_index it) (hb_buckets h ! it_currentBucket it)) (entries_in h (it_currentBucket it))
    = Get h it # drop (Suc (flat_pos g (it_index it) (hb_buckets h ! it_currentBucket it)))
        (entries_in h (it_currentBucket it))"
    using fp assms(3) unfolding entries_in_def
    by (subst Cons_nth_drop_Suc [symmetric]) (simp_all add: Get_def entry_at_def)
  then show ?thesis unfolding remaining_def assms(3) by (simp only: option.case append_Cons)
qed

lemma chain_tail_empty:
  assumes "chain_ok n c" and "g < length c" and "\<not> (Suc g < length c \<and> c ! Suc g \<noteq> [])" and "0 < n"
  shows "concat (drop (Suc g) c) = []"
proof (cases "Suc g < length c")
  case True
  then have d: "drop (Suc g) c = c ! Suc g # drop (Suc (Suc g)) c" by (simp add: Cons_nth_drop_Suc)
  moreover have "c ! Suc g = []" using True assms(3) by simp
  ultimately show ?thesis using chain_ok_drop [OF assms(1), of "Suc g"] assms(4) by simp
qed simp

lemma Next_spec:
  assumes inv: "hb_inv P h" and ok: "it_ok P h it"
  shows "it_ok P h (Next P h it)" and "remaining P h (Next P h it) = tl (remaining P h it)"
proof -
  have "it_ok P h (Next P h it) \<and> remaining P h (Next P h it) = tl (remaining P h it)"
  proof (cases "it_group it")
    case None
    with ok show ?thesis by (simp add: Next_def remaining_def)
  next
    case (Some g)
    let ?c = "hb_buckets h ! it_currentBucket it" and ?i = "it_index it"
    have b: "it_startBucket it < kPaddedNumBuckets P" "it_currentBucket it < kPaddedNumBuckets P"
      and pos: "g < length ?c" "?i < length (?c ! g)" using ok Some by (auto simp: it_ok_def)
    have chain: "chain_ok (Suc (moreEntries P)) ?c" by (rule hb_invD(2) [OF inv b(2)])
    have cap: "length (?c ! g) \<le> Suc (moreEntries P)"
      using chain_ok_drop [OF chain, of g] pos(1) by (simp flip: Cons_nth_drop_Suc)
    note rc = remaining_Cons [OF inv ok Some]
    consider "?i + 1 < length (?c ! g)"
      | "\<not> ?i + 1 < length (?c ! g)" "Suc g < length ?c \<and> ?c ! Suc g \<noteq> []"
      | "\<not> ?i + 1 < length (?c ! g)" "\<not> (Suc g < length ?c \<and> ?c ! Suc g \<noteq> [])" by blast
    then show ?thesis
    proof cases
      case 1
      then have "Next P h it = it\<lparr>it_index := ?i + 1\<rparr>"
        using Some cap pos by (simp add: Next_def Let_def kEntriesInBucket_def)
      then show ?thesis using 1 Some b pos rc by (simp add: it_ok_def remaining_def flat_pos_def)
    next
      case 2
      then have "Next P h it = it\<lparr>it_group := Some (Suc g), it_index := 0\<rparr>"
        using Some pos by (simp add: Next_def Let_def)
      moreover have "flat_pos (Suc g) 0 ?c = Suc (flat_pos g ?i ?c)"
        using 2 pos by (simp add: flat_pos_def take_Suc_conv_app_nth)
      ultimately show ?thesis using 2 Some b pos rc by (simp add: it_ok_def remaining_def)
    next
      case 3
      have "concat ?c = concat (take g ?c) @ ?c ! g"
        using split_chain [OF pos(1)] chain_tail_empty [OF chain pos(1) 3(2)] by simp
      then have "drop (Suc (flat_pos g ?i ?c)) (entries_in h (it_currentBucket it)) = []"
        using 3(1) pos by (simp add: entries_in_def flat_pos_def)
      then show ?thesis using Next_exhausted [OF inv Some b 3(1)] 3(2) rc by simp
    qed
  qed
  then show "it_ok P h (Next P h it)" and "remaining P h (Next P h it) = tl (remaining P h it)" by blast+
qed

text \<open>The loop condition \<^verbatim>\<open>it != End()\<close>.\<close>

lemma End_iff:
  assumes "hb_inv P h" and "it_ok P h it"
  shows "Equals it (End P h) \<longleftrightarrow> remaining P h it = []"
proof (cases "it_group it")
  case None
  with assms show ?thesis by (simp add: it_ok_def Equals_def End_def new_BaseIterator_def remaining_def)
next
  case (Some g)
  with assms(2) have "it_currentBucket it \<noteq> kPaddedNumBuckets P" by (auto simp: it_ok_def)
  with remaining_Cons [OF assms Some] show ?thesis by (simp add: Equals_def End_def new_BaseIterator_def)
qed

lemma remaining_Get:
  assumes "hb_inv P h" and "it_ok P h it" and "remaining P h it \<noteq> []"
  shows "remaining P h it = Get h it # remaining P h (Next P h it)"
proof (cases "it_group it")
  case None
  with assms(3) show ?thesis by (simp add: remaining_def)
next
  case (Some g)
  from remaining_Cons [OF assms(1,2) this] Next_spec(2) [OF assms(1,2)] show ?thesis by simp
qed

subsection \<open>Removing the entry at the iterator\<close>

lemma drop_swap_remove:
  assumes "p < length xs"
  shows "mset (drop p (swap_remove p xs)) = mset (drop p xs) - {#xs ! p#}"
proof -
  let ?ys = "drop p xs"
  have "drop p (swap_remove p xs) = swap_remove 0 ?ys"
    using assms by (simp add: swap_remove_def drop_butlast drop_update_swap)
  moreover have "?ys ! 0 = xs ! p" "0 < length ?ys" using assms by simp_all
  ultimately show ?thesis using mset_swap_remove [of 0 ?ys] by simp
qed

lemma entries_in_set_chain:
  assumes "b < length (hb_buckets h)" and "h' = h\<lparr>hb_buckets := (hb_buckets h)[b := c], hb_numEntries := n\<rparr>"
  shows "entries_in h' b' = (if b' = b then concat c else entries_in h b')"
  using assms by (simp add: entries_in_def nth_list_update)

lemma buckets_after_not:
  assumes "start < N" and "cur < N" and "b \<in> set (buckets_after N start cur)"
  shows "b \<noteq> cur"
proof
  assume "b = cur"
  with assms(3) obtain j where j: "j < (start + N - 1 - cur) mod N" "cur = (cur + 1 + j) mod N"
    by (auto simp: buckets_after_def)
  have "j + 1 < N" using j(1) assms(1,2) buckets_between [OF assms(1,2)] by (auto split: if_splits)
  moreover have "(cur + 1 + j) mod N = (if cur + 1 + j < N then cur + 1 + j else cur + 1 + j - N)"
    using calculation assms(2) by (auto simp: le_mod_geq)
  ultimately show False using j(2) assms(2) by (auto split: if_splits)
qed

lemma Remove_spec:
  assumes inv: "hb_inv P h" and ok: "it_ok P h it" and ne: "remaining P h it \<noteq> []"
    and r: "Remove P it h = (it', h')"
  shows "hb_inv P h'" and "lookup P h' = (lookup P h)(fst (Get h it) := None)" and "it_ok P h' it'"
    and "mset (remaining P h' it') = mset (remaining P h it) - {#Get h it#}"
proof -
  let ?b = "it_currentBucket it" and ?i = "it_index it" and ?N = "kPaddedNumBuckets P"
  let ?c = "hb_buckets h ! ?b"
  obtain g where g: "it_group it = Some g" using ne by (cases "it_group it") (auto simp: remaining_def)
  have b: "it_startBucket it < ?N" "?b < ?N" and pos: "g < length ?c" "?i < length (?c ! g)"
    using ok g by (auto simp: it_ok_def)
  have len: "?b < length (hb_buckets h)" using b hb_invD(1) [OF inv] by simp
  obtain l where l: "last_group g (drop g ?c) None = Some l" "g \<le> l" "l < length ?c"
    "concat (move_last g ?i l ?c) = swap_remove (flat_pos g ?i ?c) (concat ?c)"
    "hb_inv P (h\<lparr>hb_buckets := (hb_buckets h)[?b := move_last g ?i l ?c], hb_numEntries := hb_numEntries h - 1\<rparr>)"
    "lookup P (h\<lparr>hb_buckets := (hb_buckets h)[?b := move_last g ?i l ?c], hb_numEntries := hb_numEntries h - 1\<rparr>)
       = (lookup P h)(fst (?c ! g ! ?i) := None)"
    using remove_entry [OF inv b(2) pos] by metis
  define c' where "c' = move_last g ?i l ?c"
  let ?last = "(g, ?i) = (l, length (?c ! l) - 1)"
  have h': "h' = h\<lparr>hb_buckets := (hb_buckets h)[?b := c'], hb_numEntries := hb_numEntries h - 1\<rparr>"
    and it': "it' = (if ?last then Next P h' it else it)"
    using r g l(1) by (auto simp: Remove_def RemoveIterator_def Let_def c'_def split: if_splits)
  show inv': "hb_inv P h'" unfolding h' c'_def by (rule l(5))
  show "lookup P h' = (lookup P h)(fst (Get h it) := None)"
    using l(6) unfolding h' c'_def by (simp add: Get_def entry_at_def g)
  have chain': "hb_buckets h' ! ?b = c'" using len by (simp add: h')
  have ents: "entries_in h' x = (if x = ?b then concat c' else entries_in h x)" for x
    by (rule entries_in_set_chain [OF len h'])
  have others: "concat (map (entries_in h') (buckets_after ?N (it_startBucket it) ?b))
      = concat (map (entries_in h) (buckets_after ?N (it_startBucket it) ?b))" (is "?A' = ?A")
    using buckets_after_not [OF b] by (intro arg_cong [of _ _ concat] map_cong) (auto simp: ents)
  let ?p = "flat_pos g ?i ?c"
  note fp = flat_pos_nth [OF pos]
  have rest: "remaining P h it = drop ?p (concat ?c) @ ?A"
    by (simp add: remaining_def g entries_in_def)
  have get: "Get h it = concat ?c ! ?p" using fp(2) by (simp add: Get_def entry_at_def g)
  have ms: "mset (drop ?p (concat c') @ ?A) = mset (remaining P h it) - {#Get h it#}"
    unfolding rest get c'_def l(4) using drop_swap_remove [OF fp(1)] fp(1)
    by (simp add: nth_via_drop nth_mem_mset in_multiset_in_set)
      (metis Cons_nth_drop_Suc add_mset_remove_trivial mset.simps(2) union_mset_add_mset_left)
  have size: "length (c' ! g) = length (?c ! g) - (if g = l then 1 else 0)" "length c' = length ?c"
    using l(2,3) by (auto simp: c'_def move_last_def Let_def nth_list_update)
  have takeg: "take g c' = take g ?c" using l(2) by (auto simp: c'_def move_last_def Let_def)
  have "it_ok P h' it' \<and> remaining P h' it' = drop ?p (concat c') @ ?A"
  proof (cases ?last)
    case False
    have "?i < length (c' ! g)" using False pos(2) by (auto simp: size)
    then have "it_ok P h' it" using b pos(1) by (simp add: it_ok_def g chain' size)
    moreover have "remaining P h' it = drop ?p (concat c') @ ?A"
      by (simp add: remaining_def g chain' ents others flat_pos_def takeg)
    ultimately show ?thesis using it' False by (simp only: if_False)
  next
    case True
    have n: "length (c' ! g) = ?i" using True size pos(2) by simp
    have "?c ! g \<noteq> []" using pos(2) by auto
    from last_group_of [OF hb_invD(2) [OF inv b(2)] pos(1) this] l(1)
    have tail: "?c ! l \<noteq> []" "concat (drop (Suc l) ?c) = []" by auto
    have "length (concat ?c) = Suc ?p"
      using butlast_last_group(3) [OF l(3) tail] True pos(2) by (simp add: flat_pos_def)
    then have "length (concat c') = ?p" unfolding c'_def l(4) by (simp add: swap_remove_def)
    then have "drop ?p (concat c') = []" by simp
    moreover have "it_ok P h' (Next P h' it)" "remaining P h' (Next P h' it) = ?A'"
      using Next_exhausted [OF inv' g b] n unfolding chain' by simp_all
    ultimately show ?thesis unfolding it' if_P [OF True] using others by simp
  qed
  with ms show "it_ok P h' it'" and "mset (remaining P h' it') = mset (remaining P h it) - {#Get h it#}"
    by simp_all
qed

subsection \<open>The first entry\<close>

lemma first_bucket_from_spec:
  "first_bucket_from h rounds b = s \<Longrightarrow>
     b \<le> s \<and> s \<le> b + rounds \<and> (\<forall>x. b \<le> x \<and> x < s \<longrightarrow> \<not> bucket_in_use h x)
     \<and> (s < b + rounds \<longrightarrow> bucket_in_use h s)"
proof (induction rounds arbitrary: b)
  case (Suc rounds)
  show ?case
  proof (cases "bucket_in_use h b")
    case True
    with Suc.prems show ?thesis by auto
  next
    case False
    with Suc.prems have "first_bucket_from h rounds (Suc b) = s" by simp
    note IH = Suc.IH [OF this]
    have "\<not> bucket_in_use h x" if "b \<le> x" "x < s" for x
      using IH that False by (cases "x = b") auto
    with IH show ?thesis by auto
  qed
qed auto

lemma all_entries_buckets:
  "hb_inv P h \<Longrightarrow> all_entries h = concat (map (entries_in h) [0..<kPaddedNumBuckets P])"
  using map_nth [of "hb_buckets h"] hb_invD(1) [of P h]
  by (metis (mono_tags, lifting) all_entries_def entries_in_def map_eq_conv map_map o_apply)

lemma buckets_after_start:
  assumes "s < N"
  shows "buckets_after N s s = [Suc s..<N] @ [0..<s]"
proof (rule nth_equalityI)
  have n: "(s + N - 1 - s) mod N = N - 1" using buckets_between [OF assms assms] by simp
  show "length (buckets_after N s s) = length ([Suc s..<N] @ [0..<s])"
    unfolding buckets_after_def n using assms by simp
  fix i assume "i < length (buckets_after N s s)"
  then have i: "i < N - 1" unfolding buckets_after_def n by simp
  then have "buckets_after N s s ! i = (s + 1 + i) mod N" unfolding buckets_after_def n by simp
  also have "\<dots> = ([Suc s..<N] @ [0..<s]) ! i"
  proof (cases "i < N - Suc s")
    case True
    with assms show ?thesis by (simp add: nth_append)
  next
    case False
    then have "s + 1 + i = (i - (N - Suc s)) + N" using assms by simp
    moreover have "i - (N - Suc s) < s" using i assms False by linarith
    ultimately show ?thesis using False assms by (simp only: mod_add_self2) (simp add: nth_append)
  qed
  finally show "buckets_after N s s ! i = ([Suc s..<N] @ [0..<s]) ! i" .
qed

lemma Begin_spec:
  assumes inv: "hb_inv P h" and small: "length (all_entries h) < 2 ^ 32"
  shows "it_ok P h (Begin P h)" and "remaining P h (Begin P h) = all_entries h"
proof -
  let ?N = "kPaddedNumBuckets P"
  have N: "0 < ?N" by (simp add: kPaddedNumBuckets_def)
  have "it_ok P h (Begin P h) \<and> remaining P h (Begin P h) = all_entries h"
  proof (cases "all_entries h = []")
    case True
    then have "hb_numEntries h = 0" using hb_invD(5) [OF inv] by simp
    with True show ?thesis
      by (simp add: Begin_def GetFirstBucket_def new_BaseIterator_def it_ok_def remaining_def)
  next
    case False
    have "hb_numEntries h \<noteq> 0"
    proof
      assume "hb_numEntries h = 0"
      then have "unat (of_nat (length (all_entries h)) :: u32) = 0" using hb_invD(5) [OF inv] by simp
      then show False using False small by (simp add: unat_of_nat)
    qed
    then have s0: "GetFirstBucket P h = first_bucket_from h ?N 0" by (simp add: GetFirstBucket_def)
    define s where "s = first_bucket_from h ?N 0"
    have s: "s \<le> ?N" "\<And>x. x < s \<Longrightarrow> \<not> bucket_in_use h x" "s < ?N \<Longrightarrow> bucket_in_use h s"
      using first_bucket_from_spec [of h ?N 0 s] s_def by auto
    have empty: "concat (map (entries_in h) [0..<s]) = []"
      using s(1,2) bucket_in_use_entries [OF inv] by auto
    have sN: "s < ?N" using False empty all_entries_buckets [OF inv] s(1) by (cases "s = ?N") auto
    have used: "hb_buckets h ! s \<noteq> []" "hb_buckets h ! s ! 0 \<noteq> []"
      using s(3) [OF sN] by (auto simp: bucket_in_use_def)
    have split: "[0..<?N] = [0..<s] @ s # [Suc s..<?N]" 
      using sN upt_add_eq_append [of 0 s "?N - s"] upt_conv_Cons [OF sN] by simp
    have "remaining P h (Begin P h) = entries_in h s @ concat (map (entries_in h) (buckets_after ?N s s))"
      using used sN by (simp add: Begin_def s0 s_def [symmetric] new_BaseIterator_def remaining_def flat_pos_def)
    also have "\<dots> = all_entries h"
      unfolding buckets_after_start [OF sN] all_entries_buckets [OF inv] split
      using empty by (simp del: concat_eq_Nil_conv)
    finally show ?thesis
      using used sN by (simp add: Begin_def s0 s_def [symmetric] new_BaseIterator_def it_ok_def)
  qed
  then show "it_ok P h (Begin P h)" and "remaining P h (Begin P h) = all_entries h" by blast+
qed

lemma Find_spec:
  assumes "hb_inv P h"
  shows "Equals (Find P k h) (End P h) \<longleftrightarrow> lookup P h k = None" and "it_ok P h (Find P k h)"
    and "lookup P h k = Some v \<Longrightarrow> Get h (Find P k h) = (k, v) \<and> remaining P h (Find P k h) \<noteq> []"
proof -
  let ?c = "hb_buckets h ! bucket_of P k" and ?it = "Find P k h"
  have "it_ok P h ?it \<and> (if lookup P h k = None then it_group ?it = None
      else \<exists>g. it_group ?it = Some g \<and> Get h ?it = (k, the (lookup P h k)))"
  proof (cases "search_chain k ?c")
    case None
    then have "lookup P h k = None" by (simp add: lookup_def search_chain_lookup)
    with None show ?thesis by (simp add: Find_def FindIterator_def Let_def new_BaseIterator_def it_ok_def)
  next
    case (Some p)
    obtain g i where p: "p = (g, i)" by fastforce
    from search_chain_Some [OF Some [unfolded p]] Some p show ?thesis
      by (auto simp: Find_def FindIterator_def Let_def it_ok_def lookup_def Get_def entry_at_def prod_eq_iff)
  qed
  then show ok: "it_ok P h (Find P k h)" and "Equals (Find P k h) (End P h) \<longleftrightarrow> lookup P h k = None"
    and "lookup P h k = Some v \<Longrightarrow> Get h (Find P k h) = (k, v) \<and> remaining P h (Find P k h) \<noteq> []"
    using End_iff [OF assms, of ?it] remaining_Cons [OF assms, of ?it]
    by (auto simp: remaining_def split: if_splits)
qed

subsection \<open>Loops over a container\<close>

text \<open>
  The body of the loop sees the entry and a state of its own and says whether the entry is removed;
  \<open>None\<close> is a body that does not come back.  Each round visits one entry, so the number of entries
  is enough fuel; \<open>sweep\<close> gives \<open>None\<close> when it runs out.
\<close>

type_synonym ('k, 'v, 's) loop_body = "'k \<times> 'v \<Rightarrow> 's \<Rightarrow> (bool \<times> 's) option"

fun sweep :: "'k HashParams \<Rightarrow> ('k, 'v, 's) loop_body \<Rightarrow> nat \<Rightarrow> BaseIterator \<Rightarrow> ('k, 'v) HashBase \<Rightarrow> 's
    \<Rightarrow> (('k, 'v) HashBase \<times> 's) option" where
  "sweep P body fuel it h s =
    (if Equals it (End P h) then Some (h, s)
     else case fuel of
       0 \<Rightarrow> None
     | Suc n \<Rightarrow>
         (case body (Get h it) s of
            None \<Rightarrow> None
          | Some (rm, s') \<Rightarrow>
              if rm then (let (it', h') = Remove P it h in sweep P body n it' h' s')
              else sweep P body n (Next P h it) h s'))"

declare sweep.simps [simp del]

text \<open>The body run over a list of entries: the keys it removes and the state in the end.\<close>

fun run_body :: "('k, 'v, 's) loop_body \<Rightarrow> ('k \<times> 'v) list \<Rightarrow> 's \<Rightarrow> ('k list \<times> 's) option" where
  "run_body body [] s = Some ([], s)"
| "run_body body (x # xs) s =
    (case body x s of
       None \<Rightarrow> None
     | Some (rm, s') \<Rightarrow>
         map_option (\<lambda>(ks, t). (if rm then fst x # ks else ks, t)) (run_body body xs s'))"

lemma restrict_map_UNIV [simp]: "m |` UNIV = m"
  by (simp add: restrict_map_def)

lemma sweep_spec:
  assumes "hb_inv P h" and "it_ok P h it" and "length (remaining P h it) \<le> fuel"
  shows "\<exists>xs. mset xs = mset (remaining P h it)
    \<and> (case run_body body xs s of
         None \<Rightarrow> sweep P body fuel it h s = None
       | Some (ks, t) \<Rightarrow> \<exists>h'. sweep P body fuel it h s = Some (h', t) \<and> hb_inv P h'
           \<and> lookup P h' = (lookup P h) |` (- set ks))"
  using assms
proof (induction fuel arbitrary: it h s)
  case 0
  then have "remaining P h it = []" by simp
  with 0 show ?case
    by (intro exI [of _ "[]"]) (simp add: sweep.simps [of P body 0] End_iff)
next
  case (Suc n)
  show ?case
  proof (cases "remaining P h it = []")
    case True
    with Suc.prems show ?thesis
      by (intro exI [of _ "[]"]) (simp add: sweep.simps [of P body "Suc n"] End_iff)
  next
    case False
    then have ne: "\<not> Equals it (End P h)" using End_iff [OF Suc.prems(1,2)] by simp
    let ?x = "Get h it"
    have get: "remaining P h it = ?x # remaining P h (Next P h it)"
      by (rule remaining_Get [OF Suc.prems(1,2) False])
    show ?thesis
    proof (cases "body ?x s")
      case None
      then show ?thesis using ne get
        by (intro exI [of _ "remaining P h it"]) (simp add: sweep.simps [of P body "Suc n"])
    next
      case (Some q)
      obtain rm s' where b: "body ?x s = Some (rm, s')" using Some by (cases q) auto
      obtain it1 h1 where r: "Remove P it h = (it1, h1)" by fastforce
      note rs = Remove_spec [OF Suc.prems(1,2) False r]
      define it2 h2 where d: "it2 = (if rm then it1 else Next P h it)" "h2 = (if rm then h1 else h)"
      have sw: "sweep P body (Suc n) it h s = sweep P body n it2 h2 s'"
        using ne b r by (simp add: sweep.simps [of P body "Suc n"] d)
      have ms: "mset (remaining P h it) = add_mset ?x (mset (remaining P h2 it2))"
        using get rs(4) by (auto simp: d)
      have ok: "hb_inv P h2" "it_ok P h2 it2"
        using rs(1,3) Suc.prems Next_spec(1) [OF Suc.prems(1,2)] by (auto simp: d)
      have "length (remaining P h2 it2) \<le> n" using Suc.prems(3) arg_cong [OF ms, of size] by simp
      from Suc.IH [OF ok this, of s'] obtain xs where xs: "mset xs = mset (remaining P h2 it2)"
        "case run_body body xs s' of
         None \<Rightarrow> sweep P body n it2 h2 s' = None
       | Some (ks, t) \<Rightarrow> \<exists>h'. sweep P body n it2 h2 s' = Some (h', t) \<and> hb_inv P h'
           \<and> lookup P h' = (lookup P h2) |` (- set ks)" by blast
      have look: "lookup P h2 |` (- set ks) = lookup P h |` (- set (if rm then fst ?x # ks else ks))" for ks
        using rs(2) by (auto simp: d restrict_map_def fun_eq_iff)
      show ?thesis
        using xs ms b look unfolding sw
        by (intro exI [of _ "?x # xs"]) (auto split: option.splits)
    qed
  qed
qed

text \<open>The loop from \<^verbatim>\<open>Begin()\<close>.\<close>

definition for_entries :: "'k HashParams \<Rightarrow> ('k, 'v, 's) loop_body \<Rightarrow> ('k, 'v) HashBase \<Rightarrow> 's
    \<Rightarrow> (('k, 'v) HashBase \<times> 's) option" where
  "for_entries P body h s = sweep P body (unat (hb_numEntries h)) (Begin P h) h s"

lemma for_entries_eq:
  assumes inv: "hb_inv P h" and small: "length (all_entries h) < 2 ^ 32"
  shows "\<exists>xs. mset xs = mset (all_entries h)
    \<and> (case run_body body xs s of
         None \<Rightarrow> for_entries P body h s = None
       | Some (ks, t) \<Rightarrow> \<exists>h'. for_entries P body h s = Some (h', t) \<and> hb_inv P h'
           \<and> lookup P h' = (lookup P h) |` (- set ks))"
proof -
  have "length (remaining P h (Begin P h)) \<le> unat (hb_numEntries h)"
    using Begin_spec(2) [OF inv small] hb_invD(5) [OF inv] small by (simp add: unat_of_nat)
  from sweep_spec [OF inv Begin_spec(1) [OF inv small] this] show ?thesis
    unfolding for_entries_def Begin_spec(2) [OF inv small] .
qed

subsection \<open>Properties\<close>

text \<open>C14.
  A loop over a hash container that may remove the entry it is at, as in
  \<^verbatim>\<open>SessionManager::UpdateSessions\<close>, visits every entry of the container exactly once, whatever is
  removed on the way (the visited list \<open>xs\<close> is a rearrangement of the entries), it ends, and what is
  left is the map without exactly the keys whose removal the body asked for.  This needs both the
  wrap-around of the iterator to its start bucket and that \<^verbatim>\<open>RemoveIterator\<close> stays on the slot into
  which it moved the last entry of the chain.
\<close>

theorem loop_with_removal_visits_once:
  assumes "hb_inv P h" and "length (all_entries h) < 2 ^ 32" and "\<And>x s. body x s \<noteq> None"
  shows "\<exists>xs ks t h'. mset xs = mset (all_entries h) \<and> run_body body xs s = Some (ks, t)
    \<and> for_entries P body h s = Some (h', t) \<and> hb_inv P h'
    \<and> lookup P h' = (lookup P h) |` (- set ks)"
proof -
  from for_entries_eq [OF assms(1,2), of body s] obtain xs where
    xs: "mset xs = mset (all_entries h)"
    "case run_body body xs s of
         None \<Rightarrow> for_entries P body h s = None
       | Some (ks, t) \<Rightarrow> \<exists>h'. for_entries P body h s = Some (h', t) \<and> hb_inv P h'
           \<and> lookup P h' = (lookup P h) |` (- set ks)" by blast
  have "run_body body ys s \<noteq> None" for ys s
  proof (induction ys arbitrary: s)
    case (Cons y ys)
    obtain rm s' where "body y s = Some (rm, s')" using assms(3) [of y s] by (cases "body y s") auto
    with Cons.IH [of s'] show ?case by auto
  qed simp
  then obtain ks t where "run_body body xs s = Some (ks, t)" by fastforce
  with xs show ?thesis by auto
qed

definition sample_body :: "(u32, nat, nat list) loop_body" where
  "sample_body x s = Some (15 < snd x, s @ [snd x])"

theorem loop_with_removal_visits_once_witness:
  "hb_inv sample_params sample_map \<and> length (all_entries sample_map) < 2 ^ 32
   \<and> (\<exists>xs ks t h'. mset xs = mset (all_entries sample_map) \<and> run_body sample_body xs [] = Some (ks, t)
    \<and> for_entries sample_params sample_body sample_map [] = Some (h', t) \<and> hb_inv sample_params h'
    \<and> lookup sample_params h' = (lookup sample_params sample_map) |` (- set ks))"
proof -
  have "length (all_entries sample_map) = 4" by code_simp
  then have n: "length (all_entries sample_map) < 2 ^ 32" by simp
  have b: "sample_body x s \<noteq> None" for x s by (simp add: sample_body_def)
  show ?thesis using loop_with_removal_visits_once [of sample_params sample_map sample_body "[]", OF sample_map_inv n b]
      sample_map_inv n by blast
qed

lemma sample_loop:
  "map_option snd (for_entries sample_params sample_body sample_map []) = Some [40, 10, 20, 30]"
  by code_simp

end
