(* ===== verification/Session_Manager.thy ===== *)
theory Session_Manager
  imports Session_Life Hash_Iter
begin

text \<open>
  \<^verbatim>\<open>SessionManager\<close> (\<^verbatim>\<open>shared/legacy/src/sessionManager.cpp\<close>): the sessions of a client by identifier, the
  registered protocol servers, the dispatch of session packets and the periodic update.

  \<^verbatim>\<open>m_sessions\<close> maps identifiers to \<^verbatim>\<open>SharedPointer<Session>\<close>.  The objects behind the pointers are a
  partial map \<open>sm_objects\<close> from addresses; \<open>sm_handles\<close> counts the references held by clients of the
  manager, so the reference count of a session in the map is one more than its handles, and the object is
  freed when it leaves the map without one.  The operations return \<open>None\<close> when the code
  would dereference a null or dangling pointer, or not return because a loop does not end or because the thread
  waits for a mutex it holds.
\<close>

record SessionManager =
  sm_clientId :: ClientId
  sm_hasChannel :: bool
  m_lastSessionId :: u32
  m_sessions :: "(SessionId, nat) HashBase"
  m_protocolServers :: "(Protocol, IProtocolServer) HashBase"
  sm_objects :: "nat \<rightharpoonup> Session"
  sm_nextObject :: nat
  sm_handles :: "nat \<Rightarrow> nat"

text \<open>The hash function and the layout of the two maps, and whether the next allocations succeed.\<close>

record ManagerParams =
  sessionHash :: "SessionId HashParams"
  serverHash :: "Protocol HashParams"

record AllocCb =
  allocSession :: bool
  allocEntry :: bool

record EstablishSessionInfo =
  esi_protocol :: Protocol
  esi_minProtocolVersion :: Version
  esi_maxProtocolVersion :: Version
  esi_remoteClientId :: ClientId
  esi_pSessionName :: "string option"

definition new_SessionManager :: "ManagerParams \<Rightarrow> SessionManager" where
  "new_SessionManager Q =
    \<lparr>sm_clientId = kBroadcastClientId, sm_hasChannel = False, m_lastSessionId = kInvalidSessionId,
     m_sessions = new_HashBase (sessionHash Q), m_protocolServers = new_HashBase (serverHash Q),
     sm_objects = Map.empty, sm_nextObject = 0, sm_handles = (\<lambda>_. 0)\<rparr>"

text \<open>\<open>rng\<close> is the first number of \<^verbatim>\<open>Platform::Random\<close>.\<close>

definition Init :: "bool \<Rightarrow> u32 \<Rightarrow> Channel \<Rightarrow> SessionManager \<Rightarrow> Result \<times> SessionManager" where
  "Init pMessageChannel rng ch sm =
    (if pMessageChannel
     then (Success, sm\<lparr>sm_hasChannel := True, sm_clientId := ch_clientId ch, m_lastSessionId := rng\<rparr>)
     else (Error, sm))"

subsection \<open>Protocol servers\<close>

definition GetProtocolServer :: "ManagerParams \<Rightarrow> Protocol \<Rightarrow> SessionManager \<Rightarrow> IProtocolServer option" where
  "GetProtocolServer Q protocol sm = FindPointer (serverHash Q) protocol (m_protocolServers sm)"

definition HasProtocolServer :: "ManagerParams \<Rightarrow> Protocol \<Rightarrow> SessionManager \<Rightarrow> bool" where
  "HasProtocolServer Q protocol sm \<longleftrightarrow> Contains (serverHash Q) protocol (m_protocolServers sm)"

definition RegisterProtocolServer ::
  "ManagerParams \<Rightarrow> AllocCb \<Rightarrow> IProtocolServer \<Rightarrow> SessionManager \<Rightarrow> Result \<times> SessionManager" where
  "RegisterProtocolServer Q al pServer sm =
    (let (result, servers) = Create (serverHash Q) (allocEntry al) (srv_protocol pServer) pServer
                               (m_protocolServers sm)
     in (result, sm\<lparr>m_protocolServers := servers\<rparr>))"

text \<open>\<^verbatim>\<open>BaseProtocolServer::GetSupportedVersion\<close>: whether a version was found, and the version reported.\<close>

definition GetSupportedVersion :: "IProtocolServer \<Rightarrow> Version \<Rightarrow> Version \<Rightarrow> bool \<times> Version" where
  "GetSupportedVersion pServer minV maxV =
    (let minLessThanEqMax = (minV \<le> srv_maxVersion pServer);
         maxLessThanEqMax = (maxV \<le> srv_maxVersion pServer);
         maxGreaterThanMax = (\<not> maxLessThanEqMax);
         maxGreaterThanEqMin = (srv_minVersion pServer \<le> maxV)
     in
     if maxLessThanEqMax \<and> maxGreaterThanEqMin then (True, maxV)
     else if maxGreaterThanMax \<and> minLessThanEqMax then (True, srv_maxVersion pServer)
     else (False, if \<not> minLessThanEqMax then srv_maxVersion pServer else srv_minVersion pServer))"

subsection \<open>A session and the server behind a pointer\<close>

text \<open>
  \<^verbatim>\<open>Session\<close> looks its server up through the message channel each time it needs it.  With a null
  pointer, the calls below fail exactly when the session would call its server.
\<close>

definition null_server :: IProtocolServer where
  "null_server = program_server 0 0 0 (\<lambda>_. False) 0 (\<lambda>_ _. None) (\<lambda>_ _. None) (\<lambda>_ _ _. None)"

definition HandleMessage_at ::
  "IProtocolServer option \<Rightarrow> MessageBuffer \<Rightarrow> Session \<Rightarrow> Channel \<Rightarrow> (Session \<times> Channel) option" where
  "HandleMessage_at pServer m s ch =
    (case pServer of
       Some srv \<Rightarrow> Some (HandleMessage srv m s ch)
     | None \<Rightarrow>
         (let (s', ch') = HandleMessage null_server m s ch in
          if m_sessionType s' = ServerType \<and> m_sessionState s \<noteq> m_sessionState s'
             \<and> m_sessionState s' = Established
          then None else Some (s', ch')))"

definition Session_Update_at ::
  "IProtocolServer option \<Rightarrow> nat \<Rightarrow> Session \<Rightarrow> Channel \<Rightarrow> (Session \<times> Channel) option" where
  "Session_Update_at pServer refCount s ch =
    (case pServer of
       Some srv \<Rightarrow> Session_Update srv refCount s ch
     | None \<Rightarrow>
         (case Session_Update null_server refCount s ch of
            None \<Rightarrow> None
          | Some (s', ch') \<Rightarrow>
              if m_sessionType s' = ServerType
                 \<and> (m_sessionState s' = Established \<or> m_callbackState s' \<noteq> m_callbackState s)
              then None else Some (s', ch')))"

subsection \<open>Identifiers\<close>

definition kClientSessionIdSize :: nat where "kClientSessionIdSize = 16"
definition kClientSessionIdMask :: u32 where "kClientSessionIdMask = mask 16"

text \<open>The \<^verbatim>\<open>do ... while\<close> loop; it never returns when every candidate is in use.\<close>

partial_function (option) session_id_loop ::
  "SessionId HashParams \<Rightarrow> (SessionId, nat) HashBase \<Rightarrow> SessionId \<Rightarrow> u32 \<Rightarrow> (SessionId \<times> u32) option" where
  "session_id_loop P h remoteInput lastId =
    (let nextId = lastId + 1;
         sid = (nextId AND kClientSessionIdMask) OR remoteInput
     in if sid = kInvalidSessionId \<or> Contains P sid h then session_id_loop P h remoteInput nextId
        else Some (sid, nextId))"

declare session_id_loop.simps [code]

definition GetNewSessionId ::
  "ManagerParams \<Rightarrow> SessionId \<Rightarrow> SessionManager \<Rightarrow> (SessionId \<times> SessionManager) option" where
  "GetNewSessionId Q remoteSessionId sm =
    map_option (\<lambda>(sid, lastId). (sid, sm\<lparr>m_lastSessionId := lastId\<rparr>))
      (session_id_loop (sessionHash Q) (m_sessions sm) (push_bit kClientSessionIdSize remoteSessionId)
         (m_lastSessionId sm))"

subsection \<open>Sending\<close>

definition SendCommand ::
  "ClientId \<Rightarrow> MessageCode \<Rightarrow> SessionId \<Rightarrow> Sequence \<Rightarrow> WindowSize \<Rightarrow> SessionManager \<Rightarrow> Channel
   \<Rightarrow> Result \<times> Channel" where
  "SendCommand remoteClientId command sid sequenceNumber winSize sm ch =
    Forward (zero_message\<lparr>header := (header zero_message)
      \<lparr>dstClientId := remoteClientId, srcClientId := sm_clientId sm, protocolId := Protocol_Session,
       messageId := command, sessionId := sid, sequence := sequenceNumber, payloadSize := 0,
       windowSize := winSize\<rparr>\<rparr>) ch"

definition SendReset ::
  "ClientId \<Rightarrow> SessionId \<Rightarrow> Result \<Rightarrow> Version \<Rightarrow> SessionManager \<Rightarrow> Channel \<Rightarrow> Result \<times> Channel" where
  "SendReset remoteClientId remoteSessionId reason version sm ch =
    SendCommand remoteClientId (code_of_SessionMessage Rst) remoteSessionId
      (ucast (code_of_result reason)) version sm ch"

subsection \<open>The mutex\<close>

text \<open>
  A block of the manager under \<^verbatim>\<open>LockGuard\<close> of \<^verbatim>\<open>m_sessionMutex\<close>: the mutex is locked, the block runs, the mutex is
  unlocked.  The value is \<open>None\<close> when the block does not return, when this thread already holds the mutex, and
  when the block ran into \<open>Forward\<close>'s second lock.  \<open>sees_sessions\<close> tells \<open>Forward\<close> whether \<^verbatim>\<open>m_sessions\<close> is
  empty; during the loops of the manager it is not, a session is updated while it is in the map.  The blocks that
  send nothing and do not get the channel (registering a server, opening a session) are modelled without the
  mutex.
\<close>

definition sees_sessions :: "SessionManager \<Rightarrow> Channel \<Rightarrow> Channel" where
  "sees_sessions sm ch = ch\<lparr>ch_hasSessions := (\<not> IsEmpty (m_sessions sm))\<rparr>"

definition LockGuard ::
  "SessionManager \<Rightarrow> (Channel \<Rightarrow> ('a \<times> Channel) option) \<Rightarrow> Channel \<Rightarrow> ('a \<times> Channel) option" where
  "LockGuard sm block ch =
    (case Mutex_Lock ch of
       None \<Rightarrow> None
     | Some ch1 \<Rightarrow>
         (case block (sees_sessions sm ch1) of
            None \<Rightarrow> None
          | Some (x, ch2) \<Rightarrow> if ch_deadlocked ch2 then None else Some (x, Mutex_Unlock ch2)))"

subsection \<open>Objects\<close>

text \<open>\<^verbatim>\<open>SharedPointer<Session>::Create\<close> of a session already set up, with one owner in the session map.\<close>

definition new_object :: "Session \<Rightarrow> nat \<Rightarrow> SessionManager \<Rightarrow> nat \<times> SessionManager" where
  "new_object s handles sm =
    (sm_nextObject sm,
     sm\<lparr>sm_objects := (sm_objects sm)(sm_nextObject sm \<mapsto> s),
        sm_handles := (sm_handles sm)(sm_nextObject sm := handles),
        sm_nextObject := sm_nextObject sm + 1\<rparr>)"

text \<open>The object of a pointer that just left the session map: freed with its last reference.\<close>

definition released :: "nat \<Rightarrow> Session \<Rightarrow> Session option" where
  "released handles s = (if handles = 0 then None else Some s)"

subsection \<open>Opening a session\<close>

definition EstablishSessionForClient ::
  "ManagerParams \<Rightarrow> AllocCb \<Rightarrow> bool \<Rightarrow> EstablishSessionInfo \<Rightarrow> SessionManager \<Rightarrow> Channel
   \<Rightarrow> (Result \<times> nat option \<times> SessionManager) option" where
  "EstablishSessionForClient Q al ppSession info sm ch =
    (if ppSession \<and> allocSession al then
       (let s = new_Session ch ClientType (esi_protocol info) (esi_pSessionName info) in
        case GetNewSessionId Q kInvalidSessionId sm of
          None \<Rightarrow> None
        | Some (sid, sm1) \<Rightarrow>
            (let (result, s1) = Connect (esi_remoteClientId info) sid (esi_minProtocolVersion info)
                                  (esi_maxProtocolVersion info) s
             in
             if result = Success then
               (let (result, sessions) = Create (sessionHash Q) (allocEntry al) sid (sm_nextObject sm1)
                                           (m_sessions sm1);
                    sm2 = sm1\<lparr>m_sessions := sessions\<rparr>
                in if result = Success
                   then (let (p, sm3) = new_object s1 1 sm2 in Some (result, Some p, sm3))
                   else Some (result, None, sm2))
             else Some (result, None, sm1)))
     else Some (Error, None, sm))"

subsection \<open>Loops over the sessions\<close>

text \<open>
  The operations that run under the mutex come in two parts, the block in small letters and the operation, which
  is the block under the mutex.
\<close>

text \<open>
  The body of a loop over \<^verbatim>\<open>m_sessions\<close> that works on the session of each entry: what \<open>f\<close> makes of it and
  whether the entry goes.
\<close>

type_synonym session_work = "SessionId \<Rightarrow> nat \<Rightarrow> Session \<Rightarrow> Channel \<Rightarrow> (bool \<times> Session option \<times> Channel) option"

definition on_object :: "session_work \<Rightarrow> (SessionId, nat, (nat \<rightharpoonup> Session) \<times> Channel) loop_body" where
  "on_object f e st =
    (case st of (objs, ch) \<Rightarrow>
       (case objs (snd e) of
          None \<Rightarrow> None
        | Some s \<Rightarrow> map_option (\<lambda>(rm, s', ch'). (rm, objs(snd e := s'), ch')) (f (fst e) (snd e) s ch)))"

definition for_sessions ::
  "ManagerParams \<Rightarrow> session_work \<Rightarrow> SessionManager \<Rightarrow> Channel \<Rightarrow> (SessionManager \<times> Channel) option" where
  "for_sessions Q f sm ch =
    map_option (\<lambda>(h, objs, ch'). (sm\<lparr>m_sessions := h, sm_objects := objs\<rparr>, ch'))
      (for_entries (sessionHash Q) (on_object f) (m_sessions sm) (sm_objects sm, ch))"

definition unregister_protocol_server ::
  "ManagerParams \<Rightarrow> IProtocolServer \<Rightarrow> SessionManager \<Rightarrow> Channel \<Rightarrow> (Result \<times> SessionManager \<times> Channel) option"
  where
  "unregister_protocol_server Q pServer sm ch =
    (let protocol = srv_protocol pServer in
     if FindPointer (serverHash Q) protocol (m_protocolServers sm) \<noteq> None then
       (case for_sessions Q
               (\<lambda>_ _ s ch. Some (if m_sessionType s = ServerType \<and> m_protocol s = protocol
                  then (let (s', ch') = HandleUnregisterProtocolServer pServer s ch in (False, Some s', ch'))
                  else (False, Some s, ch))) sm ch of
          None \<Rightarrow> None
        | Some (sm1, ch1) \<Rightarrow>
            (let (result, servers) = Erase (serverHash Q) protocol (m_protocolServers sm1)
             in Some (result, sm1\<lparr>m_protocolServers := servers\<rparr>, ch1)))
     else Some (Error, sm, ch))"

definition UnregisterProtocolServer ::
  "ManagerParams \<Rightarrow> IProtocolServer \<Rightarrow> SessionManager \<Rightarrow> Channel \<Rightarrow> (Result \<times> SessionManager \<times> Channel) option"
  where
  "UnregisterProtocolServer Q pServer sm ch =
    map_option (\<lambda>((result, sm'), ch'). (result, sm', ch'))
      (LockGuard sm
        (\<lambda>ch1. map_option (\<lambda>(result, sm', ch'). ((result, sm'), ch')) (unregister_protocol_server Q pServer sm ch1)) ch)"

definition update_sessions ::
  "ManagerParams \<Rightarrow> SessionManager \<Rightarrow> Channel \<Rightarrow> (SessionManager \<times> Channel) option" where
  "update_sessions Q sm ch =
    for_sessions Q
      (\<lambda>_ p s ch.
         map_option
           (\<lambda>(s', ch'). if m_sessionState s' = Closed then (True, released (sm_handles sm p) s', ch')
                        else (False, Some s', ch'))
           (Session_Update_at (GetProtocolServer Q (m_protocol s) sm) (1 + sm_handles sm p) s ch))
      sm ch"

definition UpdateSessions ::
  "ManagerParams \<Rightarrow> SessionManager \<Rightarrow> Channel \<Rightarrow> (SessionManager \<times> Channel) option" where
  "UpdateSessions Q sm ch = LockGuard sm (update_sessions Q sm) ch"

definition handle_client_disconnection ::
  "ManagerParams \<Rightarrow> ClientId \<Rightarrow> SessionManager \<Rightarrow> Channel \<Rightarrow> (SessionManager \<times> Channel) option" where
  "handle_client_disconnection Q dst sm ch =
    for_sessions Q
      (\<lambda>_ _ s ch. Some (False, Some (if m_remoteClientId s = dst then Shutdown NotReady s else s), ch)) sm ch"

definition HandleClientDisconnection ::
  "ManagerParams \<Rightarrow> ClientId \<Rightarrow> SessionManager \<Rightarrow> Channel \<Rightarrow> (SessionManager \<times> Channel) option" where
  "HandleClientDisconnection Q dst sm ch = LockGuard sm (handle_client_disconnection Q dst sm) ch"

text \<open>One of the two loops of \<^verbatim>\<open>ShutDownAllSessions\<close>.\<close>

definition shut_down_each ::
  "ManagerParams \<Rightarrow> Result \<Rightarrow> SessionManager \<Rightarrow> Channel \<Rightarrow> (SessionManager \<times> Channel) option" where
  "shut_down_each Q reason sm ch = for_sessions Q (\<lambda>_ _ s ch. Some (False, Some (Shutdown reason s), ch)) sm ch"

text \<open>
  The wait for a graceful shutdown.  A round is what \<^verbatim>\<open>m_pMessageChannel->Update()\<close> does to the manager
  and the channel, whether the transport is still connected after it, and whether the time is up; the
  list of the rounds ends where the time is up at the latest.
\<close>

type_synonym wait_round = "(SessionManager \<times> Channel \<Rightarrow> (SessionManager \<times> Channel) option) \<times> bool \<times> bool"

fun wait_for_sessions ::
  "wait_round list \<Rightarrow> SessionManager \<Rightarrow> Channel \<Rightarrow> (SessionManager \<times> Channel) option" where
  "wait_for_sessions [] sm ch = Some (sm, ch)"
| "wait_for_sessions ((update, stillConnected, timeUp) # rounds) sm ch =
    (if \<not> IsEmpty (m_sessions sm) then
       (case update (sm, ch) of
          None \<Rightarrow> None
        | Some (sm1, ch1) \<Rightarrow>
            if \<not> stillConnected then Some (sm1, ch1)
            else if timeUp then Some (sm1, ch1)
            else wait_for_sessions rounds sm1 ch1)
     else Some (sm, ch))"

definition ShutDownAllSessions ::
  "ManagerParams \<Rightarrow> bool \<Rightarrow> wait_round list \<Rightarrow> SessionManager \<Rightarrow> Channel
   \<Rightarrow> (SessionManager \<times> Channel) option" where
  "ShutDownAllSessions Q isConnected rounds sm ch =
    (if \<not> IsEmpty (m_sessions sm) then
       (case (if isConnected
              then (case LockGuard sm (shut_down_each Q Success sm) ch of
                      None \<Rightarrow> None
                    | Some (sm1, ch1) \<Rightarrow> wait_for_sessions rounds sm1 ch1)
              else Some (sm, ch)) of
          None \<Rightarrow> None
        | Some (sm1, ch1) \<Rightarrow>
            if \<not> IsEmpty (m_sessions sm1) then
              (case LockGuard sm1 (shut_down_each Q EndOfStream sm1) ch1 of
                 None \<Rightarrow> None
               | Some (sm2, ch2) \<Rightarrow> UpdateSessions Q sm2 ch2)
            else Some (sm1, ch1))
     else Some (sm, ch))"

definition HandleTransportDisconnect ::
  "ManagerParams \<Rightarrow> bool \<Rightarrow> wait_round list \<Rightarrow> SessionManager \<Rightarrow> Channel
   \<Rightarrow> (SessionManager \<times> Channel) option" where
  "HandleTransportDisconnect Q isConnected rounds sm ch = ShutDownAllSessions Q isConnected rounds sm ch"

definition Destroy ::
  "ManagerParams \<Rightarrow> bool \<Rightarrow> wait_round list \<Rightarrow> SessionManager \<Rightarrow> Channel
   \<Rightarrow> (SessionManager \<times> Channel) option" where
  "Destroy Q isConnected rounds sm ch =
    (if sm_hasChannel sm then
       map_option (\<lambda>(sm', ch'). (sm'\<lparr>m_protocolServers := Clear (serverHash Q) (m_protocolServers sm'),
                                   sm_hasChannel := False\<rparr>, ch'))
         (ShutDownAllSessions Q isConnected rounds sm ch)
     else Some (sm, ch))"

subsection \<open>Session packets\<close>

definition FindOpenSession :: "ManagerParams \<Rightarrow> SessionId \<Rightarrow> SessionManager \<Rightarrow> nat option option" where
  "FindOpenSession Q sid sm =
    (let sessionIter = Find (sessionHash Q) sid (m_sessions sm) in
     if \<not> Equals sessionIter (End (sessionHash Q) (m_sessions sm)) then
       (let p = snd (Get (m_sessions sm) sessionIter) in
        case sm_objects sm p of
          None \<Rightarrow> None
        | Some s \<Rightarrow> Some (if m_sessionState s \<noteq> Closed then Some p else None))
     else Some None)"

text \<open>
  What each packet type selects: the session the packet goes to, or the reason and the version of the
  reset packet, and the manager after.
\<close>

type_synonym selection = "nat option \<times> Result \<times> Version \<times> SessionManager"

definition select_syn ::
  "ManagerParams \<Rightarrow> AllocCb \<Rightarrow> MessageBuffer \<Rightarrow> SessionManager \<Rightarrow> Channel \<Rightarrow> selection option" where
  "select_syn Q al m sm ch =
    (let pl = decode_SynPayload (payload m) in
     case FindPointer (serverHash Q) (syn_protocol pl) (m_protocolServers sm) of
       None \<Rightarrow> Some (None, Unavailable, 0, sm)
     | Some pServer \<Rightarrow>
         (let maxV = (if kSessionProtocolRangeVersion \<le> syn_sessionVersion pl
                      then max (maxVersion pl) (minVersion pl) else minVersion pl);
              (found, version) = GetSupportedVersion pServer (minVersion pl) maxV
          in
          if \<not> found then Some (None, VersionMismatch, version, sm)
          else if \<not> allocSession al then Some (None, Rejected, version, sm)
          else
            (case GetNewSessionId Q (sessionId (header m)) sm of
               None \<Rightarrow> None
             | Some (sid, sm1) \<Rightarrow>
                 (let s = new_Session ch ServerType (srv_protocol pServer) None;
                      (result, s1) = BindToServer pServer (srcClientId (header m)) (syn_sessionVersion pl)
                                       version sid s
                  in
                  if result \<noteq> Success then Some (None, Rejected, version, sm1)
                  else
                    (let (result, sessions) = Create (sessionHash Q) (allocEntry al) sid (sm_nextObject sm1)
                                                (m_sessions sm1);
                         sm2 = sm1\<lparr>m_sessions := sessions\<rparr>
                     in
                     if result \<noteq> Success then Some (None, Rejected, version, sm2)
                     else if \<not> srv_AcceptSession pServer s1 then
                       (let (p, sm3) = new_object (Shutdown Rejected s1) 0 sm2
                        in Some (None, Rejected, version, sm3))
                     else
                       (let (p, sm3) = new_object s1 0 sm2 in Some (Some p, Rejected, version, sm3)))))))"

definition select_synack ::
  "ManagerParams \<Rightarrow> AllocCb \<Rightarrow> MessageBuffer \<Rightarrow> SessionManager \<Rightarrow> selection option" where
  "select_synack Q al m sm =
    (let P = sessionHash Q; h = m_sessions sm; remoteSessionId = sessionId (header m);
         sessionIter = Find P remoteSessionId h
     in
     if \<not> Equals sessionIter (End P h) then Some (Some (snd (Get h sessionIter)), Unavailable, 0, sm)
     else
       (let sessionIter = Find P (initialSessionId (decode_SynAckPayload (payload m))) h in
        if \<not> Equals sessionIter (End P h) then
          (let p = snd (Get h sessionIter);
               (_, h1) = Remove P sessionIter h;
               (result, h2) = Create P (allocEntry al) remoteSessionId p h1;
               sm1 = sm\<lparr>m_sessions := h2\<rparr>
           in if result \<noteq> Success then
                (case sm_objects sm p of
                   None \<Rightarrow> None
                 | Some s \<Rightarrow>
                     Some (None, Error, 0,
                           sm1\<lparr>sm_objects := (sm_objects sm1)
                                 (p := released (sm_handles sm p) (Shutdown Error s))\<rparr>))
              else Some (Some p, Unavailable, 0, sm1))
        else Some (None, Unavailable, 0, sm)))"

definition select_open :: "ManagerParams \<Rightarrow> MessageBuffer \<Rightarrow> SessionManager \<Rightarrow> selection option" where
  "select_open Q m sm =
    map_option (\<lambda>pSession. (pSession, Unavailable, 0, sm)) (FindOpenSession Q (sessionId (header m)) sm)"

definition handle_session_message ::
  "ManagerParams \<Rightarrow> AllocCb \<Rightarrow> MessageBuffer \<Rightarrow> SessionManager \<Rightarrow> Channel
   \<Rightarrow> (SessionManager \<times> Channel) option" where
  "handle_session_message Q al m sm ch =
    (case (case SessionMessage_of (messageId (header m)) of
             Syn \<Rightarrow> select_syn Q al m sm ch
           | SynAck \<Rightarrow> select_synack Q al m sm
           | Fin \<Rightarrow> select_open Q m sm
           | Data \<Rightarrow> select_open Q m sm
           | Ack \<Rightarrow> select_open Q m sm
           | Rst \<Rightarrow> select_open Q m sm
           | _ \<Rightarrow> Some (None, Unavailable, 0, sm)) of
       None \<Rightarrow> None
     | Some (None, reason, version, sm1) \<Rightarrow>
         Some (sm1, snd (SendReset (srcClientId (header m)) (sessionId (header m)) reason version sm1 (sees_sessions sm1 ch)))
     | Some (Some p, reason, version, sm1) \<Rightarrow>
         (case sm_objects sm1 p of
            None \<Rightarrow> None
          | Some s \<Rightarrow>
              map_option (\<lambda>(s', ch'). (sm1\<lparr>sm_objects := (sm_objects sm1)(p \<mapsto> s')\<rparr>, ch'))
                (HandleMessage_at (GetProtocolServer Q (m_protocol s) sm1) m s (sees_sessions sm1 ch))))"

definition HandleReceivedSessionMessage ::
  "ManagerParams \<Rightarrow> AllocCb \<Rightarrow> MessageBuffer \<Rightarrow> SessionManager \<Rightarrow> Channel
   \<Rightarrow> (SessionManager \<times> Channel) option" where
  "HandleReceivedSessionMessage Q al m sm ch = LockGuard sm (handle_session_message Q al m sm) ch"

end
