(* ===== verification/Manager_Inv.thy ===== *)
theory Manager_Inv
  imports Session_Manager
begin

text \<open>
  The invariant of the session manager and that every operation keeps it: the two maps are
  well-formed, every pointer in the session map leads to a live session object and no two keys share
  one, the sessions satisfy their own invariant, and a server session that may still call its
  protocol server has that server registered.  So no operation dereferences a null or a dangling
  pointer.
\<close>

subsection \<open>A session and its server\<close>

definition awaits_server :: "Session \<Rightarrow> bool" where
  "awaits_server s \<longleftrightarrow> m_sessionType s = ServerType
     \<and> (m_sessionState s \<in> {Listening, SynReceived, Established} \<or> m_callbackState s = EstablishedCalled)"

definition session_ok :: "Session \<Rightarrow> bool" where
  "session_ok s \<longleftrightarrow> (\<exists>k. session_inv k s) \<and> (m_sessionType s = ServerType \<longrightarrow> m_sessionState s \<noteq> SynSent)"

definition session_room :: "nat \<Rightarrow> Session \<Rightarrow> bool" where
  "session_room b s \<longleftrightarrow> tw_headroom (1 + b + b) s \<and> rw_room (m_receiveWindow s)"

lemma kind_type: "kind s' = kind s \<Longrightarrow> m_sessionType s' = m_sessionType s"
  and kind_protocol: "kind s' = kind s \<Longrightarrow> m_protocol s' = m_protocol s"
  by (simp_all add: kind_def)

lemma session_okI:
  assumes "session_ok s" and "session_inv k s'" and "kind s' = kind s"
    and "m_sessionState s \<noteq> SynSent \<Longrightarrow> m_sessionState s' \<noteq> SynSent"
  shows "session_ok s'"
  using assms by (auto simp: session_ok_def kind_def)

lemma awaits_server_dead:
  "m_sessionState s \<notin> alive_states \<Longrightarrow> m_callbackState s \<noteq> EstablishedCalled \<Longrightarrow> \<not> awaits_server s"
  by (auto simp: awaits_server_def alive_states_def)

text \<open>A session that needs no server now never needs one again.\<close>

lemma settles_awaits:
  assumes "settles s s'" and "session_ok s" and "\<not> awaits_server s"
  shows "\<not> awaits_server s'" and "m_sessionType s' = ServerType \<Longrightarrow> m_sessionState s' \<noteq> Established"
proof -
  have t: "m_sessionType s' = m_sessionType s" using assms(1) by (auto simp: settles_def kind_def)
  have "m_sessionState s \<notin> alive_states \<and> m_callbackState s \<noteq> EstablishedCalled" if "m_sessionType s = ServerType"
    using assms(2,3) that by (auto simp: session_ok_def awaits_server_def alive_states_def)
  then have "m_sessionState s' \<notin> alive_states \<and> m_callbackState s' \<noteq> EstablishedCalled" if "m_sessionType s' = ServerType"
    using assms(1) t that by (auto simp: settles_def)
  then show "\<not> awaits_server s'" and "m_sessionType s' = ServerType \<Longrightarrow> m_sessionState s' \<noteq> Established"
    using awaits_server_dead by (auto simp: awaits_server_def alive_states_def)
qed

lemma session_server_null: "session_server null_server b"
  by unfold_locales (auto simp: null_server_def program_server_def keeps_refl)

lemma HandleMessage_null:
  assumes "session_inv k s" and "session_ok s" and "\<not> awaits_server s"
    and "messageId (header m) = 1 \<longrightarrow> m_sessionState s = Listening"
    and h: "HandleMessage null_server m s ch = (s', ch')"
  shows "\<not> awaits_server s'" and "m_sessionType s' = ServerType \<Longrightarrow> m_sessionState s' \<noteq> Established"
proof -
  obtain s1 ch1 where d: "dispatch m s ch = (s1, ch1)" by fastforce
  note st = settles_awaits [OF dispatch_settles [OF session_invD(2) [OF assms(1)] assms(4) d] assms(2,3)]
  have "s' \<in> {s1, s1\<lparr>m_connectionEvent := True\<rparr>}"
  proof (cases "m_sessionState s1 = Established")
    case False
    with h [unfolded HandleMessage_dispatch [OF d]] show ?thesis by simp
  next
    case True
    with st(2) have "m_sessionType s1 \<noteq> ServerType" by blast
    then show ?thesis
      using h [unfolded HandleMessage_dispatch [OF d]] by (cases "m_sessionType s1") (simp_all split: if_splits)
  qed
  then have e: "m_sessionType s' = m_sessionType s1" "m_sessionState s' = m_sessionState s1"
    "m_callbackState s' = m_callbackState s1" by auto
  show "\<not> awaits_server s'" using st(1) unfolding awaits_server_def e .
  show "m_sessionType s' = ServerType \<Longrightarrow> m_sessionState s' \<noteq> Established" using st(2) unfolding e .
qed

lemma HandleMessage_at_ok:
  assumes ok: "session_ok s" and room: "session_room b s"
    and syn: "messageId (header m) = 1 \<longrightarrow> m_sessionState s = Listening"
    and srv: "\<And>S. pServer = Some S \<Longrightarrow> session_server S b" and aw: "awaits_server s \<Longrightarrow> pServer \<noteq> None"
  shows "\<exists>s' ch'. HandleMessage_at pServer m s ch = Some (s', ch') \<and> session_ok s' \<and> kind s' = kind s
    \<and> (pServer = None \<longrightarrow> \<not> awaits_server s')"
proof -
  obtain k where inv: "session_inv k s" using ok by (auto simp: session_ok_def)
  have rm: "tw_headroom (1 + b) s" "rw_room (m_receiveWindow s)" using room by (auto simp: session_room_def tw_headroom_def)
  have ok': "session_ok s'" "kind s' = kind s"
    if S: "session_server S b" and h: "HandleMessage S m s ch = (s', ch')" for S s' ch'
    using session_okI [OF ok keeps_inv [OF protocol_server.HandleMessage_keeps
        [OF session_server.axioms(1) [OF S] inv rm syn h]]]
      session_server.HandleMessage_kind [OF S inv syn h] by blast+
  show ?thesis
  proof (cases pServer)
    case (Some S)
    obtain s' ch' where "HandleMessage S m s ch = (s', ch')" by fastforce
    with ok' [OF srv [OF Some]] Some show ?thesis by (simp add: HandleMessage_at_def)
  next
    case None
    obtain s' ch' where h: "HandleMessage null_server m s ch = (s', ch')" by fastforce
    from None aw have na: "\<not> awaits_server s" by blast
    from ok' [OF session_server_null h] HandleMessage_null [OF inv ok na syn h] None h show ?thesis
      by (auto simp: HandleMessage_at_def)
  qed
qed

lemma Session_Update_null:
  assumes "session_ok s" and "\<not> awaits_server s"
    and u: "Session_Update null_server refCount s ch = Some (s', ch')"
  shows "\<not> awaits_server s'" and "m_sessionType s' = ServerType \<Longrightarrow>
    m_sessionState s' \<noteq> Established \<and> m_callbackState s' = m_callbackState s"
proof -
  obtain s4 ch4 s5 ch5 s6 where p: "settled_call s s4"
    "if m_sessionType s4 = ServerType \<and> m_sessionState s4 = Established
     then srv_UpdateSession null_server s4 ch4 = (s5, ch5) else s5 = s4"
    "if m_sessionType s5 = ServerType \<and> m_sessionState s5 = Closed \<and> m_callbackState s5 = EstablishedCalled
     then (\<exists>t. settled_call s5 t \<and> s6 = t\<lparr>m_callbackState := TerminatedCalled\<rparr>) else s6 = s5"
    "s' = (if m_sessionState s6 = Closed then s6\<lparr>m_disconnectionEvent := True\<rparr> else s6)"
    by (rule session_server.Session_Update_parts [OF session_server_null u])
  have st: "settles s s4" using p(1) by (simp add: settled_call_def)
  note aw = settles_awaits [OF st assms(1,2)]
  have "s5 = s4" using p(2) aw(2) by auto
  moreover have "\<not> (m_sessionType s4 = ServerType \<and> m_callbackState s4 = EstablishedCalled)"
    using aw(1) by (auto simp: awaits_server_def)
  ultimately have s6: "s6 = s4" using p(3) by auto
  have e: "m_sessionType s' = m_sessionType s4" "m_sessionState s' = m_sessionState s4"
    "m_callbackState s' = m_callbackState s4" using p(4) s6 by simp_all
  show "\<not> awaits_server s'" using aw(1) unfolding awaits_server_def e .
  show "m_sessionType s' = ServerType \<Longrightarrow> m_sessionState s' \<noteq> Established \<and> m_callbackState s' = m_callbackState s"
    using aw(2) st unfolding e settles_def by auto
qed

lemma Session_Update_at_ok:
  assumes ok: "session_ok s" and room: "session_room b s"
    and srv: "\<And>S. pServer = Some S \<Longrightarrow> session_server S b" and aw: "awaits_server s \<Longrightarrow> pServer \<noteq> None"
  shows "\<exists>s' ch'. Session_Update_at pServer refCount s ch = Some (s', ch') \<and> session_ok s' \<and> kind s' = kind s
    \<and> (pServer = None \<longrightarrow> \<not> awaits_server s') \<and> (m_sessionState s = Closed \<longrightarrow> m_sessionState s' = Closed)"
proof -
  obtain k where inv: "session_inv k s" using ok by (auto simp: session_ok_def)
  have rm: "tw_headroom (1 + b + b) s" using room by (simp add: session_room_def)
  have up: "\<exists>s' ch'. Session_Update S refCount s ch = Some (s', ch') \<and> session_ok s' \<and> kind s' = kind s
      \<and> (m_sessionState s = Closed \<longrightarrow> m_sessionState s' = Closed)" if S: "session_server S b" for S
  proof -
    obtain s' ch' where u: "Session_Update S refCount s ch = Some (s', ch')" and k: "keeps (1 + b + b) k s s'"
      using protocol_server.Session_Update_keeps [OF session_server.axioms(1) [OF S] inv rm] by blast
    note kd = session_server.Session_Update_kind [OF S u]
    from session_okI [OF ok keeps_inv [OF k] kd(1,2)] u kd(1,3) show ?thesis by blast
  qed
  show ?thesis
  proof (cases pServer)
    case (Some S)
    with up [OF srv [OF Some]] show ?thesis by (simp add: Session_Update_at_def)
  next
    case None
    obtain s' ch' where u: "Session_Update null_server refCount s ch = Some (s', ch')" "session_ok s'"
      "kind s' = kind s" "m_sessionState s = Closed \<longrightarrow> m_sessionState s' = Closed"
      using up [OF session_server_null] by blast
    from None aw have "\<not> awaits_server s" by blast
    from Session_Update_null [OF ok this u(1)] u None show ?thesis by (auto simp: Session_Update_at_def)
  qed
qed

subsection \<open>Loops over the sessions\<close>

text \<open>
  The work \<open>f\<close> on the sessions that satisfy \<open>pre\<close> leaves them in \<open>post\<close>: then so does the loop, for every
  session of the map, and it leaves all other objects alone.
\<close>

definition works :: "session_work \<Rightarrow> (Session \<Rightarrow> bool) \<Rightarrow> (SessionId \<Rightarrow> nat \<Rightarrow> Session \<Rightarrow> bool \<Rightarrow> Session option \<Rightarrow> bool) \<Rightarrow> bool"
  where
  "works f pre post \<longleftrightarrow>
    (\<forall>k p s ch. pre s \<longrightarrow> (\<exists>rm s' ch'. f k p s ch = Some (rm, s', ch') \<and> post k p s rm s'))"

lemma run_body_objects:
  assumes w: "works f pre post" and d: "distinct (map fst xs)" "distinct (map snd xs)"
    and pre: "\<forall>p \<in> snd ` set xs. \<exists>s. objs p = Some s \<and> pre s"
  shows "\<exists>ks objs' ch'. run_body (on_object f) xs (objs, ch) = Some (ks, objs', ch')
    \<and> set ks \<subseteq> fst ` set xs \<and> (\<forall>p. p \<notin> snd ` set xs \<longrightarrow> objs' p = objs p)
    \<and> (\<forall>k p s. (k, p) \<in> set xs \<longrightarrow> objs p = Some s \<longrightarrow> post k p s (k \<in> set ks) (objs' p))"
  using d pre
proof (induction xs arbitrary: objs ch)
  case (Cons x xs)
  obtain k p where x: "x = (k, p)" by fastforce
  obtain s where s: "objs p = Some s" "pre s" using Cons.prems(3) x by auto
  obtain rm s' ch1 where f: "f k p s ch = Some (rm, s', ch1)" "post k p s rm s'"
    using w s(2) unfolding works_def by blast
  have np: "p \<notin> snd ` set xs" and nk: "k \<notin> fst ` set xs" using Cons.prems(1,2) x by auto
  let ?objs = "objs(p := s')"
  have pre': "\<forall>q \<in> snd ` set xs. \<exists>t. ?objs q = Some t \<and> pre t"
  proof
    fix q assume "q \<in> snd ` set xs"
    with Cons.prems(3) np x show "\<exists>t. ?objs q = Some t \<and> pre t" by (cases "q = p") auto
  qed
  have d': "distinct (map fst xs)" "distinct (map snd xs)" using Cons.prems(1,2) by simp_all
  obtain ks objs' ch' where IH:
    "run_body (on_object f) xs (?objs, ch1) = Some (ks, objs', ch')" "set ks \<subseteq> fst ` set xs"
    "\<forall>q. q \<notin> snd ` set xs \<longrightarrow> objs' q = ?objs q"
    "\<forall>j q t. (j, q) \<in> set xs \<longrightarrow> ?objs q = Some t \<longrightarrow> post j q t (j \<in> set ks) (objs' q)"
    using Cons.IH [of ?objs ch1, OF d' pre'] by blast
  let ?ks = "if rm then k # ks else ks"
  have "run_body (on_object f) (x # xs) (objs, ch) = Some (?ks, objs', ch')"
    using IH(1) f(1) s(1) by (simp add: x on_object_def)
  moreover have "set ?ks \<subseteq> fst ` set (x # xs)" using IH(2) x by auto
  moreover have "objs' q = objs q" if "q \<notin> snd ` set (x # xs)" for q
    using IH(3) that x by (auto simp: image_iff)
  moreover have "post j q t (j \<in> set ?ks) (objs' q)" if jq: "(j, q) \<in> set (x # xs)" "objs q = Some t" for j q t
  proof (cases "(j, q) = x")
    case True
    then have e: "j = k" "q = p" "t = s" using x jq(2) s(1) by simp_all
    have "(k \<in> set ?ks) = rm" using nk IH(2) by auto
    moreover have "objs' p = s'" using IH(3) np by simp
    ultimately show ?thesis using f(2) e by simp
  next
    case False
    then have m: "(j, q) \<in> set xs" using jq(1) by simp
    then have "q \<noteq> p" "j \<noteq> k" using np nk by force+
    then have "post j q t (j \<in> set ks) (objs' q)" using IH(4) m jq(2) by simp
    with \<open>j \<noteq> k\<close> show ?thesis by simp
  qed
  ultimately show ?case by blast
qed simp

subsection \<open>The invariant\<close>

definition server_ok :: "ManagerParams \<Rightarrow> nat \<Rightarrow> SessionManager \<Rightarrow> bool" where
  "server_ok Q b sm \<longleftrightarrow>
     hb_inv (serverHash Q) (m_protocolServers sm)
     \<and> (\<forall>key S. lookup (serverHash Q) (m_protocolServers sm) key = Some S
          \<longrightarrow> srv_protocol S = key \<and> session_server S b)"

definition served :: "ManagerParams \<Rightarrow> SessionManager \<Rightarrow> Session \<Rightarrow> bool" where
  "served Q sm s \<longleftrightarrow> session_ok s
     \<and> (awaits_server s \<longrightarrow> lookup (serverHash Q) (m_protocolServers sm) (m_protocol s) \<noteq> None)"

definition pointers_ok :: "ManagerParams \<Rightarrow> SessionManager \<Rightarrow> bool" where
  "pointers_ok Q sm \<longleftrightarrow>
     hb_inv (sessionHash Q) (m_sessions sm)
     \<and> (\<forall>k p. lookup (sessionHash Q) (m_sessions sm) k = Some p \<longrightarrow>
          (\<exists>s. sm_objects sm p = Some s \<and> served Q sm s)
          \<and> (\<forall>k'. lookup (sessionHash Q) (m_sessions sm) k' = Some p \<longrightarrow> k' = k))
     \<and> (\<forall>p \<ge> sm_nextObject sm. sm_objects sm p = None)"

definition mgr_inv :: "ManagerParams \<Rightarrow> nat \<Rightarrow> SessionManager \<Rightarrow> bool" where
  "mgr_inv Q b sm \<longleftrightarrow> server_ok Q b sm \<and> pointers_ok Q sm"

text \<open>Room in the counters: 64-bit sequence numbers, and the 32-bit number of sessions.\<close>

definition mgr_room :: "ManagerParams \<Rightarrow> nat \<Rightarrow> SessionManager \<Rightarrow> bool" where
  "mgr_room Q b sm \<longleftrightarrow> b < 2 ^ 32 \<and> length (all_entries (m_sessions sm)) < 2 ^ 32
     \<and> (\<forall>p s. sm_objects sm p = Some s \<longrightarrow> session_room b s)"

lemma pointers_okD:
  assumes "pointers_ok Q sm"
  shows "hb_inv (sessionHash Q) (m_sessions sm)"
    and "lookup (sessionHash Q) (m_sessions sm) k = Some p \<Longrightarrow> \<exists>s. sm_objects sm p = Some s \<and> served Q sm s"
    and "lookup (sessionHash Q) (m_sessions sm) k = Some p \<Longrightarrow>
         lookup (sessionHash Q) (m_sessions sm) k' = Some p \<Longrightarrow> k' = k"
    and "sm_nextObject sm \<le> p \<Longrightarrow> sm_objects sm p = None"
  using assms unfolding pointers_ok_def by blast+

lemma GetProtocolServer_lookup: "GetProtocolServer Q pr sm = lookup (serverHash Q) (m_protocolServers sm) pr"
  by (simp add: GetProtocolServer_def)

lemma server_okD:
  assumes "server_ok Q b sm"
  shows "GetProtocolServer Q pr sm = Some S \<Longrightarrow> session_server S b"
    and "GetProtocolServer Q pr sm = Some S \<Longrightarrow> srv_protocol S = pr"
  using assms unfolding server_ok_def GetProtocolServer_lookup by blast+

lemma for_sessions_spec:
  assumes po: "pointers_ok Q sm" and small: "length (all_entries (m_sessions sm)) < 2 ^ 32"
    and w: "works f pre post"
    and pre: "\<forall>p s. sm_objects sm p = Some s \<longrightarrow> served Q sm s \<longrightarrow> pre s"
  shows "\<exists>h objs ch'. for_sessions Q f sm ch = Some (sm\<lparr>m_sessions := h, sm_objects := objs\<rparr>, ch')
    \<and> hb_inv (sessionHash Q) h
    \<and> (\<forall>p. p \<notin> ran (lookup (sessionHash Q) (m_sessions sm)) \<longrightarrow> objs p = sm_objects sm p)
    \<and> (\<forall>k. lookup (sessionHash Q) h k \<noteq> None \<longrightarrow>
          lookup (sessionHash Q) h k = lookup (sessionHash Q) (m_sessions sm) k)
    \<and> (\<forall>k p s. lookup (sessionHash Q) (m_sessions sm) k = Some p \<longrightarrow> sm_objects sm p = Some s \<longrightarrow>
          post k p s (lookup (sessionHash Q) h k = None) (objs p))"
proof -
  let ?P = "sessionHash Q" and ?h = "m_sessions sm"
  note inv = pointers_okD(1) [OF po]
  obtain xs where xs: "mset xs = mset (all_entries ?h)"
    "case run_body (on_object f) xs (sm_objects sm, ch) of
         None \<Rightarrow> for_entries ?P (on_object f) ?h (sm_objects sm, ch) = None
       | Some (ks, t) \<Rightarrow> \<exists>h'. for_entries ?P (on_object f) ?h (sm_objects sm, ch) = Some (h', t) \<and> hb_inv ?P h'
           \<and> lookup ?P h' = (lookup ?P ?h) |` (- set ks)"
    using for_entries_eq [OF inv small, of "on_object f" "(sm_objects sm, ch)"] by blast
  have set: "set xs = set (all_entries ?h)" using xs(1) by (metis set_mset_mset)
  have look: "lookup ?P ?h k = Some p \<longleftrightarrow> (k, p) \<in> set xs" for k p
    unfolding lookup_all_entries [OF inv] map_of_eq_Some_iff [OF all_entries_keys [OF inv]] set ..
  have "mset (map fst xs) = mset (map fst (all_entries ?h))" using xs(1) by simp
  then have d1: "distinct (map fst xs)" using all_entries_keys [OF inv] mset_eq_imp_distinct_iff by blast
  have "inj_on snd (set xs)"
    using pointers_okD(3) [OF po] unfolding look inj_on_def by (metis prod.collapse)
  then have d2: "distinct (map snd xs)" using d1 by (simp add: distinct_map)
  have pre': "\<forall>p \<in> snd ` set xs. \<exists>s. sm_objects sm p = Some s \<and> pre s"
    using pointers_okD(2) [OF po] pre unfolding look by fastforce
  obtain ks objs ch' where r:
    "run_body (on_object f) xs (sm_objects sm, ch) = Some (ks, objs, ch')" "set ks \<subseteq> fst ` set xs"
    "\<forall>p. p \<notin> snd ` set xs \<longrightarrow> objs p = sm_objects sm p"
    "\<forall>k p s. (k, p) \<in> set xs \<longrightarrow> sm_objects sm p = Some s \<longrightarrow> post k p s (k \<in> set ks) (objs p)"
    using run_body_objects [of f pre post xs "sm_objects sm" ch, OF w d1 d2 pre'] by blast
  obtain h where h: "for_entries ?P (on_object f) ?h (sm_objects sm, ch) = Some (h, objs, ch')" "hb_inv ?P h"
    "lookup ?P h = (lookup ?P ?h) |` (- set ks)" using xs(2) r(1) by auto
  have ran: "ran (lookup ?P ?h) = snd ` set xs" using look by (force simp: ran_def image_iff)
  have fs: "for_sessions Q f sm ch = Some (sm\<lparr>m_sessions := h, sm_objects := objs\<rparr>, ch')"
    using h(1) by (simp add: for_sessions_def)
  have po': "post k p s (lookup ?P h k = None) (objs p)"
    if "lookup ?P ?h k = Some p" "sm_objects sm p = Some s" for k p s
  proof -
    have "(lookup ?P h k = None) = (k \<in> set ks)" using that(1) by (simp add: h(3) restrict_map_def)
    with r(4) that look show ?thesis by simp
  qed
  have same: "lookup ?P h k = lookup ?P ?h k" if "lookup ?P h k \<noteq> None" for k
    using that by (auto simp: h(3) restrict_map_def split: if_splits)
  show ?thesis
    by (intro exI [of _ h] exI [of _ objs] exI [of _ ch'] conjI) (use fs h(2) r(3) ran same po' in auto)
qed

subsection \<open>What the operations keep\<close>

definition same_rest :: "SessionManager \<Rightarrow> SessionManager \<Rightarrow> bool" where
  "same_rest sm sm' \<longleftrightarrow> m_protocolServers sm' = m_protocolServers sm \<and> sm_handles sm' = sm_handles sm
     \<and> sm_nextObject sm' = sm_nextObject sm \<and> sm_clientId sm' = sm_clientId sm
     \<and> sm_hasChannel sm' = sm_hasChannel sm \<and> m_lastSessionId sm' = m_lastSessionId sm"

text \<open>
  A loop whose work keeps \<open>served\<close> and frees an object only with its entry keeps the invariant.
\<close>

lemma for_sessions_inv:
  assumes inv: "mgr_inv Q b sm" and room: "mgr_room Q b sm"
    and w: "works f (\<lambda>s. served Q sm s \<and> session_room b s)
        (\<lambda>k p s rm s'. (\<not> rm \<longrightarrow> (\<exists>t. s' = Some t \<and> served Q sm t)) \<and> post k p s rm s')"
  shows "\<exists>sm' ch'. for_sessions Q f sm ch = Some (sm', ch') \<and> mgr_inv Q b sm'
    \<and> same_rest sm sm'
    \<and> (\<forall>p. p \<notin> ran (lookup (sessionHash Q) (m_sessions sm)) \<longrightarrow> sm_objects sm' p = sm_objects sm p)
    \<and> (\<forall>k. lookup (sessionHash Q) (m_sessions sm') k \<noteq> None \<longrightarrow>
          lookup (sessionHash Q) (m_sessions sm') k = lookup (sessionHash Q) (m_sessions sm) k)
    \<and> (\<forall>k p s. lookup (sessionHash Q) (m_sessions sm) k = Some p \<longrightarrow> sm_objects sm p = Some s \<longrightarrow>
          post k p s (lookup (sessionHash Q) (m_sessions sm') k = None) (sm_objects sm' p))"
proof -
  let ?P = "sessionHash Q"
  have so: "server_ok Q b sm" and po: "pointers_ok Q sm" using inv by (simp_all add: mgr_inv_def)
  have small: "length (all_entries (m_sessions sm)) < 2 ^ 32" using room by (simp add: mgr_room_def)
  have pre: "\<forall>p s. sm_objects sm p = Some s \<longrightarrow> served Q sm s \<longrightarrow> served Q sm s \<and> session_room b s"
    using room by (auto simp: mgr_room_def)
  obtain h objs ch' where r: "for_sessions Q f sm ch = Some (sm\<lparr>m_sessions := h, sm_objects := objs\<rparr>, ch')"
    "hb_inv ?P h" "\<forall>p. p \<notin> ran (lookup ?P (m_sessions sm)) \<longrightarrow> objs p = sm_objects sm p"
    "\<forall>k. lookup ?P h k \<noteq> None \<longrightarrow> lookup ?P h k = lookup ?P (m_sessions sm) k"
    "\<forall>k p s. lookup ?P (m_sessions sm) k = Some p \<longrightarrow> sm_objects sm p = Some s \<longrightarrow>
       (\<not> lookup ?P h k = None \<longrightarrow> (\<exists>t. objs p = Some t \<and> served Q sm t))
       \<and> post k p s (lookup ?P h k = None) (objs p)"
    using for_sessions_spec [OF po small w pre, where ch = ch] by blast
  let ?sm = "sm\<lparr>m_sessions := h, sm_objects := objs\<rparr>"
  have sv: "served Q ?sm = served Q sm" by (rule ext) (simp add: served_def)
  have "pointers_ok Q ?sm"
    unfolding pointers_ok_def sv
  proof (intro conjI allI impI)
    fix k p assume k: "lookup ?P (m_sessions ?sm) k = Some p"
    then have old: "lookup ?P (m_sessions sm) k = Some p" using r(4) by auto
    obtain s where "sm_objects sm p = Some s" using pointers_okD(2) [OF po old] by blast
    with r(5) old k show "\<exists>s. sm_objects ?sm p = Some s \<and> served Q sm s" by auto
    fix k' assume "lookup ?P (m_sessions ?sm) k' = Some p"
    then have "lookup ?P (m_sessions sm) k' = Some p" using r(4) by auto
    then show "k' = k" by (rule pointers_okD(3) [OF po old])
  next
    fix p assume p: "sm_nextObject ?sm \<le> p"
    then have none: "sm_objects sm p = None" by (auto intro: pointers_okD(4) [OF po])
    then have "p \<notin> ran (lookup ?P (m_sessions sm))"
      using pointers_okD(2) [OF po] by (fastforce simp: ran_def)
    with r(3) none show "sm_objects ?sm p = None" by simp
  qed (use r(2) in simp)
  moreover have "server_ok Q b ?sm" using so by (simp add: server_ok_def)
  ultimately have "mgr_inv Q b ?sm" by (simp add: mgr_inv_def)
  with r(1,3-5) show ?thesis by (intro exI [of _ ?sm] exI [of _ ch']) (simp add: same_rest_def)
qed

lemma served_same:
  assumes "served Q sm s" and "session_ok s'" and "kind s' = kind s"
    and "lookup (serverHash Q) (m_protocolServers sm) (m_protocol s) = None \<Longrightarrow> \<not> awaits_server s'"
  shows "served Q sm s'"
  using assms by (auto simp: served_def kind_def)

lemma session_ok_Shutdown: "session_ok s \<Longrightarrow> session_ok (Shutdown r s)"
proof -
  assume ok: "session_ok s"
  then obtain k where "session_inv k s" by (auto simp: session_ok_def)
  then have "session_inv k (Shutdown r s)" using keeps_Shutdown [OF keeps_refl] keeps_inv by blast
  with ok show ?thesis by (auto simp: session_ok_def Shutdown_state)
qed

lemma served_Shutdown: "served Q sm s \<Longrightarrow> served Q sm (Shutdown r s)"
proof (rule served_same)
  assume s: "served Q sm s"
  then show "session_ok (Shutdown r s)" by (simp add: served_def session_ok_Shutdown)
  assume "lookup (serverHash Q) (m_protocolServers sm) (m_protocol s) = None"
  with s show "\<not> awaits_server (Shutdown r s)"
    using settles_awaits(1) [OF settles_Shutdown] by (auto simp: served_def)
qed simp_all

lemma update_sessions_spec:
  assumes inv: "mgr_inv Q b sm" and room: "mgr_room Q b sm"
  shows "\<exists>sm' ch'. update_sessions Q sm ch = Some (sm', ch') \<and> mgr_inv Q b sm'
    \<and> (\<forall>k p s. lookup (sessionHash Q) (m_sessions sm) k = Some p \<longrightarrow> sm_objects sm p = Some s \<longrightarrow>
         (if lookup (sessionHash Q) (m_sessions sm') k = None
          then sm_objects sm' p = None \<longleftrightarrow> sm_handles sm p = 0
          else lookup (sessionHash Q) (m_sessions sm') k = Some p
            \<and> (\<exists>t. sm_objects sm' p = Some t \<and> m_sessionState t \<noteq> Closed))
         \<and> (m_sessionState s = Closed \<longrightarrow> lookup (sessionHash Q) (m_sessions sm') k = None))
    \<and> (\<forall>k. lookup (sessionHash Q) (m_sessions sm) k = None \<longrightarrow> lookup (sessionHash Q) (m_sessions sm') k = None)"
proof -
  let ?P = "sessionHash Q"
  let ?f = "\<lambda>_ p s ch. map_option
           (\<lambda>(s', ch'). if m_sessionState s' = Closed then (True, released (sm_handles sm p) s', ch')
                        else (False, Some s', ch'))
           (Session_Update_at (GetProtocolServer Q (m_protocol s) sm) (1 + sm_handles sm p) s ch)"
  let ?post = "\<lambda>(k :: SessionId) p s rm s'. (if rm then s' = None \<longleftrightarrow> sm_handles sm p = 0
      else \<exists>t. s' = Some t \<and> m_sessionState t \<noteq> Closed) \<and> (m_sessionState s = Closed \<longrightarrow> rm)"
  have so: "server_ok Q b sm" using inv by (simp add: mgr_inv_def)
  have w: "works ?f (\<lambda>s. served Q sm s \<and> session_room b s)
        (\<lambda>k p s rm s'. (\<not> rm \<longrightarrow> (\<exists>t. s' = Some t \<and> served Q sm t)) \<and> ?post k p s rm s')"
    unfolding works_def
  proof (intro allI impI)
    fix k :: SessionId and p s ch assume s: "served Q sm s \<and> session_room b s"
    have aw: "awaits_server s \<Longrightarrow> GetProtocolServer Q (m_protocol s) sm \<noteq> None"
      using s by (auto simp: served_def GetProtocolServer_lookup)
    obtain s' ch' where u: "Session_Update_at (GetProtocolServer Q (m_protocol s) sm) (1 + sm_handles sm p) s ch
        = Some (s', ch')" "session_ok s'" "kind s' = kind s"
      "GetProtocolServer Q (m_protocol s) sm = None \<longrightarrow> \<not> awaits_server s'"
      "m_sessionState s = Closed \<longrightarrow> m_sessionState s' = Closed"
      using Session_Update_at_ok [of s b "GetProtocolServer Q (m_protocol s) sm" "1 + sm_handles sm p" ch]
        s aw server_okD(1) [OF so] by (auto simp: served_def)
    have sv: "served Q sm s'"
      by (rule served_same [of Q sm s]) (use s u(2-4) in \<open>auto simp: GetProtocolServer_lookup\<close>)
    show "\<exists>rm s' ch'. ?f k p s ch = Some (rm, s', ch')
        \<and> (\<not> rm \<longrightarrow> (\<exists>t. s' = Some t \<and> served Q sm t)) \<and> ?post k p s rm s'"
      using u(1,5) sv by (cases "m_sessionState s' = Closed") (auto simp: released_def)
  qed
  from for_sessions_inv [OF inv room w] obtain sm' ch' where r:
    "for_sessions Q ?f sm ch = Some (sm', ch')" "mgr_inv Q b sm'"
    "\<forall>k. lookup ?P (m_sessions sm') k \<noteq> None \<longrightarrow> lookup ?P (m_sessions sm') k = lookup ?P (m_sessions sm) k"
    "\<forall>k p s. lookup ?P (m_sessions sm) k = Some p \<longrightarrow> sm_objects sm p = Some s \<longrightarrow>
       ?post k p s (lookup ?P (m_sessions sm') k = None) (sm_objects sm' p)" by blast
  show ?thesis
  proof (intro exI conjI allI impI)
    show "update_sessions Q sm ch = Some (sm', ch')" using r(1) by (simp add: update_sessions_def)
  next
    fix k p s assume k: "lookup ?P (m_sessions sm) k = Some p" and s: "sm_objects sm p = Some s"
    from r(4) [rule_format, OF k s] r(3) [rule_format, of k] k
    show "if lookup ?P (m_sessions sm') k = None then sm_objects sm' p = None \<longleftrightarrow> sm_handles sm p = 0
          else lookup ?P (m_sessions sm') k = Some p \<and> (\<exists>t. sm_objects sm' p = Some t \<and> m_sessionState t \<noteq> Closed)"
      by auto
    assume "m_sessionState s = Closed"
    with r(4) [rule_format, OF k s] show "lookup ?P (m_sessions sm') k = None" by blast
  next
    fix k assume "lookup ?P (m_sessions sm) k = None"
    with r(3) [rule_format, of k] show "lookup ?P (m_sessions sm') k = None" by fastforce
  qed (rule r(2))
qed

end
