(* ===== verification/Manager_Ops.thy ===== *)
theory Manager_Ops
  imports Manager_Inv
begin

text \<open>
  The operations of the session manager one by one: what each returns, what it does to the sessions,
  and that it keeps the manager's invariant.
\<close>

subsection \<open>New identifiers\<close>

definition free_id :: "ManagerParams \<Rightarrow> SessionManager \<Rightarrow> SessionId \<Rightarrow> SessionId \<Rightarrow> bool" where
  "free_id Q sm remote sid \<longleftrightarrow> sid \<noteq> kInvalidSessionId
     \<and> lookup (sessionHash Q) (m_sessions sm) sid = None \<and> drop_bit 16 sid = remote AND mask 16"

lemma candidate_high: "drop_bit 16 ((w AND kClientSessionIdMask) OR push_bit 16 r) = (r :: u32) AND mask 16"
  by (rule bit_word_eqI) (auto simp: kClientSessionIdMask_def bit_simps)

lemma candidate_eq:
  assumes "drop_bit 16 (sid :: u32) = r AND mask 16"
  shows "(sid AND kClientSessionIdMask) OR push_bit 16 r = sid"
proof (rule bit_word_eqI)
  fix n assume n: "n < LENGTH(32)"
  have "bit (drop_bit 16 sid) (n - 16) = bit (r AND mask 16) (n - 16)" using assms by simp
  then show "bit ((sid AND kClientSessionIdMask) OR push_bit 16 r) n = bit sid n"
    using n by (cases "n < 16") (auto simp: kClientSessionIdMask_def bit_simps)
qed

lemma session_id_loop_reaches:
  assumes "drop_bit 16 sid = r AND mask 16" and "sid \<noteq> kInvalidSessionId" and "\<not> Contains P sid h"
    and "lastId + word_of_nat (Suc n) = sid"
  shows "session_id_loop P h (push_bit 16 r) lastId \<noteq> None"
  using assms(4)
proof (induction n arbitrary: lastId)
  case 0
  with candidate_eq [OF assms(1)] assms(2,3) show ?case
    by (subst session_id_loop.simps) (simp add: Let_def)
next
  case (Suc n)
  have "(lastId + 1) + word_of_nat (Suc n) = sid" using Suc.prems by (simp add: ac_simps)
  from Suc.IH [OF this] show ?case by (subst session_id_loop.simps) (simp add: Let_def)
qed

lemma session_id_loop_result:
  assumes "session_id_loop P h (push_bit 16 r) lastId = Some (sid, lastId')"
  shows "sid \<noteq> kInvalidSessionId \<and> \<not> Contains P sid h \<and> drop_bit 16 sid = r AND mask 16"
proof -
  let ?free = "\<lambda>(((P, h), R), l :: u32) y. \<forall>r. R = push_bit 16 r \<longrightarrow>
     fst y \<noteq> kInvalidSessionId \<and> \<not> Contains P (fst y) (h :: (SessionId, nat) HashBase)
     \<and> drop_bit 16 (fst y) = r AND mask 16"
  have "?free (((P, h), push_bit 16 r), lastId) (sid, lastId' :: u32)"
    by (rule session_id_loop.raw_induct [where Pa = ?free, OF _ assms])
      (use candidate_high in \<open>fastforce simp: Let_def split: if_splits\<close>)
  then show ?thesis by simp
qed

lemma GetNewSessionId_free:
  assumes "GetNewSessionId Q remote sm = Some (sid, sm')"
  shows "free_id Q sm remote sid" and "\<exists>l. sm' = sm\<lparr>m_lastSessionId := l\<rparr>"
  using assms session_id_loop_result [of "sessionHash Q" "m_sessions sm" remote "m_lastSessionId sm" sid]
  by (auto simp: GetNewSessionId_def free_id_def kClientSessionIdSize_def Contains_lookup)

lemma GetNewSessionId_returns_eq:
  "(\<exists>sid sm'. GetNewSessionId Q remote sm = Some (sid, sm')) \<longleftrightarrow> (\<exists>sid. free_id Q sm remote sid)"
proof
  assume "\<exists>sid. free_id Q sm remote sid"
  then obtain sid where f: "free_id Q sm remote sid" by blast
  let ?n = "unat (sid - m_lastSessionId sm - 1)"
  have "m_lastSessionId sm + word_of_nat (Suc ?n) = sid" by simp
  with f have "session_id_loop (sessionHash Q) (m_sessions sm) (push_bit 16 remote) (m_lastSessionId sm) \<noteq> None"
    by (intro session_id_loop_reaches [of sid remote _ _ _ ?n]) (auto simp: free_id_def Contains_lookup)
  then show "\<exists>sid sm'. GetNewSessionId Q remote sm = Some (sid, sm')"
    by (auto simp: GetNewSessionId_def kClientSessionIdSize_def)
qed (use GetNewSessionId_free(1) in blast)

text \<open>The identifiers for one remote identifier are as many as there are 16-bit numbers.\<close>

lemma free_id_few:
  assumes inv: "hb_inv (sessionHash Q) (m_sessions sm)"
    and few: "card (dom (lookup (sessionHash Q) (m_sessions sm))) < 65535"
  shows "\<exists>sid. free_id Q sm remote sid"
proof -
  let ?f = "\<lambda>x :: 16 word. (ucast x :: u32) OR push_bit 16 remote"
  let ?D = "insert 0 (dom (lookup (sessionHash Q) (m_sessions sm)))"
  have high: "drop_bit 16 (?f x) = remote AND mask 16" for x
    by (rule bit_word_eqI) (auto simp: bit_simps dest: bit_imp_le_length)
  have low: "ucast (?f x) = x" for x by (rule bit_word_eqI) (auto simp: bit_simps)
  have "inj ?f" by (rule inj_on_inverseI [of _ ucast]) (rule low)
  then have "card (range ?f) = 65536" by (simp add: card_image card_word)
  moreover have "finite ?D" "card ?D < 65536"
    using Size_card(1) [OF inv] few by (auto simp: card_insert_if)
  ultimately have "\<not> range ?f \<subseteq> ?D" by (metis card_mono linorder_not_less)
  then obtain x where "?f x \<notin> ?D" by blast
  with high show ?thesis by (auto simp: free_id_def domIff intro!: exI [of _ "?f x"])
qed

subsection \<open>Shutting sessions down\<close>

text \<open>A loop that keeps every entry and changes each session by \<open>g\<close>.\<close>

lemma for_sessions_map:
  assumes inv: "mgr_inv Q b sm" and room: "mgr_room Q b sm"
    and g: "\<And>s. served Q sm s \<Longrightarrow> served Q sm (g s)"
  shows "\<exists>sm' ch'. for_sessions Q (\<lambda>_ _ s ch. Some (False, Some (g s), ch)) sm ch = Some (sm', ch')
    \<and> mgr_inv Q b sm' \<and> same_rest sm sm'
    \<and> (\<forall>p. p \<notin> ran (lookup (sessionHash Q) (m_sessions sm)) \<longrightarrow> sm_objects sm' p = sm_objects sm p)
    \<and> lookup (sessionHash Q) (m_sessions sm') = lookup (sessionHash Q) (m_sessions sm)
    \<and> (\<forall>k p s. lookup (sessionHash Q) (m_sessions sm) k = Some p \<longrightarrow> sm_objects sm p = Some s \<longrightarrow>
         sm_objects sm' p = Some (g s))"
proof -
  let ?P = "sessionHash Q"
  have w: "works (\<lambda>_ _ s ch. Some (False, Some (g s), ch)) (\<lambda>s. served Q sm s \<and> session_room b s)
        (\<lambda>k p s rm s'. (\<not> rm \<longrightarrow> (\<exists>t. s' = Some t \<and> served Q sm t)) \<and> (\<not> rm \<and> s' = Some (g s)))"
    unfolding works_def using g by blast
  obtain sm' ch' where r: "for_sessions Q (\<lambda>_ _ s ch. Some (False, Some (g s), ch)) sm ch = Some (sm', ch')"
    "mgr_inv Q b sm'" "same_rest sm sm'"
    "\<forall>p. p \<notin> ran (lookup ?P (m_sessions sm)) \<longrightarrow> sm_objects sm' p = sm_objects sm p"
    "\<forall>k. lookup ?P (m_sessions sm') k \<noteq> None \<longrightarrow> lookup ?P (m_sessions sm') k = lookup ?P (m_sessions sm) k"
    "\<forall>k p s. lookup ?P (m_sessions sm) k = Some p \<longrightarrow> sm_objects sm p = Some s \<longrightarrow>
       \<not> lookup ?P (m_sessions sm') k = None \<and> sm_objects sm' p = Some (g s)"
    using for_sessions_inv [OF inv room w] by blast
  have po: "pointers_ok Q sm" using inv by (simp add: mgr_inv_def)
  have "lookup ?P (m_sessions sm') k = lookup ?P (m_sessions sm) k" for k
  proof (cases "lookup ?P (m_sessions sm) k")
    case None
    with r(5) [rule_format, of k] show ?thesis by (cases "lookup ?P (m_sessions sm') k") simp_all
  next
    case (Some p)
    obtain s where "sm_objects sm p = Some s" using pointers_okD(2) [OF po Some] by blast
    with r(5) [rule_format, of k] r(6) [rule_format, OF Some] show ?thesis by blast
  qed
  then have l: "lookup ?P (m_sessions sm') = lookup ?P (m_sessions sm)" by (rule ext)
  show ?thesis
    by (rule exI [of _ sm'], rule exI [of _ ch']) (use r(1-4,6) l in simp)
qed

lemmas handle_client_disconnection_spec =
  for_sessions_map [where g = "\<lambda>s. if m_remoteClientId s = dst then Shutdown NotReady s else s",
    folded handle_client_disconnection_def] for dst

lemmas shut_down_each_spec = for_sessions_map [where g = "Shutdown r", OF _ _ served_Shutdown, folded shut_down_each_def] for r

lemma mgr_room_cong:
  assumes "mgr_room Q b sm" and "m_sessions sm' = m_sessions sm" and "sm_objects sm' = sm_objects sm"
  shows "mgr_room Q b sm'"
  using assms by (simp add: mgr_room_def)

lemma session_room_Shutdown [simp]: "session_room b (Shutdown r s) = session_room b s"
  by (simp add: session_room_def tw_headroom_def)

lemma IsEmpty_lookup:
  assumes "hb_inv P h" and "lookup P h = Map.empty"
  shows "IsEmpty h"
proof -
  have "all_entries h = []" using assms lookup_all_entries [OF assms(1)] by auto
  with hb_invD(5) [OF assms(1)] show ?thesis by (simp add: IsEmpty_def)
qed

lemma lookup_size:
  assumes "hb_inv P h" and "hb_inv P h'" and "lookup P h' = lookup P h"
  shows "length (all_entries h') = length (all_entries h)"
proof -
  have "card (dom (lookup P x)) = length (all_entries x)" if "hb_inv P x" for x :: "('a, 'b) HashBase"
    using distinct_card [OF all_entries_keys [OF that]] lookup_all_entries [OF that]
    by (simp add: dom_map_of_conv_image_fst)
  with assms show ?thesis by metis
qed

lemma mgr_room_map:
  assumes inv: "mgr_inv Q b sm" "mgr_inv Q b sm'" and room: "mgr_room Q b sm"
    and same: "\<forall>p. p \<notin> ran (lookup (sessionHash Q) (m_sessions sm)) \<longrightarrow> sm_objects sm' p = sm_objects sm p"
      "lookup (sessionHash Q) (m_sessions sm') = lookup (sessionHash Q) (m_sessions sm)"
      "\<forall>k p s. lookup (sessionHash Q) (m_sessions sm) k = Some p \<longrightarrow> sm_objects sm p = Some s \<longrightarrow>
         sm_objects sm' p = Some (g s)"
    and g: "\<And>s. session_room b s \<Longrightarrow> session_room b (g s)"
  shows "mgr_room Q b sm'"
proof -
  have po: "pointers_ok Q sm" "pointers_ok Q sm'" using inv by (simp_all add: mgr_inv_def)
  have "length (all_entries (m_sessions sm')) = length (all_entries (m_sessions sm))"
    by (rule lookup_size [OF pointers_okD(1) [OF po(1)] pointers_okD(1) [OF po(2)] same(2)])
  moreover have "session_room b t" if t: "sm_objects sm' p = Some t" for p t
  proof (cases "p \<in> ran (lookup (sessionHash Q) (m_sessions sm))")
    case True
    then obtain k where k: "lookup (sessionHash Q) (m_sessions sm) k = Some p" by (auto simp: ran_def)
    obtain s where s: "sm_objects sm p = Some s" using pointers_okD(2) [OF po(1) k] by blast
    have "t = g s" using same(3) [rule_format, OF k s] t by simp
    moreover have "session_room b s" using room s by (auto simp: mgr_room_def)
    ultimately show ?thesis using g by simp
  next
    case False
    then show ?thesis using room same(1) t by (auto simp: mgr_room_def)
  qed
  ultimately show ?thesis using room by (simp add: mgr_room_def)
qed

lemma shut_down_each_inv:
  assumes inv: "mgr_inv Q b sm" and room: "mgr_room Q b sm"
  shows "\<exists>sm' ch'. shut_down_each Q r sm ch = Some (sm', ch') \<and> mgr_inv Q b sm' \<and> mgr_room Q b sm'
    \<and> same_rest sm sm'
    \<and> lookup (sessionHash Q) (m_sessions sm') = lookup (sessionHash Q) (m_sessions sm)
    \<and> (\<forall>k p s. lookup (sessionHash Q) (m_sessions sm) k = Some p \<longrightarrow> sm_objects sm p = Some s \<longrightarrow>
         sm_objects sm' p = Some (Shutdown r s))"
proof -
  obtain sm' ch' where u: "shut_down_each Q r sm ch = Some (sm', ch')" "mgr_inv Q b sm'" "same_rest sm sm'"
    "\<forall>p. p \<notin> ran (lookup (sessionHash Q) (m_sessions sm)) \<longrightarrow> sm_objects sm' p = sm_objects sm p"
    "lookup (sessionHash Q) (m_sessions sm') = lookup (sessionHash Q) (m_sessions sm)"
    "\<forall>k p s. lookup (sessionHash Q) (m_sessions sm) k = Some p \<longrightarrow> sm_objects sm p = Some s \<longrightarrow>
       sm_objects sm' p = Some (Shutdown r s)"
    using shut_down_each_spec [OF inv room, of r ch] by blast
  have "mgr_room Q b sm'" by (rule mgr_room_map [OF inv u(2) room u(4-6)]) simp
  with u show ?thesis by blast
qed

lemma forced_shutdown:
  assumes inv: "mgr_inv Q b sm" and room: "mgr_room Q b sm"
    and e: "shut_down_each Q EndOfStream sm ch = Some (sm1, ch1)"
  shows "\<exists>sm' ch'. update_sessions Q sm1 ch2 = Some (sm', ch') \<and> mgr_inv Q b sm' \<and> IsEmpty (m_sessions sm')
    \<and> lookup (sessionHash Q) (m_sessions sm') = Map.empty"
proof -
  let ?P = "sessionHash Q"
  have po: "pointers_ok Q sm" using inv by (simp add: mgr_inv_def)
  have s1: "mgr_inv Q b sm1" "mgr_room Q b sm1" "lookup ?P (m_sessions sm1) = lookup ?P (m_sessions sm)"
    "\<forall>k p s. lookup ?P (m_sessions sm) k = Some p \<longrightarrow> sm_objects sm p = Some s \<longrightarrow>
       sm_objects sm1 p = Some (Shutdown EndOfStream s)"
    using shut_down_each_inv [OF inv room, of EndOfStream ch] e by auto
  obtain sm' ch' where u: "update_sessions Q sm1 ch2 = Some (sm', ch')" "mgr_inv Q b sm'"
    "\<forall>k p s. lookup ?P (m_sessions sm1) k = Some p \<longrightarrow> sm_objects sm1 p = Some s \<longrightarrow>
       m_sessionState s = Closed \<longrightarrow> lookup ?P (m_sessions sm') k = None"
    "\<forall>k. lookup ?P (m_sessions sm1) k = None \<longrightarrow> lookup ?P (m_sessions sm') k = None"
    using update_sessions_spec [OF s1(1,2), of ch2] by blast
  have "lookup ?P (m_sessions sm') k = None" for k
  proof (cases "lookup ?P (m_sessions sm1) k")
    case None
    with u(4) show ?thesis by blast
  next
    case (Some p)
    then obtain s where "sm_objects sm p = Some s" using pointers_okD(2) [OF po] s1(3) by metis
    then have o: "sm_objects sm1 p = Some (Shutdown EndOfStream s)" using s1(3,4) Some by simp
    show ?thesis by (rule u(3) [rule_format, OF Some o]) (simp add: Shutdown_state)
  qed
  then have "lookup ?P (m_sessions sm') = Map.empty" by (rule ext)
  moreover have "hb_inv ?P (m_sessions sm')" using u(2) by (simp add: mgr_inv_def pointers_ok_def)
  ultimately show ?thesis using IsEmpty_lookup u(1,2) by blast
qed

text \<open>An operation under the mutex is its block.\<close>

lemma LockGuard_SomeD: "LockGuard sm f ch = Some (x, ch') \<Longrightarrow> \<exists>ch1 ch2. f ch1 = Some (x, ch2)"
  by (auto simp: LockGuard_def split: option.splits prod.splits if_splits)

lemma locked_ops_block:
  "UpdateSessions Q sm ch = Some (sm', ch') \<Longrightarrow> \<exists>ch1 ch2. update_sessions Q sm ch1 = Some (sm', ch2)"
  "HandleClientDisconnection Q dst sm ch = Some (sm', ch') \<Longrightarrow>
     \<exists>ch1 ch2. handle_client_disconnection Q dst sm ch1 = Some (sm', ch2)"
  "HandleReceivedSessionMessage Q al m sm ch = Some (sm', ch') \<Longrightarrow>
     \<exists>ch1 ch2. handle_session_message Q al m sm ch1 = Some (sm', ch2)"
  "UnregisterProtocolServer Q S sm ch = Some (r, sm', ch') \<Longrightarrow>
     \<exists>ch1 ch2. unregister_protocol_server Q S sm ch1 = Some (r, sm', ch2)"
  by (auto simp: UpdateSessions_def HandleClientDisconnection_def HandleReceivedSessionMessage_def
      UnregisterProtocolServer_def dest!: LockGuard_SomeD)

end
