(* ===== verification/Manager_Dispatch.thy ===== *)
theory Manager_Dispatch
  imports Manager_Ops
begin

text \<open>
  Servers coming and going, sessions being opened, and the dispatch of session packets: each
  operation returns, and keeps the manager's invariant.
\<close>

lemma pointers_okI:
  assumes "hb_inv (sessionHash Q) (m_sessions sm)"
    and "\<And>k p. lookup (sessionHash Q) (m_sessions sm) k = Some p \<Longrightarrow> \<exists>s. sm_objects sm p = Some s \<and> served Q sm s"
    and "\<And>k p k'. lookup (sessionHash Q) (m_sessions sm) k = Some p \<Longrightarrow>
         lookup (sessionHash Q) (m_sessions sm) k' = Some p \<Longrightarrow> k' = k"
    and "\<And>p. sm_nextObject sm \<le> p \<Longrightarrow> sm_objects sm p = None"
  shows "pointers_ok Q sm"
  using assms by (simp add: pointers_ok_def)

lemma pointers_ok_cong:
  assumes "pointers_ok Q sm" and "\<And>s. served Q sm s \<Longrightarrow> served Q sm' s"
    and "m_sessions sm' = m_sessions sm" "sm_objects sm' = sm_objects sm" "sm_nextObject sm' = sm_nextObject sm"
  shows "pointers_ok Q sm'"
proof (rule pointers_okI)
  fix k p assume "lookup (sessionHash Q) (m_sessions sm') k = Some p"
  then obtain s where "sm_objects sm p = Some s" "served Q sm s"
    using pointers_okD(2) [OF assms(1), of k p] assms(3) by auto
  with assms(2,4) show "\<exists>s. sm_objects sm' p = Some s \<and> served Q sm' s" by auto
qed (use pointers_okD(1,3,4) [OF assms(1)] assms(3-5) in auto)

subsection \<open>Protocol servers\<close>

lemma RegisterProtocolServer_spec:
  assumes inv: "mgr_inv Q b sm" and srv: "session_server pServer b"
    and r: "RegisterProtocolServer Q al pServer sm = (result, sm')"
  shows "mgr_inv Q b sm'"
    and "GetProtocolServer Q (srv_protocol pServer) sm \<noteq> None \<Longrightarrow> result = EntryExists
         \<and> (\<forall>p. GetProtocolServer Q p sm' = GetProtocolServer Q p sm)"
    and "result = Success \<Longrightarrow> GetProtocolServer Q p sm' =
         (if p = srv_protocol pServer then Some pServer else GetProtocolServer Q p sm)"
proof -
  let ?P = "serverHash Q" and ?k = "srv_protocol pServer"
  have so: "server_ok Q b sm" and po: "pointers_ok Q sm" using inv by (simp_all add: mgr_inv_def)
  have hi: "hb_inv ?P (m_protocolServers sm)" using so by (simp add: server_ok_def)
  obtain servers where c: "Create ?P (allocEntry al) ?k pServer (m_protocolServers sm) = (result, servers)"
    and sm': "sm' = sm\<lparr>m_protocolServers := servers\<rparr>"
    using r by (auto simp: RegisterProtocolServer_def split: prod.splits)
  note cs = Create_spec [OF hi c]
  have up: "lookup ?P servers = lookup ?P (m_protocolServers sm)
      \<or> lookup ?P (m_protocolServers sm) ?k = None
        \<and> lookup ?P servers = (lookup ?P (m_protocolServers sm))(?k \<mapsto> pServer)"
    using cs(2,3) by blast
  have "server_ok Q b sm'" using so srv up cs(1) unfolding server_ok_def sm' by (auto split: if_splits)
  moreover have "served Q sm' s" if "served Q sm s" for s
    using that up unfolding served_def sm' by (auto split: if_splits)
  then have "pointers_ok Q sm'" by (rule pointers_ok_cong [OF po]) (simp_all add: sm')
  ultimately show "mgr_inv Q b sm'" by (simp add: mgr_inv_def)
  show "GetProtocolServer Q ?k sm \<noteq> None \<Longrightarrow> result = EntryExists
      \<and> (\<forall>p. GetProtocolServer Q p sm' = GetProtocolServer Q p sm)"
    using cs(2) by (simp add: GetProtocolServer_lookup sm')
  show "result = Success \<Longrightarrow> GetProtocolServer Q p sm' =
      (if p = ?k then Some pServer else GetProtocolServer Q p sm)"
    using cs(2,3) by (cases "lookup ?P (m_protocolServers sm) ?k") (auto simp: GetProtocolServer_lookup sm')
qed

lemma HandleUnregister_served:
  assumes so: "session_server pServer b" and s: "served Q sm s" "session_room b s"
    and h: "HandleUnregisterProtocolServer pServer s ch = (s', ch')"
  shows "session_ok s'" and "kind s' = kind s" and "\<not> awaits_server s'"
proof -
  note k = session_server.HandleUnregister_kind [OF so h]
  obtain n where inv: "session_inv n s" using s(1) by (auto simp: served_def session_ok_def)
  have "tw_headroom b s" using s(2) by (simp add: session_room_def tw_headroom_def)
  from protocol_server.HandleUnregisterProtocolServer_keeps [OF session_server.axioms(1) [OF so] inv this h]
  have "session_inv n s'" by (rule keeps_inv)
  then show "session_ok s'" using k(2) by (auto simp: session_ok_def alive_states_def)
  show "kind s' = kind s" by (rule k(1))
  show "\<not> awaits_server s'" by (rule awaits_server_dead [OF k(2,3)])
qed

lemma unregister_protocol_server_spec:
  assumes inv: "mgr_inv Q b sm" and room: "mgr_room Q b sm" and srv: "session_server pServer b"
  shows "\<exists>result sm' ch'. unregister_protocol_server Q pServer sm ch = Some (result, sm', ch')
    \<and> mgr_inv Q b sm'
    \<and> (if GetProtocolServer Q (srv_protocol pServer) sm = None then result = Error \<and> sm' = sm
       else result = Success
         \<and> (\<forall>p. GetProtocolServer Q p sm' =
              (if p = srv_protocol pServer then None else GetProtocolServer Q p sm))
         \<and> lookup (sessionHash Q) (m_sessions sm') = lookup (sessionHash Q) (m_sessions sm)
         \<and> (\<forall>k p s. lookup (sessionHash Q) (m_sessions sm') k = Some p \<longrightarrow> sm_objects sm' p = Some s \<longrightarrow>
              m_protocol s = srv_protocol pServer \<longrightarrow> \<not> awaits_server s))"
proof (cases "GetProtocolServer Q (srv_protocol pServer) sm")
  case None
  with inv show ?thesis by (simp add: unregister_protocol_server_def GetProtocolServer_lookup)
next
  case reg: (Some S0)
  let ?P = "sessionHash Q" and ?pr = "srv_protocol pServer"
  let ?f = "\<lambda>_ _ s ch. Some (if m_sessionType s = ServerType \<and> m_protocol s = ?pr
      then (let (s', ch') = HandleUnregisterProtocolServer pServer s ch in (False, Some s', ch'))
      else (False, Some s, ch))"
  let ?post = "\<lambda>(k :: SessionId) (p :: nat) s rm s'. \<not> rm
      \<and> (\<exists>t. s' = Some t \<and> (m_protocol t = ?pr \<longrightarrow> \<not> awaits_server t))"
  have w: "works ?f (\<lambda>s. served Q sm s \<and> session_room b s)
      (\<lambda>k p s rm s'. (\<not> rm \<longrightarrow> (\<exists>t. s' = Some t \<and> served Q sm t)) \<and> ?post k p s rm s')"
    unfolding works_def
  proof (intro allI impI)
    fix k :: SessionId and p :: nat and s ch assume s: "served Q sm s \<and> session_room b s"
    obtain s' ch' where h: "HandleUnregisterProtocolServer pServer s ch = (s', ch')" by fastforce
    note hu = HandleUnregister_served [OF srv conjunct1 [OF s] conjunct2 [OF s] h]
    have "served Q sm s'" using hu by (simp add: served_def)
    with s hu(3) show "\<exists>rm s' ch'. ?f k p s ch = Some (rm, s', ch')
        \<and> (\<not> rm \<longrightarrow> (\<exists>t. s' = Some t \<and> served Q sm t)) \<and> ?post k p s rm s'"
      by (cases "m_sessionType s = ServerType \<and> m_protocol s = ?pr")
        (auto simp: h awaits_server_def)
  qed
  obtain sm1 ch1 where r: "for_sessions Q ?f sm ch = Some (sm1, ch1)" "mgr_inv Q b sm1" "same_rest sm sm1"
    "\<forall>k. lookup ?P (m_sessions sm1) k \<noteq> None \<longrightarrow> lookup ?P (m_sessions sm1) k = lookup ?P (m_sessions sm) k"
    "\<forall>k p s. lookup ?P (m_sessions sm) k = Some p \<longrightarrow> sm_objects sm p = Some s \<longrightarrow>
       ?post k p s (lookup ?P (m_sessions sm1) k = None) (sm_objects sm1 p)"
    using for_sessions_inv [OF inv room w, where ch = ch] by blast
  have po: "pointers_ok Q sm" and po1: "pointers_ok Q sm1" and so1: "server_ok Q b sm1"
    using inv r(2) by (simp_all add: mgr_inv_def)
  have look: "lookup ?P (m_sessions sm1) = lookup ?P (m_sessions sm)"
  proof
    fix k show "lookup ?P (m_sessions sm1) k = lookup ?P (m_sessions sm) k"
    proof (cases "lookup ?P (m_sessions sm) k")
      case None
      with r(4) [rule_format, of k] show ?thesis by (cases "lookup ?P (m_sessions sm1) k") simp_all
    next
      case (Some p)
      obtain s where "sm_objects sm p = Some s" using pointers_okD(2) [OF po Some] by blast
      with r(4) [rule_format, of k] r(5) [rule_format, OF Some] show ?thesis by blast
    qed
  qed
  have dead: "\<not> awaits_server t" if k: "lookup ?P (m_sessions sm1) k = Some p" and t: "sm_objects sm1 p = Some t"
    and pr: "m_protocol t = ?pr" for k p t
  proof -
    have k0: "lookup ?P (m_sessions sm) k = Some p" using k look by simp
    obtain s where "sm_objects sm p = Some s" using pointers_okD(2) [OF po k0] by blast
    with r(5) [rule_format, OF k0] t pr show ?thesis by auto
  qed
  have srvs: "m_protocolServers sm1 = m_protocolServers sm" using r(3) by (simp add: same_rest_def)
  obtain result servers where e: "Erase (serverHash Q) ?pr (m_protocolServers sm1) = (result, servers)" by fastforce
  have hi: "hb_inv (serverHash Q) (m_protocolServers sm1)" using so1 by (simp add: server_ok_def)
  note es = Erase_spec [OF hi e]
  let ?sm = "sm1\<lparr>m_protocolServers := servers\<rparr>"
  have "server_ok Q b ?sm" using so1 es(1,2) by (auto simp: server_ok_def split: if_splits)
  moreover have "pointers_ok Q ?sm"
    unfolding pointers_ok_def
  proof (intro conjI allI impI)
    fix k p assume k: "lookup ?P (m_sessions ?sm) k = Some p"
    then obtain t where t: "sm_objects sm1 p = Some t" "served Q sm1 t" using pointers_okD(2) [OF po1, of k p] by auto
    have "served Q ?sm t" using t k dead [of k p t] es(2) by (auto simp: served_def)
    with t(1) show "\<exists>s. sm_objects ?sm p = Some s \<and> served Q ?sm s" by simp
    fix k' assume "lookup ?P (m_sessions ?sm) k' = Some p"
    with k show "k' = k" using pointers_okD(3) [OF po1, of k p k'] by simp
  qed (use pointers_okD(1,4) [OF po1] in simp_all)
  ultimately have "mgr_inv Q b ?sm" by (simp add: mgr_inv_def)
  moreover have "unregister_protocol_server Q pServer sm ch = Some (result, ?sm, ch1)"
    using r(1) e reg by (simp add: unregister_protocol_server_def GetProtocolServer_lookup Let_def)
  moreover have "result = Success" using es(3) reg by (simp add: srvs GetProtocolServer_lookup)
  moreover have "GetProtocolServer Q p ?sm = (if p = ?pr then None else GetProtocolServer Q p sm)" for p
    by (simp add: GetProtocolServer_lookup es(2) srvs)
  ultimately show ?thesis using reg look dead by auto
qed

subsection \<open>New sessions\<close>

lemma new_object_inv:
  assumes inv: "mgr_inv Q b sm" and free: "lookup (sessionHash Q) (m_sessions sm) k = None"
    and c: "hb_inv (sessionHash Q) sessions"
      "lookup (sessionHash Q) sessions = (lookup (sessionHash Q) (m_sessions sm))(k \<mapsto> sm_nextObject sm)"
    and s: "served Q sm s" and n: "new_object s n (sm\<lparr>m_sessions := sessions\<rparr>) = (p, sm')"
  shows "mgr_inv Q b sm'" and "lookup (sessionHash Q) (m_sessions sm') k = Some p" and "sm_objects sm' p = Some s"
    and "m_protocolServers sm' = m_protocolServers sm"
proof -
  have so: "server_ok Q b sm" and po: "pointers_ok Q sm" using inv by (simp_all add: mgr_inv_def)
  have p: "p = sm_nextObject sm" and sm': "sm' = sm\<lparr>m_sessions := sessions, sm_objects := (sm_objects sm)(p \<mapsto> s),
      sm_handles := (sm_handles sm)(p := n), sm_nextObject := p + 1\<rparr>"
    using n by (auto simp: new_object_def)
  have fresh: "lookup (sessionHash Q) (m_sessions sm) j \<noteq> Some p" for j
    using pointers_okD(2) [OF po, of j p] pointers_okD(4) [OF po, of p] p by auto
  have sv: "served Q sm' = served Q sm" by (rule ext) (simp add: served_def sm')
  have "pointers_ok Q sm'"
  proof (rule pointers_okI)
    fix j q assume "lookup (sessionHash Q) (m_sessions sm') j = Some q"
    then show "\<exists>t. sm_objects sm' q = Some t \<and> served Q sm' t"
      unfolding sv using pointers_okD(2) [OF po, of j q] s fresh [of j] c(2) by (auto simp: sm' p split: if_splits)
  next
    fix j q j' assume "lookup (sessionHash Q) (m_sessions sm') j = Some q" "lookup (sessionHash Q) (m_sessions sm') j' = Some q"
    then show "j' = j"
      using pointers_okD(3) [OF po, of j q j'] fresh [of j] fresh [of j'] c(2) by (auto simp: sm' p split: if_splits)
  qed (use c(1) pointers_okD(4) [OF po] p in \<open>auto simp: sm'\<close>)
  moreover have "server_ok Q b sm'" using so by (simp add: server_ok_def sm')
  ultimately show "mgr_inv Q b sm'" by (simp add: mgr_inv_def)
  show "lookup (sessionHash Q) (m_sessions sm') k = Some p" "sm_objects sm' p = Some s"
    "m_protocolServers sm' = m_protocolServers sm" by (simp_all add: sm' c(2) p)
qed

lemma mgr_inv_sessions:
  assumes inv: "mgr_inv Q b sm" and "hb_inv (sessionHash Q) h"
    and "lookup (sessionHash Q) h = lookup (sessionHash Q) (m_sessions sm)"
  shows "mgr_inv Q b (sm\<lparr>m_sessions := h\<rparr>)"
proof -
  have so: "server_ok Q b sm" and po: "pointers_ok Q sm" using inv by (simp_all add: mgr_inv_def)
  have sv: "served Q (sm\<lparr>m_sessions := h\<rparr>) = served Q sm" by (rule ext) (simp add: served_def)
  have "pointers_ok Q (sm\<lparr>m_sessions := h\<rparr>)"
    by (rule pointers_okI) (use assms(2,3) pointers_okD(2-4) [OF po] sv in auto)
  with so show ?thesis by (simp add: mgr_inv_def server_ok_def)
qed

lemma mgr_inv_lastId [simp]: "mgr_inv Q b (sm\<lparr>m_lastSessionId := l\<rparr>) = mgr_inv Q b sm"
proof -
  have "served Q (sm\<lparr>m_lastSessionId := l\<rparr>) = served Q sm" by (rule ext) (simp add: served_def)
  then show ?thesis by (simp add: mgr_inv_def server_ok_def pointers_ok_def)
qed

lemma new_Session_ok:
  "rw_fresh (m_receiveWindow (new_Session ch type protocol name))"
  "tw_headroom 1 (new_Session ch type protocol name)"
  by (simp_all add: new_Session_def rw_fresh_new tw_headroom_def new_TransmitWindow_def)

lemma Connect_new:
  assumes c: "Connect remote sid minV maxV (new_Session ch ClientType protocol name) = (r, s')"
  shows "session_ok s'" and "m_sessionType s' = ClientType" and "r = Success \<Longrightarrow> m_sessionState s' = SynSent"
proof -
  let ?s = "new_Session ch ClientType protocol name"
  have "session_inv 0 s'"
    using Connect_keeps [OF session_inv_new new_Session_ok c] by (rule keeps_inv)
  moreover have t: "m_sessionType s' = ClientType"
  proof -
    have "m_sessionType t = m_sessionType u" if "WriteMessageIntoSendWindow msg n pl u = (r', t)" for msg n pl u r' t
      using quiet_WriteSend(1) [OF that] by (simp add: kind_def)
    then show ?thesis using c
      by (fastforce simp: Connect_def Let_def new_Session_def split: if_splits prod.splits)
  qed
  ultimately show "session_ok s'" "m_sessionType s' = ClientType" by (auto simp: session_ok_def)
  show "r = Success \<Longrightarrow> m_sessionState s' = SynSent"
    using c by (auto simp: Connect_def Let_def split: if_splits prod.splits)
qed

lemma EstablishSessionForClient_spec:
  assumes inv: "mgr_inv Q b sm"
    and e: "EstablishSessionForClient Q al ppSession info sm ch = Some (r, pSession, sm')"
  shows "mgr_inv Q b sm'" and "r = Success \<longleftrightarrow> pSession \<noteq> None"
    and "pSession = Some p \<Longrightarrow> \<exists>sid s. free_id Q sm 0 sid \<and> lookup (sessionHash Q) (m_sessions sm') sid = Some p
      \<and> sm_objects sm' p = Some s \<and> m_sessionState s = SynSent \<and> sm_handles sm' p = 1"
    and "pSession = None \<Longrightarrow> lookup (sessionHash Q) (m_sessions sm') = lookup (sessionHash Q) (m_sessions sm)"
proof -
  let ?P = "sessionHash Q"
  have po: "pointers_ok Q sm" using inv by (simp add: mgr_inv_def)
  have "mgr_inv Q b sm' \<and> (r = Success \<longleftrightarrow> pSession \<noteq> None)
    \<and> (pSession = Some p \<longrightarrow> (\<exists>sid s. free_id Q sm 0 sid \<and> lookup ?P (m_sessions sm') sid = Some p
      \<and> sm_objects sm' p = Some s \<and> m_sessionState s = SynSent \<and> sm_handles sm' p = 1))
    \<and> (pSession = None \<longrightarrow> lookup ?P (m_sessions sm') = lookup ?P (m_sessions sm))"
  proof (cases "ppSession \<and> allocSession al")
    case False
    with e inv show ?thesis by (auto simp: EstablishSessionForClient_def)
  next
    case True
    let ?s = "new_Session ch ClientType (esi_protocol info) (esi_pSessionName info)"
    obtain sid sm1 where g: "GetNewSessionId Q kInvalidSessionId sm = Some (sid, sm1)"
      using e True by (auto simp: EstablishSessionForClient_def split: option.splits)
    note fr = GetNewSessionId_free [OF g]
    obtain l where sm1: "sm1 = sm\<lparr>m_lastSessionId := l\<rparr>" using fr(2) by blast
    have inv1: "mgr_inv Q b sm1" unfolding sm1 using inv by simp
    obtain rc s1 where c: "Connect (esi_remoteClientId info) sid (esi_minProtocolVersion info)
        (esi_maxProtocolVersion info) ?s = (rc, s1)" by fastforce
    note cn = Connect_new [OF c]
    note un = e [unfolded EstablishSessionForClient_def, unfolded if_P [OF True] Let_def g option.case c prod.case]
    show ?thesis
    proof (cases "rc = Success")
      case False
      with un inv1 sm1 show ?thesis by auto
    next
      case rs: True
      obtain r2 h2 where cr: "Create ?P (allocEntry al) sid (sm_nextObject sm1) (m_sessions sm1) = (r2, h2)" by fastforce
      have hi: "hb_inv ?P (m_sessions sm1)" using pointers_okD(1) [OF po] sm1 by simp
      have no: "lookup ?P (m_sessions sm1) sid = None" using fr(1) sm1 by (simp add: free_id_def)
      note cs = Create_spec [OF hi cr]
      show ?thesis
      proof (cases "r2 = Success")
        case False
        then have "lookup ?P h2 = lookup ?P (m_sessions sm1)" using cs(3) [OF no] by blast
        with mgr_inv_sessions [OF inv1 cs(1)] False un rs cr sm1 show ?thesis by auto
      next
        case ok: True
        obtain q sm3 where n: "new_object s1 1 (sm1\<lparr>m_sessions := h2\<rparr>) = (q, sm3)" by fastforce
        have "served Q sm1 s1" using cn(1,2) by (simp add: served_def awaits_server_def)
        moreover have "lookup ?P h2 = (lookup ?P (m_sessions sm1))(sid \<mapsto> sm_nextObject sm1)"
          using cs(3) [OF no] ok by auto
        ultimately have ni: "mgr_inv Q b sm3" "lookup ?P (m_sessions sm3) sid = Some q" "sm_objects sm3 q = Some s1"
          using new_object_inv [OF inv1 no cs(1) _ _ n] by auto
        have "sm_handles sm3 q = 1" using n by (auto simp: new_object_def)
        moreover have "r = Success" "pSession = Some q" "sm' = sm3" using un rs cr ok n by auto
        ultimately show ?thesis using ni fr(1) cn(3) [OF rs] by auto
      qed
    qed
  qed
  then show "mgr_inv Q b sm'" and "r = Success \<longleftrightarrow> pSession \<noteq> None"
    and "pSession = Some p \<Longrightarrow> \<exists>sid s. free_id Q sm 0 sid \<and> lookup (sessionHash Q) (m_sessions sm') sid = Some p
      \<and> sm_objects sm' p = Some s \<and> m_sessionState s = SynSent \<and> sm_handles sm' p = 1"
    and "pSession = None \<Longrightarrow> lookup (sessionHash Q) (m_sessions sm') = lookup (sessionHash Q) (m_sessions sm)" by blast+
qed

subsection \<open>The session a packet goes to\<close>

text \<open>The target of a packet is a live session of the map, ready for that packet.\<close>

definition target_ok :: "ManagerParams \<Rightarrow> nat \<Rightarrow> MessageBuffer \<Rightarrow> SessionManager \<Rightarrow> nat \<Rightarrow> bool" where
  "target_ok Q b m sm p \<longleftrightarrow> (\<exists>k s. lookup (sessionHash Q) (m_sessions sm) k = Some p \<and> sm_objects sm p = Some s
     \<and> served Q sm s \<and> session_room b s \<and> (messageId (header m) = 1 \<longrightarrow> m_sessionState s = Listening))"

lemma BindToServer_new:
  assumes B: "BindToServer S remote sv pv sid (new_Session ch ServerType (srv_protocol S) None) = (Success, s1)"
    and b: "b < 2 ^ 32"
  shows "session_ok s1" and "session_room b s1" and "m_sessionState s1 = Listening" and "m_protocol s1 = srv_protocol S"
    and "m_remoteClientId s1 = remote" and "m_sessionId s1 = sid" and "m_sessionType s1 = ServerType"
    and "m_protocolVersion s1 = pv" and "m_callbackState s1 = NoneCalled"
proof -
  have "session_inv 0 s1" using BindToServer_keeps [OF session_inv_new new_Session_ok(1) B] by (rule keeps_inv)
  moreover have eq: "s1 = SetState Listening ((new_Session ch ServerType (srv_protocol S) None)
      \<lparr>m_remoteClientId := remote, m_sessionVersion := min sv kSessionProtocolVersion,
       m_protocolVersion := pv, m_sessionId := sid\<rparr>)"
    using B by (auto simp: BindToServer_def split: if_splits)
  ultimately show "session_ok s1" by (auto simp: session_ok_def)
  show "session_room b s1" unfolding eq using b
    by (simp add: session_room_def tw_headroom_def rw_room_def new_Session_def new_TransmitWindow_def
        new_ReceiveWindow_def)
  show "m_sessionState s1 = Listening" "m_protocol s1 = srv_protocol S" "m_remoteClientId s1 = remote"
    "m_sessionId s1 = sid" "m_sessionType s1 = ServerType" "m_protocolVersion s1 = pv" "m_callbackState s1 = NoneCalled"
    unfolding eq by (simp_all add: SetState_def new_Session_def)
qed

text \<open>A Syn for a known server with a common version, once an identifier is chosen.\<close>

lemma select_syn_admitted:
  assumes inv: "mgr_inv Q b sm" and room: "mgr_room Q b sm"
    and S: "lookup (serverHash Q) (m_protocolServers sm) (syn_protocol (decode_SynPayload (payload m))) = Some S"
    and v: "GetSupportedVersion S (minVersion (decode_SynPayload (payload m)))
      (if kSessionProtocolRangeVersion \<le> syn_sessionVersion (decode_SynPayload (payload m))
       then max (maxVersion (decode_SynPayload (payload m))) (minVersion (decode_SynPayload (payload m)))
       else minVersion (decode_SynPayload (payload m))) = (found, version)"
    and found: "found" and alloc: "allocSession al"
    and g: "GetNewSessionId Q (sessionId (header m)) sm = Some (sid, sm1)"
  shows "\<exists>target reason version sm2. select_syn Q al m sm ch = Some (target, reason, version, sm2)
    \<and> mgr_inv Q b sm2 \<and> (\<forall>p. target = Some p \<longrightarrow> target_ok Q b m sm2 p)"
proof -
  let ?P = "sessionHash Q" and ?pl = "decode_SynPayload (payload m)"
  have so: "server_ok Q b sm" and po: "pointers_ok Q sm" using inv by (simp_all add: mgr_inv_def)
  note fr = GetNewSessionId_free [OF g]
  obtain l where sm1: "sm1 = sm\<lparr>m_lastSessionId := l\<rparr>" using fr(2) by blast
  have inv1: "mgr_inv Q b sm1" using inv sm1 by simp
  obtain rb s1 where B: "BindToServer S (srcClientId (header m)) (syn_sessionVersion ?pl) version sid
      (new_Session ch ServerType (srv_protocol S) None) = (rb, s1)" by fastforce
  obtain rc h2 where C: "Create ?P (allocEntry al) sid (sm_nextObject sm1) (m_sessions sm1) = (rc, h2)" by fastforce
  have hi: "hb_inv ?P (m_sessions sm1)" using pointers_okD(1) [OF po] sm1 by simp
  have no: "lookup ?P (m_sessions sm1) sid = None" using fr(1) sm1 by (simp add: free_id_def)
  note cs = Create_spec [OF hi C]
  note un = select_syn_def [of Q al m sm ch, unfolded Let_def FindPointer_lookup S option.case v g prod.case B C]
  show ?thesis
  proof (cases "rb = Success")
    case False
    then have "select_syn Q al m sm ch = Some (None, Rejected, version, sm1)" unfolding un using found alloc by simp
    with inv1 show ?thesis by auto
  next
    case rb: True
    note ok = found alloc rb
    note bs = BindToServer_new [OF B [unfolded rb]]
    have b: "b < 2 ^ 32" using room by (simp add: mgr_room_def)
    show ?thesis
    proof (cases "rc = Success")
      case False
      then have "lookup ?P h2 = lookup ?P (m_sessions sm1)" using cs(3) [OF no] by blast
      then have "mgr_inv Q b (sm1\<lparr>m_sessions := h2\<rparr>)" by (rule mgr_inv_sessions [OF inv1 cs(1)])
      moreover have "select_syn Q al m sm ch = Some (None, Rejected, version, sm1\<lparr>m_sessions := h2\<rparr>)"
        unfolding un using ok False by simp
      ultimately show ?thesis by blast
    next
      case True
      then have h2: "lookup ?P h2 = (lookup ?P (m_sessions sm1))(sid \<mapsto> sm_nextObject sm1)"
        using cs(3) [OF no] by auto
      have sv: "served Q sm1 s1"
        using bs(1,4) [OF b] S server_okD(2) [OF so, of "syn_protocol ?pl" S]
        by (simp add: served_def GetProtocolServer_lookup sm1)
      show ?thesis
      proof (cases "srv_AcceptSession S s1")
        case False
        obtain p sm3 where n: "new_object (Shutdown Rejected s1) 0 (sm1\<lparr>m_sessions := h2\<rparr>) = (p, sm3)" by fastforce
        note ni = new_object_inv [OF inv1 no cs(1) h2 served_Shutdown [OF sv] n]
        have "select_syn Q al m sm ch = Some (None, Rejected, version, sm3)"
          unfolding un using ok True False n by simp
        with ni(1) show ?thesis by blast
      next
        case acc: True
        obtain p sm3 where n: "new_object s1 0 (sm1\<lparr>m_sessions := h2\<rparr>) = (p, sm3)" by fastforce
        note ni = new_object_inv [OF inv1 no cs(1) h2 sv n]
        have "served Q sm3 s1" using sv ni(4) by (simp add: served_def)
        then have "target_ok Q b m sm3 p"
          unfolding target_ok_def using ni(2,3) bs(2,3) [OF b] by blast
        moreover have "select_syn Q al m sm ch = Some (Some p, Rejected, version, sm3)"
          unfolding un using ok True acc n by simp
        ultimately show ?thesis using ni(1) by blast
      qed
    qed
  qed
qed

lemma select_syn_spec:
  assumes inv: "mgr_inv Q b sm" and room: "mgr_room Q b sm"
    and free: "(\<exists>sid. free_id Q sm (sessionId (header m)) sid) \<or> select_syn Q al m sm ch \<noteq> None"
  shows "\<exists>target reason version sm1. select_syn Q al m sm ch = Some (target, reason, version, sm1)
    \<and> mgr_inv Q b sm1 \<and> (\<forall>p. target = Some p \<longrightarrow> target_ok Q b m sm1 p)"
proof -
  let ?pl = "decode_SynPayload (payload m)"
  show ?thesis
  proof (cases "lookup (serverHash Q) (m_protocolServers sm) (syn_protocol ?pl)")
    case None
    with inv show ?thesis by (simp add: select_syn_def)
  next
    case S: (Some S)
    obtain found version where v: "GetSupportedVersion S (minVersion ?pl)
      (if kSessionProtocolRangeVersion \<le> syn_sessionVersion ?pl then max (maxVersion ?pl) (minVersion ?pl)
       else minVersion ?pl) = (found, version)" by fastforce
    note un0 = select_syn_def [of Q al m sm ch, unfolded Let_def FindPointer_lookup S option.case v prod.case]
    show ?thesis
    proof (cases "found \<and> allocSession al")
      case False
      have "select_syn Q al m sm ch \<in> {Some (None, VersionMismatch, version, sm), Some (None, Rejected, version, sm)}"
        unfolding un0 using False by auto
      with inv show ?thesis by auto
    next
      case fa: True
      obtain sid sm1 where g: "GetNewSessionId Q (sessionId (header m)) sm = Some (sid, sm1)"
      proof (cases "GetNewSessionId Q (sessionId (header m)) sm")
        case None
        with fa have "select_syn Q al m sm ch = None" unfolding un0 by simp
        with free have "\<exists>sid. free_id Q sm (sessionId (header m)) sid" by simp
        with None show ?thesis using GetNewSessionId_returns_eq [of Q "sessionId (header m)" sm] by simp
      qed (use that in auto)
      from fa show ?thesis by (intro select_syn_admitted [OF inv room S v _ _ g]) simp_all
    qed
  qed
qed

lemma select_open_spec:
  assumes inv: "mgr_inv Q b sm" and room: "mgr_room Q b sm" and syn: "messageId (header m) \<noteq> 1"
  shows "\<exists>target. select_open Q m sm = Some (target, Unavailable, 0, sm)
    \<and> (\<forall>p. target = Some p \<longrightarrow> lookup (sessionHash Q) (m_sessions sm) (sessionId (header m)) = Some p
         \<and> (\<exists>s. sm_objects sm p = Some s \<and> m_sessionState s \<noteq> Closed) \<and> target_ok Q b m sm p)
    \<and> (target = None \<longrightarrow> (\<forall>p s. lookup (sessionHash Q) (m_sessions sm) (sessionId (header m)) = Some p \<longrightarrow>
         sm_objects sm p = Some s \<longrightarrow> m_sessionState s = Closed))"
proof -
  let ?P = "sessionHash Q" and ?sid = "sessionId (header m)"
  have po: "pointers_ok Q sm" using inv by (simp add: mgr_inv_def)
  note fs = Find_spec [OF pointers_okD(1) [OF po], of ?sid]
  show ?thesis
  proof (cases "lookup ?P (m_sessions sm) ?sid")
    case None
    then have "select_open Q m sm = Some (None, Unavailable, 0, sm)"
      using fs(1) by (simp add: select_open_def FindOpenSession_def)
    with None show ?thesis by (intro exI [of _ None]) simp
  next
    case (Some p)
    obtain s where s: "sm_objects sm p = Some s" "served Q sm s" using pointers_okD(2) [OF po Some] by blast
    have "session_room b s" using room s(1) by (auto simp: mgr_room_def)
    then have t: "target_ok Q b m sm p" unfolding target_ok_def using Some s syn by blast
    have "Get (m_sessions sm) (Find ?P ?sid (m_sessions sm)) = (?sid, p)" using fs(3) [OF Some] by blast
    then have sel: "select_open Q m sm = Some (if m_sessionState s \<noteq> Closed then Some p else None, Unavailable, 0, sm)"
      using fs(1) Some s(1) by (simp add: select_open_def FindOpenSession_def Let_def)
    then show ?thesis using t Some s(1) by (cases "m_sessionState s = Closed") auto
  qed
qed

lemma target_okI:
  assumes inv: "mgr_inv Q b sm" and room: "mgr_room Q b sm" and syn: "messageId (header m) \<noteq> 1"
    and k: "lookup (sessionHash Q) (m_sessions sm) k = Some p"
  shows "target_ok Q b m sm p"
proof -
  have po: "pointers_ok Q sm" using inv by (simp add: mgr_inv_def)
  obtain s where s: "sm_objects sm p = Some s" "served Q sm s" using pointers_okD(2) [OF po k] by blast
  have "session_room b s" using room s(1) by (auto simp: mgr_room_def)
  with s k syn show ?thesis unfolding target_ok_def by blast
qed

text \<open>The SynAck of a session known under its own identifier, or under the initial one.\<close>

lemma select_synack_known:
  assumes inv: "mgr_inv Q b sm" and k: "lookup (sessionHash Q) (m_sessions sm) (sessionId (header m)) = Some p"
  shows "select_synack Q al m sm = Some (Some p, Unavailable, 0, sm)"
proof -
  have hi: "hb_inv (sessionHash Q) (m_sessions sm)" using inv by (simp add: mgr_inv_def pointers_ok_def)
  from Find_spec(1,3) [OF hi, of "sessionId (header m)"] k show ?thesis
    by (simp add: select_synack_def Let_def)
qed

lemma select_synack_unknown:
  assumes inv: "mgr_inv Q b sm" and k: "lookup (sessionHash Q) (m_sessions sm) (sessionId (header m)) = None"
    and i: "lookup (sessionHash Q) (m_sessions sm) (initialSessionId (decode_SynAckPayload (payload m))) = None"
  shows "select_synack Q al m sm = Some (None, Unavailable, 0, sm)"
proof -
  have hi: "hb_inv (sessionHash Q) (m_sessions sm)" using inv by (simp add: mgr_inv_def pointers_ok_def)
  from Find_spec(1) [OF hi, of "sessionId (header m)"] Find_spec(1) [OF hi, of "initialSessionId (decode_SynAckPayload (payload m))"]
    k i show ?thesis by (simp add: select_synack_def Let_def)
qed

lemma select_synack_rekeys:
  assumes inv: "mgr_inv Q b sm" and k: "lookup (sessionHash Q) (m_sessions sm) (sessionId (header m)) = None"
    and i: "lookup (sessionHash Q) (m_sessions sm) (initialSessionId (decode_SynAckPayload (payload m))) = Some p"
  shows "\<exists>target reason sm1. select_synack Q al m sm = Some (target, reason, 0, sm1) \<and> mgr_inv Q b sm1
    \<and> m_protocolServers sm1 = m_protocolServers sm
    \<and> (target = Some p \<and> sm_objects sm1 = sm_objects sm
         \<and> lookup (sessionHash Q) (m_sessions sm1) = (lookup (sessionHash Q) (m_sessions sm))
             (initialSessionId (decode_SynAckPayload (payload m)) := None, sessionId (header m) \<mapsto> p)
       \<or> target = None \<and> \<not> allocEntry al \<and> reason = Error
         \<and> lookup (sessionHash Q) (m_sessions sm1) = (lookup (sessionHash Q) (m_sessions sm))
             (initialSessionId (decode_SynAckPayload (payload m)) := None))"
proof -
  let ?P = "sessionHash Q" and ?h = "m_sessions sm" and ?r = "sessionId (header m)"
  let ?i = "initialSessionId (decode_SynAckPayload (payload m))"
  have so: "server_ok Q b sm" and po: "pointers_ok Q sm" using inv by (simp_all add: mgr_inv_def)
  note hi = pointers_okD(1) [OF po]
  note f = Find_spec(1,3) [OF hi, of ?i] Find_spec(2) [OF hi, of ?i] Find_spec(1) [OF hi, of ?r]
  have get: "Get ?h (Find ?P ?i ?h) = (?i, p)" and ne: "remaining ?P ?h (Find ?P ?i ?h) \<noteq> []" using f(2) [OF i] by auto
  obtain it h1 where r: "Remove ?P (Find ?P ?i ?h) ?h = (it, h1)" by fastforce
  note rs = Remove_spec(1,2) [OF hi f(3) ne r]
  have l1: "lookup ?P h1 = (lookup ?P ?h)(?i := None)" using rs(2) get by simp
  obtain rc h2 where c: "Create ?P (allocEntry al) ?r p h1 = (rc, h2)" by fastforce
  note cs = Create_spec [OF rs(1) c]
  have n1: "lookup ?P h1 ?r = None" using l1 k by simp
  obtain s where s: "sm_objects sm p = Some s" "served Q sm s" using pointers_okD(2) [OF po i] by blast
  note un = select_synack_def [of Q al m sm, unfolded Let_def r prod.case get snd_conv c]
  show ?thesis
  proof (cases "rc = Success")
    case True
    let ?sm = "sm\<lparr>m_sessions := h2\<rparr>"
    have l2: "lookup ?P h2 = (lookup ?P ?h)(?i := None, ?r \<mapsto> p)" using cs(3) [OF n1] True l1 by auto
    have sv: "served Q ?sm = served Q sm" by (rule ext) (simp add: served_def)
    have inj: "lookup ?P ?h j = Some p \<Longrightarrow> j = ?i" for j by (rule pointers_okD(3) [OF po i])
    have "pointers_ok Q ?sm"
    proof (rule pointers_okI)
      fix j q assume "lookup ?P (m_sessions ?sm) j = Some q"
      then show "\<exists>t. sm_objects ?sm q = Some t \<and> served Q ?sm t"
        unfolding sv using l2 s pointers_okD(2) [OF po, of j q] by (auto split: if_splits)
    next
      fix j q j' assume "lookup ?P (m_sessions ?sm) j = Some q" "lookup ?P (m_sessions ?sm) j' = Some q"
      then show "j' = j" using l2 inj [of j] inj [of j'] pointers_okD(3) [OF po, of j q j'] by (auto split: if_splits)
    qed (use cs(1) pointers_okD(4) [OF po] in simp_all)
    with so have "mgr_inv Q b ?sm" by (simp add: mgr_inv_def server_ok_def)
    moreover have "select_synack Q al m sm = Some (Some p, Unavailable, 0, ?sm)"
      unfolding un using f(1,4) i k True by simp
    ultimately show ?thesis using l2 by auto
  next
    case False
    let ?o = "released (sm_handles sm p) (Shutdown Error s)"
    let ?sm = "sm\<lparr>m_sessions := h2, sm_objects := (sm_objects sm)(p := ?o)\<rparr>"
    have l2: "lookup ?P h2 = (lookup ?P ?h)(?i := None)" and na: "\<not> allocEntry al"
      using cs(3) [OF n1] False l1 by auto
    have sv: "served Q ?sm = served Q sm" by (rule ext) (simp add: served_def)
    have inj: "lookup ?P ?h j = Some p \<Longrightarrow> j = ?i" for j by (rule pointers_okD(3) [OF po i])
    have "pointers_ok Q ?sm"
    proof (rule pointers_okI)
      fix j q assume "lookup ?P (m_sessions ?sm) j = Some q"
      then have j: "lookup ?P ?h j = Some q" "j \<noteq> ?i" using l2 by (auto split: if_splits)
      then have "q \<noteq> p" using inj [of j] by auto
      with pointers_okD(2) [OF po j(1)] show "\<exists>t. sm_objects ?sm q = Some t \<and> served Q ?sm t" unfolding sv by simp
    next
      fix j q j' assume "lookup ?P (m_sessions ?sm) j = Some q" "lookup ?P (m_sessions ?sm) j' = Some q"
      then show "j' = j" using l2 pointers_okD(3) [OF po, of j q j'] by (auto split: if_splits)
    next
      fix q assume "sm_nextObject ?sm \<le> q"
      then have "sm_objects sm q = None" using pointers_okD(4) [OF po] by simp
      with s(1) show "sm_objects ?sm q = None" by auto
    qed (use cs(1) in simp)
    with so have "mgr_inv Q b ?sm" by (simp add: mgr_inv_def server_ok_def)
    moreover have "select_synack Q al m sm = Some (None, Error, 0, ?sm)"
      unfolding un using f(1,4) i k False s(1) by simp
    ultimately show ?thesis using l2 na by auto
  qed
qed

lemma select_synack_spec:
  assumes inv: "mgr_inv Q b sm" and room: "mgr_room Q b sm" and syn: "messageId (header m) \<noteq> 1"
  shows "\<exists>target reason version sm1. select_synack Q al m sm = Some (target, reason, version, sm1)
    \<and> mgr_inv Q b sm1 \<and> (\<forall>p. target = Some p \<longrightarrow> target_ok Q b m sm1 p)"
proof (cases "lookup (sessionHash Q) (m_sessions sm) (sessionId (header m))")
  case (Some p)
  from select_synack_known [OF inv Some] target_okI [OF inv room syn Some] inv show ?thesis by auto
next
  case None
  let ?i = "initialSessionId (decode_SynAckPayload (payload m))"
  have po: "pointers_ok Q sm" using inv by (simp add: mgr_inv_def)
  show ?thesis
  proof (cases "lookup (sessionHash Q) (m_sessions sm) ?i")
    case n: None
    from select_synack_unknown [OF inv None n] inv show ?thesis by auto
  next
    case (Some p)
    obtain s where s: "sm_objects sm p = Some s" "served Q sm s" using pointers_okD(2) [OF po Some] by blast
    have rm: "session_room b s" using room s(1) by (auto simp: mgr_room_def)
    obtain target reason sm1 where r: "select_synack Q al m sm = Some (target, reason, 0, sm1)" "mgr_inv Q b sm1"
      "m_protocolServers sm1 = m_protocolServers sm"
      "target = Some p \<and> sm_objects sm1 = sm_objects sm
         \<and> lookup (sessionHash Q) (m_sessions sm1)
           = (lookup (sessionHash Q) (m_sessions sm))(?i := None, sessionId (header m) \<mapsto> p)
       \<or> target = None" using select_synack_rekeys [OF inv None Some, of al] by blast
    have "served Q sm1 s" using s(2) r(3) by (simp add: served_def)
    then have "target_ok Q b m sm1 q" if "target = Some q" for q
      unfolding target_ok_def using r(4) that s(1) rm syn by (intro exI [of _ "sessionId (header m)"] exI [of _ s]) auto
    with r(1,2) show ?thesis by blast
  qed
qed

subsection \<open>Delivery\<close>

lemma deliver_inv:
  assumes inv: "mgr_inv Q b sm" and t: "target_ok Q b m sm p"
  shows "\<exists>s s' ch'. sm_objects sm p = Some s
    \<and> HandleMessage_at (GetProtocolServer Q (m_protocol s) sm) m s ch = Some (s', ch')
    \<and> kind s' = kind s \<and> mgr_inv Q b (sm\<lparr>sm_objects := (sm_objects sm)(p \<mapsto> s')\<rparr>)"
proof -
  have so: "server_ok Q b sm" and po: "pointers_ok Q sm" using inv by (simp_all add: mgr_inv_def)
  obtain k s where s: "lookup (sessionHash Q) (m_sessions sm) k = Some p" "sm_objects sm p = Some s"
    "served Q sm s" "session_room b s" "messageId (header m) = 1 \<longrightarrow> m_sessionState s = Listening"
    using t unfolding target_ok_def by blast
  let ?srv = "GetProtocolServer Q (m_protocol s) sm"
  have ok: "session_ok s" and aw: "awaits_server s \<Longrightarrow> ?srv \<noteq> None"
    using s(3) by (auto simp: served_def GetProtocolServer_lookup)
  have srv: "session_server S b" if "?srv = Some S" for S by (rule server_okD(1) [OF so that])
  have "\<exists>s' ch'. HandleMessage_at ?srv m s ch = Some (s', ch') \<and> session_ok s' \<and> kind s' = kind s
      \<and> (?srv = None \<longrightarrow> \<not> awaits_server s')"
    by (rule HandleMessage_at_ok [OF ok s(4,5)]) (use srv aw in auto)
  then obtain s' ch' where h: "HandleMessage_at ?srv m s ch = Some (s', ch')" "session_ok s'" "kind s' = kind s"
    "?srv = None \<longrightarrow> \<not> awaits_server s'" by (elim exE conjE) (rule that)
  let ?sm = "sm\<lparr>sm_objects := (sm_objects sm)(p \<mapsto> s')\<rparr>"
  have sv: "served Q ?sm = served Q sm" by (rule ext) (simp add: served_def)
  have s': "served Q sm s'"
    by (rule served_same [OF s(3) h(2,3)]) (use h(4) in \<open>simp add: GetProtocolServer_lookup\<close>)
  have "pointers_ok Q ?sm"
  proof (rule pointers_okI)
    fix j q assume "lookup (sessionHash Q) (m_sessions ?sm) j = Some q"
    then show "\<exists>t. sm_objects ?sm q = Some t \<and> served Q ?sm t"
      unfolding sv using s' pointers_okD(2) [OF po, of j q] by auto
  next
    fix q assume "sm_nextObject ?sm \<le> q"
    then have "sm_objects sm q = None" using pointers_okD(4) [OF po] by simp
    with s(2) show "sm_objects ?sm q = None" by auto
  qed (use pointers_okD(1,3) [OF po] in auto)
  with so have "mgr_inv Q b ?sm" by (simp add: mgr_inv_def server_ok_def)
  then show ?thesis by (intro exI conjI) (rule s(2), rule h(1), rule h(3))
qed

lemma handle_session_message_spec:
  assumes inv: "mgr_inv Q b sm" and room: "mgr_room Q b sm"
    and free: "messageId (header m) = 1 \<longrightarrow> (\<exists>sid. free_id Q sm (sessionId (header m)) sid)
        \<or> handle_session_message Q al m sm ch \<noteq> None"
  shows "\<exists>sm' ch'. handle_session_message Q al m sm ch = Some (sm', ch') \<and> mgr_inv Q b sm'"
proof -
  let ?sel = "case SessionMessage_of (messageId (header m)) of
             Syn \<Rightarrow> select_syn Q al m sm ch
           | SynAck \<Rightarrow> select_synack Q al m sm
           | Fin \<Rightarrow> select_open Q m sm
           | Data \<Rightarrow> select_open Q m sm
           | Ack \<Rightarrow> select_open Q m sm
           | Rst \<Rightarrow> select_open Q m sm
           | _ \<Rightarrow> Some (None, Unavailable, 0, sm)"
  have "\<exists>target reason version sm1. ?sel = Some (target, reason, version, sm1)
    \<and> mgr_inv Q b sm1 \<and> (\<forall>p. target = Some p \<longrightarrow> target_ok Q b m sm1 p)"
  proof (cases "messageId (header m) = 1")
    case True
    then have Syn: "SessionMessage_of (messageId (header m)) = Syn" by (simp add: SessionMessage_of_eq)
    have "(\<exists>sid. free_id Q sm (sessionId (header m)) sid) \<or> select_syn Q al m sm ch \<noteq> None"
      using free True Syn unfolding handle_session_message_def
      by (cases "select_syn Q al m sm ch") auto
    from select_syn_spec [OF inv room this] Syn show ?thesis by simp
  next
    case False
    then have "SessionMessage_of (messageId (header m)) \<noteq> Syn" by (simp add: SessionMessage_of_eq)
    with select_synack_spec [OF inv room False, of al] select_open_spec [OF inv room False] inv show ?thesis
      by (cases "SessionMessage_of (messageId (header m))") auto
  qed
  then obtain target reason version sm1 where sel: "?sel = Some (target, reason, version, sm1)" "mgr_inv Q b sm1"
    "\<forall>p. target = Some p \<longrightarrow> target_ok Q b m sm1 p" by blast
  show ?thesis
  proof (cases target)
    case None
    with sel(1,2) show ?thesis unfolding handle_session_message_def by simp
  next
    case (Some p)
    with sel(3) have "target_ok Q b m sm1 p" by blast
    from deliver_inv [OF sel(2) this, of "sees_sessions sm1 ch"] sel(1) Some show ?thesis
      unfolding handle_session_message_def by fastforce
  qed
qed

end
