(* ===== verification/Manager_Theorems.thy ===== *)
theory Manager_Theorems
  imports Manager_Dispatch
begin

text \<open>
  The session manager as a whole: its runs as a step relation, the invariant in every reachable
  state, and the theorems on its operations.
\<close>

subsection \<open>Runs\<close>

text \<open>
  A step is an operation of the manager, a call of a client on a session it holds, the release of
  such a session, or anything the transport and the clock do.  The counters must have room.
\<close>

inductive mgr_step :: "ManagerParams \<Rightarrow> nat \<Rightarrow> SessionManager \<times> Channel \<Rightarrow> SessionManager \<times> Channel \<Rightarrow> bool"
  for Q :: ManagerParams and b :: nat where
  channel: "mgr_step Q b (sm, ch) (sm, ch')"
| establish: "EstablishSessionForClient Q al ppSession info sm ch = Some (r, p, sm') \<Longrightarrow> mgr_step Q b (sm, ch) (sm', ch)"
| register: "session_server S b \<Longrightarrow> RegisterProtocolServer Q al S sm = (r, sm') \<Longrightarrow> mgr_step Q b (sm, ch) (sm', ch)"
| unregister: "mgr_room Q b sm \<Longrightarrow> session_server S b \<Longrightarrow> UnregisterProtocolServer Q S sm ch = Some (r, sm', ch') \<Longrightarrow>
    mgr_step Q b (sm, ch) (sm', ch')"
| update: "mgr_room Q b sm \<Longrightarrow> UpdateSessions Q sm ch = Some st \<Longrightarrow> mgr_step Q b (sm, ch) st"
| client_gone: "mgr_room Q b sm \<Longrightarrow> HandleClientDisconnection Q dst sm ch = Some st \<Longrightarrow> mgr_step Q b (sm, ch) st"
| packet: "mgr_room Q b sm \<Longrightarrow> HandleReceivedSessionMessage Q al m sm ch = Some st \<Longrightarrow> mgr_step Q b (sm, ch) st"
| client_call: "mgr_room Q b sm \<Longrightarrow> sm_objects sm p = Some s \<Longrightarrow> run_call c s = (a, s') \<Longrightarrow>
    mgr_step Q b (sm, ch) (sm\<lparr>sm_objects := (sm_objects sm)(p \<mapsto> s')\<rparr>, ch)"
| release: "mgr_step Q b (sm, ch) (sm\<lparr>sm_handles := (sm_handles sm)(p := sm_handles sm p - 1)\<rparr>, ch)"

inductive mgr_reachable :: "ManagerParams \<Rightarrow> nat \<Rightarrow> SessionManager \<times> Channel \<Rightarrow> bool"
  for Q :: ManagerParams and b :: nat where
  start: "Init True rng ch (new_SessionManager Q) = (r, sm) \<Longrightarrow> mgr_reachable Q b (sm, ch)"
| step: "mgr_reachable Q b st \<Longrightarrow> mgr_step Q b st st' \<Longrightarrow> mgr_reachable Q b st'"

lemma mgr_inv_new: "Init c rng ch (new_SessionManager Q) = (r, sm) \<Longrightarrow> mgr_inv Q b sm"
  by (auto simp: Init_def new_SessionManager_def mgr_inv_def server_ok_def pointers_ok_def hb_inv_new lookup_new
      split: if_splits)

lemma mgr_inv_object:
  assumes inv: "mgr_inv Q b sm" and o: "sm_objects sm p = Some s"
    and s': "served Q sm s \<Longrightarrow> served Q sm s'"
  shows "mgr_inv Q b (sm\<lparr>sm_objects := (sm_objects sm)(p \<mapsto> s')\<rparr>)"
proof -
  have so: "server_ok Q b sm" and po: "pointers_ok Q sm" using inv by (simp_all add: mgr_inv_def)
  let ?sm = "sm\<lparr>sm_objects := (sm_objects sm)(p \<mapsto> s')\<rparr>"
  have sv: "served Q ?sm = served Q sm" by (rule ext) (simp add: served_def)
  have "pointers_ok Q ?sm"
  proof (rule pointers_okI)
    fix j q assume "lookup (sessionHash Q) (m_sessions ?sm) j = Some q"
    then show "\<exists>t. sm_objects ?sm q = Some t \<and> served Q ?sm t"
      unfolding sv using s' o pointers_okD(2) [OF po, of j q] by auto
  next
    fix q assume "sm_nextObject ?sm \<le> q"
    then have "sm_objects sm q = None" using pointers_okD(4) [OF po] by simp
    with o show "sm_objects ?sm q = None" by auto
  qed (use pointers_okD(1,3) [OF po] in auto)
  with so show ?thesis by (simp add: mgr_inv_def server_ok_def)
qed

lemma served_run_call:
  assumes s: "served Q sm s" and room: "session_room b s" and c: "run_call c s = (a, s')"
  shows "served Q sm s'"
proof -
  have ok: "session_ok s" using s by (simp add: served_def)
  obtain k where inv: "session_inv k s" using ok by (auto simp: session_ok_def)
  have "tw_headroom 1 s" using room by (simp add: session_room_def tw_headroom_def)
  from run_call_keeps [OF inv this c] have inv': "session_inv k s'" by (rule keeps_inv)
  have st: "settles s s'" using run_call_settled [OF c] by (simp add: settled_call_def)
  have kd: "kind s' = kind s" using st by (simp add: settles_def)
  have "m_sessionState s' = SynSent \<Longrightarrow> m_sessionState s = SynSent" using st by (simp add: settles_def)
  then have "session_ok s'" using session_okI [OF ok inv' kd] by blast
  then show ?thesis
  proof (rule served_same [OF s _ kd])
    assume "lookup (serverHash Q) (m_protocolServers sm) (m_protocol s) = None"
    then have "\<not> awaits_server s" using s by (auto simp: served_def)
    then show "\<not> awaits_server s'" by (rule settles_awaits(1) [OF st ok])
  qed
qed

lemma mgr_step_inv:
  assumes "mgr_step Q b st st'" and "mgr_inv Q b (fst st)"
  shows "mgr_inv Q b (fst st')"
  using assms
proof (induction rule: mgr_step.induct)
  case (establish al ppSession info sm ch r p sm')
  then show ?case using EstablishSessionForClient_spec(1) by auto
next
  case (register S al sm r sm' ch)
  then show ?case using RegisterProtocolServer_spec(1) by auto
next
  case (unregister sm S ch r sm' ch')
  from locked_ops_block(4) [OF unregister.hyps(3)] obtain ch1 ch2 where
    "unregister_protocol_server Q S sm ch1 = Some (r, sm', ch2)" by blast
  with unregister show ?case using unregister_protocol_server_spec [of Q b sm S ch1] by auto
next
  case (update sm ch st)
  obtain sm' ch' where st: "st = (sm', ch')" by fastforce
  with locked_ops_block(1) update.hyps(2) obtain ch1 ch2 where "update_sessions Q sm ch1 = Some (sm', ch2)" by blast
  with update st show ?case using update_sessions_spec [of Q b sm ch1] by auto
next
  case (client_gone sm dst ch st)
  have keep: "served Q sm s \<Longrightarrow> served Q sm (if m_remoteClientId s = dst then Shutdown NotReady s else s)" for s
    by (simp add: served_Shutdown)
  obtain sm' ch' where st: "st = (sm', ch')" by fastforce
  with locked_ops_block(2) client_gone.hyps(2) obtain ch1 ch2 where
    h: "handle_client_disconnection Q dst sm ch1 = Some (sm', ch2)" by blast
  from handle_client_disconnection_spec [OF _ client_gone.hyps(1) keep, of ch1] client_gone h st show ?case by auto
next
  case (packet sm al m ch st)
  obtain sm' ch' where st: "st = (sm', ch')" by fastforce
  with locked_ops_block(3) packet.hyps(2) obtain ch1 ch2 where
    "handle_session_message Q al m sm ch1 = Some (sm', ch2)" by blast
  with packet st show ?case using handle_session_message_spec [of Q b sm m al ch1] by auto
next
  case (client_call sm p s c a s' ch)
  then have "session_room b s" by (auto simp: mgr_room_def)
  with client_call show ?case using mgr_inv_object [of Q b sm p s s'] served_run_call [of Q sm s b c a s'] by auto
next
  case (release sm ch p)
  have "served Q (sm\<lparr>sm_handles := x\<rparr>) = served Q sm" for x by (rule ext) (simp add: served_def)
  with release show ?case by (simp add: mgr_inv_def server_ok_def pointers_ok_def)
qed simp

lemma mgr_reachable_inv: "mgr_reachable Q b st \<Longrightarrow> mgr_inv Q b (fst st)"
proof (induction rule: mgr_reachable.induct)
  case (start rng ch r sm)
  then show ?case using mgr_inv_new by auto
next
  case (step st st')
  then show ?case using mgr_step_inv by blast
qed

subsection \<open>A sample manager\<close>

definition sample_Q :: ManagerParams where
  "sample_Q = \<lparr>sessionHash = \<lparr>hashFunc = (\<lambda>k. k), logBuckets = 4, moreEntries = 2\<rparr>,
     serverHash = \<lparr>hashFunc = (\<lambda>k. ucast k), logBuckets = 3, moreEntries = 2\<rparr>\<rparr>"

definition sample_al :: AllocCb where "sample_al = \<lparr>allocSession = True, allocEntry = True\<rparr>"

definition sample_sm0 :: SessionManager where
  "sample_sm0 = snd (Init True 41 sample_channel (new_SessionManager sample_Q))"

definition sample_sm1 :: SessionManager where
  "sample_sm1 = snd (RegisterProtocolServer sample_Q sample_al sample_server sample_sm0)"

definition sample_sm2 :: "SessionManager \<times> Channel" where
  "sample_sm2 = the (handle_session_message sample_Q sample_al sample_syn sample_sm1 sample_channel)"

lemma sample_session_server: "session_server sample_server 2"
  unfolding sample_server_def by (rule program_life.session_server_axioms)

lemma sample_sm1_reachable: "mgr_reachable sample_Q 2 (sample_sm1, sample_channel)"
proof (rule mgr_reachable.step)
  show "mgr_reachable sample_Q 2 (sample_sm0, sample_channel)"
    by (rule mgr_reachable.start [of 41 _ _ "fst (Init True 41 sample_channel (new_SessionManager sample_Q))"])
      (simp add: sample_sm0_def)
  show "mgr_step sample_Q 2 (sample_sm0, sample_channel) (sample_sm1, sample_channel)"
    by (rule mgr_step.register [OF sample_session_server,
          of _ sample_al _ "fst (RegisterProtocolServer sample_Q sample_al sample_server sample_sm0)"])
      (simp add: sample_sm1_def)
qed

lemma sample_sm1_simps:
  "m_sessions sample_sm1 = new_HashBase (sessionHash sample_Q)" "sm_objects sample_sm1 = Map.empty"
  by (simp_all add: sample_sm1_def RegisterProtocolServer_def sample_sm0_def Init_def new_SessionManager_def
      split: prod.splits)

lemma sample_sm1_room: "mgr_room sample_Q 2 sample_sm1"
  by (simp add: mgr_room_def sample_sm1_simps all_entries_def new_HashBase_def)

lemma sample_sm1_inv: "mgr_inv sample_Q 2 sample_sm1"
  using mgr_reachable_inv [OF sample_sm1_reachable] by simp

lemma sample_free: "\<exists>sid. free_id sample_Q sample_sm1 r sid"
  by (rule free_id_few) (simp_all add: sample_sm1_simps hb_inv_new lookup_new)

lemma sample_sm2_run:
  "handle_session_message sample_Q sample_al sample_syn sample_sm1 sample_channel = Some sample_sm2"
  using handle_session_message_spec [OF sample_sm1_inv sample_sm1_room, of sample_syn sample_al sample_channel]
    sample_free by (auto simp: sample_sm2_def)

lemma sample_sm2_inv: "mgr_inv sample_Q 2 (fst sample_sm2)"
proof -
  obtain sm' ch' where h: "handle_session_message sample_Q sample_al sample_syn sample_sm1 sample_channel = Some (sm', ch')"
    "mgr_inv sample_Q 2 sm'"
    using handle_session_message_spec [OF sample_sm1_inv sample_sm1_room, of sample_syn sample_al sample_channel]
      sample_free by blast
  with sample_sm2_run show ?thesis by (metis fst_conv option.inject)
qed

lemma sample_sm2_eval:
  "sm_nextObject (fst sample_sm2) = 1"
  "all_entries (m_sessions (fst sample_sm2)) = [(65578, 0)]"
  "map_option (\<lambda>s. (m_sessionState s, tw_nextSequence (m_sendWindow s), rw_nextUnreadSequence (m_receiveWindow s)))
     (sm_objects (fst sample_sm2) 0) = Some (SynReceived, 2, 2)"
  by code_simp+

lemma sample_sm2_room: "mgr_room sample_Q 2 (fst sample_sm2)"
proof -
  have po: "pointers_ok sample_Q (fst sample_sm2)" using sample_sm2_inv by (simp add: mgr_inv_def)
  have "session_room 2 s" if "sm_objects (fst sample_sm2) p = Some s" for p s
  proof -
    have "\<not> 1 \<le> p" using pointers_okD(4) [OF po, of p] that sample_sm2_eval(1) by auto
    then have "p = 0" by simp
    with that sample_sm2_eval(3) show ?thesis by (auto simp: session_room_def tw_headroom_def rw_room_def)
  qed
  then show ?thesis by (simp add: mgr_room_def sample_sm2_eval(2))
qed

lemma sample_sm2_lookup: "lookup (sessionHash sample_Q) (m_sessions (fst sample_sm2)) = [65578 \<mapsto> 0]"
  using lookup_all_entries [of "sessionHash sample_Q" "m_sessions (fst sample_sm2)"] sample_sm2_inv
  by (simp add: sample_sm2_eval(2) mgr_inv_def pointers_ok_def)

subsection \<open>Properties\<close>

text \<open>
  \<^verbatim>\<open>GetNewSessionId\<close> returns exactly when an identifier is free whose upper half is the lower half of
  the remote identifier, and then it returns such an identifier, not zero and not in the session map; fewer
  than 65535 sessions are enough for it to return.  Otherwise its loop never ends.
\<close>

theorem GetNewSessionId_returns_iff:
  "((\<exists>sid sm'. GetNewSessionId Q remote sm = Some (sid, sm')) \<longleftrightarrow> (\<exists>sid. free_id Q sm remote sid))
   \<and> (\<forall>sid sm'. GetNewSessionId Q remote sm = Some (sid, sm') \<longrightarrow> free_id Q sm remote sid)
   \<and> (hb_inv (sessionHash Q) (m_sessions sm) \<and> card (dom (lookup (sessionHash Q) (m_sessions sm))) < 65535 \<longrightarrow>
        GetNewSessionId Q remote sm \<noteq> None)"
  using GetNewSessionId_returns_eq [of Q remote sm] GetNewSessionId_free(1) [of Q remote sm]
    free_id_few [of Q sm remote]
  by (metis option.distinct(1))

theorem GetNewSessionId_returns_iff_witness: "GetNewSessionId sample_Q 1 sample_sm1 \<noteq> None"
proof -
  have "hb_inv (sessionHash sample_Q) (m_sessions sample_sm1)
      \<and> card (dom (lookup (sessionHash sample_Q) (m_sessions sample_sm1))) < 65535"
    by (simp add: sample_sm1_simps hb_inv_new lookup_new)
  with GetNewSessionId_returns_iff [of sample_Q 1 sample_sm1] show ?thesis by blast
qed

text \<open>
  \<^verbatim>\<open>GetSupportedVersion\<close> negotiates the best version: it succeeds exactly when the requested range and the
  range of the server have a version in common, and reports the greatest one; otherwise it reports
  the bound of the server that is nearest to the request.
\<close>

theorem GetSupportedVersion_best:
  assumes "minV \<le> maxV" and "srv_minVersion S \<le> srv_maxVersion S"
    and g: "GetSupportedVersion S minV maxV = (found, v)"
  shows "(found \<longleftrightarrow> (\<exists>x. minV \<le> x \<and> x \<le> maxV \<and> srv_minVersion S \<le> x \<and> x \<le> srv_maxVersion S))
    \<and> (if found
       then minV \<le> v \<and> v \<le> maxV \<and> srv_minVersion S \<le> v \<and> v \<le> srv_maxVersion S
         \<and> (\<forall>x. x \<le> maxV \<and> x \<le> srv_maxVersion S \<longrightarrow> x \<le> v)
       else v = srv_maxVersion S \<and> v < minV \<or> v = srv_minVersion S \<and> maxV < v)"
proof -
  let ?lo = "srv_minVersion S" and ?hi = "srv_maxVersion S"
  consider (inside) "maxV \<le> ?hi" "?lo \<le> maxV" | (above) "?hi < maxV" "minV \<le> ?hi"
    | (too_high) "?hi < minV" | (too_low) "maxV < ?lo" "minV \<le> ?hi" by fastforce
  then show ?thesis
  proof cases
    case inside
    then have "found" "v = maxV" using g by (simp_all add: GetSupportedVersion_def Let_def)
    with inside assms(1) show ?thesis by auto
  next
    case above
    then have "found" "v = ?hi" using g assms by (auto simp: GetSupportedVersion_def Let_def split: if_splits)
    with above assms(1,2) show ?thesis by auto
  next
    case too_high
    then have "\<not> found" "v = ?hi" using g assms by (auto simp: GetSupportedVersion_def Let_def split: if_splits)
    with too_high show ?thesis by auto
  next
    case too_low
    then have "\<not> found" "v = ?lo" using g assms by (auto simp: GetSupportedVersion_def Let_def split: if_splits)
    with too_low show ?thesis by auto
  qed
qed

theorem GetSupportedVersion_best_witness:
  "GetSupportedVersion sample_server 2 9 = (True, 4) \<and> (\<exists>x. (2 :: Version) \<le> x \<and> x \<le> 9 \<and> 1 \<le> x \<and> x \<le> 4)"
proof -
  have g: "GetSupportedVersion sample_server 2 9 = (True, 4)"
    by (simp add: GetSupportedVersion_def sample_server_def program_server_def)
  have "(2 :: Version) \<le> 9" "srv_minVersion sample_server \<le> srv_maxVersion sample_server"
    by (simp_all add: sample_server_def program_server_def)
  from GetSupportedVersion_best [OF this g] g show ?thesis by (auto simp: sample_server_def program_server_def)
qed

text \<open>
  \<^verbatim>\<open>UpdateSessions\<close> removes exactly the sessions that are closed after their update: a session that stays
  in the map is not closed and keeps its identifier, one that was closed before is gone, and its
  object is freed exactly when no client holds it.  No session appears.
\<close>

theorem update_sessions_removes_closed:
  assumes "mgr_inv Q b sm" and "mgr_room Q b sm" and u: "update_sessions Q sm ch = Some (sm', ch')"
    and k: "lookup (sessionHash Q) (m_sessions sm) k = x"
  shows "case x of
      None \<Rightarrow> lookup (sessionHash Q) (m_sessions sm') k = None
    | Some p \<Rightarrow>
        (if lookup (sessionHash Q) (m_sessions sm') k = None
         then sm_objects sm' p = None \<longleftrightarrow> sm_handles sm p = 0
         else lookup (sessionHash Q) (m_sessions sm') k = Some p
           \<and> (\<exists>t. sm_objects sm' p = Some t \<and> m_sessionState t \<noteq> Closed))
        \<and> (\<forall>s. sm_objects sm p = Some s \<and> m_sessionState s = Closed \<longrightarrow>
             lookup (sessionHash Q) (m_sessions sm') k = None)"
proof (cases x)
  case None
  with update_sessions_spec [OF assms(1,2), of ch] u k show ?thesis by auto
next
  case (Some p)
  have po: "pointers_ok Q sm" using assms(1) by (simp add: mgr_inv_def)
  have kp: "lookup (sessionHash Q) (m_sessions sm) k = Some p" using Some k by simp
  obtain s where s: "sm_objects sm p = Some s" using pointers_okD(2) [OF po kp] by blast
  have "(if lookup (sessionHash Q) (m_sessions sm') k = None
      then sm_objects sm' p = None \<longleftrightarrow> sm_handles sm p = 0
      else lookup (sessionHash Q) (m_sessions sm') k = Some p
        \<and> (\<exists>t. sm_objects sm' p = Some t \<and> m_sessionState t \<noteq> Closed))
     \<and> (m_sessionState s = Closed \<longrightarrow> lookup (sessionHash Q) (m_sessions sm') k = None)"
    using update_sessions_spec [OF assms(1,2), of ch] u kp s by auto
  with Some s show ?thesis by auto
qed

theorem update_sessions_removes_closed_witness:
  "\<exists>sm' ch'. update_sessions sample_Q (fst sample_sm2) sample_channel = Some (sm', ch')
     \<and> (lookup (sessionHash sample_Q) (m_sessions sm') 65578 = None \<longrightarrow> sm_objects sm' 0 = None)"
proof -
  obtain sm' ch' where u: "update_sessions sample_Q (fst sample_sm2) sample_channel = Some (sm', ch')"
    using update_sessions_spec [OF sample_sm2_inv sample_sm2_room] by blast
  have "sm_handles (fst sample_sm2) 0 = 0" by code_simp
  with update_sessions_removes_closed [OF sample_sm2_inv sample_sm2_room u refl, of 65578] u sample_sm2_lookup
  show ?thesis by auto
qed

text \<open>
  A packet that belongs to no open session changes nothing and is answered with a reset that says why: a
  Fin, Data, Ack or Rst packet for an unknown or closed session, and a Syn for a protocol without a server, with
  \<^verbatim>\<open>Unavailable\<close>; a Syn whose versions the server does not support with \<^verbatim>\<open>VersionMismatch\<close> and the
  server's nearest version.
\<close>

theorem stray_packets_are_reset:
  assumes inv: "mgr_inv Q b sm" and room: "mgr_room Q b sm"
    and reply: "\<And>reason version. reset reason version =
      (sm, snd (SendReset (srcClientId (header m)) (sessionId (header m)) reason version sm (sees_sessions sm ch)))"
  shows "(SessionMessage_of (messageId (header m)) \<in> {Fin, Data, Ack, Rst}
        \<and> (\<forall>p s. lookup (sessionHash Q) (m_sessions sm) (sessionId (header m)) = Some p \<longrightarrow>
             sm_objects sm p = Some s \<longrightarrow> m_sessionState s = Closed) \<longrightarrow>
        handle_session_message Q al m sm ch = Some (reset Unavailable 0))
    \<and> (SessionMessage_of (messageId (header m)) = Syn
        \<and> GetProtocolServer Q (syn_protocol (decode_SynPayload (payload m))) sm = None \<longrightarrow>
        handle_session_message Q al m sm ch = Some (reset Unavailable 0))
    \<and> (SessionMessage_of (messageId (header m)) = Syn
        \<and> GetProtocolServer Q (syn_protocol (decode_SynPayload (payload m))) sm = Some S
        \<and> kSessionProtocolRangeVersion \<le> syn_sessionVersion (decode_SynPayload (payload m))
        \<and> GetSupportedVersion S (minVersion (decode_SynPayload (payload m)))
            (max (maxVersion (decode_SynPayload (payload m))) (minVersion (decode_SynPayload (payload m)))) = (False, v) \<longrightarrow>
        handle_session_message Q al m sm ch = Some (reset VersionMismatch v))"
proof (intro conjI impI)
  assume a: "SessionMessage_of (messageId (header m)) \<in> {Fin, Data, Ack, Rst}
        \<and> (\<forall>p s. lookup (sessionHash Q) (m_sessions sm) (sessionId (header m)) = Some p \<longrightarrow>
             sm_objects sm p = Some s \<longrightarrow> m_sessionState s = Closed)"
  then have "messageId (header m) \<noteq> 1" using SessionMessage_of_eq [of "messageId (header m)"] by auto
  from select_open_spec [OF inv room this] a have sel: "select_open Q m sm = Some (None, Unavailable, 0, sm)"
    by (metis option.exhaust)
  from a have "SessionMessage_of (messageId (header m)) = Fin \<or> SessionMessage_of (messageId (header m)) = Data
    \<or> SessionMessage_of (messageId (header m)) = Ack \<or> SessionMessage_of (messageId (header m)) = Rst" by simp
  then show "handle_session_message Q al m sm ch = Some (reset Unavailable 0)"
    using sel by (elim disjE) (simp_all add: handle_session_message_def reply)
qed (simp_all add: handle_session_message_def select_syn_def GetProtocolServer_lookup Let_def reply)

theorem stray_packets_are_reset_witness:
  "handle_session_message sample_Q sample_al
     (sample_syn\<lparr>header := (header sample_syn)\<lparr>messageId := 4\<rparr>\<rparr>) sample_sm1 sample_channel
   = Some (sample_sm1, snd (SendReset 9 1 Unavailable 0 sample_sm1 (sees_sessions sample_sm1 sample_channel)))"
proof -
  let ?m = "sample_syn\<lparr>header := (header sample_syn)\<lparr>messageId := 4\<rparr>\<rparr>"
  let ?reset = "\<lambda>reason version. (sample_sm1, snd (SendReset (srcClientId (header ?m)) (sessionId (header ?m))
      reason version sample_sm1 (sees_sessions sample_sm1 sample_channel)))"
  have "SessionMessage_of (messageId (header ?m)) = Data" by code_simp
  moreover have "lookup (sessionHash sample_Q) (m_sessions sample_sm1) k = None" for k
    by (simp add: sample_sm1_simps lookup_new)
  ultimately have "handle_session_message sample_Q sample_al ?m sample_sm1 sample_channel
      = Some (?reset Unavailable 0)"
    using stray_packets_are_reset [OF sample_sm1_inv sample_sm1_room, of ?reset ?m sample_channel sample_al] by simp
  then show ?thesis by (simp add: sample_syn_def)
qed

text \<open>
  A SynAck moves a session to another identifier whatever state the session is in.  When the
  identifier of the packet is unused and the one in its payload belongs to a session, the session
  is re-keyed under the identifier of the packet, even if its handshake is long over: afterwards its
  own identifier is unknown, so the next packet of its peer is answered with a reset, and the map
  has a key that is not the identifier of its session (\<^verbatim>\<open>FindOpenSession\<close> asserts that it is).
\<close>

theorem SynAck_rekeys_any_session:
  assumes inv: "mgr_inv Q b sm" and room: "mgr_room Q b sm" and al: "allocEntry al"
    and syn: "SessionMessage_of (messageId (header m)) = SynAck"
    and k: "lookup (sessionHash Q) (m_sessions sm) (sessionId (header m)) = None"
    and i: "lookup (sessionHash Q) (m_sessions sm) (initialSessionId (decode_SynAckPayload (payload m))) = Some p"
  shows "\<exists>sm' ch'. handle_session_message Q al m sm ch = Some (sm', ch')
    \<and> lookup (sessionHash Q) (m_sessions sm') (initialSessionId (decode_SynAckPayload (payload m))) = None
    \<and> lookup (sessionHash Q) (m_sessions sm') (sessionId (header m)) = Some p"
proof -
  let ?i = "initialSessionId (decode_SynAckPayload (payload m))"
  obtain reason sm1 where r: "select_synack Q al m sm = Some (Some p, reason, 0, sm1)" "mgr_inv Q b sm1"
    "m_protocolServers sm1 = m_protocolServers sm" "sm_objects sm1 = sm_objects sm"
    "lookup (sessionHash Q) (m_sessions sm1)
      = (lookup (sessionHash Q) (m_sessions sm))(?i := None, sessionId (header m) \<mapsto> p)"
    using select_synack_rekeys [OF inv k i, of al] al by blast
  have po: "pointers_ok Q sm" using inv by (simp add: mgr_inv_def)
  obtain s where s: "sm_objects sm p = Some s" "served Q sm s" using pointers_okD(2) [OF po i] by blast
  have "session_room b s" using room s(1) by (auto simp: mgr_room_def)
  moreover have "served Q sm1 s" using s(2) r(3) by (simp add: served_def)
  moreover have "messageId (header m) \<noteq> 1" using syn SessionMessage_of_eq [of "messageId (header m)"] by auto
  ultimately have "target_ok Q b m sm1 p"
    unfolding target_ok_def using r(4,5) s(1) by (intro exI [of _ "sessionId (header m)"] exI [of _ s]) simp
  from deliver_inv [OF r(2) this, of "sees_sessions sm1 ch"] obtain s2 s' ch' where "sm_objects sm1 p = Some s2"
    "HandleMessage_at (GetProtocolServer Q (m_protocol s2) sm1) m s2 (sees_sessions sm1 ch) = Some (s', ch')" by blast
  then have "handle_session_message Q al m sm ch
      = Some (sm1\<lparr>sm_objects := (sm_objects sm1)(p \<mapsto> s')\<rparr>, ch')"
    using r(1) syn by (simp add: handle_session_message_def)
  moreover have "?i \<noteq> sessionId (header m)" using k i by auto
  ultimately show ?thesis using r(5) by auto
qed

definition stray_synack :: MessageBuffer where
  "stray_synack = \<lparr>header = \<lparr>srcClientId = 9, dstClientId = 7, protocolId = Protocol_Session,
     messageId = 2, windowSize = 64, payloadSize = 16, sessionId = 77, sequence = 1\<rparr>,
     payload = encode_SynAckPayload \<lparr>ack_sequence = 1, initialSessionId = 65578, ack_version = 4,
       ack_sessionVersion = 2\<rparr>\<rparr>"

theorem SynAck_rekeys_any_session_witness:
  "\<exists>sm' ch'. handle_session_message sample_Q sample_al stray_synack (fst sample_sm2) sample_channel
       = Some (sm', ch')
     \<and> lookup (sessionHash sample_Q) (m_sessions sm') 65578 = None
     \<and> lookup (sessionHash sample_Q) (m_sessions sm') 77 = Some 0"
proof -
  have e: "initialSessionId (decode_SynAckPayload (payload stray_synack)) = 65578"
    "sessionId (header stray_synack) = 77" "allocEntry sample_al"
    by (simp_all add: stray_synack_def sample_al_def decode_encode_SynAckPayload [of _ "[]", simplified])
  have c: "SessionMessage_of (messageId (header stray_synack)) = SynAck"
    by (simp add: stray_synack_def SessionMessage_of_eq)
  have k: "lookup (sessionHash sample_Q) (m_sessions (fst sample_sm2)) (sessionId (header stray_synack)) = None"
    "lookup (sessionHash sample_Q) (m_sessions (fst sample_sm2))
       (initialSessionId (decode_SynAckPayload (payload stray_synack))) = Some 0"
    by (simp_all add: e sample_sm2_lookup)
  show ?thesis using SynAck_rekeys_any_session [OF sample_sm2_inv sample_sm2_room e(3) c k, of sample_channel]
    unfolding e .
qed

text \<open>
  After \<^verbatim>\<open>UnregisterProtocolServer\<close> of a registered protocol, that server and no other is gone, the sessions
  are all still there to disconnect gracefully, and none of the sessions of that protocol will
  ever call its server again.  Unregistering a protocol that has no server is an error and changes nothing.
\<close>

theorem unregister_protocol_server_detaches:
  assumes "mgr_inv Q b sm" and "mgr_room Q b sm" and "session_server S b"
    and u: "unregister_protocol_server Q S sm ch = Some (result, sm', ch')"
  shows "if HasProtocolServer Q (srv_protocol S) sm
    then result = Success
      \<and> (\<forall>p. HasProtocolServer Q p sm' \<longleftrightarrow> p \<noteq> srv_protocol S \<and> HasProtocolServer Q p sm)
      \<and> lookup (sessionHash Q) (m_sessions sm') = lookup (sessionHash Q) (m_sessions sm)
      \<and> (\<forall>k p s. lookup (sessionHash Q) (m_sessions sm') k = Some p \<longrightarrow> sm_objects sm' p = Some s \<longrightarrow>
           m_protocol s = srv_protocol S \<longrightarrow> \<not> awaits_server s)
    else result = Error \<and> sm' = sm"
proof -
  have has: "HasProtocolServer Q p x \<longleftrightarrow> GetProtocolServer Q p x \<noteq> None" for p x
    by (simp add: HasProtocolServer_def Contains_lookup GetProtocolServer_lookup)
  have sp: "if GetProtocolServer Q (srv_protocol S) sm = None then result = Error \<and> sm' = sm
       else result = Success
         \<and> (\<forall>p. GetProtocolServer Q p sm' = (if p = srv_protocol S then None else GetProtocolServer Q p sm))
         \<and> lookup (sessionHash Q) (m_sessions sm') = lookup (sessionHash Q) (m_sessions sm)
         \<and> (\<forall>k p s. lookup (sessionHash Q) (m_sessions sm') k = Some p \<longrightarrow> sm_objects sm' p = Some s \<longrightarrow>
              m_protocol s = srv_protocol S \<longrightarrow> \<not> awaits_server s)"
    using unregister_protocol_server_spec [OF assms(1-3), of ch] unfolding u option.inject prod.inject by metis
  show ?thesis
  proof (cases "GetProtocolServer Q (srv_protocol S) sm = None")
    case True
    from sp [unfolded if_P [OF True]] True show ?thesis by (simp add: has)
  next
    case False
    note d = sp [unfolded if_not_P [OF False]]
    have gone: "HasProtocolServer Q p sm' \<longleftrightarrow> p \<noteq> srv_protocol S \<and> HasProtocolServer Q p sm" for p
      using spec [OF conjunct1 [OF conjunct2 [OF d]], of p] by (simp add: has)
    show ?thesis unfolding if_P [OF has [THEN iffD2, OF False]]
      by (rule conjI [OF conjunct1 [OF d] conjI [OF allI [OF gone] conjunct2 [OF conjunct2 [OF d]]]])
  qed
qed

theorem unregister_protocol_server_detaches_witness:
  "\<exists>result sm' ch'. unregister_protocol_server sample_Q sample_server (fst sample_sm2) sample_channel
       = Some (result, sm', ch') \<and> result = Success \<and> \<not> HasProtocolServer sample_Q 3 sm'"
proof -
  obtain r sm' ch' where u: "unregister_protocol_server sample_Q sample_server (fst sample_sm2) sample_channel
      = Some (r, sm', ch')"
    using unregister_protocol_server_spec [OF sample_sm2_inv sample_sm2_room sample_session_server] by blast
  have e: "srv_protocol sample_server = 3" by code_simp
  have "HasProtocolServer sample_Q 3 (fst sample_sm2)" by code_simp
  note d = unregister_protocol_server_detaches [OF sample_sm2_inv sample_sm2_room sample_session_server u,
      unfolded e, unfolded if_P [OF this]]
  have "r = Success" using d by (rule conjunct1)
  moreover have "\<not> HasProtocolServer sample_Q 3 sm'"
    using spec [OF conjunct1 [OF conjunct2 [OF d]], of 3] by simp
  ultimately show ?thesis using u by (intro exI conjI)
qed

end
