(* ===== verification/Client_Random.thy ===== *)
theory Client_Random
  imports Messages
begin

text \<open>
  \<^verbatim>\<open>Platform::Random\<close> of \<^verbatim>\<open>shared/legacy/core\<close> (\<^verbatim>\<open>ddcPlatform.h\<close>, \<^verbatim>\<open>ddcPlatform.cpp\<close>): the linear
  congruential generator with modulus \<open>2 ^ 48\<close> from which the router draws client identifiers.  The
  multiplier is one more than a multiple of four and the increment is odd, so the generator has
  full period; loops that draw until a value is acceptable rely on it.
\<close>

subsection \<open>The generator\<close>

definition kModulus :: u64 where "kModulus = push_bit 48 1"
definition kMultiplier :: u64 where "kMultiplier = 0x5DEECE66D"
definition kIncrement :: u16 where "kIncrement = 0xB"

record Random =
  m_prevState :: u64

definition Reseed :: "u64 \<Rightarrow> Random \<Rightarrow> Random" where
  "Reseed seed r = r\<lparr>m_prevState := seed mod kModulus\<rparr>"

definition new_Random :: "u64 \<Rightarrow> Random" where
  "new_Random seed = Reseed seed \<lparr>m_prevState = 0\<rparr>"

definition Generate :: "Random \<Rightarrow> u32 \<times> Random" where
  "Generate r =
    (let s = (m_prevState r * kMultiplier + ucast kIncrement) mod kModulus;
         part1 = ucast (drop_bit 16 s AND 0xffff) :: u32;
         part2 = ucast (drop_bit 32 s AND 0xffff) :: u32
     in (push_bit 15 part2 OR drop_bit 1 part1, r\<lparr>m_prevState := s\<rparr>))"

subsection \<open>Full period of a linear congruence modulo a power of two\<close>

lemma affine_twice:
  fixes m p q x :: int
  shows "(1 + 4 * m * p) * ((1 + 4 * m * p) * x + m * (2 * q + 1)) + m * (2 * q + 1)
    = (1 + 4 * (2 * m) * (p + 2 * m * p * p)) * x + 2 * m * (2 * (q + m * p * (2 * q + 1)) + 1)"
  by (simp add: algebra_simps)

lemma power_of_two_steps:
  fixes b d :: int
  assumes g: "\<And>x. g x = (4 * b + 1) * x + (2 * d + 1)"
  shows "\<exists>p q. \<forall>x. (g ^^ 2 ^ k) x = (1 + 4 * 2 ^ k * p) * x + 2 ^ k * (2 * q + 1)"
proof (induction k)
  case 0
  have "(g ^^ 2 ^ 0) x = (1 + 4 * 2 ^ 0 * b) * x + 2 ^ 0 * (2 * d + 1)" for x
    by (simp add: g)
  then show ?case by blast
next
  case (Suc k)
  from Suc obtain p q where pq: "\<And>x. (g ^^ 2 ^ k) x = (1 + 4 * 2 ^ k * p) * x + 2 ^ k * (2 * q + 1)"
    by blast
  have "(g ^^ 2 ^ Suc k) x = (1 + 4 * 2 ^ Suc k * (p + 2 * 2 ^ k * p * p)) * x
          + 2 ^ Suc k * (2 * (q + 2 ^ k * p * (2 * q + 1)) + 1)" for x
  proof -
    have "(g ^^ 2 ^ Suc k) x = (g ^^ 2 ^ k) ((g ^^ 2 ^ k) x)"
      by (simp only: power_Suc mult_2 funpow_add o_apply)
    then show ?thesis by (simp only: pq affine_twice power_Suc)
  qed
  then show ?case by blast
qed

lemma odd_multiple_step:
  fixes x p q y :: int
  shows "((1 + 4 * 2 ^ k * p) * y + 2 ^ k * (2 * q + 1)) mod 2 ^ Suc k = (y + 2 ^ k) mod 2 ^ Suc k"
proof -
  have "(1 + 4 * m * p) * y + m * (2 * q + 1) = (y + m) + (2 * m) * (2 * p * y + q)" for m :: int
    by (simp add: algebra_simps)
  then show ?thesis by (simp only: power_Suc mod_mult_self2)
qed

lemma two_lifts:
  fixes y t :: int
  assumes "y mod 2 ^ k = t mod 2 ^ k"
  shows "y mod 2 ^ Suc k = t mod 2 ^ Suc k \<or> (y + 2 ^ k) mod 2 ^ Suc k = t mod 2 ^ Suc k"
proof -
  from assms have "2 ^ k dvd t - y" by (metis mod_eq_dvd_iff)
  then obtain j where j: "t = y + 2 ^ k * j" by (metis diff_add_cancel add.commute dvd_def)
  show ?thesis
  proof (cases "even j")
    case True
    then obtain i where "j = 2 * i" by blast
    with j have "t = y + 2 ^ Suc k * i" by simp
    then have "t mod 2 ^ Suc k = y mod 2 ^ Suc k" by (simp only: mod_mult_self2)
    then show ?thesis by simp
  next
    case False
    then obtain i where "j = 2 * i + 1" using oddE by blast
    with j have "t = (y + 2 ^ k) + 2 ^ Suc k * i" by (simp add: algebra_simps)
    then have "t mod 2 ^ Suc k = (y + 2 ^ k) mod 2 ^ Suc k" by (simp only: mod_mult_self2)
    then show ?thesis by simp
  qed
qed

lemma every_residue:
  fixes b d x t :: int
  assumes g: "\<And>x. g x = (4 * b + 1) * x + (2 * d + 1)"
  shows "\<exists>n < 2 ^ k. (g ^^ n) x mod 2 ^ k = t mod 2 ^ k"
proof (induction k)
  case (Suc k)
  from Suc obtain n where n: "n < 2 ^ k" and res: "(g ^^ n) x mod 2 ^ k = t mod 2 ^ k" by blast
  from power_of_two_steps [OF g, of k] obtain p q where
    pq: "\<And>y. (g ^^ 2 ^ k) y = (1 + 4 * 2 ^ k * p) * y + 2 ^ k * (2 * q + 1)" by blast
  have "(g ^^ (2 ^ k + n)) x mod 2 ^ Suc k = ((g ^^ n) x + 2 ^ k) mod 2 ^ Suc k"
    by (simp only: funpow_add o_apply pq odd_multiple_step)
  then have "\<exists>m \<in> {n, 2 ^ k + n}. (g ^^ m) x mod 2 ^ Suc k = t mod 2 ^ Suc k"
    using two_lifts [OF res] by (auto simp del: power_Suc)
  moreover have "n < 2 ^ Suc k" "2 ^ k + n < 2 ^ Suc k" using n by auto
  ultimately show ?case by blast
qed simp

subsection \<open>The generator has full period\<close>

fun draws :: "nat \<Rightarrow> Random \<Rightarrow> Random" where
  "draws 0 r = r"
| "draws (Suc n) r = draws n (snd (Generate r))"

lemma draws_snoc: "draws (Suc n) r = snd (Generate (draws n r))"
  by (induction n arbitrary: r) simp_all

definition lcg :: "int \<Rightarrow> int" where
  "lcg x = (4 * 0x177BB399B + 1) * x + (2 * 5 + 1)"

lemma kModulus_val: "kModulus = 2 ^ 48"
  by (simp add: kModulus_def)

lemma mod_kModulus: "w mod kModulus = take_bit 48 w"
  by (simp add: kModulus_val take_bit_eq_mod)

lemma state_step: "uint (m_prevState (snd (Generate r))) = lcg (uint (m_prevState r)) mod 2 ^ 48"
proof -
  have "uint (w mod kModulus) = uint w mod 2 ^ 48" for w
    by (simp add: kModulus_val uint_mod)
  moreover have "uint (m_prevState r * kMultiplier + ucast kIncrement)
      = (uint (m_prevState r) * 0x5DEECE66D + 0xB) mod 2 ^ 64"
    by (simp add: kMultiplier_def kIncrement_def uint_word_ariths mod_simps)
  moreover have "(v mod 2 ^ 64) mod 2 ^ 48 = v mod (2 ^ 48 :: int)" for v
    by (simp add: mod_mod_cancel)
  ultimately show ?thesis by (simp add: Generate_def Let_def lcg_def mult.commute)
qed

lemma lcg_mod: "lcg (x mod 2 ^ 48) mod 2 ^ 48 = lcg x mod 2 ^ 48"
  unfolding lcg_def by (rule mod_add_cong [OF mod_mult_cong]) simp_all

lemma funpow_lcg_mod: "(lcg ^^ n) (x mod 2 ^ 48) mod 2 ^ 48 = (lcg ^^ n) x mod 2 ^ 48"
proof (induction n)
  case (Suc n)
  have "lcg ((lcg ^^ n) (x mod 2 ^ 48)) mod 2 ^ 48 = lcg ((lcg ^^ n) (x mod 2 ^ 48) mod 2 ^ 48) mod 2 ^ 48"
    by (simp only: lcg_mod)
  also have "\<dots> = lcg ((lcg ^^ n) x) mod 2 ^ 48" by (simp only: Suc lcg_mod)
  finally show ?case by simp
qed simp

lemma draws_state:
  "uint (m_prevState (draws (Suc n) r)) = (lcg ^^ Suc n) (uint (m_prevState r)) mod 2 ^ 48"
proof (induction n arbitrary: r)
  case 0
  then show ?case by (simp only: draws.simps state_step funpow.simps o_apply id_apply)
next
  case (Suc n)
  have "uint (m_prevState (draws (Suc (Suc n)) r))
      = (lcg ^^ Suc n) (lcg (uint (m_prevState r)) mod 2 ^ 48) mod 2 ^ 48"
    by (simp only: draws.simps(2) [of "Suc n"] Suc.IH state_step)
  then show ?case by (simp only: funpow_lcg_mod funpow_Suc_right [of "Suc n"] o_apply)
qed

text \<open>From any state, every state below the modulus is reached by at most \<open>2 ^ 48\<close> draws.\<close>

lemma draws_reach:
  assumes "s < kModulus"
  shows "\<exists>n < 2 ^ 48. m_prevState (draws (Suc n) r) = s"
proof -
  let ?x = "uint (m_prevState r)"
  obtain n where n: "n < 2 ^ 48" and res: "(lcg ^^ n) (lcg ?x) mod 2 ^ 48 = uint s mod 2 ^ 48"
    using every_residue [of lcg, OF lcg_def, of 48 "lcg ?x" "uint s"] by blast
  have "uint s < 2 ^ 48" using assms by (simp add: word_less_def kModulus_val)
  then have "uint s mod 2 ^ 48 = uint s" by simp
  with res have "uint (m_prevState (draws (Suc n) r)) = uint s"
    by (simp only: draws_state funpow_Suc_right o_apply)
  then have "m_prevState (draws (Suc n) r) = s" by (simp only: word_uint_eq_iff)
  with n show ?thesis by blast
qed

text \<open>The value returned is the upper 31 of the 48 bits of the new state.\<close>

lemma and_ffff: "w AND 0xffff = take_bit 16 (w :: u64)"
proof -
  have "(0xffff :: u64) = mask 16" by (simp add: mask_eq_exp_minus_1)
  then show ?thesis by (simp only: take_bit_eq_mask)
qed

lemma Generate_value: "fst (Generate r) = ucast (drop_bit 17 (m_prevState (snd (Generate r))))"
proof -
  have "push_bit 15 (ucast (drop_bit 32 s AND 0xffff) :: u32) OR drop_bit 1 (ucast (drop_bit 16 s AND 0xffff) :: u32)
      = ucast (drop_bit 17 s)" if s: "s = take_bit 48 w" for s w :: u64
    unfolding s and_ffff by (rule bit_eqI) (auto simp: bit_simps)
  then show ?thesis by (simp add: Generate_def Let_def mod_kModulus)
qed

lemma take_bit_31_iff: "take_bit 31 v = v \<longleftrightarrow> (v :: u32) < 2 ^ 31"
proof
  assume "take_bit 31 v = v"
  then have "v mod 2 ^ 31 = v" by (simp add: take_bit_eq_mod)
  moreover have "v mod 2 ^ 31 < 2 ^ 31" by (rule word_mod_less_divisor) simp
  ultimately show "v < 2 ^ 31" by simp
next
  assume "v < 2 ^ 31"
  then have "unat v mod 2 ^ 31 = unat v" by (simp add: word_less_nat_alt)
  then have "unat (v mod 2 ^ 31) = unat v" by (simp add: unat_mod_distrib)
  then show "take_bit 31 v = v" by (simp add: take_bit_eq_mod word_unat_eq_iff)
qed

text \<open>Hence every value below \<open>2 ^ 31\<close> is drawn, however often one has drawn before.\<close>

lemma draws_value:
  assumes "v < 2 ^ 31"
  shows "\<exists>n < 2 ^ 48. fst (Generate (draws n r)) = v"
proof -
  let ?s = "push_bit 17 (ucast v) :: u64"
  have v: "take_bit 31 v = v" using assms by (simp only: take_bit_31_iff)
  have "take_bit 48 ?s = ?s" 
    by (subst v [symmetric], rule bit_eqI) (auto simp: bit_simps)
  moreover have "?s mod kModulus < kModulus" by (rule word_mod_less_divisor) (simp add: kModulus_val)
  ultimately have "?s < kModulus" by (simp only: mod_kModulus)
  then obtain n where n: "n < 2 ^ 48" and s: "m_prevState (draws (Suc n) r) = ?s"
    using draws_reach by blast
  have "fst (Generate (draws n r)) = ucast (drop_bit 17 ?s)"
    by (simp only: Generate_value draws_snoc [symmetric] s)
  also have "\<dots> = v" by (subst v [symmetric], rule bit_eqI) (auto simp: bit_simps v dest: bit_imp_le_length)
  finally show ?thesis using n by blast
qed

text \<open>No draw has more than 31 bits, so the values that come up are exactly those below \<open>2 ^ 31\<close>.\<close>

lemma Generate_bound: "fst (Generate r) < 2 ^ 31"
proof -
  have "take_bit 31 (fst (Generate r)) = fst (Generate r)"
    by (simp add: Generate_def Let_def and_ffff, rule bit_eqI) (auto simp: bit_simps)
  then show ?thesis by (simp only: take_bit_31_iff)
qed

end
