(* ===== verification/Client_Manager.thy ===== *)
theory Client_Manager
  imports Client_Random Hash_Iter
begin

text \<open>
  \<^verbatim>\<open>ListenerClientManager\<close> of \<^verbatim>\<open>apis/ddRouter/src/listener/clientmanagers\<close>, the part of the router that
  hands out client identifiers: the host registers itself first, every other client gets an
  identifier drawn at random until one is free.  The set of identifiers in use is the \<^verbatim>\<open>HashSet\<close> of
  the hash containers.  The loop of \<^verbatim>\<open>GenerateClientId\<close> has no bound of its own; that it ends rests
  on the full period of the generator.
\<close>

subsection \<open>State\<close>

record ListenerClientManagerInfo =
  routerPrefix :: ClientId
  routerPrefixMask :: ClientId

record ListenerClientManager =
  m_clientManagerInfo :: ListenerClientManagerInfo
  m_initialized :: bool
  m_hostClientId :: ClientId
  m_clientInfo :: "(ClientId, unit) HashBase"
  m_rand :: Random

text \<open>The platform seeds the generator with the time, which is an argument here.\<close>

definition new_ListenerClientManager ::
  "ClientId HashParams \<Rightarrow> ListenerClientManagerInfo \<Rightarrow> u64 \<Rightarrow> ListenerClientManager" where
  "new_ListenerClientManager P info seed =
    \<lparr>m_clientManagerInfo = info, m_initialized = False, m_hostClientId = kBroadcastClientId,
     m_clientInfo = new_HashBase P, m_rand = new_Random seed\<rparr>"

subsection \<open>Operations\<close>

definition clientMask :: "ListenerClientManagerInfo \<Rightarrow> ClientId" where
  "clientMask info = NOT (routerPrefixMask info)"

definition draw_id :: "ListenerClientManagerInfo \<Rightarrow> u32 \<Rightarrow> ClientId" where
  "draw_id info randVal = ucast (randVal AND ucast (clientMask info)) OR routerPrefix info"

definition unusable :: "ClientId HashParams \<Rightarrow> ListenerClientManagerInfo \<Rightarrow> (ClientId, unit) HashBase
    \<Rightarrow> ClientId \<Rightarrow> bool" where
  "unusable P info h i \<longleftrightarrow> i AND clientMask info = kBroadcastClientId \<or> Contains P i h"

text \<open>The \<^verbatim>\<open>do ... while\<close> loop; \<open>None\<close> is a loop that never ends.\<close>

partial_function (option) generate_loop ::
  "ClientId HashParams \<Rightarrow> ListenerClientManagerInfo \<Rightarrow> (ClientId, unit) HashBase \<Rightarrow> Random
   \<Rightarrow> (ClientId \<times> Random) option" where
  "generate_loop P info h rand =
    (let (v, rand') = Generate rand;
         tempClientId = draw_id info (v + 1)
     in if unusable P info h tempClientId then generate_loop P info h rand'
        else Some (tempClientId, rand'))"

definition kMaxNumberOfClients :: nat where
  "kMaxNumberOfClients = unat kClientIdMask - 1"

definition GenerateClientId :: "ClientId HashParams \<Rightarrow> ListenerClientManager
    \<Rightarrow> (ClientId \<times> ListenerClientManager) option" where
  "GenerateClientId P m =
    (if Size (m_clientInfo m) < kMaxNumberOfClients
     then map_option (\<lambda>(i, rand'). (i, m\<lparr>m_rand := rand'\<rparr>))
            (generate_loop P (m_clientManagerInfo m) (m_clientInfo m) (m_rand m))
     else Some (kBroadcastClientId, m))"

text \<open>
  The operations return the result, the identifier written through the pointer if one was written,
  and the manager.  \<open>allocOk\<close> is whether the set finds memory for one more entry; the code does not
  look at the result of \<^verbatim>\<open>Insert\<close>.
\<close>

definition RegisterHost :: "ClientId HashParams \<Rightarrow> bool \<Rightarrow> ListenerClientManager
    \<Rightarrow> (Result \<times> ClientId option \<times> ListenerClientManager) option" where
  "RegisterHost P allocOk m =
    (if \<not> m_initialized m then
       (case GenerateClientId P m of
          None \<Rightarrow> None
        | Some (i, m') \<Rightarrow>
            Some (Success, Some i,
                  m'\<lparr>m_hostClientId := i, m_initialized := True,
                     m_clientInfo := snd (set_Insert P allocOk i (m_clientInfo m'))\<rparr>))
     else Some (Error, None, m))"

definition UnregisterHost :: "ClientId HashParams \<Rightarrow> ListenerClientManager
    \<Rightarrow> Result \<times> ListenerClientManager" where
  "UnregisterHost P m =
    (if m_initialized m
     then (Success, m\<lparr>m_clientInfo := Clear P (m_clientInfo m), m_hostClientId := kBroadcastClientId,
                      m_initialized := False\<rparr>)
     else (Error, m))"

definition RegisterClient :: "ClientId HashParams \<Rightarrow> bool \<Rightarrow> ListenerClientManager
    \<Rightarrow> (Result \<times> ClientId option \<times> ListenerClientManager) option" where
  "RegisterClient P allocOk m =
    (if m_initialized m then
       (case GenerateClientId P m of
          None \<Rightarrow> None
        | Some (tempClientId, m') \<Rightarrow>
            Some (if tempClientId \<noteq> kBroadcastClientId
                  then (Success, Some tempClientId,
                        m'\<lparr>m_clientInfo := snd (set_Insert P allocOk tempClientId (m_clientInfo m'))\<rparr>)
                  else (Error, None, m')))
     else Some (Error, None, m))"

definition UnregisterClient :: "ClientId HashParams \<Rightarrow> ClientId \<Rightarrow> ListenerClientManager
    \<Rightarrow> Result \<times> ListenerClientManager" where
  "UnregisterClient P clientId m =
    (if m_initialized m \<and> clientId \<noteq> m_hostClientId m then
       (let (r, h) = Erase P clientId (m_clientInfo m)
        in (if r = Success then Success else Error, m\<lparr>m_clientInfo := h\<rparr>))
     else (Error, m))"

definition GetHostClientId :: "ListenerClientManager \<Rightarrow> ClientId" where
  "GetHostClientId m = (if m_initialized m then m_hostClientId m else kBroadcastClientId)"

text \<open>The destructor.\<close>

definition delete_ListenerClientManager :: "ClientId HashParams \<Rightarrow> ListenerClientManager
    \<Rightarrow> ListenerClientManager" where
  "delete_ListenerClientManager P m = (if m_initialized m then snd (UnregisterHost P m) else m)"

subsection \<open>The search for an identifier\<close>

text \<open>The identifiers a manager can draw: any client part that is not zero, with the prefix.\<close>

definition drawable :: "ListenerClientManagerInfo \<Rightarrow> ClientId \<Rightarrow> bool" where
  "drawable info i \<longleftrightarrow> (\<exists>v. i = draw_id info v) \<and> i AND clientMask info \<noteq> 0"

lemma draw_id_low: "draw_id info v = (ucast v AND clientMask info) OR routerPrefix info"
  by (rule bit_eqI) (auto simp: draw_id_def bit_simps)

lemma ucast_Suc: "(ucast (x + 1 :: u32) :: u16) = ucast x + 1"
  by (simp add: word_uint_eq_iff uint_word_ariths unsigned_ucast_eq take_bit_eq_mod mod_simps mod_mod_cancel)

lemma ucast_up_down: "ucast (ucast (x :: u16) :: u32) = x"
  by (rule bit_eqI) (simp add: bit_simps)

lemma draw_id_all: "\<exists>w < 2 ^ 31. draw_id info (w + 1) = draw_id info v"
proof -
  let ?w = "ucast (ucast v - 1 :: u16) :: u32"
  have "ucast (?w + 1) = (ucast v :: u16)" by (simp add: ucast_Suc ucast_up_down)
  moreover have "unat (ucast v - 1 :: u16) < 2 ^ 16" using unsigned_less [of "ucast v - 1 :: u16"] by simp
  then have "?w < 2 ^ 31"
    by (simp add: word_less_nat_alt unsigned_ucast_eq take_bit_eq_mod)
  ultimately show ?thesis by (auto simp: draw_id_low)
qed

lemma generate_step:
  "generate_loop P info h r =
    (if unusable P info h (draw_id info (fst (Generate r) + 1)) then generate_loop P info h (snd (Generate r))
     else Some (draw_id info (fst (Generate r) + 1), snd (Generate r)))"
  by (subst generate_loop.simps) (simp add: Let_def split_beta)

lemma loop_continues:
  "(\<And>k. k < n \<Longrightarrow> unusable P info h (draw_id info (fst (Generate (draws k r)) + 1))) \<Longrightarrow>
   generate_loop P info h r = generate_loop P info h (draws n r)"
proof (induction n arbitrary: r)
  case (Suc n)
  have "generate_loop P info h r = generate_loop P info h (snd (Generate r))"
    using Suc.prems [of 0] by (simp add: generate_step [of P info h r])
  also have "\<dots> = generate_loop P info h (draws n (snd (Generate r)))"
    using Suc.prems [of "Suc _"] by (intro Suc.IH) simp
  finally show ?case by simp
qed simp

lemma generate_loop_returns:
  assumes "drawable info i" and "\<not> Contains P i h"
  shows "\<exists>i' r'. generate_loop P info h r = Some (i', r')"
proof -
  let ?ok = "\<lambda>n. \<not> unusable P info h (draw_id info (fst (Generate (draws n r)) + 1))"
  from assms obtain v where "i = draw_id info v" and "i AND clientMask info \<noteq> 0"
    by (auto simp: drawable_def)
  moreover obtain w where "w < 2 ^ 31" and "draw_id info (w + 1) = draw_id info v"
    using draw_id_all by blast
  moreover obtain n where "fst (Generate (draws n r)) = w"
    using draws_value [OF \<open>w < 2 ^ 31\<close>] by blast
  ultimately have "?ok n" using assms(2) by (simp add: unusable_def)
  then have first: "?ok (LEAST n. ?ok n)" by (rule LeastI)
  have "generate_loop P info h r = generate_loop P info h (draws (LEAST n. ?ok n) r)"
    by (rule loop_continues) (use not_less_Least in blast)
  then show ?thesis using first by (simp add: generate_step [of P info h "draws _ r"])
qed

lemma generate_loop_result:
  assumes "generate_loop P info h r = Some (i, r')"
  shows "drawable info i" and "\<not> Contains P i h"
proof -
  let ?good = "\<lambda>x y. case x of (((P, info), h), r :: Random) \<Rightarrow>
     drawable info (fst y) \<and> \<not> Contains P (fst y) (h :: (ClientId, unit) HashBase)"
  have "?good (((P, info), h), r) (i, r')"
    by (rule generate_loop.raw_induct [where Pa = ?good, OF _ assms])
      (fastforce simp: Let_def split_beta drawable_def unusable_def split: if_splits)
  then show "drawable info i" and "\<not> Contains P i h" by simp_all
qed

lemma GenerateClientId_cases:
  assumes "GenerateClientId P m = Some (i, m')"
  shows "\<exists>rand. m' = m\<lparr>m_rand := rand\<rparr>"
    and "if Size (m_clientInfo m) < kMaxNumberOfClients
         then drawable (m_clientManagerInfo m) i \<and> \<not> Contains P i (m_clientInfo m)
         else i = kBroadcastClientId"
proof -
  show "\<exists>rand. m' = m\<lparr>m_rand := rand\<rparr>"
  proof (cases "Size (m_clientInfo m) < kMaxNumberOfClients")
    case False
    with assms have "m' = m\<lparr>m_rand := m_rand m\<rparr>" by (simp add: GenerateClientId_def)
    then show ?thesis by blast
  qed (use assms in \<open>auto simp: GenerateClientId_def\<close>)
qed (use assms generate_loop_result in \<open>fastforce simp: GenerateClientId_def split: if_splits\<close>)

subsection \<open>The configurations in use\<close>

text \<open>
  \<^verbatim>\<open>ListenerCore::Initialize\<close> builds the manager with the prefix of network 0 and the prefix mask
  \<^verbatim>\<open>kRouterPrefixMask\<close> on Windows and 0 elsewhere.
\<close>

definition listener_info :: "bool \<Rightarrow> ListenerClientManagerInfo" where
  "listener_info windows =
    \<lparr>routerPrefix = push_bit kRouterPrefixShift 0,
     routerPrefixMask = (if windows then kRouterPrefixMask else 0)\<rparr>"

lemma client_mask_values: "kClientIdMask = 0x1fff" "kMaxNumberOfClients = 8190"
  by (simp_all add: kMaxNumberOfClients_def kClientIdMask_def kRouterPrefixShift_def kRouterPrefixWidth_def)

lemma listener_mask: "clientMask (listener_info w) = (if w then 0x1fff else 0xffff)"
  by (simp add: clientMask_def listener_info_def kRouterPrefixMask_def client_mask_values)

lemma listener_prefix: "routerPrefix (listener_info w) = 0"
  by (simp add: listener_info_def)

lemma drawable_listener:
  assumes "i \<noteq> 0" and "i < 0x2000"
  shows "drawable (listener_info w) i"
proof -
  have "i mod 2 ^ 13 = i"
    using assms(2) by (simp add: word_unat_eq_iff unat_mod_distrib word_less_nat_alt)
  then have "take_bit 13 i = i" by (simp add: take_bit_eq_mod)
  moreover have "(0x1fff :: u16) = mask 13" by (simp add: mask_eq_exp_minus_1)
  ultimately have "i AND 0x1fff = i" by (simp add: take_bit_eq_mask)
  moreover have "(0xffff :: u16) = - 1" by simp
  then have "i AND 0xffff = i" by (simp only: and.right_neutral)
  ultimately have masked: "i AND clientMask (listener_info w) = i" by (simp add: listener_mask)
  then have "draw_id (listener_info w) (ucast i) = i"
    by (simp only: draw_id_low ucast_up_down listener_prefix or.right_neutral)
  with masked assms(1) show ?thesis unfolding drawable_def by metis
qed


lemma free_id_exists:
  assumes inv: "hb_inv P (h :: (ClientId, unit) HashBase)" and "Size h < kMaxNumberOfClients"
  shows "\<exists>i. drawable (listener_info w) i \<and> \<not> Contains P i h"
proof (rule ccontr)
  assume none: "\<nexists>i. drawable (listener_info w) i \<and> \<not> Contains P i h"
  let ?D = "dom (lookup P h)"
  have "card ?D \<le> card (UNIV :: ClientId set)" by (rule card_mono) simp_all
  then have size: "Size h = card ?D"
    using Size_card(2) [OF inv] by (simp add: card_word)
  have inj: "inj_on (word_of_nat :: nat \<Rightarrow> ClientId) {1..8191}"
    by (rule inj_onI) (simp add: word_of_nat_eq_iff take_bit_eq_mod)
  have "word_of_nat n \<in> ?D" if "n \<in> {1..8191}" for n
  proof -
    have "unat (word_of_nat n :: ClientId) = n" using that by (simp add: unat_of_nat)
    then have "word_of_nat n \<noteq> (0 :: ClientId)" and "word_of_nat n < (0x2000 :: ClientId)"
      using that by (auto simp: word_less_nat_alt)
    with none drawable_listener [of "word_of_nat n" w] show ?thesis by (auto simp: Contains_lookup)
  qed
  then have "(word_of_nat :: nat \<Rightarrow> ClientId) ` {1..8191} \<subseteq> ?D" by (rule image_subsetI)
  then have "card ((word_of_nat :: nat \<Rightarrow> ClientId) ` {1..8191}) \<le> card ?D"
    by (rule card_mono [OF Size_card(1) [OF inv]])
  then have "8191 \<le> card ?D" by (simp only: card_image [OF inj] card_atLeastAtMost)
  with size assms(2) show False by (simp add: client_mask_values)
qed

subsection \<open>Contracts of the operations\<close>

definition ids :: "ClientId HashParams \<Rightarrow> ListenerClientManager \<Rightarrow> ClientId set" where
  "ids P m = dom (lookup P (m_clientInfo m))"

text \<open>The host's identifier, once registered, is a usable one and stays in the set.\<close>

definition manager_inv :: "ClientId HashParams \<Rightarrow> ListenerClientManager \<Rightarrow> bool" where
  "manager_inv P m \<longleftrightarrow> hb_inv P (m_clientInfo m) \<and> 0 \<notin> ids P m
     \<and> (if m_initialized m then m_hostClientId m \<noteq> 0 else ids P m = {} \<and> m_hostClientId m = 0)"

lemma set_Insert_spec:
  assumes inv: "hb_inv P h" and c: "set_Insert P allocOk k h = (r, h')"
  shows "hb_inv P h'" and "dom (lookup P h') = (if r = Success then insert k (dom (lookup P h)) else dom (lookup P h))"
    and "r = Success \<or> r = InsufficientMemory \<and> \<not> allocOk \<and> k \<notin> dom (lookup P h)"
proof -
  obtain p existed h1 where f: "FindOrAllocate P allocOk () k h = (p, existed, h1)" by (metis prod_cases3)
  note spec = FindOrAllocate_spec [OF inv f]
  have "hb_inv P h' \<and> dom (lookup P h') = (if r = Success then insert k (dom (lookup P h)) else dom (lookup P h))
      \<and> (r = Success \<or> r = InsufficientMemory \<and> \<not> allocOk \<and> k \<notin> dom (lookup P h))"
    using spec(1-4) c f by (cases p) (auto simp: set_Insert_def)
  then show "hb_inv P h'" and "dom (lookup P h') = (if r = Success then insert k (dom (lookup P h)) else dom (lookup P h))"
    and "r = Success \<or> r = InsufficientMemory \<and> \<not> allocOk \<and> k \<notin> dom (lookup P h)" by auto
qed


lemma GenerateClientId_returns:
  assumes "hb_inv P (m_clientInfo m)" and "m_clientManagerInfo m = listener_info w"
  shows "\<exists>i m'. GenerateClientId P m = Some (i, m')"
proof (cases "Size (m_clientInfo m) < kMaxNumberOfClients")
  case True
  with free_id_exists [OF assms(1) True, of w] obtain i where
    "drawable (m_clientManagerInfo m) i" "\<not> Contains P i (m_clientInfo m)" using assms(2) by auto
  from generate_loop_returns [OF this, of "m_rand m"] True show ?thesis
    by (auto simp: GenerateClientId_def)
qed (simp add: GenerateClientId_def)

lemma GenerateClientId_inv:
  assumes "GenerateClientId P m = Some (i, m')"
  shows "m_clientInfo m' = m_clientInfo m" and "m_initialized m' = m_initialized m"
    and "m_hostClientId m' = m_hostClientId m" and "m_clientManagerInfo m' = m_clientManagerInfo m"
    and "i \<noteq> 0 \<longleftrightarrow> Size (m_clientInfo m) < kMaxNumberOfClients" and "i \<noteq> 0 \<Longrightarrow> i \<notin> ids P m"
proof -
  from GenerateClientId_cases [OF assms] obtain rand where m': "m' = m\<lparr>m_rand := rand\<rparr>" by blast
  then show "m_clientInfo m' = m_clientInfo m" and "m_initialized m' = m_initialized m"
    and "m_hostClientId m' = m_hostClientId m" and "m_clientManagerInfo m' = m_clientManagerInfo m" by simp_all
  show "i \<noteq> 0 \<longleftrightarrow> Size (m_clientInfo m) < kMaxNumberOfClients" and "i \<noteq> 0 \<Longrightarrow> i \<notin> ids P m"
    using GenerateClientId_cases(2) [OF assms]
    by (auto simp: drawable_def ids_def Contains_lookup split: if_splits)
qed

lemma Size_empty: "hb_inv P h \<Longrightarrow> dom (lookup P h) = {} \<Longrightarrow> Size h = 0"
  using Size_card(2) [of P h] by simp

lemma RegisterClient_eq:
  assumes inv: "manager_inv P m" and init: "m_initialized m"
    and g: "GenerateClientId P m = Some (i, m1)" and i: "i \<noteq> 0"
    and ins: "set_Insert P allocOk i (m_clientInfo m) = (r, h)"
  shows "RegisterClient P allocOk m = Some (Success, Some i, m1\<lparr>m_clientInfo := h\<rparr>)"
    and "ids P (m1\<lparr>m_clientInfo := h\<rparr>) = (if r = Success then insert i (ids P m) else ids P m)"
    and "manager_inv P (m1\<lparr>m_clientInfo := h\<rparr>)"
proof -
  have hb: "hb_inv P (m_clientInfo m)" using inv by (simp add: manager_inv_def)
  note same = GenerateClientId_inv [OF g] and spec = set_Insert_spec [OF hb ins]
  show "RegisterClient P allocOk m = Some (Success, Some i, m1\<lparr>m_clientInfo := h\<rparr>)"
    using init g i ins same by (simp add: RegisterClient_def)
  show ids: "ids P (m1\<lparr>m_clientInfo := h\<rparr>) = (if r = Success then insert i (ids P m) else ids P m)"
    using spec(2) by (simp add: ids_def)
  show "manager_inv P (m1\<lparr>m_clientInfo := h\<rparr>)"
    using inv init spec(1) ids same i by (auto simp: manager_inv_def split: if_splits)
qed

lemma RegisterClient_full:
  assumes "m_initialized m" and "GenerateClientId P m = Some (0, m1)"
  shows "RegisterClient P allocOk m = Some (Error, None, m1)"
  using assms by (simp add: RegisterClient_def)


lemma RegisterHost_eq:
  assumes inv: "manager_inv P m" and init: "\<not> m_initialized m"
    and g: "GenerateClientId P m = Some (i, m1)"
    and ins: "set_Insert P allocOk i (m_clientInfo m) = (r, h)"
  defines "m2 \<equiv> m1\<lparr>m_hostClientId := i, m_initialized := True, m_clientInfo := h\<rparr>"
  shows "RegisterHost P allocOk m = Some (Success, Some i, m2)"
    and "i \<noteq> 0" and "ids P m2 = (if r = Success then {i} else {})" and "manager_inv P m2"
proof -
  have hb: "hb_inv P (m_clientInfo m)" and empty: "ids P m = {}" using inv init by (auto simp: manager_inv_def)
  note same = GenerateClientId_inv [OF g] and spec = set_Insert_spec [OF hb ins]
  show "RegisterHost P allocOk m = Some (Success, Some i, m2)"
    using init g ins same by (simp add: RegisterHost_def m2_def)
  show i: "i \<noteq> 0"
    using same(5) Size_empty [OF hb] empty by (simp add: ids_def client_mask_values)
  show ids: "ids P m2 = (if r = Success then {i} else {})"
    using spec(2) empty by (simp add: ids_def m2_def)
  then show "manager_inv P m2" using spec(1) i by (simp add: manager_inv_def m2_def)
qed

lemma UnregisterClient_spec:
  assumes inv: "manager_inv P m" and u: "UnregisterClient P c m = (r, m')"
  shows "manager_inv P m'" and "m_hostClientId m' = m_hostClientId m"
    and "m_initialized m' = m_initialized m" and "m_clientManagerInfo m' = m_clientManagerInfo m"
    and "ids P m' = (if c = m_hostClientId m then ids P m else ids P m - {c})"
    and "r = (if c \<in> ids P m \<and> c \<noteq> m_hostClientId m then Success else Error)"
proof -
  have hb: "hb_inv P (m_clientInfo m)" using inv by (simp add: manager_inv_def)
  obtain r1 h where e: "Erase P c (m_clientInfo m) = (r1, h)" by fastforce
  note spec = Erase_spec [OF hb e]
  have d: "dom (lookup P h) = dom (lookup P (m_clientInfo m)) - {c}" by (simp add: spec(2))
  show "m_hostClientId m' = m_hostClientId m"
    and "m_initialized m' = m_initialized m" and "m_clientManagerInfo m' = m_clientManagerInfo m"
    using u e by (auto simp: UnregisterClient_def split: if_splits)
  show "ids P m' = (if c = m_hostClientId m then ids P m else ids P m - {c})"
    and "r = (if c \<in> ids P m \<and> c \<noteq> m_hostClientId m then Success else Error)"
    and "manager_inv P m'"
    using u e inv d spec by (auto simp: UnregisterClient_def manager_inv_def ids_def split: if_splits)
qed

lemma UnregisterHost_spec:
  assumes inv: "manager_inv P m" and u: "UnregisterHost P m = (r, m')"
  shows "manager_inv P m'" and "\<not> m_initialized m'" and "ids P m' = {}"
    and "r = (if m_initialized m then Success else Error)"
  using u inv Clear_spec(1,2) [of P "m_clientInfo m"]
  by (auto simp: UnregisterHost_def manager_inv_def ids_def split: if_splits)

subsection \<open>The interface of a client manager\<close>

text \<open>
  What \<^verbatim>\<open>RouterCore\<close> relies on when it calls the manager through \<^verbatim>\<open>IClientManager\<close>: an identifier that is
  handed out is neither the broadcast identifier nor in use, and giving one back frees only it.
\<close>

locale id_source =
  fixes ok :: "'m \<Rightarrow> bool" and used :: "'m \<Rightarrow> ClientId set" and host :: "'m \<Rightarrow> ClientId"
    and reg :: "bool \<Rightarrow> 'm \<Rightarrow> (Result \<times> ClientId option \<times> 'm) option"
    and unreg :: "ClientId \<Rightarrow> 'm \<Rightarrow> Result \<times> 'm"
  assumes reg_returns: "ok m \<Longrightarrow> \<exists>r i m'. reg b m = Some (r, i, m')"
    and reg_success: "ok m \<Longrightarrow> reg b m = Some (r, Some i, m') \<Longrightarrow>
      r = Success \<and> i \<noteq> 0 \<and> i \<notin> used m \<and> ok m' \<and> host m' = host m
      \<and> (used m' = insert i (used m) \<or> \<not> b \<and> used m' = used m)"
    and reg_failure: "ok m \<Longrightarrow> reg b m = Some (r, None, m') \<Longrightarrow>
      r = Error \<and> ok m' \<and> host m' = host m \<and> used m' = used m \<and> 8190 \<le> card (used m)"
    and unreg_spec: "ok m \<Longrightarrow> unreg c m = (r, m') \<Longrightarrow>
      ok m' \<and> host m' = host m \<and> used m' = (if c = host m then used m else used m - {c})"

datatype manager_call = Reg | Unreg ClientId

text \<open>A sequence of calls, with memory for every new entry, and the answers to the registrations.\<close>

fun run_manager :: "(bool \<Rightarrow> 'm \<Rightarrow> (Result \<times> ClientId option \<times> 'm) option) \<Rightarrow> (ClientId \<Rightarrow> 'm \<Rightarrow> Result \<times> 'm)
    \<Rightarrow> manager_call list \<Rightarrow> 'm \<Rightarrow> (ClientId option list \<times> 'm) option" where
  "run_manager reg unreg [] m = Some ([], m)"
| "run_manager reg unreg (Reg # cs) m =
    (case reg True m of
       None \<Rightarrow> None
     | Some (r, i, m') \<Rightarrow> map_option (\<lambda>(as, m''). (i # as, m'')) (run_manager reg unreg cs m'))"
| "run_manager reg unreg (Unreg c # cs) m = run_manager reg unreg cs (snd (unreg c m))"

text \<open>The same calls on a set of identifiers: any unused one may be the answer.\<close>

inductive id_run :: "ClientId \<Rightarrow> manager_call list \<Rightarrow> ClientId set \<Rightarrow> ClientId option list \<Rightarrow> ClientId set \<Rightarrow> bool"
  for h where
  done_run: "id_run h [] S [] S"
| fresh: "i \<noteq> 0 \<Longrightarrow> i \<notin> S \<Longrightarrow> id_run h cs (insert i S) as S' \<Longrightarrow> id_run h (Reg # cs) S (Some i # as) S'"
| exhausted: "8190 \<le> card S \<Longrightarrow> id_run h cs S as S' \<Longrightarrow> id_run h (Reg # cs) S (None # as) S'"
| release: "S1 = (if c = h then S else S - {c}) \<Longrightarrow> id_run h cs S1 as S' \<Longrightarrow> id_run h (Unreg c # cs) S as S'"

context id_source
begin

lemma run_ids:
  "ok m \<Longrightarrow> \<exists>as m'. run_manager reg unreg cs m = Some (as, m') \<and> ok m' \<and> host m' = host m
     \<and> id_run (host m) cs (used m) as (used m')"
proof (induction cs arbitrary: m)
  case Nil
  then show ?case by (simp add: id_run.done_run)
next
  case (Cons c cs)
  show ?case
  proof (cases c)
    case Reg
    obtain r i m1 where g: "reg True m = Some (r, i, m1)" using reg_returns [OF Cons.prems] by blast
    show ?thesis
    proof (cases i)
      case None
      note f = reg_failure [OF Cons.prems g [unfolded None]]
      from Cons.IH [of m1] f Reg g None show ?thesis by (auto intro: id_run.exhausted)
    next
      case (Some j)
      note f = reg_success [OF Cons.prems g [unfolded Some]]
      from Cons.IH [of m1] f Reg g Some show ?thesis by (auto intro: id_run.fresh)
    qed
  next
    case (Unreg d)
    obtain r m1 where u: "unreg d m = (r, m1)" by fastforce
    note f = unreg_spec [OF Cons.prems u]
    from Cons.IH [of m1] f obtain as m' where "run_manager reg unreg cs m1 = Some (as, m')" "ok m'"
      "host m' = host m" and run: "id_run (host m) cs (used m1) as (used m')" by auto
    then show ?thesis using id_run.release [OF conjunct2 [OF conjunct2 [OF f]] run] Unreg u by auto
  qed
qed

end

text \<open>The model of the manager, initialised in one of the two configurations, is such a source.\<close>

definition manager_ok :: "ClientId HashParams \<Rightarrow> ListenerClientManager \<Rightarrow> bool" where
  "manager_ok P m \<longleftrightarrow> manager_inv P m \<and> m_initialized m \<and> (\<exists>w. m_clientManagerInfo m = listener_info w)"

lemma full_means_8190:
  assumes "hb_inv P (m_clientInfo m)" and "\<not> Size (m_clientInfo m) < kMaxNumberOfClients"
  shows "8190 \<le> card (ids P m)"
proof -
  have "Size (m_clientInfo m) \<le> card (ids P m)" by (simp add: Size_card(2) [OF assms(1)] ids_def)
  with assms(2) show ?thesis by (simp add: client_mask_values)
qed

lemma RegisterClient_spec:
  assumes "manager_ok P m"
  obtains (new) i m' where "RegisterClient P b m = Some (Success, Some i, m')" "i \<noteq> 0" "i \<notin> ids P m"
      "manager_ok P m'" "m_hostClientId m' = m_hostClientId m" "Size (m_clientInfo m) < kMaxNumberOfClients"
      "ids P m' = insert i (ids P m) \<or> \<not> b \<and> ids P m' = ids P m"
  | (full) m' where "RegisterClient P b m = Some (Error, None, m')" "manager_ok P m'"
      "m_hostClientId m' = m_hostClientId m" "ids P m' = ids P m"
      "\<not> Size (m_clientInfo m) < kMaxNumberOfClients"
proof -
  from assms obtain w where inv: "manager_inv P m" and hb: "hb_inv P (m_clientInfo m)"
    and init: "m_initialized m" and w: "m_clientManagerInfo m = listener_info w"
    by (auto simp: manager_ok_def manager_inv_def)
  obtain i m1 where g: "GenerateClientId P m = Some (i, m1)" using GenerateClientId_returns [OF hb w] by blast
  note same = GenerateClientId_inv [OF g]
  show thesis
  proof (cases "i = 0")
    case True
    have "manager_ok P m1" "ids P m1 = ids P m"
      using inv init w same by (auto simp: manager_ok_def manager_inv_def ids_def)
    with RegisterClient_full [OF init g [unfolded True], of b] same True full show thesis by auto
  next
    case False
    obtain r h where ins: "set_Insert P b i (m_clientInfo m) = (r, h)" by fastforce
    note e = RegisterClient_eq [OF inv init g False ins]
    have "manager_ok P (m1\<lparr>m_clientInfo := h\<rparr>)" using e(3) same w init by (auto simp: manager_ok_def)
    moreover have "r = Success \<or> \<not> b" using set_Insert_spec(3) [OF hb ins] by auto
    ultimately show thesis using e same False by (intro new [OF e(1)]) auto
  qed
qed

interpretation listener: id_source "manager_ok P" "ids P" m_hostClientId "RegisterClient P" "UnregisterClient P"
  for P
proof
  fix m b assume ok: "manager_ok P m"
  show "\<exists>r i m'. RegisterClient P b m = Some (r, i, m')"
    by (rule RegisterClient_spec [OF ok, of b]) auto
next
  fix m b r i m' assume ok: "manager_ok P m" and r: "RegisterClient P b m = Some (r, Some i, m')"
  show "r = Success \<and> i \<noteq> 0 \<and> i \<notin> ids P m \<and> manager_ok P m' \<and> m_hostClientId m' = m_hostClientId m
      \<and> (ids P m' = insert i (ids P m) \<or> \<not> b \<and> ids P m' = ids P m)"
    by (rule RegisterClient_spec [OF ok, of b]) (use r in auto)
next
  fix m b r m' assume ok: "manager_ok P m" and r: "RegisterClient P b m = Some (r, None, m')"
  have full: "8190 \<le> card (ids P m)" if "\<not> Size (m_clientInfo m) < kMaxNumberOfClients"
    using full_means_8190 [OF _ that] ok by (simp add: manager_ok_def manager_inv_def)
  show "r = Error \<and> manager_ok P m' \<and> m_hostClientId m' = m_hostClientId m \<and> ids P m' = ids P m
      \<and> 8190 \<le> card (ids P m)"
    by (rule RegisterClient_spec [OF ok, of b]) (use r full in auto)
next
  fix m c r m' assume ok: "manager_ok P m" and u: "UnregisterClient P c m = (r, m')"
  then show "manager_ok P m' \<and> m_hostClientId m' = m_hostClientId m
      \<and> ids P m' = (if c = m_hostClientId m then ids P m else ids P m - {c})"
    using UnregisterClient_spec [of P m c r m'] by (auto simp: manager_ok_def)
qed

subsection \<open>Properties\<close>

lemma new_manager_inv: "manager_inv P (new_ListenerClientManager P info seed)"
  by (simp add: manager_inv_def new_ListenerClientManager_def hb_inv_new ids_def lookup_new)

lemma RegisterHost_new:
  assumes "m = new_ListenerClientManager P (listener_info w) seed"
  obtains i m' r h where "RegisterHost P b m = Some (Success, Some i, m')" and "i \<noteq> 0" and "m_hostClientId m' = i"
    and "manager_ok P m'" and "set_Insert P b i (new_HashBase P) = (r, h)"
    and "ids P m' = (if r = Success then {i} else {})"
proof -
  have hb: "hb_inv P (m_clientInfo m)" and init: "\<not> m_initialized m" and h0: "m_clientInfo m = new_HashBase P"
    and w: "m_clientManagerInfo m = listener_info w"
    using assms by (auto simp: new_ListenerClientManager_def hb_inv_new)
  obtain i m1 where g: "GenerateClientId P m = Some (i, m1)" using GenerateClientId_returns [OF hb w] by blast
  obtain r h where ins: "set_Insert P b i (m_clientInfo m) = (r, h)" by fastforce
  note e = RegisterHost_eq [OF new_manager_inv [of P "listener_info w" seed, folded assms] init g ins]
  show thesis
  proof (rule that [OF e(1,2)])
    show "manager_ok P (m1\<lparr>m_hostClientId := i, m_initialized := True, m_clientInfo := h\<rparr>)"
      using e(4) GenerateClientId_inv(4) [OF g] w by (auto simp: manager_ok_def)
  qed (use e ins h0 in simp_all)
qed

text \<open>The random search for a client identifier has no bound in the code.  It returns exactly when the
  set of identifiers has reached its limit (then with the broadcast identifier) or some identifier
  that the manager can draw is not in the set; what it returns in that case is such an identifier.
  In the two configurations the listener uses, with the prefix mask and without, it always returns.
\<close>

theorem GenerateClientId_returns_iff:
  assumes hb: "hb_inv P (m_clientInfo m)"
  shows "((\<exists>i m'. GenerateClientId P m = Some (i, m'))
       \<longleftrightarrow> kMaxNumberOfClients \<le> Size (m_clientInfo m)
           \<or> (\<exists>i. drawable (m_clientManagerInfo m) i \<and> \<not> Contains P i (m_clientInfo m)))
    \<and> (\<forall>i m'. GenerateClientId P m = Some (i, m') \<and> Size (m_clientInfo m) < kMaxNumberOfClients
         \<longrightarrow> drawable (m_clientManagerInfo m) i \<and> \<not> Contains P i (m_clientInfo m))
    \<and> (\<forall>w. m_clientManagerInfo m = listener_info w \<longrightarrow> (\<exists>i m'. GenerateClientId P m = Some (i, m')))"
proof (intro conjI allI impI)
  show "(\<exists>i m'. GenerateClientId P m = Some (i, m'))
      \<longleftrightarrow> kMaxNumberOfClients \<le> Size (m_clientInfo m)
          \<or> (\<exists>i. drawable (m_clientManagerInfo m) i \<and> \<not> Contains P i (m_clientInfo m))"
  proof (cases "Size (m_clientInfo m) < kMaxNumberOfClients")
    case True
    then show ?thesis
      using generate_loop_returns [of "m_clientManagerInfo m" _ P "m_clientInfo m" "m_rand m"]
        GenerateClientId_cases(2) [of P m] by (fastforce simp: GenerateClientId_def)
  qed (simp add: GenerateClientId_def)
qed (use hb GenerateClientId_cases(2) GenerateClientId_returns in \<open>auto split: if_splits\<close>)

definition sample_ids :: "ClientId HashParams" where
  "sample_ids = \<lparr>hashFunc = ucast, logBuckets = 2, moreEntries = 1\<rparr>"

definition sample_manager :: ListenerClientManager where
  "sample_manager = new_ListenerClientManager sample_ids (listener_info True) 42"

lemma sample_manager_fields:
  "m_clientInfo sample_manager = new_HashBase sample_ids"
  "m_clientManagerInfo sample_manager = listener_info True"
  by (simp_all add: sample_manager_def new_ListenerClientManager_def)

lemma Size_new: "Size (new_HashBase P) = 0"
  by (rule Size_empty [OF hb_inv_new]) (simp add: lookup_new)

theorem GenerateClientId_returns_iff_witness:
  "\<exists>i m'. GenerateClientId sample_ids sample_manager = Some (i, m')
     \<and> drawable (listener_info True) i \<and> \<not> Contains sample_ids i (m_clientInfo sample_manager)"
proof -
  have hb: "hb_inv sample_ids (m_clientInfo sample_manager)" by (simp add: sample_manager_fields hb_inv_new)
  have room: "Size (m_clientInfo sample_manager) < kMaxNumberOfClients"
    by (simp add: sample_manager_fields Size_new client_mask_values)
  note t = GenerateClientId_returns_iff [OF hb]
  with room sample_manager_fields(2) show ?thesis by metis
qed

text \<open>C13.
  The client manager refines a set of identifiers.  After the host has registered, any sequence of
  \<^verbatim>\<open>RegisterClient\<close> and \<^verbatim>\<open>UnregisterClient\<close> calls (with memory for new entries) returns, and its answers
  are those of a set that starts with the host's identifier: a registration yields an identifier
  that is not zero and not in the set, or none once at least 8190 are in use; a release removes
  the identifier given, unless it is the host's.  So no two registered clients ever share an
  identifier, and none has the host's.
\<close>

theorem client_manager_refines_set:
  "\<exists>h m as m'. RegisterHost P True (new_ListenerClientManager P (listener_info w) seed) = Some (Success, Some h, m)
     \<and> h \<noteq> 0 \<and> run_manager (RegisterClient P) (UnregisterClient P) calls m = Some (as, m')
     \<and> id_run h calls {h} as (ids P m')"
proof -
  obtain h m r hb where reg: "RegisterHost P True (new_ListenerClientManager P (listener_info w) seed) = Some (Success, Some h, m)"
    and h: "h \<noteq> 0" "m_hostClientId m = h" "manager_ok P m" and ins: "set_Insert P True h (new_HashBase P) = (r, hb)"
    and ids: "ids P m = (if r = Success then {h} else {})"
    by (rule RegisterHost_new [OF refl])
  have "r = Success" using set_Insert_spec(3) [OF hb_inv_new ins] by auto
  with ids have "ids P m = {h}" by simp
  with listener.run_ids [OF h(3), of calls] reg h show ?thesis by auto
qed

text \<open>
  The manager does not look at the result of the insertion.  When there is no memory for the entry,
  \<^verbatim>\<open>RegisterClient\<close> reports success and an identifier that is not recorded as used, so that the
  search may draw the same identifier again.
\<close>

theorem RegisterClient_unrecorded:
  assumes "manager_ok P m" and "Size (m_clientInfo m) < kMaxNumberOfClients"
    and "\<And>i. i \<notin> ids P m \<Longrightarrow> fst (set_Insert P False i (m_clientInfo m)) \<noteq> Success"
  shows "\<exists>i m'. RegisterClient P False m = Some (Success, Some i, m') \<and> i \<notin> ids P m'
           \<and> \<not> unusable P (m_clientManagerInfo m') (m_clientInfo m') i"
proof -
  from assms(1) obtain w where inv: "manager_inv P m" and hb: "hb_inv P (m_clientInfo m)"
    and init: "m_initialized m" and w: "m_clientManagerInfo m = listener_info w"
    by (auto simp: manager_ok_def manager_inv_def)
  obtain i m1 where g: "GenerateClientId P m = Some (i, m1)" using GenerateClientId_returns [OF hb w] by blast
  note same = GenerateClientId_inv [OF g] and draw = GenerateClientId_cases(2) [OF g]
  obtain r h where ins: "set_Insert P False i (m_clientInfo m) = (r, h)" by fastforce
  have i: "i \<noteq> 0" "i \<notin> ids P m" using same(5,6) assms(2) by auto
  with assms(3) [of i] ins have "r \<noteq> Success" by simp
  then have lost: "ids P (m1\<lparr>m_clientInfo := h\<rparr>) = ids P m"
    using RegisterClient_eq(2) [OF inv init g i(1) ins] by simp
  with i draw assms(2) same(4) have "\<not> unusable P (m_clientManagerInfo m1) h i"
    by (auto simp: unusable_def drawable_def ids_def Contains_lookup)
  with RegisterClient_eq(1) [OF inv init g i(1) ins] lost i show ?thesis by auto
qed

text \<open>A manager whose set could not even store the host's identifier.\<close>

definition starved_manager :: ListenerClientManager where
  "starved_manager = sample_manager\<lparr>m_hostClientId := 5, m_initialized := True\<rparr>"

lemma starved_manager_ok: "manager_ok sample_ids starved_manager"
  by (auto simp: manager_ok_def manager_inv_def starved_manager_def sample_manager_fields hb_inv_new
      ids_def lookup_new)

theorem RegisterClient_unrecorded_witness:
  "\<exists>i m'. RegisterClient sample_ids False starved_manager = Some (Success, Some i, m') \<and> i \<notin> ids sample_ids m'"
proof -
  have room: "Size (m_clientInfo starved_manager) < kMaxNumberOfClients"
    by (simp add: starved_manager_def sample_manager_fields Size_new client_mask_values)
  have "fst (set_Insert sample_ids False i (m_clientInfo starved_manager)) \<noteq> Success" for i
    by (simp add: starved_manager_def sample_manager_fields set_Insert_def FindOrAllocate_def new_HashBase_def
        FindBucket_def AllocateBucket_def Let_def)
  from RegisterClient_unrecorded [OF starved_manager_ok room this] show ?thesis by blast
qed

end
