(* ===== verification/Router_Base.thy ===== *)
theory Router_Base
  imports Client_Manager
begin

text \<open>
  The state of \<^verbatim>\<open>RouterCore\<close> (\<^verbatim>\<open>apis/ddRouter/src/listener/routerCore.h\<close>) and its operations on clients:
  finding, adding, removing and broadcasting.  The router keeps two maps, from client identifiers to
  client contexts and from transport handles to transports, each of which has a map of the clients
  reached through it.  Removing a registered client broadcasts its disconnection, a broadcast that
  fails removes a client: the two call each other, and \<open>None\<close> stands for a run that never returns as
  well as for the use of an invalidated iterator or of a null pointer.
\<close>

subsection \<open>Unordered maps\<close>

text \<open>
  \<^verbatim>\<open>std::unordered_map\<close> as its entries in iteration order.  Erasing keeps the order of the others;
  inserting may rehash, after which the order is whatever the library makes it: the function \<open>ord\<close>
  of the keys, used as far as it is a rearrangement.
\<close>

type_synonym ('k, 'v) umap = "('k \<times> 'v) list"

definition arrange :: "('k list \<Rightarrow> 'k list) \<Rightarrow> 'k list \<Rightarrow> 'k list" where
  "arrange ord ks = (if distinct (ord ks) \<and> set (ord ks) = set ks then ord ks else ks)"

definition emplace :: "('k list \<Rightarrow> 'k list) \<Rightarrow> 'k \<Rightarrow> 'v \<Rightarrow> ('k, 'v) umap \<Rightarrow> ('k, 'v) umap" where
  "emplace ord k v m =
    (case map_of m k of
       Some v' \<Rightarrow> m
     | None \<Rightarrow> map (\<lambda>x. (x, the (map_of ((k, v) # m) x))) (arrange ord (k # map fst m)))"

definition erase :: "'k \<Rightarrow> ('k, 'v) umap \<Rightarrow> ('k, 'v) umap" where
  "erase k m = filter (\<lambda>e. fst e \<noteq> k) m"

text \<open>An update of the value of an existing entry, through a pointer or an iterator to it.\<close>

definition adjust :: "'k \<Rightarrow> ('v \<Rightarrow> 'v) \<Rightarrow> ('k, 'v) umap \<Rightarrow> ('k, 'v) umap" where
  "adjust k f m = map (\<lambda>e. if fst e = k then (k, f (snd e)) else e) m"

text \<open>\<^verbatim>\<open>operator[]\<close> with an assignment.\<close>

definition assign :: "('k list \<Rightarrow> 'k list) \<Rightarrow> 'k \<Rightarrow> 'v \<Rightarrow> ('k, 'v) umap \<Rightarrow> ('k, 'v) umap" where
  "assign ord k v m = adjust k (\<lambda>_. v) (emplace ord k v m)"

abbreviation keys :: "('k, 'v) umap \<Rightarrow> 'k list" where "keys m \<equiv> map fst m"

subsection \<open>Data\<close>

type_synonym TransportHandle = u32
type_synonym ProcessId = u32

definition kConnectionInfoDataSize :: nat where "kConnectionInfoDataSize = 128"

record ConnectionInfo =
  ci_data :: "u8 list"
  ci_size :: nat
  ci_handle :: TransportHandle

record ClientInfo =
  clientName :: "u8 list"
  clientDescription :: "u8 list"
  clientPid :: ProcessId
  info_clientId :: ClientId
  hasBeenIdentified :: bool

record ClientContext =
  clientInfo :: ClientInfo
  cc_connectionInfo :: ConnectionInfo
  pingRetryCount :: u32
  receivedPong :: bool
  registeredClient :: bool

text \<open>A transport object is named by a number; \<open>None\<close> is a null \<^verbatim>\<open>shared_ptr\<close>.\<close>

type_synonym transport = nat

record TransportContext =
  pTransport :: "transport option"
  clientMap :: "(ClientId, ConnectionInfo) umap"

record MessageContext =
  mc_message :: MessageBuffer
  mc_connectionInfo :: ConnectionInfo

text \<open>
  What lies outside the router: which transports forward to another router, the answer of the
  \<open>n\<close>-th transmission, the answer of a transport that is enabled, whether the client manager finds
  memory, and the orders of the unordered maps.
\<close>

record environment =
  ForwardingConnection :: "transport \<Rightarrow> bool"
  transmitResult :: "nat \<Rightarrow> Result"
  enableResult :: "transport \<Rightarrow> Result"
  idHash :: "ClientId HashParams"
  idMemory :: bool
  clientOrder :: "ClientId list \<Rightarrow> ClientId list"
  handleOrder :: "TransportHandle list \<Rightarrow> TransportHandle list"
  transportOrder :: "transport list \<Rightarrow> transport list"

text \<open>Where a message goes: to one connection, or to a whole forwarding transport.\<close>

datatype destination = Directed ConnectionInfo | Everyone

text \<open>
  The members of \<^verbatim>\<open>RouterCore\<close>, the processing queue of its thread, and the record of what was given to
  the transports and which handle each transport got.
\<close>

record RouterCore =
  m_clientMap :: "(ClientId, ClientContext) umap"
  m_transportMap :: "(TransportHandle, TransportContext) umap"
  m_pClientManager :: "ListenerClientManager option"
  m_lastTransportId :: TransportHandle
  rc_clientId :: ClientId
  m_lastClientPingTimeInMs :: u64
  m_clientTimeoutCount :: u32
  thread_queue :: "MessageContext list"
  thread_active :: bool
  m_clientInfoResponse :: MessageBuffer
  sent :: "(transport \<times> destination \<times> MessageBuffer) list"
  transport_handle :: "transport \<Rightarrow> TransportHandle"

definition unknown_name :: "u8 list" where
  "unknown_name = bytes_at kMaxStringLength [85, 110, 107, 110, 111, 119, 110]"

definition kUnknownClient :: ClientInfo where
  "kUnknownClient =
    \<lparr>clientName = unknown_name, clientDescription = unknown_name, clientPid = 0, info_clientId = 0,
     hasBeenIdentified = False\<rparr>"

definition kNewClientContext :: ClientContext where
  "kNewClientContext =
    \<lparr>clientInfo = kUnknownClient, cc_connectionInfo = \<lparr>ci_data = [], ci_size = 0, ci_handle = 0\<rparr>,
     pingRetryCount = 0, receivedPong = False, registeredClient = False\<rparr>"

subsection \<open>Transmission\<close>

definition TransmitMessage :: "environment \<Rightarrow> transport \<Rightarrow> ConnectionInfo \<Rightarrow> MessageBuffer \<Rightarrow> RouterCore
    \<Rightarrow> Result \<times> RouterCore" where
  "TransmitMessage E t connection message r =
    (transmitResult E (length (sent r)), r\<lparr>sent := sent r @ [(t, Directed connection, message)]\<rparr>)"

definition TransmitBroadcastMessage :: "environment \<Rightarrow> transport \<Rightarrow> MessageBuffer \<Rightarrow> RouterCore
    \<Rightarrow> Result \<times> RouterCore" where
  "TransmitBroadcastMessage E t message r =
    (transmitResult E (length (sent r)), r\<lparr>sent := sent r @ [(t, Everyone, message)]\<rparr>)"

text \<open>\<^verbatim>\<open>do { } while (TransmitMessage(...) == NotReady)\<close>.\<close>

partial_function (option) transmit_until :: "environment \<Rightarrow> transport \<Rightarrow> ConnectionInfo \<Rightarrow> MessageBuffer
    \<Rightarrow> RouterCore \<Rightarrow> (Result \<times> RouterCore) option" where
  "transmit_until E t connection message r =
    (let (result, r') = TransmitMessage E t connection message r
     in if result = NotReady then transmit_until E t connection message r' else Some (result, r'))"

subsection \<open>Clients\<close>

definition FindClientById :: "ClientId \<Rightarrow> RouterCore \<Rightarrow> ClientContext option" where
  "FindClientById clientId r = map_of (m_clientMap r) clientId"

definition same_connection :: "ConnectionInfo \<Rightarrow> ConnectionInfo \<Rightarrow> bool" where
  "same_connection a b \<longleftrightarrow>
     ci_size a = ci_size b \<and> bytes_at (ci_size b) (ci_data a) = bytes_at (ci_size b) (ci_data b)"

text \<open>The first client of the transport with the same connection data; its key is the pointer.\<close>

definition FindExternalClientByConnection :: "environment \<Rightarrow> ConnectionInfo \<Rightarrow> RouterCore
    \<Rightarrow> (ClientId \<times> ClientContext) option" where
  "FindExternalClientByConnection E connectionInfo r =
    (case map_of (m_transportMap r) (ci_handle connectionInfo) of
       None \<Rightarrow> None
     | Some context \<Rightarrow>
         (case pTransport context of
            None \<Rightarrow> None
          | Some t \<Rightarrow>
              if ForwardingConnection E t then None
              else (case List.find (\<lambda>(c, connection). same_connection connection connectionInfo) (clientMap context) of
                      None \<Rightarrow> None
                    | Some (c, _) \<Rightarrow> map_option (Pair c) (map_of (m_clientMap r) c))))"

definition AddClient :: "environment \<Rightarrow> ClientId \<Rightarrow> ConnectionInfo \<Rightarrow> bool \<Rightarrow> RouterCore \<Rightarrow> RouterCore" where
  "AddClient E clientId connectionInfo registered r =
    (if clientId \<noteq> kBroadcastClientId then
       (case map_of (m_transportMap r) (ci_handle connectionInfo) of
          Some context \<Rightarrow>
            if pTransport context \<noteq> None then
              (let clientData = kNewClientContext
                     \<lparr>clientInfo := kUnknownClient\<lparr>info_clientId := clientId\<rparr>, pingRetryCount := 0,
                      receivedPong := True, cc_connectionInfo := connectionInfo,
                      registeredClient := registered\<rparr>
               in r\<lparr>m_clientMap := emplace (clientOrder E) clientId clientData (m_clientMap r),
                    m_transportMap := adjust (ci_handle connectionInfo)
                      (\<lambda>tr. tr\<lparr>clientMap := emplace (clientOrder E) clientId connectionInfo (clientMap tr)\<rparr>)
                      (m_transportMap r)\<rparr>)
            else r
        | None \<Rightarrow> r)
     else r)"

text \<open>The transport's map of clients loses an entry, if the transport is there.\<close>

definition forget_client :: "TransportHandle \<Rightarrow> ClientId \<Rightarrow> RouterCore \<Rightarrow> RouterCore" where
  "forget_client handle clientId r =
     r\<lparr>m_transportMap := adjust handle
        (\<lambda>tr. if pTransport tr \<noteq> None then tr\<lparr>clientMap := erase clientId (clientMap tr)\<rparr> else tr)
        (m_transportMap r)\<rparr>"

subsection \<open>Broadcasts\<close>

text \<open>The inner loop over the clients of one transport; the last client whose transmission failed.\<close>

fun broadcast_clients :: "environment \<Rightarrow> transport \<Rightarrow> MessageBuffer \<Rightarrow> (ClientId, ConnectionInfo) umap
    \<Rightarrow> ClientId \<Rightarrow> RouterCore \<Rightarrow> ClientId \<times> RouterCore" where
  "broadcast_clients E t message [] lastFailed r = (lastFailed, r)"
| "broadcast_clients E t message ((c, connection) # cs) lastFailed r =
    (if c \<noteq> srcClientId (header message) then
       (let (result, r') = TransmitMessage E t connection message r
        in broadcast_clients E t message cs (if result = Error then c else lastFailed) r')
     else broadcast_clients E t message cs lastFailed r)"

fun broadcast_transports :: "environment \<Rightarrow> MessageBuffer \<Rightarrow> transport option
    \<Rightarrow> (TransportHandle, TransportContext) umap \<Rightarrow> ClientId \<Rightarrow> RouterCore \<Rightarrow> ClientId \<times> RouterCore" where
  "broadcast_transports E message source [] lastFailed r = (lastFailed, r)"
| "broadcast_transports E message source ((h, context) # rest) lastFailed r =
    (case pTransport context of
       None \<Rightarrow> broadcast_transports E message source rest lastFailed r
     | Some t \<Rightarrow>
         if ForwardingConnection E t then
           broadcast_transports E message source rest lastFailed
             (if Some t \<noteq> source then snd (TransmitBroadcastMessage E t message r) else r)
         else
           (let (lastFailed', r') = broadcast_clients E t message (clientMap context) lastFailed r
            in broadcast_transports E message source rest lastFailed' r'))"

definition announce :: "SystemMessage \<Rightarrow> ClientId \<Rightarrow> MessageBuffer" where
  "announce code clientId =
    zero_message\<lparr>header := zero_header\<lparr>dstClientId := kBroadcastClientId, srcClientId := clientId,
       protocolId := Protocol_System, messageId := code_of_SystemMessage code, payloadSize := 0\<rparr>\<rparr>"

text \<open>
  \<^verbatim>\<open>RemoveClient\<close> with the part of \<^verbatim>\<open>SendBroadcastMessage\<close> that it calls: one pass over all transports, then
  the removal of the last client that failed.  At the end the entry is erased through the iterator
  of the beginning, which is invalid if the entry has been erased in between.
\<close>

partial_function (option) RemoveClient :: "environment \<Rightarrow> ClientId \<Rightarrow> RouterCore \<Rightarrow> RouterCore option" where
  "RemoveClient E clientId r =
    (case map_of (m_clientMap r) clientId of
       None \<Rightarrow> Some r
     | Some context \<Rightarrow>
         (let r1 = forget_client (ci_handle (cc_connectionInfo context)) clientId r
          in if \<not> registeredClient context then Some (r1\<lparr>m_clientMap := erase clientId (m_clientMap r1)\<rparr>)
             else
               (case m_pClientManager r1 of
                  None \<Rightarrow> None
                | Some m \<Rightarrow>
                    (let r2 = r1\<lparr>m_pClientManager := Some (snd (UnregisterClient (idHash E) clientId m))\<rparr>;
                         (failed, r3) = broadcast_transports E (announce ClientDisconnected clientId) None
                           (m_transportMap r2) kBroadcastClientId r2
                     in Option.bind (if failed \<noteq> kBroadcastClientId then RemoveClient E failed r3 else Some r3)
                          (\<lambda>r4. if map_of (m_clientMap r4) clientId = None then None
                               else Some (r4\<lparr>m_clientMap := erase clientId (m_clientMap r4)\<rparr>))))))"

definition SendBroadcastMessage :: "environment \<Rightarrow> MessageBuffer \<Rightarrow> transport option \<Rightarrow> RouterCore
    \<Rightarrow> RouterCore option" where
  "SendBroadcastMessage E message source r =
    (let (failed, r') = broadcast_transports E message source (m_transportMap r) kBroadcastClientId r
     in if failed \<noteq> kBroadcastClientId then RemoveClient E failed r' else Some r')"

end
