(* ===== verification/Router_Core.thy ===== *)
theory Router_Core
  imports Router_Base
begin

text \<open>
  The operations of \<^verbatim>\<open>RouterCore\<close>, \<^verbatim>\<open>RoutingCache\<close> and \<^verbatim>\<open>TransportThread\<close>
  (\<^verbatim>\<open>apis/ddRouter/src/listener/routerCore.cpp\<close>, \<^verbatim>\<open>transportThread.cpp\<close>): registration of transports and
  of the client manager, the two kinds of messages the router answers itself, the periodic update
  of the client list, routing through the per-thread cache, and shutdown.
\<close>

subsection \<open>Client information on the wire\<close>


definition ClientInfoStruct_clientName :: "u8 list \<Rightarrow> u8 list" where
  "ClientInfoStruct_clientName bs = take 128 (bytes_at sizeof_ClientInfoStruct bs)"

definition ClientInfoStruct_clientDescription :: "u8 list \<Rightarrow> u8 list" where
  "ClientInfoStruct_clientDescription bs = take 128 (drop 128 (bytes_at sizeof_ClientInfoStruct bs))"

definition ClientInfoStruct_processId :: "u8 list \<Rightarrow> ProcessId" where
  "ClientInfoStruct_processId bs = get_word 392 4 (bytes_at sizeof_ClientInfoStruct bs)"

definition encode_ClientInfoStruct :: "u8 list \<Rightarrow> u8 list \<Rightarrow> ProcessId \<Rightarrow> u8 list" where
  "encode_ClientInfoStruct name description pid =
     bytes_at 128 name @ bytes_at 128 description @ replicate 136 0 @ put_word 4 pid @ replicate 116 0"

subsection \<open>Transports and start\<close>

definition kClientDiscoveryIntervalInMs :: u64 where "kClientDiscoveryIntervalInMs = 3000"
definition kClientTimeoutCount :: u32 where "kClientTimeoutCount = 3"

text \<open>The constructor leaves \<^verbatim>\<open>m_clientId\<close> unset, here the argument; so does a transport with its handle.\<close>

definition new_RouterCore :: "ClientId \<Rightarrow> RouterCore" where
  "new_RouterCore unset =
    \<lparr>m_clientMap = [], m_transportMap = [], m_pClientManager = None, m_lastTransportId = 0, rc_clientId = unset,
     m_lastClientPingTimeInMs = 0, m_clientTimeoutCount = kClientTimeoutCount, thread_queue = [],
     thread_active = False, m_clientInfoResponse = zero_message, sent = [], transport_handle = (\<lambda>_. 0)\<rparr>"

definition SetClientManager :: "environment \<Rightarrow> ListenerClientManager \<Rightarrow> RouterCore \<Rightarrow> (Result \<times> RouterCore) option" where
  "SetClientManager E pClientManager r =
    (if m_pClientManager r = None then
       (case RegisterHost (idHash E) (idMemory E) pClientManager of
          None \<Rightarrow> None
        | Some (result, written, m') \<Rightarrow>
            (let r1 = (case written of Some i \<Rightarrow> r\<lparr>rc_clientId := i\<rparr> | None \<Rightarrow> r)
             in Some (result, if result = Success then r1\<lparr>m_pClientManager := Some m'\<rparr> else r1)))
     else Some (Error, r))"

definition SetClientTimeoutCount :: "u32 \<Rightarrow> RouterCore \<Rightarrow> RouterCore" where
  "SetClientTimeoutCount timeoutCount r = r\<lparr>m_clientTimeoutCount := timeoutCount\<rparr>"

definition RegisterTransport :: "environment \<Rightarrow> transport \<Rightarrow> RouterCore \<Rightarrow> Result \<times> RouterCore" where
  "RegisterTransport E t r =
    (let handle = m_lastTransportId r + 1;
         r1 = r\<lparr>m_lastTransportId := handle\<rparr>;
         result = enableResult E t
     in if result = Success then
          (result, r1\<lparr>transport_handle := (transport_handle r1)(t := handle),
                      m_transportMap := assign (handleOrder E) handle \<lparr>pTransport = Some t, clientMap = []\<rparr>
                        (m_transportMap r1)\<rparr>)
        else (result, r1))"

definition Start :: "u8 list \<Rightarrow> u8 list \<Rightarrow> ProcessId \<Rightarrow> RouterCore \<Rightarrow> Result \<times> RouterCore" where
  "Start pDescription processName processId r =
    (if m_pClientManager r \<noteq> None \<and> m_transportMap r \<noteq> [] then
       (let m = m_clientInfoResponse r;
            h = (header m)\<lparr>messageId := code_of_SystemMessage SystemMessage.ClientInfo,
                  payloadSize := word_of_nat sizeof_ClientInfoStruct, protocolId := Protocol_System\<rparr>;
            info = encode_ClientInfoStruct (Strncpy 128 processName) (Strncpy 128 pDescription) processId
        in (Success, r\<lparr>m_lastClientPingTimeInMs := 0, thread_active := True,
              m_clientInfoResponse := m\<lparr>header := h, payload := info @ drop sizeof_ClientInfoStruct (payload m)\<rparr>\<rparr>))
     else (Error, r))"

text \<open>Every client of the copied map is removed; \<^verbatim>\<open>Disable\<close> makes the transport forget its handle.\<close>

fun remove_clients :: "environment \<Rightarrow> ClientId list \<Rightarrow> RouterCore \<Rightarrow> RouterCore option" where
  "remove_clients E [] r = Some r"
| "remove_clients E (c # cs) r = Option.bind (RemoveClient E c r) (remove_clients E cs)"

definition RemoveTransport :: "environment \<Rightarrow> transport \<Rightarrow> RouterCore \<Rightarrow> (Result \<times> RouterCore) option" where
  "RemoveTransport E t r =
    (let tHandle = transport_handle r t
     in case map_of (m_transportMap r) tHandle of
          None \<Rightarrow> Some (Error, r)
        | Some context \<Rightarrow>
            map_option (\<lambda>r1. (Success, r1\<lparr>m_transportMap := erase tHandle (m_transportMap r1),
                                         transport_handle := (transport_handle r1)(t := 0)\<rparr>))
              (remove_clients E (keys (clientMap context)) r))"

fun remove_transports :: "environment \<Rightarrow> transport list \<Rightarrow> RouterCore \<Rightarrow> RouterCore option" where
  "remove_transports E [] r = Some r"
| "remove_transports E (t # ts) r = Option.bind (RemoveTransport E t r) (\<lambda>(_, r1). remove_transports E ts r1)"

text \<open>The client manager is handed back with its host unregistered.\<close>

definition Stop :: "environment \<Rightarrow> RouterCore \<Rightarrow> (ListenerClientManager option \<times> RouterCore) option" where
  "Stop E r =
    (let transports = arrange (transportOrder E)
           (remdups (List.map_filter (\<lambda>(_, context). pTransport context) (m_transportMap r)))
     in map_option
          (\<lambda>r1. (map_option (\<lambda>m. snd (UnregisterHost (idHash E) m)) (m_pClientManager r1),
                r1\<lparr>thread_active := False, m_pClientManager := None\<rparr>))
          (remove_transports E transports r))"

text \<open>The destructor.\<close>

definition delete_RouterCore :: "environment \<Rightarrow> RouterCore \<Rightarrow> RouterCore option" where
  "delete_RouterCore E r = (if m_pClientManager r \<noteq> None then map_option snd (Stop E r) else Some r)"

definition GetConnectedClientList :: "RouterCore \<Rightarrow> ClientInfo list" where
  "GetConnectedClientList r = map (\<lambda>(_, context). clientInfo context) (filter (\<lambda>(c, _). c \<noteq> rc_clientId r) (m_clientMap r))"

subsection \<open>Lookups\<close>

definition ConnectionInfoForClientId :: "ClientId \<Rightarrow> RouterCore \<Rightarrow> ConnectionInfo option" where
  "ConnectionInfoForClientId clientId r =
    (if clientId = kBroadcastClientId then None else map_option cc_connectionInfo (FindClientById clientId r))"

definition TransportForTransportHandle :: "TransportHandle \<Rightarrow> RouterCore \<Rightarrow> transport option" where
  "TransportForTransportHandle handle r =
    (if handle \<noteq> 0 then Option.bind (map_of (m_transportMap r) handle) pTransport else None)"

definition RouteBroadcastMessage :: "environment \<Rightarrow> MessageContext \<Rightarrow> RouterCore \<Rightarrow> RouterCore option" where
  "RouteBroadcastMessage E msgContext r =
    SendBroadcastMessage E (mc_message msgContext)
      (Option.bind (map_of (m_transportMap r) (ci_handle (mc_connectionInfo msgContext))) pTransport) r"

definition RouteInternalMessage :: "MessageContext \<Rightarrow> RouterCore \<Rightarrow> RouterCore" where
  "RouteInternalMessage recvMsgContext r = r\<lparr>thread_queue := thread_queue r @ [recvMsgContext]\<rparr>"

definition is_client_management :: "MessageBuffer \<Rightarrow> bool" where
  "is_client_management m \<longleftrightarrow> protocolId (header m) = Protocol_ClientManagement \<or> IsOutOfBandMessage m"

definition IsRoutableMessage :: "MessageContext \<Rightarrow> RouterCore \<Rightarrow> bool \<times> RouterCore" where
  "IsRoutableMessage recvMsgContext r =
    (let h = header (mc_message recvMsgContext)
     in if is_client_management (mc_message recvMsgContext) then (False, RouteInternalMessage recvMsgContext r)
        else if srcClientId h \<noteq> kBroadcastClientId then
          (True, if protocolId h = Protocol_System \<and> (dstClientId h = kBroadcastClientId \<or> dstClientId h = rc_clientId r)
                 then RouteInternalMessage recvMsgContext r else r)
        else (False, r))"

subsection \<open>System messages\<close>

text \<open>
  The part of \<^verbatim>\<open>ProcessRouterMessage\<close> under the lock: whether to ask for the client's information, and
  the new state.  The pointer to the source's context is taken before a new client is added.
\<close>

definition identify_client :: "u8 list \<Rightarrow> ClientContext \<Rightarrow> ClientContext" where
  "identify_client pPayload context =
     context\<lparr>clientInfo := (clientInfo context)
                \<lparr>clientName := Strncpy 128 (ClientInfoStruct_clientName pPayload),
                 clientDescription := Strncpy 128 (ClientInfoStruct_clientDescription pPayload),
                 clientPid := ClientInfoStruct_processId pPayload, hasBeenIdentified := True\<rparr>,
             pingRetryCount := 0, receivedPong := True\<rparr>"

definition handle_system_message :: "environment \<Rightarrow> MessageContext \<Rightarrow> RouterCore \<Rightarrow> (bool \<times> RouterCore) option" where
  "handle_system_message E messageContext r =
    (let h = header (mc_message messageContext);
         src = srcClientId h;
         code = SystemMessage_of (messageId h);
         pSrcClientInfo = FindClientById src r;
         isNew = (pSrcClientInfo = None \<and> code \<noteq> ClientDisconnected);
         r1 = (if isNew then AddClient E src (mc_connectionInfo messageContext) False r else r)
     in case (code, pSrcClientInfo) of
          (ClientConnected, Some context) \<Rightarrow> Some (isNew \<or> \<not> hasBeenIdentified (clientInfo context), r1)
        | (ClientDisconnected, Some context) \<Rightarrow> map_option (Pair isNew) (RemoveClient E src r1)
        | (Pong, Some context) \<Rightarrow>
            Some (isNew \<or> \<not> hasBeenIdentified (clientInfo context),
                  r1\<lparr>m_clientMap := adjust src (\<lambda>c. c\<lparr>receivedPong := True\<rparr>) (m_clientMap r1)\<rparr>)
        | (SystemMessage.ClientInfo, Some context) \<Rightarrow>
            Some (False, r1\<lparr>m_clientMap := adjust src (identify_client (payload (mc_message messageContext))) (m_clientMap r1)\<rparr>)
        | _ \<Rightarrow> Some (isNew, r1))"

definition ProcessRouterMessage :: "environment \<Rightarrow> MessageContext \<Rightarrow> RouterCore \<Rightarrow> RouterCore option" where
  "ProcessRouterMessage E messageContext r =
    (case TransportForTransportHandle (ci_handle (mc_connectionInfo messageContext)) r of
       None \<Rightarrow> Some r
     | Some t \<Rightarrow>
         if protocolId (header (mc_message messageContext)) = Protocol_System then
           (case handle_system_message E messageContext r of
              None \<Rightarrow> None
            | Some (queryClientInfo, r1) \<Rightarrow>
                if queryClientInfo then
                  (let src = srcClientId (header (mc_message messageContext));
                       query = zero_message\<lparr>header := zero_header
                         \<lparr>messageId := code_of_SystemMessage QueryClientInfo, payloadSize := 0,
                          srcClientId := rc_clientId r1, dstClientId := src, protocolId := Protocol_System\<rparr>\<rparr>;
                       (result, r2) = TransmitMessage E t (mc_connectionInfo messageContext) query r1
                   in if result = Error then RemoveClient E src r2 else Some r2)
                else Some r1)
         else Some r)"

subsection \<open>The periodic update\<close>

text \<open>
  The loop of \<^verbatim>\<open>UpdateClients\<close>, over the keys that are still there when the iterator gets to them: a
  nested removal takes entries away before or after it and leaves the order of the others.
\<close>

definition age_client :: "ClientContext \<Rightarrow> ClientContext" where
  "age_client context =
    (if receivedPong context then context\<lparr>pingRetryCount := 0, receivedPong := False\<rparr>
     else context\<lparr>pingRetryCount := pingRetryCount context + 1\<rparr>)"

fun update_each :: "environment \<Rightarrow> ClientId list \<Rightarrow> RouterCore \<Rightarrow> RouterCore option" where
  "update_each E [] r = Some r"
| "update_each E (c # cs) r =
    (case map_of (m_clientMap r) c of
       None \<Rightarrow> update_each E cs r
     | Some context0 \<Rightarrow>
         (let context = age_client context0;
              r1 = r\<lparr>m_clientMap := adjust c age_client (m_clientMap r)\<rparr>
          in if pingRetryCount context > m_clientTimeoutCount r1 then
               (let r2 = forget_client (ci_handle (cc_connectionInfo context)) c r1
                in Option.bind
                     (if registeredClient context then
                        (case m_pClientManager r2 of
                           None \<Rightarrow> None
                         | Some m \<Rightarrow> SendBroadcastMessage E (announce ClientDisconnected c) None
                             (r2\<lparr>m_pClientManager := Some (snd (UnregisterClient (idHash E) c m))\<rparr>))
                      else Some r2)
                     (\<lambda>r3. if map_of (m_clientMap r3) c = None then None
                          else update_each E cs (r3\<lparr>m_clientMap := erase c (m_clientMap r3)\<rparr>)))
             else update_each E cs r1))"

definition UpdateClients :: "environment \<Rightarrow> u64 \<Rightarrow> RouterCore \<Rightarrow> RouterCore option" where
  "UpdateClients E currentTimeInMs r =
    (if currentTimeInMs - kClientDiscoveryIntervalInMs \<ge> m_lastClientPingTimeInMs r then
       Option.bind (update_each E (keys (m_clientMap r)) r)
         (\<lambda>r1. SendBroadcastMessage E (announce Ping (rc_clientId r1)) None
                 (r1\<lparr>m_lastClientPingTimeInMs := currentTimeInMs\<rparr>))
     else Some r)"

subsection \<open>Client management messages\<close>

definition ClientStatusFlags_DeveloperModeEnabled :: StatusFlags where
  "ClientStatusFlags_DeveloperModeEnabled = 1"

definition oob_reply :: "ManagementMessage \<Rightarrow> Protocol \<Rightarrow> u8 list \<Rightarrow> MessageBuffer" where
  "oob_reply code protocol bytes =
    kOutOfBandMessage\<lparr>header := (header kOutOfBandMessage)
       \<lparr>messageId := code_of_ManagementMessage code, payloadSize := word_of_nat (length bytes), protocolId := protocol\<rparr>,
      payload := bytes\<rparr>"

definition client_reply :: "ManagementMessage \<Rightarrow> ClientId \<Rightarrow> ClientId \<Rightarrow> Protocol \<Rightarrow> u8 list \<Rightarrow> MessageBuffer" where
  "client_reply code src dst protocol bytes =
    zero_message\<lparr>header := zero_header\<lparr>srcClientId := src, dstClientId := dst, protocolId := protocol,
       messageId := code_of_ManagementMessage code, payloadSize := word_of_nat (length bytes)\<rparr>,
      payload := bytes\<rparr>"

definition connect_response :: "Protocol \<Rightarrow> ClientId \<Rightarrow> Result \<Rightarrow> MessageBuffer" where
  "connect_response protocol externalClientId result =
    oob_reply ConnectResponse protocol
      (encode_ConnectResponsePayload \<lparr>crp_result = result, crp_clientId = externalClientId\<rparr>)"

text \<open>The case of a connection request: the result, the identifier for the client, and the router.\<close>

definition accept_client :: "environment \<Rightarrow> MessageContext \<Rightarrow> RouterCore \<Rightarrow> (Result \<times> ClientId \<times> RouterCore) option" where
  "accept_client E messageContext r =
    (if unat (payloadSize (header (mc_message messageContext))) = sizeof_ConnectRequestPayload then
       (case FindExternalClientByConnection E (mc_connectionInfo messageContext) r of
          None \<Rightarrow>
            (case m_pClientManager r of
               None \<Rightarrow> None
             | Some m \<Rightarrow>
                 (case RegisterClient (idHash E) (idMemory E) m of
                    None \<Rightarrow> None
                  | Some (result, written, m') \<Rightarrow>
                      (let externalClientId = (case written of Some i \<Rightarrow> i | None \<Rightarrow> kBroadcastClientId);
                           r1 = r\<lparr>m_pClientManager := Some m'\<rparr>
                       in if result = Success then
                            map_option (\<lambda>r2. (result, externalClientId, r2))
                              (SendBroadcastMessage E (announce ClientConnected externalClientId) None
                                (AddClient E externalClientId (mc_connectionInfo messageContext) True r1))
                          else Some (result, externalClientId, r1))))
        | Some (_, context) \<Rightarrow> Some (Success, info_clientId (clientInfo context), r))
     else Some (VersionMismatch, kBroadcastClientId, r))"

definition from_its_client :: "environment \<Rightarrow> MessageContext \<Rightarrow> RouterCore \<Rightarrow> bool" where
  "from_its_client E messageContext r \<longleftrightarrow>
    (case FindExternalClientByConnection E (mc_connectionInfo messageContext) r of
       None \<Rightarrow> False
     | Some (_, context) \<Rightarrow> srcClientId (header (mc_message messageContext)) = info_clientId (clientInfo context))"

definition ProcessClientManagementMessage :: "environment \<Rightarrow> MessageContext \<Rightarrow> RouterCore \<Rightarrow> RouterCore option" where
  "ProcessClientManagementMessage E messageContext r =
    (let message = mc_message messageContext;
         h = header message;
         connection = mc_connectionInfo messageContext;
         src = srcClientId h
     in case Option.bind (map_of (m_transportMap r) (ci_handle connection)) pTransport of
          None \<Rightarrow> Some r
        | Some t \<Rightarrow>
            if IsOutOfBandMessage message \<and> \<not> IsValidOutOfBandMessage message then
              map_option snd (transmit_until E t connection
                (connect_response (protocolId h) kBroadcastClientId VersionMismatch) r)
            else if IsOutOfBandMessage message \<and> IsValidOutOfBandMessage message
                    \<and> ManagementMessage_of (messageId h) = KeepAlive then
              map_option snd (transmit_until E t connection
                (kOutOfBandMessage\<lparr>header := (header kOutOfBandMessage)
                   \<lparr>messageId := code_of_ManagementMessage KeepAlive, payloadSize := 0, sessionId := sessionId h\<rparr>\<rparr>) r)
            else
              (case ManagementMessage_of (messageId h) of
                 ConnectRequest \<Rightarrow>
                   (case accept_client E messageContext r of
                      None \<Rightarrow> None
                    | Some (result, externalClientId, r1) \<Rightarrow>
                        (let (sendResult, r2) = TransmitMessage E t connection
                               (connect_response (protocolId h) externalClientId result) r1
                         in if sendResult = Error \<and> externalClientId \<noteq> kBroadcastClientId
                            then RemoveClient E externalClientId r2 else Some r2))
               | DisconnectNotification \<Rightarrow>
                   if from_its_client E messageContext r then
                     RemoveClient E src (snd (TransmitMessage E t connection
                       (client_reply DisconnectResponse (rc_clientId r) src (protocolId h) []) r))
                   else Some r
               | SetClientFlags \<Rightarrow>
                   if from_its_client E messageContext r then
                     Option.bind (transmit_until E t connection
                       (client_reply SetClientFlagsResponse (rc_clientId r) src (protocolId h)
                         (encode_SetClientFlagsResponsePayload Error)) r)
                       (\<lambda>(result, r1). if result = Error then RemoveClient E src r1 else Some r1)
                   else Some r
               | QueryStatus \<Rightarrow>
                   Option.bind (transmit_until E t connection
                     (oob_reply QueryStatusResponse (protocolId h)
                       (encode_QueryStatusResponsePayload Success ClientStatusFlags_DeveloperModeEnabled)) r)
                     (\<lambda>(result, r1). if result = Error then RemoveClient E src r1 else Some r1)
               | _ \<Rightarrow> Some r))"

subsection \<open>The router's thread\<close>

fun process_queue :: "environment \<Rightarrow> MessageContext list \<Rightarrow> RouterCore \<Rightarrow> RouterCore option" where
  "process_queue E [] r = Some r"
| "process_queue E (m # ms) r =
    Option.bind (if is_client_management (mc_message m) then ProcessClientManagementMessage E m r
                 else ProcessRouterMessage E m r)
      (process_queue E ms)"

text \<open>One round of \<^verbatim>\<open>RouterThreadFunc\<close>: the queue is taken as a whole, processed in order, then the clients are updated.\<close>

definition router_round :: "environment \<Rightarrow> u64 \<Rightarrow> RouterCore \<Rightarrow> RouterCore option" where
  "router_round E currentTimeInMs r =
    Option.bind (process_queue E (thread_queue r) (r\<lparr>thread_queue := []\<rparr>)) (UpdateClients E currentTimeInMs)"

subsection \<open>Routing through the cache\<close>

record CacheClientContext =
  cache_connectionInfo :: ConnectionInfo
  cache_pTransport :: "transport option"

text \<open>The pointer to the current context is the key of the entry it points to.\<close>

record RoutingCache =
  m_routingCache :: "ClientId \<Rightarrow> CacheClientContext option"
  m_currentClientId :: ClientId
  m_pCurrentClientContext :: "ClientId option"

definition new_RoutingCache :: RoutingCache where
  "new_RoutingCache =
    \<lparr>m_routingCache = (\<lambda>_. None), m_currentClientId = kBroadcastClientId, m_pCurrentClientContext = None\<rparr>"

text \<open>Selects the destination's entry, looking the client up in the router on a miss.\<close>

definition select_context :: "ClientId \<Rightarrow> RouterCore \<Rightarrow> RoutingCache \<Rightarrow> RoutingCache" where
  "select_context dst r cache =
    (if m_currentClientId cache \<noteq> dst then
       (let cache1 = cache\<lparr>m_pCurrentClientContext := None, m_currentClientId := dst\<rparr>
        in case m_routingCache cache dst of
             Some _ \<Rightarrow> cache1\<lparr>m_pCurrentClientContext := Some dst\<rparr>
           | None \<Rightarrow>
               (case ConnectionInfoForClientId dst r of
                  None \<Rightarrow> cache1
                | Some connection \<Rightarrow>
                    cache1\<lparr>m_routingCache := (m_routingCache cache)(dst \<mapsto>
                             \<lparr>cache_connectionInfo = connection,
                              cache_pTransport = TransportForTransportHandle (ci_handle connection) r\<rparr>),
                           m_pCurrentClientContext := Some dst\<rparr>))
     else cache)"

text \<open>\<open>None\<close> is the use of a dangling entry pointer or of a null transport, or a removal that fails.\<close>

definition RouteMessage :: "environment \<Rightarrow> MessageContext \<Rightarrow> RoutingCache \<Rightarrow> RouterCore
    \<Rightarrow> (Result \<times> RoutingCache \<times> RouterCore) option" where
  "RouteMessage E messageContext cache r =
    (let dst = dstClientId (header (mc_message messageContext));
         (routable, r1) = IsRoutableMessage messageContext r
     in if \<not> routable then Some (Unavailable, cache, r1)
        else if dst = kBroadcastClientId then
          map_option (\<lambda>r2. (Success, cache, r2)) (RouteBroadcastMessage E messageContext r1)
        else
          (let cache1 = select_context dst r1 cache
           in case m_pCurrentClientContext cache1 of
                None \<Rightarrow> Some (Unavailable, cache1, r1)
              | Some k \<Rightarrow>
                  (case m_routingCache cache1 k of
                     None \<Rightarrow> None
                   | Some context \<Rightarrow>
                       (case cache_pTransport context of
                          None \<Rightarrow> None
                        | Some t \<Rightarrow>
                            (let (result, r2) = TransmitMessage E t (cache_connectionInfo context) (mc_message messageContext) r1
                             in if result = Error then
                                  map_option (\<lambda>r3. (result,
                                     cache1\<lparr>m_routingCache := (m_routingCache cache1)(dst := None),
                                            m_pCurrentClientContext := None, m_currentClientId := kBroadcastClientId\<rparr>, r3))
                                    (RemoveClient E dst r2)
                                else Some (result, cache1, r2))))))"

subsection \<open>The receiving thread of a transport\<close>

text \<open>
  One pass over the queue of received messages, the messages before \<open>firstNew\<close> being those that are
  tried a second time; the result is the queue of the messages to retry.
\<close>

fun route_queue :: "environment \<Rightarrow> nat \<Rightarrow> nat \<Rightarrow> MessageContext list \<Rightarrow> RoutingCache \<Rightarrow> RouterCore
    \<Rightarrow> (MessageContext list \<times> RoutingCache \<times> RouterCore) option" where
  "route_queue E firstNew n [] cache r = Some ([], cache, r)"
| "route_queue E firstNew n (m # ms) cache r =
    (case RouteMessage E m cache r of
       None \<Rightarrow> None
     | Some (result, cache1, r1) \<Rightarrow>
         map_option (\<lambda>(retry, cache2, r2). (if result = NotReady \<and> n + 1 > firstNew then m # retry else retry, cache2, r2))
           (route_queue E firstNew (n + 1) ms cache1 r1))"

text \<open>One iteration of \<^verbatim>\<open>ReceiveThreadFunc\<close>, given the messages that \<^verbatim>\<open>ReceiveMessage\<close> delivered.\<close>

definition receive_round :: "environment \<Rightarrow> MessageContext list \<Rightarrow> MessageContext list \<Rightarrow> RoutingCache \<Rightarrow> RouterCore
    \<Rightarrow> (MessageContext list \<times> RoutingCache \<times> RouterCore) option" where
  "receive_round E received recvQueue cache r =
     route_queue E (length recvQueue) 0 (recvQueue @ received) cache r"

end
