(* ===== verification/Router_Inv.thy ===== *)
theory Router_Inv
  imports Router_Core
begin

text \<open>
  The invariant of the router's two maps and the contract of \<^verbatim>\<open>RemoveClient\<close>.  An identifier may be known
  to more than one transport, because a client of another router may claim any identifier and the
  client manager knows only those it handed out itself; what makes the mutual recursion of removal
  and broadcast safe is that this never happens to a registered client, and that identifiers which
  are left behind in a transport's map are never handed out again.
\<close>

subsection \<open>Lemmas on unordered maps\<close>

lemma map_of_erase [simp]: "map_of (erase k m) = (map_of m)(k := None)"
  by (induction m) (auto simp: erase_def fun_eq_iff)

lemma keys_erase [simp]: "keys (erase k m) = filter (\<lambda>x. x \<noteq> k) (keys m)"
  by (induction m) (auto simp: erase_def)

lemma key_set_erase [simp]: "fst ` set (erase k m) = fst ` set m - {k}"
  by (auto simp: erase_def)

lemma map_of_adjust [simp]: "map_of (adjust k f m) = (map_of m)(k := map_option f (map_of m k))"
  by (induction m) (auto simp: adjust_def fun_eq_iff)

lemma keys_adjust [simp]: "keys (adjust k f m) = keys m"
  by (induction m) (auto simp: adjust_def)

lemma arrange_set [simp]: "set (arrange ord ks) = set ks"
  by (simp add: arrange_def)

lemma arrange_distinct: "distinct ks \<Longrightarrow> distinct (arrange ord ks)"
  by (simp add: arrange_def)

lemma map_of_tabulate: "map_of (map (\<lambda>x. (x, g x)) ks) k = (if k \<in> set ks then Some (g k) else None)"
  by (induction ks) auto

lemma map_of_emplace:
  "map_of (emplace ord k v m) = (if map_of m k = None then (map_of m)(k \<mapsto> v) else map_of m)"
proof (cases "map_of m k")
  case None
  have "map_of (emplace ord k v m) x = ((map_of m)(k \<mapsto> v)) x" for x
  proof (cases "x \<in> set (k # keys m)")
    case True
    then have "((map_of m)(k \<mapsto> v)) x \<noteq> None"
      by (cases "x = k") (simp_all add: map_of_eq_None_iff del: not_None_eq)
    with True None show ?thesis by (simp add: emplace_def map_of_tabulate)
  next
    case False
    with None show ?thesis by (simp add: emplace_def map_of_tabulate map_of_eq_None_iff [of m x, THEN iffD2])
  qed
  with None show ?thesis by (simp add: fun_eq_iff)
qed (simp add: emplace_def)

lemma keys_emplace: "set (keys (emplace ord k v m)) = insert k (set (keys m))"
proof (cases "map_of m k")
  case (Some v')
  then have "k \<in> fst ` set m" by (metis map_of_eq_None_iff option.simps(3))
  with Some show ?thesis by (simp add: emplace_def insert_absorb)
qed (simp add: emplace_def image_image)

lemma distinct_emplace: "distinct (keys m) \<Longrightarrow> distinct (keys (emplace ord k v m))"
proof (cases "map_of m k")
  case None
  then have "k \<notin> fst ` set m" by (simp add: map_of_eq_None_iff)
  moreover assume "distinct (keys m)"
  ultimately show ?thesis using None by (simp add: emplace_def comp_def arrange_distinct)
qed (simp add: emplace_def)

lemma map_of_assign [simp]: "map_of (assign ord k v m) = (map_of m)(k \<mapsto> v)"
  by (auto simp: assign_def map_of_emplace fun_eq_iff)

lemma distinct_assign: "distinct (keys m) \<Longrightarrow> distinct (keys (assign ord k v m))"
  by (simp add: assign_def distinct_emplace)

lemma map_of_empty_iff: "map_of m = Map.empty \<longleftrightarrow> m = []"
  by (cases m) (auto simp: fun_eq_iff)

subsection \<open>The invariant\<close>

abbreviation clients :: "RouterCore \<Rightarrow> ClientId \<Rightarrow> ClientContext option" where
  "clients r \<equiv> map_of (m_clientMap r)"

abbreviation transports :: "RouterCore \<Rightarrow> TransportHandle \<Rightarrow> TransportContext option" where
  "transports r \<equiv> map_of (m_transportMap r)"

abbreviation handle_of :: "ClientContext \<Rightarrow> TransportHandle" where
  "handle_of ctx \<equiv> ci_handle (cc_connectionInfo ctx)"

definition members :: "RouterCore \<Rightarrow> TransportHandle \<Rightarrow> ClientId set" where
  "members r h = (case transports r h of None \<Rightarrow> {} | Some ctx \<Rightarrow> set (keys (clientMap ctx)))"

definition used_ids :: "environment \<Rightarrow> RouterCore \<Rightarrow> ClientId set" where
  "used_ids E r = (case m_pClientManager r of None \<Rightarrow> {} | Some m \<Rightarrow> ids (idHash E) m)"

definition shape_ok :: "RouterCore \<Rightarrow> bool" where
  "shape_ok r \<longleftrightarrow> distinct (keys (m_clientMap r)) \<and> distinct (keys (m_transportMap r))
     \<and> (\<forall>h ctx. transports r h = Some ctx \<longrightarrow>
          distinct (keys (clientMap ctx)) \<and> h \<noteq> 0 \<and> h \<le> m_lastTransportId r
          \<and> (\<exists>t. pTransport ctx = Some t \<and> transport_handle r t = h))
     \<and> (\<forall>c ctx. clients r c = Some ctx \<longrightarrow> info_clientId (clientInfo ctx) = c)"

definition manager_present :: "environment \<Rightarrow> RouterCore \<Rightarrow> bool" where
  "manager_present E r \<longleftrightarrow>
     (case m_pClientManager r of None \<Rightarrow> m_clientMap r = [] \<and> \<not> thread_active r | Some m \<Rightarrow> manager_ok (idHash E) m)"

text \<open>The links between the maps, while the clients in \<open>X\<close> are being removed.\<close>

definition links_ok :: "environment \<Rightarrow> ClientId set \<Rightarrow> RouterCore \<Rightarrow> bool" where
  "links_ok E X r \<longleftrightarrow>
     (\<forall>c ctx. clients r c = Some ctx \<longrightarrow> c \<noteq> 0
        \<and> (c \<in> X \<or> c \<in> members r (handle_of ctx) \<and> (registeredClient ctx \<longrightarrow> c \<in> used_ids E r)))
     \<and> (\<forall>h c. c \<in> members r h \<longrightarrow> c \<noteq> 0 \<and> c \<notin> X
        \<and> (case clients r c of
             None \<Rightarrow> c \<in> used_ids E r
           | Some ctx \<Rightarrow> handle_of ctx = h \<or> \<not> registeredClient ctx \<and> c \<in> used_ids E r))
     \<and> X \<subseteq> dom (clients r)"

definition removing_inv :: "environment \<Rightarrow> ClientId set \<Rightarrow> RouterCore \<Rightarrow> bool" where
  "removing_inv E X r \<longleftrightarrow> shape_ok r \<and> manager_present E r \<and> links_ok E X r"

abbreviation router_inv :: "environment \<Rightarrow> RouterCore \<Rightarrow> bool" where
  "router_inv E r \<equiv> removing_inv E {} r"

lemma shape_transportD:
  assumes "shape_ok r" and "transports r h = Some ctx"
  shows "distinct (keys (clientMap ctx))" and "h \<noteq> 0" and "h \<le> m_lastTransportId r"
    and "\<exists>t. pTransport ctx = Some t \<and> transport_handle r t = h"
  using assms unfolding shape_ok_def by blast+

lemma shape_clientD: "shape_ok r \<Longrightarrow> clients r c = Some ctx \<Longrightarrow> info_clientId (clientInfo ctx) = c"
  unfolding shape_ok_def by blast

lemma links_clientD:
  assumes "links_ok E X r" and "clients r c = Some ctx"
  shows "c \<noteq> 0" and "c \<notin> X \<Longrightarrow> c \<in> members r (handle_of ctx)"
    and "c \<notin> X \<Longrightarrow> registeredClient ctx \<Longrightarrow> c \<in> used_ids E r"
  using assms unfolding links_ok_def by blast+

lemma links_memberD:
  assumes "links_ok E X r" and "c \<in> members r h"
  shows "c \<noteq> 0" and "c \<notin> X" and "clients r c = None \<Longrightarrow> c \<in> used_ids E r"
    and "clients r c = Some ctx \<Longrightarrow> handle_of ctx = h \<or> \<not> registeredClient ctx \<and> c \<in> used_ids E r"
proof -
  from assms have "c \<noteq> 0 \<and> c \<notin> X
      \<and> (case clients r c of
           None \<Rightarrow> c \<in> used_ids E r
         | Some ctx \<Rightarrow> handle_of ctx = h \<or> \<not> registeredClient ctx \<and> c \<in> used_ids E r)"
    unfolding links_ok_def by blast
  then show "c \<noteq> 0" and "c \<notin> X" and "clients r c = None \<Longrightarrow> c \<in> used_ids E r"
    and "clients r c = Some ctx \<Longrightarrow> handle_of ctx = h \<or> \<not> registeredClient ctx \<and> c \<in> used_ids E r"
    by auto
qed

text \<open>The fields that the invariant does not look at, such as the record of transmissions.\<close>

lemma inv_cong:
  assumes "m_clientMap r' = m_clientMap r" and "m_transportMap r' = m_transportMap r"
    and "m_pClientManager r' = m_pClientManager r" and "m_lastTransportId r' = m_lastTransportId r"
    and "transport_handle r' = transport_handle r" and "thread_active r' = thread_active r"
  shows "removing_inv E X r' \<longleftrightarrow> removing_inv E X r"
  unfolding removing_inv_def shape_ok_def manager_present_def links_ok_def members_def used_ids_def assms by (rule refl)

lemma inv_other_fields [simp]:
  "removing_inv E X (r\<lparr>sent := log\<rparr>) \<longleftrightarrow> removing_inv E X r"
  "removing_inv E X (r\<lparr>thread_queue := q\<rparr>) \<longleftrightarrow> removing_inv E X r"
  "removing_inv E X (r\<lparr>m_lastClientPingTimeInMs := time\<rparr>) \<longleftrightarrow> removing_inv E X r"
  by (simp_all add: inv_cong [of "r\<lparr>sent := log\<rparr>" r] inv_cong [of "r\<lparr>thread_queue := q\<rparr>" r]
      inv_cong [of "r\<lparr>m_lastClientPingTimeInMs := time\<rparr>" r])

lemma members_sent [simp]: "members (r\<lparr>sent := log\<rparr>) = members r"
  by (simp add: members_def fun_eq_iff)

subsection \<open>Broadcast passes\<close>

lemma broadcast_clients_spec:
  "broadcast_clients E t message cs f0 r = (f, r') \<Longrightarrow>
     (\<exists>log. r' = r\<lparr>sent := sent r @ log\<rparr>) \<and> (f = f0 \<or> f \<in> set (keys cs))"
proof (induction E t message cs f0 r rule: broadcast_clients.induct)
  case (1 E t message f0 r)
  then have "r' = r\<lparr>sent := sent r @ []\<rparr> \<and> f = f0" by simp
  then show ?case by blast
next
  case (2 E t message c connection cs f0 r)
  show ?case
  proof (cases "c \<noteq> srcClientId (header message)")
    case True
    with 2(1) [OF True refl] 2(3) show ?thesis
      by (fastforce simp: TransmitMessage_def split: if_splits)
  next
    case False
    with 2(2) 2(3) show ?thesis by auto
  qed
qed

lemma broadcast_transports_spec:
  "broadcast_transports E message source ts f0 r = (f, r') \<Longrightarrow>
     (\<exists>log. r' = r\<lparr>sent := sent r @ log\<rparr>) \<and> (f = f0 \<or> (\<exists>h ctx. (h, ctx) \<in> set ts \<and> f \<in> set (keys (clientMap ctx))))"
proof (induction ts arbitrary: f0 r)
  case Nil
  then have "r' = r\<lparr>sent := sent r @ []\<rparr> \<and> f = f0" by simp
  then show ?case by blast
next
  case (Cons x ts)
  obtain h ctx where x: "x = (h, ctx)" by fastforce
  show ?case
  proof (cases "pTransport ctx")
    case None
    with Cons.IH [of f0 r] Cons.prems x show ?thesis by auto
  next
    case (Some t)
    show ?thesis
    proof (cases "ForwardingConnection E t")
      case True
      let ?r = "if Some t \<noteq> source then snd (TransmitBroadcastMessage E t message r) else r"
      have "broadcast_transports E message source ts f0 ?r = (f, r')" using Cons.prems x Some True by simp
      from Cons.IH [OF this] obtain log where "r' = ?r\<lparr>sent := sent ?r @ log\<rparr>" and
        f: "f = f0 \<or> (\<exists>h ctx. (h, ctx) \<in> set ts \<and> f \<in> set (keys (clientMap ctx)))" by blast
      then have "\<exists>log. r' = r\<lparr>sent := sent r @ log\<rparr>"
        by (cases "Some t \<noteq> source") (auto simp: TransmitBroadcastMessage_def)
      with f show ?thesis by auto
    next
      case False
      obtain l1 r1 where b: "broadcast_clients E t message (clientMap ctx) f0 r = (l1, r1)" by fastforce
      have "broadcast_transports E message source ts l1 r1 = (f, r')" using Cons.prems x Some False b by simp
      from Cons.IH [OF this] broadcast_clients_spec [OF b] x show ?thesis by fastforce
    qed
  qed
qed

lemma broadcast_pass:
  assumes "broadcast_transports E message source (m_transportMap r) 0 r = (f, r')" and "shape_ok r"
  obtains log where "r' = r\<lparr>sent := sent r @ log\<rparr>" and "f = 0 \<or> (\<exists>h. f \<in> members r h)"
proof -
  from broadcast_transports_spec [OF assms(1)] obtain log where log: "r' = r\<lparr>sent := sent r @ log\<rparr>"
    and f: "f = 0 \<or> (\<exists>h ctx. (h, ctx) \<in> set (m_transportMap r) \<and> f \<in> set (keys (clientMap ctx)))" by blast
  have "f \<in> members r h" if "(h, ctx) \<in> set (m_transportMap r)" "f \<in> set (keys (clientMap ctx))" for h ctx
    using that assms(2) by (simp add: members_def shape_ok_def)
  with f have "f = 0 \<or> (\<exists>h. f \<in> members r h)" by blast
  with log show thesis by (rule that)
qed

end
