(* ===== verification/Router_Remove.thy ===== *)
theory Router_Remove
  imports Router_Inv
begin

text \<open>
  The contract of \<^verbatim>\<open>RemoveClient\<close> and \<^verbatim>\<open>SendBroadcastMessage\<close>: under the invariant the mutual recursion
  ends, no invalidated iterator is used, and clients only disappear.
\<close>

subsection \<open>What a removal may change\<close>

text \<open>Clients and members only disappear, messages are only added, everything else stays.\<close>

definition shrinks :: "RouterCore \<Rightarrow> RouterCore \<Rightarrow> bool" where
  "shrinks r r' \<longleftrightarrow>
     clients r' \<subseteq>\<^sub>m clients r \<and> (\<forall>h. members r' h \<subseteq> members r h)
     \<and> (\<forall>h. map_option pTransport (transports r' h) = map_option pTransport (transports r h))
     \<and> keys (m_transportMap r') = keys (m_transportMap r)
     \<and> (m_pClientManager r' = None \<longleftrightarrow> m_pClientManager r = None)
     \<and> rc_clientId r' = rc_clientId r \<and> m_lastTransportId r' = m_lastTransportId r
     \<and> m_lastClientPingTimeInMs r' = m_lastClientPingTimeInMs r \<and> m_clientTimeoutCount r' = m_clientTimeoutCount r
     \<and> thread_queue r' = thread_queue r \<and> thread_active r' = thread_active r
     \<and> transport_handle r' = transport_handle r \<and> (\<exists>log. sent r' = sent r @ log)"

lemma shrinks_refl [simp]: "shrinks r r"
  by (simp add: shrinks_def)

lemma shrinks_trans: "shrinks r r' \<Longrightarrow> shrinks r' r'' \<Longrightarrow> shrinks r r''"
  unfolding shrinks_def by (auto intro: map_le_trans)

lemma shrinks_sent [simp]: "shrinks r (r\<lparr>sent := sent r @ log\<rparr>)"
  by (simp add: shrinks_def)

lemma shrinksD:
  assumes "shrinks r r'"
  shows "clients r' c = Some ctx \<Longrightarrow> clients r c = Some ctx" and "clients r c = None \<Longrightarrow> clients r' c = None"
    and "c \<in> members r' h \<Longrightarrow> c \<in> members r h"
proof -
  have le: "clients r' \<subseteq>\<^sub>m clients r" and m: "members r' h \<subseteq> members r h"
    using assms by (simp_all add: shrinks_def)
  show "clients r' c = Some ctx \<Longrightarrow> clients r c = Some ctx" using le by (metis domI map_le_def)
  show "clients r c = None \<Longrightarrow> clients r' c = None" using le by (metis domI map_le_def not_Some_eq)
  show "c \<in> members r' h \<Longrightarrow> c \<in> members r h" using m by blast
qed

subsection \<open>One step of a removal\<close>

lemma transports_forget:
  "transports (forget_client h c r) = (transports r)(h := map_option
     (\<lambda>tr. if pTransport tr \<noteq> None then tr\<lparr>clientMap := erase c (clientMap tr)\<rparr> else tr) (transports r h))"
  by (simp add: forget_client_def)

lemma forget_fields [simp]:
  "m_clientMap (forget_client h c r) = m_clientMap r" "m_pClientManager (forget_client h c r) = m_pClientManager r"
  "sent (forget_client h c r) = sent r"
  by (simp_all add: forget_client_def)

lemma members_forget:
  assumes "shape_ok r"
  shows "members (forget_client h c r) = (members r)(h := members r h - {c})"
proof
  fix h'
  show "members (forget_client h c r) h' = ((members r)(h := members r h - {c})) h'"
  proof (cases "transports r h")
    case (Some ctx)
    with shape_transportD(4) [OF assms Some] show ?thesis
      by (auto simp: members_def transports_forget)
  qed (simp add: members_def transports_forget)
qed

lemma shape_forget:
  assumes "shape_ok r"
  shows "shape_ok (forget_client h c r)"
  unfolding shape_ok_def
proof (intro conjI allI impI)
  fix h' ctx assume t: "transports (forget_client h c r) h' = Some ctx"
  obtain ctx0 where t0: "transports r h' = Some ctx0" and p: "pTransport ctx = pTransport ctx0"
    and d: "distinct (keys (clientMap ctx0)) \<longrightarrow> distinct (keys (clientMap ctx))"
    using t by (auto simp: transports_forget split: if_splits)
  note s = shape_transportD [OF assms t0]
  show "distinct (keys (clientMap ctx))" using d s(1) by blast
  show "h' \<noteq> 0" by (rule s(2))
  show "h' \<le> m_lastTransportId (forget_client h c r)" using s(3) by (simp add: forget_client_def)
  show "\<exists>t. pTransport ctx = Some t \<and> transport_handle (forget_client h c r) t = h'"
    using s(4) p by (simp add: forget_client_def)
qed (use assms in \<open>simp_all add: shape_ok_def forget_client_def\<close>)

lemma shrinks_forget:
  assumes "shape_ok r"
  shows "shrinks r (forget_client h c r)"
proof -
  have "map_option pTransport (transports (forget_client h c r) h') = map_option pTransport (transports r h')" for h'
    by (cases "transports r h") (auto simp: transports_forget)
  moreover have "members (forget_client h c r) h' \<subseteq> members r h'" for h'
    by (auto simp: members_forget [OF assms])
  ultimately show ?thesis by (simp add: shrinks_def) (simp add: forget_client_def)
qed

definition entries :: "RouterCore \<Rightarrow> nat" where
  "entries r = sum_list (map (\<lambda>e. length (clientMap (snd e))) (m_transportMap r))"

lemma sum_list_strict:
  fixes f g :: "'a \<Rightarrow> nat"
  assumes "\<forall>x \<in> set xs. g x \<le> f x" and "y \<in> set xs" and "g y < f y"
  shows "sum_list (map g xs) < sum_list (map f xs)"
  using assms
proof (induction xs)
  case (Cons x xs)
  have le: "sum_list (map g xs) \<le> sum_list (map f xs)" using Cons.prems(1) by (intro sum_list_mono) simp
  show ?case
  proof (cases "y \<in> set xs")
    case True
    with Cons show ?thesis by (simp add: add_le_less_mono)
  next
    case False
    with Cons.prems le show ?thesis by (simp add: add_less_le_mono)
  qed
qed simp

lemma entries_forget:
  assumes shape: "shape_ok r" and c: "c \<in> members r h"
  shows "entries (forget_client h c r) < entries r"
proof -
  from c obtain ctx where ctx: "transports r h = Some ctx" and k: "c \<in> set (keys (clientMap ctx))"
    by (auto simp: members_def split: option.splits)
  from ctx have el: "(h, ctx) \<in> set (m_transportMap r)" by (rule map_of_SomeD)
  have t: "pTransport ctx \<noteq> None" using shape_transportD(4) [OF shape ctx] by blast
  let ?f = "\<lambda>e :: TransportHandle \<times> TransportContext. length (clientMap (snd e))"
  let ?g = "\<lambda>e. length (clientMap (if fst e = h \<and> pTransport (snd e) \<noteq> None
                 then (snd e)\<lparr>clientMap := erase c (clientMap (snd e))\<rparr> else snd e))"
  have "entries (forget_client h c r) = sum_list (map ?g (m_transportMap r))"
    by (auto simp: entries_def forget_client_def adjust_def comp_def split_beta intro!: arg_cong [where f = sum_list] map_cong)
  also have "\<dots> < sum_list (map ?f (m_transportMap r))"
  proof (rule sum_list_strict [OF _ el])
    show "\<forall>x\<in>set (m_transportMap r). ?g x \<le> ?f x" by (auto simp: erase_def)
    have "length (filter (\<lambda>e. fst e \<noteq> c) (clientMap ctx)) < length (clientMap ctx)"
      using k by (auto intro!: length_filter_less)
    then show "?g (h, ctx) < ?f (h, ctx)" using t by (simp add: erase_def)
  qed
  finally show ?thesis by (simp add: entries_def)
qed

lemma links_introI:
  assumes "\<And>c ctx. clients r c = Some ctx \<Longrightarrow> c \<noteq> 0"
    and "\<And>c ctx. clients r c = Some ctx \<Longrightarrow> c \<notin> X \<Longrightarrow> c \<in> members r (handle_of ctx)"
    and "\<And>c ctx. clients r c = Some ctx \<Longrightarrow> c \<notin> X \<Longrightarrow> registeredClient ctx \<Longrightarrow> c \<in> used_ids E r"
    and "\<And>h c. c \<in> members r h \<Longrightarrow> c \<noteq> 0 \<and> c \<notin> X"
    and "\<And>h c. c \<in> members r h \<Longrightarrow> clients r c = None \<Longrightarrow> c \<in> used_ids E r"
    and "\<And>h c ctx. c \<in> members r h \<Longrightarrow> clients r c = Some ctx \<Longrightarrow> handle_of ctx \<noteq> h \<Longrightarrow>
           \<not> registeredClient ctx \<and> c \<in> used_ids E r"
    and "X \<subseteq> dom (clients r)"
  shows "links_ok E X r"
  unfolding links_ok_def using assms by (auto split: option.splits)

text \<open>A registered client that leaves its transport is in no transport's map any more.\<close>

lemma links_retire:
  assumes l: "links_ok E X r" and shape: "shape_ok r" and c: "clients r c = Some ctx" "c \<notin> X" "registeredClient ctx"
    and r2: "r2 = (forget_client (handle_of ctx) c r)\<lparr>m_pClientManager := Some m'\<rparr>"
    and u: "used_ids E r - {c} \<subseteq> used_ids E r2"
  shows "links_ok E (insert c X) r2"
proof -
  have cl: "clients r2 = clients r" and mem: "members r2 = (members r)(handle_of ctx := members r (handle_of ctx) - {c})"
    using members_forget [OF shape, of "handle_of ctx" c] by (simp_all add: r2 members_def fun_eq_iff)
  have gone: "c \<notin> members r2 h" for h
    using links_memberD(4) [OF l _ c(1), of h] c(3) by (auto simp: mem)
  have sub: "d \<in> members r h" if "d \<in> members r2 h" for d h using that by (simp add: mem split: if_splits)
  show ?thesis
  proof (rule links_introI)
    fix d k assume d: "clients r2 d = Some k"
    show "d \<noteq> 0" using links_clientD(1) [OF l] d by (simp add: cl)
    assume "d \<notin> insert c X"
    then show "d \<in> members r2 (handle_of k)" and "registeredClient k \<Longrightarrow> d \<in> used_ids E r2"
      using links_clientD(2,3) [OF l, of d k] d u by (auto simp: cl mem)
  next
    fix h d assume d: "d \<in> members r2 h"
    have "d \<noteq> c" using d gone by blast
    note m = links_memberD [OF l sub [OF d]]
    show "d \<noteq> 0 \<and> d \<notin> insert c X" using m \<open>d \<noteq> c\<close> by blast
    show "clients r2 d = None \<Longrightarrow> d \<in> used_ids E r2" using m(3) \<open>d \<noteq> c\<close> u by (auto simp: cl)
    show "\<not> registeredClient k \<and> d \<in> used_ids E r2" if "clients r2 d = Some k" "handle_of k \<noteq> h" for k
      using m(4) [of k] that \<open>d \<noteq> c\<close> u by (auto simp: cl)
  next
    show "insert c X \<subseteq> dom (clients r2)" using l c(1) by (auto simp: cl links_ok_def)
  qed
qed

lemma links_erase:
  assumes l: "links_ok E (insert c X) r" and "c \<notin> X"
  shows "links_ok E X (r\<lparr>m_clientMap := erase c (m_clientMap r)\<rparr>)"
proof -
  let ?r = "r\<lparr>m_clientMap := erase c (m_clientMap r)\<rparr>"
  have mem: "members ?r = members r" and u: "used_ids E ?r = used_ids E r"
    by (simp_all add: members_def used_ids_def fun_eq_iff)
  show ?thesis
  proof (rule links_introI)
    fix d k assume d: "clients ?r d = Some k"
    then have "clients r d = Some k" "d \<noteq> c" by (auto split: if_splits)
    then show "d \<noteq> 0" and "d \<notin> X \<Longrightarrow> d \<in> members ?r (handle_of k)"
      and "d \<notin> X \<Longrightarrow> registeredClient k \<Longrightarrow> d \<in> used_ids E ?r"
      using links_clientD [OF l, of d k] unfolding mem u by auto
  next
    fix h d assume d: "d \<in> members ?r h"
    note m = links_memberD [OF l d [unfolded mem]]
    show "d \<noteq> 0 \<and> d \<notin> X" using m by blast
    show "clients ?r d = None \<Longrightarrow> d \<in> used_ids E ?r" using m(2,3) unfolding u by auto
    show "\<not> registeredClient k \<and> d \<in> used_ids E ?r" if "clients ?r d = Some k" "handle_of k \<noteq> h" for k
      using m(4) [of k] that unfolding u by (auto split: if_splits)
  next
    show "X \<subseteq> dom (clients ?r)" using l assms(2) by (auto simp: links_ok_def)
  qed
qed

lemma links_drop:
  assumes l: "links_ok E X r" and shape: "shape_ok r" and c: "clients r c = Some ctx" "c \<notin> X" "\<not> registeredClient ctx"
  defines "r1 \<equiv> forget_client (handle_of ctx) c r"
  shows "links_ok E X (r1\<lparr>m_clientMap := erase c (m_clientMap r1)\<rparr>)" (is "links_ok E X ?r")
proof -
  have cl: "clients ?r = (clients r)(c := None)" by (simp add: r1_def)
  have mem: "members ?r = (members r)(handle_of ctx := members r (handle_of ctx) - {c})"
    using members_forget [OF shape, of "handle_of ctx" c] by (simp add: r1_def members_def fun_eq_iff)
  have u: "used_ids E ?r = used_ids E r" by (simp add: used_ids_def r1_def)
  have sub: "d \<in> members r h \<and> (d = c \<longrightarrow> h \<noteq> handle_of ctx)" if "d \<in> members ?r h" for d h
    using that by (auto simp: mem split: if_splits)
  show ?thesis
  proof (rule links_introI)
    fix d k assume d: "clients ?r d = Some k"
    then have "clients r d = Some k" "d \<noteq> c" unfolding cl by (auto split: if_splits)
    then show "d \<noteq> 0" and "d \<notin> X \<Longrightarrow> d \<in> members ?r (handle_of k)"
      and "d \<notin> X \<Longrightarrow> registeredClient k \<Longrightarrow> d \<in> used_ids E ?r"
      using links_clientD [OF l, of d k] unfolding mem u by auto
  next
    fix h d assume d: "d \<in> members ?r h"
    note m = links_memberD [OF l conjunct1 [OF sub [OF d]]]
    show "d \<noteq> 0 \<and> d \<notin> X" using m by blast
    show "clients ?r d = None \<Longrightarrow> d \<in> used_ids E ?r"
      using m(3) m(4) [of ctx] c(1) sub [OF d] unfolding u cl by (cases "d = c") auto
    show "\<not> registeredClient k \<and> d \<in> used_ids E ?r" if "clients ?r d = Some k" "handle_of k \<noteq> h" for k
      using m(4) [of k] that unfolding u cl by (auto split: if_splits)
  next
    show "X \<subseteq> dom (clients ?r)" using l c(2) unfolding cl by (auto simp: links_ok_def)
  qed
qed

subsection \<open>Removal and broadcast\<close>

lemma shape_erase: "shape_ok r \<Longrightarrow> shape_ok (r\<lparr>m_clientMap := erase c (m_clientMap r)\<rparr>)"
  by (simp add: shape_ok_def)

lemma shrinks_erase: "shrinks r (r\<lparr>m_clientMap := erase c (m_clientMap r)\<rparr>)"
  by (simp add: shrinks_def members_def map_le_def)

lemma manager_presentD:
  assumes "manager_present E r" and "clients r c = Some ctx"
  obtains m where "m_pClientManager r = Some m" and "manager_ok (idHash E) m"
  using assms by (auto simp: manager_present_def split: option.splits)

lemma RemoveClient_unregistered:
  assumes inv: "removing_inv E X r" and c: "clients r c = Some ctx" "c \<notin> X" "\<not> registeredClient ctx"
  defines "r1 \<equiv> forget_client (handle_of ctx) c r"
  defines "r' \<equiv> r1\<lparr>m_clientMap := erase c (m_clientMap r1)\<rparr>"
  shows "RemoveClient E c r = Some r'" and "removing_inv E X r'" and "shrinks r r'"
proof -
  have shape: "shape_ok r" and links: "links_ok E X r" and mgr: "manager_present E r"
    using inv by (simp_all add: removing_inv_def)
  show "RemoveClient E c r = Some r'" using c by (subst RemoveClient.simps) (simp add: r'_def r1_def)
  obtain m where "m_pClientManager r = Some m" "manager_ok (idHash E) m" by (rule manager_presentD [OF mgr c(1)])
  then have "manager_present E r'" by (simp add: manager_present_def r'_def r1_def)
  moreover have "shape_ok r'" unfolding r'_def r1_def by (intro shape_erase shape_forget shape)
  ultimately show "removing_inv E X r'"
    using links_drop [OF links shape c] by (simp add: removing_inv_def r'_def r1_def)
  show "shrinks r r'" unfolding r'_def
    by (rule shrinks_trans [OF shrinks_forget [OF shape, of "handle_of ctx" c, folded r1_def] shrinks_erase])
qed

text \<open>The state in which a registered client has left its transport and the manager.\<close>

lemma retire_state:
  assumes inv: "removing_inv E X r" and c: "clients r c = Some ctx" "c \<notin> X" "registeredClient ctx"
    and m: "m_pClientManager r = Some m"
  defines "r2 \<equiv> (forget_client (handle_of ctx) c r)\<lparr>m_pClientManager := Some (snd (UnregisterClient (idHash E) c m))\<rparr>"
  shows "removing_inv E (insert c X) r2" and "shrinks r r2" and "entries r2 < entries r"
proof -
  have shape: "shape_ok r" and links: "links_ok E X r" and ok: "manager_ok (idHash E) m"
    using inv m by (simp_all add: removing_inv_def manager_present_def)
  obtain u m' where u: "UnregisterClient (idHash E) c m = (u, m')" by fastforce
  note spec = listener.unreg_spec [OF ok u]
  have "used_ids E r - {c} \<subseteq> used_ids E r2" using spec m by (auto simp: used_ids_def r2_def u)
  then have "links_ok E (insert c X) r2"
    by (rule links_retire [OF links shape c refl [of r2, unfolded r2_def], folded r2_def])
  moreover have "shape_ok r2" using shape_forget [OF shape, of "handle_of ctx" c] by (simp add: shape_ok_def r2_def)
  moreover have "manager_present E r2" using spec by (simp add: manager_present_def r2_def u)
  ultimately show "removing_inv E (insert c X) r2" by (simp add: removing_inv_def)
  show "shrinks r r2"
    using shrinks_forget [OF shape, of "handle_of ctx" c] m by (simp add: shrinks_def members_def r2_def)
  have "c \<in> members r (handle_of ctx)" using links_clientD(2) [OF links c(1,2)] .
  from entries_forget [OF shape this] show "entries r2 < entries r" by (simp add: entries_def r2_def)
qed

lemma RemoveClient_spec:
  "removing_inv E X r \<Longrightarrow> c \<notin> X \<Longrightarrow>
     \<exists>r'. RemoveClient E c r = Some r' \<and> removing_inv E X r' \<and> clients r' c = None \<and> shrinks r r'"
proof (induction "entries r" arbitrary: X c r rule: less_induct)
  case less
  note inv = less.prems(1) and cX = less.prems(2)
  show ?case
  proof (cases "clients r c")
    case None
    then show ?thesis using inv by (subst RemoveClient.simps) simp
  next
    case (Some ctx)
    show ?thesis
    proof (cases "registeredClient ctx")
      case False
      from RemoveClient_unregistered [OF inv Some cX False] show ?thesis by simp
    next
      case True
      obtain m where m: "m_pClientManager r = Some m"
        using inv by (auto simp: removing_inv_def elim: manager_presentD [OF _ Some])
      let ?r2 = "(forget_client (handle_of ctx) c r)\<lparr>m_pClientManager := Some (snd (UnregisterClient (idHash E) c m))\<rparr>"
      note ret = retire_state [OF inv Some cX True m]
      obtain failed r3 where b: "broadcast_transports E (announce ClientDisconnected c) None
          (m_transportMap ?r2) 0 ?r2 = (failed, r3)" by fastforce
      obtain log where r3: "r3 = ?r2\<lparr>sent := sent ?r2 @ log\<rparr>" and f: "failed = 0 \<or> (\<exists>h. failed \<in> members ?r2 h)"
        by (rule broadcast_pass [OF b]) (use ret(1) in \<open>simp add: removing_inv_def\<close>)
      have inv3: "removing_inv E (insert c X) r3" using ret(1) unfolding r3 by simp
      have "\<exists>r4. (if failed \<noteq> 0 then RemoveClient E failed r3 else Some r3) = Some r4
          \<and> removing_inv E (insert c X) r4 \<and> shrinks r3 r4"
      proof (cases "failed = 0")
        case False
        with f have "failed \<notin> insert c X"
          using links_memberD(2) [of E "insert c X" ?r2] ret(1) by (auto simp: removing_inv_def)
        moreover have "entries r3 < entries r" using ret(3) by (simp add: r3 entries_def)
        ultimately show ?thesis using less.hyps [OF _ inv3] False by auto
      qed (use inv3 in simp)
      then obtain r4 where r4: "(if failed \<noteq> 0 then RemoveClient E failed r3 else Some r3) = Some r4"
        and inv4: "removing_inv E (insert c X) r4" and sh4: "shrinks r3 r4" by blast
      let ?r' = "r4\<lparr>m_clientMap := erase c (m_clientMap r4)\<rparr>"
      have still: "clients r4 c \<noteq> None" using inv4 by (auto simp: removing_inv_def links_ok_def)
      have "RemoveClient E c r = Some ?r'"
        using Some True m b r4 still by (subst RemoveClient.simps) (auto simp: Let_def)
      moreover have "removing_inv E X ?r'"
        using inv4 links_erase [OF _ cX, of E r4] still
        by (auto simp: removing_inv_def shape_erase manager_present_def split: option.splits)
      moreover have "shrinks r ?r'"
        using ret(2) sh4 shrinks_sent [of ?r2 log] shrinks_erase [of r4 c] unfolding r3
        by (meson shrinks_trans)
      ultimately show ?thesis by simp
    qed
  qed
qed

lemma SendBroadcastMessage_spec:
  assumes inv: "removing_inv E X r"
  shows "\<exists>r'. SendBroadcastMessage E message source r = Some r' \<and> removing_inv E X r' \<and> shrinks r r'"
proof -
  obtain failed r1 where b: "broadcast_transports E message source (m_transportMap r) 0 r = (failed, r1)" by fastforce
  obtain log where r1: "r1 = r\<lparr>sent := sent r @ log\<rparr>" and f: "failed = 0 \<or> (\<exists>h. failed \<in> members r h)"
    by (rule broadcast_pass [OF b]) (use inv in \<open>simp add: removing_inv_def\<close>)
  have inv1: "removing_inv E X r1" using inv unfolding r1 by simp
  show ?thesis
  proof (cases "failed = 0")
    case True
    with b inv1 r1 show ?thesis by (auto simp: SendBroadcastMessage_def)
  next
    case False
    with f have "failed \<notin> X" using links_memberD(2) [of E X r] inv by (auto simp: removing_inv_def)
    from RemoveClient_spec [OF inv1 this] False b show ?thesis
      using shrinks_trans [of r r1] shrinks_sent [of r log] unfolding r1 [symmetric]
      by (auto simp: SendBroadcastMessage_def)
  qed
qed

end
