(* ===== verification/Router_Ops.thy ===== *)
theory Router_Ops
  imports Router_Remove
begin

text \<open>Every operation of the router returns and keeps the invariant.\<close>

subsection \<open>Running routers\<close>

text \<open>
  The environment: the client manager finds memory, and a transport does not answer \<^verbatim>\<open>NotReady\<close> for
  ever, which the loops that retry a response would not survive.
\<close>

definition fair :: "environment \<Rightarrow> bool" where
  "fair E \<longleftrightarrow> idMemory E \<and> (\<forall>n. \<exists>k \<ge> n. transmitResult E k \<noteq> NotReady)"

definition running :: "environment \<Rightarrow> RouterCore \<Rightarrow> bool" where
  "running E r \<longleftrightarrow> router_inv E r \<and> m_pClientManager r \<noteq> None"

definition keeps_running :: "environment \<Rightarrow> RouterCore option \<Rightarrow> bool" where
  "keeps_running E x \<longleftrightarrow> (\<exists>r'. x = Some r' \<and> running E r')"

lemma keeps_Some [simp]: "keeps_running E (Some r) \<longleftrightarrow> running E r"
  by (simp add: keeps_running_def)

lemma keeps_bind:
  "keeps_running E x \<Longrightarrow> (\<And>r. running E r \<Longrightarrow> keeps_running E (f r)) \<Longrightarrow> keeps_running E (Option.bind x f)"
  by (auto simp: keeps_running_def)

lemma running_shrinks: "running E r \<Longrightarrow> router_inv E r' \<Longrightarrow> shrinks r r' \<Longrightarrow> running E r'"
  by (simp add: running_def shrinks_def)

lemma running_other_fields [simp]:
  "running E (r\<lparr>sent := log\<rparr>) \<longleftrightarrow> running E r" "running E (r\<lparr>thread_queue := q\<rparr>) \<longleftrightarrow> running E r"
  "running E (r\<lparr>m_lastClientPingTimeInMs := time\<rparr>) \<longleftrightarrow> running E r"
  by (simp_all add: running_def)

lemma keeps_RemoveClient: "running E r \<Longrightarrow> keeps_running E (RemoveClient E c r)"
  using RemoveClient_spec [of E "{}" r c] running_shrinks [of E r] by (auto simp: running_def keeps_running_def)

lemma keeps_SendBroadcastMessage: "running E r \<Longrightarrow> keeps_running E (SendBroadcastMessage E message source r)"
  using SendBroadcastMessage_spec [of E "{}" r message source] running_shrinks [of E r]
  by (auto simp: running_def keeps_running_def)

lemma transmit_until_returns:
  assumes "fair E"
  shows "\<exists>result n. transmit_until E t connection message r
     = Some (result, r\<lparr>sent := sent r @ replicate (Suc n) (t, Directed connection, message)\<rparr>) \<and> result \<noteq> NotReady"
proof -
  obtain k where "k \<ge> length (sent r)" "transmitResult E k \<noteq> NotReady" using assms by (auto simp: fair_def)
  then show ?thesis
  proof (induction "k - length (sent r)" arbitrary: r rule: less_induct)
    case less
    let ?e = "(t, Directed connection, message)"
    let ?r = "r\<lparr>sent := sent r @ [?e]\<rparr>"
    show ?case
    proof (cases "transmitResult E (length (sent r)) = NotReady")
      case True
      then have "k \<noteq> length (sent r)" using less.prems(2) by auto
      then have gt: "length (sent r) < k" using less.prems(1) by simp
      then have "k - length (sent ?r) < k - length (sent r)" and "length (sent ?r) \<le> k" by simp_all
      from less.hyps [OF this less.prems(2)] obtain result n where "transmit_until E t connection message ?r
          = Some (result, ?r\<lparr>sent := sent ?r @ replicate (Suc n) ?e\<rparr>)" and nr: "result \<noteq> NotReady"
        by blast
      then have "transmit_until E t connection message r
          = Some (result, r\<lparr>sent := sent r @ replicate (Suc (Suc n)) ?e\<rparr>)"
        using True by (subst transmit_until.simps) (simp add: TransmitMessage_def)
      with nr show ?thesis by blast
    next
      case False
      then have "transmit_until E t connection message r
          = Some (transmitResult E (length (sent r)), r\<lparr>sent := sent r @ replicate (Suc 0) ?e\<rparr>)"
        by (subst transmit_until.simps) (simp add: TransmitMessage_def)
      with False show ?thesis by blast
    qed
  qed
qed

lemma keeps_transmit_until:
  assumes "fair E" and "running E r"
    and "\<And>result r'. running E r' \<Longrightarrow> keeps_running E (f (result, r'))"
  shows "keeps_running E (Option.bind (transmit_until E t connection message r) f)"
proof -
  obtain result n where "transmit_until E t connection message r
     = Some (result, r\<lparr>sent := sent r @ replicate (Suc n) (t, Directed connection, message)\<rparr>)"
    using transmit_until_returns [OF assms(1)] by blast
  with assms(2,3) show ?thesis by simp
qed

subsection \<open>Changes of client contexts\<close>

lemma clients_adjust: "clients (r\<lparr>m_clientMap := adjust c f (m_clientMap r)\<rparr>) d
    = (if d = c then map_option f (clients r c) else clients r d)"
  by simp

lemma inv_adjust:
  assumes inv: "router_inv E r"
    and f: "\<And>k. registeredClient (f k) = registeredClient k \<and> cc_connectionInfo (f k) = cc_connectionInfo k
        \<and> info_clientId (clientInfo (f k)) = info_clientId (clientInfo k)"
  shows "router_inv E (r\<lparr>m_clientMap := adjust c f (m_clientMap r)\<rparr>)" (is "router_inv E ?r")
proof -
  have mem: "members ?r = members r" and u: "used_ids E ?r = used_ids E r"
    by (simp_all add: members_def used_ids_def fun_eq_iff)
  have old: "\<exists>k0. clients r d = Some k0 \<and> registeredClient k = registeredClient k0 \<and> handle_of k = handle_of k0"
    if "clients ?r d = Some k" for d k
    using that f unfolding clients_adjust by (auto split: if_splits)
  have none: "clients r d = None" if "clients ?r d = None" for d
    using that unfolding clients_adjust by (auto split: if_splits)
  have l: "links_ok E {} r" and shape: "shape_ok r" and mgr: "manager_present E r"
    using inv by (simp_all add: removing_inv_def)
  have "links_ok E {} ?r"
  proof (rule links_introI)
    fix d k assume "clients ?r d = Some k"
    with old obtain k0 where k0: "clients r d = Some k0" "registeredClient k = registeredClient k0"
      "handle_of k = handle_of k0" by blast
    then show "d \<noteq> 0" and "d \<in> members ?r (handle_of k)" and "registeredClient k \<Longrightarrow> d \<in> used_ids E ?r"
      using links_clientD [OF l k0(1)] unfolding mem u by auto
  next
    fix h d assume d: "d \<in> members ?r h"
    note m = links_memberD [OF l d [unfolded mem]]
    show "d \<noteq> 0 \<and> d \<notin> {}" using m by simp
    show "d \<in> used_ids E ?r" if "clients ?r d = None" using m(3) none [OF that] unfolding u by blast
    show "\<not> registeredClient k \<and> d \<in> used_ids E ?r" if "clients ?r d = Some k" "handle_of k \<noteq> h" for k
      using m(4) old [OF that(1)] that(2) unfolding u by auto
  qed simp
  moreover have "manager_present E ?r"
    using mgr by (simp add: manager_present_def adjust_def split: option.splits)
  moreover have "info_clientId (clientInfo k) = d" if "clients ?r d = Some k" for d k
    using that shape_clientD [OF shape] f unfolding clients_adjust by (auto split: if_splits)
  then have "shape_ok ?r" using shape by (simp add: shape_ok_def del: map_of_adjust map_of_eq_Some_iff)
  ultimately show ?thesis by (simp add: removing_inv_def)
qed

lemma running_adjust:
  assumes "running E r"
    and "\<And>k. registeredClient (f k) = registeredClient k \<and> cc_connectionInfo (f k) = cc_connectionInfo k
        \<and> info_clientId (clientInfo (f k)) = info_clientId (clientInfo k)"
  shows "running E (r\<lparr>m_clientMap := adjust c f (m_clientMap r)\<rparr>)"
  using assms inv_adjust [of E r f c] by (simp add: running_def)

subsection \<open>New clients\<close>

lemma links_mono:
  assumes l: "links_ok E X r0" and cl: "clients r = clients r0" and mem: "members r = members r0"
    and sub: "used_ids E r0 \<subseteq> used_ids E r"
  shows "links_ok E X r"
proof (rule links_introI)
  fix h c ctx assume "c \<in> members r h" "clients r c = Some ctx" "handle_of ctx \<noteq> h"
  then show "\<not> registeredClient ctx \<and> c \<in> used_ids E r"
    using links_memberD(4) [OF l, of c h ctx] sub by (auto simp: cl mem)
next
  show "X \<subseteq> dom (clients r)" using l by (simp add: cl links_ok_def)
qed (use links_clientD [OF l] links_memberD(1-3) [OF l] sub in \<open>auto simp: cl mem\<close>)

lemma AddClient_effect:
  fixes E :: environment and reg :: bool
  assumes shape: "shape_ok r" and c: "c \<noteq> 0" and t: "transports r h = Some tr" and h: "h = ci_handle connection"
  defines "r' \<equiv> AddClient E c connection reg r"
  shows "members r' = (members r)(h := insert c (members r h))"
    and "clients r c = None \<Longrightarrow> \<exists>k. clients r' = (clients r)(c \<mapsto> k) \<and> handle_of k = h \<and> registeredClient k = reg
           \<and> info_clientId (clientInfo k) = c"
    and "clients r c \<noteq> None \<Longrightarrow> clients r' = clients r"
    and "shape_ok r'" and "m_pClientManager r' = m_pClientManager r" and "used_ids E r' = used_ids E r"
    and "m_clientMap r' \<noteq> []"
proof -
  note st = shape_transportD [OF shape t]
  let ?data = "kNewClientContext
      \<lparr>clientInfo := kUnknownClient\<lparr>info_clientId := c\<rparr>, pingRetryCount := 0,
       receivedPong := True, cc_connectionInfo := connection, registeredClient := reg\<rparr>"
  let ?f = "\<lambda>tr. tr\<lparr>clientMap := emplace (clientOrder E) c connection (clientMap tr)\<rparr>"
  have r': "r' = r\<lparr>m_clientMap := emplace (clientOrder E) c ?data (m_clientMap r),
      m_transportMap := adjust h ?f (m_transportMap r)\<rparr>"
    using c t st(4) h by (auto simp: r'_def AddClient_def)
  show "m_pClientManager r' = m_pClientManager r" and "used_ids E r' = used_ids E r"
    by (simp_all add: r' used_ids_def)
  show "members r' = (members r)(h := insert c (members r h))"
    using t keys_emplace [of "clientOrder E" c connection "clientMap tr"] by (auto simp: r' members_def fun_eq_iff)
  show "\<exists>k. clients r' = (clients r)(c \<mapsto> k) \<and> handle_of k = h \<and> registeredClient k = reg
      \<and> info_clientId (clientInfo k) = c" if "clients r c = None"
    using that h by (intro exI [of _ ?data]) (simp add: r' map_of_emplace)
  show "clients r' = clients r" if "clients r c \<noteq> None" using that by (auto simp: r' map_of_emplace)
  have "m_clientMap r' = emplace (clientOrder E) c ?data (m_clientMap r)" by (simp add: r')
  then have "c \<in> set (keys (m_clientMap r'))" by (simp only: keys_emplace insertI1)
  then show "m_clientMap r' \<noteq> []" by auto
  show "shape_ok r'"
    unfolding shape_ok_def
  proof (intro conjI allI impI)
    fix d k assume "clients r' d = Some k"
    then show "info_clientId (clientInfo k) = d"
      using shape_clientD [OF shape, of d k] by (auto simp: r' map_of_emplace simp del: map_of_eq_Some_iff split: if_splits)
  next
    fix h' ctx assume "transports r' h' = Some ctx"
    then obtain ctx0 where t0: "transports r h' = Some ctx0" and e: "ctx = (if h' = h then ?f ctx0 else ctx0)"
      by (auto simp: r' split: if_splits)
    note s = shape_transportD [OF shape t0]
    show "distinct (keys (clientMap ctx))" using s(1) by (simp add: e distinct_emplace)
    show "h' \<noteq> 0" and "h' \<le> m_lastTransportId r'" using s(2,3) by (simp_all add: r')
    show "\<exists>t. pTransport ctx = Some t \<and> transport_handle r' t = h'" using s(4) by (auto simp: r' e)
  qed (use shape in \<open>simp_all add: r' shape_ok_def distinct_emplace\<close>)
qed

lemma AddClient_nothing:
  assumes "c = 0 \<or> transports r (ci_handle connection) = None"
  shows "AddClient E c connection reg r = r"
  using assms by (auto simp: AddClient_def)

text \<open>
  A client may be added if it is unknown and not registered, or if it is registered under an
  identifier that no one used before it was handed out.
\<close>

lemma AddClient_inv:
  assumes inv: "router_inv E r0" and r: "r = r0\<lparr>m_pClientManager := Some m\<rparr>" and m: "manager_ok (idHash E) m"
    and new: "\<not> reg \<and> clients r0 c = None \<and> used_ids E r0 \<subseteq> ids (idHash E) m
        \<or> reg \<and> c \<notin> used_ids E r0 \<and> ids (idHash E) m = insert c (used_ids E r0)"
  shows "running E (AddClient E c connection reg r)"
proof -
  have l: "links_ok E {} r0" and shape0: "shape_ok r0" using inv by (simp_all add: removing_inv_def)
  have shape: "shape_ok r" and mem: "members r = members r0" and cl: "clients r = clients r0"
    using shape0 by (simp_all add: r shape_ok_def members_def fun_eq_iff)
  have u: "used_ids E r = ids (idHash E) m" by (simp add: r used_ids_def)
  have sub: "used_ids E r0 \<subseteq> used_ids E r" using new u by auto
  show ?thesis
  proof (cases "c \<noteq> 0 \<and> transports r (ci_handle connection) \<noteq> None")
    case False
    have "links_ok E {} r" by (rule links_mono [OF l cl mem sub])
    then have "running E r" using shape m by (simp add: running_def removing_inv_def manager_present_def r)
    with False show ?thesis by (simp add: AddClient_nothing)
  next
    case True
    let ?r = "AddClient E c connection reg r" and ?h = "ci_handle connection"
    obtain tr where t: "transports r ?h = Some tr" using True by blast
    note eff = AddClient_effect [OF shape conjunct1 [OF True] t refl, of E reg]
    have usd: "used_ids E ?r = used_ids E r" by (rule eff(6))
    have "links_ok E {} ?r"
    proof (cases "clients r c")
      case None
      then obtain k where k: "clients ?r = (clients r)(c \<mapsto> k)" "handle_of k = ?h" "registeredClient k = reg"
        using eff(2) by blast
      have elsewhere: "d \<in> used_ids E r0" if "d = c" "d \<in> members r0 h" for d h
        using that links_memberD(3) [OF l that(2)] None by (simp add: cl)
      show ?thesis
      proof (rule links_introI)
        fix d k' assume d: "clients ?r d = Some k'"
        then show "d \<noteq> 0" and "d \<in> members ?r (handle_of k')" and "registeredClient k' \<Longrightarrow> d \<in> used_ids E ?r"
          using k True new links_clientD [OF l, of d k'] sub unfolding usd eff(1) u
          by (auto simp: mem cl split: if_splits)
      next
        fix h d assume d: "d \<in> members ?r h"
        then have d0: "d = c \<and> h = ?h \<or> d \<in> members r0 h" unfolding eff(1) by (auto simp: mem split: if_splits)
        then show "d \<noteq> 0 \<and> d \<notin> {}" using True links_memberD(1) [OF l] by auto
        show "clients ?r d = None \<Longrightarrow> d \<in> used_ids E ?r"
          using d0 k(1) links_memberD(3) [OF l, of d h] sub unfolding usd by (auto simp: cl split: if_splits)
        show "\<not> registeredClient k' \<and> d \<in> used_ids E ?r" if "clients ?r d = Some k'" "handle_of k' \<noteq> h" for k'
          using d0 that k elsewhere [of d h] links_memberD(4) [OF l, of d h k'] sub new unfolding usd
          by (auto simp: cl split: if_splits)
      qed simp
    next
      case (Some k)
      then have reg: "reg" and unused: "c \<notin> used_ids E r0" using new by (auto simp: cl)
      then have unreg: "\<not> registeredClient k" using links_clientD(3) [OF l, of c k] Some by (auto simp: cl)
      have cl': "clients ?r = clients r0" using eff(3) Some by (simp add: cl)
      show ?thesis
      proof (rule links_introI)
        fix d k' assume d: "clients ?r d = Some k'"
        then show "d \<noteq> 0" and "d \<in> members ?r (handle_of k')" and "registeredClient k' \<Longrightarrow> d \<in> used_ids E ?r"
          using links_clientD [OF l, of d k'] sub unfolding usd eff(1) cl' by (auto simp: mem)
      next
        fix h d assume d: "d \<in> members ?r h"
        then have d0: "d = c \<or> d \<in> members r0 h" unfolding eff(1) by (auto simp: mem split: if_splits)
        then show "d \<noteq> 0 \<and> d \<notin> {}" using True links_memberD(1) [OF l] by auto
        show "clients ?r d = None \<Longrightarrow> d \<in> used_ids E ?r"
          using d0 Some links_memberD(3) [OF l, of d h] sub unfolding usd cl' by (auto simp: cl)
        show "\<not> registeredClient k' \<and> d \<in> used_ids E ?r" if "clients ?r d = Some k'" "handle_of k' \<noteq> h" for k'
          using d0 that Some unreg reg new links_memberD(4) [OF l, of d h k'] sub u unfolding usd cl'
          by (auto simp: cl)
      qed simp
    qed
    moreover have "m_pClientManager ?r = Some m" using eff(5) by (simp add: r)
    ultimately show ?thesis using eff(4) m by (simp add: running_def removing_inv_def manager_present_def)
  qed
qed

lemma running_AddClient_unknown:
  assumes "running E r" and "clients r c = None"
  shows "running E (AddClient E c connection False r)"
proof -
  obtain m where m: "m_pClientManager r = Some m" using assms(1) by (auto simp: running_def)
  have inv: "router_inv E r" and ok: "manager_ok (idHash E) m"
    using assms(1) m by (auto simp: running_def removing_inv_def manager_present_def)
  have "r = r\<lparr>m_pClientManager := Some m\<rparr>" using m by simp
  from AddClient_inv [OF inv this ok, of False c connection] assms(2) m show ?thesis
    by (simp add: used_ids_def)
qed

subsection \<open>System messages\<close>

lemma keeps_handle_system_message:
  assumes run: "running E r"
  shows "\<exists>q r'. handle_system_message E mc r = Some (q, r') \<and> running E r'"
proof -
  let ?src = "srcClientId (header (mc_message mc))"
  let ?r1 = "AddClient E ?src (mc_connectionInfo mc) False r"
  obtain code where code: "SystemMessage_of (messageId (header (mc_message mc))) = code" by blast
  show ?thesis
  proof (cases "clients r ?src")
    case None
    then have new: "running E ?r1" by (rule running_AddClient_unknown [OF run])
    show ?thesis
      using None run new by (cases code) (auto simp: handle_system_message_def code FindClientById_def)
  next
    case (Some k)
    obtain r2 where r2: "RemoveClient E ?src r = Some r2" "running E r2"
      using keeps_RemoveClient [OF run] by (auto simp: keeps_running_def)
    have pong: "running E (r\<lparr>m_clientMap := adjust ?src (\<lambda>c. c\<lparr>receivedPong := True\<rparr>) (m_clientMap r)\<rparr>)"
      by (rule running_adjust [OF run]) simp
    have info: "running E (r\<lparr>m_clientMap := adjust ?src (identify_client (payload (mc_message mc))) (m_clientMap r)\<rparr>)"
      by (rule running_adjust [OF run]) (simp add: identify_client_def)
    show ?thesis
      using Some run r2 pong info
      by (cases code) (auto simp: handle_system_message_def code FindClientById_def)
  qed
qed

lemma keeps_ProcessRouterMessage:
  assumes run: "running E r"
  shows "keeps_running E (ProcessRouterMessage E mc r)"
proof -
  obtain q r1 where h: "handle_system_message E mc r = Some (q, r1)" and r1: "running E r1"
    using keeps_handle_system_message [OF run] by blast
  show ?thesis
    using run r1
    by (auto simp: ProcessRouterMessage_def h Let_def TransmitMessage_def keeps_RemoveClient split: option.splits)
qed

subsection \<open>The periodic update\<close>

text \<open>A client that has timed out goes through exactly the steps of \<^verbatim>\<open>RemoveClient\<close>.\<close>

lemma update_each_step:
  assumes inv: "router_inv E r" and c: "clients r c = Some k0"
  defines "r1 \<equiv> r\<lparr>m_clientMap := adjust c age_client (m_clientMap r)\<rparr>"
  shows "update_each E (c # cs) r =
    Option.bind (if pingRetryCount (age_client k0) > m_clientTimeoutCount r then RemoveClient E c r1 else Some r1)
      (update_each E cs)"
proof (cases "pingRetryCount (age_client k0) > m_clientTimeoutCount r")
  case True
  have cl: "clients r1 c = Some (age_client k0)" using c by (simp add: r1_def)
  have count: "m_clientTimeoutCount r1 = m_clientTimeoutCount r" by (simp add: r1_def)
  have keep: "clients (forget_client h d r1) c \<noteq> None" for h d using cl by simp
  show ?thesis
  proof (cases "registeredClient (age_client k0)")
    case False
    with c cl keep True count show ?thesis
      by (subst RemoveClient.simps) (simp add: Let_def r1_def [symmetric])
  next
    case True': True
    show ?thesis
    proof (cases "m_pClientManager r1")
      case None
      with c cl True True' count show ?thesis by (subst RemoveClient.simps) (simp add: Let_def r1_def [symmetric])
    next
      case (Some m)
      with c cl True True' count show ?thesis
        by (subst RemoveClient.simps)
          (auto simp: Let_def r1_def [symmetric] SendBroadcastMessage_def split_beta split: bind_splits)
    qed
  qed
qed (use c in \<open>simp add: r1_def Let_def\<close>)

lemma age_keeps: "registeredClient (age_client k) = registeredClient k \<and> cc_connectionInfo (age_client k) = cc_connectionInfo k
    \<and> info_clientId (clientInfo (age_client k)) = info_clientId (clientInfo k)"
  by (simp add: age_client_def)

lemma keeps_update_each: "running E r \<Longrightarrow> keeps_running E (update_each E cs r)"
proof (induction cs arbitrary: r)
  case (Cons c cs)
  show ?case
  proof (cases "clients r c")
    case None
    with Cons show ?thesis by simp
  next
    case (Some k0)
    let ?r1 = "r\<lparr>m_clientMap := adjust c age_client (m_clientMap r)\<rparr>"
    have r1: "running E ?r1" by (rule running_adjust [OF Cons.prems age_keeps])
    have inv: "router_inv E r" using Cons.prems by (simp add: running_def)
    show ?thesis
      unfolding update_each_step [OF inv Some]
      by (rule keeps_bind) (use r1 keeps_RemoveClient Cons.IH in auto)
  qed
qed simp

lemma keeps_UpdateClients: "running E r \<Longrightarrow> keeps_running E (UpdateClients E now r)"
  by (auto simp: UpdateClients_def intro!: keeps_bind keeps_update_each keeps_SendBroadcastMessage)

subsection \<open>Client management messages\<close>

lemma keeps_accept_client:
  assumes fair: "fair E" and run: "running E r"
  shows "\<exists>result i r'. accept_client E mc r = Some (result, i, r') \<and> running E r'"
proof (cases "unat (payloadSize (header (mc_message mc))) = sizeof_ConnectRequestPayload
    \<and> FindExternalClientByConnection E (mc_connectionInfo mc) r = None")
  case True
  obtain m where m: "m_pClientManager r = Some m" using run by (auto simp: running_def)
  have inv: "router_inv E r" and ok: "manager_ok (idHash E) m"
    using run m by (auto simp: running_def removing_inv_def manager_present_def)
  have used: "used_ids E r = ids (idHash E) m" by (simp add: used_ids_def m)
  obtain result written m' where reg: "RegisterClient (idHash E) True m = Some (result, written, m')"
    using listener.reg_returns [OF ok] by blast
  have mem: "idMemory E" using fair by (simp add: fair_def)
  show ?thesis
  proof (cases written)
    case None
    note f = listener.reg_failure [OF ok reg [unfolded None]]
    have "links_ok E {} (r\<lparr>m_pClientManager := Some m'\<rparr>)"
      by (rule links_mono [of E "{}" r])
        (use inv f used in \<open>simp_all add: removing_inv_def members_def fun_eq_iff used_ids_def\<close>)
    then have "running E (r\<lparr>m_pClientManager := Some m'\<rparr>)"
      using inv f by (simp add: running_def removing_inv_def shape_ok_def manager_present_def)
    with f True m reg mem None show ?thesis by (auto simp: accept_client_def)
  next
    case (Some i)
    note f = listener.reg_success [OF ok reg [unfolded Some]]
    let ?r1 = "AddClient E i (mc_connectionInfo mc) True (r\<lparr>m_pClientManager := Some m'\<rparr>)"
    have "running E ?r1"
      by (rule AddClient_inv [OF inv refl]) (use f used in auto)
    then obtain r2 where "SendBroadcastMessage E (announce ClientConnected i) None ?r1 = Some r2" "running E r2"
      using keeps_SendBroadcastMessage [of E ?r1 "announce ClientConnected i" None] by (auto simp: keeps_running_def)
    with f True m reg mem Some show ?thesis by (auto simp: accept_client_def)
  qed
next
  case False
  with run show ?thesis by (auto simp: accept_client_def split: option.splits)
qed

lemma map_option_snd_bind: "map_option snd x = Option.bind x (\<lambda>(_, b). Some b)"
  by (cases x) auto

lemma keeps_ProcessClientManagementMessage:
  assumes fair: "fair E" and run: "running E r"
  shows "keeps_running E (ProcessClientManagementMessage E mc r)"
proof (cases "Option.bind (transports r (ci_handle (mc_connectionInfo mc))) pTransport")
  case None
  with run show ?thesis by (simp add: ProcessClientManagementMessage_def)
next
  case (Some t)
  obtain result i r1 where acc: "accept_client E mc r = Some (result, i, r1)" and r1: "running E r1"
    using keeps_accept_client [OF fair run] by blast
  note un = keeps_transmit_until [OF fair run]
  show ?thesis
    unfolding ProcessClientManagementMessage_def Let_def Some option.case
    by (cases "ManagementMessage_of (messageId (header (mc_message mc)))")
      (auto simp: map_option_snd_bind acc TransmitMessage_def run r1 keeps_RemoveClient intro!: un)
qed

subsection \<open>The router's thread\<close>

lemma keeps_process_queue: "fair E \<Longrightarrow> running E r \<Longrightarrow> keeps_running E (process_queue E q r)"
proof (induction q arbitrary: r)
  case (Cons mc q)
  then show ?case
    using keeps_ProcessClientManagementMessage [OF Cons.prems(1)] keeps_ProcessRouterMessage
    by (auto intro!: keeps_bind)
qed simp

lemma keeps_router_round: "fair E \<Longrightarrow> running E r \<Longrightarrow> keeps_running E (router_round E now r)"
  by (auto simp: router_round_def intro!: keeps_bind keeps_process_queue keeps_UpdateClients)

end
