(* ===== verification/Router_System.thy ===== *)
theory Router_System
  imports Router_Ops
begin

text \<open>
  Transports, start and stop, routing through the per-thread caches, and the router as a whole: the
  reachable states of a router with its receiving threads.
\<close>

subsection \<open>Removing a transport\<close>

lemma remove_clients_spec:
  "router_inv E r \<Longrightarrow> \<exists>r'. remove_clients E cs r = Some r' \<and> router_inv E r' \<and> shrinks r r' \<and> (\<forall>c \<in> set cs. clients r' c = None)"
proof (induction cs arbitrary: r)
  case (Cons c cs)
  obtain r1 where r1: "RemoveClient E c r = Some r1" "router_inv E r1" "clients r1 c = None" "shrinks r r1"
    using RemoveClient_spec [OF Cons.prems, of c] by blast
  obtain r2 where r2: "remove_clients E cs r1 = Some r2" "router_inv E r2" "shrinks r1 r2" "\<forall>d \<in> set cs. clients r2 d = None"
    using Cons.IH [OF r1(2)] by blast
  have "clients r2 c = None" by (rule shrinksD(2) [OF r2(3) r1(3)])
  with r1 r2 show ?case by (auto intro: shrinks_trans)
qed simp

lemma inv_drop_transport:
  assumes inv: "router_inv E r" and t: "transports r h = Some ctx"
    and none: "\<And>c k. clients r c = Some k \<Longrightarrow> handle_of k \<noteq> h" and th: "transport_handle r t = h"
  defines "r' \<equiv> r\<lparr>m_transportMap := erase h (m_transportMap r), transport_handle := (transport_handle r)(t := 0)\<rparr>"
  shows "router_inv E r'"
proof -
  have l: "links_ok E {} r" and shape: "shape_ok r" and mgr: "manager_present E r"
    using inv by (simp_all add: removing_inv_def)
  have mem: "members r' h' = (if h' = h then {} else members r h')" for h' by (simp add: members_def r'_def)
  have cl: "clients r' = clients r" and u: "used_ids E r' = used_ids E r" by (simp_all add: r'_def used_ids_def)
  have "links_ok E {} r'"
  proof (rule links_introI)
    fix c k assume "clients r' c = Some k"
    then show "c \<noteq> 0" and "c \<in> members r' (handle_of k)" and "registeredClient k \<Longrightarrow> c \<in> used_ids E r'"
      using links_clientD [OF l, of c k] none [of c k] by (auto simp: cl mem u)
  next
    fix h' c assume "c \<in> members r' h'"
    then have "c \<in> members r h'" by (simp add: mem split: if_splits)
    note m = links_memberD [OF l this]
    show "c \<noteq> 0 \<and> c \<notin> {}" using m(1) by simp
    show "clients r' c = None \<Longrightarrow> c \<in> used_ids E r'" using m(3) by (simp add: cl u)
    show "\<not> registeredClient k \<and> c \<in> used_ids E r'" if "clients r' c = Some k" "handle_of k \<noteq> h'" for k
      using m(4) [of k] that by (auto simp: cl u)
  qed simp
  moreover have "manager_present E r'" using mgr by (simp add: manager_present_def r'_def split: option.splits)
  moreover have "shape_ok r'"
    unfolding shape_ok_def
  proof (intro conjI allI impI)
    fix h' ctx' assume "transports r' h' = Some ctx'"
    then have h': "h' \<noteq> h" "transports r h' = Some ctx'" by (auto simp: r'_def split: if_splits)
    note s = shape_transportD [OF shape h'(2)]
    show "distinct (keys (clientMap ctx'))" "h' \<noteq> 0" "h' \<le> m_lastTransportId r'" using s(1-3) by (simp_all add: r'_def)
    show "\<exists>t. pTransport ctx' = Some t \<and> transport_handle r' t = h'" using s(4) th h'(1) by (auto simp: r'_def)
  qed (use shape in \<open>simp_all add: shape_ok_def r'_def\<close>)
  ultimately show ?thesis by (simp add: removing_inv_def)
qed

abbreviation transport_at :: "RouterCore \<Rightarrow> TransportHandle \<Rightarrow> transport option option" where
  "transport_at r h \<equiv> map_option pTransport (transports r h)"

lemma RemoveTransport_spec:
  assumes inv: "router_inv E r"
  shows "\<exists>result r'. RemoveTransport E t r = Some (result, r') \<and> router_inv E r'
    \<and> (\<forall>h. transport_at r' h = (if h = transport_handle r t then None else transport_at r h))
    \<and> (\<forall>t'. t' \<noteq> t \<longrightarrow> transport_handle r' t' = transport_handle r t')
    \<and> (m_pClientManager r' = None \<longleftrightarrow> m_pClientManager r = None)
    \<and> (\<forall>c k. clients r' c = Some k \<longrightarrow> clients r c = Some k \<and> handle_of k \<noteq> transport_handle r t)"
proof (cases "transports r (transport_handle r t)")
  case None
  have "handle_of k \<noteq> transport_handle r t" if "clients r c = Some k" for c k
    using inv links_clientD(2) [of E "{}" r c k] that None by (auto simp: removing_inv_def members_def)
  with None inv show ?thesis by (simp add: RemoveTransport_def)
next
  case (Some ctx)
  let ?h = "transport_handle r t"
  obtain r1 where r1: "remove_clients E (keys (clientMap ctx)) r = Some r1" "router_inv E r1" "shrinks r r1"
    and gone: "\<forall>c \<in> set (keys (clientMap ctx)). clients r1 c = None"
    using remove_clients_spec [OF inv] by blast
  let ?r' = "r1\<lparr>m_transportMap := erase ?h (m_transportMap r1), transport_handle := (transport_handle r1)(t := 0)\<rparr>"
  have at: "transport_at r1 h = transport_at r h" and th: "transport_handle r1 = transport_handle r" for h
    using r1(3) by (simp_all add: shrinks_def)
  have none: "handle_of k \<noteq> ?h" if k: "clients r1 c = Some k" for c k
  proof
    assume e: "handle_of k = ?h"
    have "c \<in> members r1 ?h" using r1(2) links_clientD(2) [of E "{}" r1 c k] k e by (simp add: removing_inv_def)
    then have "c \<in> members r ?h" by (rule shrinksD(3) [OF r1(3)])
    with gone k Some show False by (auto simp: members_def)
  qed
  obtain ctx1 where "transports r1 ?h = Some ctx1" using at [of ?h] Some by (cases "transports r1 ?h") auto
  then have inv': "router_inv E ?r'" by (rule inv_drop_transport [OF r1(2) _ none]) (simp_all add: th)
  have "RemoveTransport E t r = Some (Success, ?r')" by (simp add: RemoveTransport_def Some r1(1))
  moreover have "m_pClientManager ?r' = None \<longleftrightarrow> m_pClientManager r = None" using r1(3) by (simp add: shrinks_def)
  moreover have "\<forall>c k. clients ?r' c = Some k \<longrightarrow> clients r c = Some k \<and> handle_of k \<noteq> ?h"
    using none shrinksD(1) [OF r1(3)] by simp
  ultimately show ?thesis using inv' at th by simp
qed

lemma remove_transports_spec:
  "router_inv E r \<Longrightarrow> \<exists>r'. remove_transports E ts r = Some r' \<and> router_inv E r'
     \<and> (\<forall>h a. transport_at r' h = Some a \<longrightarrow> transport_at r h = Some a \<and> a \<notin> Some ` set ts)
     \<and> (m_pClientManager r' = None \<longleftrightarrow> m_pClientManager r = None)"
proof (induction ts arbitrary: r)
  case (Cons t ts)
  from RemoveTransport_spec [OF Cons.prems, of t] obtain result r1 where
    r1: "RemoveTransport E t r = Some (result, r1)" "router_inv E r1"
    and at: "\<forall>h. transport_at r1 h = (if h = transport_handle r t then None else transport_at r h)"
    and m1: "m_pClientManager r1 = None \<longleftrightarrow> m_pClientManager r = None" by (elim exE conjE) (rule that)
  from Cons.IH [OF r1(2)] obtain r2 where r2: "remove_transports E ts r1 = Some r2" "router_inv E r2"
    and at2: "\<forall>h a. transport_at r2 h = Some a \<longrightarrow> transport_at r1 h = Some a \<and> a \<notin> Some ` set ts"
    and m2: "m_pClientManager r2 = None \<longleftrightarrow> m_pClientManager r1 = None" by (elim exE conjE) (rule that)
  have "transport_at r h = Some a \<and> a \<notin> Some ` set (t # ts)" if a: "transport_at r2 h = Some a" for h a
  proof -
    have "transport_at r1 h = Some a" and ts: "a \<notin> Some ` set ts" using at2 a by blast+
    then have "(if h = transport_handle r t then None else transport_at r h) = Some a" using at by metis
    with ts have h: "transport_at r h = Some a" "h \<noteq> transport_handle r t" "a \<notin> Some ` set ts"
      by (auto split: if_splits)
    then obtain ctx where "transports r h = Some ctx" "pTransport ctx = a" by auto
    moreover have "shape_ok r" using Cons.prems by (simp add: removing_inv_def)
    ultimately have "a \<noteq> Some t" using shape_transportD(4) h(2) by fastforce
    with h show ?thesis by auto
  qed
  with r1 r2 m1 m2 show ?case by auto
qed simp

subsection \<open>Stop\<close>

lemma set_map_filter: "set (List.map_filter f xs) = {y. \<exists>x \<in> set xs. f x = Some y}"
  by (induction xs) (auto split: option.splits)

lemma Stop_eq:
  assumes inv: "router_inv E r"
  shows "\<exists>m r'. Stop E r = Some (m, r') \<and> router_inv E r' \<and> m_transportMap r' = [] \<and> m_clientMap r' = []
    \<and> \<not> thread_active r' \<and> m_pClientManager r' = None
    \<and> (\<forall>m0. m = Some m0 \<longrightarrow> \<not> m_initialized m0 \<and> ids (idHash E) m0 = {})
    \<and> (m = None \<longleftrightarrow> m_pClientManager r = None)"
proof -
  let ?ts = "arrange (transportOrder E) (remdups (List.map_filter (\<lambda>(_, ctx). pTransport ctx) (m_transportMap r)))"
  obtain r1 where r1: "remove_transports E ?ts r = Some r1" "router_inv E r1"
    and at: "\<forall>h a. transport_at r1 h = Some a \<longrightarrow> transport_at r h = Some a \<and> a \<notin> Some ` set ?ts"
    and m1: "m_pClientManager r1 = None \<longleftrightarrow> m_pClientManager r = None"
    using remove_transports_spec [OF inv, of ?ts] by (elim exE conjE) (rule that)
  have shape: "shape_ok r" and shape1: "shape_ok r1" and l1: "links_ok E {} r1" and mgr1: "manager_present E r1"
    using inv r1(2) by (simp_all add: removing_inv_def)
  have "transports r1 h = None" for h
  proof (rule ccontr)
    assume "transports r1 h \<noteq> None"
    then obtain ctx1 where c1: "transports r1 h = Some ctx1" by blast
    then have "transport_at r1 h = Some (pTransport ctx1)" by simp
    then have at': "transport_at r h = Some (pTransport ctx1)" and out: "pTransport ctx1 \<notin> Some ` set ?ts"
      using at by blast+
    obtain ctx where ctx: "transports r h = Some ctx" "pTransport ctx = pTransport ctx1" using at' by auto
    obtain t where t: "pTransport ctx = Some t" using shape_transportD(4) [OF shape ctx(1)] by blast
    have "(h, ctx) \<in> set (m_transportMap r)" using ctx(1) by (rule map_of_SomeD)
    then have "t \<in> set ?ts" using t by (force simp: set_map_filter)
    then have "Some t \<in> Some ` set ?ts" by (rule imageI)
    with out ctx(2) t show False by metis
  qed
  then have tm: "m_transportMap r1 = []" using map_of_empty_iff [of "m_transportMap r1"] by blast
  have "clients r1 c = None" for c
    using links_clientD(2) [OF l1, of c] tm by (cases "clients r1 c") (auto simp: members_def)
  then have cm: "m_clientMap r1 = []" using map_of_empty_iff [of "m_clientMap r1"] by blast
  let ?r' = "r1\<lparr>thread_active := False, m_pClientManager := None\<rparr>"
  let ?m = "map_option (\<lambda>m. snd (UnregisterHost (idHash E) m)) (m_pClientManager r1)"
  have "Stop E r = Some (?m, ?r')" by (simp add: Stop_def Let_def r1(1))
  moreover have "router_inv E ?r'"
    using tm cm by (simp add: removing_inv_def shape_ok_def manager_present_def links_ok_def members_def)
  moreover have "\<not> m_initialized m0 \<and> ids (idHash E) m0 = {}" if m: "?m = Some m0" for m0
  proof -
    obtain m where mm: "m_pClientManager r1 = Some m" "m0 = snd (UnregisterHost (idHash E) m)" using m by auto
    have "manager_inv (idHash E) m" using mgr1 mm(1) by (simp add: manager_present_def manager_ok_def)
    from UnregisterHost_spec(2,3) [OF this] mm(2) show ?thesis by (metis prod.collapse)
  qed
  moreover have "?m = None \<longleftrightarrow> m_pClientManager r = None" using m1 by simp
  ultimately show ?thesis using tm cm by simp
qed

subsection \<open>Starting\<close>

lemma no_manager_members:
  assumes "router_inv E r" and "m_pClientManager r = None"
  shows "members r h = {}"
proof -
  have l: "links_ok E {} r" and e: "m_clientMap r = []"
    using assms by (simp_all add: removing_inv_def manager_present_def)
  have "used_ids E r = {}" using assms(2) by (simp add: used_ids_def)
  then show ?thesis using links_memberD(3) [OF l, of _ h] e by auto
qed

lemma SetClientManager_spec:
  assumes inv: "router_inv E r"
  shows "\<exists>result r'. SetClientManager E (new_ListenerClientManager (idHash E) (listener_info w) seed) r = Some (result, r')
    \<and> router_inv E r' \<and> m_pClientManager r' \<noteq> None"
proof (cases "m_pClientManager r")
  case None
  obtain i m where reg: "RegisterHost (idHash E) (idMemory E) (new_ListenerClientManager (idHash E) (listener_info w) seed)
      = Some (Success, Some i, m)" and ok: "manager_ok (idHash E) m"
    by (rule RegisterHost_new [OF refl])
  let ?r' = "r\<lparr>rc_clientId := i, m_pClientManager := Some m\<rparr>"
  have "members ?r' h = {}" for h using no_manager_members [OF inv None, of h] by (simp add: members_def)
  moreover have "m_clientMap ?r' = []" using inv None by (simp add: removing_inv_def manager_present_def)
  ultimately have "links_ok E {} ?r'" by (simp add: links_ok_def)
  then have "router_inv E ?r'" using inv ok by (simp add: removing_inv_def shape_ok_def manager_present_def)
  then show ?thesis using reg None by (simp add: SetClientManager_def)
qed (use inv in \<open>simp add: SetClientManager_def\<close>)

lemma inv_Start: "router_inv E r \<Longrightarrow> router_inv E (snd (Start d n pid r))"
proof (cases "m_pClientManager r")
  case (Some m)
  assume inv: "router_inv E r"
  have "router_inv E (r\<lparr>m_lastClientPingTimeInMs := 0, thread_active := True, m_clientInfoResponse := x\<rparr>)" for x
    using inv Some links_mono [of E "{}" r "r\<lparr>m_lastClientPingTimeInMs := 0, thread_active := True, m_clientInfoResponse := x\<rparr>"]
    by (simp add: removing_inv_def shape_ok_def manager_present_def members_def used_ids_def fun_eq_iff)
  with inv show ?thesis by (simp add: Start_def Let_def)
qed (simp add: Start_def)

lemma RegisterTransport_spec:
  assumes inv: "router_inv E r" and room: "m_lastTransportId r \<noteq> - 1"
    and new: "\<And>h ctx. transports r h = Some ctx \<Longrightarrow> pTransport ctx \<noteq> Some t"
  shows "router_inv E (snd (RegisterTransport E t r))"
proof -
  let ?h = "m_lastTransportId r + 1"
  have l: "links_ok E {} r" and shape: "shape_ok r" and mgr: "manager_present E r"
    using inv by (simp_all add: removing_inv_def)
  have less: "m_lastTransportId r < ?h" and nz: "?h \<noteq> 0"
    using unat_Suc_not_max [OF room] by (auto simp: word_less_nat_alt)
  have fresh: "transports r ?h = None"
    using shape_transportD(3) [OF shape, of ?h] less by (cases "transports r ?h") auto
  have le: "h \<le> ?h" if "transports r h = Some ctx" for h ctx
    using shape_transportD(3) [OF shape that] less by simp
  show ?thesis
  proof (cases "enableResult E t = Success")
    case False
    have "shape_ok (r\<lparr>m_lastTransportId := ?h\<rparr>)" using shape le by (simp add: shape_ok_def)
    moreover have "links_ok E {} (r\<lparr>m_lastTransportId := ?h\<rparr>)"
      by (rule links_mono [OF l]) (simp_all add: members_def used_ids_def fun_eq_iff)
    moreover have "manager_present E (r\<lparr>m_lastTransportId := ?h\<rparr>)"
      using mgr by (simp add: manager_present_def split: option.splits)
    ultimately show ?thesis using False by (simp add: RegisterTransport_def Let_def removing_inv_def)
  next
    case True
    let ?r' = "r\<lparr>m_lastTransportId := ?h, transport_handle := (transport_handle r)(t := ?h),
        m_transportMap := assign (handleOrder E) ?h \<lparr>pTransport = Some t, clientMap = []\<rparr> (m_transportMap r)\<rparr>"
    have mem: "members ?r' = members r" using fresh by (simp add: members_def fun_eq_iff)
    have "links_ok E {} ?r'" by (rule links_mono [OF l _ mem]) (simp_all add: used_ids_def)
    moreover have "manager_present E ?r'" using mgr by (simp add: manager_present_def split: option.splits)
    moreover have "shape_ok ?r'"
      unfolding shape_ok_def
    proof (intro conjI allI impI)
      fix h ctx assume h: "transports ?r' h = Some ctx"
      show "distinct (keys (clientMap ctx))" "h \<noteq> 0" "h \<le> m_lastTransportId ?r'"
        using h nz shape_transportD(1,2) [OF shape, of h ctx] le [of h ctx] by (auto split: if_splits)
      show "\<exists>t'. pTransport ctx = Some t' \<and> transport_handle ?r' t' = h"
        using h shape_transportD(4) [OF shape, of h ctx] new [of h ctx] by (auto split: if_splits)
    qed (use shape in \<open>simp_all add: shape_ok_def distinct_assign\<close>)
    ultimately show ?thesis using True by (simp add: RegisterTransport_def Let_def removing_inv_def)
  qed
qed

subsection \<open>Routing\<close>

text \<open>The pointer of a cache points to an entry of the current client, and every entry has a transport.\<close>

definition cache_ok :: "RoutingCache \<Rightarrow> bool" where
  "cache_ok cache \<longleftrightarrow>
     (\<forall>k. m_pCurrentClientContext cache = Some k \<longrightarrow> k = m_currentClientId cache \<and> m_routingCache cache k \<noteq> None)
     \<and> (\<forall>k e. m_routingCache cache k = Some e \<longrightarrow> cache_pTransport e \<noteq> None)"

lemma live_client_transport:
  assumes inv: "router_inv E r" and c: "ConnectionInfoForClientId dst r = Some connection"
  shows "TransportForTransportHandle (ci_handle connection) r \<noteq> None"
proof -
  obtain k where k: "clients r dst = Some k" and conn: "connection = cc_connectionInfo k"
    using c by (auto simp: ConnectionInfoForClientId_def FindClientById_def split: if_splits)
  have shape: "shape_ok r" and l: "links_ok E {} r" using inv by (simp_all add: removing_inv_def)
  have "dst \<in> members r (handle_of k)" using links_clientD(2) [OF l k] by simp
  then obtain ctx where ctx: "transports r (handle_of k) = Some ctx" by (auto simp: members_def split: option.splits)
  from shape_transportD(2,4) [OF shape ctx] ctx conn show ?thesis by (auto simp: TransportForTransportHandle_def)
qed

lemma select_context_ok:
  assumes "router_inv E r" and "cache_ok cache"
  shows "cache_ok (select_context dst r cache)"
  using assms live_client_transport [OF assms(1), of dst]
  by (auto simp: select_context_def cache_ok_def Let_def split: option.splits if_splits)

lemma select_context_current:
  assumes "cache_ok cache" and "dst \<noteq> 0"
  shows "m_currentClientId (select_context dst r cache) = dst"
  using assms by (auto simp: select_context_def Let_def split: option.splits)

lemma inv_IsRoutableMessage: "router_inv E r \<Longrightarrow> router_inv E (snd (IsRoutableMessage mc r))"
  by (simp add: IsRoutableMessage_def Let_def RouteInternalMessage_def)

lemma RouteMessage_spec:
  assumes inv: "router_inv E r" and cache: "cache_ok cache"
  shows "\<exists>result cache' r'. RouteMessage E mc cache r = Some (result, cache', r') \<and> router_inv E r' \<and> cache_ok cache'"
proof -
  obtain routable r1 where ir: "IsRoutableMessage mc r = (routable, r1)" by fastforce
  have inv1: "router_inv E r1" using inv_IsRoutableMessage [OF inv, of mc] ir by simp
  let ?dst = "dstClientId (header (mc_message mc))"
  let ?cache1 = "select_context ?dst r1 cache"
  have ok1: "cache_ok ?cache1" by (rule select_context_ok [OF inv1 cache])
  obtain rb where rb: "RouteBroadcastMessage E mc r1 = Some rb" "router_inv E rb"
    unfolding RouteBroadcastMessage_def using SendBroadcastMessage_spec [OF inv1] by blast
  consider (silent) "\<not> routable" | (broadcast) "routable" "?dst = 0"
    | (unknown) "routable" "?dst \<noteq> 0" "m_pCurrentClientContext ?cache1 = None"
    | (known) k where "routable" "?dst \<noteq> 0" "m_pCurrentClientContext ?cache1 = Some k" by blast
  then show ?thesis
  proof cases
    case known
    obtain e t where e: "m_routingCache ?cache1 k = Some e" and t: "cache_pTransport e = Some t"
      using ok1 known(3) by (fastforce simp: cache_ok_def)
    let ?r2 = "r1\<lparr>sent := sent r1 @ [(t, Directed (cache_connectionInfo e), mc_message mc)]\<rparr>"
    have inv2: "router_inv E ?r2" using inv1 by simp
    obtain r3 where r3: "RemoveClient E ?dst ?r2 = Some r3" "router_inv E r3"
      using RemoveClient_spec [OF inv2, of ?dst] by auto
    have drop: "cache_ok (?cache1\<lparr>m_routingCache := (m_routingCache ?cache1)(?dst := None),
        m_pCurrentClientContext := None, m_currentClientId := 0\<rparr>)"
      using ok1 by (auto simp: cache_ok_def)
    show ?thesis
      using known e t inv2 r3 ok1 drop ir by (simp add: RouteMessage_def TransmitMessage_def Let_def)
  qed (use ir inv1 ok1 cache rb in \<open>simp_all add: RouteMessage_def Let_def\<close>)
qed

lemma route_queue_spec:
  "router_inv E r \<Longrightarrow> cache_ok cache \<Longrightarrow>
    \<exists>retry cache' r'. route_queue E f n q cache r = Some (retry, cache', r') \<and> router_inv E r' \<and> cache_ok cache'"
proof (induction q arbitrary: n cache r)
  case (Cons mc q)
  obtain result cache1 r1 where 1: "RouteMessage E mc cache r = Some (result, cache1, r1)" "router_inv E r1" "cache_ok cache1"
    using RouteMessage_spec [OF Cons.prems] by blast
  obtain retry cache2 r2 where "route_queue E f (n + 1) q cache1 r1 = Some (retry, cache2, r2)"
    "router_inv E r2" "cache_ok cache2"
    using Cons.IH [OF 1(2,3)] by blast
  with 1 show ?case by simp
qed simp

subsection \<open>The router as a whole\<close>

text \<open>
  The router with the cache of each transport's receiving thread.  Each step is one operation under
  the locks of the code.  Handles are counted in 32 bits, and a transport is registered once.
\<close>

type_synonym system = "RouterCore \<times> (transport \<Rightarrow> RoutingCache \<times> MessageContext list)"

inductive router_step :: "environment \<Rightarrow> system \<Rightarrow> system \<Rightarrow> bool" for E where
  set_manager: "SetClientManager E (new_ListenerClientManager (idHash E) (listener_info w) seed) r = Some (result, r')
     \<Longrightarrow> router_step E (r, cs) (r', cs)"
| set_timeout: "router_step E (r, cs) (SetClientTimeoutCount n r, cs)"
| register_transport: "m_lastTransportId r \<noteq> - 1 \<Longrightarrow> (\<And>h ctx. transports r h = Some ctx \<Longrightarrow> pTransport ctx \<noteq> Some t)
     \<Longrightarrow> RegisterTransport E t r = (result, r') \<Longrightarrow> router_step E (r, cs) (r', cs(t := (new_RoutingCache, [])))"
| start: "Start d name pid r = (result, r') \<Longrightarrow> router_step E (r, cs) (r', cs)"
| thread_round: "thread_active r \<Longrightarrow> router_round E now r = Some r' \<Longrightarrow> router_step E (r, cs) (r', cs)"
| receive: "cs t = (cache, queue) \<Longrightarrow> receive_round E received queue cache r = Some (retry, cache', r')
     \<Longrightarrow> router_step E (r, cs) (r', cs(t := (cache', retry)))"
| remove_transport: "RemoveTransport E t r = Some (result, r') \<Longrightarrow> router_step E (r, cs) (r', cs)"
| stop: "Stop E r = Some (m, r') \<Longrightarrow> router_step E (r, cs) (r', cs)"

inductive router_reachable :: "environment \<Rightarrow> system \<Rightarrow> bool" for E where
  initial: "router_reachable E (new_RouterCore unset, \<lambda>_. (new_RoutingCache, []))"
| further: "router_reachable E s \<Longrightarrow> router_step E s s' \<Longrightarrow> router_reachable E s'"

inductive_cases router_stepE: "router_step E s s'"

definition system_inv :: "environment \<Rightarrow> system \<Rightarrow> bool" where
  "system_inv E s \<longleftrightarrow> router_inv E (fst s) \<and> (\<forall>t. cache_ok (fst (snd s t)))"

lemma initial_inv: "system_inv E (new_RouterCore unset, \<lambda>_. (new_RoutingCache, []))"
  by (simp add: system_inv_def removing_inv_def shape_ok_def manager_present_def links_ok_def members_def
      new_RouterCore_def new_RoutingCache_def cache_ok_def)

lemma inv_running: "router_inv E r \<Longrightarrow> thread_active r \<Longrightarrow> running E r"
  by (auto simp: running_def removing_inv_def manager_present_def split: option.splits)

lemma step_inv:
  assumes fair: "fair E"
  shows "router_step E s s' \<Longrightarrow> system_inv E s \<Longrightarrow> system_inv E s'"
proof (induction rule: router_step.induct)
  case (set_manager w seed r result r' cs)
  with SetClientManager_spec [of E r w seed] show ?case by (auto simp: system_inv_def)
next
  case (set_timeout r cs n)
  then show ?case
    using inv_cong [of "SetClientTimeoutCount n r" r E "{}"] by (simp add: system_inv_def SetClientTimeoutCount_def)
next
  case (register_transport r t result r' cs)
  with RegisterTransport_spec [of E r t] show ?case by (auto simp: system_inv_def cache_ok_def new_RoutingCache_def)
next
  case (start d name pid r result r' cs)
  with inv_Start [of E r d name pid] show ?case by (simp add: system_inv_def)
next
  case (thread_round r now r' cs)
  then have "running E r" by (simp add: system_inv_def inv_running)
  from keeps_router_round [OF fair this, of now] thread_round show ?case
    by (simp add: system_inv_def keeps_running_def running_def)
next
  case (receive cs t cache queue received r retry cache' r')
  then have "router_inv E r" "cache_ok cache" by (auto simp: system_inv_def split: prod.splits dest: spec [of _ t])
  from route_queue_spec [OF this, of "length queue" 0 "queue @ received"] receive show ?case
    by (auto simp: system_inv_def receive_round_def)
next
  case (remove_transport t r result r' cs)
  with RemoveTransport_spec [of E r t] show ?case by (auto simp: system_inv_def)
next
  case (stop r m r' cs)
  with Stop_eq [of E r] show ?case by (auto simp: system_inv_def)
qed

lemma reachable_inv:
  assumes "router_reachable E s" and "fair E"
  shows "system_inv E s"
  using assms by (induction rule: router_reachable.induct) (auto intro: initial_inv step_inv)

end
