(* ===== verification/Router_Theorems.thy ===== *)
theory Router_Theorems
  imports Router_System "HOL-Library.Sublist" "HOL-Library.Multiset"
begin

text \<open>
  What the router promises: it never fails, broadcasts reach everyone, silent clients expire, a
  connection gets one identifier, stopping leaves nothing behind; and two ways in which the
  per-thread routing cache departs from the router's own map of clients.
\<close>

subsection \<open>A sample environment\<close>

definition sample_env :: environment where
  "sample_env =
    \<lparr>ForwardingConnection = (\<lambda>t. t = 9), transmitResult = (\<lambda>_. Success), enableResult = (\<lambda>_. Success),
     idHash = sample_ids, idMemory = True, clientOrder = rev, handleOrder = id, transportOrder = id\<rparr>"

lemma sample_fair: "fair sample_env"
  by (auto simp: fair_def sample_env_def)

text \<open>A router with its manager, one transport and its thread started.\<close>

lemma sample_started:
  "\<exists>r cs. router_reachable sample_env (r, cs) \<and> thread_active r \<and> m_pClientManager r \<noteq> None"
proof -
  let ?E = sample_env and ?r0 = "new_RouterCore 0" and ?c0 = "\<lambda>_ :: transport. (new_RoutingCache, [] :: MessageContext list)"
  have inv0: "router_inv ?E ?r0" using initial_inv [of ?E 0] by (simp add: system_inv_def)
  obtain x r1 where r1: "SetClientManager ?E (new_ListenerClientManager (idHash ?E) (listener_info True) 7) ?r0 = Some (x, r1)"
    and m1: "m_pClientManager r1 \<noteq> None" using SetClientManager_spec [OF inv0] by blast
  have t1: "m_transportMap r1 = []" "m_lastTransportId r1 = 0"
    using r1 by (auto simp: SetClientManager_def new_RouterCore_def Let_def split: option.splits if_splits)
  obtain y r2 where r2: "RegisterTransport ?E 1 r1 = (y, r2)" by fastforce
  have m2: "m_pClientManager r2 \<noteq> None" "m_transportMap r2 \<noteq> []"
    using r2 m1 t1 by (auto simp: RegisterTransport_def Let_def sample_env_def assign_def emplace_def adjust_def arrange_def)
  obtain z r3 where r3: "Start [] [] 1 r2 = (z, r3)" by fastforce
  have "router_reachable ?E (r1, ?c0)"
    by (rule router_reachable.further [OF router_reachable.initial router_step.set_manager [OF r1]])
  then have "router_reachable ?E (r2, ?c0(1 := (new_RoutingCache, [])))"
    by (rule router_reachable.further) (rule router_step.register_transport [OF _ _ r2], simp_all add: t1)
  then have "router_reachable ?E (r3, ?c0(1 := (new_RoutingCache, [])))"
    by (rule router_reachable.further) (rule router_step.start [OF r3])
  moreover have "thread_active r3" "m_pClientManager r3 \<noteq> None" using r3 m2 by (auto simp: Start_def Let_def)
  ultimately show ?thesis by blast
qed

subsection \<open>Safety\<close>

text \<open>C4.
  The router never fails.  In every reachable state of a router with its receiving threads, where
  the client manager finds memory and no transport answers \<^verbatim>\<open>NotReady\<close> for ever, every operation
  returns: the mutual recursion of \<^verbatim>\<open>RemoveClient\<close> and \<^verbatim>\<open>SendBroadcastMessage\<close> ends, no entry is erased through
  an iterator that a nested removal invalidated, the null client manager is not used, and no routing
  cache holds a dangling pointer or a null transport.  This holds although peers may claim any client
  identifier, including one the manager hands out later.
\<close>

theorem router_never_fails:
  assumes "fair E" and "router_reachable E (r, cs)"
  shows "(thread_active r \<longrightarrow> router_round E now r \<noteq> None)
    \<and> receive_round E received (snd (cs t)) (fst (cs t)) r \<noteq> None
    \<and> RemoveTransport E t r \<noteq> None \<and> Stop E r \<noteq> None
    \<and> SetClientManager E (new_ListenerClientManager (idHash E) (listener_info w) seed) r \<noteq> None"
proof (intro conjI impI)
  have "system_inv E (r, cs)" by (rule reachable_inv [OF assms(2,1)])
  then have inv: "router_inv E r" and cache: "cache_ok (fst (cs t))" by (simp_all add: system_inv_def)
  show "router_round E now r \<noteq> None" if "thread_active r"
    using keeps_router_round [OF assms(1) inv_running [OF inv that], of now] by (auto simp: keeps_running_def)
  show "receive_round E received (snd (cs t)) (fst (cs t)) r \<noteq> None"
    using route_queue_spec [OF inv cache, of "length (snd (cs t))" 0 "snd (cs t) @ received"] by (auto simp: receive_round_def)
  show "RemoveTransport E t r \<noteq> None" using RemoveTransport_spec [OF inv, of t] by auto
  show "Stop E r \<noteq> None" using Stop_eq [OF inv] by auto
  show "SetClientManager E (new_ListenerClientManager (idHash E) (listener_info w) seed) r \<noteq> None"
    using SetClientManager_spec [OF inv, of w seed] by auto
qed

theorem router_never_fails_witness:
  "\<exists>r cs. router_reachable sample_env (r, cs) \<and> thread_active r \<and> router_round sample_env 5000 r \<noteq> None"
  using sample_started router_never_fails [OF sample_fair, of _ _ 5000] by blast

text \<open>Stopping leaves nothing behind: from every reachable state \<^verbatim>\<open>Stop\<close> returns, no transport and no client
  remains, the thread is inactive, and the client manager, if there was one, has given up the host
  and every identifier.
\<close>

theorem Stop_leaves_nothing:
  assumes "fair E" and "router_reachable E (r, cs)"
  shows "\<exists>m r'. Stop E r = Some (m, r') \<and> m_transportMap r' = [] \<and> m_clientMap r' = [] \<and> \<not> thread_active r'
    \<and> (\<forall>m0. m = Some m0 \<longrightarrow> GetHostClientId m0 = 0 \<and> ids (idHash E) m0 = {})
    \<and> (m = None \<longleftrightarrow> m_pClientManager r = None)"
proof -
  have "router_inv E r" using reachable_inv [OF assms(2,1)] by (simp add: system_inv_def)
  from Stop_eq [OF this] show ?thesis by (auto simp: GetHostClientId_def)
qed

theorem Stop_leaves_nothing_witness:
  "\<exists>r cs m r'. router_reachable sample_env (r, cs) \<and> thread_active r \<and> Stop sample_env r = Some (Some m, r')
     \<and> m_clientMap r' = [] \<and> ids sample_ids m = {}"
proof -
  obtain r cs where s: "router_reachable sample_env (r, cs)" "thread_active r" "m_pClientManager r \<noteq> None"
    using sample_started by blast
  have "idHash sample_env = sample_ids" by (simp add: sample_env_def)
  with Stop_leaves_nothing [OF sample_fair s(1)] s show ?thesis by fastforce
qed

subsection \<open>Broadcasts\<close>

text \<open>
  Who is to receive a broadcast: every client but the source on the transports of local clients, and
  every forwarding transport but the one the message came from.
\<close>

definition transport_deliveries :: "environment \<Rightarrow> MessageBuffer \<Rightarrow> transport option \<Rightarrow> TransportContext
    \<Rightarrow> (transport \<times> destination \<times> MessageBuffer) list" where
  "transport_deliveries E message source ctx =
    (case pTransport ctx of
       None \<Rightarrow> []
     | Some t \<Rightarrow>
         if ForwardingConnection E t then (if Some t \<noteq> source then [(t, Everyone, message)] else [])
         else [(t, Directed connection, message). (c, connection) \<leftarrow> clientMap ctx, c \<noteq> srcClientId (header message)])"

definition deliveries :: "environment \<Rightarrow> MessageBuffer \<Rightarrow> transport option
    \<Rightarrow> (TransportHandle, TransportContext) umap \<Rightarrow> (transport \<times> destination \<times> MessageBuffer) list" where
  "deliveries E message source ts = concat (map (\<lambda>(h, ctx). transport_deliveries E message source ctx) ts)"

lemma broadcast_clients_sent:
  "broadcast_clients E t message cs f0 r = (f, r') \<Longrightarrow>
     r' = r\<lparr>sent := sent r @ [(t, Directed connection, message). (c, connection) \<leftarrow> cs, c \<noteq> srcClientId (header message)]\<rparr>
     \<and> ((\<forall>n. transmitResult E n \<noteq> Error) \<longrightarrow> f = f0)"
proof (induction E t message cs f0 r rule: broadcast_clients.induct)
  case (2 E t message c connection cs f0 r)
  then show ?case
    by (cases "c = srcClientId (header message)") (auto simp: TransmitMessage_def Let_def split: if_splits)
qed simp

lemma broadcast_transports_sent:
  "broadcast_transports E message source ts f0 r = (f, r') \<Longrightarrow>
     r' = r\<lparr>sent := sent r @ deliveries E message source ts\<rparr> \<and> ((\<forall>n. transmitResult E n \<noteq> Error) \<longrightarrow> f = f0)"
proof (induction ts arbitrary: f0 r)
  case (Cons x ts)
  obtain h ctx where x: "x = (h, ctx)" by fastforce
  obtain f1 r1 where step: "broadcast_transports E message source ts f1 r1 = (f, r')"
    and r1: "r1 = r\<lparr>sent := sent r @ transport_deliveries E message source ctx\<rparr>"
    and f1: "(\<forall>n. transmitResult E n \<noteq> Error) \<longrightarrow> f1 = f0"
  proof (cases "pTransport ctx")
    case None
    with Cons.prems x show ?thesis by (intro that [of f0 r]) (simp_all add: transport_deliveries_def)
  next
    case (Some t)
    show ?thesis
    proof (cases "ForwardingConnection E t")
      case True
      with Some Cons.prems x show ?thesis
        by (intro that [of f0 "if Some t \<noteq> source then snd (TransmitBroadcastMessage E t message r) else r"])
          (simp_all add: transport_deliveries_def TransmitBroadcastMessage_def)
    next
      case False
      obtain f2 r2 where b: "broadcast_clients E t message (clientMap ctx) f0 r = (f2, r2)" by fastforce
      from broadcast_clients_sent [OF b] Some False Cons.prems x b show ?thesis
        by (intro that [of f2 r2]) (simp_all add: transport_deliveries_def)
    qed
  qed
  from Cons.IH [OF step] r1 f1 x show ?case by (simp add: deliveries_def)
qed (simp add: deliveries_def)

lemma SendBroadcastMessage_quiet:
  assumes "\<And>n. transmitResult E n \<noteq> Error"
  shows "SendBroadcastMessage E message source r
    = Some (r\<lparr>sent := sent r @ deliveries E message source (m_transportMap r)\<rparr>)"
proof -
  obtain f r' where b: "broadcast_transports E message source (m_transportMap r) 0 r = (f, r')" by fastforce
  from broadcast_transports_sent [OF b] assms b show ?thesis by (simp add: SendBroadcastMessage_def)
qed

text \<open>C28.
  A broadcast is handed to everyone who is to receive it, in the order of the maps, before anything
  else happens: to every client except the source on every transport with local clients, once to
  every forwarding transport except the one it came from.  If no transmission fails, nothing else
  changes; otherwise further messages announce the clients that are removed.
\<close>

theorem broadcast_reaches_everyone:
  assumes inv: "router_inv E r"
  shows "\<exists>r' more. SendBroadcastMessage E message source r = Some r'
      \<and> sent r' = sent r @ deliveries E message source (m_transportMap r) @ more
      \<and> ((\<forall>n. transmitResult E n \<noteq> Error) \<longrightarrow> r' = r\<lparr>sent := sent r'\<rparr> \<and> more = [])"
proof -
  obtain f r1 where b: "broadcast_transports E message source (m_transportMap r) 0 r = (f, r1)" by fastforce
  note s = broadcast_transports_sent [OF b]
  show ?thesis
  proof (cases "f = 0")
    case True
    with b s show ?thesis
      by (intro exI [of _ r1] exI [of _ "[]"]) (simp add: SendBroadcastMessage_def)
  next
    case False
    then have bad: "\<exists>n. transmitResult E n = Error" using s by blast
    have "router_inv E r1" using inv s by simp
    from RemoveClient_spec [OF this, of f] obtain r' where "RemoveClient E f r1 = Some r'" "shrinks r1 r'" by auto
    moreover from this obtain more where "sent r' = sent r1 @ more" by (auto simp: shrinks_def)
    ultimately show ?thesis using b s False bad by (auto simp: SendBroadcastMessage_def)
  qed
qed

text \<open>A router with a local client 7 on transport 1, a forwarding transport 9, a transport 2 without clients, and a source of identifiers.\<close>

definition sample_connection :: ConnectionInfo where
  "sample_connection = \<lparr>ci_data = [1, 2], ci_size = 2, ci_handle = 1\<rparr>"

definition sample_client :: ClientContext where
  "sample_client = kNewClientContext\<lparr>clientInfo := kUnknownClient\<lparr>info_clientId := 7\<rparr>, receivedPong := True,
     cc_connectionInfo := sample_connection\<rparr>"

definition sample_router :: RouterCore where
  "sample_router = (new_RouterCore 5)
    \<lparr>m_clientMap := [(7, sample_client)],
     m_transportMap := [(1, \<lparr>pTransport = Some 1, clientMap = [(7, sample_connection)]\<rparr>), (2, \<lparr>pTransport = Some 9, clientMap = []\<rparr>),
       (3, \<lparr>pTransport = Some 2, clientMap = []\<rparr>)],
     m_pClientManager := Some starved_manager, m_lastTransportId := 3,
     transport_handle := (\<lambda>_. 0)(1 := 1, 9 := 2, 2 := 3)\<rparr>"

lemma sample_router_running: "running sample_env sample_router"
  by (auto simp: running_def removing_inv_def shape_ok_def manager_present_def links_ok_def members_def
      sample_router_def new_RouterCore_def sample_client_def sample_connection_def kNewClientContext_def sample_env_def
      starved_manager_ok split: if_splits)

theorem broadcast_reaches_everyone_witness:
  "\<exists>r'. SendBroadcastMessage sample_env (announce Ping 5) None sample_router = Some r'
     \<and> sent r' = [(1, Directed sample_connection, announce Ping 5), (9, Everyone, announce Ping 5)]"
proof -
  have "router_inv sample_env sample_router" using sample_router_running by (simp add: running_def)
  moreover have "transmitResult sample_env n \<noteq> Error" for n by (simp add: sample_env_def)
  moreover have "sent sample_router @ deliveries sample_env (announce Ping 5) None (m_transportMap sample_router)
      = [(1, Directed sample_connection, announce Ping 5), (9, Everyone, announce Ping 5)]"
    by (simp add: deliveries_def transport_deliveries_def sample_router_def new_RouterCore_def sample_env_def
        announce_def zero_message_def)
  ultimately show ?thesis
    using broadcast_reaches_everyone [of sample_env sample_router "announce Ping 5" None] by (metis append_Nil2)
qed

subsection \<open>Silent clients\<close>

lemma erase_unknown: "map_of m k = None \<Longrightarrow> erase k m = m"
  by (force simp: erase_def map_of_eq_None_iff intro!: filter_True)

lemma RemoveClient_quiet:
  assumes quiet: "\<And>n. transmitResult E n \<noteq> Error" and inv: "removing_inv E X r" and "c \<notin> X"
  shows "\<exists>r'. RemoveClient E c r = Some r' \<and> removing_inv E X r' \<and> shrinks r r' \<and> m_clientMap r' = erase c (m_clientMap r)"
proof -
  obtain r' where r': "RemoveClient E c r = Some r'" "removing_inv E X r'" "shrinks r r'"
    using RemoveClient_spec [OF inv \<open>c \<notin> X\<close>] by blast
  have "m_clientMap r' = erase c (m_clientMap r)"
  proof (cases "clients r c")
    case None
    then have "r' = r" using r'(1) by (subst (asm) RemoveClient.simps) simp
    with None show ?thesis by (simp add: erase_unknown)
  next
    case (Some k)
    show ?thesis
    proof (cases "registeredClient k")
      case False
      with Some r'(1) show ?thesis by (subst (asm) RemoveClient.simps) (auto simp: Let_def)
    next
      case True
      obtain m where m: "m_pClientManager r = Some m"
        using inv by (auto simp: removing_inv_def elim: manager_presentD [OF _ Some])
      let ?r2 = "(forget_client (handle_of k) c r)\<lparr>m_pClientManager := Some (snd (UnregisterClient (idHash E) c m))\<rparr>"
      obtain f r3 where b: "broadcast_transports E (announce ClientDisconnected c) None (m_transportMap ?r2) 0 ?r2 = (f, r3)"
        by fastforce
      from broadcast_transports_sent [OF b] quiet have "f = 0" "m_clientMap r3 = m_clientMap r" by simp_all
      with Some True m b r'(1) show ?thesis by (subst (asm) RemoveClient.simps) (auto simp: Let_def split: if_splits)
    qed
  qed
  with r' show ?thesis by blast
qed

definition aged :: "u32 \<Rightarrow> ClientContext option \<Rightarrow> ClientContext option" where
  "aged timeout x = (case x of None \<Rightarrow> None
     | Some k \<Rightarrow> if pingRetryCount (age_client k) > timeout then None else Some (age_client k))"

lemma update_each_quiet:
  assumes quiet: "\<And>n. transmitResult E n \<noteq> Error"
  shows "running E r \<Longrightarrow> distinct cs \<Longrightarrow>
    \<exists>r'. update_each E cs r = Some r' \<and> running E r' \<and> m_clientTimeoutCount r' = m_clientTimeoutCount r
      \<and> (\<forall>d. clients r' d = (if d \<in> set cs then aged (m_clientTimeoutCount r) (clients r d) else clients r d))"
proof (induction cs arbitrary: r)
  case (Cons c cs)
  have inv: "router_inv E r" using Cons.prems(1) by (simp add: running_def)
  show ?case
  proof (cases "clients r c")
    case None
    with Cons.IH [OF Cons.prems(1)] Cons.prems(2) show ?thesis by (auto simp: aged_def)
  next
    case (Some k)
    let ?T = "m_clientTimeoutCount r"
    let ?r1 = "r\<lparr>m_clientMap := adjust c age_client (m_clientMap r)\<rparr>"
    have run1: "running E ?r1" by (rule running_adjust [OF Cons.prems(1) age_keeps])
    have "\<exists>r2. (if pingRetryCount (age_client k) > ?T then RemoveClient E c ?r1 else Some ?r1) = Some r2
        \<and> running E r2 \<and> m_clientTimeoutCount r2 = ?T \<and> clients r2 = (clients r)(c := aged ?T (Some k))"
    proof (cases "pingRetryCount (age_client k) > ?T")
      case True
      obtain r2 where "RemoveClient E c ?r1 = Some r2" "router_inv E r2" "shrinks ?r1 r2"
        "m_clientMap r2 = erase c (m_clientMap ?r1)"
        using RemoveClient_quiet [OF quiet, of "{}" ?r1 c] run1 by (auto simp: running_def)
      with True running_shrinks [OF run1] show ?thesis by (auto simp: aged_def shrinks_def)
    qed (use run1 Some in \<open>simp add: aged_def\<close>)
    then obtain r2 where r2: "(if pingRetryCount (age_client k) > ?T then RemoveClient E c ?r1 else Some ?r1) = Some r2"
      "running E r2" "m_clientTimeoutCount r2 = ?T" "clients r2 = (clients r)(c := aged ?T (Some k))" by blast
    have "distinct cs" "c \<notin> set cs" using Cons.prems(2) by simp_all
    with Cons.IH [OF r2(2)] r2 Some show ?thesis
      unfolding update_each_step [OF inv Some] by auto
  qed
qed simp

lemma map_of_outside: "d \<notin> set (keys m) \<Longrightarrow> map_of m d = None"
  by (simp add: map_of_eq_None_iff)

lemma UpdateClients_quiet:
  assumes quiet: "\<And>n. transmitResult E n \<noteq> Error" and run: "running E r"
    and due: "now - kClientDiscoveryIntervalInMs \<ge> m_lastClientPingTimeInMs r"
  shows "\<exists>r'. UpdateClients E now r = Some r' \<and> running E r' \<and> m_clientTimeoutCount r' = m_clientTimeoutCount r
     \<and> m_lastClientPingTimeInMs r' = now \<and> (\<forall>d. clients r' d = aged (m_clientTimeoutCount r) (clients r d))"
proof -
  have d: "distinct (keys (m_clientMap r))" using run by (simp add: running_def removing_inv_def shape_ok_def)
  obtain r1 where r1: "update_each E (keys (m_clientMap r)) r = Some r1" "running E r1"
    "m_clientTimeoutCount r1 = m_clientTimeoutCount r"
    and cl: "\<forall>d. clients r1 d = (if d \<in> set (keys (m_clientMap r)) then aged (m_clientTimeoutCount r) (clients r d) else clients r d)"
    using update_each_quiet [OF quiet run d] by blast
  have "clients r1 d = aged (m_clientTimeoutCount r) (clients r d)" for d
    using cl map_of_outside [of d "m_clientMap r"] by (cases "d \<in> set (keys (m_clientMap r))") (auto simp: aged_def)
  with due r1 show ?thesis
    by (simp add: UpdateClients_def SendBroadcastMessage_quiet [OF quiet])
qed

fun updates :: "environment \<Rightarrow> u64 list \<Rightarrow> RouterCore \<Rightarrow> RouterCore option" where
  "updates E [] r = Some r"
| "updates E (now # instants) r = Option.bind (UpdateClients E now r) (updates E instants)"

text \<open>Every update comes at least one discovery interval after the previous one.\<close>

fun spaced :: "u64 \<Rightarrow> u64 list \<Rightarrow> bool" where
  "spaced previous [] = True"
| "spaced previous (now # instants) \<longleftrightarrow> now - kClientDiscoveryIntervalInMs \<ge> previous \<and> spaced now instants"

lemma updates_quiet:
  assumes quiet: "\<And>n. transmitResult E n \<noteq> Error"
  shows "running E r \<Longrightarrow> spaced (m_lastClientPingTimeInMs r) instants \<Longrightarrow>
    \<exists>r'. updates E instants r = Some r' \<and> running E r'
      \<and> clients r' c = ((aged (m_clientTimeoutCount r)) ^^ length instants) (clients r c)"
proof (induction instants arbitrary: r)
  case (Cons now instants)
  obtain r1 where r1: "UpdateClients E now r = Some r1" "running E r1" "m_clientTimeoutCount r1 = m_clientTimeoutCount r"
    "m_lastClientPingTimeInMs r1 = now" and cl: "\<forall>d. clients r1 d = aged (m_clientTimeoutCount r) (clients r d)"
    using UpdateClients_quiet [OF quiet Cons.prems(1)] Cons.prems(2) by auto
  with Cons.IH [OF r1(2)] Cons.prems(2) show ?case by (auto simp: funpow_swap1)
qed simp

lemma aged_None [simp]: "(aged timeout ^^ n) None = None"
  by (induction n) (simp_all add: aged_def)

lemma aged_silent:
  assumes "\<not> receivedPong k" and "pingRetryCount k \<le> timeout" and "timeout \<noteq> - 1"
  shows "(aged timeout ^^ n) (Some k) = None \<longleftrightarrow> unat timeout < unat (pingRetryCount k) + n"
  using assms
proof (induction n arbitrary: k)
  case 0
  then show ?case by (simp add: word_le_nat_alt not_less)
next
  case (Suc n)
  let ?k = "k\<lparr>pingRetryCount := pingRetryCount k + 1\<rparr>"
  have age: "age_client k = ?k" using Suc.prems(1) by (simp add: age_client_def)
  have "pingRetryCount k \<noteq> - 1"
  proof
    assume "pingRetryCount k = - 1"
    with Suc.prems(2,3) show False by (simp add: word_order.extremum_unique)
  qed
  then have up: "unat (pingRetryCount ?k) = unat (pingRetryCount k) + 1" by (simp add: unat_Suc_not_max)
  show ?case
  proof (cases "pingRetryCount ?k > timeout")
    case True
    then have "aged timeout (Some k) = None" by (simp add: aged_def age)
    with True up show ?thesis by (simp add: funpow_Suc_right word_less_nat_alt del: funpow.simps)
  next
    case False
    then have "aged timeout (Some k) = Some ?k" by (simp add: aged_def age)
    with False up Suc.IH [of ?k] Suc.prems show ?thesis
      by (simp add: funpow_Suc_right del: funpow.simps)
  qed
qed

text \<open>C9.
  Clients that stay silent are removed, and only those, as long as transmissions succeed.  Counting
  from an update before which the client answered, it is still known after any number of updates up
  to the timeout count plus one and gone from the next one on: with the default count of three, at
  the fifth update, each of which comes at least three seconds after the previous one.
\<close>

theorem silent_client_expires:
  assumes "\<And>n. transmitResult E n \<noteq> Error" and "running E r" and "spaced (m_lastClientPingTimeInMs r) instants"
    and c: "clients r c = Some k" "receivedPong k" and T: "m_clientTimeoutCount r \<noteq> - 1"
  shows "\<exists>r'. updates E instants r = Some r'
     \<and> (clients r' c = None \<longleftrightarrow> unat (m_clientTimeoutCount r) + 2 \<le> length instants)"
proof -
  let ?T = "m_clientTimeoutCount r" and ?k = "k\<lparr>pingRetryCount := 0, receivedPong := False\<rparr>"
  have once: "aged ?T (Some k) = Some ?k" using c(2) by (simp add: aged_def age_client_def)
  have "(aged ?T ^^ length instants) (Some k) = None \<longleftrightarrow> unat ?T + 2 \<le> length instants"
  proof (cases "length instants")
    case (Suc n)
    have "(aged ?T ^^ Suc n) (Some k) = (aged ?T ^^ n) (Some ?k)" by (simp only: funpow_Suc_right o_apply once)
    with aged_silent [of ?k ?T n] T Suc show ?thesis by auto
  qed simp
  with updates_quiet [OF assms(1-3), of c] c(1) show ?thesis by auto
qed

theorem silent_client_expires_witness:
  "\<exists>r'. updates sample_env [3000, 6000, 9000, 12000, 15000] sample_router = Some r' \<and> clients r' 7 = None"
proof -
  have f: "clients sample_router 7 = Some sample_client" "receivedPong sample_client"
    "m_clientTimeoutCount sample_router = 3" "m_lastClientPingTimeInMs sample_router = 0"
    by (simp_all add: sample_router_def new_RouterCore_def sample_client_def kClientTimeoutCount_def)
  have "spaced (m_lastClientPingTimeInMs sample_router) [3000, 6000, 9000, 12000, 15000]"
    by (simp add: f kClientDiscoveryIntervalInMs_def)
  from silent_client_expires [OF _ sample_router_running this f(1,2)] f(3) show ?thesis
    by (simp add: sample_env_def)
qed

subsection \<open>Connection requests\<close>

lemma set_emplace:
  assumes "distinct (keys m)" and "map_of m k = None"
  shows "set (emplace ord k v m) = insert (k, v) (set m)"
proof -
  have "(a, b) \<in> set (emplace ord k v m) \<longleftrightarrow> (a, b) \<in> insert (k, v) (set m)" for a b
  proof -
    have "(a, b) \<in> set (emplace ord k v m) \<longleftrightarrow> map_of (emplace ord k v m) a = Some b"
      using distinct_emplace [OF assms(1)] by (simp only: map_of_eq_Some_iff)
    also have "\<dots> \<longleftrightarrow> a = k \<and> b = v \<or> map_of m a = Some b"
      using assms(2) by (auto simp: map_of_emplace simp del: map_of_eq_Some_iff)
    also have "\<dots> \<longleftrightarrow> (a, b) \<in> insert (k, v) (set m)" using assms(1) by auto
    finally show ?thesis .
  qed
  then show ?thesis by (auto intro!: set_eqI)
qed

lemma find_only:
  assumes "x \<in> set xs" and "P x" and "\<And>y. y \<in> set xs \<Longrightarrow> P y \<Longrightarrow> y = x"
  shows "List.find P xs = Some x"
proof (cases "List.find P xs")
  case None
  with assms(1,2) show ?thesis by (auto simp: find_None_iff)
next
  case (Some y)
  then have "P y" "y \<in> set xs" by (auto simp: find_Some_iff)
  with assms(3) Some show ?thesis by simp
qed

text \<open>After a new client was added, its connection leads to it.\<close>

lemma FindExternal_added:
  assumes shape: "shape_ok r" and t: "transports r (ci_handle conn) = Some ctx" "pTransport ctx = Some t"
    "\<not> ForwardingConnection E t"
    and fresh: "\<forall>e \<in> set (clientMap ctx). \<not> same_connection (snd e) conn"
    and i: "i \<noteq> 0" "i \<notin> members r (ci_handle conn)"
    and r1: "r1 = (AddClient E i conn True r)\<lparr>sent := log\<rparr>"
  shows "\<exists>k. FindExternalClientByConnection E conn r1 = Some (i, k) \<and> info_clientId (clientInfo k) = i"
proof -
  let ?f = "\<lambda>tr. tr\<lparr>clientMap := emplace (clientOrder E) i conn (clientMap tr)\<rparr>"
  note eff = AddClient_effect [OF shape i(1) t(1) refl, of E True]
  have d: "distinct (keys (clientMap ctx))" by (rule shape_transportD(1) [OF shape t(1)])
  have none: "map_of (clientMap ctx) i = None" using i(2) t(1) by (simp add: members_def map_of_eq_None_iff)
  have t1: "transports r1 (ci_handle conn) = Some (?f ctx)" using i(1) t by (simp add: r1 AddClient_def Let_def)
  have "List.find (\<lambda>(c, x). same_connection x conn) (emplace (clientOrder E) i conn (clientMap ctx)) = Some (i, conn)"
    by (rule find_only) (use set_emplace [OF d none, of "clientOrder E" conn] fresh in \<open>auto simp: same_connection_def\<close>)
  moreover obtain k where k: "clients r1 i = Some k"
    using eff(2,3) by (cases "clients r i") (auto simp: r1)
  moreover have "info_clientId (clientInfo k) = i"
    using shape_clientD [OF eff(4), of i k] k by (simp add: r1)
  ultimately show ?thesis using t1 t by (simp add: FindExternalClientByConnection_def)
qed

lemma connect_request_eq:
  assumes "Option.bind (transports r (ci_handle (mc_connectionInfo mc))) pTransport = Some t"
    and "ManagementMessage_of (messageId (header (mc_message mc))) = ConnectRequest"
    and "IsOutOfBandMessage (mc_message mc) \<longrightarrow> IsValidOutOfBandMessage (mc_message mc)"
    and "accept_client E mc r = Some (result, i, r1)" and "transmitResult E (length (sent r1)) \<noteq> Error"
  shows "ProcessClientManagementMessage E mc r = Some (r1\<lparr>sent := sent r1 @
     [(t, Directed (mc_connectionInfo mc), connect_response (protocolId (header (mc_message mc))) i result)]\<rparr>)"
proof -
  have "\<not> (IsOutOfBandMessage (mc_message mc) \<and> \<not> IsValidOutOfBandMessage (mc_message mc))" using assms(3) by blast
  then show ?thesis
    unfolding ProcessClientManagementMessage_def Let_def assms(1,2,4) by (auto simp: assms(5) TransmitMessage_def)
qed

lemma AddClient_frame [simp]:
  "sent (AddClient E c conn b r) = sent r" "m_pClientManager (AddClient E c conn b r) = m_pClientManager r"
  "transport_at (AddClient E c conn b r) h = transport_at r h"
  by (auto simp: AddClient_def Let_def split: option.splits)

lemma accept_new_client:
  assumes quiet: "\<And>n. transmitResult E n \<noteq> Error" and fair: "fair E" and run: "running E r"
    and new: "FindExternalClientByConnection E (mc_connectionInfo mc) r = None" and room: "card (used_ids E r) < 8190"
    and size: "unat (payloadSize (header (mc_message mc))) = sizeof_ConnectRequestPayload"
  obtains i m' ra where "i \<noteq> 0" and "i \<notin> used_ids E r" and "ids (idHash E) m' = insert i (used_ids E r)"
    and "ra = AddClient E i (mc_connectionInfo mc) True (r\<lparr>m_pClientManager := Some m'\<rparr>)"
    and "accept_client E mc r = Some (Success, i,
      ra\<lparr>sent := sent r @ deliveries E (announce ClientConnected i) None (m_transportMap ra)\<rparr>)"
proof -
  obtain m where m: "m_pClientManager r = Some m" using run by (auto simp: running_def)
  have ok: "manager_ok (idHash E) m" and mem: "idMemory E"
    using run m fair by (auto simp: running_def removing_inv_def manager_present_def fair_def)
  have used: "used_ids E r = ids (idHash E) m" by (simp add: used_ids_def m)
  obtain result written m' where reg: "RegisterClient (idHash E) True m = Some (result, written, m')"
    using listener.reg_returns [OF ok] by blast
  have "written \<noteq> None"
    using listener.reg_failure [OF ok, of True result m'] reg room used by (cases written) auto
  then obtain i where written: "written = Some i" by blast
  note f = listener.reg_success [OF ok reg [unfolded written]]
  let ?ra = "AddClient E i (mc_connectionInfo mc) True (r\<lparr>m_pClientManager := Some m'\<rparr>)"
  have "accept_client E mc r = Some (Success, i,
      ?ra\<lparr>sent := sent r @ deliveries E (announce ClientConnected i) None (m_transportMap ?ra)\<rparr>)"
    using f reg written by (simp add: accept_client_def size new m mem SendBroadcastMessage_quiet [OF quiet] Let_def)
  then show thesis using f used by (intro that [OF _ _ _ refl]) auto
qed

text \<open>
  A rehash rearranges the entries and loses none.  So the announcement of a new client goes to exactly
  those who would have been told before it was added: the new client is its source.
\<close>

lemma mset_emplace:
  assumes "distinct (keys m)" and "k \<notin> set (keys m)"
  shows "mset (emplace ord k v m) = add_mset (k, v) (mset m)"
proof -
  let ?ks = "arrange ord (k # keys m)" and ?f = "\<lambda>x. (x, the (map_of ((k, v) # m) x))"
  have "distinct ?ks" and "set ?ks = set (k # keys m)" using assms by (auto simp: arrange_def)
  then have ks: "mset ?ks = mset (k # keys m)" using assms by (subst set_eq_iff_mset_eq_distinct [symmetric]) simp_all
  have "map_of m k = None" using assms(2) by (simp add: map_of_eq_None_iff)
  then have "mset (emplace ord k v m) = image_mset ?f (mset ?ks)" by (simp add: emplace_def)
  also have "\<dots> = mset (map ?f (k # keys m))" by (simp only: ks mset_map)
  also have "?f (fst e) = e" if "e \<in> set m" for e
  proof -
    have "map_of m (fst e) = Some (snd e)" by (rule map_of_is_SomeI) (use that assms(1) in simp_all)
    moreover have "fst e \<noteq> k" using that assms(2) by force
    ultimately show ?thesis by simp
  qed
  then have "map ?f (keys m) = m" by (simp only: map_map o_def map_idI)
  then have "mset (map ?f (k # keys m)) = add_mset (k, v) (mset m)" by simp
  finally show ?thesis .
qed

lemma transport_deliveries_emplace:
  assumes "distinct (keys (clientMap ctx))" and "i \<notin> set (keys (clientMap ctx))"
  shows "mset (transport_deliveries E (announce code i) source (ctx\<lparr>clientMap := emplace ord i connection (clientMap ctx)\<rparr>))
    = mset (transport_deliveries E (announce code i) source ctx)"
proof -
  have "srcClientId (header (announce code i)) = i" by (simp add: announce_def)
  moreover have told: "mset [(t, Directed x, message). (c, x) \<leftarrow> cs, c \<noteq> i]
      = image_mset (\<lambda>e. (t, Directed (snd e), message)) (filter_mset (\<lambda>e. fst e \<noteq> i) (mset cs))"
    for cs :: "(ClientId, ConnectionInfo) umap" and t message by (induction cs) auto
  ultimately show ?thesis
    unfolding transport_deliveries_def by (auto simp: told mset_emplace [OF assms] split: option.split)
qed

lemma deliveries_added:
  assumes "shape_ok r" and "transports r h = Some ctx" and "i \<notin> members r h"
  shows "mset (deliveries E (announce code i) source
      (adjust h (\<lambda>tr. tr\<lparr>clientMap := emplace ord i connection (clientMap tr)\<rparr>) (m_transportMap r)))
    = mset (deliveries E (announce code i) source (m_transportMap r))"
proof -
  have new: "i \<notin> set (keys (clientMap ctx))" using assms(2,3) by (simp add: members_def)
  have d: "distinct (keys (clientMap ctx))" by (rule shape_transportD(1) [OF assms(1,2)])
  have only: "x = ctx" if "(h, x) \<in> set (m_transportMap r)" for x
    using assms(1,2) that by (auto simp: shape_ok_def)
  then have "\<forall>x. (h, x) \<in> set ts \<longrightarrow> x = ctx \<Longrightarrow>
      mset (deliveries E (announce code i) source (adjust h (\<lambda>tr. tr\<lparr>clientMap := emplace ord i connection (clientMap tr)\<rparr>) ts))
      = mset (deliveries E (announce code i) source ts)" for ts
    by (induction ts) (auto simp: deliveries_def adjust_def transport_deliveries_emplace [OF d new])
  with only show ?thesis by blast
qed

lemma connection_accepted:
  assumes quiet: "\<And>n. transmitResult E n \<noteq> Error" and fair: "fair E" and run: "running E r"
    and t: "transports r (ci_handle (mc_connectionInfo mc)) = Some ctx" "pTransport ctx = Some t"
    "\<not> ForwardingConnection E t"
    and fresh: "\<forall>e \<in> set (clientMap ctx). \<not> same_connection (snd e) (mc_connectionInfo mc)"
    and own: "members r (ci_handle (mc_connectionInfo mc)) \<subseteq> used_ids E r" and room: "card (used_ids E r) < 8190"
    and request: "ManagementMessage_of (messageId (header (mc_message mc))) = ConnectRequest"
    "unat (payloadSize (header (mc_message mc))) = sizeof_ConnectRequestPayload"
    "IsOutOfBandMessage (mc_message mc) \<longrightarrow> IsValidOutOfBandMessage (mc_message mc)"
  shows "\<exists>i r1 r2 told. i \<noteq> 0 \<and> i \<notin> used_ids E r
    \<and> ProcessClientManagementMessage E mc r = Some r1 \<and> ProcessClientManagementMessage E mc r1 = Some r2
    \<and> used_ids E r1 = insert i (used_ids E r) \<and> used_ids E r2 = used_ids E r1 \<and> clients r2 = clients r1
    \<and> mset told = mset (deliveries E (announce ClientConnected i) None (m_transportMap r))
    \<and> sent r1 = sent r @ told @ [(t, Directed (mc_connectionInfo mc), connect_response (protocolId (header (mc_message mc))) i Success)]
    \<and> sent r2 = sent r1
        @ [(t, Directed (mc_connectionInfo mc), connect_response (protocolId (header (mc_message mc))) i Success)]"
proof -
  let ?conn = "mc_connectionInfo mc" and ?p = "protocolId (header (mc_message mc))"
  have shape: "shape_ok r" using run by (simp add: running_def removing_inv_def)
  have "List.find (\<lambda>(c, x). same_connection x ?conn) (clientMap ctx) = None"
    using fresh by (auto simp: find_None_iff)
  then have unknown: "FindExternalClientByConnection E ?conn r = None"
    using t by (simp add: FindExternalClientByConnection_def)
  obtain i m' ra where
    i: "i \<noteq> 0" "i \<notin> used_ids E r" and m': "ids (idHash E) m' = insert i (used_ids E r)"
    and ra: "ra = AddClient E i ?conn True (r\<lparr>m_pClientManager := Some m'\<rparr>)"
    and acc: "accept_client E mc r = Some (Success, i,
      ra\<lparr>sent := sent r @ deliveries E (announce ClientConnected i) None (m_transportMap ra)\<rparr>)"
    by (rule accept_new_client [OF quiet fair run unknown room request(2)])
  let ?log = "sent r @ deliveries E (announce ClientConnected i) None (m_transportMap ra)"
  let ?answer = "[(t, Directed ?conn, connect_response ?p i Success)]"
  let ?r1 = "ra\<lparr>sent := ?log @ ?answer\<rparr>" and ?r2 = "ra\<lparr>sent := (?log @ ?answer) @ ?answer\<rparr>"
  have first: "ProcessClientManagementMessage E mc r = Some ?r1"
    using connect_request_eq [OF _ request(1,3) acc quiet, of t] t by simp
  let ?r0 = "r\<lparr>m_pClientManager := Some m'\<rparr>"
  have shape0: "shape_ok ?r0" using shape by (simp add: shape_ok_def)
  have t0: "transports ?r0 (ci_handle ?conn) = Some ctx" using t(1) by simp
  have i0: "i \<notin> members ?r0 (ci_handle ?conn)" using own i(2) by (auto simp: members_def)
  have r1: "?r1 = (AddClient E i ?conn True ?r0)\<lparr>sent := ?log @ ?answer\<rparr>" by (simp only: ra)
  obtain k where "FindExternalClientByConnection E ?conn ?r1 = Some (i, k)" "info_clientId (clientInfo k) = i"
    using FindExternal_added [OF shape0 t0 t(2,3) fresh i(1) i0 r1] by blast
  then have acc1: "accept_client E mc ?r1 = Some (Success, i, ?r1)" using request(2) by (simp add: accept_client_def)
  have "transport_at ra (ci_handle ?conn) = Some (Some t)" using t unfolding ra by simp
  then have "Option.bind (transports ?r1 (ci_handle ?conn)) pTransport = Some t" by auto
  from connect_request_eq [OF this request(1,3) acc1 quiet]
  have second: "ProcessClientManagementMessage E mc ?r1 = Some ?r2" by simp
  have "used_ids E ?r1 = insert i (used_ids E r)" "used_ids E ?r2 = used_ids E ?r1"
    using m' by (simp_all add: used_ids_def ra)
  moreover have "m_transportMap ra = adjust (ci_handle ?conn)
      (\<lambda>tr. tr\<lparr>clientMap := emplace (clientOrder E) i ?conn (clientMap tr)\<rparr>) (m_transportMap ?r0)"
    using i(1) t(1,2) by (auto simp: ra AddClient_def)
  then have told: "mset (deliveries E (announce ClientConnected i) None (m_transportMap ra))
      = mset (deliveries E (announce ClientConnected i) None (m_transportMap r))"
    using deliveries_added [OF shape0 t0 i0] by simp
  ultimately show ?thesis using i first second
    by (intro exI [of _ i] exI [of _ ?r1] exI [of _ ?r2]
        exI [of _ "deliveries E (announce ClientConnected i) None (m_transportMap ra)"]) (simp add: told)
qed

text \<open>C10.
  A connection is registered once.  When a local client that is not known yet asks to connect, no
  transmission fails and identifiers are left, the router reserves an identifier that was not in use
  and announces the new client, once each and to nobody else, to every other client of a local
  transport and to every forwarding transport; then it answers with the identifier.  A repeated
  request from the same connection is answered with the same identifier, without registering or
  announcing anything.
\<close>

theorem connection_registered_once:
  assumes quiet: "\<And>n. transmitResult E n \<noteq> Error" and fair: "fair E" and run: "running E r"
    and t: "transports r (ci_handle (mc_connectionInfo mc)) = Some ctx" "pTransport ctx = Some t"
    "\<not> ForwardingConnection E t"
    and fresh: "\<forall>e \<in> set (clientMap ctx). \<not> same_connection (snd e) (mc_connectionInfo mc)"
    and own: "members r (ci_handle (mc_connectionInfo mc)) \<subseteq> used_ids E r" and room: "card (used_ids E r) < 8190"
    and request: "ManagementMessage_of (messageId (header (mc_message mc))) = ConnectRequest"
    "unat (payloadSize (header (mc_message mc))) = sizeof_ConnectRequestPayload"
    "IsOutOfBandMessage (mc_message mc) \<longrightarrow> IsValidOutOfBandMessage (mc_message mc)"
  shows "\<exists>i r1 r2 told. i \<noteq> 0 \<and> i \<notin> used_ids E r
    \<and> ProcessClientManagementMessage E mc r = Some r1 \<and> ProcessClientManagementMessage E mc r1 = Some r2
    \<and> used_ids E r1 = insert i (used_ids E r) \<and> used_ids E r2 = used_ids E r1 \<and> clients r2 = clients r1
    \<and> mset told = mset (deliveries E (announce ClientConnected i) None (m_transportMap r))
    \<and> sent r1 = sent r @ told @ [(t, Directed (mc_connectionInfo mc), connect_response (protocolId (header (mc_message mc))) i Success)]
    \<and> sent r2 = sent r1
        @ [(t, Directed (mc_connectionInfo mc), connect_response (protocolId (header (mc_message mc))) i Success)]"
  using assms by (rule connection_accepted)

definition sample_request :: MessageContext where
  "sample_request =
    \<lparr>mc_message = oob_reply ConnectRequest Protocol_ClientManagement (encode_ConnectRequestPayload 0 Component_Tool),
     mc_connectionInfo = \<lparr>ci_data = [4], ci_size = 1, ci_handle = 3\<rparr>\<rparr>"

theorem connection_registered_once_witness:
  "\<exists>i r1 r2. i \<noteq> 0 \<and> ProcessClientManagementMessage sample_env sample_request sample_router = Some r1
     \<and> ProcessClientManagementMessage sample_env sample_request r1 = Some r2
     \<and> used_ids sample_env r2 = {i} \<and> clients r2 = clients r1
     \<and> (i = 7 \<or> (1, Directed sample_connection, announce ClientConnected i) \<in> set (sent r1))
     \<and> (9, Everyone, announce ClientConnected i) \<in> set (sent r1)"
proof -
  have handle: "ci_handle (mc_connectionInfo sample_request) = 3" by (simp add: sample_request_def)
  have t: "transports sample_router 3 = Some \<lparr>pTransport = Some 2, clientMap = []\<rparr>"
    by (simp add: sample_router_def)
  have none: "members sample_router 3 = {}" "used_ids sample_env sample_router = {}"
    by (simp_all add: members_def t used_ids_def sample_router_def starved_manager_def ids_def sample_env_def
        sample_manager_fields lookup_new)
  have h: "ManagementMessage_of (messageId (header (mc_message sample_request))) = ConnectRequest"
    "unat (payloadSize (header (mc_message sample_request))) = sizeof_ConnectRequestPayload"
    "IsValidOutOfBandMessage (mc_message sample_request)"
    by (simp_all add: sample_request_def oob_reply_def ManagementMessage_of_def encode_ConnectRequestPayload_def
        sizeof_ConnectRequestPayload_def IsValidOutOfBandMessage_def kOutOfBandMessage_def)
  have quiet: "transmitResult sample_env n \<noteq> Error" and local: "\<not> ForwardingConnection sample_env 2" for n
    by (simp_all add: sample_env_def)
  obtain i r1 r2 told where r: "i \<noteq> 0" "ProcessClientManagementMessage sample_env sample_request sample_router = Some r1"
      "ProcessClientManagementMessage sample_env sample_request r1 = Some r2"
      "used_ids sample_env r1 = insert i {}" "used_ids sample_env r2 = used_ids sample_env r1" "clients r2 = clients r1"
    and told: "mset told = mset (deliveries sample_env (announce ClientConnected i) None (m_transportMap sample_router))"
    and sent: "\<exists>more. sent r1 = sent sample_router @ told @ more"
    using connection_registered_once [OF quiet sample_fair sample_router_running, of sample_request
          "\<lparr>pTransport = Some 2, clientMap = []\<rparr>" 2] t local none h unfolding handle by auto
  have "set told = set (deliveries sample_env (announce ClientConnected i) None (m_transportMap sample_router))"
    by (rule mset_eq_setD [OF told])
  moreover have "set told \<subseteq> set (sent r1)" using sent by auto
  ultimately have "i = 7 \<or> (1, Directed sample_connection, announce ClientConnected i) \<in> set (sent r1)"
    "(9, Everyone, announce ClientConnected i) \<in> set (sent r1)"
    by (auto simp: deliveries_def transport_deliveries_def sample_router_def new_RouterCore_def sample_env_def
        announce_def zero_message_def)
  with r show ?thesis by auto
qed

subsection \<open>The routing cache\<close>

text \<open>
  The routing cache is not told when a client goes away.  Once a thread has an entry for a client
  identifier, a message for that identifier is handed to the connection in the entry whatever the
  router knows by then, even if the identifier now belongs to another client on another connection.
\<close>

theorem cached_route_wins:
  assumes e: "m_routingCache cache dst = Some e" "cache_pTransport e = Some t"
    and ok: "m_currentClientId cache = dst \<longrightarrow> m_pCurrentClientContext cache = Some dst"
    and mc: "dstClientId (header (mc_message mc)) = dst" "dst \<noteq> 0" "srcClientId (header (mc_message mc)) \<noteq> 0"
    "protocolId (header (mc_message mc)) \<noteq> Protocol_ClientManagement"
    and inv: "router_inv E r"
  shows "\<exists>result cache' r' more. RouteMessage E mc cache r = Some (result, cache', r')
     \<and> sent r' = sent r @ (t, Directed (cache_connectionInfo e), mc_message mc) # more"
proof -
  obtain r1 where ir: "IsRoutableMessage mc r = (True, r1)" and s1: "sent r1 = sent r"
    using mc by (auto simp: IsRoutableMessage_def Let_def is_client_management_def IsOutOfBandMessage_iff RouteInternalMessage_def)
  have inv1: "router_inv E r1" using inv_IsRoutableMessage [OF inv, of mc] ir by simp
  let ?cache1 = "select_context dst r1 cache"
  have sel: "m_pCurrentClientContext ?cache1 = Some dst" "m_routingCache ?cache1 dst = Some e"
    using e ok by (auto simp: select_context_def Let_def)
  let ?r2 = "r1\<lparr>sent := sent r1 @ [(t, Directed (cache_connectionInfo e), mc_message mc)]\<rparr>"
  have "router_inv E ?r2" using inv1 by simp
  from RemoveClient_spec [OF this, of dst] obtain r3 where r3: "RemoveClient E dst ?r2 = Some r3" "shrinks ?r2 r3" by auto
  then obtain more where "sent r3 = sent ?r2 @ more" by (auto simp: shrinks_def)
  with r3 ir sel e mc s1 show ?thesis
    by (cases "transmitResult E (length (sent r1)) = Error")
      (auto simp: RouteMessage_def TransmitMessage_def Let_def)
qed

definition sample_message :: MessageContext where
  "sample_message =
    \<lparr>mc_message = zero_message\<lparr>header := zero_header\<lparr>srcClientId := 4, dstClientId := 7, protocolId := Protocol_Session\<rparr>\<rparr>,
     mc_connectionInfo = \<lparr>ci_data = [], ci_size = 0, ci_handle = 2\<rparr>\<rparr>"

definition stale_cache :: RoutingCache where
  "stale_cache =
    \<lparr>m_routingCache = [7 \<mapsto> \<lparr>cache_connectionInfo = \<lparr>ci_data = [9], ci_size = 1, ci_handle = 2\<rparr>, cache_pTransport = Some 9\<rparr>],
     m_currentClientId = 7, m_pCurrentClientContext = Some 7\<rparr>"

theorem cached_route_wins_witness:
  "\<exists>result cache' r' more. RouteMessage sample_env sample_message stale_cache sample_router = Some (result, cache', r')
     \<and> sent r' = (9, Directed \<lparr>ci_data = [9], ci_size = 1, ci_handle = 2\<rparr>, mc_message sample_message) # more
     \<and> ConnectionInfoForClientId 7 sample_router = Some sample_connection"
proof -
  have "router_inv sample_env sample_router" using sample_router_running by (simp add: running_def)
  moreover have "ConnectionInfoForClientId 7 sample_router = Some sample_connection"
    by (simp add: ConnectionInfoForClientId_def FindClientById_def sample_router_def sample_client_def)
  moreover have "sent sample_router = []" by (simp add: sample_router_def new_RouterCore_def)
  ultimately show ?thesis
    using cached_route_wins [of stale_cache 7 "\<lparr>cache_connectionInfo = \<lparr>ci_data = [9], ci_size = 1, ci_handle = 2\<rparr>, cache_pTransport = Some 9\<rparr>"
        9 sample_message sample_env sample_router]
    by (simp add: stale_cache_def sample_message_def)
qed

text \<open>C35.
  A destination that is unknown once stays unknown.  When a thread routes a message to a client that
  the router does not know, the cache remembers the destination as the current one without an entry;
  every further message to it is dropped without asking the router, even after the client has
  connected, until a message for a different destination comes in between.
\<close>

theorem unknown_destination_sticks:
  assumes unknown: "clients r dst = None" and miss: "m_routingCache cache dst = None" "m_currentClientId cache \<noteq> dst"
    and mc: "dstClientId (header (mc_message mc)) = dst" "dst \<noteq> 0" "srcClientId (header (mc_message mc)) \<noteq> 0"
    "protocolId (header (mc_message mc)) \<noteq> Protocol_ClientManagement"
  shows "\<exists>cache' r'. RouteMessage E mc cache r = Some (Unavailable, cache', r') \<and> sent r' = sent r
     \<and> (\<forall>later. \<exists>r''. RouteMessage E mc cache' later = Some (Unavailable, cache', r'') \<and> sent r'' = sent later)"
proof -
  have ir: "\<exists>r1. IsRoutableMessage mc q = (True, r1) \<and> sent r1 = sent q \<and> clients r1 = clients q" for q
    using mc by (auto simp: IsRoutableMessage_def Let_def is_client_management_def IsOutOfBandMessage_iff RouteInternalMessage_def)
  let ?cache = "cache\<lparr>m_pCurrentClientContext := None, m_currentClientId := dst\<rparr>"
  obtain r1 where r1: "IsRoutableMessage mc r = (True, r1)" "sent r1 = sent r" "clients r1 = clients r" using ir by blast
  have "select_context dst r1 cache = ?cache"
    using unknown miss r1(3) mc(2) by (simp add: select_context_def Let_def ConnectionInfoForClientId_def FindClientById_def)
  with r1 mc have first: "RouteMessage E mc cache r = Some (Unavailable, ?cache, r1)" by (simp add: RouteMessage_def)
  have "\<exists>r''. RouteMessage E mc ?cache later = Some (Unavailable, ?cache, r'') \<and> sent r'' = sent later" for later
    using ir [of later] mc by (auto simp: RouteMessage_def select_context_def Let_def)
  with first r1(2) show ?thesis by blast
qed

theorem unknown_destination_sticks_witness:
  "\<exists>cache' r'. RouteMessage sample_env sample_message new_RoutingCache (new_RouterCore 5) = Some (Unavailable, cache', r')
     \<and> (\<exists>r''. RouteMessage sample_env sample_message cache' sample_router = Some (Unavailable, cache', r''))
     \<and> clients sample_router 7 = Some sample_client"
proof -
  have "clients sample_router 7 = Some sample_client" by (simp add: sample_router_def)
  with unknown_destination_sticks [of "new_RouterCore 5" 7 new_RoutingCache sample_message sample_env] show ?thesis
    by (fastforce simp: new_RouterCore_def new_RoutingCache_def sample_message_def)
qed

subsection \<open>Retries\<close>

lemma route_queue_retry:
  "route_queue E f n q cache r = Some (retry, cache', r') \<Longrightarrow> subseq retry (drop (f - n) q)"
proof (induction q arbitrary: n cache r retry)
  case (Cons mc q)
  from Cons.prems obtain result cache1 r1 retry1 where
    tail: "route_queue E f (n + 1) q cache1 r1 = Some (retry1, cache', r')"
    and retry: "retry = (if result = NotReady \<and> n + 1 > f then mc # retry1 else retry1)"
    by (auto split: option.splits)
  note ih = Cons.IH [OF tail]
  show ?case
  proof (cases "n + 1 > f")
    case True
    with ih retry show ?thesis by auto
  next
    case False
    then have "f - n = Suc (f - (n + 1))" by simp
    then have "drop (f - n) (mc # q) = drop (f - (n + 1)) q" by simp
    with ih retry False show ?thesis by auto
  qed
qed simp

text \<open>
  A receiving thread tries every message at most twice and never reorders the retries: what it keeps
  for the next round is a subsequence of the messages received in this round, so a message that was
  kept once is not kept again.
\<close>

theorem messages_tried_twice_at_most:
  assumes "receive_round E received queue cache r = Some (retry, cache', r')"
  shows "subseq retry received"
  using route_queue_retry [OF assms [unfolded receive_round_def]] by simp

definition busy_env :: environment where
  "busy_env = sample_env\<lparr>transmitResult := \<lambda>_. NotReady\<rparr>"

theorem messages_tried_twice_at_most_witness:
  "\<exists>retry cache' r'. receive_round busy_env [sample_message] [] new_RoutingCache sample_router = Some (retry, cache', r')
     \<and> retry = [sample_message] \<and> subseq retry [sample_message]"
proof -
  have "\<exists>cache' r'. receive_round busy_env [sample_message] [] new_RoutingCache sample_router = Some ([sample_message], cache', r')"
    by (simp add: receive_round_def RouteMessage_def IsRoutableMessage_def is_client_management_def IsOutOfBandMessage_def
        sample_message_def select_context_def new_RoutingCache_def ConnectionInfoForClientId_def FindClientById_def
        TransportForTransportHandle_def sample_router_def sample_client_def sample_connection_def TransmitMessage_def busy_env_def)
  then show ?thesis using messages_tried_twice_at_most by blast
qed

end
