(* ===== verification/Message_Channel.thy ===== *)
theory Message_Channel
  imports Session_Manager
begin

text \<open>
  \<^verbatim>\<open>MessageChannel\<close> (\<^verbatim>\<open>shared/legacy/src/messageChannel.h\<close> and \<^verbatim>\<open>messageChannel.inl\<close>): a client's end of the
  bus.  It registers with the router, dispatches what the transport delivers to the session manager
  and to the system protocol, keeps the connection alive, discovers other clients, and tears everything
  down when the connection is lost.

  The transport is a script: the answers to \<^verbatim>\<open>WriteMessage\<close> and the clock are those of \<open>Channel\<close>, the
  answers to \<^verbatim>\<open>ReadMessage\<close> are an argument of the operations that read.  A read past the end of its
  script finds nothing.  The operations return \<open>None\<close> where the code does not return: the session
  manager uses a null pointer, or the thread locks \<^verbatim>\<open>m_sessionMutex\<close> while it holds it (\<open>LockGuard\<close> of
  \<open>Session_Manager\<close> and \<open>Forward\<close> of \<open>Session_Core\<close>, as on the POSIX platforms).
\<close>

subsection \<open>State\<close>

text \<open>\<^verbatim>\<open>struct ClientInfoStruct\<close>, with its bytes; the strings are the contents of the character arrays.\<close>

record ClientInfoStruct =
  cis_clientName :: "u8 list"
  cis_clientDescription :: "u8 list"
  cis_reserved :: "u8 list"
  cis_metadata :: ClientMetadata
  cis_processId :: u32
  cis_padding :: "u8 list"

definition zero_ClientInfoStruct :: ClientInfoStruct where
  "zero_ClientInfoStruct =
    \<lparr>cis_clientName = replicate kMaxStringLength 0, cis_clientDescription = replicate kMaxStringLength 0,
     cis_reserved = replicate kMaxStringLength 0, cis_metadata = default_ClientMetadata,
     cis_processId = 0, cis_padding = replicate 116 0\<rparr>"

definition ClientInfoStruct_bytes :: "ClientInfoStruct \<Rightarrow> u8 list" where
  "ClientInfoStruct_bytes i =
     bytes_at kMaxStringLength (cis_clientName i) @ bytes_at kMaxStringLength (cis_clientDescription i)
     @ bytes_at kMaxStringLength (cis_reserved i)
     @ put_word 4 (protocols (cis_metadata i)) @ put_word 1 (clientType (cis_metadata i))
     @ put_word 1 (md_reserved (cis_metadata i)) @ put_word 2 (status (cis_metadata i))
     @ put_word 4 (cis_processId i) @ bytes_at 116 (cis_padding i)"

text \<open>\<^verbatim>\<open>reinterpret_cast<const ClientInfoStruct*>\<close> of a payload.\<close>

definition ClientInfoStruct_of_bytes :: "u8 list \<Rightarrow> ClientInfoStruct" where
  "ClientInfoStruct_of_bytes pl =
    (let bs = bytes_at sizeof_ClientInfoStruct pl in
     \<lparr>cis_clientName = take 128 bs, cis_clientDescription = take 128 (drop 128 bs),
      cis_reserved = take 128 (drop 256 bs),
      cis_metadata = \<lparr>protocols = get_word 384 4 bs, clientType = get_word 388 1 bs,
                      md_reserved = get_word 389 1 bs, status = get_word 390 2 bs\<rparr>,
      cis_processId = get_word 392 4 bs, cis_padding = take 116 (drop 396 bs)\<rparr>)"

record DiscoveredClientInfo =
  dci_id :: ClientId
  dci_metadata :: ClientMetadata
  dci_clientInfo :: "ClientInfoStruct option"

record DiscoveredClientsQueue =
  dq_clients :: "DiscoveredClientInfo list"
  dq_hasDataEvent :: bool
  dq_active :: bool
  dq_filter :: ClientMetadata

text \<open>
  The events for the application's callback with their data.  The callback is a function of the events
  before and the event at hand; what it returns is \<^verbatim>\<open>*pShouldRespond\<close> of a pong request.
\<close>

datatype BusEvent = ClientHaltedEvent ClientId ClientInfoStruct | PongRequestEvent ClientId "ClientInfoStruct option"

type_synonym BusEventCallback = "BusEvent list \<Rightarrow> BusEvent \<Rightarrow> bool"

record MessageChannel =
  m_channel :: Channel
  m_discoveredClientsQueue :: DiscoveredClientsQueue
  m_clientInfoResponse :: ClientInfoStruct
  m_lastActivityTimeMs :: u64
  m_lastKeepaliveTransmitted :: SessionId
  m_lastKeepaliveReceived :: SessionId
  m_threadActive :: bool
  m_threadStarted :: bool
  m_sessionManager :: SessionManager
  m_pTransferServer :: "IProtocolServer option"
  m_pURIServer :: "IProtocolServer option"
  m_busEventCb :: "BusEventCallback option"
  busEvents :: "BusEvent list"

text \<open>
  What the channel is created with: the transport's two static properties, \<^verbatim>\<open>m_createInfo\<close>, the
  process, the layout of the manager's maps and whether allocations succeed.
\<close>

record ChannelParams =
  RequiresClientRegistration :: bool
  RequiresKeepAlive :: bool
  initialFlags :: StatusFlags
  componentType :: Component
  createUpdateThread :: bool
  clientDescription :: "u8 list"
  processName :: "u8 list"
  processId :: u32
  managerParams :: ManagerParams
  channelAlloc :: AllocCb
  queueMemory :: bool

definition kKeepAliveTimeout :: u64 where "kKeepAliveTimeout = 2000"
definition kKeepAliveThreshold :: u64 where "kKeepAliveThreshold = 5"

definition new_DiscoveredClientsQueue :: DiscoveredClientsQueue where
  "new_DiscoveredClientsQueue =
    \<lparr>dq_clients = [], dq_hasDataEvent = False, dq_active = False, dq_filter = default_ClientMetadata\<rparr>"

definition new_MessageChannel :: "ChannelParams \<Rightarrow> Channel \<Rightarrow> MessageChannel" where
  "new_MessageChannel P ch =
    \<lparr>m_channel = ch\<lparr>ch_clientId := kBroadcastClientId, ch_sessionMutex := False, ch_hasSessions := False,
                    ch_deadlocked := False\<rparr>,
     m_discoveredClientsQueue = new_DiscoveredClientsQueue, m_clientInfoResponse = zero_ClientInfoStruct,
     m_lastActivityTimeMs = 0, m_lastKeepaliveTransmitted = 0, m_lastKeepaliveReceived = 0,
     m_threadActive = False, m_threadStarted = False,
     m_sessionManager = new_SessionManager (managerParams P), m_pTransferServer = None,
     m_pURIServer = None, m_busEventCb = None, busEvents = []\<rparr>"

abbreviation connection :: "MessageChannel \<Rightarrow> ClientId" where
  "connection mc \<equiv> ch_clientId (m_channel mc)"

definition Channel_IsConnected :: "MessageChannel \<Rightarrow> bool" where
  "Channel_IsConnected mc \<longleftrightarrow> connection mc \<noteq> kBroadcastClientId"

subsection \<open>Calls into the session manager\<close>

definition with_manager :: "MessageChannel \<Rightarrow> SessionManager \<times> Channel \<Rightarrow> MessageChannel" where
  "with_manager mc st = mc\<lparr>m_sessionManager := fst st, m_channel := snd st\<rparr>"

definition Channel_UpdateSessions :: "ChannelParams \<Rightarrow> MessageChannel \<Rightarrow> MessageChannel option" where
  "Channel_UpdateSessions P mc =
    map_option (with_manager mc) (UpdateSessions (managerParams P) (m_sessionManager mc) (m_channel mc))"

definition unregister_server :: "ChannelParams \<Rightarrow> IProtocolServer \<Rightarrow> MessageChannel \<Rightarrow> (Result \<times> MessageChannel) option" where
  "unregister_server P pServer mc =
    map_option (\<lambda>(result, st). (result, with_manager mc st))
      (UnregisterProtocolServer (managerParams P) pServer (m_sessionManager mc) (m_channel mc))"

definition session_packet :: "ChannelParams \<Rightarrow> MessageBuffer \<Rightarrow> MessageChannel \<Rightarrow> MessageChannel option" where
  "session_packet P m mc =
    map_option (with_manager mc)
      (HandleReceivedSessionMessage (managerParams P) (channelAlloc P) m (m_sessionManager mc) (m_channel mc))"

subsection \<open>Sending\<close>

definition Disconnect :: "ChannelParams \<Rightarrow> MessageChannel \<Rightarrow> MessageChannel option" where
  "Disconnect P mc =
    (if connection mc \<noteq> kBroadcastClientId then
       map_option (with_manager mc)
         (HandleTransportDisconnect (managerParams P) False [] (m_sessionManager mc)
            ((m_channel mc)\<lparr>ch_clientId := kBroadcastClientId\<rparr>))
     else Some mc)"

definition Channel_Forward :: "ChannelParams \<Rightarrow> MessageBuffer \<Rightarrow> MessageChannel \<Rightarrow> (Result \<times> MessageChannel) option" where
  "Channel_Forward P m mc =
    (if connection mc \<noteq> kBroadcastClientId then
       (let (result, ch) = WriteTransportMessage m (m_channel mc);
            mc1 = mc\<lparr>m_channel := ch\<rparr>
        in map_option (Pair result)
             (if result \<noteq> Success \<and> result \<noteq> NotReady then Disconnect P mc1 else Some mc1))
     else Some (Error, mc))"

definition Channel_Send ::
  "ChannelParams \<Rightarrow> ClientId \<Rightarrow> Protocol \<Rightarrow> MessageCode \<Rightarrow> ClientMetadata \<Rightarrow> u32 \<Rightarrow> u8 list option
   \<Rightarrow> MessageChannel \<Rightarrow> (Result \<times> MessageChannel) option" where
  "Channel_Send P dst protocol message metadata payloadSizeInBytes pPayload mc =
    (if unat payloadSizeInBytes \<le> kMaxPayloadSizeInBytes then
       Channel_Forward P
         \<lparr>header = zero_header
            \<lparr>dstClientId := dst, srcClientId := connection mc, protocolId := protocol, messageId := message,
             payloadSize := payloadSizeInBytes, sequence := u64_of_ClientMetadata metadata\<rparr>,
          payload = (case pPayload of
                       Some src \<Rightarrow> if payloadSizeInBytes \<noteq> 0 then memcpy (unat payloadSizeInBytes) [] src else []
                     | None \<Rightarrow> [])\<rparr> mc
     else Some (InsufficientMemory, mc))"

definition SendSystem ::
  "ChannelParams \<Rightarrow> ClientId \<Rightarrow> SystemMessage \<Rightarrow> ClientMetadata \<Rightarrow> MessageChannel \<Rightarrow> (Result \<times> MessageChannel) option" where
  "SendSystem P dst message metadata mc =
    Channel_Forward P
      (zero_message\<lparr>header := zero_header
         \<lparr>dstClientId := dst, srcClientId := connection mc, protocolId := Protocol_System,
          messageId := code_of_SystemMessage message, sequence := u64_of_ClientMetadata metadata\<rparr>\<rparr>) mc"

text \<open>Pings, pongs and client information carry \<^verbatim>\<open>m_clientInfoResponse\<close>.\<close>

definition send_client_info ::
  "ChannelParams \<Rightarrow> ClientId \<Rightarrow> SystemMessage \<Rightarrow> ClientMetadata \<Rightarrow> MessageChannel \<Rightarrow> (Result \<times> MessageChannel) option" where
  "send_client_info P dst message metadata mc =
    Channel_Send P dst Protocol_System (code_of_SystemMessage message) metadata
      (word_of_nat sizeof_ClientInfoStruct) (Some (ClientInfoStruct_bytes (m_clientInfoResponse mc))) mc"

subsection \<open>Receiving\<close>

definition payload_client_info :: "MessageBuffer \<Rightarrow> ClientInfoStruct option" where
  "payload_client_info m =
    (if unat (payloadSize (header m)) = sizeof_ClientInfoStruct then Some (ClientInfoStruct_of_bytes (payload m)) else None)"

definition bus_event :: "BusEvent \<Rightarrow> MessageChannel \<Rightarrow> bool \<times> MessageChannel" where
  "bus_event ev mc =
    (case m_busEventCb mc of
       None \<Rightarrow> (True, mc)
     | Some cb \<Rightarrow> (cb (busEvents mc) ev, mc\<lparr>busEvents := busEvents mc @ [ev]\<rparr>))"

definition receive_ping :: "ChannelParams \<Rightarrow> MessageBuffer \<Rightarrow> MessageChannel \<Rightarrow> MessageChannel option" where
  "receive_ping P m mc =
    (let src = srcClientId (header m);
         (shouldRespond, mc1) = bus_event (PongRequestEvent src (payload_client_info m)) mc
     in if shouldRespond
        then map_option snd (send_client_info P src Pong (cis_metadata (m_clientInfoResponse mc1)) mc1)
        else Some mc1)"

definition receive_pong :: "ChannelParams \<Rightarrow> MessageBuffer \<Rightarrow> MessageChannel \<Rightarrow> MessageChannel" where
  "receive_pong P m mc =
    (let q = m_discoveredClientsQueue mc;
         metadata = ClientMetadata_of_u64 (sequence (header m))
     in if dq_active q \<and> Matches (dq_filter q) metadata \<and> queueMemory P then
          mc\<lparr>m_discoveredClientsQueue := q
               \<lparr>dq_clients := dq_clients q
                  @ [\<lparr>dci_id = srcClientId (header m), dci_metadata = metadata,
                      dci_clientInfo = payload_client_info m\<rparr>],
                dq_hasDataEvent := True\<rparr>\<rparr>
        else mc)"

definition system_message :: "ChannelParams \<Rightarrow> MessageBuffer \<Rightarrow> MessageChannel \<Rightarrow> MessageChannel option" where
  "system_message P m mc =
    (let src = srcClientId (header m) in
     case SystemMessage_of (messageId (header m)) of
       Ping \<Rightarrow> receive_ping P m mc
     | Pong \<Rightarrow> Some (receive_pong P m mc)
     | QueryClientInfo \<Rightarrow>
         map_option snd (send_client_info P src ClientInfo (cis_metadata (m_clientInfoResponse mc)) mc)
     | ClientDisconnected \<Rightarrow>
         map_option (with_manager mc)
           (HandleClientDisconnection (managerParams P) src (m_sessionManager mc) (m_channel mc))
     | Halted \<Rightarrow> Some (snd (bus_event (ClientHaltedEvent src (ClientInfoStruct_of_bytes (payload m))) mc))
     | _ \<Rightarrow> Some mc)"

definition note_activity :: "ChannelParams \<Rightarrow> MessageChannel \<Rightarrow> MessageChannel" where
  "note_activity P mc =
    (if RequiresClientRegistration P \<and> RequiresKeepAlive P
     then (let (now, ch) = GetCurrentTimeInMs (m_channel mc) in mc\<lparr>m_lastActivityTimeMs := now, m_channel := ch\<rparr>)
     else mc)"

definition is_for_this_host :: "MessageBuffer \<Rightarrow> MessageChannel \<Rightarrow> bool" where
  "is_for_this_host m mc \<longleftrightarrow>
    (let dst = dstClientId (header m);
         metadata = ClientMetadata_of_u64 (sequence (header m));
         isDirectedMessage = (dst = connection mc);
         isRelevantBroadcastMessage =
           (dst = kBroadcastClientId \<and> Matches metadata (cis_metadata (m_clientInfoResponse mc)))
     in isDirectedMessage \<or> isRelevantBroadcastMessage)"

definition HandleMessageReceived :: "ChannelParams \<Rightarrow> MessageBuffer \<Rightarrow> MessageChannel \<Rightarrow> MessageChannel option" where
  "HandleMessageReceived P m mc0 =
    (let mc = note_activity P mc0 in
     if protocolId (header m) = Protocol_Session then session_packet P m mc
     else if IsOutOfBandMessage m then
       Some (if IsValidOutOfBandMessage m \<and> ManagementMessage_of (messageId (header m)) = KeepAlive
             then mc\<lparr>m_lastKeepaliveReceived := sessionId (header m)\<rparr> else mc)
     else if protocolId (header m) = Protocol_System \<and> is_for_this_host m mc then system_message P m mc
     else Some mc)"

subsection \<open>The periodic update\<close>

type_synonym read_script = "(Result \<times> MessageBuffer) list"

fun read_messages :: "ChannelParams \<Rightarrow> read_script \<Rightarrow> MessageChannel \<Rightarrow> (Result \<times> MessageChannel) option" where
  "read_messages P [] mc = Some (NotReady, mc)"
| "read_messages P ((result, m) # reads) mc =
    (if result = Success then Option.bind (HandleMessageReceived P m mc) (read_messages P reads)
     else Some (result, mc))"

definition ping_while_discovering ::
  "ChannelParams \<Rightarrow> Result \<Rightarrow> MessageChannel \<Rightarrow> (Result \<times> MessageChannel) option" where
  "ping_while_discovering P result mc =
    (if result = NotReady \<and> dq_active (m_discoveredClientsQueue mc) then
       map_option (\<lambda>(result, mc'). (if result = Success then NotReady else result, mc'))
         (send_client_info P kBroadcastClientId Ping (dq_filter (m_discoveredClientsQueue mc)) mc)
     else Some (result, mc))"

definition heartbeat :: "SessionId \<Rightarrow> MessageBuffer" where
  "heartbeat n = kOutOfBandMessage\<lparr>header := (header kOutOfBandMessage)
     \<lparr>messageId := code_of_ManagementMessage KeepAlive, sessionId := n\<rparr>\<rparr>"

text \<open>The difference of the two counters is taken in 32 bits and compared in 64.\<close>

definition keep_alive :: "ChannelParams \<Rightarrow> MessageChannel \<Rightarrow> MessageChannel option" where
  "keep_alive P mc =
    (let (currentTime, ch) = GetCurrentTimeInMs (m_channel mc);
         mc1 = mc\<lparr>m_channel := ch\<rparr>
     in
     if currentTime - m_lastActivityTimeMs mc1 > kKeepAliveTimeout then
       (if ucast (m_lastKeepaliveTransmitted mc1 - m_lastKeepaliveReceived mc1) < kKeepAliveThreshold then
          (let seq = m_lastKeepaliveTransmitted mc1 + 1 in
           map_option (\<lambda>(_, mc2). mc2\<lparr>m_lastActivityTimeMs := currentTime\<rparr>)
             (Channel_Forward P (heartbeat seq) (mc1\<lparr>m_lastKeepaliveTransmitted := seq\<rparr>)))
        else Disconnect P mc1)
     else Some mc1)"

definition Channel_Update :: "ChannelParams \<Rightarrow> read_script \<Rightarrow> MessageChannel \<Rightarrow> MessageChannel option" where
  "Channel_Update P reads mc =
    Option.bind (read_messages P reads mc) (\<lambda>(result, mc1).
    Option.bind (ping_while_discovering P result mc1) (\<lambda>(result, mc2).
    Option.bind (if result \<noteq> NotReady then Disconnect P mc2
                 else if RequiresClientRegistration P \<and> RequiresKeepAlive P then keep_alive P mc2
                 else Some mc2)
      (Channel_UpdateSessions P)))"

subsection \<open>Servers, flags and callbacks\<close>

definition Channel_EstablishSessionForClient ::
  "ChannelParams \<Rightarrow> bool \<Rightarrow> EstablishSessionInfo \<Rightarrow> MessageChannel \<Rightarrow> (Result \<times> nat option \<times> MessageChannel) option" where
  "Channel_EstablishSessionForClient P ppSession info mc =
    map_option (\<lambda>(result, p, sm). (result, p, mc\<lparr>m_sessionManager := sm\<rparr>))
      (EstablishSessionForClient (managerParams P) (channelAlloc P) ppSession info (m_sessionManager mc) (m_channel mc))"

definition enabled_protocols :: "Protocol \<Rightarrow> u32" where
  "enabled_protocols protocol =
    (if protocol = Protocol_DriverControl then ProtocolFlags_driverControl
     else if protocol = Protocol_RGP then ProtocolFlags_rgp
     else if protocol = Protocol_ETW then ProtocolFlags_etw
     else if protocol = Protocol_Event then ProtocolFlags_event
     else 0)"

definition update_metadata :: "(ClientMetadata \<Rightarrow> ClientMetadata) \<Rightarrow> MessageChannel \<Rightarrow> MessageChannel" where
  "update_metadata f mc =
    mc\<lparr>m_clientInfoResponse := (m_clientInfoResponse mc)\<lparr>cis_metadata := f (cis_metadata (m_clientInfoResponse mc))\<rparr>\<rparr>"

text \<open>\<open>None\<close> is the null pointer.\<close>

definition Channel_RegisterProtocolServer ::
  "ChannelParams \<Rightarrow> IProtocolServer option \<Rightarrow> MessageChannel \<Rightarrow> Result \<times> MessageChannel" where
  "Channel_RegisterProtocolServer P pServer mc =
    (case pServer of
       None \<Rightarrow> (Error, mc)
     | Some S \<Rightarrow>
         (let (result, sm) = RegisterProtocolServer (managerParams P) (channelAlloc P) S (m_sessionManager mc);
              mc1 = mc\<lparr>m_sessionManager := sm\<rparr>
          in (result, if result = Success
                      then update_metadata (\<lambda>md. md\<lparr>protocols := protocols md OR enabled_protocols (srv_protocol S)\<rparr>) mc1
                      else mc1)))"

definition Channel_UnregisterProtocolServer ::
  "ChannelParams \<Rightarrow> IProtocolServer \<Rightarrow> MessageChannel \<Rightarrow> (Result \<times> MessageChannel) option" where
  "Channel_UnregisterProtocolServer P pServer mc = unregister_server P pServer mc"

definition Channel_GetProtocolServer :: "ChannelParams \<Rightarrow> Protocol \<Rightarrow> MessageChannel \<Rightarrow> IProtocolServer option" where
  "Channel_GetProtocolServer P protocol mc = GetProtocolServer (managerParams P) protocol (m_sessionManager mc)"

definition SetBusEventCallback :: "BusEventCallback option \<Rightarrow> MessageChannel \<Rightarrow> MessageChannel" where
  "SetBusEventCallback callback mc = mc\<lparr>m_busEventCb := callback\<rparr>"

definition SetStatusFlags :: "StatusFlags \<Rightarrow> MessageChannel \<Rightarrow> Result \<times> MessageChannel" where
  "SetStatusFlags flags mc =
    (if connection mc \<noteq> kBroadcastClientId then (Success, update_metadata (\<lambda>md. md\<lparr>status := flags\<rparr>) mc)
     else (Error, mc))"

definition GetStatusFlags :: "MessageChannel \<Rightarrow> StatusFlags" where
  "GetStatusFlags mc = status (cis_metadata (m_clientInfoResponse mc))"

text \<open>\<^verbatim>\<open>IMsgChannel::SetStatusFlag\<close> and \<^verbatim>\<open>GetStatusFlag\<close> for one flag.\<close>

definition SetStatusFlag :: "StatusFlags \<Rightarrow> bool \<Rightarrow> MessageChannel \<Rightarrow> Result \<times> MessageChannel" where
  "SetStatusFlag flag enable mc =
    (let oldFlags = GetStatusFlags mc;
         newFlags = (if enable then oldFlags OR flag else oldFlags AND NOT flag)
     in if newFlags \<noteq> oldFlags then SetStatusFlags newFlags mc else (Success, mc))"

definition GetStatusFlag :: "StatusFlags \<Rightarrow> MessageChannel \<Rightarrow> bool" where
  "GetStatusFlag flag mc \<longleftrightarrow> GetStatusFlags mc AND flag \<noteq> 0"

subsection \<open>Registration with the router\<close>

definition connect_request :: "ChannelParams \<Rightarrow> MessageBuffer" where
  "connect_request P = kOutOfBandMessage
     \<lparr>header := (header kOutOfBandMessage)
        \<lparr>messageId := code_of_ManagementMessage ConnectRequest, payloadSize := word_of_nat sizeof_ConnectRequestPayload\<rparr>,
      payload := encode_ConnectRequestPayload (initialFlags P) (componentType P)\<rparr>"

text \<open>What is made of the message that was read while registering: a result and the new \<^verbatim>\<open>m_clientId\<close>.\<close>

definition connect_answer :: "MessageBuffer \<Rightarrow> ClientId \<Rightarrow> Result \<times> ClientId" where
  "connect_answer m clientId =
    (if protocolId (header m) = Protocol_ClientManagement then
       (if IsOutOfBandMessage m \<and> IsValidOutOfBandMessage m
           \<and> ManagementMessage_of (messageId (header m)) = ConnectResponse
        then (let pl = decode_ConnectResponsePayload (payload m) in (crp_result pl, crp_clientId pl))
        else (VersionMismatch, clientId))
     else (NotReady, clientId))"

text \<open>
  The \<^verbatim>\<open>do ... while\<close> loop.  A round has the answer to \<^verbatim>\<open>ReadTransportMessage\<close>, used when the request
  could be written, and the clock at its end; past the end of the script the read finds nothing and
  the time is up.
\<close>

type_synonym register_round = "(Result \<times> MessageBuffer) \<times> u64"

definition register_once :: "ChannelParams \<Rightarrow> Result \<times> MessageBuffer \<Rightarrow> MessageChannel \<Rightarrow> Result \<times> MessageChannel" where
  "register_once P answer mc =
    (let (written, ch) = WriteTransportMessage (connect_request P) (m_channel mc) in
     if written = Success then
       (if fst answer = Success then
          (let (result, clientId) = connect_answer (snd answer) (ch_clientId ch)
           in (result, mc\<lparr>m_channel := ch\<lparr>ch_clientId := clientId\<rparr>\<rparr>))
        else (fst answer, mc\<lparr>m_channel := ch\<rparr>))
     else (written, mc\<lparr>m_channel := ch\<rparr>))"

fun register_loop ::
  "ChannelParams \<Rightarrow> u32 \<Rightarrow> u64 \<Rightarrow> register_round list \<Rightarrow> MessageChannel \<Rightarrow> Result \<times> MessageChannel" where
  "register_loop P timeoutInMs sendTime [] mc = register_once P (NotReady, zero_message) mc"
| "register_loop P timeoutInMs sendTime ((answer, currentTime) # rounds) mc =
    (let (registerResult, mc1) = register_once P answer mc in
     if registerResult = NotReady \<and> currentTime - sendTime < ucast timeoutInMs
     then register_loop P timeoutInMs sendTime rounds mc1
     else (registerResult, mc1))"

text \<open>
  \<^verbatim>\<open>TransferManager::Init\<close> and \<^verbatim>\<open>Destroy\<close>, and the same steps for the URI server: allocate the server,
  register it with the session manager whose answer is ignored; \<open>None\<close> is a failed allocation.
\<close>

definition add_server :: "ChannelParams \<Rightarrow> IProtocolServer option \<Rightarrow> MessageChannel \<Rightarrow> Result \<times> MessageChannel" where
  "add_server P pServer mc =
    (case pServer of
       None \<Rightarrow> (Error, mc)
     | Some S \<Rightarrow>
         (Success, mc\<lparr>m_sessionManager := snd (RegisterProtocolServer (managerParams P) (channelAlloc P) S
                                                 (m_sessionManager mc))\<rparr>))"

definition init_client_info :: "ChannelParams \<Rightarrow> ClientInfoStruct" where
  "init_client_info P = zero_ClientInfoStruct
     \<lparr>cis_clientDescription := Strncpy kMaxStringLength (clientDescription P),
      cis_clientName := Strncpy kMaxStringLength (processName P), cis_processId := processId P,
      cis_metadata := default_ClientMetadata\<lparr>clientType := componentType P, status := initialFlags P\<rparr>\<rparr>"

text \<open>\<open>started\<close> is whether the operating system creates the thread; a thread object is started once.\<close>

definition CreateMsgThread :: "bool \<Rightarrow> MessageChannel \<Rightarrow> Result \<times> MessageChannel" where
  "CreateMsgThread started mc =
    (if \<not> m_threadStarted mc \<and> started then (Success, mc\<lparr>m_threadActive := True, m_threadStarted := True\<rparr>)
     else (Error, mc\<lparr>m_threadActive := False\<rparr>))"

definition DestroyMsgThread :: "MessageChannel \<Rightarrow> MessageChannel" where
  "DestroyMsgThread mc =
    (if m_threadStarted mc then mc\<lparr>m_threadActive := False, m_threadStarted := False\<rparr> else mc)"

text \<open>
  What the outside contributes to a registration: the answer of the transport's \<^verbatim>\<open>Connect\<close> and the
  identifier it writes, the rounds of the negotiation, the first random number for the session
  manager, the two servers and the thread.
\<close>

record RegisterInput =
  ri_connect :: Result
  ri_clientId :: ClientId
  ri_rounds :: "register_round list"
  ri_rng :: u32
  ri_transferServer :: "IProtocolServer option"
  ri_uriServer :: "IProtocolServer option"
  ri_thread :: bool

definition Register_connect :: "ChannelParams \<Rightarrow> u32 \<Rightarrow> RegisterInput \<Rightarrow> MessageChannel \<Rightarrow> Result \<times> MessageChannel" where
  "Register_connect P timeoutInMs I mc =
    (let (result, mc1) =
       (if connection mc = kBroadcastClientId
        then (ri_connect I, mc\<lparr>m_channel := (m_channel mc)\<lparr>ch_clientId := ri_clientId I\<rparr>\<rparr>)
        else (Error, mc))
     in
     if RequiresClientRegistration P \<and> result = Success \<and> connection mc1 = kBroadcastClientId then
       (let (sendTime, ch) = GetCurrentTimeInMs (m_channel mc1)
        in register_loop P timeoutInMs sendTime (ri_rounds I) (mc1\<lparr>m_channel := ch\<rparr>))
     else (result, mc1))"

definition Register_setup :: "ChannelParams \<Rightarrow> RegisterInput \<Rightarrow> MessageChannel \<Rightarrow> Result \<times> MessageChannel" where
  "Register_setup P I mc =
    (let mc1 = mc\<lparr>m_clientInfoResponse := init_client_info P,
                  m_sessionManager := snd (Init True (ri_rng I) (m_channel mc) (m_sessionManager mc)),
                  m_pTransferServer := ri_transferServer I\<rparr>;
         (result1, mc2) = add_server P (ri_transferServer I) mc1
     in if result1 \<noteq> Success then (result1, mc2)
        else
          (let (result2, mc3) = add_server P (ri_uriServer I) (mc2\<lparr>m_pURIServer := ri_uriServer I\<rparr>)
           in if result2 = Success \<and> createUpdateThread P then CreateMsgThread (ri_thread I) mc3
              else (result2, mc3)))"

definition Register :: "ChannelParams \<Rightarrow> u32 \<Rightarrow> RegisterInput \<Rightarrow> MessageChannel \<Rightarrow> Result \<times> MessageChannel" where
  "Register P timeoutInMs I mc =
    (let (status, mc1) = Register_connect P timeoutInMs I mc
     in if status = Success then Register_setup P I mc1 else (status, mc1))"

subsection \<open>Leaving the bus\<close>

text \<open>
  \<^verbatim>\<open>SessionManager::ShutDownAllSessions\<close> and \<^verbatim>\<open>Destroy\<close> once more, as the channel runs them: the waiting
  loop calls this channel's \<^verbatim>\<open>Update\<close>.  A round has the reads of that update and the clock after it; past
  the end of the script the time is up.
\<close>

fun wait_for_close :: "ChannelParams \<Rightarrow> u64 \<Rightarrow> (read_script \<times> u64) list \<Rightarrow> MessageChannel \<Rightarrow> MessageChannel option" where
  "wait_for_close P absTimeoutTime [] mc = Some mc"
| "wait_for_close P absTimeoutTime ((reads, now) # rounds) mc =
    (if \<not> IsEmpty (m_sessions (m_sessionManager mc)) then
       (case Channel_Update P reads mc of
          None \<Rightarrow> None
        | Some mc1 \<Rightarrow>
            if \<not> Channel_IsConnected mc1 then Some mc1
            else if absTimeoutTime \<le> now then Some mc1
            else wait_for_close P absTimeoutTime rounds mc1)
     else Some mc)"

definition close_sessions :: "ChannelParams \<Rightarrow> (read_script \<times> u64) list \<Rightarrow> MessageChannel \<Rightarrow> MessageChannel option" where
  "close_sessions P rounds mc =
    (if \<not> IsEmpty (m_sessions (m_sessionManager mc)) then
       (case (if Channel_IsConnected mc
              then (case LockGuard (m_sessionManager mc) (shut_down_each (managerParams P) Success (m_sessionManager mc)) (m_channel mc) of
                      None \<Rightarrow> None
                    | Some (sm, ch) \<Rightarrow>
                        (let (now, ch1) = GetCurrentTimeInMs ch
                         in wait_for_close P (now + 5000) rounds (with_manager mc (sm, ch1))))
              else Some mc) of
          None \<Rightarrow> None
        | Some mc1 \<Rightarrow>
            if \<not> IsEmpty (m_sessions (m_sessionManager mc1)) then
              (case LockGuard (m_sessionManager mc1) (shut_down_each (managerParams P) EndOfStream (m_sessionManager mc1)) (m_channel mc1) of
                 None \<Rightarrow> None
               | Some st \<Rightarrow> Channel_UpdateSessions P (with_manager mc1 st))
            else Some mc1)
     else Some mc)"

definition destroy_manager :: "ChannelParams \<Rightarrow> (read_script \<times> u64) list \<Rightarrow> MessageChannel \<Rightarrow> MessageChannel option" where
  "destroy_manager P rounds mc =
    (if sm_hasChannel (m_sessionManager mc) then
       map_option (\<lambda>mc'. mc'\<lparr>m_sessionManager := (m_sessionManager mc')
           \<lparr>m_protocolServers := Clear (serverHash (managerParams P)) (m_protocolServers (m_sessionManager mc')),
            sm_hasChannel := False\<rparr>\<rparr>)
         (close_sessions P rounds mc)
     else Some mc)"

definition remove_server :: "ChannelParams \<Rightarrow> IProtocolServer option \<Rightarrow> MessageChannel \<Rightarrow> MessageChannel option" where
  "remove_server P pServer mc =
    (case pServer of None \<Rightarrow> Some mc | Some S \<Rightarrow> map_option snd (unregister_server P S mc))"

definition disconnect_notification :: "ClientId \<Rightarrow> MessageBuffer" where
  "disconnect_notification clientId = zero_message\<lparr>header := zero_header
     \<lparr>protocolId := Protocol_ClientManagement, messageId := code_of_ManagementMessage DisconnectNotification,
      srcClientId := clientId, dstClientId := kBroadcastClientId, payloadSize := 0\<rparr>\<rparr>"

definition Unregister :: "ChannelParams \<Rightarrow> (read_script \<times> u64) list \<Rightarrow> MessageChannel \<Rightarrow> MessageChannel option" where
  "Unregister P rounds mc =
    (let mc1 = (if createUpdateThread P then DestroyMsgThread mc else mc) in
     Option.bind (remove_server P (m_pURIServer mc1) mc1) (\<lambda>mc2.
     Option.bind (remove_server P (m_pTransferServer mc2) (mc2\<lparr>m_pURIServer := None\<rparr>)) (\<lambda>mc3.
     Option.bind (destroy_manager P rounds (mc3\<lparr>m_pTransferServer := None\<rparr>)) (\<lambda>mc4.
       Disconnect P
         (if RequiresClientRegistration P \<and> connection mc4 \<noteq> kBroadcastClientId
          then mc4\<lparr>m_channel := snd (WriteTransportMessage (disconnect_notification (connection mc4)) (m_channel mc4))\<rparr>
          else mc4)))))"

text \<open>One turn of the loop of the receiving thread: \<^verbatim>\<open>None\<close> when the thread ends.\<close>

definition receive_turn :: "ChannelParams \<Rightarrow> read_script \<Rightarrow> MessageChannel \<Rightarrow> MessageChannel option option" where
  "receive_turn P reads mc =
    (if m_threadActive mc \<and> Channel_IsConnected mc then Some (Channel_Update P reads mc) else None)"

subsection \<open>Discovering clients\<close>

text \<open>
  \<^verbatim>\<open>DiscoverClients\<close> waits for the receiving thread to fill the queue.  A round of waiting is the list of
  the updates of that thread during the wait, and whether the wait ran out although the event was set
  at last; past the end of the script a wait times out.
\<close>

type_synonym discover_round = "read_script list \<times> bool"

fun run_updates :: "ChannelParams \<Rightarrow> read_script list \<Rightarrow> MessageChannel \<Rightarrow> MessageChannel option" where
  "run_updates P [] mc = Some mc"
| "run_updates P (reads # updates) mc = Option.bind (Channel_Update P reads mc) (run_updates P updates)"

definition PopBack :: "DiscoveredClientsQueue \<Rightarrow> DiscoveredClientInfo \<times> DiscoveredClientsQueue" where
  "PopBack q =
    (if dq_clients q \<noteq> [] then (last (dq_clients q), q\<lparr>dq_clients := butlast (dq_clients q)\<rparr>)
     else (\<lparr>dci_id = 0, dci_metadata = default_ClientMetadata, dci_clientInfo = None\<rparr>, q))"

definition pop_client :: "MessageChannel \<Rightarrow> DiscoveredClientInfo \<times> MessageChannel" where
  "pop_client mc =
    (let (info, q) = PopBack (m_discoveredClientsQueue mc)
     in (info, mc\<lparr>m_discoveredClientsQueue := (if dq_clients q = [] then q\<lparr>dq_hasDataEvent := False\<rparr> else q)\<rparr>))"

text \<open>
  The caller's callback, as a function of the clients it was told of before and the new one; \<open>setMemory\<close>
  is whether the insertion into the hash set of known clients succeeds.
\<close>

record DiscoverClientsInfo =
  pfnCallback :: "DiscoveredClientInfo list \<Rightarrow> DiscoveredClientInfo \<Rightarrow> bool"
  info_filter :: ClientMetadata
  info_timeoutInMs :: u32
  clientSet :: "u32 HashParams"
  setMemory :: bool

text \<open>One pass of the loop body up to the next wait: the result and whether to go on.\<close>

definition discover_one ::
  "DiscoverClientsInfo \<Rightarrow> DiscoveredClientInfo \<Rightarrow> (u32, unit) HashBase \<Rightarrow> DiscoveredClientInfo list
   \<Rightarrow> Result \<times> bool \<times> (u32, unit) HashBase \<times> DiscoveredClientInfo list" where
  "discover_one info client known told =
    (if \<not> Contains (clientSet info) (ucast (dci_id client)) known then
       (let (result, known1) = set_Insert (clientSet info) (setMemory info) (ucast (dci_id client)) known
        in if result = Success then (result, pfnCallback info told client, known1, told @ [client])
           else (result, False, known1, told))
     else (Success, True, known, told))"

text \<open>\<^verbatim>\<open>Wait\<close> and the \<^verbatim>\<open>while\<close> loop up to the wait at its end.\<close>

fun discover_loop ::
  "ChannelParams \<Rightarrow> DiscoverClientsInfo \<Rightarrow> u64 \<Rightarrow> discover_round list \<Rightarrow> (u32, unit) HashBase
   \<Rightarrow> DiscoveredClientInfo list \<Rightarrow> MessageChannel \<Rightarrow> (Result \<times> DiscoveredClientInfo list \<times> MessageChannel) option" where
  "discover_loop P info startTime [] known told mc = Some (NotReady, told, mc)"
| "discover_loop P info startTime ((updates, timedOut) # rounds) known told mc =
    (case run_updates P updates mc of
       None \<Rightarrow> None
     | Some mc1 \<Rightarrow>
         if dq_hasDataEvent (m_discoveredClientsQueue mc1) \<and> \<not> timedOut then
           (let (client, mc2) = pop_client mc1;
                (result, continueDiscovery, known1, told1) = discover_one info client known told
            in
            if result = Success \<and> continueDiscovery then
              (let (now, ch) = GetCurrentTimeInMs (m_channel mc2);
                   mc3 = mc2\<lparr>m_channel := ch\<rparr>
               in if now - startTime < ucast (info_timeoutInMs info)
                  then discover_loop P info startTime rounds known1 told1 mc3
                  else Some (NotReady, told1, mc3))
            else Some (result, told1, mc2))
         else Some (NotReady, told, mc1))"

text \<open>The clients told to the callback, in order, come with the result.\<close>

definition DiscoverClients ::
  "ChannelParams \<Rightarrow> DiscoverClientsInfo \<Rightarrow> discover_round list \<Rightarrow> MessageChannel
   \<Rightarrow> (Result \<times> DiscoveredClientInfo list \<times> MessageChannel) option" where
  "DiscoverClients P info rounds mc =
    (let q = m_discoveredClientsQueue mc;
         (startTime, ch) = GetCurrentTimeInMs (m_channel mc)
     in map_option
          (\<lambda>(result, told, mc'). (result, told,
             mc'\<lparr>m_discoveredClientsQueue := (m_discoveredClientsQueue mc')
                   \<lparr>dq_active := False, dq_clients := [], dq_hasDataEvent := False\<rparr>\<rparr>))
          (discover_loop P info startTime rounds (new_HashBase (clientSet info)) []
             (mc\<lparr>m_discoveredClientsQueue := q\<lparr>dq_filter := info_filter info, dq_active := True\<rparr>, m_channel := ch\<rparr>)))"

text \<open>\<open>pClientId\<close> is whether the pointer is not null; the answer has what is written through the pointers.\<close>

definition FindFirstClient ::
  "ChannelParams \<Rightarrow> DiscoverClientsInfo \<Rightarrow> bool \<Rightarrow> discover_round list \<Rightarrow> MessageChannel
   \<Rightarrow> (Result \<times> (ClientId \<times> ClientMetadata) option \<times> MessageChannel) option" where
  "FindFirstClient P info pClientId rounds mc =
    (if pClientId then
       map_option
         (\<lambda>(result, told, mc').
            (result, if told = [] then None else Some (dci_id (last told), dci_metadata (last told)), mc'))
         (DiscoverClients P (info\<lparr>pfnCallback := \<lambda>_ _. False\<rparr>) rounds mc)
     else Some (Error, None, mc))"

end
