(* ===== verification/Channel_Flow.thy ===== *)
theory Channel_Flow
  imports Manager_Theorems Message_Channel
begin

text \<open>
  What sessions and the session manager do to the channel under them: they consume answers of the
  transport, and the connection is as before unless one of these answers is a failure.  So a lost
  connection stays lost, and a transport that is slow at worst keeps the connection and never blocks the thread.  The servers'
  callbacks must leave the channel alone; the locale \<open>channel_server\<close> adds this to the contract of a
  protocol server.
\<close>

subsection \<open>The relation\<close>

definition patient :: "Result list \<Rightarrow> bool" where
  "patient replies \<longleftrightarrow> set replies \<subseteq> {Success, NotReady}"

text \<open>
  \<open>forwards\<close> is what a part of the code that runs under the mutex does to the channel: the first failure loses
  the connection, and it blocks the thread exactly when it holds the mutex and there are sessions.  Nothing is
  taken back from the wire, and nothing is sent without connection.
\<close>

definition forwards :: "Channel \<Rightarrow> Channel \<Rightarrow> bool" where
  "forwards ch ch' \<longleftrightarrow>
    (\<exists>used. ch_replies ch = used @ ch_replies ch'
       \<and> ch_clientId ch' = (if patient used then ch_clientId ch else kBroadcastClientId)
       \<and> ch_sessionMutex ch' = ch_sessionMutex ch \<and> ch_hasSessions ch' = ch_hasSessions ch
       \<and> (ch_deadlocked ch' \<longleftrightarrow> ch_deadlocked ch
            \<or> \<not> patient used \<and> ch_clientId ch \<noteq> kBroadcastClientId \<and> ch_sessionMutex ch \<and> ch_hasSessions ch))
    \<and> (\<exists>sent. ch_wire ch' = ch_wire ch @ sent \<and> (ch_clientId ch = kBroadcastClientId \<longrightarrow> sent = []))"

lemma patient_append [simp]: "patient (xs @ ys) \<longleftrightarrow> patient xs \<and> patient ys"
  by (simp add: patient_def)

lemma patient_simps [simp]: "patient []" "patient (r # rs) \<longleftrightarrow> r \<in> {Success, NotReady} \<and> patient rs"
  by (auto simp: patient_def)

lemma forwards_same:
  "ch_replies ch' = ch_replies ch \<Longrightarrow> ch_clientId ch' = ch_clientId ch \<Longrightarrow> ch_sessionMutex ch' = ch_sessionMutex ch
   \<Longrightarrow> ch_hasSessions ch' = ch_hasSessions ch \<Longrightarrow> ch_deadlocked ch' = ch_deadlocked ch \<Longrightarrow> ch_wire ch' = ch_wire ch \<Longrightarrow> forwards ch ch'"
  unfolding forwards_def by (intro conjI exI [of _ "[]"]) simp_all

lemma forwards_refl [intro, simp]: "forwards ch ch"
  by (rule forwards_same) simp_all

lemma forwards_offline: "forwards ch ch' \<Longrightarrow> ch_clientId ch = kBroadcastClientId \<Longrightarrow> ch_clientId ch' = kBroadcastClientId"
  by (auto simp: forwards_def)

lemma forwards_trans [trans]:
  assumes "forwards ch ch1" and "forwards ch1 ch2"
  shows "forwards ch ch2"
proof -
  obtain u where u: "ch_replies ch = u @ ch_replies ch1
      \<and> ch_clientId ch1 = (if patient u then ch_clientId ch else kBroadcastClientId)
      \<and> ch_sessionMutex ch1 = ch_sessionMutex ch \<and> ch_hasSessions ch1 = ch_hasSessions ch
      \<and> (ch_deadlocked ch1 \<longleftrightarrow> ch_deadlocked ch
           \<or> \<not> patient u \<and> ch_clientId ch \<noteq> kBroadcastClientId \<and> ch_sessionMutex ch \<and> ch_hasSessions ch)"
    using assms(1) unfolding forwards_def by blast
  obtain v where v: "ch_replies ch1 = v @ ch_replies ch2
      \<and> ch_clientId ch2 = (if patient v then ch_clientId ch1 else kBroadcastClientId)
      \<and> ch_sessionMutex ch2 = ch_sessionMutex ch1 \<and> ch_hasSessions ch2 = ch_hasSessions ch1
      \<and> (ch_deadlocked ch2 \<longleftrightarrow> ch_deadlocked ch1
           \<or> \<not> patient v \<and> ch_clientId ch1 \<noteq> kBroadcastClientId \<and> ch_sessionMutex ch1 \<and> ch_hasSessions ch1)"
    using assms(2) unfolding forwards_def by blast
  obtain w x where wx: "ch_wire ch1 = ch_wire ch @ w" "ch_clientId ch = kBroadcastClientId \<longrightarrow> w = []"
    "ch_wire ch2 = ch_wire ch1 @ x" "ch_clientId ch1 = kBroadcastClientId \<longrightarrow> x = []"
    using assms unfolding forwards_def by blast
  have off: "ch_clientId ch = kBroadcastClientId \<Longrightarrow> ch_clientId ch1 = kBroadcastClientId"
    by (rule forwards_offline [OF assms(1)])
  have "\<exists>sent. ch_wire ch2 = ch_wire ch @ sent \<and> (ch_clientId ch = kBroadcastClientId \<longrightarrow> sent = [])"
    by (rule exI [of _ "w @ x"]) (use wx off in simp)
  moreover have "ch_replies ch = (u @ v) @ ch_replies ch2
      \<and> ch_clientId ch2 = (if patient (u @ v) then ch_clientId ch else kBroadcastClientId)
      \<and> ch_sessionMutex ch2 = ch_sessionMutex ch \<and> ch_hasSessions ch2 = ch_hasSessions ch
      \<and> (ch_deadlocked ch2 \<longleftrightarrow> ch_deadlocked ch
           \<or> \<not> patient (u @ v) \<and> ch_clientId ch \<noteq> kBroadcastClientId \<and> ch_sessionMutex ch \<and> ch_hasSessions ch)"
    by (cases "patient u"; cases "patient v"; use u v in auto)
  ultimately show ?thesis unfolding forwards_def by blast
qed

lemma forwards_Forward:
  assumes "Forward m ch = (r, ch')"
  shows "forwards ch ch'"
proof -
  let ?used = "if ch_clientId ch = kBroadcastClientId then [] else take 1 (ch_replies ch)"
  have "ch_replies ch = ?used @ ch_replies ch'
     \<and> ch_clientId ch' = (if patient ?used then ch_clientId ch else kBroadcastClientId)
     \<and> ch_sessionMutex ch' = ch_sessionMutex ch \<and> ch_hasSessions ch' = ch_hasSessions ch
     \<and> (ch_deadlocked ch' \<longleftrightarrow> ch_deadlocked ch
          \<or> \<not> patient ?used \<and> ch_clientId ch \<noteq> kBroadcastClientId \<and> ch_sessionMutex ch \<and> ch_hasSessions ch)"
    using assms by (cases "ch_replies ch"; cases "ch_clientId ch = kBroadcastClientId")
      (auto simp: Forward_unfold Let_def)
  moreover have "\<exists>sent. ch_wire ch' = ch_wire ch @ sent \<and> (ch_clientId ch = kBroadcastClientId \<longrightarrow> sent = [])"
    using assms by (auto simp: Forward_unfold Let_def split: list.splits if_splits)
  ultimately show ?thesis unfolding forwards_def by blast
qed

lemma forwards_clock: "GetCurrentTimeInMs ch = (t, ch') \<Longrightarrow> forwards ch ch'"
  by (rule forwards_same) (auto simp: GetCurrentTimeInMs_def split: list.splits)

subsection \<open>Sessions\<close>

lemma forwards_Forward_until_ready: "Forward_until_ready m ch = (r, ch') \<Longrightarrow> forwards ch ch'"
proof (induction m ch rule: Forward_until_ready.induct)
  case (1 m ch)
  obtain r1 ch1 where f: "Forward m ch = (r1, ch1)" by fastforce
  show ?case
  proof (cases "r1 = NotReady")
    case True
    then have "Forward_until_ready m ch1 = (r, ch')"
      using "1.prems" f by (simp add: Forward_until_ready.simps [of m ch])
    from "1.IH" [OF f [symmetric] refl True this] forwards_Forward [OF f] show ?thesis
      by (rule forwards_trans [rotated])
  next
    case False
    with "1.prems" f forwards_Forward [OF f] show ?thesis by (simp add: Forward_until_ready.simps [of m ch])
  qed
qed

lemma forwards_SendOrClose: "SendOrClose m s ch = (sent, s', ch') \<Longrightarrow> forwards ch ch'"
  by (auto simp: SendOrClose_def Let_def dest: forwards_Forward_until_ready split: prod.splits if_splits)

lemma forwards_SendAck: "SendAckMessage s ch = (sent, s', ch') \<Longrightarrow> forwards ch ch'"
  by (auto simp: SendAckMessage_def SendControlMessage_def Let_def dest: forwards_SendOrClose)

lemma forwards_Mark: "MarkMessagesAsAcknowledged q s ch = (r, s', ch') \<Longrightarrow> forwards ch ch'"
  by (auto simp: MarkMessagesAsAcknowledged_def Let_def dest!: forwards_SendOrClose forwards_clock
      intro: forwards_trans split: prod.splits if_splits)

lemma forwards_WriteReceive: "WriteMessageIntoReceiveWindow m s ch = (r, s', ch') \<Longrightarrow> forwards ch ch'"
  by (auto simp: WriteMessageIntoReceiveWindow_def Let_def dest!: forwards_SendAck split: prod.splits if_splits)

lemma forwards_dispatch:
  assumes "dispatch m s ch = (s', ch')"
  shows "forwards ch ch'"
  using assms
  by (auto simp: dispatch_def HandleSynAckMessage_def HandleFinMessage_def HandleDataMessage_def HandleAckMessage_def
      Let_def dest!: forwards_Mark forwards_SendAck forwards_WriteReceive intro: forwards_trans
      split: SessionMessage.splits prod.splits if_splits)

lemma forwards_resend_loop: "resend_loop timeout now seq cnt s ch = (cnt', s', ch') \<Longrightarrow> forwards ch ch'"
proof (induction timeout now seq cnt s ch rule: resend_loop.induct)
  case (1 timeout now seq cnt s ch)
  let ?tw = "m_sendWindow s"
  let ?m = "(tw_messages ?tw (slot seq))\<lparr>header := (header (tw_messages ?tw (slot seq)))
              \<lparr>windowSize := rw_currentAvailableSize (m_receiveWindow s)\<rparr>\<rparr>"
  let ?s1 = "s\<lparr>m_sendWindow := ?tw\<lparr>tw_messages := (tw_messages ?tw)(slot seq := ?m)\<rparr>\<rparr>"
  obtain sent s2 ch2 where send: "SendOrClose ?m ?s1 ch = (sent, s2, ch2)" by (metis prod_cases3)
  have e: "forwards ch ch2" by (rule forwards_SendOrClose [OF send])
  show ?case
  proof (cases "seq \<le> tw_lastSentSequence ?tw \<and> \<not> now - tw_initialTransmitTimeInMs ?tw (slot seq) \<le> timeout
      \<and> sent \<and> seq \<noteq> - 1")
    case False
    with "1.prems" e send show ?thesis
      by (subst (asm) resend_loop.simps) (auto simp: Let_def split: if_splits)
  next
    case True
    then have rec: "resend_loop timeout now (seq + 1) (cnt + 1) s2 ch2 = (cnt', s', ch')"
      using "1.prems" send by (subst (asm) resend_loop.simps) (simp add: Let_def)
    have "forwards ch2 ch'"
      by (rule "1.IH" [OF refl refl _ _ refl refl refl refl send [symmetric] refl _ _ rec]) (use True in auto)
    with e show ?thesis by (rule forwards_trans)
  qed
qed

lemma forwards_transmit_one: "transmit_one seq s ch = (go, s', ch') \<Longrightarrow> forwards ch ch'"
  by (auto simp: transmit_one_def Let_def dest!: forwards_Forward forwards_clock intro: forwards_trans
      split: prod.splits if_splits)

lemma forwards_transmit_loop: "transmit_loop seq s ch = Some (s', ch') \<Longrightarrow> forwards ch ch'"
proof (induction seq s ch rule: transmit_loop.induct)
  case (1 seq s ch)
  let ?tw = "m_sendWindow s"
  obtain go s1 ch1 where one: "transmit_one seq s ch = (go, s1, ch1)" by (metis prod_cases3)
  show ?case
  proof (cases "seq < tw_nextSequence ?tw \<and> 0 < tw_lastAvailableSize ?tw")
    case False
    then show ?thesis using "1.prems" by (subst (asm) transmit_loop.simps) (simp only: Let_def if_False, simp)
  next
    case True
    with "1.prems" have ok: "tw_valid ?tw (slot seq) \<and> seq = tw_sequence ?tw (slot seq)"
      by (subst (asm) transmit_loop.simps) (auto simp: Let_def split: if_splits)
    show ?thesis
    proof (cases go)
      case False
      with True ok one "1.prems" forwards_transmit_one [OF one] show ?thesis
        by (subst (asm) transmit_loop.simps) (simp add: Let_def)
    next
      case go: True
      then have un: "transmit_loop (seq + 1) s1 ch1 = Some (s', ch')"
        using True ok one "1.prems" by (subst (asm) transmit_loop.simps) (simp add: Let_def)
      have "forwards ch1 ch'"
        by (rule "1.IH" [OF refl True ok one [symmetric] _ refl un]) (use go in simp)
      with forwards_transmit_one [OF one] show ?thesis by (rule forwards_trans)
    qed
  qed
qed

lemma forwards_UpdateSendWindow:
  assumes "UpdateSendWindow s ch = Some (s', ch')"
  shows "forwards ch ch'"
  using assms
  by (auto simp: UpdateSendWindow_def Let_def dest!: forwards_resend_loop forwards_clock forwards_transmit_loop
      intro: forwards_trans split: prod.splits if_splits)

lemma forwards_UpdateReceiveWindow: "UpdateReceiveWindow s ch = (s', ch') \<Longrightarrow> forwards ch ch'"
  by (auto simp: UpdateReceiveWindow_def Let_def dest!: forwards_SendAck split: prod.splits if_splits)

subsection \<open>Servers that leave the channel alone\<close>

locale channel_server = session_server +
  assumes established_quiet: "snd (srv_SessionEstablished pServer s ch) = ch"
    and update_quiet: "snd (srv_UpdateSession pServer s ch) = ch"
    and terminated_quiet: "snd (srv_SessionTerminated pServer reason s ch) = ch"
begin

lemma forwards_HandleMessage:
  assumes "HandleMessage pServer m s ch = (s', ch')"
  shows "forwards ch ch'"
proof -
  obtain s1 ch1 where d: "dispatch m s ch = (s1, ch1)" by fastforce
  have "ch' = ch1"
    using assms [unfolded HandleMessage_dispatch [OF d]] established_quiet [of s1 ch1]
    by (auto split: if_splits SessionType.splits prod.splits)
  with forwards_dispatch [OF d] show ?thesis by simp
qed

lemma Session_Update_channel:
  assumes "Session_Update pServer refCount s ch = Some (s', ch')"
  obtains s1 ch1 s2 where "UpdateReceiveWindow s ch = (s1, ch1)" "UpdateSendWindow s1 ch1 = Some (s2, ch')"
proof -
  obtain s1 ch1 where u1: "UpdateReceiveWindow s ch = (s1, ch1)" by fastforce
  obtain s2 ch2 where u2: "UpdateSendWindow s1 ch1 = Some (s2, ch2)"
    using assms u1 by (auto simp: Session_Update_def split: option.splits)
  have "ch' = ch2"
    using assms update_quiet terminated_quiet unfolding Session_Update_def u1
    by (auto simp: u2 Let_def split: if_splits prod.splits)
      (metis snd_conv)+
  with u1 u2 show thesis using that by blast
qed

lemma forwards_Session_Update:
  assumes "Session_Update pServer refCount s ch = Some (s', ch')"
  shows "forwards ch ch'"
  using assms
  by (rule Session_Update_channel) (blast intro: forwards_trans forwards_UpdateReceiveWindow forwards_UpdateSendWindow)

lemma forwards_HandleUnregister:
  assumes "HandleUnregisterProtocolServer pServer s ch = (s', ch')"
  shows "forwards ch ch'"
  using assms terminated_quiet [of EndOfStream s ch]
  by (auto simp: HandleUnregisterProtocolServer_def Let_def split: if_splits prod.splits)

end

interpretation program_channel: channel_server "program_server protocol minV maxV accept n est upd fini" n
  for protocol minV maxV accept n est upd fini
  by unfold_locales (auto simp: program_server_def)

lemma channel_server_null: "channel_server null_server b"
  by (rule channel_server.intro [OF session_server_null]) (unfold_locales, simp_all add: null_server_def program_server_def)

lemma forwards_HandleMessage_at:
  assumes "\<And>S. pServer = Some S \<Longrightarrow> channel_server S b" and "HandleMessage_at pServer m s ch = Some (s', ch')"
  shows "forwards ch ch'"
  using assms channel_server.forwards_HandleMessage [OF channel_server_null] channel_server.forwards_HandleMessage
  by (auto simp: HandleMessage_at_def Let_def split: option.splits if_splits prod.splits)

lemma forwards_Session_Update_at:
  assumes "\<And>S. pServer = Some S \<Longrightarrow> channel_server S b" and "Session_Update_at pServer refCount s ch = Some (s', ch')"
  shows "forwards ch ch'"
  using assms channel_server.forwards_Session_Update [OF channel_server_null] channel_server.forwards_Session_Update
  by (auto simp: Session_Update_at_def Let_def split: option.splits if_splits prod.splits)

subsection \<open>The session manager\<close>

text \<open>What the body of a loop keeps, the loop keeps.\<close>

lemma sweep_keeps:
  assumes "\<And>e s rm s'. body e s = Some (rm, s') \<Longrightarrow> J s \<Longrightarrow> J s'"
    and "sweep P body fuel it h s = Some (h', s')" and "J s"
  shows "J s'"
  using assms(2,3)
proof (induction fuel arbitrary: it h s)
  case 0
  then show ?case by (auto simp: sweep.simps split: if_splits)
next
  case (Suc n)
  then show ?case
    by (subst (asm) (2) sweep.simps) (auto simp: Let_def dest: assms(1) split: if_splits option.splits prod.splits)
qed

lemma for_sessions_forwards:
  assumes "\<And>k p s ch rm s' ch'. f k p s ch = Some (rm, s', ch') \<Longrightarrow> forwards ch ch'"
    and "for_sessions Q f sm ch = Some (sm', ch')"
  shows "forwards ch ch'"
proof -
  obtain h objs where "for_entries (sessionHash Q) (on_object f) (m_sessions sm) (sm_objects sm, ch) = Some (h, objs, ch')"
    using assms(2) by (auto simp: for_sessions_def)
  then show ?thesis
    unfolding for_entries_def
    by (rule sweep_keeps [where J = "\<lambda>st. forwards ch (snd st)" and s' = "(objs, ch')", simplified, rotated])
      (auto simp: on_object_def split: option.splits intro: forwards_trans [OF _ assms(1)])
qed

text \<open>All registered servers leave the channel alone.\<close>

definition quiet_servers :: "ManagerParams \<Rightarrow> nat \<Rightarrow> SessionManager \<Rightarrow> bool" where
  "quiet_servers Q b sm \<longleftrightarrow>
    (\<forall>key S. lookup (serverHash Q) (m_protocolServers sm) key = Some S \<longrightarrow> channel_server S b)"

lemma quiet_serversD:
  assumes "quiet_servers Q b sm" and "hb_inv (serverHash Q) (m_protocolServers sm)"
    and "GetProtocolServer Q protocol sm = Some S"
  shows "channel_server S b"
  using assms by (simp add: quiet_servers_def GetProtocolServer_lookup)

lemma update_sessions_forwards:
  assumes "quiet_servers Q b sm" and "hb_inv (serverHash Q) (m_protocolServers sm)"
    and "update_sessions Q sm ch = Some (sm', ch')"
  shows "forwards ch ch'"
  by (rule for_sessions_forwards [OF _ assms(3) [unfolded update_sessions_def]])
    (auto split: if_splits intro: forwards_Session_Update_at [OF quiet_serversD [OF assms(1,2)]])

lemma shut_down_each_forwards: "shut_down_each Q r sm ch = Some (sm', ch') \<Longrightarrow> forwards ch ch'"
  unfolding shut_down_each_def by (erule for_sessions_forwards [rotated]) simp

lemma handle_client_disconnection_forwards: "handle_client_disconnection Q dst sm ch = Some (sm', ch') \<Longrightarrow> forwards ch ch'"
  unfolding handle_client_disconnection_def by (erule for_sessions_forwards [rotated]) simp

lemma unregister_protocol_server_forwards:
  assumes "channel_server S b" and "unregister_protocol_server Q S sm ch = Some (r, sm', ch')"
  shows "forwards ch ch'"
  using assms(2)
  by (auto simp: unregister_protocol_server_def Let_def split: if_splits option.splits prod.splits
      dest!: for_sessions_forwards [rotated] dest: channel_server.forwards_HandleUnregister [OF assms(1)])

lemma forwards_SendReset: "forwards ch (snd (SendReset remote sid reason version sm ch))"
  by (cases "SendReset remote sid reason version sm ch")
    (auto simp: SendReset_def SendCommand_def dest: forwards_Forward)

subsection \<open>The update of a session\<close>

lemma sample_channel_server: "channel_server sample_server 2"
  unfolding sample_server_def by (rule program_channel.channel_server_axioms)

text \<open>C3.
  \<^verbatim>\<open>Session::Update\<close> runs to its end, if more than 1 + 2b sequence numbers are left below \<open>2 ^ 64\<close> and the
  server keeps its contract of at most b packets per callback: the retransmission loop ends, and the transmission loop never
  reaches its corrupted-window branch, in which it would spin forever.  Afterwards the invariant
  holds.  If the server leaves the channel alone, the thread is left waiting in \<^verbatim>\<open>Forward\<close> for the mutex of the session
  manager exactly when it holds that mutex, the channel is connected with sessions open, and one of the
  transport's answers was an outright failure (on the POSIX platforms).
\<close>

theorem Session_Update_returns:
  assumes "protocol_server pServer b" and "session_inv k s" and "tw_headroom (1 + b + b) s"
  shows "\<exists>s' ch'. Session_Update pServer refCount s ch = Some (s', ch') \<and> session_inv k s'
    \<and> (channel_server pServer b \<and> \<not> ch_deadlocked ch \<longrightarrow>
         (\<exists>used. ch_replies ch = used @ ch_replies ch'
            \<and> (ch_deadlocked ch' \<longleftrightarrow> \<not> set used \<subseteq> {Success, NotReady} \<and> ch_clientId ch \<noteq> kBroadcastClientId
                 \<and> ch_sessionMutex ch \<and> ch_hasSessions ch)))"
proof -
  obtain s' ch' where u: "Session_Update pServer refCount s ch = Some (s', ch')" "session_inv k s'"
    using protocol_server.Session_Update_keeps [OF assms] keeps_inv by blast
  have "channel_server pServer b \<Longrightarrow> forwards ch ch'" by (rule channel_server.forwards_Session_Update [OF _ u(1)])
  with u show ?thesis by (fastforce simp: forwards_def patient_def)
qed

theorem Session_Update_returns_witness:
  "\<exists>s' ch'. Session_Update sample_server 2 sample_session sample_channel = Some (s', ch')
     \<and> session_inv 0 s' \<and> \<not> ch_deadlocked ch'"
  using Session_Update_returns [OF sample_server_ok sample_session_inv sample_session_room(2), of 2 sample_channel]
    sample_channel_server by (auto simp: sample_channel_def)

end
