(* ===== verification/Manager_Locks.thy ===== *)
theory Manager_Locks
  imports Channel_Flow
begin

text \<open>
  The session manager's operations under their mutex: what the blocks leave alone, what an operation does to
  the channel when it returns, and when it returns: the thread must not hold the mutex, and no write may fail
  outright while the channel is connected.  The last section has the shutdown of all sessions and the
  safety of the manager.
\<close>

subsection \<open>The mutex\<close>

text \<open>An operation that returned: the thread is as free as before, and the answers tell what became of the connection.\<close>

definition evolves :: "Channel \<Rightarrow> Channel \<Rightarrow> bool" where
  "evolves ch ch' \<longleftrightarrow>
    (\<exists>used. ch_replies ch = used @ ch_replies ch'
       \<and> ch_clientId ch' = (if patient used then ch_clientId ch else kBroadcastClientId)
       \<and> ch_sessionMutex ch' = ch_sessionMutex ch \<and> ch_deadlocked ch' = ch_deadlocked ch)
    \<and> (\<exists>sent. ch_wire ch' = ch_wire ch @ sent \<and> (ch_clientId ch = kBroadcastClientId \<longrightarrow> sent = []))"

text \<open>The thread may take the mutex, and nothing will go wrong under it.\<close>

definition ready :: "Channel \<Rightarrow> bool" where
  "ready ch \<longleftrightarrow> \<not> ch_sessionMutex ch \<and> \<not> ch_deadlocked ch
     \<and> (ch_clientId ch = kBroadcastClientId \<or> patient (ch_replies ch))"

abbreviation entered :: "SessionManager \<Rightarrow> Channel \<Rightarrow> Channel" where
  "entered sm ch \<equiv> ch\<lparr>ch_sessionMutex := True, ch_hasSessions := (\<not> IsEmpty (m_sessions sm))\<rparr>"

lemma evolves_same:
  "ch_replies ch' = ch_replies ch \<Longrightarrow> ch_clientId ch' = ch_clientId ch \<Longrightarrow> ch_sessionMutex ch' = ch_sessionMutex ch
   \<Longrightarrow> ch_deadlocked ch' = ch_deadlocked ch \<Longrightarrow> ch_wire ch' = ch_wire ch \<Longrightarrow> evolves ch ch'"
  unfolding evolves_def by (intro conjI exI [of _ "[]"]) simp_all

lemma evolves_refl [intro, simp]: "evolves ch ch"
  by (rule evolves_same) simp_all

lemma evolves_offline: "evolves ch ch' \<Longrightarrow> ch_clientId ch = kBroadcastClientId \<Longrightarrow> ch_clientId ch' = kBroadcastClientId"
  by (auto simp: evolves_def)

lemma evolves_trans [trans]:
  assumes "evolves ch ch1" and "evolves ch1 ch2"
  shows "evolves ch ch2"
proof -
  obtain u v where uv: "ch_replies ch = u @ ch_replies ch1" "ch_replies ch1 = v @ ch_replies ch2"
    "ch_clientId ch1 = (if patient u then ch_clientId ch else kBroadcastClientId)"
    "ch_clientId ch2 = (if patient v then ch_clientId ch1 else kBroadcastClientId)"
    using assms unfolding evolves_def by blast
  obtain w x where wx: "ch_wire ch1 = ch_wire ch @ w" "ch_clientId ch = kBroadcastClientId \<longrightarrow> w = []"
    "ch_wire ch2 = ch_wire ch1 @ x" "ch_clientId ch1 = kBroadcastClientId \<longrightarrow> x = []"
    using assms unfolding evolves_def by blast
  have off: "ch_clientId ch = kBroadcastClientId \<Longrightarrow> ch_clientId ch1 = kBroadcastClientId"
    by (rule evolves_offline [OF assms(1)])
  have "ch_replies ch = (u @ v) @ ch_replies ch2"
    "ch_clientId ch2 = (if patient (u @ v) then ch_clientId ch else kBroadcastClientId)" using uv by auto
  moreover have "ch_sessionMutex ch2 = ch_sessionMutex ch" "ch_deadlocked ch2 = ch_deadlocked ch"
    using assms by (auto simp: evolves_def)
  moreover have "\<exists>sent. ch_wire ch2 = ch_wire ch @ sent \<and> (ch_clientId ch = kBroadcastClientId \<longrightarrow> sent = [])"
    by (rule exI [of _ "w @ x"]) (use wx off in simp)
  ultimately show ?thesis unfolding evolves_def by blast
qed

lemma evolves_patient:
  assumes "evolves ch ch'" and "patient (ch_replies ch)"
  shows "ch_clientId ch' = ch_clientId ch" and "patient (ch_replies ch')"
  using assms by (auto simp: evolves_def)

lemma evolves_ready: "evolves ch ch' \<Longrightarrow> ready ch \<Longrightarrow> ready ch'"
  by (auto simp: evolves_def ready_def)

lemma evolves_clock: "GetCurrentTimeInMs ch = (t, ch') \<Longrightarrow> evolves ch ch'"
  by (rule evolves_same) (auto simp: GetCurrentTimeInMs_def split: list.splits)

text \<open>A block that runs to its end, under the mutex.\<close>

lemma LockGuard_eq:
  "LockGuard sm f ch =
    (if ch_sessionMutex ch then None
     else case f (entered sm ch) of
       None \<Rightarrow> None
     | Some (x, ch2) \<Rightarrow> if ch_deadlocked ch2 then None else Some (x, Mutex_Unlock ch2))"
  by (simp add: LockGuard_def Mutex_Lock_def sees_sessions_def)

lemma entered_evolves:
  assumes "forwards (entered sm1 ch) ch2" and "\<not> ch_sessionMutex ch" and "\<not> ch_deadlocked ch2"
  shows "evolves ch (Mutex_Unlock ch2)"
  using assms by (auto simp: forwards_def evolves_def Mutex_Unlock_def)

lemma LockGuard_evolves:
  assumes "LockGuard sm f ch = Some (x, ch')"
    and "\<And>ch2. f (entered sm ch) = Some (x, ch2) \<Longrightarrow> \<exists>sm1. forwards (entered sm1 ch) ch2"
  shows "evolves ch ch'"
  using assms entered_evolves by (fastforce simp: LockGuard_eq split: if_splits option.splits)

lemma LockGuard_runs:
  assumes "ready ch" and "f (entered sm ch) = Some (x, ch2)" and "forwards (entered seen ch) ch2"
  shows "LockGuard sm f ch = Some (x, Mutex_Unlock ch2)"
proof -
  have "\<not> ch_deadlocked ch2" using assms(1,3) by (auto simp: forwards_def ready_def)
  with assms(1,2) show ?thesis by (simp add: LockGuard_eq ready_def)
qed

subsection \<open>What the manager's operations leave alone\<close>

lemma for_sessions_rest:
  "for_sessions Q f sm ch = Some (sm', ch') \<Longrightarrow>
     m_protocolServers sm' = m_protocolServers sm \<and> sm_handles sm' = sm_handles sm \<and> sm_hasChannel sm' = sm_hasChannel sm"
  by (auto simp: for_sessions_def)

lemma update_sessions_rest:
  "update_sessions Q sm ch = Some (sm', ch') \<Longrightarrow>
     m_protocolServers sm' = m_protocolServers sm \<and> sm_hasChannel sm' = sm_hasChannel sm"
  unfolding update_sessions_def by (blast dest: for_sessions_rest)

lemma shut_down_each_rest:
  "shut_down_each Q r sm ch = Some (sm', ch') \<Longrightarrow>
     m_protocolServers sm' = m_protocolServers sm \<and> sm_hasChannel sm' = sm_hasChannel sm"
  unfolding shut_down_each_def by (blast dest: for_sessions_rest)

lemma handle_client_disconnection_rest:
  "handle_client_disconnection Q dst sm ch = Some (sm', ch') \<Longrightarrow>
     m_protocolServers sm' = m_protocolServers sm \<and> sm_hasChannel sm' = sm_hasChannel sm"
  unfolding handle_client_disconnection_def by (blast dest: for_sessions_rest)

lemma GetNewSessionId_rest:
  "GetNewSessionId Q r sm = Some (sid, sm') \<Longrightarrow>
     m_protocolServers sm' = m_protocolServers sm \<and> sm_hasChannel sm' = sm_hasChannel sm"
  using GetNewSessionId_free(2) by fastforce

lemma RegisterProtocolServer_rest:
  assumes inv: "mgr_inv Q b sm" and r: "RegisterProtocolServer Q al S sm = (result, sm')"
  shows "m_sessions sm' = m_sessions sm" and "sm_objects sm' = sm_objects sm" and "sm_hasChannel sm' = sm_hasChannel sm"
    and "quiet_servers Q b sm \<Longrightarrow> channel_server S b \<Longrightarrow> quiet_servers Q b sm'"
proof -
  have hi: "hb_inv (serverHash Q) (m_protocolServers sm)" using inv by (simp add: mgr_inv_def server_ok_def)
  obtain servers where c: "Create (serverHash Q) (allocEntry al) (srv_protocol S) S (m_protocolServers sm) = (result, servers)"
    and sm': "sm' = sm\<lparr>m_protocolServers := servers\<rparr>"
    using r by (auto simp: RegisterProtocolServer_def split: prod.splits)
  have "lookup (serverHash Q) servers = lookup (serverHash Q) (m_protocolServers sm)
      \<or> lookup (serverHash Q) servers = (lookup (serverHash Q) (m_protocolServers sm))(srv_protocol S \<mapsto> S)"
    using Create_spec(2,3) [OF hi c] by blast
  then show "quiet_servers Q b sm \<Longrightarrow> channel_server S b \<Longrightarrow> quiet_servers Q b sm'"
    by (auto simp: quiet_servers_def sm' split: if_splits)
qed (use r in \<open>auto simp: RegisterProtocolServer_def split: prod.splits\<close>)

lemma select_syn_rest:
  "select_syn Q al m sm ch = Some (target, reason, version, sm') \<Longrightarrow>
     m_protocolServers sm' = m_protocolServers sm \<and> sm_hasChannel sm' = sm_hasChannel sm"
  by (auto simp: select_syn_def Let_def new_object_def dest!: GetNewSessionId_rest
      split: option.splits prod.splits if_splits)

lemma select_synack_rest:
  "select_synack Q al m sm = Some (target, reason, version, sm') \<Longrightarrow>
     m_protocolServers sm' = m_protocolServers sm \<and> sm_hasChannel sm' = sm_hasChannel sm"
  by (auto simp: select_synack_def Let_def split: option.splits prod.splits if_splits)

lemma select_open_rest: "select_open Q m sm = Some (target, reason, version, sm') \<Longrightarrow> sm' = sm"
  by (auto simp: select_open_def)

lemma handle_session_message_parts:
  assumes h: "handle_session_message Q al m sm ch = Some (sm', ch')"
  obtains target reason version sm1 where
    "m_protocolServers sm1 = m_protocolServers sm" "sm_hasChannel sm1 = sm_hasChannel sm"
    "case target of
       None \<Rightarrow> sm' = sm1 \<and> ch' = snd (SendReset (srcClientId (header m)) (sessionId (header m)) reason version sm1 (sees_sessions sm1 ch))
     | Some p \<Rightarrow> \<exists>s s'. sm_objects sm1 p = Some s
         \<and> HandleMessage_at (GetProtocolServer Q (m_protocol s) sm1) m s (sees_sessions sm1 ch) = Some (s', ch')
         \<and> sm' = sm1\<lparr>sm_objects := (sm_objects sm1)(p \<mapsto> s')\<rparr>"
proof -
  let ?sel = "case SessionMessage_of (messageId (header m)) of
             Syn \<Rightarrow> select_syn Q al m sm ch
           | SynAck \<Rightarrow> select_synack Q al m sm
           | Fin \<Rightarrow> select_open Q m sm
           | Data \<Rightarrow> select_open Q m sm
           | Ack \<Rightarrow> select_open Q m sm
           | Rst \<Rightarrow> select_open Q m sm
           | _ \<Rightarrow> Some (None, Unavailable, 0, sm)"
  obtain target reason version sm1 where sel: "?sel = Some (target, reason, version, sm1)"
    using h unfolding handle_session_message_def by (cases ?sel) auto
  have "m_protocolServers sm1 = m_protocolServers sm \<and> sm_hasChannel sm1 = sm_hasChannel sm"
    using sel by (cases "SessionMessage_of (messageId (header m))")
      (auto dest: select_syn_rest select_synack_rest select_open_rest)
  moreover have "case target of
       None \<Rightarrow> sm' = sm1 \<and> ch' = snd (SendReset (srcClientId (header m)) (sessionId (header m)) reason version sm1 (sees_sessions sm1 ch))
     | Some p \<Rightarrow> \<exists>s s'. sm_objects sm1 p = Some s
         \<and> HandleMessage_at (GetProtocolServer Q (m_protocol s) sm1) m s (sees_sessions sm1 ch) = Some (s', ch')
         \<and> sm' = sm1\<lparr>sm_objects := (sm_objects sm1)(p \<mapsto> s')\<rparr>"
    using h unfolding handle_session_message_def sel by (auto split: option.splits)
  ultimately show thesis using that by blast
qed

lemma handle_session_message_forwards:
  assumes q: "quiet_servers Q b sm" and h: "handle_session_message Q al m sm ch = Some (sm', ch')"
  shows "\<exists>sm1. forwards (sees_sessions sm1 ch) ch'"
proof -
  have srv: "channel_server S b" if "m_protocolServers sm1 = m_protocolServers sm" "GetProtocolServer Q pr sm1 = Some S" for sm1 pr S
    using q that by (simp add: quiet_servers_def GetProtocolServer_lookup)
  from h show ?thesis
  proof (rule handle_session_message_parts)
    fix target reason version sm1
    assume "m_protocolServers sm1 = m_protocolServers sm"
      and "case target of
       None \<Rightarrow> sm' = sm1 \<and> ch' = snd (SendReset (srcClientId (header m)) (sessionId (header m)) reason version sm1 (sees_sessions sm1 ch))
     | Some p \<Rightarrow> \<exists>s s'. sm_objects sm1 p = Some s
         \<and> HandleMessage_at (GetProtocolServer Q (m_protocol s) sm1) m s (sees_sessions sm1 ch) = Some (s', ch')
         \<and> sm' = sm1\<lparr>sm_objects := (sm_objects sm1)(p \<mapsto> s')\<rparr>"
    then have "forwards (sees_sessions sm1 ch) ch'"
      by (auto split: option.splits intro: forwards_SendReset forwards_HandleMessage_at dest: srv)
    then show ?thesis by blast
  qed
qed

lemma handle_session_message_rest:
  assumes "handle_session_message Q al m sm ch = Some (sm', ch')"
  shows "m_protocolServers sm' = m_protocolServers sm" and "sm_hasChannel sm' = sm_hasChannel sm"
  using assms by (auto elim!: handle_session_message_parts split: option.splits)

text \<open>An update without sessions does nothing.\<close>

lemma IsEmpty_entries:
  assumes "hb_inv P h"
  shows "all_entries h = [] \<Longrightarrow> IsEmpty h"
    and "length (all_entries h) < 2 ^ 32 \<Longrightarrow> IsEmpty h \<Longrightarrow> all_entries h = []"
    and "lookup P h = Map.empty \<Longrightarrow> all_entries h = []"
  using hb_invD(5) [OF assms] lookup_all_entries [OF assms]
  by (auto simp: IsEmpty_def unat_of_nat take_bit_nat_eq_self simp flip: unat_eq_0)

lemma update_sessions_none:
  assumes inv: "hb_inv (sessionHash Q) (m_sessions sm)" and none: "all_entries (m_sessions sm) = []"
  shows "update_sessions Q sm ch = Some (sm, ch)"
proof -
  let ?P = "sessionHash Q" and ?h = "m_sessions sm"
  have small: "length (all_entries ?h) < 2 ^ 32" using none by simp
  then have "remaining ?P ?h (Begin ?P ?h) = []" using Begin_spec(2) [OF inv small] none by simp
  then have "Equals (Begin ?P ?h) (End ?P ?h)"
    using End_iff [OF inv Begin_spec(1) [OF inv small]] by simp
  then have "for_entries ?P f ?h st = Some (?h, st)" for f :: "(SessionId, nat, (nat \<rightharpoonup> Session) \<times> Channel) loop_body" and st
    by (subst for_entries_def, subst sweep.simps) simp
  then show ?thesis by (simp add: update_sessions_def for_sessions_def)
qed

subsection \<open>The operations under the mutex\<close>

lemma servers_hb: "mgr_inv Q b sm \<Longrightarrow> hb_inv (serverHash Q) (m_protocolServers sm)"
  and sessions_hb: "mgr_inv Q b sm \<Longrightarrow> hb_inv (sessionHash Q) (m_sessions sm)"
  by (simp_all add: mgr_inv_def server_ok_def pointers_ok_def)

lemma UpdateSessions_evolves:
  assumes "quiet_servers Q b sm" and "hb_inv (serverHash Q) (m_protocolServers sm)"
    and "UpdateSessions Q sm ch = Some (sm', ch')"
  shows "evolves ch ch'"
  using assms(3) unfolding UpdateSessions_def
  by (rule LockGuard_evolves) (blast intro: update_sessions_forwards [OF assms(1,2)])

lemma HandleReceivedSessionMessage_evolves:
  assumes "quiet_servers Q b sm" and "HandleReceivedSessionMessage Q al m sm ch = Some (sm', ch')"
  shows "evolves ch ch'"
  using assms(2) unfolding HandleReceivedSessionMessage_def
  by (rule LockGuard_evolves) (use handle_session_message_forwards [OF assms(1)] in \<open>fastforce simp: sees_sessions_def\<close>)

lemma HandleClientDisconnection_evolves:
  assumes "HandleClientDisconnection Q dst sm ch = Some (sm', ch')"
  shows "evolves ch ch'"
  using assms unfolding HandleClientDisconnection_def
  by (rule LockGuard_evolves) (blast intro: handle_client_disconnection_forwards)

lemma UnregisterProtocolServer_evolves:
  assumes "channel_server S b" and "UnregisterProtocolServer Q S sm ch = Some (r, sm', ch')"
  shows "evolves ch ch'"
proof -
  obtain x where "LockGuard sm (\<lambda>ch1. map_option (\<lambda>(result, sm', ch'). ((result, sm'), ch'))
      (unregister_protocol_server Q S sm ch1)) ch = Some (x, ch')"
    using assms(2) by (auto simp: UnregisterProtocolServer_def)
  then show ?thesis
    by (rule LockGuard_evolves) (auto intro: unregister_protocol_server_forwards [OF assms(1)])
qed

lemma UpdateSessions_returns:
  assumes "mgr_inv Q b sm" and "mgr_room Q b sm" and "quiet_servers Q b sm" and "ready ch"
  shows "\<exists>sm' ch'. UpdateSessions Q sm ch = Some (sm', ch') \<and> mgr_inv Q b sm' \<and> evolves ch ch'"
proof -
  obtain sm' ch2 where u: "update_sessions Q sm (entered sm ch) = Some (sm', ch2)" "mgr_inv Q b sm'"
    using update_sessions_spec [OF assms(1,2)] by blast
  have "UpdateSessions Q sm ch = Some (sm', Mutex_Unlock ch2)"
    unfolding UpdateSessions_def
    by (rule LockGuard_runs [where f = "update_sessions Q sm" and seen = sm,
          OF assms(4) u(1) update_sessions_forwards [OF assms(3) servers_hb [OF assms(1)] u(1)]])
  with u(2) UpdateSessions_evolves [OF assms(3) servers_hb [OF assms(1)]] show ?thesis by blast
qed

lemma HandleReceivedSessionMessage_returns:
  assumes "mgr_inv Q b sm" and "mgr_room Q b sm" and "quiet_servers Q b sm" and "ready ch"
    and "messageId (header m) = 1 \<longrightarrow> (\<exists>sid. free_id Q sm (sessionId (header m)) sid)"
  shows "\<exists>sm' ch'. HandleReceivedSessionMessage Q al m sm ch = Some (sm', ch') \<and> mgr_inv Q b sm' \<and> evolves ch ch'"
proof -
  obtain sm' ch2 where u: "handle_session_message Q al m sm (entered sm ch) = Some (sm', ch2)" "mgr_inv Q b sm'"
    using handle_session_message_spec [OF assms(1,2)] assms(5) by blast
  obtain sm1 where "forwards (sees_sessions sm1 (entered sm ch)) ch2"
    using handle_session_message_forwards [OF assms(3) u(1)] by blast
  then have "forwards (entered sm1 ch) ch2" by (simp add: sees_sessions_def)
  from LockGuard_runs [where f = "handle_session_message Q al m sm", OF assms(4) u(1) this] have "HandleReceivedSessionMessage Q al m sm ch = Some (sm', Mutex_Unlock ch2)"
    by (simp add: HandleReceivedSessionMessage_def)
  with u(2) HandleReceivedSessionMessage_evolves [OF assms(3)] show ?thesis by blast
qed

subsection \<open>Shutting down all sessions\<close>

lemma locked_rest:
  "LockGuard sm (shut_down_each Q r sm) ch = Some (sm', ch') \<Longrightarrow>
     m_protocolServers sm' = m_protocolServers sm \<and> sm_hasChannel sm' = sm_hasChannel sm"
  "UpdateSessions Q sm ch = Some (sm', ch') \<Longrightarrow>
     m_protocolServers sm' = m_protocolServers sm \<and> sm_hasChannel sm' = sm_hasChannel sm"
  "HandleClientDisconnection Q dst sm ch = Some (sm', ch') \<Longrightarrow>
     m_protocolServers sm' = m_protocolServers sm \<and> sm_hasChannel sm' = sm_hasChannel sm"
  "HandleReceivedSessionMessage Q al m sm ch = Some (sm', ch') \<Longrightarrow>
     m_protocolServers sm' = m_protocolServers sm \<and> sm_hasChannel sm' = sm_hasChannel sm"
  using handle_session_message_rest
  by (auto dest!: LockGuard_SomeD locked_ops_block dest: shut_down_each_rest update_sessions_rest handle_client_disconnection_rest)

lemma locked_shut_down_each:
  assumes "mgr_inv Q b sm" and "mgr_room Q b sm" and "ready ch"
  shows "\<exists>sm1 ch1 ch2 ch3. LockGuard sm (shut_down_each Q r sm) ch = Some (sm1, ch1) \<and> evolves ch ch1
    \<and> mgr_inv Q b sm1 \<and> mgr_room Q b sm1 \<and> shut_down_each Q r sm ch2 = Some (sm1, ch3)"
proof -
  obtain sm1 ch3 where u: "shut_down_each Q r sm (entered sm ch) = Some (sm1, ch3)" "mgr_inv Q b sm1" "mgr_room Q b sm1"
    using shut_down_each_inv [OF assms(1,2), of r "entered sm ch"] by blast
  note l = LockGuard_runs [where f = "shut_down_each Q r sm", OF assms(3) u(1) shut_down_each_forwards [OF u(1)]]
  have "evolves ch (Mutex_Unlock ch3)"
    using l by (rule LockGuard_evolves) (blast intro: shut_down_each_forwards)
  with l u show ?thesis by blast
qed

lemma forced_close:
  assumes inv: "mgr_inv Q b sm" and room: "mgr_room Q b sm" and quiet: "quiet_servers Q b sm" and r: "ready ch"
  shows "\<exists>sm1 ch1 sm2 ch2. LockGuard sm (shut_down_each Q EndOfStream sm) ch = Some (sm1, ch1)
    \<and> UpdateSessions Q sm1 ch1 = Some (sm2, ch2) \<and> mgr_inv Q b sm2 \<and> evolves ch ch2
    \<and> lookup (sessionHash Q) (m_sessions sm2) = Map.empty"
proof -
  obtain sm1 ch1 cha chb where s: "LockGuard sm (shut_down_each Q EndOfStream sm) ch = Some (sm1, ch1)" "evolves ch ch1"
    "mgr_inv Q b sm1" "mgr_room Q b sm1" "shut_down_each Q EndOfStream sm cha = Some (sm1, chb)"
    using locked_shut_down_each [OF inv room r, of EndOfStream] by blast
  have q1: "quiet_servers Q b sm1" using quiet locked_rest(1) [OF s(1)] by (simp add: quiet_servers_def)
  obtain sm2 ch2 where u: "UpdateSessions Q sm1 ch1 = Some (sm2, ch2)" "mgr_inv Q b sm2" "evolves ch1 ch2"
    using UpdateSessions_returns [OF s(3,4) q1 evolves_ready [OF s(2) r]] by blast
  obtain chc chd where "update_sessions Q sm1 chc = Some (sm2, chd)" using locked_ops_block(1) [OF u(1)] by blast
  then have "lookup (sessionHash Q) (m_sessions sm2) = Map.empty"
    using forced_shutdown [OF inv room s(5), of chc] by auto
  with s(1,2) u evolves_trans show ?thesis by blast
qed

text \<open>The forced shutdown of a channel without connection.\<close>

lemma forced_shutdown_spec:
  assumes inv: "mgr_inv Q b sm" and room: "mgr_room Q b sm" and quiet: "quiet_servers Q b sm" and r: "ready ch"
  shows "\<exists>sm' ch'. ShutDownAllSessions Q False [] sm ch = Some (sm', ch') \<and> mgr_inv Q b sm'
    \<and> all_entries (m_sessions sm') = [] \<and> m_protocolServers sm' = m_protocolServers sm
    \<and> sm_hasChannel sm' = sm_hasChannel sm \<and> evolves ch ch'"
proof (cases "IsEmpty (m_sessions sm)")
  case True
  then have "all_entries (m_sessions sm) = []"
    using IsEmpty_entries(2) [OF sessions_hb [OF inv]] room by (simp add: mgr_room_def)
  with True inv show ?thesis by (auto simp: ShutDownAllSessions_def)
next
  case False
  obtain sm1 ch1 sm2 ch2 where s: "LockGuard sm (shut_down_each Q EndOfStream sm) ch = Some (sm1, ch1)"
    "UpdateSessions Q sm1 ch1 = Some (sm2, ch2)" "mgr_inv Q b sm2" "evolves ch ch2"
    "lookup (sessionHash Q) (m_sessions sm2) = Map.empty"
    using forced_close [OF inv room quiet r] by blast
  have "ShutDownAllSessions Q False [] sm ch = Some (sm2, ch2)" using False s(1,2) by (simp add: ShutDownAllSessions_def)
  moreover have "all_entries (m_sessions sm2) = []" by (rule IsEmpty_entries(3) [OF sessions_hb [OF s(3)] s(5)])
  ultimately show ?thesis using s(3,4) locked_rest(1) [OF s(1)] locked_rest(2) [OF s(2)] by auto
qed

text \<open>
  Whatever the wait for a graceful shutdown does, the forced part leaves no session, as long as each round leaves
  the manager in order and the thread free.
\<close>

definition mgr_ok :: "ManagerParams \<Rightarrow> nat \<Rightarrow> SessionManager \<times> Channel \<Rightarrow> bool" where
  "mgr_ok Q b st \<longleftrightarrow> mgr_inv Q b (fst st) \<and> mgr_room Q b (fst st) \<and> quiet_servers Q b (fst st) \<and> ready (snd st)"

definition rounds_ok :: "ManagerParams \<Rightarrow> nat \<Rightarrow> wait_round list \<Rightarrow> bool" where
  "rounds_ok Q b rounds \<longleftrightarrow> (\<forall>(update, _, _) \<in> set rounds. \<forall>st. mgr_ok Q b st \<longrightarrow> (\<exists>st'. update st = Some st' \<and> mgr_ok Q b st'))"

lemma wait_for_sessions_ok:
  "rounds_ok Q b rounds \<Longrightarrow> mgr_ok Q b (sm, ch) \<Longrightarrow> \<exists>st'. wait_for_sessions rounds sm ch = Some st' \<and> mgr_ok Q b st'"
proof (induction rounds sm ch rule: wait_for_sessions.induct)
  case (2 update connd timeUp rounds sm ch)
  have "\<forall>st. mgr_ok Q b st \<longrightarrow> (\<exists>st'. update st = Some st' \<and> mgr_ok Q b st')"
    using "2.prems"(1) by (simp add: rounds_ok_def)
  then obtain st' where "update (sm, ch) = Some st'" "mgr_ok Q b st'" using "2.prems"(2) by blast
  then obtain sm1 ch1 where u: "update (sm, ch) = Some (sm1, ch1)" "mgr_ok Q b (sm1, ch1)" by (cases st') blast
  have "rounds_ok Q b rounds" using "2.prems"(1) by (auto simp: rounds_ok_def)
  note IH = "2.IH" [OF _ u(1) refl _ _ this u(2)]
  show ?case
  proof (cases "\<not> IsEmpty (m_sessions sm) \<and> connd \<and> \<not> timeUp")
    case True
    with IH u(1) show ?thesis by simp
  next
    case False
    with u "2.prems"(2) show ?thesis by auto
  qed
qed simp

theorem ShutDownAllSessions_leaves_none:
  assumes ok: "mgr_ok Q b (sm, ch)" and rounds: "rounds_ok Q b rounds"
  shows "\<exists>sm' ch'. ShutDownAllSessions Q isConnected rounds sm ch = Some (sm', ch')
    \<and> mgr_inv Q b sm' \<and> IsEmpty (m_sessions sm')"
proof (cases "IsEmpty (m_sessions sm)")
  case True
  with ok show ?thesis by (simp add: ShutDownAllSessions_def mgr_ok_def)
next
  case False
  obtain sm1 ch1 where w: "(if isConnected then (case LockGuard sm (shut_down_each Q Success sm) ch of
                      None \<Rightarrow> None
                    | Some (sm1, ch1) \<Rightarrow> wait_for_sessions rounds sm1 ch1)
              else Some (sm, ch)) = Some (sm1, ch1)" "mgr_ok Q b (sm1, ch1)"
  proof (cases isConnected)
    case True
    obtain sma cha where a: "LockGuard sm (shut_down_each Q Success sm) ch = Some (sma, cha)" "evolves ch cha"
      "mgr_inv Q b sma" "mgr_room Q b sma"
      using locked_shut_down_each [of Q b sm ch Success] ok unfolding mgr_ok_def fst_conv snd_conv by blast
    have "mgr_ok Q b (sma, cha)"
      using ok a locked_rest(1) [OF a(1)] evolves_ready [OF a(2)] by (simp add: mgr_ok_def quiet_servers_def)
    from wait_for_sessions_ok [OF rounds this] a(1) True that show ?thesis by fastforce
  qed (use ok that in simp)
  show ?thesis
  proof (cases "IsEmpty (m_sessions sm1)")
    case True
    with w False show ?thesis by (simp add: ShutDownAllSessions_def mgr_ok_def)
  next
    case ne: False
    obtain sm2 ch2 sm3 ch3 where s: "LockGuard sm1 (shut_down_each Q EndOfStream sm1) ch1 = Some (sm2, ch2)"
      "UpdateSessions Q sm2 ch2 = Some (sm3, ch3)" "mgr_inv Q b sm3" "lookup (sessionHash Q) (m_sessions sm3) = Map.empty"
      using forced_close [of Q b sm1 ch1] w(2) unfolding mgr_ok_def fst_conv snd_conv by blast
    have "ShutDownAllSessions Q isConnected rounds sm ch = Some (sm3, ch3)"
      using w(1) False ne s(1,2) by (simp add: ShutDownAllSessions_def)
    with s(3) IsEmpty_lookup [OF sessions_hb [OF s(3)] s(4)] show ?thesis by blast
  qed
qed

subsection \<open>Disconnecting under the mutex\<close>

text \<open>
  \<open>Forward_Disconnect\<close> agrees with the whole \<^verbatim>\<open>HandleTransportDisconnect\<close>: for a thread that holds the mutex, that call
  returns exactly when there is no session.
\<close>

lemma Forward_Disconnect_agrees:
  assumes "ch_sessionMutex ch" and "\<not> ch_deadlocked ch" and "ch_clientId ch \<noteq> kBroadcastClientId"
  shows "ch_deadlocked (Forward_Disconnect (sees_sessions sm ch)) \<longleftrightarrow>
      HandleTransportDisconnect Q False [] sm (ch\<lparr>ch_clientId := kBroadcastClientId\<rparr>) = None"
  using assms
  by (simp add: Forward_Disconnect_eq sees_sessions_def HandleTransportDisconnect_def ShutDownAllSessions_def LockGuard_eq)

subsection \<open>The safety of the manager\<close>

lemma UnregisterProtocolServer_returns:
  assumes "mgr_inv Q b sm" and "mgr_room Q b sm" and S: "channel_server S b" and "ready ch"
  shows "UnregisterProtocolServer Q S sm ch \<noteq> None"
proof -
  let ?f = "\<lambda>ch1. map_option (\<lambda>(result, sm', ch'). ((result, sm'), ch')) (unregister_protocol_server Q S sm ch1)"
  obtain r sm' ch2 where u: "unregister_protocol_server Q S sm (entered sm ch) = Some (r, sm', ch2)"
    using unregister_protocol_server_spec [OF assms(1,2) channel_server.axioms(1) [OF S], of "entered sm ch"] by blast
  then have "?f (entered sm ch) = Some ((r, sm'), ch2)" by simp
  from LockGuard_runs [where f = ?f, OF assms(4) this unregister_protocol_server_forwards [OF S u]] show ?thesis
    by (simp add: UnregisterProtocolServer_def)
qed

lemma handle_client_disconnection_channel:
  assumes "handle_client_disconnection Q dst sm ch = Some (sm', ch')"
  shows "ch' = ch"
proof -
  let ?f = "\<lambda>_ _ s ch. Some (False, Some (if m_remoteClientId s = dst then Shutdown NotReady s else s), ch)"
  obtain h objs where "for_entries (sessionHash Q) (on_object ?f) (m_sessions sm) (sm_objects sm, ch) = Some (h, objs, ch')"
    using assms by (auto simp: handle_client_disconnection_def for_sessions_def)
  then show ?thesis
    unfolding for_entries_def
    by (rule sweep_keeps [where J = "\<lambda>st. snd st = ch" and s' = "(objs, ch')", simplified, rotated])
      (auto simp: on_object_def split: option.splits)
qed

lemma HandleClientDisconnection_returns:
  assumes "mgr_inv Q b sm" and "mgr_room Q b sm" and "\<not> ch_sessionMutex ch" and "\<not> ch_deadlocked ch"
  shows "\<exists>sm' ch'. HandleClientDisconnection Q dst sm ch = Some (sm', ch') \<and> mgr_inv Q b sm'"
proof -
  have keep: "served Q sm s \<Longrightarrow> served Q sm (if m_remoteClientId s = dst then Shutdown NotReady s else s)" for s
    by (simp add: served_Shutdown)
  obtain sm' ch' where h: "handle_client_disconnection Q dst sm (entered sm ch) = Some (sm', ch')" "mgr_inv Q b sm'"
    using handle_client_disconnection_spec [OF assms(1,2) keep, of "entered sm ch"] by auto
  with handle_client_disconnection_channel [OF h(1)] assms(3,4) show ?thesis
    by (auto simp: HandleClientDisconnection_def LockGuard_eq)
qed

lemma sample_sm0_inv: "mgr_inv sample_Q 2 sample_sm0"
  unfolding sample_sm0_def by (rule mgr_inv_new [OF surjective_pairing])

lemma sample_sm1_quiet: "quiet_servers sample_Q 2 sample_sm1"
proof -
  have "quiet_servers sample_Q 2 sample_sm0"
    by (simp add: quiet_servers_def sample_sm0_def Init_def new_SessionManager_def lookup_new)
  then show ?thesis unfolding sample_sm1_def
    by (rule RegisterProtocolServer_rest(4) [OF sample_sm0_inv surjective_pairing _ sample_channel_server])
qed

text \<open>C5.
  The session manager is safe.  In every state it can reach, whatever packets, client calls, registrations and
  transport failures came before, and whatever the transport does now, the periodic update, the handling of any
  session packet, the unregistration of a server and the loss of a client dereference no null and no dangling
  pointer: every identifier in the session map leads to a live session, and a session never calls a protocol
  server that is no longer registered (the code only asserts that).  A Syn needs a free identifier, or the search
  for one would not end.  The operations, which run under \<^verbatim>\<open>m_sessionMutex\<close>, return if the thread does not hold that
  mutex already, the servers leave the message channel alone, and no write fails outright on a connected
  channel (on the POSIX platforms such a failure under the mutex blocks the thread); the loss of a client writes
  nothing and returns in any case.  The counters must have room.
\<close>

theorem session_manager_safe:
  assumes "mgr_reachable Q b (sm, ch0)" and "mgr_room Q b sm"
  shows "update_sessions Q sm ch \<noteq> None
    \<and> ((messageId (header m) = code_of_SessionMessage Syn \<longrightarrow> (\<exists>sid. free_id Q sm (sessionId (header m)) sid)) \<longrightarrow>
         handle_session_message Q al m sm ch \<noteq> None)
    \<and> (session_server S b \<longrightarrow> unregister_protocol_server Q S sm ch \<noteq> None)
    \<and> (lookup (sessionHash Q) (m_sessions sm) k = Some p \<longrightarrow> sm_objects sm p \<noteq> None)
    \<and> (\<not> ch_sessionMutex ch \<and> \<not> ch_deadlocked ch \<longrightarrow>
         HandleClientDisconnection Q dst sm ch \<noteq> None
       \<and> (quiet_servers Q b sm
            \<and> (ch_clientId ch = kBroadcastClientId \<or> set (ch_replies ch) \<subseteq> {Success, NotReady}) \<longrightarrow>
            UpdateSessions Q sm ch \<noteq> None
          \<and> ((messageId (header m) = code_of_SessionMessage Syn \<longrightarrow> (\<exists>sid. free_id Q sm (sessionId (header m)) sid)) \<longrightarrow>
               HandleReceivedSessionMessage Q al m sm ch \<noteq> None)
          \<and> (channel_server S b \<longrightarrow> UnregisterProtocolServer Q S sm ch \<noteq> None)))"
proof -
  have inv: "mgr_inv Q b sm" using mgr_reachable_inv [OF assms(1)] by simp
  note room = assms(2)
  have "update_sessions Q sm ch \<noteq> None" using update_sessions_spec [OF inv room, of ch] by auto
  moreover have "handle_session_message Q al m sm ch \<noteq> None"
    if "messageId (header m) = code_of_SessionMessage Syn \<longrightarrow> (\<exists>sid. free_id Q sm (sessionId (header m)) sid)"
    using handle_session_message_spec [OF inv room, of m al ch] that by auto
  moreover have "unregister_protocol_server Q S sm ch \<noteq> None" if "session_server S b"
    using unregister_protocol_server_spec [OF inv room that, of ch] by auto
  moreover have "sm_objects sm p \<noteq> None" if "lookup (sessionHash Q) (m_sessions sm) k = Some p"
    using pointers_okD(2) [of Q sm k p] inv that by (auto simp: mgr_inv_def)
  moreover have "HandleClientDisconnection Q dst sm ch \<noteq> None" if "\<not> ch_sessionMutex ch" "\<not> ch_deadlocked ch"
    using HandleClientDisconnection_returns [OF inv room that, of dst] by auto
  moreover have "UpdateSessions Q sm ch \<noteq> None" if "quiet_servers Q b sm" "ready ch"
    using UpdateSessions_returns [OF inv room that] by auto
  moreover have "HandleReceivedSessionMessage Q al m sm ch \<noteq> None" if "quiet_servers Q b sm" "ready ch"
    "messageId (header m) = code_of_SessionMessage Syn \<longrightarrow> (\<exists>sid. free_id Q sm (sessionId (header m)) sid)"
    using HandleReceivedSessionMessage_returns [OF inv room that(1,2), of m al] that(3) by auto
  moreover have "UnregisterProtocolServer Q S sm ch \<noteq> None" if "channel_server S b" "ready ch"
    by (rule UnregisterProtocolServer_returns [OF inv room that])
  ultimately show ?thesis unfolding ready_def patient_def by blast
qed

theorem session_manager_safe_witness:
  "HandleReceivedSessionMessage sample_Q sample_al sample_syn sample_sm1 sample_channel \<noteq> None
   \<and> UpdateSessions sample_Q sample_sm1 sample_channel \<noteq> None"
proof -
  have "\<not> ch_sessionMutex sample_channel \<and> \<not> ch_deadlocked sample_channel
      \<and> set (ch_replies sample_channel) \<subseteq> {Success, NotReady}" by (simp add: sample_channel_def)
  with session_manager_safe [OF sample_sm1_reachable sample_sm1_room, of sample_channel sample_syn sample_al]
    sample_free sample_sm1_quiet show ?thesis by blast
qed

end
