(* ===== verification/Channel_Inv.thy ===== *)
theory Channel_Inv
  imports Manager_Locks
begin

text \<open>
  The invariant of the message channel, and what each operation keeps: the session manager's invariant,
  servers that leave the channel alone, and a queue of discovered clients whose event is set exactly
  when the queue is not empty.
\<close>

subsection \<open>The invariant\<close>

definition queue_ok :: "DiscoveredClientsQueue \<Rightarrow> bool" where
  "queue_ok q \<longleftrightarrow> (dq_hasDataEvent q \<longleftrightarrow> dq_clients q \<noteq> []) \<and> (\<not> dq_active q \<longrightarrow> dq_clients q = [])"

text \<open>Between two operations the thread does not hold the mutex, and does not wait for it.\<close>

definition unlocked :: "Channel \<Rightarrow> bool" where
  "unlocked ch \<longleftrightarrow> \<not> ch_sessionMutex ch \<and> \<not> ch_deadlocked ch"

lemma unlocked_fields [simp]:
  "unlocked (ch\<lparr>ch_clientId := c\<rparr>) = unlocked ch" "unlocked (ch\<lparr>ch_replies := rs\<rparr>) = unlocked ch"
  "unlocked (ch\<lparr>ch_clock := ts\<rparr>) = unlocked ch" "unlocked (ch\<lparr>ch_now := t\<rparr>) = unlocked ch"
  "unlocked (ch\<lparr>ch_wire := w\<rparr>) = unlocked ch"
  by (simp_all add: unlocked_def)

lemma unlocked_clock: "GetCurrentTimeInMs ch = (t, ch') \<Longrightarrow> unlocked ch' = unlocked ch"
  by (auto simp: GetCurrentTimeInMs_def unlocked_def split: list.splits)

lemma unlocked_evolves: "evolves ch ch' \<Longrightarrow> unlocked ch' = unlocked ch"
  by (auto simp: evolves_def unlocked_def)

lemma unlocked_Write: "WriteTransportMessage m ch = (r, ch') \<Longrightarrow> unlocked ch' = unlocked ch"
  by (auto simp: WriteTransportMessage_def unlocked_def split: list.splits)

lemma ready_unlocked: "ready ch \<longleftrightarrow> unlocked ch \<and> (ch_clientId ch = kBroadcastClientId \<or> patient (ch_replies ch))"
  by (auto simp: ready_def unlocked_def)

definition mc_inv :: "ChannelParams \<Rightarrow> nat \<Rightarrow> MessageChannel \<Rightarrow> bool" where
  "mc_inv P b mc \<longleftrightarrow> mgr_inv (managerParams P) b (m_sessionManager mc)
     \<and> quiet_servers (managerParams P) b (m_sessionManager mc) \<and> queue_ok (m_discoveredClientsQueue mc)
     \<and> unlocked (m_channel mc)"

abbreviation no_sessions :: "MessageChannel \<Rightarrow> bool" where
  "no_sessions mc \<equiv> all_entries (m_sessions (m_sessionManager mc)) = []"

text \<open>Room in the counters, and an identifier for the next session.\<close>

definition channel_room :: "ChannelParams \<Rightarrow> nat \<Rightarrow> MessageChannel \<Rightarrow> bool" where
  "channel_room P b mc \<longleftrightarrow> mgr_room (managerParams P) b (m_sessionManager mc)
     \<and> (\<forall>r. \<exists>sid. free_id (managerParams P) (m_sessionManager mc) r sid)"

abbreviation answers :: "MessageChannel \<Rightarrow> Result list" where
  "answers mc \<equiv> ch_replies (m_channel mc)"

text \<open>The connection is kept or lost, and nothing but the transport's answers is used up.\<close>

definition onward :: "MessageChannel \<Rightarrow> MessageChannel \<Rightarrow> bool" where
  "onward mc mc' \<longleftrightarrow> connection mc' \<in> {connection mc, kBroadcastClientId}
     \<and> (patient (answers mc) \<longrightarrow> patient (answers mc'))"

lemma onward_refl [intro, simp]: "onward mc mc"
  by (simp add: onward_def)

lemma onward_trans [trans]: "onward mc mc1 \<Longrightarrow> onward mc1 mc2 \<Longrightarrow> onward mc mc2"
  by (auto simp: onward_def)

lemma evolves_onward: "evolves (m_channel mc) (m_channel mc') \<Longrightarrow> onward mc mc'"
  by (auto simp: onward_def evolves_def split: if_splits)

lemma quiet_servers_cong:
  "m_protocolServers sm' = m_protocolServers sm \<Longrightarrow> quiet_servers Q b sm' = quiet_servers Q b sm"
  by (simp add: quiet_servers_def)

text \<open>The fields that the manager's calls do not touch.\<close>

lemma with_manager_fields [simp]:
  "m_discoveredClientsQueue (with_manager mc st) = m_discoveredClientsQueue mc"
  "m_clientInfoResponse (with_manager mc st) = m_clientInfoResponse mc"
  "m_lastActivityTimeMs (with_manager mc st) = m_lastActivityTimeMs mc"
  "m_lastKeepaliveTransmitted (with_manager mc st) = m_lastKeepaliveTransmitted mc"
  "m_lastKeepaliveReceived (with_manager mc st) = m_lastKeepaliveReceived mc"
  "m_threadActive (with_manager mc st) = m_threadActive mc"
  "m_threadStarted (with_manager mc st) = m_threadStarted mc"
  "m_sessionManager (with_manager mc st) = fst st" "m_channel (with_manager mc st) = snd st"
  "m_pTransferServer (with_manager mc st) = m_pTransferServer mc"
  "m_pURIServer (with_manager mc st) = m_pURIServer mc" "m_busEventCb (with_manager mc st) = m_busEventCb mc"
  "busEvents (with_manager mc st) = busEvents mc"
  by (simp_all add: with_manager_def)

lemma mc_inv_with_manager:
  assumes "mc_inv P b mc" and "mgr_inv (managerParams P) b (fst st)"
    and "m_protocolServers (fst st) = m_protocolServers (m_sessionManager mc)" and "unlocked (snd st)"
  shows "mc_inv P b (with_manager mc st)"
  using assms(1,2,4) by (simp add: mc_inv_def quiet_servers_cong [OF assms(3)])

lemma mc_inv_fields [simp]:
  "mc_inv P b (mc\<lparr>m_clientInfoResponse := i\<rparr>) = mc_inv P b mc"
  "mc_inv P b (mc\<lparr>m_lastActivityTimeMs := t\<rparr>) = mc_inv P b mc"
  "mc_inv P b (mc\<lparr>m_lastKeepaliveTransmitted := n\<rparr>) = mc_inv P b mc"
  "mc_inv P b (mc\<lparr>m_lastKeepaliveReceived := n\<rparr>) = mc_inv P b mc"
  "mc_inv P b (mc\<lparr>m_threadActive := x\<rparr>) = mc_inv P b mc"
  "mc_inv P b (mc\<lparr>m_threadStarted := x\<rparr>) = mc_inv P b mc"
  "mc_inv P b (mc\<lparr>m_pTransferServer := srv\<rparr>) = mc_inv P b mc"
  "mc_inv P b (mc\<lparr>m_pURIServer := srv\<rparr>) = mc_inv P b mc"
  "mc_inv P b (mc\<lparr>m_busEventCb := cb\<rparr>) = mc_inv P b mc"
  "mc_inv P b (mc\<lparr>busEvents := evs\<rparr>) = mc_inv P b mc"
  by (simp_all add: mc_inv_def)

lemma mc_inv_channel: "unlocked ch \<Longrightarrow> mc_inv P b mc \<Longrightarrow> mc_inv P b (mc\<lparr>m_channel := ch\<rparr>)"
  by (simp add: mc_inv_def)

lemma mc_inv_unlocked: "mc_inv P b mc \<Longrightarrow> unlocked (m_channel mc)"
  by (simp add: mc_inv_def)

lemma channel_room_fields [simp]:
  "channel_room P b (mc\<lparr>m_channel := ch\<rparr>) = channel_room P b mc"
  "channel_room P b (mc\<lparr>m_lastActivityTimeMs := t\<rparr>) = channel_room P b mc"
  "channel_room P b (mc\<lparr>m_lastKeepaliveTransmitted := n\<rparr>) = channel_room P b mc"
  "channel_room P b (mc\<lparr>m_lastKeepaliveReceived := n\<rparr>) = channel_room P b mc"
  "channel_room P b (mc\<lparr>busEvents := evs\<rparr>) = channel_room P b mc"
  by (simp_all add: channel_room_def)

lemma mc_inv_sessions: "mc_inv P b mc \<Longrightarrow> hb_inv (sessionHash (managerParams P)) (m_sessions (m_sessionManager mc))"
  by (simp add: mc_inv_def mgr_inv_def pointers_ok_def)

lemma mc_inv_servers: "mc_inv P b mc \<Longrightarrow> hb_inv (serverHash (managerParams P)) (m_protocolServers (m_sessionManager mc))"
  by (simp add: mc_inv_def mgr_inv_def server_ok_def)

subsection \<open>Disconnecting and sending\<close>

lemma with_manager_same: "with_manager mc (m_sessionManager mc, m_channel mc) = mc"
  by (simp add: with_manager_def)

lemma Disconnect_spec:
  assumes inv: "mc_inv P b mc" and room: "connection mc \<noteq> kBroadcastClientId \<longrightarrow> channel_room P b mc"
  shows "\<exists>mc'. Disconnect P mc = Some mc' \<and> mc_inv P b mc' \<and> onward mc mc'
    \<and> connection mc' = kBroadcastClientId \<and> (\<exists>st. mc' = with_manager mc st)
    \<and> (if connection mc \<noteq> kBroadcastClientId then no_sessions mc' else mc' = mc)
    \<and> ch_wire (m_channel mc') = ch_wire (m_channel mc)"
proof (cases "connection mc = kBroadcastClientId")
  case True
  have "\<exists>st. mc = with_manager mc st" by (rule exI, rule with_manager_same [symmetric])
  with True inv show ?thesis by (simp add: Disconnect_def)
next
  case False
  let ?ch = "(m_channel mc)\<lparr>ch_clientId := kBroadcastClientId\<rparr>" and ?Q = "managerParams P"
  have "mgr_inv ?Q b (m_sessionManager mc)" "quiet_servers ?Q b (m_sessionManager mc)"
    "mgr_room ?Q b (m_sessionManager mc)" "ready ?ch"
    using inv mp [OF room False] by (simp_all add: mc_inv_def channel_room_def ready_unlocked)
  from forced_shutdown_spec [OF this(1,3,2,4)] obtain sm ch where
    s: "ShutDownAllSessions ?Q False [] (m_sessionManager mc) ?ch = Some (sm, ch)" "mgr_inv ?Q b sm"
      "all_entries (m_sessions sm) = []" "m_protocolServers sm = m_protocolServers (m_sessionManager mc)"
      "evolves ?ch ch" by blast
  have d: "Disconnect P mc = Some (with_manager mc (sm, ch))"
    using False s(1) by (simp add: Disconnect_def HandleTransportDisconnect_def)
  have "ch_clientId ch = kBroadcastClientId" using evolves_offline [OF s(5)] by simp
  moreover have "patient (answers mc) \<Longrightarrow> patient (ch_replies ch)" using evolves_patient(2) [OF s(5)] by simp
  moreover have "mc_inv P b (with_manager mc (sm, ch))"
    by (rule mc_inv_with_manager [OF inv])
      (use unlocked_evolves [OF s(5)] mc_inv_unlocked [OF inv] in \<open>simp_all add: s\<close>)
  moreover have "ch_wire ch = ch_wire (m_channel mc)" using s(5) by (auto simp: evolves_def)
  ultimately show ?thesis using d False s(3) by (auto simp: onward_def)
qed

text \<open>Sending leaves the manager alone, or loses the connection with all sessions.\<close>

definition send_effect :: "ChannelParams \<Rightarrow> nat \<Rightarrow> MessageChannel \<Rightarrow> MessageChannel \<Rightarrow> bool" where
  "send_effect P b mc mc' \<longleftrightarrow> mc_inv P b mc' \<and> onward mc mc'
     \<and> ((\<exists>ch. mc' = mc\<lparr>m_channel := ch\<rparr> \<and> ch_clientId ch = connection mc)
        \<or> (\<exists>st. mc' = with_manager mc st) \<and> connection mc' = kBroadcastClientId \<and> no_sessions mc'
           \<and> \<not> patient (answers mc))"

lemma send_effect_patient:
  assumes "send_effect P b mc mc'" and "patient (answers mc)"
  obtains ch where "mc' = mc\<lparr>m_channel := ch\<rparr>" "ch_clientId ch = connection mc" "patient (ch_replies ch)"
  using assms by (auto simp: send_effect_def onward_def)

lemma send_effect_refl: "mc_inv P b mc \<Longrightarrow> send_effect P b mc mc"
  unfolding send_effect_def by (auto intro!: exI [of _ "m_channel mc"])

lemma WriteTransportMessage_effect:
  assumes "WriteTransportMessage m ch = (r, ch')"
  shows "ch_clientId ch' = ch_clientId ch" and "patient (ch_replies ch) \<Longrightarrow> patient (ch_replies ch') \<and> r \<in> {Success, NotReady}"
    and "ch_wire ch' = (if r = Success then ch_wire ch @ [m] else ch_wire ch)"
  using assms by (auto simp: WriteTransportMessage_def patient_def split: list.splits if_splits)

lemma Channel_Forward_spec:
  assumes inv: "mc_inv P b mc" and room: "connection mc \<noteq> kBroadcastClientId \<longrightarrow> channel_room P b mc"
  shows "\<exists>r mc'. Channel_Forward P m mc = Some (r, mc') \<and> send_effect P b mc mc'
    \<and> (connection mc \<noteq> kBroadcastClientId \<longrightarrow> patient (answers mc) \<longrightarrow> r \<in> {Success, NotReady})"
proof (cases "connection mc = kBroadcastClientId")
  case True
  then show ?thesis using send_effect_refl [OF inv] by (simp add: Channel_Forward_def)
next
  case False
  obtain r ch where w: "WriteTransportMessage m (m_channel mc) = (r, ch)" by fastforce
  note e = WriteTransportMessage_effect [OF w]
  have i: "mc_inv P b (mc\<lparr>m_channel := ch\<rparr>)"
    by (rule mc_inv_channel [OF _ inv]) (use unlocked_Write [OF w] mc_inv_unlocked [OF inv] in simp)
  let ?mc = "mc\<lparr>m_channel := ch\<rparr>"
  show ?thesis
  proof (cases "r \<in> {Success, NotReady}")
    case True
    then have "Channel_Forward P m mc = Some (r, ?mc)" using False w by (auto simp: Channel_Forward_def)
    with True e i show ?thesis by (auto simp: send_effect_def onward_def)
  next
    case bad: False
    have conn: "connection ?mc \<noteq> kBroadcastClientId" using False e(1) by simp
    obtain mc' where d: "Disconnect P ?mc = Some mc'" "mc_inv P b mc'" "connection mc' = kBroadcastClientId"
      "no_sessions mc'" "\<exists>st. mc' = with_manager ?mc st"
      using Disconnect_spec [of P b ?mc] i mp [OF room False] conn by auto
    have "\<not> patient (answers mc)" using bad e(2) by blast
    moreover have "\<exists>st. mc' = with_manager mc st" using d(5) by (auto simp: with_manager_def)
    moreover have "Channel_Forward P m mc = Some (r, mc')" using False bad w d(1) by (simp add: Channel_Forward_def)
    ultimately show ?thesis using d by (auto simp: send_effect_def onward_def)
  qed
qed

lemma Channel_Send_spec:
  assumes "mc_inv P b mc" and "connection mc \<noteq> kBroadcastClientId \<longrightarrow> channel_room P b mc"
  shows "\<exists>r mc'. Channel_Send P dst pr msg md n pl mc = Some (r, mc') \<and> send_effect P b mc mc'
    \<and> (connection mc \<noteq> kBroadcastClientId \<longrightarrow> patient (answers mc) \<longrightarrow> unat n \<le> kMaxPayloadSizeInBytes \<longrightarrow> r \<in> {Success, NotReady})"
  using Channel_Forward_spec [OF assms] send_effect_refl [OF assms(1)]
  by (auto simp: Channel_Send_def)

subsection \<open>Receiving\<close>

text \<open>What one operation does: it returns on a patient transport, and whenever it returns the invariant holds.\<close>

definition steps_to :: "ChannelParams \<Rightarrow> nat \<Rightarrow> MessageChannel \<Rightarrow> MessageChannel option \<Rightarrow> bool" where
  "steps_to P b mc st \<longleftrightarrow>
    (case st of
       None \<Rightarrow> \<not> patient (answers mc)
     | Some mc' \<Rightarrow> mc_inv P b mc' \<and> onward mc mc' \<and> (patient (answers mc) \<longrightarrow> connection mc' = connection mc))"

lemma steps_to_Some [simp]:
  "steps_to P b mc (Some mc') \<longleftrightarrow>
     mc_inv P b mc' \<and> onward mc mc' \<and> (patient (answers mc) \<longrightarrow> connection mc' = connection mc)"
  "steps_to P b mc None \<longleftrightarrow> \<not> patient (answers mc)"
  by (simp_all add: steps_to_def)

lemma send_effect_steps: "send_effect P b mc mc' \<Longrightarrow> steps_to P b mc (Some mc')"
  by (auto simp: send_effect_def)

lemma steps_to_trans:
  assumes "steps_to P b mc (Some mc1)" and "steps_to P b mc1 st"
  shows "steps_to P b mc st"
  using assms by (cases st) (auto simp: onward_def)

text \<open>A call into the manager that returns on a patient transport, and then leaves it in order.\<close>

lemma manager_call_steps:
  assumes inv: "mc_inv P b mc"
    and some: "\<And>sm ch. st = Some (sm, ch) \<Longrightarrow> mgr_inv (managerParams P) b sm
      \<and> m_protocolServers sm = m_protocolServers (m_sessionManager mc) \<and> evolves (m_channel mc) ch"
    and returns: "patient (answers mc) \<Longrightarrow> st \<noteq> None"
  shows "steps_to P b mc (map_option (with_manager mc) st)"
proof (cases st)
  case None
  with returns show ?thesis by auto
next
  case (Some x)
  obtain sm ch where x: "x = (sm, ch)" by fastforce
  note st = some [OF Some [unfolded x]]
  have "mc_inv P b (with_manager mc (sm, ch))"
    by (rule mc_inv_with_manager [OF inv])
      (use st unlocked_evolves [of "m_channel mc" ch] mc_inv_unlocked [OF inv] in simp_all)
  moreover have "onward mc (with_manager mc (sm, ch))" by (rule evolves_onward) (simp add: st)
  ultimately show ?thesis using Some x st evolves_patient(1) [of "m_channel mc" ch] by simp
qed

lemma session_packet_spec:
  assumes inv: "mc_inv P b mc" and room: "channel_room P b mc"
  shows "steps_to P b mc (session_packet P m mc)"
  unfolding session_packet_def
proof (rule manager_call_steps [OF inv])
  let ?Q = "managerParams P"
  have g: "mgr_inv ?Q b (m_sessionManager mc)" "mgr_room ?Q b (m_sessionManager mc)" "quiet_servers ?Q b (m_sessionManager mc)"
    and free: "\<exists>sid. free_id ?Q (m_sessionManager mc) (sessionId (header m)) sid"
    using inv room by (simp_all add: mc_inv_def channel_room_def)
  fix sm ch assume h: "HandleReceivedSessionMessage ?Q (channelAlloc P) m (m_sessionManager mc) (m_channel mc) = Some (sm, ch)"
  obtain ch1 ch2 where "handle_session_message ?Q (channelAlloc P) m (m_sessionManager mc) ch1 = Some (sm, ch2)"
    using locked_ops_block(3) [OF h] by blast
  then have "mgr_inv ?Q b sm"
    using handle_session_message_spec [OF g(1,2), of m "channelAlloc P" ch1] free by auto
  then show "mgr_inv ?Q b sm \<and> m_protocolServers sm = m_protocolServers (m_sessionManager mc) \<and> evolves (m_channel mc) ch"
    using locked_rest(4) [OF h] HandleReceivedSessionMessage_evolves [OF g(3) h] by blast
next
  assume "patient (answers mc)"
  then have "ready (m_channel mc)" using mc_inv_unlocked [OF inv] by (simp add: ready_unlocked)
  with inv room show "HandleReceivedSessionMessage (managerParams P) (channelAlloc P) m (m_sessionManager mc) (m_channel mc) \<noteq> None"
    using HandleReceivedSessionMessage_returns [of "managerParams P" b "m_sessionManager mc" "m_channel mc" m "channelAlloc P"]
    by (auto simp: mc_inv_def channel_room_def)
qed

lemma UpdateSessions_none:
  assumes inv: "mc_inv P b mc" and none: "no_sessions mc"
  shows "UpdateSessions (managerParams P) (m_sessionManager mc) (m_channel mc)
      = Some (m_sessionManager mc, (m_channel mc)\<lparr>ch_hasSessions := False\<rparr>)"
proof -
  have "IsEmpty (m_sessions (m_sessionManager mc))" by (rule IsEmpty_entries(1) [OF mc_inv_sessions [OF inv] none])
  then show ?thesis using mc_inv_unlocked [OF inv]
    by (simp add: UpdateSessions_def LockGuard_eq update_sessions_none [OF mc_inv_sessions [OF inv] none] unlocked_def
        Mutex_Unlock_def)
qed

lemma Channel_UpdateSessions_spec:
  assumes inv: "mc_inv P b mc" and room: "no_sessions mc \<or> mgr_room (managerParams P) b (m_sessionManager mc)"
  shows "steps_to P b mc (Channel_UpdateSessions P mc)"
    and "no_sessions mc \<Longrightarrow> Channel_UpdateSessions P mc = Some (mc\<lparr>m_channel := (m_channel mc)\<lparr>ch_hasSessions := False\<rparr>\<rparr>)"
proof -
  let ?Q = "managerParams P"
  show none: "no_sessions mc \<Longrightarrow> Channel_UpdateSessions P mc = Some (mc\<lparr>m_channel := (m_channel mc)\<lparr>ch_hasSessions := False\<rparr>\<rparr>)"
    using UpdateSessions_none [OF inv] by (auto simp: Channel_UpdateSessions_def with_manager_def)
  have g: "mgr_inv ?Q b (m_sessionManager mc)" "quiet_servers ?Q b (m_sessionManager mc)"
    using inv by (simp_all add: mc_inv_def)
  show "steps_to P b mc (Channel_UpdateSessions P mc)"
    unfolding Channel_UpdateSessions_def
  proof (rule manager_call_steps [OF inv])
    fix sm ch assume u: "UpdateSessions ?Q (m_sessionManager mc) (m_channel mc) = Some (sm, ch)"
    have "mgr_inv ?Q b sm"
    proof (cases "no_sessions mc")
      case True
      with UpdateSessions_none [OF inv] u g(1) show ?thesis by auto
    next
      case False
      obtain ch1 ch2 where "update_sessions ?Q (m_sessionManager mc) ch1 = Some (sm, ch2)"
        using locked_ops_block(1) [OF u] by blast
      with update_sessions_spec [OF g(1), of ch1] room False show ?thesis by auto
    qed
    then show "mgr_inv ?Q b sm \<and> m_protocolServers sm = m_protocolServers (m_sessionManager mc) \<and> evolves (m_channel mc) ch"
      using locked_rest(2) [OF u] UpdateSessions_evolves [OF g(2) mc_inv_servers [OF inv] u] by blast
  next
    assume "patient (answers mc)"
    then have "ready (m_channel mc)" using mc_inv_unlocked [OF inv] by (simp add: ready_unlocked)
    then show "UpdateSessions ?Q (m_sessionManager mc) (m_channel mc) \<noteq> None"
      using UpdateSessions_none [OF inv] UpdateSessions_returns [OF g(1) _ g(2), of "m_channel mc"] room by (cases "no_sessions mc") auto
  qed
qed

lemma Channel_UpdateSessions_evolves:
  assumes inv: "mc_inv P b mc" and u: "Channel_UpdateSessions P mc = Some mc'"
  obtains st where "mc' = with_manager mc st" "evolves (m_channel mc) (m_channel mc')"
proof -
  have q: "quiet_servers (managerParams P) b (m_sessionManager mc)" using inv by (simp add: mc_inv_def)
  obtain sm ch where "UpdateSessions (managerParams P) (m_sessionManager mc) (m_channel mc) = Some (sm, ch)"
    "mc' = with_manager mc (sm, ch)" using u by (auto simp: Channel_UpdateSessions_def)
  with UpdateSessions_evolves [OF q mc_inv_servers [OF inv]] that show thesis by auto
qed

lemma Channel_Forward_patient:
  assumes "connection mc \<noteq> kBroadcastClientId" and "patient (answers mc)"
    and "WriteTransportMessage m (m_channel mc) = (r, ch)"
  shows "Channel_Forward P m mc = Some (r, mc\<lparr>m_channel := ch\<rparr>)"
  using assms WriteTransportMessage_effect(2) [OF assms(3)] by (auto simp: Channel_Forward_def)

lemma note_activity_same:
  "\<exists>t ch. note_activity P mc = mc\<lparr>m_lastActivityTimeMs := t, m_channel := ch\<rparr> \<and> evolves (m_channel mc) ch
     \<and> ch_clientId ch = connection mc \<and> ch_wire ch = ch_wire (m_channel mc)"
proof (cases "RequiresClientRegistration P \<and> RequiresKeepAlive P")
  case True
  obtain t ch where c: "GetCurrentTimeInMs (m_channel mc) = (t, ch)" by fastforce
  then have "note_activity P mc = mc\<lparr>m_lastActivityTimeMs := t, m_channel := ch\<rparr>"
    using True by (simp add: note_activity_def)
  moreover have "ch_clientId ch = connection mc \<and> ch_wire ch = ch_wire (m_channel mc)"
    using c by (auto simp: GetCurrentTimeInMs_def split: list.splits)
  ultimately show ?thesis using evolves_clock [OF c] by blast
next
  case False
  then show ?thesis
    by (intro exI [of _ "m_lastActivityTimeMs mc"] exI [of _ "m_channel mc"]) (auto simp: note_activity_def)
qed

lemma bus_event_same:
  "\<exists>evs. snd (bus_event ev mc) = mc\<lparr>busEvents := evs\<rparr>"
  by (auto simp: bus_event_def split: option.splits intro: exI [of _ "busEvents mc"])

lemma send_client_info_spec:
  assumes "mc_inv P b mc" and "channel_room P b mc"
  shows "\<exists>r mc'. send_client_info P dst msg md mc = Some (r, mc') \<and> send_effect P b mc mc'
    \<and> (connection mc \<noteq> kBroadcastClientId \<longrightarrow> patient (answers mc) \<longrightarrow> r \<in> {Success, NotReady})"
  using Channel_Send_spec [OF assms(1) impI [OF assms(2)], of dst Protocol_System "code_of_SystemMessage msg" md "word_of_nat sizeof_ClientInfoStruct"
      "Some (ClientInfoStruct_bytes (m_clientInfoResponse mc))"]
  by (simp add: send_client_info_def sizeof_ClientInfoStruct_def msg_size_defs)

lemma system_message_spec:
  assumes inv: "mc_inv P b mc" and room: "channel_room P b mc"
  shows "steps_to P b mc (system_message P m mc)"
proof (cases "SystemMessage_of (messageId (header m))")
  case Ping
  let ?ev = "PongRequestEvent (srcClientId (header m)) (payload_client_info m)"
  obtain should mc1 where ev: "bus_event ?ev mc = (should, mc1)" by fastforce
  then obtain evs where mc1: "mc1 = mc\<lparr>busEvents := evs\<rparr>" using bus_event_same [of ?ev mc] by auto
  obtain r mc2 where s: "send_client_info P (srcClientId (header m)) Pong (cis_metadata (m_clientInfoResponse mc1)) mc1 = Some (r, mc2)"
    "send_effect P b mc1 mc2"
    using send_client_info_spec [of P b mc1] inv room mc1 by fastforce
  have "steps_to P b mc1 (receive_ping P m mc)"
    using ev s(1) send_effect_steps [OF s(2)] inv mc1 by (simp add: receive_ping_def)
  moreover have "steps_to P b mc (Some mc1)" using inv mc1 by (simp add: onward_def)
  ultimately show ?thesis using Ping by (simp add: system_message_def steps_to_trans)
next
  case Pong
  have "mc_inv P b (receive_pong P m mc)" "m_channel (receive_pong P m mc) = m_channel mc"
    using inv by (auto simp: receive_pong_def Let_def mc_inv_def queue_ok_def)
  with Pong show ?thesis by (simp add: system_message_def onward_def)
next
  case QueryClientInfo
  obtain r mc2 where "send_client_info P (srcClientId (header m)) ClientInfo (cis_metadata (m_clientInfoResponse mc)) mc = Some (r, mc2)"
    "send_effect P b mc mc2"
    using send_client_info_spec [OF inv room] by blast
  with QueryClientInfo send_effect_steps show ?thesis by (auto simp: system_message_def)
next
  case ClientDisconnected
  let ?Q = "managerParams P"
  have g: "mgr_inv ?Q b (m_sessionManager mc)" "mgr_room ?Q b (m_sessionManager mc)"
    using inv room by (simp_all add: mc_inv_def channel_room_def)
  have "unlocked (m_channel mc)" by (rule mc_inv_unlocked [OF inv])
  then have "steps_to P b mc (map_option (with_manager mc)
      (HandleClientDisconnection ?Q (srcClientId (header m)) (m_sessionManager mc) (m_channel mc)))"
    using HandleClientDisconnection_returns [OF g, of "m_channel mc" "srcClientId (header m)"]
    by (intro manager_call_steps [OF inv])
      (auto simp: unlocked_def dest: locked_rest(3) HandleClientDisconnection_evolves)
  then show ?thesis using ClientDisconnected by (simp add: system_message_def)
next
  case Halted
  let ?ev = "ClientHaltedEvent (srcClientId (header m)) (ClientInfoStruct_of_bytes (payload m))"
  obtain evs where "snd (bus_event ?ev mc) = mc\<lparr>busEvents := evs\<rparr>" using bus_event_same by blast
  with Halted inv show ?thesis by (simp add: system_message_def onward_def)
qed (use inv in \<open>simp_all add: system_message_def\<close>)

lemma HandleMessageReceived_spec:
  assumes inv: "mc_inv P b mc" and room: "channel_room P b mc"
  shows "steps_to P b mc (HandleMessageReceived P m mc)"
proof -
  obtain t ch where n: "note_activity P mc = mc\<lparr>m_lastActivityTimeMs := t, m_channel := ch\<rparr>" (is "_ = ?mc1")
    "evolves (m_channel mc) ch" "ch_clientId ch = connection mc" using note_activity_same by blast
  have i1: "mc_inv P b ?mc1"
    using mc_inv_channel [of ch P b "mc\<lparr>m_lastActivityTimeMs := t\<rparr>"] inv unlocked_evolves [OF n(2)] mc_inv_unlocked [OF inv]
    by simp
  have r1: "channel_room P b ?mc1" using room by simp
  have o1: "onward mc ?mc1" by (rule evolves_onward) (simp add: n(2))
  have "steps_to P b ?mc1 (HandleMessageReceived P m mc)"
    using session_packet_spec [OF i1 r1, of m] system_message_spec [OF i1 r1, of m] i1
    by (simp add: HandleMessageReceived_def n(1) Let_def onward_def)
  moreover have "steps_to P b mc (Some ?mc1)" using i1 o1 n(3) by simp
  ultimately show ?thesis by (rule steps_to_trans [rotated])
qed

end
