(* ===== verification/Channel_Theorems.thy ===== *)
theory Channel_Theorems
  imports Channel_Inv
begin

text \<open>
  The properties of the message channel: its update returns and leaves no session behind a lost
  connection, a silent peer is given up after five heartbeats, and what the code does when the transport
  fails under the session manager's lock.
\<close>

subsection \<open>A sample channel\<close>

definition sample_P :: ChannelParams where
  "sample_P = \<lparr>RequiresClientRegistration = True, RequiresKeepAlive = True, initialFlags = 0, componentType = Component_Tool,
     createUpdateThread = True, clientDescription = [], processName = [], processId = 1,
     managerParams = sample_Q, channelAlloc = sample_al, queueMemory = True\<rparr>"

definition sample_mc :: MessageChannel where
  "sample_mc = (new_MessageChannel sample_P sample_channel)\<lparr>m_channel := sample_channel, m_sessionManager := sample_sm1\<rparr>"

lemma sample_P_simps [simp]: "managerParams sample_P = sample_Q" "channelAlloc sample_P = sample_al"
  by (simp_all add: sample_P_def)

lemma sample_mc_simps [simp]:
  "m_channel sample_mc = sample_channel" "m_sessionManager sample_mc = sample_sm1"
  "m_discoveredClientsQueue sample_mc = new_DiscoveredClientsQueue"
  by (simp_all add: sample_mc_def new_MessageChannel_def)

lemma sample_mc_inv: "mc_inv sample_P 2 sample_mc"
  by (simp add: mc_inv_def sample_sm1_inv sample_sm1_quiet new_DiscoveredClientsQueue_def queue_ok_def unlocked_def
      sample_channel_def)

lemma sample_mc_room: "channel_room sample_P 2 sample_mc"
  by (simp add: channel_room_def sample_sm1_room sample_free)

lemma sample_channel_simps [simp]: "ch_replies sample_channel = []" "ch_clientId sample_channel = 7"
  by (simp_all add: sample_channel_def)

subsection \<open>The periodic update\<close>

text \<open>The result of the read that ends the loop, and room in the manager before every message.\<close>

fun read_end :: "read_script \<Rightarrow> Result" where
  "read_end [] = NotReady"
| "read_end ((result, m) # reads) = (if result = Success then read_end reads else result)"

fun read_room :: "ChannelParams \<Rightarrow> nat \<Rightarrow> read_script \<Rightarrow> MessageChannel \<Rightarrow> bool" where
  "read_room P b [] mc = channel_room P b mc"
| "read_room P b ((result, m) # reads) mc =
    (channel_room P b mc
     \<and> (result = Success \<longrightarrow> (case HandleMessageReceived P m mc of None \<Rightarrow> True | Some mc' \<Rightarrow> read_room P b reads mc')))"

lemma read_messages_spec:
  assumes "mc_inv P b mc" and "read_room P b reads mc"
  shows "case read_messages P reads mc of
      None \<Rightarrow> \<not> patient (answers mc)
    | Some (r, mc') \<Rightarrow> r = read_end reads \<and> steps_to P b mc (Some mc') \<and> channel_room P b mc'"
  using assms
proof (induction reads arbitrary: mc)
  case Nil
  then show ?case by simp
next
  case (Cons x reads)
  obtain result m where x: "x = (result, m)" by fastforce
  show ?case
  proof (cases "result = Success")
    case False
    then show ?thesis using Cons.prems x by simp
  next
    case True
    have s: "steps_to P b mc (HandleMessageReceived P m mc)"
      by (rule HandleMessageReceived_spec [OF Cons.prems(1)]) (use Cons.prems(2) x in simp)
    show ?thesis
    proof (cases "HandleMessageReceived P m mc")
      case None
      with s x True show ?thesis by simp
    next
      case (Some mc1)
      with Cons.prems(2) x True have "read_room P b reads mc1" by simp
      moreover have "mc_inv P b mc1" using s Some by simp
      ultimately have "case read_messages P reads mc1 of
          None \<Rightarrow> \<not> patient (answers mc1)
        | Some (r, mc') \<Rightarrow> r = read_end reads \<and> steps_to P b mc1 (Some mc') \<and> channel_room P b mc'"
        using Cons.IH by blast
      with s Some x True show ?thesis
        by (auto simp: onward_def split: option.splits)
    qed
  qed
qed

text \<open>Sending and disconnecting leave the manager as it is, or without sessions and without connection.\<close>

definition settled_to :: "ChannelParams \<Rightarrow> nat \<Rightarrow> MessageChannel \<Rightarrow> MessageChannel \<Rightarrow> bool" where
  "settled_to P b mc mc' \<longleftrightarrow> mc_inv P b mc' \<and> onward mc mc'
     \<and> (m_sessionManager mc' = m_sessionManager mc \<and> connection mc' = connection mc
        \<or> connection mc' = kBroadcastClientId \<and> no_sessions mc')"

lemma settled_to_refl: "mc_inv P b mc \<Longrightarrow> settled_to P b mc mc"
  by (simp add: settled_to_def)

lemma settled_to_trans: "settled_to P b mc mc1 \<Longrightarrow> settled_to P b mc1 mc2 \<Longrightarrow> settled_to P b mc mc2"
  by (auto simp: settled_to_def onward_def)

lemma send_effect_settled: "send_effect P b mc mc' \<Longrightarrow> settled_to P b mc mc'"
  by (auto simp: send_effect_def settled_to_def)

text \<open>After such a step there is still room, unless there is no connection.\<close>

lemma settled_to_room:
  "settled_to P b mc mc' \<Longrightarrow> channel_room P b mc \<Longrightarrow> connection mc' \<noteq> kBroadcastClientId \<Longrightarrow> channel_room P b mc'"
  by (auto simp: settled_to_def channel_room_def)

lemma Disconnect_settled:
  assumes "mc_inv P b mc" and "connection mc \<noteq> kBroadcastClientId \<longrightarrow> channel_room P b mc"
  shows "\<exists>mc'. Disconnect P mc = Some mc' \<and> settled_to P b mc mc' \<and> connection mc' = kBroadcastClientId"
  using Disconnect_spec [OF assms] by (auto simp: settled_to_def split: if_splits)

lemma ping_spec:
  assumes inv: "mc_inv P b mc" and room: "channel_room P b mc"
  shows "\<exists>r mc'. ping_while_discovering P result mc = Some (r, mc') \<and> settled_to P b mc mc'
    \<and> (result \<noteq> NotReady \<longrightarrow> r = result \<and> mc' = mc)
    \<and> (result = NotReady \<longrightarrow> connection mc \<noteq> kBroadcastClientId \<longrightarrow> patient (answers mc) \<longrightarrow>
         r = NotReady \<and> connection mc' = connection mc)"
proof (cases "result = NotReady \<and> dq_active (m_discoveredClientsQueue mc)")
  case False
  then show ?thesis using settled_to_refl [OF inv] by (auto simp: ping_while_discovering_def)
next
  case True
  obtain r mc' where s: "send_client_info P kBroadcastClientId Ping (dq_filter (m_discoveredClientsQueue mc)) mc = Some (r, mc')"
    "send_effect P b mc mc'"
    "connection mc \<noteq> kBroadcastClientId \<Longrightarrow> patient (answers mc) \<Longrightarrow> r \<in> {Success, NotReady}"
    using send_client_info_spec [OF inv room, of kBroadcastClientId Ping "dq_filter (m_discoveredClientsQueue mc)"] by blast
  have "patient (answers mc) \<Longrightarrow> connection mc' = connection mc" using s(2) by (auto simp: send_effect_def)
  with True s(1,3) send_effect_settled [OF s(2)] show ?thesis by (auto simp: ping_while_discovering_def)
qed

lemma keep_alive_spec:
  assumes inv: "mc_inv P b mc" and room: "connection mc \<noteq> kBroadcastClientId \<longrightarrow> channel_room P b mc"
  shows "\<exists>mc'. keep_alive P mc = Some mc' \<and> settled_to P b mc mc'"
proof -
  obtain now ch where c: "GetCurrentTimeInMs (m_channel mc) = (now, ch)" by fastforce
  let ?mc1 = "mc\<lparr>m_channel := ch\<rparr>"
  let ?seq = "m_lastKeepaliveTransmitted mc + 1"
  have cl: "ch_clientId ch = connection mc" using c by (auto simp: GetCurrentTimeInMs_def split: list.splits)
  have i1: "mc_inv P b ?mc1"
    by (rule mc_inv_channel [OF _ inv]) (use unlocked_clock [OF c] mc_inv_unlocked [OF inv] in simp)
  have s1: "settled_to P b mc ?mc1"
    using i1 evolves_onward [of mc ?mc1] evolves_clock [OF c] cl by (simp add: settled_to_def)
  have r1: "connection ?mc1 \<noteq> kBroadcastClientId \<longrightarrow> channel_room P b ?mc1"
    using room cl by simp
  obtain mc2 where d: "Disconnect P ?mc1 = Some mc2" "settled_to P b ?mc1 mc2" using Disconnect_settled [OF i1 r1] by blast
  let ?mc3 = "?mc1\<lparr>m_lastKeepaliveTransmitted := ?seq\<rparr>"
  have i3: "mc_inv P b ?mc3" and r3: "connection ?mc3 \<noteq> kBroadcastClientId \<longrightarrow> channel_room P b ?mc3"
    using i1 r1 by simp_all
  obtain r mc4 where f: "Channel_Forward P (heartbeat ?seq) ?mc3 = Some (r, mc4)" "send_effect P b ?mc3 mc4"
    using Channel_Forward_spec [OF i3 r3] by blast
  have "settled_to P b mc ?mc3" using s1 by (simp add: settled_to_def onward_def)
  then have "settled_to P b mc mc4" using send_effect_settled [OF f(2)] by (rule settled_to_trans)
  then have s4: "settled_to P b mc (mc4\<lparr>m_lastActivityTimeMs := now\<rparr>)" by (simp add: settled_to_def onward_def)
  have s2: "settled_to P b mc mc2" by (rule settled_to_trans [OF s1 d(2)])
  show ?thesis using s1 s2 s4 d(1) f(1) by (simp add: keep_alive_def c Let_def)
qed

lemma update_end:
  assumes inv: "mc_inv P b mc" and room: "channel_room P b mc"
    and s: "settled_to P b mc mc1"
  shows "steps_to P b mc1 (Channel_UpdateSessions P mc1)"
    and "connection mc1 = kBroadcastClientId \<Longrightarrow> no_sessions mc1 \<Longrightarrow> Channel_UpdateSessions P mc1 = Some (mc1\<lparr>m_channel := (m_channel mc1)\<lparr>ch_hasSessions := False\<rparr>\<rparr>)"
proof -
  have i1: "mc_inv P b mc1" and r1: "no_sessions mc1 \<or> mgr_room (managerParams P) b (m_sessionManager mc1)"
    using s room by (auto simp: settled_to_def channel_room_def)
  show "steps_to P b mc1 (Channel_UpdateSessions P mc1)"
    and "connection mc1 = kBroadcastClientId \<Longrightarrow> no_sessions mc1 \<Longrightarrow> Channel_UpdateSessions P mc1 = Some (mc1\<lparr>m_channel := (m_channel mc1)\<lparr>ch_hasSessions := False\<rparr>\<rparr>)"
    using Channel_UpdateSessions_spec [OF i1 r1] by blast+
qed

text \<open>The update, with the state before the sessions are updated.\<close>

lemma Channel_Update_spec:
  assumes inv: "mc_inv P b mc" and room: "read_room P b reads mc"
  shows "case read_messages P reads mc of
      None \<Rightarrow> Channel_Update P reads mc = None \<and> \<not> patient (answers mc)
    | Some (r, mc1) \<Rightarrow> \<exists>mc2. r = read_end reads \<and> steps_to P b mc (Some mc1) \<and> settled_to P b mc1 mc2
        \<and> Channel_Update P reads mc = Channel_UpdateSessions P mc2 \<and> steps_to P b mc2 (Channel_UpdateSessions P mc2)
        \<and> (r \<noteq> NotReady \<longrightarrow> connection mc2 = kBroadcastClientId)
        \<and> (connection mc2 = kBroadcastClientId \<longrightarrow> no_sessions mc2 \<longrightarrow> Channel_UpdateSessions P mc2 = Some (mc2\<lparr>m_channel := (m_channel mc2)\<lparr>ch_hasSessions := False\<rparr>\<rparr>))"
proof (cases "read_messages P reads mc")
  case None
  with read_messages_spec [OF inv room] show ?thesis by (simp add: Channel_Update_def)
next
  case (Some st)
  obtain r mc1 where st: "st = (r, mc1)" by fastforce
  with Some read_messages_spec [OF inv room] have r: "r = read_end reads" "steps_to P b mc (Some mc1)"
    and i1: "mc_inv P b mc1" and room1: "channel_room P b mc1" by auto
  obtain r2 mc2 where p: "ping_while_discovering P r mc1 = Some (r2, mc2)" "settled_to P b mc1 mc2"
    "r \<noteq> NotReady \<Longrightarrow> r2 = r \<and> mc2 = mc1"
    using ping_spec [OF i1 room1, of r] by blast
  have i2: "mc_inv P b mc2" using p(2) by (simp add: settled_to_def)
  have room2: "connection mc2 \<noteq> kBroadcastClientId \<longrightarrow> channel_room P b mc2"
    using settled_to_room [OF p(2) room1] by blast
  let ?third = "if r2 \<noteq> NotReady then Disconnect P mc2
                 else if RequiresClientRegistration P \<and> RequiresKeepAlive P then keep_alive P mc2 else Some mc2"
  have "\<exists>mc3. ?third = Some mc3 \<and> settled_to P b mc2 mc3 \<and> (r2 \<noteq> NotReady \<longrightarrow> connection mc3 = kBroadcastClientId)"
    using Disconnect_settled [OF i2 room2] keep_alive_spec [OF i2 room2] settled_to_refl [OF i2]
    by (cases "r2 = NotReady"; cases "RequiresClientRegistration P \<and> RequiresKeepAlive P") simp_all
  then obtain mc3 where t: "?third = Some mc3" "settled_to P b mc2 mc3" "r2 \<noteq> NotReady \<longrightarrow> connection mc3 = kBroadcastClientId"
    by blast
  have s3: "settled_to P b mc1 mc3" by (rule settled_to_trans [OF p(2) t(2)])
  have upd: "Channel_Update P reads mc = Channel_UpdateSessions P mc3"
    using Some st p(1) t(1) by (simp add: Channel_Update_def)
  have gone: "r \<noteq> NotReady \<longrightarrow> connection mc3 = kBroadcastClientId" using p(3) t(3) by auto
  show ?thesis unfolding Some st option.case prod.case
    by (intro exI [of _ mc3] conjI r s3 upd gone update_end(1) [OF i1 room1 s3] impI update_end(2) [OF i1 room1 s3])
qed

lemma patient_update:
  assumes inv: "mc_inv P b mc" and room: "read_room P b reads mc" and pat: "patient (answers mc)"
  shows "\<exists>mc'. Channel_Update P reads mc = Some mc' \<and> mc_inv P b mc' \<and> patient (answers mc')
    \<and> (connection mc' = connection mc \<or> connection mc' = kBroadcastClientId \<and> no_sessions mc')
    \<and> (read_end reads \<noteq> NotReady \<longrightarrow> connection mc' = kBroadcastClientId)"
proof -
  obtain r mc1 mc2 where p: "r = read_end reads" "steps_to P b mc (Some mc1)" "settled_to P b mc1 mc2"
    "Channel_Update P reads mc = Channel_UpdateSessions P mc2" "steps_to P b mc2 (Channel_UpdateSessions P mc2)"
    "r \<noteq> NotReady \<Longrightarrow> connection mc2 = kBroadcastClientId"
    "connection mc2 = kBroadcastClientId \<Longrightarrow> no_sessions mc2 \<Longrightarrow> Channel_UpdateSessions P mc2 = Some (mc2\<lparr>m_channel := (m_channel mc2)\<lparr>ch_hasSessions := False\<rparr>\<rparr>)"
    using Channel_Update_spec [OF inv room] pat by (auto split: option.splits)
  have pat2: "patient (answers mc2)" using p(2,3) pat by (auto simp: onward_def settled_to_def)
  then obtain mc' where u: "Channel_UpdateSessions P mc2 = Some mc'" using p(5) by (cases "Channel_UpdateSessions P mc2") auto
  have conn: "connection mc' = connection mc2" "patient (answers mc')" "mc_inv P b mc'"
    using p(5) u pat2 by (auto simp: onward_def)
  have "connection mc' = connection mc \<or> connection mc' = kBroadcastClientId \<and> no_sessions mc'"
    using p(2,3,7) pat u conn(1) by (auto simp: settled_to_def)
  with p(1,4,6) u conn show ?thesis by auto
qed

text \<open>C15.
  The periodic update of a message channel is safe.  Whatever messages arrive and whatever the transport
  answers to reads, the update returns as long as no write fails outright, and it keeps the invariant of
  the channel and of the session manager under it.  The connection is the same afterwards, or it is gone
  and with it every session; it is gone when a read failed.
\<close>

theorem channel_update_safe:
  assumes inv: "mc_inv P b mc" and room: "read_room P b reads mc"
    and writes: "set (ch_replies (m_channel mc)) \<subseteq> {Success, NotReady}"
  shows "\<exists>mc'. Channel_Update P reads mc = Some mc' \<and> mc_inv P b mc'
    \<and> set (ch_replies (m_channel mc')) \<subseteq> {Success, NotReady}
    \<and> (ch_clientId (m_channel mc') = ch_clientId (m_channel mc)
       \<or> ch_clientId (m_channel mc') = kBroadcastClientId \<and> all_entries (m_sessions (m_sessionManager mc')) = [])
    \<and> (read_end reads \<noteq> NotReady \<longrightarrow> ch_clientId (m_channel mc') = kBroadcastClientId)"
  using patient_update [OF inv room] writes unfolding patient_def by blast

theorem channel_update_safe_witness:
  "\<exists>mc'. Channel_Update sample_P [(Error, zero_message)] sample_mc = Some mc' \<and> ch_clientId (m_channel mc') = 0"
  using channel_update_safe [of sample_P 2 sample_mc "[(Error, zero_message)]"] sample_mc_inv sample_mc_room by auto

subsection \<open>Keeping the connection alive\<close>

lemma unat_ucast_widen: "unat (ucast (w :: u32) :: u64) = unat w"
proof -
  have "unat w < 2 ^ 32" using unsigned_less [of w, where ?'a = nat] by simp
  then show ?thesis by (simp add: unsigned_ucast_eq take_bit_nat_eq_self)
qed

text \<open>An update in which nothing arrives, no discovery runs and the peer is overdue.\<close>

definition overdue :: "MessageChannel \<Rightarrow> bool" where
  "overdue mc \<longleftrightarrow> kKeepAliveTimeout < fst (GetCurrentTimeInMs (m_channel mc)) - m_lastActivityTimeMs mc"

definition nothing_read :: "read_script \<Rightarrow> bool" where
  "nothing_read reads \<longleftrightarrow> reads = [] \<or> fst (hd reads) = NotReady"

definition outstanding :: "MessageChannel \<Rightarrow> nat" where
  "outstanding mc = unat (m_lastKeepaliveTransmitted mc - m_lastKeepaliveReceived mc)"

lemma silent_update_eq:
  assumes "nothing_read reads" and "\<not> dq_active (m_discoveredClientsQueue mc)"
    and "RequiresClientRegistration P" and "RequiresKeepAlive P"
  shows "Channel_Update P reads mc = Option.bind (keep_alive P mc) (Channel_UpdateSessions P)"
proof -
  have "read_messages P reads mc = Some (NotReady, mc)"
    using assms(1) by (cases reads) (auto simp: nothing_read_def)
  then show ?thesis using assms(2-) by (simp add: Channel_Update_def ping_while_discovering_def)
qed

text \<open>The transport takes the next message; a patient one refuses it with \<^verbatim>\<open>NotReady\<close> otherwise.\<close>

definition accepts :: "MessageChannel \<Rightarrow> bool" where
  "accepts mc \<longleftrightarrow> ch_replies (m_channel mc) = [] \<or> hd (ch_replies (m_channel mc)) = Success"

lemma overdue_keep_alive:
  assumes inv: "mc_inv P b mc" and room: "channel_room P b mc" and pat: "patient (answers mc)"
    and conn: "connection mc \<noteq> kBroadcastClientId" and late: "overdue mc" and k: "keep_alive P mc = Some mc'"
  shows "m_lastKeepaliveReceived mc' = m_lastKeepaliveReceived mc"
    and "m_discoveredClientsQueue mc' = m_discoveredClientsQueue mc"
    and "outstanding mc < 5 \<Longrightarrow> connection mc' = connection mc \<and> outstanding mc' = outstanding mc + 1
      \<and> m_sessionManager mc' = m_sessionManager mc
      \<and> m_lastKeepaliveTransmitted mc' = m_lastKeepaliveTransmitted mc + 1
      \<and> ch_wire (m_channel mc') = ch_wire (m_channel mc)
          @ (if accepts mc then [heartbeat (m_lastKeepaliveTransmitted mc + 1)] else [])"
    and "\<not> outstanding mc < 5 \<Longrightarrow> connection mc' = kBroadcastClientId \<and> no_sessions mc'
      \<and> ch_wire (m_channel mc') = ch_wire (m_channel mc)"
proof -
  obtain now ch where c: "GetCurrentTimeInMs (m_channel mc) = (now, ch)" by fastforce
  let ?mc1 = "mc\<lparr>m_channel := ch\<rparr>"
  let ?seq = "m_lastKeepaliveTransmitted mc + 1"
  let ?mc3 = "?mc1\<lparr>m_lastKeepaliveTransmitted := ?seq\<rparr>"
  have cl: "ch_clientId ch = connection mc" "ch_replies ch = answers mc" "ch_wire ch = ch_wire (m_channel mc)"
    using c by (auto simp: GetCurrentTimeInMs_def split: list.splits)
  have i: "mc_inv P b ?mc1"
    by (rule mc_inv_channel [OF _ inv]) (use unlocked_clock [OF c] mc_inv_unlocked [OF inv] in simp)
  have r: "channel_room P b ?mc1" and conn1: "connection ?mc1 \<noteq> kBroadcastClientId" using room cl conn by simp_all
  have few: "(ucast (m_lastKeepaliveTransmitted mc - m_lastKeepaliveReceived mc) :: u64) < kKeepAliveThreshold
      \<longleftrightarrow> outstanding mc < 5"
    by (simp add: outstanding_def kKeepAliveThreshold_def word_less_nat_alt unat_ucast_widen)
  have un: "keep_alive P mc = (if outstanding mc < 5
      then map_option (\<lambda>(_, mc2). mc2\<lparr>m_lastActivityTimeMs := now\<rparr>) (Channel_Forward P (heartbeat ?seq) ?mc3)
      else Disconnect P ?mc1)"
    using late by (simp add: keep_alive_def c Let_def overdue_def few)
  obtain x ch4 where w: "WriteTransportMessage (heartbeat ?seq) ch = (x, ch4)" by fastforce
  note e = WriteTransportMessage_effect [OF w]
  have acc: "x = Success \<longleftrightarrow> accepts mc"
    using w by (auto simp: WriteTransportMessage_def accepts_def cl(2) split: list.splits)
  have f: "Channel_Forward P (heartbeat ?seq) ?mc3 = Some (x, ?mc3\<lparr>m_channel := ch4\<rparr>)"
    by (rule Channel_Forward_patient) (use conn1 cl pat w in simp_all)
  obtain mc2 where d: "Disconnect P ?mc1 = Some mc2" "connection mc2 = kBroadcastClientId" "no_sessions mc2"
    "\<exists>st. mc2 = with_manager ?mc1 st" "ch_wire (m_channel mc2) = ch_wire ch"
    using Disconnect_spec [OF i impI [OF r]] conn1 by auto
  have out: "outstanding mc < 5 \<Longrightarrow> outstanding ?mc3 = outstanding mc + 1"
  proof -
    let ?gap = "m_lastKeepaliveTransmitted mc - m_lastKeepaliveReceived mc"
    assume "outstanding mc < 5"
    then have "unat (?gap + 1) = unat ?gap + 1" by (intro unat_Suc_no_wrap) (simp add: outstanding_def)
    moreover have "?seq - m_lastKeepaliveReceived mc = ?gap + 1" by (rule diff_add_eq [symmetric])
    ultimately have "unat (?seq - m_lastKeepaliveReceived mc) = unat ?gap + 1" by (simp only:)
    then show "outstanding ?mc3 = outstanding mc + 1" by (simp add: outstanding_def)
  qed
  have mc': "mc' = (if outstanding mc < 5 then ?mc3\<lparr>m_channel := ch4, m_lastActivityTimeMs := now\<rparr> else mc2)"
    using k un f d(1) by (auto split: if_splits)
  show "m_lastKeepaliveReceived mc' = m_lastKeepaliveReceived mc"
    and "m_discoveredClientsQueue mc' = m_discoveredClientsQueue mc"
    using mc' d(4) by (cases "outstanding mc < 5"; force)+
  show "outstanding mc < 5 \<Longrightarrow> connection mc' = connection mc \<and> outstanding mc' = outstanding mc + 1
      \<and> m_sessionManager mc' = m_sessionManager mc
      \<and> m_lastKeepaliveTransmitted mc' = m_lastKeepaliveTransmitted mc + 1
      \<and> ch_wire (m_channel mc') = ch_wire (m_channel mc)
          @ (if accepts mc then [heartbeat (m_lastKeepaliveTransmitted mc + 1)] else [])"
    using mc' e(1,3) acc cl out by (simp add: outstanding_def)
  show "\<not> outstanding mc < 5 \<Longrightarrow> connection mc' = kBroadcastClientId \<and> no_sessions mc'
      \<and> ch_wire (m_channel mc') = ch_wire (m_channel mc)"
    using mc' d(2,3,5) cl(3) by simp
qed

lemma silent_step:
  assumes inv: "mc_inv P b mc" and room: "channel_room P b mc" and pat: "patient (answers mc)"
    and conn: "connection mc \<noteq> kBroadcastClientId" and late: "overdue mc"
    and silent: "nothing_read reads" "\<not> dq_active (m_discoveredClientsQueue mc)"
    and needs: "RequiresClientRegistration P" "RequiresKeepAlive P"
    and u: "Channel_Update P reads mc = Some mc'"
  shows "mc_inv P b mc' \<and> patient (answers mc') \<and> \<not> dq_active (m_discoveredClientsQueue mc')
    \<and> (if outstanding mc < 5
       then connection mc' = connection mc \<and> outstanding mc' = outstanding mc + 1
         \<and> m_lastKeepaliveTransmitted mc' = m_lastKeepaliveTransmitted mc + 1
         \<and> (\<exists>sent. ch_wire (m_channel mc') = ch_wire (m_channel mc)
               @ (if accepts mc then [heartbeat (m_lastKeepaliveTransmitted mc + 1)] else []) @ sent
             \<and> (no_sessions mc \<longrightarrow> sent = []))
       else connection mc' = kBroadcastClientId \<and> no_sessions mc' \<and> ch_wire (m_channel mc') = ch_wire (m_channel mc))"
proof -
  obtain mc1 where k: "keep_alive P mc = Some mc1" and v: "Channel_UpdateSessions P mc1 = Some mc'"
    using u silent_update_eq [OF silent needs] by (cases "keep_alive P mc") auto
  have s: "settled_to P b mc mc1" using keep_alive_spec [OF inv impI [OF room]] k by auto
  have i1: "mc_inv P b mc1" using s by (simp add: settled_to_def)
  note e = update_end [OF inv room s]
  have pat1: "patient (answers mc1)" using s pat by (simp add: settled_to_def onward_def)
  obtain st where st: "mc' = with_manager mc1 st" "evolves (m_channel mc1) (m_channel mc')"
    by (rule Channel_UpdateSessions_evolves [OF i1 v])
  obtain sent where sent: "ch_wire (m_channel mc') = ch_wire (m_channel mc1) @ sent"
    "connection mc1 = kBroadcastClientId \<Longrightarrow> sent = []" using st(2) by (auto simp: evolves_def)
  have none: "sent = []" if "no_sessions mc1" 
    using Channel_UpdateSessions_spec(2) [OF i1 disjI1 [OF that] that] v sent(1) by auto
  have m: "mc_inv P b mc'" "patient (answers mc')" "connection mc' = connection mc1"
    using e(1) v pat1 by (auto simp: onward_def)
  note oka = overdue_keep_alive [OF inv room pat conn late k]
  have fields: "outstanding mc' = outstanding mc1" "m_lastKeepaliveTransmitted mc' = m_lastKeepaliveTransmitted mc1"
    using st(1) by (simp_all add: outstanding_def)
  have quiet: "\<not> dq_active (m_discoveredClientsQueue mc')" using st(1) oka(2) silent(2) by simp
  show ?thesis
  proof (cases "outstanding mc < 5")
    case True
    note h = oka(3) [OF True]
    have "no_sessions mc \<longrightarrow> sent = []" using none h by simp
    with h sent(1) m fields quiet True show ?thesis by simp
  next
    case False
    note h = oka(4) [OF False]
    have "no_sessions mc'" using e(2) h v by auto
    with h sent m quiet False show ?thesis by simp
  qed
qed

text \<open>C34.
  A peer that stays silent is given up after five heartbeats.  While nothing arrives, no write fails outright and every
  update finds the last activity more than two seconds old, each update writes one heartbeat, which carries the number
  after the last one (it is on the wire if the transport takes it), before anything the sessions send (nothing,
  without sessions), and keeps the connection, until five heartbeats are unanswered.  The next update sends nothing
  at all: it disconnects and closes every session.  The counters may wrap around.
\<close>

theorem silent_peer_given_up:
  assumes needs: "RequiresClientRegistration P" "RequiresKeepAlive P"
    and start: "mc_inv P b (st 0)" "set (ch_replies (m_channel (st 0))) \<subseteq> {Success, NotReady}"
      "ch_clientId (m_channel (st 0)) \<noteq> kBroadcastClientId" "\<not> dq_active (m_discoveredClientsQueue (st 0))"
      "outstanding (st 0) \<le> 5"
    and run: "\<forall>i \<le> 5 - outstanding (st 0). channel_room P b (st i) \<and> overdue (st i) \<and> nothing_read (reads i)
      \<and> Channel_Update P (reads i) (st i) = Some (st (Suc i))"
  shows "(\<forall>i \<le> 5 - outstanding (st 0). ch_clientId (m_channel (st i)) = ch_clientId (m_channel (st 0))
        \<and> outstanding (st i) = outstanding (st 0) + i)
    \<and> (\<forall>i < 5 - outstanding (st 0). \<exists>sent. ch_wire (m_channel (st (Suc i))) = ch_wire (m_channel (st i))
          @ (if accepts (st i) then [heartbeat (m_lastKeepaliveTransmitted (st 0) + of_nat (Suc i))] else []) @ sent
        \<and> (all_entries (m_sessions (m_sessionManager (st i))) = [] \<longrightarrow> sent = []))
    \<and> ch_wire (m_channel (st (6 - outstanding (st 0)))) = ch_wire (m_channel (st (5 - outstanding (st 0))))
    \<and> ch_clientId (m_channel (st (6 - outstanding (st 0)))) = kBroadcastClientId
    \<and> all_entries (m_sessions (m_sessionManager (st (6 - outstanding (st 0))))) = []"
proof -
  let ?d = "outstanding (st 0)"
  let ?J = "\<lambda>i. mc_inv P b (st i) \<and> patient (answers (st i)) \<and> \<not> dq_active (m_discoveredClientsQueue (st i))
    \<and> connection (st i) = connection (st 0) \<and> outstanding (st i) = ?d + i
    \<and> m_lastKeepaliveTransmitted (st i) = m_lastKeepaliveTransmitted (st 0) + of_nat i"
  have step: "mc_inv P b (st (Suc i)) \<and> patient (answers (st (Suc i))) \<and> \<not> dq_active (m_discoveredClientsQueue (st (Suc i)))
    \<and> (if outstanding (st i) < 5
       then connection (st (Suc i)) = connection (st i) \<and> outstanding (st (Suc i)) = outstanding (st i) + 1
         \<and> m_lastKeepaliveTransmitted (st (Suc i)) = m_lastKeepaliveTransmitted (st i) + 1
         \<and> (\<exists>sent. ch_wire (m_channel (st (Suc i))) = ch_wire (m_channel (st i))
               @ (if accepts (st i) then [heartbeat (m_lastKeepaliveTransmitted (st i) + 1)] else []) @ sent
             \<and> (no_sessions (st i) \<longrightarrow> sent = []))
       else connection (st (Suc i)) = kBroadcastClientId \<and> no_sessions (st (Suc i))
         \<and> ch_wire (m_channel (st (Suc i))) = ch_wire (m_channel (st i)))"
    if "?J i" "i \<le> 5 - ?d" for i
    using run that start(3) by (intro silent_step [OF _ _ _ _ _ _ _ needs]) auto
  have J: "?J i" if "i \<le> 5 - ?d" for i
    using that
  proof (induction i)
    case 0
    show ?case using start by (simp add: patient_def)
  next
    case (Suc i)
    then have "?J i" "i \<le> 5 - ?d" "outstanding (st i) < 5" by auto
    with step [of i] show ?case by (simp add: add.commute add.left_commute)
  qed
  have beat: "\<exists>sent. ch_wire (m_channel (st (Suc i))) = ch_wire (m_channel (st i))
          @ (if accepts (st i) then [heartbeat (m_lastKeepaliveTransmitted (st 0) + of_nat (Suc i))] else []) @ sent
        \<and> (no_sessions (st i) \<longrightarrow> sent = [])" if "i < 5 - ?d" for i
  proof -
    have j: "?J i" "i \<le> 5 - ?d" "outstanding (st i) < 5" using J [of i] that by auto
    have next_id: "m_lastKeepaliveTransmitted (st i) + 1 = m_lastKeepaliveTransmitted (st 0) + of_nat (Suc i)"
      using j(1) by (simp add: add.commute add.left_commute)
    from step [OF j(1,2), unfolded if_P [OF j(3)]] show ?thesis unfolding next_id [symmetric] by blast
  qed
  have "outstanding (st (5 - ?d)) = 5" using J [of "5 - ?d"] start(5) by simp
  moreover have "Suc (5 - ?d) = 6 - ?d" using start(5) by simp
  ultimately have "connection (st (6 - ?d)) = kBroadcastClientId \<and> no_sessions (st (6 - ?d))
      \<and> ch_wire (m_channel (st (6 - ?d))) = ch_wire (m_channel (st (5 - ?d)))"
    using step [OF J [of "5 - ?d"]] by simp
  with J beat show ?thesis by blast
qed

definition sample_late :: MessageChannel where
  "sample_late = sample_mc\<lparr>m_channel := sample_channel\<lparr>ch_clock := [3000, 6000]\<rparr>, m_lastKeepaliveTransmitted := 4\<rparr>"

definition sample_late1 :: MessageChannel where
  "sample_late1 = sample_late\<lparr>m_channel := sample_channel\<lparr>ch_clock := [6000], ch_now := 3000, ch_wire := [heartbeat 5]\<rparr>,
     m_lastKeepaliveTransmitted := 5, m_lastActivityTimeMs := 3000\<rparr>"

lemma sample_late_inv:
  "mc_inv sample_P 2 sample_late" "channel_room sample_P 2 sample_late"
  "mc_inv sample_P 2 sample_late1" "channel_room sample_P 2 sample_late1"
  using sample_mc_inv sample_mc_room
  by (simp_all add: sample_late_def sample_late1_def mc_inv_def unlocked_def sample_channel_def)

lemma sample_late_outstanding: "outstanding sample_late = 4" "overdue sample_late" "overdue sample_late1"
  by (simp_all add: outstanding_def overdue_def sample_late_def sample_late1_def sample_mc_def new_MessageChannel_def
      GetCurrentTimeInMs_def kKeepAliveTimeout_def)

lemma sample_P_needs: "RequiresClientRegistration sample_P" "RequiresKeepAlive sample_P"
  by (simp_all add: sample_P_def)

lemma sample_late_update: "Channel_Update sample_P [] sample_late = Some sample_late1"
proof -
  have "keep_alive sample_P sample_late = Some sample_late1"
    by (simp add: keep_alive_def sample_late_def sample_late1_def sample_mc_def new_MessageChannel_def sample_channel_def
        GetCurrentTimeInMs_def kKeepAliveTimeout_def kKeepAliveThreshold_def Channel_Forward_def WriteTransportMessage_def)
  moreover have "no_sessions sample_late1"
    by (simp add: sample_late1_def sample_late_def sample_sm1_simps all_entries_def new_HashBase_def)
  then have "Channel_UpdateSessions sample_P sample_late1 = Some sample_late1"
    using Channel_UpdateSessions_spec(2) [OF sample_late_inv(3)]
    by (auto simp: sample_late1_def sample_channel_def)
  moreover have "Channel_Update sample_P [] sample_late
      = Option.bind (keep_alive sample_P sample_late) (Channel_UpdateSessions sample_P)"
    by (rule silent_update_eq [OF _ _ sample_P_needs])
      (simp_all add: nothing_read_def sample_late_def new_DiscoveredClientsQueue_def)
  ultimately show ?thesis by simp
qed

theorem silent_peer_given_up_witness:
  "\<exists>mc. Channel_Update sample_P [] sample_late1 = Some mc \<and> ch_clientId (m_channel sample_late1) = 7
     \<and> ch_clientId (m_channel mc) = kBroadcastClientId"
proof -
  obtain mc where u: "Channel_Update sample_P [] sample_late1 = Some mc"
    using patient_update [OF sample_late_inv(3), of "[]"] sample_late_inv(4) by (auto simp: sample_late1_def)
  let ?st = "\<lambda>i :: nat. if i = 0 then sample_late else if i = 1 then sample_late1 else mc"
  have "i = 0 \<or> i = 1" if "i \<le> 5 - outstanding (?st 0)" for i
    using that sample_late_outstanding(1) by auto
  then have "\<forall>i \<le> 5 - outstanding (?st 0). channel_room sample_P 2 (?st i) \<and> overdue (?st i) \<and> nothing_read []
      \<and> Channel_Update sample_P [] (?st i) = Some (?st (Suc i))"
    using sample_late_inv sample_late_outstanding sample_late_update u by (auto simp: nothing_read_def)
  from silent_peer_given_up [OF sample_P_needs _ _ _ _ _ this] sample_late_inv sample_late_outstanding(1) u
  show ?thesis by (auto simp: sample_late_def sample_late1_def new_DiscoveredClientsQueue_def)
qed

subsection \<open>A write that fails under the lock\<close>




end
