(* ===== verification/Channel_Discovery.thy ===== *)
theory Channel_Discovery
  imports Channel_Theorems
begin

text \<open>
  The discovery of clients: what the queue of discovered clients holds, that \<^verbatim>\<open>DiscoverClients\<close> tells
  its caller of every client once, and the exchange of a ping and a pong between two channels.
\<close>

subsection \<open>What sending and updating do to the queue\<close>

abbreviation queue :: "MessageChannel \<Rightarrow> DiscoveredClientsQueue" where
  "queue mc \<equiv> m_discoveredClientsQueue mc"

lemma Disconnect_queue: "Disconnect P mc = Some mc' \<Longrightarrow> queue mc' = queue mc"
  by (auto simp: Disconnect_def split: if_splits)

lemma Channel_Forward_queue: "Channel_Forward P m mc = Some (r, mc') \<Longrightarrow> queue mc' = queue mc"
  by (auto simp: Channel_Forward_def Let_def split: if_splits prod.splits dest: Disconnect_queue)

lemma send_client_info_queue: "send_client_info P dst msg md mc = Some (r, mc') \<Longrightarrow> queue mc' = queue mc"
  by (auto simp: send_client_info_def Channel_Send_def split: if_splits dest: Channel_Forward_queue)

lemma map_with_manager_queue: "map_option (with_manager mc) st = Some mc' \<Longrightarrow> queue mc' = queue mc"
  by auto

lemma bus_event_queue: "bus_event ev mc = (x, mc') \<Longrightarrow> queue mc' = queue mc"
  by (auto simp: bus_event_def split: option.splits)

lemma bus_event_queue' [simp]: "queue (snd (bus_event ev mc)) = queue mc"
  by (rule bus_event_queue [OF surjective_pairing])

lemma note_activity_queue [simp]: "queue (note_activity P mc) = queue mc"
  by (simp add: note_activity_def split: prod.splits)

text \<open>The pongs among the messages that were read.\<close>

definition is_pong :: "MessageBuffer \<Rightarrow> bool" where
  "is_pong m \<longleftrightarrow> protocolId (header m) = Protocol_System \<and> SystemMessage_of (messageId (header m)) = Pong"

definition client_of_pong :: "MessageBuffer \<Rightarrow> DiscoveredClientInfo" where
  "client_of_pong m = \<lparr>dci_id = srcClientId (header m), dci_metadata = ClientMetadata_of_u64 (sequence (header m)),
     dci_clientInfo = payload_client_info m\<rparr>"

definition pongs :: "read_script \<Rightarrow> DiscoveredClientInfo set" where
  "pongs reads = {client_of_pong m | m. (Success, m) \<in> set reads \<and> is_pong m}"

definition queue_grows :: "DiscoveredClientInfo set \<Rightarrow> DiscoveredClientsQueue \<Rightarrow> DiscoveredClientsQueue \<Rightarrow> bool" where
  "queue_grows A q q' \<longleftrightarrow> dq_active q' = dq_active q \<and> dq_filter q' = dq_filter q
     \<and> (\<exists>new. dq_clients q' = dq_clients q @ new \<and> dq_hasDataEvent q' = (dq_hasDataEvent q \<or> new \<noteq> [])
          \<and> (\<forall>c \<in> set new. c \<in> A \<and> Matches (dq_filter q) (dci_metadata c)))"

lemma queue_grows_refl [simp]: "queue_grows A q q"
  unfolding queue_grows_def by (intro conjI refl exI [of _ "[]"]) simp_all

lemma queue_grows_mono: "queue_grows A q q' \<Longrightarrow> A \<subseteq> B \<Longrightarrow> queue_grows B q q'"
  unfolding queue_grows_def by blast

lemma queue_grows_trans:
  assumes "queue_grows A q q1" and "queue_grows B q1 q2"
  shows "queue_grows (A \<union> B) q q2"
proof -
  obtain u where u: "dq_clients q1 = dq_clients q @ u" "dq_hasDataEvent q1 = (dq_hasDataEvent q \<or> u \<noteq> [])"
    "\<forall>c \<in> set u. c \<in> A \<and> Matches (dq_filter q) (dci_metadata c)"
    using assms(1) unfolding queue_grows_def by blast
  obtain v where v: "dq_clients q2 = dq_clients q1 @ v" "dq_hasDataEvent q2 = (dq_hasDataEvent q1 \<or> v \<noteq> [])"
    "\<forall>c \<in> set v. c \<in> B \<and> Matches (dq_filter q1) (dci_metadata c)"
    using assms(2) unfolding queue_grows_def by blast
  have "dq_filter q1 = dq_filter q" "dq_filter q2 = dq_filter q" "dq_active q2 = dq_active q"
    using assms by (simp_all add: queue_grows_def)
  with u v show ?thesis unfolding queue_grows_def by (intro conjI exI [of _ "u @ v"]) auto
qed

lemma receive_pong_queue:
  assumes "is_pong m"
  shows "queue_grows {client_of_pong m} (queue mc) (queue (receive_pong P m mc))"
proof (cases "dq_active (queue mc) \<and> Matches (dq_filter (queue mc)) (ClientMetadata_of_u64 (sequence (header m))) \<and> queueMemory P")
  case True
  then show ?thesis unfolding queue_grows_def
    by (intro conjI exI [of _ "[client_of_pong m]"]) (simp_all add: receive_pong_def client_of_pong_def Let_def)
next
  case False
  then have "receive_pong P m mc = mc" by (auto simp: receive_pong_def Let_def)
  then show ?thesis by simp
qed

lemma HandleMessageReceived_queue:
  assumes h: "HandleMessageReceived P m mc = Some mc'"
  shows "queue_grows (if is_pong m then {client_of_pong m} else {}) (queue mc) (queue mc')"
proof -
  let ?mc = "note_activity P mc"
  have "queue mc' = queue ?mc \<or> is_pong m \<and> mc' = receive_pong P m ?mc"
  proof (cases "protocolId (header m) = Protocol_System \<and> system_message P m ?mc = Some mc'")
    case True
    then show ?thesis
      by (cases "SystemMessage_of (messageId (header m))")
        (auto simp: system_message_def receive_ping_def is_pong_def Let_def
          split: prod.splits if_splits dest!: send_client_info_queue bus_event_queue)
  next
    case False
    with h show ?thesis
      by (auto simp: HandleMessageReceived_def session_packet_def Let_def split: if_splits dest: map_with_manager_queue)
  qed
  then show ?thesis using receive_pong_queue [of m ?mc P] by auto
qed

lemma read_messages_queue:
  "read_messages P reads mc = Some (r, mc') \<Longrightarrow> queue_grows (pongs reads) (queue mc) (queue mc')"
proof (induction reads arbitrary: mc)
  case (Cons x reads)
  obtain result m where x: "x = (result, m)" by fastforce
  show ?case
  proof (cases "result = Success")
    case False
    with Cons.prems x show ?thesis by simp
  next
    case True
    then obtain mc1 where h: "HandleMessageReceived P m mc = Some mc1" "read_messages P reads mc1 = Some (r, mc')"
      using Cons.prems x by (cases "HandleMessageReceived P m mc") auto
    have "(if is_pong m then {client_of_pong m} else {}) \<union> pongs reads \<subseteq> pongs (x # reads)"
      using x True by (auto simp: pongs_def)
    with queue_grows_trans [OF HandleMessageReceived_queue [OF h(1)] Cons.IH [OF h(2)]] show ?thesis
      by (rule queue_grows_mono)
  qed
qed simp

lemma keep_alive_queue: "keep_alive P mc = Some mc' \<Longrightarrow> queue mc' = queue mc"
  by (auto simp: keep_alive_def Let_def split: if_splits prod.splits dest!: Channel_Forward_queue Disconnect_queue)

lemma Channel_Update_queue_parts:
  assumes "Channel_Update P reads mc = Some mc'"
  obtains r mc1 where "read_messages P reads mc = Some (r, mc1)" "queue mc' = queue mc1"
proof -
  obtain r mc1 r2 mc2 mc3 where s: "read_messages P reads mc = Some (r, mc1)" "ping_while_discovering P r mc1 = Some (r2, mc2)"
    "(if r2 \<noteq> NotReady then Disconnect P mc2
      else if RequiresClientRegistration P \<and> RequiresKeepAlive P then keep_alive P mc2 else Some mc2) = Some mc3"
    "Channel_UpdateSessions P mc3 = Some mc'"
    using assms by (auto simp: Channel_Update_def bind_eq_Some_conv)
  have "queue mc2 = queue mc1"
    using s(2) by (auto simp: ping_while_discovering_def split: if_splits dest: send_client_info_queue)
  moreover have "queue mc3 = queue mc2"
    using s(3) by (auto split: if_splits dest: keep_alive_queue Disconnect_queue)
  moreover have "queue mc' = queue mc3"
    using s(4) map_with_manager_queue unfolding Channel_UpdateSessions_def by blast
  ultimately show thesis using that s(1) by simp
qed

lemma Channel_Update_queue:
  assumes "Channel_Update P reads mc = Some mc'"
  shows "queue_grows (pongs reads) (queue mc) (queue mc')"
  using assms by (rule Channel_Update_queue_parts) (simp add: read_messages_queue)

lemma run_updates_queue:
  "run_updates P updates mc = Some mc' \<Longrightarrow> queue_grows (\<Union> (pongs ` set updates)) (queue mc) (queue mc')"
proof (induction updates arbitrary: mc)
  case (Cons reads updates)
  then obtain mc1 where u: "Channel_Update P reads mc = Some mc1" "run_updates P updates mc1 = Some mc'"
    by (auto simp: bind_eq_Some_conv)
  from queue_grows_trans [OF Channel_Update_queue [OF u(1)] Cons.IH [OF u(2)]] show ?case by simp
qed simp


subsection \<open>Every client is told of once\<close>

lemma ucast_ClientId_inject [simp]: "(ucast (x :: u16) :: u32) = ucast y \<longleftrightarrow> x = y"
proof
  assume "(ucast x :: u32) = ucast y"
  then have "(ucast (ucast x :: u32) :: u16) = ucast (ucast y :: u32)" by simp
  then show "x = y" by (simp add: ucast_up_ucast_id is_up)
qed simp

lemma set_Insert_new:
  assumes inv: "hb_inv Q h" and new: "\<not> Contains Q k h" and i: "set_Insert Q mem k h = (r, h')"
  shows "hb_inv Q h' \<and> (r = Success \<and> lookup Q h' = (lookup Q h)(k \<mapsto> ()) \<or> r = InsufficientMemory \<and> \<not> mem)"
proof -
  obtain p existed h1 where f: "FindOrAllocate Q mem () k h = (p, existed, h1)" by (cases "FindOrAllocate Q mem () k h") auto
  note spec = FindOrAllocate_spec(1-4) [OF inv f]
  have "\<not> existed" using spec(3) new by (simp add: Contains_lookup)
  with i f spec(1,2,4) show ?thesis by (auto simp: set_Insert_def split: option.splits)
qed

text \<open>What is known of the clients in the queue and of those told to the caller.\<close>

definition found :: "DiscoverClientsInfo \<Rightarrow> DiscoveredClientInfo set \<Rightarrow> DiscoveredClientInfo \<Rightarrow> bool" where
  "found info A c \<longleftrightarrow> c \<in> A \<and> Matches (info_filter info) (dci_metadata c)"

definition filling :: "DiscoverClientsInfo \<Rightarrow> DiscoveredClientInfo set \<Rightarrow> DiscoveredClientsQueue \<Rightarrow> bool" where
  "filling info A q \<longleftrightarrow> (dq_hasDataEvent q \<longleftrightarrow> dq_clients q \<noteq> []) \<and> dq_filter q = info_filter info
     \<and> (\<forall>c \<in> set (dq_clients q). found info A c)"

definition told_ok ::
  "DiscoverClientsInfo \<Rightarrow> DiscoveredClientInfo set \<Rightarrow> (u32, unit) HashBase \<Rightarrow> DiscoveredClientInfo list \<Rightarrow> bool" where
  "told_ok info A known told \<longleftrightarrow> hb_inv (clientSet info) known
     \<and> dom (lookup (clientSet info) known) = ucast ` dci_id ` set told
     \<and> distinct (map dci_id told) \<and> (\<forall>c \<in> set told. found info A c)
     \<and> (\<forall>i < length told. pfnCallback info (take i told) (told ! i))"

definition told_result ::
  "DiscoverClientsInfo \<Rightarrow> DiscoveredClientInfo set \<Rightarrow> Result \<Rightarrow> DiscoveredClientInfo list \<Rightarrow> bool" where
  "told_result info A r told \<longleftrightarrow> r \<in> {Success, NotReady, InsufficientMemory} \<and> (r = Success \<longrightarrow> told \<noteq> [])
     \<and> (r = InsufficientMemory \<longrightarrow> \<not> setMemory info)
     \<and> distinct (map dci_id told) \<and> (\<forall>c \<in> set told. found info A c)
     \<and> (\<forall>i < length told. pfnCallback info (take i told) (told ! i) \<longleftrightarrow> \<not> (r = Success \<and> Suc i = length told))"

lemma told_ok_result: "told_ok info A known told \<Longrightarrow> told_result info A NotReady told"
  by (simp add: told_ok_def told_result_def)

lemma filling_grows:
  "filling info A q \<Longrightarrow> queue_grows A q q' \<Longrightarrow> filling info A q'"
  by (auto simp: filling_def queue_grows_def found_def)

lemma pop_client_spec:
  assumes f: "filling info A (queue mc)" and ev: "dq_hasDataEvent (queue mc)" and p: "pop_client mc = (client, mc')"
  shows "filling info A (queue mc')" and "found info A client" and "m_channel mc' = m_channel mc"
    and "dq_active (queue mc') = dq_active (queue mc)"
proof -
  from f ev have ne: "dq_clients (queue mc) \<noteq> []" by (simp add: filling_def)
  then have c: "client = last (dq_clients (queue mc))" and
    m: "mc' = mc\<lparr>m_discoveredClientsQueue := (queue mc)\<lparr>dq_clients := butlast (dq_clients (queue mc)),
      dq_hasDataEvent := butlast (dq_clients (queue mc)) \<noteq> []\<rparr>\<rparr>"
    using p ev by (auto simp: pop_client_def PopBack_def)
  show "filling info A (queue mc')" using f m in_set_butlastD by (fastforce simp: filling_def)
  show "found info A client" using f c ne by (simp add: filling_def)
  show "m_channel mc' = m_channel mc" and "dq_active (queue mc') = dq_active (queue mc)" using m by simp_all
qed

lemma discover_one_spec:
  assumes t: "told_ok info A known told" and f: "found info A client"
    and d: "discover_one info client known told = (r, continue, known', told')"
  shows "if r = Success \<and> continue then told_ok info A known' told' else told_result info A r told'"
proof (cases "Contains (clientSet info) (ucast (dci_id client)) known")
  case True
  with d t show ?thesis by (simp add: discover_one_def)
next
  case False
  have inv: "hb_inv (clientSet info) known" using t by (simp add: told_ok_def)
  have new: "dci_id client \<notin> dci_id ` set told"
  proof
    assume "dci_id client \<in> dci_id ` set told"
    then have "ucast (dci_id client) \<in> dom (lookup (clientSet info) known)" using t by (simp add: told_ok_def)
    with False show False by (simp add: Contains_lookup domIff)
  qed
  obtain r1 known1 where i: "set_Insert (clientSet info) (setMemory info) (ucast (dci_id client)) known = (r1, known1)" by fastforce
  from set_Insert_new [OF inv False i] consider
      "r1 = Success" "hb_inv (clientSet info) known1"
        "lookup (clientSet info) known1 = (lookup (clientSet info) known)(ucast (dci_id client) \<mapsto> ())"
    | "r1 = InsufficientMemory" "\<not> setMemory info" by blast
  then show ?thesis
  proof cases
    case 1
    with d False i have "r = Success" "continue = pfnCallback info told client" "known' = known1" "told' = told @ [client]"
      by (simp_all add: discover_one_def)
    with 1 t f new show ?thesis by (auto simp: told_ok_def told_result_def nth_append less_Suc_eq)
  next
    case 2
    with d False i have "r = InsufficientMemory" "told' = told" by (simp_all add: discover_one_def)
    with 2 t show ?thesis by (simp add: told_ok_def told_result_def)
  qed
qed


definition round_pongs :: "discover_round list \<Rightarrow> DiscoveredClientInfo set" where
  "round_pongs rounds = (\<Union>(updates, timedOut) \<in> set rounds. \<Union> (pongs ` set updates))"

lemma discover_loop_spec:
  assumes "filling info A (queue mc)" and "told_ok info A known told" and "round_pongs rounds \<subseteq> A"
    and "discover_loop P info startTime rounds known told mc = Some (r, told', mc')"
  shows "told_result info A r told'"
  using assms
proof (induction rounds arbitrary: mc known told)
  case Nil
  then show ?case by (simp add: told_ok_result)
next
  case (Cons rd rounds)
  obtain updates timedOut where rd: "rd = (updates, timedOut)" by fastforce
  with Cons.prems(4) obtain mc1 where u: "run_updates P updates mc = Some mc1" by (auto split: option.splits)
  have "queue_grows A (queue mc) (queue mc1)"
    by (rule queue_grows_mono [OF run_updates_queue [OF u]]) (use Cons.prems(3) rd in \<open>auto simp: round_pongs_def\<close>)
  then have f1: "filling info A (queue mc1)" by (rule filling_grows [OF Cons.prems(1)])
  show ?case
  proof (cases "dq_hasDataEvent (queue mc1) \<and> \<not> timedOut")
    case False
    with Cons.prems(2,4) u rd show ?thesis by (auto simp: told_ok_result)
  next
    case True
    obtain client mc2 where p: "pop_client mc1 = (client, mc2)" by fastforce
    note pop = pop_client_spec [OF f1 conjunct1 [OF True] p]
    obtain r1 continue known1 told1 where d: "discover_one info client known told = (r1, continue, known1, told1)"
      by (metis prod.exhaust)
    note one = discover_one_spec [OF Cons.prems(2) pop(2) d]
    obtain now ch where c: "GetCurrentTimeInMs (m_channel mc2) = (now, ch)" by fastforce
    show ?thesis
    proof (cases "r1 = Success \<and> continue")
      case False
      with one Cons.prems(4) u rd True p d show ?thesis by (auto simp: Let_def)
    next
      case go: True
      with one have t1: "told_ok info A known1 told1" by simp
      have "round_pongs rounds \<subseteq> A" using Cons.prems(3) by (auto simp: round_pongs_def)
      with Cons.IH [of "mc2\<lparr>m_channel := ch\<rparr>", OF _ t1] pop(1) Cons.prems(4) u rd True p d go c t1
      show ?thesis by (auto simp: Let_def told_ok_result split: if_splits)
    qed
  qed
qed

subsection \<open>No client is lost\<close>

text \<open>The messages that one update reads, and the clients it queues: those whose pong the filter lets through.\<close>

definition received :: "read_script \<Rightarrow> MessageBuffer list" where
  "received reads = map snd (takeWhile (\<lambda>x. fst x = Success) reads)"

definition answering :: "ClientMetadata \<Rightarrow> read_script \<Rightarrow> DiscoveredClientInfo list" where
  "answering flt reads = map client_of_pong
     (filter (\<lambda>m. is_pong m \<and> Matches flt (ClientMetadata_of_u64 (sequence (header m)))) (received reads))"

text \<open>The first of the clients with an identifier, among those whose identifier is not in the set.\<close>

fun first_of_each :: "ClientId set \<Rightarrow> DiscoveredClientInfo list \<Rightarrow> DiscoveredClientInfo list" where
  "first_of_each known [] = []"
| "first_of_each known (c # cs) =
    (if dci_id c \<in> known then first_of_each known cs else c # first_of_each (insert (dci_id c) known) cs)"

lemma HandleMessageReceived_pong_eq:
  assumes "connection mc \<noteq> kBroadcastClientId" and "is_pong m" and "dstClientId (header m) = connection mc"
  shows "HandleMessageReceived P m mc = Some (receive_pong P m (note_activity P mc))"
    and "connection (receive_pong P m (note_activity P mc)) = connection mc"
    and "m_sessionManager (receive_pong P m (note_activity P mc)) = m_sessionManager mc"
proof -
  let ?mc = "note_activity P mc"
  have same: "connection ?mc = connection mc" "m_sessionManager ?mc = m_sessionManager mc"
    by (simp_all add: note_activity_def GetCurrentTimeInMs_def split: prod.splits list.splits)
  then have "is_for_this_host m ?mc" using assms(3) by (simp add: is_for_this_host_def)
  moreover have "\<not> IsOutOfBandMessage m" using assms(1,3) by (simp add: IsOutOfBandMessage_iff)
  ultimately show "HandleMessageReceived P m mc = Some (receive_pong P m ?mc)"
    using assms(2) by (simp add: HandleMessageReceived_def is_pong_def system_message_def)
  show "connection (receive_pong P m ?mc) = connection mc" "m_sessionManager (receive_pong P m ?mc) = m_sessionManager mc"
    using same by (simp_all add: receive_pong_def Let_def)
qed

lemma pongs_room:
  assumes "connection mc \<noteq> kBroadcastClientId" and "channel_room P b mc"
    and "\<forall>m \<in> set (received reads). is_pong m \<and> dstClientId (header m) = connection mc"
  shows "read_room P b reads mc"
  using assms
proof (induction reads arbitrary: mc)
  case (Cons x reads)
  obtain result m where x: "x = (result, m)" by fastforce
  show ?case
  proof (cases "result = Success")
    case True
    then have rd: "received (x # reads) = m # received reads" using x by (simp add: received_def)
    then have m: "is_pong m" "dstClientId (header m) = connection mc" using Cons.prems(3) by simp_all
    note h = HandleMessageReceived_pong_eq [OF Cons.prems(1) m, of P]
    have "read_room P b reads (receive_pong P m (note_activity P mc))"
      by (rule Cons.IH) (use Cons.prems rd h(2,3) in \<open>simp_all add: channel_room_def\<close>)
    with Cons.prems(2) x h(1) show ?thesis by simp
  qed (use Cons.prems(2) x in simp)
qed simp

lemma HandleMessageReceived_pong:
  assumes "connection mc \<noteq> kBroadcastClientId" and "is_pong m" and "dstClientId (header m) = connection mc"
    and "dq_active (queue mc)" and "queueMemory P" and h: "HandleMessageReceived P m mc = Some mc'"
  shows "dq_clients (queue mc') = dq_clients (queue mc)
      @ (if Matches (dq_filter (queue mc)) (ClientMetadata_of_u64 (sequence (header m))) then [client_of_pong m] else [])"
proof -
  let ?mc = "note_activity P mc"
  have "mc' = receive_pong P m ?mc" using h HandleMessageReceived_pong_eq(1) [OF assms(1-3), of P] by simp
  then show ?thesis using assms(4,5) by (simp add: receive_pong_def client_of_pong_def Let_def)
qed

lemma read_messages_answering:
  assumes "mc_inv P b mc" and "read_room P b reads mc" and "patient (answers mc)"
    and "connection mc \<noteq> kBroadcastClientId" and "dq_active (queue mc)" and mem: "queueMemory P"
    and "\<forall>m \<in> set (received reads). is_pong m \<longrightarrow> dstClientId (header m) = connection mc"
    and "read_messages P reads mc = Some (r, mc')"
  shows "dq_clients (queue mc') = dq_clients (queue mc) @ answering (dq_filter (queue mc)) reads"
  using assms(1-5,7,8)
proof (induction reads arbitrary: mc)
  case Nil
  then show ?case by (simp add: answering_def received_def)
next
  case (Cons x reads)
  obtain result m where x: "x = (result, m)" by fastforce
  show ?case
  proof (cases "result = Success")
    case False
    with Cons.prems(7) x show ?thesis by (simp add: answering_def received_def)
  next
    case True
    then obtain mc1 where h: "HandleMessageReceived P m mc = Some mc1" "read_messages P reads mc1 = Some (r, mc')"
      using Cons.prems(7) x by (cases "HandleMessageReceived P m mc") auto
    have room: "channel_room P b mc" "read_room P b reads mc1" using Cons.prems(2) x True h(1) by simp_all
    have st: "mc_inv P b mc1" "connection mc1 = connection mc" "patient (answers mc1)"
      using HandleMessageReceived_spec [OF Cons.prems(1) room(1), of m] h(1) Cons.prems(3) by (auto simp: onward_def)
    have q: "dq_active (queue mc1) = dq_active (queue mc)" "dq_filter (queue mc1) = dq_filter (queue mc)"
      "\<not> is_pong m \<Longrightarrow> dq_clients (queue mc1) = dq_clients (queue mc)"
      using HandleMessageReceived_queue [OF h(1)] by (auto simp: queue_grows_def split: if_splits)
    have rd: "received (x # reads) = m # received reads" using x True by (simp add: received_def)
    have dst: "is_pong m \<Longrightarrow> dstClientId (header m) = connection mc" using Cons.prems(6) rd by simp
    have "dq_clients (queue mc') = dq_clients (queue mc1) @ answering (dq_filter (queue mc1)) reads"
      by (rule Cons.IH [OF st(1) room(2) st(3) _ _ _ h(2)]) (use Cons.prems(4-6) st(2) q(1) rd in auto)
    moreover have "dq_clients (queue mc1) = dq_clients (queue mc)
        @ (if is_pong m \<and> Matches (dq_filter (queue mc)) (ClientMetadata_of_u64 (sequence (header m))) then [client_of_pong m] else [])"
      using HandleMessageReceived_pong [OF Cons.prems(4) _ dst Cons.prems(5) mem h(1)] q(3) by (cases "is_pong m") simp_all
    ultimately show ?thesis by (simp add: answering_def rd q(2))
  qed
qed

lemma Channel_Update_answering:
  assumes "mc_inv P b mc" and "read_room P b reads mc" and "patient (answers mc)"
    and "connection mc \<noteq> kBroadcastClientId" and "dq_active (queue mc)" and "queueMemory P"
    and "\<forall>m \<in> set (received reads). is_pong m \<longrightarrow> dstClientId (header m) = connection mc"
    and u: "Channel_Update P reads mc = Some mc'"
  shows "dq_clients (queue mc') = dq_clients (queue mc) @ answering (dq_filter (queue mc)) reads"
proof -
  obtain r mc1 where r: "read_messages P reads mc = Some (r, mc1)" "queue mc' = queue mc1"
    using u by (rule Channel_Update_queue_parts)
  from read_messages_answering [OF assms(1-7) r(1)] r(2) show ?thesis by simp
qed

lemma clock_now: "GetCurrentTimeInMs ch = (t, ch') \<Longrightarrow> ch_now ch' = t"
  by (auto simp: GetCurrentTimeInMs_def split: list.splits)

text \<open>With memory, time and a caller that wants all of them, the loop empties the queue from its end.\<close>

lemma discover_loop_drains:
  assumes cb: "\<forall>told c. pfnCallback info told c" and mem: "setMemory info"
    and "hb_inv (clientSet info) known" and "dom (lookup (clientSet info) known) = ucast ` dci_id ` set told"
    and "dq_hasDataEvent (queue mc) \<longleftrightarrow> dq_clients (queue mc) \<noteq> []" and "length (dq_clients (queue mc)) \<le> n"
    and "discover_loop P info startTime (replicate n ([], False)) known told mc = Some (r, told', mc')"
    and "ch_now (m_channel mc') - startTime < ucast (info_timeoutInMs info)"
  shows "r = NotReady \<and> told' = told @ first_of_each (dci_id ` set told) (rev (dq_clients (queue mc)))"
  using assms(3-8)
proof (induction n arbitrary: known told mc)
  case 0
  then show ?case by simp
next
  case (Suc n)
  show ?case
  proof (cases "dq_clients (queue mc) = []")
    case True
    with Suc.prems(3,5) show ?thesis by simp
  next
    case ne: False
    obtain client mc2 where p: "pop_client mc = (client, mc2)" by fastforce
    then have c: "client = last (dq_clients (queue mc))" and
      m: "mc2 = mc\<lparr>m_discoveredClientsQueue := (queue mc)\<lparr>dq_clients := butlast (dq_clients (queue mc)),
        dq_hasDataEvent := butlast (dq_clients (queue mc)) \<noteq> []\<rparr>\<rparr>"
      using ne Suc.prems(3) by (auto simp: pop_client_def PopBack_def)
    have rv: "rev (dq_clients (queue mc)) = client # rev (butlast (dq_clients (queue mc)))"
      using ne c by (metis append_butlast_last_id rev_eq_Cons_iff rev_rev_ident)
    obtain r1 continue known1 told1 where d: "discover_one info client known told = (r1, continue, known1, told1)"
      by (metis prod.exhaust)
    have in_known: "Contains (clientSet info) (ucast (dci_id client)) known \<longleftrightarrow> dci_id client \<in> dci_id ` set told"
    proof -
      have "Contains (clientSet info) (ucast (dci_id client)) known \<longleftrightarrow> ucast (dci_id client) \<in> dom (lookup (clientSet info) known)"
        by (auto simp: Contains_lookup)
      then show ?thesis unfolding Suc.prems(2) by auto
    qed
    have one: "r1 = Success \<and> continue \<and> hb_inv (clientSet info) known1
        \<and> dom (lookup (clientSet info) known1) = ucast ` dci_id ` set told1
        \<and> told1 = told @ (if dci_id client \<in> dci_id ` set told then [] else [client])"
    proof (cases "dci_id client \<in> dci_id ` set told")
      case True
      with d in_known Suc.prems(1,2) show ?thesis by (simp add: discover_one_def)
    next
      case False
      obtain r2 known2 where i: "set_Insert (clientSet info) (setMemory info) (ucast (dci_id client)) known = (r2, known2)"
        by fastforce
      from set_Insert_new [OF Suc.prems(1) _ i] mem False in_known
      have "r2 = Success" "hb_inv (clientSet info) known2"
        "lookup (clientSet info) known2 = (lookup (clientSet info) known)(ucast (dci_id client) \<mapsto> ())" by auto
      with d i False in_known cb Suc.prems(2) show ?thesis by (auto simp: discover_one_def)
    qed
    obtain now ch where t: "GetCurrentTimeInMs (m_channel mc2) = (now, ch)" by fastforce
    let ?mc3 = "mc2\<lparr>m_channel := ch\<rparr>"
    have step: "discover_loop P info startTime (replicate (Suc n) ([], False)) known told mc =
        (if now - startTime < ucast (info_timeoutInMs info)
         then discover_loop P info startTime (replicate n ([], False)) known1 told1 ?mc3
         else Some (NotReady, told1, ?mc3))"
      using ne Suc.prems(3) p d one t by simp
    have early: "now - startTime < ucast (info_timeoutInMs info)"
    proof (rule ccontr)
      assume late: "\<not> ?thesis"
      then have "mc' = ?mc3" using step Suc.prems(5) by simp
      with clock_now [OF t] late Suc.prems(6) show False by simp
    qed
    have "r = NotReady \<and> told' = told1 @ first_of_each (dci_id ` set told1) (rev (dq_clients (queue ?mc3)))"
    proof (rule Suc.IH)
      show "discover_loop P info startTime (replicate n ([], False)) known1 told1 ?mc3 = Some (r, told', mc')"
        using step early Suc.prems(5) by simp
      show "length (dq_clients (queue ?mc3)) \<le> n" using m Suc.prems(4) by simp
    qed (use one m Suc.prems(6) in simp_all)
    then show ?thesis unfolding rv using one m by (cases "dci_id client \<in> dci_id ` set told") simp_all
  qed
qed

text \<open>The channel once \<^verbatim>\<open>DiscoverClients\<close> has turned its queue on.\<close>

definition looking :: "DiscoverClientsInfo \<Rightarrow> MessageChannel \<Rightarrow> MessageChannel" where
  "looking info mc = mc\<lparr>m_discoveredClientsQueue := (queue mc)\<lparr>dq_filter := info_filter info, dq_active := True\<rparr>,
     m_channel := snd (GetCurrentTimeInMs (m_channel mc))\<rparr>"

lemma DiscoverClients_complete:
  assumes idle: "\<not> dq_active (queue mc)" and inv: "mc_inv P b mc" and room: "read_room P b reads (looking info mc)"
    and conn: "connection mc \<noteq> kBroadcastClientId" and pat: "patient (answers mc)"
    and mem: "queueMemory P" "setMemory info" and cb: "\<forall>told c. pfnCallback info told c"
    and dst: "\<forall>m \<in> set (received reads). is_pong m \<longrightarrow> dstClientId (header m) = connection mc"
    and few: "length (received reads) \<le> Suc n"
    and d: "DiscoverClients P info (([reads], False) # replicate n ([], False)) mc = Some (r, told, mc')"
    and early: "ch_now (m_channel mc') - fst (GetCurrentTimeInMs (m_channel mc)) < ucast (info_timeoutInMs info)"
  shows "r = NotReady \<and> told = first_of_each {} (rev (answering (info_filter info) reads))"
proof -
  obtain startTime ch where c: "GetCurrentTimeInMs (m_channel mc) = (startTime, ch)" by fastforce
  let ?mc = "looking info mc"
  have l0: "?mc = mc\<lparr>m_discoveredClientsQueue := (queue mc)\<lparr>dq_filter := info_filter info, dq_active := True\<rparr>, m_channel := ch\<rparr>"
    by (simp add: looking_def c)
  obtain mc1 where l: "discover_loop P info startTime (([reads], False) # replicate n ([], False)) (new_HashBase (clientSet info)) [] ?mc
      = Some (r, told, mc1)" and m1: "m_channel mc' = m_channel mc1"
    using d by (auto simp: DiscoverClients_def Let_def c l0)
  obtain mc2 where u: "Channel_Update P reads ?mc = Some mc2"
    using l by (cases "Channel_Update P reads ?mc") auto
  have empty: "dq_clients (queue mc) = []" using inv idle by (simp add: mc_inv_def queue_ok_def)
  have i: "mc_inv P b ?mc"
    using inv unlocked_clock [OF c] mc_inv_unlocked [OF inv] by (auto simp: l0 mc_inv_def queue_ok_def)
  have cl: "ch_clientId ch = connection mc" "ch_replies ch = answers mc"
    using c by (auto simp: GetCurrentTimeInMs_def split: list.splits)
  have cs: "dq_clients (queue mc2) = answering (info_filter info) reads"
    using Channel_Update_answering [OF i room _ _ _ mem(1) _ u] cl conn pat dst empty by (simp add: l0)
  have "queue_ok (queue mc2)"
    using Channel_Update_queue [OF u] inv idle by (auto simp: l0 queue_grows_def mc_inv_def queue_ok_def)
  moreover have "discover_loop P info startTime (replicate (Suc n) ([], False)) (new_HashBase (clientSet info)) [] mc2 = Some (r, told, mc1)"
    using l u by simp
  moreover have "length (answering (info_filter info) reads) \<le> length (received reads)"
    unfolding answering_def length_map by (rule length_filter_le)
  ultimately have "r = NotReady \<and> told = [] @ first_of_each (dci_id ` set ([] :: DiscoveredClientInfo list)) (rev (dq_clients (queue mc2)))"
    using early few cs c m1
    by (intro discover_loop_drains [OF cb mem(2), where known = "new_HashBase (clientSet info)" and told = "[]"
            and n = "Suc n" and mc = mc2 and startTime = startTime and P = P and mc' = mc1])
      (simp_all add: hb_inv_new lookup_new queue_ok_def)
  then show ?thesis by (simp add: cs)
qed

definition sample_info :: DiscoverClientsInfo where
  "sample_info = \<lparr>pfnCallback = (\<lambda>told client. told = []), info_filter = default_ClientMetadata, info_timeoutInMs = 1000,
     clientSet = \<lparr>hashFunc = (\<lambda>k. k), logBuckets = 2, moreEntries = 2\<rparr>, setMemory = True\<rparr>"

definition sample_pong :: MessageBuffer where
  "sample_pong = zero_message\<lparr>header := zero_header\<lparr>srcClientId := 9, dstClientId := 7, protocolId := Protocol_System,
     messageId := code_of_SystemMessage Pong\<rparr>\<rparr>"

lemma DiscoverClients_spec:
  assumes idle: "\<not> dq_active (m_discoveredClientsQueue mc)" and ok: "queue_ok (m_discoveredClientsQueue mc)"
    and d: "DiscoverClients P info rounds mc = Some (r, told, mc')"
  shows "distinct (map dci_id told)"
    and "\<forall>c \<in> set told. Matches (info_filter info) (dci_metadata c)
           \<and> (\<exists>(updates, timedOut) \<in> set rounds. \<exists>reads \<in> set updates. \<exists>m. (Success, m) \<in> set reads
                \<and> is_pong m \<and> c = client_of_pong m)"
    and "\<forall>i < length told. pfnCallback info (take i told) (told ! i) \<longleftrightarrow> \<not> (r = Success \<and> Suc i = length told)"
    and "r = Success \<and> told \<noteq> [] \<or> r = NotReady \<or> r = InsufficientMemory \<and> \<not> setMemory info"
    and "dq_clients (m_discoveredClientsQueue mc') = []" and "\<not> dq_active (m_discoveredClientsQueue mc')"
    and "\<not> dq_hasDataEvent (m_discoveredClientsQueue mc')"
proof -
  obtain startTime ch where c: "GetCurrentTimeInMs (m_channel mc) = (startTime, ch)" by fastforce
  let ?mc = "mc\<lparr>m_discoveredClientsQueue := (queue mc)\<lparr>dq_filter := info_filter info, dq_active := True\<rparr>, m_channel := ch\<rparr>"
  obtain mc1 where l: "discover_loop P info startTime rounds (new_HashBase (clientSet info)) [] ?mc = Some (r, told, mc1)"
    and mc': "mc' = mc1\<lparr>m_discoveredClientsQueue := (queue mc1)\<lparr>dq_active := False, dq_clients := [], dq_hasDataEvent := False\<rparr>\<rparr>"
    using d by (auto simp: DiscoverClients_def Let_def c)
  have "filling info (round_pongs rounds) (queue ?mc)" using idle ok by (auto simp: filling_def queue_ok_def)
  moreover have "told_ok info (round_pongs rounds) (new_HashBase (clientSet info)) []"
    by (simp add: told_ok_def hb_inv_new lookup_new)
  ultimately have t: "told_result info (round_pongs rounds) r told"
    using l by (rule discover_loop_spec [OF _ _ subset_refl])
  then show "distinct (map dci_id told)"
    and "\<forall>i < length told. pfnCallback info (take i told) (told ! i) \<longleftrightarrow> \<not> (r = Success \<and> Suc i = length told)"
    and "r = Success \<and> told \<noteq> [] \<or> r = NotReady \<or> r = InsufficientMemory \<and> \<not> setMemory info"
    by (auto simp: told_result_def)
  show "\<forall>c \<in> set told. Matches (info_filter info) (dci_metadata c)
           \<and> (\<exists>(updates, timedOut) \<in> set rounds. \<exists>reads \<in> set updates. \<exists>m. (Success, m) \<in> set reads
                \<and> is_pong m \<and> c = client_of_pong m)"
    using t unfolding told_result_def found_def round_pongs_def pongs_def by fast
  show "dq_clients (queue mc') = []" and "\<not> dq_active (queue mc')" and "\<not> dq_hasDataEvent (queue mc')"
    using mc' by simp_all
qed

text \<open>C16.
  Discovery tells the caller of every client once.  \<open>DiscoverClients\<close> on a channel that is not
  discovering passes to the callback clients with distinct identifiers only; each of them sent a pong
  that was read during the call, and its metadata matches the caller's filter.  The callback is asked
  after every client: the call succeeds exactly when the last client told is the one for which the callback
  said stop, and otherwise it ends with \<open>NotReady\<close>, or without memory for the set of known clients with
  \<open>InsufficientMemory\<close>.  Afterwards the queue is inactive and empty and its event is clear.  No client is lost
  either: when one update on a connected, working channel reads the pongs (addressed to this client), the callback never says
  stop, memory and waits suffice and the time is not up at the end, then the caller is told of exactly the matching
  clients, in the order of the latest pongs first.
\<close>

theorem discovery_tells_once:
  assumes "\<not> dq_active (m_discoveredClientsQueue mc)" and "queue_ok (m_discoveredClientsQueue mc)"
    and "DiscoverClients P info rounds mc = Some (r, told, mc')"
  shows "distinct (map dci_id told)
    \<and> (\<forall>c \<in> set told. Matches (info_filter info) (dci_metadata c)
           \<and> (\<exists>(updates, timedOut) \<in> set rounds. \<exists>reads \<in> set updates. \<exists>m. (Success, m) \<in> set reads
                \<and> is_pong m \<and> c = client_of_pong m))
    \<and> (\<forall>i < length told. pfnCallback info (take i told) (told ! i) \<longleftrightarrow> \<not> (r = Success \<and> Suc i = length told))
    \<and> (r = Success \<and> told \<noteq> [] \<or> r = NotReady \<or> r = InsufficientMemory \<and> \<not> setMemory info)
    \<and> dq_clients (m_discoveredClientsQueue mc') = [] \<and> \<not> dq_active (m_discoveredClientsQueue mc')
    \<and> \<not> dq_hasDataEvent (m_discoveredClientsQueue mc')
    \<and> (mc_inv P b mc \<and> read_room P b reads (looking info mc)
         \<and> ch_clientId (m_channel mc) \<noteq> kBroadcastClientId \<and> set (ch_replies (m_channel mc)) \<subseteq> {Success, NotReady}
         \<and> queueMemory P \<and> setMemory info \<and> (\<forall>told c. pfnCallback info told c)
         \<and> (\<forall>m \<in> set (received reads). is_pong m \<longrightarrow> dstClientId (header m) = ch_clientId (m_channel mc))
         \<and> rounds = ([reads], False) # replicate n ([], False) \<and> length (received reads) \<le> Suc n
         \<and> ch_now (m_channel mc') - fst (GetCurrentTimeInMs (m_channel mc)) < ucast (info_timeoutInMs info)
       \<longrightarrow> r = NotReady \<and> told = first_of_each {} (rev (answering (info_filter info) reads)))"
proof -
  have "r = NotReady \<and> told = first_of_each {} (rev (answering (info_filter info) reads))"
    if "mc_inv P b mc \<and> read_room P b reads (looking info mc)
         \<and> ch_clientId (m_channel mc) \<noteq> kBroadcastClientId \<and> set (ch_replies (m_channel mc)) \<subseteq> {Success, NotReady}
         \<and> queueMemory P \<and> setMemory info \<and> (\<forall>told c. pfnCallback info told c)
         \<and> (\<forall>m \<in> set (received reads). is_pong m \<longrightarrow> dstClientId (header m) = ch_clientId (m_channel mc))
         \<and> rounds = ([reads], False) # replicate n ([], False) \<and> length (received reads) \<le> Suc n
         \<and> ch_now (m_channel mc') - fst (GetCurrentTimeInMs (m_channel mc)) < ucast (info_timeoutInMs info)"
    using that assms(1,3) DiscoverClients_complete [of mc P b reads info n r told mc'] unfolding patient_def by blast
  note complete = this
  show ?thesis by (intro conjI DiscoverClients_spec [OF assms]) (rule impI, rule complete)
qed

text \<open>Two pongs of one client and one of another: each client is told of once.\<close>

definition greedy_info :: DiscoverClientsInfo where
  "greedy_info = sample_info\<lparr>pfnCallback := (\<lambda>_ _. True)\<rparr>"

definition three_pongs :: read_script where
  "three_pongs = [(Success, sample_pong), (Success, sample_pong\<lparr>header := (header sample_pong)\<lparr>srcClientId := 5\<rparr>\<rparr>),
     (Success, sample_pong)]"

lemma sample_looking: "read_room sample_P 2 three_pongs (looking greedy_info sample_mc)"
proof (rule pongs_room)
  show "connection (looking greedy_info sample_mc) \<noteq> kBroadcastClientId"
    by (simp add: looking_def GetCurrentTimeInMs_def sample_channel_def)
  show "channel_room sample_P 2 (looking greedy_info sample_mc)"
    using sample_mc_room by (simp add: looking_def channel_room_def)
  show "\<forall>m \<in> set (received three_pongs). is_pong m \<and> dstClientId (header m) = connection (looking greedy_info sample_mc)"
    by code_simp
qed

theorem discovery_tells_once_witness:
  "\<exists>r told mc'. DiscoverClients sample_P greedy_info (([three_pongs], False) # replicate 3 ([], False)) sample_mc
       = Some (r, told, mc')
     \<and> r = NotReady \<and> map dci_id told = [9, 5] \<and> dq_clients (m_discoveredClientsQueue mc') = []"
proof -
  have "map_option (\<lambda>(r, told, mc'). ch_now (m_channel mc'))
      (DiscoverClients sample_P greedy_info (([three_pongs], False) # replicate 3 ([], False)) sample_mc) = Some 0" by code_simp
  then obtain r told mc' where d: "DiscoverClients sample_P greedy_info (([three_pongs], False) # replicate 3 ([], False)) sample_mc
      = Some (r, told, mc')" "ch_now (m_channel mc') = 0" by auto
  have q: "\<not> dq_active (m_discoveredClientsQueue sample_mc)" "queue_ok (m_discoveredClientsQueue sample_mc)"
    by (simp_all add: new_DiscoveredClientsQueue_def queue_ok_def)
  have start: "fst (GetCurrentTimeInMs (m_channel sample_mc)) = 0" by (simp add: GetCurrentTimeInMs_def sample_channel_def)
  have dst: "\<forall>m \<in> set (received three_pongs). is_pong m \<longrightarrow> dstClientId (header m) = ch_clientId (m_channel sample_mc)"
    "length (received three_pongs) \<le> Suc 3" by code_simp+
  have "r = NotReady \<and> told = first_of_each {} (rev (answering (info_filter greedy_info) three_pongs))"
    using discovery_tells_once [OF q d(1), of 2 three_pongs 3] sample_mc_inv sample_looking dst d(2) start
    by (simp add: greedy_info_def sample_info_def sample_P_def)
  moreover have "map dci_id (first_of_each {} (rev (answering (info_filter greedy_info) three_pongs))) = [9, 5]"
    by code_simp
  moreover have "dq_clients (m_discoveredClientsQueue mc') = []"
    using discovery_tells_once [OF q d(1)] by simp
  ultimately show ?thesis using d(1) by auto
qed

end
