(* ===== verification/Channel_Handshake.thy ===== *)
theory Channel_Handshake
  imports Channel_Discovery
begin

text \<open>
  Two ends of the discovery at once: the ping one channel writes is what the other one reads, and the
  pong it answers with is what the first one reads.
\<close>

subsection \<open>The bytes of the client information\<close>

definition client_info_ok :: "ClientInfoStruct \<Rightarrow> bool" where
  "client_info_ok i \<longleftrightarrow> length (cis_clientName i) = kMaxStringLength \<and> length (cis_clientDescription i) = kMaxStringLength
     \<and> length (cis_reserved i) = kMaxStringLength \<and> length (cis_padding i) = 116"

lemma length_ClientInfoStruct_bytes [simp]: "length (ClientInfoStruct_bytes i) = sizeof_ClientInfoStruct"
  by (simp add: ClientInfoStruct_bytes_def kMaxStringLength_def sizeof_ClientInfoStruct_def)

lemma ClientInfoStruct_round_trip:
  "client_info_ok i \<Longrightarrow> ClientInfoStruct_of_bytes (ClientInfoStruct_bytes i) = i"
  by (simp add: ClientInfoStruct_of_bytes_def ClientInfoStruct_bytes_def Let_def field_simps_word client_info_ok_def
      kMaxStringLength_def sizeof_ClientInfoStruct_def)

lemma init_client_info_ok: "client_info_ok (init_client_info P)"
  by (simp add: client_info_ok_def init_client_info_def zero_ClientInfoStruct_def Strncpy_def)

lemma update_metadata_ok: "client_info_ok (m_clientInfoResponse (update_metadata f mc)) = client_info_ok (m_clientInfoResponse mc)"
  by (simp add: client_info_ok_def update_metadata_def)

subsection \<open>Sending client information\<close>

definition client_info_packet :: "ClientId \<Rightarrow> ClientId \<Rightarrow> SystemMessage \<Rightarrow> ClientMetadata \<Rightarrow> ClientInfoStruct \<Rightarrow> MessageBuffer" where
  "client_info_packet src dst message metadata info =
    \<lparr>header = zero_header
       \<lparr>dstClientId := dst, srcClientId := src, protocolId := Protocol_System, messageId := code_of_SystemMessage message,
        payloadSize := word_of_nat sizeof_ClientInfoStruct, sequence := u64_of_ClientMetadata metadata\<rparr>,
     payload = ClientInfoStruct_bytes info\<rparr>"

lemma send_client_info_ready:
  assumes "connection mc \<noteq> kBroadcastClientId" and "answers mc = []"
  shows "send_client_info P dst message metadata mc = Some (Success, mc\<lparr>m_channel := (m_channel mc)
    \<lparr>ch_wire := ch_wire (m_channel mc) @ [client_info_packet (connection mc) dst message metadata (m_clientInfoResponse mc)]\<rparr>\<rparr>)"
  using assms
  by (simp add: send_client_info_def Channel_Send_def Channel_Forward_def WriteTransportMessage_def client_info_packet_def
      memcpy_def msg_size_defs sizeof_ClientInfoStruct_def)

lemma payload_client_info_packet:
  "client_info_ok info \<Longrightarrow> payload_client_info (client_info_packet src dst message metadata info) = Some info"
  by (simp add: payload_client_info_def client_info_packet_def ClientInfoStruct_round_trip sizeof_ClientInfoStruct_def)

lemma packet_in_band:
  "src \<noteq> kBroadcastClientId \<Longrightarrow> \<not> IsOutOfBandMessage (client_info_packet src dst message metadata info)"
  by (simp add: IsOutOfBandMessage_def client_info_packet_def or_eq_0_iff)

lemma note_activity_frame [simp]:
  "connection (note_activity P mc) = connection mc" "answers (note_activity P mc) = answers mc"
  "ch_wire (m_channel (note_activity P mc)) = ch_wire (m_channel mc)" "m_busEventCb (note_activity P mc) = m_busEventCb mc"
  "m_clientInfoResponse (note_activity P mc) = m_clientInfoResponse mc"
  by (simp_all add: note_activity_def GetCurrentTimeInMs_def split: prod.splits list.splits)

text \<open>A directed or a relevant packet from another client reaches the system protocol.\<close>

lemma handle_client_info_packet:
  assumes "src \<noteq> kBroadcastClientId"
    and "dst = connection mc \<or> dst = kBroadcastClientId
       \<and> Matches (ClientMetadata_of_u64 (u64_of_ClientMetadata metadata)) (cis_metadata (m_clientInfoResponse mc))"
  shows "HandleMessageReceived P (client_info_packet src dst message metadata info) mc =
    system_message P (client_info_packet src dst message metadata info) (note_activity P mc)"
  using assms packet_in_band [OF assms(1)]
  by (auto simp: HandleMessageReceived_def is_for_this_host_def client_info_packet_def Let_def)


subsection \<open>Ping and pong\<close>

text \<open>Metadata that fits the 48 bits of the wire form.\<close>

definition metadata_fits :: "ClientMetadata \<Rightarrow> bool" where
  "metadata_fits md \<longleftrightarrow> protocols md < 2 ^ 16 \<and> md_reserved md = 0"

lemma metadata_fits_wire: "metadata_fits md \<Longrightarrow> ClientMetadata_of_u64 (u64_of_ClientMetadata md) = md"
  by (simp add: metadata_fits_def ClientMetadata_wire_id)

lemma receive_ping_ready:
  assumes "m_busEventCb mc = None" and "connection mc \<noteq> kBroadcastClientId" and "answers mc = []"
  shows "system_message P (client_info_packet src dst Ping metadata info) mc = Some (mc\<lparr>m_channel := (m_channel mc)
    \<lparr>ch_wire := ch_wire (m_channel mc) @ [client_info_packet (connection mc) src Pong
       (cis_metadata (m_clientInfoResponse mc)) (m_clientInfoResponse mc)]\<rparr>\<rparr>)"
  using assms
  by (simp add: system_message_def client_info_packet_def receive_ping_def bus_event_def send_client_info_ready
      SystemMessage_of_def)

lemma receive_pong_ready:
  assumes "dq_active (queue mc)" and "queueMemory P" and "metadata_fits metadata" and "client_info_ok info"
    and "Matches (dq_filter (queue mc)) metadata"
  shows "\<exists>mc'. system_message P (client_info_packet src dst Pong metadata info) mc = Some mc' \<and> queue mc' = (queue mc)
    \<lparr>dq_clients := dq_clients (queue mc) @ [\<lparr>dci_id = src, dci_metadata = metadata, dci_clientInfo = Some info\<rparr>],
     dq_hasDataEvent := True\<rparr>"
proof -
  have "payload_client_info (client_info_packet src dst Pong metadata info) = Some info"
    by (rule payload_client_info_packet [OF assms(4)])
  with assms metadata_fits_wire [OF assms(3)] show ?thesis
    by (simp add: system_message_def receive_pong_def client_info_packet_def SystemMessage_of_def Let_def)
qed

text \<open>C18.
  Discovery works between two channels.  A channel \<open>A\<close> that is discovering broadcasts a ping with its
  filter at the end of an update in which nothing arrived.  A channel \<open>B\<close> that reads the ping answers it
  exactly when the filter matches its metadata.  When \<open>A\<close> reads that pong, the queue of discovered clients
  gets one entry, with the identifier, the metadata and the client information of \<open>B\<close>, and the event is set.
  Transports take every message; filter and metadata use the bits that travel.
\<close>

theorem discovery_handshake:
  assumes online: "ch_clientId (m_channel A) \<noteq> kBroadcastClientId" "ch_clientId (m_channel B) \<noteq> kBroadcastClientId"
    and ready: "ch_replies (m_channel A) = []" "ch_replies (m_channel B) = []"
    and looking: "dq_active (m_discoveredClientsQueue A)" "queueMemory PA" "metadata_fits (dq_filter (m_discoveredClientsQueue A))"
    and found: "m_busEventCb B = None" "metadata_fits (cis_metadata (m_clientInfoResponse B))" "client_info_ok (m_clientInfoResponse B)"
  shows "\<exists>A1 ping B1. ping_while_discovering PA NotReady A = Some (NotReady, A1)
    \<and> ch_wire (m_channel A1) = ch_wire (m_channel A) @ [ping] \<and> HandleMessageReceived PB ping B = Some B1
    \<and> (if Matches (dq_filter (m_discoveredClientsQueue A)) (cis_metadata (m_clientInfoResponse B))
       then \<exists>pong A2. ch_wire (m_channel B1) = ch_wire (m_channel B) @ [pong] \<and> HandleMessageReceived PA pong A1 = Some A2
         \<and> dq_clients (m_discoveredClientsQueue A2) = dq_clients (m_discoveredClientsQueue A)
             @ [\<lparr>dci_id = ch_clientId (m_channel B), dci_metadata = cis_metadata (m_clientInfoResponse B),
                 dci_clientInfo = Some (m_clientInfoResponse B)\<rparr>]
         \<and> dq_hasDataEvent (m_discoveredClientsQueue A2)
       else ch_wire (m_channel B1) = ch_wire (m_channel B))"
proof -
  let ?f = "dq_filter (queue A)" and ?info = "m_clientInfoResponse B"
  let ?ping = "client_info_packet (connection A) kBroadcastClientId Ping ?f (m_clientInfoResponse A)"
  let ?A1 = "A\<lparr>m_channel := (m_channel A)\<lparr>ch_wire := ch_wire (m_channel A) @ [?ping]\<rparr>\<rparr>"
  let ?pong = "client_info_packet (connection B) (connection A) Pong (cis_metadata ?info) ?info"
  have A1: "ping_while_discovering PA NotReady A = Some (NotReady, ?A1)"
    using looking(1) send_client_info_ready [OF online(1) ready(1)] by (simp add: ping_while_discovering_def)
  have B: "HandleMessageReceived PB ?ping B = system_message PB ?ping (note_activity PB B)" if "Matches ?f (cis_metadata ?info)"
    by (rule handle_client_info_packet [OF online(1)]) (use that metadata_fits_wire [OF looking(3)] in simp)
  show ?thesis
  proof (cases "Matches ?f (cis_metadata ?info)")
    case True
    obtain B1 where b: "HandleMessageReceived PB ?ping B = Some B1" "ch_wire (m_channel B1) = ch_wire (m_channel B) @ [?pong]"
      using receive_ping_ready [of "note_activity PB B" PB "connection A"] B [OF True] online(2) ready(2) found(1) by auto
    have "HandleMessageReceived PA ?pong ?A1 = system_message PA ?pong (note_activity PA ?A1)"
      by (rule handle_client_info_packet [OF online(2)]) simp
    moreover obtain A2 where "system_message PA ?pong (note_activity PA ?A1) = Some A2"
      "queue A2 = (queue A)\<lparr>dq_clients := dq_clients (queue A)
         @ [\<lparr>dci_id = connection B, dci_metadata = cis_metadata ?info, dci_clientInfo = Some ?info\<rparr>], dq_hasDataEvent := True\<rparr>"
      using receive_pong_ready [of "note_activity PA ?A1" PA "cis_metadata ?info" ?info "connection B" "connection A"]
        looking(1,2) found(2,3) True by auto
    ultimately show ?thesis using True A1 b
      by (intro exI [of _ ?A1] exI [of _ ?ping] exI [of _ B1]) (auto intro!: exI [of _ ?pong] exI [of _ A2])
  next
    case False
    have "HandleMessageReceived PB ?ping B = Some (note_activity PB B)"
      using packet_in_band [OF online(1), of kBroadcastClientId Ping ?f "m_clientInfoResponse A"] False
        metadata_fits_wire [OF looking(3)] online(2)
      by (simp add: HandleMessageReceived_def is_for_this_host_def client_info_packet_def Let_def)
    then show ?thesis using False A1
      by (intro exI [of _ ?A1] exI [of _ ?ping] exI [of _ "note_activity PB B"]) simp
  qed
qed


definition sample_seeker :: MessageChannel where
  "sample_seeker = sample_mc\<lparr>m_discoveredClientsQueue := new_DiscoveredClientsQueue\<lparr>dq_active := True\<rparr>\<rparr>"

definition sample_found :: MessageChannel where
  "sample_found = sample_mc\<lparr>m_channel := sample_channel\<lparr>ch_clientId := 9\<rparr>, m_clientInfoResponse := init_client_info sample_P\<rparr>"

theorem discovery_handshake_witness:
  "\<exists>A1 ping B1 pong A2. ping_while_discovering sample_P NotReady sample_seeker = Some (NotReady, A1)
     \<and> HandleMessageReceived sample_P ping sample_found = Some B1 \<and> HandleMessageReceived sample_P pong A1 = Some A2
     \<and> map dci_id (dq_clients (m_discoveredClientsQueue A2)) = [9]"
proof -
  have s: "metadata_fits default_ClientMetadata" "metadata_fits (cis_metadata (init_client_info sample_P))"
    "Matches default_ClientMetadata md" for md
    by (simp_all add: metadata_fits_def default_ClientMetadata_def init_client_info_def zero_ClientInfoStruct_def
        Matches_def IsDefault_def)
  have f: "queueMemory sample_P" "m_busEventCb sample_mc = None" by (simp_all add: sample_P_def sample_mc_def new_MessageChannel_def)
  note pre = s f init_client_info_ok sample_seeker_def sample_found_def new_DiscoveredClientsQueue_def
  obtain A1 ping B1 where h: "ping_while_discovering sample_P NotReady sample_seeker = Some (NotReady, A1)"
    "HandleMessageReceived sample_P ping sample_found = Some B1"
    and a: "\<exists>pong A2. HandleMessageReceived sample_P pong A1 = Some A2 \<and> map dci_id (dq_clients (queue A2)) = [9]"
    using discovery_handshake [of sample_seeker sample_found sample_P sample_P] by (fastforce simp: pre)
  from a obtain pong A2 where p: "HandleMessageReceived sample_P pong A1 = Some A2" "map dci_id (dq_clients (queue A2)) = [9]"
    by (elim exE conjE)
  show ?thesis by (intro exI conjI, rule h, rule h, rule p, rule p)
qed

end
