(* ===== verification/Channel_Register.thy ===== *)
theory Channel_Register
  imports Channel_Handshake Router_Theorems
begin

text \<open>
  The registration of a channel with the router: the request the channel writes is what the router
  processes, and the router's answer is what the channel reads.
\<close>

lemma connect_request_fields:
  "ManagementMessage_of (messageId (header (connect_request P))) = ConnectRequest"
  "unat (payloadSize (header (connect_request P))) = sizeof_ConnectRequestPayload"
  "IsValidOutOfBandMessage (connect_request P)" "protocolId (header (connect_request P)) = Protocol_ClientManagement"
  by (simp_all add: connect_request_def kOutOfBandMessage_def ManagementMessage_of_def IsValidOutOfBandMessage_def
      sizeof_ConnectRequestPayload_def)

lemma decode_ConnectResponse:
  "decode_ConnectResponsePayload (encode_ConnectResponsePayload \<lparr>crp_result = Success, crp_clientId = i\<rparr>)
     = \<lparr>crp_result = Success, crp_clientId = i\<rparr>"
proof -
  let ?p = "\<lparr>crp_result = Success, crp_clientId = i\<rparr>"
  have "bytes_at sizeof_ConnectResponsePayload (encode_ConnectResponsePayload ?p) = encode_ConnectResponsePayload ?p"
    by (simp add: length_encode_ConnectResponsePayload)
  moreover have "code_of_result Success = 0" "result_of_code 0 = Success"
    by (simp_all add: result_table_def result_of_code_Success)
  ultimately show ?thesis
    by (simp add: decode_ConnectResponsePayload_def encode_ConnectResponsePayload_def field_simps_word Let_def del: code_of_result.simps)
qed

lemma connect_answer_response:
  "connect_answer (connect_response Protocol_ClientManagement i Success) clientId = (Success, i)"
  by (simp add: connect_answer_def connect_response_def oob_reply_def kOutOfBandMessage_def IsOutOfBandMessage_def
      IsValidOutOfBandMessage_def ManagementMessage_of_def decode_ConnectResponse Let_def)

lemma register_once_ready:
  assumes "ch_replies (m_channel mc) = []"
  shows "fst (register_once P (NotReady, m) mc) = NotReady"
    and "ch_replies (m_channel (snd (register_once P (NotReady, m) mc))) = []"
    and "fst (register_once P (Success, connect_response Protocol_ClientManagement i Success) mc) = Success"
    and "ch_clientId (m_channel (snd (register_once P (Success, connect_response Protocol_ClientManagement i Success) mc))) = i"
  using assms by (simp_all add: register_once_def WriteTransportMessage_def connect_answer_response)

text \<open>While answers get lost and there is time, the loop goes on; the first answer ends it.\<close>

lemma register_loop_lost:
  assumes "ch_replies (m_channel mc) = []" and "\<forall>(a, now) \<in> set lost. fst a = NotReady \<and> now - sendTime < ucast timeoutInMs"
  shows "\<exists>mc'. ch_replies (m_channel mc') = []
    \<and> register_loop P timeoutInMs sendTime (lost @ rounds) mc = register_loop P timeoutInMs sendTime rounds mc'"
  using assms
proof (induction lost arbitrary: mc)
  case Nil
  then show ?case by auto
next
  case (Cons x lost)
  obtain m now where x: "x = ((NotReady, m), now)" using Cons.prems(2) by (cases x; cases "fst x") auto
  let ?mc = "snd (register_once P (NotReady, m) mc)"
  have "ch_replies (m_channel ?mc) = []" by (rule register_once_ready(2) [OF Cons.prems(1)])
  then obtain mc' where "ch_replies (m_channel mc') = []"
    "register_loop P timeoutInMs sendTime (lost @ rounds) ?mc = register_loop P timeoutInMs sendTime rounds mc'"
    using Cons.IH Cons.prems(2) by auto
  moreover have "register_loop P timeoutInMs sendTime ((x # lost) @ rounds) mc
      = register_loop P timeoutInMs sendTime (lost @ rounds) ?mc"
    using Cons.prems x register_once_ready(1) [OF Cons.prems(1), of P m]
    by (cases "register_once P (NotReady, m) mc") simp
  ultimately show ?case by auto
qed


lemma register_loop_answered:
  assumes ready: "ch_replies (m_channel mc) = []"
    and lost: "\<forall>(a, now) \<in> set lost. fst a = NotReady \<and> now - sendTime < ucast timeoutInMs"
    and answer: "answer = connect_response Protocol_ClientManagement i Success"
  shows "\<exists>mc'. register_loop P timeoutInMs sendTime (lost @ [((Success, answer), now)]) mc = (Success, mc')
    \<and> ch_clientId (m_channel mc') = i"
proof -
  obtain mc1 where mc1: "ch_replies (m_channel mc1) = []"
    "register_loop P timeoutInMs sendTime (lost @ [((Success, answer), now)]) mc
      = register_loop P timeoutInMs sendTime [((Success, answer), now)] mc1"
    using register_loop_lost [OF ready lost] by blast
  with register_once_ready(3,4) [OF mc1(1), of P i] answer show ?thesis
    by (cases "register_once P (Success, answer) mc1") simp
qed

text \<open>C17.
  Registration agrees with the router.  A channel that is not connected sends connect requests until an
  answer arrives.  When a running router gets the first request over a local connection it does not know
  yet, and identifiers are left, it reserves an identifier that was not in use and answers with it; the
  same request once more gets the same answer and reserves nothing.  Whichever answer reaches the channel,
  after any number of attempts that went unanswered within the time limit, the registration succeeds and
  the channel is connected under the identifier the router reserved.
\<close>

theorem registration_agrees:
  assumes quiet: "\<And>n. transmitResult E n \<noteq> Error" and fair: "fair E" and run: "running E r"
    and t: "transports r (ci_handle conn) = Some ctx" "pTransport ctx = Some t" "\<not> ForwardingConnection E t"
    and fresh: "\<forall>e \<in> set (clientMap ctx). \<not> same_connection (snd e) conn"
    and own: "members r (ci_handle conn) \<subseteq> used_ids E r" and room: "card (used_ids E r) < 8190"
    and request: "request = \<lparr>mc_message = connect_request P, mc_connectionInfo = conn\<rparr>"
    and ready: "ch_replies (m_channel mc) = []"
    and lost: "\<forall>(a, now) \<in> set lost. fst a = NotReady \<and> now - sendTime < ucast timeoutInMs"
  shows "\<exists>i answer r1 r2 mc'. i \<noteq> kBroadcastClientId \<and> i \<notin> used_ids E r
    \<and> ProcessClientManagementMessage E request r = Some r1 \<and> ProcessClientManagementMessage E request r1 = Some r2
    \<and> last (sent r1) = (t, Directed conn, answer) \<and> last (sent r2) = (t, Directed conn, answer)
    \<and> used_ids E r1 = insert i (used_ids E r) \<and> used_ids E r2 = used_ids E r1
    \<and> register_loop P timeoutInMs sendTime (lost @ [((Success, answer), now)]) mc = (Success, mc')
    \<and> ch_clientId (m_channel mc') = i"
proof -
  note f = connect_request_fields [of P]
  let ?answer = "connect_response Protocol_ClientManagement"
  have m: "mc_message request = connect_request P" "mc_connectionInfo request = conn" by (simp_all add: request)
  obtain i r1 r2 told where
    i: "i \<noteq> 0" "i \<notin> used_ids E r"
    and p: "ProcessClientManagementMessage E request r = Some r1" "ProcessClientManagementMessage E request r1 = Some r2"
    and u: "used_ids E r1 = insert i (used_ids E r)" "used_ids E r2 = used_ids E r1"
    and s: "sent r1 = sent r @ told @ [(t, Directed conn, ?answer i Success)]"
      "sent r2 = sent r1 @ [(t, Directed conn, ?answer i Success)]"
    using connection_accepted [of E r request ctx t] quiet fair run t fresh own room f by (auto simp: m)
  obtain mc' where c: "register_loop P timeoutInMs sendTime (lost @ [((Success, ?answer i Success), now)]) mc = (Success, mc')"
    "ch_clientId (m_channel mc') = i"
    using register_loop_answered [OF ready lost refl] by blast
  show ?thesis
    by (rule exI [of _ i], rule exI [of _ "?answer i Success"], rule exI [of _ r1], rule exI [of _ r2], rule exI [of _ mc'])
      (simp add: i p u s c)
qed

theorem registration_agrees_witness:
  "\<exists>i answer r1 mc'. i \<noteq> 0
     \<and> ProcessClientManagementMessage sample_env
         \<lparr>mc_message = connect_request sample_P, mc_connectionInfo = mc_connectionInfo sample_request\<rparr> sample_router = Some r1
     \<and> last (sent r1) = (2, Directed (mc_connectionInfo sample_request), answer)
     \<and> register_loop sample_P 1000 0 [((NotReady, zero_message), 50), ((Success, answer), 100)]
         (new_MessageChannel sample_P sample_channel) = (Success, mc') \<and> ch_clientId (m_channel mc') = i"
proof -
  let ?conn = "mc_connectionInfo sample_request" and ?lost = "[((NotReady, zero_message), 50 :: u64)]"
  have h: "ci_handle ?conn = 3" by (simp add: sample_request_def)
  have t: "transports sample_router 3 = Some \<lparr>pTransport = Some 2, clientMap = []\<rparr>" by (simp add: sample_router_def)
  have none: "members sample_router 3 = {}" "used_ids sample_env sample_router = {}"
    by (simp_all add: members_def t used_ids_def sample_router_def starved_manager_def ids_def sample_env_def
        sample_manager_fields lookup_new)
  have ready: "answers (new_MessageChannel sample_P sample_channel) = []" by (simp add: new_MessageChannel_def)
  obtain i answer r1 r2 mc' where "i \<noteq> 0"
    "ProcessClientManagementMessage sample_env \<lparr>mc_message = connect_request sample_P, mc_connectionInfo = ?conn\<rparr> sample_router = Some r1"
    "last (sent r1) = (2, Directed ?conn, answer)"
    "register_loop sample_P 1000 0 (?lost @ [((Success, answer), 100)]) (new_MessageChannel sample_P sample_channel) = (Success, mc')"
    "connection mc' = i"
    using registration_agrees [OF _ sample_fair sample_router_running, of ?conn "\<lparr>pTransport = Some 2, clientMap = []\<rparr>" 2
        _ sample_P "new_MessageChannel sample_P sample_channel" ?lost 0 1000 100]
      t none h ready by (auto simp: sample_env_def)
  then show ?thesis
    by (intro exI conjI) (assumption | simp)+
qed

end
