(* ===== verification/Crc32.thy ===== *)
theory Crc32
  imports DD_Prelude
begin

text \<open>
  \<^verbatim>\<open>CRC32\<close> (\<^verbatim>\<open>third_party/dd_crc32/src/dd_crc32.cpp\<close>), the checksum of transferred blocks: the table-driven
  algorithm, its equivalence with the division by the polynomial bit by bit, chaining, and which changes
  it always detects.
\<close>

unbundle bit_operations_syntax

subsection \<open>The algorithm\<close>

definition LookupTable :: "u32 list" where
  "LookupTable =
    [0x00000000, 0x77073096, 0xEE0E612C, 0x990951BA, 0x076DC419, 0x706AF48F, 0xE963A535, 0x9E6495A3,
     0x0EDB8832, 0x79DCB8A4, 0xE0D5E91E, 0x97D2D988, 0x09B64C2B, 0x7EB17CBD, 0xE7B82D07, 0x90BF1D91,
     0x1DB71064, 0x6AB020F2, 0xF3B97148, 0x84BE41DE, 0x1ADAD47D, 0x6DDDE4EB, 0xF4D4B551, 0x83D385C7,
     0x136C9856, 0x646BA8C0, 0xFD62F97A, 0x8A65C9EC, 0x14015C4F, 0x63066CD9, 0xFA0F3D63, 0x8D080DF5,
     0x3B6E20C8, 0x4C69105E, 0xD56041E4, 0xA2677172, 0x3C03E4D1, 0x4B04D447, 0xD20D85FD, 0xA50AB56B,
     0x35B5A8FA, 0x42B2986C, 0xDBBBC9D6, 0xACBCF940, 0x32D86CE3, 0x45DF5C75, 0xDCD60DCF, 0xABD13D59,
     0x26D930AC, 0x51DE003A, 0xC8D75180, 0xBFD06116, 0x21B4F4B5, 0x56B3C423, 0xCFBA9599, 0xB8BDA50F,
     0x2802B89E, 0x5F058808, 0xC60CD9B2, 0xB10BE924, 0x2F6F7C87, 0x58684C11, 0xC1611DAB, 0xB6662D3D,
     0x76DC4190, 0x01DB7106, 0x98D220BC, 0xEFD5102A, 0x71B18589, 0x06B6B51F, 0x9FBFE4A5, 0xE8B8D433,
     0x7807C9A2, 0x0F00F934, 0x9609A88E, 0xE10E9818, 0x7F6A0DBB, 0x086D3D2D, 0x91646C97, 0xE6635C01,
     0x6B6B51F4, 0x1C6C6162, 0x856530D8, 0xF262004E, 0x6C0695ED, 0x1B01A57B, 0x8208F4C1, 0xF50FC457,
     0x65B0D9C6, 0x12B7E950, 0x8BBEB8EA, 0xFCB9887C, 0x62DD1DDF, 0x15DA2D49, 0x8CD37CF3, 0xFBD44C65,
     0x4DB26158, 0x3AB551CE, 0xA3BC0074, 0xD4BB30E2, 0x4ADFA541, 0x3DD895D7, 0xA4D1C46D, 0xD3D6F4FB,
     0x4369E96A, 0x346ED9FC, 0xAD678846, 0xDA60B8D0, 0x44042D73, 0x33031DE5, 0xAA0A4C5F, 0xDD0D7CC9,
     0x5005713C, 0x270241AA, 0xBE0B1010, 0xC90C2086, 0x5768B525, 0x206F85B3, 0xB966D409, 0xCE61E49F,
     0x5EDEF90E, 0x29D9C998, 0xB0D09822, 0xC7D7A8B4, 0x59B33D17, 0x2EB40D81, 0xB7BD5C3B, 0xC0BA6CAD,
     0xEDB88320, 0x9ABFB3B6, 0x03B6E20C, 0x74B1D29A, 0xEAD54739, 0x9DD277AF, 0x04DB2615, 0x73DC1683,
     0xE3630B12, 0x94643B84, 0x0D6D6A3E, 0x7A6A5AA8, 0xE40ECF0B, 0x9309FF9D, 0x0A00AE27, 0x7D079EB1,
     0xF00F9344, 0x8708A3D2, 0x1E01F268, 0x6906C2FE, 0xF762575D, 0x806567CB, 0x196C3671, 0x6E6B06E7,
     0xFED41B76, 0x89D32BE0, 0x10DA7A5A, 0x67DD4ACC, 0xF9B9DF6F, 0x8EBEEFF9, 0x17B7BE43, 0x60B08ED5,
     0xD6D6A3E8, 0xA1D1937E, 0x38D8C2C4, 0x4FDFF252, 0xD1BB67F1, 0xA6BC5767, 0x3FB506DD, 0x48B2364B,
     0xD80D2BDA, 0xAF0A1B4C, 0x36034AF6, 0x41047A60, 0xDF60EFC3, 0xA867DF55, 0x316E8EEF, 0x4669BE79,
     0xCB61B38C, 0xBC66831A, 0x256FD2A0, 0x5268E236, 0xCC0C7795, 0xBB0B4703, 0x220216B9, 0x5505262F,
     0xC5BA3BBE, 0xB2BD0B28, 0x2BB45A92, 0x5CB36A04, 0xC2D7FFA7, 0xB5D0CF31, 0x2CD99E8B, 0x5BDEAE1D,
     0x9B64C2B0, 0xEC63F226, 0x756AA39C, 0x026D930A, 0x9C0906A9, 0xEB0E363F, 0x72076785, 0x05005713,
     0x95BF4A82, 0xE2B87A14, 0x7BB12BAE, 0x0CB61B38, 0x92D28E9B, 0xE5D5BE0D, 0x7CDCEFB7, 0x0BDBDF21,
     0x86D3D2D4, 0xF1D4E242, 0x68DDB3F8, 0x1FDA836E, 0x81BE16CD, 0xF6B9265B, 0x6FB077E1, 0x18B74777,
     0x88085AE6, 0xFF0F6A70, 0x66063BCA, 0x11010B5C, 0x8F659EFF, 0xF862AE69, 0x616BFFD3, 0x166CCF45,
     0xA00AE278, 0xD70DD2EE, 0x4E048354, 0x3903B3C2, 0xA7672661, 0xD06016F7, 0x4969474D, 0x3E6E77DB,
     0xAED16A4A, 0xD9D65ADC, 0x40DF0B66, 0x37D83BF0, 0xA9BCAE53, 0xDEBB9EC5, 0x47B2CF7F, 0x30B5FFE9,
     0xBDBDF21C, 0xCABAC28A, 0x53B39330, 0x24B4A3A6, 0xBAD03605, 0xCDD70693, 0x54DE5729, 0x23D967BF,
     0xB3667A2E, 0xC4614AB8, 0x5D681B02, 0x2A6F2B94, 0xB40BBE37, 0xC30C8EA1, 0x5A05DF1B, 0x2D02EF8D]"

definition crc_step :: "u32 \<Rightarrow> u8 \<Rightarrow> u32" where
  "crc_step crc byte = drop_bit 8 crc XOR LookupTable ! unat ((crc AND 0xFF) XOR ucast byte)"

definition CRC32 :: "u8 list \<Rightarrow> u32 \<Rightarrow> u32" where
  "CRC32 pData lastCRC = NOT (foldl crc_step (NOT lastCRC) pData)"

subsection \<open>The reference: one bit at a time\<close>

text \<open>The reflected polynomial; the byte enters the register at its low end.\<close>

definition crc_shift :: "u32 \<Rightarrow> u32" where
  "crc_shift c = (if bit c 0 then drop_bit 1 c XOR 0xEDB88320 else drop_bit 1 c)"

definition crc_byte :: "u32 \<Rightarrow> u8 \<Rightarrow> u32" where
  "crc_byte c byte = (crc_shift ^^ 8) (c XOR ucast byte)"

definition crc_reference :: "u8 list \<Rightarrow> u32 \<Rightarrow> u32" where
  "crc_reference bytes crc = NOT (foldl crc_byte (NOT crc) bytes)"

lemma crc_shift_xor: "crc_shift (a XOR b) = crc_shift a XOR crc_shift b"
  by (auto simp: crc_shift_def bit_xor_iff ac_simps)

lemma crc_shifts_xor: "(crc_shift ^^ n) (a XOR b) = (crc_shift ^^ n) a XOR (crc_shift ^^ n) b"
  by (induction n) (simp_all add: crc_shift_xor)

lemma crc_shifts_high: "take_bit n c = 0 \<Longrightarrow> (crc_shift ^^ n) c = drop_bit n c"
proof (induction n arbitrary: c)
  case (Suc n)
  then have "\<not> bit (take_bit (Suc n) c) 0" by simp
  then have "\<not> bit c 0" by (simp add: bit_take_bit_iff)
  moreover have "take_bit n (drop_bit 1 c) = 0" using Suc.prems by (simp add: take_bit_drop_bit)
  ultimately show ?case
    using Suc.IH [of "drop_bit 1 c"] by (simp add: funpow_Suc_right crc_shift_def del: funpow.simps)
qed simp

subsection \<open>The table\<close>

text \<open>The table is built by doubling from the entries of the eight powers of two.\<close>

definition doubled :: "u32 list \<Rightarrow> u32 \<Rightarrow> u32 list" where
  "doubled xs t = xs @ map ((XOR) t) xs"

lemma LookupTable_doubled:
  "LookupTable = fold (\<lambda>t xs. doubled xs t) [0x77073096, 0xEE0E612C, 0x076DC419, 0x0EDB8832, 0x1DB71064, 0x3B6E20C8, 0x76DC4190, 0xEDB88320] [0]"
  by (simp add: LookupTable_def doubled_def)

lemma crc_powers:
  "map (\<lambda>k. (crc_shift ^^ 8) (2 ^ k)) [0..<8] = [0x77073096, 0xEE0E612C, 0x076DC419, 0x0EDB8832, 0x1DB71064, 0x3B6E20C8, 0x76DC4190, 0xEDB88320]"
  by code_simp

lemma shifts_doubled:
  assumes "n < 32" and "xs = map (\<lambda>i. (crc_shift ^^ 8) (word_of_nat i)) [0..<2 ^ n]"
  shows "doubled xs ((crc_shift ^^ 8) (2 ^ n)) = map (\<lambda>i. (crc_shift ^^ 8) (word_of_nat i)) [0..<2 ^ Suc n]"
proof -
  have "[0..<2 ^ Suc n] = [0..<2 ^ n] @ map (\<lambda>i. i + 2 ^ n) [0..<2 ^ n :: nat]"
    using upt_add_eq_append [of 0 "2 ^ n" "2 ^ n"] by (simp add: map_add_upt mult_2)
  moreover have "word_of_nat (i + 2 ^ n) = 2 ^ n XOR (word_of_nat i :: u32)" if "i < 2 ^ n" for i
  proof -
    have "(2 ^ n :: u32) AND word_of_nat i = 0"
    proof (rule bit_eqI)
      fix j
      have "\<not> bit (word_of_nat i :: u32) n"
      proof
        assume "bit (word_of_nat i :: u32) n"
        then have "bit (unat (word_of_nat i :: u32)) n" using assms(1) by (simp add: bit_unsigned_iff)
        moreover have "i mod 2 ^ 32 < 2 ^ n" using that by (rule le_less_trans [OF mod_less_eq_dividend])
        ultimately show False by (simp add: unat_of_nat bit_iff_odd)
      qed
      then show "bit ((2 ^ n :: u32) AND word_of_nat i) j = bit (0 :: u32) j"
        by (auto simp: bit_and_iff bit_exp_iff)
    qed
    then show ?thesis using disjunctive_add_eq_xor [of "2 ^ n :: u32" "word_of_nat i"] by (simp add: add.commute)
  qed
  ultimately show ?thesis using assms(2) by (simp add: doubled_def crc_shifts_xor)
qed


lemma LookupTable_eq: "LookupTable = map (\<lambda>i. (crc_shift ^^ 8) (word_of_nat i)) [0..<256]"
proof -
  let ?f = "\<lambda>n. map (\<lambda>i. (crc_shift ^^ 8) (word_of_nat i)) [0..<2 ^ n :: nat]"
  have "fold (\<lambda>t xs. doubled xs t) (map (\<lambda>k. (crc_shift ^^ 8) (2 ^ k)) [0..<n]) (?f 0) = ?f n" if "n \<le> 8" for n
    using that
  proof (induction n)
    case (Suc n)
    then show ?case using shifts_doubled [of n "?f n"] by simp
  qed simp
  from this [of 8] have "fold (\<lambda>t xs. doubled xs t) (map (\<lambda>k. (crc_shift ^^ 8) (2 ^ k)) [0..<8]) (?f 0) = ?f 8" by simp
  moreover have "?f 0 = [0]" by (simp add: crc_shifts_high)
  ultimately show ?thesis unfolding crc_powers LookupTable_doubled by simp
qed


subsection \<open>Equivalence\<close>

lemma low_byte: "(c :: u32) AND 0xFF = take_bit 8 c"
  by (simp add: take_bit_eq_mask mask_eq_exp_minus_1)

lemma byte_low: "take_bit 8 (ucast (b :: u8) :: u32) = ucast b"
  by (rule bit_eqI) (auto simp: bit_take_bit_iff bit_unsigned_iff dest: bit_imp_le_length)

lemma drop_low: "take_bit n a = (a :: u32) \<Longrightarrow> drop_bit n a = 0"
  by (metis drop_bit_take_bit take_bit_0 diff_self_eq_0)

lemma crc_step_byte: "crc_step c b = crc_byte c b"
proof -
  let ?x = "c XOR ucast b"
  let ?i = "take_bit 8 ?x" 
  let ?h = "?x XOR ?i"
  have i: "(c AND 0xFF) XOR ucast b = ?i" by (simp only: take_bit_xor low_byte byte_low)
  have ih: "take_bit 8 ?i = ?i" by simp
  have "drop_bit 8 ?h = drop_bit 8 c"
    by (simp only: drop_bit_xor drop_low [OF ih] drop_low [OF byte_low] xor.right_neutral)
  moreover have "take_bit 8 ?h = 0" by (simp only: take_bit_xor [of 8 ?x ?i] ih xor_self_eq)
  ultimately have h: "(crc_shift ^^ 8) ?h = drop_bit 8 c" using crc_shifts_high by metis
  have "unat ?i < 256" using take_bit_nat_less_exp [of 8 "unat ?x"] by (simp only: unsigned_take_bit_eq) simp
  then have t: "LookupTable ! unat ?i = (crc_shift ^^ 8) ?i" by (simp only: LookupTable_eq) simp
  have "?x = ?h XOR ?i" by (simp only: xor.assoc xor_self_eq xor.right_neutral)
  then have "(crc_shift ^^ 8) ?x = (crc_shift ^^ 8) ?h XOR (crc_shift ^^ 8) ?i" using crc_shifts_xor by metis
  then show ?thesis by (simp only: crc_step_def crc_byte_def i h t)
qed


lemma CRC32_reference: "CRC32 bs c = crc_reference bs c"
proof -
  have "crc_step = crc_byte" by (intro ext crc_step_byte)
  then show ?thesis by (simp add: CRC32_def crc_reference_def)
qed

lemma CRC32_append: "CRC32 (a @ b) c = CRC32 b (CRC32 a c)"
  by (simp add: CRC32_def)

lemma CRC32_Nil [simp]: "CRC32 [] c = c"
  by (simp add: CRC32_def)

text \<open>C36.
  The table-driven checksum is the division by the polynomial 0x04C11DB7 (0xEDB88320 reflected), bit by bit,
  for every data and every start value; and a checksum can be continued: the checksum of data that arrives
  in pieces, each started with the checksum of the pieces before, is the checksum of the whole.
\<close>

theorem CRC32_equivalent:
  "CRC32 data lastCRC = NOT (fold (\<lambda>byte c. (crc_shift ^^ 8) (c XOR ucast byte)) data (NOT lastCRC))
   \<and> CRC32 (concat pieces) lastCRC = fold CRC32 pieces lastCRC"
proof
  show "CRC32 data lastCRC = NOT (fold (\<lambda>byte c. (crc_shift ^^ 8) (c XOR ucast byte)) data (NOT lastCRC))"
    unfolding CRC32_reference by (simp add: crc_reference_def foldl_conv_fold crc_byte_def)
  show "CRC32 (concat pieces) lastCRC = fold CRC32 pieces lastCRC"
    by (induction pieces arbitrary: lastCRC) (simp_all add: CRC32_append)
qed

subsection \<open>What a checksum detects\<close>

lemma crc_shift_zero: "crc_shift d = 0 \<Longrightarrow> d = 0"
proof (rule bit_eqI)
  fix n
  assume z: "crc_shift d = 0"
  have "\<not> bit d 0"
  proof
    assume "bit d 0"
    then have "drop_bit 1 d XOR 0xEDB88320 = 0" using z by (simp add: crc_shift_def)
    then have "bit (drop_bit 1 d XOR 0xEDB88320) 31 = bit (0 :: u32) 31" by (rule arg_cong)
    moreover have "\<not> bit (drop_bit 1 d) 31" by (simp add: bit_drop_bit_eq) (auto dest: bit_imp_le_length)
    moreover have "bit (0xEDB88320 :: u32) 31" by code_simp
    ultimately show False by (simp add: bit_xor_iff)
  qed
  then have "drop_bit 1 d = 0" using z by (simp add: crc_shift_def)
  show "bit d n = bit 0 n"
  proof (cases n)
    case 0
    with \<open>\<not> bit d 0\<close> show ?thesis by simp
  next
    case (Suc k)
    have "bit (drop_bit 1 d) k = bit d n" using Suc by (simp add: bit_drop_bit_eq)
    with \<open>drop_bit 1 d = 0\<close> show ?thesis by simp
  qed
qed


lemma xor_cancel: "a XOR b = c \<Longrightarrow> a = c XOR (b :: 'a::semiring_bit_operations)"
proof -
  assume "a XOR b = c"
  then have "c XOR b = (a XOR b) XOR b" by (simp only:)
  also have "\<dots> = a" by (simp only: xor.assoc xor_self_eq xor.right_neutral)
  finally show "a = c XOR b" by (rule sym)
qed

lemma xor_zero: "a XOR b = 0 \<Longrightarrow> a = (b :: 'a::semiring_bit_operations)"
  using xor_cancel [of a b 0] by (simp only: xor.left_neutral)

lemma crc_shift_inject: "crc_shift a = crc_shift b \<Longrightarrow> a = b"
proof -
  assume "crc_shift a = crc_shift b"
  then have "crc_shift (a XOR b) = 0" by (simp only: crc_shift_xor xor_self_eq)
  then show "a = b" by (rule xor_zero [OF crc_shift_zero])
qed

lemma crc_shifts_inject: "(crc_shift ^^ n) a = (crc_shift ^^ n) b \<Longrightarrow> a = b"
  by (induction n) (auto dest: crc_shift_inject)

lemma crc_bytes_inject: "foldl crc_byte a bs = foldl crc_byte b bs \<Longrightarrow> a = b"
proof (induction bs arbitrary: a b)
  case (Cons x bs)
  then have "crc_byte a x = crc_byte b x" by simp
  then have "a XOR ucast x = b XOR ucast x" unfolding crc_byte_def by (rule crc_shifts_inject)
  then have "(a XOR ucast x) XOR ucast x = (b XOR ucast x) XOR ucast x" by (rule arg_cong)
  then show ?case by (simp only: xor.assoc xor_self_eq xor.right_neutral)
qed simp

lemma crc_bytes_xor:
  "length x = length y \<Longrightarrow>
     foldl crc_byte a x XOR foldl crc_byte b y = foldl crc_byte (a XOR b) (map2 (XOR) x y)"
proof (induction x y arbitrary: a b rule: list_induct2)
  case (Cons u x v y)
  have "crc_byte a u XOR crc_byte b v = crc_byte (a XOR b) (u XOR v)"
    by (simp only: crc_byte_def crc_shifts_xor [symmetric] unsigned_xor_eq) (simp only: ac_simps)
  with Cons.IH [of "crc_byte a u" "crc_byte b v"] show ?case by simp
qed simp

lemma crc_all_zero: "\<forall>d \<in> set ds. d = 0 \<Longrightarrow> foldl crc_byte 0 ds = 0"
proof (induction ds)
  case (Cons x xs)
  have "crc_byte 0 0 = 0" unfolding crc_byte_def by (subst crc_shifts_high) simp_all
  with Cons show ?case by simp
qed simp

text \<open>A register that few bytes lead to from zero and that has only low bits comes from zero bytes.\<close>

lemma crc_zero_bytes:
  "length ds + k \<le> 4 \<Longrightarrow> take_bit (8 * k) (foldl crc_byte 0 ds) = foldl crc_byte 0 ds \<Longrightarrow> \<forall>d \<in> set ds. d = 0"
proof (induction ds arbitrary: k rule: rev_induct)
  case (snoc d ds)
  let ?c = "foldl crc_byte 0 ds" and ?v = "foldl crc_byte 0 (ds @ [d])"
  let ?w = "push_bit 8 ?v"
  have k: "8 * k + 8 \<le> 32" using snoc.prems(1) by simp
  have small: "\<not> bit ?v n" if "8 * k \<le> n" for n
    using arg_cong [OF snoc.prems(2), of "\<lambda>w. bit w n"] that by (simp add: bit_take_bit_iff)
  have drop: "drop_bit 8 ?w = ?v"
  proof (rule bit_eqI)
    fix n
    show "bit (drop_bit 8 ?w) n = bit ?v n"
      using small [of n] k by (cases "n < 24") (auto simp: bit_drop_bit_eq bit_push_bit_iff dest: bit_imp_le_length)
  qed
  have "take_bit 8 ?w = 0" by (rule bit_eqI) (simp add: bit_take_bit_iff bit_push_bit_iff)
  then have "(crc_shift ^^ 8) ?w = ?v" using crc_shifts_high drop by metis
  then have w: "?c XOR ucast d = ?w" using crc_shifts_inject [of 8 "?c XOR ucast d" ?w] by (simp add: crc_byte_def)
  then have c: "?c = ?w XOR ucast d" by (rule xor_cancel)
  have high: "\<not> bit ?c n" if "8 * Suc k \<le> n" for n
  proof -
    have "\<not> bit (ucast d :: u32) n" using that by (auto simp: bit_unsigned_iff dest: bit_imp_le_length)
    with small [of "n - 8"] that show ?thesis unfolding c by (simp add: bit_xor_iff bit_push_bit_iff)
  qed
  have "take_bit (8 * Suc k) ?c = ?c"
    by (rule bit_eqI) (use high not_le in \<open>auto simp only: bit_take_bit_iff\<close>)
  then have ds: "\<forall>d \<in> set ds. d = 0" using snoc.IH [of "Suc k"] snoc.prems(1) by simp
  then have "?c = 0" by (rule crc_all_zero)
  then have "ucast d = ?w" using w by (simp only: xor.left_neutral)
  then have "(ucast d :: u32) = take_bit 8 ?w" using byte_low [of d] by (simp only:)
  then have "(ucast d :: u32) = 0" using \<open>take_bit 8 ?w = 0\<close> by (simp only:)
  then have "(ucast (ucast d :: u32) :: u8) = ucast (0 :: u32)" by (simp only:)
  then have "d = 0" by (simp add: ucast_up_ucast_id is_up)
  with ds show ?case by simp
qed simp

text \<open>C30.
  A checksum detects every change within four consecutive bytes: when two messages of the same length
  differ only there and have the same checksum, they are equal.
\<close>

theorem CRC32_detects_burst:
  assumes "length x = length y" and "length x \<le> 4" and "CRC32 (pre @ x @ post) c = CRC32 (pre @ y @ post) c"
  shows "x = y"
proof -
  let ?c = "foldl crc_byte (NOT c) pre"
  have "foldl crc_byte (foldl crc_byte ?c x) post = foldl crc_byte (foldl crc_byte ?c y) post"
    using assms(3) by (simp add: CRC32_reference crc_reference_def)
  then have "foldl crc_byte ?c x = foldl crc_byte ?c y" by (rule crc_bytes_inject)
  then have "foldl crc_byte (?c XOR ?c) (map2 (XOR) x y) = 0" using crc_bytes_xor [OF assms(1), of ?c ?c] by simp
  then have z: "\<forall>d \<in> set (map2 (XOR) x y). d = 0"
    using crc_zero_bytes [of "map2 (XOR) x y" 0] assms(1,2) by simp
  show ?thesis
  proof (rule nth_equalityI [OF assms(1)])
    fix i
    assume i: "i < length x"
    then have "map2 (XOR) x y ! i \<in> set (map2 (XOR) x y)" using assms(1) by (intro nth_mem) simp
    then have "x ! i XOR y ! i \<in> set (map2 (XOR) x y)" using assms(1) i by simp
    with z have "x ! i XOR y ! i = 0" by blast
    then show "x ! i = y ! i" by (rule xor_zero)
  qed
qed

theorem CRC32_detects_burst_witness: "CRC32 ([7] @ [1, 2] @ [3]) 0 \<noteq> CRC32 ([7] @ [2, 1] @ [3]) 0"
  using CRC32_detects_burst [of "[1, 2]" "[2, 1]" "[7]" "[3]" 0] by auto

end
