(* ===== verification/Transfer_Base.thy ===== *)
theory Transfer_Base
  imports Crc32 Messages Hash_Map Client_Random
begin

text \<open>
  Blocks of data that clients transfer over sessions: the messages of the transfer protocol
  (\<^verbatim>\<open>shared/legacy/inc/protocols/ddTransferProtocol.h\<close>, \<^verbatim>\<open>src/protocols/ddTransferProtocol.cpp\<close>), the session as
  the two ends use it (\<^verbatim>\<open>inc/protocolSession.h\<close>), the blocks a server offers and the manager that names
  them (\<^verbatim>\<open>inc/ddTransferManager.h\<close>, \<^verbatim>\<open>src/ddTransferManager.cpp\<close>).
\<close>

subsection \<open>Messages\<close>

text \<open>The enums are cast from the network without a check, so their codes are used as they are.\<close>

abbreviation (input) TransferMessage_TransferRequest :: u32 where "TransferMessage_TransferRequest \<equiv> 1"
abbreviation (input) TransferMessage_TransferDataHeader :: u32 where "TransferMessage_TransferDataHeader \<equiv> 2"
abbreviation (input) TransferMessage_TransferDataChunk :: u32 where "TransferMessage_TransferDataChunk \<equiv> 3"
abbreviation (input) TransferMessage_TransferDataSentinel :: u32 where "TransferMessage_TransferDataSentinel \<equiv> 4"
abbreviation (input) TransferMessage_TransferStatus :: u32 where "TransferMessage_TransferStatus \<equiv> 5"
abbreviation (input) TransferType_Pull :: u32 where "TransferType_Pull \<equiv> 0"
abbreviation (input) TransferType_Push :: u32 where "TransferType_Push \<equiv> 1"

type_synonym BlockId = u32

abbreviation (input) kInvalidBlockId :: BlockId where "kInvalidBlockId \<equiv> 0"

definition TRANSFER_REFACTOR_VERSION :: Version where "TRANSFER_REFACTOR_VERSION = 2"

definition kMaxTransferDataChunkSize :: nat where
  "kMaxTransferDataChunkSize = kMaxPayloadSizeInBytes - 4"

text \<open>\<^verbatim>\<open>offsetof(TransferDataChunk, data)\<close> and \<^verbatim>\<open>sizeof(TransferHeader)\<close>.\<close>

definition chunk_offset :: nat where "chunk_offset = 4"

record SizedPayloadContainer =
  pc_payloadSize :: u32
  pc_payload :: "u8 list"

definition new_SizedPayloadContainer :: SizedPayloadContainer where
  "new_SizedPayloadContainer = \<lparr>pc_payloadSize = 0, pc_payload = replicate kMaxPayloadSizeInBytes 0\<rparr>"

text \<open>\<^verbatim>\<open>CreatePayload\<close> constructs the object at the start of the buffer and leaves the rest.\<close>

definition CreatePayload :: "u8 list \<Rightarrow> SizedPayloadContainer \<Rightarrow> SizedPayloadContainer" where
  "CreatePayload object c =
    \<lparr>pc_payloadSize = word_of_nat (length object), pc_payload = memcpy (length object) (pc_payload c) object\<rparr>"

definition TransferRequest :: "BlockId \<Rightarrow> u32 \<Rightarrow> u32 \<Rightarrow> u8 list" where
  "TransferRequest blockId type sizeInBytes =
    put_word 4 TransferMessage_TransferRequest @ put_word 4 blockId @ put_word 4 type @ put_word 4 sizeInBytes"

definition TransferDataHeader :: "Result \<Rightarrow> u32 \<Rightarrow> u8 list" where
  "TransferDataHeader result sizeInBytes =
    put_word 4 TransferMessage_TransferDataHeader @ put_word 4 (code_of_result result) @ put_word 4 sizeInBytes"

definition TransferDataHeaderV2 :: "u32 \<Rightarrow> u8 list" where
  "TransferDataHeaderV2 sizeInBytes = put_word 4 TransferMessage_TransferDataHeader @ put_word 4 sizeInBytes"

definition TransferDataSentinel :: "Result \<Rightarrow> u32 \<Rightarrow> u8 list" where
  "TransferDataSentinel result crc32 =
    put_word 4 TransferMessage_TransferDataSentinel @ put_word 4 (code_of_result result) @ put_word 4 crc32"

definition TransferStatus :: "Result \<Rightarrow> u8 list" where
  "TransferStatus result = put_word 4 TransferMessage_TransferStatus @ put_word 4 (code_of_result result)"

text \<open>\<^verbatim>\<open>GetPayload\<close>: a 32-bit field of the object at an offset; the data of a chunk.\<close>

definition field32 :: "nat \<Rightarrow> SizedPayloadContainer \<Rightarrow> u32" where
  "field32 offset c = get_word offset 4 (pc_payload c)"

abbreviation (input) command :: "SizedPayloadContainer \<Rightarrow> u32" where "command \<equiv> field32 0"

definition field_result :: "SizedPayloadContainer \<Rightarrow> Result" where
  "field_result c = result_of_code (field32 4 c)"

definition chunk_data :: "SizedPayloadContainer \<Rightarrow> u8 list" where
  "chunk_data c = drop chunk_offset (pc_payload c)"

text \<open>\<^verbatim>\<open>TransferDataChunk::WritePayload\<close>; \<open>pData\<close> has the bytes from the pointer on.\<close>

definition WritePayload :: "u8 list \<Rightarrow> u64 \<Rightarrow> SizedPayloadContainer \<Rightarrow> SizedPayloadContainer" where
  "WritePayload pData bytesToSend c =
    (let bytes = put_word 4 TransferMessage_TransferDataChunk @ take (unat bytesToSend) pData
     in \<lparr>pc_payloadSize = ucast (bytesToSend + word_of_nat chunk_offset), pc_payload = memcpy (length bytes) (pc_payload c) bytes\<rparr>)"

subsection \<open>The session\<close>

text \<open>
  \<^verbatim>\<open>ISession\<close> as the transfer code uses it.  What \<^verbatim>\<open>Receive\<close> returns is a script, and nothing is received
  past its end; what \<^verbatim>\<open>Send\<close> returns is another one, past whose end every payload is taken.
\<close>

record ISession =
  is_version :: Version
  is_closed :: bool
  is_incoming :: "(Result \<times> u8 list) list"
  is_sendReplies :: "Result list"
  is_outgoing :: "u8 list list"

definition ISession_Send :: "u32 \<Rightarrow> u8 list \<Rightarrow> ISession \<Rightarrow> Result \<times> ISession" where
  "ISession_Send payloadSizeInBytes pPayload s =
    (let taken = s\<lparr>is_outgoing := is_outgoing s @ [take (unat payloadSizeInBytes) pPayload]\<rparr> in
     case is_sendReplies s of
       [] \<Rightarrow> (Success, taken)
     | r # rs \<Rightarrow> (r, if r = Success then taken\<lparr>is_sendReplies := rs\<rparr> else s\<lparr>is_sendReplies := rs\<rparr>))"

text \<open>A payload that was received is copied to the start of the buffer; otherwise the container stays.\<close>

definition ISession_ReceivePayload ::
  "SizedPayloadContainer \<Rightarrow> ISession \<Rightarrow> Result \<times> SizedPayloadContainer \<times> ISession" where
  "ISession_ReceivePayload c s =
    (case is_incoming s of
       [] \<Rightarrow> (NotReady, c, s)
     | (r, bytes) # rest \<Rightarrow>
         (r, if r = Success then CreatePayload bytes c else c, s\<lparr>is_incoming := rest\<rparr>))"

subsection \<open>Blocks\<close>

definition kTransferChunkSizeInBytes :: nat where "kTransferChunkSizeInBytes = 4096"

record ServerBlock =
  m_blockId :: BlockId
  m_blockDataSize :: u64
  m_isClosed :: bool
  m_chunks :: "u8 list"
  m_numPendingTransfers :: u32
  m_transfersCompletedEvent :: bool
  m_blockCrc32 :: u32

definition new_ServerBlock :: "BlockId \<Rightarrow> ServerBlock" where
  "new_ServerBlock blockId =
    \<lparr>m_blockId = blockId, m_blockDataSize = 0, m_isClosed = False, m_chunks = [], m_numPendingTransfers = 0,
     m_transfersCompletedEvent = True, m_blockCrc32 = 0\<rparr>"

text \<open>
  The layout of the manager's map, and which allocations succeed: a block, a map entry, and growing
  \<^verbatim>\<open>m_chunks\<close> to a number of chunks.
\<close>

record TransferParams =
  blockHash :: "BlockId HashParams"
  blockMemory :: bool
  entryMemory :: bool
  chunkMemory :: "nat \<Rightarrow> bool"

definition Pow2Align :: "u64 \<Rightarrow> u64 \<Rightarrow> u64" where
  "Pow2Align value alignment = (value + (alignment - 1)) AND NOT (alignment - 1)"

text \<open>
  The operations return \<open>None\<close> where the code uses memory that is not there: a failed allocation is not
  checked, and the source or the destination of a copy may be too short.  New chunks have no defined
  content; it is zero here.
\<close>

definition ServerBlock_Write :: "TransferParams \<Rightarrow> u8 list \<Rightarrow> u64 \<Rightarrow> ServerBlock \<Rightarrow> ServerBlock option" where
  "ServerBlock_Write T pSrcBuffer numBytes b =
    (if numBytes > 0 then
       (let blockCapacityInBytes = word_of_nat (length (m_chunks b));
            bytesAvailable = blockCapacityInBytes - m_blockDataSize b;
            numChunksRequired = Pow2Align (numBytes - bytesAvailable) (word_of_nat kTransferChunkSizeInBytes)
              div word_of_nat kTransferChunkSizeInBytes;
            newSize = length (m_chunks b) div kTransferChunkSizeInBytes + unat numChunksRequired;
            chunks = (if bytesAvailable < numBytes
                      then m_chunks b @ replicate (kTransferChunkSizeInBytes * unat numChunksRequired) 0 else m_chunks b);
            position = unat (m_blockDataSize b);
            bytes = take (unat numBytes) pSrcBuffer
        in
        if (bytesAvailable < numBytes \<longrightarrow> chunkMemory T newSize) \<and> unat numBytes \<le> length pSrcBuffer
           \<and> position + unat numBytes \<le> length chunks
        then Some (b\<lparr>m_chunks := take position chunks @ bytes @ drop (position + unat numBytes) chunks,
                     m_blockCrc32 := CRC32 bytes (m_blockCrc32 b),
                     m_blockDataSize := m_blockDataSize b + numBytes\<rparr>)
        else None)
     else Some b)"

definition ServerBlock_Close :: "ServerBlock \<Rightarrow> ServerBlock" where
  "ServerBlock_Close b = b\<lparr>m_isClosed := True\<rparr>"

definition ServerBlock_Reset :: "ServerBlock \<Rightarrow> ServerBlock" where
  "ServerBlock_Reset b = b\<lparr>m_isClosed := False, m_blockDataSize := 0, m_blockCrc32 := 0\<rparr>"

definition ServerBlock_Reserve :: "TransferParams \<Rightarrow> u64 \<Rightarrow> ServerBlock \<Rightarrow> ServerBlock option" where
  "ServerBlock_Reserve T bytes b =
    (if \<not> m_isClosed b \<and> \<not> chunkMemory T (unat (Pow2Align bytes (word_of_nat kTransferChunkSizeInBytes)
          div word_of_nat kTransferChunkSizeInBytes))
     then None else Some b)"

definition GetBlockData :: "ServerBlock \<Rightarrow> u8 list option" where
  "GetBlockData b = (if m_blockDataSize b > 0 then Some (m_chunks b) else None)"

definition BeginTransfer :: "ServerBlock \<Rightarrow> ServerBlock" where
  "BeginTransfer b =
    (let n = m_numPendingTransfers b + 1
     in b\<lparr>m_numPendingTransfers := n, m_transfersCompletedEvent := (if n = 1 then False else m_transfersCompletedEvent b)\<rparr>)"

definition EndTransfer :: "ServerBlock \<Rightarrow> ServerBlock" where
  "EndTransfer b =
    (let n = m_numPendingTransfers b - 1
     in b\<lparr>m_numPendingTransfers := n, m_transfersCompletedEvent := (if n = 0 then True else m_transfersCompletedEvent b)\<rparr>)"

definition HasPendingTransfers :: "ServerBlock \<Rightarrow> bool" where
  "HasPendingTransfers b \<longleftrightarrow> m_numPendingTransfers b > 0"

text \<open>\<^verbatim>\<open>WaitForPendingTransfers\<close> when nothing happens during the wait.\<close>

definition WaitForPendingTransfers :: "ServerBlock \<Rightarrow> Result" where
  "WaitForPendingTransfers b = (if m_transfersCompletedEvent b then Success else NotReady)"

subsection \<open>The manager\<close>

text \<open>Blocks are behind shared pointers; a pointer is a number, and a block that is in use stays.\<close>

record TransferManager =
  m_blockRng :: Random
  m_registeredServerBlocks :: "(BlockId, nat) HashBase"
  server_blocks :: "nat \<rightharpoonup> ServerBlock"
  next_block :: nat

definition new_TransferManager :: "TransferParams \<Rightarrow> u64 \<Rightarrow> TransferManager" where
  "new_TransferManager T seed =
    \<lparr>m_blockRng = new_Random seed, m_registeredServerBlocks = new_HashBase (blockHash T), server_blocks = Map.empty, next_block = 0\<rparr>"

definition update_block :: "nat \<Rightarrow> (ServerBlock \<Rightarrow> ServerBlock) \<Rightarrow> TransferManager \<Rightarrow> TransferManager" where
  "update_block p f M = M\<lparr>server_blocks := (server_blocks M)(p := map_option f (server_blocks M p))\<rparr>"

partial_function (option) new_block_id ::
  "TransferParams \<Rightarrow> (BlockId, nat) HashBase \<Rightarrow> Random \<Rightarrow> (BlockId \<times> Random) option" where
  "new_block_id T h rng =
    (let (newBlockId, rng1) = Generate rng in
     if newBlockId = kInvalidBlockId \<and> Contains (blockHash T) newBlockId h then new_block_id T h rng1
     else Some (newBlockId, rng1))"

definition OpenServerBlock :: "TransferParams \<Rightarrow> TransferManager \<Rightarrow> (nat option \<times> TransferManager) option" where
  "OpenServerBlock T M =
    (case new_block_id T (m_registeredServerBlocks M) (m_blockRng M) of
       None \<Rightarrow> None
     | Some (newBlockId, rng) \<Rightarrow>
         if blockMemory T then
           (let p = next_block M
            in Some (Some p, M\<lparr>m_blockRng := rng, next_block := p + 1,
                 server_blocks := (server_blocks M)(p \<mapsto> new_ServerBlock newBlockId),
                 m_registeredServerBlocks := snd (Create (blockHash T) (entryMemory T) newBlockId p (m_registeredServerBlocks M))\<rparr>))
         else Some (None, M\<lparr>m_blockRng := rng\<rparr>))"

definition GetServerBlock :: "TransferParams \<Rightarrow> BlockId \<Rightarrow> TransferManager \<Rightarrow> nat option" where
  "GetServerBlock T serverBlockId M = FindValue (blockHash T) serverBlockId (m_registeredServerBlocks M)"

definition CloseServerBlock :: "TransferParams \<Rightarrow> nat option \<Rightarrow> TransferManager \<Rightarrow> TransferManager" where
  "CloseServerBlock T pBlock M =
    (case pBlock of
       None \<Rightarrow> M
     | Some p \<Rightarrow>
         (case server_blocks M p of
            None \<Rightarrow> M
          | Some b \<Rightarrow> M\<lparr>m_registeredServerBlocks := snd (Erase (blockHash T) (m_blockId b) (m_registeredServerBlocks M))\<rparr>))"

end
