(* ===== verification/Transfer_Server.thy ===== *)
theory Transfer_Server
  imports Transfer_Base
begin

text \<open>
  The server's end of a transfer: the class \<^verbatim>\<open>TransferServer::TransferSession\<close> of
  \<^verbatim>\<open>shared/legacy/src/protocols/ddTransferServer.cpp\<close>, one definition per method.  \<^verbatim>\<open>DD_ASSERT\<close> and
  \<^verbatim>\<open>DD_UNREACHABLE\<close> do nothing in a release build.  \<open>None\<close> is a use of memory that is not there.
\<close>

datatype TransferSessionState =
  Idle | SendPayload | StartPullTransfer | ProcessPullTransfer | StartPushTransfer | ReceivePushTransferData

record TransferSession =
  m_scratchPayload :: SizedPayloadContainer
  m_pTransferManager :: TransferManager
  m_pSession :: ISession
  m_pBlock :: "nat option"
  m_totalBytes :: u64
  m_bytesTransferred :: u64
  m_crc32 :: u32
  m_state :: TransferSessionState

definition new_TransferSession :: "TransferManager \<Rightarrow> ISession \<Rightarrow> TransferSession" where
  "new_TransferSession pTransferManager pSession =
    \<lparr>m_scratchPayload = new_SizedPayloadContainer, m_pTransferManager = pTransferManager, m_pSession = pSession,
     m_pBlock = None, m_totalBytes = 0, m_bytesTransferred = 0, m_crc32 = 0, m_state = Idle\<rparr>"

text \<open>\<^verbatim>\<open>m_pBlock->f()\<close>, and dropping the pointer after \<^verbatim>\<open>EndTransfer\<close>.\<close>

definition the_block :: "TransferSession \<Rightarrow> ServerBlock option" where
  "the_block S = Option.bind (m_pBlock S) (server_blocks (m_pTransferManager S))"

definition on_block :: "(ServerBlock \<Rightarrow> ServerBlock) \<Rightarrow> TransferSession \<Rightarrow> TransferSession" where
  "on_block f S =
    (case m_pBlock S of
       None \<Rightarrow> S
     | Some p \<Rightarrow> S\<lparr>m_pTransferManager := update_block p f (m_pTransferManager S)\<rparr>)"

definition end_block :: "TransferSession \<Rightarrow> TransferSession" where
  "end_block S = (on_block EndTransfer S)\<lparr>m_pBlock := None\<rparr>"

definition delete_TransferSession :: "TransferSession \<Rightarrow> TransferManager" where
  "delete_TransferSession S = m_pTransferManager (on_block EndTransfer S)"

definition TransferSession_SendPayload :: "TransferSession \<Rightarrow> Result \<times> TransferSession" where
  "TransferSession_SendPayload S =
    (let payload = m_scratchPayload S;
         size32 = (if is_version (m_pSession S) \<ge> TRANSFER_REFACTOR_VERSION then pc_payloadSize payload
                   else word_of_nat kMaxPayloadSizeInBytes);
         (result, session) = ISession_Send size32 (pc_payload payload) (m_pSession S)
     in (result, S\<lparr>m_pSession := session\<rparr>))"

definition TransferSession_ReceivePayload :: "TransferSession \<Rightarrow> Result \<times> TransferSession" where
  "TransferSession_ReceivePayload S =
    (let (result, payload, session) = ISession_ReceivePayload (m_scratchPayload S) (m_pSession S)
     in (result, S\<lparr>m_scratchPayload := payload, m_pSession := session\<rparr>))"

definition scratch :: "u8 list \<Rightarrow> TransferSession \<Rightarrow> TransferSession" where
  "scratch object S = S\<lparr>m_scratchPayload := CreatePayload object (m_scratchPayload S)\<rparr>"

definition SendScratchPayloadAndMoveToIdle :: "TransferSession \<Rightarrow> TransferSession" where
  "SendScratchPayloadAndMoveToIdle S =
    (let (result, S1) = TransferSession_SendPayload S in if result = Success then S1\<lparr>m_state := Idle\<rparr> else S1)"

definition send_and_idle :: "u8 list \<Rightarrow> TransferSession \<Rightarrow> TransferSession" where
  "send_and_idle object S = SendScratchPayloadAndMoveToIdle ((scratch object S)\<lparr>m_state := SendPayload\<rparr>)"

definition SendSentinel :: "Result \<Rightarrow> u32 \<Rightarrow> TransferSession \<Rightarrow> TransferSession" where
  "SendSentinel result crc S = send_and_idle (TransferDataSentinel result crc) (end_block S)"

definition CancelTransfer :: "Result \<Rightarrow> TransferSession \<Rightarrow> TransferSession" where
  "CancelTransfer reason S = send_and_idle (TransferStatus reason) (end_block (on_block ServerBlock_Reset S))"

subsection \<open>Pull\<close>

text \<open>One pass of the sending loop: the data of one chunk and the result of sending it.\<close>

definition send_chunk :: "TransferSession \<Rightarrow> (Result \<times> TransferSession) option" where
  "send_chunk S =
    (case Option.bind (the_block S) GetBlockData of
       None \<Rightarrow> None
     | Some blockData \<Rightarrow>
         (let bytesRemaining = m_totalBytes S - m_bytesTransferred S;
              bytesToSend = min (word_of_nat kMaxTransferDataChunkSize) bytesRemaining;
              pData = drop (unat (m_bytesTransferred S)) blockData;
              S1 = S\<lparr>m_scratchPayload := WritePayload pData bytesToSend (m_scratchPayload S)\<rparr>;
              (sendResult, S2) = TransferSession_SendPayload S1
          in
          if unat bytesToSend \<le> length pData then
            Some (sendResult,
              if sendResult = Success then S2\<lparr>m_bytesTransferred := m_bytesTransferred S2 + bytesToSend\<rparr> else S2)
          else None))"


lemma SendPayload_session:
  "TransferSession_SendPayload S = (r, S') \<Longrightarrow>
     \<exists>session. S' = S\<lparr>m_pSession := session\<rparr> \<and> is_incoming session = is_incoming (m_pSession S)
       \<and> is_version session = is_version (m_pSession S)"
  by (auto simp: TransferSession_SendPayload_def ISession_Send_def Let_def split: list.splits prod.splits if_splits)

lemma chunk_progress:
  fixes n k :: u64
  assumes "k < n" and "b = min (word_of_nat kMaxTransferDataChunkSize) (n - k)"
  shows "unat (n - (k + b)) < unat (n - k)"
proof -
  have "unat (n - k) > 0" using assms(1) by (simp add: unat_sub word_less_nat_alt less_imp_le)
  moreover have "unat (word_of_nat kMaxTransferDataChunkSize :: u64) > 0"
    by (simp add: kMaxTransferDataChunkSize_def msg_size_defs)
  ultimately have b: "0 < unat b" "unat b \<le> unat (n - k)"
    unfolding assms(2) by (simp_all add: min_def word_le_nat_alt)
  have "n - (k + b) = (n - k) - b" by (simp only: diff_diff_eq)
  then have "unat (n - (k + b)) = unat (n - k) - unat b"
    using b(2) by (simp only: unat_sub word_le_nat_alt)
  with b show ?thesis by simp
qed

lemma send_chunk_progress:
  assumes "send_chunk S = Some (Success, S')" and "m_bytesTransferred S < m_totalBytes S"
  shows "unat (m_totalBytes S' - m_bytesTransferred S') < unat (m_totalBytes S - m_bytesTransferred S)"
proof -
  let ?b = "min (word_of_nat kMaxTransferDataChunkSize) (m_totalBytes S - m_bytesTransferred S)"
  have "m_totalBytes S' = m_totalBytes S \<and> m_bytesTransferred S' = m_bytesTransferred S + ?b"
    using assms(1)
    by (auto simp: send_chunk_def Let_def split: option.splits prod.splits if_splits dest!: SendPayload_session)
  then show ?thesis using chunk_progress [OF assms(2) refl] by simp
qed

function pull_loop :: "TransferSession \<Rightarrow> TransferSession option" where
  "pull_loop S =
    (if m_bytesTransferred S < m_totalBytes S then
       (case send_chunk S of
          None \<Rightarrow> None
        | Some (sendResult, S1) \<Rightarrow> if sendResult = Success then pull_loop S1 else Some S1)
     else Some S)"
  by pat_completeness auto
termination
  by (relation "measure (\<lambda>S. unat (m_totalBytes S - m_bytesTransferred S))") (auto dest: send_chunk_progress)

declare pull_loop.simps [simp del]

definition ProcessPullSession :: "TransferSession \<Rightarrow> TransferSession option" where
  "ProcessPullSession S =
    (let (result, S1) = TransferSession_ReceivePayload S in
     if result = NotReady then
       map_option (\<lambda>S2. if m_bytesTransferred S2 = m_totalBytes S2 then SendSentinel Success (m_crc32 S2) S2 else S2)
         (pull_loop S1)
     else if result = Success then
       Some (if command (m_scratchPayload S1) = TransferMessage_TransferStatus then SendSentinel Aborted 0 S1
             else SendSentinel Error 0 S1)
     else Some S1)"

definition SendPullTransferHeader :: "TransferSession \<Rightarrow> TransferSession option" where
  "SendPullTransferHeader S =
    (let (result, S1) = TransferSession_SendPayload S in
     if result = Success then ProcessPullSession (S1\<lparr>m_state := ProcessPullTransfer\<rparr>) else Some S1)"

definition start_pull :: "TransferParams \<Rightarrow> BlockId \<Rightarrow> TransferSession \<Rightarrow> TransferSession option" where
  "start_pull T blockId S =
    (case GetServerBlock T blockId (m_pTransferManager S) of
       None \<Rightarrow> Some (send_and_idle (TransferStatus Error) S)
     | Some p \<Rightarrow>
         (case server_blocks (m_pTransferManager S) p of
            None \<Rightarrow> None
          | Some b \<Rightarrow>
              if m_isClosed b \<and> m_state S = Idle then
                (let S1 = (on_block BeginTransfer (S\<lparr>m_pBlock := Some p\<rparr>))
                       \<lparr>m_totalBytes := m_blockDataSize b, m_bytesTransferred := 0, m_crc32 := m_blockCrc32 b,
                        m_state := StartPullTransfer\<rparr>;
                     blockSizeInBytes = ucast (m_blockDataSize b)
                 in SendPullTransferHeader
                      (scratch (if is_version (m_pSession S) \<ge> TRANSFER_REFACTOR_VERSION
                                then TransferDataHeaderV2 blockSizeInBytes
                                else TransferDataHeader Success blockSizeInBytes) S1))
              else Some (send_and_idle (TransferStatus Error) S)))"


subsection \<open>Push\<close>

definition StartPushTransferSession :: "TransferSession \<Rightarrow> TransferSession" where
  "StartPushTransferSession S =
    (let (result, S1) = TransferSession_SendPayload S
     in if result = Success then S1\<lparr>m_state := ReceivePushTransferData\<rparr> else S1)"

definition start_push :: "TransferParams \<Rightarrow> BlockId \<Rightarrow> u32 \<Rightarrow> TransferSession \<Rightarrow> TransferSession option" where
  "start_push T blockId sizeInBytes S =
    (case GetServerBlock T blockId (m_pTransferManager S) of
       None \<Rightarrow> Some (send_and_idle (TransferStatus Error) S)
     | Some p \<Rightarrow>
         (case server_blocks (m_pTransferManager S) p of
            None \<Rightarrow> None
          | Some b \<Rightarrow>
              if \<not> m_isClosed b \<and> m_state S = Idle then
                (let S1 = (on_block BeginTransfer (S\<lparr>m_pBlock := Some p\<rparr>))
                       \<lparr>m_bytesTransferred := 0, m_crc32 := 0, m_totalBytes := ucast sizeInBytes\<rparr>
                 in if m_totalBytes S1 > 0 then
                      (if ServerBlock_Reserve T (m_totalBytes S1) b = None then None
                       else Some (StartPushTransferSession
                              (scratch (TransferStatus Success) (S1\<lparr>m_state := StartPushTransfer\<rparr>))))
                    else Some (send_and_idle (TransferStatus Error) S1))
              else Some (send_and_idle (TransferStatus Error) S)))"

text \<open>What is done with one message while data is pushed; the sizes are 64-bit and may wrap around.\<close>

definition push_message :: "TransferParams \<Rightarrow> TransferSession \<Rightarrow> TransferSession option" where
  "push_message T S =
    (let message = m_scratchPayload S in
     if command message = TransferMessage_TransferDataChunk then
       (if m_bytesTransferred S < m_totalBytes S then
          (let bytesRemaining = m_totalBytes S - m_bytesTransferred S;
               numBytes = ucast (pc_payloadSize message) - word_of_nat chunk_offset;
               bytesToWrite = min numBytes bytesRemaining
           in case Option.bind (the_block S) (ServerBlock_Write T (chunk_data message) bytesToWrite) of
                None \<Rightarrow> None
              | Some b \<Rightarrow> Some ((on_block (\<lambda>_. b) S)\<lparr>m_bytesTransferred := m_bytesTransferred S + bytesToWrite\<rparr>))
        else Some (CancelTransfer InsufficientMemory S))
     else if command message = TransferMessage_TransferDataSentinel then
       (case the_block S of
          None \<Rightarrow> None
        | Some b \<Rightarrow>
            let result = field_result message in
            if result = Success \<and> m_blockCrc32 b = field32 8 message then
              Some (send_and_idle (TransferStatus Success) (end_block (on_block ServerBlock_Close S)))
            else Some (CancelTransfer (if result \<noteq> Aborted then Error else Aborted) S))
     else Some (CancelTransfer Error S))"

lemma send_and_idle_incoming [simp]: "is_incoming (m_pSession (send_and_idle object S)) = is_incoming (m_pSession S)"
  by (auto simp: send_and_idle_def SendScratchPayloadAndMoveToIdle_def scratch_def split: prod.splits dest!: SendPayload_session)

lemma end_block_incoming [simp]:
  "is_incoming (m_pSession (end_block S)) = is_incoming (m_pSession S)"
  "is_incoming (m_pSession (on_block f S)) = is_incoming (m_pSession S)"
  by (simp_all add: end_block_def on_block_def split: option.splits)

lemma push_message_incoming: "push_message T S = Some S' \<Longrightarrow> is_incoming (m_pSession S') = is_incoming (m_pSession S)"
  by (auto simp: push_message_def CancelTransfer_def Let_def split: if_splits option.splits)

lemma ReceivePayload_incoming:
  "TransferSession_ReceivePayload S = (Success, S') \<Longrightarrow>
     length (is_incoming (m_pSession S')) < length (is_incoming (m_pSession S))"
  by (auto simp: TransferSession_ReceivePayload_def ISession_ReceivePayload_def split: list.splits prod.splits)

function receive_push_data :: "TransferParams \<Rightarrow> TransferSession \<Rightarrow> TransferSession option" where
  "receive_push_data T S =
    (case TransferSession_ReceivePayload S of
       (result, S1) \<Rightarrow>
         if result = Success then
           (case push_message T S1 of
              None \<Rightarrow> None
            | Some S2 \<Rightarrow> if m_state S2 = ReceivePushTransferData then receive_push_data T S2 else Some S2)
         else Some S1)"
  by pat_completeness auto
termination
  by (relation "measure (\<lambda>(T, S). length (is_incoming (m_pSession S)))")
    (auto dest!: push_message_incoming ReceivePayload_incoming [OF sym])

declare receive_push_data.simps [simp del]

subsection \<open>The session's state machine\<close>

definition ProcessPayload :: "TransferParams \<Rightarrow> TransferSession \<Rightarrow> TransferSession option" where
  "ProcessPayload T S =
    (let message = m_scratchPayload S in
     if command message = TransferMessage_TransferRequest then
       (let blockId = field32 4 message; type = field32 8 message; sizeInBytes = field32 12 message in
        if type = TransferType_Pull then start_pull T blockId S
        else if type = TransferType_Push then start_push T blockId sizeInBytes S
        else Some (send_and_idle (TransferStatus Error) S))
     else if command message = TransferMessage_TransferStatus then Some (SendSentinel Aborted 0 S)
     else Some S)"

definition UpdateSession :: "TransferParams \<Rightarrow> TransferSession \<Rightarrow> TransferSession option" where
  "UpdateSession T S =
    (case m_state S of
       Idle \<Rightarrow>
         (let (result, S1) = TransferSession_ReceivePayload S
          in if result = Success then ProcessPayload T S1 else Some S1)
     | ProcessPullTransfer \<Rightarrow> ProcessPullSession S
     | StartPullTransfer \<Rightarrow> SendPullTransferHeader S
     | StartPushTransfer \<Rightarrow> Some (StartPushTransferSession S)
     | ReceivePushTransferData \<Rightarrow> receive_push_data T S
     | SendPayload \<Rightarrow> Some (SendScratchPayloadAndMoveToIdle S))"

subsection \<open>The protocol server\<close>

text \<open>
  The callbacks of \<^verbatim>\<open>TransferServer\<close>, called by the session manager.  The user data of a session is the
  pointer to its \<^verbatim>\<open>TransferSession\<close>; it is not checked for null on an update.
\<close>

definition TransferServer_AcceptSession :: "ISession \<Rightarrow> bool" where
  "TransferServer_AcceptSession pSession = True"

definition TransferServer_SessionEstablished :: "TransferManager \<Rightarrow> ISession \<Rightarrow> TransferSession option" where
  "TransferServer_SessionEstablished pTransferManager pSession = Some (new_TransferSession pTransferManager pSession)"

definition TransferServer_UpdateSession :: "TransferParams \<Rightarrow> TransferSession option \<Rightarrow> TransferSession option" where
  "TransferServer_UpdateSession T pSessionData = Option.bind pSessionData (UpdateSession T)"

definition TransferServer_SessionTerminated ::
  "TransferManager \<Rightarrow> TransferSession option \<Rightarrow> TransferManager \<times> TransferSession option" where
  "TransferServer_SessionTerminated pTransferManager pSessionData =
    (case pSessionData of None \<Rightarrow> (pTransferManager, None) | Some S \<Rightarrow> (delete_TransferSession S, None))"

end
