(* ===== verification/Transfer_Client.thy ===== *)
theory Transfer_Client
  imports Transfer_Base
begin

text \<open>
  The client's end of a transfer: \<^verbatim>\<open>LegacyProtocolClient\<close> (\<^verbatim>\<open>shared/legacy/inc/legacyProtocolClient.h\<close>,
  \<^verbatim>\<open>src/legacyProtocolClient.cpp\<close>), \<^verbatim>\<open>TransferClient\<close> (\<^verbatim>\<open>src/protocols/ddTransferClient.cpp\<close>) and the blocks
  that \<^verbatim>\<open>TransferManager\<close> opens over it.
\<close>

subsection \<open>The protocol client\<close>

datatype ClientState = Disconnected | Connected

record LegacyProtocolClient =
  lc_state :: ClientState
  lc_pSession :: "ISession option"

definition new_LegacyProtocolClient :: LegacyProtocolClient where
  "new_LegacyProtocolClient = \<lparr>lc_state = Disconnected, lc_pSession = None\<rparr>"

definition LegacyProtocolClient_IsConnected :: "LegacyProtocolClient \<Rightarrow> bool" where
  "LegacyProtocolClient_IsConnected c \<longleftrightarrow> lc_state c = Connected"

definition GetSessionVersion :: "LegacyProtocolClient \<Rightarrow> Version" where
  "GetSessionVersion c = (case lc_pSession c of None \<Rightarrow> 0 | Some s \<Rightarrow> is_version s)"

definition drop_session :: "LegacyProtocolClient \<Rightarrow> LegacyProtocolClient" where
  "drop_session c = (if LegacyProtocolClient_IsConnected c then \<lparr>lc_state = Disconnected, lc_pSession = None\<rparr> else c)"

text \<open>\<open>established\<close> and \<open>connected\<close> are the answers of \<^verbatim>\<open>EstablishSessionForClient\<close> and \<^verbatim>\<open>WaitForConnection\<close>.\<close>

definition LegacyProtocolClient_Connect ::
  "Result \<Rightarrow> Result \<Rightarrow> ISession \<Rightarrow> LegacyProtocolClient \<Rightarrow> Result \<times> LegacyProtocolClient" where
  "LegacyProtocolClient_Connect established waited pSession c =
    (let c1 = drop_session c;
         result = (if established = Success then waited else established)
     in (result, if result = Success then \<lparr>lc_state = Connected, lc_pSession = Some pSession\<rparr> else c1))"

definition QueryConnectionStatus :: "LegacyProtocolClient \<Rightarrow> bool \<times> LegacyProtocolClient" where
  "QueryConnectionStatus c =
    (case lc_pSession c of
       None \<Rightarrow> (False, c)
     | Some s \<Rightarrow> (\<not> is_closed s, if is_closed s then drop_session c else c))"

text \<open>
  The waiting loops.  Every pass that goes on uses up an answer of the script; when nothing more is in
  the script of \<^verbatim>\<open>Receive\<close>, the time runs out.
\<close>

function send_loop :: "u32 \<Rightarrow> u8 list \<Rightarrow> u32 \<Rightarrow> u32 \<Rightarrow> u32 \<Rightarrow> ISession \<Rightarrow> Result \<times> ISession" where
  "send_loop payloadSize32 pPayload timeoutInMs retryInMs timeElapsed s =
    (let (result, s1) = ISession_Send payloadSize32 pPayload s;
         timeElapsed1 = timeElapsed + retryInMs
     in if result = NotReady \<and> timeElapsed1 \<le> timeoutInMs
        then send_loop payloadSize32 pPayload timeoutInMs retryInMs timeElapsed1 s1 else (result, s1))"
  by pat_completeness auto
termination
  by (relation "measure (\<lambda>(_, _, _, _, _, s). length (is_sendReplies s))")
    (auto simp: ISession_Send_def Let_def split: list.splits if_splits)

declare send_loop.simps [simp del]

function receive_loop ::
  "u32 \<Rightarrow> u32 \<Rightarrow> u32 \<Rightarrow> SizedPayloadContainer \<Rightarrow> ISession \<Rightarrow> Result \<times> SizedPayloadContainer \<times> ISession" where
  "receive_loop timeoutInMs retryInMs timeElapsed c s =
    (if is_incoming s = [] then (NotReady, c, s)
     else
       (let (result, c1, s1) = ISession_ReceivePayload c s;
            timeElapsed1 = timeElapsed + retryInMs
        in if result = NotReady \<and> timeElapsed1 \<le> timeoutInMs
           then receive_loop timeoutInMs retryInMs timeElapsed1 c1 s1 else (result, c1, s1)))"
  by pat_completeness auto
termination
  by (relation "measure (\<lambda>(_, _, _, _, s). length (is_incoming s))")
    (auto simp: ISession_ReceivePayload_def split: list.splits)

declare receive_loop.simps [simp del]

definition SendSizedPayload ::
  "u8 list \<Rightarrow> u32 \<Rightarrow> u32 \<Rightarrow> u32 \<Rightarrow> LegacyProtocolClient \<Rightarrow> Result \<times> LegacyProtocolClient" where
  "SendSizedPayload pPayload payloadSize32 timeoutInMs retryInMs c =
    (case lc_pSession c of
       None \<Rightarrow> (Error, c)
     | Some s \<Rightarrow>
         (let (result, s1) = send_loop payloadSize32 pPayload timeoutInMs retryInMs 0 s
          in (result, c\<lparr>lc_pSession := Some s1\<rparr>)))"

definition ReceiveSizedPayload ::
  "SizedPayloadContainer \<Rightarrow> u32 \<Rightarrow> u32 \<Rightarrow> LegacyProtocolClient \<Rightarrow> Result \<times> SizedPayloadContainer \<times> LegacyProtocolClient" where
  "ReceiveSizedPayload container timeoutInMs retryInMs c =
    (case lc_pSession c of
       None \<Rightarrow> (Error, container, c)
     | Some s \<Rightarrow>
         (let (result, container1, s1) = receive_loop timeoutInMs retryInMs 0 container s
          in (result, container1, c\<lparr>lc_pSession := Some s1\<rparr>)))"

subsection \<open>The transfer client\<close>

datatype TransferState = TransferIdle | TransferInProgress | TransferError

record TransferClient =
  tc_client :: LegacyProtocolClient
  tc_state :: TransferState
  tc_type :: u32
  tc_totalBytes :: u32
  tc_crc32 :: u32
  tc_dataChunkSizeInBytes :: u64
  tc_dataChunkBytesTransfered :: u64
  tc_scratchPayload :: SizedPayloadContainer

record Timeouts =
  communicationTimeoutInMs :: u32
  retryTimeoutInMs :: u32

definition kTransferChunkTimeoutInMs :: u32 where "kTransferChunkTimeoutInMs = 3000"

definition ResetState :: "LegacyProtocolClient \<Rightarrow> TransferClient" where
  "ResetState c = \<lparr>tc_client = c, tc_state = TransferIdle, tc_type = TransferType_Pull, tc_totalBytes = 0, tc_crc32 = 0,
     tc_dataChunkSizeInBytes = 0, tc_dataChunkBytesTransfered = 0, tc_scratchPayload = new_SizedPayloadContainer\<rparr>"

definition new_TransferClient :: TransferClient where
  "new_TransferClient = ResetState new_LegacyProtocolClient"

definition TransferClient_Disconnect :: "TransferClient \<Rightarrow> TransferClient" where
  "TransferClient_Disconnect C = ResetState (drop_session (tc_client C))"

definition TransferClient_Connect :: "Result \<Rightarrow> Result \<Rightarrow> ISession \<Rightarrow> TransferClient \<Rightarrow> Result \<times> TransferClient" where
  "TransferClient_Connect established waited pSession C =
    (let (result, c) = LegacyProtocolClient_Connect established waited pSession (tc_client (TransferClient_Disconnect C))
     in (result, ResetState c))"

definition IsTransferInProgress :: "TransferClient \<Rightarrow> bool" where
  "IsTransferInProgress C \<longleftrightarrow> LegacyProtocolClient_IsConnected (tc_client C) \<and> tc_state C = TransferInProgress"

definition SendTransferPayload :: "SizedPayloadContainer \<Rightarrow> u32 \<Rightarrow> u32 \<Rightarrow> TransferClient \<Rightarrow> Result \<times> TransferClient" where
  "SendTransferPayload container timeoutInMs retryInMs C =
    (let size32 = (if GetSessionVersion (tc_client C) \<ge> TRANSFER_REFACTOR_VERSION then pc_payloadSize container
                   else word_of_nat kMaxPayloadSizeInBytes);
         (result, c) = SendSizedPayload (pc_payload container) size32 timeoutInMs retryInMs (tc_client C)
     in (result, C\<lparr>tc_client := c\<rparr>))"

definition ReceiveTransferPayload ::
  "SizedPayloadContainer \<Rightarrow> u32 \<Rightarrow> u32 \<Rightarrow> TransferClient \<Rightarrow> Result \<times> SizedPayloadContainer \<times> TransferClient" where
  "ReceiveTransferPayload container timeoutInMs retryInMs C =
    (let (result, container1, c) = ReceiveSizedPayload container timeoutInMs retryInMs (tc_client C)
     in (result, container1, C\<lparr>tc_client := c\<rparr>))"

definition TransactTransferPayload ::
  "SizedPayloadContainer \<Rightarrow> u32 \<Rightarrow> u32 \<Rightarrow> TransferClient \<Rightarrow> Result \<times> SizedPayloadContainer \<times> TransferClient" where
  "TransactTransferPayload container timeoutInMs retryInMs C =
    (let (result, C1) = SendTransferPayload container timeoutInMs retryInMs C
     in if result = Success then ReceiveTransferPayload container timeoutInMs retryInMs C1 else (result, container, C1))"

abbreviation new_container :: "u8 list \<Rightarrow> SizedPayloadContainer" where
  "new_container object \<equiv> CreatePayload object new_SizedPayloadContainer"

subsection \<open>Pulling\<close>

definition begin_transfer :: "u32 \<Rightarrow> TransferClient \<Rightarrow> TransferClient" where
  "begin_transfer totalBytes C = C\<lparr>tc_state := TransferInProgress, tc_totalBytes := totalBytes, tc_crc32 := 0,
     tc_dataChunkSizeInBytes := 0, tc_dataChunkBytesTransfered := 0\<rparr>"

text \<open>
  The second component is what is written to \<^verbatim>\<open>*pTransferSizeInBytes\<close>; \<open>sizePointer\<close> is whether the pointer
  is not null.  With version 2 the type of the transfer is not set.
\<close>

definition RequestPullTransfer ::
  "Timeouts \<Rightarrow> BlockId \<Rightarrow> bool \<Rightarrow> TransferClient \<Rightarrow> Result \<times> u64 option \<times> TransferClient" where
  "RequestPullTransfer W blockId sizePointer C =
    (if tc_state C = TransferIdle \<and> sizePointer then
       (let (result, container, C1) =
          TransactTransferPayload (new_container (TransferRequest blockId TransferType_Pull 0))
            (communicationTimeoutInMs W) (retryTimeoutInMs W) C
        in
        if result = Success \<and> command container = TransferMessage_TransferDataHeader then
          (if GetSessionVersion (tc_client C1) \<ge> TRANSFER_REFACTOR_VERSION then
             (let n = field32 4 container in (Success, Some (ucast n), begin_transfer n C1))
           else if field_result container = Success then
             (let n = field32 8 container in (Success, Some (ucast n), begin_transfer n (C1\<lparr>tc_type := TransferType_Pull\<rparr>)))
           else (Error, None, C1\<lparr>tc_state := TransferError\<rparr>))
        else (Error, None, C1\<lparr>tc_state := TransferError\<rparr>))
     else (Error, None, C))"

text \<open>
  Fetching the next chunk: the result and the new state.  The buffer for the sentinel is a new one.
\<close>

definition fetch_sentinel :: "Timeouts \<Rightarrow> TransferClient \<Rightarrow> Result \<times> TransferClient" where
  "fetch_sentinel W C =
    (let (result, sentinel, C1) =
       ReceiveTransferPayload new_SizedPayloadContainer kTransferChunkTimeoutInMs (retryTimeoutInMs W) C
     in (result,
         if result \<noteq> Success \<or> command sentinel \<noteq> TransferMessage_TransferDataSentinel \<or> field_result sentinel \<noteq> Success
         then C1\<lparr>tc_state := TransferError\<rparr>
         else if GetSessionVersion (tc_client C1) \<ge> TRANSFER_REFACTOR_VERSION \<and> field32 8 sentinel \<noteq> tc_crc32 C1
         then C1\<lparr>tc_state := TransferError\<rparr>
         else C1))"

definition fetch_chunk :: "Timeouts \<Rightarrow> TransferClient \<Rightarrow> Result \<times> TransferClient" where
  "fetch_chunk W C =
    (let (result, chunk, C1) =
       ReceiveTransferPayload (tc_scratchPayload C) kTransferChunkTimeoutInMs (retryTimeoutInMs W) C;
         C2 = C1\<lparr>tc_scratchPayload := chunk\<rparr>
     in
     if result = Success \<and> command chunk = TransferMessage_TransferDataChunk then
       (let receivedSize = ucast (pc_payloadSize chunk) - (word_of_nat chunk_offset :: u64);
            chunkSize = min receivedSize (word_of_nat kMaxTransferDataChunkSize);
            adjustedPayloadSize = min (ucast chunkSize) (tc_totalBytes C2);
            C3 = C2\<lparr>tc_dataChunkSizeInBytes := ucast adjustedPayloadSize, tc_dataChunkBytesTransfered := 0,
                    tc_totalBytes := tc_totalBytes C2 - adjustedPayloadSize,
                    tc_crc32 := CRC32 (take (unat adjustedPayloadSize) (chunk_data chunk)) (tc_crc32 C2)\<rparr>
        in if tc_totalBytes C3 = 0 then fetch_sentinel W C3 else (Success, C3))
     else (result, C2\<lparr>tc_state := TransferError\<rparr>))"

text \<open>Copying local data into the buffer: the bytes copied, the result of the call so far and the new state.\<close>

definition copy_local :: "u64 \<Rightarrow> Result \<Rightarrow> TransferClient \<Rightarrow> u8 list \<times> Result \<times> TransferClient" where
  "copy_local remainingBufferSize result C =
    (let dataChunkBytesAvailable = tc_dataChunkSizeInBytes C - tc_dataChunkBytesTransfered C;
         bytesToRead = min remainingBufferSize dataChunkBytesAvailable;
         pData = drop (unat (tc_dataChunkBytesTransfered C)) (chunk_data (tc_scratchPayload C));
         C1 = C\<lparr>tc_dataChunkBytesTransfered := tc_dataChunkBytesTransfered C + bytesToRead\<rparr>
     in (take (unat bytesToRead) pData,
         if tc_dataChunkBytesTransfered C1 = tc_dataChunkSizeInBytes C1 \<and> tc_totalBytes C1 = 0
         then (EndOfStream, C1\<lparr>tc_state := TransferIdle\<rparr>) else (result, C1)))"

definition incoming :: "TransferClient \<Rightarrow> (Result \<times> u8 list) list" where
  "incoming C = (case lc_pSession (tc_client C) of None \<Rightarrow> [] | Some s \<Rightarrow> is_incoming s)"

lemma receive_loop_incoming:
  "receive_loop timeout retry elapsed c s = (r, c', s') \<Longrightarrow>
     length (is_incoming s') \<le> length (is_incoming s) \<and> (r = Success \<longrightarrow> length (is_incoming s') < length (is_incoming s))"
proof (induction timeout retry elapsed c s rule: receive_loop.induct)
  case (1 timeout retry elapsed c s)
  show ?case
  proof (cases "is_incoming s = []")
    case True
    with "1.prems" show ?thesis by (simp add: receive_loop.simps)
  next
    case False
    obtain r1 c1 s1 where p: "ISession_ReceivePayload c s = (r1, c1, s1)" by (metis prod.exhaust)
    have less: "length (is_incoming s1) < length (is_incoming s)"
      using p False by (auto simp: ISession_ReceivePayload_def split: list.splits)
    have un: "receive_loop timeout retry elapsed c s =
      (if r1 = NotReady \<and> elapsed + retry \<le> timeout then receive_loop timeout retry (elapsed + retry) c1 s1 else (r1, c1, s1))"
      using False p by (subst receive_loop.simps) (simp add: Let_def)
    show ?thesis
    proof (cases "r1 = NotReady \<and> elapsed + retry \<le> timeout")
      case True
      with "1.IH" [OF False p [symmetric] refl refl] "1.prems" un less show ?thesis by auto
    next
      case False
      with "1.prems" un less show ?thesis by auto
    qed
  qed
qed

lemma ReceiveTransferPayload_incoming:
  "ReceiveTransferPayload container timeout retry C = (r, container', C') \<Longrightarrow>
     length (incoming C') \<le> length (incoming C) \<and> (r = Success \<longrightarrow> length (incoming C') < length (incoming C))
     \<and> tc_state C' = tc_state C"
  by (auto simp: ReceiveTransferPayload_def ReceiveSizedPayload_def incoming_def split: prod.splits option.splits
      dest: receive_loop_incoming)

lemma fetch_sentinel_incoming: "fetch_sentinel W C = (r, C') \<Longrightarrow> length (incoming C') \<le> length (incoming C)"
  by (auto simp: fetch_sentinel_def incoming_def split: prod.splits if_splits
      dest!: ReceiveTransferPayload_incoming [unfolded incoming_def])

lemma fetch_chunk_incoming:
  assumes "fetch_chunk W C = (r, C')" and "tc_state C' = TransferInProgress"
  shows "length (incoming C') < length (incoming C)"
proof -
  obtain r1 chunk C1 where p: "ReceiveTransferPayload (tc_scratchPayload C) kTransferChunkTimeoutInMs (retryTimeoutInMs W) C
      = (r1, chunk, C1)" by (metis prod.exhaust)
  note i = ReceiveTransferPayload_incoming [OF p]
  have same: "incoming (C1\<lparr>tc_scratchPayload := a, tc_dataChunkSizeInBytes := b, tc_dataChunkBytesTransfered := c,
      tc_totalBytes := d, tc_crc32 := e\<rparr>) = incoming C1" for a b c d e by (simp add: incoming_def)
  show ?thesis
    using assms i
    by (auto simp: fetch_chunk_def p Let_def same split: if_splits dest!: fetch_sentinel_incoming)
qed

lemma copy_local_incoming: "copy_local n result C = (bytes, r, C') \<Longrightarrow> incoming C' = incoming C"
  by (auto simp: copy_local_def incoming_def Let_def split: if_splits)

lemma remaining_decreases: "0 < n \<Longrightarrow> 0 < k \<Longrightarrow> unat (n - min n k) < unat (n :: u64)"
  by (simp add: min_def unat_sub word_le_nat_alt word_less_nat_alt)

text \<open>\<open>None\<close> is the branch in which nothing is left to do and the loop goes on forever.\<close>

function read_loop ::
  "Timeouts \<Rightarrow> u64 \<Rightarrow> u8 list \<Rightarrow> Result \<Rightarrow> TransferClient \<Rightarrow> (Result \<times> u8 list \<times> TransferClient) option" where
  "read_loop W remainingBufferSize bytesRead result C =
    (if remainingBufferSize > 0 \<and> tc_state C = TransferInProgress then
       (if tc_dataChunkSizeInBytes C - tc_dataChunkBytesTransfered C > 0 then
          (case copy_local remainingBufferSize result C of
             (bytes, result1, C1) \<Rightarrow>
               read_loop W
                 (remainingBufferSize - min remainingBufferSize (tc_dataChunkSizeInBytes C - tc_dataChunkBytesTransfered C))
                 (bytesRead @ bytes) result1 C1)
        else if tc_totalBytes C > 0 then
          (case fetch_chunk W C of (result1, C1) \<Rightarrow>
             if tc_state C1 = TransferInProgress then read_loop W remainingBufferSize bytesRead result1 C1
             else Some (result1, bytesRead, C1))
        else None)
     else Some (result, bytesRead, C))"
  by pat_completeness auto
termination
proof (relation "measures [\<lambda>(W, remaining, bytesRead, result, C). length (incoming C),
    \<lambda>(W, remaining, bytesRead, result, C). unat remaining]", goal_cases)
  case (2 W remaining bytesRead result C bytes y result1 C1)
  then have "incoming C1 = incoming C" using copy_local_incoming [of remaining result C bytes result1 C1] by simp
  moreover have "unat (remaining - min remaining (tc_dataChunkSizeInBytes C - tc_dataChunkBytesTransfered C)) < unat remaining"
    using 2 by (intro remaining_decreases) blast+
  ultimately show ?case by simp
next
  case (3 W remaining bytesRead result C result1 C1)
  then have "length (incoming C1) < length (incoming C)" using fetch_chunk_incoming [of W C result1 C1] by simp
  then show ?case by simp
qed simp

declare read_loop.simps [simp del]


definition ReadPullTransferData ::
  "Timeouts \<Rightarrow> u64 \<Rightarrow> TransferClient \<Rightarrow> (Result \<times> u8 list \<times> TransferClient) option" where
  "ReadPullTransferData W bufferSize C =
    (if tc_state C = TransferInProgress then
       (if tc_totalBytes C = 0 \<and> tc_dataChunkSizeInBytes C = tc_dataChunkBytesTransfered C
        then Some (EndOfStream, [], C\<lparr>tc_state := TransferIdle\<rparr>)
        else if bufferSize > 0 then read_loop W bufferSize [] Success C
        else Some (Success, [], C))
     else Some (Error, [], C))"

function discard_until_sentinel ::
  "Timeouts \<Rightarrow> SizedPayloadContainer \<Rightarrow> TransferClient \<Rightarrow> Result \<times> SizedPayloadContainer \<times> TransferClient" where
  "discard_until_sentinel W container C =
    (if command container \<noteq> TransferMessage_TransferDataSentinel then
       (case ReceiveTransferPayload container (communicationTimeoutInMs W) (retryTimeoutInMs W) C of
          (transferResult, container1, C1) \<Rightarrow>
            if transferResult = Success then discard_until_sentinel W container1 C1 else (transferResult, container1, C1))
     else (Success, container, C))"
  by pat_completeness auto
termination
  by (relation "measure (\<lambda>(W, container, C). length (incoming C))")
    (auto dest: ReceiveTransferPayload_incoming [OF sym])

declare discard_until_sentinel.simps [simp del]

definition AbortPullTransfer :: "Timeouts \<Rightarrow> TransferClient \<Rightarrow> Result \<times> TransferClient" where
  "AbortPullTransfer W C =
    (if tc_state C = TransferInProgress \<and> tc_type C = TransferType_Pull then
       (let container = new_container (TransferStatus Aborted);
            (sent, C1) = SendTransferPayload container (communicationTimeoutInMs W) (retryTimeoutInMs W) C
        in if sent = Success then
             (let (transferResult, _, C2) = discard_until_sentinel W container C1
              in if transferResult = Success then (Success, C2\<lparr>tc_state := TransferIdle\<rparr>)
                 else (Error, C2\<lparr>tc_state := TransferError\<rparr>))
           else (Error, C1\<lparr>tc_state := TransferError\<rparr>))
     else (Error, C\<lparr>tc_state := TransferError\<rparr>))"

subsection \<open>Pushing\<close>

definition RequestPushTransfer :: "Timeouts \<Rightarrow> BlockId \<Rightarrow> u64 \<Rightarrow> TransferClient \<Rightarrow> Result \<times> TransferClient" where
  "RequestPushTransfer W blockId transferSizeInBytes C =
    (if tc_state C = TransferIdle \<and> GetSessionVersion (tc_client C) \<ge> TRANSFER_REFACTOR_VERSION
        \<and> blockId \<noteq> kInvalidBlockId \<and> transferSizeInBytes \<noteq> 0 then
       (let (transactResult, container, C1) =
          TransactTransferPayload (new_container (TransferRequest blockId TransferType_Push (ucast transferSizeInBytes)))
            (communicationTimeoutInMs W) (retryTimeoutInMs W) C
        in if transactResult = Success \<and> command container = TransferMessage_TransferStatus \<and> field_result container = Success
           then (Success, begin_transfer (ucast transferSizeInBytes) (C1\<lparr>tc_type := TransferType_Push\<rparr>))
           else (Error, C1))
     else (Error, C))"

definition replies :: "TransferClient \<Rightarrow> Result list" where
  "replies C = (case lc_pSession (tc_client C) of None \<Rightarrow> [] | Some s \<Rightarrow> is_sendReplies s)"

lemma send_loop_replies:
  "send_loop n bytes timeout retry elapsed s = (r, s') \<Longrightarrow>
     length (is_sendReplies s') \<le> length (is_sendReplies s) \<and> (r = NotReady \<longrightarrow> length (is_sendReplies s') < length (is_sendReplies s))"
proof (induction n bytes timeout retry elapsed s rule: send_loop.induct)
  case (1 n bytes timeout retry elapsed s)
  obtain r1 s1 where p: "ISession_Send n bytes s = (r1, s1)" by fastforce
  have less: "length (is_sendReplies s1) \<le> length (is_sendReplies s)"
    "r1 = NotReady \<Longrightarrow> length (is_sendReplies s1) < length (is_sendReplies s)"
    using p by (auto simp: ISession_Send_def Let_def split: list.splits if_splits)
  have un: "send_loop n bytes timeout retry elapsed s =
    (if r1 = NotReady \<and> elapsed + retry \<le> timeout then send_loop n bytes timeout retry (elapsed + retry) s1 else (r1, s1))"
    by (subst send_loop.simps) (simp add: p Let_def)
  show ?case
  proof (cases "r1 = NotReady \<and> elapsed + retry \<le> timeout")
    case True
    with "1.IH" [OF refl p [symmetric] refl True] "1.prems" un less show ?thesis by auto
  next
    case False
    with "1.prems" un less show ?thesis by auto
  qed
qed

lemma SendTransferPayload_replies:
  "SendTransferPayload container timeout retry C = (r, C') \<Longrightarrow>
     length (replies C') \<le> length (replies C) \<and> (r = NotReady \<longrightarrow> length (replies C') < length (replies C))"
  by (auto simp: SendTransferPayload_def SendSizedPayload_def replies_def Let_def split: prod.splits option.splits
      dest: send_loop_replies)

text \<open>
  The bytes from the source pointer on are the rest of the buffer.  The checksum is updated before every
  attempt to send, and the count of the bytes to transfer is not changed.
\<close>

function write_loop :: "Timeouts \<Rightarrow> u8 list \<Rightarrow> Result \<Rightarrow> TransferClient \<Rightarrow> Result \<times> u8 list \<times> TransferClient" where
  "write_loop W pSrcBuffer result C =
    (if tc_totalBytes C > 0 \<and> pSrcBuffer \<noteq> [] then
       (let maxBytesInChunk = min kMaxTransferDataChunkSize (unat (tc_totalBytes C));
            bytesToSend = min maxBytesInChunk (length pSrcBuffer);
            C1 = C\<lparr>tc_crc32 := CRC32 (take bytesToSend pSrcBuffer) (tc_crc32 C),
                   tc_scratchPayload := WritePayload pSrcBuffer (word_of_nat bytesToSend) (tc_scratchPayload C)\<rparr>
        in case SendTransferPayload (tc_scratchPayload C1) (communicationTimeoutInMs W) (retryTimeoutInMs W) C1 of
             (result1, C2) \<Rightarrow>
               if result1 = Success then write_loop W (drop bytesToSend pSrcBuffer) result1 C2
               else if result1 = NotReady then write_loop W pSrcBuffer result1 C2
               else (result1, pSrcBuffer, C2))
     else (result, pSrcBuffer, C))"
  by pat_completeness auto
termination
proof (relation "measure (\<lambda>(W, pSrcBuffer, result, C). length (replies C) + length pSrcBuffer)", goal_cases)
  case (2 W pSrcBuffer result C k n C1 r C2)
  have "0 < unat (tc_totalBytes C)" using 2(1) by (simp add: word_less_nat_alt)
  then have "0 < n" using 2(1-3) by (simp add: kMaxTransferDataChunkSize_def msg_size_defs)
  moreover have "length (replies C2) \<le> length (replies C)"
    using SendTransferPayload_replies [OF 2(5) [symmetric]] 2(4) by (simp add: replies_def)
  moreover have "0 < length pSrcBuffer" using 2(1) by simp
  ultimately have "length (replies C2) + (length pSrcBuffer - n) < length (replies C) + length pSrcBuffer" by linarith
  then show ?case by simp
next
  case (3 W pSrcBuffer result C k n C1 r C2)
  have "length (replies C2) < length (replies C)"
    using SendTransferPayload_replies [OF 3(5) [symmetric]] 3(4,7) by (simp add: replies_def)
  then show ?case by simp
qed simp

declare write_loop.simps [simp del]

definition WritePushTransferData :: "Timeouts \<Rightarrow> u8 list \<Rightarrow> TransferClient \<Rightarrow> Result \<times> TransferClient" where
  "WritePushTransferData W pSrcBuffer C =
    (if tc_state C = TransferInProgress \<and> tc_type C = TransferType_Push then
       (let (result, rest, C1) = write_loop W pSrcBuffer Error C
        in (if tc_totalBytes C1 = 0 \<and> rest \<noteq> [] then EndOfStream else result, C1))
     else (Error, C))"

definition ClosePushTransfer :: "Timeouts \<Rightarrow> bool \<Rightarrow> TransferClient \<Rightarrow> Result \<times> TransferClient" where
  "ClosePushTransfer W discard C =
    (let (result, C1) =
       (if tc_state C = TransferInProgress \<and> tc_type C = TransferType_Push then
          (let (r, container, C1) =
             TransactTransferPayload (new_container (TransferDataSentinel (if discard then Aborted else Success) (tc_crc32 C)))
               (communicationTimeoutInMs W) (retryTimeoutInMs W) C
           in if r = Success \<and> command container = TransferMessage_TransferStatus
              then (field_result container, C1\<lparr>tc_state := TransferIdle\<rparr>) else (Error, C1))
        else (Error, C))
     in (result, if result \<noteq> Success \<and> result \<noteq> Aborted then C1\<lparr>tc_state := TransferError\<rparr> else C1))"

end
