(* ===== verification/Transfer_Blocks.thy ===== *)
theory Transfer_Blocks
  imports Transfer_Client
begin

text \<open>
  The remote blocks of \<^verbatim>\<open>shared/legacy/src/ddTransferManager.cpp\<close>: a block that is pulled from a client of
  the bus, and one that is pushed to it.  Both are a transfer client with the block's id and size.
\<close>

record RemoteBlock =
  rb_blockId :: BlockId
  rb_blockDataSize :: u64
  m_transferClient :: TransferClient

definition new_RemoteBlock :: "BlockId \<Rightarrow> RemoteBlock" where
  "new_RemoteBlock blockId = \<lparr>rb_blockId = blockId, rb_blockDataSize = 0, m_transferClient = new_TransferClient\<rparr>"

text \<open>
  \<open>memory\<close> is whether the block can be allocated; \<open>established\<close>, \<open>waited\<close> and \<open>pSession\<close> are what the message
  channel answers to the connection.  A block that fails is deleted, and its session is dropped with it.
\<close>

definition OpenPullBlock ::
  "Timeouts \<Rightarrow> bool \<Rightarrow> Result \<Rightarrow> Result \<Rightarrow> ISession \<Rightarrow> BlockId \<Rightarrow> RemoteBlock option" where
  "OpenPullBlock W memory established waited pSession blockId =
    (if memory then
       (let pBlock = new_RemoteBlock blockId;
            (result, C) = TransferClient_Connect established waited pSession (m_transferClient pBlock)
        in if result = Success then
             (let (result1, size, C1) = RequestPullTransfer W blockId True C
              in if result1 = Success
                 then Some (pBlock\<lparr>m_transferClient := C1,
                              rb_blockDataSize := (case size of None \<Rightarrow> rb_blockDataSize pBlock | Some n \<Rightarrow> n)\<rparr>)
                 else None)
           else None)
     else None)"

definition OpenPushBlock ::
  "Timeouts \<Rightarrow> bool \<Rightarrow> Result \<Rightarrow> Result \<Rightarrow> ISession \<Rightarrow> BlockId \<Rightarrow> u64 \<Rightarrow> RemoteBlock option" where
  "OpenPushBlock W memory established waited pSession blockId blockSize =
    (if memory then
       (let pBlock = new_RemoteBlock blockId;
            (result, C) = TransferClient_Connect established waited pSession (m_transferClient pBlock)
        in if result = Success then
             (let (result1, C1) = RequestPushTransfer W blockId blockSize C
              in if result1 = Success then Some (pBlock\<lparr>m_transferClient := C1\<rparr>) else None)
           else None)
     else None)"

text \<open>Closing a block gives the client it leaves, which is then deleted.\<close>

definition ClosePullBlock :: "Timeouts \<Rightarrow> RemoteBlock \<Rightarrow> TransferClient" where
  "ClosePullBlock W pBlock =
    (let C = m_transferClient pBlock
     in TransferClient_Disconnect (if IsTransferInProgress C then snd (AbortPullTransfer W C) else C))"

definition ClosePushBlock :: "Timeouts \<Rightarrow> RemoteBlock \<Rightarrow> TransferClient" where
  "ClosePushBlock W pBlock =
    (let C = m_transferClient pBlock
     in TransferClient_Disconnect (if IsTransferInProgress C then snd (ClosePushTransfer W True C) else C))"

definition PullBlock_Read :: "Timeouts \<Rightarrow> u64 \<Rightarrow> RemoteBlock \<Rightarrow> (Result \<times> u8 list \<times> RemoteBlock) option" where
  "PullBlock_Read W bufferSize pBlock =
    map_option (\<lambda>(result, bytes, C). (result, bytes, pBlock\<lparr>m_transferClient := C\<rparr>))
      (ReadPullTransferData W bufferSize (m_transferClient pBlock))"

definition PushBlock_Write :: "Timeouts \<Rightarrow> u8 list \<Rightarrow> RemoteBlock \<Rightarrow> Result \<times> RemoteBlock" where
  "PushBlock_Write W pSrcBuffer pBlock =
    (let (result, C) = WritePushTransferData W pSrcBuffer (m_transferClient pBlock) in (result, pBlock\<lparr>m_transferClient := C\<rparr>))"

definition PushBlock_Finalize :: "Timeouts \<Rightarrow> RemoteBlock \<Rightarrow> Result \<times> RemoteBlock" where
  "PushBlock_Finalize W pBlock =
    (let (result, C) = ClosePushTransfer W False (m_transferClient pBlock) in (result, pBlock\<lparr>m_transferClient := C\<rparr>))"

definition PushBlock_Discard :: "Timeouts \<Rightarrow> RemoteBlock \<Rightarrow> Result \<times> RemoteBlock" where
  "PushBlock_Discard W pBlock =
    (let (result, C) = ClosePushTransfer W True (m_transferClient pBlock) in (result, pBlock\<lparr>m_transferClient := C\<rparr>))"

end
