(* ===== verification/Transfer_Inv.thy ===== *)
theory Transfer_Inv
  imports Transfer_Server Transfer_Blocks
begin

text \<open>
  What the messages of the transfer protocol hold, what a block holds after a write, and the count of
  the transfers in progress on a block.
\<close>

subsection \<open>Messages\<close>

lemma field32_CreatePayload:
  "off + 4 \<le> length object \<Longrightarrow> field32 off (CreatePayload object c) = get_word off 4 object"
  by (simp add: field32_def CreatePayload_def memcpy_def get_word_def)

lemma length_messages [simp]:
  "length (TransferRequest blockId type n) = 16" "length (TransferDataHeader r n) = 12"
  "length (TransferDataHeaderV2 n) = 8" "length (TransferDataSentinel r n) = 12" "length (TransferStatus r) = 8"
  by (simp_all add: TransferRequest_def TransferDataHeader_def TransferDataHeaderV2_def TransferDataSentinel_def TransferStatus_def)

lemma request_fields [simp]:
  "command (CreatePayload (TransferRequest blockId type n) c) = TransferMessage_TransferRequest"
  "field32 4 (CreatePayload (TransferRequest blockId type n) c) = blockId"
  "field32 8 (CreatePayload (TransferRequest blockId type n) c) = type"
  "field32 12 (CreatePayload (TransferRequest blockId type n) c) = n"
  by (simp_all add: field32_CreatePayload) (simp_all add: TransferRequest_def field_simps_word)

lemma header_fields [simp]:
  "command (CreatePayload (TransferDataHeaderV2 n) c) = TransferMessage_TransferDataHeader"
  "field32 4 (CreatePayload (TransferDataHeaderV2 n) c) = n"
  by (simp_all add: field32_CreatePayload) (simp_all add: TransferDataHeaderV2_def field_simps_word)

lemma sentinel_fields [simp]:
  "command (CreatePayload (TransferDataSentinel r n) c) = TransferMessage_TransferDataSentinel"
  "field32 4 (CreatePayload (TransferDataSentinel r n) c) = code_of_result r"
  "field32 8 (CreatePayload (TransferDataSentinel r n) c) = n"
  by (simp_all add: field32_CreatePayload del: code_of_result.simps)
    (simp_all add: TransferDataSentinel_def field_simps_word del: code_of_result.simps)

lemma status_fields [simp]:
  "command (CreatePayload (TransferStatus r) c) = TransferMessage_TransferStatus"
  "field32 4 (CreatePayload (TransferStatus r) c) = code_of_result r"
  by (simp_all add: field32_CreatePayload del: code_of_result.simps)
    (simp_all add: TransferStatus_def field_simps_word del: code_of_result.simps)

text \<open>The bytes of a message that are sent, and of a chunk of data.\<close>

definition message_bytes :: "SizedPayloadContainer \<Rightarrow> u8 list" where
  "message_bytes c = take (unat (pc_payloadSize c)) (pc_payload c)"

definition chunk_message :: "u8 list \<Rightarrow> u8 list" where
  "chunk_message d = put_word 4 TransferMessage_TransferDataChunk @ d"

lemma message_bytes_CreatePayload [simp]:
  "length object < 2 ^ 32 \<Longrightarrow> message_bytes (CreatePayload object c) = object"
  by (simp add: message_bytes_def CreatePayload_def memcpy_def unat_of_nat)

lemma message_bytes_WritePayload:
  assumes "unat n \<le> length p" and "unat n \<le> kMaxTransferDataChunkSize"
  shows "message_bytes (WritePayload p n c) = chunk_message (take (unat n) p)"
proof -
  have k: "kMaxTransferDataChunkSize + 4 < 2 ^ 32" by (simp add: kMaxTransferDataChunkSize_def msg_size_defs)
  have "unat (n + 4) = unat n + 4" using assms(2) k by (simp add: unat_word_ariths)
  then have "unat (ucast (n + 4) :: u32) = unat n + 4" using assms(2) k by (simp add: unsigned_ucast_eq take_bit_nat_eq_self)
  with assms show ?thesis
    by (simp add: message_bytes_def WritePayload_def chunk_message_def chunk_offset_def memcpy_def)
qed

lemma chunk_fields [simp]:
  "command (CreatePayload (chunk_message d) c) = TransferMessage_TransferDataChunk"
  "chunk_data (CreatePayload (chunk_message d) c) = d @ drop (length d + 4) (pc_payload c)"
  by (simp_all add: field32_def chunk_message_def field_simps_word chunk_data_def chunk_offset_def CreatePayload_def
      memcpy_def add.commute)

lemma CreatePayload_size [simp]: "pc_payloadSize (CreatePayload object c) = word_of_nat (length object)"
  by (simp add: CreatePayload_def)

subsection \<open>Blocks\<close>

definition holds :: "ServerBlock \<Rightarrow> u8 list \<Rightarrow> bool" where
  "holds b d \<longleftrightarrow> unat (m_blockDataSize b) = length d \<and> length d \<le> length (m_chunks b) \<and> take (length d) (m_chunks b) = d
     \<and> m_blockCrc32 b = CRC32 d 0 \<and> length (m_chunks b) < 2 ^ 64 \<and> kTransferChunkSizeInBytes dvd length (m_chunks b)"

lemma holds_new: "holds (new_ServerBlock blockId) []"
  by (simp add: holds_def new_ServerBlock_def)

lemma holds_Reset: "holds b d \<Longrightarrow> holds (ServerBlock_Reset b) []"
  by (simp add: holds_def ServerBlock_Reset_def)

lemma holds_transfer [simp]:
  "holds (BeginTransfer b) d = holds b d" "holds (EndTransfer b) d = holds b d" "holds (ServerBlock_Close b) d = holds b d"
  by (simp_all add: holds_def BeginTransfer_def EndTransfer_def ServerBlock_Close_def Let_def)

lemma Pow2Align_chunks:
  fixes v :: u64
  assumes "unat v + 4095 < 2 ^ 64"
  shows "unat (Pow2Align v (word_of_nat kTransferChunkSizeInBytes) div word_of_nat kTransferChunkSizeInBytes) = (unat v + 4095) div 4096"
proof -
  have m: "(4095 :: u64) = mask 12" by (simp add: mask_eq_exp_minus_1)
  have d: "x div 4096 = drop_bit 12 x" for x :: u64 by (simp add: drop_bit_eq_div)
  have low: "drop_bit 12 (x AND NOT (mask 12)) = drop_bit 12 x" for x :: u64
  proof (rule bit_word_eqI)
    fix n
    show "bit (drop_bit 12 (x AND NOT (mask 12))) n = bit (drop_bit 12 x) n"
      using bit_imp_le_length [of x "12 + n"] by (auto simp: bit_simps)
  qed
  have "Pow2Align v 4096 div 4096 = (v + 4095) div 4096"
    unfolding Pow2Align_def d by (simp add: m low del: drop_bit_and)
  moreover have "unat ((v + 4095) div 4096) = unat (v + 4095) div 4096" by (simp add: unat_div)
  moreover have "unat (v + 4095) = unat v + 4095" using assms by (simp add: unat_word_ariths)
  ultimately show ?thesis by (simp add: kTransferChunkSizeInBytes_def)
qed


definition room_for :: "TransferParams \<Rightarrow> nat \<Rightarrow> bool" where
  "room_for T n \<longleftrightarrow> n + 8192 < 2 ^ 64 \<and> (\<forall>k \<le> n div 4096 + 1. chunkMemory T k)"

lemma ServerBlock_Write_holds:
  assumes "holds b d" and "unat n \<le> length p" and "room_for T (length d + unat n)"
  shows "\<exists>b'. ServerBlock_Write T p n b = Some b' \<and> holds b' (d @ take (unat n) p)
    \<and> m_blockId b' = m_blockId b \<and> m_isClosed b' = m_isClosed b \<and> m_numPendingTransfers b' = m_numPendingTransfers b
    \<and> m_transfersCompletedEvent b' = m_transfersCompletedEvent b"
proof (cases "n = 0")
  case True
  then show ?thesis using assms(1) by (simp add: ServerBlock_Write_def)
next
  case False
  define len where "len = length (m_chunks b)"
  define avail where "avail = (word_of_nat len :: u64) - m_blockDataSize b"
  define k where "k = unat (Pow2Align (n - avail) (word_of_nat kTransferChunkSizeInBytes) div word_of_nat kTransferChunkSizeInBytes)"
  define chunks where "chunks = (if avail < n then m_chunks b @ replicate (kTransferChunkSizeInBytes * k) 0 else m_chunks b)"
  have h: "unat (m_blockDataSize b) = length d" "length d \<le> len" "take (length d) (m_chunks b) = d"
      "m_blockCrc32 b = CRC32 d 0" "len < 2 ^ 64" "4096 dvd len"
    using assms(1) by (simp_all add: holds_def len_def kTransferChunkSizeInBytes_def)
  have r: "length d + unat n + 8192 < 2 ^ 64" "\<And>j. j \<le> (length d + unat n) div 4096 + 1 \<Longrightarrow> chunkMemory T j"
    using assms(3) by (simp_all add: room_for_def)
  have ul: "unat (word_of_nat len :: u64) = len" using h(5) by (simp add: unat_of_nat)
  have avail: "unat avail = len - length d" unfolding avail_def using h ul by (simp add: unat_sub word_le_nat_alt)
  have grow: "length d + unat n \<le> len + 4096 * k \<and> len + 4096 * k < 2 ^ 64 \<and> len div 4096 + k \<le> (length d + unat n) div 4096 + 1"
    if "avail < n"
  proof -
    have "unat (n - avail) = unat n - (len - length d)" using that avail by (simp add: unat_sub word_less_nat_alt less_imp_le)
    then have k: "k = (unat n - (len - length d) + 4095) div 4096"
      unfolding k_def using r(1) by (subst Pow2Align_chunks) simp_all
    obtain q where q: "len = 4096 * q" using h(6) by (elim dvdE)
    have "len - length d < unat n" using that avail by (simp add: word_less_nat_alt)
    then show ?thesis unfolding k q using r(1) h(2) q by simp linarith
  qed
  have len': "length d + unat n \<le> length chunks" "length chunks < 2 ^ 64" "kTransferChunkSizeInBytes dvd length chunks"
    using grow h avail by (auto simp: chunks_def len_def [symmetric] kTransferChunkSizeInBytes_def word_less_nat_alt not_less)
  have d: "take (length d) chunks = d" using h(2,3) by (simp add: chunks_def len_def)
  have mem: "avail < n \<Longrightarrow> chunkMemory T (len div kTransferChunkSizeInBytes + k)"
    using grow r(2) by (simp add: kTransferChunkSizeInBytes_def)
  have "unat (m_blockDataSize b + n) = length d + unat n" using h(1) r(1) by (simp add: unat_word_ariths)
  moreover have "ServerBlock_Write T p n b = Some (b\<lparr>m_chunks := d @ take (unat n) p @ drop (length d + unat n) chunks,
      m_blockCrc32 := CRC32 (take (unat n) p) (m_blockCrc32 b), m_blockDataSize := m_blockDataSize b + n\<rparr>)"
    unfolding ServerBlock_Write_def Let_def len_def [symmetric] avail_def [symmetric] k_def [symmetric] chunks_def [symmetric] h(1)
    using False assms(2) mem len'(1) by (simp add: d word_neq_0_conv)
  ultimately show ?thesis using h(4) assms(2) len' by (simp add: holds_def CRC32_append)
qed

end
