(* ===== verification/Transfer_Pull.thy ===== *)
theory Transfer_Pull
  imports Transfer_Inv
begin

text \<open>
  Pulling a block: the messages the server sends for a block, whatever its session answers to each
  attempt to send, and what the client reads from them.
\<close>

subsection \<open>What is sent for a block\<close>

fun pieces :: "nat \<Rightarrow> 'a list \<Rightarrow> 'a list list" where
  "pieces n [] = []"
| "pieces n (x # xs) = take (Suc n) (x # xs) # pieces n (drop n xs)"

lemma pieces_step: "xs \<noteq> [] \<Longrightarrow> pieces n xs = take (Suc n) xs # pieces n (drop (Suc n) xs)"
  by (cases xs) simp_all

lemma concat_pieces [simp]: "concat (pieces n xs) = xs"
  by (induction n xs rule: pieces.induct) simp_all

lemma pieces_eq_Nil [simp]: "pieces n xs = [] \<longleftrightarrow> xs = []"
  by (cases xs) simp_all

lemma pieces_bound: "piece \<in> set (pieces n xs) \<Longrightarrow> piece \<noteq> [] \<and> length piece \<le> Suc n"
  by (induction n xs rule: pieces.induct) auto

abbreviation data_pieces :: "u8 list \<Rightarrow> u8 list list" where
  "data_pieces \<equiv> pieces (kMaxTransferDataChunkSize - 1)"

definition data_messages :: "u8 list \<Rightarrow> u8 list list" where
  "data_messages d = map chunk_message (data_pieces d)"

definition pull_messages :: "u8 list \<Rightarrow> u8 list list" where
  "pull_messages d =
    TransferDataHeaderV2 (word_of_nat (length d)) # data_messages d @ [TransferDataSentinel Success (CRC32 d 0)]"

lemma chunk_size: "Suc (kMaxTransferDataChunkSize - 1) = kMaxTransferDataChunkSize" "0 < kMaxTransferDataChunkSize"
    "kMaxTransferDataChunkSize < 2000"
  by (simp_all add: kMaxTransferDataChunkSize_def msg_size_defs)

lemma data_messages_Nil [simp]: "data_messages [] = []"
  by (simp add: data_messages_def)

lemma data_messages_step:
  "d \<noteq> [] \<Longrightarrow> data_messages d =
     chunk_message (take kMaxTransferDataChunkSize d) # data_messages (drop kMaxTransferDataChunkSize d)"
  by (simp only: data_messages_def pieces_step chunk_size(1) list.map not_False_eq_True)

subsection \<open>The server\<close>

definition same_session :: "ISession \<Rightarrow> ISession \<Rightarrow> bool" where
  "same_session s s' \<longleftrightarrow> is_version s' = is_version s \<and> is_incoming s' = is_incoming s \<and> is_closed s' = is_closed s"

lemma same_session_trans: "same_session a b \<Longrightarrow> same_session b c \<Longrightarrow> same_session a c"
  and same_session_refl [simp]: "same_session a a"
  by (simp_all add: same_session_def)

lemma SendPayload_sends:
  assumes "TransferSession_SendPayload S = (r, S')" and "is_version (m_pSession S) \<ge> TRANSFER_REFACTOR_VERSION"
  shows "\<exists>s. S' = S\<lparr>m_pSession := s\<rparr> \<and> same_session (m_pSession S) s \<and>
    (if r = Success then is_outgoing s = is_outgoing (m_pSession S) @ [message_bytes (m_scratchPayload S)]
        \<and> length (is_sendReplies s) \<le> length (is_sendReplies (m_pSession S))
     else is_outgoing s = is_outgoing (m_pSession S) \<and> length (is_sendReplies s) < length (is_sendReplies (m_pSession S)))"
  using assms
  by (auto simp: TransferSession_SendPayload_def ISession_Send_def Let_def message_bytes_def same_session_def
      split: list.splits prod.splits if_splits)

text \<open>A transfer of the block at \<open>p\<close>, which holds \<open>d\<close>, in progress.\<close>

definition pulling :: "nat \<Rightarrow> u8 list \<Rightarrow> TransferSession \<Rightarrow> bool" where
  "pulling p d S \<longleftrightarrow> m_pBlock S = Some p \<and> (\<exists>b. server_blocks (m_pTransferManager S) p = Some b \<and> holds b d)
     \<and> unat (m_totalBytes S) = length d \<and> unat (m_bytesTransferred S) \<le> length d \<and> m_crc32 S = CRC32 d 0
     \<and> is_version (m_pSession S) \<ge> TRANSFER_REFACTOR_VERSION"

definition chunks_left :: "u8 list \<Rightarrow> TransferSession \<Rightarrow> u8 list list" where
  "chunks_left d S = data_messages (drop (unat (m_bytesTransferred S)) d)"

definition out :: "TransferSession \<Rightarrow> u8 list list" where
  "out S = is_outgoing (m_pSession S)"

definition send_replies :: "TransferSession \<Rightarrow> Result list" where
  "send_replies S = is_sendReplies (m_pSession S)"

lemma send_chunk_sends:
  assumes pull: "pulling p d S" and less: "m_bytesTransferred S < m_totalBytes S"
  shows "\<exists>r c k s. send_chunk S = Some (r, S\<lparr>m_scratchPayload := c, m_bytesTransferred := k, m_pSession := s\<rparr>)
    \<and> unat k \<le> length d \<and> same_session (m_pSession S) s
    \<and> is_outgoing s @ data_messages (drop (unat k) d) = out S @ chunks_left d S
    \<and> length (is_sendReplies s) \<le> length (send_replies S) \<and> (r \<noteq> Success \<longrightarrow> length (is_sendReplies s) < length (send_replies S))"
proof -
  obtain b where p: "m_pBlock S = Some p" and b: "server_blocks (m_pTransferManager S) p = Some b" and h: "holds b d"
    and sizes: "unat (m_totalBytes S) = length d" "is_version (m_pSession S) \<ge> TRANSFER_REFACTOR_VERSION"
    using pull by (auto simp: pulling_def)
  define j where "j = unat (m_bytesTransferred S)"
  define n where "n = min (word_of_nat kMaxTransferDataChunkSize) (m_totalBytes S - m_bytesTransferred S)"
  have j: "j < length d" using less sizes(1) by (simp add: j_def word_less_nat_alt)
  have d: "length d < 2 ^ 64" "take (length d) (m_chunks b) = d" "length d \<le> length (m_chunks b)" "m_blockDataSize b > 0"
    using h j by (auto simp: holds_def word_less_nat_alt)
  have n: "unat n = min kMaxTransferDataChunkSize (length d - j)"
    unfolding n_def using less sizes(1) chunk_size(3)
    by (simp add: j_def min_def word_le_nat_alt unat_sub word_less_nat_alt less_imp_le unat_of_nat)
  have piece: "take (unat n) (drop j (m_chunks b)) = take kMaxTransferDataChunkSize (drop j d)"
  proof -
    have "take (unat n) (drop j (m_chunks b)) = take (unat n) (drop j (take (length d) (m_chunks b)))"
      using n j by (simp add: drop_take min_def)
    then show ?thesis using d(2) n by (simp add: min_def)
  qed
  define S1 where "S1 = S\<lparr>m_scratchPayload := WritePayload (drop j (m_chunks b)) n (m_scratchPayload S)\<rparr>"
  have bytes: "message_bytes (m_scratchPayload S1) = chunk_message (take kMaxTransferDataChunkSize (drop j d))"
    using n d(3) piece [unfolded n] by (simp add: S1_def message_bytes_WritePayload)
  obtain r S2 where send: "TransferSession_SendPayload S1 = (r, S2)" by fastforce
  obtain s where s: "S2 = S1\<lparr>m_pSession := s\<rparr>" "same_session (m_pSession S) s"
    "if r = Success then is_outgoing s = out S @ [chunk_message (take kMaxTransferDataChunkSize (drop j d))]
        \<and> length (is_sendReplies s) \<le> length (send_replies S)
     else is_outgoing s = out S \<and> length (is_sendReplies s) < length (send_replies S)"
    using SendPayload_sends [OF send] sizes(2) bytes by (auto simp: S1_def out_def send_replies_def split: if_splits)
  have eq: "send_chunk S = Some (r, if r = Success then S2\<lparr>m_bytesTransferred := m_bytesTransferred S2 + n\<rparr> else S2)"
    using p b d(3,4) n j send
    by (simp add: send_chunk_def the_block_def GetBlockData_def Let_def n_def [symmetric] j_def [symmetric] S1_def [symmetric])
  show ?thesis
  proof (cases "r = Success")
    case True
    have k: "unat (m_bytesTransferred S + n) = j + unat n"
      using n j d(1) by (simp add: j_def [symmetric] unat_word_ariths)
    have "data_messages (drop j d) = chunk_message (take kMaxTransferDataChunkSize (drop j d)) # data_messages (drop (j + unat n) d)"
      using j n by (subst data_messages_step) (simp_all add: min_def add.commute)
    then show ?thesis using True eq s k n j
      by (intro exI [of _ r] exI [of _ "m_scratchPayload S1"] exI [of _ "m_bytesTransferred S + n"] exI [of _ s])
        (simp add: S1_def chunks_left_def j_def [symmetric])
  next
    case False
    then show ?thesis using eq s j
      by (intro exI [of _ r] exI [of _ "m_scratchPayload S1"] exI [of _ "m_bytesTransferred S"] exI [of _ s])
        (simp add: S1_def chunks_left_def j_def [symmetric])
  qed
qed

lemma pull_loop_sends:
  "pulling p d S \<Longrightarrow> \<exists>c k s. pull_loop S = Some (S\<lparr>m_scratchPayload := c, m_bytesTransferred := k, m_pSession := s\<rparr>)
    \<and> unat k \<le> length d \<and> same_session (m_pSession S) s
    \<and> is_outgoing s @ data_messages (drop (unat k) d) = out S @ chunks_left d S
    \<and> length (is_sendReplies s) \<le> length (send_replies S)
    \<and> (unat k \<noteq> length d \<longrightarrow> length (is_sendReplies s) < length (send_replies S))"
proof (induction S rule: pull_loop.induct)
  case (1 S)
  have total: "unat (m_totalBytes S) = length d" "unat (m_bytesTransferred S) \<le> length d"
    using "1.prems" by (simp_all add: pulling_def)
  show ?case
  proof (cases "m_bytesTransferred S < m_totalBytes S")
    case False
    then have "unat (m_bytesTransferred S) = length d" using total by (simp add: word_less_nat_alt)
    then show ?thesis using False total
      by (intro exI [of _ "m_scratchPayload S"] exI [of _ "m_bytesTransferred S"] exI [of _ "m_pSession S"])
        (simp add: pull_loop.simps [of S] out_def chunks_left_def send_replies_def)
  next
    case True
    obtain r c k s where chunk: "send_chunk S = Some (r, S\<lparr>m_scratchPayload := c, m_bytesTransferred := k, m_pSession := s\<rparr>)"
      and sent: "unat k \<le> length d" "same_session (m_pSession S) s"
        "is_outgoing s @ data_messages (drop (unat k) d) = out S @ chunks_left d S"
        "length (is_sendReplies s) \<le> length (send_replies S)"
        "r \<noteq> Success \<longrightarrow> length (is_sendReplies s) < length (send_replies S)"
      using send_chunk_sends [OF "1.prems" True] by blast
    define S1 where "S1 = S\<lparr>m_scratchPayload := c, m_bytesTransferred := k, m_pSession := s\<rparr>"
    have un: "pull_loop S = (if r = Success then pull_loop S1 else Some S1)"
      by (subst pull_loop.simps) (simp add: True chunk S1_def)
    show ?thesis
    proof (cases "r = Success")
      case False
      then show ?thesis using un sent
        by (intro exI [of _ c] exI [of _ k] exI [of _ s]) (simp add: S1_def)
    next
      case ok: True
      have "pulling p d S1" using "1.prems" sent(1,2) by (auto simp: S1_def pulling_def same_session_def)
      then obtain c' k' s' where
        "pull_loop S1 = Some (S1\<lparr>m_scratchPayload := c', m_bytesTransferred := k', m_pSession := s'\<rparr>)"
        "unat k' \<le> length d" "same_session s s'"
        "is_outgoing s' @ data_messages (drop (unat k') d) = out S1 @ chunks_left d S1"
        "length (is_sendReplies s') \<le> length (is_sendReplies s)"
        "unat k' \<noteq> length d \<longrightarrow> length (is_sendReplies s') < length (is_sendReplies s)"
        using "1.IH" [OF True chunk refl ok] by (auto simp: S1_def send_replies_def)
      then show ?thesis using un ok sent
        by (intro exI [of _ c'] exI [of _ k'] exI [of _ s'])
          (auto simp: S1_def out_def chunks_left_def intro: same_session_trans)
    qed
  qed
qed

lemma send_and_idle_sends:
  assumes "is_version (m_pSession S) \<ge> TRANSFER_REFACTOR_VERSION" and "length object < 2 ^ 32"
  shows "\<exists>s st. send_and_idle object S = (scratch object S)\<lparr>m_state := st, m_pSession := s\<rparr> \<and> same_session (m_pSession S) s
    \<and> (st = Idle \<and> is_outgoing s = out S @ [object] \<and> length (is_sendReplies s) \<le> length (send_replies S)
       \<or> st = SendPayload \<and> is_outgoing s = out S \<and> length (is_sendReplies s) < length (send_replies S))"
proof -
  define S1 where "S1 = (scratch object S)\<lparr>m_state := SendPayload\<rparr>"
  obtain r S2 where send: "TransferSession_SendPayload S1 = (r, S2)" by fastforce
  have "is_version (m_pSession S1) \<ge> TRANSFER_REFACTOR_VERSION" using assms(1) by (simp add: S1_def scratch_def)
  from SendPayload_sends [OF send this] assms(2) obtain s where "S2 = S1\<lparr>m_pSession := s\<rparr>" "same_session (m_pSession S) s"
    "if r = Success then is_outgoing s = out S @ [object] \<and> length (is_sendReplies s) \<le> length (send_replies S)
     else is_outgoing s = out S \<and> length (is_sendReplies s) < length (send_replies S)"
    by (auto simp: S1_def scratch_def out_def send_replies_def split: if_splits)
  moreover have "send_and_idle object S = (if r = Success then S2\<lparr>m_state := Idle\<rparr> else S2)"
    unfolding send_and_idle_def S1_def [symmetric] SendScratchPayloadAndMoveToIdle_def send by simp
  ultimately show ?thesis
    by (intro exI [of _ s] exI [of _ "if r = Success then Idle else SendPayload"]) (auto simp: S1_def split: if_splits)
qed

text \<open>What is left to send, and the states of a pull of the block \<open>p\<close> of the manager \<open>M\<close>.\<close>

definition to_send :: "u8 list \<Rightarrow> TransferSession \<Rightarrow> u8 list list" where
  "to_send d S =
    (case m_state S of
       StartPullTransfer \<Rightarrow> message_bytes (m_scratchPayload S) # chunks_left d S @ [TransferDataSentinel Success (CRC32 d 0)]
     | ProcessPullTransfer \<Rightarrow> chunks_left d S @ [TransferDataSentinel Success (CRC32 d 0)]
     | SendPayload \<Rightarrow> [message_bytes (m_scratchPayload S)]
     | _ \<Rightarrow> [])"

definition pull_inv :: "TransferManager \<Rightarrow> nat \<Rightarrow> u8 list \<Rightarrow> TransferSession \<Rightarrow> bool" where
  "pull_inv M p d S \<longleftrightarrow> is_incoming (m_pSession S) = [] \<and> is_version (m_pSession S) \<ge> TRANSFER_REFACTOR_VERSION \<and>
    (m_state S \<in> {StartPullTransfer, ProcessPullTransfer} \<and> pulling p d S \<and> m_pTransferManager S = update_block p BeginTransfer M
     \<or> m_state S \<in> {SendPayload, Idle} \<and> m_pBlock S = None
       \<and> m_pTransferManager S = update_block p EndTransfer (update_block p BeginTransfer M))"

lemma receive_nothing [simp]:
  "is_incoming (m_pSession S) = [] \<Longrightarrow> TransferSession_ReceivePayload S = (NotReady, S)"
  by (simp add: TransferSession_ReceivePayload_def ISession_ReceivePayload_def)

lemma ProcessPullSession_sends:
  assumes inv: "pull_inv M p d S" and st: "m_state S = ProcessPullTransfer"
  shows "\<exists>S'. ProcessPullSession S = Some S' \<and> pull_inv M p d S' \<and> out S' @ to_send d S' = out S @ to_send d S
    \<and> length (send_replies S') \<le> length (send_replies S)
    \<and> (to_send d S' \<noteq> [] \<longrightarrow> length (send_replies S') < length (send_replies S))"
proof -
  have pull: "pulling p d S" and M: "m_pTransferManager S = update_block p BeginTransfer M"
    and v: "is_version (m_pSession S) \<ge> TRANSFER_REFACTOR_VERSION" and i: "is_incoming (m_pSession S) = []"
    using inv st by (auto simp: pull_inv_def)
  obtain c k s where loop: "pull_loop S = Some (S\<lparr>m_scratchPayload := c, m_bytesTransferred := k, m_pSession := s\<rparr>)"
    and sent: "unat k \<le> length d" "same_session (m_pSession S) s"
      "is_outgoing s @ data_messages (drop (unat k) d) = out S @ chunks_left d S"
      "length (is_sendReplies s) \<le> length (send_replies S)"
      "unat k \<noteq> length d \<longrightarrow> length (is_sendReplies s) < length (send_replies S)"
    using pull_loop_sends [OF pull] by blast
  define S1 where "S1 = S\<lparr>m_scratchPayload := c, m_bytesTransferred := k, m_pSession := s\<rparr>"
  have S1: "pulling p d S1" "m_state S1 = ProcessPullTransfer" "m_pTransferManager S1 = update_block p BeginTransfer M"
      "is_version (m_pSession S1) \<ge> TRANSFER_REFACTOR_VERSION" "is_incoming (m_pSession S1) = []"
    using pull sent(1,2) st M v i by (auto simp: S1_def pulling_def same_session_def)
  have total: "unat (m_totalBytes S1) = length d" "m_crc32 S1 = CRC32 d 0" "m_pBlock S1 = Some p"
    using S1(1) by (simp_all add: pulling_def)
  have eq: "ProcessPullSession S = Some (if m_bytesTransferred S1 = m_totalBytes S1 then SendSentinel Success (m_crc32 S1) S1 else S1)"
    by (simp add: ProcessPullSession_def i loop S1_def)
  show ?thesis
  proof (cases "unat k = length d")
    case False
    then have "m_bytesTransferred S1 \<noteq> m_totalBytes S1" using total by (auto simp: S1_def)
    then show ?thesis using eq S1 sent False st
      by (intro exI [of _ S1]) (auto simp: pull_inv_def to_send_def S1_def out_def send_replies_def chunks_left_def)
  next
    case True
    then have "m_bytesTransferred S1 = m_totalBytes S1" using total by (simp add: S1_def word_unat_eq_iff)
    define S2 where "S2 = end_block S1"
    have S2: "m_pSession S2 = s" "m_pBlock S2 = None"
        "m_pTransferManager S2 = update_block p EndTransfer (update_block p BeginTransfer M)"
      using total(3) S1(3) by (simp_all add: S2_def end_block_def on_block_def S1_def)
    have v2: "is_version (m_pSession S2) \<ge> TRANSFER_REFACTOR_VERSION" using S1(4) by (simp add: S2(1) S1_def)
    let ?o = "TransferDataSentinel Success (CRC32 d 0)"
    obtain s' st' where fin: "send_and_idle ?o S2 = (scratch ?o S2)\<lparr>m_state := st', m_pSession := s'\<rparr>" "same_session s s'"
      "st' = Idle \<and> is_outgoing s' = is_outgoing s @ [?o] \<and> length (is_sendReplies s') \<le> length (is_sendReplies s)
       \<or> st' = SendPayload \<and> is_outgoing s' = is_outgoing s \<and> length (is_sendReplies s') < length (is_sendReplies s)"
      using send_and_idle_sends [OF v2, of ?o] by (auto simp: S2(1) out_def send_replies_def)
    have "ProcessPullSession S = Some (send_and_idle ?o S2)"
      using eq \<open>m_bytesTransferred S1 = m_totalBytes S1\<close> by (simp add: SendSentinel_def S2_def total(2))
    moreover have "pull_inv M p d (send_and_idle ?o S2)"
      using fin S2 S1(4,5) by (auto simp: pull_inv_def scratch_def same_session_def S1_def)
    moreover have "is_outgoing s @ [?o] = out S @ to_send d S" using sent(3) True by (simp add: to_send_def st)
    ultimately show ?thesis using fin sent(4)
      by (intro exI [of _ "send_and_idle ?o S2"]) (auto simp: to_send_def out_def send_replies_def scratch_def)
  qed
qed

lemma SendPullTransferHeader_sends:
  assumes inv: "pull_inv M p d S" and st: "m_state S = StartPullTransfer"
  shows "\<exists>S'. SendPullTransferHeader S = Some S' \<and> pull_inv M p d S' \<and> out S' @ to_send d S' = out S @ to_send d S
    \<and> (to_send d S' \<noteq> [] \<longrightarrow> length (send_replies S') < length (send_replies S))"
proof -
  have v: "is_version (m_pSession S) \<ge> TRANSFER_REFACTOR_VERSION" using inv by (simp add: pull_inv_def)
  obtain r S1 where send: "TransferSession_SendPayload S = (r, S1)" by fastforce
  from SendPayload_sends [OF this v] obtain s where s: "S1 = S\<lparr>m_pSession := s\<rparr>" "same_session (m_pSession S) s"
    "if r = Success then is_outgoing s = out S @ [message_bytes (m_scratchPayload S)]
        \<and> length (is_sendReplies s) \<le> length (send_replies S)
     else is_outgoing s = out S \<and> length (is_sendReplies s) < length (send_replies S)"
    by (auto simp: out_def send_replies_def split: if_splits)
  show ?thesis
  proof (cases "r = Success")
    case False
    have "pull_inv M p d S1" using inv s(1,2) by (auto simp: pull_inv_def pulling_def same_session_def)
    moreover have "SendPullTransferHeader S = Some S1" using False by (simp add: SendPullTransferHeader_def send)
    ultimately show ?thesis using s False st
      by (intro exI [of _ S1]) (simp add: out_def to_send_def chunks_left_def send_replies_def)
  next
    case True
    define S2 where "S2 = S1\<lparr>m_state := ProcessPullTransfer\<rparr>"
    have "pull_inv M p d S2" using inv s(1,2) st by (auto simp: S2_def pull_inv_def pulling_def same_session_def)
    moreover have "m_state S2 = ProcessPullTransfer" by (simp add: S2_def)
    ultimately obtain S' where "ProcessPullSession S2 = Some S'" "pull_inv M p d S'"
      "out S' @ to_send d S' = out S2 @ to_send d S2"
      "to_send d S' \<noteq> [] \<longrightarrow> length (send_replies S') < length (send_replies S2)"
      using ProcessPullSession_sends by blast
    moreover have "SendPullTransferHeader S = ProcessPullSession S2" using True by (simp add: SendPullTransferHeader_def send S2_def)
    ultimately show ?thesis using s True st
      by (intro exI [of _ S']) (auto simp: S2_def out_def to_send_def chunks_left_def send_replies_def)
  qed
qed

lemma UpdateSession_sends:
  assumes inv: "pull_inv M p d S"
  shows "\<exists>S'. UpdateSession T S = Some S' \<and> pull_inv M p d S' \<and> out S' @ to_send d S' = out S @ to_send d S
    \<and> (to_send d S' \<noteq> [] \<longrightarrow> length (send_replies S') < length (send_replies S))"
proof -
  consider "m_state S = Idle" | "m_state S = StartPullTransfer" | "m_state S = ProcessPullTransfer" | "m_state S = SendPayload"
    using inv by (auto simp: pull_inv_def)
  then show ?thesis
  proof cases
    case 1
    then show ?thesis using inv by (intro exI [of _ S]) (simp add: UpdateSession_def pull_inv_def to_send_def)
  next
    case 2
    then show ?thesis using SendPullTransferHeader_sends [OF inv] by (simp add: UpdateSession_def)
  next
    case 3
    then show ?thesis using ProcessPullSession_sends [OF inv] by (auto simp: UpdateSession_def)
  next
    case 4
    have v: "is_version (m_pSession S) \<ge> TRANSFER_REFACTOR_VERSION" using inv by (simp add: pull_inv_def)
    obtain r S1 where send: "TransferSession_SendPayload S = (r, S1)" by fastforce
    note s = SendPayload_sends [OF send v]
    show ?thesis using 4 s inv
      by (intro exI [of _ "if r = Success then S1\<lparr>m_state := Idle\<rparr> else S1"])
        (auto simp: UpdateSession_def SendScratchPayloadAndMoveToIdle_def send pull_inv_def to_send_def out_def send_replies_def
          same_session_def split: if_splits)
  qed
qed

fun updates :: "TransferParams \<Rightarrow> nat \<Rightarrow> TransferSession \<Rightarrow> TransferSession option" where
  "updates T 0 S = Some S"
| "updates T (Suc n) S = Option.bind (UpdateSession T S) (updates T n)"

lemma updates_idle:
  assumes "pull_inv M p d S" and "to_send d S = []"
  shows "updates T n S = Some S"
proof (induction n)
  case (Suc n)
  have "m_state S = Idle" using assms by (auto simp: to_send_def pull_inv_def split: TransferSessionState.splits)
  then have "UpdateSession T S = Some S" using assms(1) by (simp add: UpdateSession_def pull_inv_def)
  with Suc.IH show ?case by simp
qed simp

lemma updates_send:
  "pull_inv M p d S \<Longrightarrow> length (send_replies S) < n \<Longrightarrow>
     \<exists>S'. updates T n S = Some S' \<and> pull_inv M p d S' \<and> to_send d S' = [] \<and> out S' = out S @ to_send d S"
proof (induction n arbitrary: S)
  case (Suc n)
  obtain S1 where S1: "UpdateSession T S = Some S1" "pull_inv M p d S1" "out S1 @ to_send d S1 = out S @ to_send d S"
    "to_send d S1 \<noteq> [] \<longrightarrow> length (send_replies S1) < length (send_replies S)"
    using UpdateSession_sends [OF Suc.prems(1)] by blast
  show ?case
  proof (cases "to_send d S1 = []")
    case False
    then obtain S' where "updates T n S1 = Some S'" "pull_inv M p d S'" "to_send d S' = []" "out S' = out S1 @ to_send d S1"
      using Suc.IH [OF S1(2)] S1(4) Suc.prems(2) by auto
    then show ?thesis using S1 by (intro exI [of _ S']) simp
  next
    case True
    then show ?thesis using S1 updates_idle [OF S1(2) True] by (intro exI [of _ S1]) simp
  qed
qed simp

lemma pull_request_accepted:
  assumes b: "GetServerBlock T blockId (m_pTransferManager S) = Some p" "server_blocks (m_pTransferManager S) p = Some b"
      "m_isClosed b" "holds b d" "length d < 2 ^ 32"
    and S: "m_state S = Idle" "is_version (m_pSession S) \<ge> TRANSFER_REFACTOR_VERSION"
      "is_incoming (m_pSession S) = [(Success, TransferRequest blockId TransferType_Pull n)]"
  shows "\<exists>S'. UpdateSession T S = Some S' \<and> pull_inv (m_pTransferManager S) p d S'
    \<and> out S' @ to_send d S' = out S @ pull_messages d
    \<and> (to_send d S' \<noteq> [] \<longrightarrow> length (send_replies S') < length (send_replies S))"
proof -
  define c where "c = CreatePayload (TransferRequest blockId TransferType_Pull n) (m_scratchPayload S)"
  define S1 where "S1 = S\<lparr>m_scratchPayload := c, m_pSession := (m_pSession S)\<lparr>is_incoming := []\<rparr>\<rparr>"
  have r: "TransferSession_ReceivePayload S = (Success, S1)"
    by (simp add: TransferSession_ReceivePayload_def ISession_ReceivePayload_def S(3) S1_def c_def)
  define S2 where "S2 = scratch (TransferDataHeaderV2 (ucast (m_blockDataSize b)))
      ((on_block BeginTransfer (S1\<lparr>m_pBlock := Some p\<rparr>))
        \<lparr>m_totalBytes := m_blockDataSize b, m_bytesTransferred := 0, m_crc32 := m_blockCrc32 b, m_state := StartPullTransfer\<rparr>)"
  have "UpdateSession T S = ProcessPayload T S1" by (simp add: UpdateSession_def S(1) r)
  also have "\<dots> = start_pull T blockId S1" by (simp add: ProcessPayload_def S1_def c_def)
  also have "\<dots> = SendPullTransferHeader S2"
    using b S by (simp add: start_pull_def S1_def S2_def on_block_def)
  finally have eq: "UpdateSession T S = SendPullTransferHeader S2" .
  have h: "unat (m_blockDataSize b) = length d" "m_blockCrc32 b = CRC32 d 0" using b(4) by (simp_all add: holds_def)
  have size32: "(ucast (m_blockDataSize b) :: u32) = word_of_nat (length d)"
    by (simp add: h(1) [symmetric])
  have "pull_inv (m_pTransferManager S) p d S2"
    using b S h by (simp add: S2_def S1_def on_block_def scratch_def pull_inv_def pulling_def update_block_def)
  moreover have st: "m_state S2 = StartPullTransfer" by (simp add: S2_def scratch_def)
  ultimately obtain S' where "SendPullTransferHeader S2 = Some S'" "pull_inv (m_pTransferManager S) p d S'"
    "out S' @ to_send d S' = out S2 @ to_send d S2"
    "to_send d S' \<noteq> [] \<longrightarrow> length (send_replies S') < length (send_replies S2)"
    using SendPullTransferHeader_sends by blast
  moreover have "out S2 @ to_send d S2 = out S @ pull_messages d"
    by (simp add: S2_def S1_def on_block_def scratch_def out_def to_send_def chunks_left_def pull_messages_def size32)
  moreover have "send_replies S2 = send_replies S" by (simp add: S2_def S1_def on_block_def scratch_def send_replies_def)
  ultimately show ?thesis using eq by (intro exI [of _ S']) simp
qed

end
