(* ===== verification/Transfer_Read.thy ===== *)
theory Transfer_Read
  imports Transfer_Pull
begin

text \<open>Pulling a block: what the client reads from the messages it receives.\<close>

subsection \<open>Receiving\<close>

definition with_incoming :: "(Result \<times> u8 list) list \<Rightarrow> TransferClient \<Rightarrow> TransferClient" where
  "with_incoming msgs C =
    C\<lparr>tc_client := (tc_client C)\<lparr>lc_pSession := map_option (is_incoming_update (\<lambda>_. msgs)) (lc_pSession (tc_client C))\<rparr>\<rparr>"

lemma with_incoming_simps [simp]:
  "tc_state (with_incoming m C) = tc_state C" "tc_type (with_incoming m C) = tc_type C"
  "tc_totalBytes (with_incoming m C) = tc_totalBytes C" "tc_crc32 (with_incoming m C) = tc_crc32 C"
  "tc_dataChunkSizeInBytes (with_incoming m C) = tc_dataChunkSizeInBytes C"
  "tc_dataChunkBytesTransfered (with_incoming m C) = tc_dataChunkBytesTransfered C"
  "tc_scratchPayload (with_incoming m C) = tc_scratchPayload C"
  "GetSessionVersion (tc_client (with_incoming m C)) = GetSessionVersion (tc_client C)"
  by (simp_all add: with_incoming_def GetSessionVersion_def split: option.splits)

definition connection :: "TransferClient \<Rightarrow> bool" where
  "connection C \<longleftrightarrow> lc_pSession (tc_client C) \<noteq> None \<and> GetSessionVersion (tc_client C) \<ge> TRANSFER_REFACTOR_VERSION"

lemma connection_with_incoming [simp]: "connection (with_incoming m C) = connection C"
  by (simp add: connection_def) (simp add: with_incoming_def)

lemma incoming_with_incoming [simp]: "connection C \<Longrightarrow> incoming (with_incoming m C) = m"
  by (auto simp: incoming_def with_incoming_def connection_def)

lemma receive_next:
  assumes "connection C" and "incoming C = (Success, bytes) # msgs"
  shows "ReceiveTransferPayload container timeout retry C = (Success, CreatePayload bytes container, with_incoming msgs C)"
  using assms
  by (auto simp: ReceiveTransferPayload_def ReceiveSizedPayload_def incoming_def connection_def with_incoming_def receive_loop.simps
      ISession_ReceivePayload_def split: option.splits)

subsection \<open>Reading\<close>

text \<open>
  The client still has \<open>d\<close> to read: what is left of the chunk it holds, then the data of the pieces \<open>ms\<close>
  that are to be received, the sentinel after them, and \<open>msgs\<close>.
\<close>

definition reading :: "(Result \<times> u8 list) list \<Rightarrow> u8 list \<Rightarrow> TransferClient \<Rightarrow> bool" where
  "reading msgs d C \<longleftrightarrow> tc_state C = TransferInProgress \<and> connection C
     \<and> (\<exists>held ms. d = held @ concat ms \<and> (\<forall>m \<in> set ms. m \<noteq> [] \<and> length m \<le> kMaxTransferDataChunkSize)
         \<and> unat (tc_dataChunkSizeInBytes C) = unat (tc_dataChunkBytesTransfered C) + length held
         \<and> take (length held) (drop (unat (tc_dataChunkBytesTransfered C)) (chunk_data (tc_scratchPayload C))) = held
         \<and> unat (tc_totalBytes C) = length (concat ms)
         \<and> incoming C = (if ms = [] then msgs
              else map (Pair Success) (map chunk_message ms @ [TransferDataSentinel Success (CRC32 (concat ms) (tc_crc32 C))]) @ msgs))"

lemma result_code [simp]: "code_of_result Success = 0" "result_of_code 0 = Success"
  by (simp_all add: result_table_def result_of_code_Success)

lemma fetch_sentinel_receives:
  assumes "connection C" and "incoming C = (Success, TransferDataSentinel Success (tc_crc32 C)) # msgs"
  shows "fetch_sentinel W C = (Success, with_incoming msgs C)"
  using assms by (simp add: fetch_sentinel_def receive_next [OF assms] field_result_def connection_def del: code_of_result.simps)

lemma casts:
  assumes "k < 2 ^ 32"
  shows "(ucast (word_of_nat k :: u32) :: u64) = word_of_nat k" "(ucast (word_of_nat k :: u64) :: u32) = word_of_nat k"
  using assms by (simp_all add: word_unat_eq_iff unsigned_ucast_eq unat_of_nat take_bit_nat_eq_self)

lemma fetch_chunk_receives:
  assumes C: "connection C" and m: "m \<noteq> []" "length m \<le> kMaxTransferDataChunkSize" "length m \<le> unat (tc_totalBytes C)"
    and i: "incoming C = (Success, chunk_message m) # rest"
  shows "fetch_chunk W C =
    (let C3 = (with_incoming rest C)\<lparr>tc_scratchPayload := CreatePayload (chunk_message m) (tc_scratchPayload C),
                 tc_dataChunkSizeInBytes := word_of_nat (length m), tc_dataChunkBytesTransfered := 0,
                 tc_totalBytes := tc_totalBytes C - word_of_nat (length m), tc_crc32 := CRC32 m (tc_crc32 C)\<rparr>
     in if tc_totalBytes C3 = 0 then fetch_sentinel W C3 else (Success, C3))"
proof -
  have l: "length m < 2000" using m(2) chunk_size(3) by simp
  have size64: "ucast (word_of_nat (length m + 4) :: u32) - (4 :: u64) = word_of_nat (length m)"
    using casts(1) [of "length m + 4"] l by simp
  have min64: "min (word_of_nat (length m)) (word_of_nat kMaxTransferDataChunkSize) = (word_of_nat (length m) :: u64)"
    using m(2) l chunk_size(3) by (simp add: min_def word_le_nat_alt unat_of_nat)
  have cast: "(ucast (word_of_nat (length m) :: u64) :: u32) = word_of_nat (length m)"
      "(ucast (word_of_nat (length m) :: u32) :: u64) = word_of_nat (length m)"
    using l by (simp_all add: casts)
  have min32: "min (word_of_nat (length m)) (tc_totalBytes C) = word_of_nat (length m)"
    using m(3) l by (simp add: min_def word_le_nat_alt unat_of_nat)
  have len: "length (chunk_message m) = length m + 4" by (simp add: chunk_message_def)
  have u: "unat (word_of_nat (length m) :: u32) = length m" using l by (simp add: unat_of_nat)
  show ?thesis
    unfolding fetch_chunk_def receive_next [OF C i]
    by (simp add: Let_def len chunk_offset_def size64 min64 min32 cast u del: of_nat_add)
qed

lemma held_bytes:
  fixes size transferred :: u64
  assumes "unat size = unat transferred + length held"
  shows "unat (size - transferred) = length held"
  using assms by (simp add: unat_sub word_le_nat_alt)

lemma copy_held:
  assumes R: "reading msgs d C" and pos: "0 < n" "tc_dataChunkSizeInBytes C - tc_dataChunkBytesTransfered C > 0"
  defines "k \<equiv> min n (tc_dataChunkSizeInBytes C - tc_dataChunkBytesTransfered C)"
  shows "\<exists>C'. unat k \<le> length d \<and> copy_local n Success C = (take (unat k) d, if unat k = length d then EndOfStream else Success, C')
    \<and> (if unat k = length d then tc_state C' = TransferIdle \<and> connection C' \<and> incoming C' = msgs else reading msgs (drop (unat k) d) C')"
proof -
  obtain held ms where h: "tc_state C = TransferInProgress" "connection C" "d = held @ concat ms"
      "\<forall>m \<in> set ms. m \<noteq> [] \<and> length m \<le> kMaxTransferDataChunkSize"
      "unat (tc_dataChunkSizeInBytes C) = unat (tc_dataChunkBytesTransfered C) + length held"
      "take (length held) (drop (unat (tc_dataChunkBytesTransfered C)) (chunk_data (tc_scratchPayload C))) = held"
      "unat (tc_totalBytes C) = length (concat ms)"
      "incoming C = (if ms = [] then msgs
         else map (Pair Success) (map chunk_message ms @ [TransferDataSentinel Success (CRC32 (concat ms) (tc_crc32 C))]) @ msgs)"
    using R unfolding reading_def by blast
  note size = held_bytes [OF h(5)]
  have k: "unat k = min (unat n) (length held)" by (simp add: k_def min_def word_le_nat_alt size)
  have k0: "0 < unat k" unfolding k using pos size by (simp add: word_less_nat_alt)
  have sum: "unat (tc_dataChunkBytesTransfered C + k) = unat (tc_dataChunkBytesTransfered C) + unat k"
  proof (rule unat_add_no_wrap)
    have "unat (tc_dataChunkSizeInBytes C) < 2 ^ LENGTH(64)" by (rule unsigned_less)
    then show "unat (tc_dataChunkBytesTransfered C) + unat k < 2 ^ LENGTH(64)"
      using k h(5) by simp
  qed
  define C1 where "C1 = C\<lparr>tc_dataChunkBytesTransfered := tc_dataChunkBytesTransfered C + k\<rparr>"
  have bytes: "take (unat k) (drop (unat (tc_dataChunkBytesTransfered C)) (chunk_data (tc_scratchPayload C))) = take (unat k) d"
    using arg_cong [OF h(6), of "take (unat k)"] k h(3) by (simp add: min_def split: if_splits)
  have all_read: "tc_dataChunkBytesTransfered C + k = tc_dataChunkSizeInBytes C \<and> tc_totalBytes C = 0 \<longleftrightarrow> unat k = length d"
  proof -
    have "length d = length held + length (concat ms)" by (simp only: h(3) length_append)
    moreover have "tc_totalBytes C = 0 \<longleftrightarrow> length (concat ms) = 0" by (simp only: h(7) [symmetric] word_unat_eq_iff unat_0)
    moreover have "unat k \<le> length held" by (simp only: k min.cobounded2)
    ultimately show ?thesis unfolding word_unat_eq_iff sum h(5) by linarith
  qed
  have eq: "copy_local n Success C = (take (unat k) d,
      if unat k = length d then (EndOfStream, C1\<lparr>tc_state := TransferIdle\<rparr>) else (Success, C1))"
    using all_read bytes by (simp add: copy_local_def Let_def k_def [symmetric] C1_def)
  show ?thesis
  proof (cases "unat k = length d")
    case True
    moreover have "length d = length held + length (concat ms)" by (simp only: h(3) length_append)
    moreover have "unat k \<le> length held" by (simp only: k min.cobounded2)
    ultimately have "length (concat ms) = 0" by linarith
    then have "concat ms = []" by (simp only: length_0_conv)
    then have "ms = []" using h(4) by (cases ms) auto
    then have "incoming (C1\<lparr>tc_state := TransferIdle\<rparr>) = msgs" using h(8) by (simp add: C1_def incoming_def)
    moreover have "connection (C1\<lparr>tc_state := TransferIdle\<rparr>)" using h(2) by (simp add: C1_def connection_def)
    ultimately show ?thesis using True eq by simp
  next
    case False
    have "take (length (drop (unat k) held)) (drop (unat (tc_dataChunkBytesTransfered C1)) (chunk_data (tc_scratchPayload C1)))
        = drop (unat k) held"
      using arg_cong [OF h(6), of "drop (unat k)"] sum k by (simp add: C1_def drop_take add.commute)
    moreover have "drop (unat k) d = drop (unat k) held @ concat ms" using h(3) k by simp
    moreover have "incoming C1 = incoming C" "connection C1" using h(2) by (simp_all add: C1_def incoming_def connection_def)
    ultimately have "reading msgs (drop (unat k) d) C1"
      unfolding reading_def using h sum k
      by (intro conjI exI [of _ "drop (unat k) held"] exI [of _ ms]) (simp_all add: C1_def)
    then show ?thesis using False eq k h(3) by simp
  qed
qed

lemma fetch_next:
  assumes R: "reading msgs d C" and "d \<noteq> []" and "\<not> tc_dataChunkSizeInBytes C - tc_dataChunkBytesTransfered C > 0"
  shows "tc_totalBytes C > 0 \<and> (\<exists>C'. fetch_chunk W C = (Success, C') \<and> reading msgs d C')"
proof -
  obtain held ms where h: "tc_state C = TransferInProgress" "connection C" "d = held @ concat ms"
      "\<forall>m \<in> set ms. m \<noteq> [] \<and> length m \<le> kMaxTransferDataChunkSize"
      "unat (tc_dataChunkSizeInBytes C) = unat (tc_dataChunkBytesTransfered C) + length held"
      "unat (tc_totalBytes C) = length (concat ms)"
      "incoming C = (if ms = [] then msgs
         else map (Pair Success) (map chunk_message ms @ [TransferDataSentinel Success (CRC32 (concat ms) (tc_crc32 C))]) @ msgs)"
    using R unfolding reading_def by blast
  have "held = []" using assms(3) held_bytes [OF h(5)] by (simp add: word_less_nat_alt)
  with assms(2) h(3) obtain m ms' where ms: "ms = m # ms'" by (cases ms) auto
  let ?last = "TransferDataSentinel Success (CRC32 (concat ms') (CRC32 m (tc_crc32 C)))"
  define rest where "rest = map (Pair Success) (map chunk_message ms' @ [?last]) @ msgs"
  have i: "incoming C = (Success, chunk_message m) # rest" using h(7) by (simp add: ms rest_def CRC32_append)
  have m: "m \<noteq> []" "length m \<le> kMaxTransferDataChunkSize" "length m \<le> unat (tc_totalBytes C)" using h(4,6) by (simp_all add: ms)
  have pos: "tc_totalBytes C > 0" using m(1,3) by (cases m) (simp_all add: word_less_nat_alt)
  define C3 where "C3 = (with_incoming rest C)\<lparr>tc_scratchPayload := CreatePayload (chunk_message m) (tc_scratchPayload C),
                 tc_dataChunkSizeInBytes := word_of_nat (length m), tc_dataChunkBytesTransfered := 0,
                 tc_totalBytes := tc_totalBytes C - word_of_nat (length m), tc_crc32 := CRC32 m (tc_crc32 C)\<rparr>"
  have fetch: "fetch_chunk W C = (if tc_totalBytes C3 = 0 then fetch_sentinel W C3 else (Success, C3))"
    using fetch_chunk_receives [OF h(2) m i] by (simp add: Let_def C3_def)
  have ul: "unat (word_of_nat (length m) :: u32) = length m" "unat (word_of_nat (length m) :: u64) = length m"
    using m(2) chunk_size(3) by (simp_all add: unat_of_nat)
  have total: "unat (tc_totalBytes C3) = length (concat ms')"
    using h(6) m(3) ul by (simp add: C3_def ms unat_sub word_le_nat_alt)
  have conn: "connection C3" "incoming C3 = rest"
    using h(2) by (simp_all add: C3_def incoming_def connection_def) (auto simp: with_incoming_def)
  have base: "reading msgs d C'" if "tc_state C' = TransferInProgress" "connection C'"
      "incoming C' = (if ms' = [] then msgs else rest)"
      "tc_dataChunkSizeInBytes C' = tc_dataChunkSizeInBytes C3" "tc_dataChunkBytesTransfered C' = 0"
      "tc_scratchPayload C' = tc_scratchPayload C3" "tc_totalBytes C' = tc_totalBytes C3" "tc_crc32 C' = tc_crc32 C3" for C'
    unfolding reading_def using that h(3,4) \<open>held = []\<close> total ul
    by (intro conjI exI [of _ m] exI [of _ ms']) (auto simp: ms C3_def rest_def)
  show ?thesis
  proof (cases "ms' = []")
    case False
    then have "concat ms' \<noteq> []" using h(4) by (cases ms') (auto simp: ms)
    then have "tc_totalBytes C3 \<noteq> 0" using total by auto
    moreover have "reading msgs d C3" using False conn h(1) by (intro base) (simp_all add: C3_def)
    ultimately show ?thesis using fetch pos by auto
  next
    case True
    then have "tc_totalBytes C3 = 0" using total by (simp add: word_unat_eq_iff)
    moreover have "fetch_sentinel W C3 = (Success, with_incoming msgs C3)"
      using conn True by (intro fetch_sentinel_receives) (simp_all add: rest_def C3_def)
    moreover have "reading msgs d (with_incoming msgs C3)" using True conn h(1) by (intro base) (simp_all add: C3_def)
    ultimately show ?thesis using fetch pos by auto
  qed
qed

lemma read_loop_reads:
  "reading msgs d C \<Longrightarrow> d \<noteq> [] \<Longrightarrow> r = Success \<Longrightarrow>
     \<exists>C'. read_loop W n acc r C = Some (if length d \<le> unat n then EndOfStream else Success, acc @ take (unat n) d, C')
       \<and> (if length d \<le> unat n then tc_state C' = TransferIdle \<and> connection C' \<and> incoming C' = msgs
          else reading msgs (drop (unat n) d) C')"
proof (induction W n acc r C arbitrary: d rule: read_loop.induct)
  case (1 W n acc r C)
  have st: "tc_state C = TransferInProgress" using "1.prems"(1) by (simp add: reading_def)
  show ?case
  proof (cases "0 < n")
    case False
    then have "unat n = 0" by (simp add: word_less_nat_alt)
    then show ?thesis using False "1.prems" by (simp add: read_loop.simps [of W n])
  next
    case n: True
    let ?avail = "tc_dataChunkSizeInBytes C - tc_dataChunkBytesTransfered C"
    have go: "n > 0 \<and> tc_state C = TransferInProgress" using n st by simp
    show ?thesis
    proof (cases "?avail > 0")
      case True
      define k where "k = min n ?avail"
      obtain C1 where C1: "unat k \<le> length d"
          "copy_local n r C = (take (unat k) d, if unat k = length d then EndOfStream else Success, C1)"
          "if unat k = length d then tc_state C1 = TransferIdle \<and> connection C1 \<and> incoming C1 = msgs
           else reading msgs (drop (unat k) d) C1"
        using copy_held [OF "1.prems"(1) n True] "1.prems"(3) unfolding k_def by blast
      have un: "read_loop W n acc r C =
          read_loop W (n - k) (acc @ take (unat k) d) (if unat k = length d then EndOfStream else Success) C1"
        by (subst read_loop.simps) (simp add: go True C1(2) k_def)
      have "k \<le> n" by (simp add: k_def)
      then have kn: "unat k \<le> unat n" "unat (n - k) = unat n - unat k" by (simp_all add: word_le_nat_alt unat_sub)
      show ?thesis
      proof (cases "unat k = length d")
        case whole: True
        then show ?thesis using un C1 kn by (simp add: read_loop.simps [of W "n - k"])
      next
        case False
        then have "drop (unat k) d \<noteq> []" using C1(1) by simp
        moreover have "reading msgs (drop (unat k) d) C1" using C1(3) False by simp
        moreover have "take (unat k) d @ take (unat n - unat k) (drop (unat k) d) = take (unat n) d"
          using kn by (metis le_add_diff_inverse take_add)
        ultimately show ?thesis
          using "1.IH"(1) [OF go True C1(2) [symmetric] refl, of "drop (unat k) d"] un kn False C1(1)
          by (auto simp: k_def [symmetric])
      qed
    next
      case False
      from fetch_next [OF "1.prems"(1,2) this, of W] obtain C1 where C1: "tc_totalBytes C > 0"
        "fetch_chunk W C = (Success, C1)" "reading msgs d C1" by blast
      have st1: "tc_state C1 = TransferInProgress" using C1(3) by (simp add: reading_def)
      have "read_loop W n acc r C = read_loop W n acc Success C1"
        by (subst read_loop.simps) (simp add: go False C1(1,2) st1)
      then show ?thesis
        using "1.IH"(2) [OF go False C1(1) C1(2) [symmetric] st1 C1(3) "1.prems"(2) refl] by simp
    qed
  qed
qed

text \<open>The buffers of the caller: what \<^verbatim>\<open>ReadPullTransferData\<close> returns for each.\<close>

lemma ReadPullTransferData_reads:
  assumes R: "reading msgs d C" and "d \<noteq> []" and n: "n > 0"
  shows "\<exists>C'. ReadPullTransferData W n C = Some (if length d \<le> unat n then EndOfStream else Success, take (unat n) d, C')
       \<and> (if length d \<le> unat n then tc_state C' = TransferIdle \<and> connection C' \<and> incoming C' = msgs
          else reading msgs (drop (unat n) d) C')"
proof -
  have "tc_state C = TransferInProgress" using R by (simp add: reading_def)
  moreover have "\<not> (tc_totalBytes C = 0 \<and> tc_dataChunkSizeInBytes C = tc_dataChunkBytesTransfered C)"
    using R assms(2) by (auto simp: reading_def)
  ultimately show ?thesis using read_loop_reads [OF R assms(2) refl, of W n "[]"] n by (auto simp: ReadPullTransferData_def)
qed

end
