(* ===== verification/Transfer_Theorems.thy ===== *)
theory Transfer_Theorems
  imports Transfer_Read
begin

text \<open>
  The transfer protocol end to end: a block that is pulled arrives whole, a block that is pushed is
  stored whole, the counts of transfers in progress are kept, and where the code does not do this.
\<close>

subsection \<open>Sending\<close>

definition sent :: "TransferClient \<Rightarrow> u8 list list" where
  "sent C = (case lc_pSession (tc_client C) of None \<Rightarrow> [] | Some s \<Rightarrow> is_outgoing s)"

definition with_sent :: "u8 list list \<Rightarrow> TransferClient \<Rightarrow> TransferClient" where
  "with_sent msgs C =
    C\<lparr>tc_client := (tc_client C)\<lparr>lc_pSession := map_option (is_outgoing_update (\<lambda>_. msgs)) (lc_pSession (tc_client C))\<rparr>\<rparr>"

lemma with_sent_simps [simp]:
  "tc_state (with_sent m C) = tc_state C" "tc_type (with_sent m C) = tc_type C"
  "tc_totalBytes (with_sent m C) = tc_totalBytes C" "tc_crc32 (with_sent m C) = tc_crc32 C"
  "tc_dataChunkSizeInBytes (with_sent m C) = tc_dataChunkSizeInBytes C"
  "tc_dataChunkBytesTransfered (with_sent m C) = tc_dataChunkBytesTransfered C"
  "tc_scratchPayload (with_sent m C) = tc_scratchPayload C"
  "GetSessionVersion (tc_client (with_sent m C)) = GetSessionVersion (tc_client C)"
  "incoming (with_sent m C) = incoming C" "replies (with_sent m C) = replies C"
  by (simp_all add: with_sent_def GetSessionVersion_def incoming_def replies_def split: option.splits)

lemma connection_with_sent [simp]: "connection (with_sent m C) = connection C"
  by (simp add: connection_def) (simp add: with_sent_def)

lemma sent_simps [simp]:
  "connection C \<Longrightarrow> sent (with_sent m C) = m" "sent (with_incoming i C) = sent C" "replies (with_incoming i C) = replies C"
  by (auto simp: sent_def with_sent_def with_incoming_def connection_def replies_def split: option.splits)

lemma update_simps [simp]:
  "connection (C\<lparr>tc_state := a\<rparr>) = connection C" "connection (C\<lparr>tc_type := b\<rparr>) = connection C" "connection (begin_transfer n C) = connection C"
  "sent (C\<lparr>tc_state := a\<rparr>) = sent C" "sent (C\<lparr>tc_type := b\<rparr>) = sent C" "sent (begin_transfer n C) = sent C"
  "incoming (C\<lparr>tc_state := a\<rparr>) = incoming C" "incoming (C\<lparr>tc_type := b\<rparr>) = incoming C" "incoming (begin_transfer n C) = incoming C"
  "replies (C\<lparr>tc_state := a\<rparr>) = replies C" "replies (C\<lparr>tc_type := b\<rparr>) = replies C" "replies (begin_transfer n C) = replies C"
  by (simp_all add: connection_def sent_def incoming_def replies_def begin_transfer_def)

lemma send_next:
  assumes "connection C" and "replies C = []"
  shows "SendTransferPayload container timeout retry C = (Success, with_sent (sent C @ [message_bytes container]) C)"
proof -
  obtain s where s: "lc_pSession (tc_client C) = Some s" "is_sendReplies s = []" "is_version s \<ge> TRANSFER_REFACTOR_VERSION"
    using assms by (auto simp: connection_def replies_def GetSessionVersion_def split: option.splits)
  have "send_loop n bytes timeout retry 0 s = (Success, s\<lparr>is_outgoing := is_outgoing s @ [take (unat n) bytes]\<rparr>)" for n bytes
    by (subst send_loop.simps) (simp add: ISession_Send_def s(2))
  then show ?thesis
    using s by (simp add: SendTransferPayload_def SendSizedPayload_def GetSessionVersion_def sent_def with_sent_def message_bytes_def)
qed

lemma transact_next:
  assumes "connection C" and "replies C = []" and "incoming C = (Success, bytes) # msgs"
  shows "TransactTransferPayload container timeout retry C =
    (Success, CreatePayload bytes container, with_incoming msgs (with_sent (sent C @ [message_bytes container]) C))"
  using assms by (simp add: TransactTransferPayload_def send_next receive_next)

subsection \<open>Pulling a block\<close>

text \<open>What the caller sees of a block that holds \<open>d\<close>, buffer by buffer.\<close>

fun expected :: "u64 list \<Rightarrow> u8 list \<Rightarrow> (Result \<times> u8 list) list" where
  "expected [] d = []"
| "expected (n # ns) d =
    (if length d \<le> unat n then (EndOfStream, d) # map (\<lambda>_. (Error, [])) ns
     else (Success, take (unat n) d) # expected ns (drop (unat n) d))"

fun reads :: "Timeouts \<Rightarrow> u64 list \<Rightarrow> TransferClient \<Rightarrow> ((Result \<times> u8 list) list \<times> TransferClient) option" where
  "reads W [] C = Some ([], C)"
| "reads W (n # ns) C =
    (case ReadPullTransferData W n C of
       None \<Rightarrow> None
     | Some (r, bytes, C1) \<Rightarrow> map_option (\<lambda>(rs, C2). ((r, bytes) # rs, C2)) (reads W ns C1))"

lemma reads_idle: "tc_state C = TransferIdle \<Longrightarrow> reads W ns C = Some (map (\<lambda>_. (Error, [])) ns, C)"
  by (induction ns) (simp_all add: ReadPullTransferData_def)

lemma reads_expected: "reading msgs d C \<Longrightarrow> d \<noteq> [] \<Longrightarrow> \<exists>C'. reads W ns C = Some (expected ns d, C')"
proof (induction ns arbitrary: d C)
  case (Cons n ns)
  show ?case
  proof (cases "n > 0")
    case True
    from ReadPullTransferData_reads [OF Cons.prems True, of W] obtain C1 where
      C1: "ReadPullTransferData W n C = Some (if length d \<le> unat n then EndOfStream else Success, take (unat n) d, C1)"
        "if length d \<le> unat n then tc_state C1 = TransferIdle \<and> connection C1 \<and> incoming C1 = msgs
         else reading msgs (drop (unat n) d) C1" by blast
    show ?thesis
    proof (cases "length d \<le> unat n")
      case True
      then show ?thesis using C1 reads_idle [of C1 W ns] by simp
    next
      case False
      then show ?thesis using C1 Cons.IH [of "drop (unat n) d" C1] by auto
    qed
  next
    case False
    then have n: "unat n = 0" by (simp add: word_less_nat_alt)
    have "tc_state C = TransferInProgress" and "\<not> (tc_totalBytes C = 0 \<and> tc_dataChunkSizeInBytes C = tc_dataChunkBytesTransfered C)"
      using Cons.prems by (auto simp: reading_def)
    then have "ReadPullTransferData W n C = Some (Success, [], C)" using False by (simp add: ReadPullTransferData_def)
    then show ?thesis using Cons.IH [OF Cons.prems] Cons.prems(2) n by auto
  qed
qed simp

lemma pull_request_answered:
  assumes C: "tc_state C = TransferIdle" "connection C" "replies C = []"
    and d: "d \<noteq> []" "length d < 2 ^ 32" and i: "incoming C = map (Pair Success) (pull_messages d) @ msgs"
  shows "\<exists>C'. RequestPullTransfer W blockId True C = (Success, Some (word_of_nat (length d)), C')
    \<and> sent C' = sent C @ [TransferRequest blockId TransferType_Pull 0] \<and> reading msgs d C'"
proof -
  let ?request = "TransferRequest blockId TransferType_Pull 0"
  define rest where "rest = map (Pair Success) (data_messages d @ [TransferDataSentinel Success (CRC32 d 0)]) @ msgs"
  have i: "incoming C = (Success, TransferDataHeaderV2 (word_of_nat (length d))) # rest"
    using i by (simp add: pull_messages_def rest_def)
  define C1 where "C1 = with_incoming rest (with_sent (sent C @ [?request]) C)"
  define C' where "C' = begin_transfer (word_of_nat (length d)) C1"
  have "RequestPullTransfer W blockId True C = (Success, Some (word_of_nat (length d)), C')"
    using C(1,2) d(2)
    by (simp add: RequestPullTransfer_def transact_next [OF C(2,3) i] C'_def C1_def connection_def casts)
  moreover have "sent C' = sent C @ [?request]" using C(2) by (simp add: C'_def C1_def)
  moreover have "reading msgs d C'"
    unfolding reading_def using d C(2) pieces_bound [of _ "kMaxTransferDataChunkSize - 1" d] chunk_size
    by (intro conjI exI [of _ "[]"] exI [of _ "data_pieces d"])
      (auto simp: C'_def C1_def begin_transfer_def data_messages_def rest_def unat_of_nat incoming_def with_incoming_def with_sent_def connection_def GetSessionVersion_def split: option.splits)
  ultimately show ?thesis by blast
qed

lemma transfer_returned:
  assumes "server_blocks M p = Some b" and "m_transfersCompletedEvent b \<longleftrightarrow> m_numPendingTransfers b = 0"
  shows "update_block p EndTransfer (update_block p BeginTransfer M) = M"
proof -
  have "EndTransfer (BeginTransfer b) = b" using assms(2) by (auto simp: EndTransfer_def BeginTransfer_def Let_def)
  then show ?thesis using assms(1) by (simp add: update_block_def fun_upd_idem)
qed

text \<open>C30.
  A block that is pulled arrives whole.  A server that is idle receives the request of a client; its block
  is closed and holds \<open>d\<close>.  Whatever its session answers to the attempts to send, after enough updates the
  server is idle again, no transfer is counted on the block any more, and from what it has sent the client
  reads \<open>d\<close>, with any buffers: every buffer is full until the last, which gets the rest and the end of the
  stream, and no byte is lost, repeated or changed where the data was cut into messages.
\<close>

theorem pull_delivers_block:
  assumes b: "GetServerBlock T blockId (m_pTransferManager S) = Some p" "server_blocks (m_pTransferManager S) p = Some b"
      "m_isClosed b" "holds b d" "m_transfersCompletedEvent b \<longleftrightarrow> m_numPendingTransfers b = 0"
    and d: "d \<noteq> []" "length d < 2 ^ 32"
    and S: "m_state S = Idle" "is_version (m_pSession S) \<ge> TRANSFER_REFACTOR_VERSION"
      "is_incoming (m_pSession S) = [(Success, TransferRequest blockId TransferType_Pull 0)]"
    and n: "length (send_replies S) < n"
  shows "\<exists>S'. updates T n S = Some S' \<and> m_state S' = Idle \<and> m_pBlock S' = None \<and> m_pTransferManager S' = m_pTransferManager S
    \<and> (\<forall>C. tc_state C = TransferIdle \<and> connection C \<and> replies C = []
         \<and> incoming C = map (Pair Success) (drop (length (out S)) (out S')) \<longrightarrow>
       (\<exists>C1 C2. RequestPullTransfer W blockId True C = (Success, Some (word_of_nat (length d)), C1)
          \<and> sent C1 = sent C @ [TransferRequest blockId TransferType_Pull 0] \<and> reads W ns C1 = Some (expected ns d, C2)))"
proof -
  obtain k where k: "n = Suc k" using n by (cases n) auto
  obtain S1 where S1: "UpdateSession T S = Some S1" "pull_inv (m_pTransferManager S) p d S1"
      "out S1 @ to_send d S1 = out S @ pull_messages d"
      "to_send d S1 \<noteq> [] \<longrightarrow> length (send_replies S1) < length (send_replies S)"
    using pull_request_accepted [OF b(1-4) d(2) S] by blast
  have "\<exists>S'. updates T k S1 = Some S' \<and> pull_inv (m_pTransferManager S) p d S' \<and> to_send d S' = [] \<and> out S' = out S1 @ to_send d S1"
  proof (cases "to_send d S1 = []")
    case True
    then show ?thesis using updates_idle [OF S1(2) True] S1(2) by simp
  next
    case False
    then show ?thesis using updates_send [OF S1(2), of k] S1(4) n k by simp
  qed
  then obtain S' where S': "updates T n S = Some S'" "pull_inv (m_pTransferManager S) p d S'" "to_send d S' = []"
      "out S' = out S @ pull_messages d"
    using S1(1,3) k by auto
  have "m_state S' = Idle" using S'(2,3) by (auto simp: to_send_def pull_inv_def split: TransferSessionState.splits)
  moreover have "m_pBlock S' = None" "m_pTransferManager S' = m_pTransferManager S"
    using S'(2) calculation transfer_returned [OF b(2,5)] by (auto simp: pull_inv_def)
  moreover have "\<exists>C1 C2. RequestPullTransfer W blockId True C = (Success, Some (word_of_nat (length d)), C1)
          \<and> sent C1 = sent C @ [TransferRequest blockId TransferType_Pull 0] \<and> reads W ns C1 = Some (expected ns d, C2)"
    if "tc_state C = TransferIdle" "connection C" "replies C = []" "incoming C = map (Pair Success) (drop (length (out S)) (out S'))" for C
    using pull_request_answered [OF that(1-3) d, of "[]" W blockId] that(4) S'(4) reads_expected [OF _ d(1), of "[]" _ W ns] by fastforce
  ultimately show ?thesis using S'(1) by blast
qed

text \<open>A manager with one block, and the two ends of a session.\<close>

definition sample_transfer :: TransferParams where
  "sample_transfer = \<lparr>blockHash = \<lparr>hashFunc = id, logBuckets = 2, moreEntries = 1\<rparr>, blockMemory = True, entryMemory = True,
     chunkMemory = (\<lambda>_. True)\<rparr>"

definition sample_waits :: Timeouts where
  "sample_waits = \<lparr>communicationTimeoutInMs = 100, retryTimeoutInMs = 50\<rparr>"

definition sample_blocks :: "ServerBlock \<Rightarrow> TransferManager" where
  "sample_blocks b = (new_TransferManager sample_transfer 42)
     \<lparr>m_registeredServerBlocks := snd (Create (blockHash sample_transfer) True (m_blockId b) 0 (new_HashBase (blockHash sample_transfer))),
      server_blocks := [0 \<mapsto> b], next_block := 1\<rparr>"

definition sample_block :: ServerBlock where
  "sample_block = (new_ServerBlock 5)\<lparr>m_blockDataSize := 3, m_isClosed := True, m_chunks := [1, 2, 3] @ replicate 4093 0,
     m_blockCrc32 := CRC32 [1, 2, 3] 0\<rparr>"

definition sample_session :: "(Result \<times> u8 list) list \<Rightarrow> Result list \<Rightarrow> ISession" where
  "sample_session msgs rs = \<lparr>is_version = 2, is_closed = False, is_incoming = msgs, is_sendReplies = rs, is_outgoing = []\<rparr>"

definition sample_client :: "(Result \<times> u8 list) list \<Rightarrow> TransferClient" where
  "sample_client msgs = ResetState \<lparr>lc_state = Connected, lc_pSession = Some (sample_session msgs [])\<rparr>"

lemma sample_client_fields [simp]:
  "tc_state (sample_client msgs) = TransferIdle" "connection (sample_client msgs)" "replies (sample_client msgs) = []"
  "incoming (sample_client msgs) = msgs" "sent (sample_client msgs) = []"
  by (simp_all add: sample_client_def ResetState_def sample_session_def connection_def replies_def incoming_def sent_def
      GetSessionVersion_def TRANSFER_REFACTOR_VERSION_def)

lemma sample_registered: "GetServerBlock sample_transfer (m_blockId b) (sample_blocks b) = Some 0"
proof -
  let ?P = "blockHash sample_transfer"
  obtain r h where c: "Create ?P True (m_blockId b) (0 :: nat) (new_HashBase ?P) = (r, h)" by fastforce
  have "lookup ?P h (m_blockId b) = Some 0" using Create_spec(3) [OF hb_inv_new c] by (auto simp: lookup_new)
  then show ?thesis by (simp add: GetServerBlock_def sample_blocks_def c FindValue_lookup)
qed

theorem pull_delivers_block_witness:
  "\<exists>S' C1 C2. updates sample_transfer 3 (new_TransferSession (sample_blocks sample_block)
       (sample_session [(Success, TransferRequest 5 TransferType_Pull 0)] [NotReady, NotReady])) = Some S'
     \<and> m_state S' = Idle
     \<and> RequestPullTransfer sample_waits 5 True (sample_client (map (Pair Success) (out S'))) = (Success, Some 3, C1)
     \<and> reads sample_waits [2, 2] C1 = Some ([(Success, [1, 2]), (EndOfStream, [3])], C2)"
proof -
  let ?S = "new_TransferSession (sample_blocks sample_block)
       (sample_session [(Success, TransferRequest 5 TransferType_Pull 0)] [NotReady, NotReady])"
  have b: "GetServerBlock sample_transfer 5 (m_pTransferManager ?S) = Some 0"
    using sample_registered [of sample_block] by (simp add: new_TransferSession_def sample_block_def new_ServerBlock_def)
  have m: "server_blocks (m_pTransferManager ?S) 0 = Some sample_block" by (simp add: new_TransferSession_def sample_blocks_def)
  have h: "m_isClosed sample_block" "holds sample_block [1, 2, 3]"
      "m_transfersCompletedEvent sample_block \<longleftrightarrow> m_numPendingTransfers sample_block = 0"
    by (simp_all add: sample_block_def holds_def new_ServerBlock_def kTransferChunkSizeInBytes_def)
  have s: "m_state ?S = Idle" "is_version (m_pSession ?S) \<ge> TRANSFER_REFACTOR_VERSION"
      "is_incoming (m_pSession ?S) = [(Success, TransferRequest 5 TransferType_Pull 0)]" "length (send_replies ?S) < 3" "out ?S = []"
    by (simp_all add: new_TransferSession_def sample_session_def TRANSFER_REFACTOR_VERSION_def send_replies_def out_def)
  have d: "[1, 2, 3 :: u8] \<noteq> []" "length [1, 2, 3 :: u8] < 2 ^ 32" by simp_all
  from pull_delivers_block [OF b m h d s(1-4), of sample_waits "[2, 2]"] obtain S' where S': "updates sample_transfer 3 ?S = Some S'" "m_state S' = Idle"
    and C: "\<forall>C. tc_state C = TransferIdle \<and> connection C \<and> replies C = []
         \<and> incoming C = map (Pair Success) (drop (length (out ?S)) (out S')) \<longrightarrow>
       (\<exists>C1 C2. RequestPullTransfer sample_waits 5 True C = (Success, Some (word_of_nat (length [1, 2, 3 :: u8])), C1)
          \<and> sent C1 = sent C @ [TransferRequest 5 TransferType_Pull 0] \<and> reads sample_waits [2, 2] C1 = Some (expected [2, 2] [1, 2, 3], C2))"
    by blast
  from C [rule_format, of "sample_client (map (Pair Success) (out S'))"] S' show ?thesis by (auto simp: s(5))
qed

end
