(* ===== verification/Transfer_Push.thy ===== *)
theory Transfer_Push
  imports Transfer_Theorems
begin

text \<open>Pushing a block: what the server stores of the messages it receives, and what the client sends.\<close>

subsection \<open>The server\<close>

text \<open>A script in which the messages \<open>ms\<close> are received one after the other, with any pauses.\<close>

definition delivers :: "(Result \<times> u8 list) list \<Rightarrow> u8 list list \<Rightarrow> bool" where
  "delivers script ms \<longleftrightarrow> (\<forall>x \<in> set script. fst x \<in> {Success, NotReady})
     \<and> map snd (filter (\<lambda>x. fst x = Success) script) = ms"

lemma delivers_cases:
  assumes "delivers script (m # ms)"
  obtains (wait) bytes rest where "script = (NotReady, bytes) # rest" and "delivers rest (m # ms)"
    | (message) rest where "script = (Success, m) # rest" and "delivers rest ms"
proof (cases script)
  case Nil
  then show ?thesis using assms by (simp add: delivers_def)
next
  case (Cons x rest)
  obtain r bytes where x: "x = (r, bytes)" by fastforce
  show ?thesis
  proof (cases "r = Success")
    case True
    then show ?thesis using message [of rest] assms by (auto simp: delivers_def Cons x)
  next
    case False
    then show ?thesis using wait [of bytes rest] assms by (auto simp: delivers_def Cons x)
  qed
qed

definition script :: "TransferSession \<Rightarrow> (Result \<times> u8 list) list" where
  "script S = is_incoming (m_pSession S)"

definition take_script :: "(Result \<times> u8 list) list \<Rightarrow> TransferSession \<Rightarrow> TransferSession" where
  "take_script rest S = S\<lparr>m_pSession := (m_pSession S)\<lparr>is_incoming := rest\<rparr>\<rparr>"

lemma receive_script:
  "script S = (NotReady, bytes) # rest \<Longrightarrow> TransferSession_ReceivePayload S = (NotReady, take_script rest S)"
  "script S = (Success, m) # rest \<Longrightarrow> TransferSession_ReceivePayload S = (Success, scratch m (take_script rest S))"
  by (simp_all add: script_def TransferSession_ReceivePayload_def ISession_ReceivePayload_def take_script_def scratch_def)

text \<open>
  The data \<open>d\<close> is pushed to the block at \<open>p\<close>, which was \<open>b\<close>: some of it is stored, the rest is in the
  pieces that are to be received.
\<close>

definition stores :: "TransferManager \<Rightarrow> nat \<Rightarrow> ServerBlock \<Rightarrow> ServerBlock \<Rightarrow> TransferSession \<Rightarrow> bool" where
  "stores M p b b' S \<longleftrightarrow> m_pTransferManager S = M\<lparr>server_blocks := (server_blocks M)(p \<mapsto> b')\<rparr> \<and> m_blockId b' = m_blockId b
     \<and> is_version (m_pSession S) \<ge> TRANSFER_REFACTOR_VERSION"

definition pushing :: "TransferManager \<Rightarrow> nat \<Rightarrow> ServerBlock \<Rightarrow> u8 list \<Rightarrow> TransferSession \<Rightarrow> bool" where
  "pushing M p b d S \<longleftrightarrow> m_pBlock S = Some p \<and> length d \<le> unat (m_totalBytes S)
     \<and> (\<exists>b' acc ms. stores M p b b' S \<and> holds b' acc \<and> m_numPendingTransfers b' = m_numPendingTransfers b + 1
         \<and> d = acc @ concat ms \<and> unat (m_bytesTransferred S) = length acc
         \<and> (\<forall>m \<in> set ms. m \<noteq> [] \<and> length m \<le> kMaxTransferDataChunkSize)
         \<and> delivers (script S) (map chunk_message ms @ [TransferDataSentinel Success (CRC32 d 0)]))"

definition pushed :: "TransferManager \<Rightarrow> nat \<Rightarrow> ServerBlock \<Rightarrow> u8 list \<Rightarrow> TransferSession \<Rightarrow> bool" where
  "pushed M p b d S \<longleftrightarrow> m_pBlock S = None
     \<and> (\<exists>b'. stores M p b b' S \<and> holds b' d \<and> m_isClosed b' \<and> m_numPendingTransfers b' = m_numPendingTransfers b)
     \<and> (\<forall>x \<in> set (script S). fst x = NotReady)"

lemma push_chunk:
  assumes "m_pBlock S = Some p" "stores M p b b' S" "holds b' acc" "unat (m_bytesTransferred S) = length acc"
    and m: "m \<noteq> []" "length m \<le> kMaxTransferDataChunkSize" "length acc + length m \<le> unat (m_totalBytes S)"
    and room: "room_for T (length acc + length m)" and S1: "S1 = scratch (chunk_message m) (take_script rest S)"
  shows "\<exists>b'' n. push_message T S1 = Some ((S1\<lparr>m_pTransferManager := M\<lparr>server_blocks := (server_blocks M)(p \<mapsto> b'')\<rparr>\<rparr>)\<lparr>m_bytesTransferred := n\<rparr>)
    \<and> holds b'' (acc @ m) \<and> m_blockId b'' = m_blockId b' \<and> m_numPendingTransfers b'' = m_numPendingTransfers b' \<and> unat n = length (acc @ m)"
proof -
  have l: "length m < 2000" using m(2) chunk_size(3) by simp
  have numBytes: "ucast (pc_payloadSize (m_scratchPayload S1)) - word_of_nat chunk_offset = (word_of_nat (length m) :: u64)"
    using casts(1) [of "length m + 4"] l by (simp add: S1 scratch_def chunk_message_def chunk_offset_def add.commute)
  have ul: "unat (word_of_nat (length m) :: u64) = length m" using l by (simp add: unat_of_nat)
  have less: "m_bytesTransferred S1 < m_totalBytes S1"
    using assms(4) m by (cases m) (simp_all add: S1 scratch_def take_script_def word_less_nat_alt)
  have min64: "min (word_of_nat (length m)) (m_totalBytes S1 - m_bytesTransferred S1) = (word_of_nat (length m) :: u64)"
  proof (rule min.absorb1)
    have "m_bytesTransferred S \<le> m_totalBytes S" using assms(4) m(3) by (simp add: word_le_nat_alt)
    then have "unat (m_totalBytes S - m_bytesTransferred S) = unat (m_totalBytes S) - length acc" using assms(4) by (simp add: unat_sub)
    then show "word_of_nat (length m) \<le> m_totalBytes S1 - m_bytesTransferred S1"
      using m(3) by (simp add: S1 scratch_def take_script_def word_le_nat_alt ul)
  qed
  have block: "the_block S1 = Some b'" using assms(1,2) by (simp add: S1 scratch_def take_script_def the_block_def stores_def)
  have data: "chunk_data (m_scratchPayload S1) = m @ drop (length m + 4) (pc_payload (m_scratchPayload S))"
    by (simp add: S1 scratch_def take_script_def)
  obtain b'' where b'': "ServerBlock_Write T (chunk_data (m_scratchPayload S1)) (word_of_nat (length m)) b' = Some b''"
      "holds b'' (acc @ m)" "m_blockId b'' = m_blockId b'" "m_numPendingTransfers b'' = m_numPendingTransfers b'"
    using ServerBlock_Write_holds [OF assms(3), of "word_of_nat (length m)" "chunk_data (m_scratchPayload S1)" T] room
    by (auto simp: ul data)
  have sum: "unat (m_bytesTransferred S1 + word_of_nat (length m)) = length (acc @ m)"
    using assms(4) room ul by (simp add: S1 scratch_def take_script_def unat_word_ariths room_for_def)
  have cmd: "command (m_scratchPayload S1) = TransferMessage_TransferDataChunk" by (simp add: S1 scratch_def)
  have "push_message T S1 = Some ((on_block (\<lambda>_. b'') S1)\<lparr>m_bytesTransferred := m_bytesTransferred S1 + word_of_nat (length m)\<rparr>)"
    unfolding push_message_def Let_def numBytes min64 by (simp add: cmd less block b''(1))
  moreover have "on_block (\<lambda>_. b'') S1 = S1\<lparr>m_pTransferManager := M\<lparr>server_blocks := (server_blocks M)(p \<mapsto> b'')\<rparr>\<rparr>"
    using assms(1,2) by (simp add: on_block_def S1 scratch_def take_script_def update_block_def stores_def)
  ultimately show ?thesis using b''(2-4) sum
    by (intro exI [of _ b''] exI [of _ "m_bytesTransferred S1 + word_of_nat (length m)"]) simp
qed

lemma push_sentinel:
  assumes "m_pBlock S = Some p" "stores M p b b' S" "holds b' d" "m_numPendingTransfers b' = m_numPendingTransfers b + 1"
    and rest: "delivers rest []" and S1: "S1 = scratch (TransferDataSentinel Success (CRC32 d 0)) (take_script rest S)"
  shows "\<exists>S'. push_message T S1 = Some S' \<and> pushed M p b d S' \<and> script S' = rest
    \<and> (m_state S' = Idle \<and> out S' = out S @ [TransferStatus Success] \<and> length (send_replies S') \<le> length (send_replies S)
       \<or> m_state S' = SendPayload \<and> message_bytes (m_scratchPayload S') = TransferStatus Success \<and> out S' = out S
         \<and> length (send_replies S') < length (send_replies S))"
proof -
  define S2 where "S2 = end_block (on_block ServerBlock_Close S1)"
  have block: "the_block S1 = Some b'" using assms(1,2) by (simp add: S1 scratch_def take_script_def the_block_def stores_def)
  have "push_message T S1 = Some (send_and_idle (TransferStatus Success) S2)"
    using assms(3) block by (simp add: push_message_def S1 S2_def scratch_def field_result_def holds_def del: code_of_result.simps)
  moreover have S2: "m_pSession S2 = (m_pSession S)\<lparr>is_incoming := rest\<rparr>" "m_pBlock S2 = None"
      "m_pTransferManager S2 = M\<lparr>server_blocks := (server_blocks M)(p \<mapsto> EndTransfer (ServerBlock_Close b'))\<rparr>"
    using assms(1,2) by (simp_all add: S2_def S1 scratch_def take_script_def end_block_def on_block_def update_block_def stores_def)
  moreover have "m_isClosed (EndTransfer (ServerBlock_Close b'))" "m_blockId (EndTransfer (ServerBlock_Close b')) = m_blockId b'"
      "m_numPendingTransfers (EndTransfer (ServerBlock_Close b')) = m_numPendingTransfers b"
    using assms(4) by (simp_all add: EndTransfer_def ServerBlock_Close_def Let_def)
  moreover have "\<forall>x \<in> set rest. fst x = NotReady" using rest by (auto simp: delivers_def filter_empty_conv)
  moreover obtain s st where "send_and_idle (TransferStatus Success) S2 = (scratch (TransferStatus Success) S2)\<lparr>m_state := st, m_pSession := s\<rparr>"
      "same_session (m_pSession S2) s"
      "st = Idle \<and> is_outgoing s = out S2 @ [TransferStatus Success] \<and> length (is_sendReplies s) \<le> length (send_replies S2)
       \<or> st = SendPayload \<and> is_outgoing s = out S2 \<and> length (is_sendReplies s) < length (send_replies S2)"
    using send_and_idle_sends [of S2 "TransferStatus Success"] assms(2) S2(1) by (auto simp: stores_def)
  ultimately show ?thesis using assms(2,3)
    by (intro exI [of _ "send_and_idle (TransferStatus Success) S2"])
      (auto simp: pushed_def stores_def script_def out_def send_replies_def scratch_def same_session_def)
qed

lemma room_mono: "room_for T n \<Longrightarrow> m \<le> n \<Longrightarrow> room_for T m"
  unfolding room_for_def by (meson add_le_mono1 div_le_mono le_trans order_le_less_trans)

text \<open>The states of a push, and how much of the scripts is left.\<close>

definition push_state :: "u8 list list \<Rightarrow> TransferManager \<Rightarrow> nat \<Rightarrow> ServerBlock \<Rightarrow> u8 list \<Rightarrow> TransferSession \<Rightarrow> bool" where
  "push_state before M p b d S \<longleftrightarrow>
    m_state S = StartPushTransfer \<and> pushing M p b d S \<and> message_bytes (m_scratchPayload S) = TransferStatus Success \<and> out S = before
    \<or> m_state S = ReceivePushTransferData \<and> pushing M p b d S \<and> out S = before @ [TransferStatus Success]
    \<or> m_state S = SendPayload \<and> pushed M p b d S \<and> message_bytes (m_scratchPayload S) = TransferStatus Success
      \<and> out S = before @ [TransferStatus Success]
    \<or> m_state S = Idle \<and> pushed M p b d S \<and> out S = before @ [TransferStatus Success, TransferStatus Success]"

definition todo :: "TransferSession \<Rightarrow> nat" where
  "todo S = length (script S) + length (send_replies S) + (if m_state S \<in> {StartPushTransfer, SendPayload} then 1 else 0)"

lemma receive_push_data_receives:
  "m_state S = ReceivePushTransferData \<Longrightarrow> pushing M p b d S \<Longrightarrow> room_for T (length d) \<Longrightarrow> out S = before @ [TransferStatus Success] \<Longrightarrow>
     \<exists>S'. receive_push_data T S = Some S' \<and> push_state before M p b d S' \<and> todo S' < todo S"
proof (induction T S rule: receive_push_data.induct)
  case (1 T S)
  obtain b' acc ms where h: "m_pBlock S = Some p" "length d \<le> unat (m_totalBytes S)" "stores M p b b' S" "holds b' acc"
      "m_numPendingTransfers b' = m_numPendingTransfers b + 1" "d = acc @ concat ms" "unat (m_bytesTransferred S) = length acc"
      "\<forall>m \<in> set ms. m \<noteq> [] \<and> length m \<le> kMaxTransferDataChunkSize"
      "delivers (script S) (map chunk_message ms @ [TransferDataSentinel Success (CRC32 d 0)])"
    using "1.prems"(2) by (auto simp: pushing_def)
  obtain m ms' where "map chunk_message ms @ [TransferDataSentinel Success (CRC32 d 0)] = m # ms'" by (cases ms) auto
  then have del: "delivers (script S) (m # ms')" using h(9) by simp
  show ?case
  proof (cases rule: delivers_cases [OF del])
    case (1 bytes rest)
    have "pushing M p b d (take_script rest S)"
      unfolding pushing_def using h 1(2) \<open>map chunk_message ms @ _ = m # ms'\<close>
      by (intro conjI exI [of _ b'] exI [of _ acc] exI [of _ ms]) (simp_all add: take_script_def stores_def script_def)
    then show ?thesis using receive_script(1) [OF 1(1)] "1.prems" 1(1)
      by (subst receive_push_data.simps)
        (simp add: push_state_def todo_def, simp add: take_script_def out_def script_def send_replies_def)
  next
    case (2 rest)
    define S1 where "S1 = scratch m (take_script rest S)"
    note rcv = receive_script(2) [OF 2(1), folded S1_def]
    show ?thesis
    proof (cases ms)
      case Nil
      then have m: "m = TransferDataSentinel Success (CRC32 d 0)" "ms' = []" "acc = d"
        using \<open>map chunk_message ms @ _ = m # ms'\<close> h(6) by auto
      have "holds b' d" "delivers rest []" "S1 = scratch (TransferDataSentinel Success (CRC32 d 0)) (take_script rest S)"
        using h(4) 2(2) m by (simp_all add: S1_def)
      from push_sentinel [OF h(1,3) this(1) h(5) this(2,3), of T] obtain S' where
        S': "push_message T S1 = Some S'" "pushed M p b d S'" "script S' = rest"
          "m_state S' = Idle \<and> out S' = out S @ [TransferStatus Success] \<and> length (send_replies S') \<le> length (send_replies S)
           \<or> m_state S' = SendPayload \<and> message_bytes (m_scratchPayload S') = TransferStatus Success \<and> out S' = out S
             \<and> length (send_replies S') < length (send_replies S)" by blast
      have "receive_push_data T S = Some S'" using S'(4) by (subst receive_push_data.simps) (auto simp: rcv S'(1))
      then show ?thesis using S' "1.prems"(1,4) 2(1) by (intro exI [of _ S']) (auto simp: push_state_def todo_def)
    next
      case (Cons x xs)
      then have m: "m = chunk_message x" "ms' = map chunk_message xs @ [TransferDataSentinel Success (CRC32 d 0)]"
        using \<open>map chunk_message ms @ _ = m # ms'\<close> by auto
      have x: "x \<noteq> []" "length x \<le> kMaxTransferDataChunkSize" "length acc + length x \<le> unat (m_totalBytes S)"
        "room_for T (length acc + length x)" "S1 = scratch (chunk_message x) (take_script rest S)"
        using h(2,6,8) Cons room_mono [OF "1.prems"(3), of "length acc + length x"] m(1) by (simp_all add: S1_def)
      from push_chunk [OF h(1,3,4,7) x] obtain b'' n where
        P: "push_message T S1 = Some ((S1\<lparr>m_pTransferManager := M\<lparr>server_blocks := (server_blocks M)(p \<mapsto> b'')\<rparr>\<rparr>)\<lparr>m_bytesTransferred := n\<rparr>)"
          "holds b'' (acc @ x)" "m_blockId b'' = m_blockId b'" "m_numPendingTransfers b'' = m_numPendingTransfers b'" "unat n = length (acc @ x)"
        by blast
      define S2 where "S2 = (S1\<lparr>m_pTransferManager := M\<lparr>server_blocks := (server_blocks M)(p \<mapsto> b'')\<rparr>\<rparr>)\<lparr>m_bytesTransferred := n\<rparr>"
      have st: "m_state S2 = ReceivePushTransferData" "out S2 = out S" "script S2 = rest" "send_replies S2 = send_replies S"
        using "1.prems"(1) by (simp_all add: S2_def S1_def scratch_def take_script_def out_def script_def send_replies_def)
      have push: "pushing M p b d S2"
        unfolding pushing_def using h P 2(2) m(2) Cons
        by (intro conjI exI [of _ b''] exI [of _ "acc @ x"] exI [of _ xs])
          (simp_all add: st(3), simp_all add: S2_def S1_def scratch_def take_script_def stores_def)
      moreover have "receive_push_data T S = receive_push_data T S2"
        unfolding receive_push_data.simps [of T S] rcv prod.case P(1) [folded S2_def] option.case st(1) by simp
      moreover have "out S2 = before @ [TransferStatus Success]" using st(2) "1.prems"(4) by simp
      then obtain S' where "receive_push_data T S2 = Some S'" "push_state before M p b d S'" "todo S' < todo S2"
        using "1.IH" [OF rcv [symmetric] refl P(1) [folded S2_def] st(1) st(1) push "1.prems"(3)] by blast
      moreover have "todo S2 < todo S" using st 2(1) "1.prems"(1) by (simp add: todo_def)
      ultimately show ?thesis by (intro exI [of _ S']) simp
    qed
  qed
qed

lemma take_script_fields [simp]:
  "m_state (take_script r S) = m_state S" "m_pTransferManager (take_script r S) = m_pTransferManager S"
  "m_pBlock (take_script r S) = m_pBlock S" "out (take_script r S) = out S" "send_replies (take_script r S) = send_replies S"
  "script (take_script r S) = r" "is_version (m_pSession (take_script r S)) = is_version (m_pSession S)"
  by (simp_all add: take_script_def out_def send_replies_def script_def)

lemma StartPush_sends:
  assumes "push_state before M p b d S" and "m_state S = StartPushTransfer"
  shows "push_state before M p b d (StartPushTransferSession S) \<and> script (StartPushTransferSession S) = script S
    \<and> (if m_state (StartPushTransferSession S) = StartPushTransfer
        then length (send_replies (StartPushTransferSession S)) < length (send_replies S)
        else m_state (StartPushTransferSession S) = ReceivePushTransferData
          \<and> length (send_replies (StartPushTransferSession S)) \<le> length (send_replies S))"
proof -
  have h: "pushing M p b d S" "message_bytes (m_scratchPayload S) = TransferStatus Success" "out S = before"
    using assms by (auto simp: push_state_def)
  have v: "is_version (m_pSession S) \<ge> TRANSFER_REFACTOR_VERSION" using h(1) by (auto simp: pushing_def stores_def)
  obtain r S1 where send: "TransferSession_SendPayload S = (r, S1)" by fastforce
  obtain s where s: "S1 = S\<lparr>m_pSession := s\<rparr>" "same_session (m_pSession S) s"
    "if r = Success then is_outgoing s = out S @ [TransferStatus Success] \<and> length (is_sendReplies s) \<le> length (send_replies S)
     else is_outgoing s = out S \<and> length (is_sendReplies s) < length (send_replies S)"
    using SendPayload_sends [OF send v] h(2) by (auto simp: out_def send_replies_def split: if_splits)
  have "pushing M p b d (S1\<lparr>m_state := st\<rparr>)" "pushing M p b d S1" for st
    using h(1) s(1,2) by (auto simp: pushing_def stores_def same_session_def script_def)
  then show ?thesis using s h assms(2)
    by (auto simp: StartPushTransferSession_def send push_state_def same_session_def out_def send_replies_def script_def split: if_splits)
qed

lemma UpdateSession_stores:
  assumes P: "push_state before M p b d S" and room: "room_for T (length d)"
  shows "\<exists>S'. UpdateSession T S = Some S' \<and> push_state before M p b d S' \<and> (m_state S' \<noteq> Idle \<longrightarrow> todo S' < todo S)
    \<and> (m_state S = Idle \<longrightarrow> m_state S' = Idle)"
proof -
  consider "m_state S = Idle" | "m_state S = StartPushTransfer" | "m_state S = ReceivePushTransferData" | "m_state S = SendPayload"
    using P by (auto simp: push_state_def)
  then show ?thesis
  proof cases
    case 1
    then have h: "pushed M p b d S" "out S = before @ [TransferStatus Success, TransferStatus Success]" using P by (auto simp: push_state_def)
    show ?thesis
    proof (cases "script S")
      case Nil
      then show ?thesis using 1 P by (intro exI [of _ S]) (simp add: UpdateSession_def script_def)
    next
      case (Cons x rest)
      then obtain bytes where x: "script S = (NotReady, bytes) # rest" using h(1) by (cases x) (auto simp: pushed_def)
      have "pushed M p b d (take_script rest S)" using h(1) x by (auto simp: pushed_def stores_def)
      then show ?thesis using 1 h(2) receive_script(1) [OF x]
        by (intro exI [of _ "take_script rest S"]) (simp add: UpdateSession_def push_state_def)
    qed
  next
    case 2
    then show ?thesis using StartPush_sends [OF P 2]
      by (intro exI [of _ "StartPushTransferSession S"]) (auto simp: UpdateSession_def todo_def split: if_splits)
  next
    case 3
    then have h: "pushing M p b d S" "out S = before @ [TransferStatus Success]" using P by (auto simp: push_state_def)
    show ?thesis using receive_push_data_receives [OF 3 h(1) room h(2)] 3 by (auto simp: UpdateSession_def)
  next
    case 4
    then have h: "pushed M p b d S" "message_bytes (m_scratchPayload S) = TransferStatus Success" "out S = before @ [TransferStatus Success]"
      using P by (auto simp: push_state_def)
    have v: "is_version (m_pSession S) \<ge> TRANSFER_REFACTOR_VERSION" using h(1) by (auto simp: pushed_def stores_def)
    obtain r S1 where send: "TransferSession_SendPayload S = (r, S1)" by fastforce
    note s = SendPayload_sends [OF send v]
    have "pushed M p b d (S1\<lparr>m_state := st\<rparr>)" "pushed M p b d S1" for st
      using h(1) s by (auto simp: pushed_def stores_def same_session_def script_def split: if_splits)
    then show ?thesis using 4 s h
      by (intro exI [of _ "if r = Success then S1\<lparr>m_state := Idle\<rparr> else S1"])
        (auto simp: UpdateSession_def SendScratchPayloadAndMoveToIdle_def send push_state_def out_def todo_def send_replies_def script_def
          same_session_def split: if_splits)
  qed
qed

text \<open>Before the request is received, and when it is.\<close>

definition push_waiting :: "TransferManager \<Rightarrow> BlockId \<Rightarrow> u32 \<Rightarrow> u8 list list \<Rightarrow> u8 list \<Rightarrow> TransferSession \<Rightarrow> bool" where
  "push_waiting M blockId wanted ms d S \<longleftrightarrow> m_state S = Idle \<and> m_pTransferManager S = M \<and> is_version (m_pSession S) \<ge> TRANSFER_REFACTOR_VERSION
     \<and> d = concat ms \<and> (\<forall>m \<in> set ms. m \<noteq> [] \<and> length m \<le> kMaxTransferDataChunkSize)
     \<and> delivers (script S) (TransferRequest blockId TransferType_Push wanted # map chunk_message ms @ [TransferDataSentinel Success (CRC32 d 0)])"

lemma push_request_accepted:
  assumes b: "GetServerBlock T blockId M = Some p" "server_blocks M p = Some b" "\<not> m_isClosed b" "holds b []"
    and wanted: "0 < wanted" "length d \<le> unat wanted" "room_for T (unat wanted)" and S: "push_waiting M blockId wanted ms d S"
  shows "\<exists>S'. UpdateSession T S = Some S' \<and> todo S' < todo S
    \<and> (push_waiting M blockId wanted ms d S' \<and> out S' = out S \<or> push_state (out S) M p b d S')"
proof -
  have h: "m_state S = Idle" "m_pTransferManager S = M" "is_version (m_pSession S) \<ge> TRANSFER_REFACTOR_VERSION" "d = concat ms"
      "\<forall>m \<in> set ms. m \<noteq> [] \<and> length m \<le> kMaxTransferDataChunkSize"
      "delivers (script S) (TransferRequest blockId TransferType_Push wanted # map chunk_message ms @ [TransferDataSentinel Success (CRC32 d 0)])"
    using S unfolding push_waiting_def by blast+
  show ?thesis
  proof (cases rule: delivers_cases [OF h(6)])
    case (1 bytes rest)
    have "push_waiting M blockId wanted ms d (take_script rest S)" using S 1(2) by (simp add: push_waiting_def)
    then show ?thesis using receive_script(1) [OF 1(1)] h(1) 1(1)
      by (intro exI [of _ "take_script rest S"]) (simp add: UpdateSession_def todo_def)
  next
    case (2 rest)
    define S1 where "S1 = scratch (TransferRequest blockId TransferType_Push wanted) (take_script rest S)"
    note rcv = receive_script(2) [OF 2(1), folded S1_def]
    define S2 where "S2 = scratch (TransferStatus Success) (((on_block BeginTransfer (S1\<lparr>m_pBlock := Some p\<rparr>))
        \<lparr>m_bytesTransferred := 0, m_crc32 := 0, m_totalBytes := ucast wanted\<rparr>)\<lparr>m_state := StartPushTransfer\<rparr>)"
    have usize: "unat (ucast wanted :: u64) = unat wanted" by (simp add: unsigned_ucast_eq take_bit_nat_eq_self unsigned_less [THEN less_le_trans])
    have pos: "(0 :: u64) < ucast wanted" using wanted(1) by (simp add: word_less_nat_alt usize)
    have reserve: "ServerBlock_Reserve T (ucast wanted) b \<noteq> None"
      using wanted(3) by (simp add: ServerBlock_Reserve_def Pow2Align_chunks usize room_for_def)
    have "UpdateSession T S = ProcessPayload T S1" using h(1) by (simp add: UpdateSession_def rcv)
    also have "\<dots> = start_push T blockId wanted S1" by (simp add: ProcessPayload_def S1_def scratch_def)
    also have "\<dots> = Some (StartPushTransferSession S2)"
      using b h(1,2) reserve pos by (simp add: start_push_def Let_def S1_def S2_def on_block_def scratch_def)
    finally have eq: "UpdateSession T S = Some (StartPushTransferSession S2)" .
    have fields: "m_state S2 = StartPushTransfer" "out S2 = out S" "script S2 = rest" "send_replies S2 = send_replies S"
        "m_pTransferManager S2 = update_block p BeginTransfer M" "m_pBlock S2 = Some p" "m_bytesTransferred S2 = 0"
        "m_totalBytes S2 = ucast wanted" "is_version (m_pSession S2) = is_version (m_pSession S)"
        "message_bytes (m_scratchPayload S2) = TransferStatus Success"
      using h(2) by (simp_all add: S2_def S1_def scratch_def on_block_def) (simp_all add: take_script_def out_def script_def send_replies_def)
    have begun: "holds (BeginTransfer b) []" "m_numPendingTransfers (BeginTransfer b) = m_numPendingTransfers b + 1"
        "m_blockId (BeginTransfer b) = m_blockId b"
      using b(4) by simp_all (simp_all add: BeginTransfer_def Let_def)
    have "pushing M p b d S2"
      unfolding pushing_def using h(3-5) wanted(2) 2(2) begun b(2)
      by (intro conjI exI [of _ "BeginTransfer b"] exI [of _ "[]"] exI [of _ ms]) (simp_all add: fields usize stores_def update_block_def)
    then have "push_state (out S) M p b d S2" by (simp add: push_state_def fields)
    from StartPush_sends [OF this fields(1)] show ?thesis using eq fields 2(1) h(1)
      by (intro exI [of _ "StartPushTransferSession S2"]) (auto simp: todo_def split: if_splits)
  qed
qed

lemma updates_store:
  assumes room: "room_for T (length d)"
  shows "push_state before M p b d S \<Longrightarrow> m_state S = Idle \<or> todo S < k \<Longrightarrow>
    \<exists>S'. updates T k S = Some S' \<and> push_state before M p b d S' \<and> m_state S' = Idle"
proof (induction k arbitrary: S)
  case (Suc k)
  from UpdateSession_stores [OF Suc.prems(1) room] obtain S1 where S1: "UpdateSession T S = Some S1" "push_state before M p b d S1"
    "m_state S1 = Idle \<or> todo S1 < todo S" "m_state S = Idle \<longrightarrow> m_state S1 = Idle" by blast
  then have "m_state S1 = Idle \<or> todo S1 < k" using Suc.prems(2) by auto
  from Suc.IH [OF S1(2) this] S1(1) show ?case by simp
qed simp

lemma updates_accept_and_store:
  assumes b: "GetServerBlock T blockId M = Some p" "server_blocks M p = Some b" "\<not> m_isClosed b" "holds b []"
    and wanted: "0 < wanted" "length d \<le> unat wanted" "room_for T (unat wanted)"
  shows "push_waiting M blockId wanted ms d S \<Longrightarrow> todo S < k \<Longrightarrow>
    \<exists>S'. updates T k S = Some S' \<and> push_state (out S) M p b d S' \<and> m_state S' = Idle"
proof (induction k arbitrary: S)
  case (Suc k)
  from push_request_accepted [OF b wanted Suc.prems(1)] obtain S1 where S1: "UpdateSession T S = Some S1" "todo S1 < todo S"
    "push_waiting M blockId wanted ms d S1 \<and> out S1 = out S \<or> push_state (out S) M p b d S1" by blast
  have k: "todo S1 < k" using S1(2) Suc.prems(2) by simp
  from S1(3) show ?case
  proof
    assume "push_waiting M blockId wanted ms d S1 \<and> out S1 = out S"
    then show ?thesis using Suc.IH [of S1] S1(1) k by auto
  next
    assume "push_state (out S) M p b d S1"
    from updates_store [OF room_mono [OF wanted(3,2)] this disjI2 [OF k]] S1(1) show ?thesis by simp
  qed
qed simp

end
