(* ===== verification/Transfer_Write.thy ===== *)
theory Transfer_Write
  imports Transfer_Push
begin

text \<open>Pushing a block: what the client sends for the buffers of its caller, and the two ends together.\<close>

subsection \<open>The client\<close>

definition push_open :: "TransferClient \<Rightarrow> bool" where
  "push_open C \<longleftrightarrow> connection C \<and> replies C = [] \<and> tc_state C = TransferInProgress \<and> tc_type C = TransferType_Push"

definition write_chunk :: "u8 list \<Rightarrow> TransferClient \<Rightarrow> TransferClient" where
  "write_chunk bytes C =
    (with_sent (sent C @ [chunk_message bytes]) C)
      \<lparr>tc_crc32 := CRC32 bytes (tc_crc32 C), tc_scratchPayload := WritePayload bytes (word_of_nat (length bytes)) (tc_scratchPayload C)\<rparr>"

lemma write_chunk_fields [simp]:
  "tc_totalBytes (write_chunk bytes C) = tc_totalBytes C" "tc_crc32 (write_chunk bytes C) = CRC32 bytes (tc_crc32 C)"
  "incoming (write_chunk bytes C) = incoming C" "replies (write_chunk bytes C) = replies C"
  "connection C \<Longrightarrow> sent (write_chunk bytes C) = sent C @ [chunk_message bytes]" "push_open (write_chunk bytes C) = push_open C"
proof -
  show "tc_totalBytes (write_chunk bytes C) = tc_totalBytes C" "tc_crc32 (write_chunk bytes C) = CRC32 bytes (tc_crc32 C)"
    "incoming (write_chunk bytes C) = incoming C" "replies (write_chunk bytes C) = replies C"
    by (simp_all add: write_chunk_def) (simp_all add: incoming_def replies_def with_sent_def split: option.splits)
  show "connection C \<Longrightarrow> sent (write_chunk bytes C) = sent C @ [chunk_message bytes]"
    by (auto simp: write_chunk_def sent_def with_sent_def connection_def)
  show "push_open (write_chunk bytes C) = push_open C"
    by (auto simp: push_open_def write_chunk_def connection_def replies_def with_sent_def GetSessionVersion_def split: option.splits)
qed

lemma write_loop_step:
  assumes C: "push_open C" and p: "p \<noteq> []" "length p \<le> unat (tc_totalBytes C)"
  shows "write_loop W p r C =
    write_loop W (drop kMaxTransferDataChunkSize p) Success (write_chunk (take kMaxTransferDataChunkSize p) C)"
proof -
  define n where "n = min (min kMaxTransferDataChunkSize (unat (tc_totalBytes C))) (length p)"
  have n: "take n p = take kMaxTransferDataChunkSize p" "drop n p = drop kMaxTransferDataChunkSize p" "n \<le> kMaxTransferDataChunkSize" "n < 2000"
    "n \<le> length p"
    using p(2) chunk_size(3) by (auto simp: n_def min_def)
  have pos: "tc_totalBytes C > 0" using p by (cases p) (simp_all add: word_less_nat_alt)
  have u: "unat (word_of_nat n :: u64) = n" using n(4) by (simp add: unat_of_nat)
  define C1 where "C1 = C\<lparr>tc_crc32 := CRC32 (take n p) (tc_crc32 C), tc_scratchPayload := WritePayload p (word_of_nat n) (tc_scratchPayload C)\<rparr>"
  have C1: "connection C1" "replies C1 = []" "sent C1 = sent C"
    using C by (simp_all add: C1_def push_open_def connection_def replies_def sent_def)
  have bytes: "message_bytes (tc_scratchPayload C1) = chunk_message (take n p)"
    using message_bytes_WritePayload [of "word_of_nat n" p "tc_scratchPayload C"] n(3,5) by (simp add: C1_def u)
  have scratch: "WritePayload (take n p) (word_of_nat n) c = WritePayload p (word_of_nat n) c" for c
    by (simp add: WritePayload_def u)
  have "with_sent (sent C1 @ [chunk_message (take n p)]) C1 = write_chunk (take n p) C"
    using n(5) by (simp add: C1_def write_chunk_def with_sent_def scratch min_def sent_def)
  then have send: "SendTransferPayload (tc_scratchPayload C1) t q C1 = (Success, write_chunk (take n p) C)" for t q
    using send_next [OF C1(1,2), of "tc_scratchPayload C1" t q] bytes by simp
  have "write_loop W p r C = write_loop W (drop n p) Success (write_chunk (take n p) C)"
    unfolding write_loop.simps [of W p r C] Let_def n_def [symmetric]
    unfolding C1_def [symmetric] send prod.case using pos p(1) by simp
  then show ?thesis by (simp only: n(1,2))
qed

lemma write_loop_sends:
  "push_open C \<Longrightarrow> length p \<le> unat (tc_totalBytes C) \<Longrightarrow> \<exists>C'. write_loop W p r C = (if p = [] then r else Success, [], C')
    \<and> push_open C' \<and> sent C' = sent C @ data_messages p \<and> tc_crc32 C' = CRC32 p (tc_crc32 C)
    \<and> tc_totalBytes C' = tc_totalBytes C \<and> incoming C' = incoming C"
proof (induction "length p" arbitrary: p r C rule: less_induct)
  case less
  show ?case
  proof (cases "p = []")
    case True
    then show ?thesis using less.prems by (simp add: write_loop.simps [of W "[]"])
  next
    case False
    let ?k = kMaxTransferDataChunkSize
    have shorter: "length (drop ?k p) < length p" using False chunk_size(2) by (cases p) simp_all
    have "connection C" using less.prems(1) by (simp add: push_open_def)
    moreover have "push_open (write_chunk (take ?k p) C)" using less.prems(1) by simp
    moreover have "length (drop ?k p) \<le> unat (tc_totalBytes (write_chunk (take ?k p) C))" using shorter less.prems(2) by simp
    ultimately obtain C' where
      C': "write_loop W (drop ?k p) Success (write_chunk (take ?k p) C) = (Success, [], C')"
      "push_open C'" "sent C' = sent C @ [chunk_message (take ?k p)] @ data_messages (drop ?k p)"
      "tc_crc32 C' = CRC32 (drop ?k p) (CRC32 (take ?k p) (tc_crc32 C))" "tc_totalBytes C' = tc_totalBytes C" "incoming C' = incoming C"
      using less.hyps [OF shorter, of "write_chunk (take ?k p) C" Success] by auto
    have "CRC32 (drop ?k p) (CRC32 (take ?k p) c) = CRC32 p c" for c
      by (simp only: CRC32_append [symmetric] append_take_drop_id)
    then show ?thesis using C' write_loop_step [OF less.prems(1) False less.prems(2), of W r] False
      by (intro exI [of _ C']) (simp add: data_messages_step)
  qed
qed

fun writes :: "Timeouts \<Rightarrow> u8 list list \<Rightarrow> TransferClient \<Rightarrow> Result list \<times> TransferClient" where
  "writes W [] C = ([], C)"
| "writes W (p # ps) C =
    (let (r, C1) = WritePushTransferData W p C; (rs, C2) = writes W ps C1 in (r # rs, C2))"

lemma writes_send:
  "push_open C \<Longrightarrow> \<forall>p \<in> set ps. p \<noteq> [] \<and> length p \<le> unat (tc_totalBytes C) \<Longrightarrow> \<exists>C'. writes W ps C = (map (\<lambda>_. Success) ps, C')
    \<and> push_open C' \<and> sent C' = sent C @ concat (map data_messages ps) \<and> tc_crc32 C' = CRC32 (concat ps) (tc_crc32 C)
    \<and> tc_totalBytes C' = tc_totalBytes C \<and> incoming C' = incoming C"
proof (induction ps arbitrary: C)
  case (Cons p ps)
  obtain C1 where C1: "write_loop W p Error C = (Success, [], C1)" "push_open C1" "sent C1 = sent C @ data_messages p"
    "tc_crc32 C1 = CRC32 p (tc_crc32 C)" "tc_totalBytes C1 = tc_totalBytes C" "incoming C1 = incoming C"
    using write_loop_sends [OF Cons.prems(1), of p W Error] Cons.prems(2) by auto
  have "WritePushTransferData W p C = (Success, C1)" using Cons.prems(1) C1(1) by (simp add: WritePushTransferData_def push_open_def)
  with Cons.IH [OF C1(2)] Cons.prems(2) C1 show ?case by (auto simp: CRC32_append)
qed simp

definition push_messages :: "BlockId \<Rightarrow> u32 \<Rightarrow> u8 list list \<Rightarrow> u8 list list" where
  "push_messages blockId n ps =
    TransferRequest blockId TransferType_Push n # concat (map data_messages ps) @ [TransferDataSentinel Success (CRC32 (concat ps) 0)]"

definition push_all :: "Timeouts \<Rightarrow> BlockId \<Rightarrow> u64 \<Rightarrow> u8 list list \<Rightarrow> TransferClient \<Rightarrow> Result list \<times> TransferClient" where
  "push_all W blockId n ps C =
    (let (r, C1) = RequestPushTransfer W blockId n C; (rs, C2) = writes W ps C1; (r', C3) = ClosePushTransfer W False C2
     in (r # rs @ [r'], C3))"

lemma push_all_sends:
  assumes C: "tc_state C = TransferIdle" "connection C" "replies C = []"
    and i: "incoming C = [(Success, TransferStatus Success), (Success, TransferStatus Success)]"
    and n: "blockId \<noteq> kInvalidBlockId" "0 < n" "unat n < 2 ^ 32" and ps: "\<forall>p \<in> set ps. p \<noteq> [] \<and> length p \<le> unat n"
  shows "\<exists>C'. push_all W blockId n ps C = (replicate (length ps + 2) Success, C')
    \<and> tc_state C' = TransferIdle \<and> sent C' = sent C @ push_messages blockId (ucast n) ps"
proof -
  let ?request = "TransferRequest blockId TransferType_Push (ucast n)"
  define C1 where "C1 = begin_transfer (ucast n)
      ((with_incoming [(Success, TransferStatus Success)] (with_sent (sent C @ [?request]) C))\<lparr>tc_type := TransferType_Push\<rparr>)"
  have un: "unat (ucast n :: u32) = unat n" using n(3) by (simp add: unsigned_ucast_eq take_bit_nat_eq_self)
  have r1: "RequestPushTransfer W blockId n C = (Success, C1)"
    using C n(1,2) by (simp add: RequestPushTransfer_def transact_next [OF C(2,3) i] C1_def field_result_def connection_def del: code_of_result.simps)
  have C1: "push_open C1" "sent C1 = sent C @ [?request]" "incoming C1 = [(Success, TransferStatus Success)]" "tc_crc32 C1 = 0"
      "unat (tc_totalBytes C1) = unat n"
    using C by (simp_all add: push_open_def C1_def) (simp_all add: begin_transfer_def un)
  obtain C2 where C2: "writes W ps C1 = (map (\<lambda>_. Success) ps, C2)" "push_open C2" "sent C2 = sent C1 @ concat (map data_messages ps)"
      "tc_crc32 C2 = CRC32 (concat ps) 0" "incoming C2 = [(Success, TransferStatus Success)]"
    using writes_send [OF C1(1), of ps W] ps C1 by auto
  have "connection C2" "replies C2 = []" "tc_state C2 = TransferInProgress" "tc_type C2 = TransferType_Push"
    using C2(2) by (simp_all add: push_open_def)
  then have "ClosePushTransfer W False C2 = (Success,
      (with_incoming [] (with_sent (sent C2 @ [TransferDataSentinel Success (tc_crc32 C2)]) C2))\<lparr>tc_state := TransferIdle\<rparr>)"
    by (simp add: ClosePushTransfer_def transact_next [OF _ _ C2(5)] field_result_def del: code_of_result.simps)
  then show ?thesis using r1 C2 C1(2) \<open>connection C2\<close>
    by (simp add: push_all_def push_messages_def map_replicate_const replicate_append_same [symmetric])
qed

lemma push_messages_pieces:
  "push_messages blockId n ps = TransferRequest blockId TransferType_Push n
     # map chunk_message (concat (map data_pieces ps)) @ [TransferDataSentinel Success (CRC32 (concat ps) 0)]"
proof -
  have "concat (map data_messages ps) = map chunk_message (concat (map data_pieces ps))"
    by (induction ps) (simp_all add: data_messages_def)
  then show ?thesis by (simp add: push_messages_def)
qed

lemma concat_data_pieces: "concat (concat (map (pieces n) ps)) = concat ps"
  by (induction ps) simp_all

subsection \<open>Pushing a block\<close>

text \<open>C31.
  A block that is pushed is stored whole.  A client opens a block of another client for \<open>n\<close> bytes, writes
  any buffers to it that fit and finalizes it; when its session refuses none of the messages it sends (a
  refused message is sent again and checksummed again) and it gets the two answers, all its calls succeed.  A server that receives these messages, with any pauses between them and
  whatever its session answers to the attempts to send, gives just these answers, is idle after enough
  updates, and the block is closed, holds the concatenation of the buffers with its checksum, and counts
  no more transfers than before.
\<close>

theorem push_stores_block:
  assumes C: "tc_state C = TransferIdle" "connection C" "replies C = []"
      "incoming C = [(Success, TransferStatus Success), (Success, TransferStatus Success)]"
    and n: "blockId \<noteq> kInvalidBlockId" "0 < n" "unat n < 2 ^ 32"
    and ps: "\<forall>p \<in> set ps. p \<noteq> []" "length (concat ps) \<le> unat n"
    and b: "GetServerBlock T blockId M = Some p" "server_blocks M p = Some b" "\<not> m_isClosed b" "holds b []" "room_for T (unat n)"
  shows "\<exists>C'. push_all W blockId n ps C = (replicate (length ps + 2) Success, C') \<and> tc_state C' = TransferIdle
    \<and> (\<forall>S k. m_state S = Idle \<and> m_pTransferManager S = M \<and> is_version (m_pSession S) \<ge> TRANSFER_REFACTOR_VERSION
          \<and> delivers (script S) (drop (length (sent C)) (sent C')) \<and> todo S < k \<longrightarrow>
        (\<exists>S' b'. updates T k S = Some S' \<and> m_state S' = Idle \<and> m_pBlock S' = None
           \<and> out S' = out S @ [TransferStatus Success, TransferStatus Success]
           \<and> server_blocks (m_pTransferManager S') p = Some b' \<and> holds b' (concat ps) \<and> m_isClosed b'
           \<and> m_numPendingTransfers b' = m_numPendingTransfers b))"
proof -
  have each: "\<forall>p \<in> set ps. p \<noteq> [] \<and> length p \<le> unat n"
  proof
    fix q assume q: "q \<in> set ps"
    then have "length q \<le> length (concat ps)" by (induction ps) auto
    with ps q show "q \<noteq> [] \<and> length q \<le> unat n" by auto
  qed
  obtain C' where C': "push_all W blockId n ps C = (replicate (length ps + 2) Success, C')" "tc_state C' = TransferIdle"
      "sent C' = sent C @ push_messages blockId (ucast n) ps"
    using push_all_sends [OF C n each] by blast
  have un: "unat (ucast n :: u32) = unat n" using n(3) by (simp add: unsigned_ucast_eq take_bit_nat_eq_self)
  have pos: "0 < (ucast n :: u32)" using n(2) by (simp add: word_less_nat_alt un)
  have "\<exists>S' b'. updates T k S = Some S' \<and> m_state S' = Idle \<and> m_pBlock S' = None
           \<and> out S' = out S @ [TransferStatus Success, TransferStatus Success]
           \<and> server_blocks (m_pTransferManager S') p = Some b' \<and> holds b' (concat ps) \<and> m_isClosed b'
           \<and> m_numPendingTransfers b' = m_numPendingTransfers b"
    if S: "m_state S = Idle" "m_pTransferManager S = M" "is_version (m_pSession S) \<ge> TRANSFER_REFACTOR_VERSION"
      "delivers (script S) (drop (length (sent C)) (sent C'))" "todo S < k" for S k
  proof -
    have "\<forall>m \<in> set (concat (map data_pieces ps)). m \<noteq> [] \<and> length m \<le> kMaxTransferDataChunkSize"
      using pieces_bound [of _ "kMaxTransferDataChunkSize - 1", unfolded chunk_size(1)] by auto
    then have "push_waiting M blockId (ucast n) (concat (map data_pieces ps)) (concat ps) S"
      using S C'(3) by (simp add: push_waiting_def concat_data_pieces push_messages_pieces)
    from updates_accept_and_store [OF b(1-4) pos _ _ this S(5)] ps(2) b(5) obtain S' where
      S': "updates T k S = Some S'" "push_state (out S) M p b (concat ps) S'" "m_state S' = Idle" by (auto simp: un)
    then have "pushed M p b (concat ps) S'" "out S' = out S @ [TransferStatus Success, TransferStatus Success]"
      by (simp_all add: push_state_def)
    with S' show ?thesis by (auto simp: pushed_def stores_def)
  qed
  with C'(1,2) show ?thesis by blast
qed

definition open_block :: ServerBlock where "open_block = new_ServerBlock 5"

theorem push_stores_block_witness:
  "\<exists>C' k S' b'. push_all sample_waits 5 3 [[1, 2], [3]] (sample_client [(Success, TransferStatus Success), (Success, TransferStatus Success)])
       = ([Success, Success, Success, Success], C')
     \<and> updates sample_transfer k (new_TransferSession (sample_blocks open_block)
         (sample_session ((NotReady, []) # map (Pair Success) (sent C')) [NotReady])) = Some S'
     \<and> server_blocks (m_pTransferManager S') 0 = Some b' \<and> holds b' [1, 2, 3] \<and> m_isClosed b'"
proof -
  let ?C = "sample_client [(Success, TransferStatus Success), (Success, TransferStatus Success)]"
  have b: "GetServerBlock sample_transfer 5 (sample_blocks open_block) = Some 0" "server_blocks (sample_blocks open_block) 0 = Some open_block"
      "\<not> m_isClosed open_block" "holds open_block []"
    using sample_registered [of open_block] by (simp_all add: open_block_def holds_new) (simp_all add: sample_blocks_def new_ServerBlock_def)
  have room: "room_for sample_transfer (unat (3 :: u64))" by (simp add: room_for_def sample_transfer_def)
  from push_stores_block [of ?C 5 3 "[[1, 2], [3]]", OF _ _ _ _ _ _ _ _ _ b room, of sample_waits] obtain C' where
    C': "push_all sample_waits 5 3 [[1, 2], [3]] ?C = (replicate (length [[1, 2], [3 :: u8]] + 2) Success, C')"
    and server: "\<forall>S k. m_state S = Idle \<and> m_pTransferManager S = sample_blocks open_block \<and> is_version (m_pSession S) \<ge> TRANSFER_REFACTOR_VERSION
          \<and> delivers (script S) (drop (length (sent ?C)) (sent C')) \<and> todo S < k \<longrightarrow>
        (\<exists>S' b'. updates sample_transfer k S = Some S' \<and> m_state S' = Idle \<and> m_pBlock S' = None
           \<and> out S' = out S @ [TransferStatus Success, TransferStatus Success]
           \<and> server_blocks (m_pTransferManager S') 0 = Some b' \<and> holds b' (concat [[1, 2], [3]]) \<and> m_isClosed b'
           \<and> m_numPendingTransfers b' = m_numPendingTransfers open_block)"
    by auto
  let ?S = "new_TransferSession (sample_blocks open_block) (sample_session ((NotReady, []) # map (Pair Success) (sent C')) [NotReady])"
  have "delivers (script ?S) (sent C')"
    by (auto simp: delivers_def new_TransferSession_def sample_session_def script_def filter_map comp_def)
  then have "\<exists>k S' b'. updates sample_transfer k ?S = Some S' \<and> server_blocks (m_pTransferManager S') 0 = Some b'
      \<and> holds b' [1, 2, 3] \<and> m_isClosed b'"
    using server [rule_format, of ?S "Suc (todo ?S)"]
    by (intro exI [of _ "Suc (todo ?S)"]) (auto simp: new_TransferSession_def sample_session_def TRANSFER_REFACTOR_VERSION_def simp del: updates.simps)
  with C' show ?thesis by (intro exI [of _ C']) (auto simp del: updates.simps)
qed

end
