(* ===== verification/Transfer_Safety.thy ===== *)
theory Transfer_Safety
  imports Transfer_Write
begin

text \<open>
  What holds of a transfer whatever the other end sends: the client stays within its buffers and every
  read returns, and the transfers counted on a block are those in progress; and where this fails.
\<close>

subsection \<open>Reading\<close>

text \<open>The chunk the client holds is within its buffer; nothing longer than the buffer is received.\<close>

definition within :: "TransferClient \<Rightarrow> bool" where
  "within C \<longleftrightarrow> tc_dataChunkBytesTransfered C \<le> tc_dataChunkSizeInBytes C
     \<and> unat (tc_dataChunkSizeInBytes C) \<le> kMaxTransferDataChunkSize
     \<and> length (pc_payload (tc_scratchPayload C)) = kMaxPayloadSizeInBytes
     \<and> (\<forall>x \<in> set (incoming C). length (snd x) \<le> kMaxPayloadSizeInBytes)"

lemma CreatePayload_length:
  "length object \<le> length (pc_payload c) \<Longrightarrow> length (pc_payload (CreatePayload object c)) = length (pc_payload c)"
  by (simp add: CreatePayload_def memcpy_def)

lemma receive_loop_within:
  "receive_loop timeout retry elapsed c s = (r, c', s') \<Longrightarrow> \<forall>x \<in> set (is_incoming s). length (snd x) \<le> length (pc_payload c) \<Longrightarrow>
     length (pc_payload c') = length (pc_payload c) \<and> set (is_incoming s') \<subseteq> set (is_incoming s)"
proof (induction timeout retry elapsed c s rule: receive_loop.induct)
  case (1 timeout retry elapsed c s)
  show ?case
  proof (cases "is_incoming s")
    case Nil
    with "1.prems" show ?thesis by (simp add: receive_loop.simps)
  next
    case (Cons x rest)
    obtain r1 c1 s1 where p: "ISession_ReceivePayload c s = (r1, c1, s1)" by (metis prod.exhaust)
    have one: "length (pc_payload c1) = length (pc_payload c)" "is_incoming s1 = rest"
      using p Cons "1.prems"(2) by (auto simp: ISession_ReceivePayload_def CreatePayload_length split: if_splits prod.splits)
    have un: "receive_loop timeout retry elapsed c s =
      (if r1 = NotReady \<and> elapsed + retry \<le> timeout then receive_loop timeout retry (elapsed + retry) c1 s1 else (r1, c1, s1))"
      using Cons p by (subst receive_loop.simps) (simp add: Let_def)
    show ?thesis
    proof (cases "r1 = NotReady \<and> elapsed + retry \<le> timeout")
      case True
      have "length (pc_payload c') = length (pc_payload c1) \<and> set (is_incoming s') \<subseteq> set (is_incoming s1)"
        using Cons one "1.prems" un True by (intro "1.IH" [OF _ p [symmetric] refl refl refl True]) auto
      with one Cons show ?thesis by auto
    next
      case False
      with "1.prems"(1) un one Cons show ?thesis by auto
    qed
  qed
qed

lemma ReceiveTransferPayload_within:
  assumes "ReceiveTransferPayload container timeout retry C = (r, container', C')"
    and "\<forall>x \<in> set (incoming C). length (snd x) \<le> length (pc_payload container)"
  shows "length (pc_payload container') = length (pc_payload container) \<and> set (incoming C') \<subseteq> set (incoming C)
    \<and> (\<exists>c. C' = C\<lparr>tc_client := c\<rparr>)"
proof (cases "lc_pSession (tc_client C)")
  case None
  with assms show ?thesis by (auto simp: ReceiveTransferPayload_def ReceiveSizedPayload_def incoming_def intro: exI [of _ "tc_client C"])
next
  case (Some s)
  obtain r1 c1 s1 where loop: "receive_loop timeout retry 0 container s = (r1, c1, s1)" by (metis prod.exhaust)
  from receive_loop_within [OF loop] assms Some loop show ?thesis
    by (auto simp: ReceiveTransferPayload_def ReceiveSizedPayload_def incoming_def)
qed

lemma new_container_length: "length (pc_payload new_SizedPayloadContainer) = kMaxPayloadSizeInBytes"
  by (simp add: new_SizedPayloadContainer_def)

lemma fetch_sentinel_within:
  assumes "within C" and "fetch_sentinel W C = (r, C')"
  shows "within C' \<and> tc_totalBytes C' = tc_totalBytes C \<and> tc_dataChunkSizeInBytes C' = tc_dataChunkSizeInBytes C
    \<and> tc_dataChunkBytesTransfered C' = tc_dataChunkBytesTransfered C"
proof -
  obtain r1 sentinel C1 where rcv: "ReceiveTransferPayload new_SizedPayloadContainer kTransferChunkTimeoutInMs (retryTimeoutInMs W) C
      = (r1, sentinel, C1)" by (metis prod.exhaust)
  have "\<forall>x \<in> set (incoming C). length (snd x) \<le> length (pc_payload new_SizedPayloadContainer)"
    using assms(1) by (simp add: within_def new_container_length)
  from ReceiveTransferPayload_within [OF rcv this] obtain c where C1: "C1 = C\<lparr>tc_client := c\<rparr>" "set (incoming C1) \<subseteq> set (incoming C)" by blast
  have "within C1" using assms(1) C1 by (auto simp: within_def)
  moreover have "C' = C1 \<or> C' = C1\<lparr>tc_state := TransferError\<rparr>"
    using assms(2) by (auto simp: fetch_sentinel_def rcv split: if_splits)
  moreover have "within (C1\<lparr>tc_state := TransferError\<rparr>)" using calculation(1) by (simp add: within_def)
  ultimately show ?thesis using C1(1) by auto
qed

text \<open>After a chunk was fetched there is something left to do.\<close>

lemma fetch_chunk_within:
  assumes "within C" and "tc_totalBytes C > 0" and "fetch_chunk W C = (r, C')"
  shows "within C' \<and> (tc_state C' = TransferInProgress \<longrightarrow>
    tc_totalBytes C' > 0 \<or> tc_dataChunkBytesTransfered C' < tc_dataChunkSizeInBytes C')"
proof -
  obtain r1 chunk C1 where rcv: "ReceiveTransferPayload (tc_scratchPayload C) kTransferChunkTimeoutInMs (retryTimeoutInMs W) C
      = (r1, chunk, C1)" by (metis prod.exhaust)
  have "\<forall>x \<in> set (incoming C). length (snd x) \<le> length (pc_payload (tc_scratchPayload C))" using assms(1) by (simp add: within_def)
  from ReceiveTransferPayload_within [OF rcv this] obtain c where C1: "C1 = C\<lparr>tc_client := c\<rparr>" "set (incoming C1) \<subseteq> set (incoming C)"
    "length (pc_payload chunk) = length (pc_payload (tc_scratchPayload C))" by blast
  define C2 where "C2 = C1\<lparr>tc_scratchPayload := chunk\<rparr>"
  have C2: "within C2" "tc_totalBytes C2 = tc_totalBytes C" using assms(1) C1 by (auto simp: within_def C2_def incoming_def)
  define n where "n = min (ucast (min (ucast (pc_payloadSize chunk) - word_of_nat chunk_offset :: u64) (word_of_nat kMaxTransferDataChunkSize)) :: u32)
      (tc_totalBytes C2)"
  have n: "unat n \<le> kMaxTransferDataChunkSize" "n \<le> tc_totalBytes C2"
  proof -
    let ?m = "min (ucast (pc_payloadSize chunk) - word_of_nat chunk_offset :: u64) (word_of_nat kMaxTransferDataChunkSize)"
    have "unat ?m \<le> unat (word_of_nat kMaxTransferDataChunkSize :: u64)" by (simp only: word_le_nat_alt [symmetric] min.cobounded2)
    also have "\<dots> = kMaxTransferDataChunkSize" using chunk_size(3) by (simp add: unat_of_nat)
    finally have le: "unat ?m \<le> kMaxTransferDataChunkSize" .
    have "unat (ucast x :: u32) \<le> unat x" for x :: u64 by (simp add: unsigned_ucast_eq)
    from this [of ?m] le have "unat (ucast ?m :: u32) \<le> kMaxTransferDataChunkSize" by (rule le_trans)
    moreover have "n \<le> ucast ?m" "n \<le> tc_totalBytes C2" by (simp_all add: n_def)
    ultimately show "unat n \<le> kMaxTransferDataChunkSize" "n \<le> tc_totalBytes C2" by (auto simp: word_le_nat_alt)
  qed
  define C3 where "C3 = C2\<lparr>tc_dataChunkSizeInBytes := ucast n, tc_dataChunkBytesTransfered := 0,
      tc_totalBytes := tc_totalBytes C2 - n, tc_crc32 := CRC32 (take (unat n) (chunk_data chunk)) (tc_crc32 C2)\<rparr>"
  have un: "unat (ucast n :: u64) = unat n" using n(1) chunk_size(3) by (simp add: unsigned_ucast_eq take_bit_nat_eq_self)
  have C3: "within C3" using C2(1) n(1) by (simp add: within_def C3_def incoming_def un)
  have fetch: "fetch_chunk W C = (if r1 = Success \<and> command chunk = TransferMessage_TransferDataChunk
      then (if tc_totalBytes C3 = 0 then fetch_sentinel W C3 else (Success, C3)) else (r1, C2\<lparr>tc_state := TransferError\<rparr>))"
    unfolding fetch_chunk_def rcv Let_def prod.case C2_def [symmetric]
    unfolding n_def [symmetric] C3_def [symmetric] by (rule refl)
  have left: "tc_dataChunkBytesTransfered C3 < tc_dataChunkSizeInBytes C3" if "tc_totalBytes C3 = 0"
  proof -
    have "n = tc_totalBytes C" using that C2(2) by (simp add: C3_def)
    then have "0 < unat n" using assms(2) by (simp add: word_less_nat_alt)
    then show ?thesis by (simp add: C3_def word_less_nat_alt un)
  qed
  show ?thesis
  proof (cases "r1 = Success \<and> command chunk = TransferMessage_TransferDataChunk")
    case False
    then have "C' = C2\<lparr>tc_state := TransferError\<rparr>" using fetch assms(3) by auto
    then show ?thesis using C2(1) by (simp add: within_def incoming_def)
  next
    case True
    show ?thesis
    proof (cases "tc_totalBytes C3 = 0")
      case zero: True
      then have "fetch_sentinel W C3 = (r, C')" using fetch True assms(3) by auto
      from fetch_sentinel_within [OF C3 this] left [OF zero] show ?thesis by simp
    next
      case False
      then have "C' = C3" using fetch True assms(3) by auto
      then show ?thesis using C3 False by (simp add: word_neq_0_conv)
    qed
  qed
qed

lemma copy_local_within:
  assumes "within C" and "0 < n" and "tc_dataChunkSizeInBytes C - tc_dataChunkBytesTransfered C > 0" and "copy_local n r C = (bytes, r', C')"
  shows "within C' \<and> length bytes = unat (min n (tc_dataChunkSizeInBytes C - tc_dataChunkBytesTransfered C))
    \<and> (tc_state C' = TransferInProgress \<longrightarrow> tc_totalBytes C' > 0 \<or> tc_dataChunkBytesTransfered C' < tc_dataChunkSizeInBytes C')"
proof -
  define k where "k = min n (tc_dataChunkSizeInBytes C - tc_dataChunkBytesTransfered C)"
  have w: "unat (tc_dataChunkBytesTransfered C) \<le> unat (tc_dataChunkSizeInBytes C)" "unat (tc_dataChunkSizeInBytes C) \<le> kMaxTransferDataChunkSize"
    "length (pc_payload (tc_scratchPayload C)) = kMaxTransferDataChunkSize + 4"
    using assms(1) by (simp_all add: within_def word_le_nat_alt kMaxTransferDataChunkSize_def msg_size_defs)
  have k: "unat k \<le> unat (tc_dataChunkSizeInBytes C) - unat (tc_dataChunkBytesTransfered C)"
  proof -
    have "unat k \<le> unat (tc_dataChunkSizeInBytes C - tc_dataChunkBytesTransfered C)"
      by (simp only: k_def word_le_nat_alt [symmetric] min.cobounded2)
    then show ?thesis using w(1) by (simp add: unat_sub word_le_nat_alt)
  qed
  have sum: "unat (tc_dataChunkBytesTransfered C + k) = unat (tc_dataChunkBytesTransfered C) + unat k"
    using w k chunk_size(3) by (intro unat_add_no_wrap) simp
  define C1 where "C1 = C\<lparr>tc_dataChunkBytesTransfered := tc_dataChunkBytesTransfered C + k\<rparr>"
  have "within C1" using assms(1) w k sum by (simp add: within_def C1_def word_le_nat_alt incoming_def)
  moreover have "within (C1\<lparr>tc_state := TransferIdle\<rparr>)" using calculation by (simp add: within_def)
  moreover have "length bytes = unat k"
    using assms(4) w k by (auto simp: copy_local_def Let_def k_def [symmetric] chunk_data_def chunk_offset_def split: if_splits)
  moreover have "C' = (if tc_dataChunkBytesTransfered C1 = tc_dataChunkSizeInBytes C1 \<and> tc_totalBytes C1 = 0
      then C1\<lparr>tc_state := TransferIdle\<rparr> else C1)"
    using assms(4) by (auto simp: copy_local_def Let_def k_def [symmetric] C1_def split: if_splits)
  ultimately show ?thesis
    by (auto simp: k_def [symmetric] within_def word_neq_0_conv le_less split: if_splits)
qed

lemma read_loop_within:
  "within C \<Longrightarrow> (tc_state C = TransferInProgress \<longrightarrow> tc_totalBytes C > 0 \<or> tc_dataChunkBytesTransfered C < tc_dataChunkSizeInBytes C)
    \<Longrightarrow> \<exists>r' bytes C'. read_loop W n acc r C = Some (r', acc @ bytes, C') \<and> within C' \<and> length bytes \<le> unat n"
proof (induction W n acc r C rule: read_loop.induct)
  case (1 W n acc r C)
  let ?avail = "tc_dataChunkSizeInBytes C - tc_dataChunkBytesTransfered C"
  show ?case
  proof (cases "n > 0 \<and> tc_state C = TransferInProgress")
    case False
    then show ?thesis using "1.prems"(1) by (subst read_loop.simps) auto
  next
    case go: True
    show ?thesis
    proof (cases "?avail > 0")
      case True
      obtain bytes r1 C1 where copy: "copy_local n r C = (bytes, r1, C1)" by (metis prod.exhaust)
      note c = copy_local_within [OF "1.prems"(1) conjunct1 [OF go] True copy]
      from "1.IH"(1) [OF go True copy [symmetric] refl] c obtain r' bytes' C' where
        rest: "read_loop W (n - min n ?avail) (acc @ bytes) r1 C1 = Some (r', (acc @ bytes) @ bytes', C')" "within C'"
          "length bytes' \<le> unat (n - min n ?avail)" by blast
      have "unat (n - min n ?avail) = unat n - length bytes" "length bytes \<le> unat n"
        using c by (simp_all add: unat_sub word_le_nat_alt [symmetric])
      moreover have "read_loop W n acc r C = read_loop W (n - min n ?avail) (acc @ bytes) r1 C1"
        by (subst read_loop.simps) (simp add: go True copy)
      ultimately show ?thesis using rest by (intro exI [of _ r'] exI [of _ "bytes @ bytes'"] exI [of _ C']) simp
    next
      case False
      then have "tc_totalBytes C > 0" using "1.prems" go by (auto simp: within_def word_less_nat_alt word_le_nat_alt unat_sub)
      obtain r1 C1 where fetch: "fetch_chunk W C = (r1, C1)" by fastforce
      note f = fetch_chunk_within [OF "1.prems"(1) \<open>tc_totalBytes C > 0\<close> fetch]
      show ?thesis
      proof (cases "tc_state C1 = TransferInProgress")
        case st: True
        have "read_loop W n acc r C = read_loop W n acc r1 C1"
          by (subst read_loop.simps) (simp add: go False \<open>tc_totalBytes C > 0\<close> fetch st)
        then show ?thesis using "1.IH"(2) [OF go False \<open>tc_totalBytes C > 0\<close> fetch [symmetric] st] f by auto
      next
        case st: False
        have "read_loop W n acc r C = Some (r1, acc, C1)"
          by (subst read_loop.simps) (simp add: go False \<open>tc_totalBytes C > 0\<close> fetch st)
        then show ?thesis using f by simp
      qed
    qed
  qed
qed

text \<open>C32.
  Whatever a server sends, in messages no longer than a payload, reading returns: the loop never reaches
  the branch in which it would spin.  It copies no more bytes than the caller's buffer has room for, and
  all of them from within the chunk's buffer, which stays so for the next read.
\<close>

theorem read_stays_within:
  assumes "within C"
  shows "\<exists>r bytes C'. ReadPullTransferData W n C = Some (r, bytes, C') \<and> length bytes \<le> unat n \<and> within C'"
proof -
  have "tc_totalBytes C > 0 \<or> tc_dataChunkBytesTransfered C < tc_dataChunkSizeInBytes C"
    if "\<not> (tc_totalBytes C = 0 \<and> tc_dataChunkSizeInBytes C = tc_dataChunkBytesTransfered C)"
    using that assms by (auto simp: within_def word_neq_0_conv)
  moreover have "within (C\<lparr>tc_state := TransferIdle\<rparr>)" using assms by (simp add: within_def)
  ultimately show ?thesis using read_loop_within [OF assms, of W n "[]" Success] assms by (auto simp: ReadPullTransferData_def)
qed

theorem read_stays_within_witness:
  "\<exists>r bytes C'. ReadPullTransferData sample_waits 100
      (begin_transfer 3 (sample_client [(Success, [3, 0, 0, 0]), (Success, [3]), (NotReady, []), (Success, [1, 2, 3, 4, 5])]))
    = Some (r, bytes, C') \<and> length bytes \<le> 100"
proof -
  let ?C = "begin_transfer 3 (sample_client [(Success, [3, 0, 0, 0]), (Success, [3]), (NotReady, []), (Success, [1, 2, 3, 4, 5])])"
  have "within ?C"
    unfolding within_def by (simp add: begin_transfer_def sample_client_def ResetState_def new_container_length msg_size_defs
        incoming_def sample_session_def)
  from read_stays_within [OF this, of sample_waits 100] show ?thesis by auto
qed

end
