(* ===== verification/Transfer_Count.thy ===== *)
theory Transfer_Count
  imports Transfer_Safety
begin

text \<open>
  The transfers counted on a block are those in progress, except where the code loses one; and the
  failures of the protocol that the model shows.
\<close>

subsection \<open>Counting the transfers\<close>

definition pending :: "TransferManager \<Rightarrow> nat \<Rightarrow> u32" where
  "pending M p = (case server_blocks M p of None \<Rightarrow> 0 | Some b \<Rightarrow> m_numPendingTransfers b)"

text \<open>The transfers on the block at \<open>p\<close> that are not the session's.\<close>

definition others :: "TransferSession \<Rightarrow> nat \<Rightarrow> u32" where
  "others S p = pending (m_pTransferManager S) p - (if m_pBlock S = Some p then 1 else 0)"

definition session_ok :: "TransferSession \<Rightarrow> bool" where
  "session_ok S \<longleftrightarrow> (m_pBlock S = None \<longleftrightarrow> m_state S \<in> {Idle, SendPayload})
     \<and> (\<forall>p. m_pBlock S = Some p \<longrightarrow> server_blocks (m_pTransferManager S) p \<noteq> None)"

definition keeps :: "TransferSession \<Rightarrow> TransferSession \<Rightarrow> bool" where
  "keeps S S' \<longleftrightarrow> session_ok S' \<and> others S' = others S"

text \<open>A request to push nothing that the session is about to receive.\<close>

definition zero_push :: "TransferSession \<Rightarrow> bool" where
  "zero_push S \<longleftrightarrow> m_state S = Idle \<and> fst (TransferSession_ReceivePayload S) = Success
     \<and> (let message = m_scratchPayload (snd (TransferSession_ReceivePayload S))
        in command message = TransferMessage_TransferRequest \<and> field32 8 message = TransferType_Push \<and> field32 12 message = 0)"

definition same_place :: "TransferSession \<Rightarrow> TransferSession \<Rightarrow> bool" where
  "same_place S S' \<longleftrightarrow> m_pBlock S' = m_pBlock S \<and> m_pTransferManager S' = m_pTransferManager S \<and> m_state S' = m_state S"

lemma same_place_refl [simp]: "same_place S S"
  and same_place_trans: "same_place S S1 \<Longrightarrow> same_place S1 S2 \<Longrightarrow> same_place S S2"
  by (simp_all add: same_place_def)

lemma keeps_same_place: "session_ok S \<Longrightarrow> same_place S S' \<Longrightarrow> keeps S S'"
  by (simp add: keeps_def same_place_def session_ok_def others_def fun_eq_iff)

lemma SendPayload_place: "TransferSession_SendPayload S = (r, S') \<Longrightarrow> same_place S S'"
  by (auto simp: TransferSession_SendPayload_def same_place_def Let_def split: prod.splits)

lemma ReceivePayload_place: "TransferSession_ReceivePayload S = (r, S') \<Longrightarrow> same_place S S'"
  by (auto simp: TransferSession_ReceivePayload_def same_place_def split: prod.splits)

lemma send_and_idle_place:
  "m_pBlock (send_and_idle object S) = m_pBlock S \<and> m_pTransferManager (send_and_idle object S) = m_pTransferManager S
   \<and> m_state (send_and_idle object S) \<in> {Idle, SendPayload}"
  by (auto simp: send_and_idle_def SendScratchPayloadAndMoveToIdle_def scratch_def same_place_def split: prod.splits
      dest!: SendPayload_place)

lemma others_end_block:
  assumes "\<forall>p. m_pBlock S = Some p \<longrightarrow> server_blocks (m_pTransferManager S) p \<noteq> None"
  shows "others (end_block S) = others S" "m_pBlock (end_block S) = None"
  using assms
  by (auto simp: end_block_def on_block_def others_def pending_def update_block_def EndTransfer_def Let_def fun_eq_iff split: option.splits)

lemma others_on_block:
  "(\<And>b. m_numPendingTransfers (f b) = m_numPendingTransfers b) \<Longrightarrow> others (on_block f S) = others S"
  by (auto simp: on_block_def others_def pending_def update_block_def fun_eq_iff split: option.splits)

lemma on_block_place:
  "m_pBlock (on_block f S) = m_pBlock S" "m_state (on_block f S) = m_state S"
  "server_blocks (m_pTransferManager (on_block f S)) p \<noteq> None \<longleftrightarrow> server_blocks (m_pTransferManager S) p \<noteq> None"
  by (auto simp: on_block_def update_block_def split: option.splits)

lemma send_after_end:
  assumes "\<forall>p. m_pBlock S = Some p \<longrightarrow> server_blocks (m_pTransferManager S) p \<noteq> None"
  shows "keeps S (send_and_idle object (end_block S))"
proof -
  note s = send_and_idle_place [of object "end_block S"]
  have "others (send_and_idle object (end_block S)) = others (end_block S)" using s by (simp add: others_def fun_eq_iff)
  then show ?thesis using s others_end_block [OF assms] by (auto simp: keeps_def session_ok_def)
qed

lemma SendSentinel_keeps: "session_ok S \<Longrightarrow> keeps S (SendSentinel r crc S)"
  by (simp add: SendSentinel_def send_after_end session_ok_def)

lemma CancelTransfer_keeps:
  assumes "session_ok S"
  shows "keeps S (CancelTransfer r S)"
proof -
  have "others (on_block ServerBlock_Reset S) = others S" by (rule others_on_block) (simp add: ServerBlock_Reset_def)
  moreover have "keeps (on_block ServerBlock_Reset S) (CancelTransfer r S)"
    unfolding CancelTransfer_def using assms on_block_place by (intro send_after_end) (simp add: session_ok_def)
  ultimately show ?thesis by (simp add: keeps_def)
qed

lemma send_chunk_place: "send_chunk S = Some (r, S') \<Longrightarrow> same_place S S'"
  by (auto simp: send_chunk_def Let_def same_place_def split: option.splits prod.splits if_splits dest!: SendPayload_place)

lemma pull_loop_place: "pull_loop S = Some S' \<Longrightarrow> same_place S S'"
proof (induction S rule: pull_loop.induct)
  case (1 S)
  show ?case
  proof (cases "m_bytesTransferred S < m_totalBytes S")
    case False
    then show ?thesis using "1.prems" by (simp add: pull_loop.simps)
  next
    case True
    then obtain r S1 where chunk: "send_chunk S = Some (r, S1)" using "1.prems" by (subst (asm) pull_loop.simps) (auto split: option.splits)
    have "if r = Success then pull_loop S1 = Some S' else S1 = S'"
      using "1.prems" by (subst (asm) pull_loop.simps) (simp add: True chunk split: if_splits)
    then show ?thesis using "1.IH" [OF True chunk refl] send_chunk_place [OF chunk] by (auto intro: same_place_trans split: if_splits)
  qed
qed

lemma keeps_count_trans: "keeps S S1 \<Longrightarrow> keeps S1 S2 \<Longrightarrow> keeps S S2"
  by (simp add: keeps_def)

lemma ProcessPullSession_keeps:
  assumes ok: "session_ok S" and "ProcessPullSession S = Some S'"
  shows "keeps S S'"
proof -
  obtain r S1 where rcv: "TransferSession_ReceivePayload S = (r, S1)" by fastforce
  have k1: "keeps S S1" by (rule keeps_same_place [OF ok ReceivePayload_place [OF rcv]])
  then have ok1: "session_ok S1" by (simp add: keeps_def)
  have "keeps S1 S'"
  proof (cases "r = NotReady")
    case True
    then obtain S2 where S2: "pull_loop S1 = Some S2"
        "S' = (if m_bytesTransferred S2 = m_totalBytes S2 then SendSentinel Success (m_crc32 S2) S2 else S2)"
      using assms(2) by (auto simp: ProcessPullSession_def rcv)
    have "keeps S1 S2" by (rule keeps_same_place [OF ok1 pull_loop_place [OF S2(1)]])
    then show ?thesis using S2(2) SendSentinel_keeps keeps_count_trans by (auto simp: keeps_def)
  next
    case False
    then show ?thesis using assms(2) SendSentinel_keeps [OF ok1] keeps_same_place [OF ok1 same_place_refl]
      by (auto simp: ProcessPullSession_def rcv split: if_splits)
  qed
  with k1 show ?thesis by (rule keeps_count_trans)
qed

lemma SendPullTransferHeader_keeps:
  assumes ok: "session_ok S" and st: "m_state S = StartPullTransfer" and "SendPullTransferHeader S = Some S'"
  shows "keeps S S'"
proof -
  obtain r S1 where send: "TransferSession_SendPayload S = (r, S1)" by fastforce
  note place = SendPayload_place [OF send]
  show ?thesis
  proof (cases "r = Success")
    case True
    define S2 where "S2 = S1\<lparr>m_state := ProcessPullTransfer\<rparr>"
    have "keeps S S2" using ok st place by (auto simp: S2_def keeps_def session_ok_def same_place_def others_def fun_eq_iff)
    moreover have "ProcessPullSession S2 = Some S'" using assms(3) True by (simp add: SendPullTransferHeader_def send S2_def)
    ultimately show ?thesis using ProcessPullSession_keeps keeps_count_trans by (auto simp: keeps_def)
  next
    case False
    then show ?thesis using assms(3) keeps_same_place [OF ok place] by (simp add: SendPullTransferHeader_def send)
  qed
qed

text \<open>Taking up a block: the transfer that is counted is the session's own.\<close>

lemma take_up:
  assumes "m_pBlock S = None" and "server_blocks (m_pTransferManager S) p = Some b"
    and "m_pBlock S' = Some p" and "m_pTransferManager S' = update_block p BeginTransfer (m_pTransferManager S)"
    and "m_state S' \<notin> {Idle, SendPayload}"
  shows "keeps S S'"
  using assms
  by (auto simp: keeps_def session_ok_def others_def pending_def update_block_def BeginTransfer_def Let_def fun_eq_iff)

lemma refuse_keeps: "session_ok S \<Longrightarrow> m_state S = Idle \<Longrightarrow> keeps S (send_and_idle object S)"
  using send_and_idle_place [of object S] by (auto simp: keeps_def session_ok_def others_def fun_eq_iff)

lemma start_pull_keeps:
  assumes ok: "session_ok S" and idle: "m_state S = Idle" and "start_pull T blockId S = Some S'"
  shows "keeps S S'"
proof (cases "GetServerBlock T blockId (m_pTransferManager S)")
  case None
  then show ?thesis using assms refuse_keeps by (auto simp: start_pull_def)
next
  case (Some p)
  then obtain b where b: "server_blocks (m_pTransferManager S) p = Some b" using assms(3) by (auto simp: start_pull_def split: option.splits)
  show ?thesis
  proof (cases "m_isClosed b")
    case False
    then show ?thesis using assms(3) Some b refuse_keeps [OF ok idle] by (auto simp: start_pull_def)
  next
    case True
    define header where "header = (if is_version (m_pSession S) \<ge> TRANSFER_REFACTOR_VERSION then TransferDataHeaderV2 (ucast (m_blockDataSize b))
        else TransferDataHeader Success (ucast (m_blockDataSize b)))"
    define S1 where "S1 = scratch header ((on_block BeginTransfer (S\<lparr>m_pBlock := Some p\<rparr>))
        \<lparr>m_totalBytes := m_blockDataSize b, m_bytesTransferred := 0, m_crc32 := m_blockCrc32 b, m_state := StartPullTransfer\<rparr>)"
    have "SendPullTransferHeader S1 = Some S'"
      using assms(3) Some b True idle by (simp add: start_pull_def S1_def header_def on_block_def Let_def split: if_splits)
    moreover have "keeps S S1" "m_state S1 = StartPullTransfer"
      using ok idle b by (auto simp: S1_def scratch_def on_block_def session_ok_def intro!: take_up)
    ultimately show ?thesis using SendPullTransferHeader_keeps keeps_count_trans by (auto simp: keeps_def)
  qed
qed

lemma StartPushTransferSession_keeps:
  assumes "session_ok S" and "m_state S = StartPushTransfer"
  shows "keeps S (StartPushTransferSession S)"
proof -
  obtain r S1 where send: "TransferSession_SendPayload S = (r, S1)" by fastforce
  have eq: "StartPushTransferSession S = (if r = Success then S1\<lparr>m_state := ReceivePushTransferData\<rparr> else S1)"
    by (simp add: StartPushTransferSession_def send)
  show ?thesis using assms SendPayload_place [OF send] unfolding eq
    by (simp add: keeps_def session_ok_def same_place_def others_def fun_eq_iff)
qed

lemma start_push_keeps:
  assumes ok: "session_ok S" and idle: "m_state S = Idle" and "wanted \<noteq> 0" and "start_push T blockId wanted S = Some S'"
  shows "keeps S S'"
proof (cases "GetServerBlock T blockId (m_pTransferManager S)")
  case None
  then show ?thesis using assms refuse_keeps by (auto simp: start_push_def)
next
  case (Some p)
  then obtain b where b: "server_blocks (m_pTransferManager S) p = Some b" using assms(4) by (auto simp: start_push_def split: option.splits)
  show ?thesis
  proof (cases "m_isClosed b")
    case True
    then show ?thesis using assms(4) Some b refuse_keeps [OF ok idle] by (auto simp: start_push_def)
  next
    case False
    define S1 where "S1 = scratch (TransferStatus Success) (((on_block BeginTransfer (S\<lparr>m_pBlock := Some p\<rparr>))
        \<lparr>m_bytesTransferred := 0, m_crc32 := 0, m_totalBytes := ucast wanted\<rparr>)\<lparr>m_state := StartPushTransfer\<rparr>)"
    have "unat (ucast wanted :: u64) = unat wanted" by (simp add: unsigned_ucast_eq take_bit_nat_eq_self unsigned_less [THEN less_le_trans])
    then have pos: "0 < (ucast wanted :: u64)" using assms(3) by (simp add: word_less_nat_alt word_unat_eq_iff)
    have "S' = StartPushTransferSession S1"
      using assms(4) Some b False idle pos by (simp add: start_push_def S1_def on_block_def Let_def split: if_splits)
    moreover have "keeps S S1" using ok idle b by (auto simp: S1_def scratch_def on_block_def session_ok_def intro!: take_up)
    moreover have "m_state S1 = StartPushTransfer" by (simp add: S1_def scratch_def)
    ultimately show ?thesis using StartPushTransferSession_keeps [of S1] keeps_count_trans by (auto simp: keeps_def)
  qed
qed

lemma Write_pending: "ServerBlock_Write T p n b = Some b' \<Longrightarrow> m_numPendingTransfers b' = m_numPendingTransfers b"
  by (auto simp: ServerBlock_Write_def Let_def split: if_splits)

lemma push_message_keeps:
  assumes ok: "session_ok S" and st: "m_state S = ReceivePushTransferData" and "push_message T S = Some S'"
  shows "keeps S S'"
proof -
  obtain p b where p: "m_pBlock S = Some p" "server_blocks (m_pTransferManager S) p = Some b" using ok st by (auto simp: session_ok_def)
  then have block: "the_block S = Some b" by (simp add: the_block_def)
  consider (chunk) n b' where "ServerBlock_Write T (chunk_data (m_scratchPayload S)) n b = Some b'"
      "S' = (on_block (\<lambda>_. b') S)\<lparr>m_bytesTransferred := m_bytesTransferred S + n\<rparr>"
    | (cancel) r where "S' = CancelTransfer r S"
    | (close) "S' = send_and_idle (TransferStatus Success) (end_block (on_block ServerBlock_Close S))"
    using assms(3) block by (auto simp: push_message_def Let_def split: if_splits option.splits)
  then show ?thesis
  proof cases
    case chunk
    then show ?thesis using ok st p Write_pending [OF chunk(1)]
      by (auto simp: keeps_def session_ok_def others_def pending_def on_block_def update_block_def fun_eq_iff)
  next
    case cancel
    then show ?thesis using CancelTransfer_keeps [OF ok] by simp
  next
    case close
    have "others (on_block ServerBlock_Close S) = others S" by (rule others_on_block) (simp add: ServerBlock_Close_def)
    moreover have "keeps (on_block ServerBlock_Close S) S'"
      unfolding close using ok on_block_place by (intro send_after_end) (simp add: session_ok_def)
    ultimately show ?thesis by (simp add: keeps_def)
  qed
qed

lemma receive_push_data_keeps:
  "session_ok S \<Longrightarrow> m_state S = ReceivePushTransferData \<Longrightarrow> receive_push_data T S = Some S' \<Longrightarrow> keeps S S'"
proof (induction T S rule: receive_push_data.induct)
  case (1 T S)
  obtain r S1 where rcv: "TransferSession_ReceivePayload S = (r, S1)" by fastforce
  note place = ReceivePayload_place [OF rcv]
  have k1: "keeps S S1" by (rule keeps_same_place [OF "1.prems"(1) place])
  show ?case
  proof (cases "r = Success")
    case False
    then show ?thesis using "1.prems"(3) k1 by (subst (asm) receive_push_data.simps) (simp add: rcv)
  next
    case True
    obtain S2 where S2: "push_message T S1 = Some S2"
      using "1.prems"(3) by (subst (asm) receive_push_data.simps) (auto simp: rcv True split: option.splits)
    have k2: "keeps S1 S2" using push_message_keeps [OF _ _ S2] k1 place "1.prems"(2) by (simp add: keeps_def same_place_def)
    have "if m_state S2 = ReceivePushTransferData then receive_push_data T S2 = Some S' else S' = S2"
      using "1.prems"(3) by (subst (asm) receive_push_data.simps) (simp add: rcv True S2 split: if_splits)
    then have "keeps S2 S'"
      using "1.IH" [OF rcv [symmetric] True S2] k2 by (auto simp: keeps_def split: if_splits)
    with k1 k2 show ?thesis by (blast intro: keeps_count_trans)
  qed
qed

lemma UpdateSession_keeps:
  assumes ok: "session_ok S" and "\<not> zero_push S" and "UpdateSession T S = Some S'"
  shows "keeps S S'"
proof (cases "m_state S")
  case Idle
  obtain r S1 where rcv: "TransferSession_ReceivePayload S = (r, S1)" by fastforce
  note place = ReceivePayload_place [OF rcv]
  have k1: "keeps S S1" by (rule keeps_same_place [OF ok place])
  have ok1: "session_ok S1" "m_state S1 = Idle" using k1 place Idle by (simp_all add: keeps_def same_place_def)
  have "keeps S1 S'"
  proof (cases "r = Success")
    case False
    then show ?thesis using assms(3) Idle keeps_same_place [OF ok1(1) same_place_refl] by (simp add: UpdateSession_def rcv)
  next
    case True
    then have "ProcessPayload T S1 = Some S'" using assms(3) Idle by (simp add: UpdateSession_def rcv)
    moreover have "\<not> (command (m_scratchPayload S1) = TransferMessage_TransferRequest \<and> field32 8 (m_scratchPayload S1) = TransferType_Push
        \<and> field32 12 (m_scratchPayload S1) = 0)" using assms(2) Idle True by (simp add: zero_push_def rcv Let_def)
    ultimately show ?thesis
      using start_pull_keeps [OF ok1, of T "field32 4 (m_scratchPayload S1)" S']
        start_push_keeps [OF ok1, of "field32 12 (m_scratchPayload S1)" T "field32 4 (m_scratchPayload S1)" S']
        refuse_keeps [OF ok1] SendSentinel_keeps [OF ok1(1)] keeps_same_place [OF ok1(1) same_place_refl]
      by (auto simp: ProcessPayload_def Let_def split: if_splits)
  qed
  with k1 show ?thesis by (rule keeps_count_trans)
next
  case SendPayload
  then show ?thesis using assms(3) ok
    by (auto simp: UpdateSession_def SendScratchPayloadAndMoveToIdle_def keeps_def session_ok_def same_place_def others_def fun_eq_iff
        split: prod.splits if_splits dest!: SendPayload_place)
next
  case StartPullTransfer
  then show ?thesis using assms(3) SendPullTransferHeader_keeps [OF ok] by (simp add: UpdateSession_def)
next
  case ProcessPullTransfer
  then show ?thesis using assms(3) ProcessPullSession_keeps [OF ok] by (simp add: UpdateSession_def)
next
  case StartPushTransfer
  then show ?thesis using assms(3) ok
    by (auto simp: UpdateSession_def intro: StartPushTransferSession_keeps)
next
  case ReceivePushTransferData
  then show ?thesis using assms(3) receive_push_data_keeps [OF ok] by (simp add: UpdateSession_def)
qed

lemma updates_keep:
  "session_ok S \<Longrightarrow> \<forall>k < n. \<forall>S1. updates T k S = Some S1 \<longrightarrow> \<not> zero_push S1 \<Longrightarrow> updates T n S = Some S' \<Longrightarrow> keeps S S'"
proof (induction n arbitrary: S)
  case 0
  then show ?case by (simp add: keeps_def)
next
  case (Suc n)
  obtain S1 where S1: "UpdateSession T S = Some S1" "updates T n S1 = Some S'" using Suc.prems(3) by (cases "UpdateSession T S") auto
  have "\<not> zero_push S" using Suc.prems(2) by (metis updates.simps(1) zero_less_Suc)
  then have k: "keeps S S1" by (rule UpdateSession_keeps [OF Suc.prems(1) _ S1(1)])
  have "\<forall>k < n. \<forall>S2. updates T k S1 = Some S2 \<longrightarrow> \<not> zero_push S2"
  proof (intro allI impI)
    fix k S2 assume "k < n" "updates T k S1 = Some S2"
    then show "\<not> zero_push S2" using Suc.prems(2) [rule_format, of "Suc k" S2] S1(1) by simp
  qed
  from Suc.IH [OF _ this S1(2)] k show ?case by (simp add: keeps_def)
qed

lemma delete_others:
  assumes "session_ok S"
  shows "pending (delete_TransferSession S) p = others S p"
  using assms
  by (auto simp: delete_TransferSession_def on_block_def others_def pending_def update_block_def EndTransfer_def Let_def session_ok_def
      split: option.splits)

text \<open>C33.
  No transfer stays counted on a block.  A session of the transfer server that is established, updated any
  number of times, whatever it receives and however its session answers, and terminated in whatever state
  it is, leaves every block with the number of pending transfers it had, provided it never received a
  request to push zero bytes.  So a wait for the pending transfers of a block ends with the sessions.
\<close>

theorem transfers_are_counted_off:
  assumes "\<forall>k < n. \<forall>S1. updates T k (new_TransferSession M session) = Some S1 \<longrightarrow> \<not> zero_push S1"
    and "updates T n (new_TransferSession M session) = Some S'"
  shows "pending (fst (TransferServer_SessionTerminated M (Some S'))) p = pending M p"
proof -
  have "session_ok (new_TransferSession M session)" by (simp add: session_ok_def new_TransferSession_def)
  from updates_keep [OF this assms] have k: "keeps (new_TransferSession M session) S'" .
  then have "pending (delete_TransferSession S') p = others S' p" by (intro delete_others) (simp add: keeps_def)
  also have "\<dots> = others (new_TransferSession M session) p" using k by (simp add: keeps_def)
  also have "\<dots> = pending M p" by (simp add: others_def new_TransferSession_def)
  finally show ?thesis by (simp add: TransferServer_SessionTerminated_def)
qed

lemma zero_push_step:
  assumes S: "m_state S = Idle" "is_version (m_pSession S) \<ge> TRANSFER_REFACTOR_VERSION" "send_replies S = []"
      "script S = (Success, TransferRequest blockId TransferType_Push 0) # rest"
    and b: "GetServerBlock T blockId (m_pTransferManager S) = Some p" "server_blocks (m_pTransferManager S) p = Some b" "\<not> m_isClosed b"
  shows "\<exists>S'. UpdateSession T S = Some S' \<and> m_state S' = Idle \<and> is_version (m_pSession S') \<ge> TRANSFER_REFACTOR_VERSION
    \<and> send_replies S' = [] \<and> script S' = rest \<and> out S' = out S @ [TransferStatus Error] \<and> m_pBlock S' = Some p
    \<and> m_pTransferManager S' = update_block p BeginTransfer (m_pTransferManager S)"
proof -
  define S1 where "S1 = scratch (TransferRequest blockId TransferType_Push 0) (take_script rest S)"
  define S2 where "S2 = (on_block BeginTransfer (S1\<lparr>m_pBlock := Some p\<rparr>))\<lparr>m_bytesTransferred := 0, m_crc32 := 0, m_totalBytes := 0\<rparr>"
  have "UpdateSession T S = ProcessPayload T S1"
    using S(1) receive_script(2) [OF S(4)] by (simp add: UpdateSession_def S1_def)
  also have "\<dots> = start_push T blockId 0 S1" by (simp add: ProcessPayload_def S1_def scratch_def)
  also have "\<dots> = Some (send_and_idle (TransferStatus Error) S2)"
    using b S(1) by (simp add: start_push_def Let_def S1_def S2_def on_block_def scratch_def)
  finally have eq: "UpdateSession T S = Some (send_and_idle (TransferStatus Error) S2)" .
  have S2: "m_pSession S2 = (m_pSession S)\<lparr>is_incoming := rest\<rparr>" "m_pBlock S2 = Some p"
      "m_pTransferManager S2 = update_block p BeginTransfer (m_pTransferManager S)"
    by (simp_all add: S2_def S1_def scratch_def on_block_def take_script_def)
  show ?thesis using eq send_and_idle_sends [of S2 "TransferStatus Error"] S(2,3) S2
    by (intro exI [of _ "send_and_idle (TransferStatus Error) S2"])
      (auto simp: same_session_def scratch_def out_def script_def send_replies_def)
qed

text \<open>C38.
  A request to push zero bytes is refused, but only after the transfer has been counted, and the session
  keeps the pointer to the block.  When a second such request comes, the pointer is overwritten and the
  first transfer stays counted for good: after the session is terminated the block still has a pending
  transfer, and waiting for its transfers can only time out.
\<close>

theorem zero_push_leaks_a_transfer:
  assumes b: "GetServerBlock T blockId M = Some p" "server_blocks M p = Some b" "\<not> m_isClosed b" "m_numPendingTransfers b = 0"
    and s: "is_version session \<ge> TRANSFER_REFACTOR_VERSION" "is_sendReplies session = []"
      "is_incoming session = [(Success, TransferRequest blockId TransferType_Push 0), (Success, TransferRequest blockId TransferType_Push 0)]"
  shows "\<exists>S' b'. updates T 2 (new_TransferSession M session) = Some S' \<and> script S' = []
    \<and> out S' = is_outgoing session @ [TransferStatus Error, TransferStatus Error]
    \<and> server_blocks (fst (TransferServer_SessionTerminated M (Some S'))) p = Some b'
    \<and> m_numPendingTransfers b' = 1 \<and> WaitForPendingTransfers b' \<noteq> Success"
proof -
  let ?S = "new_TransferSession M session"
  have S: "m_state ?S = Idle" "is_version (m_pSession ?S) \<ge> TRANSFER_REFACTOR_VERSION" "send_replies ?S = []"
      "script ?S = [(Success, TransferRequest blockId TransferType_Push 0), (Success, TransferRequest blockId TransferType_Push 0)]"
      "m_pTransferManager ?S = M" "out ?S = is_outgoing session"
    using s by (simp_all add: new_TransferSession_def script_def send_replies_def out_def)
  obtain S1 where S1: "UpdateSession T ?S = Some S1" "m_state S1 = Idle" "is_version (m_pSession S1) \<ge> TRANSFER_REFACTOR_VERSION"
      "send_replies S1 = []" "script S1 = [(Success, TransferRequest blockId TransferType_Push 0)]"
      "out S1 = is_outgoing session @ [TransferStatus Error]" "m_pTransferManager S1 = update_block p BeginTransfer M"
    using zero_push_step [OF S(1-4), of T p b] b(1-3) S(5,6) by auto
  have b1: "GetServerBlock T blockId (m_pTransferManager S1) = Some p" "server_blocks (m_pTransferManager S1) p = Some (BeginTransfer b)"
      "\<not> m_isClosed (BeginTransfer b)"
    using b S1(7) by (simp_all add: GetServerBlock_def update_block_def BeginTransfer_def Let_def)
  obtain S2 where S2: "UpdateSession T S1 = Some S2" "script S2 = []" "out S2 = is_outgoing session @ [TransferStatus Error, TransferStatus Error]"
      "m_pBlock S2 = Some p" "m_pTransferManager S2 = update_block p BeginTransfer (update_block p BeginTransfer M)"
    using zero_push_step [OF S1(2-5) b1] S1(6,7) by auto
  have "updates T 2 ?S = Some S2" using S1(1) S2(1) by (simp add: numeral_2_eq_2)
  moreover have "server_blocks (fst (TransferServer_SessionTerminated M (Some S2))) p = Some (EndTransfer (BeginTransfer (BeginTransfer b)))"
    using S2(4,5) b(2) by (simp add: TransferServer_SessionTerminated_def delete_TransferSession_def on_block_def update_block_def)
  moreover have "m_numPendingTransfers (EndTransfer (BeginTransfer (BeginTransfer b))) = 1"
      "WaitForPendingTransfers (EndTransfer (BeginTransfer (BeginTransfer b))) \<noteq> Success"
    using b(4) by (simp_all add: EndTransfer_def BeginTransfer_def WaitForPendingTransfers_def Let_def)
  ultimately show ?thesis using S2(2,3) by blast
qed

subsection \<open>Witnesses\<close>

theorem transfers_are_counted_off_witness:
  "\<exists>S'. updates sample_transfer 1 (new_TransferSession (sample_blocks sample_block)
        (sample_session [(Success, TransferRequest 5 TransferType_Pull 0)] [NotReady])) = Some S' \<and> m_pBlock S' = Some 0
     \<and> pending (m_pTransferManager S') 0 = 1
     \<and> pending (fst (TransferServer_SessionTerminated (sample_blocks sample_block) (Some S'))) 0 = 0"
proof -
  let ?M = "sample_blocks sample_block"
  let ?s = "sample_session [(Success, TransferRequest 5 TransferType_Pull 0)] [NotReady]"
  let ?S = "new_TransferSession ?M ?s"
  have b: "GetServerBlock sample_transfer 5 ?M = Some 0" "server_blocks ?M 0 = Some sample_block"
    using sample_registered [of sample_block] by (simp_all add: sample_block_def sample_blocks_def new_ServerBlock_def)
  define S1 where "S1 = scratch (TransferRequest 5 TransferType_Pull 0) (take_script [] ?S)"
  have script: "script ?S = [(Success, TransferRequest 5 TransferType_Pull 0)]"
    by (simp add: script_def new_TransferSession_def sample_session_def)
  note rcv = receive_script(2) [OF script, folded S1_def]
  have S1: "m_state S1 = Idle" "m_pTransferManager S1 = ?M" "is_version (m_pSession S1) = 2" "is_sendReplies (m_pSession S1) = [NotReady]"
      "field32 8 (m_scratchPayload S1) = TransferType_Pull"
    by (simp_all add: S1_def scratch_def take_script_def new_TransferSession_def sample_session_def)
  have "\<forall>k < 1. \<forall>S2. updates sample_transfer k ?S = Some S2 \<longrightarrow> \<not> zero_push S2" by (simp add: zero_push_def rcv S1(5) Let_def)
  note counted = transfers_are_counted_off [OF this]
  have "m_state ?S = Idle" by (simp add: new_TransferSession_def)
  then have "UpdateSession sample_transfer ?S = ProcessPayload sample_transfer S1" by (simp add: UpdateSession_def rcv)
  also have "\<dots> = start_pull sample_transfer 5 S1" by (simp add: ProcessPayload_def S1_def scratch_def)
  finally have "UpdateSession sample_transfer ?S = start_pull sample_transfer 5 S1" .
  then obtain S' where S': "updates sample_transfer 1 ?S = Some S'" "m_pBlock S' = Some 0" "m_pTransferManager S' = update_block 0 BeginTransfer ?M"
    using b S1(1-4)
    by (simp add: start_pull_def on_block_def sample_block_def SendPullTransferHeader_def TransferSession_SendPayload_def ISession_Send_def
        scratch_def Let_def new_ServerBlock_def)
  then show ?thesis using counted [OF S'(1), of 0] b(2)
    by (simp add: pending_def update_block_def BeginTransfer_def sample_block_def new_ServerBlock_def Let_def)
qed

theorem zero_push_leaks_a_transfer_witness:
  "\<exists>S' b'. updates sample_transfer 2 (new_TransferSession (sample_blocks open_block)
        (sample_session [(Success, TransferRequest 5 TransferType_Push 0), (Success, TransferRequest 5 TransferType_Push 0)] [])) = Some S'
     \<and> server_blocks (fst (TransferServer_SessionTerminated (sample_blocks open_block) (Some S'))) 0 = Some b'
     \<and> WaitForPendingTransfers b' \<noteq> Success"
proof -
  have b: "GetServerBlock sample_transfer 5 (sample_blocks open_block) = Some 0" "server_blocks (sample_blocks open_block) 0 = Some open_block"
      "\<not> m_isClosed open_block" "m_numPendingTransfers open_block = 0"
    using sample_registered [of open_block] by (simp_all add: open_block_def new_ServerBlock_def sample_blocks_def)
  let ?s = "sample_session [(Success, TransferRequest 5 TransferType_Push 0), (Success, TransferRequest 5 TransferType_Push 0)] []"
  have s: "is_version ?s \<ge> TRANSFER_REFACTOR_VERSION" "is_sendReplies ?s = []"
      "is_incoming ?s = [(Success, TransferRequest 5 TransferType_Push 0), (Success, TransferRequest 5 TransferType_Push 0)]"
    by (simp_all add: sample_session_def TRANSFER_REFACTOR_VERSION_def)
  from zero_push_leaks_a_transfer [OF b s] show ?thesis by blast
qed

end
