(* ===== verification/Transfer_Faults.thy ===== *)
theory Transfer_Faults
  imports Transfer_Count
begin

text \<open>Where the transfer protocol does not do what it means to: what the model shows of its faults.\<close>

subsection \<open>Chunks that are too short\<close>

text \<open>C40.
  The server does not check the size of a chunk before it subtracts the four bytes of the command.  A chunk
  of fewer than four bytes, its command completed by what is left in the buffer, counts as one of almost
  \<open>2 ^ 64\<close> bytes of data, and if more is expected than a chunk can hold, the block is written with bytes
  from beyond the end of the buffer.
\<close>

theorem short_chunk_reads_past_buffer:
  assumes m: "length m < 4" "command (CreatePayload m (m_scratchPayload S)) = TransferMessage_TransferDataChunk"
    and S: "script S = (Success, m) # rest" "length (pc_payload (m_scratchPayload S)) = kMaxPayloadSizeInBytes" "m_pBlock S = Some p"
    and more_wanted: "unat (m_bytesTransferred S) + kMaxTransferDataChunkSize < unat (m_totalBytes S)"
  shows "receive_push_data T S = None"
proof -
  define S1 where "S1 = scratch m (take_script rest S)"
  have rcv: "TransferSession_ReceivePayload S = (Success, S1)" using receive_script(2) [OF S(1)] by (simp add: S1_def)
  define numBytes where "numBytes = ucast (pc_payloadSize (m_scratchPayload S1)) - (word_of_nat chunk_offset :: u64)"
  define n where "n = min numBytes (m_totalBytes S1 - m_bytesTransferred S1)"
  have fields: "m_totalBytes S1 = m_totalBytes S" "m_bytesTransferred S1 = m_bytesTransferred S" "m_pBlock S1 = m_pBlock S"
    by (simp_all add: S1_def scratch_def take_script_def)
  have data: "length (chunk_data (m_scratchPayload S1)) = kMaxTransferDataChunkSize"
    using m(1) S(2) by (simp add: S1_def scratch_def take_script_def chunk_data_def chunk_offset_def CreatePayload_def memcpy_def
        kMaxTransferDataChunkSize_def)
  have "kMaxTransferDataChunkSize < unat numBytes"
  proof -
    consider "length m = 0" | "length m = 1" | "length m = 2" | "length m = 3" using m(1) by linarith
    then show ?thesis
      by cases (simp_all add: numBytes_def S1_def scratch_def chunk_offset_def kMaxTransferDataChunkSize_def msg_size_defs
          unsigned_minus_1_eq_mask mask_eq_exp_minus_1)
  qed
  moreover have "kMaxTransferDataChunkSize < unat (m_totalBytes S1 - m_bytesTransferred S1)"
    using more_wanted by (simp add: fields unat_sub word_le_nat_alt)
  ultimately have n: "kMaxTransferDataChunkSize < unat n" by (simp add: n_def min_def)
  then have "n > 0" by (simp add: word_less_nat_alt)
  have "ServerBlock_Write T (chunk_data (m_scratchPayload S1)) n b = None" for b
    using n \<open>n > 0\<close> data by (simp add: ServerBlock_Write_def Let_def)
  then have "Option.bind (the_block S1) (ServerBlock_Write T (chunk_data (m_scratchPayload S1)) n) = None"
    by (cases "the_block S1") simp_all
  moreover have "command (m_scratchPayload S1) = TransferMessage_TransferDataChunk" "m_bytesTransferred S1 < m_totalBytes S1"
    using m(2) more_wanted by (simp_all add: S1_def scratch_def take_script_def word_less_nat_alt)
  ultimately have "push_message T S1 = None"
    unfolding push_message_def Let_def numBytes_def [symmetric] n_def [symmetric] by simp
  then show ?thesis by (subst receive_push_data.simps) (simp add: rcv)
qed

subsection \<open>Data that is not taken at once\<close>

lemma send_loop_gives_up:
  "is_sendReplies s = replicate (Suc j) NotReady @ rest \<Longrightarrow> unat timeout + unat retry < 2 ^ 32
    \<Longrightarrow> unat elapsed + j * unat retry \<le> unat timeout \<Longrightarrow> unat timeout < unat elapsed + Suc j * unat retry
    \<Longrightarrow> send_loop n bytes timeout retry elapsed s = (NotReady, s\<lparr>is_sendReplies := rest\<rparr>)"
proof (induction j arbitrary: elapsed s)
  case (0 elapsed s)
  have "unat (elapsed + retry) = unat elapsed + unat retry" using 0 by (intro unat_add_no_wrap) simp
  then have "\<not> elapsed + retry \<le> timeout" using 0 by (simp add: word_le_nat_alt)
  then show ?case using 0(1) by (subst send_loop.simps) (simp add: ISession_Send_def Let_def)
next
  case (Suc j elapsed s)
  have sum: "unat (elapsed + retry) = unat elapsed + unat retry" using Suc.prems by (intro unat_add_no_wrap) simp
  then have go: "elapsed + retry \<le> timeout" using Suc.prems by (simp add: word_le_nat_alt)
  have "send_loop n bytes timeout retry (elapsed + retry) (s\<lparr>is_sendReplies := replicate (Suc j) NotReady @ rest\<rparr>)
      = (NotReady, s\<lparr>is_sendReplies := rest\<rparr>)"
    using Suc.IH [of "s\<lparr>is_sendReplies := replicate (Suc j) NotReady @ rest\<rparr>" "elapsed + retry"] Suc.prems sum
    by (simp add: add.assoc)
  then show ?case using Suc.prems(1) go by (subst send_loop.simps) (simp add: ISession_Send_def Let_def)
qed

text \<open>C39.
  The client updates its checksum before it knows that the data was taken.  When its session does not take
  a chunk within the timeout, the client sends the chunk again and counts it again: the write succeeds and
  the chunk has been sent once, but the checksum covers it twice, and the server that has stored it refuses
  the transfer and throws the data away.
\<close>

theorem resent_chunk_is_checksummed_twice:
  assumes C: "connection C" "tc_state C = TransferInProgress" "tc_type C = TransferType_Push" "tc_crc32 C = 0"
    and W: "0 < retryTimeoutInMs W" "unat (communicationTimeoutInMs W) + unat (retryTimeoutInMs W) < 2 ^ 32"
    and r: "replies C = replicate (Suc (unat (communicationTimeoutInMs W) div unat (retryTimeoutInMs W))) NotReady"
    and d: "d \<noteq> []" "length d \<le> kMaxTransferDataChunkSize" "length d \<le> unat (tc_totalBytes C)" "CRC32 (d @ d) 0 \<noteq> CRC32 d 0"
  shows "\<exists>C'. WritePushTransferData W d C = (Success, C') \<and> sent C' = sent C @ [chunk_message d] \<and> tc_crc32 C' = CRC32 (d @ d) 0
    \<and> (\<forall>S b c. the_block S = Some b \<and> holds b d \<and> m_scratchPayload S = CreatePayload (TransferDataSentinel Success (tc_crc32 C')) c
         \<longrightarrow> push_message T S = Some (CancelTransfer Error S))"
proof -
  define C1 where "C1 = C\<lparr>tc_crc32 := CRC32 d 0, tc_scratchPayload := WritePayload d (word_of_nat (length d)) (tc_scratchPayload C)\<rparr>"
  obtain s where s: "lc_pSession (tc_client C) = Some s" using C(1) by (auto simp: connection_def)
  define C2 where "C2 = C1\<lparr>tc_client := (tc_client C)\<lparr>lc_pSession := Some (s\<lparr>is_sendReplies := []\<rparr>)\<rparr>\<rparr>"
  have "send_loop n bytes (communicationTimeoutInMs W) (retryTimeoutInMs W) 0 s = (NotReady, s\<lparr>is_sendReplies := []\<rparr>)" for n bytes
  proof (rule send_loop_gives_up)
    show "is_sendReplies s = replicate (Suc (unat (communicationTimeoutInMs W) div unat (retryTimeoutInMs W))) NotReady @ []"
      using r s by (simp add: replies_def)
    show "unat 0 + unat (communicationTimeoutInMs W) div unat (retryTimeoutInMs W) * unat (retryTimeoutInMs W) \<le> unat (communicationTimeoutInMs W)"
      by simp
    have "0 < unat (retryTimeoutInMs W)" using W(1) by (simp add: word_less_nat_alt)
    then show "unat (communicationTimeoutInMs W)
        < unat 0 + Suc (unat (communicationTimeoutInMs W) div unat (retryTimeoutInMs W)) * unat (retryTimeoutInMs W)"
      using dividend_less_times_div [of "unat (retryTimeoutInMs W)" "unat (communicationTimeoutInMs W)"] by (simp add: mult.commute)
  qed (rule W(2))
  then have send: "SendTransferPayload (tc_scratchPayload C1) (communicationTimeoutInMs W) (retryTimeoutInMs W) C1 = (NotReady, C2)"
    using s by (simp add: SendTransferPayload_def SendSizedPayload_def C1_def C2_def)
  have n: "min (min kMaxTransferDataChunkSize (unat (tc_totalBytes C))) (length d) = length d" using d(2,3) by simp
  have pos: "tc_totalBytes C > 0" using d(1,3) by (cases d) (simp_all add: word_less_nat_alt)
  have first: "write_loop W d Error C = write_loop W d NotReady C2"
    unfolding write_loop.simps [of W d Error C] Let_def n
    unfolding C(4) take_all [OF order_refl] C1_def [symmetric] send prod.case using pos d(1) by simp
  have C2: "push_open C2" "tc_totalBytes C2 = tc_totalBytes C" "sent C2 = sent C" "tc_crc32 C2 = CRC32 d 0"
    using C s by (simp_all add: push_open_def C2_def C1_def connection_def replies_def sent_def GetSessionVersion_def)
  obtain C' where C': "write_loop W d NotReady C2 = (Success, [], C')" "sent C' = sent C @ data_messages d" "tc_crc32 C' = CRC32 d (CRC32 d 0)"
    using write_loop_sends [OF C2(1), of d W NotReady] C2(2-4) d(1,3) by auto
  have one: "data_messages d = [chunk_message d]" using d(1,2) by (simp add: data_messages_step)
  have "WritePushTransferData W d C = (Success, C')" using C(2,3) first C'(1) by (simp add: WritePushTransferData_def)
  moreover have "tc_crc32 C' = CRC32 (d @ d) 0" using C'(3) by (simp add: CRC32_append)
  ultimately show ?thesis using C'(2) one d(4)
    by (intro exI [of _ C']) (auto simp: push_message_def holds_def field_result_def simp del: code_of_result.simps)
qed

subsection \<open>Blocks that share an identifier\<close>

text \<open>C40.
  The loop that draws an identifier for a new block repeats only while the identifier is invalid and in
  use.  When it draws one that another block has, the new block gets it all the same: requests for it reach
  the other block, and closing the new block takes the other one from the map.
\<close>

theorem new_block_may_share_identifier:
  assumes M: "hb_inv (blockHash T) (m_registeredServerBlocks M)" "blockMemory T"
    and k: "Generate (m_blockRng M) = (k, rng)" "k \<noteq> kInvalidBlockId" "GetServerBlock T k M = Some q"
  shows "\<exists>M' b. OpenServerBlock T M = Some (Some (next_block M), M') \<and> server_blocks M' (next_block M) = Some b \<and> m_blockId b = k
    \<and> GetServerBlock T k M' = Some q \<and> GetServerBlock T k (CloseServerBlock T (Some (next_block M)) M') = None"
proof -
  have "new_block_id T (m_registeredServerBlocks M) (m_blockRng M) = Some (k, rng)"
    using k(1,2) by (subst new_block_id.simps) simp
  moreover obtain r h where c: "Create (blockHash T) (entryMemory T) k (next_block M) (m_registeredServerBlocks M) = (r, h)" by fastforce
  moreover have h: "hb_inv (blockHash T) h" "lookup (blockHash T) h k = Some q"
    using Create_spec(1,2) [OF M(1) c] k(3) by (auto simp: GetServerBlock_def FindValue_lookup)
  moreover obtain r' h' where e: "Erase (blockHash T) k h = (r', h')" by fastforce
  moreover have "lookup (blockHash T) h' k = None" using Erase_spec(2) [OF h(1) e] by simp
  ultimately show ?thesis using M(2)
    by (auto simp: OpenServerBlock_def Let_def CloseServerBlock_def GetServerBlock_def FindValue_lookup new_ServerBlock_def)
qed

subsection \<open>Witnesses\<close>

theorem short_chunk_reads_past_buffer_witness:
  "receive_push_data sample_transfer ((new_TransferSession (sample_blocks open_block) (sample_session [(Success, [3, 0, 0])] []))
     \<lparr>m_scratchPayload := CreatePayload (TransferStatus Success) new_SizedPayloadContainer, m_pBlock := Some 0,
      m_totalBytes := 2000, m_state := ReceivePushTransferData\<rparr>) = None"
proof -
  let ?c = "CreatePayload (TransferStatus Success) new_SizedPayloadContainer"
  let ?S = "(new_TransferSession (sample_blocks open_block) (sample_session [(Success, [3, 0, 0])] []))
     \<lparr>m_scratchPayload := ?c, m_pBlock := Some 0, m_totalBytes := 2000, m_state := ReceivePushTransferData\<rparr>"
  have l: "length (pc_payload ?c) = kMaxPayloadSizeInBytes"
    by (simp add: CreatePayload_length new_container_length msg_size_defs)
  have "command (CreatePayload [3, 0, 0] ?c) = TransferMessage_TransferDataChunk" by code_simp
  then have cmd: "command (CreatePayload [3, 0, 0] (m_scratchPayload ?S)) = TransferMessage_TransferDataChunk" by simp
  show ?thesis
    by (rule short_chunk_reads_past_buffer [OF _ cmd, of "[]"])
      (simp_all add: l script_def new_TransferSession_def sample_session_def kMaxTransferDataChunkSize_def msg_size_defs)
qed

definition stalled_client :: TransferClient where
  "stalled_client = (begin_transfer 3 (ResetState \<lparr>lc_state = Connected,
      lc_pSession = Some (sample_session [] [NotReady, NotReady, NotReady])\<rparr>))\<lparr>tc_type := TransferType_Push\<rparr>"

theorem resent_chunk_is_checksummed_twice_witness:
  "\<exists>C'. WritePushTransferData sample_waits [1, 2, 3] stalled_client = (Success, C')
     \<and> sent C' = [chunk_message [1, 2, 3]] \<and> tc_crc32 C' \<noteq> CRC32 [1, 2, 3] 0"
proof -
  have C: "connection stalled_client" "tc_state stalled_client = TransferInProgress" "tc_type stalled_client = TransferType_Push"
      "tc_crc32 stalled_client = 0" "sent stalled_client = []" "unat (tc_totalBytes stalled_client) = 3"
      "replies stalled_client = [NotReady, NotReady, NotReady]"
    by (simp_all add: stalled_client_def begin_transfer_def ResetState_def sample_session_def connection_def sent_def replies_def
        GetSessionVersion_def TRANSFER_REFACTOR_VERSION_def)
  have "Suc (unat (communicationTimeoutInMs sample_waits) div unat (retryTimeoutInMs sample_waits)) = Suc (Suc (Suc 0))"
    by (simp add: sample_waits_def)
  then have r: "replies stalled_client
      = replicate (Suc (unat (communicationTimeoutInMs sample_waits) div unat (retryTimeoutInMs sample_waits))) NotReady"
    by (simp only: C(7) replicate.simps)
  have W: "0 < retryTimeoutInMs sample_waits" "unat (communicationTimeoutInMs sample_waits) + unat (retryTimeoutInMs sample_waits) < 2 ^ 32"
    by (simp_all add: sample_waits_def)
  have crc: "CRC32 ([1, 2, 3] @ [1, 2, 3]) 0 \<noteq> CRC32 [1, 2, 3] 0" by code_simp
  have d: "[1, 2, 3 :: u8] \<noteq> []" "length [1, 2, 3 :: u8] \<le> kMaxTransferDataChunkSize"
      "length [1, 2, 3 :: u8] \<le> unat (tc_totalBytes stalled_client)"
    by (simp_all add: kMaxTransferDataChunkSize_def msg_size_defs C(6))
  from resent_chunk_is_checksummed_twice [OF C(1-4) W r d crc] obtain C' where
    "WritePushTransferData sample_waits [1, 2, 3] stalled_client = (Success, C')"
    "sent C' = sent stalled_client @ [chunk_message [1, 2, 3]]" "tc_crc32 C' = CRC32 ([1, 2, 3] @ [1, 2, 3]) 0" by blast
  with crc C(5) show ?thesis by auto
qed

theorem new_block_may_share_identifier_witness:
  "\<exists>k M M' b. GetServerBlock sample_transfer k M = Some 0
     \<and> OpenServerBlock sample_transfer M = Some (Some 1, M') \<and> server_blocks M' 1 = Some b \<and> m_blockId b = k
     \<and> GetServerBlock sample_transfer k (CloseServerBlock sample_transfer (Some 1) M') = None"
proof -
  define k where "k = fst (Generate (new_Random 42))"
  define M where "M = (sample_blocks (new_ServerBlock k))\<lparr>m_blockRng := new_Random 42\<rparr>"
  have k0: "k \<noteq> kInvalidBlockId" unfolding k_def by code_simp
  have g: "GetServerBlock sample_transfer k M = Some 0"
    using sample_registered [of "new_ServerBlock k"] by (simp add: M_def GetServerBlock_def new_ServerBlock_def)
  have gen: "Generate (m_blockRng M) = (k, snd (Generate (new_Random 42)))" by (simp add: M_def k_def)
  let ?P = "blockHash sample_transfer"
  have inv: "hb_inv ?P (m_registeredServerBlocks M)"
    using Create_spec(1) [OF hb_inv_new, of ?P True k "0 :: nat"] by (simp add: M_def sample_blocks_def new_ServerBlock_def) (metis prod.collapse)
  have number: "next_block M = 1" by (simp add: M_def sample_blocks_def)
  have mem: "blockMemory sample_transfer" by (simp add: sample_transfer_def)
  from new_block_may_share_identifier [OF inv mem gen k0 g] g show ?thesis unfolding number by blast
qed

end
