(* ===== verification/Event_Tokens.thy ===== *)
theory Event_Tokens
  imports Transfer_Base
begin

text \<open>
  The event stream that a provider writes: time stamps (\<^verbatim>\<open>shared/legacy/inc/util/ddEventTimer.h\<close>,
  \<^verbatim>\<open>src/util/ddEventTimer.cpp\<close>), tokens, chunks and the view that writes across chunks
  (\<^verbatim>\<open>inc/protocols/ddEventProtocol.h\<close>, and the token writers of \<^verbatim>\<open>src/protocols/ddEventProvider.cpp\<close>).
\<close>

subsection \<open>Time stamps\<close>

definition kEventTimeUnit :: u64 where "kEventTimeUnit = 32"
definition kEventTimeDeltaThreshold :: u64 where "kEventTimeDeltaThreshold = 2 ^ 4 - 1"
definition kEventTimestampThreshold :: u64 where "kEventTimestampThreshold = 2 ^ 48 - 1"

text \<open>A full time stamp with its frequency, a large delta with the number of its bytes, or a small delta.\<close>

datatype EventTimestamp = Full (full_timestamp: u64) (full_frequency: u64) | LargeDelta u64 u8 | SmallDelta u8

record EventTimer =
  m_timestampFrequency :: u64
  m_lastTimestamp :: u64

definition new_EventTimer :: "u64 \<Rightarrow> EventTimer" where
  "new_EventTimer frequency = \<lparr>m_timestampFrequency = frequency, m_lastTimestamp = 0\<rparr>"

text \<open>
  The loop that counts the bytes of a delta.  A shift by 64 is undefined; \<open>delta_bytes_small\<close> shows that the
  bound on \<open>numBytes\<close> is never what ends the loop.
\<close>

function delta_bytes :: "nat \<Rightarrow> u64 \<Rightarrow> nat" where
  "delta_bytes numBytes delta =
    (if numBytes < 8 \<and> push_bit (numBytes * 8) 1 - 1 < delta then delta_bytes (Suc numBytes) delta else numBytes)"
  by pat_completeness auto
termination by (relation "measure (\<lambda>(n, _). 8 - n)") auto

declare delta_bytes.simps [simp del]

text \<open>\<open>timestamp\<close> is what \<^verbatim>\<open>Platform::QueryTimestamp\<close> returns.\<close>

definition CreateTimestamp :: "u64 \<Rightarrow> EventTimer \<Rightarrow> EventTimestamp \<times> EventTimer" where
  "CreateTimestamp timestamp t =
    (let deltaSinceLastToken = (timestamp - m_lastTimestamp t) div kEventTimeUnit;
         needsFullTimestamp = deltaSinceLastToken > kEventTimestampThreshold \<or> m_lastTimestamp t = 0;
         needsTimeDelta = deltaSinceLastToken > kEventTimeDeltaThreshold;
         t1 = (if needsFullTimestamp \<or> needsTimeDelta then t\<lparr>m_lastTimestamp := timestamp\<rparr> else t)
     in
     if needsFullTimestamp then (Full (timestamp div kEventTimeUnit) (m_timestampFrequency t), t1)
     else if needsTimeDelta then (LargeDelta deltaSinceLastToken (word_of_nat (delta_bytes 1 deltaSinceLastToken)), t1)
     else (SmallDelta (ucast (deltaSinceLastToken div kEventTimeUnit)), t1))"

definition EventTimer_Reset :: "EventTimer \<Rightarrow> EventTimer" where
  "EventTimer_Reset t = t\<lparr>m_lastTimestamp := 0\<rparr>"

subsection \<open>Tokens\<close>

type_synonym EventProviderId = u32

text \<open>\<^verbatim>\<open>enum EventTokenType\<close>; the field is four bits that come from the network.\<close>

abbreviation (input) EventTokenType_Provider :: u8 where "EventTokenType_Provider \<equiv> 0"
abbreviation (input) EventTokenType_Data :: u8 where "EventTokenType_Data \<equiv> 1"
abbreviation (input) EventTokenType_Timestamp :: u8 where "EventTokenType_Timestamp \<equiv> 2"
abbreviation (input) EventTokenType_TimeDelta :: u8 where "EventTokenType_TimeDelta \<equiv> 3"

text \<open>\<^verbatim>\<open>EventTokenHeader\<close>: two bit fields in one byte, the identifier in the low half.\<close>

definition EventTokenHeader :: "u8 \<Rightarrow> u8 \<Rightarrow> u8" where
  "EventTokenHeader tokenId delta = (tokenId AND 15) OR push_bit 4 (delta AND 15)"

definition bits_id :: "u8 \<Rightarrow> u8" where "bits_id h = h AND 15"
definition bits_delta :: "u8 \<Rightarrow> u8" where "bits_delta h = drop_bit 4 h"

definition EventProviderToken :: "EventProviderId \<Rightarrow> u64 \<Rightarrow> u64 \<Rightarrow> u8 list" where
  "EventProviderToken providerId frequency timestamp =
    put_word 4 providerId @ put_word 4 (0 :: u32) @ put_word 8 frequency @ put_word 8 timestamp"

definition EventDataToken :: "u32 \<Rightarrow> u32 \<Rightarrow> u64 \<Rightarrow> u8 list" where
  "EventDataToken eventId index dataSize = put_word 4 eventId @ put_word 4 index @ put_word 8 dataSize"

definition EventTimestampToken :: "u64 \<Rightarrow> u64 \<Rightarrow> u8 list" where
  "EventTimestampToken frequency timestamp = put_word 8 frequency @ put_word 8 timestamp"

text \<open>Sizes of the structures, in bytes.\<close>

definition sizeof_EventTokenHeader :: nat where "sizeof_EventTokenHeader = 1"
definition sizeof_EventProviderToken :: nat where "sizeof_EventProviderToken = 24"
definition sizeof_EventDataToken :: nat where "sizeof_EventDataToken = 16"
definition sizeof_EventTimestampToken :: nat where "sizeof_EventTimestampToken = 16"
definition sizeof_EventTimeDeltaToken :: nat where "sizeof_EventTimeDeltaToken = 1"

lemmas event_sizes = sizeof_EventTokenHeader_def sizeof_EventProviderToken_def sizeof_EventDataToken_def
  sizeof_EventTimestampToken_def sizeof_EventTimeDeltaToken_def

definition kMaxEventTokenSize :: nat where
  "kMaxEventTokenSize = sizeof_EventTokenHeader + max sizeof_EventProviderToken
     (max sizeof_EventDataToken (max sizeof_EventTimestampToken (sizeof_EventTimeDeltaToken + 6)))"

lemma kMaxEventTokenSize_eq: "kMaxEventTokenSize = 25"
  by (simp add: kMaxEventTokenSize_def event_sizes)

definition CalculateWorstCaseSize :: "nat \<Rightarrow> nat" where
  "CalculateWorstCaseSize eventDataSize = eventDataSize + (sizeof_EventTokenHeader + sizeof_EventTimestampToken)
     + (sizeof_EventTokenHeader + sizeof_EventDataToken)"

subsection \<open>Chunks\<close>

text \<open>
  A chunk is the bytes it holds, \<^verbatim>\<open>dataSize\<close> of them.  Chunks are behind pointers: numbers that the memory
  resolves.
\<close>

type_synonym EventChunk = "u8 list"
type_synonym ChunkMemory = "nat \<rightharpoonup> EventChunk"

definition kEventChunkMaxDataSize :: nat where "kEventChunkMaxDataSize = 64 * 1024 - 4"

definition CalculateBytesRemaining :: "EventChunk \<Rightarrow> nat" where
  "CalculateBytesRemaining c = kEventChunkMaxDataSize - length c"

definition IsFull :: "EventChunk \<Rightarrow> bool" where
  "IsFull c \<longleftrightarrow> length c = kEventChunkMaxDataSize"

definition EventChunk_Write :: "u8 list \<Rightarrow> EventChunk \<Rightarrow> Result \<times> EventChunk" where
  "EventChunk_Write eventData c =
    (if length eventData \<le> CalculateBytesRemaining c then (Success, c @ eventData) else (InsufficientMemory, c))"

subsection \<open>Writing across chunks\<close>

record EventChunkBufferView =
  m_ppChunkList :: "nat list"
  m_currentChunkIndex :: nat

definition new_EventChunkBufferView :: "nat list \<Rightarrow> EventChunkBufferView" where
  "new_EventChunkBufferView ppChunkList = \<lparr>m_ppChunkList = ppChunkList, m_currentChunkIndex = 0\<rparr>"

text \<open>
  The current chunk; \<open>None\<close> is a position outside the list or a pointer to no chunk.  A chunk that holds
  more than its array is not a value of the structure.
\<close>

definition current_chunk :: "EventChunkBufferView \<Rightarrow> ChunkMemory \<Rightarrow> EventChunk option" where
  "current_chunk V M =
    (if m_currentChunkIndex V < length (m_ppChunkList V) then
       (case M (m_ppChunkList V ! m_currentChunkIndex V) of
          None \<Rightarrow> None
        | Some c \<Rightarrow> if length c \<le> kEventChunkMaxDataSize then Some c else None)
     else None)"

text \<open>One pass of the loop of \<^verbatim>\<open>Write\<close> works on the bytes that are left, \<^verbatim>\<open>pData + bytesWritten\<close>.\<close>

function View_Write ::
  "u8 list \<Rightarrow> EventChunkBufferView \<Rightarrow> ChunkMemory \<Rightarrow> (Result \<times> EventChunkBufferView \<times> ChunkMemory) option" where
  "View_Write pData V M =
    (case current_chunk V M of
       None \<Rightarrow> None
     | Some c \<Rightarrow>
         if IsFull c \<and> \<not> m_currentChunkIndex V + 1 < length (m_ppChunkList V) then Some (InsufficientMemory, V, M)
         else
           (let V1 = (if IsFull c then V\<lparr>m_currentChunkIndex := m_currentChunkIndex V + 1\<rparr> else V) in
            case current_chunk V1 M of
              None \<Rightarrow> None
            | Some c1 \<Rightarrow>
                (let bytesToWrite = min (CalculateBytesRemaining c1) (length pData);
                     (result, c2) = EventChunk_Write (take bytesToWrite pData) c1;
                     M1 = M(m_ppChunkList V1 ! m_currentChunkIndex V1 \<mapsto> c2)
                 in
                 if result \<noteq> Success \<or> bytesToWrite = length pData then Some (result, V1, M1)
                 else View_Write (drop bytesToWrite pData) V1 M1)))"
  by pat_completeness auto
termination
proof (relation "measure (\<lambda>(d, V, _). length d + (length (m_ppChunkList V) - m_currentChunkIndex V))", goal_cases)
  case (2 pData V M c V1 c1 n x result c2 M1)
  then show ?case
    by (auto simp: IsFull_def current_chunk_def CalculateBytesRemaining_def split: if_splits option.splits)
qed simp

declare View_Write.simps [simp del]

text \<open>Going on after a write that succeeded.\<close>

definition and_then ::
  "(Result \<times> 'v \<times> 'm) option \<Rightarrow> ('v \<Rightarrow> 'm \<Rightarrow> (Result \<times> 'v \<times> 'm) option) \<Rightarrow> (Result \<times> 'v \<times> 'm) option" where
  "and_then x f = (case x of None \<Rightarrow> None | Some (r, v, m) \<Rightarrow> if r = Success then f v m else Some (r, v, m))"

definition WriteEventProviderToken ::
  "EventProviderId \<Rightarrow> u64 \<Rightarrow> u64 \<Rightarrow> EventChunkBufferView \<Rightarrow> ChunkMemory \<Rightarrow> (Result \<times> EventChunkBufferView \<times> ChunkMemory) option" where
  "WriteEventProviderToken providerId frequency timestamp V M =
    and_then (View_Write [EventTokenHeader EventTokenType_Provider 0] V M)
      (View_Write (EventProviderToken providerId frequency timestamp))"

definition WriteEventDataToken ::
  "u8 \<Rightarrow> u32 \<Rightarrow> u32 \<Rightarrow> u64 \<Rightarrow> EventChunkBufferView \<Rightarrow> ChunkMemory \<Rightarrow> (Result \<times> EventChunkBufferView \<times> ChunkMemory) option" where
  "WriteEventDataToken delta eventId index eventDataSize V M =
    and_then (View_Write [EventTokenHeader EventTokenType_Data delta] V M)
      (View_Write (EventDataToken eventId index eventDataSize))"

definition WriteEventTimestampToken ::
  "u64 \<Rightarrow> u64 \<Rightarrow> EventChunkBufferView \<Rightarrow> ChunkMemory \<Rightarrow> (Result \<times> EventChunkBufferView \<times> ChunkMemory) option" where
  "WriteEventTimestampToken frequency timestamp V M =
    and_then (View_Write [EventTokenHeader EventTokenType_Timestamp 0] V M)
      (View_Write (EventTimestampToken frequency timestamp))"

text \<open>\<^verbatim>\<open>Write(&timeDelta, numBytes)\<close> copies the low bytes of the delta; more than eight are not there.\<close>

definition WriteEventTimeDeltaToken ::
  "u8 \<Rightarrow> u64 \<Rightarrow> EventChunkBufferView \<Rightarrow> ChunkMemory \<Rightarrow> (Result \<times> EventChunkBufferView \<times> ChunkMemory) option" where
  "WriteEventTimeDeltaToken numBytes timeDelta V M =
    (if numBytes > 8 then None
     else and_then (and_then (View_Write [EventTokenHeader EventTokenType_TimeDelta 0] V M) (View_Write [numBytes]))
       (View_Write (take (unat numBytes) (put_word 8 timeDelta))))"

end
