(* ===== verification/Event_Parser.thy ===== *)
theory Event_Parser
  imports Event_Tokens
begin

text \<open>
  The incremental parser of event streams: class \<^verbatim>\<open>Event::EventParser\<close> of
  \<^verbatim>\<open>apis/ddEvent/ddEventParser/src/eventParser.h\<close> and \<^verbatim>\<open>eventParser.cpp\<close>, with the state machine of \<^verbatim>\<open>Parse()\<close>.
  Assertions do nothing in a release build.
\<close>

subsection \<open>State\<close>

datatype ParserInternalState = ParsingHeader | ParsingToken | ParsingPayload

datatype DD_EVENT_PARSER_STATE =
  PARSER_STATE_UNKNOWN | PARSER_STATE_EVENT_RECEIVED | PARSER_STATE_PAYLOAD_RECEIVED | PARSER_STATE_NEED_MORE_DATA

record DDEventParserEventInfo =
  ei_timestampFrequency :: u64
  ei_timestamp :: u64
  ei_providerId :: u32
  ei_eventId :: u32
  ei_eventIndex :: u32
  ei_totalPayloadSize :: u64

text \<open>
  The buffer that is parsed is the list of its bytes, the token buffer the array of 25 bytes, of which
  \<^verbatim>\<open>m_tokenDataSize\<close> are valid.  The payload is the bytes from \<^verbatim>\<open>pData\<close> on.
\<close>

record EventParser =
  ep_buffer :: "u8 list"
  ep_cursor :: nat
  ep_tokenBuffer :: "u8 list"
  ep_tokenDataSize :: nat
  ep_tokenItemStart :: nat
  ep_parsingState :: ParserInternalState
  ep_currProviderId :: u32
  ep_currTimestampFrequency :: u64
  ep_currTimestamp :: u64
  ep_currDataPayload :: "u8 list"
  ep_dataPayloadReadInBytes :: nat

text \<open>The content of the token buffer is not initialised by the constructor.\<close>

definition new_EventParser :: "u8 list \<Rightarrow> EventParser" where
  "new_EventParser garbage =
    \<lparr>ep_buffer = [], ep_cursor = 0, ep_tokenBuffer = bytes_at kMaxEventTokenSize garbage, ep_tokenDataSize = 0,
     ep_tokenItemStart = 0, ep_parsingState = ParsingHeader, ep_currProviderId = 0, ep_currTimestampFrequency = 0,
     ep_currTimestamp = 0, ep_currDataPayload = [], ep_dataPayloadReadInBytes = 0\<rparr>"

definition SetParsingBuffer :: "u8 list \<Rightarrow> EventParser \<Rightarrow> EventParser" where
  "SetParsingBuffer pBuffer p = p\<lparr>ep_buffer := pBuffer, ep_cursor := 0\<rparr>"

subsection \<open>The token buffer\<close>

text \<open>Writing bytes at a position; bytes written past the end would make the list longer.\<close>

definition write_at :: "nat \<Rightarrow> u8 list \<Rightarrow> u8 list \<Rightarrow> u8 list" where
  "write_at position bytes buffer = take position buffer @ bytes @ drop (position + length bytes) buffer"

definition CopyToTokenBuffer :: "nat \<Rightarrow> EventParser \<Rightarrow> bool \<times> EventParser" where
  "CopyToTokenBuffer tokenItemSize p =
    (let tokenItemPartialSize = ep_tokenDataSize p - ep_tokenItemStart p;
         remainingTokenItemSize = tokenItemSize - tokenItemPartialSize;
         remainingBufferSize = length (ep_buffer p) - ep_cursor p;
         needMoreData = \<not> remainingTokenItemSize \<le> remainingBufferSize;
         sizeToCopy = (if needMoreData then remainingBufferSize else remainingTokenItemSize);
         p1 = (if sizeToCopy > 0
               then p\<lparr>ep_tokenBuffer := write_at (ep_tokenDataSize p) (take sizeToCopy (drop (ep_cursor p) (ep_buffer p))) (ep_tokenBuffer p),
                      ep_tokenDataSize := ep_tokenDataSize p + sizeToCopy,
                      ep_cursor := ep_cursor p + sizeToCopy\<rparr>
               else p)
     in (needMoreData, if needMoreData then p1 else p1\<lparr>ep_tokenItemStart := ep_tokenDataSize p1\<rparr>))"

definition ResetTokenBuffer :: "EventParser \<Rightarrow> EventParser" where
  "ResetTokenBuffer p = p\<lparr>ep_tokenItemStart := 0, ep_tokenDataSize := 0\<rparr>"

text \<open>Fields of the token in the buffer, which starts after the header.\<close>

definition token_header :: "EventParser \<Rightarrow> u8" where
  "token_header p = ep_tokenBuffer p ! 0"

definition token_field :: "nat \<Rightarrow> nat \<Rightarrow> EventParser \<Rightarrow> 'a::len word" where
  "token_field offset n p = get_word (sizeof_EventTokenHeader + offset) n (ep_tokenBuffer p)"

subsection \<open>The state machine\<close>

text \<open>
  One pass of the loop of \<^verbatim>\<open>Parse\<close>: the new state, and the parser state with which it yields, if it does.
  A pass that neither yields nor changes anything makes the loop spin.
\<close>

definition parse_provider :: "EventParser \<Rightarrow> EventParser \<times> DD_EVENT_PARSER_STATE option" where
  "parse_provider p =
    (let (needMoreData, p1) = CopyToTokenBuffer sizeof_EventProviderToken p in
     if needMoreData then (p1, Some PARSER_STATE_NEED_MORE_DATA)
     else (ResetTokenBuffer (p1\<lparr>ep_currProviderId := token_field 0 4 p1, ep_currTimestampFrequency := token_field 8 8 p1,
             ep_currTimestamp := token_field 16 8 p1, ep_parsingState := ParsingHeader\<rparr>), None))"

definition parse_timestamp :: "EventParser \<Rightarrow> EventParser \<times> DD_EVENT_PARSER_STATE option" where
  "parse_timestamp p =
    (let (needMoreData, p1) = CopyToTokenBuffer sizeof_EventTimestampToken p in
     if needMoreData then (p1, Some PARSER_STATE_NEED_MORE_DATA)
     else (ResetTokenBuffer (p1\<lparr>ep_currTimestampFrequency := token_field 0 8 p1, ep_currTimestamp := token_field 8 8 p1,
             ep_parsingState := ParsingHeader\<rparr>), None))"

definition parse_token :: "EventParser \<Rightarrow> EventParser \<times> DD_EVENT_PARSER_STATE option" where
  "parse_token p =
    (let tokenType = bits_id (token_header p) in
     if tokenType = EventTokenType_Provider then parse_provider p
     else if tokenType = EventTokenType_Timestamp then parse_timestamp p
     else if tokenType = EventTokenType_TimeDelta then
       (let (needMoreData, p1) = CopyToTokenBuffer sizeof_EventTimeDeltaToken p in
        if needMoreData then (p1, Some PARSER_STATE_NEED_MORE_DATA)
        else (p1\<lparr>ep_parsingState := ParsingPayload\<rparr>, None))
     else if tokenType = EventTokenType_Data then
       (let (needMoreData, p1) = CopyToTokenBuffer sizeof_EventDataToken p in
        if needMoreData then (p1, Some PARSER_STATE_NEED_MORE_DATA)
        else (p1\<lparr>ep_parsingState := ParsingPayload\<rparr>, Some PARSER_STATE_EVENT_RECEIVED))
     else (p, Some PARSER_STATE_UNKNOWN))"

definition parse_data_payload :: "EventParser \<Rightarrow> EventParser \<times> DD_EVENT_PARSER_STATE option" where
  "parse_data_payload p =
    (let totalPayloadSize = unat (token_field 8 8 p :: u64);
         remainingBufferSize = length (ep_buffer p) - ep_cursor p;
         remainingPayloadSize = totalPayloadSize - ep_dataPayloadReadInBytes p;
         n = (if remainingPayloadSize \<le> remainingBufferSize then remainingPayloadSize else remainingBufferSize)
     in
     if ep_dataPayloadReadInBytes p < totalPayloadSize then
       (if ep_cursor p < length (ep_buffer p)
        then (p\<lparr>ep_currDataPayload := take n (drop (ep_cursor p) (ep_buffer p)), ep_cursor := ep_cursor p + n,
               ep_dataPayloadReadInBytes := ep_dataPayloadReadInBytes p + n\<rparr>, Some PARSER_STATE_PAYLOAD_RECEIVED)
        else (p, Some PARSER_STATE_NEED_MORE_DATA))
     else (ResetTokenBuffer (p\<lparr>ep_dataPayloadReadInBytes := 0, ep_parsingState := ParsingHeader\<rparr>), None))"

definition parse_time_delta :: "EventParser \<Rightarrow> EventParser \<times> DD_EVENT_PARSER_STATE option" where
  "parse_time_delta p =
    (let deltaBytes = unat (min (ucast (token_field 0 1 p :: u8)) (6 :: u32));
         (needMoreData, p1) = CopyToTokenBuffer deltaBytes p
     in
     if needMoreData then (p1, Some PARSER_STATE_NEED_MORE_DATA)
     else (let currentTimeDelta = token_field sizeof_EventTimeDeltaToken deltaBytes p1 :: u64
           in (ResetTokenBuffer (p1\<lparr>ep_currTimestamp := ep_currTimestamp p1 + currentTimeDelta, ep_parsingState := ParsingHeader\<rparr>),
               None)))"

definition parse_step :: "EventParser \<Rightarrow> EventParser \<times> DD_EVENT_PARSER_STATE option" where
  "parse_step p =
    (case ep_parsingState p of
       ParsingHeader \<Rightarrow>
         (let (needMoreData, p1) = CopyToTokenBuffer sizeof_EventTokenHeader p in
          if needMoreData then (p1, Some PARSER_STATE_NEED_MORE_DATA)
          else (p1\<lparr>ep_parsingState := ParsingToken\<rparr>, None))
     | ParsingToken \<Rightarrow> parse_token p
     | ParsingPayload \<Rightarrow>
         (let tokenType = bits_id (token_header p) in
          if tokenType = EventTokenType_Data then parse_data_payload p
          else if tokenType = EventTokenType_TimeDelta then parse_time_delta p
          else (p, None)))"

partial_function (option) Parse :: "EventParser \<Rightarrow> (DD_EVENT_PARSER_STATE \<times> EventParser) option" where
  "Parse p = (case parse_step p of (p1, Some parserState) \<Rightarrow> Some (parserState, p1) | (p1, None) \<Rightarrow> Parse p1)"

declare Parse.simps [code]

definition GetEventInfo :: "EventParser \<Rightarrow> DDEventParserEventInfo" where
  "GetEventInfo p =
    \<lparr>ei_timestampFrequency = ep_currTimestampFrequency p,
     ei_timestamp = ep_currTimestamp p + ucast (bits_delta (token_header p)) * kEventTimeUnit,
     ei_providerId = ep_currProviderId p, ei_eventId = token_field 0 4 p, ei_eventIndex = token_field 4 4 p,
     ei_totalPayloadSize = token_field 8 8 p\<rparr>"

definition GetPayload :: "EventParser \<Rightarrow> u8 list" where
  "GetPayload p = ep_currDataPayload p"

end
