(* ===== verification/Event_Machine.thy ===== *)
theory Event_Machine
  imports Event_Parser
begin

text \<open>
  What the incremental parser computes: a machine that reads the stream byte by byte, and the simulation of
  the parser by it.  The machine is the specification; the simulation holds for every state the parser can
  reach and every buffer, and gives that \<^verbatim>\<open>Parse\<close> returns.
\<close>

subsection \<open>The machine\<close>

text \<open>
  Within a token, within the payload of an event with so many bytes to come, or at an invalid token.  There
  are two readings of a stream, the one of this parser and a strict one: it stops at time deltas that have no
  bytes or more than six, and does not look at the time in the header of an event.
\<close>

datatype stream_mode = Token "u8 list" | Payload nat | Stuck

record stream_state =
  ss_strict :: bool
  ss_mode :: stream_mode
  ss_providerId :: u32
  ss_timestampFrequency :: u64
  ss_timestamp :: u64

datatype stream_output = EventBegins DDEventParserEventInfo | PayloadByte u8

definition delta_size :: "u8 \<Rightarrow> nat" where
  "delta_size numBytes = min (unat numBytes) 6"

text \<open>The length of the token that starts with these bytes.\<close>

definition token_length :: "u8 list \<Rightarrow> nat" where
  "token_length t =
    (if bits_id (t ! 0) = EventTokenType_Provider then 25
     else if bits_id (t ! 0) = EventTokenType_TimeDelta then (if length t < 2 then 2 else 2 + delta_size (t ! 1))
     else 17)"

definition known_token :: "u8 list \<Rightarrow> bool" where
  "known_token t \<longleftrightarrow> bits_id (t ! 0) < 4"

definition legal_delta :: "u8 list \<Rightarrow> bool" where
  "legal_delta t \<longleftrightarrow> (bits_id (t ! 0) = EventTokenType_TimeDelta \<and> 2 \<le> length t \<longrightarrow> t ! 1 \<noteq> 0 \<and> t ! 1 \<le> 6)"

definition event_info :: "u8 list \<Rightarrow> stream_state \<Rightarrow> DDEventParserEventInfo" where
  "event_info t S =
    \<lparr>ei_timestampFrequency = ss_timestampFrequency S,
     ei_timestamp = (if ss_strict S then ss_timestamp S else ss_timestamp S + ucast (bits_delta (t ! 0)) * kEventTimeUnit),
     ei_providerId = ss_providerId S, ei_eventId = get_word 1 4 t, ei_eventIndex = get_word 5 4 t,
     ei_totalPayloadSize = get_word 9 8 t\<rparr>"

definition payload_mode :: "nat \<Rightarrow> stream_mode" where
  "payload_mode n = (if n = 0 then Token [] else Payload n)"

text \<open>The effect of a complete token.\<close>

definition token_done :: "u8 list \<Rightarrow> stream_state \<Rightarrow> stream_output list \<times> stream_state" where
  "token_done t S =
    (if bits_id (t ! 0) = EventTokenType_Provider then
       ([], S\<lparr>ss_mode := Token [], ss_providerId := get_word 1 4 t, ss_timestampFrequency := get_word 9 8 t,
              ss_timestamp := get_word 17 8 t\<rparr>)
     else if bits_id (t ! 0) = EventTokenType_Timestamp then
       ([], S\<lparr>ss_mode := Token [], ss_timestampFrequency := get_word 1 8 t, ss_timestamp := get_word 9 8 t\<rparr>)
     else if bits_id (t ! 0) = EventTokenType_TimeDelta then
       ([], S\<lparr>ss_mode := Token [], ss_timestamp := ss_timestamp S + get_word 2 (delta_size (t ! 1)) t\<rparr>)
     else ([EventBegins (event_info t S)], S\<lparr>ss_mode := payload_mode (unat (get_word 9 8 t :: u64))\<rparr>))"

definition token_step :: "u8 list \<Rightarrow> stream_state \<Rightarrow> stream_output list \<times> stream_state" where
  "token_step t S =
    (if \<not> known_token t \<or> (ss_strict S \<and> \<not> legal_delta t) then ([], S\<lparr>ss_mode := Stuck\<rparr>)
     else if length t = token_length t then token_done t S
     else ([], S\<lparr>ss_mode := Token t\<rparr>))"

definition stream_step :: "u8 \<Rightarrow> stream_state \<Rightarrow> stream_output list \<times> stream_state" where
  "stream_step b S =
    (case ss_mode S of
       Token t \<Rightarrow> token_step (t @ [b]) S
     | Payload n \<Rightarrow> ([PayloadByte b], S\<lparr>ss_mode := payload_mode (n - 1)\<rparr>)
     | Stuck \<Rightarrow> ([], S))"

fun stream_run :: "u8 list \<Rightarrow> stream_state \<Rightarrow> stream_output list \<times> stream_state" where
  "stream_run [] S = ([], S)"
| "stream_run (b # bs) S =
    (let (out, S1) = stream_step b S; (out', S2) = stream_run bs S1 in (out @ out', S2))"

lemma stream_run_append:
  "stream_run (xs @ ys) S =
    (fst (stream_run xs S) @ fst (stream_run ys (snd (stream_run xs S))), snd (stream_run ys (snd (stream_run xs S))))"
  by (induction xs arbitrary: S) (simp_all add: case_prod_unfold Let_def)

lemma stream_run_stuck: "ss_mode S = Stuck \<Longrightarrow> stream_run bs S = ([], S)"
  by (induction bs) (simp_all add: stream_step_def)

lemma stream_run_payload:
  "ss_mode S = Payload n \<Longrightarrow> length bs \<le> n \<Longrightarrow> 0 < n \<Longrightarrow>
   stream_run bs S = (map PayloadByte bs, S\<lparr>ss_mode := payload_mode (n - length bs)\<rparr>)"
proof (induction bs arbitrary: S n)
  case (Cons b bs)
  show ?case
  proof (cases "bs = []")
    case False
    with Cons.prems have n: "0 < n - 1" and le: "length bs \<le> n - 1" by (cases bs; simp)+
    then have "ss_mode (S\<lparr>ss_mode := payload_mode (n - 1)\<rparr>) = Payload (n - 1)" by (simp add: payload_mode_def)
    from Cons.IH [OF this le n] Cons.prems(1) show ?thesis
      by (simp add: stream_step_def)
  qed (use Cons.prems in \<open>simp add: stream_step_def\<close>)
qed (simp add: payload_mode_def)

text \<open>Reading on within a token.\<close>

definition in_token :: "u8 list \<Rightarrow> bool" where
  "in_token t \<longleftrightarrow> known_token t \<and> length t < token_length t"

lemma stream_run_in_token:
  "ss_mode S = Token t \<Longrightarrow>
   (\<And>i. 0 < i \<Longrightarrow> i \<le> length bs \<Longrightarrow> in_token (t @ take i bs) \<and> (ss_strict S \<longrightarrow> legal_delta (t @ take i bs))) \<Longrightarrow>
   stream_run bs S = ([], S\<lparr>ss_mode := Token (t @ bs)\<rparr>)"
proof (induction bs arbitrary: S t)
  case (Cons b bs)
  have 1: "in_token (t @ [b]) \<and> (ss_strict S \<longrightarrow> legal_delta (t @ [b]))" using Cons.prems(2) [of 1] by simp
  have 2: "in_token ((t @ [b]) @ take i bs) \<and> (ss_strict S \<longrightarrow> legal_delta ((t @ [b]) @ take i bs))" if "0 < i" "i \<le> length bs" for i
    using Cons.prems(2) [of "Suc i"] that by simp
  have "stream_step b S = ([], S\<lparr>ss_mode := Token (t @ [b])\<rparr>)"
    using 1 Cons.prems(1) by (auto simp: stream_step_def token_step_def in_token_def)
  moreover have "stream_run bs (S\<lparr>ss_mode := Token (t @ [b])\<rparr>) = ([], S\<lparr>ss_mode := Token (t @ b # bs)\<rparr>)"
    using Cons.IH [of "S\<lparr>ss_mode := Token (t @ [b])\<rparr>" "t @ [b]"] 2 by simp
  ultimately show ?case by simp
qed simp

lemma stream_run_token:
  assumes "ss_mode S = Token t" "bs \<noteq> []"
    "\<And>i. 0 < i \<Longrightarrow> i < length bs \<Longrightarrow> in_token (t @ take i bs) \<and> (ss_strict S \<longrightarrow> legal_delta (t @ take i bs))"
    "known_token (t @ bs)" "length (t @ bs) = token_length (t @ bs)" "ss_strict S \<Longrightarrow> legal_delta (t @ bs)"
  shows "stream_run bs S = token_done (t @ bs) S"
proof -
  have bs: "butlast bs @ [last bs] = bs" using assms(2) by simp
  have "stream_run (butlast bs) S = ([], S\<lparr>ss_mode := Token (t @ butlast bs)\<rparr>)"
  proof (rule stream_run_in_token [OF assms(1)])
    fix i assume "0 < i" "i \<le> length (butlast bs)"
    then show "in_token (t @ take i (butlast bs)) \<and> (ss_strict S \<longrightarrow> legal_delta (t @ take i (butlast bs)))"
      using assms(3) [of i] by (simp add: take_butlast)
  qed
  moreover have "token_done (t @ bs) (S\<lparr>ss_mode := m\<rparr>) = token_done (t @ bs) S" for m
    by (simp add: token_done_def event_info_def)
  then have "stream_step (last bs) (S\<lparr>ss_mode := Token (t @ butlast bs)\<rparr>) = token_done (t @ bs) S"
    using assms(4,5,6) bs by (auto simp: stream_step_def token_step_def)
  ultimately have "stream_run (butlast bs @ [last bs]) S = token_done (t @ bs) S"
    by (simp add: stream_run_append case_prod_unfold)
  then show ?thesis by (simp add: bs)
qed

text \<open>A header that is known decides the length, apart from time deltas, where the second byte does.\<close>

lemma token_length_prefix:
  "t \<noteq> [] \<Longrightarrow> bits_id (t ! 0) \<noteq> EventTokenType_TimeDelta \<Longrightarrow> token_length (t @ bs) = token_length t"
  by (simp add: token_length_def nth_append)

lemma token_length_delta:
  "2 \<le> length t \<Longrightarrow> bits_id (t ! 0) = EventTokenType_TimeDelta \<Longrightarrow> token_length (t @ bs) = 2 + delta_size (t ! 1)"
  by (auto simp: token_length_def nth_append)

lemma known_token_append: "t \<noteq> [] \<Longrightarrow> known_token (t @ bs) \<longleftrightarrow> known_token t"
  by (simp add: known_token_def nth_append)

lemma bits_id_cases:
  "bits_id h < 4 \<Longrightarrow> bits_id h = 0 \<or> bits_id h = 1 \<or> bits_id h = 2 \<or> bits_id h = 3"
proof -
  assume "bits_id h < 4"
  then have "unat (bits_id h) < 4" by (simp add: word_less_nat_alt)
  then have "unat (bits_id h) \<in> {0, 1, 2, 3}" by auto
  then show ?thesis by (auto simp: word_unat_eq_iff)
qed

end
