(* ===== verification/Event_Simulation.thy ===== *)
theory Event_Simulation
  imports Event_Machine
begin

text \<open>The simulation of the incremental parser by the stream machine.\<close>

subsection \<open>The invariant of the parser\<close>

text \<open>The size of the token after its header, and the bytes of the token so far.\<close>

definition item_size :: "u8 \<Rightarrow> nat" where
  "item_size h =
    (if bits_id h = EventTokenType_Provider then 24 else if bits_id h = EventTokenType_TimeDelta then 1
     else if bits_id h < 4 then 16 else 1)"

definition token_bytes :: "EventParser \<Rightarrow> u8 list" where
  "token_bytes p = take (ep_tokenDataSize p) (ep_tokenBuffer p)"

definition parser_inv :: "EventParser \<Rightarrow> bool" where
  "parser_inv p \<longleftrightarrow>
    length (ep_tokenBuffer p) = 25 \<and> ep_cursor p \<le> length (ep_buffer p) \<and>
    (case ep_parsingState p of
       ParsingHeader \<Rightarrow> ep_tokenItemStart p = 0 \<and> ep_tokenDataSize p = 0 \<and> ep_dataPayloadReadInBytes p = 0
     | ParsingToken \<Rightarrow> ep_tokenItemStart p = 1 \<and> ep_dataPayloadReadInBytes p = 0 \<and>
         1 \<le> ep_tokenDataSize p \<and> ep_tokenDataSize p < 1 + item_size (token_header p)
     | ParsingPayload \<Rightarrow>
         (bits_id (token_header p) = EventTokenType_Data \<and> ep_tokenDataSize p = 17 \<and>
          ep_dataPayloadReadInBytes p \<le> unat (token_field 8 8 p :: u64))
       \<or> (bits_id (token_header p) = EventTokenType_TimeDelta \<and> ep_tokenItemStart p = 2 \<and> ep_dataPayloadReadInBytes p = 0 \<and>
          2 \<le> ep_tokenDataSize p \<and> (ep_tokenDataSize p = 2 \<or> ep_tokenDataSize p < 2 + delta_size (ep_tokenBuffer p ! 1))))"

text \<open>What the parser stands for.\<close>

definition parser_mode :: "EventParser \<Rightarrow> stream_mode" where
  "parser_mode p =
    (case ep_parsingState p of
       ParsingHeader \<Rightarrow> Token []
     | ParsingToken \<Rightarrow> if known_token (token_bytes p) then Token (token_bytes p) else Stuck
     | ParsingPayload \<Rightarrow>
         if bits_id (token_header p) = EventTokenType_Data
         then payload_mode (unat (token_field 8 8 p :: u64) - ep_dataPayloadReadInBytes p)
         else if delta_size (ep_tokenBuffer p ! 1) = 0 then Token [] else Token (token_bytes p))"

definition parser_stream :: "EventParser \<Rightarrow> stream_state" where
  "parser_stream p =
    \<lparr>ss_strict = False, ss_mode = parser_mode p, ss_providerId = ep_currProviderId p, ss_timestampFrequency = ep_currTimestampFrequency p,
     ss_timestamp = ep_currTimestamp p\<rparr>"

definition new_stream :: stream_state where
  "new_stream = \<lparr>ss_strict = False, ss_mode = Token [], ss_providerId = 0, ss_timestampFrequency = 0, ss_timestamp = 0\<rparr>"

lemma parser_stream_strict [simp]: "\<not> ss_strict (parser_stream p)"
  by (simp add: parser_stream_def)

lemma new_EventParser_inv: "parser_inv (new_EventParser garbage)"
  by (simp add: parser_inv_def new_EventParser_def kMaxEventTokenSize_eq)

lemma new_EventParser_stream: "parser_stream (new_EventParser garbage) = new_stream"
  by (simp add: parser_stream_def new_stream_def parser_mode_def new_EventParser_def)

lemma SetParsingBuffer_inv: "parser_inv p \<Longrightarrow> parser_inv (SetParsingBuffer bs p)"
  by (simp add: parser_inv_def SetParsingBuffer_def token_header_def token_field_def split: ParserInternalState.splits)

lemma SetParsingBuffer_stream: "parser_stream (SetParsingBuffer bs p) = parser_stream p"
  by (simp add: parser_stream_def parser_mode_def SetParsingBuffer_def token_header_def token_field_def token_bytes_def
      split: ParserInternalState.splits)

subsection \<open>Copying into the token buffer\<close>

text \<open>The bytes of the buffer from one position to another.\<close>

definition consumed :: "nat \<Rightarrow> EventParser \<Rightarrow> u8 list" where
  "consumed k p = take k (drop (ep_cursor p) (ep_buffer p))"

definition copied :: "nat \<Rightarrow> EventParser \<Rightarrow> EventParser" where
  "copied k p = p\<lparr>ep_tokenBuffer := write_at (ep_tokenDataSize p) (consumed k p) (ep_tokenBuffer p),
     ep_tokenDataSize := ep_tokenDataSize p + k, ep_cursor := ep_cursor p + k\<rparr>"

lemma copied_simps [simp]:
  "ep_buffer (copied k p) = ep_buffer p" "ep_cursor (copied k p) = ep_cursor p + k"
  "ep_tokenDataSize (copied k p) = ep_tokenDataSize p + k" "ep_tokenItemStart (copied k p) = ep_tokenItemStart p"
  "ep_parsingState (copied k p) = ep_parsingState p" "ep_currProviderId (copied k p) = ep_currProviderId p"
  "ep_currTimestampFrequency (copied k p) = ep_currTimestampFrequency p"
  "ep_currTimestamp (copied k p) = ep_currTimestamp p"
  "ep_dataPayloadReadInBytes (copied k p) = ep_dataPayloadReadInBytes p"
  by (simp_all add: copied_def)

lemma write_at_nil: "n \<le> length bs \<Longrightarrow> write_at n [] bs = bs"
  by (simp add: write_at_def)

lemma length_write_at: "n + length bytes \<le> length bs \<Longrightarrow> length (write_at n bytes bs) = length bs"
  by (simp add: write_at_def)

lemma nth_write_at: "i < n \<Longrightarrow> n + length bytes \<le> length bs \<Longrightarrow> write_at n bytes bs ! i = bs ! i"
  by (simp add: write_at_def nth_append)

lemma copied_0: "ep_tokenDataSize p \<le> length (ep_tokenBuffer p) \<Longrightarrow> copied 0 p = p"
  by (simp add: copied_def consumed_def write_at_nil)

lemma length_consumed: "k \<le> length (ep_buffer p) - ep_cursor p \<Longrightarrow> length (consumed k p) = k"
  by (simp add: consumed_def)

lemma copied_length:
  "k \<le> length (ep_buffer p) - ep_cursor p \<Longrightarrow> ep_tokenDataSize p + k \<le> length (ep_tokenBuffer p) \<Longrightarrow>
   length (ep_tokenBuffer (copied k p)) = length (ep_tokenBuffer p)"
  by (simp add: copied_def length_write_at length_consumed)

lemma copied_nth:
  "i < ep_tokenDataSize p \<Longrightarrow> k \<le> length (ep_buffer p) - ep_cursor p \<Longrightarrow>
   ep_tokenDataSize p + k \<le> length (ep_tokenBuffer p) \<Longrightarrow> ep_tokenBuffer (copied k p) ! i = ep_tokenBuffer p ! i"
  by (simp add: copied_def nth_write_at length_consumed)

lemma copied_bytes:
  "k \<le> length (ep_buffer p) - ep_cursor p \<Longrightarrow> ep_tokenDataSize p + k \<le> length (ep_tokenBuffer p) \<Longrightarrow>
   token_bytes (copied k p) = token_bytes p @ consumed k p"
  by (simp add: token_bytes_def copied_def write_at_def length_consumed)

lemma CopyToTokenBuffer_eq:
  assumes "ep_tokenItemStart p \<le> ep_tokenDataSize p" "ep_tokenDataSize p \<le> ep_tokenItemStart p + n"
    "ep_tokenDataSize p \<le> length (ep_tokenBuffer p)"
  shows "CopyToTokenBuffer n p =
    (let need = ep_tokenItemStart p + n - ep_tokenDataSize p; rest = length (ep_buffer p) - ep_cursor p
     in if need \<le> rest then (False, (copied need p)\<lparr>ep_tokenItemStart := ep_tokenItemStart p + n\<rparr>)
        else (True, copied rest p))"
proof -
  have "n - (ep_tokenDataSize p - ep_tokenItemStart p) = ep_tokenItemStart p + n - ep_tokenDataSize p"
    using assms by simp
  then show ?thesis
    using assms by (auto simp: CopyToTokenBuffer_def Let_def copied_def consumed_def write_at_nil)
qed

text \<open>Fields of the token are fields of its bytes.\<close>

lemma get_word_take: "off + n \<le> k \<Longrightarrow> get_word off n (take k bs) = get_word off n bs"
  by (simp add: get_word_def drop_take min_def)

lemma token_field_bytes:
  "1 + off + n \<le> ep_tokenDataSize p \<Longrightarrow> token_field off n p = get_word (1 + off) n (token_bytes p)"
  by (simp add: token_field_def token_bytes_def get_word_take event_sizes)

lemma token_header_bytes: "0 < ep_tokenDataSize p \<Longrightarrow> token_header p = token_bytes p ! 0"
  by (simp add: token_header_def token_bytes_def)

lemma token_bytes_nth: "i < ep_tokenDataSize p \<Longrightarrow> token_bytes p ! i = ep_tokenBuffer p ! i"
  by (simp add: token_bytes_def)

lemma length_token_bytes: "ep_tokenDataSize p \<le> length (ep_tokenBuffer p) \<Longrightarrow> length (token_bytes p) = ep_tokenDataSize p"
  by (simp add: token_bytes_def)

subsection \<open>One pass\<close>

definition simulates :: "EventParser \<Rightarrow> stream_output list \<Rightarrow> EventParser \<Rightarrow> bool" where
  "simulates p out p1 \<longleftrightarrow>
    parser_inv p1 \<and> ep_buffer p1 = ep_buffer p \<and> ep_cursor p \<le> ep_cursor p1 \<and>
    stream_run (consumed (ep_cursor p1 - ep_cursor p) p) (parser_stream p) = (out, parser_stream p1)"

lemma simulates_trans:
  assumes "simulates p out p1" "simulates p1 out' p2"
  shows "simulates p (out @ out') p2"
proof -
  have c: "ep_cursor p \<le> ep_cursor p1" "ep_cursor p1 \<le> ep_cursor p2" "ep_buffer p1 = ep_buffer p"
    using assms by (simp_all add: simulates_def)
  then obtain a b where ab: "ep_cursor p1 = ep_cursor p + a" "ep_cursor p2 = ep_cursor p + a + b"
    by (metis le_Suc_ex)
  then have "consumed (a + b) p = consumed a p @ consumed b p1"
    using c by (simp add: consumed_def take_add ac_simps)
  with assms ab show ?thesis
    by (simp add: simulates_def stream_run_append)
qed

lemma simulates_refl: "parser_inv p \<Longrightarrow> simulates p [] p"
  by (simp add: simulates_def consumed_def)

lemma item_token_length:
  assumes "t \<noteq> []" "known_token t"
  shows "length t < 1 + item_size (t ! 0) \<Longrightarrow> in_token t"
    and "length t = 1 + item_size (t ! 0) \<Longrightarrow> bits_id (t ! 0) \<noteq> EventTokenType_TimeDelta \<Longrightarrow> length t = token_length t"
  using assms by (auto simp: in_token_def item_size_def token_length_def known_token_def)

text \<open>Copying on within a token: the parser is behind the header, and the token has a known type.\<close>

definition in_item :: "nat \<Rightarrow> EventParser \<Rightarrow> bool" where
  "in_item k p \<longleftrightarrow> parser_inv p \<and> ep_parsingState p = ParsingToken \<and> known_token (token_bytes p) \<and>
    k \<le> length (ep_buffer p) - ep_cursor p \<and> ep_tokenDataSize p + k \<le> 1 + item_size (token_header p)"

lemma in_item_bytes:
  assumes "in_item k p"
  shows "length (token_bytes p) = ep_tokenDataSize p" "token_bytes p \<noteq> []" "token_bytes p ! 0 = token_header p"
    "ep_tokenDataSize p + k \<le> 25" "length (ep_tokenBuffer p) = 25" "1 \<le> ep_tokenDataSize p"
    "ss_mode (parser_stream p) = Token (token_bytes p)"
proof -
  have "item_size h \<le> 24" for h by (simp add: item_size_def)
  with assms show *: "ep_tokenDataSize p + k \<le> 25" "length (ep_tokenBuffer p) = 25" "1 \<le> ep_tokenDataSize p"
    by (auto simp: in_item_def parser_inv_def le_trans)
  then show "length (token_bytes p) = ep_tokenDataSize p" "token_bytes p \<noteq> []" "token_bytes p ! 0 = token_header p"
    by (auto simp: token_bytes_def token_header_def)
  show "ss_mode (parser_stream p) = Token (token_bytes p)"
    using assms by (simp add: in_item_def parser_stream_def parser_mode_def)
qed

lemma in_item_copied:
  assumes "in_item k p"
  shows "length (ep_tokenBuffer (copied k p)) = 25" "token_bytes (copied k p) = token_bytes p @ consumed k p"
    "token_header (copied k p) = token_header p" "length (consumed k p) = k"
  using in_item_bytes [OF assms] assms
  by (simp_all add: in_item_def copied_length copied_bytes token_header_def copied_nth length_consumed)

lemma in_item_token:
  assumes "in_item k p" "ep_tokenDataSize p + min i k < 1 + item_size (token_header p)"
  shows "in_token (token_bytes p @ take i (consumed k p))"
  using assms in_item_bytes [OF assms(1)] in_item_copied [OF assms(1)]
  by (intro item_token_length(1)) (auto simp: in_item_def known_token_append nth_append)

lemma in_item_run:
  assumes "in_item k p" "ep_tokenDataSize p + k < 1 + item_size (token_header p)"
  shows "stream_run (consumed k p) (parser_stream p) = ([], parser_stream p\<lparr>ss_mode := Token (token_bytes p @ consumed k p)\<rparr>)"
  using in_item_bytes(7) [OF assms(1)]
  by (rule stream_run_in_token) (use in_item_token [OF assms(1)] assms in_item_copied(4) [OF assms(1)] in auto)

lemma in_item_partial:
  assumes "in_item k p" "ep_tokenDataSize p + k < 1 + item_size (token_header p)"
  shows "simulates p [] (copied k p)"
proof -
  note b = in_item_bytes [OF assms(1)] in_item_copied [OF assms(1)]
  have "parser_stream (copied k p) = parser_stream p\<lparr>ss_mode := Token (token_bytes p @ consumed k p)\<rparr>"
    using assms b by (simp add: in_item_def parser_stream_def parser_mode_def known_token_append)
  moreover have "parser_inv (copied k p)"
    using assms b by (auto simp: in_item_def parser_inv_def)
  ultimately show ?thesis using in_item_run [OF assms] by (simp add: simulates_def)
qed

lemma in_item_whole:
  assumes "in_item k p" "ep_tokenDataSize p + k = 1 + item_size (token_header p)" "0 < k"
    "bits_id (token_header p) \<noteq> EventTokenType_TimeDelta"
  shows "stream_run (consumed k p) (parser_stream p) = token_done (token_bytes (copied k p)) (parser_stream p)"
proof -
  note b = in_item_bytes [OF assms(1)] in_item_copied [OF assms(1)]
  let ?t = "token_bytes p @ consumed k p"
  have t: "?t \<noteq> []" "?t ! 0 = token_header p" "known_token ?t" "length ?t = 1 + item_size (token_header p)"
    using b assms by (auto simp: in_item_def nth_append known_token_append)
  have "stream_run (consumed k p) (parser_stream p) = token_done ?t (parser_stream p)"
  proof (rule stream_run_token [OF b(7)])
    show "consumed k p \<noteq> []" using b(11) assms(3) by auto
    show "length ?t = token_length ?t" using item_token_length(2) [OF t(1,3)] t assms(4) by simp
  qed (use in_item_token [OF assms(1)] assms b t in auto)
  then show ?thesis using b by simp
qed

end
