(* ===== verification/Event_Refine.thy ===== *)
theory Event_Refine
  imports Event_Simulation
begin

text \<open>Every pass of \<^verbatim>\<open>Parse\<close> is simulated by the stream machine, and the loop returns.\<close>

definition step_output :: "DD_EVENT_PARSER_STATE option \<Rightarrow> EventParser \<Rightarrow> stream_output list" where
  "step_output y p =
    (if y = Some PARSER_STATE_EVENT_RECEIVED then [EventBegins (GetEventInfo p)]
     else if y = Some PARSER_STATE_PAYLOAD_RECEIVED then map PayloadByte (GetPayload p) else [])"

definition work :: "EventParser \<Rightarrow> nat" where
  "work p = 2 * (length (ep_buffer p) - ep_cursor p) + (if ep_parsingState p = ParsingPayload then 1 else 0)"

text \<open>What a pass does, apart from the simulation: it yields for a reason, or it makes progress.\<close>

definition progress :: "EventParser \<Rightarrow> EventParser \<Rightarrow> DD_EVENT_PARSER_STATE option \<Rightarrow> bool" where
  "progress p p1 y \<longleftrightarrow>
    (case y of
       None \<Rightarrow> work p1 < work p
     | Some PARSER_STATE_UNKNOWN \<Rightarrow> parser_mode p1 = Stuck
     | Some PARSER_STATE_NEED_MORE_DATA \<Rightarrow> ep_cursor p1 = length (ep_buffer p1) \<and> parser_mode p1 \<noteq> Stuck
     | Some _ \<Rightarrow> ep_cursor p < ep_cursor p1 \<and> parser_mode p1 \<noteq> Stuck)"

lemma payload_mode_not_stuck [simp]: "payload_mode n \<noteq> Stuck"
  by (simp add: payload_mode_def)

definition step_ok :: "EventParser \<Rightarrow> EventParser \<times> DD_EVENT_PARSER_STATE option \<Rightarrow> bool" where
  "step_ok p r \<longleftrightarrow> simulates p (step_output (snd r) (fst r)) (fst r) \<and> progress p (fst r) (snd r)"

subsection \<open>Copying an item\<close>

lemma CopyToTokenBuffer_item:
  assumes "parser_inv p" "ep_parsingState p = ParsingToken" "known_token (token_bytes p)"
    "CopyToTokenBuffer (item_size (token_header p)) p = (needMoreData, q)"
  shows "needMoreData \<Longrightarrow> \<exists>k. in_item k p \<and> ep_tokenDataSize p + k < 1 + item_size (token_header p) \<and>
      q = copied k p \<and> ep_cursor q = length (ep_buffer q)"
    and "\<not> needMoreData \<Longrightarrow> \<exists>k. in_item k p \<and> ep_tokenDataSize p + k = 1 + item_size (token_header p) \<and> 0 < k \<and>
      q = (copied k p)\<lparr>ep_tokenItemStart := 1 + item_size (token_header p)\<rparr>"
proof -
  have i: "ep_tokenItemStart p = 1" "1 \<le> ep_tokenDataSize p" "ep_tokenDataSize p < 1 + item_size (token_header p)"
    "length (ep_tokenBuffer p) = 25" "ep_cursor p \<le> length (ep_buffer p)"
    using assms(1,2) by (simp_all add: parser_inv_def)
  moreover have "item_size (token_header p) \<le> 24" by (simp add: item_size_def)
  ultimately have eq: "CopyToTokenBuffer (item_size (token_header p)) p =
    (let need = 1 + item_size (token_header p) - ep_tokenDataSize p; rest = length (ep_buffer p) - ep_cursor p
     in if need \<le> rest then (False, (copied need p)\<lparr>ep_tokenItemStart := 1 + item_size (token_header p)\<rparr>)
        else (True, copied rest p))"
    by (subst CopyToTokenBuffer_eq) (auto simp: Let_def)
  show "\<exists>k. in_item k p \<and> ep_tokenDataSize p + k < 1 + item_size (token_header p) \<and>
      q = copied k p \<and> ep_cursor q = length (ep_buffer q)" if needMoreData
    using assms i eq that
    by (intro exI [of _ "length (ep_buffer p) - ep_cursor p"]) (auto simp: in_item_def Let_def split: if_splits)
  show "\<exists>k. in_item k p \<and> ep_tokenDataSize p + k = 1 + item_size (token_header p) \<and> 0 < k \<and>
      q = (copied k p)\<lparr>ep_tokenItemStart := 1 + item_size (token_header p)\<rparr>" if "\<not> needMoreData"
    using assms i eq that
    by (intro exI [of _ "1 + item_size (token_header p) - ep_tokenDataSize p"])
      (auto simp: in_item_def Let_def split: if_splits)
qed

lemma item_needs_more:
  assumes "in_item k p" "ep_tokenDataSize p + k < 1 + item_size (token_header p)" "q = copied k p"
    "ep_cursor q = length (ep_buffer q)"
  shows "step_ok p (q, Some PARSER_STATE_NEED_MORE_DATA)"
proof -
  have "parser_mode q \<noteq> Stuck"
    using assms in_item_copied [OF assms(1)] in_item_bytes [OF assms(1)]
    by (simp add: parser_mode_def in_item_def known_token_append)
  with in_item_partial [OF assms(1,2)] assms(3,4) show ?thesis
    by (simp add: step_ok_def step_output_def progress_def)
qed

text \<open>A complete token: \<open>p1\<close> differs from the copy only in what the token sets.\<close>

lemma item_done:
  assumes "in_item k p" "ep_tokenDataSize p + k = 1 + item_size (token_header p)" "0 < k"
    "bits_id (token_header p) \<noteq> EventTokenType_TimeDelta"
    "ep_buffer p1 = ep_buffer p" "ep_cursor p1 = ep_cursor p + k" "parser_inv p1"
    "token_done (token_bytes (copied k p)) (parser_stream p) = (out, parser_stream p1)"
  shows "simulates p out p1"
  using in_item_whole [OF assms(1-4)] assms(5-8) by (simp add: simulates_def)

lemma item_field:
  assumes "in_item k p" "ep_tokenDataSize p + k = 1 + item_size (token_header p)" "off + n \<le> item_size (token_header p)"
  shows "token_field off n (copied k p) = get_word (1 + off) n (token_bytes (copied k p))"
  by (rule token_field_bytes) (use assms in simp)

lemma item_header:
  assumes "in_item k p"
  shows "token_bytes (copied k p) ! 0 = token_header p"
  using in_item_bytes [OF assms] in_item_copied [OF assms] by (simp add: nth_append)

lemma token_header_cursor [simp]:
  "token_header (p\<lparr>ep_tokenItemStart := a\<rparr>) = token_header p"
  "token_header (p\<lparr>ep_parsingState := b\<rparr>) = token_header p"
  "token_field off n (p\<lparr>ep_tokenItemStart := a\<rparr>) = token_field off n p"
  "token_field off n (p\<lparr>ep_parsingState := b\<rparr>) = token_field off n p"
  by (simp_all add: token_header_def token_field_def)

lemma ResetTokenBuffer_simps [simp]:
  "ep_buffer (ResetTokenBuffer p) = ep_buffer p" "ep_cursor (ResetTokenBuffer p) = ep_cursor p"
  "ep_parsingState (ResetTokenBuffer p) = ep_parsingState p" "ep_tokenBuffer (ResetTokenBuffer p) = ep_tokenBuffer p"
  "ep_tokenDataSize (ResetTokenBuffer p) = 0" "ep_tokenItemStart (ResetTokenBuffer p) = 0"
  "ep_currProviderId (ResetTokenBuffer p) = ep_currProviderId p"
  "ep_currTimestampFrequency (ResetTokenBuffer p) = ep_currTimestampFrequency p"
  "ep_currTimestamp (ResetTokenBuffer p) = ep_currTimestamp p"
  "ep_dataPayloadReadInBytes (ResetTokenBuffer p) = ep_dataPayloadReadInBytes p"
  by (simp_all add: ResetTokenBuffer_def)

subsection \<open>The tokens\<close>

text \<open>What a token does once its item is copied: \<open>g\<close> sets the state, and the pass yields with \<open>y\<close> or goes on.\<close>

lemma parse_item_ok:
  assumes "parser_inv p" "ep_parsingState p = ParsingToken" "known_token (token_bytes p)"
    "bits_id (token_header p) \<noteq> EventTokenType_TimeDelta" "n = item_size (token_header p)"
    "\<And>k q. in_item k p \<Longrightarrow> ep_tokenDataSize p + k = 1 + n \<Longrightarrow> 0 < k \<Longrightarrow> q = (copied k p)\<lparr>ep_tokenItemStart := 1 + n\<rparr> \<Longrightarrow>
      ep_buffer (g q) = ep_buffer p \<and> ep_cursor (g q) = ep_cursor p + k \<and> parser_inv (g q) \<and>
      token_done (token_bytes (copied k p)) (parser_stream p) = (step_output y (g q), parser_stream (g q)) \<and> progress p (g q) y"
  shows "step_ok p (let (needMoreData, p1) = CopyToTokenBuffer n p
    in if needMoreData then (p1, Some PARSER_STATE_NEED_MORE_DATA) else (g p1, y))"
proof -
  obtain needMoreData q where c: "CopyToTokenBuffer (item_size (token_header p)) p = (needMoreData, q)" by fastforce
  show ?thesis
  proof (cases needMoreData)
    case True
    with CopyToTokenBuffer_item(1) [OF assms(1-3) c] item_needs_more c assms(5) show ?thesis by auto
  next
    case False
    then obtain k where k: "in_item k p" "ep_tokenDataSize p + k = 1 + item_size (token_header p)" "0 < k"
        "q = (copied k p)\<lparr>ep_tokenItemStart := 1 + item_size (token_header p)\<rparr>"
      using CopyToTokenBuffer_item(2) [OF assms(1-3) c] by auto
    with assms(6) [OF k(1) _ k(3)] item_done [OF k(1-3) assms(4)] have "simulates p (step_output y (g q)) (g q) \<and> progress p (g q) y"
      using assms(5) by blast
    with c False assms(5) show ?thesis by (simp add: step_ok_def)
  qed
qed

lemma parse_provider_ok:
  assumes "parser_inv p" "ep_parsingState p = ParsingToken" "known_token (token_bytes p)"
    "bits_id (token_header p) = EventTokenType_Provider"
  shows "step_ok p (parse_provider p)"
  unfolding parse_provider_def
proof (rule parse_item_ok [OF assms(1-3)], goal_cases)
  case (3 k q)
  then show ?case
    using assms item_header [OF 3(1)] in_item_copied [OF 3(1)]
    by (auto simp: token_done_def parser_stream_def parser_mode_def item_field item_size_def event_sizes parser_inv_def
        in_item_def progress_def work_def step_output_def)
qed (use assms in \<open>simp_all add: item_size_def event_sizes\<close>)

lemma parse_timestamp_ok:
  assumes "parser_inv p" "ep_parsingState p = ParsingToken" "known_token (token_bytes p)"
    "bits_id (token_header p) = EventTokenType_Timestamp"
  shows "step_ok p (parse_timestamp p)"
  unfolding parse_timestamp_def
proof (rule parse_item_ok [OF assms(1-3)], goal_cases)
  case (3 k q)
  then show ?case
    using assms item_header [OF 3(1)] in_item_copied [OF 3(1)]
    by (auto simp: token_done_def parser_stream_def parser_mode_def item_field item_size_def event_sizes parser_inv_def
        in_item_def progress_def work_def step_output_def)
qed (use assms in \<open>simp_all add: item_size_def event_sizes\<close>)

lemma parse_data_ok:
  assumes "parser_inv p" "ep_parsingState p = ParsingToken" "known_token (token_bytes p)"
    "bits_id (token_header p) = EventTokenType_Data"
  shows "step_ok p (let (needMoreData, p1) = CopyToTokenBuffer sizeof_EventDataToken p
    in if needMoreData then (p1, Some PARSER_STATE_NEED_MORE_DATA)
       else (p1\<lparr>ep_parsingState := ParsingPayload\<rparr>, Some PARSER_STATE_EVENT_RECEIVED))"
proof (rule parse_item_ok [OF assms(1-3)], goal_cases)
  case (3 k q)
  then show ?case
    using assms item_header [OF 3(1)] in_item_copied [OF 3(1)]
    by (auto simp: token_done_def parser_stream_def parser_mode_def item_field item_size_def event_sizes parser_inv_def
        in_item_def progress_def work_def step_output_def GetEventInfo_def event_info_def)
qed (use assms in \<open>simp_all add: item_size_def event_sizes\<close>)

text \<open>The number of bytes of a time delta, after which the delta follows.\<close>

lemma parse_delta_ok:
  assumes "parser_inv p" "ep_parsingState p = ParsingToken" "known_token (token_bytes p)"
    "bits_id (token_header p) = EventTokenType_TimeDelta"
  shows "step_ok p (let (needMoreData, p1) = CopyToTokenBuffer sizeof_EventTimeDeltaToken p
    in if needMoreData then (p1, Some PARSER_STATE_NEED_MORE_DATA) else (p1\<lparr>ep_parsingState := ParsingPayload\<rparr>, None))"
proof -
  obtain needMoreData q where c: "CopyToTokenBuffer (item_size (token_header p)) p = (needMoreData, q)" by fastforce
  have n: "item_size (token_header p) = sizeof_EventTimeDeltaToken" using assms(4) by (simp add: item_size_def event_sizes)
  show ?thesis
  proof (cases needMoreData)
    case True
    with CopyToTokenBuffer_item(1) [OF assms(1-3) c] item_needs_more c n show ?thesis by auto
  next
    case False
    then obtain k where k: "in_item k p" "ep_tokenDataSize p + k = 2" "0 < k" "q = (copied k p)\<lparr>ep_tokenItemStart := 2\<rparr>"
      using CopyToTokenBuffer_item(2) [OF assms(1-3) c] n by (auto simp: event_sizes)
    moreover have "1 \<le> ep_tokenDataSize p" by (rule in_item_bytes(6) [OF k(1)])
    ultimately have one: "k = 1" "ep_tokenDataSize p = 1" by simp_all
    note b = in_item_bytes [OF k(1)] in_item_copied [OF k(1)]
    let ?t = "token_bytes p @ consumed k p"
    have t1: "?t ! 1 = ep_tokenBuffer (copied k p) ! 1" "length ?t = 2" "?t ! 0 = token_header p" "known_token ?t"
      using b one assms(3) token_bytes_nth [of 1 "copied k p"] by (auto simp: nth_append known_token_append)
    have run: "stream_run (consumed k p) (parser_stream p) = token_step ?t (parser_stream p)"
      using b one by (cases "consumed k p") (auto simp: stream_step_def)
    have tk: "?t = take (Suc (Suc 0)) (ep_tokenBuffer (copied k p))"
      using b(9) one by (simp add: token_bytes_def [of "copied _ _"])
    have "simulates p [] (q\<lparr>ep_parsingState := ParsingPayload\<rparr>)"
      using k one b t1 assms run tk
      by (auto simp: simulates_def parser_inv_def in_item_def token_step_def token_length_def token_done_def parser_stream_def
          parser_mode_def token_bytes_def [of "_\<lparr>ep_parsingState := _\<rparr>"] token_bytes_def [of "copied _ _", symmetric] get_word_def)
    moreover have "work (q\<lparr>ep_parsingState := ParsingPayload\<rparr>) < work p"
      using k one assms(2) by (auto simp: work_def in_item_def)
    ultimately show ?thesis using c False n by (simp add: step_ok_def step_output_def progress_def)
  qed
qed

subsection \<open>Payloads\<close>

lemma parser_inv_token:
  assumes "parser_inv p" "ep_parsingState p \<noteq> ParsingHeader"
  shows "length (token_bytes p) = ep_tokenDataSize p" "token_bytes p \<noteq> []" "token_bytes p ! 0 = token_header p"
    "length (ep_tokenBuffer p) = 25" "ep_tokenDataSize p \<le> 25"
proof -
  have "item_size h \<le> 24" "delta_size d \<le> 6" for h d by (simp_all add: item_size_def delta_size_def)
  note this [of "token_header p"] this(2) [of "ep_tokenBuffer p ! 1"]
  with assms show *: "length (ep_tokenBuffer p) = 25" "ep_tokenDataSize p \<le> 25"
    by (auto simp: parser_inv_def split: ParserInternalState.splits)
  show "length (token_bytes p) = ep_tokenDataSize p" using * by (simp add: token_bytes_def)
  have "0 < ep_tokenDataSize p" using assms by (auto simp: parser_inv_def split: ParserInternalState.splits)
  with * show "token_bytes p \<noteq> []" "token_bytes p ! 0 = token_header p"
    by (auto simp: token_bytes_def token_header_def)
qed

lemma parse_data_payload_ok:
  assumes "parser_inv p" "ep_parsingState p = ParsingPayload" "bits_id (token_header p) = EventTokenType_Data"
  shows "step_ok p (parse_data_payload p)"
proof -
  let ?total = "unat (token_field 8 8 p :: u64)" and ?read = "ep_dataPayloadReadInBytes p"
  let ?rest = "length (ep_buffer p) - ep_cursor p"
  have i: "?read \<le> ?total" "ep_tokenDataSize p = 17" "ep_cursor p \<le> length (ep_buffer p)" "length (ep_tokenBuffer p) = 25"
    using assms by (auto simp: parser_inv_def)
  consider "?read < ?total" "ep_cursor p < length (ep_buffer p)" | "?read < ?total" "ep_cursor p = length (ep_buffer p)" | "?read = ?total"
    using i by linarith
  then show ?thesis
  proof cases
    case 1
    define n where "n = (if ?total - ?read \<le> ?rest then ?total - ?read else ?rest)"
    define p1 where "p1 = p\<lparr>ep_currDataPayload := take n (drop (ep_cursor p) (ep_buffer p)), ep_cursor := ep_cursor p + n,
      ep_dataPayloadReadInBytes := ?read + n\<rparr>"
    have n: "0 < n" "n \<le> ?total - ?read" "n \<le> ?rest" using 1 by (auto simp: n_def)
    then have n': "ep_cursor p + n \<le> length (ep_buffer p)" "?read + n \<le> ?total" using i 1 by simp_all
    have eq: "parse_data_payload p = (p1, Some PARSER_STATE_PAYLOAD_RECEIVED)"
      using 1 by (simp add: parse_data_payload_def p1_def n_def Let_def)
    have f: "token_header p1 = token_header p" "token_field 8 8 p1 = (token_field 8 8 p :: u64)"
      by (simp_all add: p1_def token_header_def token_field_def)
    have mode: "ss_mode (parser_stream p) = Payload (?total - ?read)"
      using assms 1 by (simp add: parser_stream_def parser_mode_def payload_mode_def)
    have "stream_run (consumed n p) (parser_stream p) =
        (map PayloadByte (consumed n p), parser_stream p\<lparr>ss_mode := payload_mode (?total - ?read - n)\<rparr>)"
      using stream_run_payload [OF mode, of "consumed n p"] n by (simp add: length_consumed)
    moreover have "parser_stream p1 = parser_stream p\<lparr>ss_mode := payload_mode (?total - ?read - n)\<rparr>"
      using f assms by (simp add: parser_stream_def parser_mode_def) (simp add: p1_def)
    moreover have "parser_inv p1" using assms i n' f by (simp add: parser_inv_def) (simp add: p1_def)
    ultimately have "simulates p (map PayloadByte (consumed n p)) p1" by (simp add: simulates_def p1_def)
    then show ?thesis
      using n f assms by (simp add: eq step_ok_def step_output_def progress_def parser_mode_def)
        (simp add: p1_def GetPayload_def consumed_def)
  next
    case 2
    then have "parse_data_payload p = (p, Some PARSER_STATE_NEED_MORE_DATA)" by (simp add: parse_data_payload_def)
    then show ?thesis
      using simulates_refl [OF assms(1)] assms 2 by (simp add: step_ok_def step_output_def progress_def parser_mode_def)
  next
    case 3
    define p1 where "p1 = ResetTokenBuffer (p\<lparr>ep_dataPayloadReadInBytes := 0, ep_parsingState := ParsingHeader\<rparr>)"
    have "parse_data_payload p = (p1, None)" using 3 by (simp add: parse_data_payload_def p1_def)
    moreover have "parser_stream p1 = parser_stream p"
      using assms 3 by (simp add: parser_stream_def parser_mode_def p1_def payload_mode_def)
    moreover have "parser_inv p1" using i by (simp add: parser_inv_def p1_def)
    ultimately show ?thesis
      using assms(2) by (simp add: step_ok_def step_output_def progress_def simulates_def consumed_def)
        (simp add: p1_def work_def)
  qed
qed

lemma get_word_byte: "i < length bs \<Longrightarrow> (get_word i (Suc 0) bs :: u8) = bs ! i"
  by (simp add: get_word_def Cons_nth_drop_Suc [symmetric])

text \<open>Copying the bytes of a time delta.\<close>

definition in_delta :: "EventParser \<Rightarrow> bool" where
  "in_delta p \<longleftrightarrow> parser_inv p \<and> ep_parsingState p = ParsingPayload \<and> bits_id (token_header p) = EventTokenType_TimeDelta"

lemma in_delta_bytes:
  assumes "in_delta p"
  shows "ep_tokenItemStart p = 2" "2 \<le> ep_tokenDataSize p" "ep_tokenDataSize p \<le> 2 + delta_size (ep_tokenBuffer p ! 1)"
    "unat (min (ucast (token_field 0 1 p :: u8)) (6 :: u32)) = delta_size (ep_tokenBuffer p ! 1)"
    "known_token (token_bytes p @ bs)" "token_length (token_bytes p @ bs) = 2 + delta_size (ep_tokenBuffer p ! 1)"
proof -
  note b = parser_inv_token [of p]
  show i: "ep_tokenItemStart p = 2" "2 \<le> ep_tokenDataSize p" "ep_tokenDataSize p \<le> 2 + delta_size (ep_tokenBuffer p ! 1)"
    using assms by (auto simp: in_delta_def parser_inv_def)
  have "(token_field 0 1 p :: u8) = ep_tokenBuffer p ! 1"
    using b assms by (simp add: in_delta_def token_field_def get_word_byte event_sizes)
  then show "unat (min (ucast (token_field 0 1 p :: u8)) (6 :: u32)) = delta_size (ep_tokenBuffer p ! 1)"
    by (simp add: delta_size_def min_def word_le_nat_alt unsigned_ucast_eq take_bit_nat_eq_self unsigned_less [THEN less_le_trans])
  show "known_token (token_bytes p @ bs)"
    using b assms by (auto simp: in_delta_def known_token_def nth_append)
  show "token_length (token_bytes p @ bs) = 2 + delta_size (ep_tokenBuffer p ! 1)"
    using b assms i token_bytes_nth [of 1 p] by (simp add: in_delta_def token_length_delta)
qed

lemma in_delta_copied:
  assumes "in_delta p" "k \<le> length (ep_buffer p) - ep_cursor p" "ep_tokenDataSize p + k \<le> 2 + delta_size (ep_tokenBuffer p ! 1)"
  shows "length (ep_tokenBuffer (copied k p)) = 25" "token_bytes (copied k p) = token_bytes p @ consumed k p"
    "ep_tokenBuffer (copied k p) ! 0 = ep_tokenBuffer p ! 0" "ep_tokenBuffer (copied k p) ! 1 = ep_tokenBuffer p ! 1"
    "length (consumed k p) = k"
proof -
  have "delta_size (ep_tokenBuffer p ! 1) \<le> 6" by (simp add: delta_size_def)
  with assms parser_inv_token [of p] in_delta_bytes [OF assms(1)]
  show "length (ep_tokenBuffer (copied k p)) = 25" "token_bytes (copied k p) = token_bytes p @ consumed k p"
    "ep_tokenBuffer (copied k p) ! 0 = ep_tokenBuffer p ! 0" "ep_tokenBuffer (copied k p) ! 1 = ep_tokenBuffer p ! 1"
    "length (consumed k p) = k"
    by (simp_all add: in_delta_def copied_length copied_bytes copied_nth length_consumed)
qed

lemma in_delta_needs_more:
  assumes "in_delta p" "length (ep_buffer p) - ep_cursor p < 2 + delta_size (ep_tokenBuffer p ! 1) - ep_tokenDataSize p"
  shows "step_ok p (copied (length (ep_buffer p) - ep_cursor p) p, Some PARSER_STATE_NEED_MORE_DATA)"
proof -
  define k where "k = length (ep_buffer p) - ep_cursor p"
  have lt: "ep_tokenDataSize p + k < 2 + delta_size (ep_tokenBuffer p ! 1)" using assms by (simp add: k_def)
  note b = parser_inv_token [of p] and c = in_delta_bytes [OF assms(1)] in_delta_copied [OF assms(1), of k, folded k_def]
  have p: "parser_inv p" "ep_parsingState p = ParsingPayload" "bits_id (token_header p) = EventTokenType_TimeDelta"
    "delta_size (ep_tokenBuffer p ! 1) \<noteq> 0"
    using assms(1) lt c(2) by (auto simp: in_delta_def)
  have h: "token_header (copied k p) = token_header p" using c lt by (simp add: token_header_def k_def)
  have mode: "ss_mode (parser_stream p) = Token (token_bytes p)"
    using p by (simp add: parser_stream_def parser_mode_def)
  have "stream_run (consumed k p) (parser_stream p) = ([], parser_stream p\<lparr>ss_mode := Token (token_bytes p @ consumed k p)\<rparr>)"
    using mode by (rule stream_run_in_token) (use b c lt p in \<open>auto simp: in_token_def k_def\<close>)
  moreover have "parser_stream (copied k p) = parser_stream p\<lparr>ss_mode := Token (token_bytes p @ consumed k p)\<rparr>"
    using p h c lt by (simp add: parser_stream_def parser_mode_def k_def)
  moreover have "parser_inv (copied k p)" using p h c lt by (auto simp: parser_inv_def k_def)
  ultimately have "simulates p [] (copied k p)" by (simp add: simulates_def)
  moreover have "parser_mode (copied k p) \<noteq> Stuck" using p h c lt by (simp add: parser_mode_def k_def)
  moreover have "ep_cursor (copied k p) = length (ep_buffer (copied k p))" using p by (auto simp: k_def parser_inv_def)
  ultimately show ?thesis
    unfolding k_def [symmetric] by (simp add: step_ok_def step_output_def progress_def del: copied_simps)
qed

lemma in_delta_done:
  assumes "in_delta p" "need = 2 + delta_size (ep_tokenBuffer p ! 1) - ep_tokenDataSize p"
    "need \<le> length (ep_buffer p) - ep_cursor p"
    "p1 = ResetTokenBuffer ((copied need p)\<lparr>ep_currTimestamp := ep_currTimestamp p +
        get_word 2 (delta_size (ep_tokenBuffer p ! 1)) (token_bytes (copied need p)),
      ep_parsingState := ParsingHeader\<rparr>)"
  shows "step_ok p (p1, None)"
proof -
  let ?d = "delta_size (ep_tokenBuffer p ! 1)" and ?t = "token_bytes p @ consumed need p"
  note b = parser_inv_token [of p] and c = in_delta_bytes [OF assms(1)]
  have le: "ep_tokenDataSize p + need = 2 + ?d" using assms(2) c(3) by simp
  note e = in_delta_copied [OF assms(1,3) eq_refl [OF le]]
  have p: "parser_inv p" "ep_parsingState p = ParsingPayload" "bits_id (token_header p) = EventTokenType_TimeDelta"
    using assms(1) by (simp_all add: in_delta_def)
  have "stream_run (consumed need p) (parser_stream p) = ([], parser_stream p1)"
  proof (cases "?d = 0")
    case True
    then show ?thesis
      using p c le assms(4) by (simp add: consumed_def parser_stream_def parser_mode_def get_word_def)
  next
    case False
    have t: "?t ! 0 = token_header p" "?t ! 1 = ep_tokenBuffer p ! 1"
      using b p c(2) token_bytes_nth [of 1 p] by (auto simp: nth_append)
    have mode: "ss_mode (parser_stream p) = Token (token_bytes p)"
      using p False by (simp add: parser_stream_def parser_mode_def)
    have "0 < need" using p assms(2) False c(3) by (auto simp: parser_inv_def)
    then have "stream_run (consumed need p) (parser_stream p) = token_done ?t (parser_stream p)"
      by (intro stream_run_token [OF mode]) (use b c e p le in \<open>auto simp: in_token_def\<close>)
    then show ?thesis
      using t p e assms(4) by (simp add: token_done_def parser_stream_def parser_mode_def)
  qed
  moreover have "parser_inv p1" using p e assms(3,4) by (auto simp: parser_inv_def)
  moreover have "work p1 < work p" using p assms(3,4) by (simp add: work_def)
  ultimately show ?thesis
    using assms(4) by (simp add: step_ok_def simulates_def step_output_def progress_def)
qed

lemma parse_time_delta_ok:
  assumes "parser_inv p" "ep_parsingState p = ParsingPayload" "bits_id (token_header p) = EventTokenType_TimeDelta"
  shows "step_ok p (parse_time_delta p)"
proof -
  define d where "d = delta_size (ep_tokenBuffer p ! 1)"
  define need where "need = 2 + d - ep_tokenDataSize p"
  have i: "in_delta p" using assms by (simp add: in_delta_def)
  note c = in_delta_bytes [OF i, folded d_def]
  have copy: "CopyToTokenBuffer d p = (if need \<le> length (ep_buffer p) - ep_cursor p
      then (False, (copied need p)\<lparr>ep_tokenItemStart := 2 + d\<rparr>) else (True, copied (length (ep_buffer p) - ep_cursor p) p))"
    using c parser_inv_token(4,5) [of p] assms by (subst CopyToTokenBuffer_eq) (auto simp: need_def Let_def)
  show ?thesis
  proof (cases "need \<le> length (ep_buffer p) - ep_cursor p")
    case True
    have "ep_tokenDataSize p + need = 2 + d" using c(3) by (simp add: need_def)
    then have f: "token_field sizeof_EventTimeDeltaToken d (copied need p) = (get_word 2 d (token_bytes (copied need p)) :: u64)"
      by (subst token_field_bytes) (simp_all add: event_sizes numeral_2_eq_2)
    show ?thesis
      unfolding parse_time_delta_def c(4) Let_def copy if_P [OF True] prod.case if_False
      by (rule in_delta_done [OF i, folded d_def, OF need_def True]) (simp add: f ResetTokenBuffer_def)
  next
    case False
    then have "parse_time_delta p = (copied (length (ep_buffer p) - ep_cursor p) p, Some PARSER_STATE_NEED_MORE_DATA)"
      using c copy by (simp add: parse_time_delta_def)
    with in_delta_needs_more [OF i, folded d_def] False show ?thesis by (simp add: need_def)
  qed
qed

subsection \<open>The loop\<close>

lemma item_size_pos: "0 < item_size h"
  by (simp add: item_size_def)

lemma parse_header_ok:
  assumes "parser_inv p" "ep_parsingState p = ParsingHeader"
  shows "step_ok p (parse_step p)"
proof -
  have i: "ep_tokenItemStart p = 0" "ep_tokenDataSize p = 0" "ep_dataPayloadReadInBytes p = 0" "length (ep_tokenBuffer p) = 25"
    "ep_cursor p \<le> length (ep_buffer p)" using assms by (simp_all add: parser_inv_def)
  have copy: "CopyToTokenBuffer sizeof_EventTokenHeader p =
      (if 1 \<le> length (ep_buffer p) - ep_cursor p then (False, (copied 1 p)\<lparr>ep_tokenItemStart := 1\<rparr>) else (True, copied 0 p))"
    using i by (subst CopyToTokenBuffer_eq) (auto simp: Let_def event_sizes)
  show ?thesis
  proof (cases "1 \<le> length (ep_buffer p) - ep_cursor p")
    case True
    define p1 where "p1 = (copied 1 p)\<lparr>ep_tokenItemStart := 1, ep_parsingState := ParsingToken\<rparr>"
    have eq: "parse_step p = (p1, None)" using copy True assms by (simp add: parse_step_def p1_def)
    have t: "token_bytes p1 = consumed 1 p" "length (consumed 1 p) = 1"
      using i True copied_bytes [of 1 p] by (auto simp: p1_def token_bytes_def length_consumed)
    then obtain b where b: "consumed 1 p = [b]" by (cases "consumed 1 p") auto
    have h: "token_header p1 = b" using token_header_bytes [of p1] t b by (simp add: p1_def)
    have "parser_inv p1"
      using i True copied_length [of 1 p] h item_size_pos [of b] by (simp add: parser_inv_def) (auto simp: p1_def)
    moreover have "stream_run [b] (parser_stream p) = ([], parser_stream p1)"
      using assms t b by (simp add: parser_stream_def parser_mode_def stream_step_def token_step_def token_length_def)
        (simp add: p1_def)
    moreover have "work p1 < work p" using True assms i by (simp add: work_def p1_def)
    ultimately show ?thesis
      using b by (simp add: eq step_ok_def simulates_def step_output_def progress_def) (simp add: p1_def)
  next
    case False
    then have "parse_step p = (p, Some PARSER_STATE_NEED_MORE_DATA)"
      using copy assms i by (simp add: parse_step_def copied_0)
    then show ?thesis
      using False assms i simulates_refl [OF assms(1)]
      by (simp add: step_ok_def step_output_def progress_def parser_mode_def)
  qed
qed

lemma parse_step_ok:
  assumes "parser_inv p"
  shows "step_ok p (parse_step p)"
proof (cases "ep_parsingState p")
  case ParsingHeader
  then show ?thesis by (rule parse_header_ok [OF assms])
next
  case ParsingToken
  then have h: "token_bytes p ! 0 = token_header p" using parser_inv_token [OF assms] by simp
  show ?thesis
  proof (cases "known_token (token_bytes p)")
    case True
    with h have "bits_id (token_header p) \<in> {0, 1, 2, 3}" using bits_id_cases by (auto simp: known_token_def)
    then show ?thesis
      using parse_provider_ok [OF assms ParsingToken True] parse_timestamp_ok [OF assms ParsingToken True]
        parse_data_ok [OF assms ParsingToken True] parse_delta_ok [OF assms ParsingToken True] ParsingToken
      by (auto simp: parse_step_def parse_token_def)
  next
    case False
    with h have "parse_step p = (p, Some PARSER_STATE_UNKNOWN)"
      using ParsingToken by (auto simp: parse_step_def parse_token_def known_token_def Let_def)
    with simulates_refl [OF assms] False ParsingToken show ?thesis
      by (simp add: step_ok_def step_output_def progress_def parser_mode_def)
  qed
next
  case ParsingPayload
  then have "bits_id (token_header p) = EventTokenType_Data \<or> bits_id (token_header p) = EventTokenType_TimeDelta"
    using assms by (auto simp: parser_inv_def)
  then show ?thesis
    using parse_data_payload_ok [OF assms ParsingPayload] parse_time_delta_ok [OF assms ParsingPayload] ParsingPayload
    by (auto simp: parse_step_def)
qed

lemma Parse_ok:
  assumes "parser_inv p"
  shows "\<exists>y p1. Parse p = Some (y, p1) \<and> simulates p (step_output (Some y) p1) p1 \<and> progress p p1 (Some y)"
  using assms
proof (induction "work p" arbitrary: p rule: less_induct)
  case less
  obtain q y where q: "parse_step p = (q, y)" by fastforce
  with parse_step_ok [OF less.prems] have ok: "simulates p (step_output y q) q" "progress p q y"
    by (simp_all add: step_ok_def)
  show ?case
  proof (cases y)
    case (Some s)
    with q ok show ?thesis by (subst Parse.simps) simp
  next
    case None
    then have "parser_inv q" "work q < work p" using ok by (simp_all add: simulates_def progress_def)
    from less.hyps [OF this(2,1)] obtain s p1 where
      *: "Parse q = Some (s, p1)" "simulates q (step_output (Some s) p1) p1" "progress q p1 (Some s)" by blast
    have "simulates p (step_output (Some s) p1) p1"
      using simulates_trans [OF ok(1) *(2)] None by (simp add: step_output_def)
    moreover have "progress p p1 (Some s)"
      using *(3) ok(1) by (cases s) (auto simp: progress_def simulates_def)
    ultimately show ?thesis using *(1) q None by (subst Parse.simps) auto
  qed
qed

end
