(* ===== verification/Event_Streaming.thy ===== *)
theory Event_Streaming
  imports Event_Refine
begin

text \<open>
  How the parser is used: the loop of \<^verbatim>\<open>OnEventData\<close> that every streamer has
  (\<^verbatim>\<open>shared/ddRdfEventStreamer/src/RdfEventStreamer.cpp\<close>, \<^verbatim>\<open>ddRmtEventTracer/src/RmtEventStreamer.cpp\<close>,
  \<^verbatim>\<open>ddGpuDetectiveEventStreamer\<close>), without what each does with an event.  What comes out does not depend on
  how the stream is cut into buffers.
\<close>

datatype parser_output = EventReceived DDEventParserEventInfo | PayloadReceived "u8 list"

text \<open>The branch for \<^verbatim>\<open>UNKNOWN\<close> asserts and goes on.\<close>

partial_function (option) drain :: "EventParser \<Rightarrow> (parser_output list \<times> EventParser) option" where
  "drain p =
    Option.bind (Parse p) (\<lambda>(parserState, p1).
      case parserState of
        PARSER_STATE_EVENT_RECEIVED \<Rightarrow> Option.bind (drain p1) (\<lambda>(out, p2). Some (EventReceived (GetEventInfo p1) # out, p2))
      | PARSER_STATE_PAYLOAD_RECEIVED \<Rightarrow> Option.bind (drain p1) (\<lambda>(out, p2). Some (PayloadReceived (GetPayload p1) # out, p2))
      | PARSER_STATE_NEED_MORE_DATA \<Rightarrow> Some ([], p1)
      | PARSER_STATE_UNKNOWN \<Rightarrow> drain p1)"

text \<open>\<^verbatim>\<open>OnEventData\<close> for one buffer, and for one buffer after the other.\<close>

definition OnEventData :: "u8 list \<Rightarrow> EventParser \<Rightarrow> (parser_output list \<times> EventParser) option" where
  "OnEventData pData p = drain (SetParsingBuffer pData p)"

fun OnEventBuffers :: "u8 list list \<Rightarrow> EventParser \<Rightarrow> (parser_output list \<times> EventParser) option" where
  "OnEventBuffers [] p = Some ([], p)"
| "OnEventBuffers (b # bs) p =
    Option.bind (OnEventData b p) (\<lambda>(out, p1).
      Option.bind (OnEventBuffers bs p1) (\<lambda>(out', p2). Some (out @ out', p2)))"

text \<open>Events, and the payload byte by byte.\<close>

fun flat_output :: "parser_output \<Rightarrow> stream_output list" where
  "flat_output (EventReceived info) = [EventBegins info]"
| "flat_output (PayloadReceived bytes) = map PayloadByte bytes"

definition flat_outputs :: "parser_output list \<Rightarrow> stream_output list" where
  "flat_outputs outs = concat (map flat_output outs)"

lemma flat_outputs_simps [simp]:
  "flat_outputs [] = []" "flat_outputs (x # xs) = flat_output x @ flat_outputs xs"
  "flat_outputs (xs @ ys) = flat_outputs xs @ flat_outputs ys"
  by (simp_all add: flat_outputs_def)

definition rest_of :: "EventParser \<Rightarrow> u8 list" where
  "rest_of p = drop (ep_cursor p) (ep_buffer p)"

lemma simulates_inv: "simulates p out q \<Longrightarrow> parser_inv q"
  by (simp add: simulates_def)

lemma simulates_rest:
  assumes "simulates p out q" "parser_inv p"
  shows "stream_run (rest_of p) (parser_stream p) =
    (out @ fst (stream_run (rest_of q) (parser_stream q)), snd (stream_run (rest_of q) (parser_stream q)))"
proof -
  have q: "ep_buffer q = ep_buffer p" "ep_cursor p \<le> ep_cursor q"
    "stream_run (consumed (ep_cursor q - ep_cursor p) p) (parser_stream p) = (out, parser_stream q)"
    using assms by (simp_all add: simulates_def)
  then have "rest_of p = consumed (ep_cursor q - ep_cursor p) p @ rest_of q"
    using append_take_drop_id [of "ep_cursor q - ep_cursor p" "rest_of p"]
    by (simp add: rest_of_def consumed_def)
  with q show ?thesis by (simp add: stream_run_append)
qed

text \<open>What a call that returns has done.\<close>

definition drained :: "EventParser \<Rightarrow> parser_output list \<times> EventParser \<Rightarrow> bool" where
  "drained p r \<longleftrightarrow> (parser_inv p \<longrightarrow> parser_inv (snd r) \<and> parser_mode (snd r) \<noteq> Stuck \<and>
     stream_run (rest_of p) (parser_stream p) = (flat_outputs (fst r), parser_stream (snd r)))"

lemma drained_step:
  assumes IH: "\<And>p r. rec p = Some r \<Longrightarrow> drained p r"
    and r: "Option.bind (Parse p) (\<lambda>(parserState, p1).
      case parserState of
        PARSER_STATE_EVENT_RECEIVED \<Rightarrow> Option.bind (rec p1) (\<lambda>(out, p2). Some (EventReceived (GetEventInfo p1) # out, p2))
      | PARSER_STATE_PAYLOAD_RECEIVED \<Rightarrow> Option.bind (rec p1) (\<lambda>(out, p2). Some (PayloadReceived (GetPayload p1) # out, p2))
      | PARSER_STATE_NEED_MORE_DATA \<Rightarrow> Some ([], p1)
      | PARSER_STATE_UNKNOWN \<Rightarrow> rec p1) = Some r"
    and inv: "parser_inv p"
  shows "parser_inv (snd r) \<and> parser_mode (snd r) \<noteq> Stuck \<and>
     stream_run (rest_of p) (parser_stream p) = (flat_outputs (fst r), parser_stream (snd r))"
proof -
  from Parse_ok [OF inv] obtain y p1 where
    y: "Parse p = Some (y, p1)" "simulates p (step_output (Some y) p1) p1" "progress p p1 (Some y)" by blast
  note inv1 = simulates_inv [OF y(2)] and run = simulates_rest [OF y(2) inv]
  show ?thesis
  proof (cases y)
    case PARSER_STATE_NEED_MORE_DATA
    then have "rest_of p1 = []" using y(3) by (simp add: progress_def rest_of_def)
    then show ?thesis
      using r y PARSER_STATE_NEED_MORE_DATA inv1 run by (auto simp: progress_def step_output_def)
  qed (use r y IH [of p1] inv1 run in \<open>auto simp: step_output_def bind_eq_Some_conv drained_def\<close>)
qed

lemma drain_sound:
  assumes "drain p = Some (outs, q)" "parser_inv p"
  shows "parser_inv q" "parser_mode q \<noteq> Stuck"
    "stream_run (rest_of p) (parser_stream p) = (flat_outputs outs, parser_stream q)"
proof -
  have "drained p (outs, q)"
    by (rule drain.raw_induct [where P = drained, OF _ assms(1)])
      (unfold drained_def [of _ "_ :: parser_output list \<times> EventParser"], rule impI, rule drained_step, simp_all add: drained_def)
  with assms(2) show "parser_inv q" "parser_mode q \<noteq> Stuck"
    "stream_run (rest_of p) (parser_stream p) = (flat_outputs outs, parser_stream q)"
    by (simp_all add: drained_def)
qed

lemma parser_stream_mode: "ss_mode (parser_stream p) = parser_mode p"
  by (simp add: parser_stream_def)

lemma drain_returns:
  assumes "parser_inv p" "ss_mode (snd (stream_run (rest_of p) (parser_stream p))) \<noteq> Stuck"
  shows "\<exists>outs q. drain p = Some (outs, q)"
  using assms
proof (induction "length (rest_of p)" arbitrary: p rule: less_induct)
  case less
  from Parse_ok [OF less.prems(1)] obtain y p1 where
    y: "Parse p = Some (y, p1)" "simulates p (step_output (Some y) p1) p1" "progress p p1 (Some y)" by blast
  note inv = simulates_inv [OF y(2)] and run = simulates_rest [OF y(2) less.prems(1)]
  have mode: "ss_mode (snd (stream_run (rest_of p1) (parser_stream p1))) \<noteq> Stuck" using less.prems(2) run by simp
  have again: "\<exists>outs q. drain p1 = Some (outs, q)" if "ep_cursor p < ep_cursor p1"
    using less.hyps [OF _ inv mode] that y(2) inv by (simp add: rest_of_def simulates_def parser_inv_def)
  show ?case
  proof (cases y)
    case PARSER_STATE_UNKNOWN
    then have "ss_mode (parser_stream p1) = Stuck" using y(3) by (simp add: progress_def parser_stream_mode)
    with mode show ?thesis by (simp add: stream_run_stuck)
  next
    case PARSER_STATE_NEED_MORE_DATA
    with y(1) show ?thesis by (subst drain.simps) simp
  qed (use again y in \<open>subst drain.simps, auto simp: progress_def\<close>)+
qed

lemma rest_of_SetParsingBuffer: "rest_of (SetParsingBuffer bs p) = bs"
  by (simp add: rest_of_def SetParsingBuffer_def)

lemma OnEventData_sound:
  assumes "OnEventData bs p = Some (outs, q)" "parser_inv p"
  shows "parser_inv q" "stream_run bs (parser_stream p) = (flat_outputs outs, parser_stream q)" "parser_mode q \<noteq> Stuck"
  using drain_sound [OF assms(1) [unfolded OnEventData_def] SetParsingBuffer_inv [OF assms(2)]]
  by (simp_all add: rest_of_SetParsingBuffer SetParsingBuffer_stream)

lemma OnEventData_returns:
  assumes "parser_inv p" "ss_mode (snd (stream_run bs (parser_stream p))) \<noteq> Stuck"
  shows "\<exists>outs q. OnEventData bs p = Some (outs, q)"
  unfolding OnEventData_def
  by (rule drain_returns) (use assms in \<open>simp_all add: SetParsingBuffer_inv rest_of_SetParsingBuffer SetParsingBuffer_stream\<close>)

lemma OnEventBuffers_sound:
  "OnEventBuffers bss p = Some (outs, q) \<Longrightarrow> parser_inv p \<Longrightarrow>
   parser_inv q \<and> stream_run (concat bss) (parser_stream p) = (flat_outputs outs, parser_stream q)"
proof (induction bss arbitrary: p outs)
  case (Cons b bss)
  then obtain out p1 out' where "OnEventData b p = Some (out, p1)" "OnEventBuffers bss p1 = Some (out', q)" "outs = out @ out'"
    by (auto simp: bind_eq_Some_conv)
  with OnEventData_sound [OF this(1) Cons.prems(2)] Cons.IH [OF this(2)] show ?case
    by (simp add: stream_run_append)
qed simp

lemma OnEventBuffers_returns:
  "parser_inv p \<Longrightarrow> ss_mode (snd (stream_run (concat bss) (parser_stream p))) \<noteq> Stuck \<Longrightarrow>
   \<exists>outs q. OnEventBuffers bss p = Some (outs, q)"
proof (induction bss arbitrary: p)
  case (Cons b bss)
  let ?S = "snd (stream_run b (parser_stream p))"
  have S: "snd (stream_run (concat (b # bss)) (parser_stream p)) = snd (stream_run (concat bss) ?S)"
    by (simp add: stream_run_append)
  with Cons.prems have "ss_mode ?S \<noteq> Stuck" by (auto simp: stream_run_stuck)
  from OnEventData_returns [OF Cons.prems(1) this] obtain out p1 where p1: "OnEventData b p = Some (out, p1)" by blast
  note s = OnEventData_sound [OF p1 Cons.prems(1)]
  from Cons.IH [OF s(1)] Cons.prems(2) S s(2) obtain out' q where "OnEventBuffers bss p1 = Some (out', q)" by auto
  with p1 show ?case by simp
qed simp

end
