(* ===== verification/Event_Legacy.thy ===== *)
theory Event_Legacy
  imports Event_Streaming
begin

text \<open>
  The older parser, \<^verbatim>\<open>EventProtocol::EventParser\<close> of \<^verbatim>\<open>apis/ddEvent/ddEventParser/src/legacy/legacyEventParser.cpp\<close>,
  which calls back for every event and every piece of payload; the writer of \<^verbatim>\<open>eventParser.cpp\<close> on top of it; and
  the streamer of \<^verbatim>\<open>apis/ddEvent/ddEventStreamer/src/eventStreamer.cpp\<close>, which collects whole events.
\<close>

subsection \<open>Byte reader\<close>

text \<open>
  \<^verbatim>\<open>ByteReader::GetBytes\<close> (\<^verbatim>\<open>shared/legacy/src/util/ddByteReader.cpp\<close>) on the bytes that remain: the result, the
  bytes, and what remains.
\<close>

definition GetBytes :: "nat \<Rightarrow> u8 list \<Rightarrow> Result \<times> u8 list \<times> u8 list" where
  "GetBytes dataSize reader =
    (if dataSize > 0 then
       (if dataSize \<le> length reader then (Success, take dataSize reader, drop dataSize reader) else (Error, [], reader))
     else (InvalidParameter, [], reader))"

subsection \<open>State\<close>

datatype EventDataState = WaitingForHeader | WaitingForToken | WaitingForPayload

record LegacyEventParser =
  lp_tokenBuffer :: "u8 list"
  lp_tokenBufferSize :: nat
  lp_payloadBytesRead :: nat
  lp_dataState :: EventDataState
  lp_skipPayloadData :: bool
  lp_currentProviderId :: u32
  lp_currentTimestampFrequency :: u64
  lp_currentTimestamp :: u64

definition new_LegacyEventParser :: "u8 list \<Rightarrow> LegacyEventParser" where
  "new_LegacyEventParser garbage =
    \<lparr>lp_tokenBuffer = bytes_at kMaxEventTokenSize garbage, lp_tokenBufferSize = 0, lp_payloadBytesRead = 0,
     lp_dataState = WaitingForHeader, lp_skipPayloadData = False, lp_currentProviderId = 0,
     lp_currentTimestampFrequency = 0, lp_currentTimestamp = 0\<rparr>"

text \<open>The callbacks of the user, on the user's data; either may be missing.\<close>

record 'u ParserCallbackInfo =
  pfnEventReceived :: "(DDEventParserEventInfo \<Rightarrow> 'u \<Rightarrow> Result \<times> 'u) option"
  pfnPayloadData :: "(u8 list \<Rightarrow> 'u \<Rightarrow> Result \<times> 'u) option"

definition GetTokenSize :: "u8 \<Rightarrow> nat" where
  "GetTokenSize tokenType =
    (if tokenType = EventTokenType_Provider then sizeof_EventProviderToken
     else if tokenType = EventTokenType_Data then sizeof_EventDataToken
     else if tokenType = EventTokenType_Timestamp then sizeof_EventTimestampToken
     else if tokenType = EventTokenType_TimeDelta then sizeof_EventTimeDeltaToken
     else 0)"

definition ResetEventDataBufferState :: "LegacyEventParser \<Rightarrow> LegacyEventParser" where
  "ResetEventDataBufferState p = p\<lparr>lp_tokenBufferSize := 0, lp_payloadBytesRead := 0, lp_dataState := WaitingForHeader\<rparr>"

text \<open>
  \<^verbatim>\<open>Memcpy_s\<close> copies nothing for no bytes, and clears the destination when it is too small.  Once the size is past the
  buffer, the room that is passed wraps around, and bytes are written outside: \<open>None\<close>.
\<close>

definition WriteIntoTokenBuffer :: "u8 list \<Rightarrow> LegacyEventParser \<Rightarrow> LegacyEventParser option" where
  "WriteIntoTokenBuffer pData p =
    (let room = kMaxEventTokenSize - lp_tokenBufferSize p;
         bytes = (if length pData \<le> room then pData else replicate room 0);
         p1 = p\<lparr>lp_tokenBufferSize := lp_tokenBufferSize p + length pData\<rparr>
     in
     if pData = [] then Some p1
     else if lp_tokenBufferSize p \<le> kMaxEventTokenSize
     then Some (p1\<lparr>lp_tokenBuffer := write_at (lp_tokenBufferSize p) bytes (lp_tokenBuffer p)\<rparr>)
     else None)"

definition legacy_header :: "LegacyEventParser \<Rightarrow> u8" where
  "legacy_header p = lp_tokenBuffer p ! 0"

definition legacy_field :: "nat \<Rightarrow> nat \<Rightarrow> LegacyEventParser \<Rightarrow> 'a::len word" where
  "legacy_field offset n p = get_word (sizeof_EventTokenHeader + offset) n (lp_tokenBuffer p)"

subsection \<open>Tokens and events\<close>

definition ProcessToken :: "LegacyEventParser \<Rightarrow> LegacyEventParser" where
  "ProcessToken p =
    ResetEventDataBufferState
      (let tokenType = bits_id (legacy_header p) in
       if tokenType = EventTokenType_Provider then
         p\<lparr>lp_currentProviderId := legacy_field 0 4 p, lp_currentTimestampFrequency := legacy_field 8 8 p,
           lp_currentTimestamp := legacy_field 16 8 p\<rparr>
       else if tokenType = EventTokenType_Timestamp then
         p\<lparr>lp_currentTimestampFrequency := legacy_field 0 8 p, lp_currentTimestamp := legacy_field 8 8 p\<rparr>
       else if tokenType = EventTokenType_TimeDelta then
         (let numBytes = unat (min (ucast (legacy_field 0 1 p :: u8)) (6 :: u32))
          in p\<lparr>lp_currentTimestamp := lp_currentTimestamp p + legacy_field sizeof_EventTimeDeltaToken numBytes p\<rparr>)
       else p)"

definition EmitEventReceived ::
  "'u ParserCallbackInfo \<Rightarrow> LegacyEventParser \<Rightarrow> 'u \<Rightarrow> Result \<times> LegacyEventParser \<times> 'u" where
  "EmitEventReceived C p u =
    (case pfnEventReceived C of
       None \<Rightarrow> (Success, p, u)
     | Some callback \<Rightarrow>
         (let (result, u1) = callback \<lparr>ei_timestampFrequency = lp_currentTimestampFrequency p,
              ei_timestamp = lp_currentTimestamp p, ei_providerId = lp_currentProviderId p, ei_eventId = legacy_field 0 4 p,
              ei_eventIndex = legacy_field 4 4 p, ei_totalPayloadSize = legacy_field 8 8 p\<rparr> u
          in if result = Rejected then (Success, p\<lparr>lp_skipPayloadData := True\<rparr>, u1)
             else (result, p\<lparr>lp_skipPayloadData := False\<rparr>, u1)))"

definition EmitPayloadData ::
  "'u ParserCallbackInfo \<Rightarrow> u8 list \<Rightarrow> LegacyEventParser \<Rightarrow> 'u \<Rightarrow> Result \<times> LegacyEventParser \<times> 'u" where
  "EmitPayloadData C pData p u =
    (let (result, u1) =
       (case pfnPayloadData C of
          Some callback \<Rightarrow> if \<not> lp_skipPayloadData p then callback pData u else (Success, u)
        | None \<Rightarrow> (Success, u))
     in (result, if result = Success then p\<lparr>lp_payloadBytesRead := lp_payloadBytesRead p + length pData\<rparr> else p, u1))"

subsection \<open>Parsing\<close>

text \<open>
  One pass of the loop: the result, the parser, the bytes that remain and the user's data.  A pass that
  succeeds takes at least one byte.
\<close>

type_synonym 'u pass = "(Result \<times> LegacyEventParser \<times> u8 list \<times> 'u) option"

definition wait_for_header :: "LegacyEventParser \<Rightarrow> u8 list \<Rightarrow> 'u \<Rightarrow> 'u pass" where
  "wait_for_header p reader u =
    (let (result, pTokenHeader, rest) = GetBytes sizeof_EventTokenHeader reader in
     if result = Success then
       (case WriteIntoTokenBuffer pTokenHeader p of
          None \<Rightarrow> None
        | Some p1 \<Rightarrow> Some (Success, p1\<lparr>lp_dataState := WaitingForToken\<rparr>, rest, u))
     else Some (result, p, rest, u))"

text \<open>A token that is complete.\<close>

definition token_complete :: "'u ParserCallbackInfo \<Rightarrow> LegacyEventParser \<Rightarrow> 'u \<Rightarrow> Result \<times> LegacyEventParser \<times> 'u" where
  "token_complete C p u =
    (let tokenType = bits_id (legacy_header p) in
     if tokenType = EventTokenType_Data then
       (let (result, p1, u1) = EmitEventReceived C p u in
        if result = Success then
          (Success, if (legacy_field 8 8 p1 :: u64) \<noteq> 0 then p1\<lparr>lp_dataState := WaitingForPayload\<rparr> else ResetEventDataBufferState p1, u1)
        else (result, p1, u1))
     else if tokenType = EventTokenType_TimeDelta then
       (if (legacy_field 0 1 p :: u8) > 0 then (Success, p\<lparr>lp_dataState := WaitingForPayload\<rparr>, u) else (Error, p, u))
     else (Success, ProcessToken p, u))"

definition wait_for_token :: "'u ParserCallbackInfo \<Rightarrow> LegacyEventParser \<Rightarrow> u8 list \<Rightarrow> 'u \<Rightarrow> 'u pass" where
  "wait_for_token C p reader u =
    (let tokenSize = GetTokenSize (bits_id (legacy_header p));
         bytesCopied = lp_tokenBufferSize p - sizeof_EventTokenHeader;
         copySize = min (length reader) (tokenSize - bytesCopied);
         (result, pBytes, rest) = GetBytes copySize reader
     in
     if result = Success then
       (case WriteIntoTokenBuffer pBytes p of
          None \<Rightarrow> None
        | Some p1 \<Rightarrow>
            if lp_tokenBufferSize p1 = tokenSize + sizeof_EventTokenHeader then
              (let (result, p2, u1) = token_complete C p1 u in Some (result, p2, rest, u1))
            else Some (Success, p1, rest, u))
     else Some (result, p, rest, u))"

definition wait_for_delta :: "LegacyEventParser \<Rightarrow> u8 list \<Rightarrow> 'u \<Rightarrow> 'u pass" where
  "wait_for_delta p reader u =
    (let numBytes = unat (legacy_field 0 1 p :: u8);
         bytesCopied = lp_tokenBufferSize p - (sizeof_EventTokenHeader + sizeof_EventTimeDeltaToken);
         copySize = min (length reader) (numBytes - bytesCopied);
         (result, pBytes, rest) = GetBytes copySize reader
     in
     if result = Success then
       (case WriteIntoTokenBuffer pBytes p of
          None \<Rightarrow> None
        | Some p1 \<Rightarrow>
            Some (Success, if lp_tokenBufferSize p1 = sizeof_EventTokenHeader + sizeof_EventTimeDeltaToken + numBytes
                           then ProcessToken p1 else p1, rest, u))
     else Some (result, p, rest, u))"

definition wait_for_data :: "'u ParserCallbackInfo \<Rightarrow> LegacyEventParser \<Rightarrow> u8 list \<Rightarrow> 'u \<Rightarrow> 'u pass" where
  "wait_for_data C p reader u =
    (let payloadSize = unat (legacy_field 8 8 p :: u64);
         copySize = min (length reader) (payloadSize - lp_payloadBytesRead p);
         (result, pBytes, rest) = GetBytes copySize reader
     in
     if result = Success then
       (let (result, p1, u1) = EmitPayloadData C pBytes p u
        in Some (result, if result = Success \<and> lp_payloadBytesRead p1 = payloadSize then ResetEventDataBufferState p1 else p1, rest, u1))
     else Some (result, p, rest, u))"

definition legacy_pass :: "'u ParserCallbackInfo \<Rightarrow> LegacyEventParser \<Rightarrow> u8 list \<Rightarrow> 'u \<Rightarrow> 'u pass" where
  "legacy_pass C p reader u =
    (case lp_dataState p of
       WaitingForHeader \<Rightarrow> wait_for_header p reader u
     | WaitingForToken \<Rightarrow> wait_for_token C p reader u
     | WaitingForPayload \<Rightarrow>
         (let tokenType = bits_id (legacy_header p) in
          if tokenType = EventTokenType_TimeDelta then wait_for_delta p reader u
          else if tokenType = EventTokenType_Data then wait_for_data C p reader u
          else Some (Aborted, p, reader, u)))"

lemma GetBytes_Success: "GetBytes n reader = (Success, bytes, rest) \<longleftrightarrow>
    0 < n \<and> n \<le> length reader \<and> bytes = take n reader \<and> rest = drop n reader"
  by (auto simp: GetBytes_def)

lemma legacy_pass_shrinks:
  "legacy_pass C p reader u = Some (Success, p1, rest, u1) \<Longrightarrow> length rest < length reader"
  by (auto simp: legacy_pass_def wait_for_header_def wait_for_token_def wait_for_delta_def wait_for_data_def GetBytes_def Let_def
      split: EventDataState.splits if_splits option.splits prod.splits)

function legacy_loop :: "'u ParserCallbackInfo \<Rightarrow> LegacyEventParser \<Rightarrow> u8 list \<Rightarrow> 'u \<Rightarrow> (Result \<times> LegacyEventParser \<times> 'u) option" where
  "legacy_loop C p reader u =
    (if reader = [] then Some (Success, p, u)
     else
       (case legacy_pass C p reader u of
          None \<Rightarrow> None
        | Some (result, p1, rest, u1) \<Rightarrow>
            if result = Success then legacy_loop C p1 rest u1 else Some (result, p1, u1)))"
  by pat_completeness auto
termination
  by (relation "measure (\<lambda>(_, _, reader, _). length reader)") (auto dest: legacy_pass_shrinks)

declare legacy_loop.simps [simp del]

definition Legacy_Parse :: "'u ParserCallbackInfo \<Rightarrow> u8 list \<Rightarrow> LegacyEventParser \<Rightarrow> 'u \<Rightarrow> (Result \<times> LegacyEventParser \<times> 'u) option" where
  "Legacy_Parse C pEventData p u = legacy_loop C p pEventData u"

end
