(* ===== verification/Legacy_Refine.thy ===== *)
theory Legacy_Refine
  imports Event_Legacy
begin

text \<open>
  The older parser reads the stream as the strict machine does: as long as the machine is not stuck, every pass
  succeeds, nothing is written outside the token buffer, and the callbacks see what the machine puts out.
\<close>

subsection \<open>The invariant\<close>

definition legacy_bytes :: "LegacyEventParser \<Rightarrow> u8 list" where
  "legacy_bytes p = take (lp_tokenBufferSize p) (lp_tokenBuffer p)"

definition legacy_inv :: "LegacyEventParser \<Rightarrow> bool" where
  "legacy_inv p \<longleftrightarrow>
    length (lp_tokenBuffer p) = 25 \<and> \<not> lp_skipPayloadData p \<and>
    (case lp_dataState p of
       WaitingForHeader \<Rightarrow> lp_tokenBufferSize p = 0 \<and> lp_payloadBytesRead p = 0
     | WaitingForToken \<Rightarrow> lp_payloadBytesRead p = 0 \<and> 1 \<le> lp_tokenBufferSize p \<and>
         lp_tokenBufferSize p < 1 + item_size (legacy_header p) \<and> (lp_tokenBufferSize p = 1 \<or> known_token [legacy_header p])
     | WaitingForPayload \<Rightarrow>
         (bits_id (legacy_header p) = EventTokenType_Data \<and> lp_tokenBufferSize p = 17 \<and>
          lp_payloadBytesRead p < unat (legacy_field 8 8 p :: u64))
       \<or> (bits_id (legacy_header p) = EventTokenType_TimeDelta \<and> lp_payloadBytesRead p = 0 \<and> 2 \<le> lp_tokenBufferSize p \<and>
          lp_tokenBuffer p ! 1 \<noteq> 0 \<and> lp_tokenBuffer p ! 1 \<le> 6 \<and> lp_tokenBufferSize p < 2 + unat (lp_tokenBuffer p ! 1)))"

definition legacy_mode :: "LegacyEventParser \<Rightarrow> stream_mode" where
  "legacy_mode p =
    (case lp_dataState p of
       WaitingForHeader \<Rightarrow> Token []
     | WaitingForToken \<Rightarrow> if known_token [legacy_header p] then Token (legacy_bytes p) else Stuck
     | WaitingForPayload \<Rightarrow>
         if bits_id (legacy_header p) = EventTokenType_Data
         then Payload (unat (legacy_field 8 8 p :: u64) - lp_payloadBytesRead p) else Token (legacy_bytes p))"

definition legacy_stream :: "LegacyEventParser \<Rightarrow> stream_state" where
  "legacy_stream p =
    \<lparr>ss_strict = True, ss_mode = legacy_mode p, ss_providerId = lp_currentProviderId p,
     ss_timestampFrequency = lp_currentTimestampFrequency p, ss_timestamp = lp_currentTimestamp p\<rparr>"

definition new_strict_stream :: stream_state where
  "new_strict_stream = new_stream\<lparr>ss_strict := True\<rparr>"

lemma new_LegacyEventParser_inv: "legacy_inv (new_LegacyEventParser garbage)"
  by (simp add: legacy_inv_def new_LegacyEventParser_def kMaxEventTokenSize_eq)

lemma new_LegacyEventParser_stream: "legacy_stream (new_LegacyEventParser garbage) = new_strict_stream"
  by (simp add: legacy_stream_def new_strict_stream_def new_stream_def legacy_mode_def new_LegacyEventParser_def)

lemma legacy_stream_mode: "ss_mode (legacy_stream p) = legacy_mode p"
  by (simp add: legacy_stream_def)

lemma legacy_stream_strict [simp]: "ss_strict (legacy_stream p)"
  by (simp add: legacy_stream_def)

subsection \<open>Writing into the buffer\<close>

definition buffered :: "u8 list \<Rightarrow> LegacyEventParser \<Rightarrow> LegacyEventParser" where
  "buffered bytes p = p\<lparr>lp_tokenBufferSize := lp_tokenBufferSize p + length bytes,
     lp_tokenBuffer := write_at (lp_tokenBufferSize p) bytes (lp_tokenBuffer p)\<rparr>"

lemma buffered_simps [simp]:
  "lp_tokenBufferSize (buffered bytes p) = lp_tokenBufferSize p + length bytes"
  "lp_dataState (buffered bytes p) = lp_dataState p" "lp_payloadBytesRead (buffered bytes p) = lp_payloadBytesRead p"
  "lp_skipPayloadData (buffered bytes p) = lp_skipPayloadData p"
  "lp_currentProviderId (buffered bytes p) = lp_currentProviderId p"
  "lp_currentTimestampFrequency (buffered bytes p) = lp_currentTimestampFrequency p"
  "lp_currentTimestamp (buffered bytes p) = lp_currentTimestamp p"
  by (simp_all add: buffered_def)

lemma WriteIntoTokenBuffer_fits:
  "lp_tokenBufferSize p + length bytes \<le> 25 \<Longrightarrow> bytes \<noteq> [] \<Longrightarrow> WriteIntoTokenBuffer bytes p = Some (buffered bytes p)"
  by (simp add: WriteIntoTokenBuffer_def buffered_def kMaxEventTokenSize_eq Let_def)

lemma buffered_bytes:
  assumes "lp_tokenBufferSize p + length bytes \<le> 25" "length (lp_tokenBuffer p) = 25"
  shows "length (lp_tokenBuffer (buffered bytes p)) = 25" "legacy_bytes (buffered bytes p) = legacy_bytes p @ bytes"
    "i < lp_tokenBufferSize p \<Longrightarrow> lp_tokenBuffer (buffered bytes p) ! i = lp_tokenBuffer p ! i"
  using assms by (simp_all add: buffered_def length_write_at legacy_bytes_def write_at_def nth_append)

lemma legacy_field_bytes:
  "1 + off + n \<le> lp_tokenBufferSize p \<Longrightarrow> legacy_field off n p = get_word (1 + off) n (legacy_bytes p)"
  by (simp add: legacy_field_def legacy_bytes_def get_word_take event_sizes)

lemma GetTokenSize_item: "bits_id h < 4 \<Longrightarrow> GetTokenSize (bits_id h) = item_size h"
  using bits_id_cases [of h] by (auto simp: GetTokenSize_def item_size_def event_sizes)

lemma legacy_inv_token:
  assumes "legacy_inv p" "lp_dataState p \<noteq> WaitingForHeader"
  shows "length (legacy_bytes p) = lp_tokenBufferSize p" "legacy_bytes p \<noteq> []" "legacy_bytes p ! 0 = legacy_header p"
    "length (lp_tokenBuffer p) = 25" "lp_tokenBufferSize p \<le> 25" "0 < lp_tokenBufferSize p"
proof -
  have i: "item_size h \<le> 24" for h by (simp add: item_size_def)
  note i [of "legacy_header p"]
  moreover have "unat (lp_tokenBuffer p ! 1) \<le> 6" if "lp_tokenBuffer p ! 1 \<le> 6"
    using that by (simp add: word_le_nat_alt)
  ultimately show *: "length (lp_tokenBuffer p) = 25" "lp_tokenBufferSize p \<le> 25" "0 < lp_tokenBufferSize p"
    using assms by (auto simp: legacy_inv_def split: EventDataState.splits)
  then show "length (legacy_bytes p) = lp_tokenBufferSize p" "legacy_bytes p \<noteq> []" "legacy_bytes p ! 0 = legacy_header p"
    by (auto simp: legacy_bytes_def legacy_header_def)
qed

subsection \<open>Passes without a callback\<close>

text \<open>What a pass has to do with the first \<open>n\<close> bytes of the input.\<close>

definition pass_ok :: "LegacyEventParser \<Rightarrow> u8 list \<Rightarrow> nat \<Rightarrow> stream_output list \<Rightarrow> LegacyEventParser \<Rightarrow> bool" where
  "pass_ok p reader n out p1 \<longleftrightarrow>
    0 < n \<and> n \<le> length reader \<and> legacy_inv p1 \<and> stream_run (take n reader) (legacy_stream p) = (out, legacy_stream p1)"

lemma header_pass:
  assumes "legacy_inv p" "lp_dataState p = WaitingForHeader" "reader \<noteq> []"
  shows "\<exists>p1. legacy_pass C p reader u = Some (Success, p1, drop 1 reader, u) \<and> pass_ok p reader 1 [] p1"
proof -
  obtain b rest where r: "reader = b # rest" using assms(3) by (cases reader) auto
  have i: "lp_tokenBufferSize p = 0" "lp_payloadBytesRead p = 0" "length (lp_tokenBuffer p) = 25" "\<not> lp_skipPayloadData p"
    using assms by (simp_all add: legacy_inv_def)
  define p1 where "p1 = (buffered [b] p)\<lparr>lp_dataState := WaitingForToken\<rparr>"
  have pass: "legacy_pass C p reader u = Some (Success, p1, drop 1 reader, u)"
    using r i assms(2) by (simp add: legacy_pass_def wait_for_header_def GetBytes_def event_sizes WriteIntoTokenBuffer_fits p1_def)
  have buf: "lp_tokenBuffer p1 = b # drop 1 (lp_tokenBuffer p)" using i by (simp add: p1_def buffered_def write_at_def)
  then have h: "legacy_header p1 = b" and bytes: "legacy_bytes p1 = [b]"
    using i by (simp_all add: legacy_header_def legacy_bytes_def p1_def)
  have "legacy_inv p1"
    using i h buf item_size_pos [of b] by (simp add: legacy_inv_def p1_def)
  moreover have "stream_run [b] (legacy_stream p) = ([], legacy_stream p1)"
    using assms(2) h bytes by (simp add: legacy_stream_def legacy_mode_def stream_step_def token_step_def token_length_def legal_delta_def)
      (simp add: p1_def)
  ultimately show ?thesis using pass r by (simp add: pass_ok_def)
qed

text \<open>The bytes that a pass copies within a token, and the parser after that.\<close>

definition copy_size :: "LegacyEventParser \<Rightarrow> u8 list \<Rightarrow> nat" where
  "copy_size p reader = min (length reader) (1 + item_size (legacy_header p) - lp_tokenBufferSize p)"

definition in_legacy_token :: "LegacyEventParser \<Rightarrow> u8 list \<Rightarrow> bool" where
  "in_legacy_token p reader \<longleftrightarrow>
    legacy_inv p \<and> lp_dataState p = WaitingForToken \<and> reader \<noteq> [] \<and> known_token [legacy_header p]"

lemma in_legacy_tokenD:
  assumes "in_legacy_token p reader"
  shows "legacy_inv p" "lp_dataState p = WaitingForToken" "reader \<noteq> []" "known_token [legacy_header p]"
    "lp_payloadBytesRead p = 0" "\<not> lp_skipPayloadData p"
  using assms by (auto simp: in_legacy_token_def legacy_inv_def)

lemma in_legacy_token:
  assumes "in_legacy_token p reader"
  defines "n \<equiv> copy_size p reader" and "q \<equiv> buffered (take (copy_size p reader) reader) p"
  shows "0 < n" "n \<le> length reader" "lp_tokenBufferSize p + n \<le> 1 + item_size (legacy_header p)"
    "length (lp_tokenBuffer q) = 25" "legacy_bytes q = legacy_bytes p @ take n reader" "legacy_header q = legacy_header p"
    "ss_mode (legacy_stream p) = Token (legacy_bytes p)"
    "0 < i \<Longrightarrow> i \<le> n \<Longrightarrow> lp_tokenBufferSize p + i < 1 + item_size (legacy_header p) \<Longrightarrow>
      in_token (legacy_bytes p @ take i reader) \<and> legal_delta (legacy_bytes p @ take i reader)"
    "legacy_pass C p reader u =
      (if lp_tokenBufferSize q = 1 + item_size (legacy_header p)
       then (let (result, p2, u1) = token_complete C q u in Some (result, p2, drop n reader, u1))
       else Some (Success, q, drop n reader, u))"
proof -
  have p: "legacy_inv p" "lp_dataState p = WaitingForToken" "reader \<noteq> []" "known_token [legacy_header p]"
    using assms(1) by (simp_all add: in_legacy_token_def)
  note b = legacy_inv_token [OF p(1)]
  have lt: "lp_tokenBufferSize p < 1 + item_size (legacy_header p)" "1 \<le> lp_tokenBufferSize p"
    using p by (simp_all add: legacy_inv_def)
  show n: "0 < n" "n \<le> length reader" "lp_tokenBufferSize p + n \<le> 1 + item_size (legacy_header p)"
    using lt p(3) by (auto simp: n_def copy_size_def)
  have "item_size (legacy_header p) \<le> 24" by (simp add: item_size_def)
  with n have fits: "lp_tokenBufferSize p + length (take n reader) \<le> 25" by simp
  show q: "length (lp_tokenBuffer q) = 25" "legacy_bytes q = legacy_bytes p @ take n reader" "legacy_header q = legacy_header p"
    using buffered_bytes [OF fits] b p(2) by (simp_all add: q_def n_def legacy_header_def)
  show "ss_mode (legacy_stream p) = Token (legacy_bytes p)"
    using p by (simp add: legacy_stream_def legacy_mode_def)
  show "in_token (legacy_bytes p @ take i reader) \<and> legal_delta (legacy_bytes p @ take i reader)"
    if "0 < i" "i \<le> n" "lp_tokenBufferSize p + i < 1 + item_size (legacy_header p)"
  proof
    let ?t = "legacy_bytes p @ take i reader"
    have t: "?t \<noteq> []" "?t ! 0 = legacy_header p" "known_token ?t" "length ?t < 1 + item_size (legacy_header p)"
      using b p n that by (auto simp: nth_append known_token_def)
    then show "in_token ?t" using item_token_length(1) by metis
    show "legal_delta ?t" using t by (auto simp: legal_delta_def item_size_def)
  qed
  have size: "GetTokenSize (bits_id (legacy_header p)) = item_size (legacy_header p)"
    using p(4) by (simp add: GetTokenSize_item known_token_def)
  have copy: "min (length reader) (item_size (legacy_header p) - (lp_tokenBufferSize p - 1)) = n"
    using lt by (simp add: n_def copy_size_def)
  show "legacy_pass C p reader u =
      (if lp_tokenBufferSize q = 1 + item_size (legacy_header p)
       then (let (result, p2, u1) = token_complete C q u in Some (result, p2, drop n reader, u1))
       else Some (Success, q, drop n reader, u))"
    using p n fits copy lt
    by (auto simp: legacy_pass_def wait_for_token_def size event_sizes GetBytes_def WriteIntoTokenBuffer_fits q_def
        n_def [symmetric] Let_def)
qed

lemma token_pass_partial:
  assumes "in_legacy_token p reader" "lp_tokenBufferSize p + copy_size p reader < 1 + item_size (legacy_header p)"
  shows "\<exists>p1. legacy_pass C p reader u = Some (Success, p1, drop (copy_size p reader) reader, u) \<and>
    pass_ok p reader (copy_size p reader) [] p1"
proof -
  let ?n = "copy_size p reader" and ?q = "buffered (take (copy_size p reader) reader) p"
  note c = in_legacy_token [OF assms(1)]
  have p: "legacy_inv p" "lp_dataState p = WaitingForToken" "known_token [legacy_header p]"
    using assms(1) by (simp_all add: in_legacy_token_def)
  have "stream_run (take ?n reader) (legacy_stream p) = ([], (legacy_stream p)\<lparr>ss_mode := Token (legacy_bytes p @ take ?n reader)\<rparr>)"
    using c(7) by (rule stream_run_in_token) (use c(2) c(8) assms(2) in auto)
  also have "(legacy_stream p)\<lparr>ss_mode := Token (legacy_bytes p @ take ?n reader)\<rparr> = legacy_stream ?q"
    using p c by (simp add: legacy_stream_def legacy_mode_def)
  finally have "pass_ok p reader ?n [] ?q"
    using p c assms(2) by (auto simp: pass_ok_def legacy_inv_def)
  moreover have "legacy_pass C p reader u = Some (Success, ?q, drop ?n reader, u)"
    using c assms(2) by simp
  ultimately show ?thesis by blast
qed

text \<open>The whole token is there.\<close>

lemma token_pass_done:
  assumes "in_legacy_token p reader" "lp_tokenBufferSize p + copy_size p reader = 1 + item_size (legacy_header p)"
    "bits_id (legacy_header p) \<noteq> EventTokenType_TimeDelta"
  defines "q \<equiv> buffered (take (copy_size p reader) reader) p"
  shows "stream_run (take (copy_size p reader) reader) (legacy_stream p) = token_done (legacy_bytes q) (legacy_stream p)"
    "legacy_bytes q ! 0 = legacy_header p"
    "off + m \<le> item_size (legacy_header p) \<Longrightarrow> legacy_field off m q = get_word (1 + off) m (legacy_bytes q)"
    "legacy_pass C p reader u = (let (result, p2, u1) = token_complete C q u in Some (result, p2, drop (copy_size p reader) reader, u1))"
proof -
  let ?n = "copy_size p reader"
  note c = in_legacy_token [OF assms(1), folded q_def]
  have p: "legacy_inv p" "lp_dataState p = WaitingForToken" "known_token [legacy_header p]"
    using assms(1) by (simp_all add: in_legacy_token_def)
  note b = legacy_inv_token [OF p(1)]
  have t: "legacy_bytes q \<noteq> []" "legacy_bytes q ! 0 = legacy_header p" "known_token (legacy_bytes q)"
    "length (legacy_bytes q) = 1 + item_size (legacy_header p)"
    using b p c assms(2) by (auto simp: nth_append known_token_def)
  have "stream_run (take ?n reader) (legacy_stream p) = token_done (legacy_bytes p @ take ?n reader) (legacy_stream p)"
  proof (rule stream_run_token [OF c(7)])
    show "length (legacy_bytes p @ take ?n reader) = token_length (legacy_bytes p @ take ?n reader)"
      using item_token_length(2) [OF t(1,3)] t assms(3) c(5) by simp
    show "legal_delta (legacy_bytes p @ take ?n reader)" using t c(5) assms(3) by (simp add: legal_delta_def)
  qed (use c t assms(2) in auto)
  then show "stream_run (take ?n reader) (legacy_stream p) = token_done (legacy_bytes q) (legacy_stream p)"
    using c(5) by simp
  show "legacy_bytes q ! 0 = legacy_header p" by (rule t(2))
  show "legacy_field off m q = get_word (1 + off) m (legacy_bytes q)" if "off + m \<le> item_size (legacy_header p)"
    using that assms(2) c(2) by (intro legacy_field_bytes) (simp add: q_def)
  show "legacy_pass C p reader u = (let (result, p2, u1) = token_complete C q u in Some (result, p2, drop ?n reader, u1))"
    using c(9) assms(2) c(2) by (simp add: q_def)
qed

lemma ResetEventDataBufferState_simps [simp]:
  "lp_tokenBuffer (ResetEventDataBufferState p) = lp_tokenBuffer p" "lp_tokenBufferSize (ResetEventDataBufferState p) = 0"
  "lp_payloadBytesRead (ResetEventDataBufferState p) = 0" "lp_dataState (ResetEventDataBufferState p) = WaitingForHeader"
  "lp_skipPayloadData (ResetEventDataBufferState p) = lp_skipPayloadData p"
  "lp_currentProviderId (ResetEventDataBufferState p) = lp_currentProviderId p"
  "lp_currentTimestampFrequency (ResetEventDataBufferState p) = lp_currentTimestampFrequency p"
  "lp_currentTimestamp (ResetEventDataBufferState p) = lp_currentTimestamp p"
  by (simp_all add: ResetEventDataBufferState_def)

lemma legacy_field_simps [simp]:
  "legacy_header (p\<lparr>lp_dataState := s\<rparr>) = legacy_header p" "legacy_header (p\<lparr>lp_skipPayloadData := k\<rparr>) = legacy_header p"
  "legacy_field off n (p\<lparr>lp_dataState := s\<rparr>) = legacy_field off n p"
  "legacy_field off n (p\<lparr>lp_skipPayloadData := k\<rparr>) = legacy_field off n p"
  "legacy_header (p\<lparr>lp_payloadBytesRead := m\<rparr>) = legacy_header p"
  "legacy_field off n (p\<lparr>lp_payloadBytesRead := m\<rparr>) = legacy_field off n p"
  by (simp_all add: legacy_header_def legacy_field_def)

lemma token_pass_plain:
  assumes "in_legacy_token p reader" "lp_tokenBufferSize p + copy_size p reader = 1 + item_size (legacy_header p)"
    "bits_id (legacy_header p) = EventTokenType_Provider \<or> bits_id (legacy_header p) = EventTokenType_Timestamp"
  shows "\<exists>p1. legacy_pass C p reader u = Some (Success, p1, drop (copy_size p reader) reader, u) \<and>
    pass_ok p reader (copy_size p reader) [] p1"
proof -
  define q where "q = buffered (take (copy_size p reader) reader) p"
  have id: "bits_id (legacy_header p) \<noteq> EventTokenType_TimeDelta" using assms(3) by auto
  note c = in_legacy_token [OF assms(1), folded q_def] and d = token_pass_done [OF assms(1,2) id, folded q_def]
  have p: "\<not> lp_skipPayloadData q" using in_legacy_tokenD [OF assms(1)] by (simp add: q_def)
  have complete: "token_complete C q u = (Success, ProcessToken q, u)"
    using assms(3) c(6) by (auto simp: token_complete_def)
  have "legacy_inv (ProcessToken q)"
    using c(4) p by (simp add: legacy_inv_def ProcessToken_def Let_def)
  moreover have "token_done (legacy_bytes q) (legacy_stream p) = ([], legacy_stream (ProcessToken q))"
    using assms(3) d(2) c(6)
    by (auto simp: token_done_def ProcessToken_def legacy_stream_def legacy_mode_def item_size_def Let_def d(3))
      (simp_all add: q_def)
  ultimately have "pass_ok p reader (copy_size p reader) [] (ProcessToken q)"
    using c d(1) by (simp add: pass_ok_def)
  moreover have "legacy_pass C p reader u = Some (Success, ProcessToken q, drop (copy_size p reader) reader, u)"
    by (simp add: d(4) complete)
  ultimately show ?thesis by blast
qed

text \<open>An event begins: the callback decides.\<close>

lemma token_pass_data:
  assumes "in_legacy_token p reader" "lp_tokenBufferSize p + copy_size p reader = 1 + item_size (legacy_header p)"
    "bits_id (legacy_header p) = EventTokenType_Data"
  shows "\<exists>info p1. pass_ok p reader (copy_size p reader) [EventBegins info] p1 \<and>
    legacy_mode p1 = payload_mode (unat (ei_totalPayloadSize info)) \<and>
    (\<forall>f u1. pfnEventReceived C = Some f \<longrightarrow> f info u = (Success, u1) \<longrightarrow>
       legacy_pass C p reader u = Some (Success, p1, drop (copy_size p reader) reader, u1))"
proof -
  define q where "q = buffered (take (copy_size p reader) reader) p"
  define p1 where "p1 = (if (legacy_field 8 8 q :: u64) \<noteq> 0 then q\<lparr>lp_skipPayloadData := False, lp_dataState := WaitingForPayload\<rparr>
    else ResetEventDataBufferState (q\<lparr>lp_skipPayloadData := False\<rparr>))"
  define info where "info = event_info (legacy_bytes q) (legacy_stream p)"
  have id: "bits_id (legacy_header p) \<noteq> EventTokenType_TimeDelta" using assms(3) by simp
  note c = in_legacy_token [OF assms(1), folded q_def] and d = token_pass_done [OF assms(1,2) id, folded q_def]
  note p = in_legacy_tokenD [OF assms(1)]
  have size: "lp_tokenBufferSize q = 17" using assms(2,3) c(2) by (simp add: q_def item_size_def)
  have "info = \<lparr>ei_timestampFrequency = lp_currentTimestampFrequency q, ei_timestamp = lp_currentTimestamp q,
      ei_providerId = lp_currentProviderId q, ei_eventId = legacy_field 0 4 q, ei_eventIndex = legacy_field 4 4 q,
      ei_totalPayloadSize = legacy_field 8 8 q\<rparr>"
    using assms(3) by (simp add: info_def event_info_def item_size_def legacy_stream_def d(3)) (simp add: q_def)
  then have emit: "token_complete C q u = (Success, p1, u1)" if "pfnEventReceived C = Some f" "f info u = (Success, u1)" for f u1
    using that c(6) assms(3) by (simp add: token_complete_def EmitEventReceived_def p1_def)
  have total: "unat (ei_totalPayloadSize info) = unat (legacy_field 8 8 q :: u64)"
    using assms(3) by (simp add: info_def event_info_def item_size_def d(3))
  have mode: "legacy_mode p1 = payload_mode (unat (legacy_field 8 8 q :: u64))"
    using c(6) assms(3) p by (auto simp: p1_def legacy_mode_def payload_mode_def unat_eq_zero) (simp_all add: q_def)
  have "0 < unat (legacy_field 8 8 q :: u64)" if "(legacy_field 8 8 q :: u64) \<noteq> 0"
    using that by (simp add: unat_gt_0)
  then have "legacy_inv p1"
    using c(4,6) assms(3) size p by (auto simp: p1_def legacy_inv_def) (simp_all add: q_def)
  moreover have "token_done (legacy_bytes q) (legacy_stream p) = ([EventBegins info], legacy_stream p1)"
    using d(2) assms(3) mode
    by (simp add: token_done_def info_def item_size_def legacy_stream_def d(3)) (simp add: p1_def q_def)
  ultimately have "pass_ok p reader (copy_size p reader) [EventBegins info] p1"
    using c d(1) by (simp add: pass_ok_def)
  moreover have "legacy_pass C p reader u = Some (Success, p1, drop (copy_size p reader) reader, u1)"
    if "pfnEventReceived C = Some f" "f info u = (Success, u1)" for f u1
    by (simp add: d(4) emit [OF that])
  ultimately show ?thesis using mode total by (intro exI [of _ info] exI [of _ p1]) auto
qed

lemma token_pass_delta:
  assumes "in_legacy_token p reader" "bits_id (legacy_header p) = EventTokenType_TimeDelta"
    "ss_mode (snd (stream_run (take 1 reader) (legacy_stream p))) \<noteq> Stuck"
  shows "\<exists>p1. legacy_pass C p reader u = Some (Success, p1, drop 1 reader, u) \<and> pass_ok p reader 1 [] p1"
proof -
  define q where "q = buffered (take (copy_size p reader) reader) p"
  note c = in_legacy_token [OF assms(1), folded q_def]
  note p = in_legacy_tokenD [OF assms(1)]
  note b = legacy_inv_token [OF p(1)]
  have item: "item_size (legacy_header p) = 1" using assms(2) by (simp add: item_size_def)
  then have "lp_tokenBufferSize p = 1" using p b by (auto simp: legacy_inv_def)
  with item p(3) have one: "lp_tokenBufferSize p = 1" "copy_size p reader = 1" by (cases reader; simp add: copy_size_def)+
  obtain h where h: "legacy_bytes p = [h]" "h = legacy_header p" using b p one by (cases "legacy_bytes p") auto
  obtain x rest where r: "reader = x # rest" using p by (cases reader) auto
  have bytes: "legacy_bytes q = [h, x]" using c(5) one r h by simp
  have run: "stream_run [x] (legacy_stream p) = token_step [h, x] (legacy_stream p)"
    using c(7) h by (simp add: stream_step_def)
  have legal: "x \<noteq> 0" "x \<le> 6"
    using assms(3) r run by (auto simp: token_step_def legal_delta_def h assms(2) split: if_splits)
  then have x: "0 < unat x" "delta_size x = unat x" by (simp_all add: delta_size_def word_le_nat_alt unat_gt_0)
  have buf: "lp_tokenBuffer q ! 1 = x"
  proof -
    have "lp_tokenBufferSize q = 2" using one r by (simp add: q_def)
    with bytes have "take 2 (lp_tokenBuffer q) ! 1 = x" by (simp add: legacy_bytes_def)
    then show ?thesis by simp
  qed
  have f: "(legacy_field 0 1 q :: u8) = x"
    using buf c(4) by (simp add: legacy_field_def event_sizes get_word_byte)
  define p1 where "p1 = q\<lparr>lp_dataState := WaitingForPayload\<rparr>"
  have pass: "legacy_pass C p reader u = Some (Success, p1, drop 1 reader, u)"
    unfolding c(9) using c(6) one r item assms(2) f legal
    by (simp add: token_complete_def p1_def word_neq_0_conv) (simp add: q_def)
  have "legacy_inv p1"
    using c(4,6) assms(2) buf legal x p one r by (simp add: legacy_inv_def p1_def) (simp add: q_def)
  moreover have "legacy_stream p1 = (legacy_stream p)\<lparr>ss_mode := Token [h, x]\<rparr>"
    using c(6) assms(2) bytes by (simp add: legacy_stream_def legacy_mode_def p1_def legacy_bytes_def) (simp add: q_def)
  moreover have "token_step [h, x] (legacy_stream p) = ([], (legacy_stream p)\<lparr>ss_mode := Token [h, x]\<rparr>)"
    using h assms(2) legal x by (simp add: token_step_def known_token_def legal_delta_def token_length_def)
  ultimately show ?thesis using pass r run by (auto simp: pass_ok_def)
qed

end
