(* ===== verification/Legacy_Loop.thy ===== *)
theory Legacy_Loop
  imports Legacy_Refine
begin

text \<open>
  The remaining passes of the older parser, its loop, and what it asks of the callbacks: the locale
  \<open>event_callbacks\<close>.
\<close>

subsection \<open>The bytes of a time delta\<close>

definition in_legacy_delta :: "LegacyEventParser \<Rightarrow> bool" where
  "in_legacy_delta p \<longleftrightarrow> legacy_inv p \<and> lp_dataState p = WaitingForPayload \<and> bits_id (legacy_header p) = EventTokenType_TimeDelta"

definition delta_copy :: "LegacyEventParser \<Rightarrow> u8 list \<Rightarrow> nat" where
  "delta_copy p reader = min (length reader) (2 + unat (lp_tokenBuffer p ! 1) - lp_tokenBufferSize p)"

lemma in_legacy_deltaD:
  assumes "in_legacy_delta p"
  shows "legacy_inv p" "lp_dataState p = WaitingForPayload" "bits_id (legacy_header p) = EventTokenType_TimeDelta"
    "lp_payloadBytesRead p = 0" "\<not> lp_skipPayloadData p" "2 \<le> lp_tokenBufferSize p"
    "lp_tokenBufferSize p < 2 + unat (lp_tokenBuffer p ! 1)" "lp_tokenBuffer p ! 1 \<noteq> 0" "lp_tokenBuffer p ! 1 \<le> 6"
    "delta_size (lp_tokenBuffer p ! 1) = unat (lp_tokenBuffer p ! 1)" "unat (lp_tokenBuffer p ! 1) \<le> 6"
    "ss_mode (legacy_stream p) = Token (legacy_bytes p)"
  using assms
  by (auto simp: in_legacy_delta_def legacy_inv_def delta_size_def word_le_nat_alt legacy_stream_def legacy_mode_def)

lemma delta_pass_copy:
  assumes "in_legacy_delta p" "reader \<noteq> []"
  defines "n \<equiv> delta_copy p reader" and "q \<equiv> buffered (take (delta_copy p reader) reader) p"
  shows "0 < n" "n \<le> length reader" "lp_tokenBufferSize p + n \<le> 2 + unat (lp_tokenBuffer p ! 1)"
    "length (lp_tokenBuffer q) = 25" "legacy_bytes q = legacy_bytes p @ take n reader" "legacy_header q = legacy_header p"
    "lp_tokenBuffer q ! 1 = lp_tokenBuffer p ! 1"
    "known_token (legacy_bytes p @ bs)" "token_length (legacy_bytes p @ bs) = 2 + unat (lp_tokenBuffer p ! 1)"
    "legal_delta (legacy_bytes p @ bs)" "(legacy_bytes p @ bs) ! 0 = legacy_header p" "(legacy_bytes p @ bs) ! 1 = lp_tokenBuffer p ! 1"
    "legacy_pass C p reader u = Some (Success,
      if lp_tokenBufferSize p + n = 2 + unat (lp_tokenBuffer p ! 1) then ProcessToken q else q, drop n reader, u)"
proof -
  note p = in_legacy_deltaD [OF assms(1)]
  note b = legacy_inv_token [OF p(1)]
  show n: "0 < n" "n \<le> length reader" "lp_tokenBufferSize p + n \<le> 2 + unat (lp_tokenBuffer p ! 1)"
    using p(7) assms(2) by (auto simp: n_def delta_copy_def)
  then have fits: "lp_tokenBufferSize p + length (take n reader) \<le> 25" using p(11) by simp
  show "length (lp_tokenBuffer q) = 25" "legacy_bytes q = legacy_bytes p @ take n reader" "legacy_header q = legacy_header p"
    "lp_tokenBuffer q ! 1 = lp_tokenBuffer p ! 1"
    using buffered_bytes [OF fits] b p(2,6) by (simp_all add: q_def n_def legacy_header_def)
  show t: "(legacy_bytes p @ bs) ! 0 = legacy_header p" "(legacy_bytes p @ bs) ! 1 = lp_tokenBuffer p ! 1"
    using b p(2,6) by (auto simp: nth_append) (simp_all add: legacy_bytes_def)
  then show "known_token (legacy_bytes p @ bs)" "legal_delta (legacy_bytes p @ bs)"
    using p(3,8,9) by (simp_all add: known_token_def legal_delta_def)
  show "token_length (legacy_bytes p @ bs) = 2 + unat (lp_tokenBuffer p ! 1)"
    using t p(3,6,10) b p(2) by (simp add: token_length_def)
  have f: "(legacy_field 0 1 p :: u8) = lp_tokenBuffer p ! 1"
    using b p(2) by (simp add: legacy_field_def event_sizes get_word_byte)
  have copy: "min (length reader) (unat (lp_tokenBuffer p ! 1) - (lp_tokenBufferSize p - 2)) = n"
    using p(6,7) by (simp add: n_def delta_copy_def)
  have less: "lp_tokenBufferSize p - 2 < unat (lp_tokenBuffer p ! 1)" using p(6,7) by simp
  show "legacy_pass C p reader u = Some (Success,
      if lp_tokenBufferSize p + n = 2 + unat (lp_tokenBuffer p ! 1) then ProcessToken q else q, drop n reader, u)"
    using p(2,3) n fits copy less assms(2)
    by (simp add: legacy_pass_def wait_for_delta_def f event_sizes Let_def numeral_2_eq_2 GetBytes_def WriteIntoTokenBuffer_fits
        q_def n_def [symmetric] del: One_nat_def)
qed

lemma delta_pass:
  assumes "in_legacy_delta p" "reader \<noteq> []"
  shows "\<exists>n p1. legacy_pass C p reader u = Some (Success, p1, drop n reader, u) \<and> pass_ok p reader n [] p1"
proof -
  define n where "n = delta_copy p reader"
  define q where "q = buffered (take n reader) p"
  let ?full = "2 + unat (lp_tokenBuffer p ! 1)"
  note p = in_legacy_deltaD [OF assms(1)] and c = delta_pass_copy [OF assms, folded n_def, folded q_def]
  note b = legacy_inv_token [OF p(1)]
  have part: "in_token (legacy_bytes p @ take i reader) \<and> legal_delta (legacy_bytes p @ take i reader)"
    if "lp_tokenBufferSize p + i < ?full" "i \<le> n" for i
    using that c b p(2) by (simp add: in_token_def)
  show ?thesis
  proof (cases "lp_tokenBufferSize p + n = ?full")
    case False
    then have lt: "lp_tokenBufferSize p + n < ?full" using c(3) by simp
    have "stream_run (take n reader) (legacy_stream p) = ([], (legacy_stream p)\<lparr>ss_mode := Token (legacy_bytes p @ take n reader)\<rparr>)"
      using p(12) by (rule stream_run_in_token) (use c(2) part lt in auto)
    also have "(legacy_stream p)\<lparr>ss_mode := Token (legacy_bytes p @ take n reader)\<rparr> = legacy_stream q"
      using p c by (simp add: legacy_stream_def legacy_mode_def) (simp add: q_def)
    moreover have "legacy_inv q"
      using p c lt by (simp add: legacy_inv_def) (simp add: q_def)
    ultimately have "pass_ok p reader n [] q" using c by (simp add: pass_ok_def)
    with False show ?thesis by (auto simp: c(13))
  next
    case True
    have run: "stream_run (take n reader) (legacy_stream p) = token_done (legacy_bytes p @ take n reader) (legacy_stream p)"
      by (rule stream_run_token [OF p(12)]) (use c b p True part in auto)
    have f: "(legacy_field 0 1 q :: u8) = lp_tokenBuffer p ! 1"
      using c(4,7) by (simp add: legacy_field_def event_sizes get_word_byte)
    have "unat (min (ucast (lp_tokenBuffer p ! 1)) (6 :: u32)) = unat (lp_tokenBuffer p ! 1)"
      using p(11) by (simp add: min_def word_le_nat_alt unsigned_ucast_eq take_bit_nat_eq_self unsigned_less [THEN less_le_trans])
    moreover have "legacy_field sizeof_EventTimeDeltaToken (unat (lp_tokenBuffer p ! 1)) q =
        (get_word 2 (unat (lp_tokenBuffer p ! 1)) (legacy_bytes q) :: u64)"
      using True c(2) by (subst legacy_field_bytes) (simp_all add: event_sizes numeral_2_eq_2 q_def)
    ultimately have ts: "ProcessToken q = ResetEventDataBufferState (q\<lparr>lp_currentTimestamp :=
        lp_currentTimestamp q + get_word 2 (unat (lp_tokenBuffer p ! 1)) (legacy_bytes q)\<rparr>)"
      using c(6) p(3) f by (simp add: ProcessToken_def)
    have "legacy_inv (ProcessToken q)" using c(4) p(5) by (simp add: ts legacy_inv_def) (simp add: q_def)
    moreover have "token_done (legacy_bytes p @ take n reader) (legacy_stream p) = ([], legacy_stream (ProcessToken q))"
      using c p by (simp add: ts token_done_def legacy_stream_def legacy_mode_def) (simp add: q_def)
    ultimately have "pass_ok p reader n [] (ProcessToken q)" using c run by (simp add: pass_ok_def)
    with True show ?thesis by (auto simp: c(13))
  qed
qed

subsection \<open>Payload\<close>

definition data_copy :: "LegacyEventParser \<Rightarrow> u8 list \<Rightarrow> nat" where
  "data_copy p reader = min (length reader) (unat (legacy_field 8 8 p :: u64) - lp_payloadBytesRead p)"

text \<open>A piece of payload: the callback decides.\<close>

lemma data_pass:
  assumes "legacy_inv p" "lp_dataState p = WaitingForPayload" "bits_id (legacy_header p) = EventTokenType_Data" "reader \<noteq> []"
    "legacy_mode p = Payload m"
  shows "\<exists>n p1. pass_ok p reader n (map PayloadByte (take n reader)) p1 \<and> n \<le> m \<and> legacy_mode p1 = payload_mode (m - n) \<and>
    (\<forall>f u1. pfnPayloadData C = Some f \<longrightarrow> f (take n reader) u = (Success, u1) \<longrightarrow>
       legacy_pass C p reader u = Some (Success, p1, drop n reader, u1))"
proof -
  let ?total = "unat (legacy_field 8 8 p :: u64)"
  define n where "n = data_copy p reader"
  define q where "q = p\<lparr>lp_payloadBytesRead := lp_payloadBytesRead p + n\<rparr>"
  define p1 where "p1 = (if lp_payloadBytesRead p + n = ?total then ResetEventDataBufferState q else q)"
  have p: "lp_payloadBytesRead p < ?total" "\<not> lp_skipPayloadData p" "m = ?total - lp_payloadBytesRead p"
    "lp_tokenBufferSize p = 17" "length (lp_tokenBuffer p) = 25"
    using assms by (auto simp: legacy_inv_def legacy_mode_def)
  then have n: "0 < n" "n \<le> length reader" "n \<le> m" "lp_payloadBytesRead p + n \<le> ?total"
    using assms(4) by (auto simp: n_def data_copy_def)
  have pass: "legacy_pass C p reader u = Some (Success, p1, drop n reader, u1)"
    if "pfnPayloadData C = Some f" "f (take n reader) u = (Success, u1)" for f u1
    using that p n assms(2-4)
    by (simp add: legacy_pass_def wait_for_data_def GetBytes_def EmitPayloadData_def Let_def p1_def q_def n_def [symmetric]
        data_copy_def [symmetric])
  have mode: "legacy_mode p1 = payload_mode (m - n)"
    using assms(2,3) p n by (auto simp: p1_def q_def legacy_mode_def payload_mode_def)
  have "legacy_inv p1"
    using assms(1-3) p n by (auto simp: p1_def q_def legacy_inv_def)
  moreover have "stream_run (take n reader) (legacy_stream p) =
      (map PayloadByte (take n reader), (legacy_stream p)\<lparr>ss_mode := payload_mode (m - n)\<rparr>)"
    using stream_run_payload [of "legacy_stream p" m "take n reader"] n assms(5) by (simp add: legacy_stream_mode)
  moreover have "(legacy_stream p)\<lparr>ss_mode := payload_mode (m - n)\<rparr> = legacy_stream p1"
    using mode by (simp add: legacy_stream_def) (simp add: p1_def q_def)
  ultimately have "pass_ok p reader n (map PayloadByte (take n reader)) p1" using n by (simp add: pass_ok_def)
  then show ?thesis using n mode pass by (intro exI [of _ n] exI [of _ p1]) auto
qed

subsection \<open>The contract of the callbacks\<close>

text \<open>
  \<open>ready n u\<close>: the user's data expects \<open>n\<close> more bytes of payload, or an event if \<open>n\<close> is \<open>0\<close>.  \<open>receive\<close> is what the
  callbacks do with what the stream contains.
\<close>

locale event_callbacks =
  fixes C :: "'u ParserCallbackInfo" and ready :: "nat \<Rightarrow> 'u \<Rightarrow> bool" and receive :: "stream_output list \<Rightarrow> 'u \<Rightarrow> 'u"
  assumes receive_Nil: "receive [] u = u"
    and receive_append: "receive (xs @ ys) u = receive ys (receive xs u)"
    and begins: "ready 0 u \<Longrightarrow> \<exists>f. pfnEventReceived C = Some f \<and> f info u = (Success, receive [EventBegins info] u) \<and>
      ready (unat (ei_totalPayloadSize info)) (receive [EventBegins info] u)"
    and piece: "ready n u \<Longrightarrow> bytes \<noteq> [] \<Longrightarrow> length bytes \<le> n \<Longrightarrow>
      \<exists>f. pfnPayloadData C = Some f \<and> f bytes u = (Success, receive (map PayloadByte bytes) u) \<and>
      ready (n - length bytes) (receive (map PayloadByte bytes) u)"

text \<open>The bytes of payload that the parser waits for.\<close>

definition bytes_due :: "stream_mode \<Rightarrow> nat" where
  "bytes_due mode = (case mode of Payload n \<Rightarrow> n | _ \<Rightarrow> 0)"

lemma bytes_due_payload_mode [simp]: "bytes_due (payload_mode n) = n"
  by (simp add: bytes_due_def payload_mode_def)

lemma bytes_due_Token [simp]: "bytes_due (Token t) = 0"
  by (simp add: bytes_due_def)

lemma stream_step_silent:
  "stream_step b S = ([], S1) \<Longrightarrow> bytes_due (ss_mode S) = 0 \<Longrightarrow> bytes_due (ss_mode S1) = 0"
  by (auto simp: stream_step_def token_step_def token_done_def bytes_due_def split: stream_mode.splits if_splits)

lemma stream_run_silent:
  "stream_run bs S = ([], S1) \<Longrightarrow> bytes_due (ss_mode S) = 0 \<Longrightarrow> bytes_due (ss_mode S1) = 0"
proof (induction bs arbitrary: S)
  case (Cons b bs)
  obtain S' where "stream_step b S = ([], S')" "stream_run bs S' = ([], S1)"
    using Cons.prems(1) by (auto simp: Let_def split: prod.splits)
  with Cons.IH stream_step_silent Cons.prems(2) show ?case by blast
qed simp

lemma pass_ok_silent:
  "pass_ok p reader n [] p1 \<Longrightarrow> bytes_due (legacy_mode p) = 0 \<Longrightarrow> bytes_due (legacy_mode p1) = 0"
  using stream_run_silent [of "take n reader" "legacy_stream p"] by (simp add: pass_ok_def legacy_stream_mode)

lemma stream_run_not_stuck:
  "ss_mode (snd (stream_run bs S)) \<noteq> Stuck \<Longrightarrow> ss_mode (snd (stream_run (take n bs) S)) \<noteq> Stuck"
  using stream_run_append [of "take n bs" "drop n bs" S] by (auto simp: stream_run_stuck)

context event_callbacks
begin

text \<open>What a pass does, callbacks included.\<close>

definition passes :: "LegacyEventParser \<Rightarrow> u8 list \<Rightarrow> 'u \<Rightarrow> bool" where
  "passes p reader u \<longleftrightarrow>
    (\<exists>n out p1. legacy_pass C p reader u = Some (Success, p1, drop n reader, receive out u) \<and> pass_ok p reader n out p1 \<and>
       ready (bytes_due (legacy_mode p1)) (receive out u))"

lemma passes_silent:
  assumes "legacy_pass C p reader u = Some (Success, p1, drop n reader, u)" "pass_ok p reader n [] p1"
    "bytes_due (legacy_mode p) = 0" "ready 0 u"
  shows "passes p reader u"
  unfolding passes_def using assms receive_Nil pass_ok_silent [OF assms(2,3)]
  by (intro exI [of _ n] exI [of _ "[]"] exI [of _ p1]) simp

lemma passes_token:
  assumes "in_legacy_token p reader" "ready 0 u" "ss_mode (snd (stream_run reader (legacy_stream p))) \<noteq> Stuck"
  shows "passes p reader u"
proof -
  have due: "bytes_due (legacy_mode p) = 0"
    using in_legacy_tokenD [OF assms(1)] by (simp add: legacy_mode_def)
  note c = in_legacy_token(3) [OF assms(1)]
  consider "lp_tokenBufferSize p + copy_size p reader < 1 + item_size (legacy_header p)"
    | "bits_id (legacy_header p) = EventTokenType_TimeDelta"
    | "lp_tokenBufferSize p + copy_size p reader = 1 + item_size (legacy_header p)"
      "bits_id (legacy_header p) = EventTokenType_Provider \<or> bits_id (legacy_header p) = EventTokenType_Timestamp"
    | "lp_tokenBufferSize p + copy_size p reader = 1 + item_size (legacy_header p)"
      "bits_id (legacy_header p) = EventTokenType_Data"
    using c bits_id_cases [of "legacy_header p"] in_legacy_tokenD(4) [OF assms(1)]
    by (auto simp: known_token_def le_less)
  then show ?thesis
  proof cases
    case 1
    from token_pass_partial [OF assms(1) this, where C = C and u = u] passes_silent [OF _ _ due assms(2)] show ?thesis by blast
  next
    case 2
    from token_pass_delta [OF assms(1) this stream_run_not_stuck [OF assms(3)], where C = C and u = u]
      passes_silent [OF _ _ due assms(2)]
    show ?thesis by blast
  next
    case 3
    from token_pass_plain [OF assms(1) this, where C = C and u = u] passes_silent [OF _ _ due assms(2)] show ?thesis by blast
  next
    case 4
    from token_pass_data [OF assms(1) this, where C = C and u = u] obtain info p1 where
      *: "pass_ok p reader (copy_size p reader) [EventBegins info] p1"
      "legacy_mode p1 = payload_mode (unat (ei_totalPayloadSize info))"
      "\<And>f u1. pfnEventReceived C = Some f \<Longrightarrow> f info u = (Success, u1) \<Longrightarrow>
         legacy_pass C p reader u = Some (Success, p1, drop (copy_size p reader) reader, u1)" by blast
    from begins [OF assms(2), of info] obtain f where
      f: "pfnEventReceived C = Some f" "f info u = (Success, receive [EventBegins info] u)"
      "ready (unat (ei_totalPayloadSize info)) (receive [EventBegins info] u)" by blast
    show ?thesis
      unfolding passes_def using *(1,2) *(3) [OF f(1,2)] f(3)
      by (intro exI [of _ "copy_size p reader"] exI [of _ "[EventBegins info]"] exI [of _ p1]) simp
  qed
qed

lemma passes_payload:
  assumes "legacy_inv p" "lp_dataState p = WaitingForPayload" "reader \<noteq> []" "ready (bytes_due (legacy_mode p)) u"
  shows "passes p reader u"
proof (cases "bits_id (legacy_header p) = EventTokenType_Data")
  case True
  then obtain m where m: "legacy_mode p = Payload m" using assms(2) by (simp add: legacy_mode_def)
  then have r: "ready m u" using assms(4) by (simp add: bytes_due_def)
  from data_pass [OF assms(1,2) True assms(3) m, where C = C and u = u] obtain n p1 where
    *: "pass_ok p reader n (map PayloadByte (take n reader)) p1" "n \<le> m" "legacy_mode p1 = payload_mode (m - n)"
    "\<And>f u1. pfnPayloadData C = Some f \<Longrightarrow> f (take n reader) u = (Success, u1) \<Longrightarrow>
       legacy_pass C p reader u = Some (Success, p1, drop n reader, u1)" by blast
  have n: "0 < n" "length (take n reader) = n" using *(1) by (simp_all add: pass_ok_def)
  then have "take n reader \<noteq> []" by auto
  from piece [OF r this] n *(2) obtain f where
    f: "pfnPayloadData C = Some f" "f (take n reader) u = (Success, receive (map PayloadByte (take n reader)) u)"
    "ready (m - n) (receive (map PayloadByte (take n reader)) u)" by auto
  show ?thesis
    unfolding passes_def using *(1,3) *(4) [OF f(1,2)] f(3)
    by (intro exI [of _ n] exI [of _ "map PayloadByte (take n reader)"] exI [of _ p1]) simp
next
  case False
  then have "in_legacy_delta p" using assms(1,2) by (auto simp: in_legacy_delta_def legacy_inv_def)
  from delta_pass [OF this assms(3), where C = C and u = u] obtain n p1 where
    "legacy_pass C p reader u = Some (Success, p1, drop n reader, u)" "pass_ok p reader n [] p1" by blast
  moreover have "bytes_due (legacy_mode p) = 0" using False assms(2) by (simp add: legacy_mode_def)
  ultimately show ?thesis using passes_silent assms(4) by simp
qed

lemma passes_all:
  assumes "legacy_inv p" "reader \<noteq> []" "ready (bytes_due (legacy_mode p)) u"
    "ss_mode (snd (stream_run reader (legacy_stream p))) \<noteq> Stuck"
  shows "passes p reader u"
proof (cases "lp_dataState p")
  case WaitingForHeader
  then have "bytes_due (legacy_mode p) = 0" by (simp add: legacy_mode_def)
  moreover from header_pass [OF assms(1) WaitingForHeader assms(2), where C = C and u = u] obtain p1 where
    "legacy_pass C p reader u = Some (Success, p1, drop 1 reader, u)" "pass_ok p reader 1 [] p1" by blast
  ultimately show ?thesis using passes_silent assms(3) by simp
next
  case WaitingForToken
  have "legacy_mode p \<noteq> Stuck" using assms(4) by (auto simp: stream_run_stuck legacy_stream_mode)
  then have "in_legacy_token p reader" "bytes_due (legacy_mode p) = 0"
    using WaitingForToken assms(1,2) by (auto simp: in_legacy_token_def legacy_mode_def split: if_splits)
  with passes_token assms(3,4) show ?thesis by simp
next
  case WaitingForPayload
  with passes_payload assms show ?thesis by blast
qed

text \<open>A stream on which the strict machine is not stuck is parsed to its end, in any pieces.\<close>

lemma Legacy_Parse_ok:
  assumes "legacy_inv p" "ready (bytes_due (legacy_mode p)) u"
    "ss_mode (snd (stream_run bytes (legacy_stream p))) \<noteq> Stuck"
  shows "\<exists>p1. Legacy_Parse C bytes p u = Some (Success, p1, receive (fst (stream_run bytes (legacy_stream p))) u) \<and>
    legacy_inv p1 \<and> legacy_stream p1 = snd (stream_run bytes (legacy_stream p)) \<and>
    ready (bytes_due (legacy_mode p1)) (receive (fst (stream_run bytes (legacy_stream p))) u)"
  unfolding Legacy_Parse_def using assms
proof (induction "length bytes" arbitrary: bytes p u rule: less_induct)
  case less
  show ?case
  proof (cases "bytes = []")
    case True
    with less.prems show ?thesis by (simp add: legacy_loop.simps receive_Nil)
  next
    case False
    from passes_all [OF less.prems(1) False less.prems(2,3)] obtain n out p1 where
      *: "legacy_pass C p bytes u = Some (Success, p1, drop n bytes, receive out u)" "pass_ok p bytes n out p1"
      "ready (bytes_due (legacy_mode p1)) (receive out u)"
      unfolding passes_def by blast
    have ok: "0 < n" "n \<le> length bytes" "legacy_inv p1" "stream_run (take n bytes) (legacy_stream p) = (out, legacy_stream p1)"
      using *(2) by (simp_all add: pass_ok_def)
    have run: "stream_run bytes (legacy_stream p) =
        (out @ fst (stream_run (drop n bytes) (legacy_stream p1)), snd (stream_run (drop n bytes) (legacy_stream p1)))"
      using stream_run_append [of "take n bytes" "drop n bytes" "legacy_stream p"] ok(4) by simp
    have step: "legacy_loop C p bytes u = legacy_loop C p1 (drop n bytes) (receive out u)"
      using False *(1) by (subst legacy_loop.simps) simp
    show ?thesis
      unfolding step run fst_conv snd_conv receive_append
      by (rule less.hyps) (use ok *(3) less.prems(3) run in auto)
  qed
qed

end

end
