(* ===== verification/Event_Streamer.thy ===== *)
theory Event_Streamer
  imports Legacy_Loop
begin

text \<open>
  The users of the older parser: the writer interface of \<^verbatim>\<open>ddEventParserCreate\<close>
  (\<^verbatim>\<open>apis/ddEvent/ddEventParser/src/ddEventParser.cpp\<close>, \<^verbatim>\<open>eventParser.cpp\<close>), and the streamer of
  \<^verbatim>\<open>apis/ddEvent/ddEventStreamer/src/eventStreamer.cpp\<close>, which collects the payload and hands whole events to
  the callback of the tool.  The interpretation of \<open>event_callbacks\<close> for it gives that every event arrives
  complete, however the network cuts the stream.
\<close>

subsection \<open>Result codes of the interfaces\<close>

text \<open>The codes of \<^verbatim>\<open>shared/ddApi/inc/ddApi.h\<close> are 32-bit integers in sections.\<close>

type_synonym DD_RESULT = "32 word"

definition DD_R_CODE :: "DD_RESULT \<Rightarrow> DD_RESULT \<Rightarrow> DD_RESULT" where
  "DD_R_CODE section_start code = section_start + code"

definition DD_RESULT_UNKNOWN :: DD_RESULT where "DD_RESULT_UNKNOWN = 0"
definition DD_RESULT_SUCCESS :: DD_RESULT where "DD_RESULT_SUCCESS = 1"
definition DD_RESULT_COMMON_START :: DD_RESULT where "DD_RESULT_COMMON_START = 10"
definition DD_RESULT_DD_GENERIC_START :: DD_RESULT where "DD_RESULT_DD_GENERIC_START = 10100"
definition DD_RESULT_DD_URI_START :: DD_RESULT where "DD_RESULT_DD_URI_START = 10200"

definition DD_RESULT_COMMON_INVALID_PARAMETER :: DD_RESULT where
  "DD_RESULT_COMMON_INVALID_PARAMETER = DD_R_CODE DD_RESULT_COMMON_START 2"
definition DD_RESULT_DD_GENERIC_NOT_READY :: DD_RESULT where
  "DD_RESULT_DD_GENERIC_NOT_READY = DD_R_CODE DD_RESULT_DD_GENERIC_START 2"
definition DD_RESULT_DD_GENERIC_END_OF_STREAM :: DD_RESULT where
  "DD_RESULT_DD_GENERIC_END_OF_STREAM = DD_R_CODE DD_RESULT_DD_GENERIC_START 6"

text \<open>What is not named here has no code of its own: the results of settings and of the info service.\<close>

definition DevDriverToDDResult :: "Result \<Rightarrow> DD_RESULT" where
  "DevDriverToDDResult result =
    (let generic = DD_R_CODE DD_RESULT_DD_GENERIC_START; uri = DD_R_CODE DD_RESULT_DD_URI_START in
     case result of
       Success \<Rightarrow> DD_RESULT_SUCCESS | Error \<Rightarrow> DD_RESULT_UNKNOWN | NotReady \<Rightarrow> generic 2 | VersionMismatch \<Rightarrow> generic 3
     | Unavailable \<Rightarrow> generic 4 | Rejected \<Rightarrow> generic 5 | EndOfStream \<Rightarrow> generic 6 | Aborted \<Rightarrow> generic 7
     | InsufficientMemory \<Rightarrow> generic 8 | InvalidParameter \<Rightarrow> generic 9 | InvalidClientId \<Rightarrow> generic 10
     | ConnectionExists \<Rightarrow> generic 11 | FileNotFound \<Rightarrow> generic 12 | FunctionNotFound \<Rightarrow> generic 13
     | InterfaceNotFound \<Rightarrow> generic 14 | EntryExists \<Rightarrow> generic 15 | FileAccessError \<Rightarrow> generic 16
     | FileIoError \<Rightarrow> generic 17 | LimitReached \<Rightarrow> generic 18 | MemoryOverLimit \<Rightarrow> generic 8
     | UriServiceRegistrationError \<Rightarrow> uri 1 | UriStringParseError \<Rightarrow> uri 2 | UriInvalidParameters \<Rightarrow> uri 3
     | UriInvalidPostDataBlock \<Rightarrow> uri 4 | UriInvalidPostDataSize \<Rightarrow> uri 5 | UriFailedToAcquirePostBlock \<Rightarrow> uri 6
     | UriFailedToOpenResponseBlock \<Rightarrow> uri 7 | UriRequestFailed \<Rightarrow> uri 8 | UriPendingRequestError \<Rightarrow> uri 9
     | UriInvalidChar \<Rightarrow> uri 10 | UriInvalidJson \<Rightarrow> uri 11
     | _ \<Rightarrow> DD_RESULT_UNKNOWN)"

lemma DevDriverToDDResult_SUCCESS: "DevDriverToDDResult r = DD_RESULT_SUCCESS \<longleftrightarrow> r = Success"
  by (cases r) (simp_all add: DevDriverToDDResult_def Let_def DD_R_CODE_def DD_RESULT_SUCCESS_def DD_RESULT_UNKNOWN_def
      DD_RESULT_DD_GENERIC_START_def DD_RESULT_DD_URI_START_def)

subsection \<open>The writer interface\<close>

text \<open>\<^verbatim>\<open>DDEventWriter\<close>: three functions on the user's data.\<close>

record 'w DDEventWriter =
  pfnBegin :: "DDEventParserEventInfo \<Rightarrow> u64 \<Rightarrow> 'w \<Rightarrow> DD_RESULT \<times> 'w"
  pfnWritePayloadChunk :: "DDEventParserEventInfo \<Rightarrow> u8 list \<Rightarrow> 'w \<Rightarrow> DD_RESULT \<times> 'w"
  pfnEnd :: "DDEventParserEventInfo \<Rightarrow> DD_RESULT \<Rightarrow> 'w \<Rightarrow> DD_RESULT \<times> 'w"

text \<open>The part of \<^verbatim>\<open>Event::EventParser\<close> that drives it; the constructor does not initialise \<^verbatim>\<open>m_eventInfo\<close>.\<close>

record 'w WriterState =
  ws_eventInfo :: DDEventParserEventInfo
  ws_isReadingPayload :: bool
  ws_payloadBytesRemaining :: u64
  ws_user :: 'w

definition new_WriterState :: "DDEventParserEventInfo \<Rightarrow> 'w \<Rightarrow> 'w WriterState" where
  "new_WriterState garbage user =
    \<lparr>ws_eventInfo = garbage, ws_isReadingPayload = False, ws_payloadBytesRemaining = 0, ws_user = user\<rparr>"

text \<open>\<^verbatim>\<open>m_eventInfo.totalPayloadSize\<close> is not assigned.\<close>

definition taken_info :: "DDEventParserEventInfo \<Rightarrow> DDEventParserEventInfo \<Rightarrow> DDEventParserEventInfo" where
  "taken_info info old = info\<lparr>ei_totalPayloadSize := ei_totalPayloadSize old\<rparr>"

definition Writer_EventReceived ::
  "'w DDEventWriter \<Rightarrow> DDEventParserEventInfo \<Rightarrow> 'w WriterState \<Rightarrow> Result \<times> 'w WriterState" where
  "Writer_EventReceived W eventInfo S =
    (if ws_isReadingPayload S then (Error, S)
     else
       (let info = taken_info eventInfo (ws_eventInfo S);
            (begun, user) = pfnBegin W info (ei_totalPayloadSize eventInfo) (ws_user S);
            S1 = S\<lparr>ws_eventInfo := info, ws_user := user\<rparr>
        in
        if begun = DD_RESULT_SUCCESS then
          (if ei_totalPayloadSize eventInfo > 0 then
             (Success, S1\<lparr>ws_isReadingPayload := True, ws_payloadBytesRemaining := ei_totalPayloadSize eventInfo\<rparr>)
           else
             (let (ended, user2) = pfnEnd W info DD_RESULT_SUCCESS user
              in (if ended = DD_RESULT_SUCCESS then Success else Error, S1\<lparr>ws_user := user2\<rparr>)))
        else (Error, S1)))"

definition Writer_PayloadData :: "'w DDEventWriter \<Rightarrow> u8 list \<Rightarrow> 'w WriterState \<Rightarrow> Result \<times> 'w WriterState" where
  "Writer_PayloadData W pData S =
    (if ws_isReadingPayload S \<and> unat (ws_payloadBytesRemaining S) \<ge> length pData then
       (let (writeResult, user) = pfnWritePayloadChunk W (ws_eventInfo S) pData (ws_user S);
            S1 = S\<lparr>ws_user := user\<rparr>
        in
        if writeResult = DD_RESULT_SUCCESS then
          (let S2 = S1\<lparr>ws_payloadBytesRemaining := ws_payloadBytesRemaining S1 - word_of_nat (length pData)\<rparr> in
           if ws_payloadBytesRemaining S2 = 0 then
             (let (ended, user2) = pfnEnd W (ws_eventInfo S2) DD_RESULT_SUCCESS user
              in (if ended = DD_RESULT_SUCCESS then Success else Error, S2\<lparr>ws_isReadingPayload := False, ws_user := user2\<rparr>))
           else (Success, S2))
        else (Error, S1\<lparr>ws_user := snd (pfnEnd W (ws_eventInfo S1) writeResult user)\<rparr>))
     else (Error, S))"

text \<open>The constructor hands both to the older parser; \<^verbatim>\<open>ddEventParserParse\<close> refuses an empty buffer.\<close>

definition writer_callbacks :: "'w DDEventWriter \<Rightarrow> 'w WriterState ParserCallbackInfo" where
  "writer_callbacks W =
    \<lparr>pfnEventReceived = Some (Writer_EventReceived W), pfnPayloadData = Some (Writer_PayloadData W)\<rparr>"

definition ddEventParserParse ::
  "'w DDEventWriter \<Rightarrow> u8 list \<Rightarrow> LegacyEventParser \<times> 'w WriterState \<Rightarrow> (DD_RESULT \<times> LegacyEventParser \<times> 'w WriterState) option" where
  "ddEventParserParse W pData P =
    (if pData = [] then Some (DD_RESULT_COMMON_INVALID_PARAMETER, P)
     else
       (case Legacy_Parse (writer_callbacks W) pData (fst P) (snd P) of
          None \<Rightarrow> None
        | Some (result, p, S) \<Rightarrow> Some (DevDriverToDDResult result, p, S)))"

subsection \<open>The streamer\<close>

text \<open>The callback of the tool gets the event, its payload and the result; it works on the tool's data.\<close>

type_synonym 'd StreamerCallback = "DDEventParserEventInfo \<Rightarrow> u8 list \<Rightarrow> DD_RESULT \<Rightarrow> 'd \<Rightarrow> 'd"

record 'd EventStreamer =
  es_eventPayloadBuffer :: "u8 list"
  es_eventCb :: "'d StreamerCallback option"
  es_userdata :: 'd
  es_exitRequested :: bool
  es_encounteredErrors :: bool

definition new_EventStreamer :: "'d StreamerCallback option \<Rightarrow> 'd \<Rightarrow> 'd EventStreamer" where
  "new_EventStreamer eventCb d =
    \<lparr>es_eventPayloadBuffer = [], es_eventCb = eventCb, es_userdata = d, es_exitRequested = False, es_encounteredErrors = False\<rparr>"

definition SetEventCallback :: "'d StreamerCallback option \<Rightarrow> 'd EventStreamer \<Rightarrow> 'd EventStreamer" where
  "SetEventCallback eventCb E = E\<lparr>es_eventCb := eventCb\<rparr>"

text \<open>Reserving space has no effect on the contents; an allocation that fails is not handled by \<^verbatim>\<open>Vector\<close>.\<close>

definition ParserOnBegin :: "DDEventParserEventInfo \<Rightarrow> u64 \<Rightarrow> 'd EventStreamer \<Rightarrow> DD_RESULT \<times> 'd EventStreamer" where
  "ParserOnBegin eventInfo totalPayloadSize E = (DD_RESULT_SUCCESS, E)"

definition ParserOnWritePayloadChunk :: "DDEventParserEventInfo \<Rightarrow> u8 list \<Rightarrow> 'd EventStreamer \<Rightarrow> DD_RESULT \<times> 'd EventStreamer" where
  "ParserOnWritePayloadChunk eventInfo pData E =
    (DD_RESULT_SUCCESS, E\<lparr>es_eventPayloadBuffer := es_eventPayloadBuffer E @ pData\<rparr>)"

definition ParserOnEnd :: "DDEventParserEventInfo \<Rightarrow> DD_RESULT \<Rightarrow> 'd EventStreamer \<Rightarrow> DD_RESULT \<times> 'd EventStreamer" where
  "ParserOnEnd eventInfo finalResult E =
    (let E1 = (case es_eventCb E of
                 Some callback \<Rightarrow>
                   if finalResult = DD_RESULT_SUCCESS
                   then E\<lparr>es_userdata := callback eventInfo (es_eventPayloadBuffer E) finalResult (es_userdata E)\<rparr> else E
               | None \<Rightarrow> E)
     in (finalResult, E1\<lparr>es_eventPayloadBuffer := []\<rparr>))"

definition streamer_writer :: "'d EventStreamer DDEventWriter" where
  "streamer_writer = \<lparr>pfnBegin = ParserOnBegin, pfnWritePayloadChunk = ParserOnWritePayloadChunk, pfnEnd = ParserOnEnd\<rparr>"

text \<open>The parser and the writer's state with the streamer in it.\<close>

type_synonym 'd streaming = "LegacyEventParser \<times> 'd EventStreamer WriterState"

definition update_streamer :: "('d EventStreamer \<Rightarrow> 'd EventStreamer) \<Rightarrow> 'd streaming \<Rightarrow> 'd streaming" where
  "update_streamer f P = (fst P, (snd P)\<lparr>ws_user := f (ws_user (snd P))\<rparr>)"

definition Streamer_OnEventData :: "u8 list \<Rightarrow> 'd streaming \<Rightarrow> 'd streaming option" where
  "Streamer_OnEventData pData P =
    (case ddEventParserParse streamer_writer pData P of
       None \<Rightarrow> None
     | Some (result, P1) \<Rightarrow>
         Some (if result \<noteq> DD_RESULT_SUCCESS then update_streamer (\<lambda>E. E\<lparr>es_encounteredErrors := True\<rparr>) P1 else P1))"

fun Streamer_OnEventBuffers :: "u8 list list \<Rightarrow> 'd streaming \<Rightarrow> 'd streaming option" where
  "Streamer_OnEventBuffers [] P = Some P"
| "Streamer_OnEventBuffers (b # bs) P = Option.bind (Streamer_OnEventData b P) (Streamer_OnEventBuffers bs)"

text \<open>
  The receiving thread: \<open>reads\<close> is what the calls of \<^verbatim>\<open>ddEventClientReadEventData\<close> do one after the other, the
  buffers each delivers to \<^verbatim>\<open>OnEventData\<close> and its result; at the end of the list the streamer is told to exit.
\<close>

fun EventReceiveThreadFunc :: "(u8 list list \<times> DD_RESULT) list \<Rightarrow> 'd streaming \<Rightarrow> 'd streaming option" where
  "EventReceiveThreadFunc [] P = Some (update_streamer (\<lambda>E. E\<lparr>es_exitRequested := True\<rparr>) P)"
| "EventReceiveThreadFunc ((buffers, result) # reads) P =
    (if es_exitRequested (ws_user (snd P)) \<or> es_encounteredErrors (ws_user (snd P)) then Some P
     else
       Option.bind (Streamer_OnEventBuffers buffers P) (\<lambda>P1.
         if result = DD_RESULT_SUCCESS \<or> result = DD_RESULT_DD_GENERIC_NOT_READY then EventReceiveThreadFunc reads P1
         else if result = DD_RESULT_DD_GENERIC_END_OF_STREAM then Some P1
         else Some (update_streamer (\<lambda>E. E\<lparr>es_encounteredErrors := True\<rparr>) P1)))"

subsection \<open>The contract of the older parser, met by the streamer\<close>

fun streamer_output :: "stream_output \<Rightarrow> 'd EventStreamer WriterState \<Rightarrow> 'd EventStreamer WriterState" where
  "streamer_output (EventBegins info) S = snd (Writer_EventReceived streamer_writer info S)"
| "streamer_output (PayloadByte b) S = snd (Writer_PayloadData streamer_writer [b] S)"

definition streamer_receive :: "stream_output list \<Rightarrow> 'd EventStreamer WriterState \<Rightarrow> 'd EventStreamer WriterState" where
  "streamer_receive outs S = fold streamer_output outs S"

definition streamer_ready :: "nat \<Rightarrow> 'd EventStreamer WriterState \<Rightarrow> bool" where
  "streamer_ready n S \<longleftrightarrow>
    (if n = 0 then \<not> ws_isReadingPayload S else ws_isReadingPayload S \<and> unat (ws_payloadBytesRemaining S) = n)"

lemma streamer_writer_simps [simp]:
  "pfnBegin streamer_writer info n E = (DD_RESULT_SUCCESS, E)"
  "pfnWritePayloadChunk streamer_writer info pData E = (DD_RESULT_SUCCESS, E\<lparr>es_eventPayloadBuffer := es_eventPayloadBuffer E @ pData\<rparr>)"
  "fst (pfnEnd streamer_writer info r E) = r"
  by (simp_all add: streamer_writer_def ParserOnBegin_def ParserOnWritePayloadChunk_def ParserOnEnd_def Let_def)

lemma Writer_EventReceived_ready:
  assumes "streamer_ready 0 S"
  shows "fst (Writer_EventReceived streamer_writer info S) = Success"
    "streamer_ready (unat (ei_totalPayloadSize info)) (snd (Writer_EventReceived streamer_writer info S))"
  using assms
  by (auto simp: Writer_EventReceived_def streamer_ready_def case_prod_unfold Let_def unat_eq_0 word_neq_0_conv [symmetric])

lemma unat_minus_of_nat:
  assumes "n \<le> unat (x :: u64)"
  shows "unat (x - word_of_nat n) = unat x - n"
proof -
  have "unat x < 2 ^ LENGTH(64)" by (rule unsigned_less)
  with assms have "n < 2 ^ 64" by simp
  then have "unat (word_of_nat n :: u64) = n" by (simp add: unat_of_nat)
  with assms show ?thesis by (simp add: unat_minus_le word_le_nat_alt)
qed

lemma Writer_PayloadData_ready:
  assumes "streamer_ready n S" "bytes \<noteq> []" "length bytes \<le> n"
  shows "fst (Writer_PayloadData streamer_writer bytes S) = Success"
    "streamer_ready (n - length bytes) (snd (Writer_PayloadData streamer_writer bytes S))"
  using assms unat_minus_of_nat [of "length bytes" "ws_payloadBytesRemaining S"]
  by (auto simp: Writer_PayloadData_def streamer_ready_def case_prod_unfold Let_def unat_eq_0 split: if_splits)

text \<open>A piece of payload is the same as its bytes one by one.\<close>

lemma Writer_PayloadData_Cons:
  assumes "streamer_ready n S" "bs \<noteq> []" "length (b # bs) \<le> n"
  shows "Writer_PayloadData streamer_writer (b # bs) S =
    Writer_PayloadData streamer_writer bs (snd (Writer_PayloadData streamer_writer [b] S))"
proof -
  let ?r = "ws_payloadBytesRemaining S"
  have r: "ws_isReadingPayload S" "unat ?r = n" "0 < length bs" using assms by (auto simp: streamer_ready_def split: if_splits)
  have 1: "unat (?r - 1) = n - 1" using unat_minus_of_nat [of 1 ?r] r assms(3) by simp
  moreover have "0 < n - 1" using assms(3) r(3) unfolding length_Cons by linarith
  ultimately have 2: "?r - 1 \<noteq> 0" by (metis unat_0 less_numeral_extra(3))
  have 3: "?r - 1 - word_of_nat (length bs) = ?r - word_of_nat (length (b # bs))" by (simp add: algebra_simps)
  show ?thesis
    using r 1 2 assms(3) by (simp add: Writer_PayloadData_def case_prod_unfold Let_def 3)
qed

lemma streamer_receive_payload:
  "bytes \<noteq> [] \<Longrightarrow> streamer_ready n S \<Longrightarrow> length bytes \<le> n \<Longrightarrow>
   streamer_receive (map PayloadByte bytes) S = snd (Writer_PayloadData streamer_writer bytes S)"
proof (induction bytes arbitrary: n S)
  case (Cons b bs)
  show ?case
  proof (cases "bs = []")
    case False
    note s = Writer_PayloadData_ready(2) [OF Cons.prems(2), of "[b]"]
    then have "streamer_ready (n - 1) (snd (Writer_PayloadData streamer_writer [b] S))" using Cons.prems(3) by simp
    from Cons.IH [OF False this] Cons.prems(3) have
      "streamer_receive (map PayloadByte bs) (snd (Writer_PayloadData streamer_writer [b] S)) =
       snd (Writer_PayloadData streamer_writer bs (snd (Writer_PayloadData streamer_writer [b] S)))" by simp
    with Writer_PayloadData_Cons [OF Cons.prems(2) False Cons.prems(3)] show ?thesis
      by (simp add: streamer_receive_def)
  qed (simp add: streamer_receive_def)
qed simp

interpretation streamer: event_callbacks "writer_callbacks streamer_writer" streamer_ready streamer_receive
proof (unfold_locales, goal_cases)
  case (3 u info)
  then show ?case
    using Writer_EventReceived_ready [OF 3, of info]
    by (simp add: writer_callbacks_def streamer_receive_def prod_eq_iff)
next
  case (4 n u bytes)
  then show ?case
    using Writer_PayloadData_ready [OF 4] streamer_receive_payload [OF 4(2) 4(1) 4(3)]
    by (simp add: writer_callbacks_def prod_eq_iff)
qed (simp_all add: streamer_receive_def)

text \<open>The parser and the writer agree on the payload that is due.\<close>

definition streaming_inv :: "'d streaming \<Rightarrow> bool" where
  "streaming_inv P \<longleftrightarrow> legacy_inv (fst P) \<and> streamer_ready (bytes_due (legacy_mode (fst P))) (snd P)"

lemma Streamer_OnEventData_ok:
  assumes "streaming_inv P" "pData \<noteq> []" "ss_mode (snd (stream_run pData (legacy_stream (fst P)))) \<noteq> Stuck"
  shows "\<exists>P1. Streamer_OnEventData pData P = Some P1 \<and> streaming_inv P1 \<and>
    legacy_stream (fst P1) = snd (stream_run pData (legacy_stream (fst P))) \<and>
    snd P1 = streamer_receive (fst (stream_run pData (legacy_stream (fst P)))) (snd P)"
proof -
  from streamer.Legacy_Parse_ok [of "fst P" "snd P" pData] assms obtain p1 where
    "Legacy_Parse (writer_callbacks streamer_writer) pData (fst P) (snd P) =
       Some (Success, p1, streamer_receive (fst (stream_run pData (legacy_stream (fst P)))) (snd P))"
    "legacy_inv p1" "legacy_stream p1 = snd (stream_run pData (legacy_stream (fst P)))"
    "streamer_ready (bytes_due (legacy_mode p1)) (streamer_receive (fst (stream_run pData (legacy_stream (fst P)))) (snd P))"
    unfolding streaming_inv_def by blast
  with assms(2) show ?thesis
    by (simp add: Streamer_OnEventData_def ddEventParserParse_def DevDriverToDDResult_SUCCESS streaming_inv_def)
qed

lemma Streamer_OnEventBuffers_ok:
  "streaming_inv P \<Longrightarrow> [] \<notin> set bss \<Longrightarrow> ss_mode (snd (stream_run (concat bss) (legacy_stream (fst P)))) \<noteq> Stuck \<Longrightarrow>
   \<exists>P1. Streamer_OnEventBuffers bss P = Some P1 \<and> streaming_inv P1 \<and>
     legacy_stream (fst P1) = snd (stream_run (concat bss) (legacy_stream (fst P))) \<and>
     snd P1 = streamer_receive (fst (stream_run (concat bss) (legacy_stream (fst P)))) (snd P)"
proof (induction bss arbitrary: P)
  case (Cons b bss)
  have "ss_mode (snd (stream_run b (legacy_stream (fst P)))) \<noteq> Stuck"
    using Cons.prems(3) stream_run_stuck [of "snd (stream_run b (legacy_stream (fst P)))"] by (auto simp: stream_run_append)
  from Streamer_OnEventData_ok [OF Cons.prems(1) _ this] Cons.prems(2) obtain P1 where
    P1: "Streamer_OnEventData b P = Some P1" "streaming_inv P1" "legacy_stream (fst P1) = snd (stream_run b (legacy_stream (fst P)))"
      "snd P1 = streamer_receive (fst (stream_run b (legacy_stream (fst P)))) (snd P)" by fastforce
  with Cons.IH [OF P1(2)] Cons.prems show ?case
    by (simp add: stream_run_append streamer.receive_append)
qed (simp add: streamer.receive_Nil)

subsection \<open>Whole events\<close>

text \<open>The outputs of whole events, and what the callback of the tool makes of them.\<close>

type_synonym event = "DDEventParserEventInfo \<times> u8 list"

fun event_output :: "event \<Rightarrow> stream_output list" where
  "event_output (info, bytes) = EventBegins info # map PayloadByte bytes"

definition event_outputs :: "event list \<Rightarrow> stream_output list" where
  "event_outputs evs = concat (map event_output evs)"

definition complete_event :: "event \<Rightarrow> bool" where
  "complete_event ev \<longleftrightarrow> unat (ei_totalPayloadSize (fst ev)) = length (snd ev)"

definition called_back :: "'d StreamerCallback \<Rightarrow> DDEventParserEventInfo \<Rightarrow> event \<Rightarrow> 'd \<Rightarrow> 'd" where
  "called_back callback old ev d = callback (taken_info (fst ev) old) (snd ev) DD_RESULT_SUCCESS d"

definition streamer_idle :: "'d StreamerCallback \<Rightarrow> DDEventParserEventInfo \<Rightarrow> 'd \<Rightarrow> 'd EventStreamer WriterState \<Rightarrow> bool" where
  "streamer_idle callback old d S \<longleftrightarrow> \<not> ws_isReadingPayload S \<and> ei_totalPayloadSize (ws_eventInfo S) = ei_totalPayloadSize old \<and>
    es_eventCb (ws_user S) = Some callback \<and> es_eventPayloadBuffer (ws_user S) = [] \<and> es_userdata (ws_user S) = d \<and>
    \<not> es_encounteredErrors (ws_user S)"

lemma streamer_receive_event:
  assumes "streamer_idle callback old d S" "complete_event ev"
  shows "streamer_idle callback old (called_back callback old ev d) (streamer_receive (event_output ev) S)"
proof -
  obtain info bytes where ev: "ev = (info, bytes)" by (cases ev)
  let ?S1 = "snd (Writer_EventReceived streamer_writer info S)"
  have ready: "streamer_ready 0 S" using assms(1) by (simp add: streamer_idle_def streamer_ready_def)
  have size: "unat (ei_totalPayloadSize info) = length bytes" using assms(2) by (simp add: complete_event_def ev)
  show ?thesis
  proof (cases "bytes = []")
    case True
    with size assms(1) show ?thesis
      by (simp add: ev streamer_receive_def unat_eq_0 Writer_EventReceived_def streamer_idle_def case_prod_unfold Let_def
          called_back_def streamer_writer_def ParserOnBegin_def ParserOnEnd_def taken_info_def)
  next
    case False
    from Writer_EventReceived_ready(2) [OF ready] size have "streamer_ready (length bytes) ?S1" by metis
    from streamer_receive_payload [OF False this] have
      "streamer_receive (event_output ev) S = snd (Writer_PayloadData streamer_writer bytes ?S1)"
      by (simp add: ev streamer_receive_def)
    moreover have "ei_totalPayloadSize info > 0"
      using size False by (metis length_greater_0_conv unat_gt_0 word_neq_0_conv)
    moreover have "ei_totalPayloadSize info - word_of_nat (length bytes) = 0" by (simp add: size [symmetric])
    ultimately show ?thesis
      using assms(1) size
      by (simp add: ev Writer_EventReceived_def Writer_PayloadData_def streamer_idle_def case_prod_unfold Let_def
          called_back_def streamer_writer_def ParserOnBegin_def ParserOnWritePayloadChunk_def ParserOnEnd_def taken_info_def)
  qed
qed

lemma streamer_receive_events:
  "streamer_idle callback old d S \<Longrightarrow> (\<And>ev. ev \<in> set evs \<Longrightarrow> complete_event ev) \<Longrightarrow>
   streamer_idle callback old (fold (called_back callback old) evs d) (streamer_receive (event_outputs evs) S)"
proof (induction evs arbitrary: d S)
  case (Cons ev evs)
  then have "streamer_idle callback old (called_back callback old ev d) (streamer_receive (event_output ev) S)"
    by (intro streamer_receive_event) simp_all
  from Cons.IH [OF this] Cons.prems(2) show ?case by (simp add: event_outputs_def streamer.receive_append)
qed (simp add: event_outputs_def streamer.receive_Nil)

definition new_streaming :: "u8 list \<Rightarrow> DDEventParserEventInfo \<Rightarrow> 'd StreamerCallback \<Rightarrow> 'd \<Rightarrow> 'd streaming" where
  "new_streaming garbage old callback d = (new_LegacyEventParser garbage, new_WriterState old (new_EventStreamer (Some callback) d))"

lemma new_streaming_inv: "streaming_inv (new_streaming garbage old callback d)"
  using new_LegacyEventParser_inv [of garbage]
  by (simp add: streaming_inv_def new_streaming_def streamer_ready_def new_WriterState_def)
    (simp add: legacy_mode_def new_LegacyEventParser_def)

lemma streamer_delivers:
  assumes "[] \<notin> set bss" "ss_mode (snd (stream_run (concat bss) new_strict_stream)) \<noteq> Stuck"
    "fst (stream_run (concat bss) new_strict_stream) = event_outputs evs" "\<And>ev. ev \<in> set evs \<Longrightarrow> complete_event ev"
  shows "\<exists>P. Streamer_OnEventBuffers bss (new_streaming garbage old callback d) = Some P \<and>
    streamer_idle callback old (fold (called_back callback old) evs d) (snd P)"
proof -
  let ?P = "new_streaming garbage old callback d"
  have "legacy_stream (fst ?P) = new_strict_stream" by (simp add: new_streaming_def new_LegacyEventParser_stream)
  with Streamer_OnEventBuffers_ok [OF new_streaming_inv assms(1)] assms(2,3) obtain P where
    P: "Streamer_OnEventBuffers bss ?P = Some P" "snd P = streamer_receive (event_outputs evs) (snd ?P)" by metis
  moreover have "streamer_idle callback old d (snd ?P)"
    by (simp add: new_streaming_def new_WriterState_def new_EventStreamer_def streamer_idle_def)
  ultimately show ?thesis using streamer_receive_events [OF _ assms(4)] by metis
qed

end
