(* ===== verification/Event_Session.thy ===== *)
theory Event_Session
  imports Event_Tokens
begin

text \<open>
  The server's end of an event session as it moves event data: the chunks it lends to the provider, the queue of
  chunks to send, and the messages to the client (class \<^verbatim>\<open>EventServerSession\<close> of
  \<^verbatim>\<open>shared/legacy/src/protocols/ddEventServerSession.cpp\<close>).  \<^verbatim>\<open>Vector::PushBack\<close> does not fail here; what
  allocating a chunk gives is a parameter.  \<open>None\<close> is a use of a pointer to no chunk.
\<close>

subsection \<open>Messages with event data\<close>

abbreviation (input) EventMessage_EventDataUpdate :: u8 where "EventMessage_EventDataUpdate \<equiv> 7"

definition sizeof_EventHeader :: nat where "sizeof_EventHeader = 4"

definition kMaxEventDataSize :: nat where "kMaxEventDataSize = kMaxPayloadSizeInBytes - sizeof_EventHeader"

lemma kMaxEventDataSize_eq: "kMaxEventDataSize = kMaxPayloadSizeInBytes - 4" "0 < kMaxEventDataSize"
    "kMaxEventDataSize < 65536" "4 + kMaxEventDataSize = kMaxPayloadSizeInBytes" "kMaxPayloadSizeInBytes < 65536"
  by (simp_all add: kMaxEventDataSize_def sizeof_EventHeader_def msg_size_defs)

definition EventHeader :: "u8 \<Rightarrow> u16 \<Rightarrow> u8 list" where
  "EventHeader messageCode eventDataSize = [messageCode, 0] @ put_word 2 eventDataSize"

text \<open>
  \<^verbatim>\<open>CreatePayload<EventDataUpdatePayload>\<close>: the structure has the largest size whatever it carries; its data
  beyond what is copied is what the buffer held before.
\<close>

definition EventDataUpdatePayload :: "u8 list \<Rightarrow> SizedPayloadContainer \<Rightarrow> SizedPayloadContainer" where
  "EventDataUpdatePayload pEventData c =
    (let clampedEventDataSize = min (length pEventData) kMaxEventDataSize;
         bytes = EventHeader EventMessage_EventDataUpdate (word_of_nat clampedEventDataSize) @ take clampedEventDataSize pEventData
     in \<lparr>pc_payloadSize = word_of_nat kMaxPayloadSizeInBytes, pc_payload = memcpy (length bytes) (pc_payload c) bytes\<rparr>)"

subsection \<open>State\<close>

datatype EventSessionState = ReceivePayload | ProcessPayload | SendPayload

text \<open>
  The memory of the chunks with the next address; whether an allocation at an address succeeds is up to
  \<open>allocates\<close>.  The update block is a pointer to a block of the transfer manager.  The constructor does not
  initialise \<^verbatim>\<open>m_nextTrimTime\<close>.
\<close>

record EventServerSession =
  sv_memory :: ChunkMemory
  sv_nextAddress :: nat
  sv_allocates :: "nat \<Rightarrow> bool"
  sv_eventChunkPool :: "nat list"
  sv_eventChunkQueue :: "nat list"
  sv_pChunk :: "nat option"
  sv_bytesSent :: nat
  sv_eventPayloadContainer :: SizedPayloadContainer
  sv_eventPayloadPending :: bool
  sv_pSession :: ISession
  sv_nextTrimTime :: u64
  sv_sessionId :: SessionId
  sv_payloadContainer :: SizedPayloadContainer
  sv_state :: EventSessionState
  sv_pUpdateBlock :: "nat option"
  sv_assignedProviderId :: EventProviderId

definition new_EventServerSession :: "(nat \<Rightarrow> bool) \<Rightarrow> SessionId \<Rightarrow> ISession \<Rightarrow> u64 \<Rightarrow> EventServerSession" where
  "new_EventServerSession allocates sid pSession garbage =
    \<lparr>sv_memory = Map.empty, sv_nextAddress = 0, sv_allocates = allocates, sv_eventChunkPool = [], sv_eventChunkQueue = [],
     sv_pChunk = None, sv_bytesSent = 0, sv_eventPayloadContainer = new_SizedPayloadContainer,
     sv_eventPayloadPending = False, sv_pSession = pSession, sv_nextTrimTime = garbage, sv_sessionId = sid,
     sv_payloadContainer = new_SizedPayloadContainer, sv_state = ReceivePayload, sv_pUpdateBlock = None, sv_assignedProviderId = 0\<rparr>"

definition kTargetAllocatedChunks :: nat where "kTargetAllocatedChunks = 4 * 1024 * 1024 div (kEventChunkMaxDataSize + 4)"
definition kTrimFrequencyInMs :: u64 where "kTrimFrequencyInMs = 16"
definition kMaxChunksPerTrim :: nat where "kMaxChunksPerTrim = 16"

subsection \<open>Chunks\<close>

definition IsTargetMemoryUsageExceeded :: "EventServerSession \<Rightarrow> bool" where
  "IsTargetMemoryUsageExceeded S \<longleftrightarrow> length (sv_eventChunkPool S) > kTargetAllocatedChunks"

definition free_memory :: "nat \<Rightarrow> EventServerSession \<Rightarrow> EventServerSession" where
  "free_memory pChunk S = S\<lparr>sv_memory := (sv_memory S)(pChunk := None)\<rparr>"

definition Session_AllocateEventChunk :: "EventServerSession \<Rightarrow> (Result \<times> nat \<times> EventServerSession) option" where
  "Session_AllocateEventChunk S =
    (if sv_eventChunkPool S \<noteq> [] then
       (let pChunk = last (sv_eventChunkPool S) in
        if sv_memory S pChunk = None then None
        else Some (Success, pChunk, S\<lparr>sv_eventChunkPool := butlast (sv_eventChunkPool S), sv_memory := (sv_memory S)(pChunk \<mapsto> [])\<rparr>))
     else
       (let pChunk = sv_nextAddress S in
        if sv_allocates S pChunk
        then Some (Success, pChunk, S\<lparr>sv_memory := (sv_memory S)(pChunk \<mapsto> []), sv_nextAddress := Suc pChunk\<rparr>)
        else Some (InsufficientMemory, 0, S)))"

definition Session_FreeEventChunk :: "nat \<Rightarrow> EventServerSession \<Rightarrow> EventServerSession" where
  "Session_FreeEventChunk pChunk S =
    (if IsTargetMemoryUsageExceeded S then free_memory pChunk S
     else S\<lparr>sv_eventChunkPool := sv_eventChunkPool S @ [pChunk]\<rparr>)"

fun EnqueueEventChunks :: "nat list \<Rightarrow> EventServerSession \<Rightarrow> EventServerSession option" where
  "EnqueueEventChunks [] S = Some S"
| "EnqueueEventChunks (pChunk # ppChunks) S =
    (case sv_memory S pChunk of
       None \<Rightarrow> None
     | Some c \<Rightarrow>
         EnqueueEventChunks ppChunks
           (if c \<noteq> [] then S\<lparr>sv_eventChunkQueue := sv_eventChunkQueue S @ [pChunk]\<rparr> else Session_FreeEventChunk pChunk S))"

text \<open>The next chunk of the queue becomes the current one, with nothing of it sent.\<close>

definition DequeueEventChunk :: "EventServerSession \<Rightarrow> nat option \<times> EventServerSession" where
  "DequeueEventChunk S =
    (case sv_eventChunkQueue S of [] \<Rightarrow> (None, S) | pChunk # rest \<Rightarrow> (Some pChunk, S\<lparr>sv_eventChunkQueue := rest\<rparr>))"

definition acquire_chunk :: "EventServerSession \<Rightarrow> EventServerSession" where
  "acquire_chunk S = (let (pChunk, S1) = DequeueEventChunk S in S1\<lparr>sv_pChunk := pChunk, sv_bytesSent := 0\<rparr>)"

fun trim_loop :: "nat \<Rightarrow> EventServerSession \<Rightarrow> EventServerSession" where
  "trim_loop 0 S = S"
| "trim_loop (Suc n) S =
    (if IsTargetMemoryUsageExceeded S then
       trim_loop n (free_memory (last (sv_eventChunkPool S)) (S\<lparr>sv_eventChunkPool := butlast (sv_eventChunkPool S)\<rparr>))
     else S)"

text \<open>\<open>locked\<close>: another thread holds the mutex of the pool.\<close>

definition TrimEventChunkMemory :: "bool \<Rightarrow> EventServerSession \<Rightarrow> EventServerSession" where
  "TrimEventChunkMemory locked S = (if locked then S else trim_loop kMaxChunksPerTrim S)"

subsection \<open>Sending\<close>

definition send_event_payload :: "EventServerSession \<Rightarrow> Result \<times> EventServerSession" where
  "send_event_payload S =
    (let payload = sv_eventPayloadContainer S;
         (result, session) = ISession_Send (pc_payloadSize payload) (pc_payload payload) (sv_pSession S)
     in (result, S\<lparr>sv_pSession := session\<rparr>))"

lemma send_event_payload_simps [simp]:
  "sv_memory (snd (send_event_payload S)) = sv_memory S" "sv_nextAddress (snd (send_event_payload S)) = sv_nextAddress S"
  "sv_allocates (snd (send_event_payload S)) = sv_allocates S"
  "sv_eventChunkPool (snd (send_event_payload S)) = sv_eventChunkPool S"
  "sv_eventChunkQueue (snd (send_event_payload S)) = sv_eventChunkQueue S" "sv_pChunk (snd (send_event_payload S)) = sv_pChunk S"
  "sv_bytesSent (snd (send_event_payload S)) = sv_bytesSent S"
  "sv_eventPayloadContainer (snd (send_event_payload S)) = sv_eventPayloadContainer S"
  "sv_eventPayloadPending (snd (send_event_payload S)) = sv_eventPayloadPending S"
  by (simp_all add: send_event_payload_def case_prod_unfold Let_def)

text \<open>A piece of the current chunk, which holds the bytes \<open>c\<close>, and all its pieces.\<close>

definition piece_size :: "EventChunk \<Rightarrow> EventServerSession \<Rightarrow> nat" where
  "piece_size c S = min (length c - sv_bytesSent S) kMaxEventDataSize"

definition send_piece :: "EventChunk \<Rightarrow> EventServerSession \<Rightarrow> Result \<times> EventServerSession" where
  "send_piece c S =
    (let bytesToSend = piece_size c S;
         pData = take bytesToSend (drop (sv_bytesSent S) c)
     in send_event_payload (S\<lparr>sv_eventPayloadContainer := EventDataUpdatePayload pData (sv_eventPayloadContainer S),
          sv_bytesSent := sv_bytesSent S + bytesToSend\<rparr>))"

lemma send_piece_simps [simp]:
  "sv_memory (snd (send_piece c S)) = sv_memory S" "sv_nextAddress (snd (send_piece c S)) = sv_nextAddress S"
  "sv_allocates (snd (send_piece c S)) = sv_allocates S"
  "sv_eventChunkPool (snd (send_piece c S)) = sv_eventChunkPool S"
  "sv_eventChunkQueue (snd (send_piece c S)) = sv_eventChunkQueue S" "sv_pChunk (snd (send_piece c S)) = sv_pChunk S"
  "sv_bytesSent (snd (send_piece c S)) = sv_bytesSent S + piece_size c S"
  "sv_eventPayloadPending (snd (send_piece c S)) = sv_eventPayloadPending S"
  by (simp_all add: send_piece_def Let_def)

function send_pieces :: "EventChunk \<Rightarrow> EventServerSession \<Rightarrow> Result \<times> EventServerSession" where
  "send_pieces c S =
    (if length c - sv_bytesSent S > 0 then
       (let (result, S1) = send_piece c S
        in if result \<noteq> Success then (result, S1\<lparr>sv_eventPayloadPending := True\<rparr>) else send_pieces c S1)
     else (Success, S))"
  by pat_completeness auto
termination
proof (relation "measure (\<lambda>(c, S). length c - sv_bytesSent S)", goal_cases)
  case (2 c S x result S1)
  then have "S1 = snd (send_piece c S)" by (metis snd_conv)
  with 2(1) kMaxEventDataSize_eq(2) show ?case by (simp add: piece_size_def)
qed simp

declare send_pieces.simps [simp del]

lemma send_pieces_frame:
  "sv_eventChunkQueue (snd (send_pieces c S)) = sv_eventChunkQueue S \<and> sv_pChunk (snd (send_pieces c S)) = sv_pChunk S \<and>
   sv_memory (snd (send_pieces c S)) = sv_memory S \<and> sv_eventChunkPool (snd (send_pieces c S)) = sv_eventChunkPool S \<and>
   sv_nextAddress (snd (send_pieces c S)) = sv_nextAddress S \<and>
   (fst (send_pieces c S) = Success \<longrightarrow> length c \<le> sv_bytesSent (snd (send_pieces c S))) \<and>
   (fst (send_pieces c S) \<noteq> Success \<longrightarrow> sv_eventPayloadPending (snd (send_pieces c S)))"
proof (induction c S rule: send_pieces.induct)
  case (1 c S)
  show ?case
  proof (cases "length c - sv_bytesSent S > 0")
    case True
    show ?thesis
    proof (cases "fst (send_piece c S) = Success")
      case ok: True
      with True have "send_pieces c S = send_pieces c (snd (send_piece c S))"
        by (subst send_pieces.simps) (simp add: case_prod_unfold Let_def)
      with 1 [OF True refl prod.collapse] ok show ?thesis by simp
    next
      case False
      with True have "send_pieces c S = (fst (send_piece c S), (snd (send_piece c S))\<lparr>sv_eventPayloadPending := True\<rparr>)"
        by (subst send_pieces.simps) (simp add: case_prod_unfold Let_def)
      with False show ?thesis by simp
    qed
  qed (simp add: send_pieces.simps)
qed

function send_chunks :: "EventServerSession \<Rightarrow> EventServerSession option" where
  "send_chunks S =
    (case sv_pChunk S of
       None \<Rightarrow> Some S
     | Some pChunk \<Rightarrow>
         if sv_eventPayloadPending S then Some S
         else
           (case sv_memory S pChunk of
              None \<Rightarrow> None
            | Some c \<Rightarrow>
                (let (result, S1) = send_pieces c S in
                 if result = Success \<or> result = NotReady then
                   send_chunks (if length c - sv_bytesSent S1 = 0 then acquire_chunk (Session_FreeEventChunk pChunk S1) else S1)
                 else Some S1)))"
  by pat_completeness auto
termination
proof (relation "measure (\<lambda>S. 2 * (length (sv_eventChunkQueue S) + (if sv_pChunk S = None then 0 else 1)) + (if sv_eventPayloadPending S then 0 else 1))", goal_cases)
  case (2 S p c x result S1)
  then have "S1 = snd (send_pieces c S)" "result = fst (send_pieces c S)" by (simp_all add: prod_eq_iff)
  with send_pieces_frame [of c S] 2(1,2,5) show ?case
    by (auto simp: acquire_chunk_def DequeueEventChunk_def Session_FreeEventChunk_def free_memory_def split: list.splits)
qed simp

declare send_chunks.simps [simp del]

definition SendEventData :: "EventServerSession \<Rightarrow> EventServerSession option" where
  "SendEventData S =
    (let (result, S1) = (if sv_eventPayloadPending S then send_event_payload S else (Success, S));
         S2 = (if sv_eventPayloadPending S \<and> result = Success then S1\<lparr>sv_eventPayloadPending := False\<rparr> else S1)
     in
     if result = Success then send_chunks (if sv_pChunk S2 = None then acquire_chunk S2 else S2) else Some S2)"

text \<open>The branch of \<^verbatim>\<open>UpdateSession\<close> without a request: data is sent, and memory trimmed now and then.\<close>

definition update_idle_session :: "u64 \<Rightarrow> bool \<Rightarrow> EventServerSession \<Rightarrow> EventServerSession option" where
  "update_idle_session currentTime locked S =
    map_option (\<lambda>S1. if currentTime \<ge> sv_nextTrimTime S1
        then TrimEventChunkMemory locked (S1\<lparr>sv_nextTrimTime := currentTime + kTrimFrequencyInMs\<rparr>) else S1)
      (SendEventData S)"

end
