(* ===== verification/Event_Queue.thy ===== *)
theory Event_Queue
  imports Event_Session
begin

text \<open>
  The bytes that go through a session of events: chunks that are borrowed, queued, sent and given back never
  overlap, and sending keeps the bytes and their order.
\<close>

subsection \<open>What the client sees of a message\<close>

text \<open>The payload is received into a container that holds zeros.\<close>

definition received_payload :: "u8 list \<Rightarrow> u8 list" where
  "received_payload bytes = pc_payload (CreatePayload bytes new_SizedPayloadContainer)"

definition GetEventData :: "u8 list \<Rightarrow> u8 list" where
  "GetEventData bytes = take (unat (get_word 2 2 bytes :: u16)) (drop sizeof_EventHeader bytes)"

definition event_message :: "u8 list \<Rightarrow> u8 list" where
  "event_message bytes =
    (if received_payload bytes ! 0 = EventMessage_EventDataUpdate then GetEventData (received_payload bytes) else [])"

definition container_message :: "SizedPayloadContainer \<Rightarrow> u8 list" where
  "container_message c = take (unat (pc_payloadSize c)) (pc_payload c)"

definition container_ok :: "SizedPayloadContainer \<Rightarrow> bool" where
  "container_ok c \<longleftrightarrow> length (pc_payload c) = kMaxPayloadSizeInBytes"

lemma EventDataUpdatePayload_message:
  assumes "container_ok c" "length d \<le> kMaxEventDataSize"
  shows "container_ok (EventDataUpdatePayload d c)" "event_message (container_message (EventDataUpdatePayload d c)) = d"
proof -
  define bytes where "bytes = EventHeader EventMessage_EventDataUpdate (word_of_nat (length d)) @ d"
  have l: "length bytes = 4 + length d" by (simp add: bytes_def EventHeader_def)
  have p: "pc_payload (EventDataUpdatePayload d c) = bytes @ drop (length bytes) (pc_payload c)"
    "unat (pc_payloadSize (EventDataUpdatePayload d c)) = kMaxPayloadSizeInBytes"
    using assms(2) kMaxEventDataSize_eq(5)
    by (simp_all add: EventDataUpdatePayload_def Let_def min_absorb1 memcpy_def bytes_def unat_of_nat)
  have le: "length bytes \<le> kMaxPayloadSizeInBytes" using l assms(2) kMaxEventDataSize_eq(4) by simp
  then show ok: "container_ok (EventDataUpdatePayload d c)" using assms(1) p(1) by (simp add: container_ok_def)
  then have m: "container_message (EventDataUpdatePayload d c) = bytes @ drop (length bytes) (pc_payload c)"
    using p by (simp add: container_message_def container_ok_def)
  have "length (container_message (EventDataUpdatePayload d c)) = kMaxPayloadSizeInBytes"
    using ok p(2) by (simp add: container_message_def container_ok_def)
  then have rec: "received_payload (container_message (EventDataUpdatePayload d c)) = container_message (EventDataUpdatePayload d c)"
    by (simp add: received_payload_def CreatePayload_def memcpy_def new_SizedPayloadContainer_def)
  have "get_word 2 2 (bytes @ rest) = (word_of_nat (length d) :: u16)" for rest
    using get_put_word [of 2 "[EventMessage_EventDataUpdate, 0]", where 'a = 16] by (simp add: bytes_def EventHeader_def numeral_2_eq_2)
  moreover have "unat (word_of_nat (length d) :: u16) = length d"
    using assms(2) kMaxEventDataSize_eq(3) by (simp add: unat_of_nat)
  ultimately show "event_message (container_message (EventDataUpdatePayload d c)) = d"
    unfolding event_message_def rec unfolding m
    by (simp add: GetEventData_def sizeof_EventHeader_def) (simp add: bytes_def EventHeader_def)
qed

subsection \<open>The stream of a session\<close>

definition chunk_bytes :: "ChunkMemory \<Rightarrow> nat list \<Rightarrow> u8 list" where
  "chunk_bytes M ps = concat (map (\<lambda>p. the (M p)) ps)"

lemma chunk_bytes_simps [simp]:
  "chunk_bytes M [] = []" "chunk_bytes M (p # ps) = the (M p) @ chunk_bytes M ps"
  "chunk_bytes M (ps @ qs) = chunk_bytes M ps @ chunk_bytes M qs"
  by (simp_all add: chunk_bytes_def)

lemma chunk_bytes_other [simp]: "p \<notin> set ps \<Longrightarrow> chunk_bytes (M(p := x)) ps = chunk_bytes M ps"
  by (induction ps) auto

lemma chunk_bytes_cong: "(\<And>p. p \<in> set ps \<Longrightarrow> M p = N p) \<Longrightarrow> chunk_bytes M ps = chunk_bytes N ps"
  by (induction ps) auto

definition current_chunks :: "EventServerSession \<Rightarrow> nat list" where
  "current_chunks S = (case sv_pChunk S of Some p \<Rightarrow> [p] | None \<Rightarrow> [])"

definition sent_data :: "EventServerSession \<Rightarrow> u8 list list" where
  "sent_data S = map event_message (is_outgoing (sv_pSession S))"

definition pending_data :: "EventServerSession \<Rightarrow> u8 list" where
  "pending_data S = (if sv_eventPayloadPending S then event_message (container_message (sv_eventPayloadContainer S)) else [])"

definition unsent_data :: "EventServerSession \<Rightarrow> u8 list" where
  "unsent_data S = drop (sv_bytesSent S) (chunk_bytes (sv_memory S) (current_chunks S)) @ chunk_bytes (sv_memory S) (sv_eventChunkQueue S)"

definition session_stream :: "EventServerSession \<Rightarrow> u8 list" where
  "session_stream S = concat (sent_data S) @ pending_data S @ unsent_data S"

text \<open>
  Chunks are in one place only: with their owner outside of the session, in the queue, being sent or in the pool.
\<close>

definition session_chunks :: "EventServerSession \<Rightarrow> nat list" where
  "session_chunks S = sv_eventChunkQueue S @ current_chunks S @ sv_eventChunkPool S"

definition chunk_ok :: "ChunkMemory \<Rightarrow> nat \<Rightarrow> bool" where
  "chunk_ok M p \<longleftrightarrow> (\<exists>c. M p = Some c \<and> length c \<le> kEventChunkMaxDataSize)"

definition owned :: "nat list \<Rightarrow> EventServerSession \<Rightarrow> bool" where
  "owned own S \<longleftrightarrow> distinct (own @ session_chunks S) \<and> (\<forall>p \<in> set (own @ session_chunks S). chunk_ok (sv_memory S) p) \<and>
    (\<forall>p \<ge> sv_nextAddress S. sv_memory S p = None) \<and> container_ok (sv_eventPayloadContainer S) \<and>
    (sv_eventPayloadPending S \<longrightarrow> pending_data S \<noteq> [])"

lemma new_EventServerSession_owned:
  "owned [] (new_EventServerSession allocates sid pSession garbage)"
  by (simp add: owned_def new_EventServerSession_def session_chunks_def current_chunks_def container_ok_def
      new_SizedPayloadContainer_def)

lemma owned_chunk:
  "owned own S \<Longrightarrow> p \<in> set own \<Longrightarrow> chunk_ok (sv_memory S) p"
  "owned own S \<Longrightarrow> p \<in> set (session_chunks S) \<Longrightarrow> chunk_ok (sv_memory S) p"
  by (simp_all add: owned_def)

subsection \<open>Sending\<close>

lemma send_event_payload_sent:
  "sent_data (snd (send_event_payload S)) =
    sent_data S @ (if fst (send_event_payload S) = Success then [event_message (container_message (sv_eventPayloadContainer S))] else [])"
  by (auto simp: send_event_payload_def ISession_Send_def sent_data_def container_message_def case_prod_unfold Let_def
      split: list.splits)

text \<open>What sending does: chunks stay where they are, the stream stays, and messages carry data.\<close>

definition sends :: "EventServerSession \<Rightarrow> EventServerSession \<Rightarrow> bool" where
  "sends S T \<longleftrightarrow> session_stream T = session_stream S \<and>
    (\<exists>out. sent_data T = sent_data S @ out \<and> [] \<notin> set out)"

lemma sends_refl [simp]: "sends S S"
  by (simp add: sends_def)

lemma sends_trans: "sends S T \<Longrightarrow> sends T U \<Longrightarrow> sends S U"
  by (auto simp: sends_def)

lemma send_piece_ok:
  assumes "sv_pChunk S = Some p" "sv_memory S p = Some c" "\<not> sv_eventPayloadPending S"
    "container_ok (sv_eventPayloadContainer S)" "sv_bytesSent S < length c"
  defines "T \<equiv> snd (send_piece c S)"
  shows "container_ok (sv_eventPayloadContainer T)" "sv_bytesSent T \<le> length c" "sv_bytesSent S < sv_bytesSent T"
    "fst (send_piece c S) = Success \<Longrightarrow> sends S T"
    "fst (send_piece c S) \<noteq> Success \<Longrightarrow> sends S (T\<lparr>sv_eventPayloadPending := True\<rparr>) \<and>
       pending_data (T\<lparr>sv_eventPayloadPending := True\<rparr>) \<noteq> []"
proof -
  define n where "n = piece_size c S"
  define d where "d = take n (drop (sv_bytesSent S) c)"
  define R where "R = S\<lparr>sv_eventPayloadContainer := EventDataUpdatePayload d (sv_eventPayloadContainer S),
          sv_bytesSent := sv_bytesSent S + n\<rparr>"
  have piece: "send_piece c S = send_event_payload R" by (simp add: send_piece_def Let_def R_def d_def n_def)
  have n: "0 < n" "n \<le> kMaxEventDataSize" "sv_bytesSent S + n \<le> length c"
    using assms(5) kMaxEventDataSize_eq(2) by (auto simp: n_def piece_size_def)
  then have d: "length d \<le> kMaxEventDataSize" "d \<noteq> []" using assms(5) by (auto simp: d_def)
  note m = EventDataUpdatePayload_message [OF assms(4) d(1)]
  show "container_ok (sv_eventPayloadContainer T)" using m(1) by (simp add: T_def piece R_def)
  show "sv_bytesSent T \<le> length c" "sv_bytesSent S < sv_bytesSent T" using n by (simp_all add: T_def piece R_def)
  have sent: "sent_data R = sent_data S" by (simp add: sent_data_def R_def)
  have split: "drop (sv_bytesSent S) c = d @ drop (sv_bytesSent S + n) c"
    by (metis d_def append_take_drop_id drop_drop add.commute)
  have un: "unsent_data S = d @ unsent_data T" "unsent_data (T\<lparr>sv_eventPayloadPending := True\<rparr>) = unsent_data T"
    using assms(1,2) split by (simp_all add: unsent_data_def current_chunks_def T_def piece R_def)
  show "sends S T" if "fst (send_piece c S) = Success"
    using that send_event_payload_sent [of R] m(2) d(2) assms(3) un sent
    by (simp add: sends_def session_stream_def pending_data_def T_def piece) (simp add: R_def)
  show "sends S (T\<lparr>sv_eventPayloadPending := True\<rparr>) \<and> pending_data (T\<lparr>sv_eventPayloadPending := True\<rparr>) \<noteq> []"
    if "fst (send_piece c S) \<noteq> Success"
    using that send_event_payload_sent [of R] m(2) d(2) assms(3) un sent
    by (simp add: sends_def session_stream_def pending_data_def sent_data_def T_def piece) (simp add: R_def)
qed

lemma send_pieces_ok:
  assumes "sv_pChunk S = Some p" "sv_memory S p = Some c" "\<not> sv_eventPayloadPending S" "container_ok (sv_eventPayloadContainer S)"
  defines "T \<equiv> snd (send_pieces c S)"
  shows "sends S T \<and> container_ok (sv_eventPayloadContainer T) \<and>
    (if fst (send_pieces c S) = Success then \<not> sv_eventPayloadPending T else sv_eventPayloadPending T \<and> pending_data T \<noteq> [])"
  unfolding T_def using assms(1-4)
proof (induction c S rule: send_pieces.induct)
  case (1 c S)
  show ?case
  proof (cases "sv_bytesSent S < length c")
    case True
    then have pos: "length c - sv_bytesSent S > 0" by simp
    note piece = send_piece_ok [OF 1(2-5) True]
    show ?thesis
    proof (cases "fst (send_piece c S) = Success")
      case ok: True
      with pos have eq: "send_pieces c S = send_pieces c (snd (send_piece c S))"
        by (subst send_pieces.simps) (simp add: case_prod_unfold Let_def)
      from 1(1) [OF pos refl prod.collapse] ok 1(2-5) piece(1) show ?thesis
        unfolding eq using sends_trans [OF piece(4) [OF ok]] by simp
    next
      case False
      with pos have "send_pieces c S = (fst (send_piece c S), (snd (send_piece c S))\<lparr>sv_eventPayloadPending := True\<rparr>)"
        by (subst send_pieces.simps) (simp add: case_prod_unfold Let_def)
      with False piece(1) piece(5) [OF False] show ?thesis by simp
    qed
  qed (use 1 in \<open>simp add: send_pieces.simps\<close>)
qed

text \<open>A chunk that was sent is given back, and the next one taken.\<close>

lemma free_and_acquire:
  assumes "owned own S" "sv_pChunk S = Some p" "sv_memory S p = Some c" "length c \<le> sv_bytesSent S"
  defines "T \<equiv> acquire_chunk (Session_FreeEventChunk p S)"
  shows "owned own T" "sends S T" "chunk_bytes (sv_memory T) own = chunk_bytes (sv_memory S) own"
proof -
  have p: "p \<notin> set own" "p \<notin> set (sv_eventChunkQueue S)"
    using assms(1,2) by (auto simp: owned_def session_chunks_def current_chunks_def)
  then show "chunk_bytes (sv_memory T) own = chunk_bytes (sv_memory S) own"
    by (auto simp: T_def acquire_chunk_def DequeueEventChunk_def Session_FreeEventChunk_def free_memory_def split: list.splits)
  have "unsent_data T = unsent_data S"
    using p assms(2-4)
    by (auto simp: T_def unsent_data_def current_chunks_def acquire_chunk_def DequeueEventChunk_def Session_FreeEventChunk_def
        free_memory_def split: list.splits)
  then show "sends S T"
    by (auto simp: T_def sends_def session_stream_def sent_data_def pending_data_def acquire_chunk_def DequeueEventChunk_def
        Session_FreeEventChunk_def free_memory_def split: list.splits)
  show "owned own T"
    using assms(1,2) p
    by (auto simp: T_def owned_def session_chunks_def current_chunks_def acquire_chunk_def DequeueEventChunk_def
        Session_FreeEventChunk_def free_memory_def pending_data_def chunk_ok_def split: list.splits)
qed

lemma acquire_first:
  assumes "owned own S" "sv_pChunk S = None"
  shows "owned own (acquire_chunk S)" "sends S (acquire_chunk S)" "sv_memory (acquire_chunk S) = sv_memory S"
  using assms
  by (auto simp: owned_def sends_def session_stream_def sent_data_def unsent_data_def session_chunks_def current_chunks_def
      acquire_chunk_def DequeueEventChunk_def pending_data_def split: list.splits)

lemma send_pieces_owned:
  assumes "owned own S" "sv_pChunk S = Some p" "sv_memory S p = Some c" "\<not> sv_eventPayloadPending S"
  shows "owned own (snd (send_pieces c S))"
  using assms send_pieces_ok [OF assms(2-4)] send_pieces_frame [of c S]
  by (auto simp: owned_def session_chunks_def current_chunks_def split: if_splits)

text \<open>Sending never uses a chunk that is not there, and loses no byte.\<close>

definition send_ok :: "nat list \<Rightarrow> EventServerSession \<Rightarrow> EventServerSession \<Rightarrow> bool" where
  "send_ok own S T \<longleftrightarrow> owned own T \<and> sends S T \<and> chunk_bytes (sv_memory T) own = chunk_bytes (sv_memory S) own"

lemma send_chunks_ok: "owned own S \<Longrightarrow> \<exists>T. send_chunks S = Some T \<and> send_ok own S T"
proof (induction S rule: send_chunks.induct)
  case (1 S)
  show ?case
  proof (cases "sv_pChunk S = None \<or> sv_eventPayloadPending S")
    case True
    then have "send_chunks S = Some S" by (subst send_chunks.simps) (auto split: option.splits)
    with 1(2) show ?thesis by (simp add: send_ok_def)
  next
    case False
    then obtain p where p: "sv_pChunk S = Some p" and idle: "\<not> sv_eventPayloadPending S" by auto
    then have "chunk_ok (sv_memory S) p" using owned_chunk(2) [OF 1(2)] by (simp add: session_chunks_def current_chunks_def)
    then obtain c where c: "sv_memory S p = Some c" by (auto simp: chunk_ok_def)
    define T where "T = snd (send_pieces c S)"
    define U where "U = (if length c - sv_bytesSent T = 0 then acquire_chunk (Session_FreeEventChunk p T) else T)"
    note f = send_pieces_frame [of c S, folded T_def]
    have T: "owned own T" "sends S T" "sv_memory T = sv_memory S"
      using send_pieces_owned [OF 1(2) p c idle] send_pieces_ok [OF p c idle] 1(2) f by (simp_all add: T_def owned_def)
    have U: "owned own U" "sends S U" "chunk_bytes (sv_memory U) own = chunk_bytes (sv_memory S) own"
      using free_and_acquire [OF T(1), of p c] T f p c sends_trans [OF T(2)] by (auto simp: U_def)
    have eq: "send_chunks S = (if fst (send_pieces c S) = Success \<or> fst (send_pieces c S) = NotReady then send_chunks U else Some T)"
      by (subst send_chunks.simps) (simp add: p c idle case_prod_unfold Let_def T_def U_def)
    show ?thesis
    proof (cases "fst (send_pieces c S) = Success \<or> fst (send_pieces c S) = NotReady")
      case True
      from 1(1) [OF p idle c refl prod.collapse True, folded T_def, folded U_def, OF U(1)]
      obtain V where "send_chunks U = Some V" "send_ok own U V" by blast
      with True eq U sends_trans [OF U(2)] show ?thesis by (auto simp: send_ok_def)
    qed (use eq T in \<open>simp add: send_ok_def\<close>)
  qed
qed

lemma send_pending_ok:
  assumes "owned own S" "sv_eventPayloadPending S"
  defines "T \<equiv> snd (send_event_payload S)"
  shows "fst (send_event_payload S) = Success \<Longrightarrow> owned own (T\<lparr>sv_eventPayloadPending := False\<rparr>) \<and> sends S (T\<lparr>sv_eventPayloadPending := False\<rparr>)"
    "fst (send_event_payload S) \<noteq> Success \<Longrightarrow> owned own T \<and> sends S T" "sv_memory T = sv_memory S"
proof -
  have *: "session_chunks T = session_chunks S" "unsent_data T = unsent_data S" "pending_data T = pending_data S"
      "unsent_data (T\<lparr>sv_eventPayloadPending := False\<rparr>) = unsent_data T"
      "session_chunks (T\<lparr>sv_eventPayloadPending := False\<rparr>) = session_chunks T"
    by (simp_all add: session_chunks_def current_chunks_def T_def unsent_data_def pending_data_def)
  note sent = send_event_payload_sent [of S, folded T_def]
  show "sv_memory T = sv_memory S" by (simp add: T_def)
  show "owned own (T\<lparr>sv_eventPayloadPending := False\<rparr>) \<and> sends S (T\<lparr>sv_eventPayloadPending := False\<rparr>)"
    if "fst (send_event_payload S) = Success"
    using assms(1,2) * sent that
    by (simp add: owned_def sends_def session_stream_def pending_data_def sent_data_def) (auto simp: T_def)
  show "owned own T \<and> sends S T" if "fst (send_event_payload S) \<noteq> Success"
    using assms(1,2) * sent that
    by (simp add: owned_def sends_def session_stream_def) (simp add: T_def)
qed

lemma SendEventData_ok:
  assumes "owned own S"
  shows "\<exists>T. SendEventData S = Some T \<and> send_ok own S T"
proof -
  define T where "T = (if sv_eventPayloadPending S then (snd (send_event_payload S))\<lparr>sv_eventPayloadPending := False\<rparr> else S)"
  define U where "U = (if sv_pChunk T = None then acquire_chunk T else T)"
  show ?thesis
  proof (cases "sv_eventPayloadPending S \<and> fst (send_event_payload S) \<noteq> Success")
    case True
    then have "SendEventData S = Some (snd (send_event_payload S))" by (simp add: SendEventData_def case_prod_unfold)
    with True send_pending_ok(2,3) [OF assms] show ?thesis by (simp add: send_ok_def)
  next
    case False
    then have eq: "SendEventData S = send_chunks U" by (simp add: SendEventData_def case_prod_unfold T_def U_def Let_def)
    have T: "owned own T" "sends S T" "sv_memory T = sv_memory S"
      using False send_pending_ok(1,3) [OF assms] assms by (auto simp: T_def)
    then have "owned own U" "sends S U" "sv_memory U = sv_memory S"
      using acquire_first [of own T] sends_trans [OF T(2)] by (auto simp: U_def)
    with send_chunks_ok [of own U] sends_trans [of S U] show ?thesis by (auto simp: eq send_ok_def)
  qed
qed

text \<open>Everything that was queued is sent.\<close>

definition all_sent :: "EventServerSession \<Rightarrow> bool" where
  "all_sent S \<longleftrightarrow> \<not> sv_eventPayloadPending S \<and> sv_pChunk S = None \<and> sv_eventChunkQueue S = []"

lemma all_sent_stream: "all_sent S \<Longrightarrow> session_stream S = concat (sent_data S)"
  by (simp add: all_sent_def session_stream_def pending_data_def unsent_data_def current_chunks_def)

lemma acquire_chunk_simps [simp]:
  "sv_eventPayloadPending (acquire_chunk S) = sv_eventPayloadPending S"
  "sv_eventPayloadPending (Session_FreeEventChunk p S) = sv_eventPayloadPending S"
  "sv_pChunk (acquire_chunk S) = None \<Longrightarrow> sv_eventChunkQueue (acquire_chunk S) = []"
  by (auto simp: acquire_chunk_def DequeueEventChunk_def Session_FreeEventChunk_def free_memory_def split: list.splits)

text \<open>A turn that does not send everything met a message that was not taken.\<close>

definition replies :: "EventServerSession \<Rightarrow> nat" where
  "replies S = length (is_sendReplies (sv_pSession S))"

lemma send_event_payload_replies:
  "replies (snd (send_event_payload S)) \<le> replies S"
  "fst (send_event_payload S) \<noteq> Success \<Longrightarrow> replies (snd (send_event_payload S)) < replies S"
  by (auto simp: replies_def send_event_payload_def ISession_Send_def Let_def split: list.splits)

lemma replies_frame [simp]:
  "replies (S\<lparr>sv_eventPayloadPending := x\<rparr>) = replies S" "replies (acquire_chunk S) = replies S"
  "replies (Session_FreeEventChunk p S) = replies S"
  by (auto simp: replies_def acquire_chunk_def DequeueEventChunk_def Session_FreeEventChunk_def free_memory_def split: list.splits)

lemma send_pieces_replies:
  "replies (snd (send_pieces c S)) \<le> replies S \<and>
   (if fst (send_pieces c S) = Success then sv_eventPayloadPending (snd (send_pieces c S)) = sv_eventPayloadPending S
    else replies (snd (send_pieces c S)) < replies S)"
proof (induction c S rule: send_pieces.induct)
  case (1 c S)
  let ?T = "snd (send_piece c S)"
  have piece: "replies ?T \<le> replies S" "fst (send_piece c S) \<noteq> Success \<Longrightarrow> replies ?T < replies S"
    using send_event_payload_replies [of "S\<lparr>sv_eventPayloadContainer := x, sv_bytesSent := y\<rparr>" for x y]
    by (simp_all add: send_piece_def Let_def replies_def)
  show ?case
  proof (cases "length c - sv_bytesSent S > 0")
    case pos: True
    show ?thesis
    proof (cases "fst (send_piece c S) = Success")
      case True
      with pos have "send_pieces c S = send_pieces c ?T" by (subst send_pieces.simps) (simp add: case_prod_unfold Let_def)
      with 1 [OF pos refl prod.collapse] True piece(1) show ?thesis by (auto split: if_splits)
    next
      case False
      with pos have "send_pieces c S = (fst (send_piece c S), ?T\<lparr>sv_eventPayloadPending := True\<rparr>)"
        by (subst send_pieces.simps) (simp add: case_prod_unfold Let_def)
      with False piece show ?thesis by simp
    qed
  qed (simp add: send_pieces.simps)
qed

lemma send_chunks_replies:
  "send_chunks S = Some T \<Longrightarrow> (sv_pChunk S = None \<Longrightarrow> sv_eventChunkQueue S = []) \<Longrightarrow>
   replies T \<le> replies S \<and> (sv_eventPayloadPending S \<or> all_sent T \<or> replies T < replies S)"
proof (induction S rule: send_chunks.induct)
  case (1 S)
  show ?case
  proof (cases "sv_pChunk S = None \<or> sv_eventPayloadPending S")
    case True
    then have "send_chunks S = Some S" by (subst send_chunks.simps) (auto split: option.splits)
    with True 1(2,3) show ?thesis by (auto simp: all_sent_def)
  next
    case False
    then obtain p where p: "sv_pChunk S = Some p" and idle: "\<not> sv_eventPayloadPending S" by auto
    with 1(2) obtain c where c: "sv_memory S p = Some c" by (subst (asm) send_chunks.simps) (auto split: option.splits)
    define T1 where "T1 = snd (send_pieces c S)"
    define U where "U = (if length c - sv_bytesSent T1 = 0 then acquire_chunk (Session_FreeEventChunk p T1) else T1)"
    note f = send_pieces_frame [of c S, folded T1_def] and m = send_pieces_replies [of c S, folded T1_def]
    have eq: "send_chunks S = (if fst (send_pieces c S) = Success \<or> fst (send_pieces c S) = NotReady then send_chunks U else Some T1)"
      by (subst send_chunks.simps) (simp add: p c idle case_prod_unfold Let_def T1_def U_def)
    have U: "replies U = replies T1" "sv_eventPayloadPending U = sv_eventPayloadPending T1"
      "sv_pChunk U = None \<Longrightarrow> sv_eventChunkQueue U = []"
      using f p by (auto simp: U_def)
    show ?thesis
    proof (cases "fst (send_pieces c S) = Success \<or> fst (send_pieces c S) = NotReady")
      case True
      from 1(1) [OF p idle c refl prod.collapse True, folded T1_def, folded U_def] eq True 1(2) U m f idle
      show ?thesis by (auto split: if_splits)
    qed (use eq m 1(2) in \<open>auto split: if_splits\<close>)
  qed
qed

lemma SendEventData_replies:
  assumes "SendEventData S = Some T"
  shows "replies T \<le> replies S" "all_sent T \<or> replies T < replies S" "all_sent S \<Longrightarrow> all_sent T"
proof -
  define R where "R = (if sv_eventPayloadPending S then (snd (send_event_payload S))\<lparr>sv_eventPayloadPending := False\<rparr> else S)"
  define U where "U = (if sv_pChunk R = None then acquire_chunk R else R)"
  have "replies T \<le> replies S \<and> (all_sent T \<or> replies T < replies S)"
  proof (cases "sv_eventPayloadPending S \<and> fst (send_event_payload S) \<noteq> Success")
    case True
    then have "T = snd (send_event_payload S)" using assms by (simp add: SendEventData_def case_prod_unfold)
    with True send_event_payload_replies [of S] show ?thesis by simp
  next
    case False
    then have "SendEventData S = send_chunks U" by (simp add: SendEventData_def case_prod_unfold R_def U_def Let_def)
    with assms have eq: "send_chunks U = Some T" by simp
    have "replies R \<le> replies S" "\<not> sv_eventPayloadPending R" using send_event_payload_replies(1) [of S] by (simp_all add: R_def)
    then have "replies U \<le> replies S" "\<not> sv_eventPayloadPending U" "sv_pChunk U = None \<Longrightarrow> sv_eventChunkQueue U = []"
      by (auto simp: U_def)
    with send_chunks_replies [OF eq] show ?thesis by auto
  qed
  then show "replies T \<le> replies S" "all_sent T \<or> replies T < replies S" by simp_all
  show "all_sent T" if "all_sent S"
    using that assms by (auto simp: all_sent_def SendEventData_def acquire_chunk_def DequeueEventChunk_def send_chunks.simps)
qed

subsection \<open>Queueing\<close>

lemma EnqueueEventChunks_ok:
  "owned (ps @ own) S \<Longrightarrow> \<exists>T. EnqueueEventChunks ps S = Some T \<and> owned own T \<and> sent_data T = sent_data S \<and>
     session_stream T = session_stream S @ chunk_bytes (sv_memory S) ps \<and> chunk_bytes (sv_memory T) own = chunk_bytes (sv_memory S) own"
proof (induction ps arbitrary: S)
  case (Cons p ps)
  have "chunk_ok (sv_memory S) p" using Cons.prems by (simp add: owned_def)
  then obtain c where c: "sv_memory S p = Some c" by (auto simp: chunk_ok_def)
  define T where "T = (if c \<noteq> [] then S\<lparr>sv_eventChunkQueue := sv_eventChunkQueue S @ [p]\<rparr> else Session_FreeEventChunk p S)"
  have p: "p \<notin> set ps" "p \<notin> set own" "p \<notin> set (sv_eventChunkQueue S)" "p \<notin> set (current_chunks S)"
    using Cons.prems by (auto simp: owned_def session_chunks_def)
  have "owned (ps @ own) T"
    using Cons.prems p
    by (auto simp: T_def owned_def session_chunks_def current_chunks_def pending_data_def Session_FreeEventChunk_def
        free_memory_def chunk_ok_def)
  moreover have "sent_data T = sent_data S"
    by (simp add: T_def sent_data_def Session_FreeEventChunk_def free_memory_def)
  moreover have "session_stream T = session_stream S @ c"
    using p c by (auto simp: T_def session_stream_def sent_data_def pending_data_def unsent_data_def current_chunks_def
        Session_FreeEventChunk_def free_memory_def split: option.splits)
  moreover have "chunk_bytes (sv_memory T) ps = chunk_bytes (sv_memory S) ps" "chunk_bytes (sv_memory T) own = chunk_bytes (sv_memory S) own"
    using p by (simp_all add: T_def Session_FreeEventChunk_def free_memory_def)
  ultimately show ?case using Cons.IH [of T] c by (auto simp: T_def)
qed simp

end
