(* ===== verification/Event_View.thy ===== *)
theory Event_View
  imports Event_Queue
begin

text \<open>
  Writing through a view: the chunks, read one after the other, get exactly the bytes that are written, wherever
  the boundaries of the chunks are.
\<close>

text \<open>The chunks after the current one are empty.\<close>

definition view_ok :: "EventChunkBufferView \<Rightarrow> ChunkMemory \<Rightarrow> bool" where
  "view_ok V M \<longleftrightarrow> distinct (m_ppChunkList V) \<and> m_currentChunkIndex V < length (m_ppChunkList V) \<and>
    (\<forall>p \<in> set (m_ppChunkList V). chunk_ok M p) \<and> (\<forall>p \<in> set (drop (Suc (m_currentChunkIndex V)) (m_ppChunkList V)). M p = Some [])"

definition rooms :: "ChunkMemory \<Rightarrow> nat list \<Rightarrow> nat" where
  "rooms M ps = sum_list (map (\<lambda>p. kEventChunkMaxDataSize - length (the (M p))) ps)"

definition room :: "EventChunkBufferView \<Rightarrow> ChunkMemory \<Rightarrow> nat" where
  "room V M = rooms M (drop (m_currentChunkIndex V) (m_ppChunkList V))"

definition wrote :: "u8 list \<Rightarrow> EventChunkBufferView \<Rightarrow> ChunkMemory \<Rightarrow> EventChunkBufferView \<Rightarrow> ChunkMemory \<Rightarrow> bool" where
  "wrote d V M V1 M1 \<longleftrightarrow> view_ok V1 M1 \<and> m_ppChunkList V1 = m_ppChunkList V \<and>
    chunk_bytes M1 (m_ppChunkList V) = chunk_bytes M (m_ppChunkList V) @ d \<and> room V1 M1 + length d = room V M \<and>
    (\<forall>p. p \<notin> set (m_ppChunkList V) \<longrightarrow> M1 p = M p) \<and> (\<forall>p. M1 p = None \<longleftrightarrow> M p = None)"

lemma wrote_Nil: "view_ok V M \<Longrightarrow> wrote [] V M V M"
  by (simp add: wrote_def)

lemma wrote_trans: "wrote d V M V1 M1 \<Longrightarrow> wrote d1 V1 M1 V2 M2 \<Longrightarrow> wrote (d @ d1) V M V2 M2"
  by (auto simp: wrote_def)

lemma rooms_simps [simp]:
  "rooms M [] = 0" "rooms M (p # ps) = kEventChunkMaxDataSize - length (the (M p)) + rooms M ps"
  by (simp_all add: rooms_def)

lemma rooms_other [simp]: "p \<notin> set ps \<Longrightarrow> rooms (M(p := x)) ps = rooms M ps"
  by (induction ps) auto

lemma rooms_empty: "(\<And>p. p \<in> set ps \<Longrightarrow> M p = Some []) \<Longrightarrow> rooms M ps = length ps * kEventChunkMaxDataSize"
  by (induction ps) auto

lemma chunk_bytes_empty: "(\<And>p. p \<in> set ps \<Longrightarrow> M p = Some []) \<Longrightarrow> chunk_bytes M ps = []"
  by (induction ps) auto

subsection \<open>One pass\<close>

text \<open>The chunk list around the current chunk.\<close>

lemma view_at:
  assumes "m_ppChunkList V = pre @ p # post" "length pre = m_currentChunkIndex V"
  shows "view_ok V M \<longleftrightarrow> distinct (pre @ p # post) \<and> (\<forall>q \<in> set (pre @ p # post). chunk_ok M q) \<and> (\<forall>q \<in> set post. M q = Some [])"
    "room V M = kEventChunkMaxDataSize - length (the (M p)) + rooms M post"
    "current_chunk V M = (case M p of None \<Rightarrow> None | Some c \<Rightarrow> if length c \<le> kEventChunkMaxDataSize then Some c else None)"
    "m_ppChunkList V ! m_currentChunkIndex V = p" "m_currentChunkIndex V + 1 < length (m_ppChunkList V) \<longleftrightarrow> post \<noteq> []"
proof -
  have "drop (Suc (length pre)) (pre @ p # post) = post" by simp
  then show "view_ok V M \<longleftrightarrow> distinct (pre @ p # post) \<and> (\<forall>q \<in> set (pre @ p # post). chunk_ok M q) \<and> (\<forall>q \<in> set post. M q = Some [])"
    unfolding view_ok_def assms(1) assms(2) [symmetric] by auto
  have "drop (length pre) (pre @ p # post) = p # post" by simp
  then show "room V M = kEventChunkMaxDataSize - length (the (M p)) + rooms M post"
    unfolding room_def assms(1) assms(2) [symmetric] by simp
  show "current_chunk V M = (case M p of None \<Rightarrow> None | Some c \<Rightarrow> if length c \<le> kEventChunkMaxDataSize then Some c else None)"
    "m_ppChunkList V ! m_currentChunkIndex V = p"
    unfolding current_chunk_def assms(1) assms(2) [symmetric] by simp_all
  show "m_currentChunkIndex V + 1 < length (m_ppChunkList V) \<longleftrightarrow> post \<noteq> []"
    unfolding assms(1) assms(2) [symmetric] by simp
qed

lemma view_split:
  assumes "view_ok V M"
  obtains pre p post c where "m_ppChunkList V = pre @ p # post" "length pre = m_currentChunkIndex V"
    "M p = Some c" "length c \<le> kEventChunkMaxDataSize" "current_chunk V M = Some c"
proof -
  let ?i = "m_currentChunkIndex V" and ?l = "m_ppChunkList V"
  have i: "?i < length ?l" using assms by (simp add: view_ok_def)
  then have l: "?l = take ?i ?l @ (?l ! ?i) # drop (Suc ?i) ?l" by (rule id_take_nth_drop)
  have "?l ! ?i \<in> set ?l" using i by simp
  then have "chunk_ok M (?l ! ?i)" using assms by (simp add: view_ok_def)
  then obtain c where c: "M (?l ! ?i) = Some c" "length c \<le> kEventChunkMaxDataSize" by (auto simp: chunk_ok_def)
  then have "current_chunk V M = Some c" using i by (simp add: current_chunk_def)
  with c l i show thesis using that [OF l] by simp
qed

text \<open>Moving on from a chunk that is full.\<close>

lemma view_advance:
  assumes "view_ok V M" "current_chunk V M = Some c" "IsFull c" "m_currentChunkIndex V + 1 < length (m_ppChunkList V)"
  defines "V1 \<equiv> V\<lparr>m_currentChunkIndex := m_currentChunkIndex V + 1\<rparr>"
  shows "view_ok V1 M" "current_chunk V1 M = Some []" "room V1 M = room V M" "m_ppChunkList V1 = m_ppChunkList V"
proof -
  from view_split [OF assms(1)] obtain pre p post where
    s: "m_ppChunkList V = pre @ p # post" "length pre = m_currentChunkIndex V" "M p = Some c"
    using assms(2) by (metis option.inject)
  note at = view_at [OF s(1,2)]
  obtain q post' where post: "post = q # post'" using at(5) assms(4) by (cases post) auto
  have "m_ppChunkList V1 = (pre @ [p]) @ q # post'" "length (pre @ [p]) = m_currentChunkIndex V1"
    by (simp_all add: V1_def s(1) post) (simp add: s(2))
  note at1 = view_at [OF this]
  have e: "M q = Some []" using at(1) assms(1) post by simp
  show "view_ok V1 M" using assms(1) at(1) at1(1) post by auto
  show "current_chunk V1 M = Some []" using at1(3) e by simp
  show "room V1 M = room V M" using at(2) at1(2) e s(3) post assms(3) by (simp add: IsFull_def)
  show "m_ppChunkList V1 = m_ppChunkList V" by (simp add: V1_def)
qed

text \<open>Writing into a chunk that has room for the bytes.\<close>

definition put_chunk :: "u8 list \<Rightarrow> EventChunkBufferView \<Rightarrow> ChunkMemory \<Rightarrow> ChunkMemory" where
  "put_chunk d V M = M(m_ppChunkList V ! m_currentChunkIndex V \<mapsto> the (current_chunk V M) @ d)"

lemma put_chunk_wrote:
  assumes "view_ok V M" "current_chunk V M = Some c" "length d \<le> CalculateBytesRemaining c"
  shows "wrote d V M V (put_chunk d V M)"
proof -
  from view_split [OF assms(1)] obtain pre p post where
    s: "m_ppChunkList V = pre @ p # post" "length pre = m_currentChunkIndex V" "M p = Some c" "length c \<le> kEventChunkMaxDataSize"
    using assms(2) by (metis option.inject)
  note at = view_at [OF s(1,2)]
  have dist: "p \<notin> set pre" "p \<notin> set post" using assms(1) at(1) by simp_all
  have l: "length c + length d \<le> kEventChunkMaxDataSize" using assms(3) s(4) by (simp add: CalculateBytesRemaining_def)
  have ps: "chunk_bytes M post = []" using assms(1) at(1) by (intro chunk_bytes_empty) simp
  have M1: "put_chunk d V M = M(p \<mapsto> c @ d)" by (simp add: put_chunk_def at(4) assms(2))
  have "view_ok V (M(p \<mapsto> c @ d))"
    using assms(1) dist l by (auto simp: at(1) chunk_ok_def)
  moreover have "room V (M(p \<mapsto> c @ d)) + length d = room V M"
    using s(3) dist l by (simp add: at(2))
  moreover have "chunk_bytes (M(p \<mapsto> c @ d)) (m_ppChunkList V) = chunk_bytes M (m_ppChunkList V) @ d"
    using s(1,3) dist ps by simp
  ultimately show ?thesis
    unfolding M1 using s(1,3) by (auto simp: wrote_def)
qed

subsection \<open>Writing\<close>

text \<open>
  \<open>writes e f d\<close>: when there is room, \<open>f\<close> writes \<open>d\<close>; it fails only if \<open>e\<close> holds and no room is left.
\<close>

definition writes :: "bool \<Rightarrow> (EventChunkBufferView \<Rightarrow> ChunkMemory \<Rightarrow> (Result \<times> EventChunkBufferView \<times> ChunkMemory) option) \<Rightarrow> u8 list \<Rightarrow> bool" where
  "writes e f d \<longleftrightarrow> (\<forall>V M. view_ok V M \<longrightarrow> length d \<le> room V M \<longrightarrow>
    (\<exists>r V1 M1. f V M = Some (r, V1, M1) \<and> wrote d V M V1 M1 \<and> (r \<noteq> Success \<longrightarrow> e \<and> r = InsufficientMemory \<and> room V1 M1 = 0)))"

lemma View_Write_writes: "writes (d = []) (View_Write d) d"
  unfolding writes_def
proof (intro allI impI)
  fix V M assume "view_ok V M" "length d \<le> room V M"
  then show "\<exists>r V1 M1. View_Write d V M = Some (r, V1, M1) \<and> wrote d V M V1 M1 \<and>
      (r \<noteq> Success \<longrightarrow> d = [] \<and> r = InsufficientMemory \<and> room V1 M1 = 0)"
  proof (induction d V M rule: View_Write.induct)
    case (1 d V M)
    obtain pre p post c where
      s: "m_ppChunkList V = pre @ p # post" "length pre = m_currentChunkIndex V" "M p = Some c"
        "length c \<le> kEventChunkMaxDataSize" "current_chunk V M = Some c"
      by (rule view_split [OF 1(2)])
    note at = view_at [OF s(1,2)]
    define V1 where "V1 = (if IsFull c then V\<lparr>m_currentChunkIndex := m_currentChunkIndex V + 1\<rparr> else V)"
    show ?case
    proof (cases "IsFull c \<and> \<not> m_currentChunkIndex V + 1 < length (m_ppChunkList V)")
      case True
      then have "room V M = 0" using at(2,5) s(3) by (simp add: IsFull_def)
      moreover have "View_Write d V M = Some (InsufficientMemory, V, M)" using True s(5) by (simp add: View_Write.simps)
      ultimately show ?thesis using 1(2,3) by (simp add: wrote_Nil)
    next
      case False
      have "\<exists>c1. view_ok V1 M \<and> current_chunk V1 M = Some c1 \<and> room V1 M = room V M \<and> m_ppChunkList V1 = m_ppChunkList V"
      proof (cases "IsFull c")
        case True
        with False have "m_currentChunkIndex V + 1 < length (m_ppChunkList V)" by simp
        from view_advance [OF 1(2) s(5) True this] True show ?thesis by (simp add: V1_def)
      next
        case False
        then have "V1 = V" by (simp add: V1_def)
        with 1(2) s(5) show ?thesis by simp
      qed
      then obtain c1 where V1: "view_ok V1 M" "current_chunk V1 M = Some c1" "room V1 M = room V M" "m_ppChunkList V1 = m_ppChunkList V"
        by blast
      define n where "n = min (CalculateBytesRemaining c1) (length d)"
      define M1 where "M1 = put_chunk (take n d) V1 M"
      note put = put_chunk_wrote [OF V1(1,2), of "take n d", folded M1_def]
      have n: "length (take n d) \<le> CalculateBytesRemaining c1" "length (take n d) = n" by (simp_all add: n_def)
      have wrote: "wrote (take n d) V M V1 M1" using put [OF n(1)] V1 by (simp add: wrote_def)
      have M1: "M1 = M(m_ppChunkList V1 ! m_currentChunkIndex V1 \<mapsto> c1 @ take n d)" by (simp add: M1_def put_chunk_def V1(2))
      have eq: "View_Write d V M = (if n = length d then Some (Success, V1, M1) else View_Write (drop n d) V1 M1)"
        unfolding View_Write.simps [of d V M] s(5) option.case if_not_P [OF False]
        using V1(2) n by (simp add: V1_def [symmetric] EventChunk_Write_def Let_def n_def [symmetric] M1)
      show ?thesis
      proof (cases "n = length d")
        case True
        with eq wrote show ?thesis by simp
      next
        case more: False
        have W: "EventChunk_Write (take n d) c1 = (Success, c1 @ take n d)" using n by (simp add: EventChunk_Write_def)
        have IH: "view_ok V1 M1 \<Longrightarrow> length (drop n d) \<le> room V1 M1 \<Longrightarrow>
          \<exists>r V2 M2. View_Write (drop n d) V1 M1 = Some (r, V2, M2) \<and> wrote (drop n d) V1 M1 V2 M2 \<and>
            (r \<noteq> Success \<longrightarrow> drop n d = [] \<and> r = InsufficientMemory \<and> room V2 M2 = 0)"
          using 1(1) [OF s(5) False V1_def V1(2) n_def refl W [symmetric] M1] more by simp
        have w: "view_ok V1 M1" "room V1 M1 + n = room V M" using wrote n(2) by (simp_all add: wrote_def)
        then have "length (drop n d) \<le> room V1 M1" using 1(3) by simp
        from IH [OF w(1) this] obtain r V2 M2 where
          "View_Write (drop n d) V1 M1 = Some (r, V2, M2)" "wrote (drop n d) V1 M1 V2 M2" "r \<noteq> Success \<longrightarrow> drop n d = []"
          by blast
        moreover have "drop n d \<noteq> []" using more n(2) by auto
        ultimately show ?thesis using wrote_trans [OF wrote, of "drop n d" V2 M2] eq more by simp
      qed
    qed
  qed
qed

lemma writes_and_then:
  assumes "writes e1 f d1" "writes e2 g d2" "e1 \<Longrightarrow> d2 = [] \<Longrightarrow> e2"
  shows "writes e2 (\<lambda>V M. and_then (f V M) g) (d1 @ d2)"
  unfolding writes_def
proof (intro allI impI)
  fix V M assume V: "view_ok V M" "length (d1 @ d2) \<le> room V M"
  with assms(1) obtain r V1 M1 where
    1: "f V M = Some (r, V1, M1)" "wrote d1 V M V1 M1" "r \<noteq> Success \<longrightarrow> e1 \<and> r = InsufficientMemory \<and> room V1 M1 = 0"
    unfolding writes_def by fastforce
  have V1: "view_ok V1 M1" "length d2 \<le> room V1 M1" using 1(2) V(2) by (simp_all add: wrote_def)
  show "\<exists>r V2 M2. and_then (f V M) g = Some (r, V2, M2) \<and> wrote (d1 @ d2) V M V2 M2 \<and>
      (r \<noteq> Success \<longrightarrow> e2 \<and> r = InsufficientMemory \<and> room V2 M2 = 0)"
  proof (cases "r = Success")
    case True
    from assms(2) V1 obtain r' V2 M2 where
      "g V1 M1 = Some (r', V2, M2)" "wrote d2 V1 M1 V2 M2" "r' \<noteq> Success \<longrightarrow> e2 \<and> r' = InsufficientMemory \<and> room V2 M2 = 0"
      unfolding writes_def by fastforce
    with 1 True wrote_trans [OF 1(2)] show ?thesis by (auto simp: and_then_def)
  next
    case False
    with 1(3) V1(2) have "d2 = []" "e2" using assms(3) by auto
    with 1 False show ?thesis by (auto simp: and_then_def)
  qed
qed

lemma writes_skip: "writes True (\<lambda>V M. Some (Success, V, M)) []"
  by (auto simp: writes_def wrote_Nil)

text \<open>The writers of tokens.\<close>

definition timestamp_bytes :: "EventTimestamp \<Rightarrow> u8 list" where
  "timestamp_bytes stamp =
    (case stamp of
       Full full_time frequency \<Rightarrow> EventTokenHeader EventTokenType_Timestamp 0 # EventTimestampToken frequency full_time
     | LargeDelta delta numBytes \<Rightarrow>
         EventTokenHeader EventTokenType_TimeDelta 0 # numBytes # take (unat numBytes) (put_word 8 delta)
     | SmallDelta delta \<Rightarrow> [])"

lemma length_tokens [simp]:
  "length (EventProviderToken i f t) = 24" "length (EventDataToken e i n) = 16" "length (EventTimestampToken f t) = 16"
  by (simp_all add: EventProviderToken_def EventDataToken_def EventTimestampToken_def)

lemma put_word_Nil [simp]: "put_word n w = [] \<longleftrightarrow> n = 0"
  by (metis length_0_conv length_put_word)

lemma tokens_not_Nil [simp]:
  "EventProviderToken i f t \<noteq> []" "EventDataToken e i n \<noteq> []" "EventTimestampToken f t \<noteq> []"
  by (simp_all add: EventProviderToken_def EventDataToken_def EventTimestampToken_def)

lemma writes_two:
  assumes "d2 \<noteq> []"
  shows "writes False (\<lambda>V M. and_then (View_Write [h] V M) (View_Write d2)) (h # d2)"
  using writes_and_then [OF View_Write_writes [of "[h]"] View_Write_writes [of d2]] assms by simp

lemma WriteEventProviderToken_writes:
  "writes False (WriteEventProviderToken i f t) (EventTokenHeader EventTokenType_Provider 0 # EventProviderToken i f t)"
  unfolding WriteEventProviderToken_def [abs_def] by (rule writes_two) simp

lemma WriteEventDataToken_writes:
  "writes False (WriteEventDataToken delta e i n) (EventTokenHeader EventTokenType_Data delta # EventDataToken e i n)"
  unfolding WriteEventDataToken_def [abs_def] by (rule writes_two) simp

lemma WriteEventTimestampToken_writes:
  "writes False (WriteEventTimestampToken f t) (timestamp_bytes (Full t f))"
  unfolding WriteEventTimestampToken_def [abs_def] timestamp_bytes_def EventTimestamp.case by (rule writes_two) simp

lemma WriteEventTimeDeltaToken_writes:
  assumes "0 < n" "n \<le> 8"
  shows "writes False (WriteEventTimeDeltaToken n delta) (timestamp_bytes (LargeDelta delta n))"
proof -
  let ?d = "take (unat n) (put_word 8 delta)"
  have "?d \<noteq> []" using assms(1) by (simp add: unat_gt_0)
  moreover have "writes False (\<lambda>V M. and_then (View_Write [EventTokenHeader EventTokenType_TimeDelta 0] V M) (View_Write [n]))
      [EventTokenHeader EventTokenType_TimeDelta 0, n]"
    by (rule writes_two) simp
  ultimately have "writes False (\<lambda>V M. and_then (and_then (View_Write [EventTokenHeader EventTokenType_TimeDelta 0] V M) (View_Write [n]))
      (View_Write ?d)) ([EventTokenHeader EventTokenType_TimeDelta 0, n] @ ?d)"
    using writes_and_then [OF _ View_Write_writes [of ?d], of False _ "[EventTokenHeader EventTokenType_TimeDelta 0, n]"] by simp
  moreover have "\<not> 8 < n" using assms(2) by simp
  ultimately show ?thesis
    by (simp add: WriteEventTimeDeltaToken_def [abs_def] timestamp_bytes_def)
qed

end
