(* ===== verification/Event_Items.thy ===== *)
theory Event_Items
  imports Event_Streamer Event_View
begin

text \<open>
  What a provider writes, item by item, and what the machine that reads streams makes of it: the round trip from
  tokens to events.
\<close>

subsection \<open>Items\<close>

datatype stream_item =
    ProviderItem EventProviderId u64 u64
  | StampItem EventTimestamp
  | EventItem u8 u32 u32 "u8 list"

text \<open>The bytes of an item; a small delta has none of its own, it is in the header of the event.\<close>

fun item_bytes :: "stream_item \<Rightarrow> u8 list" where
  "item_bytes (ProviderItem i f t) = EventTokenHeader EventTokenType_Provider 0 # EventProviderToken i f t"
| "item_bytes (StampItem stamp) = timestamp_bytes stamp"
| "item_bytes (EventItem delta e i bytes) =
    EventTokenHeader EventTokenType_Data delta # EventDataToken e i (word_of_nat (length bytes)) @ bytes"

definition items_bytes :: "stream_item list \<Rightarrow> u8 list" where
  "items_bytes items = concat (map item_bytes items)"

lemma items_bytes_simps [simp]:
  "items_bytes [] = []" "items_bytes (it # items) = item_bytes it @ items_bytes items"
  "items_bytes (xs @ ys) = items_bytes xs @ items_bytes ys"
  by (simp_all add: items_bytes_def)

text \<open>What the timer produces, and sizes that fit.\<close>

fun legal_item :: "stream_item \<Rightarrow> bool" where
  "legal_item (ProviderItem i f t) \<longleftrightarrow> True"
| "legal_item (StampItem (LargeDelta delta numBytes)) \<longleftrightarrow> 0 < numBytes \<and> numBytes \<le> 6 \<and> unat delta < 256 ^ unat numBytes"
| "legal_item (StampItem _) \<longleftrightarrow> True"
| "legal_item (EventItem delta e i bytes) \<longleftrightarrow> length bytes < 2 ^ 64"

text \<open>The reading of an item.\<close>

fun item_effect :: "stream_item \<Rightarrow> stream_state \<Rightarrow> event list \<times> stream_state" where
  "item_effect (ProviderItem i f t) S = ([], S\<lparr>ss_providerId := i, ss_timestampFrequency := f, ss_timestamp := t\<rparr>)"
| "item_effect (StampItem (Full t f)) S = ([], S\<lparr>ss_timestampFrequency := f, ss_timestamp := t\<rparr>)"
| "item_effect (StampItem (LargeDelta delta n)) S = ([], S\<lparr>ss_timestamp := ss_timestamp S + delta\<rparr>)"
| "item_effect (StampItem (SmallDelta delta)) S = ([], S)"
| "item_effect (EventItem delta e i bytes) S =
    ([(\<lparr>ei_timestampFrequency = ss_timestampFrequency S,
        ei_timestamp = (if ss_strict S then ss_timestamp S else ss_timestamp S + ucast (delta AND 15) * kEventTimeUnit),
        ei_providerId = ss_providerId S, ei_eventId = e, ei_eventIndex = i, ei_totalPayloadSize = word_of_nat (length bytes)\<rparr>, bytes)], S)"

fun items_effect :: "stream_item list \<Rightarrow> stream_state \<Rightarrow> event list \<times> stream_state" where
  "items_effect [] S = ([], S)"
| "items_effect (it # items) S =
    (fst (item_effect it S) @ fst (items_effect items (snd (item_effect it S))), snd (items_effect items (snd (item_effect it S))))"

lemma items_effect_append:
  "items_effect (xs @ ys) S =
    (fst (items_effect xs S) @ fst (items_effect ys (snd (items_effect xs S))), snd (items_effect ys (snd (items_effect xs S))))"
  by (induction xs arbitrary: S) simp_all

subsection \<open>Reading what was written\<close>

lemma bits_of_header:
  "bits_id (EventTokenHeader tokenId delta) = tokenId AND 15" "bits_delta (EventTokenHeader tokenId delta) = delta AND 15"
proof -
  have m: "(15 :: u8) = mask 4" by (simp add: mask_eq_exp_minus_1)
  show "bits_id (EventTokenHeader tokenId delta) = tokenId AND 15"
    unfolding bits_id_def EventTokenHeader_def m by (rule bit_word_eqI) (auto simp: bit_simps)
  show "bits_delta (EventTokenHeader tokenId delta) = delta AND 15"
    unfolding bits_delta_def EventTokenHeader_def m by (rule bit_word_eqI) (auto simp: bit_simps)
qed

text \<open>A token of a fixed length.\<close>

lemma stream_run_fixed:
  assumes "ss_mode S = Token []" "bits_id h < 4" "bits_id h \<noteq> EventTokenType_TimeDelta" "Suc (length bs) = token_length [h]"
  shows "stream_run (h # bs) S = token_done (h # bs) S"
proof -
  have l: "token_length (h # xs) = token_length [h]" for xs using token_length_prefix [of "[h]" xs] assms(3) by simp
  have "stream_run (h # bs) S = token_done ([] @ h # bs) S"
  proof (rule stream_run_token [OF assms(1)])
    fix i assume i: "0 < i" "i < length (h # bs)"
    then obtain k where "i = Suc k" by (cases i) auto
    with i assms(2-4) l [of "take k bs"] show "in_token ([] @ take i (h # bs)) \<and> (ss_strict S \<longrightarrow> legal_delta ([] @ take i (h # bs)))"
      by (simp add: in_token_def known_token_def legal_delta_def)
  qed (use assms l [of bs] in \<open>simp_all add: known_token_def legal_delta_def\<close>)
  then show ?thesis by simp
qed

lemma item_run_provider:
  "ss_mode S = Token [] \<Longrightarrow> stream_run (item_bytes (ProviderItem i f t)) S =
    ([], S\<lparr>ss_mode := Token [], ss_providerId := i, ss_timestampFrequency := f, ss_timestamp := t\<rparr>)"
  by (simp add: stream_run_fixed bits_of_header token_length_def token_done_def del: stream_run.simps)
    (simp add: EventProviderToken_def field_simps_word)

lemma item_run_full:
  "ss_mode S = Token [] \<Longrightarrow> stream_run (item_bytes (StampItem (Full t f))) S =
    ([], S\<lparr>ss_mode := Token [], ss_timestampFrequency := f, ss_timestamp := t\<rparr>)"
  by (simp add: timestamp_bytes_def stream_run_fixed bits_of_header token_length_def token_done_def del: stream_run.simps)
    (simp add: EventTimestampToken_def field_simps_word)

lemma take_put_word:
  assumes "n \<le> 8" "unat (delta :: u64) < 256 ^ n"
  shows "word_of_nat (le_value (take n (put_word 8 delta))) = delta"
proof -
  have le: "take n (le_bytes m v) = le_bytes n v" if "n \<le> m" for n m v
    using that
  proof (induction n arbitrary: m v)
    case (Suc n)
    then obtain k where "m = Suc k" by (cases m) auto
    with Suc show ?case by simp
  qed simp
  have "take n (put_word 8 delta) = put_word n delta" using le [OF assms(1)] by (simp add: put_word_def)
  moreover have "le_value (put_word n delta) = unat delta mod 256 ^ n" by (simp add: put_word_def)
  ultimately show ?thesis using assms(2) by simp
qed

lemma item_run_delta:
  assumes "ss_mode S = Token []" "legal_item (StampItem (LargeDelta delta n))"
  shows "stream_run (item_bytes (StampItem (LargeDelta delta n))) S = ([], S\<lparr>ss_mode := Token [], ss_timestamp := ss_timestamp S + delta\<rparr>)"
proof -
  let ?h = "EventTokenHeader EventTokenType_TimeDelta 0" and ?d = "take (unat n) (put_word 8 delta)"
  have n: "0 < unat n" "unat n \<le> 6" "unat delta < 256 ^ unat n" "n \<noteq> 0"
    using assms(2) by (auto simp: unat_gt_0 word_le_nat_alt)
  have size: "delta_size n = unat n" using n(2) by (simp add: delta_size_def)
  have h: "bits_id ?h = EventTokenType_TimeDelta" by (simp add: bits_of_header)
  have d: "length ?d = unat n" using n(2) by simp
  have "stream_run (?h # n # ?d) S = token_done ([] @ ?h # n # ?d) S"
  proof (rule stream_run_token [OF assms(1)])
    fix i assume i: "0 < i" "i < length (?h # n # ?d)"
    show "in_token ([] @ take i (?h # n # ?d)) \<and> (ss_strict S \<longrightarrow> legal_delta ([] @ take i (?h # n # ?d)))"
    proof (cases "i = 1")
      case True
      then show ?thesis using h by (simp add: in_token_def known_token_def token_length_def legal_delta_def)
    next
      case False
      then obtain k where "i = Suc (Suc k)" using i(1) by (cases i; cases "i - 1"; auto)
      with i(2) d h n size show ?thesis
        by (simp add: in_token_def known_token_def token_length_def legal_delta_def word_le_nat_alt)
    qed
  qed (use h n size d in \<open>simp_all add: known_token_def token_length_def legal_delta_def word_le_nat_alt\<close>)
  moreover have "get_word 2 (unat n) (?h # n # ?d) = delta"
    using take_put_word [OF _ n(3)] n(2) by (simp add: get_word_def numeral_2_eq_2)
  ultimately show ?thesis using h size by (simp add: timestamp_bytes_def token_done_def del: stream_run.simps)
qed

lemma item_run_event:
  assumes "ss_mode S = Token []" "length bytes < 2 ^ 64"
  shows "stream_run (item_bytes (EventItem delta e i bytes)) S =
    (event_outputs (fst (item_effect (EventItem delta e i bytes) S)), S\<lparr>ss_mode := Token []\<rparr>)"
proof -
  let ?h = "EventTokenHeader EventTokenType_Data delta" and ?t = "EventDataToken e i (word_of_nat (length bytes))"
  define info where "info = fst (hd (fst (item_effect (EventItem delta e i bytes) S)))"
  have size: "unat (word_of_nat (length bytes) :: u64) = length bytes" using assms(2) by (simp add: unat_of_nat)
  have run: "stream_run (?h # ?t) S = token_done (?h # ?t) S"
    using stream_run_fixed [OF assms(1), of ?h ?t] by (simp add: bits_of_header token_length_def)
  have f: "get_word 1 4 (?h # ?t) = e" "get_word 5 4 (?h # ?t) = i" "get_word 9 8 (?h # ?t) = (word_of_nat (length bytes) :: u64)"
    by (simp_all add: EventDataToken_def field_simps_word)
  have tok: "token_done (?h # ?t) S = ([EventBegins info], S\<lparr>ss_mode := payload_mode (length bytes)\<rparr>)"
    using f size by (simp add: token_done_def bits_of_header event_info_def info_def)
  have bytes: "stream_run bytes (S\<lparr>ss_mode := payload_mode (length bytes)\<rparr>) = (map PayloadByte bytes, S\<lparr>ss_mode := Token []\<rparr>)"
  proof (cases "bytes = []")
    case False
    then have "ss_mode (S\<lparr>ss_mode := payload_mode (length bytes)\<rparr>) = Payload (length bytes)" by (simp add: payload_mode_def)
    from stream_run_payload [OF this] False show ?thesis by (simp add: payload_mode_def)
  qed (simp add: payload_mode_def)
  have "stream_run (item_bytes (EventItem delta e i bytes)) S = stream_run ((?h # ?t) @ bytes) S" by simp
  also have "\<dots> = (EventBegins info # map PayloadByte bytes, S\<lparr>ss_mode := Token []\<rparr>)"
    by (subst stream_run_append) (simp only: run tok bytes fst_conv snd_conv append.simps)
  finally show ?thesis by (simp add: event_outputs_def info_def)
qed

lemma item_run:
  assumes "ss_mode S = Token []" "legal_item it"
  shows "stream_run (item_bytes it) S = (event_outputs (fst (item_effect it S)), snd (item_effect it S))"
proof (cases it)
  case (ProviderItem i f t)
  with item_run_provider [OF assms(1)] assms(1) show ?thesis by (simp add: event_outputs_def)
next
  case (StampItem stamp)
  show ?thesis
  proof (cases stamp)
    case (Full t f)
    with StampItem item_run_full [OF assms(1)] assms(1) show ?thesis by (simp add: event_outputs_def)
  next
    case (LargeDelta delta n)
    with StampItem item_run_delta [OF assms(1)] assms show ?thesis by (simp add: event_outputs_def)
  next
    case (SmallDelta delta)
    with StampItem assms(1) show ?thesis by (simp add: event_outputs_def timestamp_bytes_def)
  qed
next
  case (EventItem delta e i bytes)
  with item_run_event [OF assms(1)] assms show ?thesis by simp
qed

lemma item_effect_mode: "ss_mode (snd (item_effect it S)) = ss_mode S"
  by (induction it S rule: item_effect.induct) simp_all

lemma items_run:
  "ss_mode S = Token [] \<Longrightarrow> (\<And>it. it \<in> set items \<Longrightarrow> legal_item it) \<Longrightarrow>
   stream_run (items_bytes items) S = (event_outputs (fst (items_effect items S)), snd (items_effect items S))"
proof (induction items arbitrary: S)
  case (Cons it items)
  from item_run [OF Cons.prems(1), of it] Cons.prems Cons.IH [of "snd (item_effect it S)"] show ?case
    by (simp add: stream_run_append item_effect_mode event_outputs_def)
qed (simp add: event_outputs_def)

lemma item_effect_complete:
  "legal_item it \<Longrightarrow> ev \<in> set (fst (item_effect it S)) \<Longrightarrow> complete_event ev"
  by (induction it S rule: item_effect.induct) (auto simp: complete_event_def unat_of_nat)

lemma items_effect_complete:
  "(\<And>it. it \<in> set items \<Longrightarrow> legal_item it) \<Longrightarrow> ev \<in> set (fst (items_effect items S)) \<Longrightarrow> complete_event ev"
proof (induction items arbitrary: S)
  case (Cons it items)
  then show ?case using item_effect_complete [of it ev S] by auto
qed simp

end
