(* ===== verification/Event_Provider.thy ===== *)
theory Event_Provider
  imports Event_Session
begin

text \<open>
  A provider of events (class \<^verbatim>\<open>BaseEventProvider\<close> of \<^verbatim>\<open>shared/legacy/inc/protocols/ddEventProvider.h\<close> and
  \<^verbatim>\<open>src/protocols/ddEventProvider.cpp\<close>): it borrows chunks from its session, writes events into them and hands
  them over to be sent.  The notifications \<^verbatim>\<open>OnEnable\<close> and \<^verbatim>\<open>OnDisable\<close> of derived classes are left out, and the
  deprecated bit set of single events.  \<open>None\<close> is a use of a session that is not there.
\<close>

record BaseEventProvider =
  ev_id :: EventProviderId
  ev_registered :: bool
  ev_pSession :: "EventServerSession option"
  ev_isEnabled :: bool
  ev_eventTimer :: EventTimer
  ev_flushFrequencyInMs :: u32
  ev_eventDataIndex :: u32
  ev_nextFlushTime :: u64
  ev_eventChunks :: "nat list"

definition new_BaseEventProvider :: "EventProviderId \<Rightarrow> u32 \<Rightarrow> u64 \<Rightarrow> BaseEventProvider" where
  "new_BaseEventProvider providerId flushFrequencyInMs frequency =
    \<lparr>ev_id = providerId, ev_registered = False, ev_pSession = None, ev_isEnabled = False,
     ev_eventTimer = new_EventTimer frequency, ev_flushFrequencyInMs = flushFrequencyInMs, ev_eventDataIndex = 0,
     ev_nextFlushTime = 0, ev_eventChunks = []\<rparr>"

subsection \<open>Chunks\<close>

text \<open>\<^verbatim>\<open>Vector::Remove\<close> of an object: the last element takes the place of one that is removed.\<close>

definition remove_index :: "nat \<Rightarrow> 'a list \<Rightarrow> 'a list" where
  "remove_index index v = butlast (if index \<noteq> length v - 1 then v[index := last v] else v)"

fun remove_loop :: "nat \<Rightarrow> 'a \<Rightarrow> 'a list \<Rightarrow> 'a list" where
  "remove_loop 0 x v = v"
| "remove_loop (Suc index) x v = remove_loop index x (if v ! index = x then remove_index index v else v)"

definition Vector_Remove :: "'a \<Rightarrow> 'a list \<Rightarrow> 'a list" where
  "Vector_Remove x v = remove_loop (length v) x v"

definition Provider_AllocateEventChunk :: "BaseEventProvider \<Rightarrow> (Result \<times> nat \<times> BaseEventProvider) option" where
  "Provider_AllocateEventChunk P =
    Option.bind (ev_pSession P) (\<lambda>S.
      Option.bind (Session_AllocateEventChunk S) (\<lambda>(result, pChunk, S1).
        Some (result, pChunk,
          P\<lparr>ev_pSession := Some S1,
            ev_eventChunks := (if result = Success then ev_eventChunks P @ [pChunk] else ev_eventChunks P)\<rparr>)))"

definition Provider_FreeEventChunk :: "nat \<Rightarrow> BaseEventProvider \<Rightarrow> BaseEventProvider option" where
  "Provider_FreeEventChunk pChunk P =
    map_option (\<lambda>S. P\<lparr>ev_eventChunks := Vector_Remove pChunk (ev_eventChunks P), ev_pSession := Some (Session_FreeEventChunk pChunk S)\<rparr>)
      (ev_pSession P)"

text \<open>Writing through a view into the chunks of the session.\<close>

definition write_view ::
  "(EventChunkBufferView \<Rightarrow> ChunkMemory \<Rightarrow> (Result \<times> EventChunkBufferView \<times> ChunkMemory) option) \<Rightarrow> EventChunkBufferView \<Rightarrow>
   BaseEventProvider \<Rightarrow> (Result \<times> EventChunkBufferView \<times> BaseEventProvider) option" where
  "write_view f V P =
    Option.bind (ev_pSession P) (\<lambda>S.
      map_option (\<lambda>(result, V1, M1). (result, V1, P\<lparr>ev_pSession := Some (S\<lparr>sv_memory := M1\<rparr>)\<rparr>)) (f V (sv_memory S)))"

text \<open>\<open>timestamp\<close> is the clock when the preamble is written.\<close>

definition WriteStreamPreamble :: "u64 \<Rightarrow> nat \<Rightarrow> BaseEventProvider \<Rightarrow> (Result \<times> BaseEventProvider) option" where
  "WriteStreamPreamble timestamp pChunk P =
    (let (stamp, timer) = CreateTimestamp timestamp (EventTimer_Reset (ev_eventTimer P))
     in map_option (\<lambda>(result, V, P1). (result, P1))
          (write_view (WriteEventProviderToken (ev_id P) (full_frequency stamp) (full_timestamp stamp))
             (new_EventChunkBufferView [pChunk]) (P\<lparr>ev_eventTimer := timer\<rparr>)))"

definition BeginEventStream :: "u64 \<Rightarrow> BaseEventProvider \<Rightarrow> (Result \<times> nat \<times> BaseEventProvider) option" where
  "BeginEventStream timestamp P =
    Option.bind (Provider_AllocateEventChunk P) (\<lambda>(result, pChunk, P1).
      if result = Success then
        Option.bind (WriteStreamPreamble timestamp pChunk P1) (\<lambda>(result, P2).
          if result \<noteq> Success then map_option (\<lambda>P3. (result, 0, P3)) (Provider_FreeEventChunk pChunk P2)
          else Some (result, pChunk, P2))
      else Some (result, 0, P1))"

text \<open>The loop that borrows chunks: the chunks so far and the bytes in them.\<close>

lemma AllocateEventChunk_empty:
  "Provider_AllocateEventChunk P = Some (Success, pChunk, P1) \<Longrightarrow> \<exists>S1. ev_pSession P1 = Some S1 \<and> sv_memory S1 pChunk = Some []"
  by (auto simp: Provider_AllocateEventChunk_def Session_AllocateEventChunk_def Let_def bind_eq_Some_conv split: if_splits)

definition bytes_in :: "nat \<Rightarrow> BaseEventProvider \<Rightarrow> nat option" where
  "bytes_in pChunk P = Option.bind (ev_pSession P) (\<lambda>S. map_option CalculateBytesRemaining (sv_memory S pChunk))"

function acquire_loop ::
  "nat \<Rightarrow> nat \<Rightarrow> nat list \<Rightarrow> BaseEventProvider \<Rightarrow> (Result \<times> nat list \<times> BaseEventProvider) option" where
  "acquire_loop numBytesRequired bytesAllocated chunks P =
    (if bytesAllocated < numBytesRequired then
       (case Provider_AllocateEventChunk P of
          None \<Rightarrow> None
        | Some (result, pChunk, P1) \<Rightarrow>
            if result = Success then
              (case bytes_in pChunk P1 of
                 None \<Rightarrow> None
               | Some n \<Rightarrow> acquire_loop numBytesRequired (bytesAllocated + n) (chunks @ [pChunk]) P1)
            else Some (result, chunks, P1))
     else Some (Success, chunks, P))"
  by pat_completeness auto
termination
proof (relation "measure (\<lambda>(m, n, _). m - n)", goal_cases)
  case (2 m n chunks P x result y pChunk P1 k)
  then have "Provider_AllocateEventChunk P = Some (Success, pChunk, P1)" by simp
  with 2(6) AllocateEventChunk_empty [OF this] have "k = kEventChunkMaxDataSize"
    by (auto simp: bytes_in_def CalculateBytesRemaining_def)
  with 2(1) show ?case by (simp add: kEventChunkMaxDataSize_def)
qed simp

declare acquire_loop.simps [simp del]

fun free_chunks :: "nat list \<Rightarrow> BaseEventProvider \<Rightarrow> BaseEventProvider option" where
  "free_chunks [] P = Some P"
| "free_chunks (pChunk # chunks) P = Option.bind (Provider_FreeEventChunk pChunk P) (free_chunks chunks)"

definition AcquireEventChunks ::
  "u64 \<Rightarrow> nat \<Rightarrow> BaseEventProvider \<Rightarrow> (Result \<times> nat list \<times> BaseEventProvider) option" where
  "AcquireEventChunks timestamp numBytesRequired P =
    (let hasExistingData = (ev_eventChunks P \<noteq> []) in
     Option.bind (if hasExistingData then Some (Success, last (ev_eventChunks P), P) else BeginEventStream timestamp P)
       (\<lambda>(result, pChunk, P1).
          if result = Success then
            Option.bind (bytes_in pChunk P1) (\<lambda>n.
              Option.bind (acquire_loop numBytesRequired n [pChunk] P1) (\<lambda>(result, chunks, P2).
                if result \<noteq> Success
                then map_option (\<lambda>P3. (result, [], P3)) (free_chunks (drop (if hasExistingData then 1 else 0) chunks) P2)
                else Some (result, chunks, P2)))
          else Some (result, [], P1)))"

subsection \<open>Flushing\<close>

definition Provider_Flush :: "BaseEventProvider \<Rightarrow> BaseEventProvider option" where
  "Provider_Flush P =
    (if ev_eventChunks P \<noteq> [] then
       Option.bind (ev_pSession P) (\<lambda>S.
         map_option (\<lambda>S1. P\<lparr>ev_pSession := Some S1, ev_eventChunks := []\<rparr>) (EnqueueEventChunks (ev_eventChunks P) S))
     else Some P)"

definition UpdateFlushTimer :: "u64 \<Rightarrow> BaseEventProvider \<Rightarrow> BaseEventProvider option" where
  "UpdateFlushTimer currentTime P =
    (if ev_flushFrequencyInMs P > 0 \<and> currentTime \<ge> ev_nextFlushTime P
     then Provider_Flush (P\<lparr>ev_nextFlushTime := currentTime + ucast (ev_flushFrequencyInMs P)\<rparr>)
     else Some P)"

text \<open>\<open>locked\<close>: another thread holds the mutex of the chunks.\<close>

definition Provider_Update :: "u64 \<Rightarrow> bool \<Rightarrow> BaseEventProvider \<Rightarrow> BaseEventProvider option" where
  "Provider_Update currentTime locked P = (if locked then Some P else UpdateFlushTimer currentTime P)"

subsection \<open>Registration and sessions\<close>

definition Provider_Enable :: "BaseEventProvider \<Rightarrow> BaseEventProvider" where
  "Provider_Enable P = P\<lparr>ev_isEnabled := True\<rparr>"

definition Provider_Disable :: "BaseEventProvider \<Rightarrow> BaseEventProvider option" where
  "Provider_Disable P = (if ev_isEnabled P then map_option (\<lambda>P1. P1\<lparr>ev_isEnabled := False\<rparr>) (Provider_Flush P) else Some P)"

definition Provider_Register :: "BaseEventProvider \<Rightarrow> BaseEventProvider" where
  "Provider_Register P = P\<lparr>ev_registered := True\<rparr>"

definition Provider_Unregister :: "BaseEventProvider \<Rightarrow> BaseEventProvider option" where
  "Provider_Unregister P = map_option (\<lambda>P1. P1\<lparr>ev_registered := False\<rparr>) (Provider_Flush P)"

definition AcquireSession :: "EventServerSession \<Rightarrow> BaseEventProvider \<Rightarrow> BaseEventProvider" where
  "AcquireSession pSession P = P\<lparr>ev_pSession := Some pSession\<rparr>"

definition ResetSession :: "BaseEventProvider \<Rightarrow> EventServerSession option \<times> BaseEventProvider" where
  "ResetSession P = (ev_pSession P, P\<lparr>ev_pSession := None\<rparr>)"

definition QueryEventWriteStatus :: "BaseEventProvider \<Rightarrow> Result" where
  "QueryEventWriteStatus P =
    (let result = (if ev_registered P then Success else Unavailable)
     in if result = Success then (if ev_isEnabled P then Success else Rejected) else result)"

subsection \<open>Writing events\<close>

text \<open>The small delta goes into the header of the event; the other two kinds are tokens of their own.\<close>

definition GenerateEventTimestamp ::
  "u64 \<Rightarrow> EventChunkBufferView \<Rightarrow> BaseEventProvider \<Rightarrow> (Result \<times> u8 \<times> EventChunkBufferView \<times> BaseEventProvider) option" where
  "GenerateEventTimestamp timestamp V P =
    (let (stamp, timer) = CreateTimestamp timestamp (ev_eventTimer P);
         P1 = P\<lparr>ev_eventTimer := timer\<rparr>
     in
     case stamp of
       Full full_time frequency \<Rightarrow>
         map_option (\<lambda>(result, V1, P2). (result, 0, V1, P2)) (write_view (WriteEventTimestampToken frequency full_time) V P1)
     | LargeDelta delta numBytes \<Rightarrow>
         map_option (\<lambda>(result, V1, P2). (result, 0, V1, P2)) (write_view (WriteEventTimeDeltaToken numBytes delta) V P1)
     | SmallDelta delta \<Rightarrow> Some (Success, delta, V, P1))"

text \<open>The times of one write: the clock of the preamble and of the event, and the time of the flush timer.\<close>

record WriteTimes =
  wt_preamble :: u64
  wt_event :: u64
  wt_flush :: u64

text \<open>Writing an event into the chunks.\<close>

definition write_event ::
  "u64 \<Rightarrow> u32 \<Rightarrow> u8 list option \<Rightarrow> u8 list \<Rightarrow> u64 \<Rightarrow> EventChunkBufferView \<Rightarrow> BaseEventProvider \<Rightarrow> (Result \<times> BaseEventProvider) option" where
  "write_event timestamp eventId pHeaderData pEventData totalEventSize V P =
    Option.bind (GenerateEventTimestamp timestamp V P) (\<lambda>(result, smallDelta, V1, P1).
      if result = Success then
        map_option (\<lambda>(result, V2, P2). (result, P2))
          (write_view
            (\<lambda>V M. and_then (and_then (WriteEventDataToken smallDelta eventId (ev_eventDataIndex P1) totalEventSize V M)
                     (\<lambda>V M. case pHeaderData of Some pHeader \<Rightarrow> View_Write pHeader V M | None \<Rightarrow> Some (Success, V, M)))
                     (View_Write pEventData))
            V1 P1)
      else Some (result, P1))"

definition WriteEventWithHeader ::
  "WriteTimes \<Rightarrow> u32 \<Rightarrow> u8 list option \<Rightarrow> u8 list \<Rightarrow> BaseEventProvider \<Rightarrow> (Result \<times> BaseEventProvider) option" where
  "WriteEventWithHeader t eventId pHeaderData pEventData P =
    (let headerSize = (case pHeaderData of Some pHeader \<Rightarrow> length pHeader | None \<Rightarrow> 0);
         totalEventSize = headerSize + length pEventData;
         requiredSize = CalculateWorstCaseSize totalEventSize
     in
     if QueryEventWriteStatus P = Success then
       Option.bind (AcquireEventChunks (wt_preamble t) requiredSize P) (\<lambda>(result, chunks, P1).
         Option.bind
           (if result = Success
            then write_event (wt_event t) eventId pHeaderData pEventData (word_of_nat totalEventSize)
                   (new_EventChunkBufferView chunks) P1
            else Some (result, P1))
           (\<lambda>(result, P2).
              map_option (\<lambda>P3. (result, P3\<lparr>ev_eventDataIndex := ev_eventDataIndex P3 + 1\<rparr>))
                (if result = Success then UpdateFlushTimer (wt_flush t) P2 else Some P2)))
     else Some (QueryEventWriteStatus P, P))"

definition WriteEvent :: "WriteTimes \<Rightarrow> u32 \<Rightarrow> u8 list \<Rightarrow> BaseEventProvider \<Rightarrow> (Result \<times> BaseEventProvider) option" where
  "WriteEvent t eventId pEventData P = WriteEventWithHeader t eventId None pEventData P"

end
