(* ===== verification/Event_Written.thy ===== *)
theory Event_Written
  imports Event_Items Event_Provider
begin

text \<open>
  What writing an event does: the bytes of its items are appended to the stream of the provider, whether they are
  still in its chunks, queued or sent.
\<close>

subsection \<open>Time stamps\<close>

lemma delta_mask:
  assumes "n < 8"
  shows "unat (push_bit (n * 8) 1 - 1 :: u64) = 256 ^ n - 1"
proof -
  have "n = 0 \<or> n = 1 \<or> n = 2 \<or> n = 3 \<or> n = 4 \<or> n = 5 \<or> n = 6 \<or> n = 7" using assms by linarith
  then show ?thesis by (elim disjE) simp_all
qed

lemma delta_bytes_bounds:
  "n \<le> 8 \<Longrightarrow> n \<le> delta_bytes n d \<and> (delta_bytes n d < 8 \<longrightarrow> unat d < 256 ^ delta_bytes n d) \<and>
     (\<forall>m. n \<le> m \<longrightarrow> m < delta_bytes n d \<longrightarrow> 256 ^ m \<le> unat d)"
proof (induction n d rule: delta_bytes.induct)
  case (1 n d)
  show ?case
  proof (cases "n < 8 \<and> push_bit (n * 8) 1 - 1 < d")
    case True
    then have eq: "delta_bytes n d = delta_bytes (Suc n) d" by (subst delta_bytes.simps) simp
    have "256 ^ n - 1 < unat d" using True delta_mask [of n] by (simp add: word_less_nat_alt)
    then have "256 ^ n \<le> unat d" by simp
    moreover have "Suc n \<le> m" if "n \<le> m" "m \<noteq> n" for m using that by simp
    ultimately show ?thesis unfolding eq using 1(1) [OF True] True by (metis Suc_leD Suc_le_eq)
  next
    case False
    then have eq: "delta_bytes n d = n" by (subst delta_bytes.simps) auto
    have "unat d < 256 ^ n" if "n < 8"
    proof -
      have "unat d \<le> 256 ^ n - 1" using False that delta_mask [of n] by (simp add: word_less_nat_alt)
      then show ?thesis by (simp add: le_less_trans)
    qed
    then show ?thesis unfolding eq by auto
  qed
qed

lemma delta_bytes_small:
  assumes "d \<le> kEventTimestampThreshold"
  shows "0 < delta_bytes 1 d" "delta_bytes 1 d \<le> 6" "unat d < 256 ^ delta_bytes 1 d"
proof -
  note b = delta_bytes_bounds [of 1 d]
  have "unat d < 256 ^ 6" using assms by (simp add: kEventTimestampThreshold_def word_le_nat_alt)
  then show small: "delta_bytes 1 d \<le> 6" using b by (metis le_less_linear less_le_not_le one_le_numeral)
  show "0 < delta_bytes 1 d" using b by simp
  show "unat d < 256 ^ delta_bytes 1 d" using b small by simp
qed

lemma CreateTimestamp_legal:
  "legal_item (StampItem (fst (CreateTimestamp timestamp t)))" "length (timestamp_bytes (fst (CreateTimestamp timestamp t))) \<le> 17"
proof -
  define d where "d = (timestamp - m_lastTimestamp t) div kEventTimeUnit"
  have n: "unat (word_of_nat (delta_bytes 1 d) :: u8) = delta_bytes 1 d" if "d \<le> kEventTimestampThreshold"
    using delta_bytes_small(2) [OF that] by (simp add: unat_of_nat)
  have *: "legal_item (StampItem (LargeDelta d (word_of_nat (delta_bytes 1 d))))" if "d \<le> kEventTimestampThreshold"
    using delta_bytes_small [OF that] n [OF that] by (simp add: word_le_nat_alt word_less_nat_alt)
  show "legal_item (StampItem (fst (CreateTimestamp timestamp t)))"
    using * by (auto simp: CreateTimestamp_def Let_def d_def [symmetric] not_less)
  show "length (timestamp_bytes (fst (CreateTimestamp timestamp t))) \<le> 17"
    by (auto simp: CreateTimestamp_def Let_def timestamp_bytes_def)
qed

lemma CreateTimestamp_reset:
  "CreateTimestamp timestamp (EventTimer_Reset t) =
    (Full (timestamp div kEventTimeUnit) (m_timestampFrequency t), t\<lparr>m_lastTimestamp := timestamp\<rparr>)"
  by (simp add: CreateTimestamp_def EventTimer_Reset_def Let_def)

subsection \<open>Removing from a vector\<close>

lemma remove_loop_absent: "x \<notin> set v \<Longrightarrow> n \<le> length v \<Longrightarrow> remove_loop n x v = v"
proof (induction n)
  case (Suc n)
  then have "v ! n \<in> set v" by simp
  with Suc show ?case by (cases "v ! n = x") auto
qed simp

lemma remove_index_append:
  "index < length ps \<Longrightarrow> remove_index (length keep + index) (keep @ ps) = keep @ remove_index index ps"
  by (auto simp: remove_index_def butlast_append list_update_append)

lemma remove_index_set:
  assumes "distinct v" "index < length v"
  shows "distinct (remove_index index v)" "set (remove_index index v) = set v - {v ! index}" "length (remove_index index v) = length v - 1"
proof -
  have ne: "v \<noteq> []" using assms(2) by auto
  then obtain us x where v: "v = us @ [x]" by (cases v rule: rev_cases) auto
  show "length (remove_index index v) = length v - 1" by (simp add: remove_index_def)
  show "distinct (remove_index index v)" "set (remove_index index v) = set v - {v ! index}"
    using assms unfolding v
    by (auto simp: remove_index_def butlast_append list_update_append nth_append set_update_distinct distinct_list_update)
qed

lemma Vector_Remove_distinct:
  assumes "distinct v" "index < length v"
  shows "Vector_Remove (v ! index) v = remove_index index v"
proof -
  have "remove_loop n (v ! index) v = remove_index index v" if "index < n" "n \<le> length v" for n
    using that
  proof (induction n)
    case (Suc n)
    show ?case
    proof (cases "n = index")
      case True
      have "remove_loop index (v ! index) (remove_index index v) = remove_index index v"
        by (rule remove_loop_absent) (use remove_index_set [OF assms] assms(2) in auto)
      with True show ?thesis by simp
    next
      case False
      then have "v ! n \<noteq> v ! index" using assms Suc.prems by (simp add: nth_eq_iff_index_eq)
      with Suc False show ?thesis by simp
    qed
  qed simp
  then show ?thesis using assms(2) by (simp add: Vector_Remove_def)
qed

subsection \<open>The stream of a provider\<close>

definition the_session :: "BaseEventProvider \<Rightarrow> EventServerSession" where
  "the_session P = the (ev_pSession P)"

definition provider_ok :: "BaseEventProvider \<Rightarrow> bool" where
  "provider_ok P \<longleftrightarrow> ev_pSession P \<noteq> None \<and> owned (ev_eventChunks P) (the_session P)"

definition provider_memory :: "BaseEventProvider \<Rightarrow> ChunkMemory" where
  "provider_memory P = sv_memory (the_session P)"

definition provider_stream :: "BaseEventProvider \<Rightarrow> u8 list" where
  "provider_stream P = session_stream (the_session P) @ chunk_bytes (provider_memory P) (ev_eventChunks P)"

text \<open>What borrowing and writing leave alone.\<close>

definition steady :: "BaseEventProvider \<Rightarrow> BaseEventProvider \<Rightarrow> bool" where
  "steady P Q \<longleftrightarrow> ev_id Q = ev_id P \<and> ev_registered Q = ev_registered P \<and> ev_isEnabled Q = ev_isEnabled P \<and>
    ev_flushFrequencyInMs Q = ev_flushFrequencyInMs P \<and> ev_eventDataIndex Q = ev_eventDataIndex P \<and>
    m_timestampFrequency (ev_eventTimer Q) = m_timestampFrequency (ev_eventTimer P) \<and>
    sent_data (the_session Q) = sent_data (the_session P) \<and> session_stream (the_session Q) = session_stream (the_session P)"

lemma steady_refl [simp]: "steady P P"
  and steady_trans: "steady P Q \<Longrightarrow> steady Q R \<Longrightarrow> steady P R"
  by (simp_all add: steady_def)

text \<open>Chunks \<open>new\<close> are borrowed, all empty.\<close>

definition lends :: "nat list \<Rightarrow> BaseEventProvider \<Rightarrow> BaseEventProvider \<Rightarrow> bool" where
  "lends new P Q \<longleftrightarrow> provider_ok Q \<and> steady P Q \<and>
    ev_eventChunks Q = ev_eventChunks P @ new \<and> (\<forall>p \<in> set new. provider_memory Q p = Some []) \<and>
    (\<forall>p \<in> set (ev_eventChunks P). provider_memory Q p = provider_memory P p)"

lemma lends_refl: "provider_ok P \<Longrightarrow> lends [] P P"
  by (simp add: lends_def)

lemma lends_trans: "lends xs P Q \<Longrightarrow> lends ys Q R \<Longrightarrow> lends (xs @ ys) P R"
  using steady_trans [of P Q R] by (auto simp: lends_def)

lemma lends_stream: "lends new P Q \<Longrightarrow> provider_stream Q = provider_stream P"
  using chunk_bytes_cong [of "ev_eventChunks P" "provider_memory Q" "provider_memory P"] chunk_bytes_empty [of new "provider_memory Q"]
  by (simp add: lends_def provider_stream_def steady_def)

lemma Session_AllocateEventChunk_ok:
  assumes "owned own S"
  shows "Session_AllocateEventChunk S = Some (InsufficientMemory, 0, S) \<or>
    (\<exists>q T. Session_AllocateEventChunk S = Some (Success, q, T) \<and> owned (own @ [q]) T \<and> sv_memory T q = Some [] \<and>
       session_stream T = session_stream S \<and> sent_data T = sent_data S \<and> (\<forall>p \<in> set own. sv_memory T p = sv_memory S p))"
proof (cases "sv_eventChunkPool S = []")
  case False
  then obtain pool q where pool: "sv_eventChunkPool S = pool @ [q]" by (cases "sv_eventChunkPool S" rule: rev_cases) auto
  then have q: "sv_memory S q \<noteq> None" "q \<notin> set own" "q \<notin> set (sv_eventChunkQueue S)" "q \<notin> set (current_chunks S)"
    using assms by (auto simp: owned_def session_chunks_def chunk_ok_def)
  define T where "T = S\<lparr>sv_eventChunkPool := pool, sv_memory := (sv_memory S)(q \<mapsto> [])\<rparr>"
  have "Session_AllocateEventChunk S = Some (Success, q, T)"
    using q(1) by (simp add: Session_AllocateEventChunk_def pool T_def)
  moreover have "owned (own @ [q]) T"
    using assms pool by (auto simp: T_def owned_def session_chunks_def current_chunks_def chunk_ok_def pending_data_def)
  moreover have "session_stream T = session_stream S" "sent_data T = sent_data S"
    using q by (simp_all add: T_def session_stream_def sent_data_def pending_data_def unsent_data_def current_chunks_def)
  moreover have "\<forall>p \<in> set own. sv_memory T p = sv_memory S p" using q(2) by (auto simp: T_def)
  ultimately show ?thesis by (simp add: T_def)
next
  case True
  define q where "q = sv_nextAddress S"
  have none: "sv_memory S q = None" using assms by (simp add: owned_def q_def)
  then have q: "q \<notin> set own" "q \<notin> set (session_chunks S)"
    using owned_chunk [OF assms, of q] by (auto simp: chunk_ok_def)
  define T where "T = S\<lparr>sv_memory := (sv_memory S)(q \<mapsto> []), sv_nextAddress := Suc q\<rparr>"
  show ?thesis
  proof (cases "sv_allocates S q")
    case ok: True
    then have "Session_AllocateEventChunk S = Some (Success, q, T)"
      using True by (simp add: Session_AllocateEventChunk_def q_def T_def Let_def)
    moreover have "owned (own @ [q]) T"
      using assms q by (auto simp: T_def owned_def session_chunks_def current_chunks_def chunk_ok_def pending_data_def q_def)
    moreover have "session_stream T = session_stream S" "sent_data T = sent_data S"
      using q by (simp_all add: T_def session_stream_def sent_data_def pending_data_def unsent_data_def current_chunks_def session_chunks_def)
    moreover have "\<forall>p \<in> set own. sv_memory T p = sv_memory S p" using q(1) by (auto simp: T_def)
    ultimately show ?thesis by (simp add: T_def)
  qed (simp add: Session_AllocateEventChunk_def True q_def)
qed

lemma Provider_AllocateEventChunk_ok:
  assumes "provider_ok P"
  shows "Provider_AllocateEventChunk P = Some (InsufficientMemory, 0, P) \<or>
    (\<exists>q Q. Provider_AllocateEventChunk P = Some (Success, q, Q) \<and> lends [q] P Q \<and> ev_eventTimer Q = ev_eventTimer P \<and>
       q \<notin> set (ev_eventChunks P))"
proof -
  from assms obtain S where S: "ev_pSession P = Some S" "owned (ev_eventChunks P) S" by (auto simp: provider_ok_def the_session_def)
  have upd: "P\<lparr>ev_pSession := Some S, ev_eventChunks := ev_eventChunks P\<rparr> = P" by (simp add: S(1) [symmetric])
  from Session_AllocateEventChunk_ok [OF S(2)] show ?thesis
  proof (elim disjE exE conjE)
    assume "Session_AllocateEventChunk S = Some (InsufficientMemory, 0, S)"
    then show ?thesis by (simp add: Provider_AllocateEventChunk_def S(1) upd)
  next
    fix q T assume *: "Session_AllocateEventChunk S = Some (Success, q, T)" "owned (ev_eventChunks P @ [q]) T" "sv_memory T q = Some []"
      "session_stream T = session_stream S" "sent_data T = sent_data S" "\<forall>p \<in> set (ev_eventChunks P). sv_memory T p = sv_memory S p"
    then have "q \<notin> set (ev_eventChunks P)" by (simp add: owned_def)
    with * S show ?thesis
      by (simp add: Provider_AllocateEventChunk_def lends_def provider_ok_def steady_def the_session_def provider_memory_def)
  qed
qed

lemma bytes_in_chunk:
  assumes "provider_ok P" "p \<in> set (ev_eventChunks P)"
  shows "bytes_in p P = Some (kEventChunkMaxDataSize - length (the (provider_memory P p)))"
proof -
  have "chunk_ok (provider_memory P) p"
    using assms owned_chunk(1) by (auto simp: provider_ok_def provider_memory_def)
  then show ?thesis
    using assms(1) by (auto simp: bytes_in_def chunk_ok_def provider_ok_def provider_memory_def the_session_def CalculateBytesRemaining_def)
qed

lemma acquire_loop_ok:
  assumes "provider_ok P" "n = rooms (provider_memory P) chunks" "set chunks \<subseteq> set (ev_eventChunks P)"
  shows "\<exists>r new Q. acquire_loop m n chunks P = Some (r, chunks @ new, Q) \<and> lends new P Q \<and> ev_eventTimer Q = ev_eventTimer P \<and>
    (r = Success \<and> m \<le> rooms (provider_memory Q) (chunks @ new) \<or> r = InsufficientMemory)"
  using assms
proof (induction "m - n" arbitrary: n chunks P rule: less_induct)
  case less
  show ?case
  proof (cases "n < m")
    case False
    then show ?thesis
      using less.prems lends_refl [OF less.prems(1)] by (simp add: acquire_loop.simps)
  next
    case True
    from Provider_AllocateEventChunk_ok [OF less.prems(1)] show ?thesis
    proof (elim disjE exE conjE)
      assume "Provider_AllocateEventChunk P = Some (InsufficientMemory, 0, P)"
      with True lends_refl [OF less.prems(1)] show ?thesis
        by (simp add: acquire_loop.simps [of m n])
    next
      fix q Q assume q: "Provider_AllocateEventChunk P = Some (Success, q, Q)" "lends [q] P Q" "ev_eventTimer Q = ev_eventTimer P"
        "q \<notin> set (ev_eventChunks P)"
      have Q: "provider_ok Q" "q \<in> set (ev_eventChunks Q)" "provider_memory Q q = Some []" using q(2) by (simp_all add: lends_def)
      have same: "rooms (provider_memory Q) chunks = rooms (provider_memory P) chunks"
        using q(2) less.prems(3) by (simp add: rooms_def lends_def subset_iff cong: map_cong)
      let ?n = "n + kEventChunkMaxDataSize"
      have "acquire_loop m n chunks P = acquire_loop m ?n (chunks @ [q]) Q"
        using True q(1) bytes_in_chunk [OF Q(1,2)] Q(3) by (subst acquire_loop.simps) simp
      moreover have "?n = rooms (provider_memory Q) (chunks @ [q])"
        using less.prems(2) same Q(3) by (simp add: rooms_def)
      moreover have "set (chunks @ [q]) \<subseteq> set (ev_eventChunks Q)" using less.prems(3) q(2) by (auto simp: lends_def)
      moreover have "m - ?n < m - n" using True by (simp add: kEventChunkMaxDataSize_def)
      ultimately obtain r new R where R: "acquire_loop m n chunks P = Some (r, (chunks @ [q]) @ new, R)" "lends new Q R"
        "ev_eventTimer R = ev_eventTimer Q" "r = Success \<and> m \<le> rooms (provider_memory R) ((chunks @ [q]) @ new) \<or> r = InsufficientMemory"
        using less.hyps [of ?n Q "chunks @ [q]"] Q(1) by auto
      with lends_trans [OF q(2) R(2)] q(3) show ?thesis
        by (intro exI [of _ r] exI [of _ "q # new"] exI [of _ R]) simp
    qed
  qed
qed

subsection \<open>Giving chunks back\<close>

text \<open>The chunks after \<open>keep\<close> have been given back; what was in them is gone.\<close>

definition kept :: "nat list \<Rightarrow> BaseEventProvider \<Rightarrow> BaseEventProvider \<Rightarrow> bool" where
  "kept keep P Q \<longleftrightarrow> provider_ok Q \<and> steady P Q \<and> ev_eventTimer Q = ev_eventTimer P \<and>
    (\<forall>p \<in> set keep. provider_memory Q p = provider_memory P p)"

lemma Session_FreeEventChunk_ok:
  assumes "owned (own @ [q]) S"
  shows "owned own (Session_FreeEventChunk q S)" "session_stream (Session_FreeEventChunk q S) = session_stream S"
    "sent_data (Session_FreeEventChunk q S) = sent_data S" "p \<noteq> q \<Longrightarrow> sv_memory (Session_FreeEventChunk q S) p = sv_memory S p"
  using assms
  by (auto simp: owned_def session_chunks_def current_chunks_def pending_data_def Session_FreeEventChunk_def free_memory_def chunk_ok_def
      session_stream_def sent_data_def unsent_data_def)

lemma owned_perm:
  "owned xs S \<Longrightarrow> set ys = set xs \<Longrightarrow> distinct ys \<Longrightarrow> owned ys S"
  by (auto simp: owned_def)

lemma Provider_FreeEventChunk_ok:
  assumes "provider_ok P" "ev_eventChunks P = keep @ ps" "q \<in> set ps"
  shows "\<exists>Q ps'. Provider_FreeEventChunk q P = Some Q \<and> kept keep P Q \<and> ev_eventChunks Q = keep @ ps' \<and> set ps' = set ps - {q}"
proof -
  from assms(1) obtain S where S: "ev_pSession P = Some S" "owned (keep @ ps) S"
    by (auto simp: provider_ok_def the_session_def assms(2))
  then have dist: "distinct (keep @ ps)" by (auto simp: owned_def)
  from assms(3) obtain i where i: "i < length ps" "ps ! i = q" by (auto simp: in_set_conv_nth)
  have "(keep @ ps) ! (length keep + i) = q" using i by simp
  then have v: "Vector_Remove q (keep @ ps) = keep @ remove_index i ps"
    using Vector_Remove_distinct [OF dist, of "length keep + i"] remove_index_append [OF i(1), of keep] i(1) by simp
  have ri: "distinct (remove_index i ps)" "set (remove_index i ps) = set ps - {q}"
    using remove_index_set [of ps i] dist i by simp_all
  define T where "T = Session_FreeEventChunk q S"
  have "owned ((keep @ remove_index i ps) @ [q]) S"
    using owned_perm [OF S(2), of "(keep @ remove_index i ps) @ [q]"] ri dist assms(3) by auto
  note T = Session_FreeEventChunk_ok [OF this, folded T_def]
  have "q \<notin> set keep" using dist assms(3) by auto
  then have "\<forall>p \<in> set keep. sv_memory T p = sv_memory S p" using T(4) by metis
  then show ?thesis
    using S(1) T v assms(2) ri(2)
    by (intro exI [of _ "P\<lparr>ev_eventChunks := keep @ remove_index i ps, ev_pSession := Some T\<rparr>"] exI [of _ "remove_index i ps"])
      (simp add: Provider_FreeEventChunk_def kept_def provider_ok_def steady_def the_session_def provider_memory_def T_def)
qed

lemma kept_trans: "kept keep P Q \<Longrightarrow> kept keep Q R \<Longrightarrow> kept keep P R"
  using steady_trans [of P Q R] by (simp add: kept_def)

lemma free_chunks_ok:
  "provider_ok P \<Longrightarrow> ev_eventChunks P = keep @ ps \<Longrightarrow> set qs = set ps \<Longrightarrow> distinct qs \<Longrightarrow>
   \<exists>Q. free_chunks qs P = Some Q \<and> kept keep P Q \<and> ev_eventChunks Q = keep"
proof (induction qs arbitrary: P ps)
  case Nil
  then show ?case by (simp add: kept_def)
next
  case (Cons q qs)
  from Provider_FreeEventChunk_ok [OF Cons.prems(1,2), of q] Cons.prems(3) obtain Q ps' where
    Q: "Provider_FreeEventChunk q P = Some Q" "kept keep P Q" "ev_eventChunks Q = keep @ ps'" "set ps' = set ps - {q}" by auto
  moreover have "set qs = set ps'" using Cons.prems(3,4) Q(4) by auto
  ultimately show ?case
    using Cons.IH [of Q ps'] Cons.prems(4) kept_trans [OF Q(2)] by (auto simp: kept_def)
qed

subsection \<open>Writing into the chunks that were borrowed\<close>

text \<open>A view of the last chunks of the provider.\<close>

definition views :: "EventChunkBufferView \<Rightarrow> BaseEventProvider \<Rightarrow> bool" where
  "views V P \<longleftrightarrow> provider_ok P \<and> view_ok V (provider_memory P) \<and> (\<exists>keep. ev_eventChunks P = keep @ m_ppChunkList V)"

lemma write_view_ok:
  assumes "writes e f d" "views V P" "length d \<le> room V (provider_memory P)"
  shows "\<exists>r V1 Q. write_view f V P = Some (r, V1, Q) \<and> views V1 Q \<and> steady P Q \<and> ev_eventTimer Q = ev_eventTimer P \<and>
    ev_eventChunks Q = ev_eventChunks P \<and> provider_stream Q = provider_stream P @ d \<and>
    room V1 (provider_memory Q) + length d = room V (provider_memory P) \<and> (r \<noteq> Success \<longrightarrow> e \<and> r = InsufficientMemory)"
proof -
  from assms(2) obtain S keep where S: "ev_pSession P = Some S" "owned (ev_eventChunks P) S" "view_ok V (sv_memory S)"
    "ev_eventChunks P = keep @ m_ppChunkList V"
    by (auto simp: views_def provider_ok_def the_session_def provider_memory_def)
  with assms(1,3) obtain r V1 M1 where w: "f V (sv_memory S) = Some (r, V1, M1)" "wrote d V (sv_memory S) V1 M1"
    "r \<noteq> Success \<longrightarrow> e \<and> r = InsufficientMemory \<and> room V1 M1 = 0"
    unfolding writes_def by (fastforce simp: provider_memory_def the_session_def)
  define T where "T = S\<lparr>sv_memory := M1\<rparr>"
  define Q where "Q = P\<lparr>ev_pSession := Some T\<rparr>"
  let ?l = "m_ppChunkList V"
  have other: "M1 p = sv_memory S p" if "p \<notin> set ?l" for p using w(2) that by (simp add: wrote_def)
  have dist: "distinct (ev_eventChunks P @ session_chunks S)" using S(2) by (simp add: owned_def)
  have M1: "chunk_bytes M1 ?l = chunk_bytes (sv_memory S) ?l @ d" "view_ok V1 M1" "m_ppChunkList V1 = ?l"
    "\<And>p. M1 p = None \<longleftrightarrow> sv_memory S p = None"
    using w(2) by (simp_all add: wrote_def)
  have ok: "chunk_ok M1 p" if "p \<in> set (ev_eventChunks P @ session_chunks S)" for p
  proof (cases "p \<in> set ?l")
    case True
    then show ?thesis using M1(2,3) by (simp add: view_ok_def)
  next
    case False
    with other [OF this] owned_chunk [OF S(2), of p] that show ?thesis by (auto simp: chunk_ok_def)
  qed
  have own: "owned (ev_eventChunks P) T"
    using S(2) ok M1(4) by (simp add: owned_def T_def session_chunks_def current_chunks_def pending_data_def)
  have sess: "chunk_bytes M1 (sv_eventChunkQueue S) = chunk_bytes (sv_memory S) (sv_eventChunkQueue S)"
    "chunk_bytes M1 (current_chunks S) = chunk_bytes (sv_memory S) (current_chunks S)"
    by (rule chunk_bytes_cong, rule other, use dist S(4) in \<open>auto simp: session_chunks_def\<close>)+
  have keep: "chunk_bytes M1 keep = chunk_bytes (sv_memory S) keep"
    by (rule chunk_bytes_cong, rule other, use dist S(4) in auto)
  have stream: "session_stream T = session_stream S" "sent_data T = sent_data S"
    using sess by (simp_all add: T_def session_stream_def sent_data_def pending_data_def unsent_data_def current_chunks_def)
  have "provider_stream Q = provider_stream P @ d"
    using S(1,4) stream keep M1(1) by (simp add: Q_def provider_stream_def the_session_def provider_memory_def) (simp add: T_def)
  moreover have "views V1 Q" using own M1(2,3) S(4) by (simp add: views_def Q_def provider_ok_def the_session_def provider_memory_def) (simp add: T_def)
  moreover have "room V1 (provider_memory Q) + length d = room V (provider_memory P)"
    using w(2) S(1) by (simp add: wrote_def Q_def provider_memory_def the_session_def T_def)
  moreover have "steady P Q" using stream S(1) by (simp add: steady_def Q_def the_session_def)
  moreover have "write_view f V P = Some (r, V1, Q)" using S(1) w(1) by (simp add: write_view_def Q_def T_def)
  ultimately show ?thesis using w(3) by (intro exI [of _ r] exI [of _ V1] exI [of _ Q]) (simp add: Q_def)
qed

text \<open>A view of chunks of which only the first holds data.\<close>

lemma new_view:
  assumes "provider_ok P" "ev_eventChunks P = keep @ p # new" "\<forall>q \<in> set new. provider_memory P q = Some []"
  shows "views (new_EventChunkBufferView (p # new)) P"
    "room (new_EventChunkBufferView (p # new)) (provider_memory P) = rooms (provider_memory P) (p # new)"
  using assms
  by (auto simp: views_def view_ok_def new_EventChunkBufferView_def provider_ok_def owned_def provider_memory_def room_def)

subsection \<open>Borrowing enough chunks\<close>

definition preamble :: "u64 \<Rightarrow> BaseEventProvider \<Rightarrow> stream_item list" where
  "preamble timestamp P =
    (if ev_eventChunks P = []
     then [ProviderItem (ev_id P) (m_timestampFrequency (ev_eventTimer P)) (timestamp div kEventTimeUnit)] else [])"

lemma lends_steady: "lends new P Q \<Longrightarrow> steady P Q" "lends new P Q \<Longrightarrow> provider_ok Q"
  by (simp_all add: lends_def)

lemma BeginEventStream_ok:
  assumes "provider_ok P" "ev_eventChunks P = []"
  shows "BeginEventStream timestamp P = Some (InsufficientMemory, 0, P) \<or>
    (\<exists>q Q. BeginEventStream timestamp P = Some (Success, q, Q) \<and> provider_ok Q \<and> steady P Q \<and> ev_eventChunks Q = [q] \<and>
       provider_stream Q = provider_stream P @ items_bytes (preamble timestamp P))"
proof -
  from Provider_AllocateEventChunk_ok [OF assms(1)] show ?thesis
  proof (elim disjE exE conjE)
    assume "Provider_AllocateEventChunk P = Some (InsufficientMemory, 0, P)"
    then show ?thesis by (simp add: BeginEventStream_def)
  next
    fix q Q assume q: "Provider_AllocateEventChunk P = Some (Success, q, Q)" "lends [q] P Q" "ev_eventTimer Q = ev_eventTimer P"
    define R where "R = Q\<lparr>ev_eventTimer := (ev_eventTimer P)\<lparr>m_lastTimestamp := timestamp\<rparr>\<rparr>"
    have Q: "provider_ok Q" "ev_eventChunks Q = [q]" "provider_memory Q q = Some []" "ev_id Q = ev_id P"
      using q(2) assms(2) by (simp_all add: lends_def steady_def)
    have R: "provider_ok R" "ev_eventChunks R = [] @ q # []" "provider_memory R q = Some []" "steady P R" "provider_stream R = provider_stream P"
      using Q q(2) lends_stream [OF q(2)]
      by (simp_all add: R_def provider_ok_def the_session_def provider_memory_def lends_def steady_def provider_stream_def)
    note v = new_view [OF R(1,2)]
    let ?d = "item_bytes (ProviderItem (ev_id P) (m_timestampFrequency (ev_eventTimer P)) (timestamp div kEventTimeUnit))"
    let ?f = "WriteEventProviderToken (ev_id P) (m_timestampFrequency (ev_eventTimer P)) (timestamp div kEventTimeUnit)"
    have w: "writes False ?f ?d" using WriteEventProviderToken_writes by simp
    have "length ?d \<le> room (new_EventChunkBufferView [q]) (provider_memory R)"
      using v(2) R(3) by (simp add: kEventChunkMaxDataSize_def)
    from write_view_ok [OF w _ this] v(1) obtain V1 U where
      U: "write_view ?f (new_EventChunkBufferView [q]) R = Some (Success, V1, U)" "views V1 U" "steady R U" "ev_eventChunks U = [q]"
        "provider_stream U = provider_stream R @ ?d" using R(2) by auto
    have "WriteStreamPreamble timestamp q Q = Some (Success, U)"
      using U(1) Q(4) q(3) by (simp add: WriteStreamPreamble_def CreateTimestamp_reset R_def)
    then have eq: "BeginEventStream timestamp P = Some (Success, q, U)" using q(1) by (simp add: BeginEventStream_def)
    with U R steady_trans [OF R(4)] show ?thesis by (simp add: preamble_def assms(2) views_def)
  qed
qed

text \<open>Enough chunks, or none and the stream as it was.\<close>

lemma AcquireEventChunks_ok:
  assumes "provider_ok P"
  shows "(\<exists>Q. AcquireEventChunks timestamp m P = Some (InsufficientMemory, [], Q) \<and> provider_ok Q \<and> steady P Q \<and>
       ev_eventChunks Q = ev_eventChunks P \<and> provider_stream Q = provider_stream P) \<or>
    (\<exists>chunks Q. AcquireEventChunks timestamp m P = Some (Success, chunks, Q) \<and> views (new_EventChunkBufferView chunks) Q \<and>
       m \<le> room (new_EventChunkBufferView chunks) (provider_memory Q) \<and> steady P Q \<and>
       provider_stream Q = provider_stream P @ items_bytes (preamble timestamp P))"
proof -
  define b where "b = (if ev_eventChunks P \<noteq> [] then Some (Success, last (ev_eventChunks P), P) else BeginEventStream timestamp P)"
  have "b = Some (InsufficientMemory, 0, P) \<or> (\<exists>q Q keep. b = Some (Success, q, Q) \<and> provider_ok Q \<and> steady P Q \<and>
      ev_eventChunks Q = keep @ [q] \<and> (keep @ [q] = ev_eventChunks P \<and> Q = P \<or> ev_eventChunks P = [] \<and> keep = []) \<and>
      provider_stream Q = provider_stream P @ items_bytes (preamble timestamp P))"
  proof (cases "ev_eventChunks P = []")
    case True
    from BeginEventStream_ok [OF assms True, of timestamp] show ?thesis using True
      by (auto simp: b_def)
  next
    case False
    then obtain keep q where "ev_eventChunks P = keep @ [q]" by (cases "ev_eventChunks P" rule: rev_cases) auto
    with assms show ?thesis by (simp add: b_def preamble_def)
  qed
  then show ?thesis
  proof (elim disjE [of "b = _"] exE conjE)
    assume "b = Some (InsufficientMemory, 0, P)"
    then have "AcquireEventChunks timestamp m P = Some (InsufficientMemory, [], P)"
      by (simp add: AcquireEventChunks_def b_def [symmetric] Let_def)
    with assms show ?thesis by simp
  next
    fix q Q keep assume Q: "b = Some (Success, q, Q)" "provider_ok Q" "steady P Q" "ev_eventChunks Q = keep @ [q]"
      "keep @ [q] = ev_eventChunks P \<and> Q = P \<or> ev_eventChunks P = [] \<and> keep = []"
      "provider_stream Q = provider_stream P @ items_bytes (preamble timestamp P)"
    have inq: "q \<in> set (ev_eventChunks Q)" using Q(4) by simp
    from acquire_loop_ok [OF Q(2), of _ "[q]" m] inq obtain r new R where
      R: "acquire_loop m (kEventChunkMaxDataSize - length (the (provider_memory Q q))) [q] Q = Some (r, q # new, R)" "lends new Q R"
        "r = Success \<and> m \<le> rooms (provider_memory R) (q # new) \<or> r = InsufficientMemory" by auto
    have eq: "AcquireEventChunks timestamp m P =
        (if r \<noteq> Success then map_option (\<lambda>P3. (r, [], P3)) (free_chunks (drop (if ev_eventChunks P \<noteq> [] then 1 else 0) (q # new)) R)
         else Some (r, q # new, R))"
      using Q(1) bytes_in_chunk [OF Q(2) inq] R(1)
      by (simp add: AcquireEventChunks_def b_def [symmetric] Let_def)
    have okR: "provider_ok R" "ev_eventChunks R = keep @ q # new" "steady P R"
      using R(2) Q(3,4) steady_trans by (auto simp: lends_def)
    show ?thesis
    proof (cases "r = Success")
      case True
      note v = new_view [OF okR(1,2)]
      have "\<forall>p \<in> set new. provider_memory R p = Some []" using R(2) by (simp add: lends_def)
      with v R(3) True eq okR(3) lends_stream [OF R(2)] Q(6) show ?thesis by simp
    next
      case False
      define ps where "ps = (if ev_eventChunks P \<noteq> [] then new else q # new)"
      define kp where "kp = (if ev_eventChunks P \<noteq> [] then keep @ [q] else keep)"
      have sp: "ev_eventChunks R = kp @ ps" using okR(2) by (simp add: ps_def kp_def)
      have "distinct ps" using okR(1) sp by (auto simp: provider_ok_def owned_def)
      from free_chunks_ok [OF okR(1) sp refl this] obtain U where
        U: "free_chunks ps R = Some U" "kept kp R U" "ev_eventChunks U = kp" by blast
      have "AcquireEventChunks timestamp m P = Some (InsufficientMemory, [], U)"
        using eq False R(3) U(1) by (cases "ev_eventChunks P = []") (simp_all add: ps_def)
      moreover have kp: "kp = ev_eventChunks P" using Q(5) by (auto simp: kp_def)
      moreover have "provider_ok U" "steady P U" using U(2) okR(3) steady_trans by (auto simp: kept_def)
      moreover have "provider_stream U = provider_stream P"
      proof -
        have "provider_memory U p = provider_memory P p" if "p \<in> set kp" for p
        proof -
          from that kp Q(5) have "Q = P" by auto
          then show ?thesis using that kp U(2) R(2) by (simp add: kept_def lends_def)
        qed
        then have "chunk_bytes (provider_memory U) kp = chunk_bytes (provider_memory P) kp" by (rule chunk_bytes_cong)
        moreover have "session_stream (the_session U) = session_stream (the_session P)"
          using \<open>steady P U\<close> by (simp add: steady_def)
        ultimately show ?thesis using U(3) kp by (simp add: provider_stream_def)
      qed
      ultimately show ?thesis using U(3) by simp
    qed
  qed
qed

subsection \<open>Writing an event\<close>

definition small_delta :: "EventTimestamp \<Rightarrow> u8" where
  "small_delta stamp = (case stamp of SmallDelta delta \<Rightarrow> delta | _ \<Rightarrow> 0)"

definition stamp_at :: "u64 \<Rightarrow> BaseEventProvider \<Rightarrow> EventTimestamp" where
  "stamp_at timestamp P = fst (CreateTimestamp timestamp (ev_eventTimer P))"

text \<open>A step of writing that succeeds.\<close>

definition wrote_item :: "u8 list \<Rightarrow> EventChunkBufferView \<Rightarrow> BaseEventProvider \<Rightarrow> EventChunkBufferView \<Rightarrow> BaseEventProvider \<Rightarrow> bool" where
  "wrote_item d V P V1 Q \<longleftrightarrow> views V1 Q \<and> steady P Q \<and> ev_eventChunks Q = ev_eventChunks P \<and> provider_stream Q = provider_stream P @ d \<and>
    room V1 (provider_memory Q) + length d = room V (provider_memory P)"

lemma write_view_item:
  assumes "writes e f d" "views V P" "length d \<le> room V (provider_memory P)"
  shows "\<exists>r V1 Q. write_view f V P = Some (r, V1, Q) \<and> wrote_item d V P V1 Q \<and> (r \<noteq> Success \<longrightarrow> e \<and> r = InsufficientMemory)"
  using write_view_ok [OF assms] by (auto simp: wrote_item_def)

lemma set_timer:
  assumes "views V P" "m_timestampFrequency timer = m_timestampFrequency (ev_eventTimer P)"
  shows "wrote_item [] V P V (P\<lparr>ev_eventTimer := timer\<rparr>)"
  using assms by (simp add: wrote_item_def views_def provider_ok_def the_session_def provider_memory_def steady_def provider_stream_def)

lemma wrote_item_trans: "wrote_item d V P V1 Q \<Longrightarrow> wrote_item d1 V1 Q V2 R \<Longrightarrow> wrote_item (d @ d1) V P V2 R"
  using steady_trans [of P Q R] by (simp add: wrote_item_def)

lemma GenerateEventTimestamp_ok:
  assumes "views V P" "length (timestamp_bytes (stamp_at timestamp P)) \<le> room V (provider_memory P)"
  shows "\<exists>V1 Q. GenerateEventTimestamp timestamp V P = Some (Success, small_delta (stamp_at timestamp P), V1, Q) \<and>
    wrote_item (timestamp_bytes (stamp_at timestamp P)) V P V1 Q"
proof -
  define stamp where "stamp = stamp_at timestamp P"
  define timer where "timer = snd (CreateTimestamp timestamp (ev_eventTimer P))"
  define P1 where "P1 = P\<lparr>ev_eventTimer := timer\<rparr>"
  have ct: "CreateTimestamp timestamp (ev_eventTimer P) = (stamp, timer)" by (simp add: stamp_def timer_def stamp_at_def)
  have "m_timestampFrequency timer = m_timestampFrequency (ev_eventTimer P)"
    by (simp add: timer_def CreateTimestamp_def Let_def)
  note 1 = set_timer [OF assms(1) this, folded P1_def]
  then have P1: "views V P1" "room V (provider_memory P1) = room V (provider_memory P)" by (simp_all add: wrote_item_def)
  have legal: "legal_item (StampItem stamp)" using CreateTimestamp_legal(1) by (simp add: stamp_def stamp_at_def)
  have tok: "\<exists>V1 Q. map_option (\<lambda>(result, V1, P2). (result, 0, V1, P2)) (write_view f V P1) = Some (Success, 0, V1, Q) \<and>
      wrote_item (timestamp_bytes stamp) V P V1 Q" if "writes False f (timestamp_bytes stamp)" for f
  proof -
    from write_view_item [OF that P1(1)] assms(2) P1(2) obtain V1 Q where
      "write_view f V P1 = Some (Success, V1, Q)" "wrote_item (timestamp_bytes stamp) V P1 V1 Q" by (auto simp: stamp_def)
    with wrote_item_trans [OF 1] show ?thesis by simp
  qed
  show ?thesis
  proof (cases stamp)
    case (Full t f)
    with tok [OF WriteEventTimestampToken_writes [of f t, folded Full]] ct show ?thesis
      by (simp add: GenerateEventTimestamp_def stamp_def [symmetric] small_delta_def P1_def)
  next
    case (LargeDelta delta n)
    with legal have n: "0 < n" "n \<le> 8" by (auto intro: order_trans)
    from tok [OF WriteEventTimeDeltaToken_writes [OF n, of delta, folded LargeDelta]] ct LargeDelta show ?thesis
      by (simp add: GenerateEventTimestamp_def stamp_def [symmetric] small_delta_def P1_def)
  next
    case (SmallDelta delta)
    with ct 1 show ?thesis
      by (simp add: GenerateEventTimestamp_def stamp_def [symmetric] small_delta_def P1_def timestamp_bytes_def)
  qed
qed

lemma writes_weaken: "writes e f d \<Longrightarrow> writes True f d"
  unfolding writes_def by blast

definition payload_bytes :: "u8 list option \<Rightarrow> u8 list \<Rightarrow> u8 list" where
  "payload_bytes pHeaderData pEventData = (case pHeaderData of Some pHeader \<Rightarrow> pHeader | None \<Rightarrow> []) @ pEventData"

lemma write_event_ok:
  assumes "views V P" "CalculateWorstCaseSize (length (payload_bytes pHdr d)) \<le> room V (provider_memory P)"
  shows "\<exists>r Q V1 delta. write_event timestamp eventId pHdr d (word_of_nat (length (payload_bytes pHdr d))) V P = Some (r, Q) \<and>
    wrote_item (items_bytes [StampItem (stamp_at timestamp P), EventItem delta eventId (ev_eventDataIndex P) (payload_bytes pHdr d)]) V P V1 Q \<and>
    (r \<noteq> Success \<longrightarrow> d = [] \<and> r = InsufficientMemory)"
proof -
  let ?s = "timestamp_bytes (stamp_at timestamp P)" and ?n = "word_of_nat (length (payload_bytes pHdr d)) :: u64"
  have l: "length ?s \<le> 17" using CreateTimestamp_legal(2) by (simp add: stamp_at_def)
  then have "length ?s \<le> room V (provider_memory P)" using assms(2) by (simp add: CalculateWorstCaseSize_def event_sizes)
  from GenerateEventTimestamp_ok [OF assms(1) this] obtain V1 Q where
    Q: "GenerateEventTimestamp timestamp V P = Some (Success, small_delta (stamp_at timestamp P), V1, Q)" "wrote_item ?s V P V1 Q" by blast
  let ?delta = "small_delta (stamp_at timestamp P)" and ?i = "ev_eventDataIndex P"
  let ?tok = "EventTokenHeader EventTokenType_Data ?delta # EventDataToken eventId ?i ?n"
  let ?hdr = "\<lambda>V M. case pHdr of Some pHeader \<Rightarrow> View_Write pHeader V M | None \<Rightarrow> Some (Success, V, M)"
  have i: "ev_eventDataIndex Q = ?i" using Q(2) by (simp add: wrote_item_def steady_def)
  have hdr: "writes True ?hdr (case pHdr of Some pHeader \<Rightarrow> pHeader | None \<Rightarrow> [])"
    by (cases pHdr) (simp_all add: writes_skip writes_weaken [OF View_Write_writes])
  have w: "writes (d = []) (\<lambda>V M. and_then (and_then (WriteEventDataToken ?delta eventId ?i ?n V M) ?hdr) (View_Write d))
      (?tok @ payload_bytes pHdr d)"
    using writes_and_then [OF writes_and_then [OF WriteEventDataToken_writes hdr] View_Write_writes [of d], of ?delta eventId ?i ?n]
    by (simp add: payload_bytes_def)
  have Q1: "views V1 Q" "room V1 (provider_memory Q) + length ?s = room V (provider_memory P)" using Q(2) by (simp_all add: wrote_item_def)
  then have "length (?tok @ payload_bytes pHdr d) \<le> room V1 (provider_memory Q)"
    using assms(2) l by (simp add: CalculateWorstCaseSize_def event_sizes)
  from write_view_item [OF w Q1(1) this] obtain r V2 R where
    R: "write_view (\<lambda>V M. and_then (and_then (WriteEventDataToken ?delta eventId ?i ?n V M) ?hdr) (View_Write d)) V1 Q = Some (r, V2, R)"
      "wrote_item (?tok @ payload_bytes pHdr d) V1 Q V2 R" "r \<noteq> Success \<longrightarrow> d = [] \<and> r = InsufficientMemory" by blast
  have "write_event timestamp eventId pHdr d ?n V P = Some (r, R)"
    using Q(1) R(1) i by (simp add: write_event_def)
  with wrote_item_trans [OF Q(2) R(2)] R(3) show ?thesis
    by (intro exI [of _ r] exI [of _ R] exI [of _ V2] exI [of _ ?delta]) simp
qed

subsection \<open>Flushing\<close>

definition flushed :: "BaseEventProvider \<Rightarrow> BaseEventProvider \<Rightarrow> bool" where
  "flushed P Q \<longleftrightarrow> provider_ok Q \<and> provider_stream Q = provider_stream P \<and> sent_data (the_session Q) = sent_data (the_session P) \<and>
    ev_id Q = ev_id P \<and> ev_registered Q = ev_registered P \<and> ev_isEnabled Q = ev_isEnabled P \<and>
    ev_flushFrequencyInMs Q = ev_flushFrequencyInMs P \<and> ev_eventDataIndex Q = ev_eventDataIndex P \<and>
    ev_eventTimer Q = ev_eventTimer P \<and> (ev_eventChunks Q = ev_eventChunks P \<or> ev_eventChunks Q = [])"

lemma Provider_Flush_ok:
  assumes "provider_ok P"
  shows "\<exists>Q. Provider_Flush P = Some Q \<and> flushed P Q \<and> ev_eventChunks Q = []"
proof (cases "ev_eventChunks P = []")
  case True
  with assms show ?thesis by (simp add: Provider_Flush_def flushed_def)
next
  case False
  from assms obtain S where S: "ev_pSession P = Some S" "owned (ev_eventChunks P @ []) S" by (auto simp: provider_ok_def the_session_def)
  from EnqueueEventChunks_ok [OF S(2)] obtain T where
    T: "EnqueueEventChunks (ev_eventChunks P) S = Some T" "owned [] T" "sent_data T = sent_data S"
      "session_stream T = session_stream S @ chunk_bytes (sv_memory S) (ev_eventChunks P)" by blast
  with S(1) False show ?thesis
    by (simp add: Provider_Flush_def flushed_def provider_ok_def provider_stream_def the_session_def provider_memory_def)
qed

lemma UpdateFlushTimer_ok:
  assumes "provider_ok P"
  shows "\<exists>Q. UpdateFlushTimer currentTime P = Some Q \<and> flushed P Q"
proof -
  let ?P = "P\<lparr>ev_nextFlushTime := currentTime + ucast (ev_flushFrequencyInMs P)\<rparr>"
  have "provider_ok ?P" using assms by (simp add: provider_ok_def the_session_def)
  from Provider_Flush_ok [OF this] obtain Q where "Provider_Flush ?P = Some Q" "flushed ?P Q" by blast
  then show ?thesis
    using assms by (auto simp: UpdateFlushTimer_def flushed_def provider_stream_def the_session_def provider_memory_def)
qed

subsection \<open>The whole write\<close>

definition event_items :: "WriteTimes \<Rightarrow> EventTimestamp \<Rightarrow> u8 \<Rightarrow> u32 \<Rightarrow> u8 list \<Rightarrow> BaseEventProvider \<Rightarrow> stream_item list" where
  "event_items t stamp delta eventId bytes P =
    preamble (wt_preamble t) P @ [StampItem stamp, EventItem delta eventId (ev_eventDataIndex P) bytes]"

text \<open>What stays the same from write to write, and what the write appends.\<close>

definition wrote_event :: "WriteTimes \<Rightarrow> u32 \<Rightarrow> u8 list \<Rightarrow> Result \<Rightarrow> BaseEventProvider \<Rightarrow> BaseEventProvider \<Rightarrow> bool" where
  "wrote_event t eventId bytes r P Q \<longleftrightarrow>
    provider_ok Q \<and> sent_data (the_session Q) = sent_data (the_session P) \<and> ev_id Q = ev_id P \<and> ev_registered Q = ev_registered P \<and>
    ev_isEnabled Q = ev_isEnabled P \<and> ev_eventDataIndex Q = ev_eventDataIndex P + 1 \<and>
    ((\<exists>stamp delta. legal_item (StampItem stamp) \<and>
        provider_stream Q = provider_stream P @ items_bytes (event_items t stamp delta eventId bytes P)) \<or>
     r = InsufficientMemory \<and> provider_stream Q = provider_stream P \<and> ev_eventChunks Q = ev_eventChunks P)"

lemma WriteEventWithHeader_ok:
  assumes "provider_ok P" "QueryEventWriteStatus P = Success"
  shows "\<exists>r Q. WriteEventWithHeader t eventId pHdr d P = Some (r, Q) \<and> wrote_event t eventId (payload_bytes pHdr d) r P Q \<and>
    (r = Success \<or> r = InsufficientMemory) \<and>
    ((r = Success \<or> d = []) \<or> provider_stream Q = provider_stream P \<and> ev_eventChunks Q = ev_eventChunks P) \<and>
    (r = Success \<longrightarrow> (\<exists>stamp delta. legal_item (StampItem stamp) \<and>
       provider_stream Q = provider_stream P @ items_bytes (event_items t stamp delta eventId (payload_bytes pHdr d) P)))"
proof -
  let ?bytes = "payload_bytes pHdr d"
  let ?m = "CalculateWorstCaseSize (length ?bytes)"
  have size: "(case pHdr of Some pHeader \<Rightarrow> length pHeader | None \<Rightarrow> 0) + length d = length ?bytes"
    by (simp add: payload_bytes_def split: option.splits)
  define bump where "bump = (\<lambda>Q :: BaseEventProvider. Q\<lparr>ev_eventDataIndex := ev_eventDataIndex Q + 1\<rparr>)"
  have bump: "provider_ok (bump Q) = provider_ok Q" "provider_stream (bump Q) = provider_stream Q" "the_session (bump Q) = the_session Q"
    "ev_eventChunks (bump Q) = ev_eventChunks Q" "ev_id (bump Q) = ev_id Q" "ev_registered (bump Q) = ev_registered Q"
    "ev_isEnabled (bump Q) = ev_isEnabled Q" "ev_eventDataIndex (bump Q) = ev_eventDataIndex Q + 1" for Q
    by (simp_all add: bump_def provider_ok_def provider_stream_def the_session_def provider_memory_def)
  from AcquireEventChunks_ok [OF assms(1), of "wt_preamble t" ?m] show ?thesis
  proof (elim disjE exE conjE)
    fix Q assume Q: "AcquireEventChunks (wt_preamble t) ?m P = Some (InsufficientMemory, [], Q)" "provider_ok Q" "steady P Q"
      "ev_eventChunks Q = ev_eventChunks P" "provider_stream Q = provider_stream P"
    then have "WriteEventWithHeader t eventId pHdr d P = Some (InsufficientMemory, bump Q)"
      using assms(2) by (simp add: WriteEventWithHeader_def Let_def size bump_def)
    with Q show ?thesis by (simp add: wrote_event_def bump steady_def)
  next
    fix chunks Q assume Q: "AcquireEventChunks (wt_preamble t) ?m P = Some (Success, chunks, Q)"
      "views (new_EventChunkBufferView chunks) Q" "?m \<le> room (new_EventChunkBufferView chunks) (provider_memory Q)" "steady P Q"
      "provider_stream Q = provider_stream P @ items_bytes (preamble (wt_preamble t) P)"
    define stamp where "stamp = stamp_at (wt_event t) Q"
    have legal: "legal_item (StampItem stamp)" using CreateTimestamp_legal(1) by (simp add: stamp_def stamp_at_def)
    from write_event_ok [OF Q(2,3), where timestamp = "wt_event t" and eventId = eventId] obtain r R V1 delta where
      R: "write_event (wt_event t) eventId pHdr d (word_of_nat (length ?bytes)) (new_EventChunkBufferView chunks) Q = Some (r, R)"
        "wrote_item (items_bytes [StampItem stamp, EventItem delta eventId (ev_eventDataIndex Q) ?bytes]) (new_EventChunkBufferView chunks) Q V1 R"
        "r \<noteq> Success \<longrightarrow> d = [] \<and> r = InsufficientMemory" by (auto simp: stamp_def)
    have sR: "provider_ok R" "steady P R" using R(2) Q(4) steady_trans by (auto simp: wrote_item_def views_def)
    have stream: "provider_stream R = provider_stream P @ items_bytes (event_items t stamp delta eventId ?bytes P)"
      using R(2) Q(4,5) by (simp add: wrote_item_def event_items_def steady_def)
    obtain U where U: "(if r = Success then UpdateFlushTimer (wt_flush t) R else Some R) = Some U" "flushed R U"
    proof (cases "r = Success")
      case True
      with UpdateFlushTimer_ok [OF sR(1)] that show ?thesis by auto
    next
      case False
      with that [of R] sR(1) show ?thesis by (simp add: flushed_def)
    qed
    have "WriteEventWithHeader t eventId pHdr d P = Some (r, bump U)"
      using assms(2) Q(1) R(1) U(1) by (simp add: WriteEventWithHeader_def Let_def size bump_def)
    moreover have "wrote_event t eventId ?bytes r P (bump U)"
      using U(2) sR(2) stream legal by (auto simp: wrote_event_def bump flushed_def steady_def)
    moreover have "provider_stream (bump U) = provider_stream P @ items_bytes (event_items t stamp delta eventId ?bytes P)"
      using U(2) stream by (simp add: bump flushed_def)
    ultimately show ?thesis using R(3) legal by (intro exI [of _ r] exI [of _ "bump U"]) blast
  qed
qed

end
