(* ===== verification/Event_Delivery.thy ===== *)
theory Event_Delivery
  imports Event_Written
begin

text \<open>
  From the provider to the tool: the operations of a provider in a session, in any order, the client that reads
  the messages (\<^verbatim>\<open>apis/ddEvent/ddEventClient/src/legacy/legacyEventClient.cpp\<close>), and the streamer that calls the
  tool.
\<close>

subsection \<open>The client\<close>

abbreviation (input) EventMessage_SubscribeToProviderResponse :: u8 where "EventMessage_SubscribeToProviderResponse \<equiv> 9"

text \<open>
  \<^verbatim>\<open>EventClient::ReadEventData\<close>: \<open>received\<close> is what \<^verbatim>\<open>ReceivePayloadContainer\<close> returns with the payload; the
  results are the code and the data handed to the callback.
\<close>

definition ReadEventData :: "Result \<times> u8 list \<Rightarrow> Result \<times> u8 list list" where
  "ReadEventData received =
    (let (result, bytes) = received; data = received_payload bytes in
     if result = Success then
       (if data ! 0 = EventMessage_EventDataUpdate
        then (Success, [GetEventData data])
        else if data ! 0 = EventMessage_SubscribeToProviderResponse then (result_of_code (get_word 4 4 data), [])
        else (Error, []))
     else (result, []))"

text \<open>\<^verbatim>\<open>Event::EventClient::ReadEventData\<close> for the streamer: the buffers it delivers, and its code.\<close>

definition client_read :: "Result \<times> u8 list \<Rightarrow> u8 list list \<times> DD_RESULT" where
  "client_read received = (let (result, buffers) = ReadEventData received in (buffers, DevDriverToDDResult result))"

subsection \<open>The provider at work\<close>

text \<open>A write of an event, an update of the flush timer, a turn of the session without a request.\<close>

datatype provider_op =
    WriteOp WriteTimes u32 "u8 list option" "u8 list"
  | UpdateOp u64 bool
  | SessionOp u64 bool

fun provider_step :: "provider_op \<Rightarrow> BaseEventProvider \<Rightarrow> (Result \<times> BaseEventProvider) option" where
  "provider_step (WriteOp t eventId pHdr d) P = WriteEventWithHeader t eventId pHdr d P"
| "provider_step (UpdateOp now locked) P = map_option (Pair Success) (Provider_Update now locked P)"
| "provider_step (SessionOp now locked) P =
    Option.bind (ev_pSession P) (\<lambda>S. map_option (\<lambda>T. (Success, P\<lparr>ev_pSession := Some T\<rparr>)) (update_idle_session now locked S))"

fun provider_run :: "provider_op list \<Rightarrow> BaseEventProvider \<Rightarrow> (Result list \<times> BaseEventProvider) option" where
  "provider_run [] P = Some ([], P)"
| "provider_run (oper # opers) P =
    Option.bind (provider_step oper P) (\<lambda>(r, Q). map_option (\<lambda>(rs, R). (r # rs, R)) (provider_run opers Q))"

text \<open>The events that were written, each with its index: the number of attempts before it.\<close>

type_synonym event_key = "EventProviderId \<times> u32 \<times> u32 \<times> u8 list"

fun written :: "EventProviderId \<Rightarrow> u32 \<Rightarrow> provider_op list \<Rightarrow> Result list \<Rightarrow> event_key list" where
  "written i n (WriteOp t eventId pHdr d # opers) (r # rs) =
    (if r = Success then [(i, eventId, n, payload_bytes pHdr d)] else []) @ written i (n + 1) opers rs"
| "written i n (_ # opers) (_ # rs) = written i n opers rs"
| "written i n _ _ = []"

definition event_key :: "event \<Rightarrow> event_key" where
  "event_key ev = (ei_providerId (fst ev), ei_eventId (fst ev), ei_eventIndex (fst ev), snd ev)"

text \<open>Payloads that are not empty and have a size.\<close>

fun op_ok :: "provider_op \<Rightarrow> bool" where
  "op_ok (WriteOp t eventId pHdr d) \<longleftrightarrow> d \<noteq> [] \<and> length (payload_bytes pHdr d) < 2 ^ 64"
| "op_ok _ \<longleftrightarrow> True"

text \<open>A provider that is registered, enabled and has a session; its chunks continue a stream that named it.\<close>

definition writing :: "BaseEventProvider \<Rightarrow> stream_item list \<Rightarrow> bool" where
  "writing P items \<longleftrightarrow> provider_ok P \<and> QueryEventWriteStatus P = Success \<and> provider_stream P = items_bytes items \<and>
    (\<forall>it \<in> set items. legal_item it) \<and>
    (ev_eventChunks P \<noteq> [] \<longrightarrow> ss_providerId (snd (items_effect items new_strict_stream)) = ev_id P)"

lemma QueryEventWriteStatus_Success: "QueryEventWriteStatus P = Success \<longleftrightarrow> ev_registered P \<and> ev_isEnabled P"
  by (simp add: QueryEventWriteStatus_def)

lemma stamp_effect [simp]:
  "fst (item_effect (StampItem stamp) S) = []" "ss_providerId (snd (item_effect (StampItem stamp) S)) = ss_providerId S"
  by (cases stamp; simp)+

lemma event_items_effect:
  assumes "ev_eventChunks P \<noteq> [] \<Longrightarrow> ss_providerId S = ev_id P"
  shows "map event_key (fst (items_effect (event_items t stamp delta eventId bytes P) S)) = [(ev_id P, eventId, ev_eventDataIndex P, bytes)]"
    "ss_providerId (snd (items_effect (event_items t stamp delta eventId bytes P) S)) = ev_id P"
  using assms by (auto simp: event_items_def preamble_def event_key_def)

lemma flushed_writing: "flushed P Q \<Longrightarrow> writing P items \<Longrightarrow> writing Q items"
  by (auto simp: flushed_def writing_def QueryEventWriteStatus_Success)

lemma trim_ok: "owned own S \<Longrightarrow> owned own (trim_loop n S) \<and> session_stream (trim_loop n S) = session_stream S \<and>
    sent_data (trim_loop n S) = sent_data S \<and> chunk_bytes (sv_memory (trim_loop n S)) own = chunk_bytes (sv_memory S) own \<and>
    all_sent (trim_loop n S) = all_sent S \<and> replies (trim_loop n S) = replies S"
proof (induction n S rule: trim_loop.induct)
  case (2 n S)
  show ?case
  proof (cases "IsTargetMemoryUsageExceeded S")
    case True
    then have "sv_eventChunkPool S \<noteq> []" by (auto simp: IsTargetMemoryUsageExceeded_def)
    then obtain pool q where pool: "sv_eventChunkPool S = pool @ [q]" by (cases "sv_eventChunkPool S" rule: rev_cases) auto
    define T where "T = free_memory q (S\<lparr>sv_eventChunkPool := pool\<rparr>)"
    have q: "q \<notin> set own" "q \<notin> set (sv_eventChunkQueue S)" "q \<notin> set (current_chunks S)"
      using 2(2) pool by (auto simp: owned_def session_chunks_def)
    have "owned own T"
      using 2(2) pool by (auto simp: T_def owned_def session_chunks_def current_chunks_def free_memory_def chunk_ok_def pending_data_def)
    moreover have "session_stream T = session_stream S" "sent_data T = sent_data S" "chunk_bytes (sv_memory T) own = chunk_bytes (sv_memory S) own"
      "all_sent T = all_sent S" "replies T = replies S"
      using q by (simp_all add: T_def session_stream_def sent_data_def pending_data_def unsent_data_def current_chunks_def free_memory_def
          all_sent_def replies_def)
    ultimately show ?thesis using 2(1) [OF True] True pool by (simp add: T_def)
  qed (use 2(2) in simp)
qed simp

lemma update_idle_session_ok:
  assumes "owned own S"
  shows "\<exists>T. update_idle_session now locked S = Some T \<and> send_ok own S T \<and>
    (all_sent T \<or> replies T < replies S) \<and> (all_sent S \<longrightarrow> all_sent T)"
proof -
  from SendEventData_ok [OF assms] obtain T where T: "SendEventData S = Some T" "send_ok own S T" by blast
  define U where "U = T\<lparr>sv_nextTrimTime := now + kTrimFrequencyInMs\<rparr>"
  have U: "owned own U" "session_stream U = session_stream T" "sent_data U = sent_data T" "all_sent U = all_sent T"
    "sv_memory U = sv_memory T" "replies U = replies T"
    using T(2)
    by (simp_all add: U_def send_ok_def owned_def session_chunks_def current_chunks_def pending_data_def session_stream_def sent_data_def
        unsent_data_def all_sent_def replies_def)
  from SendEventData_replies [OF T(1)] T U trim_ok [OF U(1), of kMaxChunksPerTrim] show ?thesis
    by (auto simp: update_idle_session_def TrimEventChunkMemory_def U_def [symmetric] send_ok_def sends_def)
qed

definition no_empty :: "u8 list list \<Rightarrow> BaseEventProvider \<Rightarrow> bool" where
  "no_empty before P \<longleftrightarrow> (\<exists>out. sent_data (the_session P) = before @ out \<and> [] \<notin> set out)"

text \<open>One operation.\<close>

lemma provider_step_ok:
  assumes "writing P items" "op_ok oper"
  shows "\<exists>r Q more. provider_step oper P = Some (r, Q) \<and> writing Q (items @ more) \<and> ev_id Q = ev_id P \<and>
    map event_key (fst (items_effect more (snd (items_effect items new_strict_stream)))) = written (ev_id P) (ev_eventDataIndex P) [oper] [r] \<and>
    (\<forall>opers rs. written (ev_id P) (ev_eventDataIndex P) (oper # opers) (r # rs) =
      written (ev_id P) (ev_eventDataIndex P) [oper] [r] @ written (ev_id Q) (ev_eventDataIndex Q) opers rs) \<and>
    no_empty (sent_data (the_session P)) Q"
proof (cases oper)
  case (WriteOp t eventId pHdr d)
  let ?S = "snd (items_effect items new_strict_stream)"
  from assms(1) have P: "provider_ok P" "QueryEventWriteStatus P = Success" by (simp_all add: writing_def)
  from WriteEventWithHeader_ok [OF P] obtain r Q where
    Q: "WriteEventWithHeader t eventId pHdr d P = Some (r, Q)" "wrote_event t eventId (payload_bytes pHdr d) r P Q"
      "r = Success \<or> r = InsufficientMemory"
      "(r = Success \<or> d = []) \<or> provider_stream Q = provider_stream P \<and> ev_eventChunks Q = ev_eventChunks P"
      "r = Success \<longrightarrow> (\<exists>stamp delta. legal_item (StampItem stamp) \<and>
        provider_stream Q = provider_stream P @ items_bytes (event_items t stamp delta eventId (payload_bytes pHdr d) P))" by blast
  have w: "provider_ok Q" "sent_data (the_session Q) = sent_data (the_session P)" "ev_id Q = ev_id P" "QueryEventWriteStatus Q = Success"
      "ev_eventDataIndex Q = ev_eventDataIndex P + 1"
    using Q(2) P(2) by (simp_all add: wrote_event_def QueryEventWriteStatus_Success)
  show ?thesis
  proof (cases "r = Success")
    case True
    with Q(5) obtain stamp delta where legal: "legal_item (StampItem stamp)" and
      stream: "provider_stream Q = provider_stream P @ items_bytes (event_items t stamp delta eventId (payload_bytes pHdr d) P)" by blast
    let ?more = "event_items t stamp delta eventId (payload_bytes pHdr d) P"
    have id: "ev_eventChunks P \<noteq> [] \<Longrightarrow> ss_providerId ?S = ev_id P" using assms(1) by (simp add: writing_def)
    have "\<forall>it \<in> set ?more. legal_item it"
      using legal assms(2) WriteOp by (simp add: event_items_def preamble_def)
    moreover have "ss_providerId (snd (items_effect (items @ ?more) new_strict_stream)) = ev_id Q"
      using event_items_effect(2) [OF id] w(3) by (simp add: items_effect_append)
    ultimately have "writing Q (items @ ?more)"
      using assms(1) w stream by (auto simp: writing_def)
    then show ?thesis
      using Q(1) w event_items_effect(1) [OF id] True WriteOp
      by (intro exI [of _ r] exI [of _ Q] exI [of _ ?more]) (simp add: no_empty_def)
  next
    case False
    with Q(4) assms(2) WriteOp have "provider_stream Q = provider_stream P" "ev_eventChunks Q = ev_eventChunks P" by auto
    with assms(1) w have "writing Q (items @ [])" by (simp add: writing_def)
    then show ?thesis
      using Q(1) w False WriteOp by (intro exI [of _ r] exI [of _ Q] exI [of _ "[]"]) (simp add: no_empty_def)
  qed
next
  case (UpdateOp now locked)
  have "\<exists>Q. Provider_Update now locked P = Some Q \<and> flushed P Q"
    using UpdateFlushTimer_ok [of P now] assms(1) by (auto simp: Provider_Update_def writing_def flushed_def)
  then obtain Q where Q: "Provider_Update now locked P = Some Q" "flushed P Q" by blast
  then show ?thesis
    using flushed_writing [OF Q(2) assms(1)] UpdateOp
    by (intro exI [of _ Success] exI [of _ Q] exI [of _ "[]"]) (simp add: flushed_def no_empty_def)
next
  case (SessionOp now locked)
  from assms(1) obtain S where S: "ev_pSession P = Some S" "owned (ev_eventChunks P) S"
    by (auto simp: writing_def provider_ok_def the_session_def)
  from update_idle_session_ok [OF S(2)] obtain T where T: "update_idle_session now locked S = Some T" "send_ok (ev_eventChunks P) S T"
    by blast
  define Q where "Q = P\<lparr>ev_pSession := Some T\<rparr>"
  have "writing Q items"
    using assms(1) T(2) S(1)
    by (simp add: Q_def writing_def provider_ok_def the_session_def provider_stream_def provider_memory_def send_ok_def sends_def
        QueryEventWriteStatus_Success)
  moreover have "no_empty (sent_data (the_session P)) Q"
    using T(2) S(1) by (auto simp: Q_def no_empty_def the_session_def send_ok_def sends_def)
  ultimately show ?thesis
    using S(1) T(1) SessionOp by (intro exI [of _ Success] exI [of _ Q] exI [of _ "[]"]) (simp add: Q_def)
qed

lemma no_empty_trans: "no_empty before P \<Longrightarrow> no_empty (sent_data (the_session P)) Q \<Longrightarrow> no_empty before Q"
  by (auto simp: no_empty_def)

lemma provider_run_ok:
  "writing P items \<Longrightarrow> (\<And>oper. oper \<in> set opers \<Longrightarrow> op_ok oper) \<Longrightarrow>
   \<exists>rs Q more. provider_run opers P = Some (rs, Q) \<and> writing Q (items @ more) \<and>
     map event_key (fst (items_effect more (snd (items_effect items new_strict_stream)))) = written (ev_id P) (ev_eventDataIndex P) opers rs \<and>
     no_empty (sent_data (the_session P)) Q"
proof (induction opers arbitrary: P items)
  case Nil
  then show ?case by (intro exI [of _ "[]"] exI [of _ P]) (simp add: no_empty_def)
next
  case (Cons oper opers)
  from provider_step_ok [OF Cons.prems(1), of oper] Cons.prems(2) obtain r Q more where
    Q: "provider_step oper P = Some (r, Q)" "writing Q (items @ more)" "ev_id Q = ev_id P"
      "map event_key (fst (items_effect more (snd (items_effect items new_strict_stream)))) = written (ev_id P) (ev_eventDataIndex P) [oper] [r]"
      "\<And>opers rs. written (ev_id P) (ev_eventDataIndex P) (oper # opers) (r # rs) =
        written (ev_id P) (ev_eventDataIndex P) [oper] [r] @ written (ev_id Q) (ev_eventDataIndex Q) opers rs"
      "no_empty (sent_data (the_session P)) Q" by (metis list.set_intros(1))
  from Cons.IH [OF Q(2)] Cons.prems(2) obtain rs R more' where
    R: "provider_run opers Q = Some (rs, R)" "writing R ((items @ more) @ more')"
      "map event_key (fst (items_effect more' (snd (items_effect (items @ more) new_strict_stream)))) =
        written (ev_id Q) (ev_eventDataIndex Q) opers rs" "no_empty (sent_data (the_session Q)) R" by (metis list.set_intros(2))
  show ?case
    using Q(1,4) R Q(5) [of opers rs] no_empty_trans [OF Q(6) R(4)]
    by (intro exI [of _ "r # rs"] exI [of _ R] exI [of _ "more @ more'"]) (simp add: items_effect_append)
qed

subsection \<open>Everything arrives\<close>

lemma client_read_event: "event_message m \<noteq> [] \<Longrightarrow> client_read (Success, m) = ([event_message m], DD_RESULT_SUCCESS)"
  by (auto simp: client_read_def ReadEventData_def event_message_def Let_def DevDriverToDDResult_def split: if_splits)

lemma streamer_output_flags:
  "es_encounteredErrors (ws_user (streamer_output x S)) = es_encounteredErrors (ws_user S)"
  "es_exitRequested (ws_user (streamer_output x S)) = es_exitRequested (ws_user S)"
  by (cases x; simp add: Writer_EventReceived_def Writer_PayloadData_def case_prod_unfold Let_def;
      simp add: streamer_writer_def ParserOnEnd_def Let_def split: option.splits)+

lemma streamer_receive_flags:
  "es_encounteredErrors (ws_user (streamer_receive outs S)) = es_encounteredErrors (ws_user S)"
  "es_exitRequested (ws_user (streamer_receive outs S)) = es_exitRequested (ws_user S)"
  unfolding streamer_receive_def by (induction outs arbitrary: S) (simp_all add: streamer_output_flags)

lemma thread_reads:
  "streaming_inv P \<Longrightarrow> [] \<notin> set bss \<Longrightarrow> ss_mode (snd (stream_run (concat bss) (legacy_stream (fst P)))) \<noteq> Stuck \<Longrightarrow>
   \<not> es_encounteredErrors (ws_user (snd P)) \<Longrightarrow> \<not> es_exitRequested (ws_user (snd P)) \<Longrightarrow>
   EventReceiveThreadFunc (map (\<lambda>b. ([b], DD_RESULT_SUCCESS)) bss) P =
     map_option (update_streamer (\<lambda>E. E\<lparr>es_exitRequested := True\<rparr>)) (Streamer_OnEventBuffers bss P)"
proof (induction bss arbitrary: P)
  case (Cons b bss)
  have "ss_mode (snd (stream_run b (legacy_stream (fst P)))) \<noteq> Stuck"
    using Cons.prems(3) stream_run_stuck [of "snd (stream_run b (legacy_stream (fst P)))"] by (auto simp: stream_run_append)
  from Streamer_OnEventData_ok [OF Cons.prems(1) _ this] Cons.prems(2) obtain P1 where
    P1: "Streamer_OnEventData b P = Some P1" "streaming_inv P1" "legacy_stream (fst P1) = snd (stream_run b (legacy_stream (fst P)))"
      "snd P1 = streamer_receive (fst (stream_run b (legacy_stream (fst P)))) (snd P)" by fastforce
  then show ?case
    using Cons.IH [OF P1(2)] Cons.prems by (simp add: stream_run_append streamer_receive_flags)
qed simp

definition read_messages :: "EventServerSession \<Rightarrow> (u8 list list \<times> DD_RESULT) list" where
  "read_messages S = map (\<lambda>m. client_read (Success, m)) (is_outgoing (sv_pSession S))"

lemma read_messages_events:
  assumes "[] \<notin> set (sent_data S)"
  shows "read_messages S = map (\<lambda>b. ([b], DD_RESULT_SUCCESS)) (sent_data S)"
proof -
  have "event_message m \<noteq> []" if "m \<in> set (is_outgoing (sv_pSession S))" for m
    using assms that by (metis sent_data_def image_eqI set_map)
  then show ?thesis by (simp add: read_messages_def sent_data_def client_read_event)
qed

text \<open>A provider that has just got a session.\<close>

definition fresh_provider :: "EventProviderId \<Rightarrow> u32 \<Rightarrow> u64 \<Rightarrow> (nat \<Rightarrow> bool) \<Rightarrow> SessionId \<Rightarrow> ISession \<Rightarrow> u64 \<Rightarrow> BaseEventProvider" where
  "fresh_provider providerId flushFrequencyInMs frequency allocates sid pSession garbage =
    Provider_Enable (AcquireSession (new_EventServerSession allocates sid pSession garbage)
      (Provider_Register (new_BaseEventProvider providerId flushFrequencyInMs frequency)))"

lemma fresh_provider_writing:
  assumes "is_outgoing pSession = []"
  shows "writing (fresh_provider i f freq allocates sid pSession garbage) []"
    "sent_data (the_session (fresh_provider i f freq allocates sid pSession garbage)) = []"
    "ev_id (fresh_provider i f freq allocates sid pSession garbage) = i" "ev_eventDataIndex (fresh_provider i f freq allocates sid pSession garbage) = 0"
  using assms new_EventServerSession_owned [of allocates sid pSession garbage]
  by (simp_all add: fresh_provider_def writing_def provider_ok_def the_session_def provider_stream_def provider_memory_def
      QueryEventWriteStatus_Success Provider_Enable_def AcquireSession_def Provider_Register_def new_BaseEventProvider_def)
    (simp_all add: new_EventServerSession_def session_stream_def sent_data_def pending_data_def unsent_data_def current_chunks_def)

text \<open>Turns of the session without a request.\<close>

fun session_turns :: "(u64 \<times> bool) list \<Rightarrow> EventServerSession \<Rightarrow> EventServerSession option" where
  "session_turns [] S = Some S"
| "session_turns ((now, locked) # turns) S = Option.bind (update_idle_session now locked S) (session_turns turns)"

lemma session_turns_ok:
  "owned own S \<Longrightarrow> \<exists>T. session_turns turns S = Some T \<and> send_ok own S T \<and>
     (replies S < length turns \<or> all_sent S \<longrightarrow> all_sent T)"
proof (induction turns arbitrary: S)
  case (Cons turn turns)
  obtain now locked where turn: "turn = (now, locked)" by (cases turn)
  from update_idle_session_ok [OF Cons.prems] obtain T where
    T: "update_idle_session now locked S = Some T" "send_ok own S T" "all_sent T \<or> replies T < replies S" "all_sent S \<longrightarrow> all_sent T" by blast
  then have "owned own T" by (simp add: send_ok_def)
  from Cons.IH [OF this] obtain U where
    U: "session_turns turns T = Some U" "send_ok own T U" "replies T < length turns \<or> all_sent T \<longrightarrow> all_sent U" by blast
  have "send_ok own S U" using T(2) U(2) sends_trans by (auto simp: send_ok_def)
  with T U turn show ?case by auto
qed (simp add: send_ok_def)

lemma delivered:
  assumes "[] \<notin> set (sent_data S)" "all_sent S" "session_stream S = items_bytes items" "\<And>it. it \<in> set items \<Longrightarrow> legal_item it"
  defines "evs \<equiv> fst (items_effect items new_strict_stream)"
  shows "\<exists>P. EventReceiveThreadFunc (read_messages S) (new_streaming garbage old callback d) = Some P \<and>
    es_userdata (ws_user (snd P)) = fold (called_back callback old) evs d \<and> \<not> es_encounteredErrors (ws_user (snd P))"
proof -
  let ?bss = "sent_data S" and ?P = "new_streaming garbage old callback d"
  have bytes: "concat ?bss = items_bytes items" using all_sent_stream [OF assms(2)] assms(3) by simp
  have mode: "ss_mode new_strict_stream = Token []" by (simp add: new_strict_stream_def new_stream_def)
  have run: "stream_run (concat ?bss) new_strict_stream = (event_outputs evs, snd (items_effect items new_strict_stream))"
    unfolding bytes evs_def by (rule items_run [OF mode assms(4)])
  have "ss_mode (snd (items_effect items new_strict_stream)) = ss_mode new_strict_stream" for items
  proof (induction items rule: rev_induct)
    case (snoc it items)
    then show ?case by (simp add: items_effect_append item_effect_mode)
  qed simp
  then have ns: "ss_mode (snd (stream_run (concat ?bss) new_strict_stream)) \<noteq> Stuck" by (simp add: run mode)
  have out: "fst (stream_run (concat ?bss) new_strict_stream) = event_outputs evs" by (simp add: run)
  have complete: "complete_event ev" if "ev \<in> set evs" for ev
    using items_effect_complete [OF assms(4)] that by (simp add: evs_def)
  obtain P1 where P1: "Streamer_OnEventBuffers ?bss ?P = Some P1"
    "streamer_idle callback old (fold (called_back callback old) evs d) (snd P1)"
    using streamer_delivers [OF assms(1) ns out complete] by metis
  have "legacy_stream (fst ?P) = new_strict_stream" by (simp add: new_streaming_def new_LegacyEventParser_stream)
  then have "EventReceiveThreadFunc (read_messages S) ?P = Some (update_streamer (\<lambda>E. E\<lparr>es_exitRequested := True\<rparr>) P1)"
    using thread_reads [OF new_streaming_inv assms(1), of garbage old callback d] ns P1(1) read_messages_events [OF assms(1)]
    by (simp add: new_streaming_def new_WriterState_def new_EventStreamer_def)
  with P1(2) show ?thesis
    by (intro exI [of _ "update_streamer (\<lambda>E. E\<lparr>es_exitRequested := True\<rparr>) P1"]) (simp add: update_streamer_def streamer_idle_def)
qed

text \<open>Disabling the provider hands its last chunks to the session.\<close>

lemma Provider_Disable_ok:
  assumes "provider_ok P" "ev_isEnabled P"
  shows "\<exists>Q. Provider_Disable P = Some Q \<and> owned [] (the_session Q) \<and> session_stream (the_session Q) = provider_stream P \<and>
    sent_data (the_session Q) = sent_data (the_session P)"
proof -
  from Provider_Flush_ok [OF assms(1)] obtain Q where Q: "Provider_Flush P = Some Q" "flushed P Q" "ev_eventChunks Q = []" by blast
  then show ?thesis using assms(2)
    by (simp add: Provider_Disable_def flushed_def provider_ok_def the_session_def provider_stream_def)
qed

lemma delivered_after_Disable:
  assumes "writing P items" "[] \<notin> set (sent_data (the_session P))"
  defines "evs \<equiv> fst (items_effect items new_strict_stream)"
  shows "\<exists>Q. Provider_Disable P = Some Q \<and> (\<forall>turns. replies (the_session Q) < length turns \<longrightarrow>
    (\<exists>S T. session_turns turns (the_session Q) = Some S \<and>
      EventReceiveThreadFunc (read_messages S) (new_streaming garbage old callback d) = Some T \<and>
      es_userdata (ws_user (snd T)) = fold (called_back callback old) evs d \<and> \<not> es_encounteredErrors (ws_user (snd T))))"
proof -
  have ok: "provider_ok P" "ev_isEnabled P" "provider_stream P = items_bytes items" and legal: "\<And>it. it \<in> set items \<Longrightarrow> legal_item it"
    using assms(1) by (simp_all add: writing_def QueryEventWriteStatus_Success)
  from Provider_Disable_ok [OF ok(1,2)] ok(3) obtain Q where
    Q: "Provider_Disable P = Some Q" "owned [] (the_session Q)" "session_stream (the_session Q) = items_bytes items"
      "sent_data (the_session Q) = sent_data (the_session P)" by auto
  have "\<exists>S T. session_turns turns (the_session Q) = Some S \<and>
      EventReceiveThreadFunc (read_messages S) (new_streaming garbage old callback d) = Some T \<and>
      es_userdata (ws_user (snd T)) = fold (called_back callback old) evs d \<and> \<not> es_encounteredErrors (ws_user (snd T))"
    if "replies (the_session Q) < length turns" for turns
  proof -
    from session_turns_ok [OF Q(2), of turns] that obtain S where
      S: "session_turns turns (the_session Q) = Some S" "send_ok [] (the_session Q) S" "all_sent S" by blast
    have "[] \<notin> set (sent_data S)" "session_stream S = items_bytes items"
      using S(2) assms(2) Q by (auto simp: send_ok_def sends_def)
    with delivered [OF this(1) S(3) this(2) legal, of garbage old callback d] S(1) show ?thesis by (auto simp: evs_def)
  qed
  with Q(1) show ?thesis by blast
qed

end
