(* ===== verification/Event_Theorems.thy ===== *)
theory Event_Theorems
  imports Event_Delivery
begin

text \<open>
  The properties of the event stack: what a provider writes reaches the tool, the streams of bytes have one meaning
  however they are cut, and where the two parsers and the code disagree.
\<close>

subsection \<open>From the provider to the tool\<close>

text \<open>C19. A provider that is registered, enabled and has just got a session writes events, each with at least one byte
  of payload (an event without payload may be in the stream although its writing is reported as failed), updates its
  flush timer and lets its session run, in any order and at any times, with allocations that may fail and a message
  layer that may refuse messages. None of its operations goes wrong. When it is disabled and the session has had more
  turns than the message layer has refusals left, the streamer of the tool, reading the messages one by one, calls the
  tool's callback for exactly the events whose writing succeeded, in order, each with its provider, its identifier, its
  index and its whole payload, and records no error.\<close>

theorem events_reach_the_tool:
  assumes "is_outgoing pSession = []" "\<forall>oper \<in> set opers. op_ok oper"
  shows "\<exists>rs P Q. provider_run opers (fresh_provider i f freq allocates sid pSession g) = Some (rs, P) \<and> Provider_Disable P = Some Q \<and>
    (\<forall>turns. replies (the_session Q) < length turns \<longrightarrow>
      (\<exists>S T evs. session_turns turns (the_session Q) = Some S \<and>
        EventReceiveThreadFunc (read_messages S) (new_streaming garbage old callback d) = Some T \<and>
        es_userdata (ws_user (snd T)) = fold (called_back callback old) evs d \<and>
        \<not> es_encounteredErrors (ws_user (snd T)) \<and> map event_key evs = written i 0 opers rs))"
proof -
  note fresh = fresh_provider_writing [OF assms(1), of i f freq allocates sid g]
  from provider_run_ok [OF fresh(1), of opers] assms(2) fresh(2-4) obtain rs P items where
    P: "provider_run opers (fresh_provider i f freq allocates sid pSession g) = Some (rs, P)" "writing P items"
      "map event_key (fst (items_effect items new_strict_stream)) = written i 0 opers rs" "[] \<notin> set (sent_data (the_session P))"
    by (auto simp: no_empty_def)
  from delivered_after_Disable [OF P(2,4), of garbage old callback d] P(3) show ?thesis using P(1) by blast
qed

lemma events_reach_the_tool_witness:
  "\<exists>rs P Q. provider_run [WriteOp \<lparr>wt_preamble = 0, wt_event = 320, wt_flush = 1\<rparr> 7 None [1, 2, 3], UpdateOp 5 True, SessionOp 6 True]
      (fresh_provider 9 100 1000 (\<lambda>_. True) 6 \<lparr>is_version = 1, is_closed = False, is_incoming = [], is_sendReplies = [], is_outgoing = []\<rparr> 0) =
        Some (rs, P) \<and> Provider_Disable P = Some Q \<and>
    (\<forall>turns. replies (the_session Q) < length turns \<longrightarrow>
      (\<exists>S T evs. session_turns turns (the_session Q) = Some S \<and>
        EventReceiveThreadFunc (read_messages S)
          (new_streaming [] (\<lparr>ei_timestampFrequency = 0, ei_timestamp = 0, ei_providerId = 0, ei_eventId = 0, ei_eventIndex = 0,
            ei_totalPayloadSize = 0\<rparr>) (\<lambda>info payload r d. d @ [payload]) []) = Some T \<and>
        es_userdata (ws_user (snd T)) = fold (called_back (\<lambda>info payload r d. d @ [payload]) \<lparr>ei_timestampFrequency = 0, ei_timestamp = 0,
          ei_providerId = 0, ei_eventId = 0, ei_eventIndex = 0, ei_totalPayloadSize = 0\<rparr>) evs [] \<and>
        \<not> es_encounteredErrors (ws_user (snd T)) \<and> map event_key evs = written 9 0
          [WriteOp \<lparr>wt_preamble = 0, wt_event = 320, wt_flush = 1\<rparr> 7 None [1, 2, 3], UpdateOp 5 True, SessionOp 6 True] rs))"
  by (rule events_reach_the_tool) (simp_all add: payload_bytes_def)

text \<open>C27. Chunks of event data are never in two places: in every state that a provider in a session can reach, the chunks
  it holds, those in the queue of the session, the one that is being sent and those in the pool are all different, all
  of them exist and hold at most what a chunk can hold, and what is pending is not empty.\<close>

theorem chunks_in_one_place:
  assumes "is_outgoing pSession = []" "\<forall>oper \<in> set opers. op_ok oper"
    "provider_run opers (fresh_provider i f freq allocates sid pSession g) = Some (rs, P)"
  shows "distinct (ev_eventChunks P @ session_chunks (the_session P)) \<and>
    (\<forall>p \<in> set (ev_eventChunks P @ session_chunks (the_session P)).
      \<exists>c. sv_memory (the_session P) p = Some c \<and> length c \<le> kEventChunkMaxDataSize) \<and>
    (sv_eventPayloadPending (the_session P) \<longrightarrow> pending_data (the_session P) \<noteq> [])"
  using provider_run_ok [OF fresh_provider_writing(1) [OF assms(1), of i f freq allocates sid g], of opers] assms(2,3)
  by (auto simp: writing_def provider_ok_def owned_def chunk_ok_def)

lemma chunks_in_one_place_witness:
  "\<exists>rs P. provider_run [WriteOp \<lparr>wt_preamble = 0, wt_event = 320, wt_flush = 1\<rparr> 7 None [1, 2, 3], SessionOp 6 True]
      (fresh_provider 9 100 1000 (\<lambda>_. True) 6 \<lparr>is_version = 1, is_closed = False, is_incoming = [], is_sendReplies = [], is_outgoing = []\<rparr> 0) =
        Some (rs, P) \<and> distinct (ev_eventChunks P @ session_chunks (the_session P))"
proof -
  let ?s = "\<lparr>is_version = 1, is_closed = False, is_incoming = [], is_sendReplies = [], is_outgoing = []\<rparr>"
    and ?opers = "[WriteOp \<lparr>wt_preamble = 0, wt_event = 320, wt_flush = 1\<rparr> 7 None [1, 2, 3], SessionOp 6 True]"
  have s: "is_outgoing ?s = []" by simp
  have ok: "\<forall>oper \<in> set ?opers. op_ok oper" by (simp add: payload_bytes_def)
  with provider_run_ok [OF fresh_provider_writing(1) [OF s, of 9 100 1000 "\<lambda>_. True" 6 0], of ?opers] obtain rs P where
    P: "provider_run ?opers (fresh_provider 9 100 1000 (\<lambda>_. True) 6 ?s 0) = Some (rs, P)" by blast
  from chunks_in_one_place [OF s ok P] P show ?thesis by blast
qed

subsection \<open>The meaning of a stream\<close>

lemma OnEventBuffers_mode:
  "OnEventBuffers bss p = Some (outs, q) \<Longrightarrow> parser_inv p \<Longrightarrow> parser_mode p \<noteq> Stuck \<Longrightarrow> parser_mode q \<noteq> Stuck"
proof (induction bss arbitrary: p outs)
  case (Cons b bss)
  then obtain out p1 out' where "OnEventData b p = Some (out, p1)" "OnEventBuffers bss p1 = Some (out', q)"
    by (auto simp: bind_eq_Some_conv)
  with OnEventData_sound [OF this(1) Cons.prems(2)] Cons.IH [OF this(2)] show ?case by simp
qed simp

text \<open>C24. The newer parser reads streams as the machine that takes them byte by byte does, however the bytes come in
  buffers: the events with their fields, the bytes of the payloads, and the state after them are the same. It fails
  to return exactly when the machine meets an identifier that is no token, for then the loop of the streamer asks for
  the same token forever.\<close>

theorem parser_refines_machine:
  "map_option (\<lambda>(outs, p). (flat_outputs outs, parser_stream p)) (OnEventBuffers bss (new_EventParser garbage)) =
    (let (outs, S) = stream_run (concat bss) new_stream in if ss_mode S = Stuck then None else Some (outs, S))"
proof (cases "ss_mode (snd (stream_run (concat bss) new_stream)) = Stuck")
  case True
  have "OnEventBuffers bss (new_EventParser garbage) = None"
  proof (cases "OnEventBuffers bss (new_EventParser garbage)")
    case (Some r)
    then obtain outs q where r: "OnEventBuffers bss (new_EventParser garbage) = Some (outs, q)" by (cases r) auto
    have "parser_mode (new_EventParser garbage) \<noteq> Stuck" by (simp add: parser_mode_def new_EventParser_def)
    from OnEventBuffers_mode [OF r new_EventParser_inv this] OnEventBuffers_sound [OF r new_EventParser_inv] True
    show ?thesis by (simp add: new_EventParser_stream parser_stream_mode)
  qed
  with True show ?thesis by (simp add: case_prod_unfold)
next
  case False
  from OnEventBuffers_returns [OF new_EventParser_inv, of bss garbage] False obtain outs q where
    r: "OnEventBuffers bss (new_EventParser garbage) = Some (outs, q)" by (auto simp: new_EventParser_stream)
  with OnEventBuffers_sound [OF r new_EventParser_inv] False show ?thesis by (simp add: new_EventParser_stream)
qed

text \<open>C25. The state of the newer parser is well formed after any buffers: its token buffer has its size, the positions in
  it and in the input are inside, no more payload is counted than the token announced; and the next call of
  Parse, on any buffer, returns and leaves such a state.\<close>

theorem parser_state_well_formed:
  assumes "OnEventBuffers bss (new_EventParser garbage) = Some (outs, p)"
  shows "length (ep_tokenBuffer p) = kMaxEventTokenSize \<and> ep_tokenDataSize p \<le> kMaxEventTokenSize \<and>
    ep_cursor p \<le> length (ep_buffer p) \<and>
    (ep_dataPayloadReadInBytes p \<noteq> 0 \<longrightarrow> ep_parsingState p = ParsingPayload \<and>
      ep_dataPayloadReadInBytes p \<le> unat (token_field 8 8 p :: u64)) \<and>
    (\<forall>bytes. \<exists>state q. Parse (SetParsingBuffer bytes p) = Some (state, q) \<and> length (ep_tokenBuffer q) = kMaxEventTokenSize \<and>
      ep_cursor q \<le> length bytes)"
proof -
  have inv: "parser_inv p" using OnEventBuffers_sound [OF assms new_EventParser_inv] by simp
  have "\<exists>state q. Parse (SetParsingBuffer bytes p) = Some (state, q) \<and> length (ep_tokenBuffer q) = kMaxEventTokenSize \<and>
      ep_cursor q \<le> length bytes" for bytes
    using Parse_ok [OF SetParsingBuffer_inv [OF inv], of bytes]
    by (auto simp: simulates_def parser_inv_def kMaxEventTokenSize_eq SetParsingBuffer_def)
  moreover have "item_size (token_header p) \<le> 24" by (simp add: item_size_def event_sizes)
  ultimately show ?thesis
    using inv by (auto simp: parser_inv_def kMaxEventTokenSize_eq delta_size_def split: ParserInternalState.splits)
qed

lemma parser_state_well_formed_witness:
  "\<exists>outs p. OnEventBuffers [[2, 1], [0, 0]] (new_EventParser []) = Some (outs, p) \<and> length (ep_tokenBuffer p) = kMaxEventTokenSize"
proof -
  have "ss_mode (snd (stream_run (concat [[2, 1], [0, 0]]) (parser_stream (new_EventParser [])))) \<noteq> Stuck"
    unfolding new_EventParser_stream by code_simp
  from OnEventBuffers_returns [OF new_EventParser_inv this] obtain outs p where
    "OnEventBuffers [[2, 1], [0, 0]] (new_EventParser []) = Some (outs, p)" by blast
  with parser_state_well_formed [OF this] show ?thesis by blast
qed

text \<open>Items with events whose header carries no delta.\<close>

fun no_header_delta :: "stream_item \<Rightarrow> bool" where
  "no_header_delta (EventItem delta e i bytes) \<longleftrightarrow> delta = 0"
| "no_header_delta _ \<longleftrightarrow> True"

lemma item_effect_strict:
  assumes "no_header_delta it"
  shows "fst (item_effect it (S\<lparr>ss_strict := b\<rparr>)) = fst (item_effect it S)"
    "snd (item_effect it (S\<lparr>ss_strict := b\<rparr>)) = snd (item_effect it S)\<lparr>ss_strict := b\<rparr>"
  using assms by (induction it S rule: item_effect.induct) (auto)

lemma items_effect_strict:
  "(\<And>it. it \<in> set items \<Longrightarrow> no_header_delta it) \<Longrightarrow>
   fst (items_effect items (S\<lparr>ss_strict := b\<rparr>)) = fst (items_effect items S)"
proof (induction items arbitrary: S)
  case (Cons it items)
  then have "no_header_delta it" by simp
  note step = item_effect_strict [OF this, where S = S and b = b]
  from Cons.IH [of "snd (item_effect it S)"] Cons.prems show ?case by (simp add: step)
qed simp

lemma items_run_mode:
  assumes "ss_mode S = Token []" "\<And>it. it \<in> set items \<Longrightarrow> legal_item it"
  shows "fst (stream_run (items_bytes items) S) = event_outputs (fst (items_effect items S))"
    "ss_mode (snd (stream_run (items_bytes items) S)) \<noteq> Stuck"
proof -
  have "ss_mode (snd (items_effect items S)) = ss_mode S"
  proof (induction items rule: rev_induct)
    case (snoc it items)
    then show ?case by (simp add: items_effect_append item_effect_mode)
  qed simp
  with items_run [OF assms(1), of items] assms show
    "fst (stream_run (items_bytes items) S) = event_outputs (fst (items_effect items S))"
    "ss_mode (snd (stream_run (items_bytes items) S)) \<noteq> Stuck" by simp_all
qed

text \<open>C26. The two parsers agree on streams of provider tokens, time stamps, deltas of one to six bytes and events whose
  header carries no delta, which is what providers write, however the buffers cut them: what the older parser and the
  streamer on it hand to the callback of the tool are the events of the newer parser. (With a header delta the newer
  parser adds it to the time stamp of the event and the older one ignores it.)\<close>

theorem parsers_agree:
  assumes "\<forall>it \<in> set items. legal_item it \<and> no_header_delta it" "concat bss = items_bytes items" "[] \<notin> set bss"
  shows "\<exists>evs outs p P. OnEventBuffers bss (new_EventParser garbage) = Some (outs, p) \<and> flat_outputs outs = event_outputs evs \<and>
    Streamer_OnEventBuffers bss (new_streaming garbage' old callback d) = Some P \<and>
    es_userdata (ws_user (snd P)) = fold (called_back callback old) evs d"
proof -
  have legal: "\<And>it. it \<in> set items \<Longrightarrow> legal_item it" and plain: "\<And>it. it \<in> set items \<Longrightarrow> no_header_delta it"
    using assms(1) by simp_all
  have modes: "ss_mode new_stream = Token []" "ss_mode new_strict_stream = Token []"
    by (simp_all add: new_strict_stream_def new_stream_def)
  define evs where "evs = fst (items_effect items new_stream)"
  have "evs = fst (items_effect items new_strict_stream)"
    using items_effect_strict [OF plain, where S = new_stream and b = True] by (simp add: evs_def new_strict_stream_def)
  with items_run_mode [OF modes(2) legal] assms(2) have strict:
    "fst (stream_run (concat bss) new_strict_stream) = event_outputs evs" "ss_mode (snd (stream_run (concat bss) new_strict_stream)) \<noteq> Stuck"
    by simp_all
  have complete: "complete_event ev" if "ev \<in> set evs" for ev
    using items_effect_complete [OF legal] that by (simp add: evs_def)
  from streamer_delivers [OF assms(3) strict(2,1) complete, of garbage' old callback d] obtain P where
    P: "Streamer_OnEventBuffers bss (new_streaming garbage' old callback d) = Some P"
      "streamer_idle callback old (fold (called_back callback old) evs d) (snd P)" by blast
  from items_run_mode [OF modes(1) legal] assms(2) have loose:
    "fst (stream_run (concat bss) new_stream) = event_outputs evs" "ss_mode (snd (stream_run (concat bss) new_stream)) \<noteq> Stuck"
    by (simp_all add: evs_def)
  with OnEventBuffers_returns [OF new_EventParser_inv, of bss garbage] obtain outs p where
    p: "OnEventBuffers bss (new_EventParser garbage) = Some (outs, p)" by (auto simp: new_EventParser_stream)
  from OnEventBuffers_sound [OF this new_EventParser_inv] loose(1) have "flat_outputs outs = event_outputs evs"
    by (simp add: new_EventParser_stream)
  with p P show ?thesis by (auto simp: streamer_idle_def)
qed

lemma parsers_agree_witness:
  "\<exists>evs outs p P. OnEventBuffers [items_bytes [ProviderItem 5 100 200, StampItem (LargeDelta 300 2), EventItem 0 1 0 [1, 2]]]
      (new_EventParser []) = Some (outs, p) \<and> flat_outputs outs = event_outputs evs \<and>
    Streamer_OnEventBuffers [items_bytes [ProviderItem 5 100 200, StampItem (LargeDelta 300 2), EventItem 0 1 0 [1, 2]]]
      (new_streaming [] \<lparr>ei_timestampFrequency = 0, ei_timestamp = 0, ei_providerId = 0, ei_eventId = 0, ei_eventIndex = 0,
        ei_totalPayloadSize = 0\<rparr> (\<lambda>info payload r d. d @ [payload]) []) = Some P \<and>
    es_userdata (ws_user (snd P)) = fold (called_back (\<lambda>info payload r d. d @ [payload]) \<lparr>ei_timestampFrequency = 0, ei_timestamp = 0,
      ei_providerId = 0, ei_eventId = 0, ei_eventIndex = 0, ei_totalPayloadSize = 0\<rparr>) evs []"
  by (rule parsers_agree [of "[ProviderItem 5 100 200, StampItem (LargeDelta 300 2), EventItem 0 1 0 [1, 2]]"]) simp_all

text \<open>C29. The older parser writes outside of its token buffer on hostile input: after a time delta that announces more than
  24 bytes, it accepts 24 of them, which clears the buffer it no longer has room for, and then writes the next byte
  past the end. (Its size is only limited when the delta is read back.)\<close>

theorem legacy_parser_overflows:
  assumes "24 < unat numBytes" "length bytes = 24"
  shows "\<exists>p. Legacy_Parse C (3 # numBytes # bytes) (new_LegacyEventParser garbage) u = Some (Success, p, u) \<and>
    lp_tokenBufferSize p > kMaxEventTokenSize \<and> Legacy_Parse C [byte] p u = None"
proof -
  let ?xs = "bytes_at 25 garbage"
  have len: "length ?xs = 25" by (simp add: bytes_at_def)
  then obtain b0 xs where xs: "?xs = b0 # xs" "length xs = 24" by (cases ?xs) auto
  then obtain b1 rest where rest: "xs = b1 # rest" "length rest = 23" by (cases xs) auto
  define p1 where "p1 = (new_LegacyEventParser garbage)\<lparr>lp_tokenBuffer := 3 # b1 # rest, lp_tokenBufferSize := 1,
    lp_dataState := WaitingForToken\<rparr>"
  define p2 where "p2 = p1\<lparr>lp_tokenBuffer := 3 # numBytes # rest, lp_tokenBufferSize := 2, lp_dataState := WaitingForPayload\<rparr>"
  define p3 where "p3 = p2\<lparr>lp_tokenBuffer := 3 # numBytes # replicate 23 0, lp_tokenBufferSize := 26\<rparr>"
  have n: "numBytes > 0" using assms(1) by (metis gr_implies_not0 unat_0 word_gt_0)
  have pass1: "legacy_pass C (new_LegacyEventParser garbage) (3 # numBytes # bytes) u = Some (Success, p1, numBytes # bytes, u)"
    by (simp add: legacy_pass_def wait_for_header_def GetBytes_def event_sizes WriteIntoTokenBuffer_def p1_def
        new_LegacyEventParser_def xs rest write_at_def Let_def kMaxEventTokenSize_eq)
  have pass2: "legacy_pass C p1 (numBytes # bytes) u = Some (Success, p2, bytes, u)"
    using n by (simp add: legacy_pass_def wait_for_token_def GetBytes_def event_sizes WriteIntoTokenBuffer_def GetTokenSize_def
        bits_id_def legacy_header_def legacy_field_def token_complete_def get_word_byte write_at_def Let_def
        kMaxEventTokenSize_eq p1_def p2_def new_LegacyEventParser_def)
  have ne: "bytes \<noteq> []" using assms(2) by auto
  have pass3: "legacy_pass C p2 bytes u = Some (Success, p3, [], u)"
    using assms ne by (simp add: legacy_pass_def wait_for_delta_def GetBytes_def event_sizes WriteIntoTokenBuffer_def
        bits_id_def legacy_header_def legacy_field_def get_word_byte write_at_def Let_def rest(2)
        kMaxEventTokenSize_eq p1_def p2_def p3_def new_LegacyEventParser_def)
  have pass4: "legacy_pass C p3 [byte] u = None"
    using assms by (simp add: legacy_pass_def wait_for_delta_def GetBytes_def event_sizes WriteIntoTokenBuffer_def
        bits_id_def legacy_header_def legacy_field_def get_word_byte Let_def
        kMaxEventTokenSize_eq p1_def p2_def p3_def new_LegacyEventParser_def)
  from ne have "Legacy_Parse C (3 # numBytes # bytes) (new_LegacyEventParser garbage) u = Some (Success, p3, u)"
    by (simp add: Legacy_Parse_def legacy_loop.simps [of C _ "_ # _"] legacy_loop.simps [of C _ "[]"] legacy_loop.simps [of C _ bytes]
        pass1 pass2 pass3)
  moreover have "Legacy_Parse C [byte] p3 u = None" by (simp add: Legacy_Parse_def legacy_loop.simps [of C _ "_ # _"] pass4)
  ultimately show ?thesis by (intro exI [of _ p3]) (simp add: p3_def kMaxEventTokenSize_eq)
qed

lemma legacy_parser_overflows_witness:
  "\<exists>p. Legacy_Parse \<lparr>pfnEventReceived = None, pfnPayloadData = None\<rparr> (3 # 200 # replicate 24 7) (new_LegacyEventParser []) () =
      Some (Success, p, ()) \<and> lp_tokenBufferSize p > kMaxEventTokenSize \<and>
    Legacy_Parse \<lparr>pfnEventReceived = None, pfnPayloadData = None\<rparr> [7] p () = None"
  by (rule legacy_parser_overflows) simp_all

subsection \<open>Time stamps\<close>

text \<open>The time stamps of successive events, and the clock of a reader, in units.\<close>

fun timer_run :: "u64 list \<Rightarrow> EventTimer \<Rightarrow> EventTimestamp list \<times> EventTimer" where
  "timer_run [] t = ([], t)"
| "timer_run (now # nows) t =
    (let (stamp, t1) = CreateTimestamp now t; (stamps, t2) = timer_run nows t1 in (stamp # stamps, t2))"

fun reader_clock :: "EventTimestamp \<Rightarrow> u64 \<Rightarrow> u64" where
  "reader_clock (Full now f) r = now"
| "reader_clock (LargeDelta delta n) r = r + delta"
| "reader_clock (SmallDelta delta) r = r"

lemma reader_clock_effect:
  "ss_timestamp (snd (item_effect (StampItem stamp) S)) = reader_clock stamp (ss_timestamp S)"
  by (cases stamp) simp_all

lemma units_of: "32 * (x div 32) \<le> x" "x < 32 * (x div 32) + 32" for x :: nat
  by presburger+

lemma lag_step:
  fixes r m n now d :: nat
  assumes "32 * r \<le> m" "m < 32 * (r + n + 1)" "m \<le> now" "32 * d \<le> now - m" "now - m < 32 * d + 32"
  shows "32 * (r + d) \<le> now \<and> now < (r + d + n + 2) * 32"
proof -
  obtain k where k: "now = m + k" using assms(3) by (auto simp: le_iff_add)
  from assms(4,5) have "32 * d \<le> k" "k < 32 * d + 32" by (simp_all add: k)
  moreover have "32 * r + 32 * d \<le> m + 32 * d" using assms(1) by simp
  ultimately show ?thesis using assms(2) unfolding k by (simp add: algebra_simps)
qed

lemma lag_small: "m < 32 * (r + n + 1) \<Longrightarrow> now < m + 512 \<Longrightarrow> now < (r + n + 17) * 32" for r m n now :: nat
  by (simp add: algebra_simps)

lemma CreateTimestamp_clock:
  assumes "CreateTimestamp now t = (stamp, t1)" "m_lastTimestamp t \<le> now"
    "32 * unat r \<le> unat (m_lastTimestamp t)" "unat (m_lastTimestamp t) < 32 * (unat r + n + 1)"
  shows "32 * unat (reader_clock stamp r) \<le> unat (m_lastTimestamp t1)"
    "unat (m_lastTimestamp t1) < 32 * (unat (reader_clock stamp r) + Suc n + 1)"
    "m_lastTimestamp t1 \<le> now" "unat now div 32 \<le> unat (reader_clock stamp r) + Suc n + 15" "\<forall>delta. stamp = SmallDelta delta \<longrightarrow> delta = 0"
proof -
  define m where "m = m_lastTimestamp t"
  define d where "d = (now - m) div 32"
  have sub: "unat (now - m) = unat now - unat m" "unat m \<le> unat now"
    using assms(2) by (simp_all add: m_def unat_sub word_le_nat_alt)
  have d: "unat d = (unat now - unat m) div 32" by (simp add: d_def unat_div sub)
  have div: "unat (now div 32) = unat now div 32" by (simp add: unat_div)
  note step = assms(1) [unfolded CreateTimestamp_def kEventTimeUnit_def kEventTimeDeltaThreshold_def Let_def, folded m_def, folded d_def]
  note mr = assms(3,4) [folded m_def]
  have add: "unat (r + d) = unat r + unat d"
  proof -
    have "unat r + unat d \<le> unat now" using mr(1) d sub(2) by linarith
    moreover have "unat now < 2 ^ LENGTH(64)" by (rule unsigned_less)
    ultimately have "unat r + unat d < 2 ^ LENGTH(64)" by (rule le_less_trans)
    then show ?thesis by (rule unat_add_lem [THEN iffD1])
  qed
  consider (full) "stamp = Full (now div 32) (m_timestampFrequency t)" "m_lastTimestamp t1 = now"
    | (large) "stamp = LargeDelta d (word_of_nat (delta_bytes 1 d))" "m_lastTimestamp t1 = now"
    | (small) "stamp = SmallDelta (ucast (d div 32))" "m_lastTimestamp t1 = m" "d \<le> 15"
    using step by (auto split: if_splits simp: m_def)
  then have "32 * unat (reader_clock stamp r) \<le> unat (m_lastTimestamp t1) \<and>
    unat (m_lastTimestamp t1) < 32 * (unat (reader_clock stamp r) + Suc n + 1) \<and> m_lastTimestamp t1 \<le> now \<and>
    unat now div 32 \<le> unat (reader_clock stamp r) + Suc n + 15 \<and> (\<forall>delta. stamp = SmallDelta delta \<longrightarrow> delta = 0)"
  proof cases
    case full
    with units_of [of "unat now"] show ?thesis by (simp add: div)
  next
    case large
    have "32 * unat d \<le> unat now - unat m" "unat now - unat m < 32 * unat d + 32"
      unfolding d by (rule units_of)+
    from lag_step [OF mr sub(2) this]
    have now: "32 * (unat r + unat d) \<le> unat now" "unat now < (unat r + unat d + n + 2) * 32" by blast+
    from less_mult_imp_div_less [OF now(2)] have "unat now div 32 \<le> unat r + unat d + Suc n + 15" by linarith
    with now large show ?thesis by (simp add: add)
  next
    case small
    have "unat d \<le> 15" using small(3) by (simp add: word_le_nat_alt)
    moreover have "unat now - unat m < 32 * unat d + 32" unfolding d by (rule units_of)
    ultimately have "unat now < unat m + 512" by linarith
    from less_mult_imp_div_less [OF lag_small [OF mr(2) this]] have "unat now div 32 \<le> unat r + n + 16" by linarith
    moreover have "d div 32 = 0" using \<open>unat d \<le> 15\<close> by (simp add: word_unat_eq_iff unat_div)
    ultimately show ?thesis using small mr assms(2) by (simp add: m_def)
  qed
  then show "32 * unat (reader_clock stamp r) \<le> unat (m_lastTimestamp t1)"
    "unat (m_lastTimestamp t1) < 32 * (unat (reader_clock stamp r) + Suc n + 1)"
    "m_lastTimestamp t1 \<le> now" "unat now div 32 \<le> unat (reader_clock stamp r) + Suc n + 15" "\<forall>delta. stamp = SmallDelta delta \<longrightarrow> delta = 0"
    by blast+
qed

lemma timer_run_clock:
  "timer_run nows t = (stamps, t1) \<Longrightarrow> sorted (m_lastTimestamp t # nows) \<Longrightarrow> nows \<noteq> [] \<Longrightarrow>
   32 * unat r \<le> unat (m_lastTimestamp t) \<Longrightarrow> unat (m_lastTimestamp t) < 32 * (unat r + n + 1) \<Longrightarrow>
   32 * unat (fold reader_clock stamps r) \<le> unat (last nows) \<and>
   unat (last nows) div 32 \<le> unat (fold reader_clock stamps r) + n + length nows + 15 \<and> (\<forall>delta. SmallDelta delta \<in> set stamps \<longrightarrow> delta = 0)"
proof (induction nows arbitrary: t stamps r n)
  case (Cons now nows)
  obtain stamp t' where stamp: "CreateTimestamp now t = (stamp, t')" by fastforce
  obtain stamps' where rest: "timer_run nows t' = (stamps', t1)" and stamps: "stamps = stamp # stamps'"
    using Cons.prems(1) by (auto simp: stamp split: prod.splits)
  have le: "m_lastTimestamp t \<le> now" using Cons.prems(2) by simp
  note c = CreateTimestamp_clock [OF stamp le Cons.prems(4,5)]
  show ?case
  proof (cases "nows = []")
    case True
    have "32 * unat (reader_clock stamp r) \<le> unat now" using c(1,3) by (simp add: word_le_nat_alt)
    with True rest c(4,5) show ?thesis by (auto simp: stamps)
  next
    case False
    have "sorted (m_lastTimestamp t' # nows)" using Cons.prems(2) c(3) by auto
    from Cons.IH [OF rest this False c(1,2)] False c(5) show ?thesis by (auto simp: stamps)
  qed
qed simp

text \<open>C28. The clock of a reader lags behind the provider's and never runs ahead: after any number of events at times that do
  not go back, the time it has, in units of 32 ticks, is at most that of the last event, and is behind by less than 16
  units for the deltas that are not sent plus one unit for every event, since the remainder of every large delta is dropped. The
  small delta in the header of an event, which is divided by the unit twice, is always 0.\<close>

theorem reader_clock_lags:
  assumes "sorted nows" "nows \<noteq> []" "timer_run nows (new_EventTimer frequency) = (stamps, t)"
  shows "unat (fold reader_clock stamps 0) \<le> unat (last nows) div 32 \<and>
    unat (last nows) div 32 \<le> unat (fold reader_clock stamps 0) + length nows + 15 \<and>
    (\<forall>delta. SmallDelta delta \<in> set stamps \<longrightarrow> delta = 0)"
proof -
  have "sorted (m_lastTimestamp (new_EventTimer frequency) # nows)" using assms(1) by (simp add: new_EventTimer_def)
  from timer_run_clock [OF assms(3) this assms(2), of 0 0] have
    "32 * unat (fold reader_clock stamps 0) \<le> unat (last nows)"
    "unat (last nows) div 32 \<le> unat (fold reader_clock stamps 0) + length nows + 15"
    "\<forall>delta. SmallDelta delta \<in> set stamps \<longrightarrow> delta = 0"
    by (simp_all add: new_EventTimer_def)
  moreover from div_le_mono [OF this(1), of 32] have "unat (fold reader_clock stamps 0) \<le> unat (last nows) div 32" by simp
  ultimately show ?thesis by blast
qed

lemma reader_clock_lags_witness:
  "unat (fold reader_clock (fst (timer_run [1000, 1100, 3000, 9999] (new_EventTimer 10))) 0) \<le> unat (last [1000, 1100, 3000, 9999 :: u64]) div 32"
  using reader_clock_lags [of "[1000, 1100, 3000, 9999]" 10 "fst (timer_run [1000, 1100, 3000, 9999] (new_EventTimer 10))"
      "snd (timer_run [1000, 1100, 3000, 9999] (new_EventTimer 10))"] by (simp add: prod.collapse del: timer_run.simps)

text \<open>A write of no bytes to chunks that are exactly full reports that memory is insufficient, although nothing had to be
  written: an event without a payload whose token ends exactly at the end of the last chunk is in the stream, and its
  provider is told that writing it failed.\<close>

lemma empty_write_to_full_chunks:
  assumes "M p = Some c" "length c = kEventChunkMaxDataSize"
  shows "View_Write [] (new_EventChunkBufferView [p]) M = Some (InsufficientMemory, new_EventChunkBufferView [p], M)"
  using assms by (simp add: View_Write.simps current_chunk_def new_EventChunkBufferView_def IsFull_def)

text \<open>A write across chunks is complete: when the chunks that are left have room for some bytes, writing them succeeds, and
  the chunks, read one after the other, hold what they held followed by exactly these bytes, wherever the boundaries
  are; no other chunk changes.\<close>

theorem write_across_chunks:
  assumes "view_ok V M" "d \<noteq> []" "length d \<le> room V M"
  shows "\<exists>V1 M1. View_Write d V M = Some (Success, V1, M1) \<and> view_ok V1 M1 \<and>
    chunk_bytes M1 (m_ppChunkList V) = chunk_bytes M (m_ppChunkList V) @ d \<and> room V1 M1 + length d = room V M \<and>
    (\<forall>p. p \<notin> set (m_ppChunkList V) \<longrightarrow> M1 p = M p)"
  using View_Write_writes [of d] assms unfolding writes_def wrote_def by blast

lemma write_across_chunks_witness:
  "\<exists>V1 M1. View_Write [1, 2, 3] (new_EventChunkBufferView [4, 6]) [4 \<mapsto> replicate 65531 7, 6 \<mapsto> []] = Some (Success, V1, M1) \<and>
    chunk_bytes M1 [4, 6] = replicate 65531 7 @ [1, 2, 3]"
proof -
  have "view_ok (new_EventChunkBufferView [4, 6]) [4 \<mapsto> replicate 65531 7, 6 \<mapsto> []]"
    "length [1, 2, 3 :: u8] \<le> room (new_EventChunkBufferView [4, 6]) [4 \<mapsto> replicate 65531 7, 6 \<mapsto> []]"
    by (simp_all add: view_ok_def new_EventChunkBufferView_def chunk_ok_def kEventChunkMaxDataSize_def room_def)
  from write_across_chunks [OF this(1) _ this(2)] show ?thesis
    by (auto simp: new_EventChunkBufferView_def chunk_bytes_def)
qed

end
