(* ===== verification/Event_Server.thy ===== *)
theory Event_Server
  imports Event_Provider
begin

text \<open>
  The event server (\<^verbatim>\<open>shared/legacy/src/protocols/ddEventServer.cpp\<close>) and the requests to it (the other half of
  \<^verbatim>\<open>ddEventServerSession.cpp\<close>): providers register, sessions are accepted, subscribe to a provider and are given
  to it.  Session objects are behind pointers: a number is a pointer, and an address without an object is a pointer
  to an object that was deleted.  \<open>None\<close> is a use of such a pointer, of a null pointer, or of an iterator at the end.
\<close>

subsection \<open>State\<close>

text \<open>
  A registered provider with what its class adds, and the pointer to its session: \<open>ev_pSession\<close> is filled in from the
  pointer while one of its operations runs.
\<close>

record ServedProvider =
  sp_provider :: BaseEventProvider
  sp_pSession :: "nat option"
  sp_numEvents :: u32
  sp_eventDescriptionData :: "u8 list"

text \<open>The providers are in the order in which iterators meet them.\<close>

record EventServer =
  sr_eventProviders :: "(EventProviderId \<times> ServedProvider) list"
  sr_pendingSessions :: "nat list"
  sr_pendingCapacity :: nat
  sr_sessions :: "nat \<rightharpoonup> EventServerSession"
  sr_nextSession :: nat
  sr_transferManager :: TransferManager

text \<open>\<^verbatim>\<open>Vector::Reserve\<close>: the capacity only grows.\<close>

function pow2_loop :: "nat \<Rightarrow> nat \<Rightarrow> nat" where
  "pow2_loop ret v = (if 0 < ret \<and> ret < v then pow2_loop (2 * ret) v else ret)"
  by pat_completeness auto
termination by (relation "measure (\<lambda>(ret, v). v - ret)") auto

declare pow2_loop.simps [simp del]

definition Pow2Pad :: "nat \<Rightarrow> nat" where
  "Pow2Pad v = (if v > 0 \<and> v AND (v - 1) = 0 then v else pow2_loop 1 v)"

definition Vector_Reserve :: "nat \<Rightarrow> nat \<Rightarrow> nat" where
  "Vector_Reserve newSize capacity = (if capacity < newSize then Pow2Pad (max newSize 1) else capacity)"

definition kMaxSessionNum :: nat where "kMaxSessionNum = 4"

definition new_EventServer :: "TransferManager \<Rightarrow> EventServer" where
  "new_EventServer manager =
    \<lparr>sr_eventProviders = [], sr_pendingSessions = [], sr_pendingCapacity = Vector_Reserve kMaxSessionNum 16,
     sr_sessions = Map.empty, sr_nextSession = 0, sr_transferManager = manager\<rparr>"

definition find_served :: "EventProviderId \<Rightarrow> EventServer \<Rightarrow> ServedProvider option" where
  "find_served providerId E = map_of (sr_eventProviders E) providerId"

definition set_served :: "EventProviderId \<Rightarrow> (ServedProvider \<Rightarrow> ServedProvider) \<Rightarrow> EventServer \<Rightarrow> EventServer" where
  "set_served providerId f E =
    E\<lparr>sr_eventProviders := map (\<lambda>(i, sp). (i, if i = providerId then f sp else sp)) (sr_eventProviders E)\<rparr>"

definition set_session :: "nat \<Rightarrow> (EventServerSession \<Rightarrow> EventServerSession) \<Rightarrow> EventServer \<Rightarrow> EventServer" where
  "set_session a f E = E\<lparr>sr_sessions := (sr_sessions E)(a := map_option f (sr_sessions E a))\<rparr>"

text \<open>An operation of a provider, run on the session it points to.\<close>

definition lent :: "ServedProvider \<Rightarrow> EventServer \<Rightarrow> BaseEventProvider option" where
  "lent sp E =
    (case sp_pSession sp of
       None \<Rightarrow> Some (sp_provider sp)
     | Some a \<Rightarrow> map_option (\<lambda>S. (sp_provider sp)\<lparr>ev_pSession := Some S\<rparr>) (sr_sessions E a))"

definition returned :: "EventProviderId \<Rightarrow> ServedProvider \<Rightarrow> BaseEventProvider \<Rightarrow> EventServer \<Rightarrow> EventServer" where
  "returned providerId sp P E =
    (let E1 = set_served providerId (\<lambda>sp. sp\<lparr>sp_provider := P\<lparr>ev_pSession := None\<rparr>\<rparr>) E in
     case (sp_pSession sp, ev_pSession P) of
       (Some a, Some S) \<Rightarrow> E1\<lparr>sr_sessions := (sr_sessions E)(a \<mapsto> S)\<rparr>
     | _ \<Rightarrow> E1)"

definition on_provider ::
  "EventProviderId \<Rightarrow> (BaseEventProvider \<Rightarrow> ('r \<times> BaseEventProvider) option) \<Rightarrow> EventServer \<Rightarrow> ('r \<times> EventServer) option" where
  "on_provider providerId f E =
    Option.bind (find_served providerId E) (\<lambda>sp.
      Option.bind (lent sp E) (\<lambda>P. map_option (\<lambda>(r, Q). (r, returned providerId sp Q E)) (f P)))"

definition do_provider ::
  "EventProviderId \<Rightarrow> (BaseEventProvider \<Rightarrow> BaseEventProvider option) \<Rightarrow> EventServer \<Rightarrow> EventServer option" where
  "do_provider providerId f E = map_option snd (on_provider providerId (\<lambda>P. map_option (Pair ()) (f P)) E)"

subsection \<open>Sessions\<close>

text \<open>The position of the pending session with an identifier; every session before it is looked at.\<close>

fun find_pending :: "(nat \<rightharpoonup> EventServerSession) \<Rightarrow> SessionId \<Rightarrow> nat list \<Rightarrow> nat option option" where
  "find_pending M sid [] = Some None"
| "find_pending M sid (a # as) =
    (case M a of
       None \<Rightarrow> None
     | Some S \<Rightarrow> if sv_sessionId S = sid then Some (Some 0) else map_option (map_option Suc) (find_pending M sid as))"

definition FindPendingSessionById :: "SessionId \<Rightarrow> EventServer \<Rightarrow> nat option option" where
  "FindPendingSessionById sid E = find_pending (sr_sessions E) sid (sr_pendingSessions E)"

fun find_acquired ::
  "(nat \<rightharpoonup> EventServerSession) \<Rightarrow> SessionId \<Rightarrow> (EventProviderId \<times> ServedProvider) list \<Rightarrow> EventProviderId option option" where
  "find_acquired M sid [] = Some None"
| "find_acquired M sid ((i, sp) # ps) =
    (case sp_pSession sp of
       None \<Rightarrow> find_acquired M sid ps
     | Some a \<Rightarrow>
         (case M a of
            None \<Rightarrow> None
          | Some S \<Rightarrow> if sv_sessionId S = sid then Some (Some i) else find_acquired M sid ps))"

definition FindProviderBySessionId :: "SessionId \<Rightarrow> EventServer \<Rightarrow> EventProviderId option option" where
  "FindProviderBySessionId sid E = find_acquired (sr_sessions E) sid (sr_eventProviders E)"

text \<open>
  \<^verbatim>\<open>Vector::Remove\<close> of an iterator; the one at the end has index 0.  An index past the end reads outside of the vector.
\<close>

definition remove_pending :: "nat option \<Rightarrow> EventServer \<Rightarrow> EventServer option" where
  "remove_pending it E =
    (let index = (case it of Some i \<Rightarrow> i | None \<Rightarrow> 0) in
     if index < length (sr_pendingSessions E)
     then Some (E\<lparr>sr_pendingSessions := remove_index index (sr_pendingSessions E)\<rparr>) else None)"

definition delete_EventServerSession :: "TransferParams \<Rightarrow> nat \<Rightarrow> EventServer \<Rightarrow> EventServer option" where
  "delete_EventServerSession T a E =
    map_option (\<lambda>S. E\<lparr>sr_sessions := (sr_sessions E)(a := None),
        sr_transferManager := (if sv_pUpdateBlock S \<noteq> None then CloseServerBlock T (sv_pUpdateBlock S) (sr_transferManager E)
                               else sr_transferManager E)\<rparr>)
      (sr_sessions E a)"

definition AcceptSession :: "EventServer \<Rightarrow> bool" where
  "AcceptSession E \<longleftrightarrow> length (sr_pendingSessions E) < sr_pendingCapacity E \<and> (\<exists>(i, sp) \<in> set (sr_eventProviders E). sp_pSession sp = None)"

definition SessionEstablished :: "(nat \<Rightarrow> bool) \<Rightarrow> SessionId \<Rightarrow> ISession \<Rightarrow> u64 \<Rightarrow> EventServer \<Rightarrow> EventServer" where
  "SessionEstablished allocates sid pSession garbage E =
    E\<lparr>sr_sessions := (sr_sessions E)(sr_nextSession E \<mapsto> new_EventServerSession allocates sid pSession garbage),
      sr_nextSession := Suc (sr_nextSession E),
      sr_pendingCapacity := Vector_Reserve (length (sr_pendingSessions E) + 1) (sr_pendingCapacity E),
      sr_pendingSessions := sr_pendingSessions E @ [sr_nextSession E]\<rparr>"

definition SessionTerminated :: "TransferParams \<Rightarrow> SessionId \<Rightarrow> EventServer \<Rightarrow> EventServer option" where
  "SessionTerminated T sid E =
    Option.bind (FindPendingSessionById sid E) (\<lambda>sessionIter.
      case sessionIter of
        Some i \<Rightarrow>
          Option.bind (delete_EventServerSession T (sr_pendingSessions E ! i) E) (remove_pending (Some i))
      | None \<Rightarrow>
          Option.bind (FindProviderBySessionId sid E) (\<lambda>providerIter.
            case providerIter of
              None \<Rightarrow> Some E
            | Some i \<Rightarrow>
                Option.bind (do_provider i Provider_Disable E) (\<lambda>E1.
                  Option.bind (Option.bind (find_served i E1) sp_pSession) (\<lambda>a.
                    map_option (set_served i (\<lambda>sp. sp\<lparr>sp_pSession := None\<rparr>)) (delete_EventServerSession T a E1)))))"

subsection \<open>Providers\<close>

text \<open>
  Whether the entry of the map can be allocated, and where iterators will meet it, are parameters.  The pointer to the
  provider is not null: the code answers \<open>InvalidParameter\<close> to one that is.
\<close>

definition RegisterProvider :: "bool \<Rightarrow> nat \<Rightarrow> ServedProvider \<Rightarrow> EventServer \<Rightarrow> Result \<times> EventServer" where
  "RegisterProvider inserted position sp E =
    (let providerId = ev_id (sp_provider sp) in
     if find_served providerId E = None then
       (if inserted
        then (Success, E\<lparr>sr_eventProviders := take position (sr_eventProviders E) @
               (providerId, sp\<lparr>sp_provider := Provider_Register (sp_provider sp)\<rparr>) # drop position (sr_eventProviders E)\<rparr>)
        else (InsufficientMemory, E))
     else (Error, E))"

definition UnregisterProvider :: "TransferParams \<Rightarrow> EventProviderId \<Rightarrow> EventServer \<Rightarrow> (Result \<times> EventServer) option" where
  "UnregisterProvider T providerId E =
    (case find_served providerId E of
       None \<Rightarrow> Some (Error, E)
     | Some sp \<Rightarrow>
         Option.bind (do_provider providerId Provider_Unregister E) (\<lambda>E1.
           map_option (\<lambda>E2. (Success, E2\<lparr>sr_eventProviders := filter (\<lambda>(i, sp). i \<noteq> providerId) (sr_eventProviders E2)\<rparr>))
             (case sp_pSession sp of None \<Rightarrow> Some E1 | Some a \<Rightarrow> delete_EventServerSession T a E1)))"

text \<open>The events of a provider have no state of their own any more: the bit set is zero.\<close>

definition ProviderDescriptionHeader :: "ServedProvider \<Rightarrow> u8 list" where
  "ProviderDescriptionHeader sp =
    put_word 4 (ev_id (sp_provider sp)) @ put_word 4 (sp_numEvents sp) @
    put_word 4 (word_of_nat (length (sp_eventDescriptionData sp)) :: u32) @ [if ev_isEnabled (sp_provider sp) then 1 else 0, 1, 0, 0]"

definition GetProviderEventData :: "ServedProvider \<Rightarrow> u8 list" where
  "GetProviderEventData sp = replicate (4 * unat (Pow2Align (ucast (sp_numEvents sp)) 32 div 32)) 0"

definition block_write :: "TransferParams \<Rightarrow> nat \<Rightarrow> u8 list \<Rightarrow> TransferManager \<Rightarrow> TransferManager option" where
  "block_write T p bytes M =
    Option.bind (server_blocks M p) (\<lambda>b.
      map_option (\<lambda>b1. M\<lparr>server_blocks := (server_blocks M)(p \<mapsto> b1)\<rparr>) (ServerBlock_Write T bytes (word_of_nat (length bytes)) b))"

fun write_descriptions :: "TransferParams \<Rightarrow> nat \<Rightarrow> ServedProvider list \<Rightarrow> TransferManager \<Rightarrow> TransferManager option" where
  "write_descriptions T p [] M = Some M"
| "write_descriptions T p (sp # sps) M =
    Option.bind (block_write T p (ProviderDescriptionHeader sp) M) (\<lambda>M1.
      Option.bind (block_write T p (GetProviderEventData sp) M1) (\<lambda>M2.
        Option.bind (block_write T p (sp_eventDescriptionData sp) M2) (write_descriptions T p sps)))"

definition BuildQueryProvidersResponse :: "TransferParams \<Rightarrow> EventServer \<Rightarrow> (Result \<times> BlockId \<times> EventServer) option" where
  "BuildQueryProvidersResponse T E =
    Option.bind (OpenServerBlock T (sr_transferManager E)) (\<lambda>(pServerBlock, M).
      case pServerBlock of
        None \<Rightarrow> Some (InsufficientMemory, kInvalidBlockId, E\<lparr>sr_transferManager := M\<rparr>)
      | Some p \<Rightarrow>
          Option.bind (block_write T p (put_word 4 (word_of_nat (length (sr_eventProviders E)) :: u32)) M) (\<lambda>M1.
            Option.bind (write_descriptions T p (map snd (sr_eventProviders E)) M1) (\<lambda>M2.
              let M3 = update_block p ServerBlock_Close M2
              in map_option (\<lambda>b. (Success, m_blockId b, E\<lparr>sr_transferManager := M3\<rparr>)) (server_blocks M3 p))))"

definition ApplyProviderUpdate :: "EventProviderId \<Rightarrow> bool \<Rightarrow> EventServer \<Rightarrow> (Result \<times> EventServer) option" where
  "ApplyProviderUpdate providerId isEnabled E =
    (case find_served providerId E of
       None \<Rightarrow> Some (Error, E)
     | Some sp \<Rightarrow>
         if isEnabled then Some (Success, set_served providerId (\<lambda>sp. sp\<lparr>sp_provider := Provider_Enable (sp_provider sp)\<rparr>) E)
         else map_option (Pair Success) (do_provider providerId Provider_Disable E))"

definition AssignSessionToProvider :: "nat \<Rightarrow> EventProviderId \<Rightarrow> EventServer \<Rightarrow> (Result \<times> EventServer) option" where
  "AssignSessionToProvider a providerId E =
    (case find_served providerId E of
       None \<Rightarrow> Some (Unavailable, E)
     | Some sp \<Rightarrow>
         if sp_pSession sp = None then
           (let E1 = set_session a (\<lambda>S. S\<lparr>sv_assignedProviderId := providerId\<rparr>)
                (set_served providerId (\<lambda>sp. sp\<lparr>sp_pSession := Some a, sp_provider := Provider_Enable (sp_provider sp)\<rparr>) E)
            in Option.bind (sr_sessions E1 a) (\<lambda>S.
                 Option.bind (FindPendingSessionById (sv_sessionId S) E1) (\<lambda>sessionIter.
                   map_option (Pair Success) (remove_pending sessionIter E1))))
         else Some (Unavailable, E))"

definition UnassignSessionFromProvider :: "EventProviderId \<Rightarrow> EventServer \<Rightarrow> EventServer option" where
  "UnassignSessionFromProvider providerId E =
    map_option (set_served providerId (\<lambda>sp. sp\<lparr>sp_pSession := None\<rparr>)) (do_provider providerId Provider_Disable E)"

subsection \<open>Requests\<close>

abbreviation (input) EventMessage_QueryProvidersRequest :: u8 where "EventMessage_QueryProvidersRequest \<equiv> 1"
abbreviation (input) EventMessage_QueryProvidersResponse :: u8 where "EventMessage_QueryProvidersResponse \<equiv> 2"
abbreviation (input) EventMessage_AllocateProviderUpdatesRequest :: u8 where "EventMessage_AllocateProviderUpdatesRequest \<equiv> 3"
abbreviation (input) EventMessage_AllocateProviderUpdatesResponse :: u8 where "EventMessage_AllocateProviderUpdatesResponse \<equiv> 4"
abbreviation (input) EventMessage_ApplyProviderUpdatesRequest :: u8 where "EventMessage_ApplyProviderUpdatesRequest \<equiv> 5"
abbreviation (input) EventMessage_ApplyProviderUpdatesResponse :: u8 where "EventMessage_ApplyProviderUpdatesResponse \<equiv> 6"
abbreviation (input) EventMessage_SubscribeToProviderRequest :: u8 where "EventMessage_SubscribeToProviderRequest \<equiv> 8"
abbreviation (input) EventMessage_SubscribeResponse :: u8 where "EventMessage_SubscribeResponse \<equiv> 9"
abbreviation (input) EventMessage_UnsubscribeFromProviderRequest :: u8 where "EventMessage_UnsubscribeFromProviderRequest \<equiv> 10"

text \<open>The responses: a header, a result, and in some a block.\<close>

definition EventResponse :: "u8 \<Rightarrow> Result \<Rightarrow> u8 list" where
  "EventResponse messageCode result = EventHeader messageCode 0 @ put_word 4 (code_of_result result)"

definition EventBlockResponse :: "u8 \<Rightarrow> Result \<Rightarrow> BlockId \<Rightarrow> u8 list" where
  "EventBlockResponse messageCode result blockId = EventResponse messageCode result @ put_word 4 blockId"

definition respond :: "nat \<Rightarrow> u8 list \<Rightarrow> EventServer \<Rightarrow> EventServer" where
  "respond a object = set_session a (\<lambda>S. S\<lparr>sv_payloadContainer := CreatePayload object (sv_payloadContainer S)\<rparr>)"

definition HandleQueryProvidersRequest :: "TransferParams \<Rightarrow> nat \<Rightarrow> EventServer \<Rightarrow> (EventSessionState \<times> EventServer) option" where
  "HandleQueryProvidersRequest T a E =
    map_option (\<lambda>(result, blockId, E1). (SendPayload, respond a (EventBlockResponse EventMessage_QueryProvidersResponse result blockId) E1))
      (BuildQueryProvidersResponse T E)"

definition HandleAllocateProviderUpdatesRequest :: "TransferParams \<Rightarrow> nat \<Rightarrow> EventServer \<Rightarrow> (EventSessionState \<times> EventServer) option" where
  "HandleAllocateProviderUpdatesRequest T a E =
    Option.bind (sr_sessions E a) (\<lambda>S.
      Option.bind
        (case sv_pUpdateBlock S of
           None \<Rightarrow> map_option (\<lambda>(p, M). (p, set_session a (\<lambda>S. S\<lparr>sv_pUpdateBlock := p\<rparr>) (E\<lparr>sr_transferManager := M\<rparr>)))
                     (OpenServerBlock T (sr_transferManager E))
         | Some p \<Rightarrow> Some (Some p, E))
        (\<lambda>(pUpdateBlock, E1).
          case pUpdateBlock of
            None \<Rightarrow> Some (SendPayload, respond a (EventBlockResponse EventMessage_AllocateProviderUpdatesResponse Error kInvalidBlockId) E1)
          | Some p \<Rightarrow>
              map_option (\<lambda>b. (SendPayload, respond a (EventBlockResponse EventMessage_AllocateProviderUpdatesResponse Success (m_blockId b)) E1))
                (server_blocks (sr_transferManager E1) p)))"

text \<open>The updates in the block, each a header of twelve bytes and the event data behind it.\<close>

definition sizeof_ProviderUpdateHeader :: nat where "sizeof_ProviderUpdateHeader = 12"

function apply_updates :: "u8 list \<Rightarrow> EventServer \<Rightarrow> (Result \<times> EventServer) option" where
  "apply_updates reader E =
    (if reader = [] then Some (Success, E)
     else if length reader < sizeof_ProviderUpdateHeader then Some (Error, E)
     else
       (let eventDataSize = unat (get_word 4 4 reader :: u32); rest = drop sizeof_ProviderUpdateHeader reader in
        if length rest < eventDataSize then Some (Error, E)
        else
          (case ApplyProviderUpdate (get_word 0 4 reader) (reader ! 8 \<noteq> 0) E of
             None \<Rightarrow> None
           | Some (result, E1) \<Rightarrow> if result = Success then apply_updates (drop eventDataSize rest) E1 else Some (result, E1))))"
  by pat_completeness auto
termination by (relation "measure (\<lambda>(reader, _). length reader)") (auto simp: sizeof_ProviderUpdateHeader_def)

declare apply_updates.simps [simp del]

definition HandleApplyProviderUpdatesRequest :: "nat \<Rightarrow> EventServer \<Rightarrow> (EventSessionState \<times> EventServer) option" where
  "HandleApplyProviderUpdatesRequest a E =
    Option.bind (sr_sessions E a) (\<lambda>S.
      case sv_pUpdateBlock S of
        None \<Rightarrow> Some (SendPayload, respond a (EventResponse EventMessage_ApplyProviderUpdatesResponse Error) E)
      | Some p \<Rightarrow>
          Option.bind (server_blocks (sr_transferManager E) p) (\<lambda>b.
            map_option (\<lambda>(result, E1). (SendPayload, respond a (EventResponse EventMessage_ApplyProviderUpdatesResponse result)
                (E1\<lparr>sr_transferManager := update_block p ServerBlock_Reset (sr_transferManager E1)\<rparr>)))
              (apply_updates (take (unat (m_blockDataSize b)) (m_chunks b)) E)))"

definition HandleSubscribeToProviderRequest :: "nat \<Rightarrow> EventServer \<Rightarrow> (EventSessionState \<times> EventServer) option" where
  "HandleSubscribeToProviderRequest a E =
    Option.bind (sr_sessions E a) (\<lambda>S.
      map_option (\<lambda>(result, E1). (SendPayload, respond a (EventResponse EventMessage_SubscribeResponse result) E1))
        (AssignSessionToProvider a (get_word 4 4 (pc_payload (sv_payloadContainer S))) E))"

definition HandleUnsubscribeFromProviderRequest :: "nat \<Rightarrow> EventServer \<Rightarrow> (EventSessionState \<times> EventServer) option" where
  "HandleUnsubscribeFromProviderRequest a E =
    Option.bind (sr_sessions E a) (\<lambda>S.
      map_option (Pair ReceivePayload)
        (if sv_assignedProviderId S > 0 then UnassignSessionFromProvider (sv_assignedProviderId S) E else Some E))"

text \<open>Any other message leaves the state as it is.\<close>

definition process_request :: "TransferParams \<Rightarrow> nat \<Rightarrow> EventServer \<Rightarrow> EventServer option" where
  "process_request T a E =
    Option.bind (sr_sessions E a) (\<lambda>S.
      let messageCode = pc_payload (sv_payloadContainer S) ! 0 in
      map_option (\<lambda>(state, E1). set_session a (\<lambda>S. S\<lparr>sv_state := state\<rparr>) E1)
        (if messageCode = EventMessage_QueryProvidersRequest then HandleQueryProvidersRequest T a E
         else if messageCode = EventMessage_AllocateProviderUpdatesRequest then HandleAllocateProviderUpdatesRequest T a E
         else if messageCode = EventMessage_ApplyProviderUpdatesRequest then HandleApplyProviderUpdatesRequest a E
         else if messageCode = EventMessage_SubscribeToProviderRequest then HandleSubscribeToProviderRequest a E
         else if messageCode = EventMessage_UnsubscribeFromProviderRequest then HandleUnsubscribeFromProviderRequest a E
         else Some (ProcessPayload, E)))"

definition receive_request :: "EventServerSession \<Rightarrow> EventServerSession option" where
  "receive_request S =
    (let (result, container, s) = ISession_ReceivePayload (sv_payloadContainer S) (sv_pSession S);
         S1 = S\<lparr>sv_payloadContainer := container, sv_pSession := s\<rparr>
     in
     if result = Success then Some (S1\<lparr>sv_state := ProcessPayload\<rparr>)
     else if result = NotReady then SendEventData S1
     else Some S1)"

definition send_response :: "EventServerSession \<Rightarrow> EventServerSession" where
  "send_response S =
    (let (result, s) = ISession_Send (pc_payloadSize (sv_payloadContainer S)) (pc_payload (sv_payloadContainer S)) (sv_pSession S);
         S1 = S\<lparr>sv_pSession := s\<rparr>
     in if result = Success then S1\<lparr>sv_state := ReceivePayload\<rparr> else S1)"

text \<open>The end of an update: memory is trimmed now and then.\<close>

definition trim_now_and_then :: "u64 \<Rightarrow> bool \<Rightarrow> EventServerSession \<Rightarrow> EventServerSession" where
  "trim_now_and_then currentTime locked S =
    (if currentTime \<ge> sv_nextTrimTime S
     then TrimEventChunkMemory locked (S\<lparr>sv_nextTrimTime := currentTime + kTrimFrequencyInMs\<rparr>) else S)"

definition EventServerSession_UpdateSession ::
  "TransferParams \<Rightarrow> u64 \<Rightarrow> bool \<Rightarrow> nat \<Rightarrow> EventServer \<Rightarrow> EventServer option" where
  "EventServerSession_UpdateSession T currentTime locked a E =
    Option.bind (sr_sessions E a) (\<lambda>S.
      map_option (set_session a (trim_now_and_then currentTime locked))
        (case sv_state S of
           ReceivePayload \<Rightarrow> map_option (\<lambda>S1. set_session a (\<lambda>_. S1) E) (receive_request S)
         | ProcessPayload \<Rightarrow> process_request T a E
         | SendPayload \<Rightarrow> Some (set_session a send_response E)))"

text \<open>
  The clocks of the update of the provider and of the session, and the locks other threads hold meanwhile.  The session
  \<open>pSession\<close> that the message layer updates is used itself when no object stands for it any more.
\<close>

record UpdateTimes =
  ut_provider :: u64
  ut_chunksLocked :: bool
  ut_session :: u64
  ut_poolLocked :: bool

definition EventServer_UpdateSession ::
  "TransferParams \<Rightarrow> UpdateTimes \<Rightarrow> SessionId \<Rightarrow> ISession \<Rightarrow> EventServer \<Rightarrow> (ISession \<times> EventServer) option" where
  "EventServer_UpdateSession T t sid pSession E =
    Option.bind (FindProviderBySessionId sid E) (\<lambda>providerIter.
      case providerIter of
        Some i \<Rightarrow>
          Option.bind (do_provider i (Provider_Update (ut_provider t) (ut_chunksLocked t)) E) (\<lambda>E1.
            Option.bind (Option.bind (find_served i E1) sp_pSession) (\<lambda>a.
              map_option (Pair pSession) (EventServerSession_UpdateSession T (ut_session t) (ut_poolLocked t) a E1)))
      | None \<Rightarrow>
          Option.bind (FindPendingSessionById sid E) (\<lambda>sessionIter.
            case sessionIter of
              Some i \<Rightarrow> map_option (Pair pSession)
                (EventServerSession_UpdateSession T (ut_session t) (ut_poolLocked t) (sr_pendingSessions E ! i) E)
            | None \<Rightarrow>
                (let resp = EventResponse EventMessage_SubscribeResponse Unavailable
                 in Some (snd (ISession_Send (word_of_nat (length resp)) resp pSession), E))))"

end
