(* ===== verification/Event_Control.thy ===== *)
theory Event_Control
  imports Event_Server Event_Delivery
begin

text \<open>
  Moving event data does not touch what belongs to the requests of a session: its identifier, its state, the
  message it works on, its update block and its provider.
\<close>

definition control :: "EventServerSession \<Rightarrow> SessionId \<times> SizedPayloadContainer \<times> EventSessionState \<times> nat option \<times> EventProviderId" where
  "control S = (sv_sessionId S, sv_payloadContainer S, sv_state S, sv_pUpdateBlock S, sv_assignedProviderId S)"

lemma control_free [simp]:
  "control (free_memory p S) = control S" "control (Session_FreeEventChunk p S) = control S" "control (acquire_chunk S) = control S"
  by (simp_all add: control_def free_memory_def Session_FreeEventChunk_def acquire_chunk_def DequeueEventChunk_def split: list.splits)

lemma control_trim [simp]: "control (trim_loop n S) = control S" "control (TrimEventChunkMemory locked S) = control S"
proof -
  show loop: "control (trim_loop n S) = control S" for n
    by (induction n S rule: trim_loop.induct) (simp_all add: control_def free_memory_def)
  then show "control (TrimEventChunkMemory locked S) = control S" by (simp add: TrimEventChunkMemory_def)
qed

lemma control_send [simp]:
  "control (snd (send_event_payload S)) = control S" "control (snd (send_piece c S)) = control S"
  by (simp_all add: control_def send_piece_def send_event_payload_def case_prod_unfold Let_def)

lemma control_send_pieces [simp]: "control (snd (send_pieces c S)) = control S"
proof (induction c S rule: send_pieces.induct)
  case (1 c S)
  show ?case
  proof (cases "length c - sv_bytesSent S > 0 \<and> fst (send_piece c S) = Success")
    case True
    with 1 [OF _ refl prod.collapse] show ?thesis by (subst send_pieces.simps) (simp add: case_prod_unfold Let_def)
  next
    case False
    then show ?thesis by (subst send_pieces.simps) (auto simp: case_prod_unfold Let_def control_def [of "_\<lparr>sv_eventPayloadPending := True\<rparr>"]
          control_def [symmetric])
  qed
qed

lemma control_send_chunks: "send_chunks S = Some T \<Longrightarrow> control T = control S"
proof (induction S rule: send_chunks.induct)
  case (1 S)
  show ?case
  proof (cases "sv_pChunk S = None \<or> sv_eventPayloadPending S")
    case True
    with 1(2) show ?thesis by (subst (asm) send_chunks.simps) (auto split: option.splits)
  next
    case False
    then obtain p where p: "sv_pChunk S = Some p" "\<not> sv_eventPayloadPending S" by auto
    with 1(2) obtain c where c: "sv_memory S p = Some c" by (subst (asm) send_chunks.simps) (auto split: option.splits)
    let ?r = "fst (send_pieces c S)" and ?S1 = "snd (send_pieces c S)"
    show ?thesis
    proof (cases "?r = Success \<or> ?r = NotReady")
      case True
      have "send_chunks (if length c - sv_bytesSent ?S1 = 0 then acquire_chunk (Session_FreeEventChunk p ?S1) else ?S1) = Some T"
        using 1(2) p c True by (subst (asm) send_chunks.simps) (simp add: case_prod_unfold Let_def)
      from 1(1) [OF p(1,2) c refl prod.collapse True this] show ?thesis by (simp split: if_splits)
    next
      case False
      with 1(2) p c have "T = ?S1" by (subst (asm) send_chunks.simps) (simp add: case_prod_unfold Let_def)
      then show ?thesis by simp
    qed
  qed
qed

lemma control_pending [simp]: "control (S\<lparr>sv_eventPayloadPending := b\<rparr>) = control S"
  by (simp add: control_def)

lemma control_SendEventData: "SendEventData S = Some T \<Longrightarrow> control T = control S"
  by (auto simp: SendEventData_def case_prod_unfold Let_def dest!: control_send_chunks split: if_splits)

lemma control_EnqueueEventChunks: "EnqueueEventChunks ps S = Some T \<Longrightarrow> control T = control S"
proof (induction ps S rule: EnqueueEventChunks.induct)
  case (2 p ps S)
  then obtain c where c: "sv_memory S p = Some c" by (auto split: option.splits)
  with 2 show ?case by (simp split: if_splits) (simp add: control_def)
qed simp

lemma control_AllocateEventChunk: "Session_AllocateEventChunk S = Some (r, p, T) \<Longrightarrow> control T = control S"
  by (auto simp: Session_AllocateEventChunk_def Let_def control_def split: if_splits)

subsection \<open>Operations of a provider\<close>

definition provider_control :: "BaseEventProvider \<Rightarrow> (SessionId \<times> SizedPayloadContainer \<times> EventSessionState \<times> nat option \<times> EventProviderId) option" where
  "provider_control P = map_option control (ev_pSession P)"

lemma provider_control_update [simp]:
  "provider_control (P\<lparr>ev_eventTimer := timer\<rparr>) = provider_control P" "provider_control (P\<lparr>ev_eventChunks := ps\<rparr>) = provider_control P"
  "provider_control (P\<lparr>ev_eventDataIndex := n\<rparr>) = provider_control P" "provider_control (P\<lparr>ev_nextFlushTime := now\<rparr>) = provider_control P"
  "provider_control (P\<lparr>ev_isEnabled := b\<rparr>) = provider_control P" "provider_control (P\<lparr>ev_registered := b\<rparr>) = provider_control P"
  by (simp_all add: provider_control_def)

lemma control_Provider_AllocateEventChunk:
  "Provider_AllocateEventChunk P = Some (r, p, Q) \<Longrightarrow> provider_control Q = provider_control P"
  by (auto simp: Provider_AllocateEventChunk_def bind_eq_Some_conv provider_control_def dest: control_AllocateEventChunk)

lemma control_Provider_FreeEventChunk: "Provider_FreeEventChunk p P = Some Q \<Longrightarrow> provider_control Q = provider_control P"
  by (auto simp: Provider_FreeEventChunk_def provider_control_def)

lemma control_write_view: "write_view f V P = Some (r, V1, Q) \<Longrightarrow> provider_control Q = provider_control P"
  by (auto simp: write_view_def bind_eq_Some_conv provider_control_def control_def)

lemma control_WriteStreamPreamble: "WriteStreamPreamble now p P = Some (r, Q) \<Longrightarrow> provider_control Q = provider_control P"
  by (auto simp: WriteStreamPreamble_def case_prod_unfold Let_def dest!: control_write_view)

lemma control_BeginEventStream: "BeginEventStream now P = Some (r, p, Q) \<Longrightarrow> provider_control Q = provider_control P"
  by (auto simp: BeginEventStream_def bind_eq_Some_conv split: if_splits
      dest!: control_Provider_AllocateEventChunk control_WriteStreamPreamble control_Provider_FreeEventChunk)

lemma control_acquire_loop: "acquire_loop m n ps P = Some (r, qs, Q) \<Longrightarrow> provider_control Q = provider_control P"
proof (induction m n ps P rule: acquire_loop.induct)
  case (1 m n ps P)
  show ?case
  proof (cases "n < m")
    case True
    from 1(2) True obtain r1 p P1 where a: "Provider_AllocateEventChunk P = Some (r1, p, P1)"
      by (subst (asm) acquire_loop.simps) (auto split: option.splits)
    show ?thesis
    proof (cases "r1 = Success")
      case ok: True
      from 1(2) True a ok obtain k where k: "bytes_in p P1 = Some k"
        by (subst (asm) acquire_loop.simps) (auto split: option.splits)
      from 1(2) True a ok k have "acquire_loop m (n + k) (ps @ [p]) P1 = Some (r, qs, Q)"
        by (subst (asm) acquire_loop.simps) simp
      from 1(1) [OF True a refl refl ok k this] control_Provider_AllocateEventChunk [OF a] show ?thesis by simp
    next
      case False
      with 1(2) True a have "Q = P1" by (subst (asm) acquire_loop.simps) simp
      with control_Provider_AllocateEventChunk [OF a] show ?thesis by simp
    qed
  next
    case False
    with 1(2) show ?thesis by (subst (asm) acquire_loop.simps) simp
  qed
qed

lemma control_free_chunks: "free_chunks ps P = Some Q \<Longrightarrow> provider_control Q = provider_control P"
  by (induction ps arbitrary: P) (auto simp: bind_eq_Some_conv dest: control_Provider_FreeEventChunk)

lemma control_AcquireEventChunks: "AcquireEventChunks now n P = Some (r, ps, Q) \<Longrightarrow> provider_control Q = provider_control P"
  by (auto simp: AcquireEventChunks_def Let_def bind_eq_Some_conv split: if_splits
      dest!: control_BeginEventStream control_acquire_loop control_free_chunks)

lemma control_Provider_Flush: "Provider_Flush P = Some Q \<Longrightarrow> provider_control Q = provider_control P"
  by (auto simp: Provider_Flush_def bind_eq_Some_conv provider_control_def split: if_splits dest: control_EnqueueEventChunks)

lemma control_UpdateFlushTimer: "UpdateFlushTimer now P = Some Q \<Longrightarrow> provider_control Q = provider_control P"
  by (auto simp: UpdateFlushTimer_def split: if_splits dest!: control_Provider_Flush)

lemma control_GenerateEventTimestamp: "GenerateEventTimestamp now V P = Some (r, d, V1, Q) \<Longrightarrow> provider_control Q = provider_control P"
  by (auto simp: GenerateEventTimestamp_def case_prod_unfold Let_def split: EventTimestamp.splits dest!: control_write_view)

lemma control_write_event: "write_event now eventId pHdr d n V P = Some (r, Q) \<Longrightarrow> provider_control Q = provider_control P"
  by (auto simp: write_event_def bind_eq_Some_conv split: if_splits dest!: control_GenerateEventTimestamp control_write_view)

lemma control_WriteEventWithHeader: "WriteEventWithHeader t eventId pHdr d P = Some (r, Q) \<Longrightarrow> provider_control Q = provider_control P"
  by (auto simp: WriteEventWithHeader_def Let_def bind_eq_Some_conv split: if_splits
      dest!: control_AcquireEventChunks control_write_event control_UpdateFlushTimer)

lemma control_Provider_ops:
  "Provider_Disable P = Some Q \<Longrightarrow> provider_control Q = provider_control P"
  "Provider_Unregister P = Some Q \<Longrightarrow> provider_control Q = provider_control P"
  "Provider_Update now locked P = Some Q \<Longrightarrow> provider_control Q = provider_control P"
  by (auto simp: Provider_Disable_def Provider_Unregister_def Provider_Update_def split: if_splits
      dest!: control_Provider_Flush control_UpdateFlushTimer)

end
