(* ===== verification/Event_Safety.thy ===== *)
theory Event_Safety
  imports Event_Control Transfer_Inv
begin

text \<open>
  The event server never uses a pointer to nothing while its clients keep to the protocol: its invariant, and that
  every operation keeps it.
\<close>

subsection \<open>Identifiers of blocks\<close>

text \<open>The generator does not draw 0 forever, so the search for an identifier ends.\<close>

lemma new_block_id_draws: "fst (Generate (draws n rng)) \<noteq> 0 \<Longrightarrow> \<exists>r. new_block_id T h rng = Some r"
proof (induction n arbitrary: rng)
  case 0
  then show ?case by (subst new_block_id.simps) (simp add: case_prod_unfold Let_def)
next
  case (Suc n)
  then have "\<exists>r. new_block_id T h (snd (Generate rng)) = Some r" by simp
  then show ?case by (subst new_block_id.simps) (auto simp: case_prod_unfold Let_def)
qed

lemma OpenServerBlock_returns: "\<exists>p M1. OpenServerBlock T M = Some (p, M1)"
proof -
  have "(1 :: u32) < 2 ^ 31" by simp
  from draws_value [OF this, of "m_blockRng M"] obtain n where "fst (Generate (draws n (m_blockRng M))) \<noteq> 0"
    by (metis zero_neq_one)
  from new_block_id_draws [OF this] obtain r where "new_block_id T (m_registeredServerBlocks M) (m_blockRng M) = Some r" by blast
  then show ?thesis by (cases r) (auto simp: OpenServerBlock_def Let_def)
qed

lemma OpenServerBlock_blocks:
  assumes "OpenServerBlock T M = Some (p, M1)"
  shows "p = None \<Longrightarrow> server_blocks M1 = server_blocks M"
    "p = Some q \<Longrightarrow> \<exists>b. server_blocks M1 = (server_blocks M)(q \<mapsto> b) \<and> holds b [] \<and> \<not> m_isClosed b"
  using assms by (auto simp: OpenServerBlock_def Let_def split: option.splits if_splits)
    (auto simp: holds_new [unfolded new_ServerBlock_def] new_ServerBlock_def)

lemma CloseServerBlock_blocks [simp]: "server_blocks (CloseServerBlock T p M) = server_blocks M"
  by (simp add: CloseServerBlock_def split: option.splits)

subsection \<open>The invariant\<close>

fun acquired :: "(EventProviderId \<times> ServedProvider) list \<Rightarrow> nat list" where
  "acquired [] = []"
| "acquired ((i, sp) # ps) = (case sp_pSession sp of None \<Rightarrow> acquired ps | Some a \<Rightarrow> a # acquired ps)"

lemma acquired_append [simp]: "acquired (xs @ ys) = acquired xs @ acquired ys"
  by (induction xs rule: acquired.induct) (simp_all split: option.split)

lemma set_acquired: "set (acquired ps) = {a. \<exists>i sp. (i, sp) \<in> set ps \<and> sp_pSession sp = Some a}"
  by (induction ps rule: acquired.induct) (auto split: option.splits)

definition served_ok :: "(nat \<rightharpoonup> EventServerSession) \<Rightarrow> EventProviderId \<times> ServedProvider \<Rightarrow> bool" where
  "served_ok M x \<longleftrightarrow> (case x of (i, sp) \<Rightarrow> ev_id (sp_provider sp) = i \<and> ev_pSession (sp_provider sp) = None \<and> ev_registered (sp_provider sp) \<and>
    (ev_isEnabled (sp_provider sp) \<longrightarrow> sp_pSession sp \<noteq> None) \<and>
    (\<not> ev_isEnabled (sp_provider sp) \<longrightarrow> ev_eventChunks (sp_provider sp) = []) \<and>
    (\<forall>a. sp_pSession sp = Some a \<longrightarrow> (\<exists>S. M a = Some S \<and> owned (ev_eventChunks (sp_provider sp)) S \<and> sv_assignedProviderId S = i)))"

definition pending_ok :: "(nat \<rightharpoonup> EventServerSession) \<Rightarrow> nat \<Rightarrow> bool" where
  "pending_ok M a \<longleftrightarrow> (\<exists>S. M a = Some S \<and> owned [] S \<and> sv_assignedProviderId S = 0)"

definition blocks_ok :: "(nat \<rightharpoonup> EventServerSession) \<Rightarrow> (nat \<rightharpoonup> ServerBlock) \<Rightarrow> bool" where
  "blocks_ok M B \<longleftrightarrow> (\<forall>a S p. M a = Some S \<longrightarrow> sv_pUpdateBlock S = Some p \<longrightarrow> B p \<noteq> None)"

text \<open>Sessions that are pending or acquired have different identifiers.\<close>

definition ids_ok :: "(nat \<rightharpoonup> EventServerSession) \<Rightarrow> nat list \<Rightarrow> bool" where
  "ids_ok M as \<longleftrightarrow> (\<forall>a \<in> set as. \<forall>b \<in> set as. \<forall>S U. M a = Some S \<longrightarrow> M b = Some U \<longrightarrow> sv_sessionId S = sv_sessionId U \<longrightarrow> a = b)"

definition server_inv :: "EventServer \<Rightarrow> bool" where
  "server_inv E \<longleftrightarrow> distinct (map fst (sr_eventProviders E)) \<and> (\<forall>x \<in> set (sr_eventProviders E). served_ok (sr_sessions E) x) \<and>
    (\<forall>a \<in> set (sr_pendingSessions E). pending_ok (sr_sessions E) a) \<and>
    distinct (sr_pendingSessions E @ acquired (sr_eventProviders E)) \<and> (\<forall>a \<ge> sr_nextSession E. sr_sessions E a = None) \<and>
    ids_ok (sr_sessions E) (sr_pendingSessions E @ acquired (sr_eventProviders E)) \<and>
    blocks_ok (sr_sessions E) (server_blocks (sr_transferManager E))"

lemma new_EventServer_inv: "server_inv (new_EventServer manager)"
  by (simp add: server_inv_def new_EventServer_def blocks_ok_def ids_ok_def)

text \<open>A provider and its place in the map.\<close>

lemma find_served_split:
  assumes "find_served i E = Some sp" "distinct (map fst (sr_eventProviders E))"
  obtains xs ys where "sr_eventProviders E = xs @ (i, sp) # ys"
    "\<And>f E1. sr_eventProviders E1 = sr_eventProviders E \<Longrightarrow> sr_eventProviders (set_served i f E1) = xs @ (i, f sp) # ys"
    "i \<notin> fst ` set xs" "i \<notin> fst ` set ys"
proof -
  have "(i, sp) \<in> set (sr_eventProviders E)" using assms(1) by (simp add: find_served_def map_of_SomeD)
  then obtain xs ys where ps: "sr_eventProviders E = xs @ (i, sp) # ys" by (meson split_list)
  with assms(2) have i: "i \<notin> fst ` set xs" "i \<notin> fst ` set ys" by auto
  have same: "map (\<lambda>(j, s). (j, if j = i then f s else s)) zs = zs" if "i \<notin> fst ` set zs" for zs and f :: "ServedProvider \<Rightarrow> ServedProvider"
    using that by (induction zs) auto
  then have "sr_eventProviders (set_served i f E1) = xs @ (i, f sp) # ys" if "sr_eventProviders E1 = sr_eventProviders E" for f E1
    using that by (simp add: set_served_def ps same [OF i(1)] same [OF i(2)])
  with that ps i show thesis by blast
qed

lemma set_served_simps [simp]:
  "sr_sessions (set_served i f E) = sr_sessions E" "sr_pendingSessions (set_served i f E) = sr_pendingSessions E"
  "sr_nextSession (set_served i f E) = sr_nextSession E" "sr_transferManager (set_served i f E) = sr_transferManager E"
  "sr_pendingCapacity (set_served i f E) = sr_pendingCapacity E"
  by (simp_all add: set_served_def)

lemma find_served_at: "sr_eventProviders E = xs @ (i, sp) # ys \<Longrightarrow> i \<notin> fst ` set xs \<Longrightarrow> find_served i E = Some sp"
  by (force simp: find_served_def map_add_def split: option.splits dest: map_of_SomeD)

lemma served_ok_cong:
  "served_ok M (i, sp) \<Longrightarrow> (\<And>a. sp_pSession sp = Some a \<Longrightarrow> M1 a = M a) \<Longrightarrow> served_ok M1 (i, sp)"
  by (auto simp: served_ok_def)

lemma served_session:
  assumes "server_inv E" "find_served i E = Some sp" "sp_pSession sp = Some a"
  shows "\<exists>S. sr_sessions E a = Some S \<and> owned (ev_eventChunks (sp_provider sp)) S \<and> sv_assignedProviderId S = i"
proof -
  have "(i, sp) \<in> set (sr_eventProviders E)" using assms(2) by (simp add: find_served_def map_of_SomeD)
  then have "served_ok (sr_sessions E) (i, sp)" using assms(1) by (simp add: server_inv_def)
  with assms(3) show ?thesis by (simp add: served_ok_def)
qed

subsection \<open>Looking for sessions\<close>

lemma find_pending_total:
  "(\<And>a. a \<in> set as \<Longrightarrow> pending_ok M a) \<Longrightarrow> \<exists>r. find_pending M sid as = Some r \<and>
     (\<forall>k. r = Some k \<longrightarrow> k < length as \<and> (\<exists>S. M (as ! k) = Some S \<and> sv_sessionId S = sid)) \<and>
     (r = None \<longrightarrow> (\<forall>a \<in> set as. \<forall>S. M a = Some S \<longrightarrow> sv_sessionId S \<noteq> sid))"
proof (induction as)
  case (Cons a as)
  from Cons.prems [of a] obtain S where S: "M a = Some S" by (auto simp: pending_ok_def)
  show ?case
  proof (cases "sv_sessionId S = sid")
    case True
    with S show ?thesis by (intro exI [of _ "Some 0"]) simp
  next
    case False
    from Cons obtain r where r: "find_pending M sid as = Some r"
      "\<forall>k. r = Some k \<longrightarrow> k < length as \<and> (\<exists>S. M (as ! k) = Some S \<and> sv_sessionId S = sid)"
      "r = None \<longrightarrow> (\<forall>a \<in> set as. \<forall>S. M a = Some S \<longrightarrow> sv_sessionId S \<noteq> sid)" by auto
    with S False show ?thesis by (intro exI [of _ "map_option Suc r"]) auto
  qed
qed simp

lemma FindPendingSessionById_total:
  assumes "server_inv E"
  shows "\<exists>r. FindPendingSessionById sid E = Some r \<and>
     (\<forall>k. r = Some k \<longrightarrow> k < length (sr_pendingSessions E) \<and> (\<exists>S. sr_sessions E (sr_pendingSessions E ! k) = Some S \<and> sv_sessionId S = sid)) \<and>
     (r = None \<longrightarrow> (\<forall>a \<in> set (sr_pendingSessions E). \<forall>S. sr_sessions E a = Some S \<longrightarrow> sv_sessionId S \<noteq> sid))"
  unfolding FindPendingSessionById_def using assms by (intro find_pending_total) (simp add: server_inv_def)

lemma find_acquired_total:
  "(\<And>x. x \<in> set ps \<Longrightarrow> served_ok M x) \<Longrightarrow> \<exists>r. find_acquired M sid ps = Some r \<and>
     (\<forall>i. r = Some i \<longrightarrow> (\<exists>sp a S. (i, sp) \<in> set ps \<and> sp_pSession sp = Some a \<and> M a = Some S \<and> sv_sessionId S = sid))"
proof (induction ps)
  case (Cons x ps)
  obtain i sp where x: "x = (i, sp)" by fastforce
  from Cons obtain r where r: "find_acquired M sid ps = Some r"
    "\<forall>i. r = Some i \<longrightarrow> (\<exists>sp a S. (i, sp) \<in> set ps \<and> sp_pSession sp = Some a \<and> M a = Some S \<and> sv_sessionId S = sid)" by auto
  show ?case
  proof (cases "sp_pSession sp")
    case None
    with r(1) x have "find_acquired M sid (x # ps) = Some r" by simp
    with r(2) show ?thesis by (metis list.set_intros(2))
  next
    case (Some a)
    from Cons.prems [of x] x Some obtain S where S: "M a = Some S" by (auto simp: served_ok_def)
    show ?thesis
    proof (cases "sv_sessionId S = sid")
      case True
      with x Some S show ?thesis by auto
    next
      case False
      with r(1) x Some S have "find_acquired M sid (x # ps) = Some r" by simp
      with r(2) show ?thesis by (metis list.set_intros(2))
    qed
  qed
qed simp

lemma FindProviderBySessionId_total:
  assumes "server_inv E"
  shows "\<exists>r. FindProviderBySessionId sid E = Some r \<and>
     (\<forall>i. r = Some i \<longrightarrow> (\<exists>sp a S. find_served i E = Some sp \<and> sp_pSession sp = Some a \<and> sr_sessions E a = Some S \<and> sv_sessionId S = sid))"
proof -
  from find_acquired_total [of "sr_eventProviders E" "sr_sessions E" sid] assms obtain r where
    r: "FindProviderBySessionId sid E = Some r"
      "\<forall>i. r = Some i \<longrightarrow> (\<exists>sp a S. (i, sp) \<in> set (sr_eventProviders E) \<and> sp_pSession sp = Some a \<and> sr_sessions E a = Some S \<and> sv_sessionId S = sid)"
    unfolding FindProviderBySessionId_def by (auto simp: server_inv_def)
  moreover have "find_served i E = Some sp" if "(i, sp) \<in> set (sr_eventProviders E)" for i sp
    using assms that by (simp add: find_served_def server_inv_def map_of_is_SomeI)
  ultimately show ?thesis by blast
qed

subsection \<open>What operations change\<close>

text \<open>A session object that is changed in place, and one that is new or gone.\<close>

lemma set_session_inv:
  assumes inv: "server_inv E" and S: "sr_sessions E a = Some S"
    and own: "\<And>own. owned own S \<Longrightarrow> owned own (f S)" and id: "sv_assignedProviderId (f S) = sv_assignedProviderId S"
      "sv_sessionId (f S) = sv_sessionId S"
    and block: "\<And>p. sv_pUpdateBlock (f S) = Some p \<Longrightarrow> server_blocks (sr_transferManager E) p \<noteq> None"
  shows "server_inv (set_session a f E)"
proof -
  let ?M = "(sr_sessions E)(a \<mapsto> f S)"
  have "served_ok ?M x" if "served_ok (sr_sessions E) x" for x
    using that S own id by (cases x) (auto simp: served_ok_def)
  moreover have "pending_ok ?M b" if "pending_ok (sr_sessions E) b" for b
    using that S own id(1) by (auto simp: pending_ok_def)
  moreover have "a < sr_nextSession E"
  proof (rule ccontr)
    assume "\<not> a < sr_nextSession E"
    with inv S show False by (simp add: server_inv_def)
  qed
  moreover have "ids_ok ?M as" if "ids_ok (sr_sessions E) as" for as
    using that S id(2) by (auto simp: ids_ok_def split: if_splits)
  ultimately show ?thesis
    using inv S block by (auto simp: server_inv_def set_session_def blocks_ok_def)
qed

text \<open>What requests depend on: pointers, blocks, and the parts of sessions that moving data does not touch.\<close>

definition links :: "EventServer \<Rightarrow> (EventProviderId \<times> nat option) list" where
  "links E = map (\<lambda>(i, sp). (i, sp_pSession sp)) (sr_eventProviders E)"

definition same_requests :: "EventServer \<Rightarrow> EventServer \<Rightarrow> bool" where
  "same_requests E E1 \<longleftrightarrow> links E1 = links E \<and> sr_pendingSessions E1 = sr_pendingSessions E \<and>
    sr_transferManager E1 = sr_transferManager E \<and> (\<forall>a. map_option control (sr_sessions E1 a) = map_option control (sr_sessions E a))"

lemma same_requests_refl [simp]: "same_requests E E"
  by (simp add: same_requests_def)

lemma same_requests_trans: "same_requests E E1 \<Longrightarrow> same_requests E1 E2 \<Longrightarrow> same_requests E E2"
  by (simp add: same_requests_def)

lemma set_session_frame [simp]:
  "sr_eventProviders (set_session a f E) = sr_eventProviders E" "sr_pendingSessions (set_session a f E) = sr_pendingSessions E"
  "sr_transferManager (set_session a f E) = sr_transferManager E" "find_served i (set_session a f E) = find_served i E"
  "sr_nextSession (set_session a f E) = sr_nextSession E"
  by (simp_all add: set_session_def find_served_def)

lemma returned_inv:
  assumes inv: "server_inv E" and sp: "find_served i E = Some sp" "sp_pSession sp = Some a" and S: "sr_sessions E a = Some S"
    and Q: "provider_ok Q" "provider_control Q = Some (control S)" "ev_id Q = i" "ev_registered Q"
      "\<not> ev_isEnabled Q \<Longrightarrow> ev_eventChunks Q = []"
  shows "server_inv (returned i sp Q E)"
    "find_served i (returned i sp Q E) = Some (sp\<lparr>sp_provider := Q\<lparr>ev_pSession := None\<rparr>\<rparr>)"
    "same_requests E (returned i sp Q E)"
proof -
  have dist: "distinct (map fst (sr_eventProviders E))" using inv by (simp add: server_inv_def)
  obtain xs ys where ps: "sr_eventProviders E = xs @ (i, sp) # ys"
    and set: "\<And>f E1. sr_eventProviders E1 = sr_eventProviders E \<Longrightarrow> sr_eventProviders (set_served i f E1) = xs @ (i, f sp) # ys"
    and i: "i \<notin> fst ` set xs" "i \<notin> fst ` set ys"
    by (rule find_served_split [OF sp(1) dist]) blast
  from Q(1) obtain U where U: "ev_pSession Q = Some U" "owned (ev_eventChunks Q) U" by (auto simp: provider_ok_def the_session_def)
  have c: "sv_assignedProviderId U = sv_assignedProviderId S" "sv_pUpdateBlock U = sv_pUpdateBlock S"
      "sv_sessionId U = sv_sessionId S"
    using Q(2) U(1) by (simp_all add: provider_control_def control_def)
  let ?sp = "sp\<lparr>sp_provider := Q\<lparr>ev_pSession := None\<rparr>\<rparr>" and ?M = "(sr_sessions E)(a \<mapsto> U)"
  define E1 where "E1 = returned i sp Q E"
  have E1: "sr_eventProviders E1 = xs @ (i, ?sp) # ys" "sr_sessions E1 = ?M" "sr_pendingSessions E1 = sr_pendingSessions E"
    "sr_nextSession E1 = sr_nextSession E" "sr_transferManager E1 = sr_transferManager E"
    using set [OF refl, of "\<lambda>sp. sp\<lparr>sp_provider := Q\<lparr>ev_pSession := None\<rparr>\<rparr>"] sp(2) U(1) by (simp_all add: E1_def returned_def Let_def)
  from served_session [OF inv sp] S have id: "sv_assignedProviderId S = i" by auto
  have fresh: "a \<notin> set (sr_pendingSessions E)" "a \<notin> set (acquired xs)" "a \<notin> set (acquired ys)"
    using inv sp(2) by (auto simp: server_inv_def ps)
  have other: "served_ok ?M x" if "x \<in> set xs \<union> set ys" for x
  proof -
    have "served_ok (sr_sessions E) x" using inv that by (auto simp: server_inv_def ps)
    moreover have "sp_pSession (snd x) \<noteq> Some a" using fresh(2,3) that by (cases x) (auto simp: set_acquired)
    ultimately show ?thesis by (cases x) (auto simp: served_ok_def)
  qed
  have this_ok: "served_ok ?M (i, ?sp)" using Q U c id sp(2) by (simp add: served_ok_def)
  have pend: "pending_ok ?M b" if "b \<in> set (sr_pendingSessions E)" for b
    using inv that fresh(1) by (auto simp: server_inv_def pending_ok_def)
  have "a < sr_nextSession E" using inv S by (metis not_le option.distinct(1) server_inv_def)
  moreover have "blocks_ok ?M (server_blocks (sr_transferManager E))"
    using inv S c(2) by (auto simp: server_inv_def blocks_ok_def)
  moreover have "ids_ok ?M as" if "ids_ok (sr_sessions E) as" for as
    using that S c(3) by (auto simp: ids_ok_def split: if_splits)
  ultimately have "server_inv E1"
    using inv this_ok other pend sp(2) unfolding server_inv_def E1 by (auto simp: ps)
  then show "server_inv (returned i sp Q E)" by (simp add: E1_def)
  show "find_served i (returned i sp Q E) = Some ?sp"
    using find_served_at [OF E1(1) i(1)] by (simp add: E1_def)
  have "control U = control S" using Q(2) U(1) by (simp add: provider_control_def)
  with E1 S show "same_requests E (returned i sp Q E)"
    by (simp add: same_requests_def links_def ps E1_def [symmetric])
qed

end
