(* ===== verification/Event_Served.thy ===== *)
theory Event_Served
  imports Event_Safety
begin

text \<open>
  What the server relies on when it runs an operation of a provider, as a locale, and that the operations of the
  server keep its invariant.
\<close>

subsection \<open>Operations of providers\<close>

locale provider_operation =
  fixes oper :: "BaseEventProvider \<Rightarrow> ('r \<times> BaseEventProvider) option"
  assumes keeps: "provider_ok P \<Longrightarrow> ev_registered P \<Longrightarrow> (\<not> ev_isEnabled P \<Longrightarrow> ev_eventChunks P = []) \<Longrightarrow>
    \<exists>r Q. oper P = Some (r, Q) \<and> provider_ok Q \<and> provider_control Q = provider_control P \<and> ev_id Q = ev_id P \<and> ev_registered Q \<and>
      (\<not> ev_isEnabled Q \<longrightarrow> ev_eventChunks Q = [])"
begin

text \<open>On a provider with a session, the operation returns and keeps the invariant and every pointer.\<close>

lemma on_provider_acquired:
  assumes inv: "server_inv E" and sp: "find_served i E = Some sp" "sp_pSession sp = Some a" and S: "sr_sessions E a = Some S"
  shows "\<exists>r Q E1. oper ((sp_provider sp)\<lparr>ev_pSession := Some S\<rparr>) = Some (r, Q) \<and> on_provider i oper E = Some (r, E1) \<and>
    E1 = returned i sp Q E \<and> server_inv E1 \<and> find_served i E1 = Some (sp\<lparr>sp_provider := Q\<lparr>ev_pSession := None\<rparr>\<rparr>) \<and>
    same_requests E E1"
proof -
  let ?P = "(sp_provider sp)\<lparr>ev_pSession := Some S\<rparr>"
  have "served_ok (sr_sessions E) (i, sp)" using inv sp(1) by (auto simp: server_inv_def find_served_def dest: map_of_SomeD)
  then have P: "provider_ok ?P" "ev_registered ?P" "\<not> ev_isEnabled ?P \<Longrightarrow> ev_eventChunks ?P = []" "ev_id ?P = i" "provider_control ?P = Some (control S)"
    using sp(2) S by (simp_all add: served_ok_def provider_ok_def the_session_def provider_control_def)
  from keeps [OF P(1-3)] P(4,5) obtain r Q where
    Q: "oper ?P = Some (r, Q)" "provider_ok Q" "provider_control Q = Some (control S)" "ev_id Q = i" "ev_registered Q"
      "\<not> ev_isEnabled Q \<longrightarrow> ev_eventChunks Q = []" by auto
  have "on_provider i oper E = Some (r, returned i sp Q E)" using sp S Q(1) by (simp add: on_provider_def lent_def)
  then show ?thesis using returned_inv [OF inv sp S Q(2-5)] Q by blast
qed

end

lemma flushed_keeps:
  assumes "flushed P Q" "ev_registered P" "\<not> ev_isEnabled P \<Longrightarrow> ev_eventChunks P = []"
  shows "provider_ok Q" "ev_id Q = ev_id P" "ev_registered Q" "\<not> ev_isEnabled Q \<longrightarrow> ev_eventChunks Q = []"
  using assms by (auto simp: flushed_def)

interpretation updating: provider_operation "\<lambda>P. map_option (Pair ()) (Provider_Update now locked P)"
proof
  fix P assume P: "provider_ok P" "ev_registered P" "\<not> ev_isEnabled P \<Longrightarrow> ev_eventChunks P = []"
  have "flushed P P" using P(1) by (simp add: flushed_def)
  with UpdateFlushTimer_ok [OF P(1), of now] obtain Q where "Provider_Update now locked P = Some Q" "flushed P Q"
    by (cases locked) (auto simp: Provider_Update_def)
  with flushed_keeps [OF this(2) P(2,3)] control_Provider_ops(3) [OF this(1)] show
    "\<exists>r Q. map_option (Pair ()) (Provider_Update now locked P) = Some (r, Q) \<and> provider_ok Q \<and>
      provider_control Q = provider_control P \<and> ev_id Q = ev_id P \<and> ev_registered Q \<and> (\<not> ev_isEnabled Q \<longrightarrow> ev_eventChunks Q = [])"
    by auto
qed

lemma Provider_Disable_keeps:
  assumes P: "provider_ok P" "\<not> ev_isEnabled P \<Longrightarrow> ev_eventChunks P = []"
  shows "\<exists>Q. Provider_Disable P = Some Q \<and> provider_ok Q \<and> ev_id Q = ev_id P \<and> ev_registered Q = ev_registered P \<and>
    \<not> ev_isEnabled Q \<and> ev_eventChunks Q = []"
proof -
  from Provider_Flush_ok [OF P(1)] obtain Q where Q: "Provider_Flush P = Some Q" "flushed P Q" "ev_eventChunks Q = []" by blast
  with P show ?thesis by (cases "ev_isEnabled P") (auto simp: Provider_Disable_def flushed_def provider_ok_def the_session_def)
qed

interpretation disabling: provider_operation "\<lambda>P. map_option (Pair ()) (Provider_Disable P)"
proof
  fix P assume P: "provider_ok P" "ev_registered P" "\<not> ev_isEnabled P \<Longrightarrow> ev_eventChunks P = []"
  from Provider_Disable_keeps [OF P(1,3)] obtain Q where "Provider_Disable P = Some Q" "provider_ok Q" "ev_id Q = ev_id P"
    "ev_registered Q = ev_registered P" "\<not> ev_isEnabled Q" "ev_eventChunks Q = []" by blast
  with P(2) control_Provider_ops(1) [OF this(1)] show
    "\<exists>r Q. map_option (Pair ()) (Provider_Disable P) = Some (r, Q) \<and> provider_ok Q \<and>
      provider_control Q = provider_control P \<and> ev_id Q = ev_id P \<and> ev_registered Q \<and> (\<not> ev_isEnabled Q \<longrightarrow> ev_eventChunks Q = [])"
    by auto
qed

interpretation write_operation: provider_operation "WriteEventWithHeader t eventId pHdr d"
proof
  fix P assume P: "provider_ok P" "ev_registered P" "\<not> ev_isEnabled P \<Longrightarrow> ev_eventChunks P = []"
  show "\<exists>r Q. WriteEventWithHeader t eventId pHdr d P = Some (r, Q) \<and> provider_ok Q \<and>
      provider_control Q = provider_control P \<and> ev_id Q = ev_id P \<and> ev_registered Q \<and> (\<not> ev_isEnabled Q \<longrightarrow> ev_eventChunks Q = [])"
  proof (cases "QueryEventWriteStatus P = Success")
    case True
    from WriteEventWithHeader_ok [OF P(1) True, of t eventId pHdr d] obtain r Q where
      Q: "WriteEventWithHeader t eventId pHdr d P = Some (r, Q)" "wrote_event t eventId (payload_bytes pHdr d) r P Q" by blast
    with control_WriteEventWithHeader [OF Q(1)] True P(2) show ?thesis
      by (auto simp: wrote_event_def QueryEventWriteStatus_Success)
  next
    case False
    with P show ?thesis by (simp add: WriteEventWithHeader_def Let_def)
  qed
qed

text \<open>A provider without a session is disabled and has no chunks; the operations leave it as it is.\<close>

lemma returned_same:
  assumes "find_served i E = Some sp" "sp_pSession sp = None" "distinct (map fst (sr_eventProviders E))" "ev_pSession (sp_provider sp) = None"
  shows "returned i sp (sp_provider sp) E = E"
proof -
  obtain xs ys where ps: "sr_eventProviders E = xs @ (i, sp) # ys"
    and set: "\<And>f E1. sr_eventProviders E1 = sr_eventProviders E \<Longrightarrow> sr_eventProviders (set_served i f E1) = xs @ (i, f sp) # ys"
    by (rule find_served_split [OF assms(1,3)]) blast
  have P: "(sp_provider sp)\<lparr>ev_pSession := None\<rparr> = sp_provider sp" using assms(4) by simp
  then have "sr_eventProviders (set_served i (\<lambda>s. s\<lparr>sp_provider := (sp_provider sp)\<lparr>ev_pSession := None\<rparr>\<rparr>) E) = sr_eventProviders E"
    using set [OF refl, of "\<lambda>s. s\<lparr>sp_provider := (sp_provider sp)\<lparr>ev_pSession := None\<rparr>\<rparr>"] by (simp add: ps)
  then show ?thesis using assms(2,4) by (simp add: returned_def Let_def set_served_def)
qed

lemma served_at:
  "server_inv E \<Longrightarrow> find_served i E = Some sp \<Longrightarrow> served_ok (sr_sessions E) (i, sp)"
  by (auto simp: server_inv_def find_served_def dest: map_of_SomeD)

lemma ids_ok_mono: "ids_ok M as \<Longrightarrow> set bs \<subseteq> set as \<Longrightarrow> ids_ok M bs"
  unfolding ids_ok_def by blast

lemma set_served_inv:
  assumes inv: "server_inv E" and sp: "find_served i E = Some sp" and ok: "served_ok (sr_sessions E) (i, f sp)"
    and pointer: "sp_pSession (f sp) = sp_pSession sp \<or> sp_pSession (f sp) = None"
  shows "server_inv (set_served i f E)" "find_served i (set_served i f E) = Some (f sp)"
    "sp_pSession (f sp) = sp_pSession sp \<Longrightarrow> same_requests E (set_served i f E)"
proof -
  have dist: "distinct (map fst (sr_eventProviders E))" using inv by (simp add: server_inv_def)
  obtain xs ys where ps: "sr_eventProviders E = xs @ (i, sp) # ys"
    and set: "\<And>f E1. sr_eventProviders E1 = sr_eventProviders E \<Longrightarrow> sr_eventProviders (set_served i f E1) = xs @ (i, f sp) # ys"
    and i: "i \<notin> fst ` set xs" "i \<notin> fst ` set ys"
    by (rule find_served_split [OF sp dist]) blast
  note E1 = set [OF refl, of f]
  have sub: "set (acquired (xs @ (i, f sp) # ys)) \<subseteq> set (acquired (xs @ (i, sp) # ys))"
    "distinct (as @ acquired (xs @ (i, sp) # ys)) \<Longrightarrow> distinct (as @ acquired (xs @ (i, f sp) # ys))" for as
    using pointer by (auto split: option.splits)
  have "ids_ok (sr_sessions E) (sr_pendingSessions E @ acquired (xs @ (i, sp) # ys))"
    using inv by (simp add: server_inv_def ps)
  then have ids: "ids_ok (sr_sessions E) (sr_pendingSessions E @ acquired (xs @ (i, f sp) # ys))"
    by (rule ids_ok_mono) (use sub(1) in \<open>simp add: subset_iff\<close>)
  have "distinct (sr_pendingSessions E @ acquired (xs @ (i, sp) # ys))"
    using inv by (simp add: server_inv_def ps)
  from sub(2) [OF this] ids show "server_inv (set_served i f E)"
    using inv ok by (simp add: server_inv_def E1 ps)
  show "find_served i (set_served i f E) = Some (f sp)" by (rule find_served_at [OF E1 i(1)])
  show "same_requests E (set_served i f E)" if "sp_pSession (f sp) = sp_pSession sp"
    using that by (simp add: same_requests_def links_def E1 ps)
qed

lemma links_pointer: "map_of (links E) i = map_option sp_pSession (find_served i E)"
  by (simp add: links_def find_served_def map_of_map)

lemma Disable_any:
  assumes inv: "server_inv E" and sp: "find_served i E = Some sp"
  shows "\<exists>E1 P. do_provider i Provider_Disable E = Some E1 \<and> server_inv E1 \<and> find_served i E1 = Some (sp\<lparr>sp_provider := P\<rparr>) \<and>
    \<not> ev_isEnabled P \<and> ev_eventChunks P = [] \<and> same_requests E E1"
proof (cases "sp_pSession sp")
  case None
  have ok: "served_ok (sr_sessions E) (i, sp)" by (rule served_at [OF inv sp])
  with None have P: "\<not> ev_isEnabled (sp_provider sp)" "ev_eventChunks (sp_provider sp) = []" "ev_pSession (sp_provider sp) = None"
    by (auto simp: served_ok_def)
  have "returned i sp (sp_provider sp) E = E"
    using returned_same [OF sp None _ P(3)] inv by (simp add: server_inv_def)
  with P sp None have "do_provider i Provider_Disable E = Some E"
    by (simp add: do_provider_def on_provider_def lent_def Provider_Disable_def)
  with inv sp P show ?thesis by (intro exI [of _ E] exI [of _ "sp_provider sp"]) simp
next
  case (Some a)
  from served_session [OF inv sp Some] obtain S where S: "sr_sessions E a = Some S" by blast
  from disabling.on_provider_acquired [OF inv sp Some S] obtain Q E1 where
    Q: "Provider_Disable ((sp_provider sp)\<lparr>ev_pSession := Some S\<rparr>) = Some Q"
      "on_provider i (\<lambda>P. map_option (Pair ()) (Provider_Disable P)) E = Some ((), E1)" "server_inv E1"
      "find_served i E1 = Some (sp\<lparr>sp_provider := Q\<lparr>ev_pSession := None\<rparr>\<rparr>)" "same_requests E E1" by auto
  have "provider_ok ((sp_provider sp)\<lparr>ev_pSession := Some S\<rparr>)"
    using served_session [OF inv sp Some] S by (simp add: provider_ok_def the_session_def)
  moreover have "\<not> ev_isEnabled (sp_provider sp) \<Longrightarrow> ev_eventChunks (sp_provider sp) = []"
    using served_at [OF inv sp] by (simp add: served_ok_def)
  ultimately have "\<not> ev_isEnabled Q" "ev_eventChunks Q = []"
    using Provider_Disable_keeps [of "(sp_provider sp)\<lparr>ev_pSession := Some S\<rparr>"] Q(1) by auto
  with Q(2-5) show ?thesis by (intro exI [of _ E1] exI [of _ "Q\<lparr>ev_pSession := None\<rparr>"]) (simp add: do_provider_def)
qed

subsection \<open>Updates of providers\<close>

text \<open>The headers of the updates in a block, and that none of them enables a provider that has no session.\<close>

function update_headers :: "u8 list \<Rightarrow> (EventProviderId \<times> bool) list" where
  "update_headers reader =
    (if length reader < sizeof_ProviderUpdateHeader then []
     else (get_word 0 4 reader, reader ! 8 \<noteq> 0) #
       update_headers (drop (unat (get_word 4 4 reader :: u32)) (drop sizeof_ProviderUpdateHeader reader)))"
  by pat_completeness auto
termination by (relation "measure length") (auto simp: sizeof_ProviderUpdateHeader_def)

declare update_headers.simps [simp del]

definition updates_allowed :: "(EventProviderId \<times> nat option) list \<Rightarrow> u8 list \<Rightarrow> bool" where
  "updates_allowed ls reader \<longleftrightarrow> (\<forall>(i, isEnabled) \<in> set (update_headers reader). isEnabled \<longrightarrow> map_of ls i \<noteq> Some None)"

lemma ApplyProviderUpdate_ok:
  assumes inv: "server_inv E" and allowed: "isEnabled \<Longrightarrow> map_of (links E) i \<noteq> Some None"
  shows "\<exists>r E1. ApplyProviderUpdate i isEnabled E = Some (r, E1) \<and> server_inv E1 \<and> same_requests E E1"
proof (cases "find_served i E")
  case None
  with inv show ?thesis by (simp add: ApplyProviderUpdate_def)
next
  case (Some sp)
  show ?thesis
  proof (cases isEnabled)
    case True
    let ?f = "\<lambda>sp. sp\<lparr>sp_provider := Provider_Enable (sp_provider sp)\<rparr>"
    have "served_ok (sr_sessions E) (i, ?f sp)"
      using served_at [OF inv Some] allowed True Some by (simp add: served_ok_def Provider_Enable_def links_pointer)
    from set_served_inv [where f = ?f, OF inv Some this] Some True show ?thesis by (simp add: ApplyProviderUpdate_def)
  next
    case False
    from Disable_any [OF inv Some] Some False show ?thesis by (auto simp: ApplyProviderUpdate_def)
  qed
qed

lemma apply_updates_ok:
  "server_inv E \<Longrightarrow> updates_allowed (links E) reader \<Longrightarrow>
   \<exists>r E1. apply_updates reader E = Some (r, E1) \<and> server_inv E1 \<and> same_requests E E1"
proof (induction reader arbitrary: E rule: update_headers.induct)
  case (1 reader)
  show ?case
  proof (cases "length reader < sizeof_ProviderUpdateHeader")
    case True
    with 1(2) show ?thesis by (subst apply_updates.simps) simp
  next
    case False
    let ?n = "unat (get_word 4 4 reader :: u32)" and ?rest = "drop sizeof_ProviderUpdateHeader reader"
    have headers: "update_headers reader = (get_word 0 4 reader, reader ! 8 \<noteq> 0) # update_headers (drop ?n ?rest)"
      using False by (subst update_headers.simps) simp
    have ne: "reader \<noteq> []" using False by (auto simp: sizeof_ProviderUpdateHeader_def)
    show ?thesis
    proof (cases "length ?rest < ?n")
      case True
      with 1(2) False ne show ?thesis by (subst apply_updates.simps) (simp add: Let_def)
    next
      case enough: False
      from 1(3) have a: "reader ! 8 \<noteq> 0 \<Longrightarrow> map_of (links E) (get_word 0 4 reader) \<noteq> Some None"
        "updates_allowed (links E) (drop ?n ?rest)" by (simp_all add: updates_allowed_def headers)
      from ApplyProviderUpdate_ok [OF 1(2) a(1)] obtain r E1 where
        E1: "ApplyProviderUpdate (get_word 0 4 reader) (reader ! 8 \<noteq> 0) E = Some (r, E1)" "server_inv E1" "same_requests E E1" by blast
      show ?thesis
      proof (cases "r = Success")
        case True
        have "links E1 = links E" using E1(3) by (simp add: same_requests_def)
        with 1(1) [OF False E1(2)] a(2) obtain r2 E2 where
          E2: "apply_updates (drop ?n ?rest) E1 = Some (r2, E2)" "server_inv E2" "same_requests E1 E2" by auto
        have "apply_updates reader E = Some (r2, E2)"
          using E1(1) E2(1) True enough False ne by (subst apply_updates.simps) (simp add: Let_def)
        with E2(2) same_requests_trans [OF E1(3) E2(3)] show ?thesis by blast
      next
        case other: False
        have "apply_updates reader E = Some (r, E1)"
          using E1(1) other enough False ne by (subst apply_updates.simps) (simp add: Let_def)
        with E1(2,3) show ?thesis by blast
      qed
    qed
  qed
qed

end
