(* ===== verification/Event_Query.thy ===== *)
theory Event_Query
  imports Event_Served Transfer_Push
begin

text \<open>
  The query of the providers: the block the server fills holds their number and the description of each of them, one
  after the other.
\<close>

definition provider_description :: "ServedProvider \<Rightarrow> u8 list" where
  "provider_description sp = ProviderDescriptionHeader sp @ GetProviderEventData sp @ sp_eventDescriptionData sp"

definition providers_response :: "EventServer \<Rightarrow> u8 list" where
  "providers_response E = put_word 4 (word_of_nat (length (sr_eventProviders E)) :: u32) @
    concat (map (provider_description \<circ> snd) (sr_eventProviders E))"

text \<open>A block with an identifier that holds \<open>d\<close> and is written to; no block goes away, and the map of identifiers is \<open>H\<close>.\<close>

definition wrote_block :: "nat \<Rightarrow> BlockId \<Rightarrow> (BlockId, nat) HashBase \<Rightarrow> u8 list \<Rightarrow> TransferManager \<Rightarrow> TransferManager \<Rightarrow> bool" where
  "wrote_block p i H d M M1 \<longleftrightarrow> (\<exists>b. server_blocks M1 p = Some b \<and> m_blockId b = i \<and> holds b d \<and> \<not> m_isClosed b) \<and>
    m_registeredServerBlocks M1 = H \<and> (\<forall>q. server_blocks M q \<noteq> None \<longrightarrow> server_blocks M1 q \<noteq> None)"

lemma block_write_ok:
  assumes "wrote_block p i H d M0 M" "room_for T (length d + length bytes)"
  shows "\<exists>M1. block_write T p bytes M = Some M1 \<and> wrote_block p i H (d @ bytes) M0 M1"
proof -
  from assms(1) obtain b where b: "server_blocks M p = Some b" "m_blockId b = i" "holds b d" "\<not> m_isClosed b"
    "m_registeredServerBlocks M = H" "\<forall>q. server_blocks M0 q \<noteq> None \<longrightarrow> server_blocks M q \<noteq> None" by (auto simp: wrote_block_def)
  have len: "unat (word_of_nat (length bytes) :: u64) = length bytes"
    using assms(2) by (simp add: room_for_def unat_of_nat)
  from ServerBlock_Write_holds [OF b(3), of "word_of_nat (length bytes)" bytes T] assms(2) len obtain b1 where
    b1: "ServerBlock_Write T bytes (word_of_nat (length bytes)) b = Some b1" "holds b1 (d @ bytes)" "m_isClosed b1 = m_isClosed b" by auto
  have "m_blockId b1 = m_blockId b" using b1(1) by (auto simp: ServerBlock_Write_def Let_def split: if_splits)
  with b b1 show ?thesis by (auto simp: block_write_def wrote_block_def)
qed

lemma write_descriptions_ok:
  "wrote_block p i H d M0 M \<Longrightarrow> room_for T (length d + length (concat (map provider_description sps))) \<Longrightarrow>
   \<exists>M1. write_descriptions T p sps M = Some M1 \<and> wrote_block p i H (d @ concat (map provider_description sps)) M0 M1"
proof (induction sps arbitrary: d M)
  case (Cons sp sps)
  let ?h = "ProviderDescriptionHeader sp" and ?e = "GetProviderEventData sp" and ?x = "sp_eventDescriptionData sp"
  let ?rest = "concat (map provider_description sps)"
  have room: "room_for T (length d + length ?h)" "room_for T (length (d @ ?h) + length ?e)"
    "room_for T (length ((d @ ?h) @ ?e) + length ?x)" "room_for T (length (((d @ ?h) @ ?e) @ ?x) + length ?rest)"
    by (rule room_mono [OF Cons.prems(2)], simp add: provider_description_def [of sp])+
  from block_write_ok [OF Cons.prems(1) room(1)] obtain M1 where
    1: "block_write T p ?h M = Some M1" "wrote_block p i H (d @ ?h) M0 M1" by blast
  from block_write_ok [OF 1(2) room(2)] obtain M2 where
    2: "block_write T p ?e M1 = Some M2" "wrote_block p i H ((d @ ?h) @ ?e) M0 M2" by blast
  from block_write_ok [OF 2(2) room(3)] obtain M3 where
    3: "block_write T p ?x M2 = Some M3" "wrote_block p i H (((d @ ?h) @ ?e) @ ?x) M0 M3" by blast
  from Cons.IH [OF 3(2) room(4)] 1(1) 2(1) 3(1) show ?case by (simp add: provider_description_def [of sp])
qed simp

text \<open>The answer to a query.\<close>

lemma OpenServerBlock_opens:
  assumes "OpenServerBlock T M = Some (po, M1)"
  shows "if blockMemory T then po = Some (next_block M) \<and> (\<exists>i. wrote_block (next_block M) i
        (snd (Create (blockHash T) (entryMemory T) i (next_block M) (m_registeredServerBlocks M))) [] M M1)
    else po = None \<and> server_blocks M1 = server_blocks M"
proof (cases "blockMemory T")
  case True
  with assms obtain i rng where "po = Some (next_block M)" "M1 = M\<lparr>m_blockRng := rng, next_block := next_block M + 1,
      server_blocks := (server_blocks M)(next_block M \<mapsto> new_ServerBlock i),
      m_registeredServerBlocks := snd (Create (blockHash T) (entryMemory T) i (next_block M) (m_registeredServerBlocks M))\<rparr>"
    by (auto simp: OpenServerBlock_def Let_def split: option.splits)
  moreover have "holds (new_ServerBlock i) []" "\<not> m_isClosed (new_ServerBlock i)" "m_blockId (new_ServerBlock i) = i"
    by (simp_all add: holds_new) (simp_all add: new_ServerBlock_def)
  ultimately show ?thesis using True by (auto simp: wrote_block_def)
qed (use assms in \<open>auto simp: OpenServerBlock_def Let_def split: option.splits\<close>)

definition response_in :: "TransferParams \<Rightarrow> EventServer \<Rightarrow> Result \<Rightarrow> BlockId \<Rightarrow> TransferManager \<Rightarrow> bool" where
  "response_in T E r i M \<longleftrightarrow>
    (let M0 = sr_transferManager E; p = next_block M0
     in if blockMemory T then r = Success \<and>
          (\<exists>b. server_blocks M p = Some b \<and> m_blockId b = i \<and> m_isClosed b \<and> holds b (providers_response E)) \<and>
          m_registeredServerBlocks M = snd (Create (blockHash T) (entryMemory T) i p (m_registeredServerBlocks M0))
        else r = InsufficientMemory \<and> i = kInvalidBlockId \<and> server_blocks M = server_blocks M0)"

lemma BuildQueryProvidersResponse_ok:
  assumes "room_for T (length (providers_response E))"
  shows "\<exists>r id E1. BuildQueryProvidersResponse T E = Some (r, id, E1) \<and> E1 = E\<lparr>sr_transferManager := sr_transferManager E1\<rparr> \<and>
    (\<forall>q. server_blocks (sr_transferManager E) q \<noteq> None \<longrightarrow> server_blocks (sr_transferManager E1) q \<noteq> None) \<and>
    response_in T E r id (sr_transferManager E1)"
proof -
  let ?M0 = "sr_transferManager E"
  let ?p = "next_block ?M0"
  obtain po M where O: "OpenServerBlock T ?M0 = Some (po, M)" using OpenServerBlock_returns by blast
  note opens = OpenServerBlock_opens [OF O]
  show ?thesis
  proof (cases "blockMemory T")
    case False
    with O opens show ?thesis by (simp add: BuildQueryProvidersResponse_def response_in_def Let_def)
  next
    case True
    let ?n = "put_word 4 (word_of_nat (length (sr_eventProviders E)) :: u32)"
    from True opens obtain i H where po: "po = Some ?p" and w0: "wrote_block ?p i H [] ?M0 M"
      and H: "H = snd (Create (blockHash T) (entryMemory T) i ?p (m_registeredServerBlocks ?M0))" by auto
    have room: "room_for T (length ([] :: u8 list) + length ?n)"
      "room_for T (length ([] @ ?n) + length (concat (map provider_description (map snd (sr_eventProviders E)))))"
      by (rule room_mono [OF assms], simp add: providers_response_def comp_def)+
    from block_write_ok [OF w0 room(1)] obtain M1 where
      1: "block_write T ?p ?n M = Some M1" "wrote_block ?p i H ([] @ ?n) ?M0 M1" by blast
    from write_descriptions_ok [OF 1(2) room(2)] obtain M2 where
      2: "write_descriptions T ?p (map snd (sr_eventProviders E)) M1 = Some M2" "wrote_block ?p i H (providers_response E) ?M0 M2"
      by (auto simp: providers_response_def comp_def)
    from 2(2) obtain b where b: "server_blocks M2 ?p = Some b" "m_blockId b = i" "holds b (providers_response E)" "\<not> m_isClosed b"
      "m_registeredServerBlocks M2 = H" "\<forall>q. server_blocks ?M0 q \<noteq> None \<longrightarrow> server_blocks M2 q \<noteq> None" by (auto simp: wrote_block_def)
    let ?M3 = "update_block ?p ServerBlock_Close M2"
    have 3: "server_blocks ?M3 ?p = Some (ServerBlock_Close b)" "m_registeredServerBlocks ?M3 = H"
      "\<forall>q. server_blocks ?M0 q \<noteq> None \<longrightarrow> server_blocks ?M3 q \<noteq> None"
      using b(1,5,6) by (simp_all add: update_block_def)
    have closed: "holds (ServerBlock_Close b) (providers_response E)" "m_isClosed (ServerBlock_Close b)"
      "m_blockId (ServerBlock_Close b) = i"
      using b(2-4) by (auto simp: ServerBlock_Close_def holds_def)
    have built: "BuildQueryProvidersResponse T E = Some (Success, i, E\<lparr>sr_transferManager := ?M3\<rparr>)"
      using O po 1(1) 2(1) 3(1) closed(3) by (simp add: BuildQueryProvidersResponse_def Let_def)
    have "response_in T E Success i ?M3" using True 3(1,2) closed H by (simp add: response_in_def Let_def)
    then show ?thesis by (intro exI [of _ Success] exI [of _ i] exI [of _ "E\<lparr>sr_transferManager := ?M3\<rparr>"]) (simp add: built 3(3))
  qed
qed

text \<open>A block that got an unused identifier is found under it.\<close>

lemma response_found:
  assumes "response_in T E r i M" "blockMemory T" "entryMemory T"
    and "hb_inv (blockHash T) (m_registeredServerBlocks (sr_transferManager E))" "GetServerBlock T i (sr_transferManager E) = None"
  shows "GetServerBlock T i M = Some (next_block (sr_transferManager E))"
proof -
  obtain r' h where c: "Create (blockHash T) (entryMemory T) i (next_block (sr_transferManager E))
      (m_registeredServerBlocks (sr_transferManager E)) = (r', h)" by fastforce
  from Create_spec(3) [OF assms(4) c] assms(3,5) have "lookup (blockHash T) h i = Some (next_block (sr_transferManager E))"
    by (auto simp: GetServerBlock_def FindValue_lookup)
  with assms(1,2) c show ?thesis by (simp add: response_in_def Let_def GetServerBlock_def FindValue_lookup)
qed

end
