(* ===== verification/Event_Requests.thy ===== *)
theory Event_Requests
  imports Event_Query
begin

text \<open>
  Requests and the other operations of the event server keep its invariant: nothing that is still used goes away.
\<close>

subsection \<open>Small changes\<close>

lemma manager_inv:
  "server_inv E \<Longrightarrow> (\<And>q. server_blocks (sr_transferManager E) q \<noteq> None \<Longrightarrow> server_blocks M q \<noteq> None) \<Longrightarrow>
   server_inv (E\<lparr>sr_transferManager := M\<rparr>)"
  by (auto simp: server_inv_def blocks_ok_def)

lemma server_inv_blocks:
  "server_inv E \<Longrightarrow> sr_sessions E a = Some S \<Longrightarrow> sv_pUpdateBlock S = Some p \<Longrightarrow> \<exists>b. server_blocks (sr_transferManager E) p = Some b"
  by (auto simp: server_inv_def blocks_ok_def)

lemma owned_requests:
  "owned own S \<Longrightarrow> owned own (S\<lparr>sv_payloadContainer := c\<rparr>)" "owned own S \<Longrightarrow> owned own (S\<lparr>sv_state := st\<rparr>)"
  "owned own S \<Longrightarrow> owned own (S\<lparr>sv_pUpdateBlock := p\<rparr>)" "owned own S \<Longrightarrow> owned own (S\<lparr>sv_assignedProviderId := i\<rparr>)"
  "owned own S \<Longrightarrow> owned own (S\<lparr>sv_pSession := s\<rparr>)" "owned own S \<Longrightarrow> owned own (S\<lparr>sv_nextTrimTime := now\<rparr>)"
  by (simp_all add: owned_def session_chunks_def current_chunks_def pending_data_def)

lemma set_session_at [simp]: "sr_sessions (set_session a f E) a = map_option f (sr_sessions E a)"
  by (simp add: set_session_def)

lemma set_session_none [simp]: "sr_sessions E a = None \<Longrightarrow> set_session a f E = E"
  by (cases E) (simp add: set_session_def fun_upd_idem)

lemma respond_inv: "server_inv E \<Longrightarrow> server_inv (respond a object E)"
proof (cases "sr_sessions E a")
  case (Some S)
  assume inv: "server_inv E"
  show ?thesis unfolding respond_def
    by (rule set_session_inv [OF inv Some]) (use server_inv_blocks [OF inv Some] in \<open>auto simp: owned_requests\<close>)
qed (simp add: respond_def)

lemma respond_at [simp]: "sr_sessions (respond a object E) a =
    map_option (\<lambda>S. S\<lparr>sv_payloadContainer := CreatePayload object (sv_payloadContainer S)\<rparr>) (sr_sessions E a)"
  by (simp add: respond_def)

lemma state_inv: "server_inv E \<Longrightarrow> server_inv (set_session a (\<lambda>S. S\<lparr>sv_state := st\<rparr>) E)"
proof (cases "sr_sessions E a")
  case (Some S)
  assume inv: "server_inv E"
  show ?thesis
    by (rule set_session_inv [OF inv Some]) (use server_inv_blocks [OF inv Some] in \<open>auto simp: owned_requests\<close>)
qed simp

subsection \<open>Requests\<close>

text \<open>A request is handled without a use of a dangling pointer, and the session it came from is still there.\<close>

definition handled :: "nat \<Rightarrow> (EventSessionState \<times> EventServer) option \<Rightarrow> bool" where
  "handled a x \<longleftrightarrow> (\<exists>st E1. x = Some (st, E1) \<and> server_inv E1 \<and> sr_sessions E1 a \<noteq> None)"

lemma handled_query:
  assumes "server_inv E" "sr_sessions E a \<noteq> None" "room_for T (length (providers_response E))"
  shows "handled a (HandleQueryProvidersRequest T a E)"
proof -
  from BuildQueryProvidersResponse_ok [OF assms(3)] obtain r id E1 where
    E1: "BuildQueryProvidersResponse T E = Some (r, id, E1)" "E1 = E\<lparr>sr_transferManager := sr_transferManager E1\<rparr>"
      "\<forall>q. server_blocks (sr_transferManager E) q \<noteq> None \<longrightarrow> server_blocks (sr_transferManager E1) q \<noteq> None" by blast
  have "server_inv (E\<lparr>sr_transferManager := sr_transferManager E1\<rparr>)" by (rule manager_inv [OF assms(1)]) (use E1(3) in blast)
  then have "server_inv E1" using E1(2) by simp
  moreover have "sr_sessions E1 = sr_sessions E" using arg_cong [OF E1(2), of sr_sessions] by simp
  ultimately show ?thesis using E1(1) assms(2) by (auto simp: handled_def HandleQueryProvidersRequest_def respond_inv)
qed

lemma handled_allocate:
  assumes inv: "server_inv E" and a: "sr_sessions E a = Some S"
  shows "handled a (HandleAllocateProviderUpdatesRequest T a E)"
proof (cases "sv_pUpdateBlock S")
  case (Some p)
  from server_inv_blocks [OF inv a this] obtain b where "server_blocks (sr_transferManager E) p = Some b" by blast
  with Some a inv show ?thesis by (simp add: handled_def HandleAllocateProviderUpdatesRequest_def respond_inv)
next
  case None
  obtain po M where O: "OpenServerBlock T (sr_transferManager E) = Some (po, M)" using OpenServerBlock_returns by blast
  let ?E0 = "E\<lparr>sr_transferManager := M\<rparr>"
  let ?E1 = "set_session a (\<lambda>S. S\<lparr>sv_pUpdateBlock := po\<rparr>) ?E0"
  have keep: "server_blocks M q \<noteq> None" if "server_blocks (sr_transferManager E) q \<noteq> None" for q
    using that OpenServerBlock_blocks [OF O] by (cases po) auto
  have new: "\<exists>b. server_blocks M p = Some b" if "po = Some p" for p
    using OpenServerBlock_blocks(2) [OF O that] by auto
  have E0: "server_inv ?E0" by (rule manager_inv [OF inv keep])
  have S: "sr_sessions ?E0 a = Some S" using a by simp
  have "server_inv ?E1"
    by (rule set_session_inv [OF E0 S]) (use new in \<open>auto simp: owned_requests\<close>)
  with O a None new show ?thesis
    by (cases po) (auto simp: handled_def HandleAllocateProviderUpdatesRequest_def respond_inv)
qed

lemma same_requests_at: "same_requests E E1 \<Longrightarrow> sr_sessions E a = Some S \<Longrightarrow> \<exists>U. sr_sessions E1 a = Some U \<and> control U = control S"
  by (auto simp: same_requests_def) (metis (no_types, lifting) map_option_eq_Some)

lemma handled_apply:
  assumes inv: "server_inv E" and a: "sr_sessions E a = Some S"
    and allowed: "\<And>p b. sv_pUpdateBlock S = Some p \<Longrightarrow> server_blocks (sr_transferManager E) p = Some b \<Longrightarrow>
      updates_allowed (links E) (take (unat (m_blockDataSize b)) (m_chunks b))"
  shows "handled a (HandleApplyProviderUpdatesRequest a E)"
proof (cases "sv_pUpdateBlock S")
  case None
  with inv a show ?thesis by (simp add: handled_def HandleApplyProviderUpdatesRequest_def respond_inv)
next
  case (Some p)
  from server_inv_blocks [OF inv a this] obtain b where b: "server_blocks (sr_transferManager E) p = Some b" by blast
  from apply_updates_ok [OF inv allowed [OF Some b]] obtain r E1 where
    E1: "apply_updates (take (unat (m_blockDataSize b)) (m_chunks b)) E = Some (r, E1)" "server_inv E1" "same_requests E E1" by blast
  let ?M = "update_block p ServerBlock_Reset (sr_transferManager E1)"
  have "server_inv (E1\<lparr>sr_transferManager := ?M\<rparr>)" by (rule manager_inv [OF E1(2)]) (auto simp: update_block_def)
  with same_requests_at [OF E1(3) a] E1(1) a Some b show ?thesis
    by (auto simp: handled_def HandleApplyProviderUpdatesRequest_def respond_inv)
qed

subsection \<open>Subscriptions\<close>

text \<open>A pending session and a registered provider without one: the provider gets the session, which stops being pending.\<close>

lemma AssignSessionToProvider_acquires:
  assumes inv: "server_inv E" and a: "a \<in> set (sr_pendingSessions E)" and sp: "find_served i E = Some sp" "sp_pSession sp = None"
  shows "\<exists>E1 S. AssignSessionToProvider a i E = Some (Success, E1) \<and> server_inv E1 \<and> sr_sessions E a = Some S \<and>
    sr_sessions E1 = (sr_sessions E)(a \<mapsto> S\<lparr>sv_assignedProviderId := i\<rparr>) \<and>
    find_served i E1 = Some (sp\<lparr>sp_pSession := Some a, sp_provider := Provider_Enable (sp_provider sp)\<rparr>) \<and>
    set (sr_pendingSessions E1) = set (sr_pendingSessions E) - {a}"
proof -
  let ?f = "\<lambda>sp. sp\<lparr>sp_pSession := Some a, sp_provider := Provider_Enable (sp_provider sp)\<rparr>"
  from inv a obtain S where S: "sr_sessions E a = Some S" "owned [] S" by (auto simp: server_inv_def pending_ok_def)
  let ?S = "S\<lparr>sv_assignedProviderId := i\<rparr>"
  let ?M = "(sr_sessions E)(a \<mapsto> ?S)"
  define E1 where "E1 = set_session a (\<lambda>S. S\<lparr>sv_assignedProviderId := i\<rparr>) (set_served i ?f E)"
  have E1: "sr_sessions E1 = ?M" "sr_pendingSessions E1 = sr_pendingSessions E" "sr_nextSession E1 = sr_nextSession E"
    "sr_transferManager E1 = sr_transferManager E" "sr_eventProviders E1 = sr_eventProviders (set_served i ?f E)"
    using S by (simp_all add: E1_def set_session_def)
  have dist: "distinct (map fst (sr_eventProviders E))" using inv by (simp add: server_inv_def)
  obtain xs ys where ps: "sr_eventProviders E = xs @ (i, sp) # ys"
    and set: "\<And>f E1. sr_eventProviders E1 = sr_eventProviders E \<Longrightarrow> sr_eventProviders (set_served i f E1) = xs @ (i, f sp) # ys"
    and i: "i \<notin> fst ` set xs" "i \<notin> fst ` set ys"
    by (rule find_served_split [OF sp(1) dist]) blast
  have ps1: "sr_eventProviders E1 = xs @ (i, ?f sp) # ys" using set [OF refl, of ?f] E1(5) by simp
  have ids: "ids_ok (sr_sessions E) (sr_pendingSessions E @ acquired (sr_eventProviders E))" using inv by (simp add: server_inv_def)
  from find_pending_total [of "sr_pendingSessions E" "sr_sessions E" "sv_sessionId S"] inv obtain r where
    r0: "find_pending (sr_sessions E) (sv_sessionId S) (sr_pendingSessions E) = Some r"
      "\<forall>k. r = Some k \<longrightarrow> k < length (sr_pendingSessions E) \<and>
        (\<exists>U. sr_sessions E (sr_pendingSessions E ! k) = Some U \<and> sv_sessionId U = sv_sessionId S)"
      "r = None \<longrightarrow> (\<forall>b \<in> set (sr_pendingSessions E). \<forall>U. sr_sessions E b = Some U \<longrightarrow> sv_sessionId U \<noteq> sv_sessionId S)"
    by (auto simp: server_inv_def)
  have same: "find_pending ?M sid as = find_pending (sr_sessions E) sid as" for sid as
    using S(1) by (induction as) (auto split: option.split)
  from r0(3) a S(1) obtain k where k: "r = Some k" by (cases r) auto
  with r0(2) obtain U where U: "k < length (sr_pendingSessions E)" "sr_sessions E (sr_pendingSessions E ! k) = Some U"
    "sv_sessionId U = sv_sessionId S" by auto
  then have ka: "sr_pendingSessions E ! k = a"
    using ids a S(1) unfolding ids_ok_def by (metis (no_types, lifting) Un_iff nth_mem set_append)
  define E2 where "E2 = E1\<lparr>sr_pendingSessions := remove_index k (sr_pendingSessions E)\<rparr>"
  have "AssignSessionToProvider a i E = Some (Success, E2)"
    using sp r0(1) same S(1) k U(1) E1(1,2)
    by (simp add: AssignSessionToProvider_def Let_def E1_def [symmetric] FindPendingSessionById_def remove_pending_def E2_def)
  moreover have dp: "distinct (sr_pendingSessions E)" using inv by (simp add: server_inv_def)
  note rem = remove_index_set [OF dp U(1), unfolded ka]
  have free: "a \<notin> set (acquired xs)" "a \<notin> set (acquired ys)" using inv a sp(2) by (auto simp: server_inv_def ps)
  have others: "served_ok ?M x" if "x \<in> set xs \<union> set ys" for x
  proof -
    have "served_ok (sr_sessions E) x" using inv that by (auto simp: server_inv_def ps)
    moreover have "sp_pSession (snd x) \<noteq> Some a" using free that by (cases x) (auto simp: set_acquired)
    ultimately show ?thesis by (cases x) (auto simp: served_ok_def)
  qed
  have "served_ok (sr_sessions E) (i, sp)" by (rule served_at [OF inv sp(1)])
  with sp(2) S(2) have this_ok: "served_ok ?M (i, ?f sp)" by (auto simp: served_ok_def Provider_Enable_def owned_requests)
  have pend: "pending_ok ?M b" if "b \<in> set (sr_pendingSessions E)" "b \<noteq> a" for b
    using inv that by (auto simp: server_inv_def pending_ok_def)
  have "a < sr_nextSession E" using inv S(1) by (metis not_le option.distinct(1) server_inv_def)
  then have next_ok: "\<forall>c \<ge> sr_nextSession E. ?M c = None" using inv by (simp add: server_inv_def)
  have served_all: "\<forall>x \<in> set (xs @ (i, ?f sp) # ys). served_ok ?M x" using others this_ok by auto
  have pend_all: "\<forall>b \<in> set (remove_index k (sr_pendingSessions E)). pending_ok ?M b" using pend rem(2) by auto
  have keys: "distinct (map fst (xs @ (i, ?f sp) # ys))" using dist ps by simp
  have blocks: "blocks_ok ?M (server_blocks (sr_transferManager E))"
    using inv S(1) by (auto simp: server_inv_def blocks_ok_def)
  have "ids_ok ?M (sr_pendingSessions E @ acquired (sr_eventProviders E))"
    using ids S(1) by (auto simp: ids_ok_def split: if_splits)
  then have ids2: "ids_ok ?M (remove_index k (sr_pendingSessions E) @ acquired (xs @ (i, ?f sp) # ys))"
    by (rule ids_ok_mono) (use rem(2) a sp(2) in \<open>auto simp: ps\<close>)
  have dist2: "distinct (remove_index k (sr_pendingSessions E) @ acquired (xs @ (i, ?f sp) # ys))"
  proof -
    have "distinct (sr_pendingSessions E @ acquired (sr_eventProviders E))" using inv by (simp add: server_inv_def)
    with rem(1,2) a sp(2) show ?thesis by (auto simp: ps)
  qed
  have E2: "sr_eventProviders E2 = xs @ (i, ?f sp) # ys" "sr_pendingSessions E2 = remove_index k (sr_pendingSessions E)"
    "sr_sessions E2 = ?M" "sr_nextSession E2 = sr_nextSession E" "sr_transferManager E2 = sr_transferManager E"
    by (simp_all add: E2_def E1(1-4) ps1)
  have "server_inv E2"
    unfolding server_inv_def E2 by (intro conjI keys served_all pend_all dist2 next_ok ids2 blocks)
  moreover have "find_served i E2 = Some (?f sp)"
    by (rule find_served_at [OF _ i(1)]) (simp add: E2_def ps1)
  moreover have "set (sr_pendingSessions E2) = set (sr_pendingSessions E) - {a}" "sr_sessions E2 = ?M"
    using rem(2) E1(1) by (simp_all add: E2_def)
  ultimately show ?thesis using S(1) by blast
qed

lemma handled_subscribe:
  assumes inv: "server_inv E" and a: "a \<in> set (sr_pendingSessions E)"
  shows "handled a (HandleSubscribeToProviderRequest a E)"
proof -
  from inv a obtain S where S: "sr_sessions E a = Some S" by (auto simp: server_inv_def pending_ok_def)
  let ?i = "get_word 4 4 (pc_payload (sv_payloadContainer S)) :: EventProviderId"
  show ?thesis
  proof (cases "\<exists>sp. find_served ?i E = Some sp \<and> sp_pSession sp = None")
    case True
    then obtain sp where sp: "find_served ?i E = Some sp" "sp_pSession sp = None" by blast
    from AssignSessionToProvider_acquires [OF inv a sp] S show ?thesis
      by (auto simp: handled_def HandleSubscribeToProviderRequest_def respond_inv)
  next
    case False
    then have "AssignSessionToProvider a ?i E = Some (Unavailable, E)"
      by (cases "find_served ?i E") (auto simp: AssignSessionToProvider_def)
    with S inv show ?thesis by (auto simp: handled_def HandleSubscribeToProviderRequest_def respond_inv)
  qed
qed

text \<open>A session that is pending or acquired.\<close>

abbreviation active :: "EventServer \<Rightarrow> nat \<Rightarrow> bool" where
  "active E a \<equiv> a \<in> set (sr_pendingSessions E @ acquired (sr_eventProviders E))"

lemma active_cases:
  assumes inv: "server_inv E" and a: "active E a"
  obtains (pending) S where "sr_sessions E a = Some S" "owned [] S" "sv_assignedProviderId S = 0"
  | (acquired) S i sp where "sr_sessions E a = Some S" "find_served i E = Some sp" "sp_pSession sp = Some a" "sv_assignedProviderId S = i"
      "owned (ev_eventChunks (sp_provider sp)) S"
proof (cases "a \<in> set (sr_pendingSessions E)")
  case True
  then have "pending_ok (sr_sessions E) a" using inv by (simp add: server_inv_def)
  with that(1) show ?thesis by (auto simp: pending_ok_def)
next
  case False
  with a obtain i sp where sp: "(i, sp) \<in> set (sr_eventProviders E)" "sp_pSession sp = Some a" by (auto simp: set_acquired)
  then have "find_served i E = Some sp" using inv by (simp add: find_served_def server_inv_def)
  with served_session [OF inv this sp(2)] sp(2) that(2) show ?thesis by blast
qed

lemma handled_unsubscribe:
  assumes inv: "server_inv E" and a: "active E a"
  shows "handled a (HandleUnsubscribeFromProviderRequest a E)"
proof (cases rule: active_cases [OF inv a])
  case (1 S)
  with inv show ?thesis by (simp add: handled_def HandleUnsubscribeFromProviderRequest_def)
next
  case (2 S i sp)
  from Disable_any [OF inv 2(2)] obtain E1 P where
    D: "do_provider i Provider_Disable E = Some E1" "server_inv E1" "find_served i E1 = Some (sp\<lparr>sp_provider := P\<rparr>)"
      "\<not> ev_isEnabled P" "ev_eventChunks P = []" "same_requests E E1" by blast
  let ?f = "\<lambda>sp. sp\<lparr>sp_pSession := None\<rparr>"
  have "served_ok (sr_sessions E1) (i, ?f (sp\<lparr>sp_provider := P\<rparr>))"
    using served_at [OF D(2,3)] D(4,5) by (simp add: served_ok_def)
  from set_served_inv(1) [where f = ?f, OF D(2,3) this] same_requests_at [OF D(6) 2(1)] D(1) 2(1,4) inv show ?thesis
    by (auto simp: handled_def HandleUnsubscribeFromProviderRequest_def UnassignSessionFromProvider_def)
qed

subsection \<open>Updates\<close>

text \<open>What a client must not ask for: a second subscription, an update that enables a provider without a session.\<close>

definition request_allowed :: "TransferParams \<Rightarrow> nat \<Rightarrow> EventServer \<Rightarrow> bool" where
  "request_allowed T a E \<longleftrightarrow> (\<forall>S. sr_sessions E a = Some S \<and> sv_state S = EventSessionState.ProcessPayload \<longrightarrow>
    (let messageCode = pc_payload (sv_payloadContainer S) ! 0 in
     (messageCode = EventMessage_QueryProvidersRequest \<longrightarrow> room_for T (length (providers_response E))) \<and>
     (messageCode = EventMessage_SubscribeToProviderRequest \<longrightarrow> a \<in> set (sr_pendingSessions E)) \<and>
     (messageCode = EventMessage_ApplyProviderUpdatesRequest \<longrightarrow>
       (\<forall>p b. sv_pUpdateBlock S = Some p \<longrightarrow> server_blocks (sr_transferManager E) p = Some b \<longrightarrow>
          updates_allowed (links E) (take (unat (m_blockDataSize b)) (m_chunks b))))))"

lemma process_request_ok:
  assumes inv: "server_inv E" and a: "active E a" and S: "sr_sessions E a = Some S" and allowed: "request_allowed T a E"
    and st: "sv_state S = EventSessionState.ProcessPayload"
  shows "\<exists>E1. process_request T a E = Some E1 \<and> server_inv E1 \<and> sr_sessions E1 a \<noteq> None"
proof -
  let ?c = "pc_payload (sv_payloadContainer S) ! 0"
  let ?x = "if ?c = EventMessage_QueryProvidersRequest then HandleQueryProvidersRequest T a E
         else if ?c = EventMessage_AllocateProviderUpdatesRequest then HandleAllocateProviderUpdatesRequest T a E
         else if ?c = EventMessage_ApplyProviderUpdatesRequest then HandleApplyProviderUpdatesRequest a E
         else if ?c = EventMessage_SubscribeToProviderRequest then HandleSubscribeToProviderRequest a E
         else if ?c = EventMessage_UnsubscribeFromProviderRequest then HandleUnsubscribeFromProviderRequest a E
         else Some (EventSessionState.ProcessPayload, E)"
  have al: "?c = EventMessage_QueryProvidersRequest \<Longrightarrow> room_for T (length (providers_response E))"
    "?c = EventMessage_SubscribeToProviderRequest \<Longrightarrow> a \<in> set (sr_pendingSessions E)"
    "?c = EventMessage_ApplyProviderUpdatesRequest \<Longrightarrow> sv_pUpdateBlock S = Some p \<Longrightarrow>
      server_blocks (sr_transferManager E) p = Some b \<Longrightarrow> updates_allowed (links E) (take (unat (m_blockDataSize b)) (m_chunks b))" for p b
    using allowed S st by (auto simp: request_allowed_def Let_def)
  have "handled a ?x"
    using handled_query [OF inv _ al(1)] handled_allocate [OF inv S] handled_apply [OF inv S al(3)]
      handled_subscribe [OF inv al(2)] handled_unsubscribe [OF inv a] S inv
    by (simp add: handled_def [of a "Some (EventSessionState.ProcessPayload, E)"])
  then obtain st1 E1 where "?x = Some (st1, E1)" "server_inv E1" "sr_sessions E1 a \<noteq> None" by (auto simp: handled_def)
  with S show ?thesis by (auto simp: process_request_def Let_def state_inv)
qed

lemma receive_request_ok:
  assumes "owned own S"
  shows "\<exists>U. receive_request S = Some U \<and> owned own U"
proof -
  obtain r c s where R: "ISession_ReceivePayload (sv_payloadContainer S) (sv_pSession S) = (r, c, s)" by (metis prod_cases3)
  have own: "owned own (S\<lparr>sv_payloadContainer := c, sv_pSession := s\<rparr>)" by (intro owned_requests assms)
  from SendEventData_ok [OF own] obtain U where "SendEventData (S\<lparr>sv_payloadContainer := c, sv_pSession := s\<rparr>) = Some U" "owned own U"
    by (auto simp: send_ok_def)
  with R own owned_requests(2) [OF own] show ?thesis by (auto simp: receive_request_def Let_def)
qed

lemma receive_request_control:
  assumes "receive_request S = Some U"
  shows "sv_assignedProviderId U = sv_assignedProviderId S" "sv_sessionId U = sv_sessionId S" "sv_pUpdateBlock U = sv_pUpdateBlock S"
proof -
  obtain r c s where R: "ISession_ReceivePayload (sv_payloadContainer S) (sv_pSession S) = (r, c, s)" by (metis prod_cases3)
  let ?S1 = "S\<lparr>sv_payloadContainer := c, sv_pSession := s\<rparr>"
  have "sv_assignedProviderId U = sv_assignedProviderId S \<and> sv_sessionId U = sv_sessionId S \<and> sv_pUpdateBlock U = sv_pUpdateBlock S"
  proof (cases "r = NotReady")
    case True
    with R assms have "SendEventData ?S1 = Some U" by (simp add: receive_request_def Let_def)
    from control_SendEventData [OF this] show ?thesis by (simp add: control_def)
  next
    case False
    with R assms show ?thesis by (auto simp: receive_request_def Let_def split: if_splits)
  qed
  then show "sv_assignedProviderId U = sv_assignedProviderId S" "sv_sessionId U = sv_sessionId S" "sv_pUpdateBlock U = sv_pUpdateBlock S"
    by simp_all
qed

lemma receive_all_owned:
  assumes "receive_request S = Some U" "owned own S"
  shows "owned own U"
  using receive_request_ok [OF assms(2)] assms(1) by auto

lemma trim_now_and_then_keeps:
  "owned own S \<Longrightarrow> owned own (trim_now_and_then now locked S)"
  "sv_assignedProviderId (trim_now_and_then now locked S) = sv_assignedProviderId S"
  "sv_sessionId (trim_now_and_then now locked S) = sv_sessionId S"
  "sv_pUpdateBlock (trim_now_and_then now locked S) = sv_pUpdateBlock S"
proof -
  let ?S = "S\<lparr>sv_nextTrimTime := now + kTrimFrequencyInMs\<rparr>"
  show "owned own (trim_now_and_then now locked S)" if "owned own S"
    using trim_ok [of own ?S kMaxChunksPerTrim] owned_requests(6) [OF that] that
    by (simp add: trim_now_and_then_def TrimEventChunkMemory_def)
  have "control (TrimEventChunkMemory locked ?S) = control ?S" by simp
  then show "sv_assignedProviderId (trim_now_and_then now locked S) = sv_assignedProviderId S"
    "sv_sessionId (trim_now_and_then now locked S) = sv_sessionId S"
    "sv_pUpdateBlock (trim_now_and_then now locked S) = sv_pUpdateBlock S"
    by (simp_all add: trim_now_and_then_def control_def)
qed

lemma send_response_keeps:
  "owned own S \<Longrightarrow> owned own (send_response S)" "sv_assignedProviderId (send_response S) = sv_assignedProviderId S"
  "sv_sessionId (send_response S) = sv_sessionId S" "sv_pUpdateBlock (send_response S) = sv_pUpdateBlock S"
  by (auto simp: send_response_def Let_def case_prod_unfold owned_requests)

lemma UpdateSession_ok:
  assumes inv: "server_inv E" and a: "active E a" and allowed: "request_allowed T a E"
  shows "\<exists>E1. EventServerSession_UpdateSession T now locked a E = Some E1 \<and> server_inv E1"
proof -
  from a inv obtain S own where S: "sr_sessions E a = Some S" "owned own S" by (rule_tac active_cases [OF inv a]) blast+
  have block: "server_blocks (sr_transferManager E) p \<noteq> None" if "sv_pUpdateBlock S = Some p" for p
    using server_inv_blocks [OF inv S(1) that] by blast
  let ?x = "case sv_state S of
           EventSessionState.ReceivePayload \<Rightarrow> map_option (\<lambda>S1. set_session a (\<lambda>_. S1) E) (receive_request S)
         | EventSessionState.ProcessPayload \<Rightarrow> process_request T a E
         | EventSessionState.SendPayload \<Rightarrow> Some (set_session a send_response E)"
  have "\<exists>E1. ?x = Some E1 \<and> server_inv E1 \<and> sr_sessions E1 a \<noteq> None"
  proof (cases "sv_state S")
    case ReceivePayload
    from receive_request_ok [OF S(2)] obtain U where U: "receive_request S = Some U" by blast
    have "server_inv (set_session a (\<lambda>_. U) E)"
      by (rule set_session_inv [OF inv S(1)])
        (use receive_all_owned [OF U] receive_request_control [OF U] block in simp_all)
    with ReceivePayload U S(1) show ?thesis by simp
  next
    case ProcessPayload
    with process_request_ok [OF inv a S(1) allowed] show ?thesis by simp
  next
    case SendPayload
    have "server_inv (set_session a send_response E)"
      by (rule set_session_inv [OF inv S(1)]) (use send_response_keeps block in simp_all)
    with SendPayload S(1) show ?thesis by simp
  qed
  then obtain E1 S1 where E1: "?x = Some E1" "server_inv E1" "sr_sessions E1 a = Some S1" by auto
  have "server_inv (set_session a (trim_now_and_then now locked) E1)"
    by (rule set_session_inv [OF E1(2,3)])
      (use trim_now_and_then_keeps server_inv_blocks [OF E1(2,3)] in auto)
  with E1(1) S(1) show ?thesis by (simp add: EventServerSession_UpdateSession_def)
qed

end
