(* ===== verification/Event_Operations.thy ===== *)
theory Event_Operations
  imports Event_Requests
begin

text \<open>
  The operations that the message layer and the owners of providers call on the event server, and its reachable
  states.
\<close>

subsection \<open>Sessions and providers that go away\<close>

lemma remove_provider_inv:
  assumes inv: "server_inv E"
  shows "server_inv (E\<lparr>sr_eventProviders := filter (\<lambda>(j, _). j \<noteq> i) (sr_eventProviders E)\<rparr>)"
proof -
  have sub: "set (acquired (filter (\<lambda>(j, _). j \<noteq> i) ps)) \<subseteq> set (acquired ps)" for ps
    by (auto simp: set_acquired)
  have dist: "distinct (acquired ps) \<Longrightarrow> distinct (acquired (filter (\<lambda>(j, _). j \<noteq> i) ps))" for ps
    by (induction ps rule: acquired.induct) (use sub in \<open>auto split: option.splits\<close>)
  have fst: "distinct (map fst ps) \<Longrightarrow> distinct (map fst (filter (\<lambda>(j, _). j \<noteq> i) ps))" for ps :: "(EventProviderId \<times> ServedProvider) list"
    by (simp add: distinct_map inj_on_def)
  have "ids_ok (sr_sessions E) (sr_pendingSessions E @ acquired (sr_eventProviders E))" using inv by (simp add: server_inv_def)
  then have "ids_ok (sr_sessions E) (sr_pendingSessions E @ acquired (filter (\<lambda>(j, _). j \<noteq> i) (sr_eventProviders E)))"
    by (rule ids_ok_mono) (use sub in auto)
  moreover have "set (acquired (filter (\<lambda>(j, _). j \<noteq> i) (sr_eventProviders E))) \<subseteq> set (acquired (sr_eventProviders E))" by (rule sub)
  ultimately show ?thesis
    using inv dist [of "sr_eventProviders E"] fst [of "sr_eventProviders E"]
    by (simp add: server_inv_def) (blast dest: subsetD)
qed

lemma delete_session_inv:
  assumes inv: "server_inv E" and S: "sr_sessions E a = Some S" and a: "\<not> active E a"
  shows "\<exists>E1. delete_EventServerSession T a E = Some E1 \<and> server_inv E1"
proof -
  let ?M = "(sr_sessions E)(a := None)"
  have "served_ok ?M x" if x: "x \<in> set (sr_eventProviders E)" for x
  proof -
    have "served_ok (sr_sessions E) x" using inv x by (simp add: server_inv_def)
    moreover have "sp_pSession (snd x) \<noteq> Some a" using a x by (cases x) (auto simp: set_acquired)
    ultimately show ?thesis by (cases x) (auto simp: served_ok_def)
  qed
  moreover have "pending_ok ?M b" if "b \<in> set (sr_pendingSessions E)" for b
    using inv a that by (auto simp: server_inv_def pending_ok_def)
  moreover have "ids_ok ?M as" if "ids_ok (sr_sessions E) as" for as using that by (auto simp: ids_ok_def)
  moreover have "blocks_ok ?M B" if "blocks_ok (sr_sessions E) B" for B using that by (auto simp: blocks_ok_def)
  ultimately show ?thesis using inv S by (simp add: delete_EventServerSession_def server_inv_def)
qed

text \<open>Deleting a session object does not depend on the providers or on what is pending.\<close>

lemma delete_commutes:
  "delete_EventServerSession T a (set_served i f E) = map_option (set_served i f) (delete_EventServerSession T a E)"
  "delete_EventServerSession T a (E\<lparr>sr_eventProviders := ps\<rparr>) = map_option (\<lambda>E. E\<lparr>sr_eventProviders := ps\<rparr>) (delete_EventServerSession T a E)"
  "delete_EventServerSession T a (E\<lparr>sr_pendingSessions := as\<rparr>) = map_option (\<lambda>E. E\<lparr>sr_pendingSessions := as\<rparr>) (delete_EventServerSession T a E)"
  by (cases "sr_sessions E a"; simp add: delete_EventServerSession_def set_served_def)+

lemma delete_frame:
  "delete_EventServerSession T a E = Some E1 \<Longrightarrow>
   sr_eventProviders E1 = sr_eventProviders E \<and> sr_pendingSessions E1 = sr_pendingSessions E"
  by (auto simp: delete_EventServerSession_def)

lemma remove_pending_inv:
  assumes inv: "server_inv E" and k: "k < length (sr_pendingSessions E)"
  shows "server_inv (E\<lparr>sr_pendingSessions := remove_index k (sr_pendingSessions E)\<rparr>)"
    "\<not> active (E\<lparr>sr_pendingSessions := remove_index k (sr_pendingSessions E)\<rparr>) (sr_pendingSessions E ! k)"
proof -
  have d: "distinct (sr_pendingSessions E)" using inv by (simp add: server_inv_def)
  note rem = remove_index_set [OF d k]
  have "ids_ok (sr_sessions E) (sr_pendingSessions E @ acquired (sr_eventProviders E))" using inv by (simp add: server_inv_def)
  then have "ids_ok (sr_sessions E) (remove_index k (sr_pendingSessions E) @ acquired (sr_eventProviders E))"
    by (rule ids_ok_mono) (use rem(2) in auto)
  with inv rem show "server_inv (E\<lparr>sr_pendingSessions := remove_index k (sr_pendingSessions E)\<rparr>)"
    by (auto simp: server_inv_def)
  have "sr_pendingSessions E ! k \<in> set (sr_pendingSessions E)" using k by simp
  with inv rem(2) show "\<not> active (E\<lparr>sr_pendingSessions := remove_index k (sr_pendingSessions E)\<rparr>) (sr_pendingSessions E ! k)"
    by (auto simp: server_inv_def)
qed

lemma SessionTerminated_ok:
  assumes inv: "server_inv E"
  shows "\<exists>E1. SessionTerminated T sid E = Some E1 \<and> server_inv E1"
proof -
  from FindPendingSessionById_total [OF inv, of sid] obtain r where
    r: "FindPendingSessionById sid E = Some r" "\<forall>k. r = Some k \<longrightarrow> k < length (sr_pendingSessions E) \<and>
      (\<exists>S. sr_sessions E (sr_pendingSessions E ! k) = Some S \<and> sv_sessionId S = sid)" by blast
  show ?thesis
  proof (cases r)
    case (Some k)
    with r(2) obtain S where k: "k < length (sr_pendingSessions E)" "sr_sessions E (sr_pendingSessions E ! k) = Some S" by auto
    note rem = remove_pending_inv [OF inv k(1)]
    from delete_session_inv [OF rem(1) _ rem(2), of S T] k(2) obtain E1 where
      "delete_EventServerSession T (sr_pendingSessions E ! k) (E\<lparr>sr_pendingSessions := remove_index k (sr_pendingSessions E)\<rparr>) = Some E1"
      "server_inv E1" by auto
    then obtain E2 where E2: "delete_EventServerSession T (sr_pendingSessions E ! k) E = Some E2"
      "E1 = E2\<lparr>sr_pendingSessions := remove_index k (sr_pendingSessions E)\<rparr>" by (auto simp: delete_commutes)
    with delete_frame [OF E2(1)] k r(1) Some \<open>server_inv E1\<close> show ?thesis
      by (simp add: SessionTerminated_def remove_pending_def)
  next
    case None
    from FindProviderBySessionId_total [OF inv, of sid] obtain p where
      p: "FindProviderBySessionId sid E = Some p" "\<forall>i. p = Some i \<longrightarrow>
        (\<exists>sp a S. find_served i E = Some sp \<and> sp_pSession sp = Some a \<and> sr_sessions E a = Some S \<and> sv_sessionId S = sid)" by blast
    show ?thesis
    proof (cases p)
      case None
      with r p \<open>r = None\<close> inv show ?thesis by (simp add: SessionTerminated_def)
    next
      case (Some i)
      with p(2) obtain sp a S where sp: "find_served i E = Some sp" "sp_pSession sp = Some a" "sr_sessions E a = Some S" by auto
      from Disable_any [OF inv sp(1)] obtain E1 P where
        D: "do_provider i Provider_Disable E = Some E1" "server_inv E1" "find_served i E1 = Some (sp\<lparr>sp_provider := P\<rparr>)"
          "\<not> ev_isEnabled P" "ev_eventChunks P = []" "same_requests E E1" by blast
      from same_requests_at [OF D(6) sp(3)] obtain U where U: "sr_sessions E1 a = Some U" by blast
      let ?f = "\<lambda>sp. sp\<lparr>sp_pSession := None\<rparr>"
      have "served_ok (sr_sessions E1) (i, ?f (sp\<lparr>sp_provider := P\<rparr>))"
        using served_at [OF D(2,3)] D(4,5) by (simp add: served_ok_def)
      note E2 = set_served_inv [where f = ?f, OF D(2,3) this]
      have "\<not> active (set_served i ?f E1) a"
      proof -
        have d: "distinct (map fst (sr_eventProviders E1))" using D(2) by (simp add: server_inv_def)
        obtain xs ys where ps: "sr_eventProviders E1 = xs @ (i, sp\<lparr>sp_provider := P\<rparr>) # ys"
          "\<And>f E2. sr_eventProviders E2 = sr_eventProviders E1 \<Longrightarrow> sr_eventProviders (set_served i f E2) = xs @ (i, f (sp\<lparr>sp_provider := P\<rparr>)) # ys"
          by (rule find_served_split [OF D(3) d]) blast
        from D(2) sp(2) show ?thesis using ps(2) [OF refl, of ?f] by (auto simp: server_inv_def ps(1))
      qed
      from delete_session_inv [OF E2(1) _ this, of U T] U obtain E3 where
        "map_option (set_served i ?f) (delete_EventServerSession T a E1) = Some E3" "server_inv E3" by (auto simp: delete_commutes)
      with r(1) \<open>r = None\<close> p(1) Some D(1,3) sp(2) show ?thesis
        by (simp add: SessionTerminated_def del: map_option_eq_Some)
    qed
  qed
qed

subsection \<open>Registration\<close>

text \<open>A provider that is not registered and never was, or was disabled since.\<close>

definition fresh_served :: "ServedProvider \<Rightarrow> bool" where
  "fresh_served sp \<longleftrightarrow> sp_pSession sp = None \<and> ev_pSession (sp_provider sp) = None \<and> \<not> ev_isEnabled (sp_provider sp) \<and>
    ev_eventChunks (sp_provider sp) = []"

lemma RegisterProvider_inv:
  assumes inv: "server_inv E" and sp: "fresh_served sp"
  shows "server_inv (snd (RegisterProvider inserted position sp E))"
proof (cases "find_served (ev_id (sp_provider sp)) E = None \<and> inserted")
  case True
  let ?new = "(ev_id (sp_provider sp), sp\<lparr>sp_provider := Provider_Register (sp_provider sp)\<rparr>)"
  define xs where "xs = take position (sr_eventProviders E)"
  define ys where "ys = drop position (sr_eventProviders E)"
  have ps: "sr_eventProviders E = xs @ ys" by (simp add: xs_def ys_def)
  have "served_ok (sr_sessions E) ?new" using sp by (simp add: served_ok_def fresh_served_def Provider_Register_def)
  moreover have "ev_id (sp_provider sp) \<notin> fst ` set (xs @ ys)" using True by (auto simp: find_served_def map_of_eq_None_iff ps)
  moreover have "acquired (xs @ ?new # ys) = acquired (xs @ ys)" using sp by (simp add: fresh_served_def)
  ultimately have "server_inv (E\<lparr>sr_eventProviders := xs @ ?new # ys\<rparr>)" using inv by (auto simp: server_inv_def ps)
  with True show ?thesis by (simp add: RegisterProvider_def xs_def ys_def)
next
  case False
  with inv show ?thesis by (auto simp: RegisterProvider_def Let_def)
qed

interpretation flushing: provider_operation "\<lambda>P. map_option (Pair ()) (Provider_Flush P)"
proof
  fix P assume P: "provider_ok P" "ev_registered P" "\<not> ev_isEnabled P \<Longrightarrow> ev_eventChunks P = []"
  from Provider_Flush_ok [OF P(1)] obtain Q where Q: "Provider_Flush P = Some Q" "flushed P Q" by blast
  with flushed_keeps [OF this(2) P(2,3)] control_Provider_Flush [OF this(1)] show
    "\<exists>r Q. map_option (Pair ()) (Provider_Flush P) = Some (r, Q) \<and> provider_ok Q \<and>
      provider_control Q = provider_control P \<and> ev_id Q = ev_id P \<and> ev_registered Q \<and> (\<not> ev_isEnabled Q \<longrightarrow> ev_eventChunks Q = [])"
    by auto
qed

lemma filter_set_served:
  "filter (\<lambda>(j, _). j \<noteq> i) (sr_eventProviders (set_served i f E)) = filter (\<lambda>(j, _). j \<noteq> i) (sr_eventProviders E)"
proof -
  have "filter (\<lambda>(j, _). j \<noteq> i) (map (\<lambda>(j, s). (j, if j = i then f s else s)) ps) = filter (\<lambda>(j, _). j \<noteq> i) ps" for ps
    by (induction ps) auto
  then show ?thesis by (simp add: set_served_def)
qed

lemma drop_set_served:
  "(set_served i f E)\<lparr>sr_eventProviders := filter (\<lambda>(j, _). j \<noteq> i) (sr_eventProviders (set_served i f E))\<rparr> =
   E\<lparr>sr_eventProviders := filter (\<lambda>(j, _). j \<noteq> i) (sr_eventProviders E)\<rparr>"
  "(set_served i f E)\<lparr>sr_sessions := M, sr_eventProviders := filter (\<lambda>(j, _). j \<noteq> i) (sr_eventProviders (set_served i f E))\<rparr> =
   E\<lparr>sr_sessions := M, sr_eventProviders := filter (\<lambda>(j, _). j \<noteq> i) (sr_eventProviders E)\<rparr>"
  unfolding filter_set_served by (simp_all add: set_served_def)

lemma UnregisterProvider_ok:
  assumes inv: "server_inv E"
  shows "\<exists>r E1. UnregisterProvider T i E = Some (r, E1) \<and> server_inv E1"
proof (cases "find_served i E")
  case None
  with inv show ?thesis by (simp add: UnregisterProvider_def)
next
  case (Some sp)
  let ?drop = "\<lambda>E. E\<lparr>sr_eventProviders := filter (\<lambda>(j, _). j \<noteq> i) (sr_eventProviders E)\<rparr>"
  show ?thesis
  proof (cases "sp_pSession sp")
    case None
    have ok: "served_ok (sr_sessions E) (i, sp)" by (rule served_at [OF inv Some])
    with None have P: "ev_eventChunks (sp_provider sp) = []" "ev_pSession (sp_provider sp) = None" by (auto simp: served_ok_def)
    then have "do_provider i Provider_Unregister E = Some (returned i sp ((sp_provider sp)\<lparr>ev_registered := False\<rparr>) E)"
      using Some None by (simp add: do_provider_def on_provider_def lent_def Provider_Unregister_def Provider_Flush_def)
    moreover have "?drop (returned i sp ((sp_provider sp)\<lparr>ev_registered := False\<rparr>) E) = ?drop E"
      using None unfolding returned_def Let_def by (simp add: drop_set_served)
    ultimately show ?thesis using Some None remove_provider_inv [OF inv, of i]
      by (simp add: UnregisterProvider_def case_prod_unfold)
  next
    case (Some a)
    from served_session [OF inv \<open>find_served i E = Some sp\<close> Some] obtain S where S: "sr_sessions E a = Some S" by blast
    from flushing.on_provider_acquired [OF inv \<open>find_served i E = Some sp\<close> Some S] obtain Q E1 where
      F: "Provider_Flush ((sp_provider sp)\<lparr>ev_pSession := Some S\<rparr>) = Some Q" "E1 = returned i sp Q E" "server_inv E1"
        "find_served i E1 = Some (sp\<lparr>sp_provider := Q\<lparr>ev_pSession := None\<rparr>\<rparr>)" "same_requests E E1" by auto
    let ?E2 = "returned i sp (Q\<lparr>ev_registered := False\<rparr>) E"
    have E2: "do_provider i Provider_Unregister E = Some ?E2"
      using \<open>find_served i E = Some sp\<close> Some S F(1) by (simp add: do_provider_def on_provider_def lent_def Provider_Unregister_def)
    have same: "?drop ?E2 = ?drop E1"
      unfolding F(2) returned_def Let_def by (auto simp: drop_set_served Some split: option.splits)
    from same_requests_at [OF F(5) S] obtain U where U: "sr_sessions E1 a = Some U" by blast
    note inv2 = remove_provider_inv [OF F(3), of i]
    have "\<not> active (?drop E1) a"
    proof -
      have "(i, sp\<lparr>sp_provider := Q\<lparr>ev_pSession := None\<rparr>\<rparr>) \<in> set (sr_eventProviders E1)" using F(4) by (simp add: find_served_def map_of_SomeD)
      then obtain xs ys where ps: "sr_eventProviders E1 = xs @ (i, sp\<lparr>sp_provider := Q\<lparr>ev_pSession := None\<rparr>\<rparr>) # ys" by (meson split_list)
      have "a \<notin> set (acquired (filter (\<lambda>(j, _). j \<noteq> i) xs))" "a \<notin> set (acquired (filter (\<lambda>(j, _). j \<noteq> i) ys))"
        "a \<notin> set (sr_pendingSessions E1)"
        using F(3) Some by (auto simp: server_inv_def ps set_acquired)
      then show ?thesis by (simp add: ps)
    qed
    from delete_session_inv [OF inv2 _ this, of U T] U obtain E3 where
      E3: "delete_EventServerSession T a (?drop E1) = Some E3" "server_inv E3" by auto
    from E3(1) have "delete_EventServerSession T a (?drop ?E2) = Some E3" unfolding same .
    then obtain E4 where E4: "delete_EventServerSession T a ?E2 = Some E4"
      "E3 = E4\<lparr>sr_eventProviders := filter (\<lambda>(j, _). j \<noteq> i) (sr_eventProviders ?E2)\<rparr>" by (auto simp: delete_commutes)
    with delete_frame [OF E4(1)] \<open>find_served i E = Some sp\<close> Some E2 E3(2) show ?thesis
      by (simp add: UnregisterProvider_def)
  qed
qed

subsection \<open>Sessions\<close>

lemma SessionEstablished_inv:
  assumes inv: "server_inv E"
    and sid: "\<And>a S. active E a \<Longrightarrow> sr_sessions E a = Some S \<Longrightarrow> sv_sessionId S \<noteq> sid"
  shows "server_inv (SessionEstablished allocates sid pSession garbage E)"
proof -
  let ?n = "sr_nextSession E" and ?S = "new_EventServerSession allocates sid pSession garbage"
  let ?M = "(sr_sessions E)(?n \<mapsto> ?S)"
  have old: "\<exists>S. sr_sessions E a = Some S" if "active E a" for a
    by (rule active_cases [OF inv that]) blast+
  have new: "\<not> active E ?n"
  proof
    assume "active E ?n"
    with old inv show False by (force simp: server_inv_def)
  qed
  have S: "owned [] ?S" "sv_assignedProviderId ?S = 0" "sv_pUpdateBlock ?S = None" "sv_sessionId ?S = sid"
    using new_EventServerSession_owned by (simp_all add: new_EventServerSession_def)
  have "served_ok ?M x" if x: "x \<in> set (sr_eventProviders E)" for x
  proof -
    have "served_ok (sr_sessions E) x" using inv x by (simp add: server_inv_def)
    moreover have "sp_pSession (snd x) \<noteq> Some ?n" using new x by (cases x) (auto simp: set_acquired)
    ultimately show ?thesis by (cases x) (auto simp: served_ok_def)
  qed
  moreover have "pending_ok ?M b" if "b \<in> set (sr_pendingSessions E @ [?n])" for b
    using inv that S by (auto simp: server_inv_def pending_ok_def)
  moreover have "ids_ok ?M ((sr_pendingSessions E @ [?n]) @ acquired (sr_eventProviders E))"
  proof -
    have ids: "ids_ok (sr_sessions E) (sr_pendingSessions E @ acquired (sr_eventProviders E))" using inv by (simp add: server_inv_def)
    have act: "active E c" if "c \<in> set ((sr_pendingSessions E @ [?n]) @ acquired (sr_eventProviders E))" "c \<noteq> ?n" for c
      using that by auto
    show ?thesis unfolding ids_ok_def
    proof (intro ballI allI impI)
      fix c d X Y
      assume c: "c \<in> set ((sr_pendingSessions E @ [?n]) @ acquired (sr_eventProviders E))" "?M c = Some X"
        and d: "d \<in> set ((sr_pendingSessions E @ [?n]) @ acquired (sr_eventProviders E))" "?M d = Some Y"
        and eq: "sv_sessionId X = sv_sessionId Y"
      have fresh: "sv_sessionId Z \<noteq> sid" if "active E b" "?M b = Some Z" "b \<noteq> ?n" for b Z using sid [of b Z] that by simp
      show "c = d"
      proof (cases "c = ?n \<or> d = ?n")
        case True
        have "sv_sessionId Z = sid" if "?M ?n = Some Z" for Z using S(4) that by simp
        with fresh [OF act [OF c(1)] c(2)] fresh [OF act [OF d(1)] d(2)] c(2) d(2) eq True show ?thesis by metis
      next
        case False
        with ids act [OF c(1)] act [OF d(1)] c(2) d(2) eq show ?thesis unfolding ids_ok_def by simp
      qed
    qed
  qed
  moreover have "distinct ((sr_pendingSessions E @ [?n]) @ acquired (sr_eventProviders E))"
    using inv new by (auto simp: server_inv_def)
  moreover have "blocks_ok ?M (server_blocks (sr_transferManager E))" using inv S(3) by (auto simp: server_inv_def blocks_ok_def)
  ultimately show ?thesis using inv by (simp add: server_inv_def SessionEstablished_def)
qed

text \<open>The updates of a provider do not change what a query answers, apart from the state of the provider.\<close>

lemma response_size_returned: "length (providers_response (returned i sp Q E)) = length (providers_response E)"
proof -
  have "length (provider_description (s\<lparr>sp_provider := P\<rparr>)) = length (provider_description s)" for s P
    by (simp add: provider_description_def ProviderDescriptionHeader_def GetProviderEventData_def)
  then have same: "length (concat (map (provider_description \<circ> snd) (map (\<lambda>(j, s). (j, if j = i then s\<lparr>sp_provider := P\<rparr> else s)) ps))) =
      length (concat (map (provider_description \<circ> snd) ps))" for P ps
    by (induction ps) auto
  have "sr_eventProviders (returned i sp Q E) =
      map (\<lambda>(j, s). (j, if j = i then s\<lparr>sp_provider := Q\<lparr>ev_pSession := None\<rparr>\<rparr> else s)) (sr_eventProviders E)"
    by (simp add: returned_def Let_def set_served_def split: option.split)
  then show ?thesis unfolding providers_response_def using same by simp
qed

text \<open>A request stays allowed while event data moves.\<close>

lemma request_allowed_same:
  assumes "request_allowed T a E" "same_requests E E1" "length (providers_response E1) = length (providers_response E)"
  shows "request_allowed T a E1"
  unfolding request_allowed_def
proof (intro allI impI)
  fix S assume S: "sr_sessions E1 a = Some S \<and> sv_state S = EventSessionState.ProcessPayload"
  from assms(2) have "map_option control (sr_sessions E a) = map_option control (sr_sessions E1 a)" by (simp add: same_requests_def)
  with S obtain U where U: "sr_sessions E a = Some U" "control U = control S" by (metis (no_types, lifting) map_option_eq_Some option.simps(9))
  have same: "links E1 = links E" "sr_pendingSessions E1 = sr_pendingSessions E" "sr_transferManager E1 = sr_transferManager E"
    using assms(2) by (simp_all add: same_requests_def)
  from U(2) S have "sv_state U = EventSessionState.ProcessPayload" "sv_payloadContainer U = sv_payloadContainer S" "sv_pUpdateBlock U = sv_pUpdateBlock S"
    by (simp_all add: control_def)
  with assms(1,3) U(1) same show "let messageCode = pc_payload (sv_payloadContainer S) ! 0 in
     (messageCode = EventMessage_QueryProvidersRequest \<longrightarrow> room_for T (length (providers_response E1))) \<and>
     (messageCode = EventMessage_SubscribeToProviderRequest \<longrightarrow> a \<in> set (sr_pendingSessions E1)) \<and>
     (messageCode = EventMessage_ApplyProviderUpdatesRequest \<longrightarrow>
       (\<forall>p b. sv_pUpdateBlock S = Some p \<longrightarrow> server_blocks (sr_transferManager E1) p = Some b \<longrightarrow>
          updates_allowed (links E1) (take (unat (m_blockDataSize b)) (m_chunks b))))"
    by (simp add: request_allowed_def Let_def)
qed

lemma EventServer_UpdateSession_ok:
  assumes inv: "server_inv E" and allowed: "\<And>a. active E a \<Longrightarrow> request_allowed T a E"
  shows "\<exists>s E1. EventServer_UpdateSession T t sid pSession E = Some (s, E1) \<and> server_inv E1"
proof -
  from FindProviderBySessionId_total [OF inv, of sid] obtain p where
    p: "FindProviderBySessionId sid E = Some p" "\<forall>i. p = Some i \<longrightarrow>
      (\<exists>sp a S. find_served i E = Some sp \<and> sp_pSession sp = Some a \<and> sr_sessions E a = Some S \<and> sv_sessionId S = sid)" by blast
  show ?thesis
  proof (cases p)
    case (Some i)
    with p(2) obtain sp a S where sp: "find_served i E = Some sp" "sp_pSession sp = Some a" "sr_sessions E a = Some S" by auto
    from updating.on_provider_acquired [where now = "ut_provider t" and locked = "ut_chunksLocked t", OF inv sp] obtain Q E1 where
      U: "on_provider i (\<lambda>P. map_option (Pair ()) (Provider_Update (ut_provider t) (ut_chunksLocked t) P)) E = Some ((), E1)"
        "E1 = returned i sp Q E" "server_inv E1" "find_served i E1 = Some (sp\<lparr>sp_provider := Q\<lparr>ev_pSession := None\<rparr>\<rparr>)"
        "same_requests E E1" by auto
    have "active E a" using sp(1,2) by (auto simp: set_acquired find_served_def dest: map_of_SomeD)
    moreover have act: "active E1 a" using sp(2) U(4) by (force simp: set_acquired find_served_def dest: map_of_SomeD)
    ultimately have "request_allowed T a E1"
      using request_allowed_same [OF allowed U(5)] response_size_returned U(2) by simp
    from UpdateSession_ok [OF U(3) act this] obtain E2 where
      "EventServerSession_UpdateSession T (ut_session t) (ut_poolLocked t) a E1 = Some E2" "server_inv E2" by blast
    then show ?thesis using U(1,4) p(1) Some sp(2) by (simp add: EventServer_UpdateSession_def do_provider_def)
  next
    case None
    from FindPendingSessionById_total [OF inv, of sid] obtain r where
      r: "FindPendingSessionById sid E = Some r" "\<forall>k. r = Some k \<longrightarrow> k < length (sr_pendingSessions E)" by blast
    show ?thesis
    proof (cases r)
      case (Some k)
      with r(2) have "active E (sr_pendingSessions E ! k)" by simp
      from UpdateSession_ok [OF inv this allowed [OF this]] p None r(1) Some show ?thesis
        by (auto simp: EventServer_UpdateSession_def)
    next
      case none: None
      with p None r inv show ?thesis by (simp add: EventServer_UpdateSession_def Let_def)
    qed
  qed
qed

end
