(* ===== verification/Served_Theorems.thy ===== *)
theory Served_Theorems
  imports Event_Operations Transfer_Theorems
begin

text \<open>
  The reachable states of the event server under what the message layer, the clients and the owners of providers do,
  and the properties of the server.
\<close>

subsection \<open>Steps\<close>

datatype server_op =
    UpdateOp UpdateTimes SessionId ISession
  | EstablishOp "nat \<Rightarrow> bool" SessionId ISession u64
  | TerminateOp SessionId
  | RegisterOp bool nat ServedProvider
  | UnregisterOp EventProviderId
  | WriteOp EventProviderId WriteTimes u32 "u8 list option" "u8 list"
  | TransferOp TransferManager

text \<open>The transfer server shares the transfer manager and runs in between.\<close>

fun server_step :: "TransferParams \<Rightarrow> server_op \<Rightarrow> EventServer \<Rightarrow> EventServer option" where
  "server_step T (UpdateOp t sid pSession) E = map_option snd (EventServer_UpdateSession T t sid pSession E)"
| "server_step T (EstablishOp allocates sid pSession garbage) E = Some (SessionEstablished allocates sid pSession garbage E)"
| "server_step T (TerminateOp sid) E = SessionTerminated T sid E"
| "server_step T (RegisterOp inserted position sp) E = Some (snd (RegisterProvider inserted position sp E))"
| "server_step T (UnregisterOp i) E = map_option snd (UnregisterProvider T i E)"
| "server_step T (WriteOp i t eventId pHdr d) E = map_option snd (on_provider i (WriteEventWithHeader t eventId pHdr d) E)"
| "server_step T (TransferOp M) E = Some (E\<lparr>sr_transferManager := M\<rparr>)"

text \<open>
  What the callers keep to: requests are allowed, a new session has an identifier of its own, a provider is registered
  as it was made, events are written to registered providers, and the blocks that sessions write to stay.
\<close>

fun op_allowed :: "TransferParams \<Rightarrow> server_op \<Rightarrow> EventServer \<Rightarrow> bool" where
  "op_allowed T (UpdateOp t sid pSession) E \<longleftrightarrow>
     list_all (\<lambda>a. request_allowed T a E) (sr_pendingSessions E @ acquired (sr_eventProviders E))"
| "op_allowed T (EstablishOp allocates sid pSession garbage) E \<longleftrightarrow>
     list_all (\<lambda>a. map_option sv_sessionId (sr_sessions E a) \<noteq> Some sid) (sr_pendingSessions E @ acquired (sr_eventProviders E))"
| "op_allowed T (RegisterOp inserted position sp) E \<longleftrightarrow> fresh_served sp"
| "op_allowed T (WriteOp i t eventId pHdr d) E \<longleftrightarrow> find_served i E \<noteq> None"
| "op_allowed T (TransferOp M) E \<longleftrightarrow> (\<forall>q. server_blocks (sr_transferManager E) q \<noteq> None \<longrightarrow> server_blocks M q \<noteq> None)"
| "op_allowed T _ E \<longleftrightarrow> True"

inductive server_reaches :: "TransferParams \<Rightarrow> TransferManager \<Rightarrow> EventServer \<Rightarrow> bool" for T manager where
  started: "server_reaches T manager (new_EventServer manager)"
| stepped: "server_reaches T manager E \<Longrightarrow> op_allowed T oper E \<Longrightarrow> server_step T oper E = Some E1 \<Longrightarrow> server_reaches T manager E1"

text \<open>Every step is possible and keeps the invariant.\<close>

lemma write_step_ok:
  assumes inv: "server_inv E" and sp: "find_served i E = Some sp"
  shows "\<exists>r E1. on_provider i (WriteEventWithHeader t eventId pHdr d) E = Some (r, E1) \<and> server_inv E1"
proof (cases "sp_pSession sp")
  case None
  have ok: "served_ok (sr_sessions E) (i, sp)" by (rule served_at [OF inv sp])
  with None have P: "QueryEventWriteStatus (sp_provider sp) \<noteq> Success" "ev_pSession (sp_provider sp) = None"
    by (auto simp: served_ok_def QueryEventWriteStatus_Success)
  then have "WriteEventWithHeader t eventId pHdr d (sp_provider sp) = Some (QueryEventWriteStatus (sp_provider sp), sp_provider sp)"
    by (simp add: WriteEventWithHeader_def Let_def)
  moreover have "returned i sp (sp_provider sp) E = E" using returned_same [OF sp None _ P(2)] inv by (simp add: server_inv_def)
  ultimately show ?thesis using sp None inv by (simp add: on_provider_def lent_def)
next
  case (Some a)
  from served_session [OF inv sp Some] obtain S where S: "sr_sessions E a = Some S" by blast
  from write_operation.on_provider_acquired [where t = t and eventId = eventId and pHdr = pHdr and d = d, OF inv sp Some S]
  show ?thesis by blast
qed

lemma server_step_ok:
  assumes inv: "server_inv E" and allowed: "op_allowed T oper E"
  shows "\<exists>E1. server_step T oper E = Some E1 \<and> server_inv E1"
proof (cases oper)
  case (UpdateOp t sid pSession)
  have "request_allowed T a E" if "active E a" for a
    using allowed that unfolding UpdateOp op_allowed.simps list_all_iff by blast
  from EventServer_UpdateSession_ok [OF inv this] obtain s E1 where
    "EventServer_UpdateSession T t sid pSession E = Some (s, E1)" "server_inv E1" by blast
  then show ?thesis by (simp add: UpdateOp)
next
  case (EstablishOp allocates sid pSession garbage)
  have "sv_sessionId S \<noteq> sid" if "active E a" "sr_sessions E a = Some S" for a S
    using allowed that unfolding EstablishOp op_allowed.simps list_all_iff by fastforce
  from SessionEstablished_inv [OF inv this] show ?thesis by (simp add: EstablishOp)
next
  case (TerminateOp sid)
  with SessionTerminated_ok [OF inv] show ?thesis by simp
next
  case (RegisterOp inserted position sp)
  with RegisterProvider_inv [OF inv] allowed show ?thesis by simp
next
  case (UnregisterOp i)
  from UnregisterProvider_ok [OF inv, of T i] UnregisterOp show ?thesis by auto
next
  case (WriteOp i t eventId pHdr d)
  with allowed obtain sp where "find_served i E = Some sp" by auto
  from write_step_ok [OF inv this, of t eventId pHdr d] WriteOp show ?thesis by auto
next
  case (TransferOp M)
  with manager_inv [OF inv] allowed show ?thesis by simp
qed

lemma server_reaches_inv: "server_reaches T manager E \<Longrightarrow> server_inv E"
proof (induction rule: server_reaches.induct)
  case started
  show ?case by (rule new_EventServer_inv)
next
  case (stepped E oper E1)
  with server_step_ok [OF stepped.IH stepped.hyps(2)] show ?case by simp
qed

text \<open>A run of allowed steps.\<close>

fun server_run :: "TransferParams \<Rightarrow> server_op list \<Rightarrow> EventServer \<Rightarrow> EventServer option" where
  "server_run T [] E = Some E"
| "server_run T (oper # opers) E =
    (if op_allowed T oper E then Option.bind (server_step T oper E) (server_run T opers) else None)"

lemma server_run_reaches:
  "server_reaches T manager E \<Longrightarrow> server_run T opers E = Some E1 \<Longrightarrow> server_reaches T manager E1"
  by (induction opers arbitrary: E) (auto simp: bind_eq_Some_conv split: if_splits intro: server_reaches.stepped)

lemmas server_runs = server_run_reaches [OF server_reaches.started]

subsection \<open>Properties\<close>

text \<open>A run to try the properties on: two providers register, a client connects and asks for the first of them.\<close>

definition sample_provider :: "EventProviderId \<Rightarrow> ServedProvider" where
  "sample_provider i = \<lparr>sp_provider = new_BaseEventProvider i 100 1000, sp_pSession = None, sp_numEvents = 2,
     sp_eventDescriptionData = [1, 2, 3]\<rparr>"

definition sample_client_session :: ISession where
  "sample_client_session = sample_session [(Success, EventHeader EventMessage_SubscribeToProviderRequest 0 @ put_word 4 (9 :: u32))] []"

definition sample_times :: UpdateTimes where
  "sample_times = \<lparr>ut_provider = 5, ut_chunksLocked = False, ut_session = 6, ut_poolLocked = False\<rparr>"

definition sample_registered :: EventServer where
  "sample_registered = (new_EventServer (new_TransferManager sample_transfer 42))
     \<lparr>sr_eventProviders := [(9, (sample_provider 9)\<lparr>sp_provider := Provider_Register (new_BaseEventProvider 9 100 1000)\<rparr>),
        (7, (sample_provider 7)\<lparr>sp_provider := Provider_Register (new_BaseEventProvider 7 100 1000)\<rparr>)]\<rparr>"

lemma sample_registered_reached: "server_reaches sample_transfer (new_TransferManager sample_transfer 42) sample_registered"
  by (rule server_runs [where opers = "[RegisterOp True 0 (sample_provider 9), RegisterOp True 1 (sample_provider 7)]"])
    (simp add: sample_registered_def RegisterProvider_def find_served_def new_EventServer_def sample_provider_def fresh_served_def
      new_BaseEventProvider_def Provider_Register_def)

definition sample_asking :: "EventServer option" where
  "sample_asking = server_run sample_transfer [EstablishOp (\<lambda>_. True) 6 sample_client_session 100, UpdateOp sample_times 6 sample_client_session]
     sample_registered"

lemmas sample_defs = sample_registered_def sample_provider_def sample_client_session_def sample_times_def new_EventServer_def
  new_BaseEventProvider_def Provider_Register_def SessionEstablished_def new_EventServerSession_def EventServer_UpdateSession_def
  FindProviderBySessionId_def FindPendingSessionById_def EventServerSession_UpdateSession_def receive_request_def
  trim_now_and_then_def TrimEventChunkMemory_def kTrimFrequencyInMs_def kMaxChunksPerTrim_def IsTargetMemoryUsageExceeded_def
  kTargetAllocatedChunks_def ISession_ReceivePayload_def request_allowed_def set_session_def sample_session_def
  CreatePayload_def new_SizedPayloadContainer_def memcpy_def EventHeader_def put_word_def

lemma sample_asking: "\<exists>E S. sample_asking = Some E \<and> sr_pendingSessions E = [0] \<and> sr_sessions E 0 = Some S \<and>
    sr_eventProviders E = sr_eventProviders sample_registered \<and> sr_transferManager E = new_TransferManager sample_transfer 42 \<and>
    sv_state S = EventSessionState.ProcessPayload \<and>
    pc_payload (sv_payloadContainer S) ! 0 = EventMessage_SubscribeToProviderRequest \<and>
    get_word 4 4 (pc_payload (sv_payloadContainer S)) = (9 :: u32)"
  by (simp add: sample_asking_def sample_defs Let_def get_word_def)

lemma sample_asking_reached:
  "sample_asking = Some E \<Longrightarrow> server_reaches sample_transfer (new_TransferManager sample_transfer 42) E"
  unfolding sample_asking_def by (rule server_run_reaches [OF sample_registered_reached])

lemma sample_acquired [simp]: "acquired (sr_eventProviders sample_registered) = []"
  by (simp add: sample_registered_def sample_provider_def)

text \<open>One more update, and the first provider has the session.\<close>

definition sample_served :: "EventServer option" where
  "sample_served = server_run sample_transfer [EstablishOp (\<lambda>_. True) 6 sample_client_session 100,
     UpdateOp sample_times 6 sample_client_session, UpdateOp sample_times 6 sample_client_session] sample_registered"

lemma sample_served: "\<exists>E sq sp. sample_served = Some E \<and> sr_pendingSessions E = [] \<and> find_served 9 E = Some sq \<and>
    sp_pSession sq = Some 0 \<and> find_served 7 E = Some sp \<and> sp_pSession sp = None"
  by (simp add: sample_served_def sample_defs Let_def get_word_def process_request_def HandleSubscribeToProviderRequest_def
      AssignSessionToProvider_def find_served_def set_served_def remove_pending_def remove_index_def respond_def
      EventResponse_def Provider_Enable_def)

lemma sample_served_reached:
  "sample_served = Some E \<Longrightarrow> server_reaches sample_transfer (new_TransferManager sample_transfer 42) E"
  unfolding sample_served_def by (rule server_run_reaches [OF sample_registered_reached])

text \<open>C6. In every reachable state of the event server, every operation its callers may do next returns: registration, the
  establishment, update and end of sessions, requests and the writing of events use no null and no dangling pointer,
  and pending and acquired sessions keep disjoint event chunks.
\<close>

theorem event_server_safe:
  assumes "server_reaches T manager E" "op_allowed T oper E"
  shows "(\<exists>E1. server_step T oper E = Some E1) \<and>
    (\<forall>a \<in> set (sr_pendingSessions E @ acquired (sr_eventProviders E)). \<exists>S own. sr_sessions E a = Some S \<and> owned own S) \<and>
    distinct (sr_pendingSessions E @ acquired (sr_eventProviders E))"
proof -
  have inv: "server_inv E" by (rule server_reaches_inv [OF assms(1)])
  have "\<exists>S own. sr_sessions E a = Some S \<and> owned own S" if "active E a" for a
    by (rule active_cases [OF inv that]) blast+
  with server_step_ok [OF inv assms(2)] inv show ?thesis by (auto simp: server_inv_def)
qed

lemma event_server_safe_witness:
  "\<exists>E E1. sample_asking = Some E \<and> server_step sample_transfer (UpdateOp sample_times 6 sample_client_session) E = Some E1 \<and>
    distinct (sr_pendingSessions E @ acquired (sr_eventProviders E))"
proof -
  from sample_asking obtain E S where E: "sample_asking = Some E" "sr_pendingSessions E = [0]" "sr_sessions E 0 = Some S"
    "sr_eventProviders E = sr_eventProviders sample_registered" "pc_payload (sv_payloadContainer S) ! 0 = EventMessage_SubscribeToProviderRequest"
    by blast
  have "op_allowed sample_transfer (UpdateOp sample_times 6 sample_client_session) E"
    using E by (simp add: request_allowed_def)
  from event_server_safe [OF sample_asking_reached [OF E(1)] this] E(1) show ?thesis by blast
qed

text \<open>C21. With memory for a block, a query is answered with success, and the response names a new, closed block of the
  transfer manager that holds the number of registered providers and for each the header, the event states and the
  description it was registered with, whatever their sizes (up to what a block can hold).  A transfer that asks for the
  identifier finds this block, if the identifier drawn was not in use.  Without memory for a block the response says
  so and nothing is opened.
\<close>

theorem query_describes_providers:
  assumes "server_reaches T manager E" "sr_sessions E a = Some S" "room_for T (length (providers_response E))"
  defines "M \<equiv> sr_transferManager E"
  shows "\<exists>r blockId E1 U. HandleQueryProvidersRequest T a E = Some (EventSessionState.SendPayload, E1) \<and> sr_sessions E1 a = Some U \<and>
    sv_payloadContainer U = CreatePayload (EventBlockResponse EventMessage_QueryProvidersResponse r blockId) (sv_payloadContainer S) \<and>
    (if blockMemory T then r = Success \<and> (\<exists>b. server_blocks (sr_transferManager E1) (next_block M) = Some b \<and>
         m_blockId b = blockId \<and> m_isClosed b \<and> holds b (providers_response E))
     else r = InsufficientMemory \<and> blockId = kInvalidBlockId \<and> server_blocks (sr_transferManager E1) = server_blocks M) \<and>
    (blockMemory T \<and> entryMemory T \<and> hb_inv (blockHash T) (m_registeredServerBlocks M) \<and> GetServerBlock T blockId M = None \<longrightarrow>
       GetServerBlock T blockId (sr_transferManager E1) = Some (next_block M))"
proof -
  from BuildQueryProvidersResponse_ok [OF assms(3)] obtain r blockId E1 where
    E1: "BuildQueryProvidersResponse T E = Some (r, blockId, E1)" "E1 = E\<lparr>sr_transferManager := sr_transferManager E1\<rparr>"
    and R: "response_in T E r blockId (sr_transferManager E1)" by blast
  have "sr_sessions E1 a = Some S" using arg_cong [OF E1(2), of sr_sessions] assms(2) by simp
  with E1(1) R response_found [OF R] show ?thesis
    by (intro exI [of _ r] exI [of _ blockId]) (simp add: HandleQueryProvidersRequest_def respond_def M_def response_in_def Let_def)
qed

lemma query_describes_providers_witness:
  "\<exists>E E1 U blockId b. sample_asking = Some E \<and> HandleQueryProvidersRequest sample_transfer 0 E = Some (EventSessionState.SendPayload, E1) \<and>
    sr_sessions E1 0 = Some U \<and> get_word 4 4 (pc_payload (sv_payloadContainer U)) = code_of_result Success \<and>
    get_word 8 4 (pc_payload (sv_payloadContainer U)) = blockId \<and> GetServerBlock sample_transfer blockId (sr_transferManager E1) = Some 0 \<and>
    server_blocks (sr_transferManager E1) 0 = Some b \<and> m_isClosed b \<and> holds b (providers_response E) \<and> length (providers_response E) = 50"
proof -
  from sample_asking obtain E S where E: "sample_asking = Some E" "sr_sessions E 0 = Some S"
    "sr_eventProviders E = sr_eventProviders sample_registered" "sr_transferManager E = new_TransferManager sample_transfer 42" by blast
  have len: "length (providers_response E) = 50"
    by (simp add: providers_response_def E(3) sample_registered_def sample_provider_def provider_description_def
        ProviderDescriptionHeader_def GetProviderEventData_def Pow2Align_def)
  then have room: "room_for sample_transfer (length (providers_response E))" by (simp add: room_for_def sample_transfer_def)
  let ?M = "sr_transferManager E"
  have M: "blockMemory sample_transfer" "entryMemory sample_transfer" "next_block ?M = 0"
    "hb_inv (blockHash sample_transfer) (m_registeredServerBlocks ?M)" "GetServerBlock sample_transfer i ?M = None" for i
    by (simp_all add: E(4) new_TransferManager_def hb_inv_new GetServerBlock_def FindValue_lookup lookup_new)
      (simp_all add: sample_transfer_def)
  from query_describes_providers [OF sample_asking_reached [OF E(1)] E(2) room] M obtain blockId E1 U b where
    r: "HandleQueryProvidersRequest sample_transfer 0 E = Some (EventSessionState.SendPayload, E1)" "sr_sessions E1 0 = Some U"
      "sv_payloadContainer U = CreatePayload (EventBlockResponse EventMessage_QueryProvidersResponse Success blockId) (sv_payloadContainer S)"
      "GetServerBlock sample_transfer blockId (sr_transferManager E1) = Some 0"
      "server_blocks (sr_transferManager E1) 0 = Some b" "m_isClosed b" "holds b (providers_response E)" by auto
  have w: "word_of_nat (unat x mod 4294967296) = x" for x :: u32
    using unsigned_less [of x, where ?'a = nat] by simp
  have "get_word 4 4 (pc_payload (sv_payloadContainer U)) = code_of_result Success"
    "get_word 8 4 (pc_payload (sv_payloadContainer U)) = blockId"
    by (simp_all add: r(3) CreatePayload_def memcpy_def EventBlockResponse_def EventResponse_def EventHeader_def get_word_def put_word_def w
        del: code_of_result.simps)
  with E(1) r len show ?thesis by blast
qed

text \<open>C20. A pending session that asks for a registered provider without a session gets it: the provider is enabled with a
  pointer to this session, the session leaves the list of pending ones and nothing else does, and the response that is
  sent next says success; no other provider changes.
\<close>

theorem subscription_acquires_provider:
  assumes "server_reaches T manager E" "a \<in> set (sr_pendingSessions E)" "sr_sessions E a = Some S"
    "pc_payload (sv_payloadContainer S) ! 0 = EventMessage_SubscribeToProviderRequest"
    "get_word 4 4 (pc_payload (sv_payloadContainer S)) = i" "find_served i E = Some sp" "sp_pSession sp = None"
  shows "\<exists>E1 U. process_request T a E = Some E1 \<and>
    find_served i E1 = Some (sp\<lparr>sp_pSession := Some a, sp_provider := Provider_Enable (sp_provider sp)\<rparr>) \<and>
    set (sr_pendingSessions E1) = set (sr_pendingSessions E) - {a} \<and> sr_sessions E1 a = Some U \<and>
    sv_state U = EventSessionState.SendPayload \<and> sv_assignedProviderId U = i \<and>
    sv_payloadContainer U = CreatePayload (EventResponse EventMessage_SubscribeResponse Success) (sv_payloadContainer S)"
proof -
  from AssignSessionToProvider_acquires [OF server_reaches_inv [OF assms(1)] assms(2,6,7)] assms(3) obtain E1 where
    E1: "AssignSessionToProvider a i E = Some (Success, E1)" "sr_sessions E1 = (sr_sessions E)(a \<mapsto> S\<lparr>sv_assignedProviderId := i\<rparr>)"
    "find_served i E1 = Some (sp\<lparr>sp_pSession := Some a, sp_provider := Provider_Enable (sp_provider sp)\<rparr>)"
    "set (sr_pendingSessions E1) = set (sr_pendingSessions E) - {a}" by auto
  then show ?thesis
    using assms(3-5) by (simp add: process_request_def HandleSubscribeToProviderRequest_def respond_def)
qed

lemma subscription_acquires_provider_witness:
  "\<exists>E E1 sp. sample_asking = Some E \<and> process_request sample_transfer 0 E = Some E1 \<and> find_served 9 E1 = Some sp \<and>
    sp_pSession sp = Some 0 \<and> ev_isEnabled (sp_provider sp) \<and> sr_pendingSessions E1 = []"
proof -
  from sample_asking obtain E S where E: "sample_asking = Some E" "sr_pendingSessions E = [0]" "sr_sessions E 0 = Some S"
    "sr_eventProviders E = sr_eventProviders sample_registered" "pc_payload (sv_payloadContainer S) ! 0 = EventMessage_SubscribeToProviderRequest"
    "get_word 4 4 (pc_payload (sv_payloadContainer S)) = (9 :: u32)" by blast
  obtain sp where sp: "find_served 9 E = Some sp" "sp_pSession sp = None"
    by (simp add: find_served_def E(4) sample_registered_def sample_provider_def)
  from subscription_acquires_provider [OF sample_asking_reached [OF E(1)] _ E(3,5,6) sp] E(1,2) show ?thesis
    by (auto simp: Provider_Enable_def)
qed

lemma not_pending_not_found:
  assumes inv: "server_inv E" and a: "active E a" "a \<notin> set (sr_pendingSessions E)" and S: "sr_sessions E a = Some S"
  shows "find_pending ((sr_sessions E)(a \<mapsto> U)) (sv_sessionId S) (sr_pendingSessions E) = Some None"
proof -
  have same: "a \<notin> set as \<Longrightarrow> find_pending ((sr_sessions E)(a \<mapsto> U)) sid as = find_pending (sr_sessions E) sid as" for sid as
    by (induction as) (auto split: option.split)
  have ids: "ids_ok (sr_sessions E) (sr_pendingSessions E @ acquired (sr_eventProviders E))" using inv by (simp add: server_inv_def)
  from FindPendingSessionById_total [OF inv, of "sv_sessionId S"] obtain r where
    r: "find_pending (sr_sessions E) (sv_sessionId S) (sr_pendingSessions E) = Some r" "\<forall>k. r = Some k \<longrightarrow> k < length (sr_pendingSessions E) \<and>
      (\<exists>U. sr_sessions E (sr_pendingSessions E ! k) = Some U \<and> sv_sessionId U = sv_sessionId S)"
    unfolding FindPendingSessionById_def by blast
  have "r = None"
  proof (rule ccontr)
    assume "r \<noteq> None"
    with r(2) obtain k U where k: "k < length (sr_pendingSessions E)" "sr_sessions E (sr_pendingSessions E ! k) = Some U" "sv_sessionId U = sv_sessionId S"
      by auto
    have "active E (sr_pendingSessions E ! k)" using k(1) by simp
    with ids a(1) k(2,3) S have "sr_pendingSessions E ! k = a" unfolding ids_ok_def by blast
    with a(2) k(1) show False by (metis nth_mem)
  qed
  with r(1) same [OF a(2)] show ?thesis by simp
qed

text \<open>C22. A session that has a provider and subscribes to another one breaks the server.  It is looked for among the
  pending sessions, where it is not, and the iterator at the end stands for the first element: with no session pending
  the vector is read outside of its elements, and otherwise a session that still waits is dropped, while two providers
  now point to one session.
\<close>

theorem second_subscription_drops_another:
  assumes "server_reaches T manager E" "find_served j E = Some sq" "sp_pSession sq = Some a"
    "find_served i E = Some sp" "sp_pSession sp = None"
  shows "case sr_pendingSessions E of
      [] \<Rightarrow> AssignSessionToProvider a i E = None
    | b # bs \<Rightarrow> \<exists>E1 sp1 sq1. AssignSessionToProvider a i E = Some (Success, E1) \<and>
        set (sr_pendingSessions E1) = set bs \<and> b \<notin> set bs \<and>
        find_served i E1 = Some sp1 \<and> sp_pSession sp1 = Some a \<and> find_served j E1 = Some sq1 \<and> sp_pSession sq1 = Some a"
proof -
  have inv: "server_inv E" by (rule server_reaches_inv [OF assms(1)])
  let ?f = "\<lambda>sp. sp\<lparr>sp_pSession := Some a, sp_provider := Provider_Enable (sp_provider sp)\<rparr>"
  have "(j, sq) \<in> set (sr_eventProviders E)" using assms(2) by (simp add: find_served_def map_of_SomeD)
  then have "a \<in> set (acquired (sr_eventProviders E))" using assms(3) unfolding set_acquired by blast
  then have a: "active E a" "a \<notin> set (sr_pendingSessions E)" using inv by (auto simp: server_inv_def)
  from served_session [OF inv assms(2,3)] obtain S where S: "sr_sessions E a = Some S" by blast
  let ?E1 = "set_session a (\<lambda>S. S\<lparr>sv_assignedProviderId := i\<rparr>) (set_served i ?f E)"
  have eq: "AssignSessionToProvider a i E = map_option (Pair Success) (remove_pending None ?E1)"
    using assms(4,5) S not_pending_not_found [OF inv a S]
    by (simp add: AssignSessionToProvider_def Let_def FindPendingSessionById_def set_session_def [of a _ "set_served i ?f E"])
  have *: "map_of (map (\<lambda>(k, s). (k, if k = i then f s else s)) ps) j = map_option (if j = i then f else id) (map_of ps j)" for f j ps
    by (induction ps) auto
  have "find_served j (set_served i f E) = map_option (if j = i then f else id) (find_served j E)" for f j
    by (simp add: find_served_def set_served_def *)
  moreover have "j \<noteq> i" using assms by auto
  ultimately have both: "find_served i ?E1 = Some (?f sp)" "find_served j ?E1 = Some sq" using assms(2,4) by simp_all
  show ?thesis
  proof (cases "sr_pendingSessions E")
    case Nil
    with eq show ?thesis by (simp add: remove_pending_def)
  next
    case (Cons b bs)
    have d: "distinct (b # bs)" using inv by (simp add: server_inv_def Cons [symmetric])
    define E2 where "E2 = ?E1\<lparr>sr_pendingSessions := remove_index 0 (b # bs)\<rparr>"
    have "AssignSessionToProvider a i E = Some (Success, E2)" using eq Cons by (simp add: remove_pending_def E2_def)
    moreover have "set (sr_pendingSessions E2) = set bs" "b \<notin> set bs" using remove_index_set(2) [OF d, of 0] d by (simp_all add: E2_def)
    moreover have "find_served i E2 = Some (?f sp)" "find_served j E2 = Some sq" using both by (simp_all add: E2_def find_served_def)
    ultimately show ?thesis using Cons assms(3) by simp
  qed
qed

lemma second_subscription_drops_another_witness:
  "\<exists>E. sample_served = Some E \<and> AssignSessionToProvider 0 7 E = None"
proof -
  from sample_served obtain E sq sp where E: "sample_served = Some E" "sr_pendingSessions E = []" "find_served 9 E = Some sq"
    "sp_pSession sq = Some 0" "find_served 7 E = Some sp" "sp_pSession sp = None" by blast
  from second_subscription_drops_another [OF sample_served_reached [OF E(1)] E(3-6)] E(1,2) show ?thesis by auto
qed

text \<open>C23. An update from a client may enable a provider that no session subscribed to; the next event that is written to
  this provider dereferences its null pointer to a session.
\<close>

theorem enable_without_session_crashes:
  assumes "server_reaches T manager E" "find_served i E = Some sp" "sp_pSession sp = None"
  shows "\<exists>E1. ApplyProviderUpdate i True E = Some (Success, E1) \<and> on_provider i (WriteEventWithHeader t eventId pHdr d) E1 = None"
proof -
  have inv: "server_inv E" by (rule server_reaches_inv [OF assms(1)])
  have ok: "served_ok (sr_sessions E) (i, sp)" by (rule served_at [OF inv assms(2)])
  let ?P = "Provider_Enable (sp_provider sp)"
  have P: "QueryEventWriteStatus ?P = Success" "ev_eventChunks ?P = []" "ev_pSession ?P = None"
    using ok assms(3) by (auto simp: served_ok_def QueryEventWriteStatus_Success Provider_Enable_def)
  then have crash: "WriteEventWithHeader t eventId pHdr d ?P = None"
    by (simp add: WriteEventWithHeader_def Let_def AcquireEventChunks_def BeginEventStream_def Provider_AllocateEventChunk_def)
  have d: "distinct (map fst (sr_eventProviders E))" using inv by (simp add: server_inv_def)
  let ?f = "\<lambda>sp. sp\<lparr>sp_provider := Provider_Enable (sp_provider sp)\<rparr>"
  obtain xs ys where "sr_eventProviders (set_served i ?f E) = xs @ (i, ?f sp) # ys" "i \<notin> fst ` set xs"
    by (rule find_served_split [OF assms(2) d]) blast
  from find_served_at [OF this] have "find_served i (set_served i ?f E) = Some (?f sp)" .
  with crash assms(2,3) show ?thesis by (simp add: ApplyProviderUpdate_def on_provider_def lent_def)
qed

lemma enable_without_session_crashes_witness:
  "\<exists>E1. ApplyProviderUpdate 9 True sample_registered = Some (Success, E1) \<and>
    on_provider 9 (WriteEventWithHeader \<lparr>wt_preamble = 0, wt_event = 1, wt_flush = 2\<rparr> 4 None [1]) E1 = None"
proof -
  have "find_served 9 sample_registered = Some ((sample_provider 9)\<lparr>sp_provider := Provider_Register (new_BaseEventProvider 9 100 1000)\<rparr>)"
    "sp_pSession ((sample_provider 9)\<lparr>sp_provider := Provider_Register (new_BaseEventProvider 9 100 1000)\<rparr>) = None"
    by (simp_all add: find_served_def sample_registered_def sample_provider_def)
  from enable_without_session_crashes [OF sample_registered_reached this] show ?thesis .
qed

end
