(* ===== verification/Spec2Isabelle.thy ===== *)
theory Spec2Isabelle
  imports Session_Link Manager_Theorems Router_Theorems Channel_Register Transfer_Faults Event_Theorems
    Served_Theorems
begin

text \<open>
  \<^bold>\<open>The message bus of the developer driver\<close>

  Tools and drivers talk over a message bus.  A client connects to a router, gets a 16-bit identifier,
  and exchanges fixed-size messages with other clients; on top of these unreliable messages, sessions
  give a reliable ordered stream between two clients; protocol servers are found through a session
  manager, which a message channel owns at the client's end; over sessions, blocks of data are
  transferred and events are streamed from providers in drivers to tools.  The development follows that
  stack from the wire to the router and up to the transfer protocol and the event stack.  All paths
  below are under \<^verbatim>\<open>src/\<close>.

  \<^bold>\<open>Parts and theories\<close>

  \<^item> \<^verbatim>\<open>DD_Prelude\<close>: machine integers as words, \<^verbatim>\<open>Result\<close> (\<^verbatim>\<open>shared/legacy/core/inc/ddcDefs.h\<close>), byte arrays,
    little-endian fields, ring indices.  \<^verbatim>\<open>Float32\<close>: the single-precision arithmetic of the round-trip
    estimate, with rounding to 24 bits.
  \<^item> \<^verbatim>\<open>Messages\<close>: \<^verbatim>\<open>gpuopen.h\<close>, \<^verbatim>\<open>gpuopen.cpp\<close>, \<^verbatim>\<open>systemProtocols\<close>: message structures with their byte layout,
    enums with the unnamed codes a peer can send, client metadata and its filter, validation of a
    buffer from outside, out-of-band messages.
  \<^item> \<^verbatim>\<open>Session_Core\<close>: \<^verbatim>\<open>session.h\<close>, \<^verbatim>\<open>session.cpp\<close>, one definition per method of \<^verbatim>\<open>Session\<close>: both windows, the
    handlers of Syn, SynAck, Fin, Data, Ack and Rst, retransmission, the periodic update, \<^verbatim>\<open>Send\<close>, \<^verbatim>\<open>Receive\<close>,
    \<^verbatim>\<open>Shutdown\<close>.  \<^verbatim>\<open>Receive_Inv\<close>, \<^verbatim>\<open>Session_Inv\<close>: the invariants of the windows.  \<^verbatim>\<open>Session_Safety\<close>: what a
    protocol server may do to a session, as a locale with the program's servers as instance.
    \<^verbatim>\<open>Session_Theorems\<close>: the properties of one session.  \<^verbatim>\<open>Session_Wire\<close>: which packets an update of the
    send window puts on the wire.  \<^verbatim>\<open>Session_Link\<close>: two sessions over a network that
    loses, duplicates and reorders, as a step relation, and that what is received is a prefix of what
    was sent.
  \<^item> \<^verbatim>\<open>Hash_Base\<close>, \<^verbatim>\<open>Hash_Inv\<close>, \<^verbatim>\<open>Hash_Map\<close>, \<^verbatim>\<open>Hash_Iter\<close>: \<^verbatim>\<open>util/hashBase.h\<close>, \<^verbatim>\<open>hashMap.h\<close>, \<^verbatim>\<open>hashSet.h\<close>: buckets as
    chains of entry groups, the blocks they are cut from, iterators and removal while iterating.  The
    locale \<open>finite_map\<close> is the contract clients use; it is interpreted for every hash function, bucket
    count and group size.
  \<^item> \<^verbatim>\<open>Session_Life\<close>, \<^verbatim>\<open>Session_Manager\<close>, \<^verbatim>\<open>Manager_Inv\<close>, \<^verbatim>\<open>Manager_Ops\<close>, \<^verbatim>\<open>Manager_Dispatch\<close>, \<^verbatim>\<open>Manager_Theorems\<close>:
    \<^verbatim>\<open>sessionManager.h\<close>, \<^verbatim>\<open>sessionManager.cpp\<close>, and version negotiation from \<^verbatim>\<open>baseProtocolServer.cpp\<close>.  Sessions
    are objects in a store, the two hash maps hold pointers to them and to protocol servers; every use
    of a pointer is a lookup that can fail.  Each operation that sends is a body (\<open>update_sessions\<close>,
    \<open>handle_session_message\<close>, \<open>unregister_protocol_server\<close>, \<open>handle_client_disconnection\<close>), what the
    method does under \<^verbatim>\<open>m_sessionMutex\<close>, and the method itself, the body under \<open>LockGuard\<close>.
  \<^item> \<^verbatim>\<open>Client_Random\<close>: \<^verbatim>\<open>Platform::Random\<close> (\<^verbatim>\<open>ddcPlatform.h\<close>, \<^verbatim>\<open>ddcPlatform.cpp\<close>) and its full period.
    \<^verbatim>\<open>Client_Manager\<close>: \<^verbatim>\<open>ListenerClientManager\<close> (\<^verbatim>\<open>apis/ddRouter/src/listener/clientmanagers\<close>); the locale
    \<open>id_source\<close> is what the router relies on, with the manager as instance.
  \<^item> \<^verbatim>\<open>Router_Base\<close>, \<^verbatim>\<open>Router_Core\<close>: \<^verbatim>\<open>routerCore.h\<close>, \<^verbatim>\<open>routerCore.cpp\<close>, \<^verbatim>\<open>transportThread.cpp\<close>: the maps of clients
    and transports, removal and broadcast, system and client management messages, the periodic update,
    the routing cache of a receiving thread.  \<^verbatim>\<open>Router_Inv\<close>, \<^verbatim>\<open>Router_Remove\<close>, \<^verbatim>\<open>Router_Ops\<close>,
    \<^verbatim>\<open>Router_System\<close>: its invariant and that every operation keeps it.  \<^verbatim>\<open>Router_Theorems\<close>: its properties.
  \<^item> \<^verbatim>\<open>Message_Channel\<close>: \<^verbatim>\<open>messageChannel.h\<close>, \<^verbatim>\<open>messageChannel.inl\<close>: registration, the receive loop, keep alive,
    discovery, tear-down.  \<^verbatim>\<open>Channel_Flow\<close>: what sessions do to the channel (the relation \<open>forwards\<close>: the
    packets appended to the wire, the answers used up, and exactly when the thread is left waiting for a
    mutex it holds); the locale \<open>channel_server\<close> extends the contract of a protocol server.
    \<^verbatim>\<open>Manager_Locks\<close>: the session manager's operations under the mutex, which return unless a write fails
    outright.  \<^verbatim>\<open>Channel_Inv\<close>: the channel's invariant.
    \<^verbatim>\<open>Channel_Theorems\<close>, \<^verbatim>\<open>Channel_Discovery\<close>, \<^verbatim>\<open>Channel_Handshake\<close>: its properties, the last with two
    channels at once.  \<^verbatim>\<open>Channel_Register\<close>: the channel and the router together.
  \<^item> \<^verbatim>\<open>Crc32\<close>: the checksum of \<^verbatim>\<open>third_party/dd_crc32\<close>, which the transfer protocol relies on.
  \<^item> \<^verbatim>\<open>Transfer_Base\<close>: the messages of \<^verbatim>\<open>ddTransferProtocol\<close>, blocks and manager of \<^verbatim>\<open>ddTransferManager\<close>, the
    session as a script.  \<^verbatim>\<open>Transfer_Server\<close>: \<^verbatim>\<open>ddTransferServer.cpp\<close>, the state machine of a transfer at the
    server.  \<^verbatim>\<open>Transfer_Client\<close>: \<^verbatim>\<open>legacyProtocolClient\<close> and \<^verbatim>\<open>ddTransferClient.cpp\<close>, with the waits and
    retries.  \<^verbatim>\<open>Transfer_Blocks\<close>: the remote blocks of \<^verbatim>\<open>ddTransferManager.cpp\<close>.  \<^verbatim>\<open>Transfer_Inv\<close>: what
    messages and blocks hold.  \<^verbatim>\<open>Transfer_Pull\<close>, \<^verbatim>\<open>Transfer_Read\<close>, \<^verbatim>\<open>Transfer_Theorems\<close>: the two ends of a pull
    and the pull as a whole; \<^verbatim>\<open>Transfer_Push\<close>, \<^verbatim>\<open>Transfer_Write\<close>: the same for a push.
    \<^verbatim>\<open>Transfer_Safety\<close>, \<^verbatim>\<open>Transfer_Count\<close>, \<^verbatim>\<open>Transfer_Faults\<close>: bounds, the count of transfers in progress,
    and faults.
  \<^item> \<^verbatim>\<open>Event_Tokens\<close>: time stamps (\<^verbatim>\<open>ddEventTimer.cpp\<close>), tokens, chunks and the view that writes across them
    (\<^verbatim>\<open>ddEventProtocol.h\<close>).  \<^verbatim>\<open>Event_Session\<close>: the half of \<^verbatim>\<open>ddEventServerSession.cpp\<close> that moves event data.
    \<^verbatim>\<open>Event_Provider\<close>: \<^verbatim>\<open>ddEventProvider.cpp\<close>.  \<^verbatim>\<open>Event_Queue\<close>, \<^verbatim>\<open>Event_View\<close>, \<^verbatim>\<open>Event_Written\<close>: the ownership of
    chunks and the stream of bytes that a session and a provider stand for.
  \<^item> \<^verbatim>\<open>Event_Parser\<close>: the incremental parser of \<^verbatim>\<open>ddEventParser/src/eventParser.cpp\<close>.  \<^verbatim>\<open>Event_Machine\<close>: the
    specification of streams, a machine that reads byte by byte.  \<^verbatim>\<open>Event_Simulation\<close>, \<^verbatim>\<open>Event_Refine\<close>,
    \<^verbatim>\<open>Event_Streaming\<close>: the parser implements it, however the buffers cut the stream.  \<^verbatim>\<open>Event_Legacy\<close>: the
    older parser \<^verbatim>\<open>legacyEventParser.cpp\<close>; \<^verbatim>\<open>Legacy_Refine\<close>, \<^verbatim>\<open>Legacy_Loop\<close>: the same for it, for every pair of
    callbacks that keeps the contract \<open>event_callbacks\<close>, a locale.  \<^verbatim>\<open>Event_Streamer\<close>: the writer of
    \<^verbatim>\<open>eventParser.cpp\<close> and the streamer of \<^verbatim>\<open>ddEventStreamer\<close>, its instance.  \<^verbatim>\<open>Event_Items\<close>: the round trip from
    tokens to events.  \<^verbatim>\<open>Event_Delivery\<close>, \<^verbatim>\<open>Event_Theorems\<close>: provider, session, client and streamer together.
  \<^item> \<^verbatim>\<open>Event_Server\<close>: \<^verbatim>\<open>ddEventServer.cpp\<close> and the other half of \<^verbatim>\<open>ddEventServerSession.cpp\<close>, the requests; sessions
    are objects in a store, the server and its providers hold pointers to them.  \<^verbatim>\<open>Event_Control\<close>: moving
    event data leaves the requests alone.  \<^verbatim>\<open>Event_Safety\<close>, \<^verbatim>\<open>Event_Served\<close>, \<^verbatim>\<open>Event_Query\<close>, \<^verbatim>\<open>Event_Requests\<close>,
    \<^verbatim>\<open>Event_Operations\<close>: the invariant of the server, the locale \<open>provider_operation\<close> of what it relies on when
    it runs an operation of a provider, and that every request and operation keeps the invariant.
    \<^verbatim>\<open>Served_Theorems\<close>: its reachable states and properties.

  \<^bold>\<open>How the code is modelled\<close>

  A struct or class is a record with the members of the code, a method a function from the state to
  the state and the result.  Integers keep their width.  A step is one method under the locks the code
  takes.  One mutex is part of the state, \<^verbatim>\<open>m_sessionMutex\<close> of the session manager, because the code can
  lock it twice: when the transport fails outright to take a packet, \<^verbatim>\<open>Forward\<close> calls \<^verbatim>\<open>Disconnect\<close>, which
  shuts down all sessions under this mutex.  It is the mutex of the POSIX platforms (\<^verbatim>\<open>ddcPosixPlatform.cpp\<close>):
  a thread that locks it while holding it waits for ever.  \<open>Forward_Disconnect\<close> records this in the channel,
  where the sessions see it, and \<open>LockGuard\<close> turns it into \<open>None\<close>.  On Windows a critical section may be
  entered again; the sessions would then be shut down and removed inside the loop that runs over them; that
  platform is not modelled.  The other locks are not part of the state.  What lies outside is an argument: the bus under a
  session (\<open>Channel\<close>, with a script of the answers to transmissions, a clock and a log of packets), memory
  allocation (a flag per insertion), the hash function, transports of the router (\<open>environment\<close>: the
  answer of the \<open>n\<close>-th transmission, which transports forward), the iteration order of unordered maps, and
  for transfers the session (\<open>ISession\<close>: what it receives, and what it answers to each attempt to send).
  Undefined behaviour that the code excludes only by its invariants is a value: \<open>None\<close> is a null or
  dangling pointer, an invalidated iterator, a copy beyond a buffer, a loop that spins or a recursion that does not end, and
  the safety theorems say that it does not occur.

  Loops whose end is not evident are partial functions into \<open>option\<close>: the search for a session
  identifier, for a client identifier, the recursion of \<^verbatim>\<open>RemoveClient\<close>, the retry of a response that is not
  ready, the transmission loop of the send window; each has a theorem that it returns, with its exact
  condition.  A loop over a hash container is bounded by the number of its entries, which
  \<open>for_entries_eq\<close> shows to be enough.  The waiting loop of \<^verbatim>\<open>ShutDownAllSessions\<close> and of \<^verbatim>\<open>Receive\<close> takes the
  list of what happens in each round of waiting, so every number of rounds is covered.  The blocks of a
  hash container are not limited to the 32 that its array has room for.

  \<^bold>\<open>What is shown\<close>

  \<^item> Sessions: windows keep their invariant under every message the manager can deliver
    (\<open>HandleMessage_safe\<close>: all but a Syn to a session that is not listening), updates return and
    never spin, acknowledgements free exactly what they name, an update sends exactly the packets that
    flow control allows, timeouts stay within
    their bounds, \<^verbatim>\<open>Receive\<close> on every branch, the state machine (the table \<open>next_state\<close> is its specification), and end to end that delivery is in order
    without loss or duplication (\<open>link_delivers_in_order\<close>).
  \<^item> Containers: the hash map refines a finite map under any sequence of calls and allocation failures,
    loops that remove the entry they are at visit every entry once.
  \<^item> Session manager: no null or dangling pointer in any reachable state, identifiers are unique, closed
    sessions are removed, stray packets are answered by the right reset, shutdown ends with no session.
  \<^item> Client manager and router: identifiers are unique among registered clients, the recursion of
    removal and broadcast is safe although peers may claim any identifier, broadcasts reach everyone,
    silent clients expire after a fixed number of updates, a connection is registered and announced once, stopping
    leaves nothing behind.
  \<^item> Message channel: an update returns and keeps its invariant, a silent peer is given up after five
    heartbeats, discovery tells of every client that answers, once; with the router, a registration ends in the
    identifier the router has recorded; between two channels, a ping is answered exactly when its filter
    matches, and the pong tells who answered.
  \<^item> Checksum: the table-driven routine is the division by the polynomial, and finds every change within
    four consecutive bytes.
  \<^item> Transfers: a block that is pulled arrives whole and one that is pushed is stored whole, with both
    ends run on each other's messages, any buffers and pauses, and refused sends of the server; reading stays within its
    buffers and returns whatever the server sends; transfers are counted off when their session ends.
  \<^item> Events: the events with a payload that a provider writes reach the callback of the tool, in order and whole, whatever fails to
    be allocated or sent on the way and however the messages cut the stream (\<open>events_reach_the_tool\<close>); chunks
    are in one place only; the parser refines a machine on bytes and its state is well formed; the older
    parser agrees with it on what providers write; the clock of a reader lags by a bounded time.
  \<^item> Some theorems state what the code does where it departs from what it means to do: the fast
    retransmission of an empty slot, a SynAck that re-keys an established session, blocks lost by \<^verbatim>\<open>Reset\<close>
    followed by \<^verbatim>\<open>Clear\<close>, metadata flags lost on the wire, a routing cache that keeps stale and unknown
    destinations, identifiers that are handed out without being recorded, a mutex locked twice when the
    transport fails, a chunk too short for its header, a chunk counted twice in the checksum, a transfer
    that stays counted, blocks that share an identifier, a token buffer that is overrun, a second
    subscription, a provider enabled without a session.

  \<^bold>\<open>Not modelled\<close>

  Concurrency below the locks, logging, assertions (which release builds drop), and memory layout
  beyond the wire format.  Sockets, pipes and kernel queues are input and output of the operating
  system.  A transfer's session is a script rather than the session model itself, whose delivery in
  order is \<open>link_delivers_in_order\<close>.  Not modelled yet, in the order of the plan: the URI and driver
  protocols over sessions, the RPC interfaces, the readers and writers of structured data.
  Vendored libraries (\<^verbatim>\<open>imported\<close>) and the loadable modules are outside the scope.
\<close>

end
